(* ===== verification/Kernel_Prelude.thy ===== *)
theory Kernel_Prelude imports Main "HOL-Library.Word" "HOL-Library.Multiset" begin

text \<open>
  What every component theory shares: the names of the machine types, the pointer type, the
  list operations an \<open>IntrusiveQueue\<close> performs seen from its contents, 64-bit wrap-around on
  \<open>nat\<close>, and the collections of rewrite rules the component proofs use.

  Pointers are \<open>ptr = addr option\<close>, \<open>None\<close> being \<open>nullptr\<close>. A \<open>uint64_t\<close> quantity that
  only takes part in linear arithmetic is a \<open>nat\<close> and every operation on it that could leave
  64 bits is written under \<open>w64\<close> (or \<open>sub64\<close> for subtraction); where the code works bitwise
  the model uses \<open>'a word\<close>.
\<close>

section \<open>Machine types\<close>

type_synonym u8 = "8 word"
type_synonym u16 = "16 word"
type_synonym u32 = "32 word"
type_synonym u64 = "64 word"

type_synonym addr = nat
type_synonym ptr = "addr option"

section \<open>Rule collections\<close>

named_theorems queue_simps "what a queue operation does to the contents of the queue"
named_theorems inv_intros "an operation keeps the invariant of its component"
named_theorems frame_simps "fields an operation leaves alone"
named_theorems layout_simps "constants of the source, unfolded for arithmetic"

section \<open>Wrap-around on 64 bits\<close>

definition w64 :: "nat \<Rightarrow> nat" where
  "w64 x = x mod 18446744073709551616"

definition sub64 :: "nat \<Rightarrow> nat \<Rightarrow> nat" where
  "sub64 a b = (a + 18446744073709551616 - b) mod 18446744073709551616"

lemma w64_small [simp]: "x < 18446744073709551616 \<Longrightarrow> w64 x = x"
  by (simp add: w64_def)

lemma w64_less: "w64 x < 18446744073709551616"
  by (simp add: w64_def)

lemma sub64_small [simp]:
  assumes "b \<le> a" and "a < 18446744073709551616"
  shows "sub64 a b = a - b"
proof -
  have "sub64 a b = ((a - b) + 18446744073709551616) mod 18446744073709551616"
    unfolding sub64_def using assms(1) by (simp add: add.commute)
  also have "\<dots> = (a - b) mod 18446744073709551616"
    by (rule mod_add_self2)
  also have "\<dots> = a - b"
    using assms(2) by (intro mod_less) linarith
  finally show ?thesis .
qed

lemma sub64_wraps:
  assumes "a < b" and "b \<le> 18446744073709551616"
  shows "sub64 a b = 18446744073709551616 + a - b"
proof -
  have "a + 18446744073709551616 - b < 18446744073709551616"
    using assms by linarith
  then have "sub64 a b = a + 18446744073709551616 - b"
    unfolding sub64_def by (rule mod_less)
  then show ?thesis by (simp only: add.commute)
qed

section \<open>Removing the first match\<close>

text \<open>
  \<open>FindFirst\<close> followed by \<open>Remove\<close> of the node it returned, as every manager uses an
  \<open>IntrusiveQueue\<close>: the first element satisfying the test leaves the queue.
\<close>

fun remove_first :: "('a \<Rightarrow> bool) \<Rightarrow> 'a list \<Rightarrow> 'a list" where
  "remove_first P [] = []"
| "remove_first P (x # xs) = (if P x then xs else x # remove_first P xs)"

lemma remove_first_none [simp]: "\<forall>x\<in>set xs. \<not> P x \<Longrightarrow> remove_first P xs = xs"
  by (induction xs) auto

lemma set_remove_first_subset: "set (remove_first P xs) \<subseteq> set xs"
  by (induction xs) auto

lemma in_set_remove_firstD: "x \<in> set (remove_first P xs) \<Longrightarrow> x \<in> set xs"
  using set_remove_first_subset by fast

lemma remove_first_keeps: "x \<in> set xs \<Longrightarrow> \<not> P x \<Longrightarrow> x \<in> set (remove_first P xs)"
  by (induction xs) auto

lemma map_remove_first:
  "map f (remove_first (\<lambda>x. P (f x)) xs) = remove_first P (map f xs)"
  by (induction xs) auto

lemma distinct_map_remove_first:
  "distinct (map f xs) \<Longrightarrow> distinct (map f (remove_first P xs))"
  by (induction xs) (auto dest: in_set_remove_firstD)

lemma distinct_remove_first: "distinct xs \<Longrightarrow> distinct (remove_first P xs)"
  using distinct_map_remove_first [of "\<lambda>x. x"] by simp

lemma length_remove_first:
  "length (remove_first P xs) = (if \<exists>x\<in>set xs. P x then length xs - 1 else length xs)"
proof (induction xs)
  case Nil
  then show ?case by simp
next
  case (Cons x xs)
  then show ?case by (cases xs) auto
qed

lemma remove_first_eq_remove1: "remove_first (\<lambda>y. y = x) xs = remove1 x xs"
  by (induction xs) auto

lemma remove_first_append:
  "remove_first P (xs @ ys) =
     (if \<exists>x\<in>set xs. P x then remove_first P xs @ ys else xs @ remove_first P ys)"
  by (induction xs) auto

lemma remove_first_distinct_key:
  "distinct (map f xs) \<Longrightarrow> remove_first (\<lambda>x. f x = k) xs = filter (\<lambda>x. f x \<noteq> k) xs"
proof (induction xs)
  case Nil
  then show ?case by simp
next
  case (Cons x xs)
  show ?case
  proof (cases "f x = k")
    case True
    with Cons.prems have "\<forall>y\<in>set xs. f y \<noteq> k"
      by (metis distinct.simps(2) image_eqI list.map(2) list.set_map)
    with True show ?thesis by (auto simp: filter_id_conv)
  next
    case False
    with Cons show ?thesis by simp
  qed
qed

lemma key_notin_remove_first:
  "distinct (map f xs) \<Longrightarrow> k \<notin> f ` set (remove_first (\<lambda>x. f x = k) xs)"
  by (simp add: remove_first_distinct_key image_iff) metis

section \<open>Writing through the first match\<close>

text \<open>A search that stops at a node, and a write to the node found.\<close>

fun update_first :: "('a \<Rightarrow> bool) \<Rightarrow> ('a \<Rightarrow> 'a) \<Rightarrow> 'a list \<Rightarrow> 'a list" where
  "update_first P f [] = []"
| "update_first P f (x # xs) = (if P x then f x # xs else x # update_first P f xs)"

lemma map_update_first: "(\<And>x. g (f x) = g x) \<Longrightarrow> map g (update_first P f xs) = map g xs"
  by (induction xs) auto

lemma update_first_all:
  "\<forall>x\<in>set xs. Q x \<Longrightarrow> (\<And>x. x \<in> set xs \<Longrightarrow> P x \<Longrightarrow> Q x \<Longrightarrow> Q (f x)) \<Longrightarrow>
   \<forall>x\<in>set (update_first P f xs). Q x"
  by (induction xs) auto

lemma find_update_first:
  "(\<And>x. P (f x) = P x) \<Longrightarrow>
   List.find P (update_first P f xs) = map_option f (List.find P xs)"
  by (induction xs) auto

lemma find_update_first_other:
  "(\<And>x. P x \<Longrightarrow> \<not> Q x \<and> \<not> Q (f x)) \<Longrightarrow> List.find Q (update_first P f xs) = List.find Q xs"
  by (induction xs) auto

lemma find_remove_first_other:
  "(\<And>x. P x \<Longrightarrow> \<not> Q x) \<Longrightarrow> List.find Q (remove_first P xs) = List.find Q xs"
  by (induction xs) auto

lemma find_append:
  "List.find P (xs @ ys) = (case List.find P xs of None \<Rightarrow> List.find P ys | Some x \<Rightarrow> Some x)"
  by (induction xs) auto

lemma find_filter_other:
  "(\<And>x. x \<in> set xs \<Longrightarrow> Q x \<Longrightarrow> P x) \<Longrightarrow> List.find Q (filter P xs) = List.find Q xs"
  by (induction xs) auto

section \<open>Finding the first match\<close>

lemma find_NoneD: "List.find P xs = None \<Longrightarrow> x \<in> set xs \<Longrightarrow> \<not> P x"
  by (induction xs) (auto split: if_splits)

lemma find_SomeD: "List.find P xs = Some x \<Longrightarrow> x \<in> set xs \<and> P x"
  by (induction xs) (auto split: if_splits)

lemma find_map: "List.find P (map f xs) = map_option f (List.find (\<lambda>x. P (f x)) xs)"
  by (induction xs) auto

lemma find_filter: "List.find P (filter Q xs) = List.find (\<lambda>x. Q x \<and> P x) xs"
  by (induction xs) auto

lemma find_None_conv: "List.find P xs = None \<longleftrightarrow> (\<forall>x\<in>set xs. \<not> P x)"
  by (induction xs) auto

lemma find_ex: "\<exists>x\<in>set xs. P x \<Longrightarrow> \<exists>n. List.find P xs = Some n \<and> n \<in> set xs \<and> P n"
  by (induction xs) auto

lemma mset_rotate1 [simp]: "mset (rotate1 xs) = mset xs"
  by (cases xs) auto

section \<open>Lists updated by index\<close>

lemma nth_update_other: "i \<noteq> j \<Longrightarrow> xs[i := x] ! j = xs ! j"
  by simp

lemma list_all_update:
  "\<forall>x\<in>set xs. P x \<Longrightarrow> P y \<Longrightarrow> \<forall>x\<in>set (xs[i := y]). P x"
  by (auto dest: set_update_subset_insert [THEN subsetD])

section \<open>Bytes\<close>

text \<open>The number little-endian bytes stand for.\<close>

fun le :: "u8 list \<Rightarrow> nat" where
  "le [] = 0"
| "le (b # bs) = unat b + 256 * le bs"

end
