(* ===== verification/Intrusive_Queue.thy ===== *)
theory Intrusive_Queue imports Kernel_Prelude begin

text \<open>
  \<open>Kernel/Layers/Logic/IntrusiveQueue.hpp\<close>: the singly linked queue threaded through a member
  of its nodes. The queue is the pair of its two pointers; the \<open>NextMember\<close> of every node is
  a function \<open>nx :: addr \<Rightarrow> ptr\<close> that each operation takes and returns, so that two queues
  threaded through the same member share it, as they do in the code. The two \<open>while\<close> loops
  that walk the list are partial functions: \<open>None\<close> is a walk that never ends, which a
  corrupted (cyclic) list would cause.

  \<open>queue_rep nx q xs\<close> says that \<open>q\<close> holds exactly the nodes \<open>xs\<close>, in order. Each operation
  is shown to terminate under it and to act as the obvious list operation; the locale
  \<open>node_queue\<close> states that contract for the clients.
\<close>

record iqueue =
  HeadNode :: ptr
  TailNode :: ptr

definition IntrusiveQueue_init :: iqueue where
  "IntrusiveQueue_init = \<lparr>HeadNode = None, TailNode = None\<rparr>"

definition IsEmpty :: "iqueue \<Rightarrow> bool" where
  "IsEmpty q = (HeadNode q = None)"

definition Head :: "iqueue \<Rightarrow> ptr" where
  "Head q = HeadNode q"

definition Next :: "(addr \<Rightarrow> ptr) \<Rightarrow> ptr \<Rightarrow> ptr" where
  "Next nx node = (case node of None \<Rightarrow> None | Some n \<Rightarrow> nx n)"

definition PushBack :: "(addr \<Rightarrow> ptr) \<Rightarrow> iqueue \<Rightarrow> ptr \<Rightarrow> (addr \<Rightarrow> ptr) \<times> iqueue" where
  "PushBack nx q node =
     (case node of
        None \<Rightarrow> (nx, q)
      | Some n \<Rightarrow>
          (let nx1 = nx(n := None) in
           case TailNode q of
             None \<Rightarrow> (nx1, q\<lparr>HeadNode := Some n, TailNode := Some n\<rparr>)
           | Some t \<Rightarrow> (nx1(t := Some n), q\<lparr>TailNode := Some n\<rparr>)))"

definition PopFront :: "(addr \<Rightarrow> ptr) \<Rightarrow> iqueue \<Rightarrow> ptr \<times> (addr \<Rightarrow> ptr) \<times> iqueue" where
  "PopFront nx q =
     (case HeadNode q of
        None \<Rightarrow> (None, nx, q)
      | Some n \<Rightarrow>
          (let q1 = q\<lparr>HeadNode := nx n\<rparr>;
               q2 = (if HeadNode q1 = None then q1\<lparr>TailNode := None\<rparr> else q1)
           in (Some n, nx(n := None), q2)))"

text \<open>\<open>while (Previous != nullptr && NextOf(Previous) != Node) Previous = NextOf(Previous);\<close>\<close>

partial_function (option) remove_scan :: "(addr \<Rightarrow> ptr) \<Rightarrow> addr \<Rightarrow> ptr \<Rightarrow> ptr option" where
  "remove_scan nx n prev =
     (case prev of
        None \<Rightarrow> Some None
      | Some p \<Rightarrow> if nx p \<noteq> Some n then remove_scan nx n (nx p) else Some (Some p))"

definition Remove ::
    "(addr \<Rightarrow> ptr) \<Rightarrow> iqueue \<Rightarrow> ptr \<Rightarrow> (bool \<times> (addr \<Rightarrow> ptr) \<times> iqueue) option" where
  "Remove nx q node =
     (case (node, HeadNode q) of
        (None, _) \<Rightarrow> Some (False, nx, q)
      | (_, None) \<Rightarrow> Some (False, nx, q)
      | (Some n, Some h) \<Rightarrow>
          (if h = n then (case PopFront nx q of (_, nx1, q1) \<Rightarrow> Some (True, nx1, q1))
           else
             (case remove_scan nx n (Some h) of
                None \<Rightarrow> None
              | Some None \<Rightarrow> Some (False, nx, q)
              | Some (Some p) \<Rightarrow>
                  (let nx1 = nx(p := nx n);
                       q1 = (if TailNode q = Some n then q\<lparr>TailNode := Some p\<rparr> else q)
                   in Some (True, nx1(n := None), q1)))))"

text \<open>\<open>FindFirst(Member, Value)\<close>: the test \<open>Node->*Member == Value\<close> is the argument \<open>P\<close>.\<close>

partial_function (option) FindFirst_scan ::
    "(addr \<Rightarrow> ptr) \<Rightarrow> (addr \<Rightarrow> bool) \<Rightarrow> ptr \<Rightarrow> ptr option" where
  "FindFirst_scan nx P node =
     (case node of
        None \<Rightarrow> Some None
      | Some n \<Rightarrow> if P n then Some (Some n) else FindFirst_scan nx P (nx n))"

definition FindFirst :: "(addr \<Rightarrow> ptr) \<Rightarrow> iqueue \<Rightarrow> (addr \<Rightarrow> bool) \<Rightarrow> ptr option" where
  "FindFirst nx q P = FindFirst_scan nx P (HeadNode q)"

definition RotateFrontToBack :: "(addr \<Rightarrow> ptr) \<Rightarrow> iqueue \<Rightarrow> (addr \<Rightarrow> ptr) \<times> iqueue" where
  "RotateFrontToBack nx q =
     (if HeadNode q = None \<or> HeadNode q = TailNode q then (nx, q)
      else (case PopFront nx q of (old, nx1, q1) \<Rightarrow> PushBack nx1 q1 old))"

text \<open>\<open>ClearAndDelete\<close> returns the nodes it passes to \<open>delete\<close>, in order.\<close>

partial_function (option) ClearAndDelete ::
    "(addr \<Rightarrow> ptr) \<Rightarrow> iqueue \<Rightarrow> addr list \<Rightarrow> (addr list \<times> (addr \<Rightarrow> ptr) \<times> iqueue) option" where
  "ClearAndDelete nx q freed =
     (if IsEmpty q then Some (freed, nx, q)
      else (case PopFront nx q of (node, nx1, q1) \<Rightarrow>
              ClearAndDelete nx1 q1 (case node of None \<Rightarrow> freed | Some n \<Rightarrow> freed @ [n])))"

section \<open>What the pointers represent\<close>

fun chain :: "(addr \<Rightarrow> ptr) \<Rightarrow> ptr \<Rightarrow> addr list \<Rightarrow> bool" where
  "chain nx p [] = (p = None)"
| "chain nx p (a # as) = (p = Some a \<and> chain nx (nx a) as)"

definition queue_rep :: "(addr \<Rightarrow> ptr) \<Rightarrow> iqueue \<Rightarrow> addr list \<Rightarrow> bool" where
  "queue_rep nx q xs \<longleftrightarrow>
     chain nx (HeadNode q) xs \<and> distinct xs \<and>
     TailNode q = (if xs = [] then None else Some (last xs))"

lemma chain_update_other [simp]: "a \<notin> set xs \<Longrightarrow> chain (nx(a := v)) p xs = chain nx p xs"
  by (induction xs arbitrary: p) auto

lemma chain_cong: "(\<And>a. a \<in> set xs \<Longrightarrow> nx a = nx' a) \<Longrightarrow> chain nx p xs = chain nx' p xs"
  by (induction xs arbitrary: p) auto

lemma chain_None [simp]: "chain nx None xs = (xs = [])"
  by (cases xs) auto

lemma chain_Some: "chain nx (Some a) xs \<longleftrightarrow> (\<exists>ys. xs = a # ys \<and> chain nx (nx a) ys)"
  by (cases xs) auto

lemma chain_unique: "chain nx p xs \<Longrightarrow> chain nx p ys \<Longrightarrow> xs = ys"
  by (induction xs arbitrary: p ys) (auto simp: chain_Some)

lemma chain_last: "chain nx p xs \<Longrightarrow> xs \<noteq> [] \<Longrightarrow> nx (last xs) = None"
  by (induction xs arbitrary: p) auto

lemma chain_next:
  "chain nx p (xs @ a # ys) \<Longrightarrow> nx a = (case ys of [] \<Rightarrow> None | b # _ \<Rightarrow> Some b)"
  by (induction xs arbitrary: p) (auto split: list.splits)

lemma chain_append_cell:
  "chain nx p xs \<Longrightarrow> distinct xs \<Longrightarrow> xs \<noteq> [] \<Longrightarrow> n \<notin> set xs \<Longrightarrow> nx n = None \<Longrightarrow>
   chain (nx(last xs := Some n)) p (xs @ [n])"
proof (induction xs arbitrary: p)
  case Nil
  then show ?case by simp
next
  case (Cons a as)
  then show ?case by (cases "as = []") auto
qed

lemma chain_unlink:
  "chain nx p (xs @ a # n # ys) \<Longrightarrow> distinct (xs @ a # n # ys) \<Longrightarrow>
   chain (nx(a := nx n)) p (xs @ a # ys)"
  by (induction xs arbitrary: p) auto

section \<open>The operations on the represented list\<close>

lemma queue_rep_init: "queue_rep nx IntrusiveQueue_init []"
  by (simp add: queue_rep_def IntrusiveQueue_init_def)

lemma queue_rep_head: "queue_rep nx q xs \<Longrightarrow> HeadNode q = (case xs of [] \<Rightarrow> None | a # _ \<Rightarrow> Some a)"
  by (cases xs) (auto simp: queue_rep_def)

lemma queue_rep_empty: "queue_rep nx q xs \<Longrightarrow> IsEmpty q = (xs = [])"
  by (cases xs) (auto simp: queue_rep_def IsEmpty_def)

lemma queue_rep_distinct: "queue_rep nx q xs \<Longrightarrow> distinct xs"
  by (simp add: queue_rep_def)

lemma queue_rep_unique: "queue_rep nx q xs \<Longrightarrow> queue_rep nx q ys \<Longrightarrow> xs = ys"
  unfolding queue_rep_def by (blast intro: chain_unique)

lemma PushBack_rep:
  assumes "queue_rep nx q xs" and "n \<notin> set xs" and "PushBack nx q (Some n) = (nx', q')"
  shows "queue_rep nx' q' (xs @ [n])"
proof (cases "xs = []")
  case True
  with assms show ?thesis by (auto simp: queue_rep_def PushBack_def Let_def)
next
  case False
  with assms(1) have t: "TailNode q = Some (last xs)" by (simp add: queue_rep_def)
  have "chain (nx(n := None, last xs := Some n)) (HeadNode q) (xs @ [n])"
    using assms(1,2) False
    by (intro chain_append_cell) (auto simp: queue_rep_def)
  with assms t False show ?thesis
    by (auto simp: queue_rep_def PushBack_def Let_def)
qed

lemma PushBack_frame:
  "queue_rep nx q xs \<Longrightarrow> PushBack nx q (Some n) = (nx', q') \<Longrightarrow> a \<noteq> n \<Longrightarrow> a \<notin> set xs \<Longrightarrow> nx' a = nx a"
  by (auto simp: queue_rep_def PushBack_def Let_def split: if_splits)

lemma PopFront_rep:
  assumes "queue_rep nx q (a # xs)"
  shows "\<exists>nx' q'. PopFront nx q = (Some a, nx', q') \<and> queue_rep nx' q' xs
           \<and> nx' = nx(a := None)"
  using assms by (cases xs) (auto simp: queue_rep_def PopFront_def Let_def)

lemma PopFront_empty: "queue_rep nx q [] \<Longrightarrow> PopFront nx q = (None, nx, q)"
  by (simp add: queue_rep_def PopFront_def)

lemma remove_scan_found:
  "chain nx p (xs @ a # n # ys) \<Longrightarrow> distinct (xs @ a # n # ys) \<Longrightarrow>
   remove_scan nx n p = Some (Some a)"
proof (induction xs arbitrary: p)
  case Nil
  then show ?case by (subst remove_scan.simps) auto
next
  case (Cons x xs)
  have "nx x \<noteq> Some n"
    using chain_next [of nx p "[]" x "xs @ a # n # ys"] Cons.prems by (cases xs) auto
  with Cons show ?case by (subst remove_scan.simps) auto
qed

lemma remove_scan_absent:
  "chain nx p xs \<Longrightarrow> n \<notin> set (tl xs) \<Longrightarrow> remove_scan nx n p = Some None"
proof (induction xs arbitrary: p)
  case Nil
  then show ?case by (subst remove_scan.simps) auto
next
  case (Cons x xs)
  have "nx x \<noteq> Some n"
    using Cons.prems by (cases xs) auto
  moreover have "n \<notin> set (tl xs)"
    using Cons.prems by (cases xs) auto
  ultimately show ?case using Cons by (subst remove_scan.simps) auto
qed

lemma Remove_absent:
  assumes "queue_rep nx q xs" and "n \<notin> set xs"
  shows "Remove nx q (Some n) = Some (False, nx, q)"
proof (cases xs)
  case Nil
  with assms show ?thesis by (simp add: Remove_def queue_rep_def)
next
  case (Cons h ys)
  with assms have "remove_scan nx n (Some h) = Some None"
    by (intro remove_scan_absent [where xs = xs]) (auto simp: queue_rep_def)
  with Cons assms show ?thesis by (simp add: Remove_def queue_rep_def)
qed

lemma Remove_present:
  assumes rep: "queue_rep nx q xs" and n: "n \<in> set xs"
  shows "\<exists>nx' q'. Remove nx q (Some n) = Some (True, nx', q') \<and> queue_rep nx' q' (remove1 n xs)
           \<and> (\<forall>a. a \<notin> set xs \<longrightarrow> nx' a = nx a)"
proof (cases "hd xs = n")
  case True
  with n obtain ys where xs: "xs = n # ys" by (cases xs) auto
  with rep show ?thesis
    using PopFront_rep [of nx q n ys] by (fastforce simp: Remove_def queue_rep_def)
next
  case False
  with n obtain us a vs where xs: "xs = us @ a # n # vs"
  proof -
    assume *: "\<And>us a vs. xs = us @ a # n # vs \<Longrightarrow> thesis"
    from n obtain ps vs where ps: "xs = ps @ n # vs" by (meson split_list)
    with False have "ps \<noteq> []" by auto
    with ps * [of "butlast ps" "last ps" vs] show thesis by simp
  qed
  obtain h where h: "HeadNode q = Some h" "h \<noteq> n"
    using queue_rep_head [OF rep] False xs by (cases us) auto
  have d: "distinct (us @ a # n # vs)" and c: "chain nx (Some h) (us @ a # n # vs)"
    using rep xs h by (auto simp: queue_rep_def)
  have rm: "remove1 n xs = us @ a # vs"
    using d xs by (simp add: remove1_append)
  have "chain (nx(a := nx n)) (Some h) (us @ a # vs)"
    using c d by (rule chain_unlink)
  moreover have "n \<notin> set (us @ a # vs)" using d by auto
  ultimately have "chain (nx(a := nx n, n := None)) (Some h) (us @ a # vs)" by simp
  moreover have "remove_scan nx n (Some h) = Some (Some a)"
    using c d by (rule remove_scan_found)
  ultimately show ?thesis
    using rep h xs d rm by (auto simp: Remove_def queue_rep_def Let_def)
qed

lemma FindFirst_scan_find: "chain nx p xs \<Longrightarrow> FindFirst_scan nx P p = Some (List.find P xs)"
proof (induction xs arbitrary: p)
  case Nil
  then show ?case by (subst FindFirst_scan.simps) auto
next
  case (Cons x xs)
  then show ?case by (subst FindFirst_scan.simps) auto
qed

lemma FindFirst_find: "queue_rep nx q xs \<Longrightarrow> FindFirst nx q P = Some (List.find P xs)"
  by (simp add: FindFirst_def queue_rep_def FindFirst_scan_find)

lemma Rotate_rep:
  assumes "queue_rep nx q xs" and "RotateFrontToBack nx q = (nx', q')"
  shows "queue_rep nx' q' (rotate1 xs)"
proof (cases xs)
  case Nil
  with assms show ?thesis by (simp add: RotateFrontToBack_def queue_rep_def)
next
  case (Cons a ys)
  show ?thesis
  proof (cases "ys = []")
    case True
    with Cons assms show ?thesis by (simp add: RotateFrontToBack_def queue_rep_def)
  next
    case False
    have ne: "\<not> (HeadNode q = None \<or> HeadNode q = TailNode q)"
      using assms(1) Cons False by (auto simp: queue_rep_def)
    obtain nx1 q1 where p: "PopFront nx q = (Some a, nx1, q1)" and r: "queue_rep nx1 q1 ys"
      using PopFront_rep assms(1) Cons by blast
    have "PushBack nx1 q1 (Some a) = (nx', q')"
      using assms(2) ne p by (simp add: RotateFrontToBack_def)
    moreover have "a \<notin> set ys" using queue_rep_distinct [OF assms(1)] Cons by simp
    ultimately show ?thesis using PushBack_rep [OF r] Cons by simp
  qed
qed

lemma ClearAndDelete_all:
  "queue_rep nx q xs \<Longrightarrow>
   \<exists>nx' q'. ClearAndDelete nx q freed = Some (freed @ xs, nx', q') \<and> queue_rep nx' q' []"
proof (induction xs arbitrary: nx q freed)
  case Nil
  then show ?case
    by (subst ClearAndDelete.simps) (simp add: queue_rep_empty)
next
  case (Cons a xs)
  obtain nx1 q1 where p: "PopFront nx q = (Some a, nx1, q1)" and r: "queue_rep nx1 q1 xs"
    using PopFront_rep [OF Cons.prems] by blast
  have "ClearAndDelete nx q freed = ClearAndDelete nx1 q1 (freed @ [a])"
    using p queue_rep_empty [OF Cons.prems] by (subst ClearAndDelete.simps) simp
  with Cons.IH [OF r, of "freed @ [a]"] show ?case by simp
qed

section \<open>The contract the managers rely on\<close>

text \<open>
  A queue of nodes as its clients see it: a state that represents a list of distinct nodes, a
  push at the back, a pop at the front, and the two calls every manager makes in a row,
  \<open>FindFirst\<close> and \<open>Remove\<close> of the node found. The client lemmas below are what lets a manager
  be modelled by the list of its tags (\<open>remove_first\<close>, \<open>@ [x]\<close>) instead of by pointers.
\<close>

locale node_queue =
  fixes rep :: "'s \<Rightarrow> addr list \<Rightarrow> bool"
    and push :: "'s \<Rightarrow> addr \<Rightarrow> 's"
    and pop :: "'s \<Rightarrow> ptr \<times> 's"
    and find_first :: "'s \<Rightarrow> (addr \<Rightarrow> bool) \<Rightarrow> ptr option"
    and unlink :: "'s \<Rightarrow> addr \<Rightarrow> (bool \<times> 's) option"
  assumes rep_distinct: "rep s xs \<Longrightarrow> distinct xs"
    and push_law: "rep s xs \<Longrightarrow> n \<notin> set xs \<Longrightarrow> rep (push s n) (xs @ [n])"
    and pop_nil: "rep s [] \<Longrightarrow> pop s = (None, s)"
    and pop_cons: "rep s (a # xs) \<Longrightarrow> fst (pop s) = Some a \<and> rep (snd (pop s)) xs"
    and find_law: "rep s xs \<Longrightarrow> find_first s P = Some (List.find P xs)"
    and unlink_law: "rep s xs \<Longrightarrow> n \<in> set xs \<Longrightarrow>
          \<exists>s'. unlink s n = Some (True, s') \<and> rep s' (remove1 n xs)"
begin

lemma push_many:
  "rep s xs \<Longrightarrow> distinct (xs @ ns) \<Longrightarrow> rep (foldl push s ns) (xs @ ns)"
proof (induction ns arbitrary: s xs)
  case Nil
  then show ?case by simp
next
  case (Cons n ns)
  then have "rep (push s n) (xs @ [n])" by (intro push_law) auto
  with Cons.IH [of "push s n" "xs @ [n]"] Cons.prems show ?case by simp
qed

lemma find_unlink:
  assumes "rep s xs"
  shows "find_first s P = Some None \<and> remove_first P xs = xs \<or>
         (\<exists>n s'. find_first s P = Some (Some n) \<and> n \<in> set xs \<and> P n \<and>
            unlink s n = Some (True, s') \<and> rep s' (remove_first P xs))"
proof (cases "List.find P xs")
  case None
  with assms find_law find_None_conv [of P xs] show ?thesis by simp
next
  case (Some n)
  have "distinct xs \<Longrightarrow> List.find P xs = Some n \<Longrightarrow> remove1 n xs = remove_first P xs"
    by (induction xs) (auto split: if_splits dest: find_SomeD)
  with assms Some have "remove1 n xs = remove_first P xs" by (simp add: rep_distinct)
  with assms Some unlink_law [of s xs n] find_law [of s xs P] find_SomeD [of P xs n]
  show ?thesis by auto
qed

end

definition iq_rep :: "(addr \<Rightarrow> ptr) \<times> iqueue \<Rightarrow> addr list \<Rightarrow> bool" where
  "iq_rep s xs = queue_rep (fst s) (snd s) xs"

definition iq_push :: "(addr \<Rightarrow> ptr) \<times> iqueue \<Rightarrow> addr \<Rightarrow> (addr \<Rightarrow> ptr) \<times> iqueue" where
  "iq_push s n = PushBack (fst s) (snd s) (Some n)"

definition iq_pop :: "(addr \<Rightarrow> ptr) \<times> iqueue \<Rightarrow> ptr \<times> (addr \<Rightarrow> ptr) \<times> iqueue" where
  "iq_pop s = PopFront (fst s) (snd s)"

definition iq_find :: "(addr \<Rightarrow> ptr) \<times> iqueue \<Rightarrow> (addr \<Rightarrow> bool) \<Rightarrow> ptr option" where
  "iq_find s P = FindFirst (fst s) (snd s) P"

definition iq_unlink ::
    "(addr \<Rightarrow> ptr) \<times> iqueue \<Rightarrow> addr \<Rightarrow> (bool \<times> (addr \<Rightarrow> ptr) \<times> iqueue) option" where
  "iq_unlink s n = Remove (fst s) (snd s) (Some n)"

lemmas iq_defs = iq_rep_def iq_push_def iq_pop_def iq_find_def iq_unlink_def

interpretation iq: node_queue iq_rep iq_push iq_pop iq_find iq_unlink
proof (unfold_locales, goal_cases)
  case (1 s xs)
  then show ?case by (simp add: iq_defs queue_rep_distinct)
next
  case (2 s xs n)
  then show ?case
    using PushBack_rep [of "fst s" "snd s" xs n "fst (iq_push s n)" "snd (iq_push s n)"]
    by (simp add: iq_defs)
next
  case (3 s)
  then show ?case using PopFront_empty [of "fst s" "snd s"] by (simp add: iq_defs)
next
  case (4 s a xs)
  then show ?case using PopFront_rep [of "fst s" "snd s" a xs] by (auto simp: iq_defs)
next
  case (5 s xs P)
  then show ?case by (simp add: iq_defs FindFirst_find)
next
  case (6 s xs n)
  then show ?case using Remove_present [of "fst s" "snd s" xs n] by (fastforce simp: iq_defs)
qed

end
