(* ===== verification/Scheduler_Model.thy ===== *)
theory Scheduler_Model imports Intrusive_Queue begin

text \<open>
  \<open>Kernel/Layers/Logic/Scheduler.{hpp,cpp}\<close>: the round-robin scheduler. The detailed model
  keeps the \<open>ProcessTag\<close> objects on a heap (their \<open>Id\<close> and \<open>NextProcess\<close> members, and which
  of them are allocated) and \<open>CurrentProcess\<close> as a pointer into it; the address
  \<open>operator new\<close> returns is an argument of \<open>AddToReadyQueue\<close>. The specification
  \<open>ready_state\<close> is the list of ready ids and one flag, and the refinement lemmas show that
  the pointer program implements it, that \<open>CurrentProcess\<close> never dangles, and that the tags
  allocated are exactly those in the queue.
\<close>

definition PROCESS_ID_INVALID :: u8 where
  "PROCESS_ID_INVALID = 0xFF"

record scheduler =
  TagId :: "addr \<Rightarrow> u8"
  NextProcess :: "addr \<Rightarrow> ptr"
  LiveTags :: "addr list"
  ReadyQueue :: iqueue
  CurrentProcess :: ptr

definition Scheduler_init :: scheduler where
  "Scheduler_init =
     \<lparr>TagId = (\<lambda>_. 0), NextProcess = (\<lambda>_. None), LiveTags = [],
      ReadyQueue = IntrusiveQueue_init, CurrentProcess = None\<rparr>"

definition AddToReadyQueue :: "scheduler \<Rightarrow> u8 \<Rightarrow> ptr \<Rightarrow> scheduler" where
  "AddToReadyQueue s ProcessId NewTag =
     (case NewTag of
        None \<Rightarrow> s
      | Some t \<Rightarrow>
          (let ids = (TagId s)(t := ProcessId);
               nx = (NextProcess s)(t := None)
           in case PushBack nx (ReadyQueue s) (Some t) of
                (nx1, q1) \<Rightarrow>
                  s\<lparr>TagId := ids, NextProcess := nx1, LiveTags := t # LiveTags s,
                    ReadyQueue := q1\<rparr>))"

definition RemoveFromReadyQueue :: "scheduler \<Rightarrow> u8 \<Rightarrow> (bool \<times> scheduler) option" where
  "RemoveFromReadyQueue s ProcessId =
     (case FindFirst (NextProcess s) (ReadyQueue s) (\<lambda>n. TagId s n = ProcessId) of
        None \<Rightarrow> None
      | Some None \<Rightarrow> Some (False, s)
      | Some (Some Node) \<Rightarrow>
          (let nxt = Next (NextProcess s) (Some Node)
           in case Remove (NextProcess s) (ReadyQueue s) (Some Node) of
                None \<Rightarrow> None
              | Some (_, nx1, q1) \<Rightarrow>
                  (let cur = (if CurrentProcess s = Some Node
                              then (if nxt \<noteq> None then None else Head q1)
                              else CurrentProcess s);
                       cur1 = (if IsEmpty q1 then None else cur)
                   in Some (True,
                        s\<lparr>NextProcess := nx1, LiveTags := remove1 Node (LiveTags s),
                          ReadyQueue := q1, CurrentProcess := cur1\<rparr>))))"

text \<open>\<open>CurrentProcess->Id\<close> is read through \<open>CurrentProcess\<close>, never through the queue.\<close>

definition SelectNextProcess :: "scheduler \<Rightarrow> u8 \<times> scheduler" where
  "SelectNextProcess s =
     (if IsEmpty (ReadyQueue s) then (PROCESS_ID_INVALID, s)
      else case CurrentProcess s of
        None \<Rightarrow>
          (case Head (ReadyQueue s) of
             None \<Rightarrow> (PROCESS_ID_INVALID, s)
           | Some h \<Rightarrow> (TagId s h, s\<lparr>CurrentProcess := Some h\<rparr>))
      | Some c \<Rightarrow>
          (if Head (ReadyQueue s) = Some c \<and> Next (NextProcess s) (Some c) = None
           then (TagId s c, s)
           else (case RotateFrontToBack (NextProcess s) (ReadyQueue s) of
                   (nx1, q1) \<Rightarrow>
                     (case Head q1 of
                        None \<Rightarrow> (PROCESS_ID_INVALID, s)
                      | Some h \<Rightarrow>
                          (TagId s h,
                           s\<lparr>NextProcess := nx1, ReadyQueue := q1, CurrentProcess := Some h\<rparr>)))))"

text \<open>The destructor: the tags it deletes, and the scheduler left behind.\<close>

definition Scheduler_destroy :: "scheduler \<Rightarrow> (addr list \<times> scheduler) option" where
  "Scheduler_destroy s =
     (case ClearAndDelete (NextProcess s) (ReadyQueue s) [] of
        None \<Rightarrow> None
      | Some (freed, nx1, q1) \<Rightarrow>
          Some (freed, s\<lparr>NextProcess := nx1, ReadyQueue := q1,
                         LiveTags := filter (\<lambda>t. t \<notin> set freed) (LiveTags s),
                         CurrentProcess := None\<rparr>))"

section \<open>The specification: a list of ids and one flag\<close>

record ready_state =
  ReadyIds :: "u8 list"
  HasCurrent :: bool

definition ready_init :: ready_state where
  "ready_init = \<lparr>ReadyIds = [], HasCurrent = False\<rparr>"

definition ready_add :: "ready_state \<Rightarrow> u8 \<Rightarrow> ready_state" where
  "ready_add r i = r\<lparr>ReadyIds := ReadyIds r @ [i]\<rparr>"

definition ready_remove :: "ready_state \<Rightarrow> u8 \<Rightarrow> ready_state" where
  "ready_remove r i =
     r\<lparr>ReadyIds := remove1 i (ReadyIds r),
       HasCurrent := (HasCurrent r \<and> ReadyIds r \<noteq> [] \<and> hd (ReadyIds r) \<noteq> i)\<rparr>"

definition ready_select :: "ready_state \<Rightarrow> u8 \<times> ready_state" where
  "ready_select r =
     (if ReadyIds r = [] then (PROCESS_ID_INVALID, r)
      else if \<not> HasCurrent r then (hd (ReadyIds r), r\<lparr>HasCurrent := True\<rparr>)
      else (hd (rotate1 (ReadyIds r)), r\<lparr>ReadyIds := rotate1 (ReadyIds r)\<rparr>))"

text \<open>
  \<open>sched_rep s xs\<close>: the queue holds the tags \<open>xs\<close>, exactly those allocated, and
  \<open>CurrentProcess\<close> is null or the head of the queue.
\<close>

definition sched_rep :: "scheduler \<Rightarrow> addr list \<Rightarrow> bool" where
  "sched_rep s xs \<longleftrightarrow>
     queue_rep (NextProcess s) (ReadyQueue s) xs \<and> distinct (LiveTags s) \<and>
     set (LiveTags s) = set xs \<and>
     (CurrentProcess s = None \<or> CurrentProcess s = (case xs of [] \<Rightarrow> None | a # _ \<Rightarrow> Some a))"

definition sched_abs :: "scheduler \<Rightarrow> addr list \<Rightarrow> ready_state" where
  "sched_abs s xs = \<lparr>ReadyIds = map (TagId s) xs, HasCurrent = (CurrentProcess s \<noteq> None)\<rparr>"

lemmas ready_defs = ready_init_def ready_add_def ready_remove_def ready_select_def

lemma sched_rep_init: "sched_rep Scheduler_init []"
  by (simp add: sched_rep_def Scheduler_init_def queue_rep_init)

lemma sched_rep_no_dangling:
  "sched_rep s xs \<Longrightarrow> CurrentProcess s = Some c \<Longrightarrow> c \<in> set (LiveTags s)"
  by (cases xs) (auto simp: sched_rep_def)

lemma AddToReadyQueue_refines:
  assumes "sched_rep s xs" and "t \<notin> set (LiveTags s)"
  shows "sched_rep (AddToReadyQueue s i (Some t)) (xs @ [t])
     \<and> sched_abs (AddToReadyQueue s i (Some t)) (xs @ [t]) = ready_add (sched_abs s xs) i"
proof -
  let ?nx = "(NextProcess s)(t := None)"
  have t: "t \<notin> set xs" using assms by (simp add: sched_rep_def)
  obtain nx1 q1 where p: "PushBack ?nx (ReadyQueue s) (Some t) = (nx1, q1)" by fastforce
  have "queue_rep ?nx (ReadyQueue s) xs"
    using assms(1) t by (simp add: sched_rep_def queue_rep_def)
  from PushBack_rep [OF this t p] have "queue_rep nx1 q1 (xs @ [t])" .
  with assms t p show ?thesis
    by (auto simp: sched_rep_def sched_abs_def AddToReadyQueue_def ready_add_def Let_def
        split: list.splits)
qed

lemma map_remove1_find:
  "List.find (\<lambda>n. f n = i) xs = Some n \<Longrightarrow> map f (remove1 n xs) = remove1 i (map f xs)"
  by (induction xs) (auto split: if_splits dest: find_SomeD)

lemma RemoveFromReadyQueue_absent:
  assumes "sched_rep s xs" and "i \<notin> set (map (TagId s) xs)"
  shows "RemoveFromReadyQueue s i = Some (False, s)"
proof -
  have "List.find (\<lambda>n. TagId s n = i) xs = None"
    using assms(2) by (auto simp: find_None_conv)
  moreover have "FindFirst (NextProcess s) (ReadyQueue s) (\<lambda>n. TagId s n = i)
      = Some (List.find (\<lambda>n. TagId s n = i) xs)"
    using assms(1) by (intro FindFirst_find) (simp add: sched_rep_def)
  ultimately show ?thesis by (simp add: RemoveFromReadyQueue_def)
qed

lemma RemoveFromReadyQueue_step:
  assumes q: "queue_rep (NextProcess s) (ReadyQueue s) xs"
    and n: "List.find (\<lambda>n. TagId s n = i) xs = Some n"
  obtains nx1 q1 where "queue_rep nx1 q1 (remove1 n xs)"
    and "RemoveFromReadyQueue s i = Some (True,
       s\<lparr>NextProcess := nx1, LiveTags := remove1 n (LiveTags s), ReadyQueue := q1,
         CurrentProcess := (if IsEmpty q1 then None
           else if CurrentProcess s = Some n
                then (if NextProcess s n \<noteq> None then None else Head q1) else CurrentProcess s)\<rparr>)"
proof -
  from n have nin: "n \<in> set xs" using find_SomeD by fast
  obtain nx1 q1 where r: "Remove (NextProcess s) (ReadyQueue s) (Some n) = Some (True, nx1, q1)"
      and q1: "queue_rep nx1 q1 (remove1 n xs)"
    using Remove_present [OF q nin] by blast
  show thesis
    by (rule that [OF q1])
      (simp add: RemoveFromReadyQueue_def FindFirst_find [OF q] n r Next_def Let_def)
qed

lemma RemoveFromReadyQueue_refines:
  assumes rep: "sched_rep s xs" and i: "i \<in> set (map (TagId s) xs)"
  shows "\<exists>s' ys. RemoveFromReadyQueue s i = Some (True, s') \<and> sched_rep s' ys
     \<and> sched_abs s' ys = ready_remove (sched_abs s xs) i"
proof -
  have q: "queue_rep (NextProcess s) (ReadyQueue s) xs" using rep by (simp add: sched_rep_def)
  obtain n where n: "List.find (\<lambda>n. TagId s n = i) xs = Some n"
      and nin: "n \<in> set xs" and ni: "TagId s n = i"
    using i find_ex [of xs "\<lambda>n. TagId s n = i"] by auto
  obtain a ys where xs: "xs = a # ys" using nin by (cases xs) auto
  have d: "distinct (a # ys)" using queue_rep_distinct [OF q] xs by simp
  obtain nx1 q1 where q1: "queue_rep nx1 q1 (remove1 n xs)"
    and step: "RemoveFromReadyQueue s i = Some (True,
       s\<lparr>NextProcess := nx1, LiveTags := remove1 n (LiveTags s), ReadyQueue := q1,
         CurrentProcess := (if IsEmpty q1 then None
           else if CurrentProcess s = Some n
                then (if NextProcess s n \<noteq> None then None else Head q1) else CurrentProcess s)\<rparr>)"
    (is "_ = Some (True, ?s')")
    using RemoveFromReadyQueue_step [OF q n] by blast
  have hd: "CurrentProcess s = None \<or> CurrentProcess s = Some a"
    using rep xs by (simp add: sched_rep_def)
  have live: "distinct (remove1 n (LiveTags s)) \<and> set (remove1 n (LiveTags s)) = set (remove1 n xs)"
    using rep queue_rep_distinct [OF q] by (simp add: sched_rep_def distinct_remove1)
  have ids: "map (TagId s) (remove1 n xs) = remove1 i (map (TagId s) xs)"
    using n by (rule map_remove1_find)
  have cur: "CurrentProcess ?s' = (if TagId s a \<noteq> i then CurrentProcess s else None)"
  proof (cases "TagId s a = i")
    case True
    with n xs have na: "n = a" by simp
    have "NextProcess s a = (case ys of [] \<Rightarrow> None | b # _ \<Rightarrow> Some b)"
      using q xs chain_next [of "NextProcess s" "HeadNode (ReadyQueue s)" "[]" a ys]
      by (simp add: queue_rep_def)
    with hd na True xs queue_rep_empty [OF q1] show ?thesis by (cases ys) auto
  next
    case False
    with n xs ni have "n \<noteq> a" by auto
    with hd xs queue_rep_empty [OF q1] False show ?thesis by auto
  qed
  have tl: "TagId s a \<noteq> i \<Longrightarrow> remove1 n xs = a # remove1 n ys"
    using n xs ni by auto
  have "sched_rep ?s' (remove1 n xs)"
    using q1 live cur hd tl by (auto simp: sched_rep_def)
  moreover have "sched_abs ?s' (remove1 n xs) = ready_remove (sched_abs s xs) i"
    using cur ids xs by (simp add: sched_abs_def ready_remove_def)
  ultimately show ?thesis using step by blast
qed

lemma SelectNextProcess_refines:
  assumes rep: "sched_rep s xs"
  shows "\<exists>ys. sched_rep (snd (SelectNextProcess s)) ys \<and> mset ys = mset xs
     \<and> ready_select (sched_abs s xs) =
         (fst (SelectNextProcess s), sched_abs (snd (SelectNextProcess s)) ys)"
proof (cases xs)
  case Nil
  with rep have "IsEmpty (ReadyQueue s)"
    using queue_rep_empty [of "NextProcess s" "ReadyQueue s" xs] by (simp add: sched_rep_def)
  with Nil rep show ?thesis
    by (auto simp: SelectNextProcess_def ready_select_def sched_abs_def)
next
  case (Cons a as)
  have q: "queue_rep (NextProcess s) (ReadyQueue s) xs" using rep by (simp add: sched_rep_def)
  have ne: "\<not> IsEmpty (ReadyQueue s)" using queue_rep_empty [OF q] Cons by simp
  have h: "Head (ReadyQueue s) = Some a"
    using queue_rep_head [OF q] Cons by (simp add: Head_def)
  show ?thesis
  proof (cases "CurrentProcess s")
    case None
    with ne h rep Cons show ?thesis
      by (intro exI [of _ xs])
        (auto simp: SelectNextProcess_def ready_select_def sched_abs_def sched_rep_def)
  next
    case (Some c)
    with rep Cons have c: "c = a" by (simp add: sched_rep_def)
    have nxt: "NextProcess s a = (case as of [] \<Rightarrow> None | b # _ \<Rightarrow> Some b)"
      using q Cons chain_next [of "NextProcess s" "HeadNode (ReadyQueue s)" "[]" a as]
      by (simp add: queue_rep_def)
    show ?thesis
    proof (cases as)
      case Nil
      with ne h rep Cons Some c nxt show ?thesis
        by (intro exI [of _ xs])
          (auto simp: SelectNextProcess_def ready_select_def sched_abs_def Next_def)
    next
      case (Cons b bs)
      obtain nx1 q1 where r: "RotateFrontToBack (NextProcess s) (ReadyQueue s) = (nx1, q1)"
        by fastforce
      have q1: "queue_rep nx1 q1 (rotate1 xs)" using Rotate_rep [OF q r] .
      have h1: "Head q1 = Some b"
        using queue_rep_head [OF q1] \<open>xs = a # as\<close> Cons by (simp add: Head_def)
      show ?thesis
        using ne h Some c nxt Cons r h1 q1 rep \<open>xs = a # as\<close>
        by (intro exI [of _ "rotate1 xs"])
          (auto simp: SelectNextProcess_def ready_select_def sched_abs_def sched_rep_def Next_def)
    qed
  qed
qed

section \<open>What the process layer relies on\<close>

text \<open>
  The scheduler as \<open>LogicLayer\<close> sees it: ids enter at the back, leave wherever they are, and a
  selection brings the id it returns to the front by rotating the queue.
\<close>

fun select_many :: "('r \<Rightarrow> u8 \<times> 'r) \<Rightarrow> nat \<Rightarrow> 'r \<Rightarrow> u8 list \<times> 'r" where
  "select_many sel 0 r = ([], r)"
| "select_many sel (Suc n) r =
     (case sel r of (i, r1) \<Rightarrow> (case select_many sel n r1 of (is, r2) \<Rightarrow> (i # is, r2)))"

locale ready_queue =
  fixes ids :: "'r \<Rightarrow> u8 list"
    and fresh :: "'r \<Rightarrow> bool"
    and add :: "'r \<Rightarrow> u8 \<Rightarrow> 'r"
    and remove :: "'r \<Rightarrow> u8 \<Rightarrow> 'r"
    and select :: "'r \<Rightarrow> u8 \<times> 'r"
  assumes ids_add: "ids (add r i) = ids r @ [i]"
    and ids_remove: "ids (remove r i) = remove1 i (ids r)"
    and select_empty: "ids r = [] \<Longrightarrow> select r = (PROCESS_ID_INVALID, r)"
    and select_first: "ids r \<noteq> [] \<Longrightarrow> fresh r \<Longrightarrow>
          fst (select r) = hd (ids r) \<and> ids (snd (select r)) = ids r \<and> \<not> fresh (snd (select r))"
    and select_next: "ids r \<noteq> [] \<Longrightarrow> \<not> fresh r \<Longrightarrow>
          fst (select r) = hd (rotate1 (ids r)) \<and> ids (snd (select r)) = rotate1 (ids r)
          \<and> \<not> fresh (snd (select r))"
begin

lemma set_ids_select: "set (ids (snd (select r))) = set (ids r)"
  using select_empty [of r] select_first [of r] select_next [of r]
  by (cases "ids r = []"; cases "fresh r") auto

lemma distinct_ids_select: "distinct (ids r) \<Longrightarrow> distinct (ids (snd (select r)))"
  using select_empty [of r] select_first [of r] select_next [of r]
  by (cases "ids r = []"; cases "fresh r") auto

lemma select_ready: "ids r \<noteq> [] \<Longrightarrow> fst (select r) \<in> set (ids r)"
  using select_first [of r] select_next [of r] hd_in_set [of "rotate1 (ids r)"]
  by (cases "fresh r") auto

lemma select_hd: "ids r \<noteq> [] \<Longrightarrow> fst (select r) = hd (ids (snd (select r)))"
  using select_first [of r] select_next [of r] by (cases "fresh r") auto

lemma run_started:
  "ids r \<noteq> [] \<Longrightarrow> \<not> fresh r \<Longrightarrow>
   fst (select_many select n r) = map (\<lambda>j. ids r ! (j mod length (ids r))) [1..<Suc n]"
proof (induction n arbitrary: r)
  case 0
  then show ?case by simp
next
  case (Suc n)
  let ?r1 = "snd (select r)"
  have s: "fst (select r) = hd (rotate1 (ids r))" "ids ?r1 = rotate1 (ids r)" "\<not> fresh ?r1"
    using select_next [OF Suc.prems] by auto
  have "hd (rotate1 (ids r)) = ids r ! (1 mod length (ids r))"
    using Suc.prems hd_rotate_conv_nth [of "ids r" 1] by simp
  moreover have "map (\<lambda>j. rotate1 (ids r) ! (j mod length (ids r))) [1..<Suc n]
      = map (\<lambda>j. ids r ! (Suc j mod length (ids r))) [1..<Suc n]"
    using Suc.prems by (auto simp: nth_rotate1 mod_Suc_eq)
  moreover have "fst (select_many select n ?r1)
      = map (\<lambda>j. rotate1 (ids r) ! (j mod length (ids r))) [1..<Suc n]"
    using Suc.IH [of ?r1] s Suc.prems by simp
  moreover have "[1..<Suc (Suc n)] = 1 # map Suc [1..<Suc n]"
    by (simp add: map_Suc_upt upt_conv_Cons del: upt_Suc)
  ultimately show ?case
    using s by (simp add: case_prod_beta comp_def del: upt_Suc)
qed

lemma nth_mod_rotate1: "map (\<lambda>j. xs ! (j mod length xs)) [1..<Suc (length xs)] = rotate1 xs"
  by (rule nth_equalityI) (auto simp: nth_rotate1 simp del: upt_Suc)

lemma round_robin: "mset (fst (select_many select (length (ids r)) r)) = mset (ids r)"
proof (cases "ids r = []")
  case True
  then show ?thesis by simp
next
  case False
  show ?thesis
  proof (cases "fresh r")
    case False
    with \<open>ids r \<noteq> []\<close> run_started [of r "length (ids r)"] nth_mod_rotate1 [of "ids r"]
    show ?thesis by (simp del: upt_Suc)
  next
    case True
    obtain n where n: "length (ids r) = Suc n" using False by (cases "ids r") auto
    have s: "fst (select r) = hd (ids r)" "ids (snd (select r)) = ids r" "\<not> fresh (snd (select r))"
      using select_first [OF False True] by auto
    have "[0..<length (ids r)] = 0 # [1..<Suc n]" using n by (simp add: upt_conv_Cons)
    then have "map (\<lambda>j. ids r ! j) [0..<length (ids r)] =
        hd (ids r) # map (\<lambda>j. ids r ! (j mod length (ids r))) [1..<Suc n]"
      using n False by (auto simp: hd_conv_nth simp del: upt_Suc)
    with run_started [of "snd (select r)" n] s n False
    have "fst (select_many select (length (ids r)) r) = map (\<lambda>j. ids r ! j) [0..<length (ids r)]"
      by (simp add: case_prod_beta del: upt_Suc)
    then show ?thesis by (simp add: map_nth)
  qed
qed

end

interpretation rq: ready_queue ReadyIds "\<lambda>r. \<not> HasCurrent r" ready_add ready_remove ready_select
  by unfold_locales (auto simp: ready_defs)

lemma select_many_refines:
  "sched_rep s xs \<Longrightarrow>
   fst (select_many SelectNextProcess n s) = fst (select_many ready_select n (sched_abs s xs))"
proof (induction n arbitrary: s xs)
  case 0
  then show ?case by simp
next
  case (Suc n)
  obtain ys where ys: "sched_rep (snd (SelectNextProcess s)) ys"
    and sel: "ready_select (sched_abs s xs) =
         (fst (SelectNextProcess s), sched_abs (snd (SelectNextProcess s)) ys)"
    using SelectNextProcess_refines [OF Suc.prems] by blast
  with Suc.IH [OF ys] show ?case by (simp add: case_prod_beta)
qed

lemma sched_round_robin:
  "sched_rep s xs \<Longrightarrow>
   mset (fst (select_many SelectNextProcess (length xs) s)) = mset (map (TagId s) xs)"
  using rq.round_robin [of "sched_abs s xs"] select_many_refines [of s xs "length xs"]
  by (simp add: sched_abs_def)

lemma Scheduler_destroy_frees:
  assumes "sched_rep s xs"
  shows "\<exists>s'. Scheduler_destroy s = Some (xs, s') \<and> sched_rep s' [] \<and> LiveTags s' = []"
proof -
  have "queue_rep (NextProcess s) (ReadyQueue s) xs" using assms by (simp add: sched_rep_def)
  then obtain nx1 q1 where "ClearAndDelete (NextProcess s) (ReadyQueue s) [] = Some (xs, nx1, q1)"
    and "queue_rep nx1 q1 []"
    using ClearAndDelete_all [of "NextProcess s" "ReadyQueue s" xs "[]"] by auto
  moreover have "filter (\<lambda>t. t \<notin> set xs) (LiveTags s) = []"
    using assms by (auto simp: sched_rep_def filter_empty_conv)
  ultimately show ?thesis by (simp add: Scheduler_destroy_def sched_rep_def)
qed

section \<open>Properties\<close>

text \<open>
  C10. The scheduler over heap tags implements the list of ready ids: from the empty scheduler on,
  adding a fresh tag appends the id, removing an id that is queued deletes its first occurrence
  and reports success, and selecting returns what the abstract round robin returns, each keeping
  the representation relation (well-formed intrusive queue, exactly the allocated tags, cursor
  null or at the head).
\<close>

theorem scheduler_refines_ready_queue:
  "sched_rep Scheduler_init [] \<and>
   (sched_rep s xs \<longrightarrow>
     (t \<notin> set (LiveTags s) \<longrightarrow>
        sched_rep (AddToReadyQueue s i (Some t)) (xs @ [t]) \<and>
        sched_abs (AddToReadyQueue s i (Some t)) (xs @ [t]) = ready_add (sched_abs s xs) i) \<and>
     (i \<in> set (map (TagId s) xs) \<longrightarrow>
        (\<exists>s' ys. RemoveFromReadyQueue s i = Some (True, s') \<and> sched_rep s' ys \<and>
           sched_abs s' ys = ready_remove (sched_abs s xs) i)) \<and>
     (i \<notin> set (map (TagId s) xs) \<longrightarrow> RemoveFromReadyQueue s i = Some (False, s)) \<and>
     (\<exists>ys. sched_rep (snd (SelectNextProcess s)) ys \<and> mset ys = mset xs \<and>
        ready_select (sched_abs s xs) = (fst (SelectNextProcess s), sched_abs (snd (SelectNextProcess s)) ys)))"
  using sched_rep_init AddToReadyQueue_refines RemoveFromReadyQueue_refines
    RemoveFromReadyQueue_absent SelectNextProcess_refines by blast

theorem scheduler_refines_ready_queue_witness:
  "sched_rep (AddToReadyQueue Scheduler_init 3 (Some 100)) [100] \<and>
   sched_abs (AddToReadyQueue Scheduler_init 3 (Some 100)) [100] = ready_add (sched_abs Scheduler_init []) 3"
  using scheduler_refines_ready_queue [of Scheduler_init "[]" 100 3] by (simp add: sched_rep_init Scheduler_init_def)

section \<open>Further facts\<close>

text \<open>
  Round robin: as many calls of SelectNextProcess as there are ready processes return every ready
  id exactly as often as it is queued, whatever the cursor was.
\<close>

theorem scheduler_round_robin:
  assumes "sched_rep s xs"
  shows "mset (fst (select_many SelectNextProcess (length xs) s)) = mset (map (TagId s) xs)"
  using assms by (rule sched_round_robin)

theorem scheduler_round_robin_witness:
  "mset (fst (select_many SelectNextProcess 2
     (AddToReadyQueue (AddToReadyQueue Scheduler_init 3 (Some 100)) 4 (Some 200)))) = mset [3, 4]"
proof -
  let ?s1 = "AddToReadyQueue Scheduler_init 3 (Some 100)"
  let ?s2 = "AddToReadyQueue ?s1 4 (Some 200)"
  have r1: "sched_rep ?s1 [100]"
    using AddToReadyQueue_refines [OF sched_rep_init, of 100 3] by (simp add: Scheduler_init_def)
  have l1: "LiveTags ?s1 = [100]" by (simp add: AddToReadyQueue_def Scheduler_init_def Let_def split: prod.split)
  have r2: "sched_rep ?s2 [100, 200]" "sched_abs ?s2 [100, 200] = ready_add (sched_abs ?s1 [100]) 4"
    using AddToReadyQueue_refines [OF r1, of 200 4] by (simp_all add: l1)
  have a1: "sched_abs ?s1 [100] = ready_add (sched_abs Scheduler_init []) 3"
    using AddToReadyQueue_refines [OF sched_rep_init, of 100 3] by (simp add: Scheduler_init_def)
  have "map (TagId ?s2) [100, 200] = [3, 4]"
    using r2(2) a1 by (simp add: sched_abs_def ready_add_def)
  with scheduler_round_robin [OF r2(1)] show ?thesis by (simp add: numeral_2_eq_2 del: select_many.simps)
qed

text \<open>
  Destroying the scheduler deletes every tag exactly once, in queue order, and leaves an empty
  queue with no allocated tag.
\<close>

theorem scheduler_destructor_frees_all:
  assumes "sched_rep s xs"
  shows "\<exists>s'. Scheduler_destroy s = Some (xs, s') \<and> distinct xs \<and> sched_rep s' [] \<and> LiveTags s' = []"
  using Scheduler_destroy_frees [OF assms] assms queue_rep_distinct by (auto simp: sched_rep_def)

theorem scheduler_destructor_frees_all_witness:
  "\<exists>s'. Scheduler_destroy (AddToReadyQueue Scheduler_init 3 (Some 100)) = Some ([100], s') \<and> LiveTags s' = []"
  using scheduler_destructor_frees_all [of "AddToReadyQueue Scheduler_init 3 (Some 100)" "[100]"]
    AddToReadyQueue_refines [OF sched_rep_init, of 100 3] by (auto simp: Scheduler_init_def)

end
