(* ===== verification/Process_Manager.thy ===== *)
theory Process_Manager imports Scheduler_Model begin

unbundle bit_operations_syntax

text \<open>
  \<open>Kernel/Layers/Logic/ProcessManager.{hpp,cpp}\<close>: the process table. A \<open>Process\<close> is the record
  of its members in the order the struct declares them; a \<open>Process*\<close> returned by a lookup is
  the entry itself and a write through it is \<open>SetProcess\<close> at its id. \<open>SignalActions\<close> is an
  array the entry owns alone, so it is the array or \<open>None\<close> (allocating it is taken to succeed,
  as \<open>EnsureProcessSignalActions\<close> does); the files a file table owns are addresses, and the
  operations that \<open>delete\<close> them return the addresses they freed. Where the linker puts
  \<open>ProcessKernelSystemCallStacks\<close> and the heap start of an address space are arguments.
\<close>

definition MAX_PROCESSES :: nat where [layout_simps]: "MAX_PROCESSES = 32"
definition MAX_OPEN_FILES_PER_PROCESS :: nat where
  [layout_simps]: "MAX_OPEN_FILES_PER_PROCESS = 256"
definition MAX_MEMORY_MAPPINGS_PER_PROCESS :: nat where
  [layout_simps]: "MAX_MEMORY_MAPPINGS_PER_PROCESS = 1024"
definition MAX_POSIX_SIGNALS_PER_PROCESS :: nat where
  [layout_simps]: "MAX_POSIX_SIGNALS_PER_PROCESS = 64"
definition PROCESS_KERNEL_SYSCALL_STACK_SIZE :: nat where
  [layout_simps]: "PROCESS_KERNEL_SYSCALL_STACK_SIZE = 65536"
definition MAX_PROCESS_RESOURCE_LIMITS :: nat where
  [layout_simps]: "MAX_PROCESS_RESOURCE_LIMITS = 16"
definition MAX_PROCESS_NAME_LENGTH :: nat where
  [layout_simps]: "MAX_PROCESS_NAME_LENGTH = 16"

datatype ProcessState = PROCESS_RUNNING | PROCESS_READY | PROCESS_BLOCKED | PROCESS_TERMINATED
datatype ProcessLevel = PROCESS_LEVEL_KERNEL | PROCESS_LEVEL_USER
datatype FILE_TYPE = FILE_TYPE_RAW_BINARY | FILE_TYPE_ELF

record cpu_state =
  rax :: u64
  rcx :: u64
  rdx :: u64
  rbx :: u64
  rbp :: u64
  rsi :: u64
  rdi :: u64
  r8 :: u64
  r9 :: u64
  r10 :: u64
  r11 :: u64
  r12 :: u64
  r13 :: u64
  r14 :: u64
  r15 :: u64
  rip :: u64
  rflags :: u64
  rsp :: u64
  cs_sel :: u64
  ss_sel :: u64

definition EmptyState :: cpu_state where
  "EmptyState =
     \<lparr>rax = 0, rcx = 0, rdx = 0, rbx = 0, rbp = 0, rsi = 0, rdi = 0, r8 = 0, r9 = 0, r10 = 0,
      r11 = 0, r12 = 0, r13 = 0, r14 = 0, r15 = 0, rip = 0, rflags = 0, rsp = 0, cs_sel = 0, ss_sel = 0\<rparr>"

record syscall_frame =
  UserRSP :: u64
  UserRIP :: u64
  UserRFLAGS :: u64
  UserRAX :: u64
  UserRCX :: u64
  UserRDX :: u64
  UserRBX :: u64
  UserRBP :: u64
  UserRSI :: u64
  UserRDI :: u64
  UserR8 :: u64
  UserR9 :: u64
  UserR10 :: u64
  UserR11 :: u64
  UserR12 :: u64
  UserR13 :: u64
  UserR14 :: u64
  UserR15 :: u64

definition EmptyFrame :: syscall_frame where
  "EmptyFrame =
     \<lparr>UserRSP = 0, UserRIP = 0, UserRFLAGS = 0, UserRAX = 0, UserRCX = 0, UserRDX = 0,
      UserRBX = 0, UserRBP = 0, UserRSI = 0, UserRDI = 0, UserR8 = 0, UserR9 = 0, UserR10 = 0,
      UserR11 = 0, UserR12 = 0, UserR13 = 0, UserR14 = 0, UserR15 = 0\<rparr>"

record memory_mapping =
  InUse :: bool
  VirtualAddressStart :: u64
  MapLength :: u64
  PhysicalAddressStart :: u64
  IsAnonymous :: bool

definition EmptyMapping :: memory_mapping where
  "EmptyMapping =
     \<lparr>InUse = False, VirtualAddressStart = 0, MapLength = 0, PhysicalAddressStart = 0,
      IsAnonymous = False\<rparr>"

record signal_action =
  Handler :: u64
  SaFlags :: u64
  Restorer :: u64
  Mask :: u64

definition EmptySignalAction :: signal_action where
  "EmptySignalAction = \<lparr>Handler = 0, SaFlags = 0, Restorer = 0, Mask = 0\<rparr>"

record process =
  PId :: u8
  ParrentId :: u8
  WaitingForVforkChild :: bool
  VforkChildId :: u8
  IsVforkChild :: bool
  VforkParentId :: u8
  WaitingForChild :: bool
  WaitingForSystemCallReturn :: bool
  HasSavedSystemCallFrame :: bool
  HasPendingChildExit :: bool
  HasExecutedExecve :: bool
  PendingChildId :: u8
  PendingChildStatus :: u32
  SavedSystemCallFrame :: syscall_frame
  State :: cpu_state
  Status :: ProcessState
  Level :: ProcessLevel
  FileType :: FILE_TYPE
  StackPointer :: ptr
  KernelSystemCallStackBase :: u64
  KernelSystemCallStackTop :: u64
  UserFSBase :: u64
  ProcessGroupId :: u32
  SessionId :: u32
  BlockedSignalMask :: u64
  PendingSignalMask :: u64
  InterruptedBySignal :: bool
  HasSavedSignalState :: bool
  SavedSignalMask :: u64
  SavedSignalFrame :: syscall_frame
  SavedSignalRIP :: u64
  SavedSignalRSP :: u64
  SavedSignalWasSyscall :: bool
  DebugSyscallTraceRemaining :: u8
  DebugIsXorgProcess :: bool
  ClearChildTidAddress :: ptr
  ProgramBreak :: u64
  RealIntervalTimerRemainingTicks :: u64
  RealIntervalTimerIntervalTicks :: u64
  FileCreationMask :: u32
  ResourceLimitsInitialized :: bool
  ResourceLimitCurrent :: "u64 list"
  ResourceLimitMaximum :: "u64 list"
  Name :: "u8 list"
  AddressSpace :: ptr
  CurrentFileSystemLocation :: ptr
  RunningExecutableDentry :: ptr
  RunningExecutableINode :: ptr
  FileTable :: "ptr list"
  SignalActions :: "signal_action list option"
  MemoryMappings :: "memory_mapping list"

record process_manager =
  Processes :: "process list"
  CurrentProcessId :: u8

definition ComputeKernelSystemCallStackTop :: "u64 \<Rightarrow> u64" where
  "ComputeKernelSystemCallStackTop StackBase =
     (if StackBase = 0 then 0
      else ((StackBase + of_nat PROCESS_KERNEL_SYSCALL_STACK_SIZE) AND NOT 0xF) - 8)"

definition ResetProcessFileTable :: "process \<Rightarrow> process" where
  "ResetProcessFileTable p = p\<lparr>FileTable := replicate MAX_OPEN_FILES_PER_PROCESS None\<rparr>"

text \<open>\<open>delete\<close> of a null pointer frees nothing.\<close>

definition ReleaseProcessFileTable :: "process \<Rightarrow> addr list \<times> process" where
  "ReleaseProcessFileTable p =
     (List.map_filter (\<lambda>f. f) (FileTable p),
      p\<lparr>FileTable := replicate MAX_OPEN_FILES_PER_PROCESS None\<rparr>)"

definition ResetProcessMemoryMappings :: "process \<Rightarrow> process" where
  "ResetProcessMemoryMappings p =
     p\<lparr>MemoryMappings := replicate MAX_MEMORY_MAPPINGS_PER_PROCESS EmptyMapping\<rparr>"

definition ResetProcessSignalActions :: "process \<Rightarrow> process" where
  "ResetProcessSignalActions p =
     (case SignalActions p of
        None \<Rightarrow> p
      | Some _ \<Rightarrow>
          p\<lparr>SignalActions := Some (replicate MAX_POSIX_SIGNALS_PER_PROCESS EmptySignalAction)\<rparr>)"

definition FreeProcessSignalActions :: "process \<Rightarrow> process" where
  "FreeProcessSignalActions p = p\<lparr>SignalActions := None\<rparr>"

definition EnsureProcessSignalActions :: "process \<Rightarrow> bool \<times> process" where
  "EnsureProcessSignalActions p =
     (case SignalActions p of
        Some _ \<Rightarrow> (True, p)
      | None \<Rightarrow>
          (True, ResetProcessSignalActions
             (p\<lparr>SignalActions :=
                  Some (replicate MAX_POSIX_SIGNALS_PER_PROCESS EmptySignalAction)\<rparr>)))"

definition InitializeProcessEntry ::
    "process \<Rightarrow> ProcessState \<Rightarrow> ProcessLevel \<Rightarrow> FILE_TYPE \<Rightarrow> ptr \<Rightarrow> u64 \<Rightarrow> u64 \<Rightarrow> ptr \<Rightarrow>
     cpu_state \<Rightarrow> bool \<Rightarrow> bool \<times> process" where
  "InitializeProcessEntry p St Lv Ft Sp KBase Brk Vas Cpu ResetFiles =
     (let (ok, p1) = (if St \<noteq> PROCESS_TERMINATED then EnsureProcessSignalActions p
                      else (True, FreeProcessSignalActions p))
      in if \<not> ok then (False, p1)
      else
        (let p2 = p1\<lparr>
               ParrentId := PROCESS_ID_INVALID,
               WaitingForVforkChild := False,
               VforkChildId := PROCESS_ID_INVALID,
               IsVforkChild := False,
               VforkParentId := PROCESS_ID_INVALID,
               WaitingForChild := False,
               WaitingForSystemCallReturn := False,
               HasSavedSystemCallFrame := False,
               HasPendingChildExit := False,
               HasExecutedExecve := False,
               PendingChildId := PROCESS_ID_INVALID,
               PendingChildStatus := 0,
               SavedSystemCallFrame := EmptyFrame,
               Status := St,
               Level := Lv,
               FileType := Ft,
               StackPointer := Sp,
               KernelSystemCallStackBase := KBase,
               KernelSystemCallStackTop := ComputeKernelSystemCallStackTop KBase,
               UserFSBase := 0,
               ProcessGroupId := (if St = PROCESS_TERMINATED then 0 else ucast (PId p1)),
               SessionId := (if St = PROCESS_TERMINATED then 0 else ucast (PId p1)),
               BlockedSignalMask := 0,
               PendingSignalMask := 0,
               InterruptedBySignal := False,
               HasSavedSignalState := False,
               SavedSignalMask := 0,
               SavedSignalFrame := EmptyFrame,
               SavedSignalRIP := 0,
               SavedSignalRSP := 0,
               SavedSignalWasSyscall := False,
               DebugSyscallTraceRemaining := 0,
               DebugIsXorgProcess := False,
               ClearChildTidAddress := None,
               ProgramBreak := Brk,
               RealIntervalTimerRemainingTicks := 0,
               RealIntervalTimerIntervalTicks := 0,
               FileCreationMask := 18,
               ResourceLimitsInitialized := False,
               ResourceLimitCurrent := replicate MAX_PROCESS_RESOURCE_LIMITS 0,
               ResourceLimitMaximum := replicate MAX_PROCESS_RESOURCE_LIMITS 0,
               Name := replicate MAX_PROCESS_NAME_LENGTH 0,
               AddressSpace := Vas,
               CurrentFileSystemLocation := None,
               RunningExecutableDentry := None,
               RunningExecutableINode := None,
               State := Cpu\<rparr>;
             p3 = (if ResetFiles then ResetProcessFileTable p2 else p2)
         in (True, ResetProcessMemoryMappings (ResetProcessSignalActions p3))))"

text \<open>The constructor: every slot terminated, its id its index.\<close>

definition UninitializedEntry :: "nat \<Rightarrow> process \<Rightarrow> process" where
  "UninitializedEntry index raw =
     snd (InitializeProcessEntry (raw\<lparr>PId := of_nat index, SignalActions := None\<rparr>)
            PROCESS_TERMINATED PROCESS_LEVEL_KERNEL FILE_TYPE_RAW_BINARY None 0 0 None EmptyState True)"

definition ProcessManager_init :: "(nat \<Rightarrow> process) \<Rightarrow> process_manager" where
  "ProcessManager_init raw =
     \<lparr>Processes = map (\<lambda>index. UninitializedEntry index (raw index)) [0..<MAX_PROCESSES],
      CurrentProcessId = 0\<rparr>"

definition GetProcessById :: "process_manager \<Rightarrow> u8 \<Rightarrow> process option" where
  "GetProcessById pm i =
     (if unat i \<ge> MAX_PROCESSES then None else Some (Processes pm ! unat i))"

definition SetProcess :: "process_manager \<Rightarrow> u8 \<Rightarrow> process \<Rightarrow> process_manager" where
  "SetProcess pm i p = pm\<lparr>Processes := (Processes pm)[unat i := p]\<rparr>"

definition GetCurrentProcess :: "process_manager \<Rightarrow> process option" where
  "GetCurrentProcess pm =
     (case GetProcessById pm (CurrentProcessId pm) of
        None \<Rightarrow> None
      | Some p \<Rightarrow> if Status p = PROCESS_TERMINATED then None else Some p)"

definition GetRunningProcess :: "process_manager \<Rightarrow> process option \<times> process_manager" where
  "GetRunningProcess pm =
     (let scan = (case List.find (\<lambda>p. Status p = PROCESS_RUNNING) (Processes pm) of
                    Some q \<Rightarrow> (Some q, pm\<lparr>CurrentProcessId := PId q\<rparr>)
                  | None \<Rightarrow> (None, pm\<lparr>CurrentProcessId := PROCESS_ID_INVALID\<rparr>))
      in case GetCurrentProcess pm of
           None \<Rightarrow> scan
         | Some p \<Rightarrow> if Status p = PROCESS_RUNNING then (Some p, pm) else scan)"

definition UpdateCurrentProcessId :: "process_manager \<Rightarrow> u8 \<Rightarrow> process_manager" where
  "UpdateCurrentProcessId pm i = pm\<lparr>CurrentProcessId := i\<rparr>"

definition GetMaxProcesses :: nat where
  "GetMaxProcesses = MAX_PROCESSES"

text \<open>\<open>&ProcessKernelSystemCallStacks[index][0]\<close>, the array starting at \<open>Stacks\<close>.\<close>

definition KernelStackOf :: "u64 \<Rightarrow> nat \<Rightarrow> u64" where
  "KernelStackOf Stacks index = Stacks + of_nat (index * PROCESS_KERNEL_SYSCALL_STACK_SIZE)"

definition CreateKernelProcess ::
    "process_manager \<Rightarrow> u64 \<Rightarrow> ptr \<Rightarrow> cpu_state \<Rightarrow> u8 \<times> process_manager" where
  "CreateKernelProcess pm Stacks Sp InitialState =
     (case List.find (\<lambda>i. Status (Processes pm ! i) = PROCESS_TERMINATED) [0..<MAX_PROCESSES] of
        None \<Rightarrow> (PROCESS_ID_INVALID, pm)
      | Some index \<Rightarrow>
          (case InitializeProcessEntry (Processes pm ! index) PROCESS_READY PROCESS_LEVEL_KERNEL
                  FILE_TYPE_RAW_BINARY Sp (KernelStackOf Stacks index) 0 None InitialState True of
             (ok, p) \<Rightarrow>
               (let pm1 = pm\<lparr>Processes := (Processes pm)[index := p]\<rparr>
                in if \<not> ok then (PROCESS_ID_INVALID, pm1) else (PId p, pm1))))"

definition CreateUserProcess ::
    "process_manager \<Rightarrow> u64 \<Rightarrow> (addr \<Rightarrow> u64) \<Rightarrow> ptr \<Rightarrow> cpu_state \<Rightarrow> ptr \<Rightarrow> FILE_TYPE \<Rightarrow>
     u8 \<times> process_manager" where
  "CreateUserProcess pm Stacks HeapStart Sp InitialState Vas Ft =
     (case List.find (\<lambda>i. Status (Processes pm ! i) = PROCESS_TERMINATED) [0..<MAX_PROCESSES] of
        None \<Rightarrow> (PROCESS_ID_INVALID, pm)
      | Some index \<Rightarrow>
          (let Brk = (case Vas of Some a \<Rightarrow> HeapStart a | None \<Rightarrow> 0)
           in case InitializeProcessEntry (Processes pm ! index) PROCESS_READY PROCESS_LEVEL_USER
                     Ft Sp (KernelStackOf Stacks index) Brk Vas InitialState True of
                (ok, p) \<Rightarrow>
                  (let pm1 = pm\<lparr>Processes := (Processes pm)[index := p]\<rparr>
                   in if \<not> ok then (PROCESS_ID_INVALID, pm1) else (PId p, pm1))))"

text \<open>The stack pointer for the caller to free, the files deleted, and the table after it.\<close>

definition PM_KillProcess :: "process_manager \<Rightarrow> u8 \<Rightarrow> ptr \<times> addr list \<times> process_manager" where
  "PM_KillProcess pm i =
     (if unat i \<ge> MAX_PROCESSES then (None, [], pm)
      else
        (let Sp = StackPointer (Processes pm ! unat i);
             (freed, p1) = ReleaseProcessFileTable (Processes pm ! unat i);
             p2 = snd (InitializeProcessEntry p1 PROCESS_TERMINATED PROCESS_LEVEL_KERNEL
                    FILE_TYPE_RAW_BINARY None 0 0 None EmptyState True)
         in (Sp, freed, pm\<lparr>Processes := (Processes pm)[unat i := p2]\<rparr>)))"

section \<open>Well-formed tables\<close>

definition entry_shape :: "process \<Rightarrow> bool" where
  "entry_shape p \<longleftrightarrow>
     length (FileTable p) = MAX_OPEN_FILES_PER_PROCESS \<and>
     length (MemoryMappings p) = MAX_MEMORY_MAPPINGS_PER_PROCESS \<and>
     (case SignalActions p of None \<Rightarrow> True | Some as \<Rightarrow> length as = MAX_POSIX_SIGNALS_PER_PROCESS)"

text \<open>What a terminated slot still owns: nothing.\<close>

definition entry_idle :: "process \<Rightarrow> bool" where
  "entry_idle p \<longleftrightarrow>
     SignalActions p = None \<and> AddressSpace p = None \<and> StackPointer p = None \<and>
     CurrentFileSystemLocation p = None \<and>
     RunningExecutableDentry p = None \<and> RunningExecutableINode p = None \<and>
     FileTable p = replicate MAX_OPEN_FILES_PER_PROCESS None \<and>
     MemoryMappings p = replicate MAX_MEMORY_MAPPINGS_PER_PROCESS EmptyMapping"

definition entry_ok :: "nat \<Rightarrow> process \<Rightarrow> bool" where
  "entry_ok i p \<longleftrightarrow>
     PId p = of_nat i \<and> entry_shape p \<and>
     (if Status p = PROCESS_TERMINATED then entry_idle p else SignalActions p \<noteq> None)"

definition pm_inv :: "process_manager \<Rightarrow> bool" where
  "pm_inv pm \<longleftrightarrow>
     length (Processes pm) = MAX_PROCESSES \<and> (\<forall>i<MAX_PROCESSES. entry_ok i (Processes pm ! i))"

lemma Init_terminated:
  "InitializeProcessEntry p PROCESS_TERMINATED Lv Ft Sp KBase Brk Vas Cpu rf = (ok, q) \<Longrightarrow>
   ok \<and> PId q = PId p \<and> Status q = PROCESS_TERMINATED \<and> SignalActions q = None \<and>
   AddressSpace q = Vas \<and> StackPointer q = Sp \<and> CurrentFileSystemLocation q = None \<and>
   RunningExecutableDentry q = None \<and> RunningExecutableINode q = None \<and>
   FileTable q = (if rf then replicate MAX_OPEN_FILES_PER_PROCESS None else FileTable p) \<and>
   MemoryMappings q = replicate MAX_MEMORY_MAPPINGS_PER_PROCESS EmptyMapping \<and>
   Level q = Lv \<and> State q = Cpu"
  by (auto simp: InitializeProcessEntry_def FreeProcessSignalActions_def Let_def
      ResetProcessSignalActions_def ResetProcessMemoryMappings_def ResetProcessFileTable_def)

lemma Init_live:
  "St \<noteq> PROCESS_TERMINATED \<Longrightarrow>
   InitializeProcessEntry p St Lv Ft Sp KBase Brk Vas Cpu True = (ok, q) \<Longrightarrow>
   ok \<and> PId q = PId p \<and> Status q = St \<and> Level q = Lv \<and> FileType q = Ft \<and> State q = Cpu \<and>
   StackPointer q = Sp \<and> KernelSystemCallStackTop q = ComputeKernelSystemCallStackTop KBase \<and>
   ProgramBreak q = Brk \<and> AddressSpace q = Vas \<and> ParrentId q = PROCESS_ID_INVALID \<and>
   PendingSignalMask q = 0 \<and> BlockedSignalMask q = 0 \<and>
   SignalActions q = Some (replicate MAX_POSIX_SIGNALS_PER_PROCESS EmptySignalAction) \<and>
   FileTable q = replicate MAX_OPEN_FILES_PER_PROCESS None \<and>
   MemoryMappings q = replicate MAX_MEMORY_MAPPINGS_PER_PROCESS EmptyMapping"
  by (cases "SignalActions p")
    (auto simp: InitializeProcessEntry_def EnsureProcessSignalActions_def Let_def
      ResetProcessSignalActions_def ResetProcessMemoryMappings_def ResetProcessFileTable_def)

lemma entry_ok_live:
  "St \<noteq> PROCESS_TERMINATED \<Longrightarrow> PId p = of_nat i \<Longrightarrow>
   InitializeProcessEntry p St Lv Ft Sp KBase Brk Vas Cpu True = (ok, q) \<Longrightarrow> entry_ok i q"
  using Init_live [of St p Lv Ft Sp KBase Brk Vas Cpu ok q]
  by (simp add: entry_ok_def entry_shape_def)

lemma entry_ok_terminated:
  "PId p = of_nat i \<Longrightarrow>
   InitializeProcessEntry p PROCESS_TERMINATED Lv Ft None KBase Brk None Cpu True = (ok, q) \<Longrightarrow>
   entry_ok i q"
  using Init_terminated [of p Lv Ft None KBase Brk None Cpu True ok q]
  by (simp add: entry_ok_def entry_shape_def entry_idle_def)

lemma pm_inv_init: "pm_inv (ProcessManager_init raw)"
proof -
  have "entry_ok i (UninitializedEntry i r)" for i r
    unfolding UninitializedEntry_def
    by (rule entry_ok_terminated [OF _ surjective_pairing]) simp
  then show ?thesis by (simp add: pm_inv_def ProcessManager_init_def)
qed

lemma pm_inv_update:
  "pm_inv pm \<Longrightarrow> entry_ok i p \<Longrightarrow> pm_inv (pm\<lparr>Processes := (Processes pm)[i := p]\<rparr>)"
  by (clarsimp simp: pm_inv_def) (metis nth_list_update_eq nth_list_update_neq)

lemma pm_inv_SetProcess [inv_intros]:
  "pm_inv pm \<Longrightarrow> entry_ok (unat i) p \<Longrightarrow> pm_inv (SetProcess pm i p)"
  by (simp add: SetProcess_def pm_inv_update)

lemma pm_inv_CurrentProcessId [simp]: "pm_inv (pm\<lparr>CurrentProcessId := i\<rparr>) = pm_inv pm"
  by (simp add: pm_inv_def)

lemma entry_ok_id: "entry_ok i p \<Longrightarrow> PId p = of_nat i"
  by (simp add: entry_ok_def)

lemma pm_inv_GetProcessById:
  "pm_inv pm \<Longrightarrow> GetProcessById pm i = Some p \<Longrightarrow>
   PId p = i \<and> entry_ok (unat i) p \<and> unat i < MAX_PROCESSES \<and> p = Processes pm ! unat i"
  unfolding pm_inv_def GetProcessById_def
  by (cases "MAX_PROCESSES \<le> unat i") (use entry_ok_id [of "unat i" p] in auto)

lemma GetProcessById_CurrentProcessId [simp]:
  "GetProcessById (pm\<lparr>CurrentProcessId := i\<rparr>) j = GetProcessById pm j"
  by (simp add: GetProcessById_def)

section \<open>Creating and killing\<close>

lemma find_upt_least:
  "List.find P [0..<n] = Some k \<Longrightarrow> k < n \<and> P k \<and> (\<forall>j<k. \<not> P j)"
  by (auto simp: find_Some_iff)

lemma find_slot:
  "\<exists>k<n. P k \<Longrightarrow> \<exists>k<n. List.find P [0..<n] = Some k \<and> P k \<and> (\<forall>j<k. \<not> P j)"
  using find_ex [of "[0..<n]" P] find_upt_least by fastforce

lemma CreateKernelProcess_slot:
  assumes "pm_inv pm" and "\<exists>k<MAX_PROCESSES. Status (Processes pm ! k) = PROCESS_TERMINATED"
  shows "\<exists>k p. k < MAX_PROCESSES \<and> Status (Processes pm ! k) = PROCESS_TERMINATED \<and>
     (\<forall>j<k. Status (Processes pm ! j) \<noteq> PROCESS_TERMINATED) \<and>
     CreateKernelProcess pm Stacks Sp st = (of_nat k, pm\<lparr>Processes := (Processes pm)[k := p]\<rparr>) \<and>
     entry_ok k p \<and> Status p = PROCESS_READY \<and> Level p = PROCESS_LEVEL_KERNEL \<and>
     State p = st \<and> StackPointer p = Sp \<and> AddressSpace p = None \<and>
     KernelSystemCallStackTop p = ComputeKernelSystemCallStackTop (KernelStackOf Stacks k)"
proof -
  obtain k where k: "k < MAX_PROCESSES" "Status (Processes pm ! k) = PROCESS_TERMINATED"
      "\<forall>j<k. Status (Processes pm ! j) \<noteq> PROCESS_TERMINATED"
    and f: "List.find (\<lambda>i. Status (Processes pm ! i) = PROCESS_TERMINATED) [0..<MAX_PROCESSES] = Some k"
    using find_slot [OF assms(2)] by blast
  obtain ok p where p: "InitializeProcessEntry (Processes pm ! k) PROCESS_READY PROCESS_LEVEL_KERNEL
      FILE_TYPE_RAW_BINARY Sp (KernelStackOf Stacks k) 0 None st True = (ok, p)"
    by fastforce
  have id: "PId (Processes pm ! k) = of_nat k"
    using assms(1) k(1) by (simp add: pm_inv_def entry_ok_def)
  have "entry_ok k p" using entry_ok_live [OF _ id p] by simp
  with k f p id Init_live [OF _ p] show ?thesis
    by (intro exI [of _ k] exI [of _ p]) (simp add: CreateKernelProcess_def)
qed

lemma CreateUserProcess_slot:
  assumes "pm_inv pm" and "\<exists>k<MAX_PROCESSES. Status (Processes pm ! k) = PROCESS_TERMINATED"
  shows "\<exists>k p. k < MAX_PROCESSES \<and> Status (Processes pm ! k) = PROCESS_TERMINATED \<and>
     (\<forall>j<k. Status (Processes pm ! j) \<noteq> PROCESS_TERMINATED) \<and>
     CreateUserProcess pm Stacks HeapStart Sp st Vas Ft =
       (of_nat k, pm\<lparr>Processes := (Processes pm)[k := p]\<rparr>) \<and>
     entry_ok k p \<and> Status p = PROCESS_READY \<and> Level p = PROCESS_LEVEL_USER \<and>
     State p = st \<and> StackPointer p = Sp \<and> AddressSpace p = Vas \<and> FileType p = Ft \<and>
     ProgramBreak p = (case Vas of None \<Rightarrow> 0 | Some a \<Rightarrow> HeapStart a) \<and>
     KernelSystemCallStackTop p = ComputeKernelSystemCallStackTop (KernelStackOf Stacks k)"
proof -
  obtain k where k: "k < MAX_PROCESSES" "Status (Processes pm ! k) = PROCESS_TERMINATED"
      "\<forall>j<k. Status (Processes pm ! j) \<noteq> PROCESS_TERMINATED"
    and f: "List.find (\<lambda>i. Status (Processes pm ! i) = PROCESS_TERMINATED) [0..<MAX_PROCESSES] = Some k"
    using find_slot [OF assms(2)] by blast
  obtain ok p where p: "InitializeProcessEntry (Processes pm ! k) PROCESS_READY PROCESS_LEVEL_USER
      Ft Sp (KernelStackOf Stacks k) (case Vas of Some a \<Rightarrow> HeapStart a | None \<Rightarrow> 0) Vas st True
      = (ok, p)"
    by fastforce
  have id: "PId (Processes pm ! k) = of_nat k"
    using assms(1) k(1) by (simp add: pm_inv_def entry_ok_def)
  have "entry_ok k p" using entry_ok_live [OF _ id p] by simp
  with k f p id Init_live [OF _ p] show ?thesis
    by (intro exI [of _ k] exI [of _ p]) (simp add: CreateUserProcess_def Let_def)
qed

lemma Create_full:
  assumes "\<forall>k<MAX_PROCESSES. Status (Processes pm ! k) \<noteq> PROCESS_TERMINATED"
  shows "CreateKernelProcess pm Stacks Sp st = (PROCESS_ID_INVALID, pm)"
    and "CreateUserProcess pm Stacks HeapStart Sp st Vas Ft = (PROCESS_ID_INVALID, pm)"
proof -
  have "List.find (\<lambda>i. Status (Processes pm ! i) = PROCESS_TERMINATED) [0..<MAX_PROCESSES] = None"
    using assms by (simp add: find_None_conv)
  then show "CreateKernelProcess pm Stacks Sp st = (PROCESS_ID_INVALID, pm)"
    and "CreateUserProcess pm Stacks HeapStart Sp st Vas Ft = (PROCESS_ID_INVALID, pm)"
    by (simp_all add: CreateKernelProcess_def CreateUserProcess_def)
qed

lemma Create_inv [inv_intros]:
  assumes "pm_inv pm"
  shows "pm_inv (snd (CreateKernelProcess pm Stacks Sp st))"
    and "pm_inv (snd (CreateUserProcess pm Stacks HeapStart Sp st Vas Ft))"
  using CreateKernelProcess_slot [OF assms, of Stacks Sp st]
    CreateUserProcess_slot [OF assms, of Stacks HeapStart Sp st Vas Ft] assms
    Create_full [of pm] pm_inv_update
  by fastforce+

lemma PM_KillProcess_spec:
  assumes "pm_inv pm" and "unat i < MAX_PROCESSES"
  shows "\<exists>p. PM_KillProcess pm i =
       (StackPointer (Processes pm ! unat i),
        List.map_filter (\<lambda>f. f) (FileTable (Processes pm ! unat i)),
        pm\<lparr>Processes := (Processes pm)[unat i := p]\<rparr>)
     \<and> PId p = i \<and> Status p = PROCESS_TERMINATED \<and> Level p = PROCESS_LEVEL_KERNEL \<and>
     entry_idle p \<and> entry_ok (unat i) p"
proof -
  let ?p1 = "snd (ReleaseProcessFileTable (Processes pm ! unat i))"
  obtain ok p where p: "InitializeProcessEntry ?p1 PROCESS_TERMINATED PROCESS_LEVEL_KERNEL
      FILE_TYPE_RAW_BINARY None 0 0 None EmptyState True = (ok, p)"
    by fastforce
  have id: "PId ?p1 = i"
    using assms by (simp add: pm_inv_def entry_ok_def ReleaseProcessFileTable_def)
  then have ok: "entry_ok (unat i) p"
    using entry_ok_terminated [of ?p1 "unat i"] p by simp
  with p assms(2) id Init_terminated [OF p] show ?thesis
    by (intro exI [of _ p])
      (simp add: PM_KillProcess_def ReleaseProcessFileTable_def Let_def entry_ok_def)
qed

lemma PM_KillProcess_inv [inv_intros]: "pm_inv pm \<Longrightarrow> pm_inv (snd (snd (PM_KillProcess pm i)))"
  using PM_KillProcess_spec [of pm i] pm_inv_update [of pm "unat i"]
  by (cases "unat i < MAX_PROCESSES") (fastforce, simp add: PM_KillProcess_def)

section \<open>The running process\<close>

lemma find_running_id:
  assumes "pm_inv pm" and "List.find (\<lambda>p. Status p = PROCESS_RUNNING) (Processes pm) = Some q"
  shows "GetProcessById pm (PId q) = Some q \<and> Status q = PROCESS_RUNNING"
proof -
  from assms obtain i where i: "i < MAX_PROCESSES" "Processes pm ! i = q" "Status q = PROCESS_RUNNING"
    by (auto simp: find_Some_iff pm_inv_def)
  with assms(1) have "PId q = of_nat i" by (auto simp: pm_inv_def entry_ok_def)
  with i show ?thesis by (simp add: GetProcessById_def unat_of_nat layout_simps)
qed

lemma GetRunningProcess_spec:
  assumes "pm_inv pm" and "GetRunningProcess pm = (r, pm')"
  shows "Processes pm' = Processes pm \<and>
     (case r of
        Some p \<Rightarrow> Status p = PROCESS_RUNNING \<and> CurrentProcessId pm' = PId p
          \<and> GetProcessById pm' (PId p) = Some p
      | None \<Rightarrow> CurrentProcessId pm' = PROCESS_ID_INVALID
          \<and> (\<forall>i<MAX_PROCESSES. Status (Processes pm ! i) \<noteq> PROCESS_RUNNING))"
proof (cases "\<exists>p. GetCurrentProcess pm = Some p \<and> Status p = PROCESS_RUNNING")
  case True
  then obtain p where p: "GetProcessById pm (CurrentProcessId pm) = Some p"
      "Status p = PROCESS_RUNNING" "GetCurrentProcess pm = Some p"
    by (auto simp: GetCurrentProcess_def split: option.splits if_splits)
  with assms pm_inv_GetProcessById [OF assms(1) p(1)] show ?thesis
    by (auto simp: GetRunningProcess_def)
next
  case False
  let ?f = "List.find (\<lambda>p. Status p = PROCESS_RUNNING) (Processes pm)"
  have scan: "GetRunningProcess pm = (case ?f of
        Some q \<Rightarrow> (Some q, pm\<lparr>CurrentProcessId := PId q\<rparr>)
      | None \<Rightarrow> (None, pm\<lparr>CurrentProcessId := PROCESS_ID_INVALID\<rparr>))"
    using False by (auto simp: GetRunningProcess_def Let_def split: option.splits)
  show ?thesis
  proof (cases ?f)
    case None
    with assms scan show ?thesis by (auto simp: find_None_conv pm_inv_def)
  next
    case (Some q)
    then have "r = Some q" and "pm' = pm\<lparr>CurrentProcessId := PId q\<rparr>"
      using assms(2) scan by simp_all
    with find_running_id [OF assms(1) Some] show ?thesis by simp
  qed
qed

section \<open>System-call stacks\<close>

text \<open>
  The array is 16-aligned, does not start at null and does not wrap: the top of slot \<open>k\<close>'s
  stack is eight below its end, so it is 8 modulo 16 and inside the slot.
\<close>

lemma KernelStackTop_inside:
  assumes "Stacks \<noteq> 0" and "16 dvd unat Stacks"
    and "unat Stacks + MAX_PROCESSES * PROCESS_KERNEL_SYSCALL_STACK_SIZE < 2 ^ 64"
    and "k < MAX_PROCESSES"
  shows "unat (ComputeKernelSystemCallStackTop (KernelStackOf Stacks k)) =
     unat Stacks + Suc k * PROCESS_KERNEL_SYSCALL_STACK_SIZE - 8"
proof -
  let ?e = "unat Stacks + Suc k * 65536"
  have k: "k < 32" using assms(4) by (simp add: layout_simps)
  have bound: "unat Stacks + k * 65536 + 65536 < 2 ^ 64"
    using assms(3) k by (simp add: layout_simps)
  have base: "unat (KernelStackOf Stacks k) = unat Stacks + k * 65536"
    using bound by (simp add: KernelStackOf_def layout_simps unat_word_ariths unat_of_nat)
  then have nz: "KernelStackOf Stacks k \<noteq> 0"
    using assms(1) by (metis add_is_0 unat_0 unat_eq_zero)
  have top: "unat (KernelStackOf Stacks k + 65536) = ?e"
    using base bound by (simp add: unat_word_ariths)
  have "16 dvd ?e" using assms(2) by (simp add: dvd_add)
  have mask: "(KernelStackOf Stacks k + 65536) AND NOT 0xF = KernelStackOf Stacks k + 65536"
    (is "?w AND NOT 0xF = ?w")
  proof -
    have "unat (?w mod 16) = 0" using top \<open>16 dvd ?e\<close> by (simp add: unat_mod)
    then have m: "?w mod 16 = 0" by (simp only: unat_eq_zero)
    have "?w AND 0xF = 0"
    proof -
      have "?w AND 0xF = ?w AND mask 4" by (simp add: mask_eq_exp_minus_1)
      also have "\<dots> = take_bit 4 ?w" by (simp add: take_bit_eq_mask)
      also have "\<dots> = 0"
        using m by (simp add: take_bit_eq_mod)
      finally show ?thesis .
    qed
    then show ?thesis
      by (metis (no_types) and.right_neutral bit.conj_disj_distrib bit.disj_cancel_right or.left_neutral)
  qed
  have "8 \<le> ?w" using top by (simp add: word_le_nat_alt)
  then have "unat (?w - 8) = ?e - 8" by (simp only: unat_sub top) simp
  moreover have "ComputeKernelSystemCallStackTop (KernelStackOf Stacks k) = ?w - 8"
    unfolding ComputeKernelSystemCallStackTop_def using nz mask by (simp add: layout_simps)
  ultimately show ?thesis by (simp add: layout_simps)
qed

section \<open>Concrete tables\<close>

text \<open>The states the properties are applied to: slots 0, 1 and 2 are in use.\<close>

definition blank_entry :: process where
  "blank_entry =
     \<lparr>PId = 0, ParrentId = PROCESS_ID_INVALID, WaitingForVforkChild = False, VforkChildId = PROCESS_ID_INVALID,
      IsVforkChild = False, VforkParentId = PROCESS_ID_INVALID, WaitingForChild = False,
      WaitingForSystemCallReturn = False, HasSavedSystemCallFrame = False, HasPendingChildExit = False,
      HasExecutedExecve = False, PendingChildId = PROCESS_ID_INVALID, PendingChildStatus = 0,
      SavedSystemCallFrame = EmptyFrame, State = EmptyState, Status = PROCESS_TERMINATED,
      Level = PROCESS_LEVEL_KERNEL, FileType = FILE_TYPE_RAW_BINARY, StackPointer = None,
      KernelSystemCallStackBase = 0, KernelSystemCallStackTop = 0, UserFSBase = 0,
      ProcessGroupId = 0, SessionId = 0, BlockedSignalMask = 0, PendingSignalMask = 0,
      InterruptedBySignal = False, HasSavedSignalState = False, SavedSignalMask = 0,
      SavedSignalFrame = EmptyFrame, SavedSignalRIP = 0, SavedSignalRSP = 0, SavedSignalWasSyscall = False,
      DebugSyscallTraceRemaining = 0, DebugIsXorgProcess = False, ClearChildTidAddress = None,
      ProgramBreak = 0, RealIntervalTimerRemainingTicks = 0, RealIntervalTimerIntervalTicks = 0,
      FileCreationMask = 0, ResourceLimitsInitialized = False,
      ResourceLimitCurrent = replicate MAX_PROCESS_RESOURCE_LIMITS 0,
      ResourceLimitMaximum = replicate MAX_PROCESS_RESOURCE_LIMITS 0,
      Name = replicate MAX_PROCESS_NAME_LENGTH 0, AddressSpace = None, CurrentFileSystemLocation = None,
      RunningExecutableDentry = None, RunningExecutableINode = None,
      FileTable = replicate MAX_OPEN_FILES_PER_PROCESS None,
      SignalActions = None, MemoryMappings = replicate MAX_MEMORY_MAPPINGS_PER_PROCESS EmptyMapping\<rparr>"

definition live_entry :: "nat \<Rightarrow> ProcessState \<Rightarrow> process" where
  "live_entry i St =
     blank_entry\<lparr>PId := of_nat i, Status := St, Level := PROCESS_LEVEL_USER, AddressSpace := Some 0x5000,
       SignalActions := Some (replicate MAX_POSIX_SIGNALS_PER_PROCESS EmptySignalAction)\<rparr>"

definition sample_pm :: process_manager where
  "sample_pm =
     \<lparr>Processes =
        [live_entry 0 PROCESS_RUNNING, (live_entry 1 PROCESS_READY)\<lparr>ParrentId := 0\<rparr>, live_entry 2 PROCESS_BLOCKED] @
        map (\<lambda>i. blank_entry\<lparr>PId := of_nat i\<rparr>) [3..<MAX_PROCESSES],
      CurrentProcessId = 0\<rparr>"

lemma blank_entry_ok: "entry_ok i (blank_entry\<lparr>PId := of_nat i\<rparr>)"
  by (simp add: entry_ok_def entry_shape_def entry_idle_def blank_entry_def)

lemma live_entry_ok: "St \<noteq> PROCESS_TERMINATED \<Longrightarrow> entry_ok i ((live_entry i St)\<lparr>ParrentId := par\<rparr>)"
  by (simp add: entry_ok_def entry_shape_def live_entry_def blank_entry_def)

lemma sample_pm_nth:
  "Processes sample_pm ! 0 = live_entry 0 PROCESS_RUNNING"
  "Processes sample_pm ! 1 = (live_entry 1 PROCESS_READY)\<lparr>ParrentId := 0\<rparr>"
  "Processes sample_pm ! 2 = live_entry 2 PROCESS_BLOCKED"
  "3 \<le> i \<Longrightarrow> i < MAX_PROCESSES \<Longrightarrow> Processes sample_pm ! i = blank_entry\<lparr>PId := of_nat i\<rparr>"
  by (simp_all add: sample_pm_def nth_append)

lemma live_entry_parent: "live_entry i St = (live_entry i St)\<lparr>ParrentId := PROCESS_ID_INVALID\<rparr>"
  by (simp add: live_entry_def blank_entry_def)

lemma sample_pm_inv: "pm_inv sample_pm"
proof -
  have "entry_ok i (Processes sample_pm ! i)" if "i < MAX_PROCESSES" for i
  proof -
    consider "i = 0" | "i = 1" | "i = 2" | "3 \<le> i" by linarith
    then show ?thesis
      using live_entry_ok [of PROCESS_RUNNING 0 PROCESS_ID_INVALID] live_entry_ok [of PROCESS_READY 1 0]
        live_entry_ok [of PROCESS_BLOCKED 2 PROCESS_ID_INVALID] blank_entry_ok [of i] that
      by cases (simp_all add: sample_pm_nth sample_pm_nth(2) [unfolded One_nat_def] flip: live_entry_parent)
  qed
  moreover have "length (Processes sample_pm) = MAX_PROCESSES" by (simp add: sample_pm_def MAX_PROCESSES_def)
  ultimately show ?thesis by (simp add: pm_inv_def)
qed

section \<open>Properties\<close>

section \<open>Further facts\<close>

text \<open>
  Creating a user process in a table with a free slot takes the lowest terminated slot, gives it
  that index as id, status READY, user level, the caller's registers, stack, address space and
  file type, and a program break at the heap start; every other slot is untouched and the table
  stays well-formed. With no free slot it returns the invalid id and changes nothing.
\<close>

theorem create_user_process_slot:
  assumes "pm_inv pm"
  shows "if \<exists>k<MAX_PROCESSES. Status (Processes pm ! k) = PROCESS_TERMINATED
    then \<exists>k p pm'. k < MAX_PROCESSES \<and> Status (Processes pm ! k) = PROCESS_TERMINATED \<and>
      (\<forall>j<k. Status (Processes pm ! j) \<noteq> PROCESS_TERMINATED) \<and>
      CreateUserProcess pm Stacks HeapStart Sp st Vas Ft = (of_nat k, pm') \<and> pm_inv pm' \<and>
      pm' = pm\<lparr>Processes := (Processes pm)[k := p]\<rparr> \<and>
      PId p = of_nat k \<and> Status p = PROCESS_READY \<and> Level p = PROCESS_LEVEL_USER \<and> State p = st \<and>
      StackPointer p = Sp \<and> AddressSpace p = Vas \<and> FileType p = Ft \<and>
      ProgramBreak p = (case Vas of None \<Rightarrow> 0 | Some a \<Rightarrow> HeapStart a) \<and>
      KernelSystemCallStackTop p = ComputeKernelSystemCallStackTop (KernelStackOf Stacks k)
    else CreateUserProcess pm Stacks HeapStart Sp st Vas Ft = (PROCESS_ID_INVALID, pm)"
proof (cases "\<exists>k<MAX_PROCESSES. Status (Processes pm ! k) = PROCESS_TERMINATED")
  case True
  from CreateUserProcess_slot [OF assms this, of Stacks HeapStart Sp st Vas Ft] obtain k p where
    kp: "k < MAX_PROCESSES" "Status (Processes pm ! k) = PROCESS_TERMINATED"
      "\<forall>j<k. Status (Processes pm ! j) \<noteq> PROCESS_TERMINATED"
      "CreateUserProcess pm Stacks HeapStart Sp st Vas Ft = (of_nat k, pm\<lparr>Processes := (Processes pm)[k := p]\<rparr>)"
      "entry_ok k p" "Status p = PROCESS_READY" "Level p = PROCESS_LEVEL_USER" "State p = st"
      "StackPointer p = Sp" "AddressSpace p = Vas" "FileType p = Ft"
      "ProgramBreak p = (case Vas of None \<Rightarrow> 0 | Some a \<Rightarrow> HeapStart a)"
      "KernelSystemCallStackTop p = ComputeKernelSystemCallStackTop (KernelStackOf Stacks k)" by blast
  have "pm_inv (pm\<lparr>Processes := (Processes pm)[k := p]\<rparr>)" using assms kp(5) by (rule pm_inv_update)
  with True kp entry_ok_id [OF kp(5)] show ?thesis by auto
next
  case False
  with Create_full(2) [of pm Stacks HeapStart Sp st Vas Ft] show ?thesis unfolding if_not_P [OF False] by blast
qed

theorem create_user_process_slot_witness:
  "\<exists>pm'. CreateUserProcess sample_pm 0x100000 (\<lambda>_. 0x600000) (Some 7) EmptyState (Some 0x5000) FILE_TYPE_ELF =
     (3, pm') \<and> pm_inv pm'"
proof -
  let ?c = "CreateUserProcess sample_pm 0x100000 (\<lambda>_. 0x600000) (Some 7) EmptyState (Some 0x5000) FILE_TYPE_ELF"
  have st: "Status (Processes sample_pm ! k) = PROCESS_TERMINATED \<longleftrightarrow> 3 \<le> k" if "k < MAX_PROCESSES" for k
  proof -
    consider "k = 0" | "k = 1" | "k = 2" | "3 \<le> k" by linarith
    then show ?thesis
      using that by cases (simp_all add: sample_pm_nth sample_pm_nth(2) [unfolded One_nat_def] live_entry_def blank_entry_def)
  qed
  have "\<exists>k<MAX_PROCESSES. Status (Processes sample_pm ! k) = PROCESS_TERMINATED"
    using st [of 3] by (auto simp: MAX_PROCESSES_def intro!: exI [of _ 3])
  with create_user_process_slot [OF sample_pm_inv, of "0x100000" "\<lambda>_. 0x600000" "Some 7" EmptyState "Some 0x5000" FILE_TYPE_ELF]
  obtain k pm' where k: "k < MAX_PROCESSES" "Status (Processes sample_pm ! k) = PROCESS_TERMINATED"
    "\<forall>j<k. Status (Processes sample_pm ! j) \<noteq> PROCESS_TERMINATED" "?c = (of_nat k, pm')" "pm_inv pm'"
    by (smt (verit, ccfv_SIG))
  have "k = 3" using k(1-3) st [of k] st [of 3] by (cases "3 < k") (auto simp: MAX_PROCESSES_def)
  with k(4,5) show ?thesis by auto
qed

text \<open>
  ProcessManager::KillProcess deletes exactly the open files of the slot, hands back its stack
  pointer, and leaves the slot terminated with its id and nothing owned: no files, mappings,
  signal actions, address space or executable; all other slots and the invariant are kept.
\<close>

theorem kill_process_slot:
  assumes "pm_inv pm" and "unat i < MAX_PROCESSES"
  shows "\<exists>p pm'. PM_KillProcess pm i =
       (StackPointer (Processes pm ! unat i), List.map_filter (\<lambda>f. f) (FileTable (Processes pm ! unat i)), pm') \<and>
     pm' = pm\<lparr>Processes := (Processes pm)[unat i := p]\<rparr> \<and> pm_inv pm' \<and>
     PId p = i \<and> Status p = PROCESS_TERMINATED \<and> entry_idle p"
  using PM_KillProcess_spec [OF assms] pm_inv_update [OF assms(1)] by blast

theorem kill_process_slot_witness:
  "\<exists>pm'. PM_KillProcess sample_pm 1 = (None, [], pm') \<and> Status (Processes pm' ! 1) = PROCESS_TERMINATED"
proof -
  have "Processes sample_pm ! unat (1::u8) = (live_entry 1 PROCESS_READY)\<lparr>ParrentId := 0\<rparr>"
    using sample_pm_nth(2) by simp
  moreover have "length (Processes sample_pm) = MAX_PROCESSES" using sample_pm_inv by (simp add: pm_inv_def)
  ultimately show ?thesis
    using kill_process_slot [OF sample_pm_inv, of 1]
    by (auto simp: MAX_PROCESSES_def live_entry_def blank_entry_def map_filter_def)
qed

text \<open>
  GetRunningProcess returns a process that is RUNNING and makes the tracked id its id, repairing a
  stale one; it returns null only when no slot is RUNNING, and then resets the tracked id. It
  changes no process.
\<close>

theorem running_process_tracked:
  assumes "pm_inv pm" and "GetRunningProcess pm = (r, pm')"
  shows "Processes pm' = Processes pm \<and>
     (case r of
        Some p \<Rightarrow> Status p = PROCESS_RUNNING \<and> CurrentProcessId pm' = PId p \<and> GetProcessById pm' (PId p) = Some p
      | None \<Rightarrow> CurrentProcessId pm' = PROCESS_ID_INVALID \<and>
          (\<forall>i<MAX_PROCESSES. Status (Processes pm ! i) \<noteq> PROCESS_RUNNING))"
  using assms by (rule GetRunningProcess_spec)

theorem running_process_tracked_witness:
  "\<exists>p pm'. GetRunningProcess (sample_pm\<lparr>CurrentProcessId := 5\<rparr>) = (Some p, pm') \<and> CurrentProcessId pm' = PId p"
proof -
  obtain r pm' where g: "GetRunningProcess (sample_pm\<lparr>CurrentProcessId := 5\<rparr>) = (r, pm')"
    by (cases "GetRunningProcess (sample_pm\<lparr>CurrentProcessId := 5\<rparr>)")
  have "pm_inv (sample_pm\<lparr>CurrentProcessId := 5\<rparr>)" by (simp add: sample_pm_inv)
  note t = running_process_tracked [OF this g]
  have "Status (Processes sample_pm ! 0) = PROCESS_RUNNING" "0 < MAX_PROCESSES"
    by (simp_all add: sample_pm_nth live_entry_def MAX_PROCESSES_def)
  with t g show ?thesis by (cases r) auto
qed

text \<open>
  With an aligned stack array inside the address space, the system-call stack top of slot k is 8
  below the end of its own 64 KiB, so stacks of different slots never overlap and no computation
  wraps.
\<close>

theorem system_call_stacks_disjoint:
  assumes "Stacks \<noteq> 0" and "16 dvd unat Stacks"
    and "unat Stacks + MAX_PROCESSES * PROCESS_KERNEL_SYSCALL_STACK_SIZE < 2 ^ 64" and "k < MAX_PROCESSES"
  shows "unat (ComputeKernelSystemCallStackTop (KernelStackOf Stacks k)) =
     unat Stacks + Suc k * PROCESS_KERNEL_SYSCALL_STACK_SIZE - 8"
  using assms by (rule KernelStackTop_inside)

theorem system_call_stacks_disjoint_witness:
  "unat (ComputeKernelSystemCallStackTop (KernelStackOf 0x100000 2)) = 0x100000 + 3 * 65536 - 8"
  using system_call_stacks_disjoint [of "0x100000" 2]
  by (simp add: MAX_PROCESSES_def PROCESS_KERNEL_SYSCALL_STACK_SIZE_def dvd_def)

end
