(* ===== verification/Synchronization_Manager.thy ===== *)
theory Synchronization_Manager imports Process_Manager begin

text \<open>
  \<open>Kernel/Layers/Logic/SynchronizationManager.{hpp,cpp}\<close>: sleeping processes, processes
  waiting for terminal input, futex waiters and the epoll event queues. Each
  \<open>IntrusiveQueue\<close> is the list of the tags it holds: \<open>PushBack\<close> appends, \<open>FindFirst\<close> then
  \<open>Remove\<close> is \<open>remove_first\<close> (\<open>iq.find_unlink\<close> proves it for the pointer program), and a loop
  that walks the queue is the list function of its body. The \<open>bool\<close> argument of an operation
  that allocates says whether \<open>operator new\<close> returned a tag. An event queue keeps the address
  of its kernel object, which an \<open>INode\<close> holds in \<open>NodeData\<close>.
\<close>

record sleep_tag =
  SleepId :: u8
  WaitTicksRemaining :: u64

record epoll_watch =
  WatchFileDescriptor :: u64
  WatchEvents :: u32
  WatchUserData :: u64

record event_queue_event =
  EventFileDescriptor :: u64
  EventEvents :: u32

record event_queue =
  QueueAddr :: addr
  QueueProcessId :: u8
  QueueFileDescriptor :: u64
  QueueFlags :: u64
  Watches :: "epoll_watch list"
  Events :: "event_queue_event list"
  QueueNode :: ptr

record futex_wait =
  FutexProcessId :: u8
  UserAddress :: u64

record synchronization_manager =
  SleepQueue :: "sleep_tag list"
  TTYInputWaitQueue :: "u8 list"
  EventQueueStore :: "event_queue list"
  FutexWaitQueue :: "futex_wait list"

definition LINUX_ERR_EFAULT :: int where "LINUX_ERR_EFAULT = -14"
definition LINUX_ERR_ENOMEM :: int where "LINUX_ERR_ENOMEM = -12"
definition LINUX_ERR_EINVAL :: int where "LINUX_ERR_EINVAL = -22"
definition LINUX_ERR_ENOENT :: int where "LINUX_ERR_ENOENT = -2"
definition LINUX_ERR_EEXIST :: int where "LINUX_ERR_EEXIST = -17"
definition LINUX_POLLIN :: u32 where "LINUX_POLLIN = 1"
definition LINUX_POLLOUT :: u32 where "LINUX_POLLOUT = 4"

definition LINUX_EPOLL_CTL_ADD :: int where "LINUX_EPOLL_CTL_ADD = 1"
definition LINUX_EPOLL_CTL_DEL :: int where "LINUX_EPOLL_CTL_DEL = 2"
definition LINUX_EPOLL_CTL_MOD :: int where "LINUX_EPOLL_CTL_MOD = 3"

lemmas errno_defs = LINUX_ERR_EFAULT_def LINUX_ERR_ENOMEM_def LINUX_ERR_EINVAL_def
  LINUX_ERR_ENOENT_def LINUX_ERR_EEXIST_def

definition Sync_init :: synchronization_manager where
  "Sync_init = \<lparr>SleepQueue = [], TTYInputWaitQueue = [], EventQueueStore = [], FutexWaitQueue = []\<rparr>"

definition FindEventQueue :: "synchronization_manager \<Rightarrow> u8 \<Rightarrow> u64 \<Rightarrow> event_queue option" where
  "FindEventQueue s pid fd =
     List.find (\<lambda>q. QueueProcessId q = pid \<and> QueueFileDescriptor q = fd) (EventQueueStore s)"

definition FindWatch :: "event_queue \<Rightarrow> u64 \<Rightarrow> epoll_watch option" where
  "FindWatch q fd = List.find (\<lambda>w. WatchFileDescriptor w = fd) (Watches q)"

text \<open>\<open>ClearEventQueue\<close>: the queue emptied, its node deleted (the address freed is returned).\<close>

definition ClearEventQueue :: "event_queue \<Rightarrow> ptr \<times> event_queue" where
  "ClearEventQueue q = (QueueNode q, q\<lparr>Watches := [], Events := [], QueueNode := None\<rparr>)"

definition Sync_destroy :: "synchronization_manager \<Rightarrow> addr list \<times> synchronization_manager" where
  "Sync_destroy s =
     (concat (map (\<lambda>q. (case fst (ClearEventQueue q) of None \<Rightarrow> [] | Some a \<Rightarrow> [a]) @ [QueueAddr q])
        (EventQueueStore s)),
      s\<lparr>SleepQueue := [], TTYInputWaitQueue := [], FutexWaitQueue := [], EventQueueStore := []\<rparr>)"

definition AddToSleepQueue ::
    "synchronization_manager \<Rightarrow> u8 \<Rightarrow> u64 \<Rightarrow> bool \<Rightarrow> synchronization_manager" where
  "AddToSleepQueue s i WaitTicks NewTag =
     (if \<not> NewTag then s
      else s\<lparr>SleepQueue := SleepQueue s @ [\<lparr>SleepId = i, WaitTicksRemaining = WaitTicks\<rparr>]\<rparr>)"

definition RemoveFromSleepQueue :: "synchronization_manager \<Rightarrow> u8 \<Rightarrow> synchronization_manager" where
  "RemoveFromSleepQueue s i = s\<lparr>SleepQueue := remove_first (\<lambda>t. SleepId t = i) (SleepQueue s)\<rparr>"

definition AddToTTYInputWaitQueue ::
    "synchronization_manager \<Rightarrow> u8 \<Rightarrow> bool \<Rightarrow> synchronization_manager" where
  "AddToTTYInputWaitQueue s i NewTag =
     (if List.find (\<lambda>t. t = i) (TTYInputWaitQueue s) \<noteq> None then s
      else if \<not> NewTag then s
      else s\<lparr>TTYInputWaitQueue := TTYInputWaitQueue s @ [i]\<rparr>)"

definition RemoveFromTTYInputWaitQueue ::
    "synchronization_manager \<Rightarrow> u8 \<Rightarrow> synchronization_manager" where
  "RemoveFromTTYInputWaitQueue s i =
     s\<lparr>TTYInputWaitQueue := remove_first (\<lambda>t. t = i) (TTYInputWaitQueue s)\<rparr>"

definition CreateEventQueue ::
    "synchronization_manager \<Rightarrow> u8 \<Rightarrow> u64 \<Rightarrow> u64 \<Rightarrow> ptr \<Rightarrow> ptr \<Rightarrow>
     bool \<times> synchronization_manager" where
  "CreateEventQueue s pid fd Flags NewQueue NewNode =
     (if FindEventQueue s pid fd \<noteq> None then (False, s)
      else case NewQueue of
        None \<Rightarrow> (False, s)
      | Some a \<Rightarrow>
          (case NewNode of
             None \<Rightarrow> (False, s)
           | Some n \<Rightarrow>
               (True, s\<lparr>EventQueueStore := EventQueueStore s @
                  [\<lparr>QueueAddr = a, QueueProcessId = pid, QueueFileDescriptor = fd,
                    QueueFlags = Flags, Watches = [], Events = [], QueueNode = Some n\<rparr>]\<rparr>)))"

definition RemoveEventQueue ::
    "synchronization_manager \<Rightarrow> u8 \<Rightarrow> u64 \<Rightarrow> bool \<times> synchronization_manager" where
  "RemoveEventQueue s pid fd =
     (case FindEventQueue s pid fd of
        None \<Rightarrow> (False, s)
      | Some _ \<Rightarrow>
          (True, s\<lparr>EventQueueStore :=
             remove_first (\<lambda>q. QueueProcessId q = pid \<and> QueueFileDescriptor q = fd)
               (EventQueueStore s)\<rparr>))"

definition RemoveWatchesForFile ::
    "synchronization_manager \<Rightarrow> u8 \<Rightarrow> u64 \<Rightarrow> synchronization_manager" where
  "RemoveWatchesForFile s pid fd =
     s\<lparr>EventQueueStore :=
        map (\<lambda>q. if QueueProcessId q \<noteq> pid then q
                 else q\<lparr>Watches := filter (\<lambda>w. WatchFileDescriptor w \<noteq> fd) (Watches q)\<rparr>)
          (EventQueueStore s)\<rparr>"

definition HasEventQueue :: "synchronization_manager \<Rightarrow> u8 \<Rightarrow> u64 \<Rightarrow> bool" where
  "HasEventQueue s pid fd = (FindEventQueue s pid fd \<noteq> None)"

definition GetEventQueue :: "synchronization_manager \<Rightarrow> u8 \<Rightarrow> u64 \<Rightarrow> event_queue option" where
  "GetEventQueue s pid fd = FindEventQueue s pid fd"


text \<open>
  \<open>DuplicateEventQueuesForProcess\<close> walks the store while it appends copies to it. The walk is
  at the \<open>i\<close>-th queue; \<open>NextQueue\<close> is read before the copy is appended, so a queue that was
  last ends the walk. \<open>addrs\<close> gives the addresses of each copy and of its node: an
  allocation that fails ends the walk with \<open>False\<close>, the copies made so far staying.
\<close>

definition CopyQueue :: "event_queue \<Rightarrow> u8 \<Rightarrow> addr \<times> addr \<Rightarrow> event_queue" where
  "CopyQueue q Dest an =
     \<lparr>QueueAddr = fst an, QueueProcessId = Dest, QueueFileDescriptor = QueueFileDescriptor q,
      QueueFlags = QueueFlags q, Watches = Watches q, Events = [], QueueNode = Some (snd an)\<rparr>"

function DuplicateFrom ::
    "event_queue list \<Rightarrow> nat \<Rightarrow> u8 \<Rightarrow> u8 \<Rightarrow> (addr \<times> addr) list \<Rightarrow> bool \<times> event_queue list" where
  "DuplicateFrom store i Source Dest addrs =
     (if length store \<le> i then (True, store)
      else if QueueProcessId (store ! i) \<noteq> Source then DuplicateFrom store (Suc i) Source Dest addrs
      else case addrs of
        [] \<Rightarrow> (False, store)
      | an # rest \<Rightarrow>
          (let store1 = store @ [CopyQueue (store ! i) Dest an]
           in if Suc i < length store then DuplicateFrom store1 (Suc i) Source Dest rest
              else (True, store1)))"
  by pat_completeness auto
termination
  by (relation "measures [\<lambda>(store, i, S, D, addrs). length addrs, \<lambda>(store, i, S, D, addrs). length store - i]")
    auto

definition DuplicateEventQueuesForProcess ::
    "synchronization_manager \<Rightarrow> u8 \<Rightarrow> u8 \<Rightarrow> (addr \<times> addr) list \<Rightarrow>
     bool \<times> synchronization_manager" where
  "DuplicateEventQueuesForProcess s Source Dest addrs =
     (case DuplicateFrom (EventQueueStore s) 0 Source Dest addrs of
        (ok, store) \<Rightarrow> (ok, s\<lparr>EventQueueStore := store\<rparr>))"

declare DuplicateFrom.simps [simp del]

definition RemoveFutexWaitersForProcess ::
    "synchronization_manager \<Rightarrow> u8 \<Rightarrow> synchronization_manager" where
  "RemoveFutexWaitersForProcess s pid =
     s\<lparr>FutexWaitQueue := filter (\<lambda>t. FutexProcessId t \<noteq> pid) (FutexWaitQueue s)\<rparr>"

definition AddFutexWaiter ::
    "synchronization_manager \<Rightarrow> u8 \<Rightarrow> u64 \<Rightarrow> bool \<Rightarrow> bool \<times> synchronization_manager" where
  "AddFutexWaiter s pid ua NewTag =
     (let s1 = RemoveFutexWaitersForProcess s pid
      in if \<not> NewTag then (False, s1)
         else (True, s1\<lparr>FutexWaitQueue :=
                 FutexWaitQueue s1 @ [\<lparr>FutexProcessId = pid, UserAddress = ua\<rparr>]\<rparr>))"

definition RemoveFutexWaiter ::
    "synchronization_manager \<Rightarrow> u8 \<Rightarrow> u64 \<Rightarrow> synchronization_manager" where
  "RemoveFutexWaiter s pid ua =
     s\<lparr>FutexWaitQueue :=
        remove_first (\<lambda>t. FutexProcessId t = pid \<and> UserAddress t = ua) (FutexWaitQueue s)\<rparr>"

definition IsProcessWaitingOnFutex :: "synchronization_manager \<Rightarrow> u8 \<Rightarrow> u64 \<Rightarrow> bool" where
  "IsProcessWaitingOnFutex s pid ua =
     list_ex (\<lambda>t. FutexProcessId t = pid \<and> UserAddress t = ua) (FutexWaitQueue s)"

definition WakeSingleFutexWaiter ::
    "synchronization_manager \<Rightarrow> u64 \<Rightarrow> u8 \<times> synchronization_manager" where
  "WakeSingleFutexWaiter s ua =
     (case List.find (\<lambda>t. UserAddress t = ua) (FutexWaitQueue s) of
        None \<Rightarrow> (PROCESS_ID_INVALID, s)
      | Some t \<Rightarrow>
          (FutexProcessId t,
           s\<lparr>FutexWaitQueue := remove_first (\<lambda>t. UserAddress t = ua) (FutexWaitQueue s)\<rparr>))"

definition TickTag :: "sleep_tag \<Rightarrow> sleep_tag" where
  "TickTag t =
     (if WaitTicksRemaining t > 0 then t\<lparr>WaitTicksRemaining := WaitTicksRemaining t - 1\<rparr> else t)"

definition Sync_Tick :: "synchronization_manager \<Rightarrow> synchronization_manager" where
  "Sync_Tick s = s\<lparr>SleepQueue := map TickTag (SleepQueue s)\<rparr>"

definition GetNextProcessToWake :: "synchronization_manager \<Rightarrow> u8" where
  "GetNextProcessToWake s =
     (case List.find (\<lambda>t. WaitTicksRemaining t = 0) (SleepQueue s) of
        Some t \<Rightarrow> SleepId t
      | None \<Rightarrow> PROCESS_ID_INVALID)"

definition GetNextTTYInputWaiter :: "synchronization_manager \<Rightarrow> u8" where
  "GetNextTTYInputWaiter s =
     (case TTYInputWaitQueue s of i # _ \<Rightarrow> i | [] \<Rightarrow> PROCESS_ID_INVALID)"

text \<open>
  The poll operation of an event-queue file. \<open>NodeData\<close> is \<open>None\<close> when \<open>OpenFile\<close> or its
  node is null; the outer \<open>None\<close> of the result is a \<open>NodeData\<close> pointer to no live queue.
\<close>

definition EventQueuePollFileOperation ::
    "synchronization_manager \<Rightarrow> ptr option \<Rightarrow> u32 \<Rightarrow> bool \<Rightarrow> (int \<times> u32) option" where
  "EventQueuePollFileOperation s NodeData RequestedEvents HasReturnedEvents =
     (case NodeData of
        None \<Rightarrow> Some (LINUX_ERR_EFAULT, 0)
      | Some d \<Rightarrow>
          (if \<not> HasReturnedEvents then Some (LINUX_ERR_EFAULT, 0)
           else case d of
             None \<Rightarrow> Some (LINUX_ERR_EFAULT, 0)
           | Some a \<Rightarrow>
               (case List.find (\<lambda>q. QueueAddr q = a) (EventQueueStore s) of
                  None \<Rightarrow> None
                | Some q \<Rightarrow>
                    (let r0 = (if RequestedEvents AND LINUX_POLLIN \<noteq> 0 \<and> Events q \<noteq> []
                               then LINUX_POLLIN else 0);
                         r1 = (if RequestedEvents AND LINUX_POLLOUT \<noteq> 0
                               then r0 OR LINUX_POLLOUT else r0)
                     in Some (0, r1)))))"

section \<open>Invariant\<close>

definition queue_key :: "event_queue \<Rightarrow> u8 \<times> u64" where
  "queue_key q = (QueueProcessId q, QueueFileDescriptor q)"


text \<open>One watch per file, never on the queue itself.\<close>

definition queue_ok :: "event_queue \<Rightarrow> bool" where
  "queue_ok q \<longleftrightarrow>
     distinct (map WatchFileDescriptor (Watches q)) \<and>
     QueueFileDescriptor q \<notin> set (map WatchFileDescriptor (Watches q))"

definition sync_inv :: "synchronization_manager \<Rightarrow> bool" where
  "sync_inv s \<longleftrightarrow>
     distinct (TTYInputWaitQueue s) \<and>
     distinct (map FutexProcessId (FutexWaitQueue s)) \<and>
     distinct (map queue_key (EventQueueStore s)) \<and>
     (\<forall>q\<in>set (EventQueueStore s). queue_ok q)"

lemma sync_inv_init: "sync_inv Sync_init"
  by (simp add: sync_inv_def Sync_init_def)

lemma sync_inv_sleep [inv_intros]:
  "sync_inv s \<Longrightarrow> sync_inv (AddToSleepQueue s i n a)"
  "sync_inv s \<Longrightarrow> sync_inv (RemoveFromSleepQueue s i)"
  "sync_inv s \<Longrightarrow> sync_inv (Sync_Tick s)"
  by (simp_all add: sync_inv_def AddToSleepQueue_def RemoveFromSleepQueue_def Sync_Tick_def)

lemma sync_inv_tty [inv_intros]:
  "sync_inv s \<Longrightarrow> sync_inv (AddToTTYInputWaitQueue s i a)"
  "sync_inv s \<Longrightarrow> sync_inv (RemoveFromTTYInputWaitQueue s i)"
  by (auto simp: sync_inv_def AddToTTYInputWaitQueue_def RemoveFromTTYInputWaitQueue_def
      distinct_remove_first find_None_conv)

lemma sync_inv_futex [inv_intros]:
  "sync_inv s \<Longrightarrow> sync_inv (snd (AddFutexWaiter s pid ua a))"
  "sync_inv s \<Longrightarrow> sync_inv (RemoveFutexWaiter s pid ua)"
  "sync_inv s \<Longrightarrow> sync_inv (RemoveFutexWaitersForProcess s pid)"
  "sync_inv s \<Longrightarrow> sync_inv (snd (WakeSingleFutexWaiter s ua))"
  by (auto simp: sync_inv_def AddFutexWaiter_def RemoveFutexWaitersForProcess_def Let_def
      RemoveFutexWaiter_def WakeSingleFutexWaiter_def distinct_map_remove_first distinct_map_filter
      split: option.splits)

lemma sync_inv_CreateEventQueue [inv_intros]:
  "sync_inv s \<Longrightarrow> sync_inv (snd (CreateEventQueue s pid fd fl a n))"
  by (auto simp: sync_inv_def CreateEventQueue_def FindEventQueue_def find_None_conv
      queue_key_def queue_ok_def split: option.splits)

lemma sync_inv_RemoveEventQueue [inv_intros]:
  "sync_inv s \<Longrightarrow> sync_inv (snd (RemoveEventQueue s pid fd))"
  by (auto simp: sync_inv_def RemoveEventQueue_def distinct_map_remove_first
      dest: in_set_remove_firstD split: option.splits)

lemma sync_inv_RemoveWatchesForFile [inv_intros]:
  assumes "sync_inv s"
  shows "sync_inv (RemoveWatchesForFile s pid fd)"
proof -
  let ?f = "\<lambda>q. if QueueProcessId q \<noteq> pid then q
                 else q\<lparr>Watches := filter (\<lambda>w. WatchFileDescriptor w \<noteq> fd) (Watches q)\<rparr>"
  have "map queue_key (map ?f (EventQueueStore s)) = map queue_key (EventQueueStore s)"
    by (simp add: queue_key_def)
  moreover have "queue_ok q \<Longrightarrow> queue_ok (?f q)" for q
    by (auto simp: queue_ok_def distinct_map_filter)
  then have "\<forall>q\<in>set (map ?f (EventQueueStore s)). queue_ok q"
    using assms unfolding sync_inv_def set_map by blast
  ultimately show ?thesis
    using assms unfolding sync_inv_def RemoveWatchesForFile_def by (simp del: map_map set_map)
qed


section \<open>The event queues as a finite map\<close>

text \<open>
  Specification: an event queue is a process and a descriptor, its flags, and the interest
  list as a partial function from watched descriptors to events and user data.
\<close>

type_synonym interest = "u64 \<Rightarrow> (u32 \<times> u64) option"
type_synonym epoll_state = "u8 \<times> u64 \<Rightarrow> (u64 \<times> interest) option"

definition watch_map :: "event_queue \<Rightarrow> interest" where
  "watch_map q fd = map_option (\<lambda>w. (WatchEvents w, WatchUserData w)) (FindWatch q fd)"

definition epoll_abs :: "synchronization_manager \<Rightarrow> epoll_state" where
  "epoll_abs s k = map_option (\<lambda>q. (QueueFlags q, watch_map q))
     (List.find (\<lambda>q. queue_key q = k) (EventQueueStore s))"










lemma epoll_op_distinct [simp]:
  "LINUX_EPOLL_CTL_DEL \<noteq> LINUX_EPOLL_CTL_ADD" "LINUX_EPOLL_CTL_MOD \<noteq> LINUX_EPOLL_CTL_ADD"
  "LINUX_EPOLL_CTL_MOD \<noteq> LINUX_EPOLL_CTL_DEL"
  by (simp_all add: LINUX_EPOLL_CTL_ADD_def LINUX_EPOLL_CTL_DEL_def LINUX_EPOLL_CTL_MOD_def)



section \<open>Copying the event queues of a process\<close>

definition copies_of :: "event_queue list \<Rightarrow> u8 \<Rightarrow> u8 \<Rightarrow> (addr \<times> addr) list \<Rightarrow> event_queue list" where
  "copies_of qs Source Dest addrs =
     map (\<lambda>(q, an). CopyQueue q Dest an) (zip (filter (\<lambda>q. QueueProcessId q = Source) qs) addrs)"

lemma DuplicateFrom_skip:
  "\<forall>q\<in>set (drop i store). QueueProcessId q \<noteq> Source \<Longrightarrow>
   DuplicateFrom store i Source Dest addrs = (True, store)"
proof (induction "length store - i" arbitrary: i)
  case 0
  then show ?case by (subst DuplicateFrom.simps) simp
next
  case (Suc n)
  then have i: "i < length store" by simp
  then have d: "drop i store = store ! i # drop (Suc i) store" by (rule Cons_nth_drop_Suc [symmetric])
  with Suc.prems have "QueueProcessId (store ! i) \<noteq> Source" by simp
  moreover have "DuplicateFrom store (Suc i) Source Dest addrs = (True, store)"
    using Suc d by (intro Suc.hyps) auto
  ultimately show ?case using i by (subst DuplicateFrom.simps) simp
qed

lemma DuplicateFrom_copies:
  assumes "Source \<noteq> Dest" and "\<forall>q\<in>set cps. QueueProcessId q = Dest"
  shows "DuplicateFrom (ds @ pend @ cps) (length ds) Source Dest addrs =
     (length (filter (\<lambda>q. QueueProcessId q = Source) pend) \<le> length addrs,
      ds @ pend @ cps @ copies_of pend Source Dest addrs)"
  using assms(2)
proof (induction pend arbitrary: ds cps addrs)
  case Nil
  with assms(1) have "DuplicateFrom (ds @ cps) (length ds) Source Dest addrs = (True, ds @ cps)"
    by (intro DuplicateFrom_skip) auto
  then show ?case by (simp add: copies_of_def)
next
  case (Cons q pend)
  have next_step: "DuplicateFrom ((ds @ [q]) @ pend @ cps) (length (ds @ [q])) Source Dest addrs =
      (length (filter (\<lambda>q. QueueProcessId q = Source) pend) \<le> length addrs,
      (ds @ [q]) @ pend @ cps @ copies_of pend Source Dest addrs)"
    using Cons.prems by (rule Cons.IH)
  show ?case
  proof (cases "QueueProcessId q = Source")
    case False
    with next_step show ?thesis by (subst DuplicateFrom.simps) (simp add: copies_of_def)
  next
    case True
    show ?thesis
    proof (cases addrs)
      case Nil
      with True show ?thesis by (subst DuplicateFrom.simps) (simp add: copies_of_def)
    next
      case (Cons an rest)
      let ?c = "CopyQueue q Dest an"
      have "DuplicateFrom ((ds @ [q]) @ pend @ (cps @ [?c])) (length (ds @ [q])) Source Dest rest =
        (length (filter (\<lambda>q. QueueProcessId q = Source) pend) \<le> length rest,
         (ds @ [q]) @ pend @ (cps @ [?c]) @ copies_of pend Source Dest rest)"
        using Cons.prems by (intro Cons.IH) (auto simp: CopyQueue_def)
      then show ?thesis
        using True Cons by (subst DuplicateFrom.simps) (cases "pend = [] \<and> cps = []", auto simp: copies_of_def Let_def)
    qed
  qed
qed

lemma map_zip_find:
  "length qs \<le> length as \<Longrightarrow> (\<And>q a. P (c q a) = P' q) \<Longrightarrow> (\<And>q a. g (c q a) = g' q) \<Longrightarrow>
   map_option g (List.find P (map (\<lambda>(q, a). c q a) (zip qs as))) = map_option g' (List.find P' qs)"
proof (induction qs arbitrary: as)
  case Nil
  then show ?case by simp
next
  case (Cons q qs)
  then show ?case by (cases as) auto
qed

lemma map_zip_map:
  "length qs \<le> length as \<Longrightarrow> (\<And>q a. g (c q a) = g' q) \<Longrightarrow>
   map g (map (\<lambda>(q, a). c q a) (zip qs as)) = map g' qs"
proof (induction qs arbitrary: as)
  case Nil
  then show ?case by simp
next
  case (Cons q qs)
  then show ?case by (cases as) auto
qed

lemma Duplicate_refines:
  assumes "sync_inv s" and "Source \<noteq> Dest"
    and fresh: "\<forall>q\<in>set (EventQueueStore s). QueueProcessId q \<noteq> Dest"
    and dup: "DuplicateEventQueuesForProcess s Source Dest addrs = (True, s')"
  shows "sync_inv s' \<and>
     epoll_abs s' = (\<lambda>(p, fd). if p = Dest then epoll_abs s (Source, fd) else epoll_abs s (p, fd))"
proof -
  let ?E = "EventQueueStore s" and ?src = "filter (\<lambda>q. QueueProcessId q = Source) (EventQueueStore s)"
  let ?C = "copies_of ?E Source Dest addrs"
  have len: "length ?src \<le> length addrs" and s': "s' = s\<lparr>EventQueueStore := ?E @ ?C\<rparr>"
    using dup DuplicateFrom_copies [OF assms(2), of "[]" "[]" ?E addrs]
    by (auto simp: DuplicateEventQueuesForProcess_def)
  have keys: "map queue_key ?C = map (\<lambda>q. (Dest, QueueFileDescriptor q)) ?src"
    unfolding copies_of_def using len by (rule map_zip_map) (simp add: CopyQueue_def queue_key_def)
  have ok: "map queue_ok ?C = map queue_ok ?src"
    unfolding copies_of_def using len by (rule map_zip_map) (simp add: CopyQueue_def queue_ok_def)
  have dist: "distinct (map queue_key ?E)" using assms(1) by (simp add: sync_inv_def)
  then have "distinct (map (\<lambda>q. (Dest, QueueFileDescriptor q)) ?src)"
    by (auto simp: distinct_map inj_on_def queue_key_def)
  moreover have "set (map queue_key ?E) \<inter> set (map (\<lambda>q. (Dest, QueueFileDescriptor q)) ?src) = {}"
    using fresh by (auto simp: queue_key_def)
  ultimately have "distinct (map queue_key (?E @ ?C))"
    unfolding map_append keys using dist by (simp only: distinct_append)
  moreover have "\<forall>q\<in>set ?C. queue_ok q"
  proof -
    have "set (map queue_ok ?C) \<subseteq> {True}" unfolding ok using assms(1) by (auto simp: sync_inv_def)
    then show ?thesis by auto
  qed
  ultimately have inv: "sync_inv s'" using assms(1) s' by (auto simp: sync_inv_def)
  have "epoll_abs s' (p, fd) = (if p = Dest then epoll_abs s (Source, fd) else epoll_abs s (p, fd))" for p fd
  proof (cases "p = Dest")
    case True
    then have "List.find (\<lambda>q. queue_key q = (p, fd)) ?E = None"
      using fresh by (auto simp: find_None_conv queue_key_def)
    moreover have "map_option (\<lambda>q. (QueueFlags q, watch_map q)) (List.find (\<lambda>q. queue_key q = (p, fd)) ?C)
        = map_option (\<lambda>q. (QueueFlags q, watch_map q)) (List.find (\<lambda>q. QueueFileDescriptor q = fd) ?src)"
      unfolding copies_of_def using len True
      by (intro map_zip_find) (auto simp: CopyQueue_def queue_key_def watch_map_def FindWatch_def fun_eq_iff)
    moreover have "List.find (\<lambda>q. QueueFileDescriptor q = fd) ?src
        = List.find (\<lambda>q. queue_key q = (Source, fd)) ?E"
      by (simp add: find_filter queue_key_def)
    ultimately show ?thesis using True s' by (simp add: epoll_abs_def find_append)
  next
    case False
    then have "List.find (\<lambda>q. queue_key q = (p, fd)) ?C = None"
      using keys by (auto simp: find_None_conv) (metis (no_types, lifting) Pair_inject image_iff list.set_map)
    with False s' show ?thesis by (simp add: epoll_abs_def find_append split: option.splits)
  qed
  with inv show ?thesis by auto
qed

section \<open>Sleeping\<close>

lemma Sync_Tick_pow:
  "SleepQueue ((Sync_Tick ^^ n) s) = map (TickTag ^^ n) (SleepQueue s)"
  by (induction n) (simp_all add: Sync_Tick_def)

lemma TickTag_pow:
  "SleepId ((TickTag ^^ n) t) = SleepId t \<and>
   unat (WaitTicksRemaining ((TickTag ^^ n) t)) = unat (WaitTicksRemaining t) - n"
  by (induction n) (auto simp: TickTag_def unat_sub word_le_nat_alt word_less_nat_alt unat_eq_zero Suc_le_eq)

lemma GetNextProcessToWake_after:
  "GetNextProcessToWake ((Sync_Tick ^^ n) s) =
     (case List.find (\<lambda>t. unat (WaitTicksRemaining t) \<le> n) (SleepQueue s) of
        Some t \<Rightarrow> SleepId t | None \<Rightarrow> PROCESS_ID_INVALID)"
proof -
  have "(WaitTicksRemaining ((TickTag ^^ n) t) = 0) = (unat (WaitTicksRemaining t) \<le> n)" for t
    using TickTag_pow [of n t] by (simp flip: unat_eq_zero)
  then show ?thesis
    by (simp add: GetNextProcessToWake_def Sync_Tick_pow find_map TickTag_pow split: option.splits)
qed

section \<open>Futex waiters\<close>

lemma waiting_iff:
  "IsProcessWaitingOnFutex s pid ua \<longleftrightarrow>
     (\<exists>t\<in>set (FutexWaitQueue s). FutexProcessId t = pid \<and> UserAddress t = ua)"
  by (simp add: IsProcessWaitingOnFutex_def list_ex_iff)

lemma waiting_once:
  "sync_inv s \<Longrightarrow> IsProcessWaitingOnFutex s pid ua \<Longrightarrow> IsProcessWaitingOnFutex s pid ub \<Longrightarrow> ua = ub"
  by (auto simp: waiting_iff sync_inv_def distinct_map inj_on_def)

lemma AddFutexWaiter_waits:
  "IsProcessWaitingOnFutex (snd (AddFutexWaiter s pid ua True)) p b =
     (if p = pid then b = ua else IsProcessWaitingOnFutex s p b)"
  by (auto simp: waiting_iff AddFutexWaiter_def RemoveFutexWaitersForProcess_def Let_def)

lemma WakeSingle_waits:
  assumes "sync_inv s" and "WakeSingleFutexWaiter s ua = (w, s')"
  shows "(if \<exists>p. IsProcessWaitingOnFutex s p ua
          then IsProcessWaitingOnFutex s w ua
             \<and> (\<forall>p b. IsProcessWaitingOnFutex s' p b = (p \<noteq> w \<and> IsProcessWaitingOnFutex s p b))
          else w = PROCESS_ID_INVALID \<and> s' = s)"
proof (cases "List.find (\<lambda>t. UserAddress t = ua) (FutexWaitQueue s)")
  case None
  then have "\<not> (\<exists>p. IsProcessWaitingOnFutex s p ua)"
    by (auto simp: waiting_iff find_None_conv)
  with None assms(2) show ?thesis by (simp add: WakeSingleFutexWaiter_def)
next
  case (Some t)
  have d: "distinct (map FutexProcessId (FutexWaitQueue s))" using assms(1) by (simp add: sync_inv_def)
  have t: "t \<in> set (FutexWaitQueue s)" "UserAddress t = ua" using find_SomeD [OF Some] by auto
  have rm: "distinct (map FutexProcessId xs) \<Longrightarrow> List.find (\<lambda>t. UserAddress t = ua) xs = Some t \<Longrightarrow>
      remove_first (\<lambda>t. UserAddress t = ua) xs = filter (\<lambda>x. FutexProcessId x \<noteq> FutexProcessId t) xs" for xs
  proof (induction xs)
    case Nil
    then show ?case by simp
  next
    case (Cons x xs)
    show ?case
    proof (cases "UserAddress x = ua")
      case True
      with Cons.prems have "t = x" by simp
      have "\<forall>y\<in>set xs. FutexProcessId y \<noteq> FutexProcessId x"
        using Cons.prems(1) by (metis distinct.simps(2) image_eqI list.map(2) list.set_map)
      with True \<open>t = x\<close> show ?thesis by (auto simp: filter_id_conv)
    next
      case False
      with Cons.prems have "FutexProcessId x \<noteq> FutexProcessId t"
        using find_SomeD [of "\<lambda>t. UserAddress t = ua" xs t] by auto
      with False Cons show ?thesis by simp
    qed
  qed
  have "w = FutexProcessId t"
    and "FutexWaitQueue s' = filter (\<lambda>x. FutexProcessId x \<noteq> w) (FutexWaitQueue s)"
    using assms(2) Some rm [OF d Some] by (auto simp: WakeSingleFutexWaiter_def)
  with t show ?thesis by (auto simp: waiting_iff)
qed

section \<open>Properties\<close>



section \<open>Further facts\<close>

text \<open>
  Duplicating the event queues of a process for a fresh child succeeds only by giving the child,
  under every descriptor, a queue with the parent's flags and interest list, and changes no other
  process's queues.
\<close>

theorem epoll_queues_duplicated:
  assumes "sync_inv s" and "Source \<noteq> Dest" and "\<forall>q\<in>set (EventQueueStore s). QueueProcessId q \<noteq> Dest"
    and "DuplicateEventQueuesForProcess s Source Dest addrs = (True, s')"
  shows "sync_inv s' \<and>
     epoll_abs s' = (\<lambda>(p, fd). if p = Dest then epoll_abs s (Source, fd) else epoll_abs s (p, fd))"
  using assms by (rule Duplicate_refines)

theorem epoll_queues_duplicated_witness:
  "\<exists>s'. DuplicateEventQueuesForProcess (snd (CreateEventQueue Sync_init 1 5 0 (Some 64) (Some 96))) 1 2 [(128, 160)] =
     (True, s') \<and> epoll_abs s' (2, 5) = Some (0, Map.empty)"
proof -
  let ?s = "snd (CreateEventQueue Sync_init 1 5 0 (Some 64) (Some 96))"
  have inv: "sync_inv ?s" by (rule sync_inv_CreateEventQueue [OF sync_inv_init])
  have st: "EventQueueStore ?s = [\<lparr>QueueAddr = 64, QueueProcessId = 1, QueueFileDescriptor = 5, QueueFlags = 0,
      Watches = [], Events = [], QueueNode = Some 96\<rparr>]"
    by (simp add: CreateEventQueue_def FindEventQueue_def Sync_init_def)
  have a: "epoll_abs ?s (1, 5) = Some (0, Map.empty)"
    by (simp add: st epoll_abs_def queue_key_def watch_map_def FindWatch_def fun_eq_iff)
  have "fst (DuplicateEventQueuesForProcess ?s 1 2 [(128, 160)])"
    using DuplicateFrom_copies [of 1 2 "[]" "[]" "EventQueueStore ?s" "[(128, 160)]"]
    by (simp add: DuplicateEventQueuesForProcess_def st)
  then obtain s' where d: "DuplicateEventQueuesForProcess ?s 1 2 [(128, 160)] = (True, s')"
    by (cases "DuplicateEventQueuesForProcess ?s 1 2 [(128, 160)]") simp
  have "epoll_abs s' = (\<lambda>(p, fd). if p = 2 then epoll_abs ?s (1, fd) else epoll_abs ?s (p, fd))"
    using epoll_queues_duplicated [OF inv _ _ d] by (simp add: st)
  with a d show ?thesis by simp
qed

text \<open>
  After n ticks the process to wake is the first sleeper in queue order whose wait was at most n
  ticks, and there is none exactly when every wait is longer: nobody is offered before its time
  and the counters never wrap below zero.
\<close>

theorem sleepers_wake_on_time:
  "GetNextProcessToWake ((Sync_Tick ^^ n) s) =
     (case List.find (\<lambda>t. unat (WaitTicksRemaining t) \<le> n) (SleepQueue s) of
        Some t \<Rightarrow> SleepId t | None \<Rightarrow> PROCESS_ID_INVALID) \<and>
   map SleepId (SleepQueue ((Sync_Tick ^^ n) s)) = map SleepId (SleepQueue s)"
  by (simp add: GetNextProcessToWake_after Sync_Tick_pow TickTag_pow)

text \<open>
  Waking one waiter of an address returns a process waiting on exactly that address, ends its wait
  and nobody else's; with no waiter it returns the invalid id and changes nothing. Adding a waiter
  makes that process wait on that address only.
\<close>

theorem futex_wake_one:
  assumes "sync_inv s" and "WakeSingleFutexWaiter s ua = (w, s')"
  shows "sync_inv s' \<and>
    (if \<exists>p. IsProcessWaitingOnFutex s p ua
     then IsProcessWaitingOnFutex s w ua \<and>
       (\<forall>p b. IsProcessWaitingOnFutex s' p b = (p \<noteq> w \<and> IsProcessWaitingOnFutex s p b))
     else w = PROCESS_ID_INVALID \<and> s' = s) \<and>
    (\<forall>pid p b. IsProcessWaitingOnFutex (snd (AddFutexWaiter s pid ua True)) p b =
       (if p = pid then b = ua else IsProcessWaitingOnFutex s p b))"
  using WakeSingle_waits [OF assms] sync_inv_futex(4) [OF assms(1), of ua] assms(2) AddFutexWaiter_waits by simp

theorem futex_wake_one_witness:
  "\<exists>s'. WakeSingleFutexWaiter (snd (AddFutexWaiter Sync_init 4 64 True)) 64 = (4, s') \<and>
     \<not> IsProcessWaitingOnFutex s' 4 64"
proof -
  let ?s = "snd (AddFutexWaiter Sync_init 4 64 True)"
  have inv: "sync_inv ?s" by (rule sync_inv_futex(1) [OF sync_inv_init])
  obtain w s' where c: "WakeSingleFutexWaiter ?s 64 = (w, s')" by (cases "WakeSingleFutexWaiter ?s 64")
  have i: "IsProcessWaitingOnFutex ?s p b = (p = 4 \<and> b = 64)" for p b
    by (simp add: AddFutexWaiter_waits) (simp add: waiting_iff Sync_init_def)
  from futex_wake_one [OF inv c] i have "w = 4" "\<not> IsProcessWaitingOnFutex s' 4 64" by auto
  with c show ?thesis by simp
qed

end
