(* ===== verification/User_Memory.thy ===== *)
theory User_Memory imports Process_Manager begin

unbundle bit_operations_syntax

text \<open>
  How the kernel decides that a user pointer may be touched: the address checks of
  \<open>Kernel/Layers/Logic/LogicLayer.cpp\<close> (\<open>IsRangeWithin\<close> to \<open>IsUserAddressRangeAccessible\<close>),
  the page-table walk they end in, the accessors of
  \<open>Kernel/Layers/Resource/VirtualAddressSpace.cpp\<close> they read, and the two copy routines.
  Addresses are 64-bit words, so every sum wraps as it does in the code. The machine the
  resource layer drives is a record: the page-table register, the physical memory the walk
  reads (one table entry per address), the address-space objects, and the log of the
  operations whose effect is outside the model, in the order the code performs them.
\<close>

definition PAGE_SIZE :: u64 where "PAGE_SIZE = 4096"
definition PHYS_PAGE_ADDR_MASK :: u64 where "PHYS_PAGE_ADDR_MASK = 0x000FFFFFFFFFF000"

section \<open>Address spaces\<close>

record elf_memory_region =
  RegionPhysicalAddress :: u64
  RegionVirtualAddress :: u64
  RegionSize :: u64
  RegionWritable :: bool

record address_space =
  CodePhysicalAddress :: u64
  CodeSize :: u64
  CodeVirtualAddressStart :: u64
  HeapPhysicalAddress :: u64
  HeapSize :: u64
  HeapVirtualAddressStart :: u64
  StackPhysicalAddress :: u64
  StackSize :: u64
  StackVirtualAddressStart :: u64
  PageMapL4TableAddr :: u64
  ElfMemoryRegions :: "elf_memory_region list"

definition MaxMemoryRegions :: nat where "MaxMemoryRegions = 16"

definition VirtualAddressSpace_new ::
    "u64 \<Rightarrow> u64 \<Rightarrow> u64 \<Rightarrow> u64 \<Rightarrow> u64 \<Rightarrow> u64 \<Rightarrow> u64 \<Rightarrow> u64 \<Rightarrow> u64 \<Rightarrow> address_space" where
  "VirtualAddressSpace_new cp csz cv hp hsz hv sp ssz sv =
     \<lparr>CodePhysicalAddress = cp, CodeSize = csz, CodeVirtualAddressStart = cv,
      HeapPhysicalAddress = hp, HeapSize = hsz, HeapVirtualAddressStart = hv,
      StackPhysicalAddress = sp, StackSize = ssz, StackVirtualAddressStart = sv,
      PageMapL4TableAddr = 0, ElfMemoryRegions = []\<rparr>"

definition GetStackTop :: "address_space \<Rightarrow> u64" where
  "GetStackTop a = StackVirtualAddressStart a + StackSize a"

definition AddMemoryRegion :: "address_space \<Rightarrow> elf_memory_region \<Rightarrow> bool \<times> address_space" where
  "AddMemoryRegion a Region =
     (if length (ElfMemoryRegions a) \<ge> MaxMemoryRegions then (False, a)
      else (True, a\<lparr>ElfMemoryRegions := ElfMemoryRegions a @ [Region]\<rparr>))"

datatype effect =
    MemoryCopy u64 u64 u64 u64
  | StoreUser u64 u64 u64
  | StoreKernel u64 u64
  | KFree addr
  | FreePages u64 u64
  | DeleteFile addr
  | CleanUpELF addr
  | CleanUpRawBinary addr
  | DeleteAddressSpace addr
  | SetSystemCallStack u64
  | SetUserFSBase u64
  | TaskSwitchUser cpu_state ptr
  | TaskSwitchKernel cpu_state
  | TaskSwitchKernelCurrentAddressSpace cpu_state

record machine =
  CR3 :: u64
  KernelPageMapL4TableAddr :: u64
  PhysicalMemory :: "u64 \<Rightarrow> u64"
  AddressSpaces :: "addr \<Rightarrow> address_space"
  Effects :: "effect list"

definition emit :: "effect \<Rightarrow> machine \<Rightarrow> machine" where
  "emit e m = m\<lparr>Effects := Effects m @ [e]\<rparr>"

definition LoadPageTable :: "machine \<Rightarrow> u64 \<Rightarrow> machine" where
  "LoadPageTable m Table = (if Table = 0 then m else m\<lparr>CR3 := Table\<rparr>)"

definition LoadKernelPageTable :: "machine \<Rightarrow> machine" where
  "LoadKernelPageTable m =
     (if KernelPageMapL4TableAddr m = 0 then m else LoadPageTable m (KernelPageMapL4TableAddr m))"

section \<open>Address arithmetic\<close>

definition AlignUpToPage :: "u64 \<Rightarrow> u64" where
  "AlignUpToPage Value = (Value + PAGE_SIZE - 1) AND NOT (PAGE_SIZE - 1)"

definition AlignDownToPage :: "u64 \<Rightarrow> u64" where
  "AlignDownToPage Value = Value AND NOT (PAGE_SIZE - 1)"

definition IsValidTablePhysicalAddress :: "u64 \<Rightarrow> bool" where
  "IsValidTablePhysicalAddress Address =
     (if Address = 0 then False
      else if Address AND (PAGE_SIZE - 1) \<noteq> 0 then False
      else if Address AND 0xFFFF000000000000 \<noteq> 0 then False
      else Address < 0xC0000000)"

definition IsValidMappedPhysicalAddress :: "u64 \<Rightarrow> bool" where
  "IsValidMappedPhysicalAddress Address =
     (if Address = 0 then False
      else if Address AND (PAGE_SIZE - 1) \<noteq> 0 then False
      else if Address AND 0xFFFF000000000000 \<noteq> 0 then False
      else Address < 0x100000000)"

definition NormalizeTablePhysicalAddress :: "u64 \<Rightarrow> u64" where
  "NormalizeTablePhysicalAddress Address =
     (if IsValidTablePhysicalAddress Address then Address
      else let s = Address AND NOT 0x000FF00000000000
           in if IsValidTablePhysicalAddress s then s else 0)"

definition NormalizeMappedPhysicalAddress :: "u64 \<Rightarrow> u64" where
  "NormalizeMappedPhysicalAddress Address =
     (if IsValidMappedPhysicalAddress Address then Address
      else let s = Address AND NOT 0x000FF00000000000
           in if IsValidMappedPhysicalAddress s then s else 0)"

definition IsRangeWithin :: "u64 \<Rightarrow> u64 \<Rightarrow> u64 \<Rightarrow> u64 \<Rightarrow> bool" where
  "IsRangeWithin RangeStart RangeSize Address Count =
     (if RangeSize = 0 then False
      else if Address < RangeStart then False
      else let RangeEnd = RangeStart + RangeSize
           in if RangeEnd < RangeStart then False
              else let AccessEnd = Address + Count
                   in if AccessEnd < Address then False else AccessEnd \<le> RangeEnd)"

definition IsRangeWithinAnyELFRegion :: "address_space \<Rightarrow> u64 \<Rightarrow> u64 \<Rightarrow> bool" where
  "IsRangeWithinAnyELFRegion a Address Count =
     list_ex (\<lambda>r.
        if RegionSize r = 0 then False
        else let RegionStart = AlignDownToPage (RegionVirtualAddress r);
                 RegionEnd = AlignUpToPage (RegionVirtualAddress r + RegionSize r)
             in if RegionEnd \<le> RegionStart then False
                else IsRangeWithin RegionStart (RegionEnd - RegionStart) Address Count)
       (ElfMemoryRegions a)"

definition IsRangeWithinAnyProcessMapping :: "process \<Rightarrow> u64 \<Rightarrow> u64 \<Rightarrow> bool" where
  "IsRangeWithinAnyProcessMapping p Address Count =
     list_ex (\<lambda>mp. InUse mp \<and>
        IsRangeWithin (VirtualAddressStart mp) (MapLength mp) Address Count) (MemoryMappings p)"

definition IsLowerCanonicalUserAddress :: "u64 \<Rightarrow> bool" where
  "IsLowerCanonicalUserAddress Address = (Address \<le> 0x00007FFFFFFFFFFF)"

definition IsLowerCanonicalUserRange :: "u64 \<Rightarrow> u64 \<Rightarrow> bool" where
  "IsLowerCanonicalUserRange Address Count =
     (if Count = 0 then IsLowerCanonicalUserAddress Address
      else let EndInclusive = Address + (Count - 1)
           in if EndInclusive < Address then False
              else IsLowerCanonicalUserAddress Address \<and> IsLowerCanonicalUserAddress EndInclusive)"

section \<open>The page-table walk\<close>

text \<open>The bit fields of \<open>VirtualAddress\<close> and \<open>PageTableEntry\<close>.\<close>

definition pml4_index :: "u64 \<Rightarrow> u64" where "pml4_index v = drop_bit 39 v AND 0x1FF"
definition pdpt_index :: "u64 \<Rightarrow> u64" where "pdpt_index v = drop_bit 30 v AND 0x1FF"
definition pd_index :: "u64 \<Rightarrow> u64" where "pd_index v = drop_bit 21 v AND 0x1FF"
definition pt_index :: "u64 \<Rightarrow> u64" where "pt_index v = drop_bit 12 v AND 0x1FF"
definition entry_present :: "u64 \<Rightarrow> bool" where "entry_present e = bit e 0"
definition entry_user_access :: "u64 \<Rightarrow> bool" where "entry_user_access e = bit e 2"
definition entry_size :: "u64 \<Rightarrow> bool" where "entry_size e = bit e 7"

definition TableEntry :: "machine \<Rightarrow> u64 \<Rightarrow> u64 \<Rightarrow> u64" where
  "TableEntry m Table index = PhysicalMemory m (Table + 8 * index)"

definition IsUserAccessiblePageMapped :: "machine \<Rightarrow> u64 \<Rightarrow> u64 \<Rightarrow> bool" where
  "IsUserAccessiblePageMapped m PageMapL4 Address =
     (if PageMapL4 = 0 then False
      else let PML4Address = NormalizeTablePhysicalAddress PageMapL4
      in if PML4Address = 0 then False
      else let PML4Entry = TableEntry m PML4Address (pml4_index Address)
      in if \<not> entry_present PML4Entry \<or> \<not> entry_user_access PML4Entry then False
      else let PDPTAddress = NormalizeTablePhysicalAddress (PML4Entry AND PHYS_PAGE_ADDR_MASK)
      in if PDPTAddress = 0 then False
      else let PDPTEntry = TableEntry m PDPTAddress (pdpt_index Address)
      in if \<not> entry_present PDPTEntry \<or> \<not> entry_user_access PDPTEntry then False
      else if entry_size PDPTEntry then
        (let LargePageAddress = NormalizeMappedPhysicalAddress (PDPTEntry AND PHYS_PAGE_ADDR_MASK)
         in \<not> (LargePageAddress = 0 \<or> LargePageAddress AND (2 ^ 30 - 1) \<noteq> 0))
      else let PDAddress = NormalizeTablePhysicalAddress (PDPTEntry AND PHYS_PAGE_ADDR_MASK)
      in if PDAddress = 0 then False
      else let PDEntry = TableEntry m PDAddress (pd_index Address)
      in if \<not> entry_present PDEntry \<or> \<not> entry_user_access PDEntry then False
      else if entry_size PDEntry then
        (let LargePageAddress = NormalizeMappedPhysicalAddress (PDEntry AND PHYS_PAGE_ADDR_MASK)
         in \<not> (LargePageAddress = 0 \<or> LargePageAddress AND (2 ^ 21 - 1) \<noteq> 0))
      else let PTAddress = NormalizeTablePhysicalAddress (PDEntry AND PHYS_PAGE_ADDR_MASK)
      in if PTAddress = 0 then False
      else let PTEntry = TableEntry m PTAddress (pt_index Address)
      in if \<not> entry_present PTEntry \<or> \<not> entry_user_access PTEntry then False
      else let PageAddress = NormalizeMappedPhysicalAddress (PTEntry AND PHYS_PAGE_ADDR_MASK)
      in \<not> (PageAddress = 0 \<or> PageAddress AND (PAGE_SIZE - 1) \<noteq> 0))"

text \<open>The \<open>for\<close> loop over the pages, with the \<open>break\<close> that stops it before the counter wraps.\<close>

function PagesMapped :: "(u64 \<Rightarrow> bool) \<Rightarrow> u64 \<Rightarrow> u64 \<Rightarrow> bool" where
  "PagesMapped mapped PageAddress EndPage =
     (if \<not> PageAddress \<le> EndPage then True
      else if \<not> mapped PageAddress then False
      else if PageAddress > - 1 - PAGE_SIZE then True
      else PagesMapped mapped (PageAddress + PAGE_SIZE) EndPage)"
  by pat_completeness auto
termination
proof (relation "measure (\<lambda>(f, p, e). 2 ^ 64 - unat p)", simp, clarsimp)
  fix p :: u64
  assume "\<not> - 1 - PAGE_SIZE < p"
  then have "unat p \<le> 18446744073709547519" by (simp add: PAGE_SIZE_def word_le_nat_alt not_less)
  then show "18446744073709551616 - unat (p + PAGE_SIZE) < 18446744073709551616 - unat p"
    by (simp add: PAGE_SIZE_def unat_word_ariths)
qed

declare PagesMapped.simps [simp del]

definition IsUserAddressRangeMappedByPageTables ::
    "machine \<Rightarrow> process option \<Rightarrow> u64 \<Rightarrow> u64 \<Rightarrow> bool \<times> machine" where
  "IsUserAddressRangeMappedByPageTables m Current Address Count =
     (case Current of
        None \<Rightarrow> (False, m)
      | Some p \<Rightarrow>
          (case AddressSpace p of
             None \<Rightarrow> (False, m)
           | Some a \<Rightarrow>
               (if Count = 0 then (True, m)
                else let Table = PageMapL4TableAddr (AddressSpaces m a)
                in if Table = 0 then (False, m)
                else let Original = CR3 m;
                         m1 = LoadKernelPageTable m;
                         ok = PagesMapped (IsUserAccessiblePageMapped m1 Table)
                                (AlignDownToPage Address) (AlignDownToPage (Address + (Count - 1)))
                in (ok, if Original \<noteq> 0 then LoadPageTable m1 Original else m1))))"

definition IsUserAddressRangeAccessible ::
    "machine \<Rightarrow> process option \<Rightarrow> u64 \<Rightarrow> u64 \<Rightarrow> bool \<times> machine" where
  "IsUserAddressRangeAccessible m Current Address Count =
     (case Current of
        None \<Rightarrow> (False, m)
      | Some p \<Rightarrow>
          (if Count = 0 then (True, m)
           else case (Level p, AddressSpace p) of
             (PROCESS_LEVEL_KERNEL, _) \<Rightarrow> (False, m)
           | (_, None) \<Rightarrow> (False, m)
           | (PROCESS_LEVEL_USER, Some sp) \<Rightarrow>
               (let a = AddressSpaces m sp
                in if \<not> IsLowerCanonicalUserRange Address Count then (False, m)
                else if (case FileType p of
                           FILE_TYPE_ELF \<Rightarrow> IsRangeWithinAnyELFRegion a Address Count
                         | FILE_TYPE_RAW_BINARY \<Rightarrow>
                             IsRangeWithin (CodeVirtualAddressStart a) (CodeSize a) Address Count)
                  then (True, m)
                else if IsRangeWithin (HeapVirtualAddressStart a) (HeapSize a) Address Count
                  then (True, m)
                else if IsRangeWithin (StackVirtualAddressStart a) (StackSize a) Address Count
                  then (True, m)
                else if IsRangeWithinAnyProcessMapping p Address Count then (True, m)
                else IsUserAddressRangeMappedByPageTables m Current Address Count)))"

section \<open>Copies between the kernel and a process\<close>

text \<open>
  Both routines are the same code but for the direction of the \<open>memcpy\<close>: \<open>UserAddr\<close> is the
  pointer into the process, \<open>copy\<close> the effect of the copy under its page table.
\<close>

definition CopyWithUser ::
    "process_manager \<Rightarrow> machine \<Rightarrow> u64 \<Rightarrow> u64 \<Rightarrow> (u64 \<Rightarrow> effect) \<Rightarrow> u64 \<Rightarrow> u64 \<Rightarrow>
     bool \<times> process_manager \<times> machine" where
  "CopyWithUser pm m First Second copy UserAddr Count =
     (if (First = 0 \<and> Count \<noteq> 0) \<or> (Second = 0 \<and> Count \<noteq> 0) then (False, pm, m)
      else if Count = 0 then (True, pm, m)
      else case GetRunningProcess pm of (Current, pm1) \<Rightarrow>
       (case IsUserAddressRangeAccessible m Current UserAddr Count of (ok, m1) \<Rightarrow>
         (if \<not> ok then (False, pm1, m1)
          else case Current of None \<Rightarrow> (False, pm1, m1) | Some p \<Rightarrow>
          (case AddressSpace p of None \<Rightarrow> (False, pm1, m1) | Some a \<Rightarrow>
           (let UserTable = PageMapL4TableAddr (AddressSpaces m1 a)
            in if UserTable = 0 then (False, pm1, m1)
            else case IsUserAddressRangeMappedByPageTables m1 Current UserAddr Count of (mp, m2) \<Rightarrow>
             (if \<not> mp then (False, pm1, m2)
              else let Previous = CR3 m2
              in if Previous = 0 then (False, pm1, m2)
              else let m3 = (if Previous \<noteq> UserTable then LoadPageTable m2 UserTable else m2);
                       m4 = emit (copy (CR3 m3)) m3
              in (True, pm1, if Previous \<noteq> UserTable then LoadPageTable m4 Previous else m4)))))))"

definition CopyFromUserToKernel ::
    "process_manager \<Rightarrow> machine \<Rightarrow> u64 \<Rightarrow> u64 \<Rightarrow> u64 \<Rightarrow> bool \<times> process_manager \<times> machine" where
  "CopyFromUserToKernel pm m UserSource KernelDestination Count =
     CopyWithUser pm m UserSource KernelDestination
       (\<lambda>table. MemoryCopy table KernelDestination UserSource Count) UserSource Count"

definition CopyFromKernelToUser ::
    "process_manager \<Rightarrow> machine \<Rightarrow> u64 \<Rightarrow> u64 \<Rightarrow> u64 \<Rightarrow> bool \<times> process_manager \<times> machine" where
  "CopyFromKernelToUser pm m KernelSource UserDestination Count =
     CopyWithUser pm m KernelSource UserDestination
       (\<lambda>table. MemoryCopy table UserDestination KernelSource Count) UserDestination Count"

section \<open>What the checks guarantee\<close>

lemma and_not_mask_word: "v AND NOT (mask n) = push_bit n (drop_bit n v)" for v :: u64
  by (rule bit_eqI) (auto simp: bit_simps)

lemma AlignDown_unat: "unat (AlignDownToPage v) = unat v - unat v mod 4096"
proof -
  have "AlignDownToPage v = v AND NOT (mask 12)"
    by (simp add: AlignDownToPage_def PAGE_SIZE_def mask_eq_exp_minus_1)
  also have "\<dots> = v - take_bit 12 v"
    unfolding and_not_mask_word using bits_ident [of 12 v] by (metis add_diff_cancel_right')
  also have "\<dots> = v - v mod 4096" by (simp add: take_bit_eq_mod)
  finally show ?thesis
    by (simp add: unat_sub word_le_nat_alt unat_mod)
qed

lemma IsRangeWithin_iff:
  "IsRangeWithin s n a c \<longleftrightarrow>
     n \<noteq> 0 \<and> unat s \<le> unat a \<and> unat s + unat n < 2 ^ 64 \<and> unat a + unat c \<le> unat s + unat n"
proof -
  have wrap: "x + y < x \<longleftrightarrow> \<not> unat x + unat y < 2 ^ 64" for x y :: u64
    using no_olen_add_nat [of x y] by (simp add: not_le [symmetric])
  have sum: "unat x + unat y < 2 ^ 64 \<Longrightarrow> unat (x + y) = unat x + unat y" for x y :: u64
    by (simp add: unat_word_ariths)
  show ?thesis
    by (cases "unat s + unat n < 2 ^ 64"; cases "unat a + unat c < 2 ^ 64")
      (auto simp: IsRangeWithin_def Let_def wrap word_le_nat_alt word_less_nat_alt [of a s] sum)
qed

lemma canonical_range:
  assumes "c \<noteq> 0"
  shows "IsLowerCanonicalUserRange a c \<longleftrightarrow> unat a + unat c \<le> 2 ^ 47"
proof -
  have c: "unat (c - 1) = unat c - 1" "0 < unat c"
    using assms by (simp_all add: unat_minus_one unat_gt_0)
  have wrap: "a + (c - 1) < a \<longleftrightarrow> \<not> unat a + unat (c - 1) < 2 ^ 64"
    using no_olen_add_nat [of a "c - 1"] by (simp add: not_le [symmetric])
  have sum: "unat a + unat (c - 1) < 2 ^ 64 \<Longrightarrow> unat (a + (c - 1)) = unat a + unat (c - 1)"
    by (simp only: unat_word_ariths) simp
  show ?thesis
    using assms c sum
    by (cases "unat a + unat (c - 1) < 2 ^ 64")
      (auto simp: IsLowerCanonicalUserRange_def IsLowerCanonicalUserAddress_def Let_def wrap
        word_le_nat_alt simp del: diff_add_cancel)
qed

lemma PagesMapped_iff:
  "PagesMapped f p e \<longleftrightarrow>
     (\<forall>k. unat p + k * 4096 \<le> unat e \<longrightarrow> f (of_nat (unat p + k * 4096)))"
proof (induction f p e rule: PagesMapped.induct)
  case (1 f p e)
  show ?case
  proof (cases "p \<le> e \<and> f p")
    case False
    then show ?thesis
      by (subst PagesMapped.simps) (auto simp: word_le_nat_alt intro: exI [of _ 0])
  next
    case True
    show ?thesis
    proof (cases "p > - 1 - PAGE_SIZE")
      case big: True
      have e: "unat e < 18446744073709551616" using unsigned_less [of e] by simp
      have "\<forall>k. unat p + k * 4096 \<le> unat e \<longrightarrow> k = 0"
      proof (intro allI impI)
        fix k assume "unat p + k * 4096 \<le> unat e"
        with big e show "k = 0"
          by (simp add: PAGE_SIZE_def word_less_nat_alt)
      qed
      with True big show ?thesis by (subst PagesMapped.simps) auto
    next
      case small: False
      then have u: "unat (p + PAGE_SIZE) = unat p + 4096"
        by (simp add: PAGE_SIZE_def word_less_nat_alt unat_word_ariths)
      have "PagesMapped f p e = PagesMapped f (p + PAGE_SIZE) e"
        using True small by (subst PagesMapped.simps) simp
      also have "\<dots> \<longleftrightarrow> (\<forall>k. unat p + Suc k * 4096 \<le> unat e \<longrightarrow> f (of_nat (unat p + Suc k * 4096)))"
        using 1 True small u by (simp add: add.assoc)
      also have "\<dots> \<longleftrightarrow> (\<forall>k. unat p + k * 4096 \<le> unat e \<longrightarrow> f (of_nat (unat p + k * 4096)))"
      proof
        assume L: "\<forall>k. unat p + Suc k * 4096 \<le> unat e \<longrightarrow> f (of_nat (unat p + Suc k * 4096))"
        show "\<forall>k. unat p + k * 4096 \<le> unat e \<longrightarrow> f (of_nat (unat p + k * 4096))"
        proof
          fix k show "unat p + k * 4096 \<le> unat e \<longrightarrow> f (of_nat (unat p + k * 4096))"
            using True L by (cases k) auto
        qed
      qed blast
      finally show ?thesis .
    qed
  qed
qed

lemma pages_of_range:
  assumes "0 < c" and "a + c \<le> 2 ^ 47"
  shows "(\<forall>k. (a - a mod 4096) + k * 4096 \<le> (a + (c - 1)) - (a + (c - 1)) mod 4096
            \<longrightarrow> P ((a - a mod 4096) + k * 4096))
     \<longleftrightarrow> (\<forall>x. a \<le> x \<and> x < a + c \<longrightarrow> P (x - x mod (4096::nat)))" (is "?L = ?R")
proof
  assume L: ?L
  show ?R
  proof (intro allI impI)
    fix x assume x: "a \<le> x \<and> x < a + c"
    let ?k = "x div 4096 - a div 4096"
    have "a div 4096 \<le> x div 4096" "x div 4096 \<le> (a + (c - 1)) div 4096"
      using x by (auto intro: div_le_mono)
    moreover have "y - y mod 4096 = y div 4096 * 4096" for y :: nat
      by (simp add: minus_mod_eq_div_mult)
    ultimately show "P (x - x mod 4096)" using spec [OF L, of ?k] by (simp add: algebra_simps)
  qed
next
  assume R: ?R
  show ?L
  proof (intro allI impI)
    fix k assume k: "(a - a mod 4096) + k * 4096 \<le> (a + (c - 1)) - (a + (c - 1)) mod 4096"
    let ?x = "if k = 0 then a else (a - a mod 4096) + k * 4096"
    have al: "y - y mod 4096 = y div 4096 * 4096" for y :: nat
      by (simp add: minus_mod_eq_div_mult)
    have "a \<le> ?x"
    proof (cases "k = 0")
      case False
      have "a mod 4096 < 4096" "a mod 4096 \<le> a" by simp_all
      moreover have "4096 \<le> k * 4096" using False by simp
      ultimately have "a \<le> a - a mod 4096 + k * 4096" by linarith
      with False show ?thesis by simp
    qed simp
    moreover have "?x < a + c" using k assms(1) by (auto, linarith?)
    ultimately have "P (?x - ?x mod 4096)" using R by blast
    moreover have "?x - ?x mod 4096 = (a - a mod 4096) + k * 4096"
      by (simp add: al)
    ultimately show "P ((a - a mod 4096) + k * 4096)" by simp
  qed
qed

lemma LoadPageTable_fields [simp]:
  "PhysicalMemory (LoadPageTable m t) = PhysicalMemory m" "AddressSpaces (LoadPageTable m t) = AddressSpaces m"
  "Effects (LoadPageTable m t) = Effects m" "KernelPageMapL4TableAddr (LoadPageTable m t) = KernelPageMapL4TableAddr m"
  "CR3 (LoadPageTable m t) = (if t = 0 then CR3 m else t)"
  by (simp_all add: LoadPageTable_def)

lemma LoadKernelPageTable_fields [simp]:
  "PhysicalMemory (LoadKernelPageTable m) = PhysicalMemory m"
  "AddressSpaces (LoadKernelPageTable m) = AddressSpaces m" "Effects (LoadKernelPageTable m) = Effects m"
  by (simp_all add: LoadKernelPageTable_def)

lemma emit_fields [simp]:
  "CR3 (emit e m) = CR3 m" "Effects (emit e m) = Effects m @ [e]"
  "AddressSpaces (emit e m) = AddressSpaces m" "PhysicalMemory (emit e m) = PhysicalMemory m"
  "KernelPageMapL4TableAddr (emit e m) = KernelPageMapL4TableAddr m"
  by (simp_all add: emit_def)

lemma walk_cong:
  "PhysicalMemory m = PhysicalMemory m' \<Longrightarrow> IsUserAccessiblePageMapped m = IsUserAccessiblePageMapped m'"
  by (intro ext) (simp add: IsUserAccessiblePageMapped_def TableEntry_def)

lemma walk_LoadKernel [simp]:
  "IsUserAccessiblePageMapped (LoadKernelPageTable m) = IsUserAccessiblePageMapped m"
  by (rule walk_cong) simp

lemma AlignDown_of_nat: "AlignDownToPage v = of_nat (unat v - unat v mod 4096)"
  by (simp flip: AlignDown_unat)

lemma PagesMapped_range:
  assumes "c \<noteq> 0" and "unat a + unat c \<le> 2 ^ 47"
  shows "PagesMapped f (AlignDownToPage a) (AlignDownToPage (a + (c - 1))) \<longleftrightarrow>
     (\<forall>x. unat a \<le> unat x \<and> unat x < unat a + unat c \<longrightarrow> f (AlignDownToPage x))"
proof -
  have c: "unat (c - 1) = unat c - 1" "0 < unat c"
    using assms(1) by (simp_all add: unat_minus_one unat_gt_0)
  have e: "unat (a + (c - 1)) = unat a + (unat c - 1)"
    using assms c by (simp only: unat_word_ariths) simp
  have "PagesMapped f (AlignDownToPage a) (AlignDownToPage (a + (c - 1))) \<longleftrightarrow>
      (\<forall>y. unat a \<le> y \<and> y < unat a + unat c \<longrightarrow> f (of_nat (y - y mod 4096)))"
    using pages_of_range [OF c(2) assms(2), of "\<lambda>n. f (of_nat n)"]
    by (simp only: PagesMapped_iff AlignDown_unat e)
  also have "\<dots> \<longleftrightarrow> (\<forall>x::u64. unat a \<le> unat x \<and> unat x < unat a + unat c \<longrightarrow> f (AlignDownToPage x))"
  proof
    assume L: "\<forall>x::u64. unat a \<le> unat x \<and> unat x < unat a + unat c \<longrightarrow> f (AlignDownToPage x)"
    show "\<forall>y. unat a \<le> y \<and> y < unat a + unat c \<longrightarrow> f (of_nat (y - y mod 4096))"
    proof (intro allI impI)
      fix y assume y: "unat a \<le> y \<and> y < unat a + unat c"
      with assms(2) have "unat (of_nat y :: u64) = y" by (simp add: unat_of_nat)
      with L y show "f (of_nat (y - y mod 4096))"
        using AlignDown_of_nat [of "of_nat y"] by metis
    qed
  next
    assume R: "\<forall>y. unat a \<le> y \<and> y < unat a + unat c \<longrightarrow> f (of_nat (y - y mod 4096))"
    show "\<forall>x::u64. unat a \<le> unat x \<and> unat x < unat a + unat c \<longrightarrow> f (AlignDownToPage x)"
      using R by (metis AlignDown_of_nat)
  qed
  finally show ?thesis .
qed

text \<open>The page-table check: exact on user ranges, and the page table in force is put back.\<close>

lemma MappedByPageTables_iff:
  assumes "AddressSpace p = Some sp" and "PageMapL4TableAddr (AddressSpaces m sp) = t" and "t \<noteq> 0"
    and "c \<noteq> 0" and "unat a + unat c \<le> 2 ^ 47"
  shows "fst (IsUserAddressRangeMappedByPageTables m (Some p) a c) \<longleftrightarrow>
     (\<forall>x. unat a \<le> unat x \<and> unat x < unat a + unat c \<longrightarrow>
        IsUserAccessiblePageMapped m t (AlignDownToPage x))"
  using assms by (simp add: IsUserAddressRangeMappedByPageTables_def Let_def PagesMapped_range)

lemma Mapped_frame:
  assumes "CR3 m \<noteq> 0"
  shows "snd (IsUserAddressRangeMappedByPageTables m r a c) = m"
  using assms by (auto simp: IsUserAddressRangeMappedByPageTables_def Let_def LoadKernelPageTable_def
      LoadPageTable_def split: option.splits)

lemma Accessible_frame:
  assumes "CR3 m \<noteq> 0"
  shows "snd (IsUserAddressRangeAccessible m r a c) = m"
  using Mapped_frame [OF assms, of r a c]
  by (auto simp: IsUserAddressRangeAccessible_def Let_def split: option.splits ProcessLevel.splits)

lemma Accessible_user:
  assumes "fst (IsUserAddressRangeAccessible m r a c)" and "c \<noteq> 0"
  shows "\<exists>p sp. r = Some p \<and> Level p = PROCESS_LEVEL_USER \<and> AddressSpace p = Some sp \<and>
     unat a + unat c \<le> 2 ^ 47"
  using assms canonical_range [OF assms(2), of a]
  by (auto simp: IsUserAddressRangeAccessible_def Let_def split: option.splits ProcessLevel.splits if_splits)

lemma CopyWithUser_cases:
  assumes "CR3 m \<noteq> 0" and "c \<noteq> 0"
  shows "CopyWithUser pm m f g copy a c = (False, pm, m) \<or>
     CopyWithUser pm m f g copy a c = (False, snd (GetRunningProcess pm), m) \<or>
     (\<exists>p sp t. fst (GetRunningProcess pm) = Some p \<and> Level p = PROCESS_LEVEL_USER \<and>
        AddressSpace p = Some sp \<and> t = PageMapL4TableAddr (AddressSpaces m sp) \<and> t \<noteq> 0 \<and>
        unat a + unat c \<le> 2 ^ 47 \<and>
        (\<forall>x. unat a \<le> unat x \<and> unat x < unat a + unat c \<longrightarrow>
           IsUserAccessiblePageMapped m t (AlignDownToPage x)) \<and>
        CopyWithUser pm m f g copy a c =
          (True, snd (GetRunningProcess pm), emit (copy t) m))"
proof -
  obtain r pm1 where r: "GetRunningProcess pm = (r, pm1)" by fastforce
  obtain ok where ac: "IsUserAddressRangeAccessible m r a c = (ok, m)"
    using Accessible_frame [OF assms(1), of r a c] by (metis prod.collapse)
  obtain mp where mp: "IsUserAddressRangeMappedByPageTables m r a c = (mp, m)"
    using Mapped_frame [OF assms(1), of r a c] by (metis prod.collapse)
  show ?thesis
  proof (cases "ok \<and> mp \<and> f \<noteq> 0 \<and> g \<noteq> 0")
    case False
    with assms r ac mp show ?thesis
      by (auto simp: CopyWithUser_def Let_def split: option.splits)
  next
    case True
    with ac assms(2) obtain p sp where p: "r = Some p" "Level p = PROCESS_LEVEL_USER"
        "AddressSpace p = Some sp" "unat a + unat c \<le> 2 ^ 47"
      using Accessible_user [of m r a c] by auto
    let ?t = "PageMapL4TableAddr (AddressSpaces m sp)"
    show ?thesis
    proof (cases "?t = 0")
      case t: True
      with True assms r ac p show ?thesis by (simp add: CopyWithUser_def)
    next
      case t: False
      have "CopyWithUser pm m f g copy a c = (True, pm1, emit (copy ?t) m)"
        using True t assms r ac mp p
        by (auto simp: CopyWithUser_def Let_def LoadPageTable_def emit_def)
      moreover have "\<forall>x. unat a \<le> unat x \<and> unat x < unat a + unat c \<longrightarrow>
           IsUserAccessiblePageMapped m ?t (AlignDownToPage x)"
        using MappedByPageTables_iff [OF p(3) refl t assms(2) p(4)] mp p True by simp
      ultimately show ?thesis using r p t by auto
    qed
  qed
qed

section \<open>A concrete machine\<close>

text \<open>
  The address space at \<open>0x5000\<close> maps the page at \<open>0x400000\<close> through the tables at \<open>0x10000\<close>,
  \<open>0x11000\<close>, \<open>0x12000\<close> and \<open>0x13000\<close>; its code segment is that page.
\<close>

definition sample_memory :: "u64 \<Rightarrow> u64" where
  "sample_memory a =
     (if a = 0x10000 then 0x11007 else if a = 0x11000 then 0x12007
      else if a = 0x12010 then 0x13007 else if a = 0x13000 then 0x200007 else 0)"

definition sample_machine :: machine where
  "sample_machine =
     \<lparr>CR3 = 0x9000, KernelPageMapL4TableAddr = 0x9000, PhysicalMemory = sample_memory,
      AddressSpaces = (\<lambda>_. (VirtualAddressSpace_new 0x200000 0x1000 0x400000 0 0 0 0 0 0)
        \<lparr>PageMapL4TableAddr := 0x10000\<rparr>),
      Effects = []\<rparr>"

lemma sample_page_mapped: "IsUserAccessiblePageMapped sample_machine 0x10000 0x400000"
  by (simp add: IsUserAccessiblePageMapped_def sample_machine_def sample_memory_def Let_def
      NormalizeTablePhysicalAddress_def NormalizeMappedPhysicalAddress_def
      IsValidTablePhysicalAddress_def IsValidMappedPhysicalAddress_def TableEntry_def
      pml4_index_def pdpt_index_def pd_index_def pt_index_def entry_present_def entry_user_access_def
      entry_size_def PHYS_PAGE_ADDR_MASK_def PAGE_SIZE_def)

lemma sample_space:
  "AddressSpace (live_entry 0 PROCESS_RUNNING) = Some 0x5000"
  "PageMapL4TableAddr (AddressSpaces sample_machine 0x5000) = 0x10000"
  by (simp_all add: live_entry_def sample_machine_def)

lemma sample_pages:
  assumes "unat (0x400010::u64) \<le> unat x" "unat x < unat (0x400010::u64) + unat (0x20::u64)"
  shows "AlignDownToPage x = 0x400000"
proof -
  have "unat x div 4096 = 1024" using assms by simp
  then have "unat (AlignDownToPage x) = 4194304"
    using AlignDown_unat [of x] div_mult_mod_eq [of "unat x" 4096] by simp
  then have "unat (AlignDownToPage x) = unat (0x400000::u64)" by simp
  then show ?thesis by (simp only: word_unat_eq_iff)
qed

lemma sample_copy_ok: "fst (CopyFromUserToKernel sample_pm sample_machine 0x400010 0x8000 0x20)"
proof -
  have "CurrentProcessId sample_pm = 0" by (simp add: sample_pm_def)
  then have cur: "GetRunningProcess sample_pm = (Some (live_entry 0 PROCESS_RUNNING), sample_pm)"
    by (simp add: GetRunningProcess_def GetCurrentProcess_def GetProcessById_def sample_pm_nth
        MAX_PROCESSES_def live_entry_def Let_def)
  have a: "Level (live_entry 0 PROCESS_RUNNING) = PROCESS_LEVEL_USER"
    "FileType (live_entry 0 PROCESS_RUNNING) = FILE_TYPE_RAW_BINARY"
    by (simp_all add: live_entry_def blank_entry_def)
  have acc: "IsUserAddressRangeAccessible sample_machine (Some (live_entry 0 PROCESS_RUNNING)) 0x400010 0x20 =
      (True, sample_machine)"
    using a sample_space(1)
    by (simp add: IsUserAddressRangeAccessible_def IsLowerCanonicalUserRange_def IsLowerCanonicalUserAddress_def
        IsRangeWithin_def Let_def) (simp add: sample_machine_def VirtualAddressSpace_new_def)
  have "fst (IsUserAddressRangeMappedByPageTables sample_machine (Some (live_entry 0 PROCESS_RUNNING)) 0x400010 0x20)"
    using MappedByPageTables_iff [OF sample_space, of "0x20" "0x400010"] sample_page_mapped sample_pages by simp
  moreover have "snd (IsUserAddressRangeMappedByPageTables sample_machine (Some (live_entry 0 PROCESS_RUNNING)) 0x400010 0x20)
      = sample_machine"
    by (rule Mapped_frame) (simp add: sample_machine_def)
  ultimately have mp: "IsUserAddressRangeMappedByPageTables sample_machine (Some (live_entry 0 PROCESS_RUNNING)) 0x400010 0x20
      = (True, sample_machine)" by (simp add: prod_eq_iff)
  have "CR3 sample_machine = 0x9000" by (simp add: sample_machine_def)
  then show ?thesis
    by (simp add: CopyFromUserToKernel_def CopyWithUser_def cur acc mp sample_space Let_def)
qed

text \<open>
  What a successful copy has done: the running process is a user process, every page of the
  range is user-mapped in its own tables \<open>t\<close>, one effect \<open>copy t\<close> happened, and the page table
  loaded before is loaded again.
\<close>

definition copied_under ::
    "process_manager \<Rightarrow> machine \<Rightarrow> u64 \<Rightarrow> u64 \<Rightarrow> (u64 \<Rightarrow> effect) \<Rightarrow> machine \<Rightarrow> bool" where
  "copied_under pm m a c copy m' \<longleftrightarrow>
     (\<exists>p sp t. fst (GetRunningProcess pm) = Some p \<and> Level p = PROCESS_LEVEL_USER \<and>
        AddressSpace p = Some sp \<and> t = PageMapL4TableAddr (AddressSpaces m sp) \<and> t \<noteq> 0 \<and>
        unat a + unat c \<le> 2 ^ 47 \<and>
        (\<forall>x. unat a \<le> unat x \<and> unat x < unat a + unat c \<longrightarrow>
           IsUserAccessiblePageMapped m t (AlignDownToPage x)) \<and>
        Effects m' = Effects m @ [copy t] \<and> CR3 m' = CR3 m)"

section \<open>Properties\<close>

text \<open>
  C8. A copy between the kernel and a process (non-zero count, a page table loaded) either refuses
  and touches nothing, or the running process is a user process with an address space, the user
  range is below 2^47 without wrapping and each of its pages is user-mapped in that process's
  tables, and the effect is one memory copy made under exactly those tables, with the caller's
  page table loaded again afterwards.
\<close>

theorem user_copy_safe:
  assumes "CR3 m \<noteq> 0" and "c \<noteq> 0"
  shows "(let (ok, pm', m') = CopyFromUserToKernel pm m src dst c in
      if \<not> ok then m' = m else copied_under pm m src c (\<lambda>t. MemoryCopy t dst src c) m') \<and>
    (let (ok, pm', m') = CopyFromKernelToUser pm m ksrc udst c in
      if \<not> ok then m' = m else copied_under pm m udst c (\<lambda>t. MemoryCopy t udst ksrc c) m')"
  using CopyWithUser_cases [OF assms, of pm src dst "\<lambda>table. MemoryCopy table dst src c" src]
    CopyWithUser_cases [OF assms, of pm ksrc udst "\<lambda>table. MemoryCopy table udst ksrc c" udst]
  by (auto simp: CopyFromUserToKernel_def CopyFromKernelToUser_def copied_under_def)

theorem user_copy_safe_witness:
  "\<exists>pm' m'. CopyFromUserToKernel sample_pm sample_machine 0x400010 0x8000 0x20 = (True, pm', m') \<and>
     Effects m' = [MemoryCopy 0x10000 0x8000 0x400010 0x20] \<and> CR3 m' = CR3 sample_machine"
proof -
  have c: "CR3 sample_machine \<noteq> 0" "(0x20::u64) \<noteq> 0" by (simp_all add: sample_machine_def)
  obtain ok pm' m' where e: "CopyFromUserToKernel sample_pm sample_machine 0x400010 0x8000 0x20 = (ok, pm', m')"
    by (metis surj_pair)
  have ok using sample_copy_ok by (simp add: e)
  moreover have "Effects sample_machine = []" "PageMapL4TableAddr (AddressSpaces sample_machine sp) = 0x10000" for sp
    by (simp_all add: sample_machine_def)
  ultimately show ?thesis
    using user_copy_safe [OF c, of sample_pm "0x400010" "0x8000"] unfolding e
    by (auto simp: copied_under_def)
qed

section \<open>Further facts\<close>

text \<open>
  IsRangeWithin on 64-bit words holds exactly when the region is non-empty, neither end wraps and
  the accessed interval of true integers lies inside the region: no overflowing address or count
  passes.
\<close>

theorem range_check_no_wrap:
  "IsRangeWithin s n a c \<longleftrightarrow>
     n \<noteq> 0 \<and> unat s \<le> unat a \<and> unat s + unat n < 2 ^ 64 \<and> unat a + unat c \<le> unat s + unat n"
  by (rule IsRangeWithin_iff)

text \<open>
  The page-table check of a user range accepts exactly when the page of every byte of the range is
  mapped user-accessible: the page loop, with its early stop before the counter wraps, skips no
  page.
\<close>

theorem page_table_check_complete:
  assumes "AddressSpace p = Some sp" and "PageMapL4TableAddr (AddressSpaces m sp) = t" and "t \<noteq> 0"
    and "c \<noteq> 0" and "unat a + unat c \<le> 2 ^ 47"
  shows "fst (IsUserAddressRangeMappedByPageTables m (Some p) a c) \<longleftrightarrow>
     (\<forall>x. unat a \<le> unat x \<and> unat x < unat a + unat c \<longrightarrow>
        IsUserAccessiblePageMapped m t (AlignDownToPage x))"
  using assms by (rule MappedByPageTables_iff)

theorem page_table_check_complete_witness:
  "fst (IsUserAddressRangeMappedByPageTables sample_machine (Some (live_entry 0 PROCESS_RUNNING)) 0x400010 0x20)"
  using page_table_check_complete [OF sample_space(1,2), of "0x20" "0x400010"] sample_page_mapped sample_pages by simp

end
