(* ===== verification/Process_Control.thy ===== *)
theory Process_Control imports Synchronization_Manager User_Memory begin

unbundle bit_operations_syntax

text \<open>
  The process-control part of \<open>Kernel/Layers/Logic/LogicLayer.cpp\<close>: killing, signalling,
  sleeping, blocking and waking processes, the timer tick and the switch of processes. The
  state is the process table, the scheduler (through its specification \<open>ready_state\<close>), the
  synchronization queues, the executables' reference counts and the machine; all the managers
  are present, as they are once \<open>LogicLayer::Initialize\<close> has run. A \<open>Process*\<close> is the id of
  its slot, and reads and writes through it go to the table as it is at that moment.

  A call that switches processes does not come back until the process is switched to again:
  \<open>RunProcess\<close> and what calls it end at the switch (\<open>Switched\<close>), and \<open>RunProcess_resume\<close> is
  the code after it. The register state a switch saves is the argument \<open>saved\<close>.
\<close>

section \<open>State\<close>

record executable_node =
  IsLazyLoad :: bool
  LazyLoadRefCount :: u32
  NodeData :: ptr
  LazyDataBackedByPMM :: bool
  LazyDataPageCount :: u64

record logic =
  PM :: process_manager
  Sched :: ready_state
  Sync :: synchronization_manager
  Executables :: "addr \<Rightarrow> executable_node"
  Machine :: machine
  Ticks :: u64

definition proc :: "logic \<Rightarrow> u8 \<Rightarrow> process" where
  "proc l i = Processes (PM l) ! unat i"

definition write_proc :: "u8 \<Rightarrow> (process \<Rightarrow> process) \<Rightarrow> logic \<Rightarrow> logic" where
  "write_proc i f l = l\<lparr>PM := SetProcess (PM l) i (f (proc l i))\<rparr>"

definition set_status :: "u8 \<Rightarrow> ProcessState \<Rightarrow> logic \<Rightarrow> logic" where
  "set_status i St = write_proc i (\<lambda>p. p\<lparr>Status := St\<rparr>)"

definition on_machine :: "(machine \<Rightarrow> machine) \<Rightarrow> logic \<Rightarrow> logic" where
  "on_machine f l = l\<lparr>Machine := f (Machine l)\<rparr>"

definition Sched_Add :: "u8 \<Rightarrow> logic \<Rightarrow> logic" where
  "Sched_Add i l = l\<lparr>Sched := ready_add (Sched l) i\<rparr>"

definition Sched_Remove :: "u8 \<Rightarrow> logic \<Rightarrow> logic" where
  "Sched_Remove i l = l\<lparr>Sched := ready_remove (Sched l) i\<rparr>"

definition Unsleep :: "u8 \<Rightarrow> logic \<Rightarrow> logic" where
  "Unsleep i l = l\<lparr>Sync := RemoveFromSleepQueue (Sync l) i\<rparr>"

definition Unwait :: "u8 \<Rightarrow> logic \<Rightarrow> logic" where
  "Unwait i l = l\<lparr>Sync := RemoveFromTTYInputWaitQueue (Sync l) i\<rparr>"

section \<open>Executables and mappings of a process\<close>

definition RetainRunningExecutable :: "logic \<Rightarrow> u8 \<Rightarrow> ptr \<Rightarrow> logic" where
  "RetainRunningExecutable l i ExecutableNode =
     (let l1 = write_proc i (\<lambda>p. p\<lparr>RunningExecutableDentry := None,
                RunningExecutableINode := ExecutableNode\<rparr>) l
      in case ExecutableNode of
           None \<Rightarrow> l1
         | Some n \<Rightarrow>
             (let e = Executables l1 n
              in if \<not> IsLazyLoad e then l1
                 else l1\<lparr>Executables := (Executables l1)
                        (n := e\<lparr>LazyLoadRefCount := LazyLoadRefCount e + 1\<rparr>)\<rparr>))"

definition ReleaseRunningExecutable :: "logic \<Rightarrow> u8 \<Rightarrow> logic" where
  "ReleaseRunningExecutable l i =
     (let ExecutableNode = RunningExecutableINode (proc l i);
          l1 = write_proc i (\<lambda>p. p\<lparr>RunningExecutableDentry := None,
                 RunningExecutableINode := None\<rparr>) l
      in case ExecutableNode of
           None \<Rightarrow> l1
         | Some n \<Rightarrow>
             (let e = Executables l1 n
              in if \<not> IsLazyLoad e then l1
                 else
                   (let e1 = (if LazyLoadRefCount e > 0
                              then e\<lparr>LazyLoadRefCount := LazyLoadRefCount e - 1\<rparr> else e)
                    in case (LazyLoadRefCount e1 = 0, NodeData e1) of
                         (True, Some d) \<Rightarrow>
                           (let l2 = (if LazyDataBackedByPMM e1
                                      then (if LazyDataPageCount e1 \<noteq> 0
                                            then on_machine (emit (FreePages (of_nat d) (LazyDataPageCount e1))) l1
                                            else l1)
                                      else on_machine (emit (KFree d)) l1)
                            in l2\<lparr>Executables := (Executables l2)
                                 (n := e1\<lparr>NodeData := None, LazyDataBackedByPMM := False,
                                          LazyDataPageCount := 0\<rparr>)\<rparr>)
                       | _ \<Rightarrow> l1\<lparr>Executables := (Executables l1)(n := e1)\<rparr>)))"

definition MappingFree :: "memory_mapping \<Rightarrow> effect list" where
  "MappingFree mp =
     (if InUse mp \<and> IsAnonymous mp \<and> PhysicalAddressStart mp \<noteq> 0 \<and> MapLength mp \<noteq> 0
      then [FreePages (PhysicalAddressStart mp) ((MapLength mp + PAGE_SIZE - 1) div PAGE_SIZE)] else [])"

definition FreeAnonymousProcessMappings :: "logic \<Rightarrow> u8 \<Rightarrow> logic" where
  "FreeAnonymousProcessMappings l i =
     (let maps = MemoryMappings (proc l i)
      in on_machine (\<lambda>m. fold emit (concat (map MappingFree maps)) m)
           (write_proc i (\<lambda>p. p\<lparr>MemoryMappings :=
              map (\<lambda>mp. if InUse mp then EmptyMapping else mp) maps\<rparr>) l))"

section \<open>Blocking and waking\<close>

definition UnblockProcess :: "logic \<Rightarrow> u8 \<Rightarrow> logic" where
  "UnblockProcess l i =
     (case GetProcessById (PM l) i of
        None \<Rightarrow> l
      | Some p \<Rightarrow>
          (if Status p \<noteq> PROCESS_BLOCKED then l
           else Sched_Add i (Unsleep i (set_status i PROCESS_READY l))))"

definition WakeProcess :: "logic \<Rightarrow> u8 \<Rightarrow> logic" where
  "WakeProcess l i =
     (case GetProcessById (PM l) i of
        None \<Rightarrow> l
      | Some p \<Rightarrow>
          (if Status p \<noteq> PROCESS_BLOCKED then l
           else Sched_Add i (Unsleep i (set_status i PROCESS_READY l))))"

definition NotifyTTYInputAvailable :: "logic \<Rightarrow> logic" where
  "NotifyTTYInputAvailable l =
     (let TTYWaiterId = GetNextTTYInputWaiter (Sync l)
      in if TTYWaiterId = PROCESS_ID_INVALID then l
         else UnblockProcess (Unwait TTYWaiterId l) TTYWaiterId)"

definition AddProcessToReadyQueue :: "logic \<Rightarrow> u8 \<Rightarrow> logic" where
  "AddProcessToReadyQueue l i =
     (case GetProcessById (PM l) i of
        None \<Rightarrow> l
      | Some p \<Rightarrow>
          (if Status p = PROCESS_TERMINATED then l
           else Sched_Add i (if Status p = PROCESS_BLOCKED then set_status i PROCESS_READY l else l)))"

section \<open>Killing\<close>

definition SharesVforkAddressSpace :: "logic \<Rightarrow> process \<Rightarrow> bool" where
  "SharesVforkAddressSpace l p =
     (IsVforkChild p \<and> VforkParentId p \<noteq> PROCESS_ID_INVALID \<and>
      (case GetProcessById (PM l) (VforkParentId p) of
         None \<Rightarrow> False
       | Some q \<Rightarrow> AddressSpace q = AddressSpace p))"

text \<open>\<open>PM->KillProcess\<close> on the state: the files it deletes go to the log.\<close>

definition PM_Kill :: "u8 \<Rightarrow> logic \<Rightarrow> ptr \<times> logic" where
  "PM_Kill i l =
     (case PM_KillProcess (PM l) i of
        (Sp, files, pm1) \<Rightarrow>
          (Sp, on_machine (\<lambda>m. fold emit (map DeleteFile files) m) (l\<lparr>PM := pm1\<rparr>)))"

text \<open>Everything \<open>KillProcess\<close> does to the target, up to its removal from the queues.\<close>

definition KillTarget :: "logic \<Rightarrow> u8 \<Rightarrow> logic" where
  "KillTarget l0 i =
     (let Target = GetProcessById (PM l0) i;
          (Running, pm1) = GetRunningProcess (PM l0);
          l1 = l0\<lparr>PM := pm1\<rparr>;
          SkipAddressSpaceCleanup =
            (case Target of None \<Rightarrow> False | Some p \<Rightarrow> SharesVforkAddressSpace l1 p);
          l2 = (case Target of None \<Rightarrow> l1 | Some _ \<Rightarrow> ReleaseRunningExecutable l1 i);
          l3 = (case Target of
                  None \<Rightarrow> snd (PM_Kill i l2)
                | Some p \<Rightarrow>
                    (case (Level p = PROCESS_LEVEL_USER \<and> \<not> SkipAddressSpaceCleanup, AddressSpace p) of
                       (True, Some sp) \<Rightarrow>
                         (let a1 = (if (case Running of None \<Rightarrow> False | Some r \<Rightarrow> PId r = i)
                                    then on_machine LoadKernelPageTable l2 else l2);
                              a2 = FreeAnonymousProcessMappings a1 i;
                              a3 = snd (PM_Kill i a2);
                              a4 = on_machine (emit (if FileType p = FILE_TYPE_ELF then CleanUpELF sp
                                                     else CleanUpRawBinary sp)) a3;
                              a5 = on_machine (emit (DeleteAddressSpace sp)) a4
                          in write_proc i (\<lambda>q. q\<lparr>AddressSpace := None\<rparr>) a5)
                     | _ \<Rightarrow>
                         (case PM_Kill i l2 of
                            (None, b) \<Rightarrow> b
                          | (Some Stack, b) \<Rightarrow>
                              (if Level (proc b i) = PROCESS_LEVEL_KERNEL
                               then on_machine (emit (KFree Stack)) b else b))))
      in Unwait i (Unsleep i (Sched_Remove i l3)))"

definition NotifyParent :: "logic \<Rightarrow> u8 \<Rightarrow> u8 \<Rightarrow> u32 \<Rightarrow> logic" where
  "NotifyParent l ParentId i ExitStatus =
     (case GetProcessById (PM l) ParentId of
        None \<Rightarrow> l
      | Some parent \<Rightarrow>
          (if Status parent = PROCESS_TERMINATED then l
           else
             (let l1 = write_proc ParentId (\<lambda>q. q\<lparr>HasPendingChildExit := True,
                         PendingChildId := i, PendingChildStatus := ExitStatus\<rparr>) l
              in if \<not> WaitingForChild parent then l1
                 else UnblockProcess
                        (write_proc ParentId (\<lambda>q. q\<lparr>WaitingForChild := False\<rparr>) l1)
                        (PId parent))))"

definition KillProcess :: "logic \<Rightarrow> u8 \<Rightarrow> u32 \<Rightarrow> logic" where
  "KillProcess l i ExitStatus =
     NotifyParent (KillTarget l i)
       (case GetProcessById (PM l) i of None \<Rightarrow> PROCESS_ID_INVALID | Some p \<Rightarrow> ParrentId p)
       i ExitStatus"

section \<open>Signals\<close>

definition LINUX_SIGNAL_MIN :: int where "LINUX_SIGNAL_MIN = 1"
definition LINUX_SIGNAL_MAX :: int where "LINUX_SIGNAL_MAX = int MAX_POSIX_SIGNALS_PER_PROCESS"
definition LINUX_SIGNAL_SIGKILL :: int where "LINUX_SIGNAL_SIGKILL = 9"
definition LINUX_SIGNAL_SIGALRM :: int where "LINUX_SIGNAL_SIGALRM = 14"
definition LINUX_SIGNAL_SIGCONT :: int where "LINUX_SIGNAL_SIGCONT = 18"
definition LINUX_SIGNAL_SIGSTOP :: int where "LINUX_SIGNAL_SIGSTOP = 19"

definition LINUX_SIG_DFL :: u64 where "LINUX_SIG_DFL = 0"
definition LINUX_SIG_IGN :: u64 where "LINUX_SIG_IGN = 1"

definition SignalMaskBit :: "int \<Rightarrow> u64" where
  "SignalMaskBit Signal = push_bit (nat (Signal - 1)) 1"

definition LINUX_UNBLOCKABLE_SIGNAL_MASK :: u64 where
  "LINUX_UNBLOCKABLE_SIGNAL_MASK =
     SignalMaskBit LINUX_SIGNAL_SIGKILL OR SignalMaskBit LINUX_SIGNAL_SIGSTOP"


datatype LinuxDefaultSignalAction =
    LINUX_DEFAULT_SIGNAL_IGNORE
  | LINUX_DEFAULT_SIGNAL_TERMINATE
  | LINUX_DEFAULT_SIGNAL_TERMINATE_CORE
  | LINUX_DEFAULT_SIGNAL_STOP
  | LINUX_DEFAULT_SIGNAL_CONTINUE

text \<open>
  By number: \<open>SIGCHLD\<close>, \<open>SIGURG\<close>, \<open>SIGWINCH\<close>; \<open>SIGSTOP\<close>, \<open>SIGTSTP\<close>, \<open>SIGTTIN\<close>,
  \<open>SIGTTOU\<close>; \<open>SIGCONT\<close>; and the signals that dump core, \<open>SIGQUIT\<close> to \<open>SIGSYS\<close>.
\<close>

definition GetLinuxDefaultSignalAction :: "int \<Rightarrow> LinuxDefaultSignalAction" where
  "GetLinuxDefaultSignalAction Signal =
     (if Signal \<in> {17, 23, 28} then LINUX_DEFAULT_SIGNAL_IGNORE
      else if Signal \<in> {19, 20, 21, 22} then LINUX_DEFAULT_SIGNAL_STOP
      else if Signal = 18 then LINUX_DEFAULT_SIGNAL_CONTINUE
      else if Signal \<in> {3, 4, 5, 6, 8, 11, 7, 24, 25, 31} then LINUX_DEFAULT_SIGNAL_TERMINATE_CORE
      else LINUX_DEFAULT_SIGNAL_TERMINATE)"

definition StopProcess :: "logic \<Rightarrow> u8 \<Rightarrow> logic" where
  "StopProcess l i =
     (if Status (proc l i) = PROCESS_RUNNING \<or> Status (proc l i) = PROCESS_READY
      then Unwait i (Unsleep i (Sched_Remove i (set_status i PROCESS_BLOCKED l))) else l)"

definition ContinueProcess :: "logic \<Rightarrow> u8 \<Rightarrow> logic" where
  "ContinueProcess l i =
     (if Status (proc l i) = PROCESS_BLOCKED
      then Sched_Add i (set_status i PROCESS_READY (Unwait i (Unsleep i l))) else l)"

definition TerminateProcess :: "logic \<Rightarrow> u8 \<Rightarrow> int \<Rightarrow> bool \<Rightarrow> logic" where
  "TerminateProcess l i Signal CoreDump =
     (let WaitStatus = word_of_int Signal AND 0x7F
      in KillProcess l i (if CoreDump then WaitStatus OR 0x80 else WaitStatus))"

definition DefaultDisposition :: "logic \<Rightarrow> u8 \<Rightarrow> int \<Rightarrow> logic" where
  "DefaultDisposition l i Signal =
     (case GetLinuxDefaultSignalAction Signal of
        LINUX_DEFAULT_SIGNAL_IGNORE \<Rightarrow> l
      | LINUX_DEFAULT_SIGNAL_STOP \<Rightarrow> StopProcess l i
      | LINUX_DEFAULT_SIGNAL_CONTINUE \<Rightarrow> ContinueProcess l i
      | LINUX_DEFAULT_SIGNAL_TERMINATE_CORE \<Rightarrow> TerminateProcess l i Signal True
      | LINUX_DEFAULT_SIGNAL_TERMINATE \<Rightarrow> TerminateProcess l i Signal False)"

text \<open>
  \<open>SetProcessSignalState\<close>: the frame the handler runs in. \<open>StoreUser\<close> logs the \<open>memcpy\<close> of
  the return address, under the target's page table.
\<close>

definition StateFrame :: "process \<Rightarrow> syscall_frame" where
  "StateFrame p = (SavedSignalFrame p)
     \<lparr>UserRSP := rsp (State p), UserRIP := rip (State p), UserRFLAGS := rflags (State p),
      UserRAX := rax (State p), UserRCX := rcx (State p), UserRDX := rdx (State p),
      UserRBX := rbx (State p), UserRBP := rbp (State p), UserRSI := rsi (State p),
      UserRDI := rdi (State p), UserR8 := r8 (State p), UserR9 := r9 (State p),
      UserR10 := r10 (State p), UserR11 := r11 (State p), UserR12 := r12 (State p),
      UserR13 := r13 (State p), UserR14 := r14 (State p), UserR15 := r15 (State p)\<rparr>"

definition SetProcessSignalState ::
    "logic \<Rightarrow> u8 \<Rightarrow> int \<Rightarrow> u64 \<Rightarrow> u64 \<Rightarrow> bool \<times> logic" where
  "SetProcessSignalState l i Signal HandlerAddress RestorerAddr =
     (let p = proc l i;
          access = (\<lambda>a c m. IsUserAddressRangeAccessible m (Some p) a c)
      in case AddressSpace p of
        None \<Rightarrow> (False, l)
      | Some sp \<Rightarrow>
      (let WasSyscall = (WaitingForSystemCallReturn p \<and> HasSavedSystemCallFrame p);
           OriginalRIP = (if WasSyscall then UserRIP (SavedSystemCallFrame p) else rip (State p));
           OriginalRSP = (if WasSyscall then UserRSP (SavedSystemCallFrame p) else rsp (State p));
           NewUserRSP = OriginalRSP - 8
       in if \<not> IsLowerCanonicalUserAddress HandlerAddress then (False, l)
       else case access HandlerAddress 1 (Machine l) of (ok1, m1) \<Rightarrow>
          let l1 = l\<lparr>Machine := m1\<rparr>
       in if \<not> ok1 then (False, l1)
       else if \<not> IsLowerCanonicalUserAddress OriginalRIP then (False, l1)
       else case access OriginalRIP 1 m1 of (ok2, m2) \<Rightarrow>
          let l2 = l1\<lparr>Machine := m2\<rparr>
       in if \<not> ok2 then (False, l2)
       else if \<not> IsLowerCanonicalUserAddress OriginalRSP \<or> OriginalRSP < 8 then (False, l2)
       else case access NewUserRSP 8 m2 of (ok3, m3) \<Rightarrow>
          let l3 = l2\<lparr>Machine := m3\<rparr>
       in if \<not> ok3 then (False, l3)
       else let frame = (if WasSyscall then SavedSystemCallFrame p else StateFrame p);
                l4 = write_proc i (\<lambda>p. p\<lparr>SavedSignalRIP := OriginalRIP, SavedSignalRSP := OriginalRSP,
                       SavedSignalWasSyscall := WasSyscall, HasSavedSignalState := True,
                       SavedSignalFrame := frame\<rparr>) l3;
                ReturnAddress = (if RestorerAddr \<noteq> 0 then RestorerAddr else OriginalRIP);
                Previous = CR3 (Machine l4);
                TargetTable = PageMapL4TableAddr (AddressSpaces (Machine l4) sp)
       in if Previous = 0 \<or> TargetTable = 0 then (False, l4)
       else let l5 = (if Previous \<noteq> TargetTable then on_machine (\<lambda>m. LoadPageTable m TargetTable) l4 else l4);
                l6 = on_machine (emit (StoreUser (CR3 (Machine l5)) NewUserRSP ReturnAddress)) l5;
                l7 = (if Previous \<noteq> TargetTable then on_machine (\<lambda>m. LoadPageTable m Previous) l6 else l6)
       in (True,
           if WasSyscall then
             write_proc i (\<lambda>p. p\<lparr>SavedSystemCallFrame := (SavedSystemCallFrame p)
               \<lparr>UserRIP := HandlerAddress, UserRSP := NewUserRSP, UserRDI := word_of_int Signal,
                UserRSI := 0, UserRDX := 0\<rparr>\<rparr>) l7
           else
             write_proc i (\<lambda>p. p\<lparr>State := (State p)
               \<lparr>rip := HandlerAddress, rsp := NewUserRSP, rdi := word_of_int Signal,
                rsi := 0, rdx := 0\<rparr>\<rparr>) l7)))"

definition InterruptBlocked :: "logic \<Rightarrow> u8 \<Rightarrow> logic" where
  "InterruptBlocked l i =
     (if Status (proc l i) = PROCESS_BLOCKED
      then Sched_Add i (set_status i PROCESS_READY (Unwait i (Unsleep i
             (write_proc i (\<lambda>p. p\<lparr>InterruptedBySignal := True\<rparr>) l))))
      else l)"

definition ClearPending :: "u8 \<Rightarrow> int \<Rightarrow> logic \<Rightarrow> logic" where
  "ClearPending i Signal =
     write_proc i (\<lambda>p. p\<lparr>PendingSignalMask := PendingSignalMask p AND NOT (SignalMaskBit Signal)\<rparr>)"

definition SetPending :: "u8 \<Rightarrow> int \<Rightarrow> logic \<Rightarrow> logic" where
  "SetPending i Signal =
     write_proc i (\<lambda>p. p\<lparr>PendingSignalMask := PendingSignalMask p OR SignalMaskBit Signal\<rparr>)"

text \<open>The end of \<open>SignalProcess\<close>, for a signal with an action of the process.\<close>

definition DeliverToHandler :: "logic \<Rightarrow> u8 \<Rightarrow> int \<Rightarrow> signal_action \<Rightarrow> logic" where
  "DeliverToHandler l i Signal act =
     (if Handler act = LINUX_SIG_IGN then l
      else if Handler act = LINUX_SIG_DFL then DefaultDisposition l i Signal
      else if HasSavedSignalState (proc l i) then SetPending i Signal l
      else case SetProcessSignalState l i Signal (Handler act) (Restorer act) of (ok, l2) \<Rightarrow>
        (if \<not> ok then TerminateProcess l2 i Signal False
         else InterruptBlocked
           (write_proc i (\<lambda>p. p\<lparr>SavedSignalMask := BlockedSignalMask p,
              BlockedSignalMask := (BlockedSignalMask p OR SignalMaskBit Signal OR Mask act)
                AND NOT LINUX_UNBLOCKABLE_SIGNAL_MASK\<rparr>) l2) i))"

definition SignalProcess :: "logic \<Rightarrow> u8 \<Rightarrow> int \<Rightarrow> bool \<times> logic" where
  "SignalProcess l i Signal =
     (if Signal < LINUX_SIGNAL_MIN \<or> Signal > LINUX_SIGNAL_MAX then (False, l)
      else case GetProcessById (PM l) i of
        None \<Rightarrow> (False, l)
      | Some p \<Rightarrow>
          (if Status p = PROCESS_TERMINATED then (False, l)
           else if Signal = LINUX_SIGNAL_SIGKILL
             then (True, TerminateProcess (ClearPending i Signal l) i Signal False)
           else if Signal = LINUX_SIGNAL_SIGSTOP then (True, StopProcess (ClearPending i Signal l) i)
           else if Signal = LINUX_SIGNAL_SIGCONT then (True, ContinueProcess (ClearPending i Signal l) i)
           else if BlockedSignalMask p AND SignalMaskBit Signal \<noteq> 0 then (True, SetPending i Signal l)
           else (let l1 = ClearPending i Signal l
                 in case (Level p = PROCESS_LEVEL_USER \<and> AddressSpace p \<noteq> None, SignalActions p) of
                      (True, Some actions) \<Rightarrow>
                        (True, DeliverToHandler l1 i Signal (actions ! nat (Signal - 1)))
                    | _ \<Rightarrow> (True, DefaultDisposition l1 i Signal))))"

section \<open>Switching processes\<close>

definition KERNEL_CS :: u64 where "KERNEL_CS = 0x08"
definition KERNEL_SS :: u64 where "KERNEL_SS = 0x10"
definition USER_MODE_FLAG_MASK :: u64 where "USER_MODE_FLAG_MASK = 3"

text \<open>How a call that may switch ends: it returned a value, or the processor is with \<open>i\<close>.\<close>

datatype switch = Returned bool | Switched u8

definition SetKernelSystemCallStackTop :: "u64 \<Rightarrow> machine \<Rightarrow> machine" where
  "SetKernelSystemCallStackTop StackTop m =
     (if StackTop = 0 then m else emit (SetSystemCallStack StackTop) m)"

definition ResumesInKernel :: "process \<Rightarrow> bool" where
  "ResumesInKernel p =
     (Level p = PROCESS_LEVEL_USER \<and> WaitingForSystemCallReturn p \<and> HasSavedSystemCallFrame p \<and>
      cs_sel (State p) = KERNEL_CS \<and> ss_sel (State p) = KERNEL_SS)"

text \<open>The three ways to enter the target; \<open>None\<close> is the early \<open>return false\<close>.\<close>

definition EnterProcess :: "process \<Rightarrow> machine \<Rightarrow> machine option" where
  "EnterProcess p m =
     (if Level p = PROCESS_LEVEL_USER \<and> \<not> ResumesInKernel p then
        Some (emit (TaskSwitchUser (State p) (AddressSpace p))
          (emit (SetUserFSBase (UserFSBase p))
            (SetKernelSystemCallStackTop (KernelSystemCallStackTop p) m)))
      else if ResumesInKernel p then
        (case AddressSpace p of
           None \<Rightarrow> None
         | Some sp \<Rightarrow>
             (let TargetPageTable = PageMapL4TableAddr (AddressSpaces m sp)
              in if TargetPageTable = 0 then None
                 else Some (emit (TaskSwitchKernelCurrentAddressSpace (State p))
                   (LoadPageTable
                     (emit (SetUserFSBase (UserFSBase p))
                       (SetKernelSystemCallStackTop (KernelSystemCallStackTop p) m)) TargetPageTable))))
      else Some (emit (TaskSwitchKernel (State p)) m))"

definition RunProcess :: "logic \<Rightarrow> u8 \<Rightarrow> cpu_state \<Rightarrow> switch \<times> logic" where
  "RunProcess l i saved =
     (case GetProcessById (PM l) i of
        None \<Rightarrow> (Returned False, l)
      | Some p \<Rightarrow>
      (if Status p = PROCESS_TERMINATED then (Returned False, l)
       else case GetCurrentProcess (PM l) of
         None \<Rightarrow>
           (let l1 = set_status i PROCESS_RUNNING l;
                l2 = l1\<lparr>PM := UpdateCurrentProcessId (PM l1) (PId p)\<rparr>
            in case EnterProcess (proc l2 i) (Machine l2) of
                 None \<Rightarrow> (Returned False, l2)
               | Some m \<Rightarrow> (Switched i, l2\<lparr>Machine := m\<rparr>))
       | Some cur \<Rightarrow>
           (let c = PId cur
            in if c = i then (Returned True, l)
               else
                 (let l1 = (if Status cur = PROCESS_RUNNING then set_status c PROCESS_READY l else l);
                      l2 = set_status i PROCESS_RUNNING l1;
                      l3 = l2\<lparr>PM := UpdateCurrentProcessId (PM l2) (PId p)\<rparr>
                  in case EnterProcess (proc l3 i) (Machine l3) of
                       None \<Rightarrow> (Returned False, l3)
                     | Some m \<Rightarrow>
                         (Switched i, write_proc c (\<lambda>q. q\<lparr>State := saved\<rparr>) (l3\<lparr>Machine := m\<rparr>))))))"

text \<open>The end of \<open>RunProcess\<close>, when \<open>cur\<close> is switched back to after having switched to \<open>i\<close>.\<close>

definition RunProcess_resume :: "logic \<Rightarrow> u8 \<Rightarrow> u8 \<Rightarrow> logic" where
  "RunProcess_resume l cur i =
     set_status cur PROCESS_RUNNING
       (if Status (proc l i) = PROCESS_RUNNING then set_status i PROCESS_READY l else l)"

definition Schedule :: "logic \<Rightarrow> cpu_state \<Rightarrow> switch \<times> logic" where
  "Schedule l saved =
     (case ready_select (Sched l) of
        (NextProcessId, r) \<Rightarrow>
          (let l1 = l\<lparr>Sched := r\<rparr>
           in if NextProcessId = PROCESS_ID_INVALID then (Returned True, l1)
              else RunProcess l1 NextProcessId saved))"

definition EnterKernelContext :: "process \<Rightarrow> process" where
  "EnterKernelContext p =
     (if WaitingForSystemCallReturn p \<and> HasSavedSystemCallFrame p
      then p\<lparr>State := (State p)\<lparr>cs_sel := KERNEL_CS, ss_sel := KERNEL_SS\<rparr>\<rparr> else p)"

definition SleepProcess :: "logic \<Rightarrow> u8 \<Rightarrow> u64 \<Rightarrow> cpu_state \<Rightarrow> switch \<times> logic" where
  "SleepProcess l i WaitTicks saved =
     (case GetProcessById (PM l) i of
        None \<Rightarrow> (Returned True, l)
      | Some p \<Rightarrow>
          (if Status p \<noteq> PROCESS_RUNNING then (Returned True, l)
           else
             (let l1 = set_status i PROCESS_BLOCKED (write_proc i EnterKernelContext l);
                  l2 = l1\<lparr>Sync := AddToSleepQueue (Sync l1) i WaitTicks True\<rparr>;
                  l3 = (Sched_Remove i l2)\<lparr>Ticks := 0\<rparr>
              in Schedule l3 saved)))"

definition BlockProcessForTTYInput :: "logic \<Rightarrow> u8 \<Rightarrow> cpu_state \<Rightarrow> switch \<times> logic" where
  "BlockProcessForTTYInput l i saved =
     (case GetProcessById (PM l) i of
        None \<Rightarrow> (Returned True, l)
      | Some p \<Rightarrow>
          (if Status p \<noteq> PROCESS_RUNNING then (Returned True, l)
           else
             (let l1 = set_status i PROCESS_BLOCKED (write_proc i EnterKernelContext l);
                  l2 = l1\<lparr>Sync := AddToTTYInputWaitQueue (Sync l1) i True\<rparr>;
                  l3 = (Sched_Remove i l2)\<lparr>Ticks := 0\<rparr>
              in Schedule l3 saved)))"

definition BlockProcess :: "logic \<Rightarrow> u8 \<Rightarrow> cpu_state \<Rightarrow> switch \<times> logic" where
  "BlockProcess l i saved =
     (case GetProcessById (PM l) i of
        None \<Rightarrow> (Returned True, l)
      | Some p \<Rightarrow>
          (if Status p \<noteq> PROCESS_RUNNING then (Returned True, l)
           else
             (let l1 = set_status i PROCESS_BLOCKED (write_proc i EnterKernelContext l);
                  l2 = (Sched_Remove i l1)\<lparr>Ticks := 0\<rparr>
              in Schedule l2 saved)))"

text \<open>The interrupt frame is given as the register file it holds.\<close>

definition CaptureCurrentInterruptState :: "logic \<Rightarrow> cpu_state option \<Rightarrow> logic" where
  "CaptureCurrentInterruptState l Regs =
     (case Regs of
        None \<Rightarrow> l
      | Some r \<Rightarrow>
          (if cs_sel r AND USER_MODE_FLAG_MASK \<noteq> USER_MODE_FLAG_MASK then l
           else case GetRunningProcess (PM l) of
             (Current, pm1) \<Rightarrow>
               (let l1 = l\<lparr>PM := pm1\<rparr>
                in case Current of
                     None \<Rightarrow> l1
                   | Some p \<Rightarrow>
                       (if Level p \<noteq> PROCESS_LEVEL_USER then l1
                        else write_proc (PId p) (\<lambda>q. q\<lparr>State := r\<rparr>) l1))))"

section \<open>The timer tick\<close>

definition TickTimer :: "logic \<Rightarrow> nat \<Rightarrow> logic" where
  "TickTimer l index =
     (case GetProcessById (PM l) (of_nat index) of
        None \<Rightarrow> l
      | Some p \<Rightarrow>
          (if Status p = PROCESS_TERMINATED then l
           else if RealIntervalTimerRemainingTicks p = 0 then l
           else
             (let i = of_nat index;
                  left = RealIntervalTimerRemainingTicks p - 1;
                  l1 = write_proc i (\<lambda>q. q\<lparr>RealIntervalTimerRemainingTicks := left\<rparr>) l
              in if left \<noteq> 0 then l1
                 else
                   (let l2 = snd (SignalProcess l1 (PId p) LINUX_SIGNAL_SIGALRM)
                    in if RealIntervalTimerIntervalTicks (proc l2 i) \<noteq> 0
                       then write_proc i (\<lambda>q. q\<lparr>RealIntervalTimerRemainingTicks :=
                                                RealIntervalTimerIntervalTicks q\<rparr>) l2
                       else l2))))"

definition Tick :: "logic \<Rightarrow> logic" where
  "Tick l =
     (let l1 = foldl TickTimer l [0..<GetMaxProcesses];
          l2 = l1\<lparr>Sync := Sync_Tick (Sync l1)\<rparr>;
          IdToWake = GetNextProcessToWake (Sync l2)
      in if IdToWake \<noteq> PROCESS_ID_INVALID then WakeProcess l2 IdToWake else l2)"

section \<open>Frames\<close>

lemma proc_write:
  assumes "pm_inv (PM l)" and "unat i < MAX_PROCESSES"
  shows "proc (write_proc i f l) j = (if j = i then f (proc l i) else proc l j)"
proof -
  have "j \<noteq> i \<Longrightarrow> unat i \<noteq> unat j" by (simp add: word_unat_eq_iff)
  with assms show ?thesis by (simp add: proc_def write_proc_def SetProcess_def pm_inv_def)
qed

lemma write_proc_frame [frame_simps, simp]:
  "Sched (write_proc i f l) = Sched l" "Sync (write_proc i f l) = Sync l"
  "Machine (write_proc i f l) = Machine l" "Executables (write_proc i f l) = Executables l"
  "CurrentProcessId (PM (write_proc i f l)) = CurrentProcessId (PM l)"
  by (simp_all add: write_proc_def SetProcess_def)

lemma set_status_frame [frame_simps, simp]:
  "Sched (set_status i St l) = Sched l" "Sync (set_status i St l) = Sync l"
  "Machine (set_status i St l) = Machine l"
  "CurrentProcessId (PM (set_status i St l)) = CurrentProcessId (PM l)"
  by (simp_all add: set_status_def)

lemma on_machine_frame [frame_simps, simp]:
  "PM (on_machine f l) = PM l" "Sched (on_machine f l) = Sched l" "Sync (on_machine f l) = Sync l"
  "Executables (on_machine f l) = Executables l" "Machine (on_machine f l) = f (Machine l)"
  by (simp_all add: on_machine_def)

lemma queue_ops_frame [frame_simps, simp]:
  "PM (Sched_Add i l) = PM l" "Sync (Sched_Add i l) = Sync l" "Machine (Sched_Add i l) = Machine l"
  "PM (Sched_Remove i l) = PM l" "Sync (Sched_Remove i l) = Sync l"
  "Machine (Sched_Remove i l) = Machine l"
  "PM (Unsleep i l) = PM l" "Sched (Unsleep i l) = Sched l" "Machine (Unsleep i l) = Machine l"
  "PM (Unwait i l) = PM l" "Sched (Unwait i l) = Sched l" "Machine (Unwait i l) = Machine l"
  by (simp_all add: Sched_Add_def Sched_Remove_def Unsleep_def Unwait_def)

lemma queue_ops_effect [queue_simps, simp]:
  "ReadyIds (Sched (Sched_Add i l)) = ReadyIds (Sched l) @ [i]"
  "ReadyIds (Sched (Sched_Remove i l)) = remove1 i (ReadyIds (Sched l))"
  "SleepQueue (Sync (Unsleep i l)) = remove_first (\<lambda>t. SleepId t = i) (SleepQueue (Sync l))"
  "SleepQueue (Sync (Unwait i l)) = SleepQueue (Sync l)"
  "TTYInputWaitQueue (Sync (Unsleep i l)) = TTYInputWaitQueue (Sync l)"
  "TTYInputWaitQueue (Sync (Unwait i l)) = remove1 i (TTYInputWaitQueue (Sync l))"
  by (simp_all add: Sched_Add_def Sched_Remove_def Unsleep_def Unwait_def ready_add_def
      ready_remove_def RemoveFromSleepQueue_def RemoveFromTTYInputWaitQueue_def
      remove_first_eq_remove1)

lemma proc_cong: "PM l = PM l' \<Longrightarrow> proc l = proc l'"
  by (simp add: proc_def fun_eq_iff)

lemma proc_frame [frame_simps, simp]:
  "proc (on_machine g l) = proc l" "proc (Sched_Add i l) = proc l" "proc (Sched_Remove i l) = proc l"
  "proc (Unsleep i l) = proc l" "proc (Unwait i l) = proc l"
  "proc (l\<lparr>Executables := ex\<rparr>) = proc l" "proc (l\<lparr>Sync := sy\<rparr>) = proc l"
  "proc (l\<lparr>Sched := sc\<rparr>) = proc l" "proc (l\<lparr>Ticks := n\<rparr>) = proc l" "proc (l\<lparr>Machine := m\<rparr>) = proc l"
  by (rule proc_cong, simp)+

lemma GetProcessById_proc:
  "GetProcessById (PM l) i = (if unat i < MAX_PROCESSES then Some (proc l i) else None)"
  by (simp add: GetProcessById_def proc_def)

section \<open>The invariant of the process layer\<close>

text \<open>
  On statuses alone: what is queued may run, what sleeps is blocked, each is queued once, and
  only the tracked process is running.
\<close>

definition queues_ok ::
    "(u8 \<Rightarrow> ProcessState) \<Rightarrow> u8 \<Rightarrow> u8 list \<Rightarrow> sleep_tag list \<Rightarrow> bool" where
  "queues_ok st cur ready sleep \<longleftrightarrow>
     distinct ready \<and>
     (\<forall>i\<in>set ready. unat i < MAX_PROCESSES \<and> (st i = PROCESS_READY \<or> st i = PROCESS_RUNNING)) \<and>
     distinct (map SleepId sleep) \<and>
     (\<forall>t\<in>set sleep. unat (SleepId t) < MAX_PROCESSES \<and> st (SleepId t) = PROCESS_BLOCKED) \<and>
     (\<forall>i. unat i < MAX_PROCESSES \<longrightarrow> st i = PROCESS_RUNNING \<longrightarrow> i = cur)"

definition status_of :: "logic \<Rightarrow> u8 \<Rightarrow> ProcessState" where
  "status_of l i = Status (proc l i)"

definition ll_inv :: "logic \<Rightarrow> bool" where
  "ll_inv l \<longleftrightarrow>
     pm_inv (PM l) \<and> sync_inv (Sync l) \<and>
     queues_ok (status_of l) (CurrentProcessId (PM l)) (ReadyIds (Sched l)) (SleepQueue (Sync l))"

lemma queues_ok_block:
  "queues_ok st cur r s \<Longrightarrow> unat i < MAX_PROCESSES \<Longrightarrow> St = PROCESS_BLOCKED \<or> St = PROCESS_TERMINATED \<Longrightarrow>
   i \<notin> SleepId ` set s \<Longrightarrow> queues_ok (st(i := St)) cur (remove1 i r) s"
  by (auto simp: queues_ok_def)

lemma queues_ok_sleep:
  "queues_ok st cur r s \<Longrightarrow> unat i < MAX_PROCESSES \<Longrightarrow> st i = PROCESS_BLOCKED \<Longrightarrow>
   i \<notin> SleepId ` set s \<Longrightarrow> queues_ok st cur r (s @ [\<lparr>SleepId = i, WaitTicksRemaining = n\<rparr>])"
  by (auto simp: queues_ok_def)

lemma queues_ok_unsleep:
  "queues_ok st cur r s \<Longrightarrow> queues_ok st cur r (remove_first (\<lambda>t. SleepId t = i) s)"
  by (auto simp: queues_ok_def distinct_map_remove_first dest: in_set_remove_firstD)

lemma queues_ok_not_sleeping:
  "queues_ok st cur r s \<Longrightarrow> st i \<noteq> PROCESS_BLOCKED \<Longrightarrow> i \<notin> SleepId ` set s"
  by (auto simp: queues_ok_def)

lemma queues_ok_wake:
  assumes "queues_ok st cur r s" and "unat i < MAX_PROCESSES" and "st i = PROCESS_BLOCKED"
  shows "queues_ok (st(i := PROCESS_READY)) cur (r @ [i]) (remove_first (\<lambda>t. SleepId t = i) s)"
proof -
  have "i \<notin> set r" using assms(1,3) by (auto simp: queues_ok_def)
  moreover have "i \<notin> SleepId ` set (remove_first (\<lambda>t. SleepId t = i) s)"
    using assms(1) by (intro key_notin_remove_first) (simp add: queues_ok_def)
  ultimately show ?thesis
    using assms by (auto simp: queues_ok_def distinct_map_remove_first dest: in_set_remove_firstD)
qed

lemma queues_ok_terminate:
  assumes "queues_ok st cur r s" and "unat i < MAX_PROCESSES"
  shows "queues_ok (st(i := PROCESS_TERMINATED)) cur (remove1 i r) (remove_first (\<lambda>t. SleepId t = i) s)"
proof (rule queues_ok_block)
  show "queues_ok st cur r (remove_first (\<lambda>t. SleepId t = i) s)"
    using assms(1) by (rule queues_ok_unsleep)
  show "i \<notin> SleepId ` set (remove_first (\<lambda>t. SleepId t = i) s)"
    using assms(1) by (intro key_notin_remove_first) (simp add: queues_ok_def)
qed (use assms in auto)

lemma queues_ok_enqueue:
  "queues_ok st cur r s \<Longrightarrow> unat i < MAX_PROCESSES \<Longrightarrow> i \<notin> set r \<Longrightarrow> i \<notin> SleepId ` set s \<Longrightarrow>
   queues_ok (st(i := PROCESS_READY)) cur (r @ [i]) s"
  by (auto simp: queues_ok_def)

lemma queues_ok_run:
  assumes q: "queues_ok st cur r s" and i: "i \<in> set r" "st' i = PROCESS_RUNNING"
    and others: "\<And>j. unat j < MAX_PROCESSES \<Longrightarrow> j \<noteq> i \<Longrightarrow>
       st' j = (if st j = PROCESS_RUNNING then PROCESS_READY else st j)"
  shows "queues_ok st' i r s"
proof -
  have "st i \<noteq> PROCESS_BLOCKED" using q i(1) by (auto simp: queues_ok_def)
  then have b: "unat j < MAX_PROCESSES \<Longrightarrow> st j = PROCESS_BLOCKED \<Longrightarrow> st' j = PROCESS_BLOCKED" for j
    using others [of j] by (cases "j = i") auto
  have r: "st' j = PROCESS_READY \<or> st' j = PROCESS_RUNNING" if "j \<in> set r" for j
    using q i others [of j] that by (cases "j = i") (auto simp: queues_ok_def)
  have o: "unat j < MAX_PROCESSES \<Longrightarrow> st' j = PROCESS_RUNNING \<Longrightarrow> j = i" for j
    using others [of j] by (cases "j = i") (auto split: if_splits)
  show ?thesis using q b r o by (simp add: queues_ok_def)
qed

section \<open>Every operation keeps the invariant\<close>

lemma status_of_frame [simp]:
  "status_of (on_machine g l) = status_of l" "status_of (Sched_Add i l) = status_of l"
  "status_of (Sched_Remove i l) = status_of l" "status_of (Unsleep i l) = status_of l"
  "status_of (Unwait i l) = status_of l" "status_of (l\<lparr>Executables := ex\<rparr>) = status_of l"
  "status_of (l\<lparr>Sync := sy\<rparr>) = status_of l" "status_of (l\<lparr>Sched := sc\<rparr>) = status_of l"
  "status_of (l\<lparr>Ticks := n\<rparr>) = status_of l" "status_of (l\<lparr>Machine := m\<rparr>) = status_of l"
  by (simp_all add: status_of_def fun_eq_iff)

lemma status_of_set_status:
  "pm_inv (PM l) \<Longrightarrow> unat i < MAX_PROCESSES \<Longrightarrow> status_of (set_status i St l) = (status_of l)(i := St)"
  by (auto simp: status_of_def set_status_def proc_write fun_eq_iff)

lemma status_of_write:
  "pm_inv (PM l) \<Longrightarrow> unat i < MAX_PROCESSES \<Longrightarrow> (\<And>p. Status (f p) = Status p) \<Longrightarrow>
   status_of (write_proc i f l) = status_of l"
  by (auto simp: status_of_def proc_write fun_eq_iff)

lemma pm_inv_entry: "pm_inv (PM l) \<Longrightarrow> unat i < MAX_PROCESSES \<Longrightarrow> entry_ok (unat i) (proc l i)"
  by (simp add: pm_inv_def proc_def)

lemma pm_inv_write:
  "pm_inv (PM l) \<Longrightarrow> unat i < MAX_PROCESSES \<Longrightarrow> entry_ok (unat i) (f (proc l i)) \<Longrightarrow>
   pm_inv (PM (write_proc i f l))"
  by (simp add: write_proc_def pm_inv_SetProcess)

lemma entry_ok_status:
  "entry_ok k p \<Longrightarrow> Status p \<noteq> PROCESS_TERMINATED \<Longrightarrow> St \<noteq> PROCESS_TERMINATED \<Longrightarrow>
   entry_ok k (p\<lparr>Status := St\<rparr>)"
  by (simp add: entry_ok_def entry_shape_def)

lemma pm_inv_set_status:
  "pm_inv (PM l) \<Longrightarrow> unat i < MAX_PROCESSES \<Longrightarrow> status_of l i \<noteq> PROCESS_TERMINATED \<Longrightarrow>
   St \<noteq> PROCESS_TERMINATED \<Longrightarrow> pm_inv (PM (set_status i St l))"
  unfolding set_status_def status_of_def
  by (intro pm_inv_write entry_ok_status pm_inv_entry) auto

lemma ll_inv_write [inv_intros]:
  assumes "ll_inv l" and "unat i < MAX_PROCESSES" and "entry_ok (unat i) (f (proc l i))"
    and "\<And>p. Status (f p) = Status p"
  shows "ll_inv (write_proc i f l)"
  using assms pm_inv_write [of l i f] status_of_write [of l i f] by (simp add: ll_inv_def)

lemma ll_inv_on_machine [simp]: "ll_inv (on_machine f l) = ll_inv l"
  by (simp add: ll_inv_def)

lemma ll_inv_fields [simp]:
  "ll_inv (l\<lparr>Executables := ex\<rparr>) = ll_inv l" "ll_inv (l\<lparr>Ticks := n\<rparr>) = ll_inv l"
  "ll_inv (l\<lparr>Machine := m\<rparr>) = ll_inv l"
  by (simp_all add: ll_inv_def)

lemma sync_inv_Unsleep [simp]: "sync_inv (Sync l) \<Longrightarrow> sync_inv (Sync (Unsleep i l))"
  by (simp add: Unsleep_def sync_inv_sleep)

lemma sync_inv_Unwait [simp]: "sync_inv (Sync l) \<Longrightarrow> sync_inv (Sync (Unwait i l))"
  by (simp add: Unwait_def sync_inv_tty)

lemma ll_inv_Unsleep [inv_intros]: "ll_inv l \<Longrightarrow> ll_inv (Unsleep i l)"
  by (simp add: ll_inv_def queues_ok_unsleep)

lemma ll_inv_Unwait [inv_intros]: "ll_inv l \<Longrightarrow> ll_inv (Unwait i l)"
  by (simp add: ll_inv_def)

lemma wake_inv:
  assumes "ll_inv l" and "unat i < MAX_PROCESSES" and "status_of l i = PROCESS_BLOCKED"
  shows "ll_inv (Sched_Add i (Unsleep i (set_status i PROCESS_READY l)))"
  using assms queues_ok_wake [of "status_of l" "CurrentProcessId (PM l)" "ReadyIds (Sched l)" "SleepQueue (Sync l)" i]
  by (simp add: ll_inv_def status_of_set_status pm_inv_set_status)

lemma UnblockProcess_inv [inv_intros]: "ll_inv l \<Longrightarrow> ll_inv (UnblockProcess l i)"
  using wake_inv [of l i] by (auto simp: UnblockProcess_def GetProcessById_proc status_of_def)

lemma WakeProcess_inv [inv_intros]: "ll_inv l \<Longrightarrow> ll_inv (WakeProcess l i)"
  using wake_inv [of l i] by (auto simp: WakeProcess_def GetProcessById_proc status_of_def)

lemma Notify_inv [inv_intros]: "ll_inv l \<Longrightarrow> ll_inv (NotifyTTYInputAvailable l)"
  by (simp add: NotifyTTYInputAvailable_def Let_def UnblockProcess_inv ll_inv_Unwait)

lemma block_inv:
  assumes "ll_inv l" and "unat i < MAX_PROCESSES"
    and "status_of l i = PROCESS_RUNNING \<or> status_of l i = PROCESS_READY"
  shows "ll_inv (Sched_Remove i (set_status i PROCESS_BLOCKED l))"
proof -
  have nt: "status_of l i \<noteq> PROCESS_TERMINATED" using assms(3) by auto
  have q: "queues_ok (status_of l) (CurrentProcessId (PM l)) (ReadyIds (Sched l)) (SleepQueue (Sync l))"
    using assms(1) by (simp add: ll_inv_def)
  have "status_of l i \<noteq> PROCESS_BLOCKED" using assms(3) by auto
  from queues_ok_not_sleeping [OF q this] have "i \<notin> SleepId ` set (SleepQueue (Sync l))" .
  from queues_ok_block [OF q assms(2) _ this, of PROCESS_BLOCKED] show ?thesis
    using assms nt by (simp add: ll_inv_def status_of_set_status pm_inv_set_status)
qed

lemma StopProcess_inv [inv_intros]:
  "ll_inv l \<Longrightarrow> unat i < MAX_PROCESSES \<Longrightarrow> ll_inv (StopProcess l i)"
  using block_inv [of l i] by (auto simp: StopProcess_def status_of_def intro: ll_inv_Unsleep ll_inv_Unwait)

lemma wake_inv':
  assumes "ll_inv l" and "unat i < MAX_PROCESSES" and "status_of l i = PROCESS_BLOCKED"
  shows "ll_inv (Sched_Add i (set_status i PROCESS_READY (Unwait i (Unsleep i l))))"
  using assms queues_ok_wake [of "status_of l" "CurrentProcessId (PM l)" "ReadyIds (Sched l)" "SleepQueue (Sync l)" i]
  by (simp add: ll_inv_def status_of_set_status pm_inv_set_status)

lemma ContinueProcess_inv [inv_intros]:
  "ll_inv l \<Longrightarrow> unat i < MAX_PROCESSES \<Longrightarrow> ll_inv (ContinueProcess l i)"
  using wake_inv' [of l i] by (auto simp: ContinueProcess_def status_of_def)

section \<open>Killing keeps the invariant\<close>

lemma Release_frame [simp]:
  "PM (ReleaseRunningExecutable l i) =
     PM (write_proc i (\<lambda>p. p\<lparr>RunningExecutableDentry := None, RunningExecutableINode := None\<rparr>) l)"
  "Sched (ReleaseRunningExecutable l i) = Sched l" "Sync (ReleaseRunningExecutable l i) = Sync l"
  by (auto simp: ReleaseRunningExecutable_def Let_def split: option.splits bool.splits)

lemma FreeAnonymous_frame [simp]:
  "PM (FreeAnonymousProcessMappings l i) =
     PM (write_proc i (\<lambda>p. p\<lparr>MemoryMappings :=
       map (\<lambda>mp. if InUse mp then EmptyMapping else mp) (MemoryMappings (proc l i))\<rparr>) l)"
  "Sched (FreeAnonymousProcessMappings l i) = Sched l"
  "Sync (FreeAnonymousProcessMappings l i) = Sync l"
  by (simp_all add: FreeAnonymousProcessMappings_def Let_def)

lemma GetRunning_frame:
  assumes "pm_inv pm" and "GetRunningProcess pm = (r, pm')"
  shows "pm_inv pm' \<and> Processes pm' = Processes pm"
  using GetRunningProcess_spec [OF assms] assms(1) by (simp add: pm_inv_def)

lemma GetRunning_inv [inv_intros]:
  assumes "ll_inv l" and "GetRunningProcess (PM l) = (r, pm')"
  shows "ll_inv (l\<lparr>PM := pm'\<rparr>)"
proof -
  have pm: "pm_inv (PM l)" using assms(1) by (simp add: ll_inv_def)
  note spec = GetRunningProcess_spec [OF pm assms(2)]
  have st: "status_of (l\<lparr>PM := pm'\<rparr>) = status_of l"
    using spec by (simp add: status_of_def proc_def fun_eq_iff)
  have "\<forall>i. unat i < MAX_PROCESSES \<longrightarrow> status_of l i = PROCESS_RUNNING \<longrightarrow> i = CurrentProcessId pm'"
  proof (cases r)
    case None
    with spec show ?thesis by (auto simp: status_of_def proc_def)
  next
    case (Some p)
    have "GetProcessById (PM l) (PId p) = Some p" "Status p = PROCESS_RUNNING" "CurrentProcessId pm' = PId p"
      using spec Some by (auto simp: GetProcessById_def)
    then have "unat (PId p) < MAX_PROCESSES" "status_of l (PId p) = PROCESS_RUNNING"
      by (auto simp: GetProcessById_proc status_of_def split: if_splits)
    with assms(1) have "PId p = CurrentProcessId (PM l)" by (auto simp: ll_inv_def queues_ok_def)
    with \<open>CurrentProcessId pm' = PId p\<close> assms(1) show ?thesis by (auto simp: ll_inv_def queues_ok_def)
  qed
  with assms(1) st GetRunning_frame [OF pm assms(2)] show ?thesis
    by (auto simp: ll_inv_def queues_ok_def)
qed

lemma PM_Kill_spec:
  assumes "pm_inv (PM l)" and "unat i < MAX_PROCESSES" and "PM_Kill i l = (Sp, l')"
  shows "pm_inv (PM l') \<and> Sched l' = Sched l \<and> Sync l' = Sync l \<and> Executables l' = Executables l \<and>
     CurrentProcessId (PM l') = CurrentProcessId (PM l) \<and>
     Sp = StackPointer (proc l i) \<and>
     Machine l' = fold emit (map DeleteFile (List.map_filter (\<lambda>f. f) (FileTable (proc l i)))) (Machine l) \<and>
     (\<forall>j. j \<noteq> i \<longrightarrow> proc l' j = proc l j) \<and>
     Status (proc l' i) = PROCESS_TERMINATED \<and> Level (proc l' i) = PROCESS_LEVEL_KERNEL \<and>
     entry_idle (proc l' i)"
proof -
  obtain p where p: "PM_KillProcess (PM l) i =
       (StackPointer (Processes (PM l) ! unat i),
        List.map_filter (\<lambda>f. f) (FileTable (Processes (PM l) ! unat i)),
        (PM l)\<lparr>Processes := (Processes (PM l))[unat i := p]\<rparr>)"
    and st: "Status p = PROCESS_TERMINATED" "Level p = PROCESS_LEVEL_KERNEL" "entry_idle p" "entry_ok (unat i) p"
    using PM_KillProcess_spec [OF assms(1,2)] by blast
  have "j \<noteq> i \<Longrightarrow> unat i \<noteq> unat j" for j by (simp add: word_unat_eq_iff)
  with assms p st pm_inv_update [OF assms(1) st(4)] show ?thesis
    by (auto simp: PM_Kill_def proc_def on_machine_def pm_inv_def)
qed

lemma entry_ok_clear_exec:
  "entry_ok k p \<Longrightarrow> entry_ok k (p\<lparr>RunningExecutableDentry := None, RunningExecutableINode := None\<rparr>)"
  by (auto simp: entry_ok_def entry_shape_def entry_idle_def split: if_splits)

lemma entry_ok_clear_maps:
  "entry_ok k p \<Longrightarrow> entry_ok k (p\<lparr>MemoryMappings := map (\<lambda>mp. if InUse mp then EmptyMapping else mp) (MemoryMappings p)\<rparr>)"
  by (auto simp: entry_ok_def entry_shape_def entry_idle_def EmptyMapping_def)

lemma idle_clear_space: "entry_idle p \<Longrightarrow> p\<lparr>AddressSpace := None\<rparr> = p"
  by (simp add: entry_idle_def)

lemma proc_PM: "PM l = PM l' \<Longrightarrow> proc l j = proc l' j"
  by (simp add: proc_def)

lemma Release_proc:
  assumes "pm_inv (PM l)" and "unat i < MAX_PROCESSES"
  shows "proc (ReleaseRunningExecutable l i) j =
     (if j = i then (proc l i)\<lparr>RunningExecutableDentry := None, RunningExecutableINode := None\<rparr>
      else proc l j)"
  using assms by (subst proc_PM [OF Release_frame(1)]) (simp add: proc_write)

lemma Release_inv:
  "pm_inv (PM l) \<Longrightarrow> unat i < MAX_PROCESSES \<Longrightarrow> pm_inv (PM (ReleaseRunningExecutable l i))"
  by (simp add: pm_inv_write entry_ok_clear_exec pm_inv_entry)

lemma FreeAnonymous_inv:
  "pm_inv (PM l) \<Longrightarrow> unat i < MAX_PROCESSES \<Longrightarrow> pm_inv (PM (FreeAnonymousProcessMappings l i))"
  by (simp add: pm_inv_write entry_ok_clear_maps pm_inv_entry)

lemma FreeAnonymous_proc:
  assumes "pm_inv (PM l)" and "unat i < MAX_PROCESSES"
  shows "proc (FreeAnonymousProcessMappings l i) j =
     (if j = i then (proc l i)\<lparr>MemoryMappings :=
        map (\<lambda>mp. if InUse mp then EmptyMapping else mp) (MemoryMappings (proc l i))\<rparr>
      else proc l j)"
  using assms by (subst proc_PM [OF FreeAnonymous_frame(1)]) (simp add: proc_write)

text \<open>\<open>killed i l l'\<close>: slot \<open>i\<close> is terminated and owns nothing, all else is as it was.\<close>

definition killed :: "u8 \<Rightarrow> logic \<Rightarrow> logic \<Rightarrow> bool" where
  "killed i l l' \<longleftrightarrow>
     pm_inv (PM l') \<and> Sched l' = Sched l \<and> Sync l' = Sync l \<and>
     CurrentProcessId (PM l') = CurrentProcessId (PM l) \<and>
     (\<forall>j. j \<noteq> i \<longrightarrow> proc l' j = proc l j) \<and>
     Status (proc l' i) = PROCESS_TERMINATED \<and> entry_idle (proc l' i)"

lemma killed_on_machine [simp]: "killed i l (on_machine f l') = killed i l l'"
  by (simp add: killed_def)

lemma killed_PM_Kill:
  "pm_inv (PM l) \<Longrightarrow> unat i < MAX_PROCESSES \<Longrightarrow> killed i l (snd (PM_Kill i l))"
  using PM_Kill_spec [of l i "fst (PM_Kill i l)" "snd (PM_Kill i l)"] by (simp add: killed_def)

lemma killed_clear_space:
  assumes "killed i l l'" and "unat i < MAX_PROCESSES"
  shows "killed i l (write_proc i (\<lambda>q. q\<lparr>AddressSpace := None\<rparr>) l')"
  using assms by (auto simp: killed_def proc_write idle_clear_space intro!: pm_inv_write pm_inv_entry)

lemma killed_start:
  "killed i l1 l' \<Longrightarrow> Sched l1 = Sched l \<Longrightarrow> Sync l1 = Sync l \<Longrightarrow>
   CurrentProcessId (PM l1) = CurrentProcessId (PM l) \<Longrightarrow> (\<And>j. j \<noteq> i \<Longrightarrow> proc l1 j = proc l j) \<Longrightarrow>
   killed i l l'"
  by (simp add: killed_def)

lemma killed_user:
  assumes "pm_inv (PM l)" and "unat i < MAX_PROCESSES"
  shows "killed i l (snd (PM_Kill i (FreeAnonymousProcessMappings l i)))"
  by (rule killed_start [OF killed_PM_Kill [OF FreeAnonymous_inv [OF assms] assms(2)]])
    (simp_all add: FreeAnonymous_proc [OF assms])

text \<open>What is left of the target once it is killed, and what is left alone.\<close>

lemma KillTarget_spec:
  assumes inv: "pm_inv (PM l)" and i: "unat i < MAX_PROCESSES"
  shows "\<exists>l3. killed i (l\<lparr>PM := snd (GetRunningProcess (PM l))\<rparr>) l3 \<and>
     KillTarget l i = Unwait i (Unsleep i (Sched_Remove i l3))"
proof -
  obtain r pm1 where r: "GetRunningProcess (PM l) = (r, pm1)" by fastforce
  let ?l1 = "l\<lparr>PM := pm1\<rparr>"
  let ?l2 = "ReleaseRunningExecutable ?l1 i"
  have pm1: "pm_inv (PM ?l1)" using GetRunning_frame [OF inv r] by simp
  note rel = Release_inv [OF pm1 i]
  have start: "killed i ?l2 l' \<Longrightarrow> killed i ?l1 l'" for l'
    by (erule killed_start) (simp_all add: Release_proc [OF pm1 i])
  have user: "killed i ?l2 (snd (PM_Kill i (FreeAnonymousProcessMappings (on_machine f ?l2) i)))" for f
    by (rule killed_start [OF killed_user [OF _ i]]) (use rel in simp_all)
  have user': "killed i ?l2 (snd (PM_Kill i (FreeAnonymousProcessMappings ?l2 i)))"
    by (rule killed_user [OF rel i])
  have other: "killed i ?l2 (snd (PM_Kill i ?l2))" by (rule killed_PM_Kill [OF rel i])
  have t: "GetProcessById (PM l) i = Some (proc l i)" using i by (simp add: GetProcessById_proc)
  have clear: "killed i ?l2 l' \<Longrightarrow> killed i ?l2 (write_proc i (\<lambda>q. q\<lparr>AddressSpace := None\<rparr>) l')" for l'
    using i by (rule killed_clear_space [rotated])
  let ?stack = "case PM_Kill i ?l2 of (None, b) \<Rightarrow> b | (Some Stack, b) \<Rightarrow>
      (if Level (proc b i) = PROCESS_LEVEL_KERNEL then on_machine (emit (KFree Stack)) b else b)"
  have st: "killed i ?l2 ?stack"
    using other by (cases "PM_Kill i ?l2"; cases "fst (PM_Kill i ?l2)") auto
  have us: "killed i ?l2 (write_proc i (\<lambda>q. q\<lparr>AddressSpace := None\<rparr>)
      (on_machine g (on_machine h (snd (PM_Kill i (FreeAnonymousProcessMappings
        (if c then on_machine f ?l2 else ?l2) i))))))" for f g h c
    by (rule clear) (cases c, simp_all only: killed_on_machine if_True if_False user user')
  show ?thesis
    unfolding KillTarget_def Let_def r t prod.case option.case snd_conv
  proof (rule exI, rule conjI [rotated], rule refl, rule start, goal_cases)
    case 1
    define b where "b \<longleftrightarrow> Level (proc l i) = PROCESS_LEVEL_USER \<and> \<not> SharesVforkAddressSpace ?l1 (proc l i)"
    show ?case
      unfolding b_def [symmetric]
      by (cases b; cases "AddressSpace (proc l i)") (simp_all only: prod.case option.case bool.case st us)
  qed
qed

lemma killed_inv:
  assumes "ll_inv l" and "unat i < MAX_PROCESSES" and "killed i l l3"
  shows "ll_inv (Unwait i (Unsleep i (Sched_Remove i l3)))"
proof -
  have "status_of l3 = (status_of l)(i := PROCESS_TERMINATED)"
    using assms(3) by (auto simp: killed_def status_of_def fun_eq_iff)
  with assms queues_ok_terminate [of "status_of l" "CurrentProcessId (PM l)" "ReadyIds (Sched l)" "SleepQueue (Sync l)" i]
  show ?thesis by (simp add: ll_inv_def killed_def)
qed

lemma queues_ok_remove: "queues_ok st cur r s \<Longrightarrow> queues_ok st cur (remove1 i r) s"
  by (auto simp: queues_ok_def dest: notin_set_remove1)

lemma ll_inv_Sched_Remove: "ll_inv l \<Longrightarrow> ll_inv (Sched_Remove i l)"
  by (simp add: ll_inv_def queues_ok_remove)

lemma KillTarget_invalid:
  assumes "\<not> unat i < MAX_PROCESSES"
  shows "KillTarget l i = Unwait i (Unsleep i (Sched_Remove i (l\<lparr>PM := snd (GetRunningProcess (PM l))\<rparr>)))"
  using assms
  by (cases "GetRunningProcess (PM l)")
    (simp add: KillTarget_def GetProcessById_proc PM_Kill_def PM_KillProcess_def on_machine_def Let_def)

lemma KillTarget_inv [inv_intros]:
  assumes "ll_inv l"
  shows "ll_inv (KillTarget l i)"
proof -
  let ?l1 = "l\<lparr>PM := snd (GetRunningProcess (PM l))\<rparr>"
  have l1: "ll_inv ?l1" using GetRunning_inv [OF assms surjective_pairing] .
  have pm: "pm_inv (PM l)" using assms by (simp add: ll_inv_def)
  show ?thesis
  proof (cases "unat i < MAX_PROCESSES")
    case True
    from KillTarget_spec [OF pm True] obtain l3 where "killed i ?l1 l3"
      and "KillTarget l i = Unwait i (Unsleep i (Sched_Remove i l3))" by blast
    with killed_inv [OF l1 True] show ?thesis by simp
  next
    case False
    then show ?thesis by (simp add: KillTarget_invalid l1 ll_inv_Sched_Remove ll_inv_Unsleep ll_inv_Unwait)
  qed
qed

lemma entry_ok_frame [simp]:
  "entry_ok k (p\<lparr>HasPendingChildExit := a, PendingChildId := b, PendingChildStatus := c\<rparr>) = entry_ok k p"
  "entry_ok k (p\<lparr>WaitingForChild := d\<rparr>) = entry_ok k p"
  "entry_ok k (p\<lparr>PendingSignalMask := m\<rparr>) = entry_ok k p"
  "entry_ok k (p\<lparr>InterruptedBySignal := d\<rparr>) = entry_ok k p"
  "entry_ok k (p\<lparr>SavedSignalMask := m, BlockedSignalMask := m'\<rparr>) = entry_ok k p"
  "entry_ok k (p\<lparr>SavedSystemCallFrame := f\<rparr>) = entry_ok k p"
  "entry_ok k (p\<lparr>State := st\<rparr>) = entry_ok k p"
  "entry_ok k (p\<lparr>RealIntervalTimerRemainingTicks := m\<rparr>) = entry_ok k p"
  "entry_ok k (p\<lparr>SavedSignalRIP := m, SavedSignalRSP := m', SavedSignalWasSyscall := d,
     HasSavedSignalState := a, SavedSignalFrame := f\<rparr>) = entry_ok k p"
  by (simp_all add: entry_ok_def entry_shape_def entry_idle_def)

lemma ll_inv_entry: "ll_inv l \<Longrightarrow> unat i < MAX_PROCESSES \<Longrightarrow> entry_ok (unat i) (proc l i)"
  by (simp add: ll_inv_def pm_inv_entry)

lemma NotifyParent_inv [inv_intros]: "ll_inv l \<Longrightarrow> ll_inv (NotifyParent l par i e)"
  by (auto simp: NotifyParent_def Let_def GetProcessById_proc ll_inv_entry proc_write ll_inv_def [THEN iffD1]
      intro!: UnblockProcess_inv ll_inv_write)

lemma KillProcess_inv [inv_intros]: "ll_inv l \<Longrightarrow> ll_inv (KillProcess l i e)"
  by (simp add: KillProcess_def NotifyParent_inv KillTarget_inv)

lemma TerminateProcess_inv [inv_intros]: "ll_inv l \<Longrightarrow> ll_inv (TerminateProcess l i s c)"
  by (simp add: TerminateProcess_def Let_def KillProcess_inv)

section \<open>Signals keep the invariant\<close>

lemma DefaultDisposition_inv [inv_intros]:
  "ll_inv l \<Longrightarrow> unat i < MAX_PROCESSES \<Longrightarrow> ll_inv (DefaultDisposition l i s)"
  by (simp add: DefaultDisposition_def StopProcess_inv ContinueProcess_inv TerminateProcess_inv
      split: LinuxDefaultSignalAction.split)

lemma SetProcessSignalState_inv [inv_intros]:
  assumes "ll_inv l" and i: "unat i < MAX_PROCESSES"
  shows "ll_inv (snd (SetProcessSignalState l i s h r))"
proof -
  have wr: "ll_inv l \<Longrightarrow> ll_inv (write_proc i f l)"
    if "\<And>p. entry_ok (unat i) (f p) = entry_ok (unat i) p" "\<And>p. Status (f p) = Status p" for l f
    using that i by (intro ll_inv_write) (simp_all add: ll_inv_entry)
  show ?thesis
    using assms
    by (auto simp: SetProcessSignalState_def Let_def wr split: option.splits prod.splits)
qed

lemma InterruptBlocked_inv [inv_intros]:
  assumes "ll_inv l" and "unat i < MAX_PROCESSES"
  shows "ll_inv (InterruptBlocked l i)"
proof -
  let ?l1 = "write_proc i (\<lambda>p. p\<lparr>InterruptedBySignal := True\<rparr>) l"
  have "ll_inv ?l1" using assms by (intro ll_inv_write) (simp_all add: ll_inv_entry)
  moreover have "status_of ?l1 = status_of l"
    using assms by (intro status_of_write) (simp_all add: ll_inv_def)
  ultimately show ?thesis
    using assms wake_inv' [of ?l1 i] by (auto simp: InterruptBlocked_def status_of_def fun_eq_iff)
qed

lemma Pending_inv [inv_intros]:
  "ll_inv l \<Longrightarrow> unat i < MAX_PROCESSES \<Longrightarrow> ll_inv (ClearPending i s l)"
  "ll_inv l \<Longrightarrow> unat i < MAX_PROCESSES \<Longrightarrow> ll_inv (SetPending i s l)"
  unfolding ClearPending_def SetPending_def
  by (rule ll_inv_write, simp_all add: ll_inv_entry)+

lemma DeliverToHandler_inv [inv_intros]:
  assumes "ll_inv l" and i: "unat i < MAX_PROCESSES"
  shows "ll_inv (DeliverToHandler l i s act)"
proof -
  obtain ok l2 where l2: "SetProcessSignalState l i s (Handler act) (Restorer act) = (ok, l2)" by fastforce
  have inv2: "ll_inv l2" using SetProcessSignalState_inv [OF assms, of s "Handler act" "Restorer act"] l2 by simp
  then have "ll_inv (write_proc i (\<lambda>p. p\<lparr>SavedSignalMask := BlockedSignalMask p,
        BlockedSignalMask := (BlockedSignalMask p OR SignalMaskBit s OR Mask act)
          AND NOT LINUX_UNBLOCKABLE_SIGNAL_MASK\<rparr>) l2)"
    using i by (intro ll_inv_write) (simp_all add: ll_inv_entry)
  with assms l2 inv2 show ?thesis
    by (simp add: DeliverToHandler_def DefaultDisposition_inv Pending_inv TerminateProcess_inv InterruptBlocked_inv)
qed

lemma SignalProcess_inv [inv_intros]:
  assumes "ll_inv l"
  shows "ll_inv (snd (SignalProcess l i s))"
proof (cases "unat i < MAX_PROCESSES")
  case False
  with assms show ?thesis by (simp add: SignalProcess_def GetProcessById_proc)
next
  case True
  with assms show ?thesis
    by (cases "SignalActions (proc l i)")
      (simp_all split: bool.split add: SignalProcess_def GetProcessById_proc Let_def Pending_inv StopProcess_inv ContinueProcess_inv
        TerminateProcess_inv DefaultDisposition_inv DeliverToHandler_inv)
qed

section \<open>Switching keeps the invariant\<close>

lemma EnterProcess_machine: "ll_inv (l\<lparr>Machine := m\<rparr>) = ll_inv l"
  by simp

lemma GetCurrent_None_no_running:
  assumes "ll_inv l" and "GetCurrentProcess (PM l) = None" and "unat j < MAX_PROCESSES"
  shows "status_of l j \<noteq> PROCESS_RUNNING"
proof
  assume r: "status_of l j = PROCESS_RUNNING"
  with assms have "j = CurrentProcessId (PM l)" by (auto simp: ll_inv_def queues_ok_def)
  with assms r show False by (auto simp: GetCurrentProcess_def GetProcessById_proc status_of_def)
qed

lemma GetCurrent_Some:
  assumes "ll_inv l" and "GetCurrentProcess (PM l) = Some c"
  shows "CurrentProcessId (PM l) = PId c \<and> unat (PId c) < MAX_PROCESSES \<and> c = proc l (PId c) \<and>
     Status c \<noteq> PROCESS_TERMINATED"
proof -
  from assms(2) have v: "unat (CurrentProcessId (PM l)) < MAX_PROCESSES"
    and c: "c = proc l (CurrentProcessId (PM l))" "Status c \<noteq> PROCESS_TERMINATED"
    by (auto simp: GetCurrentProcess_def GetProcessById_proc split: if_splits option.splits)
  have "PId c = CurrentProcessId (PM l)"
    using entry_ok_id [OF ll_inv_entry [OF assms(1) v]] c(1) by simp
  with v c show ?thesis by simp
qed

text \<open>The statuses after a switch to \<open>i\<close>.\<close>

lemma run_inv:
  assumes inv: "ll_inv l" and i: "i \<in> set (ReadyIds (Sched l))"
    and pm: "pm_inv (PM l')" and same: "Sched l' = Sched l" "Sync l' = Sync l"
    and cur: "CurrentProcessId (PM l') = i"
    and st: "status_of l' i = PROCESS_RUNNING"
      "\<And>j. unat j < MAX_PROCESSES \<Longrightarrow> j \<noteq> i \<Longrightarrow> status_of l' j =
         (if status_of l j = PROCESS_RUNNING then PROCESS_READY else status_of l j)"
  shows "ll_inv l'"
proof -
  have "queues_ok (status_of l) (CurrentProcessId (PM l)) (ReadyIds (Sched l)) (SleepQueue (Sync l))"
    using inv by (simp add: ll_inv_def)
  from queues_ok_run [where st' = "status_of l'", OF this i st] show ?thesis
    using inv pm same cur by (simp add: ll_inv_def)
qed

lemma pm_inv_UpdateCurrent [simp]: "pm_inv (UpdateCurrentProcessId pm i) = pm_inv pm"
  by (simp add: UpdateCurrentProcessId_def)

lemma proc_UpdateCurrent [simp]: "proc (l\<lparr>PM := UpdateCurrentProcessId (PM l) i\<rparr>) = proc l"
  by (simp add: proc_def UpdateCurrentProcessId_def fun_eq_iff)

lemma status_UpdateCurrent [simp]: "status_of (l\<lparr>PM := UpdateCurrentProcessId (PM l) i\<rparr>) = status_of l"
  by (simp add: status_of_def fun_eq_iff)

lemma EnterProcess_keeps:
  "ll_inv l \<Longrightarrow> ll_inv (snd (case EnterProcess p (Machine l) of
     None \<Rightarrow> (r, l) | Some m \<Rightarrow> (r', l\<lparr>Machine := m\<rparr>)))"
  by (simp split: option.split)

lemma switch_status:
  "f j \<noteq> PROCESS_RUNNING \<or> j = c \<Longrightarrow>
   f' = (if b then f(c := PROCESS_READY) else f)(i := PROCESS_RUNNING) \<Longrightarrow>
   b = (f c = PROCESS_RUNNING) \<Longrightarrow> j \<noteq> i \<Longrightarrow>
   f' j = (if f j = PROCESS_RUNNING then PROCESS_READY else f j)"
  by (cases "j = c"; cases b) simp_all

lemma RunProcess_inv:
  assumes inv: "ll_inv l" and i: "i \<in> set (ReadyIds (Sched l))"
  shows "ll_inv (snd (RunProcess l i saved))"
proof -
  have pm: "pm_inv (PM l)" using inv by (simp add: ll_inv_def)
  have vi: "unat i < MAX_PROCESSES" and si: "status_of l i = PROCESS_READY \<or> status_of l i = PROCESS_RUNNING"
    using inv i by (auto simp: ll_inv_def queues_ok_def)
  then have live: "status_of l i \<noteq> PROCESS_TERMINATED" by auto
  have id: "PId (proc l i) = i" using entry_ok_id [OF ll_inv_entry [OF inv vi]] by simp
  have g: "GetProcessById (PM l) i = Some (proc l i)" using vi by (simp add: GetProcessById_proc)
  show ?thesis
  proof (cases "GetCurrentProcess (PM l)")
    case None
    let ?l1 = "set_status i PROCESS_RUNNING l"
    let ?l2 = "?l1\<lparr>PM := UpdateCurrentProcessId (PM ?l1) i\<rparr>"
    have pm1: "pm_inv (PM ?l1)" using pm vi live by (simp add: pm_inv_set_status)
    have "ll_inv ?l2"
      by (rule run_inv [OF inv i])
        (use pm pm1 vi GetCurrent_None_no_running [OF inv None] in
          \<open>simp_all add: status_of_set_status\<close>, simp_all add: UpdateCurrentProcessId_def)
    then show ?thesis
      using g None live id by (simp add: RunProcess_def status_of_def Let_def split: option.split)
  next
    case (Some c)
    from GetCurrent_Some [OF inv Some] have c: "CurrentProcessId (PM l) = PId c"
      "unat (PId c) < MAX_PROCESSES" "c = proc l (PId c)" "status_of l (PId c) \<noteq> PROCESS_TERMINATED"
      by (auto simp: status_of_def)
    have only: "status_of l j = PROCESS_RUNNING \<Longrightarrow> unat j < MAX_PROCESSES \<Longrightarrow> j = PId c" for j
      using inv c(1) by (auto simp: ll_inv_def queues_ok_def)
    let ?l1 = "if Status c = PROCESS_RUNNING then set_status (PId c) PROCESS_READY l else l"
    let ?l2 = "set_status i PROCESS_RUNNING ?l1"
    let ?l3 = "?l2\<lparr>PM := UpdateCurrentProcessId (PM ?l2) i\<rparr>"
    have sc: "Status c = status_of l (PId c)" using c(3) by (simp add: status_of_def)
    have pm1: "pm_inv (PM ?l1)" using pm c by (simp add: pm_inv_set_status)
    have st1: "status_of ?l1 = (if Status c = PROCESS_RUNNING then (status_of l)(PId c := PROCESS_READY) else status_of l)"
      using pm c by (simp add: status_of_set_status)
    have pm2: "pm_inv (PM ?l2)"
      using pm_inv_set_status [OF pm1 vi] st1 live by (simp split: if_splits)
    have st2: "status_of ?l2 = (status_of ?l1)(i := PROCESS_RUNNING)"
      by (rule status_of_set_status [OF pm1 vi])
    show ?thesis
    proof (cases "PId c = i")
      case True
      with g Some live inv show ?thesis by (simp add: RunProcess_def status_of_def)
    next
      case ne: False
      have l3: "ll_inv ?l3"
      proof (rule run_inv [OF inv i])
        show "pm_inv (PM ?l3)" using pm2 by simp
        show "status_of ?l3 i = PROCESS_RUNNING" unfolding status_UpdateCurrent st2 by simp
        show "status_of ?l3 j = (if status_of l j = PROCESS_RUNNING then PROCESS_READY else status_of l j)"
          if "unat j < MAX_PROCESSES" "j \<noteq> i" for j
        proof -
          have "status_of l j \<noteq> PROCESS_RUNNING \<or> j = PId c" using only that(1) by blast
          moreover have "status_of ?l3 = (if Status c = PROCESS_RUNNING
              then (status_of l)(PId c := PROCESS_READY) else status_of l)(i := PROCESS_RUNNING)"
            unfolding status_UpdateCurrent st2 st1 by (rule refl)
          moreover have "(Status c = PROCESS_RUNNING) = (status_of l (PId c) = PROCESS_RUNNING)"
            by (simp only: sc)
          ultimately show ?thesis using that(2) by (intro switch_status)
        qed
      qed (simp_all add: UpdateCurrentProcessId_def)
      have "ll_inv (write_proc (PId c) (\<lambda>q. q\<lparr>State := saved\<rparr>) (L\<lparr>Machine := m\<rparr>))" if "ll_inv L" for L m
        using c(2) that by (intro ll_inv_write) (simp_all add: ll_inv_entry)
      from this [OF l3]
      have "ll_inv (write_proc (PId c) (\<lambda>q. q\<lparr>State := saved\<rparr>) (?l3\<lparr>Machine := m\<rparr>))" for m .
      with l3 g Some live ne id show ?thesis
        by (cases "Status c = PROCESS_RUNNING")
          (simp_all add: RunProcess_def status_of_def Let_def split: option.split)
    qed
  qed
qed

lemma Schedule_inv [inv_intros]:
  assumes "ll_inv l"
  shows "ll_inv (snd (Schedule l saved))"
proof -
  obtain i r where r: "ready_select (Sched l) = (i, r)" by fastforce
  have set: "set (ReadyIds r) = set (ReadyIds (Sched l))" "distinct (ReadyIds r)"
    using rq.set_ids_select [of "Sched l"] rq.distinct_ids_select [of "Sched l"] assms r
    by (auto simp: ll_inv_def queues_ok_def)
  then have inv: "ll_inv (l\<lparr>Sched := r\<rparr>)"
    using assms by (simp add: ll_inv_def queues_ok_def)
  show ?thesis
  proof (cases "i = PROCESS_ID_INVALID")
    case True
    with r inv show ?thesis by (simp add: Schedule_def)
  next
    case False
    then have "ReadyIds (Sched l) \<noteq> []" using r by (auto simp: ready_select_def)
    then have "i \<in> set (ReadyIds r)" using rq.select_ready [of "Sched l"] r set(1) by simp
    with RunProcess_inv [OF inv, of i saved] r False show ?thesis by (simp add: Schedule_def)
  qed
qed

lemma running_not_queued_asleep:
  "ll_inv l \<Longrightarrow> status_of l i \<noteq> PROCESS_BLOCKED \<Longrightarrow> i \<notin> SleepId ` set (SleepQueue (Sync l))"
  by (auto simp: ll_inv_def queues_ok_def)

lemma entry_ok_EnterKernelContext [simp]: "entry_ok k (EnterKernelContext p) = entry_ok k p"
  by (simp add: EnterKernelContext_def)

lemma Status_EnterKernelContext [simp]: "Status (EnterKernelContext p) = Status p"
  by (simp add: EnterKernelContext_def)

lemma block_running:
  assumes inv: "ll_inv l" and i: "unat i < MAX_PROCESSES" and run: "Status (proc l i) = PROCESS_RUNNING"
  defines "l1 \<equiv> set_status i PROCESS_BLOCKED (write_proc i EnterKernelContext l)"
  shows "ll_inv (Sched_Remove i l1)" and "status_of l1 i = PROCESS_BLOCKED"
    and "i \<notin> SleepId ` set (SleepQueue (Sync l1))"
proof -
  let ?l0 = "write_proc i EnterKernelContext l"
  have l0: "ll_inv ?l0" using inv i by (intro ll_inv_write) (simp_all add: ll_inv_entry)
  have s0: "status_of ?l0 i = PROCESS_RUNNING"
    using status_of_write [of l i EnterKernelContext] inv i run by (simp add: ll_inv_def status_of_def)
  show "ll_inv (Sched_Remove i l1)" unfolding l1_def using l0 i s0 by (intro block_inv) simp_all
  show "status_of l1 i = PROCESS_BLOCKED"
    unfolding l1_def using l0 i by (simp add: ll_inv_def status_of_set_status)
  show "i \<notin> SleepId ` set (SleepQueue (Sync l1))"
    using running_not_queued_asleep [OF l0, of i] s0 by (simp add: l1_def)
qed

lemma BlockProcess_inv [inv_intros]: "ll_inv l \<Longrightarrow> ll_inv (snd (BlockProcess l i saved))"
  using block_running(1) [of l i]
  by (auto simp: BlockProcess_def GetProcessById_proc Let_def intro!: Schedule_inv)

lemma Sync_Sched_Remove:
  "(Sched_Remove i (l\<lparr>Sync := sy\<rparr>)) = (Sched_Remove i l)\<lparr>Sync := sy\<rparr>"
  by (simp add: Sched_Remove_def)

lemma SleepProcess_inv [inv_intros]:
  assumes inv: "ll_inv l"
  shows "ll_inv (snd (SleepProcess l i n saved))"
proof (cases "unat i < MAX_PROCESSES \<and> Status (proc l i) = PROCESS_RUNNING")
  case False
  with inv show ?thesis by (auto simp: SleepProcess_def GetProcessById_proc)
next
  case True
  let ?l1 = "set_status i PROCESS_BLOCKED (write_proc i EnterKernelContext l)"
  let ?l2 = "Sched_Remove i ?l1"
  note b = block_running [OF inv, of i]
  have l2: "ll_inv ?l2" "status_of ?l2 i = PROCESS_BLOCKED" "i \<notin> SleepId ` set (SleepQueue (Sync ?l2))"
    using b True by simp_all
  then have "ll_inv (?l2\<lparr>Sync := AddToSleepQueue (Sync ?l2) i n True\<rparr>)"
    using True by (simp add: ll_inv_def queues_ok_sleep sync_inv_sleep) (simp add: AddToSleepQueue_def queues_ok_sleep)
  with True show ?thesis
    by (auto simp: SleepProcess_def GetProcessById_proc Let_def Sync_Sched_Remove intro!: Schedule_inv)
qed

lemma BlockTTY_inv [inv_intros]:
  assumes inv: "ll_inv l"
  shows "ll_inv (snd (BlockProcessForTTYInput l i saved))"
proof (cases "unat i < MAX_PROCESSES \<and> Status (proc l i) = PROCESS_RUNNING")
  case False
  with inv show ?thesis by (auto simp: BlockProcessForTTYInput_def GetProcessById_proc)
next
  case True
  let ?l1 = "set_status i PROCESS_BLOCKED (write_proc i EnterKernelContext l)"
  let ?l2 = "Sched_Remove i ?l1"
  have l2: "ll_inv ?l2" using block_running(1) [OF inv, of i] True by simp
  have "SleepQueue (AddToTTYInputWaitQueue (Sync ?l2) i True) = SleepQueue (Sync ?l2)"
    by (simp add: AddToTTYInputWaitQueue_def)
  with l2 have "ll_inv (?l2\<lparr>Sync := AddToTTYInputWaitQueue (Sync ?l2) i True\<rparr>)"
    by (simp add: ll_inv_def sync_inv_tty)
  with True show ?thesis
    by (auto simp: BlockProcessForTTYInput_def GetProcessById_proc Let_def Sync_Sched_Remove intro!: Schedule_inv)
qed

lemma Capture_inv [inv_intros]:
  assumes "ll_inv l"
  shows "ll_inv (CaptureCurrentInterruptState l Regs)"
proof -
  obtain r pm1 where r: "GetRunningProcess (PM l) = (r, pm1)" by fastforce
  have inv: "ll_inv (l\<lparr>PM := pm1\<rparr>)" by (rule GetRunning_inv [OF assms r])
  have "ll_inv (write_proc (PId p) (\<lambda>q. q\<lparr>State := s\<rparr>) (l\<lparr>PM := pm1\<rparr>))" if "r = Some p" for p s
  proof -
    have "unat (PId p) < MAX_PROCESSES"
      using GetRunningProcess_spec [OF _ r] assms that
      by (auto simp: ll_inv_def GetProcessById_def split: if_splits)
    with inv show ?thesis by (intro ll_inv_write) (simp_all add: ll_inv_entry)
  qed
  with assms r inv show ?thesis
    by (auto simp: CaptureCurrentInterruptState_def Let_def split: option.splits)
qed

lemma TickTimer_inv [inv_intros]:
  assumes inv: "ll_inv l"
  shows "ll_inv (TickTimer l k)"
proof (cases "unat (of_nat k :: u8) < MAX_PROCESSES")
  case False
  with inv show ?thesis by (simp add: TickTimer_def GetProcessById_proc)
next
  case True
  let ?i = "of_nat k :: u8"
  have wr: "ll_inv l \<Longrightarrow> ll_inv (write_proc ?i (\<lambda>q. q\<lparr>RealIntervalTimerRemainingTicks := v q\<rparr>) l)" for v l
    using True by (intro ll_inv_write) (simp_all add: ll_inv_entry)
  have tick: "ll_inv (write_proc ?i (\<lambda>q. q\<lparr>RealIntervalTimerRemainingTicks := v\<rparr>) l)" for v
    by (rule wr [OF inv])
  have "ll_inv (snd (SignalProcess (write_proc ?i (\<lambda>q. q\<lparr>RealIntervalTimerRemainingTicks := v\<rparr>) l) j s))" for v j s
    by (rule SignalProcess_inv [OF tick])
  with wr tick inv show ?thesis
    by (simp add: TickTimer_def GetProcessById_proc Let_def)
qed

lemma Tick_inv [inv_intros]:
  assumes "ll_inv l"
  shows "ll_inv (Tick l)"
proof -
  have "ll_inv (foldl TickTimer l ks)" for ks
    using assms by (induction ks arbitrary: l) (simp_all add: TickTimer_inv)
  then have l1: "ll_inv (foldl TickTimer l [0..<GetMaxProcesses])" .
  have "ll_inv l \<Longrightarrow> ll_inv (l\<lparr>Sync := Sync_Tick (Sync l)\<rparr>)" for l
  proof -
    assume inv: "ll_inv l"
    have id: "SleepId (TickTag t) = SleepId t" for t
      by (simp add: TickTag_def)
    have "queues_ok st c r s \<Longrightarrow> queues_ok st c r (map TickTag s)" for st c r s
      by (auto simp: queues_ok_def id comp_def)
    with inv show ?thesis by (simp add: ll_inv_def sync_inv_sleep) (simp add: Sync_Tick_def)
  qed
  from this [OF l1] show ?thesis by (simp add: Tick_def Let_def WakeProcess_inv)
qed

section \<open>Kernel processes\<close>

definition INITIAL_PROCESS_RFLAGS :: u64 where "INITIAL_PROCESS_RFLAGS = 0x202"
definition KERNEL_PROCESS_STACK_SIZE :: u64 where "KERNEL_PROCESS_STACK_SIZE = 4096"

text \<open>\<open>ProcessStack\<close> is what \<open>kmalloc\<close> returned, \<open>Stacks\<close> as in \<open>KernelStackOf\<close>.\<close>

definition LL_CreateKernelProcess :: "logic \<Rightarrow> u64 \<Rightarrow> ptr \<Rightarrow> u64 \<Rightarrow> u8 \<times> logic" where
  "LL_CreateKernelProcess l Stacks ProcessStack EntryPoint =
     (case ProcessStack of
        None \<Rightarrow> (PROCESS_ID_INVALID, l)
      | Some a \<Rightarrow>
          (let StackTop = of_nat a + KERNEL_PROCESS_STACK_SIZE;
               sp = (StackTop AND NOT 0xF) - 8;
               st = EmptyState\<lparr>rip := EntryPoint, rflags := INITIAL_PROCESS_RFLAGS, rbp := 0,
                      rsp := sp, cs_sel := KERNEL_CS, ss_sel := KERNEL_SS\<rparr>;
               l1 = on_machine (emit (StoreKernel sp 0)) l
           in case CreateKernelProcess (PM l1) Stacks (Some a) st of
                (Id1, pm1) \<Rightarrow>
                  (let l2 = l1\<lparr>PM := pm1\<rparr>
                   in if Id1 \<noteq> PROCESS_ID_INVALID then (Id1, Sched_Add Id1 l2)
                      else (Id1, on_machine (emit (KFree a)) l2))))"

text \<open>The null process dereferences what \<open>GetProcessById\<close> returned: \<open>None\<close> is that fault.\<close>

definition CreateNullProcess :: "logic \<Rightarrow> u64 \<Rightarrow> ptr \<Rightarrow> u64 \<Rightarrow> (u8 \<times> logic) option" where
  "CreateNullProcess l Stacks ProcessStack NullProcessEntry =
     (case LL_CreateKernelProcess l Stacks ProcessStack NullProcessEntry of
        (i, l1) \<Rightarrow>
          (case GetProcessById (PM l1) i of
             None \<Rightarrow> None
           | Some _ \<Rightarrow> Some (i, set_status i PROCESS_RUNNING l1)))"



text \<open>A fresh process: its slot was terminated, so it is in no queue.\<close>

lemma spawn_inv:
  assumes inv: "ll_inv l" and k: "k < MAX_PROCESSES" "Status (Processes (PM l) ! k) = PROCESS_TERMINATED"
    and p: "entry_ok k p" "Status p = PROCESS_READY"
  shows "ll_inv (Sched_Add (of_nat k) (l\<lparr>PM := (PM l)\<lparr>Processes := (Processes (PM l))[k := p]\<rparr>\<rparr>))"
    (is "ll_inv (Sched_Add ?i ?l1)")
proof -
  have u: "unat ?i = k" using k(1) by (simp add: unat_of_nat MAX_PROCESSES_def)
  have l1: "?l1 = write_proc ?i (\<lambda>_. p) l" by (simp add: write_proc_def SetProcess_def u)
  have pm: "pm_inv (PM l)" using inv by (simp add: ll_inv_def)
  have vi: "unat ?i < MAX_PROCESSES" using u k by simp
  have st: "status_of l ?i = PROCESS_TERMINATED" using k u by (simp add: status_of_def proc_def)
  have "status_of (write_proc ?i (\<lambda>_. p) l) = (status_of l)(?i := PROCESS_READY)"
    using pm vi p(2) by (auto simp: status_of_def proc_write fun_eq_iff)
  moreover have "pm_inv (PM (write_proc ?i (\<lambda>_. p) l))"
    using pm vi p(1) u by (intro pm_inv_write) simp_all
  moreover have "?i \<notin> set (ReadyIds (Sched l))" "?i \<notin> SleepId ` set (SleepQueue (Sync l))"
    using inv st by (auto simp: ll_inv_def queues_ok_def)
  ultimately show ?thesis
    using inv vi queues_ok_enqueue [of "status_of l" "CurrentProcessId (PM l)" "ReadyIds (Sched l)" "SleepQueue (Sync l)" ?i]
    unfolding l1 by (simp add: ll_inv_def)
qed

lemma of_nat_not_invalid: "k < MAX_PROCESSES \<Longrightarrow> (of_nat k :: u8) \<noteq> PROCESS_ID_INVALID"
proof -
  assume k: "k < MAX_PROCESSES"
  then have "unat (of_nat k :: u8) = k" by (simp add: unat_of_nat MAX_PROCESSES_def)
  moreover have "unat PROCESS_ID_INVALID = 255" by (simp add: PROCESS_ID_INVALID_def)
  ultimately show ?thesis using k by (auto simp: MAX_PROCESSES_def)
qed

lemma LL_CreateKernelProcess_inv [inv_intros]:
  assumes "ll_inv l"
  shows "ll_inv (snd (LL_CreateKernelProcess l Stacks ProcessStack EntryPoint))"
proof (cases ProcessStack)
  case None
  with assms show ?thesis by (simp add: LL_CreateKernelProcess_def)
next
  case (Some a)
  define sp where "sp = (of_nat a + KERNEL_PROCESS_STACK_SIZE AND NOT 0xF) - 8"
  define st where "st = EmptyState\<lparr>rip := EntryPoint, rflags := INITIAL_PROCESS_RFLAGS, rbp := 0,
      rsp := sp, cs_sel := KERNEL_CS, ss_sel := KERNEL_SS\<rparr>"
  let ?l1 = "on_machine (emit (StoreKernel sp 0)) l"
  have pm: "pm_inv (PM l)" using assms by (simp add: ll_inv_def)
  have def1: "LL_CreateKernelProcess l Stacks ProcessStack EntryPoint =
     (case CreateKernelProcess (PM l) Stacks (Some a) st of
        (i, pm1) \<Rightarrow> if i \<noteq> PROCESS_ID_INVALID then (i, Sched_Add i (?l1\<lparr>PM := pm1\<rparr>))
                   else (i, on_machine (emit (KFree a)) (?l1\<lparr>PM := pm1\<rparr>)))"
    using Some unfolding LL_CreateKernelProcess_def Let_def st_def sp_def by simp
  show ?thesis
  proof (cases "\<exists>k<MAX_PROCESSES. Status (Processes (PM l) ! k) = PROCESS_TERMINATED")
    case True
    from CreateKernelProcess_slot [OF pm True, of Stacks "Some a" st]
    obtain k p where k: "k < MAX_PROCESSES" "Status (Processes (PM l) ! k) = PROCESS_TERMINATED"
      and c: "CreateKernelProcess (PM l) Stacks (Some a) st = (of_nat k, (PM l)\<lparr>Processes := (Processes (PM l))[k := p]\<rparr>)"
      and p: "entry_ok k p" "Status p = PROCESS_READY" by blast
    have "ll_inv ?l1" using assms by simp
    from spawn_inv [OF this k(1) _ p] k(2) show ?thesis
      unfolding def1 c using of_nat_not_invalid [OF k(1)] by simp
  next
    case False
    then have "CreateKernelProcess (PM l) Stacks (Some a) st = (PROCESS_ID_INVALID, PM l)"
      by (intro Create_full(1)) auto
    with assms show ?thesis unfolding def1 by (simp add: on_machine_def)
  qed
qed

lemma LogicLayer_PM_id: "l\<lparr>PM := PM l\<rparr> = l"
  by simp

section \<open>Reachable states\<close>

text \<open>
  Every entry point of this theory as a step, in any order and with any arguments;
  \<open>Resume\<close> is a process continuing after the switch that suspended it.
\<close>

inductive ll_step :: "logic \<Rightarrow> logic \<Rightarrow> bool" where
  Create: "ll_step l (snd (LL_CreateKernelProcess l Stacks Stack Entry))"
| CreateUser: "\<lbrakk>CreateUserProcess (PM l) Stacks HeapStart Sp st Vas Ft = (i, pm1); i \<noteq> PROCESS_ID_INVALID\<rbrakk>
    \<Longrightarrow> ll_step l (Sched_Add i (l\<lparr>PM := pm1\<rparr>))"
| Kill: "ll_step l (KillProcess l i e)"
| Signal: "ll_step l (snd (SignalProcess l i s))"
| Wake: "ll_step l (WakeProcess l i)"
| Unblock: "ll_step l (UnblockProcess l i)"
| NotifyTTY: "ll_step l (NotifyTTYInputAvailable l)"
| Sleep: "ll_step l (snd (SleepProcess l i n saved))"
| BlockTTY: "ll_step l (snd (BlockProcessForTTYInput l i saved))"
| Block: "ll_step l (snd (BlockProcess l i saved))"
| Reschedule: "ll_step l (snd (Schedule l saved))"
| Capture: "ll_step l (CaptureCurrentInterruptState l Regs)"
| Timer: "ll_step l (Tick l)"
| Resume: "\<lbrakk>unat cur < MAX_PROCESSES; Status (proc l cur) = PROCESS_RUNNING; unat i < MAX_PROCESSES; i \<noteq> cur\<rbrakk>
    \<Longrightarrow> ll_step l (RunProcess_resume l cur i)"


inductive_cases ll_stepE: "ll_step l l'"






section \<open>What killing a process does\<close>

lemma Unblock_others:
  assumes "pm_inv (PM l)"
  shows "j \<noteq> i \<Longrightarrow> proc (UnblockProcess l i) j = proc l j"
    and "set (ReadyIds (Sched (UnblockProcess l i))) \<subseteq> insert i (set (ReadyIds (Sched l)))"
    and "set (SleepQueue (Sync (UnblockProcess l i))) \<subseteq> set (SleepQueue (Sync l))"
    and "TTYInputWaitQueue (Sync (UnblockProcess l i)) = TTYInputWaitQueue (Sync l)"
  using assms
  by (auto simp: UnblockProcess_def GetProcessById_proc set_status_def proc_write
      dest: in_set_remove_firstD)

lemma Unblock_entry:
  assumes "pm_inv (PM l)" and "unat i < MAX_PROCESSES"
  shows "proc (UnblockProcess l i) i =
     (if Status (proc l i) = PROCESS_BLOCKED then (proc l i)\<lparr>Status := PROCESS_READY\<rparr> else proc l i)"
  using assms by (simp add: UnblockProcess_def GetProcessById_proc set_status_def proc_write)

text \<open>What the parent's entry becomes.\<close>

definition child_exited :: "u8 \<Rightarrow> u32 \<Rightarrow> process \<Rightarrow> process" where
  "child_exited i e q =
     (let q1 = q\<lparr>HasPendingChildExit := True, PendingChildId := i, PendingChildStatus := e\<rparr>
      in if \<not> WaitingForChild q then q1
         else if Status q = PROCESS_BLOCKED
              then q1\<lparr>WaitingForChild := False, Status := PROCESS_READY\<rparr>
              else q1\<lparr>WaitingForChild := False\<rparr>)"

lemma NotifyParent_spec:
  assumes inv: "ll_inv l" and live: "unat par < MAX_PROCESSES" "Status (proc l par) \<noteq> PROCESS_TERMINATED"
  shows "proc (NotifyParent l par i e) par = child_exited i e (proc l par)"
    and "j \<noteq> par \<Longrightarrow> proc (NotifyParent l par i e) j = proc l j"
    and "set (ReadyIds (Sched (NotifyParent l par i e))) \<subseteq> insert par (set (ReadyIds (Sched l)))"
    and "set (SleepQueue (Sync (NotifyParent l par i e))) \<subseteq> set (SleepQueue (Sync l))"
    and "TTYInputWaitQueue (Sync (NotifyParent l par i e)) = TTYInputWaitQueue (Sync l)"
proof -
  define l1 where "l1 = write_proc par (\<lambda>q. q\<lparr>HasPendingChildExit := True,
                         PendingChildId := i, PendingChildStatus := e\<rparr>) l"
  define l2 where "l2 = write_proc par (\<lambda>q. q\<lparr>WaitingForChild := False\<rparr>) l1"
  have pm: "pm_inv (PM l)" using inv by (simp add: ll_inv_def)
  have i1: "ll_inv l1" unfolding l1_def using inv live(1) by (intro ll_inv_write) (simp_all add: ll_inv_entry)
  have i2: "ll_inv l2" unfolding l2_def using i1 live(1) by (intro ll_inv_write) (simp_all add: ll_inv_entry)
  have pm1: "pm_inv (PM l1)" and pm2: "pm_inv (PM l2)" using i1 i2 by (simp_all add: ll_inv_def)
  have id: "PId (proc l par) = par" using entry_ok_id [OF ll_inv_entry [OF inv live(1)]] by simp
  have n: "NotifyParent l par i e = (if \<not> WaitingForChild (proc l par) then l1 else UnblockProcess l2 par)"
    using live id by (simp add: NotifyParent_def GetProcessById_proc l1_def l2_def Let_def)
  have p1: "proc l1 j = (if j = par then (proc l par)\<lparr>HasPendingChildExit := True, PendingChildId := i,
      PendingChildStatus := e\<rparr> else proc l j)" for j
    unfolding l1_def by (rule proc_write [OF pm live(1)])
  have p2: "proc l2 j = (if j = par then (proc l1 par)\<lparr>WaitingForChild := False\<rparr> else proc l1 j)" for j
    unfolding l2_def by (rule proc_write [OF pm1 live(1)])
  have q: "Sched l1 = Sched l" "Sync l1 = Sync l" "Sched l2 = Sched l" "Sync l2 = Sync l"
    by (simp_all add: l1_def l2_def)
  show "proc (NotifyParent l par i e) par = child_exited i e (proc l par)"
    by (simp add: n p1 p2 Unblock_entry [OF pm2 live(1)] child_exited_def)
  show "j \<noteq> par \<Longrightarrow> proc (NotifyParent l par i e) j = proc l j"
    by (simp add: n p1 p2 Unblock_others(1) [OF pm2])
  show "set (ReadyIds (Sched (NotifyParent l par i e))) \<subseteq> insert par (set (ReadyIds (Sched l)))"
    using Unblock_others(2) [OF pm2, of par] by (auto simp: n q)
  show "set (SleepQueue (Sync (NotifyParent l par i e))) \<subseteq> set (SleepQueue (Sync l))"
    using Unblock_others(3) [OF pm2, of par] by (auto simp: n q)
  show "TTYInputWaitQueue (Sync (NotifyParent l par i e)) = TTYInputWaitQueue (Sync l)"
    using Unblock_others(4) [OF pm2, of par] by (auto simp: n q)
qed

lemma NotifyParent_dead:
  "\<not> (unat par < MAX_PROCESSES \<and> Status (proc l par) \<noteq> PROCESS_TERMINATED) \<Longrightarrow> NotifyParent l par i e = l"
  by (auto simp: NotifyParent_def GetProcessById_proc)

lemma KillTarget_post:
  assumes inv: "ll_inv l" and i: "unat i < MAX_PROCESSES"
  defines "k \<equiv> KillTarget l i"
  shows "ll_inv k" and "Status (proc k i) = PROCESS_TERMINATED" and "entry_idle (proc k i)"
    and "i \<notin> set (ReadyIds (Sched k))" and "i \<notin> SleepId ` set (SleepQueue (Sync k))"
    and "i \<notin> set (TTYInputWaitQueue (Sync k))" and "\<And>j. j \<noteq> i \<Longrightarrow> proc k j = proc l j"
    and "EventQueueStore (Sync k) = EventQueueStore (Sync l)"
    and "FutexWaitQueue (Sync k) = FutexWaitQueue (Sync l)"
proof -
  let ?l1 = "l\<lparr>PM := snd (GetRunningProcess (PM l))\<rparr>"
  have pm: "pm_inv (PM l)" and sy: "sync_inv (Sync l)" and q: "queues_ok (status_of l) (CurrentProcessId (PM l))
      (ReadyIds (Sched l)) (SleepQueue (Sync l))" using inv by (simp_all add: ll_inv_def)
  have p1: "proc ?l1 = proc l"
    using GetRunning_frame [OF pm surjective_pairing] by (simp add: proc_def fun_eq_iff)
  from KillTarget_spec [OF pm i] obtain l3 where l3: "killed i ?l1 l3"
    and k: "k = Unwait i (Unsleep i (Sched_Remove i l3))" unfolding k_def by blast
  show "ll_inv k" unfolding k_def by (rule KillTarget_inv [OF inv])
  show "Status (proc k i) = PROCESS_TERMINATED" "entry_idle (proc k i)" "\<And>j. j \<noteq> i \<Longrightarrow> proc k j = proc l j"
    using l3 p1 by (simp_all add: k killed_def)
  show "i \<notin> set (ReadyIds (Sched k))" using l3 q by (simp add: k killed_def queues_ok_def)
  have "distinct (map SleepId (SleepQueue (Sync l)))" using q by (simp add: queues_ok_def)
  with l3 show "i \<notin> SleepId ` set (SleepQueue (Sync k))" by (simp add: k killed_def key_notin_remove_first)
  have "distinct (TTYInputWaitQueue (Sync l))" using sy by (simp add: sync_inv_def)
  with l3 show "i \<notin> set (TTYInputWaitQueue (Sync k))" by (simp add: k killed_def)
  show "EventQueueStore (Sync k) = EventQueueStore (Sync l)" "FutexWaitQueue (Sync k) = FutexWaitQueue (Sync l)"
    using l3 by (simp_all add: k killed_def Unwait_def Unsleep_def RemoveFromTTYInputWaitQueue_def
        RemoveFromSleepQueue_def)
qed

lemma KillProcess_post:
  assumes inv: "ll_inv l" and i: "unat i < MAX_PROCESSES"
  shows "Status (proc (KillProcess l i e) i) = PROCESS_TERMINATED"
    and "entry_idle (proc (KillProcess l i e) i)"
    and "i \<notin> set (ReadyIds (Sched (KillProcess l i e)))"
    and "i \<notin> SleepId ` set (SleepQueue (Sync (KillProcess l i e)))"
    and "i \<notin> set (TTYInputWaitQueue (Sync (KillProcess l i e)))"
    and "j \<noteq> i \<Longrightarrow> j \<noteq> ParrentId (proc l i) \<Longrightarrow> proc (KillProcess l i e) j = proc l j"
    and "ParrentId (proc l i) \<noteq> i \<Longrightarrow> unat (ParrentId (proc l i)) < MAX_PROCESSES \<Longrightarrow>
         Status (proc l (ParrentId (proc l i))) \<noteq> PROCESS_TERMINATED \<Longrightarrow>
         proc (KillProcess l i e) (ParrentId (proc l i)) = child_exited i e (proc l (ParrentId (proc l i)))"
proof -
  let ?par = "ParrentId (proc l i)" and ?k = "KillTarget l i"
  note k = KillTarget_post [OF inv i]
  have kp: "KillProcess l i e = NotifyParent ?k ?par i e"
    using i by (simp add: KillProcess_def GetProcessById_proc)
  consider (dead) "NotifyParent ?k ?par i e = ?k"
      "\<not> (unat ?par < MAX_PROCESSES \<and> Status (proc ?k ?par) \<noteq> PROCESS_TERMINATED)"
    | (live) "unat ?par < MAX_PROCESSES" "Status (proc ?k ?par) \<noteq> PROCESS_TERMINATED" "?par \<noteq> i"
    using NotifyParent_dead [where par = ?par and l = ?k and i = i and e = e] k(2) by metis
  then have "Status (proc (KillProcess l i e) i) = PROCESS_TERMINATED \<and> entry_idle (proc (KillProcess l i e) i) \<and>
      i \<notin> set (ReadyIds (Sched (KillProcess l i e))) \<and>
      i \<notin> SleepId ` set (SleepQueue (Sync (KillProcess l i e))) \<and>
      i \<notin> set (TTYInputWaitQueue (Sync (KillProcess l i e))) \<and>
      (j \<noteq> i \<longrightarrow> j \<noteq> ?par \<longrightarrow> proc (KillProcess l i e) j = proc l j) \<and>
      (?par \<noteq> i \<longrightarrow> unat ?par < MAX_PROCESSES \<longrightarrow> Status (proc l ?par) \<noteq> PROCESS_TERMINATED \<longrightarrow>
         proc (KillProcess l i e) ?par = child_exited i e (proc l ?par))" for j
  proof cases
    case dead
    with k show ?thesis by (auto simp: kp)
  next
    case live
    note n = NotifyParent_spec [OF k(1) live(1,2), where i = i and e = e]
    have "i \<noteq> ?par" using live(3) by simp
    then show ?thesis
      using k n(1) n(2) n(3) n(4) n(5) live unfolding kp by (auto 4 3)
  qed
  then show "Status (proc (KillProcess l i e) i) = PROCESS_TERMINATED" "entry_idle (proc (KillProcess l i e) i)"
    "i \<notin> set (ReadyIds (Sched (KillProcess l i e)))"
    "i \<notin> SleepId ` set (SleepQueue (Sync (KillProcess l i e)))"
    "i \<notin> set (TTYInputWaitQueue (Sync (KillProcess l i e)))"
    "j \<noteq> i \<Longrightarrow> j \<noteq> ?par \<Longrightarrow> proc (KillProcess l i e) j = proc l j"
    "?par \<noteq> i \<Longrightarrow> unat ?par < MAX_PROCESSES \<Longrightarrow> Status (proc l ?par) \<noteq> PROCESS_TERMINATED \<Longrightarrow>
         proc (KillProcess l i e) ?par = child_exited i e (proc l ?par)"
    by blast+
qed

section \<open>What killing a process releases\<close>

lemma Effects_fold_emit [simp]: "Effects (fold emit es m) = Effects m @ es"
  by (induction es arbitrary: m) simp_all

text \<open>What dropping the reference to the executable frees: its image, with the last reference.\<close>

definition exec_frees :: "logic \<Rightarrow> u8 \<Rightarrow> effect list" where
  "exec_frees l i =
     (case RunningExecutableINode (proc l i) of
        None \<Rightarrow> []
      | Some n \<Rightarrow>
          (let e = Executables l n
           in if IsLazyLoad e \<and> LazyLoadRefCount e \<le> 1
              then (case NodeData e of
                      None \<Rightarrow> []
                    | Some d \<Rightarrow>
                        if \<not> LazyDataBackedByPMM e then [KFree d]
                        else if LazyDataPageCount e \<noteq> 0 then [FreePages (of_nat d) (LazyDataPageCount e)]
                        else [])
              else []))"

lemma word_dec_zero: "(if c > 0 then c - 1 else c) = 0 \<longleftrightarrow> c \<le> 1" for c :: u32
proof -
  have "c \<le> 1 \<longleftrightarrow> unat c \<le> 1" by (simp add: word_le_nat_alt)
  also have "\<dots> \<longleftrightarrow> c = 0 \<or> c = 1" by (auto simp: word_unat_eq_iff)
  finally show ?thesis by auto
qed

lemma Release_effects:
  "Effects (Machine (ReleaseRunningExecutable l i)) = Effects (Machine l) @ exec_frees l i"
proof (cases "RunningExecutableINode (proc l i)")
  case None
  then show ?thesis by (simp add: ReleaseRunningExecutable_def exec_frees_def Let_def)
next
  case (Some n)
  let ?e = "Executables l n"
  show ?thesis
  proof (cases "IsLazyLoad ?e \<and> LazyLoadRefCount ?e \<le> 1")
    case True
    then have "LazyLoadRefCount (if LazyLoadRefCount ?e > 0 then ?e\<lparr>LazyLoadRefCount := LazyLoadRefCount ?e - 1\<rparr> else ?e) = 0"
      using word_dec_zero [of "LazyLoadRefCount ?e"] by (simp split: if_splits)
    with Some True show ?thesis
      by (cases "NodeData ?e")
        (simp_all add: ReleaseRunningExecutable_def exec_frees_def Let_def)
  next
    case False
    show ?thesis
    proof (cases "IsLazyLoad ?e")
      case True
      with False have "LazyLoadRefCount (if LazyLoadRefCount ?e > 0 then ?e\<lparr>LazyLoadRefCount := LazyLoadRefCount ?e - 1\<rparr> else ?e) \<noteq> 0"
        using word_dec_zero [of "LazyLoadRefCount ?e"] by (simp split: if_splits)
      with Some False True show ?thesis
        by (simp add: ReleaseRunningExecutable_def exec_frees_def Let_def)
    qed (use Some in \<open>simp add: ReleaseRunningExecutable_def exec_frees_def Let_def\<close>)
  qed
qed

definition open_files :: "process \<Rightarrow> addr list" where
  "open_files p = List.map_filter (\<lambda>f. f) (FileTable p)"

lemma PM_Kill_effects:
  "pm_inv (PM l) \<Longrightarrow> unat i < MAX_PROCESSES \<Longrightarrow>
   Effects (Machine (snd (PM_Kill i l))) = Effects (Machine l) @ map DeleteFile (open_files (proc l i)) \<and>
   fst (PM_Kill i l) = StackPointer (proc l i) \<and> Level (proc (snd (PM_Kill i l)) i) = PROCESS_LEVEL_KERNEL"
  using PM_Kill_spec [of l i "fst (PM_Kill i l)" "snd (PM_Kill i l)"] by (simp add: open_files_def)

lemma LoadKernel_effects [simp]: "Effects (LoadKernelPageTable m) = Effects m"
  by simp

lemma FreeAnonymous_effects:
  "Effects (Machine (FreeAnonymousProcessMappings l i)) =
     Effects (Machine l) @ concat (map MappingFree (MemoryMappings (proc l i)))"
  by (simp add: FreeAnonymousProcessMappings_def Let_def)

lemma KillTarget_effects:
  assumes inv: "ll_inv l" and i: "unat i < MAX_PROCESSES"
  shows "Effects (Machine (KillTarget l i)) = Effects (Machine l) @ exec_frees l i @
     (case (Level (proc l i) = PROCESS_LEVEL_USER \<and> \<not> SharesVforkAddressSpace l (proc l i),
            AddressSpace (proc l i)) of
        (True, Some sp) \<Rightarrow>
          concat (map MappingFree (MemoryMappings (proc l i))) @ map DeleteFile (open_files (proc l i)) @
          [if FileType (proc l i) = FILE_TYPE_ELF then CleanUpELF sp else CleanUpRawBinary sp,
           DeleteAddressSpace sp]
      | _ \<Rightarrow> map DeleteFile (open_files (proc l i)) @
          (case StackPointer (proc l i) of None \<Rightarrow> [] | Some s \<Rightarrow> [KFree s]))"
proof -
  obtain r pm1 where r: "GetRunningProcess (PM l) = (r, pm1)" by fastforce
  let ?l1 = "l\<lparr>PM := pm1\<rparr>"
  let ?l2 = "ReleaseRunningExecutable ?l1 i"
  have pm: "pm_inv (PM l)" using inv by (simp add: ll_inv_def)
  have pm1: "pm_inv pm1" "Processes pm1 = Processes (PM l)" using GetRunning_frame [OF pm r] by auto
  have p1: "proc ?l1 = proc l" by (simp add: proc_def pm1 fun_eq_iff)
  have ex: "Executables ?l1 = Executables l" by simp
  have shares: "SharesVforkAddressSpace ?l1 = SharesVforkAddressSpace l"
    by (auto simp: SharesVforkAddressSpace_def fun_eq_iff GetProcessById_def pm1)
  have t: "GetProcessById (PM l) i = Some (proc l i)" using i by (simp add: GetProcessById_proc)
  have pm2: "pm_inv (PM ?l2)" using Release_inv [of ?l1 i] pm1 i by simp
  have p2: "proc ?l2 i = (proc l i)\<lparr>RunningExecutableDentry := None, RunningExecutableINode := None\<rparr>"
    using Release_proc [of ?l1 i i] pm1 i p1 by simp
  have e2: "Effects (Machine ?l2) = Effects (Machine l) @ exec_frees l i"
    using Release_effects [of ?l1 i] unfolding exec_frees_def p1 ex by simp
  have own: "Effects (Machine (snd (PM_Kill i (FreeAnonymousProcessMappings (if c then on_machine LoadKernelPageTable ?l2 else ?l2) i)))) =
      Effects (Machine ?l2) @ concat (map MappingFree (MemoryMappings (proc l i))) @ map DeleteFile (open_files (proc l i))" for c
  proof -
    define a where "a = (if c then on_machine LoadKernelPageTable ?l2 else ?l2)"
    have a: "pm_inv (PM a)" "proc a i = proc ?l2 i" "Effects (Machine a) = Effects (Machine ?l2)"
      using pm2 by (simp_all add: a_def)
    have "open_files (proc (FreeAnonymousProcessMappings a i) i) = open_files (proc l i)"
      using a p2 FreeAnonymous_proc [OF a(1) i, of i] by (simp add: open_files_def)
    moreover have "MemoryMappings (proc a i) = MemoryMappings (proc l i)" using a p2 by simp
    ultimately show ?thesis
      using PM_Kill_effects [OF FreeAnonymous_inv [OF a(1) i] i] FreeAnonymous_effects [of a i] a(3)
      unfolding a_def [symmetric] by simp
  qed
  have stack: "Effects (Machine (case PM_Kill i ?l2 of (None, b) \<Rightarrow> b | (Some Stack, b) \<Rightarrow>
      (if Level (proc b i) = PROCESS_LEVEL_KERNEL then on_machine (emit (KFree Stack)) b else b)))
    = Effects (Machine ?l2) @ map DeleteFile (open_files (proc l i)) @
      (case StackPointer (proc l i) of None \<Rightarrow> [] | Some s \<Rightarrow> [KFree s])"
    using PM_Kill_effects [OF pm2 i] p2
    by (cases "PM_Kill i ?l2"; cases "StackPointer (proc l i)") (auto simp: open_files_def)
  define b where "b \<longleftrightarrow> Level (proc l i) = PROCESS_LEVEL_USER \<and> \<not> SharesVforkAddressSpace l (proc l i)"
  show ?thesis
    unfolding KillTarget_def Let_def r t prod.case option.case shares b_def [symmetric] queue_ops_frame
    using own stack e2
    by (cases b; cases "AddressSpace (proc l i)") simp_all
qed

section \<open>What a signal does\<close>


lemma pending_frame [simp]:
  "Sched (ClearPending i s l) = Sched l" "Sync (ClearPending i s l) = Sync l"
  "Machine (ClearPending i s l) = Machine l"
  by (simp_all add: ClearPending_def)

lemma signal_in_range: "LINUX_SIGNAL_MIN \<le> s \<Longrightarrow> s \<le> LINUX_SIGNAL_MAX \<Longrightarrow>
    (s < LINUX_SIGNAL_MIN \<or> s > LINUX_SIGNAL_MAX) = False"
  by simp





lemma SetProcessSignalState_Sync:
  "Sync (snd (SetProcessSignalState l i s h r)) = Sync l \<and> Sched (snd (SetProcessSignalState l i s h r)) = Sched l"
  by (auto simp: SetProcessSignalState_def Let_def split: option.splits prod.splits)



section \<open>What the scheduler dispatches\<close>

lemma RunProcess_Switched:
  assumes inv: "ll_inv l" and i: "unat i < MAX_PROCESSES" and run: "RunProcess l i saved = (Switched j, l')"
  shows "j = i \<and> status_of l' i = PROCESS_RUNNING"
proof -
  have pm: "pm_inv (PM l)" using inv by (simp add: ll_inv_def)
  have live: "Status (proc l i) \<noteq> PROCESS_TERMINATED"
    using run i by (auto simp: RunProcess_def GetProcessById_proc)
  show ?thesis
  proof (cases "GetCurrentProcess (PM l)")
    case None
    with run i live pm show ?thesis
      by (auto simp: RunProcess_def GetProcessById_proc Let_def status_of_set_status split: option.splits)
  next
    case (Some c)
    from GetCurrent_Some [OF inv Some] have c: "unat (PId c) < MAX_PROCESSES" "c = proc l (PId c)"
      "Status c \<noteq> PROCESS_TERMINATED" by auto
    define l1 where "l1 = (if Status c = PROCESS_RUNNING then set_status (PId c) PROCESS_READY l else l)"
    have pm1: "pm_inv (PM l1)"
      unfolding l1_def using pm c by (simp add: pm_inv_set_status status_of_def)
    have s1: "status_of l1 i \<noteq> PROCESS_TERMINATED"
    proof -
      have "status_of l i \<noteq> PROCESS_TERMINATED" using live by (simp add: status_of_def)
      then show ?thesis unfolding l1_def using pm c(1) by (simp add: status_of_set_status)
    qed
    define l3 where "l3 = (set_status i PROCESS_RUNNING l1)
      \<lparr>PM := UpdateCurrentProcessId (PM (set_status i PROCESS_RUNNING l1)) (PId (proc l i))\<rparr>"
    have s3: "status_of l3 i = PROCESS_RUNNING"
      unfolding l3_def by (simp add: status_of_set_status [OF pm1 i])
    have pm3: "pm_inv (PM l3)" unfolding l3_def using pm_inv_set_status [OF pm1 i s1] by simp
    from run Some live i have "PId c \<noteq> i" by (auto simp: RunProcess_def GetProcessById_proc)
    with run Some live i obtain m where j: "j = i"
      and l': "l' = write_proc (PId c) (\<lambda>q. q\<lparr>State := saved\<rparr>) (l3\<lparr>Machine := m\<rparr>)"
      unfolding l3_def l1_def
      by (auto simp: RunProcess_def GetProcessById_proc Let_def split: option.splits)
    have "status_of l' = status_of (l3\<lparr>Machine := m\<rparr>)"
      unfolding l' using pm3 c(1) by (intro status_of_write) simp_all
    with j s3 show ?thesis by simp
  qed
qed

lemma Schedule_dispatch:
  assumes inv: "ll_inv l" and sw: "Schedule l saved = (Switched i, l')"
  shows "i \<in> set (ReadyIds (Sched l)) \<and>
     (status_of l i = PROCESS_READY \<or> status_of l i = PROCESS_RUNNING) \<and>
     status_of l' i = PROCESS_RUNNING \<and> CurrentProcessId (PM l') = i \<and>
     (\<forall>j. unat j < MAX_PROCESSES \<and> j \<noteq> i \<longrightarrow> status_of l' j \<noteq> PROCESS_RUNNING)"
proof -
  obtain k r where r: "ready_select (Sched l) = (k, r)" by fastforce
  have k: "k \<noteq> PROCESS_ID_INVALID" and run: "RunProcess (l\<lparr>Sched := r\<rparr>) k saved = (Switched i, l')"
    using sw r by (auto simp: Schedule_def Let_def split: if_splits)
  then have ne: "ReadyIds (Sched l) \<noteq> []" using r by (auto simp: ready_select_def)
  then have mem: "k \<in> set (ReadyIds (Sched l))" using rq.select_ready [of "Sched l"] r by simp
  then have v: "unat k < MAX_PROCESSES" and s: "status_of l k = PROCESS_READY \<or> status_of l k = PROCESS_RUNNING"
    using inv by (auto simp: ll_inv_def queues_ok_def)
  have inv1: "ll_inv (l\<lparr>Sched := r\<rparr>)"
    using inv rq.set_ids_select [of "Sched l"] rq.distinct_ids_select [of "Sched l"] r
    by (simp add: ll_inv_def queues_ok_def)
  from RunProcess_Switched [OF inv1 v run] have i: "i = k" "status_of l' k = PROCESS_RUNNING" by auto
  have inv': "ll_inv l'" using Schedule_inv [OF inv, of saved] sw by simp
  with i v have c: "k = CurrentProcessId (PM l')" by (simp add: ll_inv_def queues_ok_def)
  have "unat j < MAX_PROCESSES \<Longrightarrow> status_of l' j = PROCESS_RUNNING \<Longrightarrow> j = k" for j
    using inv' c unfolding ll_inv_def queues_ok_def by metis
  with mem s i c show ?thesis by blast
qed

section \<open>What a tick does\<close>

lemma TickTimer_idle:
  "RealIntervalTimerRemainingTicks (proc l (of_nat k)) = 0 \<Longrightarrow> TickTimer l k = l"
  by (simp add: TickTimer_def GetProcessById_proc)

lemma Tick_idle_timers:
  assumes "\<forall>i. unat i < MAX_PROCESSES \<longrightarrow> RealIntervalTimerRemainingTicks (proc l i) = 0"
  shows "Tick l = (let l1 = l\<lparr>Sync := Sync_Tick (Sync l)\<rparr>
     in if GetNextProcessToWake (Sync l1) \<noteq> PROCESS_ID_INVALID
        then WakeProcess l1 (GetNextProcessToWake (Sync l1)) else l1)"
proof -
  have "foldl TickTimer l ks = l" if "set ks \<subseteq> {..<MAX_PROCESSES}" for ks
    using that
  proof (induction ks)
    case Nil
    then show ?case by simp
  next
    case (Cons k ks)
    then have "unat (of_nat k :: u8) < MAX_PROCESSES" by (simp add: unat_of_nat MAX_PROCESSES_def)
    with assms Cons show ?case by (simp add: TickTimer_idle)
  qed
  from this [of "[0..<GetMaxProcesses]"] show ?thesis
    by (simp add: Tick_def Let_def GetMaxProcesses_def lessThan_atLeast0)
qed

lemma WakeProcess_one:
  "length (SleepQueue (Sync l)) \<le> Suc (length (SleepQueue (Sync (WakeProcess l i))))"
  by (auto simp: WakeProcess_def length_remove_first split: option.splits)

text \<open>However many sleepers have expired, a tick takes at most one of them out of the queue.\<close>

lemma Tick_wakes_one:
  assumes "\<forall>i. unat i < MAX_PROCESSES \<longrightarrow> RealIntervalTimerRemainingTicks (proc l i) = 0"
  shows "length (SleepQueue (Sync l)) \<le> Suc (length (SleepQueue (Sync (Tick l))))"
proof -
  have "length (SleepQueue (Sync_Tick (Sync l))) = length (SleepQueue (Sync l))"
    by (simp add: Sync_Tick_def)
  with WakeProcess_one [of "l\<lparr>Sync := Sync_Tick (Sync l)\<rparr>"] show ?thesis
    unfolding Tick_idle_timers [OF assms] by (simp add: Let_def)
qed

text \<open>The first sleeper whose time has come is ready and queued after the tick.\<close>

lemma Tick_wakes_first:
  assumes inv: "ll_inv l"
    and idle: "\<forall>i. unat i < MAX_PROCESSES \<longrightarrow> RealIntervalTimerRemainingTicks (proc l i) = 0"
    and t: "List.find (\<lambda>t. unat (WaitTicksRemaining t) \<le> 1) (SleepQueue (Sync l)) = Some t"
  shows "status_of (Tick l) (SleepId t) = PROCESS_READY \<and>
     SleepId t \<in> set (ReadyIds (Sched (Tick l))) \<and>
     SleepId t \<notin> SleepId ` set (SleepQueue (Sync (Tick l)))"
proof -
  let ?i = "SleepId t" and ?l1 = "l\<lparr>Sync := Sync_Tick (Sync l)\<rparr>"
  have "t \<in> set (SleepQueue (Sync l))" using find_SomeD [OF t] by simp
  then have v: "unat ?i < MAX_PROCESSES" and b: "status_of l ?i = PROCESS_BLOCKED"
    and d: "distinct (map SleepId (SleepQueue (Sync l)))" and pm: "pm_inv (PM l)"
    using inv by (auto simp: ll_inv_def queues_ok_def)
  have g: "GetNextProcessToWake (Sync ?l1) = ?i"
    using GetNextProcessToWake_after [of 1 "Sync l"] t by simp
  have "?i \<noteq> PROCESS_ID_INVALID" using v by (auto simp: PROCESS_ID_INVALID_def MAX_PROCESSES_def)
  then have tick: "Tick l = Sched_Add ?i (Unsleep ?i (set_status ?i PROCESS_READY ?l1))"
    unfolding Tick_idle_timers [OF idle] Let_def g
    using v b by (simp add: WakeProcess_def GetProcessById_proc status_of_def)
  have "map SleepId (SleepQueue (Sync_Tick (Sync l))) = map SleepId (SleepQueue (Sync l))"
    by (simp add: Sync_Tick_def TickTag_def)
  then have "distinct (map SleepId (SleepQueue (Sync_Tick (Sync l))))" using d by simp
  then show ?thesis
    unfolding tick using pm v by (simp add: status_of_set_status key_notin_remove_first)
qed

section \<open>A concrete state\<close>

text \<open>Process 0 runs, 1 is ready, 2 is blocked in a sleep that ends with the next tick.\<close>

definition sample_logic :: logic where
  "sample_logic =
     \<lparr>PM = sample_pm, Sched = \<lparr>ReadyIds = [0, 1], HasCurrent = True\<rparr>,
      Sync = Sync_init\<lparr>SleepQueue := [\<lparr>SleepId = 2, WaitTicksRemaining = 1\<rparr>]\<rparr>,
      Executables = (\<lambda>_. \<lparr>IsLazyLoad = False, LazyLoadRefCount = 0, NodeData = None,
                           LazyDataBackedByPMM = False, LazyDataPageCount = 0\<rparr>),
      Machine = sample_machine, Ticks = 0\<rparr>"

lemma sample_proc:
  "proc sample_logic 0 = live_entry 0 PROCESS_RUNNING"
  "proc sample_logic 1 = (live_entry 1 PROCESS_READY)\<lparr>ParrentId := 0\<rparr>"
  "proc sample_logic 2 = live_entry 2 PROCESS_BLOCKED"
  "3 \<le> unat i \<Longrightarrow> unat i < MAX_PROCESSES \<Longrightarrow> proc sample_logic i = blank_entry\<lparr>PId := i\<rparr>"
  by (simp_all add: proc_def sample_logic_def sample_pm_nth sample_pm_nth(2) [unfolded One_nat_def])

lemma live_entry_fields:
  "Status (live_entry i St) = St" "PId (live_entry i St) = of_nat i" "Level (live_entry i St) = PROCESS_LEVEL_USER"
  "AddressSpace (live_entry i St) = Some 0x5000" "BlockedSignalMask (live_entry i St) = 0"
  "RealIntervalTimerRemainingTicks (live_entry i St) = 0"
  "RealIntervalTimerRemainingTicks blank_entry = 0" "Status blank_entry = PROCESS_TERMINATED"
  by (simp_all add: live_entry_def blank_entry_def)

lemma sample_status:
  "unat i < MAX_PROCESSES \<Longrightarrow> status_of sample_logic i =
     (if i = 0 then PROCESS_RUNNING else if i = 1 then PROCESS_READY else if i = 2 then PROCESS_BLOCKED
      else PROCESS_TERMINATED)"
proof -
  assume i: "unat i < MAX_PROCESSES"
  have "i = 0 \<or> i = 1 \<or> i = 2 \<or> 3 \<le> unat i"
  proof (rule ccontr)
    assume no: "\<not> ?thesis"
    then have "unat i = 0 \<or> unat i = 1 \<or> unat i = 2" by linarith
    moreover have "i = of_nat (unat i)" by simp
    ultimately have "i = of_nat 0 \<or> i = of_nat 1 \<or> i = of_nat 2" by metis
    then have "i = 0 \<or> i = 1 \<or> i = 2" by simp
    with no show False by blast
  qed
  with i show ?thesis by (auto simp: status_of_def sample_proc live_entry_fields)
qed

lemma sample_inv: "ll_inv sample_logic"
proof -
  have "pm_inv (PM sample_logic)" by (simp add: sample_logic_def sample_pm_inv)
  moreover have "sync_inv (Sync sample_logic)"
    using sync_inv_sleep(1) [OF sync_inv_init] by (simp add: sample_logic_def sync_inv_def Sync_init_def)
  moreover have "queues_ok (status_of sample_logic) (CurrentProcessId (PM sample_logic))
      (ReadyIds (Sched sample_logic)) (SleepQueue (Sync sample_logic))"
  proof -
    have "CurrentProcessId (PM sample_logic) = 0" "ReadyIds (Sched sample_logic) = [0, 1]"
      "SleepQueue (Sync sample_logic) = [\<lparr>SleepId = 2, WaitTicksRemaining = 1\<rparr>]"
      by (simp_all add: sample_logic_def sample_pm_def)
    then show ?thesis by (auto simp: queues_ok_def sample_status MAX_PROCESSES_def split: if_splits)
  qed
  ultimately show ?thesis by (simp add: ll_inv_def)
qed

lemma sample_schedule: "\<exists>l'. Schedule sample_logic EmptyState = (Switched 1, l')"
proof -
  have sel: "ready_select (Sched sample_logic) = (1, (Sched sample_logic)\<lparr>ReadyIds := [1, 0]\<rparr>)"
    by (simp add: sample_logic_def ready_select_def)
  have "CurrentProcessId (PM sample_logic) = 0" by (simp add: sample_logic_def sample_pm_def)
  then have cur: "GetCurrentProcess (PM sample_logic) = Some (live_entry 0 PROCESS_RUNNING)"
    by (simp add: GetCurrentProcess_def GetProcessById_proc sample_proc live_entry_fields MAX_PROCESSES_def)
  have p1: "GetProcessById (PM sample_logic) 1 = Some ((live_entry 1 PROCESS_READY)\<lparr>ParrentId := 0\<rparr>)"
    by (simp add: GetProcessById_proc sample_proc MAX_PROCESSES_def)
  have enter: "\<exists>m'. EnterProcess p m = Some m'" if "WaitingForSystemCallReturn p = False" for p m
    using that by (simp add: EnterProcess_def ResumesInKernel_def)
  let ?l = "sample_logic\<lparr>Sched := (Sched sample_logic)\<lparr>ReadyIds := [1, 0]\<rparr>\<rparr>"
  have "\<exists>l'. RunProcess ?l 1 EmptyState = (Switched 1, l')"
  proof -
    let ?l1 = "set_status 0 PROCESS_READY ?l"
    let ?l2 = "set_status 1 PROCESS_RUNNING ?l1"
    let ?l3 = "?l2\<lparr>PM := UpdateCurrentProcessId (PM ?l2) 1\<rparr>"
    have "proc ?l3 1 = (proc sample_logic 1)\<lparr>Status := PROCESS_RUNNING\<rparr>"
    proof -
      have pm: "pm_inv (PM ?l)" by (simp add: sample_logic_def sample_pm_inv)
      have pm1: "pm_inv (PM ?l1)"
        using pm sample_status [of 0]
        by (intro pm_inv_set_status) (simp_all add: MAX_PROCESSES_def)
      have "proc ?l3 1 = proc ?l2 1" by (simp add: proc_def UpdateCurrentProcessId_def)
      also have "\<dots> = (proc ?l1 1)\<lparr>Status := PROCESS_RUNNING\<rparr>"
        using proc_write [OF pm1, of 1] by (simp add: set_status_def MAX_PROCESSES_def)
      also have "proc ?l1 1 = proc sample_logic 1"
        using proc_write [OF pm, of 0] by (simp add: set_status_def MAX_PROCESSES_def)
      finally show ?thesis .
    qed
    then obtain m where "EnterProcess (proc ?l3 1) (Machine ?l3) = Some m"
      using enter [of "proc ?l3 1"] by (auto simp: sample_proc live_entry_def blank_entry_def)
    then show ?thesis
      using cur p1 by (simp add: RunProcess_def Let_def live_entry_fields)
  qed
  then show ?thesis by (simp add: Schedule_def sel PROCESS_ID_INVALID_def Let_def)
qed






section \<open>Properties\<close>



text \<open>
  C13. When Schedule switches, it switches to a process of the ready queue that was READY or
  RUNNING; that process is then RUNNING and tracked, and no other process runs.
\<close>

theorem schedule_dispatches_ready:
  assumes "ll_inv l" and "Schedule l saved = (Switched i, l')"
  shows "i \<in> set (ReadyIds (Sched l)) \<and>
     (status_of l i = PROCESS_READY \<or> status_of l i = PROCESS_RUNNING) \<and>
     status_of l' i = PROCESS_RUNNING \<and> CurrentProcessId (PM l') = i \<and>
     (\<forall>j. unat j < MAX_PROCESSES \<and> j \<noteq> i \<longrightarrow> status_of l' j \<noteq> PROCESS_RUNNING)"
  using assms by (rule Schedule_dispatch)

theorem schedule_dispatches_ready_witness:
  "\<exists>l'. Schedule sample_logic EmptyState = (Switched 1, l') \<and> status_of l' 1 = PROCESS_RUNNING \<and>
     status_of l' 0 \<noteq> PROCESS_RUNNING"
proof -
  obtain l' where s: "Schedule sample_logic EmptyState = (Switched 1, l')" using sample_schedule by blast
  from schedule_dispatches_ready [OF sample_inv this]
  have "status_of l' 1 = PROCESS_RUNNING" "status_of l' 0 \<noteq> PROCESS_RUNNING"
    by (simp_all add: MAX_PROCESSES_def)
  with s show ?thesis by blast
qed

text \<open>
  C14. After KillProcess the target's slot is terminated and owns nothing, and its id is in no
  ready, sleep or TTY queue; a live parent other than the target has exactly the pending-exit
  fields set, and is unblocked when it waits for a child; every other process is untouched.
\<close>

theorem killed_process_gone:
  assumes "ll_inv l" and "unat i < MAX_PROCESSES"
  shows "let l' = KillProcess l i e; par = ParrentId (proc l i) in
     Status (proc l' i) = PROCESS_TERMINATED \<and> entry_idle (proc l' i) \<and>
     i \<notin> set (ReadyIds (Sched l')) \<and> i \<notin> SleepId ` set (SleepQueue (Sync l')) \<and>
     i \<notin> set (TTYInputWaitQueue (Sync l')) \<and>
     (\<forall>j. j \<noteq> i \<and> j \<noteq> par \<longrightarrow> proc l' j = proc l j) \<and>
     (par \<noteq> i \<and> unat par < MAX_PROCESSES \<and> Status (proc l par) \<noteq> PROCESS_TERMINATED \<longrightarrow>
        proc l' par = child_exited i e (proc l par))"
  using KillProcess_post [OF assms] by (simp add: Let_def)

theorem killed_process_gone_witness:
  "Status (proc (KillProcess sample_logic 1 9) 1) = PROCESS_TERMINATED \<and>
   PendingChildId (proc (KillProcess sample_logic 1 9) 0) = 1 \<and>
   PendingChildStatus (proc (KillProcess sample_logic 1 9) 0) = 9"
proof -
  have "ParrentId (proc sample_logic 1) = 0" "Status (proc sample_logic 0) = PROCESS_RUNNING"
    by (simp_all add: sample_proc live_entry_fields)
  with killed_process_gone [OF sample_inv, of 1 9] show ?thesis
    by (simp add: MAX_PROCESSES_def child_exited_def Let_def)
qed

text \<open>
  C15. What killing a process frees, in order and each once: the lazily loaded image with its last
  reference; then, for a user process with its own address space, its anonymous mappings, its open
  files, its ELF or raw image and its address space; for any other process - a kernel process, and
  a vfork child still in its parent's space - its open files and its stack pointer.
\<close>

theorem killed_process_resources:
  assumes "ll_inv l" and "unat i < MAX_PROCESSES"
  shows "Effects (Machine (KillTarget l i)) = Effects (Machine l) @ exec_frees l i @
     (case (Level (proc l i) = PROCESS_LEVEL_USER \<and> \<not> SharesVforkAddressSpace l (proc l i),
            AddressSpace (proc l i)) of
        (True, Some sp) \<Rightarrow>
          concat (map MappingFree (MemoryMappings (proc l i))) @ map DeleteFile (open_files (proc l i)) @
          [if FileType (proc l i) = FILE_TYPE_ELF then CleanUpELF sp else CleanUpRawBinary sp,
           DeleteAddressSpace sp]
      | _ \<Rightarrow> map DeleteFile (open_files (proc l i)) @
          (case StackPointer (proc l i) of None \<Rightarrow> [] | Some s \<Rightarrow> [KFree s]))"
  using assms by (rule KillTarget_effects)

theorem killed_process_resources_witness:
  "Effects (Machine (KillTarget sample_logic 2)) = [CleanUpRawBinary 0x5000, DeleteAddressSpace 0x5000]"
proof -
  have p: "proc sample_logic 2 = live_entry 2 PROCESS_BLOCKED" by (simp add: sample_proc)
  have m: "concat (map MappingFree (replicate n EmptyMapping)) = []" for n
    by (induction n) (simp_all add: MappingFree_def EmptyMapping_def)
  have f: "List.map_filter (\<lambda>f. f) (replicate n None) = ([] :: addr list)" for n
    by (induction n) simp_all
  have "Effects (Machine sample_logic) = []" by (simp add: sample_logic_def sample_machine_def)
  with killed_process_resources [OF sample_inv, of 2] m f show ?thesis
    by (simp add: p exec_frees_def SharesVforkAddressSpace_def open_files_def live_entry_def blank_entry_def
        MAX_PROCESSES_def)
qed





text \<open>
  C28. With no interval timer running, a tick makes the first expired sleeper READY, queues it and
  takes it out of the sleep queue; but however many sleepers expired, a tick removes at most one
  of them.
\<close>

theorem tick_wakes_first_sleeper:
  assumes "ll_inv l"
    and "\<forall>i. unat i < MAX_PROCESSES \<longrightarrow> RealIntervalTimerRemainingTicks (proc l i) = 0"
  shows "(\<forall>t. List.find (\<lambda>t. unat (WaitTicksRemaining t) \<le> 1) (SleepQueue (Sync l)) = Some t \<longrightarrow>
        status_of (Tick l) (SleepId t) = PROCESS_READY \<and> SleepId t \<in> set (ReadyIds (Sched (Tick l))) \<and>
        SleepId t \<notin> SleepId ` set (SleepQueue (Sync (Tick l)))) \<and>
     length (SleepQueue (Sync l)) \<le> Suc (length (SleepQueue (Sync (Tick l))))"
  using Tick_wakes_first [OF assms] Tick_wakes_one [OF assms(2)] by blast

theorem tick_wakes_first_sleeper_witness:
  "status_of (Tick sample_logic) 2 = PROCESS_READY \<and> 2 \<in> set (ReadyIds (Sched (Tick sample_logic)))"
proof -
  have t: "RealIntervalTimerRemainingTicks (proc sample_logic i) = 0" if "unat i < MAX_PROCESSES" for i
  proof -
    have "i = of_nat (unat i)" by simp
    consider "unat i = 0" | "unat i = 1" | "unat i = 2" | "3 \<le> unat i" by linarith
    then show ?thesis
    proof cases
      case 1 then have "i = 0" by (simp add: unat_eq_zero) then show ?thesis by (simp add: sample_proc live_entry_fields)
    next
      case 2 with \<open>i = of_nat (unat i)\<close> have "i = 1" by simp then show ?thesis by (simp add: sample_proc live_entry_fields)
    next
      case 3 with \<open>i = of_nat (unat i)\<close> have "i = 2" by simp then show ?thesis by (simp add: sample_proc live_entry_fields)
    next
      case 4 with that show ?thesis by (simp add: sample_proc live_entry_fields)
    qed
  qed
  have "List.find (\<lambda>t. unat (WaitTicksRemaining t) \<le> 1) (SleepQueue (Sync sample_logic)) =
      Some \<lparr>SleepId = 2, WaitTicksRemaining = 1\<rparr>"
    by (simp add: sample_logic_def)
  with tick_wakes_first_sleeper [OF sample_inv] t show ?thesis by fastforce
qed

end
