(* ===== verification/Physical_Memory.thy ===== *)
theory Physical_Memory imports Kernel_Prelude begin

unbundle bit_operations_syntax

text \<open>
  \<open>Kernel/Memory/PhysicalMemoryManager.{hpp,cpp}\<close>: the bump allocator over the firmware memory
  map and the buddy allocator over the largest descriptor. A free list is the list of the
  addresses of its blocks, head first (the \<open>Next\<close> pointers live in the free blocks
  themselves). Quantities are natural numbers; the sums the firmware's numbers could make
  wrap are under \<open>w64\<close>, the rest stay below \<open>PMM_BUDDY_PHYSICAL_LIMIT\<close> by the invariant.

  \<open>free_pages s\<close> is the multiset of the free page indices. The allocator is specified by
  equations on it: a block handed out leaves it, a block given back returns to it, and it
  never holds a page twice.
\<close>

definition PAGE_BYTES :: nat where [layout_simps]: "PAGE_BYTES = 4096"
definition MAX_BUDDY_ORDERS :: nat where [layout_simps]: "MAX_BUDDY_ORDERS = 52"
definition PMM_BUDDY_PHYSICAL_LIMIT :: nat where
  [layout_simps]: "PMM_BUDDY_PHYSICAL_LIMIT = 0xC0000000"

record efi_memory_descriptor =
  Conventional :: bool
  PhysicalStart :: nat
  NumberOfPages :: nat

record pmm =
  MemoryMap :: "efi_memory_descriptor list"
  NextPageAddress :: nat
  CurrentDescriptor :: nat
  RemainingPagesInDescriptor :: nat
  TotalUsableMemory :: nat
  TotalNumberOfPages :: nat
  PhysicalAddressStart :: nat
  DescriptorPages :: nat
  NumberOfFreePages :: nat
  BitMap :: ptr
  BuddyFreeLists :: "addr list list"
  BuddyMaxOrder :: nat

definition InitializeMemoryStats :: "pmm \<Rightarrow> pmm" where
  "InitializeMemoryStats s =
     foldl (\<lambda>s d. if Conventional d
              then s\<lparr>TotalUsableMemory := w64 (TotalUsableMemory s + NumberOfPages d * PAGE_BYTES),
                     TotalNumberOfPages := w64 (TotalNumberOfPages s + NumberOfPages d)\<rparr>
              else s)
       s (MemoryMap s)"

definition PhysicalMemoryManager_new ::
    "efi_memory_descriptor list \<Rightarrow> nat \<Rightarrow> nat \<Rightarrow> nat \<Rightarrow> pmm" where
  "PhysicalMemoryManager_new Map NextPage Current Remaining =
     InitializeMemoryStats
       \<lparr>MemoryMap = Map, NextPageAddress = NextPage, CurrentDescriptor = Current,
        RemainingPagesInDescriptor = Remaining, TotalUsableMemory = 0, TotalNumberOfPages = 0,
        PhysicalAddressStart = 0, DescriptorPages = 0, NumberOfFreePages = 0, BitMap = None,
        BuddyFreeLists = replicate MAX_BUDDY_ORDERS [], BuddyMaxOrder = 0\<rparr>"

function FloorLog2_loop :: "nat \<Rightarrow> nat \<Rightarrow> nat" where
  "FloorLog2_loop Order Pages =
     (if Order + 1 < MAX_BUDDY_ORDERS \<and> 2 ^ (Order + 1) \<le> Pages
      then FloorLog2_loop (Order + 1) Pages else Order)"
  by pat_completeness auto
termination
  by (relation "measure (\<lambda>(Order, Pages). MAX_BUDDY_ORDERS - Order)") (auto simp: layout_simps)

declare FloorLog2_loop.simps [simp del]

definition FloorLog2Pages :: "nat \<Rightarrow> nat" where
  "FloorLog2Pages Pages = (if Pages \<le> 1 then 0 else FloorLog2_loop 0 Pages)"

definition CeilLog2Pages :: "nat \<Rightarrow> nat" where
  "CeilLog2Pages Pages =
     (if Pages \<le> 1 then 0
      else let Order = FloorLog2Pages Pages
           in if 2 ^ Order < Pages \<and> Order + 1 < MAX_BUDDY_ORDERS then Order + 1 else Order)"

definition PagesForOrder :: "nat \<Rightarrow> nat" where
  "PagesForOrder Order = 2 ^ Order"

definition PushBlock :: "nat \<Rightarrow> addr \<Rightarrow> addr list list \<Rightarrow> addr list list" where
  "PushBlock Order a fl = fl[Order := a # fl ! Order]"

definition RemoveBlockFromFreeList :: "addr list list \<Rightarrow> nat \<Rightarrow> addr \<Rightarrow> bool \<times> addr list list" where
  "RemoveBlockFromFreeList fl Order a =
     (if a \<in> set (fl ! Order) then (True, fl[Order := remove1 a (fl ! Order)]) else (False, fl))"

definition IsAddressInManagedRange :: "pmm \<Rightarrow> addr \<Rightarrow> bool" where
  "IsAddressInManagedRange s Address =
     (PhysicalAddressStart s \<le> Address \<and>
      Address < w64 (PhysicalAddressStart s + DescriptorPages s * PAGE_BYTES))"

text \<open>The inner loop of the initialisation lowers the order until the offset is aligned to it.\<close>

fun AlignedOrder :: "nat \<Rightarrow> nat \<Rightarrow> nat" where
  "AlignedOrder 0 CurrentOffset = 0"
| "AlignedOrder (Suc Order) CurrentOffset =
     (if CurrentOffset mod PagesForOrder (Suc Order) \<noteq> 0 then AlignedOrder Order CurrentOffset
      else Suc Order)"

function InitializeBuddy_loop ::
    "nat \<Rightarrow> nat \<Rightarrow> nat \<Rightarrow> addr list list \<Rightarrow> addr list list" where
  "InitializeBuddy_loop BaseAddress CurrentOffset RemainingPages fl =
     (if RemainingPages = 0 then fl
      else let Order = AlignedOrder (FloorLog2Pages RemainingPages) CurrentOffset;
               BlockPages = PagesForOrder Order
           in InitializeBuddy_loop BaseAddress (CurrentOffset + BlockPages) (RemainingPages - BlockPages)
                (PushBlock Order (BaseAddress + CurrentOffset * PAGE_BYTES) fl))"
  by pat_completeness auto
termination
  by (relation "measure (\<lambda>(b, c, r, fl). r)") (auto simp: PagesForOrder_def)

declare InitializeBuddy_loop.simps [simp del]

definition InitializeBuddyAllocator :: "pmm \<Rightarrow> pmm" where
  "InitializeBuddyAllocator s =
     (let s1 = s\<lparr>BuddyFreeLists := replicate MAX_BUDDY_ORDERS [], BuddyMaxOrder := 0\<rparr>
      in if DescriptorPages s = 0 then s1
         else s1\<lparr>BuddyMaxOrder := FloorLog2Pages (DescriptorPages s),
                 BuddyFreeLists := InitializeBuddy_loop (PhysicalAddressStart s) 0 (DescriptorPages s)
                   (replicate MAX_BUDDY_ORDERS []),
                 BitMap := (if PhysicalAddressStart s = 0 then None else Some (PhysicalAddressStart s))\<rparr>)"

text \<open>The \<open>for\<close> loop of \<open>AllocatePagesFromMemoryMap\<close>, from descriptor \<open>i\<close> on.\<close>

fun FindDescriptor :: "efi_memory_descriptor list \<Rightarrow> nat \<Rightarrow> nat \<Rightarrow> (nat \<times> efi_memory_descriptor) option" where
  "FindDescriptor [] i Pages = None"
| "FindDescriptor (d # ds) i Pages =
     (if Conventional d \<and> NumberOfPages d \<ge> Pages then Some (i, d) else FindDescriptor ds (i + 1) Pages)"

definition AllocatePagesFromMemoryMap :: "pmm \<Rightarrow> nat \<Rightarrow> ptr \<times> pmm" where
  "AllocatePagesFromMemoryMap s Pages =
     (if RemainingPagesInDescriptor s < Pages then
        (case FindDescriptor (drop (CurrentDescriptor s + 1) (MemoryMap s)) (CurrentDescriptor s + 1) Pages of
           None \<Rightarrow> (None, s)
         | Some (i, d) \<Rightarrow>
             (if PhysicalStart d = 0 then None else Some (PhysicalStart d),
              s\<lparr>CurrentDescriptor := i, RemainingPagesInDescriptor := NumberOfPages d - Pages,
                NextPageAddress := w64 (PhysicalStart d + Pages * PAGE_BYTES)\<rparr>))
      else
        (if NextPageAddress s = 0 then None else Some (NextPageAddress s),
         s\<lparr>RemainingPagesInDescriptor := RemainingPagesInDescriptor s - Pages,
           NextPageAddress := w64 (NextPageAddress s + Pages * PAGE_BYTES)\<rparr>))"

text \<open>\<open>while (CurrentOrder <= BuddyMaxOrder && BuddyFreeLists[CurrentOrder] == NULL)\<close>\<close>

function FirstNonEmpty :: "addr list list \<Rightarrow> nat \<Rightarrow> nat \<Rightarrow> nat" where
  "FirstNonEmpty fl CurrentOrder MaxOrder =
     (if CurrentOrder \<le> MaxOrder \<and> fl ! CurrentOrder = []
      then FirstNonEmpty fl (CurrentOrder + 1) MaxOrder else CurrentOrder)"
  by pat_completeness auto
termination
  by (relation "measure (\<lambda>(fl, c, m). Suc m - c)") auto

declare FirstNonEmpty.simps [simp del]

text \<open>The split loop: \<open>while (CurrentOrder > RequestedOrder)\<close> the upper half is given back.\<close>

fun SplitBlock :: "nat \<Rightarrow> nat \<Rightarrow> addr \<Rightarrow> addr list list \<Rightarrow> addr list list" where
  "SplitBlock 0 Requested a fl = fl"
| "SplitBlock (Suc Order) Requested a fl =
     (if Suc Order > Requested
      then SplitBlock Order Requested a (PushBlock Order (a + PagesForOrder Order * PAGE_BYTES) fl)
      else fl)"

definition AllocatePagesFromDescriptor :: "pmm \<Rightarrow> nat \<Rightarrow> ptr \<times> pmm" where
  "AllocatePagesFromDescriptor s Pages =
     (if Pages = 0 then (None, s)
      else if BitMap s = None then (None, s)
      else if Pages > NumberOfFreePages s then (None, s)
      else let Requested = CeilLog2Pages Pages
      in if Requested > BuddyMaxOrder s then (None, s)
      else let Order = FirstNonEmpty (BuddyFreeLists s) Requested (BuddyMaxOrder s)
      in if Order > BuddyMaxOrder s then (None, s)
      else let Block = hd (BuddyFreeLists s ! Order);
               fl1 = (BuddyFreeLists s)[Order := tl (BuddyFreeLists s ! Order)];
               fl2 = SplitBlock Order Requested Block fl1;
               s1 = s\<lparr>BuddyFreeLists := fl2\<rparr>;
               AllocatedPages = PagesForOrder Requested
      in if AllocatedPages > NumberOfFreePages s then (None, s1)
      else (Some Block, s1\<lparr>NumberOfFreePages := NumberOfFreePages s - AllocatedPages\<rparr>))"

text \<open>The coalescing loop; the result is the block to insert and its order.\<close>

function Coalesce ::
    "nat \<Rightarrow> nat \<Rightarrow> nat \<Rightarrow> addr \<Rightarrow> nat \<Rightarrow> addr list list \<Rightarrow> addr \<times> nat \<times> addr list list" where
  "Coalesce BaseAddress PageCount MaxOrder CurrentAddress CurrentOrder fl =
     (if \<not> CurrentOrder < MaxOrder then (CurrentAddress, CurrentOrder, fl)
      else let OrderPages = PagesForOrder CurrentOrder;
               BlockIndex = (CurrentAddress - BaseAddress) div PAGE_BYTES;
               BuddyIndex = BlockIndex XOR OrderPages
      in if BuddyIndex + OrderPages > PageCount then (CurrentAddress, CurrentOrder, fl)
      else let BuddyAddress = BaseAddress + BuddyIndex * PAGE_BYTES
      in case RemoveBlockFromFreeList fl CurrentOrder BuddyAddress of
           (False, _) \<Rightarrow> (CurrentAddress, CurrentOrder, fl)
         | (True, fl1) \<Rightarrow>
             Coalesce BaseAddress PageCount MaxOrder
               (if BuddyAddress < CurrentAddress then BuddyAddress else CurrentAddress)
               (CurrentOrder + 1) fl1)"
  by pat_completeness auto
termination
  by (relation "measure (\<lambda>(b, t, m, a, c, fl). m - c)") auto

declare Coalesce.simps [simp del]

definition FreePagesFromDescriptor :: "pmm \<Rightarrow> addr \<Rightarrow> nat \<Rightarrow> bool \<times> pmm" where
  "FreePagesFromDescriptor s Address Pages =
     (if Address = 0 \<or> Pages = 0 then (False, s)
      else if BitMap s = None then (False, s)
      else if \<not> IsAddressInManagedRange s Address then (False, s)
      else if (Address - PhysicalAddressStart s) mod PAGE_BYTES \<noteq> 0 then (False, s)
      else let Order = CeilLog2Pages Pages
      in if Order > BuddyMaxOrder s then (False, s)
      else let BlockPages = PagesForOrder Order;
               StartPage = (Address - PhysicalAddressStart s) div PAGE_BYTES
      in if StartPage + BlockPages > DescriptorPages s then (False, s)
      else if StartPage mod BlockPages \<noteq> 0 then (False, s)
      else case Coalesce (PhysicalAddressStart s) (DescriptorPages s) (BuddyMaxOrder s) Address Order
                  (BuddyFreeLists s) of
        (a, o1, fl) \<Rightarrow>
          (let n = NumberOfFreePages s + BlockPages
           in (True, s\<lparr>BuddyFreeLists := PushBlock o1 a fl,
                       NumberOfFreePages := (if n > DescriptorPages s then DescriptorPages s else n)\<rparr>)))"

text \<open>One descriptor of the selection loop of \<open>InitializeMemoryDescriptors\<close>.\<close>

definition ConsiderDescriptor :: "pmm \<Rightarrow> nat \<times> efi_memory_descriptor \<Rightarrow> pmm" where
  "ConsiderDescriptor s entry =
     (let (i, d) = entry
      in if \<not> Conventional d then s
      else if i < CurrentDescriptor s then s
      else if i = CurrentDescriptor s \<and> RemainingPagesInDescriptor s = 0 then s
      else let start = (if i = CurrentDescriptor s then NextPageAddress s else PhysicalStart d);
               pages = (if i = CurrentDescriptor s then RemainingPagesInDescriptor s else NumberOfPages d)
      in if start \<ge> PMM_BUDDY_PHYSICAL_LIMIT then s
      else let over = w64 (start + pages * PAGE_BYTES) > PMM_BUDDY_PHYSICAL_LIMIT;
               pages1 = (if over then (PMM_BUDDY_PHYSICAL_LIMIT - start) div PAGE_BYTES else pages)
      in if over \<and> pages1 = 0 then s
      else if pages1 > DescriptorPages s
      then s\<lparr>PhysicalAddressStart := start, DescriptorPages := pages1,
             NumberOfFreePages := pages1, BitMap := None\<rparr>
      else s)"

definition InitializeMemoryDescriptors :: "pmm \<Rightarrow> pmm" where
  "InitializeMemoryDescriptors s =
     InitializeBuddyAllocator
       (foldl ConsiderDescriptor
         (s\<lparr>PhysicalAddressStart := 0, DescriptorPages := 0, NumberOfFreePages := 0, BitMap := None\<rparr>)
         (zip [0..<length (MemoryMap s)] (MemoryMap s)))"

definition TotalUsableMemoryBytes :: "pmm \<Rightarrow> nat" where
  "TotalUsableMemoryBytes s = TotalUsableMemory s"

definition TotalPages :: "pmm \<Rightarrow> nat" where
  "TotalPages s = TotalNumberOfPages s"

section \<open>The pages a free list holds\<close>

definition page_index :: "nat \<Rightarrow> addr \<Rightarrow> nat" where
  "page_index b a = (a - b) div PAGE_BYTES"

definition block_pages :: "nat \<Rightarrow> nat \<Rightarrow> addr \<Rightarrow> nat multiset" where
  "block_pages b o1 a = mset [page_index b a ..< page_index b a + 2 ^ o1]"

definition list_pages :: "nat \<Rightarrow> nat \<Rightarrow> addr list \<Rightarrow> nat multiset" where
  "list_pages b o1 xs = sum_list (map (block_pages b o1) xs)"

definition free_pages :: "nat \<Rightarrow> addr list list \<Rightarrow> nat multiset" where
  "free_pages b fl = (\<Sum>o1<length fl. list_pages b o1 (fl ! o1))"

lemma free_pages_split:
  "o1 < length fl \<Longrightarrow>
   free_pages b (fl[o1 := xs]) + list_pages b o1 (fl ! o1) = free_pages b fl + list_pages b o1 xs"
proof -
  assume o1: "o1 < length fl"
  let ?r = "\<lambda>fl. \<Sum>k\<in>{..<length fl} - {o1}. list_pages b k (fl ! k)"
  have "free_pages b (fl[o1 := xs]) = list_pages b o1 xs + ?r fl"
    using o1 by (simp add: free_pages_def sum.remove [of _ o1] nth_list_update cong: sum.cong_simp)
  moreover have "free_pages b fl = list_pages b o1 (fl ! o1) + ?r fl"
    using o1 by (simp add: free_pages_def sum.remove [of _ o1])
  ultimately show ?thesis by (simp add: ac_simps)
qed

lemma list_pages_simps [simp]:
  "list_pages b o1 [] = {#}" "list_pages b o1 (a # xs) = block_pages b o1 a + list_pages b o1 xs"
  by (simp_all add: list_pages_def)

lemma list_pages_remove1:
  "a \<in> set xs \<Longrightarrow> list_pages b o1 xs = block_pages b o1 a + list_pages b o1 (remove1 a xs)"
  by (induction xs) (auto simp: ac_simps)

lemma PushBlock_length [simp]: "length (PushBlock o1 a fl) = length fl"
  by (simp add: PushBlock_def)

lemma free_pages_Push:
  "o1 < length fl \<Longrightarrow> free_pages b (PushBlock o1 a fl) = block_pages b o1 a + free_pages b fl"
  using free_pages_split [of o1 fl b "a # fl ! o1"] by (simp add: PushBlock_def ac_simps)

lemma free_pages_remove1:
  "o1 < length fl \<Longrightarrow> a \<in> set (fl ! o1) \<Longrightarrow>
   free_pages b fl = block_pages b o1 a + free_pages b (fl[o1 := remove1 a (fl ! o1)])"
  using free_pages_split [of o1 fl b "remove1 a (fl ! o1)"] list_pages_remove1 [of a "fl ! o1" b o1]
  by (simp add: ac_simps)

lemma free_pages_empty: "free_pages b (replicate n []) = {#}"
  by (simp add: free_pages_def)

lemma block_subset_free:
  "o1 < length fl \<Longrightarrow> a \<in> set (fl ! o1) \<Longrightarrow> block_pages b o1 a \<subseteq># free_pages b fl"
  by (simp add: free_pages_remove1 [of o1 fl a b])

section \<open>Well-formed free lists\<close>

definition block_ok :: "nat \<Rightarrow> nat \<Rightarrow> nat \<Rightarrow> nat \<Rightarrow> addr \<Rightarrow> bool" where
  "block_ok b T M o1 a \<longleftrightarrow>
     o1 \<le> M \<and> (\<exists>i. a = b + i * PAGE_BYTES \<and> 2 ^ o1 dvd i \<and> i + 2 ^ o1 \<le> T)"

definition buddy_of :: "nat \<Rightarrow> nat \<Rightarrow> addr \<Rightarrow> addr" where
  "buddy_of b o1 a = b + (page_index b a XOR 2 ^ o1) * PAGE_BYTES"

text \<open>In the lists: blocks of the region at their order, and never two buddies side by side.\<close>

definition lists_ok :: "nat \<Rightarrow> nat \<Rightarrow> nat \<Rightarrow> addr list list \<Rightarrow> bool" where
  "lists_ok b T M fl \<longleftrightarrow>
     length fl = MAX_BUDDY_ORDERS \<and> M < MAX_BUDDY_ORDERS \<and>
     (\<forall>o1<MAX_BUDDY_ORDERS. \<forall>a\<in>set (fl ! o1). block_ok b T M o1 a)"

definition coalesced :: "nat \<Rightarrow> nat \<Rightarrow> addr list list \<Rightarrow> bool" where
  "coalesced b M fl \<longleftrightarrow> (\<forall>o1<M. \<forall>a\<in>set (fl ! o1). buddy_of b o1 a \<notin> set (fl ! o1))"

lemma page_index_of [simp]: "page_index b (b + i * PAGE_BYTES) = i"
  by (simp add: page_index_def layout_simps)

lemma block_ok_index:
  "block_ok b T M o1 a \<Longrightarrow> a = b + page_index b a * PAGE_BYTES \<and> 2 ^ o1 dvd page_index b a \<and>
     page_index b a + 2 ^ o1 \<le> T \<and> o1 \<le> M"
  by (auto simp: block_ok_def)

lemma odd_block_ge:
  assumes "2 ^ o1 dvd (i::nat)" and "odd (i div 2 ^ o1)"
  shows "2 ^ o1 \<le> i"
  using assms by (metis dvd_imp_le gr_zeroI even_zero div_0)

lemma buddy_involution: "(i XOR 2 ^ o1) XOR 2 ^ o1 = (i::nat)"
  by (simp add: xor.assoc)

lemma xor_exp_even: "even (i div 2 ^ o1) \<Longrightarrow> i XOR 2 ^ o1 = i + 2 ^ o1" for i :: nat
proof -
  assume e: "even (i div 2 ^ o1)"
  have "i XOR 2 ^ o1 = flip_bit o1 i" by (simp add: flip_bit_eq_xor push_bit_eq_mult)
  also have "\<dots> = i + 2 ^ o1"
    using e by (simp add: flip_bit_eq_if bit_iff_odd set_bit_eq)
  finally show ?thesis .
qed

lemma xor_exp_nat:
  assumes "2 ^ o1 dvd (i::nat)"
  shows "i XOR 2 ^ o1 = (if even (i div 2 ^ o1) then i + 2 ^ o1 else i - 2 ^ o1)"
proof (cases "even (i div 2 ^ o1)")
  case True
  then show ?thesis by (simp add: xor_exp_even)
next
  case False
  have ge: "2 ^ o1 \<le> i" by (rule odd_block_ge [OF assms False])
  then have "(i - 2 ^ o1) div 2 ^ o1 = i div 2 ^ o1 - 1" by (simp add: le_div_geq)
  with False have "(i - 2 ^ o1) XOR 2 ^ o1 = i - 2 ^ o1 + 2 ^ o1" by (intro xor_exp_even) simp
  with ge have "(i - 2 ^ o1) XOR 2 ^ o1 = i" by simp
  then have "i XOR 2 ^ o1 = i - 2 ^ o1" using buddy_involution [of "i - 2 ^ o1" o1] by simp
  with False show ?thesis by simp
qed

lemma buddy_dvd:
  assumes "2 ^ o1 dvd (i::nat)"
  shows "2 ^ o1 dvd i XOR 2 ^ o1"
  using assms by (simp add: xor_exp_nat dvd_diff_nat)

lemma buddy_neq: "i XOR 2 ^ o1 \<noteq> (i::nat)"
proof
  assume "i XOR 2 ^ o1 = i"
  then have "i XOR (i XOR 2 ^ o1) = i XOR i" by simp
  then show False by (simp flip: xor.assoc)
qed

text \<open>A block and its buddy are the two halves of the block at the lower address.\<close>

lemma merge_dvd:
  assumes "2 ^ o1 dvd (i::nat)"
  shows "2 ^ Suc o1 dvd min i (i XOR 2 ^ o1)"
proof -
  obtain k where k: "i = 2 ^ o1 * k" using assms by blast
  show ?thesis
  proof (cases "even k")
    case True
    then obtain m where "k = 2 * m" by blast
    with k have "i XOR 2 ^ o1 = i + 2 ^ o1" "i = 2 ^ Suc o1 * m"
      using xor_exp_nat [OF assms] by simp_all
    then show ?thesis by (simp add: min_def)
  next
    case False
    then obtain m where m: "k = 2 * m + 1" by (blast elim: oddE)
    with k have "i XOR 2 ^ o1 = i - 2 ^ o1" "i - 2 ^ o1 = 2 ^ Suc o1 * m"
      using xor_exp_nat [OF assms] by (simp_all add: algebra_simps)
    moreover have "min i (i - 2 ^ o1) = i - 2 ^ o1" by simp
    ultimately show ?thesis by simp
  qed
qed

lemma merge_pages:
  assumes "2 ^ o1 dvd (i::nat)"
  shows "mset [min i (i XOR 2 ^ o1) ..< min i (i XOR 2 ^ o1) + 2 ^ Suc o1] =
     mset [i ..< i + 2 ^ o1] + mset [i XOR 2 ^ o1 ..< (i XOR 2 ^ o1) + 2 ^ o1]"
proof -
  have two: "mset [j ..< j + 2 ^ Suc o1] = mset [j ..< j + 2 ^ o1] + mset [j + 2 ^ o1 ..< (j + 2 ^ o1) + 2 ^ o1]" for j :: nat
    using upt_add_eq_append [of j "j + 2 ^ o1" "2 ^ o1"] by (simp add: add.assoc mult_2)
  show ?thesis
  proof (cases "even (i div 2 ^ o1)")
    case True
    then show ?thesis using two [of i] xor_exp_nat [OF assms] by (simp add: min_def)
  next
    case False
    then have "2 ^ o1 \<le> i" by (rule odd_block_ge [OF assms])
    moreover have "min i (i - 2 ^ o1) = i - 2 ^ o1" by simp
    ultimately show ?thesis using False two [of "i - 2 ^ o1"] xor_exp_nat [OF assms]
      by (simp add: add.commute del: mset_upt)
  qed
qed

section \<open>Orders\<close>

lemma FloorLog2_loop_bounds:
  "2 ^ o1 \<le> p \<Longrightarrow> o1 < MAX_BUDDY_ORDERS \<Longrightarrow>
   2 ^ FloorLog2_loop o1 p \<le> p \<and> FloorLog2_loop o1 p < MAX_BUDDY_ORDERS \<and>
   (p < 2 ^ (FloorLog2_loop o1 p + 1) \<or> FloorLog2_loop o1 p + 1 = MAX_BUDDY_ORDERS)"
proof (induction o1 p rule: FloorLog2_loop.induct)
  case (1 o1 p)
  show ?case
  proof (cases "o1 + 1 < MAX_BUDDY_ORDERS \<and> 2 ^ (o1 + 1) \<le> p")
    case True
    with 1 show ?thesis by (subst (1 2 3 4) FloorLog2_loop.simps) simp
  next
    case False
    with "1.prems" show ?thesis by (subst (1 2 3 4) FloorLog2_loop.simps) auto
  qed
qed

lemma FloorLog2Pages_bounds:
  assumes "0 < p"
  shows "2 ^ FloorLog2Pages p \<le> p" and "FloorLog2Pages p < MAX_BUDDY_ORDERS"
    and "p < 2 ^ MAX_BUDDY_ORDERS \<Longrightarrow> p < 2 ^ Suc (FloorLog2Pages p)"
proof -
  have l: "2 ^ FloorLog2_loop 0 p \<le> p \<and> FloorLog2_loop 0 p < MAX_BUDDY_ORDERS \<and>
   (p < 2 ^ (FloorLog2_loop 0 p + 1) \<or> FloorLog2_loop 0 p + 1 = MAX_BUDDY_ORDERS)"
    using assms by (intro FloorLog2_loop_bounds) (simp_all add: MAX_BUDDY_ORDERS_def)
  show "2 ^ FloorLog2Pages p \<le> p" "FloorLog2Pages p < MAX_BUDDY_ORDERS"
    using l assms by (auto simp: FloorLog2Pages_def MAX_BUDDY_ORDERS_def)
  assume p: "p < 2 ^ MAX_BUDDY_ORDERS"
  have "FloorLog2_loop 0 p + 1 = MAX_BUDDY_ORDERS \<Longrightarrow> p < 2 ^ (FloorLog2_loop 0 p + 1)"
    using p by metis
  with l have "p < 2 ^ Suc (FloorLog2_loop 0 p)" by (metis Suc_eq_plus1)
  with assms show "p < 2 ^ Suc (FloorLog2Pages p)" by (simp add: FloorLog2Pages_def)
qed

lemma CeilLog2Pages_bounds:
  assumes "0 < p" and "p \<le> 2 ^ 51"
  shows "p \<le> 2 ^ CeilLog2Pages p" and "CeilLog2Pages p < MAX_BUDDY_ORDERS"
    and "1 < p \<Longrightarrow> 2 ^ CeilLog2Pages p < 2 * p"
proof -
  let ?f = "FloorLog2Pages p"
  have f: "2 ^ ?f \<le> p" "?f < MAX_BUDDY_ORDERS" "p < 2 ^ Suc ?f"
    using FloorLog2Pages_bounds [OF assms(1)] assms(2) by (simp_all add: MAX_BUDDY_ORDERS_def)
  have last: "2 ^ ?f < p \<Longrightarrow> ?f + 1 < MAX_BUDDY_ORDERS"
  proof (rule ccontr)
    assume "2 ^ ?f < p" and "\<not> ?f + 1 < MAX_BUDDY_ORDERS"
    with f(2) have "?f = 51" by (simp add: MAX_BUDDY_ORDERS_def)
    with \<open>2 ^ ?f < p\<close> assms(2) show False by simp
  qed
  show "p \<le> 2 ^ CeilLog2Pages p" "CeilLog2Pages p < MAX_BUDDY_ORDERS"
    using f last by (cases "2 ^ ?f < p"; auto simp: CeilLog2Pages_def Let_def)+
  show "1 < p \<Longrightarrow> 2 ^ CeilLog2Pages p < 2 * p"
    using f by (auto simp: CeilLog2Pages_def Let_def)
qed

section \<open>Insertion and removal of a block\<close>

lemma lists_ok_Push:
  "lists_ok b T M fl \<Longrightarrow> block_ok b T M o1 a \<Longrightarrow> lists_ok b T M (PushBlock o1 a fl)"
proof -
  assume l: "lists_ok b T M fl" and a: "block_ok b T M o1 a"
  then have "o1 < length fl" by (auto simp: lists_ok_def block_ok_def)
  with l a show ?thesis by (auto simp: lists_ok_def PushBlock_def nth_list_update split: if_splits)
qed

lemma lists_ok_shrink:
  "lists_ok b T M fl \<Longrightarrow> set xs \<subseteq> set (fl ! o1) \<Longrightarrow> lists_ok b T M (fl[o1 := xs])"
  unfolding lists_ok_def by (cases "o1 < length fl") (auto simp: nth_list_update split: if_splits)

lemma coalesced_shrink:
  "coalesced b M fl \<Longrightarrow> set xs \<subseteq> set (fl ! o1) \<Longrightarrow> coalesced b M (fl[o1 := xs])"
  unfolding coalesced_def
  by (cases "o1 < length fl") (auto simp: nth_list_update list_update_beyond split: if_splits)

lemma buddy_of_involution: "buddy_of b o1 (buddy_of b o1 a) = b + page_index b a * PAGE_BYTES"
  by (simp add: buddy_of_def buddy_involution)

lemma buddy_of_neq: "block_ok b T M o1 a \<Longrightarrow> buddy_of b o1 a \<noteq> a"
proof
  assume a: "block_ok b T M o1 a" and e: "buddy_of b o1 a = a"
  have "page_index b (buddy_of b o1 a) = page_index b a XOR 2 ^ o1" by (simp add: buddy_of_def)
  with e buddy_neq [of "page_index b a" o1] show False by simp
qed

lemma coalesced_Push:
  assumes lists: "lists_ok b T M fl" and co: "coalesced b M fl"
    and a: "block_ok b T M o1 a" and new: "o1 < M \<Longrightarrow> buddy_of b o1 a \<notin> set (fl ! o1)"
  shows "coalesced b M (PushBlock o1 a fl)"
proof -
  have len: "o1 < length fl" using lists a by (auto simp: lists_ok_def block_ok_def)
  have sym: "buddy_of b o1 c = a \<Longrightarrow> c \<in> set (fl ! o1) \<Longrightarrow> buddy_of b o1 a = c" for c
  proof -
    assume c: "buddy_of b o1 c = a" "c \<in> set (fl ! o1)"
    with lists len have "block_ok b T M o1 c" by (simp add: lists_ok_def)
    with c show ?thesis using buddy_of_involution [of b o1 c] block_ok_index [of b T M o1 c] by metis
  qed
  show ?thesis
    unfolding coalesced_def
  proof (intro allI impI ballI)
    fix k x assume k: "k < M" and x: "x \<in> set (PushBlock o1 a fl ! k)"
    show "buddy_of b k x \<notin> set (PushBlock o1 a fl ! k)"
    proof (cases "k = o1")
      case False
      with x co k len show ?thesis by (simp add: PushBlock_def coalesced_def)
    next
      case True
      with len have set: "set (PushBlock o1 a fl ! k) = insert a (set (fl ! o1))"
        by (simp add: PushBlock_def)
      show ?thesis
      proof (cases "x = a")
        case True
        with \<open>k = o1\<close> set new k buddy_of_neq [OF a] show ?thesis by auto
      next
        case False
        with x set have "x \<in> set (fl ! o1)" by simp
        with co k \<open>k = o1\<close> have "buddy_of b o1 x \<notin> set (fl ! o1)" by (simp add: coalesced_def)
        moreover have "buddy_of b o1 x \<noteq> a"
          using sym [of x] new k \<open>k = o1\<close> \<open>x \<in> set (fl ! o1)\<close> by auto
        ultimately show ?thesis using set \<open>k = o1\<close> by simp
      qed
    qed
  qed
qed

lemma RemoveBlock_False: "RemoveBlockFromFreeList fl o1 a = (False, fl') \<Longrightarrow> a \<notin> set (fl ! o1)"
  by (simp add: RemoveBlockFromFreeList_def split: if_splits)

lemma RemoveBlock_True:
  "RemoveBlockFromFreeList fl o1 a = (True, fl') \<Longrightarrow>
   a \<in> set (fl ! o1) \<and> fl' = fl[o1 := remove1 a (fl ! o1)]"
  by (simp add: RemoveBlockFromFreeList_def split: if_splits)

section \<open>Coalescing\<close>

lemma block_ok_merge:
  assumes a: "block_ok b T M o1 a" and b: "block_ok b T M o1 (buddy_of b o1 a)" and M: "o1 < M"
  shows "block_ok b T M (Suc o1) (min (buddy_of b o1 a) a)"
    and "block_pages b (Suc o1) (min (buddy_of b o1 a) a) =
         block_pages b o1 a + block_pages b o1 (buddy_of b o1 a)"
proof -
  let ?i = "page_index b a" and ?j = "page_index b a XOR 2 ^ o1"
  note ia = block_ok_index [OF a]
  have jb: "?j + 2 ^ o1 \<le> T" using block_ok_index [OF b] by (simp add: buddy_of_def)
  have m: "min (buddy_of b o1 a) a = b + min ?i ?j * PAGE_BYTES"
    using ia by (simp add: buddy_of_def min_def layout_simps)
  have T: "min ?i ?j + 2 ^ Suc o1 \<le> T"
  proof (cases "even (?i div 2 ^ o1)")
    case True
    with xor_exp_even [OF True] jb show ?thesis by simp
  next
    case False
    then have "2 ^ o1 \<le> ?i" using ia by (intro odd_block_ge) auto
    with False ia xor_exp_nat [of o1 ?i] show ?thesis by simp
  qed
  show "block_ok b T M (Suc o1) (min (buddy_of b o1 a) a)"
    unfolding m block_ok_def using merge_dvd [of o1 ?i] ia T M by auto
  show "block_pages b (Suc o1) (min (buddy_of b o1 a) a) =
         block_pages b o1 a + block_pages b o1 (buddy_of b o1 a)"
    unfolding m block_pages_def using merge_pages [of o1 ?i] ia by (simp add: buddy_of_def del: mset_upt)
qed

lemma Coalesce_spec:
  assumes "Coalesce b T M a o1 fl = (a', o', fl')"
    and "lists_ok b T M fl" and "coalesced b M fl" and "block_ok b T M o1 a"
  shows "lists_ok b T M fl' \<and> coalesced b M fl' \<and> block_ok b T M o' a' \<and>
     block_pages b o' a' + free_pages b fl' = block_pages b o1 a + free_pages b fl \<and>
     (o' < M \<longrightarrow> buddy_of b o' a' \<notin> set (fl' ! o'))"
  using assms
proof (induction b T M a o1 fl rule: Coalesce.induct)
  case (1 b T M a o1 fl)
  let ?bud = "buddy_of b o1 a"
  note ia = block_ok_index [OF "1.prems"(4)]
  have o52: "o1 < MAX_BUDDY_ORDERS" using "1.prems"(2) ia by (simp add: lists_ok_def)
  have step: "Coalesce b T M a o1 fl =
      (if \<not> o1 < M then (a, o1, fl)
       else if page_index b ?bud + 2 ^ o1 > T then (a, o1, fl)
       else case RemoveBlockFromFreeList fl o1 ?bud of
           (False, _) \<Rightarrow> (a, o1, fl)
         | (True, fl1) \<Rightarrow> Coalesce b T M (min ?bud a) (o1 + 1) fl1)"
    by (subst Coalesce.simps)
      (simp add: Let_def PagesForOrder_def buddy_of_def page_index_def min_def layout_simps
        split: bool.split prod.split)
  consider (top) "\<not> o1 < M" | (out) "o1 < M" "page_index b ?bud + 2 ^ o1 > T"
    | (absent) fl1 where "o1 < M" "\<not> page_index b ?bud + 2 ^ o1 > T"
        "RemoveBlockFromFreeList fl o1 ?bud = (False, fl1)"
    | (found) fl1 where "o1 < M" "\<not> page_index b ?bud + 2 ^ o1 > T"
        "RemoveBlockFromFreeList fl o1 ?bud = (True, fl1)"
    by (metis (full_types) surj_pair)
  then show ?case
  proof cases
    case top
    with 1(2) step "1.prems" show ?thesis by simp
  next
    case out
    then have "?bud \<notin> set (fl ! o1)"
      using "1.prems"(2) o52 block_ok_index [of b T M o1 ?bud] by (auto simp: lists_ok_def)
    with out step "1.prems" show ?thesis by simp
  next
    case absent
    with step "1.prems" RemoveBlock_False show ?thesis by fastforce
  next
    case found
    from RemoveBlock_True [OF found(3)] have mem: "?bud \<in> set (fl ! o1)"
      and fl1: "fl1 = fl[o1 := remove1 ?bud (fl ! o1)]" by auto
    have okb: "block_ok b T M o1 ?bud" using "1.prems"(2) o52 mem by (simp add: lists_ok_def)
    note mg = block_ok_merge [OF "1.prems"(4) okb found(1)]
    have l1: "lists_ok b T M fl1" "coalesced b M fl1"
      unfolding fl1 using "1.prems"(2,3) by (simp_all add: lists_ok_shrink [OF _ set_remove1_subset] coalesced_shrink [OF _ set_remove1_subset])
    have pages: "free_pages b fl = block_pages b o1 ?bud + free_pages b fl1"
      unfolding fl1 using mem o52 "1.prems"(2) by (intro free_pages_remove1) (simp_all add: lists_ok_def)
    have rec: "Coalesce b T M (min ?bud a) (o1 + 1) fl1 = (a', o', fl')"
      using "1.prems"(1) step found by simp
    have "block_pages b (o1 + 1) (min ?bud a) + free_pages b fl1 = block_pages b o1 a + free_pages b fl"
      using mg(2) pages by (simp add: ac_simps)
    moreover have "lists_ok b T M fl' \<and> coalesced b M fl' \<and> block_ok b T M o' a' \<and>
       block_pages b o' a' + free_pages b fl' =
       block_pages b (o1 + 1) (min ?bud a) + free_pages b fl1 \<and>
       (o' < M \<longrightarrow> buddy_of b o' a' \<notin> set (fl' ! o'))"
    proof -
      have lt: "(if x < y then x else y) = min x y" for x y :: nat by simp
      have "b + (page_index b a XOR PagesForOrder o1) * PAGE_BYTES = ?bud"
        by (simp add: buddy_of_def PagesForOrder_def)
      moreover have "\<not> (page_index b a XOR PagesForOrder o1) + PagesForOrder o1 > T"
        using found(2) by (simp add: buddy_of_def PagesForOrder_def)
      ultimately show ?thesis
        using "1.IH" [of "PagesForOrder o1" "page_index b a" "page_index b a XOR PagesForOrder o1"
            ?bud] rec l1 mg(1) found(1,3)
        by (simp only: lt page_index_def) simp
    qed
    ultimately show ?thesis by simp
  qed
qed

section \<open>Splitting\<close>

lemma block_ok_halves:
  assumes a: "block_ok b T M (Suc o1) a"
  shows "block_ok b T M o1 a" and "block_ok b T M o1 (a + 2 ^ o1 * PAGE_BYTES)"
    and "block_pages b (Suc o1) a = block_pages b o1 a + block_pages b o1 (a + 2 ^ o1 * PAGE_BYTES)"
proof -
  obtain i where i: "a = b + i * PAGE_BYTES" "2 ^ Suc o1 dvd i" "i + 2 ^ Suc o1 \<le> T" and M: "Suc o1 \<le> M"
    using a by (auto simp: block_ok_def)
  have up: "a + 2 ^ o1 * PAGE_BYTES = b + (i + 2 ^ o1) * PAGE_BYTES" using i(1) by (simp add: add_mult_distrib)
  have d: "2 ^ o1 dvd i" using i(2) by (rule power_le_dvd) simp
  show "block_ok b T M o1 a" unfolding block_ok_def using i(1,3) d M by auto
  show "block_ok b T M o1 (a + 2 ^ o1 * PAGE_BYTES)"
    unfolding block_ok_def up using i(3) d M by (intro conjI exI [of _ "i + 2 ^ o1"]) auto
  show "block_pages b (Suc o1) a = block_pages b o1 a + block_pages b o1 (a + 2 ^ o1 * PAGE_BYTES)"
    unfolding block_pages_def up unfolding i(1)
    using upt_add_eq_append [of i "i + 2 ^ o1" "2 ^ o1"] by (simp add: add.assoc mult_2 del: mset_upt)
qed

lemma SplitBlock_spec:
  "lists_ok b T M fl \<Longrightarrow> coalesced b M fl \<Longrightarrow> block_ok b T M o1 a \<Longrightarrow> r \<le> o1 \<Longrightarrow>
   (\<forall>k. r \<le> k \<longrightarrow> k < o1 \<longrightarrow> fl ! k = []) \<Longrightarrow>
   lists_ok b T M (SplitBlock o1 r a fl) \<and> coalesced b M (SplitBlock o1 r a fl) \<and>
   block_ok b T M r a \<and>
   block_pages b r a + free_pages b (SplitBlock o1 r a fl) = block_pages b o1 a + free_pages b fl"
proof (induction o1 r a fl rule: SplitBlock.induct)
  case (1 r a fl)
  then show ?case by simp
next
  case (2 o1 r a fl)
  show ?case
  proof (cases "Suc o1 > r")
    case False
    with 2 show ?thesis by (simp add: le_Suc_eq)
  next
    case True
    note h = block_ok_halves [OF "2.prems"(3)]
    let ?fl = "PushBlock o1 (a + 2 ^ o1 * PAGE_BYTES) fl"
    have len: "o1 < length fl" using "2.prems"(1,3) by (auto simp: lists_ok_def block_ok_def)
    have e: "fl ! o1 = []" using "2.prems"(5) True by simp
    have "lists_ok b T M ?fl" using "2.prems"(1) h(2) by (rule lists_ok_Push)
    moreover have "coalesced b M ?fl" using "2.prems"(1,2) h(2) e by (intro coalesced_Push) auto
    moreover have "\<forall>k. r \<le> k \<longrightarrow> k < o1 \<longrightarrow> ?fl ! k = []"
      using "2.prems"(5) by (simp add: PushBlock_def)
    ultimately show ?thesis
      using "2.IH" [OF True] h True len by (simp add: PagesForOrder_def free_pages_Push ac_simps)
  qed
qed

lemma FirstNonEmpty_spec:
  "r \<le> FirstNonEmpty fl r M \<and> (\<forall>k. r \<le> k \<longrightarrow> k < FirstNonEmpty fl r M \<longrightarrow> fl ! k = []) \<and>
   (FirstNonEmpty fl r M \<le> M \<longrightarrow> fl ! FirstNonEmpty fl r M \<noteq> []) \<and>
   (M < FirstNonEmpty fl r M \<longrightarrow> (\<forall>k. r \<le> k \<longrightarrow> k \<le> M \<longrightarrow> fl ! k = []))"
proof (induction fl r M rule: FirstNonEmpty.induct)
  case (1 fl r M)
  show ?case
  proof (cases "r \<le> M \<and> fl ! r = []")
    case False
    then have "FirstNonEmpty fl r M = r" by (subst FirstNonEmpty.simps) auto
    with False show ?thesis by auto
  next
    case True
    then have e: "FirstNonEmpty fl r M = FirstNonEmpty fl (r + 1) M" by (subst FirstNonEmpty.simps) auto
    show ?thesis
      unfolding e using 1 [OF True] True by (metis Suc_eq_plus1 Suc_leD Suc_leI le_neq_implies_less)
  qed
qed

section \<open>The allocator's invariant\<close>

definition free_of :: "pmm \<Rightarrow> nat multiset" where
  "free_of s = free_pages (PhysicalAddressStart s) (BuddyFreeLists s)"

definition block_of :: "pmm \<Rightarrow> nat \<Rightarrow> addr \<Rightarrow> nat multiset" where
  "block_of s Pages a = block_pages (PhysicalAddressStart s) (CeilLog2Pages Pages) a"

definition pmm_inv :: "pmm \<Rightarrow> bool" where
  "pmm_inv s \<longleftrightarrow>
     BitMap s = Some (PhysicalAddressStart s) \<and> 0 < PhysicalAddressStart s \<and> 0 < DescriptorPages s \<and>
     PhysicalAddressStart s + DescriptorPages s * PAGE_BYTES \<le> PMM_BUDDY_PHYSICAL_LIMIT \<and>
     BuddyMaxOrder s = FloorLog2Pages (DescriptorPages s) \<and>
     lists_ok (PhysicalAddressStart s) (DescriptorPages s) (BuddyMaxOrder s) (BuddyFreeLists s) \<and>
     coalesced (PhysicalAddressStart s) (BuddyMaxOrder s) (BuddyFreeLists s) \<and>
     free_of s \<subseteq># mset [0..<DescriptorPages s] \<and>
     NumberOfFreePages s = size (free_of s)"

lemma block_pages_size [simp]: "size (block_pages b o1 a) = 2 ^ o1"
  by (simp add: block_pages_def)

lemma pmm_inv_bounds:
  "pmm_inv s \<Longrightarrow> DescriptorPages s \<le> 0xC0000"
  "pmm_inv s \<Longrightarrow> NumberOfFreePages s \<le> DescriptorPages s"
  by (auto simp: pmm_inv_def layout_simps dest: size_mset_mono)

lemma pmm_inv_update:
  "pmm_inv s \<Longrightarrow>
   lists_ok (PhysicalAddressStart s) (DescriptorPages s) (BuddyMaxOrder s) fl \<Longrightarrow>
   coalesced (PhysicalAddressStart s) (BuddyMaxOrder s) fl \<Longrightarrow>
   free_pages (PhysicalAddressStart s) fl \<subseteq># mset [0..<DescriptorPages s] \<Longrightarrow>
   n = size (free_pages (PhysicalAddressStart s) fl) \<Longrightarrow>
   pmm_inv (s\<lparr>BuddyFreeLists := fl, NumberOfFreePages := n\<rparr>)"
  by (simp add: pmm_inv_def free_of_def)

section \<open>Allocation\<close>

lemma Allocate_None:
  assumes inv: "pmm_inv s" and r: "AllocatePagesFromDescriptor s n = (None, s')"
  shows "s' = s \<and>
    (n = 0 \<or> NumberOfFreePages s < n \<or>
     (\<forall>k. CeilLog2Pages n \<le> k \<longrightarrow> k \<le> BuddyMaxOrder s \<longrightarrow> BuddyFreeLists s ! k = []))"
proof -
  let ?r = "CeilLog2Pages n" and ?M = "BuddyMaxOrder s" and ?fl = "BuddyFreeLists s"
  let ?k = "FirstNonEmpty ?fl ?r ?M" and ?b = "PhysicalAddressStart s"
  consider (easy) "n = 0 \<or> BitMap s = None \<or> n > NumberOfFreePages s \<or> ?r > ?M"
    | (none) "0 < n" "BitMap s \<noteq> None" "n \<le> NumberOfFreePages s" "?r \<le> ?M" "?k > ?M"
    | (some) "0 < n" "BitMap s \<noteq> None" "n \<le> NumberOfFreePages s" "?r \<le> ?M" "?k \<le> ?M"
    by linarith
  then show ?thesis
  proof cases
    case easy
    with r inv show ?thesis by (auto simp: AllocatePagesFromDescriptor_def pmm_inv_def split: if_splits)
  next
    case none
    with r FirstNonEmpty_spec [of ?r ?fl ?M] show ?thesis
      by (auto simp: AllocatePagesFromDescriptor_def)
  next
    case some
    note f = FirstNonEmpty_spec [of ?r ?fl ?M]
    from f some have ne: "?fl ! ?k \<noteq> []" by simp
    then have "hd (?fl ! ?k) \<in> set (?fl ! ?k)" by simp
    moreover have "?k < length ?fl" using some inv by (simp add: pmm_inv_def lists_ok_def)
    ultimately have "block_pages ?b ?k (hd (?fl ! ?k)) \<subseteq># free_of s"
      unfolding free_of_def by (intro block_subset_free)
    then have "2 ^ ?k \<le> NumberOfFreePages s"
      using inv size_mset_mono by (fastforce simp: pmm_inv_def)
    moreover have "(2::nat) ^ ?r \<le> 2 ^ ?k" using f by simp
    ultimately have "PagesForOrder ?r \<le> NumberOfFreePages s"
      unfolding PagesForOrder_def by (metis order_trans)
    with r some show ?thesis by (simp add: AllocatePagesFromDescriptor_def Let_def)
  qed
qed

lemma Allocate_Some:
  assumes inv: "pmm_inv s" and r: "AllocatePagesFromDescriptor s n = (Some a, s')"
  shows "pmm_inv s' \<and> free_of s = block_of s n a + free_of s' \<and> 0 < n \<and> n \<le> 2 ^ CeilLog2Pages n \<and>
    block_ok (PhysicalAddressStart s) (DescriptorPages s) (BuddyMaxOrder s) (CeilLog2Pages n) a \<and>
    NumberOfFreePages s' + 2 ^ CeilLog2Pages n = NumberOfFreePages s \<and>
    s' = s\<lparr>BuddyFreeLists := BuddyFreeLists s', NumberOfFreePages := NumberOfFreePages s'\<rparr>"
proof -
  let ?r = "CeilLog2Pages n" and ?M = "BuddyMaxOrder s" and ?fl = "BuddyFreeLists s"
  let ?k = "FirstNonEmpty ?fl ?r ?M" and ?b = "PhysicalAddressStart s"
  let ?T = "DescriptorPages s" and ?h = "hd (?fl ! ?k)"
  let ?fl1 = "?fl[?k := tl (?fl ! ?k)]"
  let ?fl2 = "SplitBlock ?k ?r ?h ?fl1"
  from r have n: "0 < n" "n \<le> NumberOfFreePages s" "?k \<le> ?M" "PagesForOrder ?r \<le> NumberOfFreePages s"
    and a: "a = ?h"
    and s': "s' = s\<lparr>BuddyFreeLists := ?fl2, NumberOfFreePages := NumberOfFreePages s - 2 ^ ?r\<rparr>"
    by (auto simp: AllocatePagesFromDescriptor_def Let_def PagesForOrder_def split: if_splits)
  note f = FirstNonEmpty_spec [of ?r ?fl ?M]
  from f n have ne: "?fl ! ?k \<noteq> []" by simp
  have lo: "lists_ok ?b ?T ?M ?fl" and co: "coalesced ?b ?M ?fl" and sub: "free_of s \<subseteq># mset [0..<?T]"
    and sz: "NumberOfFreePages s = size (free_of s)"
    using inv unfolding pmm_inv_def by blast+
  have tl: "tl (?fl ! ?k) = remove1 ?h (?fl ! ?k)" using ne by (cases "?fl ! ?k") auto
  have len: "?k < length ?fl" using n lo by (simp add: lists_ok_def)
  have hok: "block_ok ?b ?T ?M ?k ?h" using lo len ne by (simp add: lists_ok_def)
  have set: "set (tl (?fl ! ?k)) \<subseteq> set (?fl ! ?k)" using ne by (cases "?fl ! ?k") auto
  have "\<forall>k. ?r \<le> k \<longrightarrow> k < ?k \<longrightarrow> ?fl1 ! k = []" using f len by auto
  from SplitBlock_spec [OF lists_ok_shrink [OF lo set] coalesced_shrink [OF co set] hok _ this] f
  have sp: "lists_ok ?b ?T ?M ?fl2" "coalesced ?b ?M ?fl2" "block_ok ?b ?T ?M ?r ?h"
     "block_pages ?b ?r ?h + free_pages ?b ?fl2 = block_pages ?b ?k ?h + free_pages ?b ?fl1" by auto
  have fr: "free_of s = block_of s n a + free_pages ?b ?fl2"
    using sp(4) free_pages_remove1 [OF len, of ?h ?b] ne
    by (simp add: free_of_def block_of_def a tl)
  have "n \<le> ?T" using n(2) pmm_inv_bounds(2) [OF inv] by simp
  then have "n \<le> 2 ^ 51" using pmm_inv_bounds(1) [OF inv] by simp
  with n(1) have ge: "n \<le> 2 ^ ?r" by (rule CeilLog2Pages_bounds)
  have size: "size (free_pages ?b ?fl2) = NumberOfFreePages s - 2 ^ ?r"
    unfolding sz fr by (simp add: block_of_def)
  have "free_pages ?b ?fl2 \<subseteq># mset [0..<?T]" using sub fr subset_mset.order_trans by (metis mset_subset_eq_add_right)
  with sp(1,2) size inv have "pmm_inv s'" unfolding s' by (intro pmm_inv_update) simp_all
  moreover have "free_of s' = free_pages ?b ?fl2" by (simp add: s' free_of_def)
  ultimately show ?thesis
    using fr n ge sp(3) a s' by (simp add: PagesForOrder_def)
qed
section \<open>Release\<close>

lemma block_ok_range:
  assumes "pmm_inv s"
    and "block_ok (PhysicalAddressStart s) (DescriptorPages s) (BuddyMaxOrder s) o1 a"
  shows "IsAddressInManagedRange s a" and "(a - PhysicalAddressStart s) mod PAGE_BYTES = 0"
    and "PhysicalAddressStart s \<le> a"
    and "a + 2 ^ o1 * PAGE_BYTES \<le> PMM_BUDDY_PHYSICAL_LIMIT"
proof -
  let ?b = "PhysicalAddressStart s"
  obtain i where i: "a = ?b + i * PAGE_BYTES" "i + 2 ^ o1 \<le> DescriptorPages s"
    using assms(2) by (auto simp: block_ok_def)
  have lim: "?b + DescriptorPages s * PAGE_BYTES \<le> PMM_BUDDY_PHYSICAL_LIMIT"
    using assms(1) by (simp add: pmm_inv_def)
  have pos: "(0::nat) < 2 ^ o1" by simp
  with i(2) have lt: "i < DescriptorPages s" by linarith
  from lim have w: "w64 (?b + DescriptorPages s * PAGE_BYTES) = ?b + DescriptorPages s * PAGE_BYTES"
    by (simp add: w64_def layout_simps)
  show "IsAddressInManagedRange s a"
    unfolding IsAddressInManagedRange_def w i(1) using lt by (simp add: layout_simps)
  show "(a - ?b) mod PAGE_BYTES = 0" "?b \<le> a" by (simp_all add: i(1))
  have "(i + 2 ^ o1) * PAGE_BYTES \<le> DescriptorPages s * PAGE_BYTES" by (rule mult_le_mono1 [OF i(2)])
  with lim show "a + 2 ^ o1 * PAGE_BYTES \<le> PMM_BUDDY_PHYSICAL_LIMIT"
    unfolding i(1) by (simp add: add_mult_distrib)
qed

text \<open>A block that is not free goes back: the call succeeds and the pages are free again.\<close>

lemma Free_ok:
  assumes inv: "pmm_inv s" and n: "0 < n"
    and ok: "block_ok (PhysicalAddressStart s) (DescriptorPages s) (BuddyMaxOrder s) (CeilLog2Pages n) a"
    and new: "block_of s n a + free_of s \<subseteq># mset [0..<DescriptorPages s]"
  shows "\<exists>s'. FreePagesFromDescriptor s a n = (True, s') \<and> pmm_inv s' \<and>
     free_of s' = block_of s n a + free_of s \<and>
     NumberOfFreePages s' = NumberOfFreePages s + 2 ^ CeilLog2Pages n \<and>
     s' = s\<lparr>BuddyFreeLists := BuddyFreeLists s', NumberOfFreePages := NumberOfFreePages s'\<rparr>"
proof -
  let ?r = "CeilLog2Pages n" and ?M = "BuddyMaxOrder s" and ?fl = "BuddyFreeLists s"
  let ?b = "PhysicalAddressStart s" and ?T = "DescriptorPages s"
  note rg = block_ok_range [OF inv ok]
  note ix = block_ok_index [OF ok]
  have lo: "lists_ok ?b ?T ?M ?fl" and co: "coalesced ?b ?M ?fl" and bm: "BitMap s \<noteq> None" and b0: "0 < ?b"
    and sz: "NumberOfFreePages s = size (free_of s)"
    using inv unfolding pmm_inv_def by auto
  obtain a' o' fl' where c: "Coalesce ?b ?T ?M a ?r ?fl = (a', o', fl')" by (metis surj_pair)
  note cs = Coalesce_spec [OF c lo co ok]
  let ?fl' = "PushBlock o' a' fl'"
  have len: "o' < length fl'" using cs by (auto simp: lists_ok_def block_ok_def)
  have fr: "free_pages ?b ?fl' = block_of s n a + free_of s"
    using cs len by (simp add: free_pages_Push block_of_def free_of_def)
  have le: "NumberOfFreePages s + 2 ^ ?r \<le> ?T"
    using size_mset_mono [OF new] by (simp add: sz block_of_def)
  have "FreePagesFromDescriptor s a n =
     (True, s\<lparr>BuddyFreeLists := ?fl', NumberOfFreePages := NumberOfFreePages s + 2 ^ ?r\<rparr>)"
    using rg ix bm b0 n c le
    by (simp add: FreePagesFromDescriptor_def Let_def PagesForOrder_def page_index_def)
  moreover have "pmm_inv (s\<lparr>BuddyFreeLists := ?fl', NumberOfFreePages := NumberOfFreePages s + 2 ^ ?r\<rparr>)"
  proof (rule pmm_inv_update [OF inv])
    show "lists_ok ?b ?T ?M ?fl'" using cs by (intro lists_ok_Push) auto
    show "coalesced ?b ?M ?fl'" using cs by (intro coalesced_Push) auto
    show "free_pages ?b ?fl' \<subseteq># mset [0..<?T]" using new fr by simp
    show "NumberOfFreePages s + 2 ^ ?r = size (free_pages ?b ?fl')" by (simp add: fr sz block_of_def)
  qed
  ultimately show ?thesis using fr by (intro exI) (auto simp: free_of_def)
qed

lemma Free_fails: "FreePagesFromDescriptor s a n = (False, s') \<Longrightarrow> s' = s"
  by (auto simp: FreePagesFromDescriptor_def Let_def split: if_splits prod.splits)


section \<open>Initialisation\<close>

lemma AlignedOrder_dvd: "2 ^ o1 dvd off \<Longrightarrow> AlignedOrder o1 off = o1"
  by (cases o1) (auto simp: PagesForOrder_def)

lemma InitializeBuddy_loop_spec:
  "lists_ok b T M fl \<Longrightarrow> coalesced b M fl \<Longrightarrow> off + rem = T \<Longrightarrow> rem < 2 ^ MAX_BUDDY_ORDERS \<Longrightarrow>
   (0 < rem \<Longrightarrow> 2 ^ FloorLog2Pages rem dvd off \<and> FloorLog2Pages rem \<le> M \<and>
      (\<forall>k\<le>FloorLog2Pages rem. fl ! k = [])) \<Longrightarrow>
   lists_ok b T M (InitializeBuddy_loop b off rem fl) \<and>
   coalesced b M (InitializeBuddy_loop b off rem fl) \<and>
   free_pages b (InitializeBuddy_loop b off rem fl) = free_pages b fl + mset [off..<T]"
proof (induction b off rem fl rule: InitializeBuddy_loop.induct)
  case (1 b off rem fl)
  show ?case
  proof (cases "rem = 0")
    case True
    with 1 show ?thesis by (subst (1 2 3) InitializeBuddy_loop.simps) simp
  next
    case False
    let ?k = "FloorLog2Pages rem" and ?a = "b + off * PAGE_BYTES"
    let ?fl = "PushBlock ?k ?a fl"
    have k: "2 ^ ?k \<le> rem" "rem < 2 ^ Suc ?k"
      using FloorLog2Pages_bounds [of rem] False "1.prems"(4) by simp_all
    have off: "2 ^ ?k dvd off" "?k \<le> M" "\<forall>j\<le>?k. fl ! j = []"
      using "1.prems"(5) False by auto
    have al: "AlignedOrder ?k off = ?k" using off(1) by (rule AlignedOrder_dvd)
    have step: "InitializeBuddy_loop b off rem fl =
        InitializeBuddy_loop b (off + 2 ^ ?k) (rem - 2 ^ ?k) ?fl"
      using False al by (subst InitializeBuddy_loop.simps) (simp add: PagesForOrder_def Let_def)
    have ok: "block_ok b T M ?k ?a"
      unfolding block_ok_def using off k(1) "1.prems"(3) by (intro conjI exI [of _ off]) auto
    have len: "?k < length fl" using off(2) "1.prems"(1) by (simp add: lists_ok_def)
    have "lists_ok b T M ?fl" using "1.prems"(1) ok by (rule lists_ok_Push)
    moreover have "coalesced b M ?fl" using "1.prems"(1,2) ok off(3) by (intro coalesced_Push) auto
    moreover have "off + 2 ^ ?k + (rem - 2 ^ ?k) = T" using k(1) "1.prems"(3) by simp
    moreover have "rem - 2 ^ ?k < 2 ^ MAX_BUDDY_ORDERS" using "1.prems"(4) by simp
    moreover have "2 ^ FloorLog2Pages (rem - 2 ^ ?k) dvd off + 2 ^ ?k \<and>
        FloorLog2Pages (rem - 2 ^ ?k) \<le> M \<and> (\<forall>j\<le>FloorLog2Pages (rem - 2 ^ ?k). ?fl ! j = [])"
      if pos: "0 < rem - 2 ^ ?k"
    proof -
      let ?j = "FloorLog2Pages (rem - 2 ^ ?k)"
      have "2 ^ ?j \<le> rem - 2 ^ ?k" by (rule FloorLog2Pages_bounds [OF pos])
      moreover have "rem - 2 ^ ?k < 2 ^ ?k" using k by simp
      ultimately have "(2::nat) ^ ?j < 2 ^ ?k" by linarith
      then have jk: "?j < ?k" by simp
      then have "(2::nat) ^ ?j dvd 2 ^ ?k" by (simp add: le_imp_power_dvd)
      moreover have "2 ^ ?j dvd off" using off(1) jk by (meson dvd_trans le_imp_power_dvd less_imp_le)
      ultimately show ?thesis using jk off by (auto simp: PushBlock_def)
    qed
    moreover have "mset [off..<T] = block_pages b ?k ?a + mset [off + 2 ^ ?k..<T]"
    proof -
      have "[off..<T] = [off..<off + 2 ^ ?k] @ [off + 2 ^ ?k..<T]"
        using k(1) "1.prems"(3) upt_add_eq_append [of off "off + 2 ^ ?k" "rem - 2 ^ ?k"] by simp
      then show ?thesis by (simp add: block_pages_def del: mset_upt)
    qed
    ultimately show ?thesis
      using "1.IH" [of ?k "2 ^ ?k"] False al len
      unfolding step by (simp add: PagesForOrder_def free_pages_Push ac_simps del: mset_upt)
  qed
qed

lemma InitializeBuddyAllocator_inv:
  assumes "0 < DescriptorPages s" and "0 < PhysicalAddressStart s"
    and lim: "PhysicalAddressStart s + DescriptorPages s * PAGE_BYTES \<le> PMM_BUDDY_PHYSICAL_LIMIT"
    and "NumberOfFreePages s = DescriptorPages s"
  shows "pmm_inv (InitializeBuddyAllocator s) \<and>
     free_of (InitializeBuddyAllocator s) = mset [0..<DescriptorPages s] \<and>
     DescriptorPages (InitializeBuddyAllocator s) = DescriptorPages s \<and>
     PhysicalAddressStart (InitializeBuddyAllocator s) = PhysicalAddressStart s"
proof -
  let ?b = "PhysicalAddressStart s" and ?T = "DescriptorPages s" and ?M = "FloorLog2Pages (DescriptorPages s)"
  let ?fl = "replicate MAX_BUDDY_ORDERS ([] :: addr list)"
  let ?r = "InitializeBuddy_loop ?b 0 ?T ?fl"
  have T: "?T < 2 ^ MAX_BUDDY_ORDERS" using lim by (simp add: layout_simps)
  have M: "?M < MAX_BUDDY_ORDERS" using assms(1) by (rule FloorLog2Pages_bounds)
  have "lists_ok ?b ?T ?M ?fl" "coalesced ?b ?M ?fl" using M by (auto simp: lists_ok_def coalesced_def)
  then have r: "lists_ok ?b ?T ?M ?r \<and> coalesced ?b ?M ?r \<and> free_pages ?b ?r = free_pages ?b ?fl + mset [0..<?T]"
    by (rule InitializeBuddy_loop_spec) (use T M in auto)
  then have f: "free_pages ?b ?r = mset [0..<?T]" by (simp add: free_pages_empty)
  show ?thesis
    using assms r f
    by (simp add: InitializeBuddyAllocator_def pmm_inv_def free_of_def del: mset_upt)
qed

definition chosen_ok :: "pmm \<Rightarrow> bool" where
  "chosen_ok s \<longleftrightarrow> NumberOfFreePages s = DescriptorPages s \<and>
     (0 < DescriptorPages s \<longrightarrow>
        PhysicalAddressStart s + DescriptorPages s * PAGE_BYTES \<le> PMM_BUDDY_PHYSICAL_LIMIT)"

definition no_wrap :: "pmm \<Rightarrow> bool" where
  "no_wrap s \<longleftrightarrow> (\<forall>d\<in>set (MemoryMap s). PhysicalStart d + NumberOfPages d * PAGE_BYTES < 2 ^ 64) \<and>
     NextPageAddress s + RemainingPagesInDescriptor s * PAGE_BYTES < 2 ^ 64"

lemma ConsiderDescriptor_ok:
  assumes "chosen_ok s" and w: "no_wrap s" and "snd e \<in> set (MemoryMap s)"
  shows "chosen_ok (ConsiderDescriptor s e) \<and> MemoryMap (ConsiderDescriptor s e) = MemoryMap s \<and>
     NextPageAddress (ConsiderDescriptor s e) = NextPageAddress s \<and>
     RemainingPagesInDescriptor (ConsiderDescriptor s e) = RemainingPagesInDescriptor s \<and>
     CurrentDescriptor (ConsiderDescriptor s e) = CurrentDescriptor s \<and>
     DescriptorPages s \<le> DescriptorPages (ConsiderDescriptor s e)"
proof -
  obtain i d where e: "e = (i, d)" by (cases e)
  let ?start = "if i = CurrentDescriptor s then NextPageAddress s else PhysicalStart d"
  let ?pages = "if i = CurrentDescriptor s then RemainingPagesInDescriptor s else NumberOfPages d"
  let ?over = "?start + ?pages * PAGE_BYTES > PMM_BUDDY_PHYSICAL_LIMIT"
  let ?p = "if ?over then (PMM_BUDDY_PHYSICAL_LIMIT - ?start) div PAGE_BYTES else ?pages"
  have nw: "w64 (?start + ?pages * PAGE_BYTES) = ?start + ?pages * PAGE_BYTES"
    using w assms(3) by (auto simp: no_wrap_def w64_def e)
  have fits: "?start + ?p * PAGE_BYTES \<le> PMM_BUDDY_PHYSICAL_LIMIT" if "?start < PMM_BUDDY_PHYSICAL_LIMIT"
  proof -
    have "x + (y - x) div PAGE_BYTES * PAGE_BYTES \<le> y" if "x < y" for x y :: nat
      using that div_times_less_eq_dividend [of "y - x" PAGE_BYTES] by linarith
    with that show ?thesis by auto
  qed
  let ?t = "s\<lparr>PhysicalAddressStart := ?start, DescriptorPages := ?p, NumberOfFreePages := ?p, BitMap := None\<rparr>"
  have flat: "\<exists>ok. (if a then s else if b then s else if c then s else if x then s else if y then s
      else if z then t else s) = (if ok \<and> \<not> x \<and> z then t else s)" for a b c x y z and s t :: pmm
    by (rule exI [of _ "\<not> a \<and> \<not> b \<and> \<not> c \<and> \<not> y"]) simp
  have "\<exists>ok. ConsiderDescriptor s e =
      (if ok \<and> \<not> PMM_BUDDY_PHYSICAL_LIMIT \<le> ?start \<and> DescriptorPages s < ?p then ?t else s)"
    unfolding ConsiderDescriptor_def e Let_def prod.case nw by (rule flat)
  then consider (same) "ConsiderDescriptor s e = s"
    | (new) "ConsiderDescriptor s e = ?t" "?start < PMM_BUDDY_PHYSICAL_LIMIT" "DescriptorPages s < ?p"
    by (metis (no_types, lifting) not_le)
  then show ?thesis
  proof cases
    case same
    with assms(1) show ?thesis by simp
  next
    case new
    have "chosen_ok (ConsiderDescriptor s e)"
      unfolding new(1) chosen_ok_def using fits [OF new(2)] by simp
    with new(1,3) show ?thesis by simp
  qed
qed

lemma Consider_fold_ok:
  "chosen_ok s \<Longrightarrow> no_wrap s \<Longrightarrow> (\<forall>e\<in>set es. snd e \<in> set (MemoryMap s)) \<Longrightarrow>
   chosen_ok (foldl ConsiderDescriptor s es)"
proof (induction es arbitrary: s)
  case (Cons e es)
  from ConsiderDescriptor_ok [of s e] Cons.prems show ?case
    unfolding foldl_Cons by (intro Cons.IH) (simp_all add: no_wrap_def)
qed simp

lemma InitializeMemoryDescriptors_inv:
  assumes w: "no_wrap s" and s': "s' = InitializeMemoryDescriptors s"
    and "0 < DescriptorPages s'" and "0 < PhysicalAddressStart s'"
  shows "pmm_inv s' \<and> free_of s' = mset [0..<DescriptorPages s']"
proof -
  let ?z = "s\<lparr>PhysicalAddressStart := 0, DescriptorPages := 0, NumberOfFreePages := 0, BitMap := None\<rparr>"
  let ?c = "foldl ConsiderDescriptor ?z (zip [0..<length (MemoryMap s)] (MemoryMap s))"
  have "chosen_ok ?c"
    using w by (intro Consider_fold_ok) (auto simp: chosen_ok_def no_wrap_def dest: set_zip_rightD)
  moreover have e: "s' = InitializeBuddyAllocator ?c" by (simp add: s' InitializeMemoryDescriptors_def)
  moreover have "DescriptorPages s' = DescriptorPages ?c" "PhysicalAddressStart s' = PhysicalAddressStart ?c"
    unfolding e by (simp_all add: InitializeBuddyAllocator_def Let_def)
  ultimately show ?thesis
    using InitializeBuddyAllocator_inv [of ?c] assms(3,4) by (simp add: chosen_ok_def del: mset_upt)
qed

section \<open>Every run of allocations and releases\<close>

text \<open>The clients' side: the blocks handed out and not yet given back, with their page counts.\<close>

inductive pmm_step :: "pmm \<times> (addr \<times> nat) list \<Rightarrow> pmm \<times> (addr \<times> nat) list \<Rightarrow> bool" where
  Alloc: "AllocatePagesFromDescriptor s n = (Some a, s') \<Longrightarrow> pmm_step (s, held) (s', (a, n) # held)"
| AllocFail: "AllocatePagesFromDescriptor s n = (None, s') \<Longrightarrow> pmm_step (s, held) (s', held)"
| Free: "(a, n) \<in> set held \<Longrightarrow> FreePagesFromDescriptor s a n = (ok, s') \<Longrightarrow>
         pmm_step (s, held) (s', if ok then remove1 (a, n) held else held)"

definition held_pages :: "nat \<Rightarrow> (addr \<times> nat) list \<Rightarrow> nat multiset" where
  "held_pages b held = sum_list (map (\<lambda>(a, n). block_pages b (CeilLog2Pages n) a) held)"

definition accounts :: "pmm \<times> (addr \<times> nat) list \<Rightarrow> bool" where
  "accounts x \<longleftrightarrow>
     (let s = fst x; held = snd x; b = PhysicalAddressStart s; T = DescriptorPages s in
      pmm_inv s \<and> held_pages b held + free_of s = mset [0..<T] \<and>
      (\<forall>(a, n)\<in>set held. 0 < n \<and> block_ok b T (BuddyMaxOrder s) (CeilLog2Pages n) a))"

lemma held_pages_remove1:
  "(a, n) \<in> set held \<Longrightarrow>
   held_pages b held = block_pages b (CeilLog2Pages n) a + held_pages b (remove1 (a, n) held)"
  by (induction held) (auto simp: held_pages_def ac_simps)

lemma accounts_step:
  assumes "pmm_step x y" and "accounts x"
  shows "accounts y"
  using assms
proof (cases rule: pmm_step.cases)
  case (Alloc s n a s' held)
  have inv: "pmm_inv s" using assms(2) Alloc by (simp add: accounts_def Let_def)
  note al = Allocate_Some [OF inv Alloc(3)]
  then obtain fl k where s': "s' = s\<lparr>BuddyFreeLists := fl, NumberOfFreePages := k\<rparr>" by blast
  show ?thesis
    using assms(2) al unfolding Alloc accounts_def Let_def
    by (simp add: s' held_pages_def block_of_def ac_simps del: mset_upt)
next
  case (AllocFail s n s' held)
  have "pmm_inv s" using assms(2) AllocFail by (simp add: accounts_def Let_def)
  with Allocate_None [OF _ AllocFail(3)] assms(2) show ?thesis by (simp add: AllocFail)
next
  case (Free a n held s ok s')
  let ?b = "PhysicalAddressStart s"
  have acc: "pmm_inv s" "held_pages ?b held + free_of s = mset [0..<DescriptorPages s]"
    "0 < n" "block_ok ?b (DescriptorPages s) (BuddyMaxOrder s) (CeilLog2Pages n) a"
    "\<forall>(a, n)\<in>set held. 0 < n \<and> block_ok ?b (DescriptorPages s) (BuddyMaxOrder s) (CeilLog2Pages n) a"
    using assms(2) Free(3) unfolding Free(1) accounts_def Let_def by auto
  note h = held_pages_remove1 [OF Free(3), of ?b]
  have "block_of s n a + free_of s \<subseteq># mset [0..<DescriptorPages s]"
    unfolding acc(2) [symmetric] h by (simp add: block_of_def)
  from Free_ok [OF acc(1,3,4) this] Free(4) obtain fl k where
    ok: "ok" "s' = s\<lparr>BuddyFreeLists := fl, NumberOfFreePages := k\<rparr>" "pmm_inv s'"
      "free_of s' = block_of s n a + free_of s" by auto
  have "\<forall>x\<in>set (remove1 (a, n) held). x \<in> set held" using set_remove1_subset [of "(a, n)" held] by blast
  then show ?thesis
    using ok(1,3,4) acc(2,5) unfolding Free(2) accounts_def Let_def
    by (simp add: ok(2) h block_of_def ac_simps del: mset_upt)
qed

lemma accounts_steps: "pmm_step\<^sup>*\<^sup>* x y \<Longrightarrow> accounts x \<Longrightarrow> accounts y"
  by (induction rule: rtranclp_induct) (auto intro: accounts_step)

section \<open>A concrete allocator\<close>

text \<open>Five pages at one megabyte: a block of four and a block of one.\<close>

definition sample_new :: pmm where
  "sample_new = PhysicalMemoryManager_new
     [\<lparr>Conventional = False, PhysicalStart = 0, NumberOfPages = 256\<rparr>,
      \<lparr>Conventional = True, PhysicalStart = 0x100000, NumberOfPages = 5\<rparr>] 0x100000 1 5"

definition sample_pmm :: pmm where
  "sample_pmm = InitializeMemoryDescriptors sample_new"

lemma sample_chosen:
  "PhysicalAddressStart sample_pmm = 0x100000 \<and> DescriptorPages sample_pmm = 5"
  by (simp add: sample_pmm_def InitializeMemoryDescriptors_def InitializeBuddyAllocator_def sample_new_def
      PhysicalMemoryManager_new_def InitializeMemoryStats_def ConsiderDescriptor_def Let_def layout_simps w64_def
      PMM_BUDDY_PHYSICAL_LIMIT_def)

lemma sample_no_wrap: "no_wrap sample_new"
  by (simp add: no_wrap_def sample_new_def PhysicalMemoryManager_new_def InitializeMemoryStats_def layout_simps)

lemma sample_pmm_inv: "pmm_inv sample_pmm \<and> free_of sample_pmm = mset [0..<5]"
  using InitializeMemoryDescriptors_inv [OF sample_no_wrap sample_pmm_def] sample_chosen by simp

lemma sample_orders: "FloorLog2Pages 5 = 2" "FloorLog2Pages 1 = 0" "CeilLog2Pages 2 = 1" "CeilLog2Pages 4 = 2"
  by (simp_all add: CeilLog2Pages_def FloorLog2Pages_def FloorLog2_loop.simps layout_simps Let_def)

lemma sample_lists:
  "BuddyFreeLists sample_pmm = (replicate MAX_BUDDY_ORDERS [])[2 := [0x100000], 0 := [0x104000]]"
  "NumberOfFreePages sample_pmm = 5" "BuddyMaxOrder sample_pmm = 2" "BitMap sample_pmm = Some 0x100000"
proof -
  have "InitializeBuddy_loop 0x100000 0 5 fl = PushBlock 0 0x104000 (PushBlock 2 0x100000 fl)" for fl
    by (subst InitializeBuddy_loop.simps, subst InitializeBuddy_loop.simps, subst InitializeBuddy_loop.simps)
      (simp add: sample_orders sample_orders(2) [unfolded One_nat_def] PagesForOrder_def PAGE_BYTES_def Let_def numeral_2_eq_2)
  moreover have "PushBlock 0 0x104000 (PushBlock 2 0x100000 (replicate MAX_BUDDY_ORDERS [])) =
      (replicate MAX_BUDDY_ORDERS [])[2 := [0x100000], 0 := [0x104000]]"
    by (simp add: PushBlock_def MAX_BUDDY_ORDERS_def nth_list_update)
  ultimately show "BuddyFreeLists sample_pmm = (replicate MAX_BUDDY_ORDERS [])[2 := [0x100000], 0 := [0x104000]]"
    "NumberOfFreePages sample_pmm = 5" "BuddyMaxOrder sample_pmm = 2" "BitMap sample_pmm = Some 0x100000"
    by (simp_all add: sample_pmm_def InitializeMemoryDescriptors_def InitializeBuddyAllocator_def sample_new_def
      PhysicalMemoryManager_new_def InitializeMemoryStats_def ConsiderDescriptor_def Let_def w64_def PAGE_BYTES_def
      PMM_BUDDY_PHYSICAL_LIMIT_def sample_orders)
qed

lemma sample_allocate: "\<exists>s'. AllocatePagesFromDescriptor sample_pmm 4 = (Some 0x100000, s')"
  by (simp add: AllocatePagesFromDescriptor_def sample_lists sample_orders Let_def FirstNonEmpty.simps
      MAX_BUDDY_ORDERS_def PagesForOrder_def)

section \<open>Properties\<close>

text \<open>
  C2. Over every run of allocations and releases of held blocks, the held blocks and the free
  blocks together are exactly the pages of the descriptor, each page once: no page is handed out
  twice or lost, the free count is exact, no two free buddies of the same order remain
  uncoalesced, and every held block is aligned and inside the descriptor.
\<close>

theorem buddy_never_hands_out_twice:
  assumes "pmm_step\<^sup>*\<^sup>* (s, []) (s', held)" and "pmm_inv s" and "free_of s = mset [0..<DescriptorPages s]"
  shows "let b = PhysicalAddressStart s'; T = DescriptorPages s' in
     held_pages b held + free_of s' = mset [0..<T] \<and> NumberOfFreePages s' = size (free_of s') \<and>
     coalesced b (BuddyMaxOrder s') (BuddyFreeLists s') \<and>
     (\<forall>(a, n)\<in>set held. block_ok b T (BuddyMaxOrder s') (CeilLog2Pages n) a)"
proof -
  have "accounts (s, [])" using assms(2,3) by (simp add: accounts_def held_pages_def)
  from accounts_steps [OF assms(1) this] show ?thesis by (auto simp: accounts_def pmm_inv_def Let_def)
qed

theorem buddy_never_hands_out_twice_witness:
  "\<exists>s'. AllocatePagesFromDescriptor sample_pmm 4 = (Some 0x100000, s') \<and>
     held_pages (PhysicalAddressStart s') [(0x100000, 4)] + free_of s' = mset [0..<DescriptorPages s']"
proof -
  obtain s' where a: "AllocatePagesFromDescriptor sample_pmm 4 = (Some 0x100000, s')" using sample_allocate by blast
  then have "pmm_step\<^sup>*\<^sup>* (sample_pmm, []) (s', [(0x100000, 4)])" by (intro r_into_rtranclp pmm_step.Alloc)
  from buddy_never_hands_out_twice [OF this] sample_pmm_inv sample_chosen a show ?thesis
    by (simp add: Let_def del: mset_upt)
qed



section \<open>Further facts\<close>

text \<open>
  An allocation that returns an address takes from the free pages exactly the aligned power-of-two
  block there, the next power of two of the request, and lowers the count by it; an allocation
  that returns null changes nothing, and was asked for no page, for more pages than are free, or
  finds every list of large enough blocks empty.
\<close>

theorem buddy_allocation:
  assumes "pmm_inv s" and "AllocatePagesFromDescriptor s n = (r, s')"
  shows "case r of
      Some a \<Rightarrow> pmm_inv s' \<and> free_of s = block_of s n a + free_of s' \<and> 0 < n \<and> n \<le> 2 ^ CeilLog2Pages n \<and>
        block_ok (PhysicalAddressStart s) (DescriptorPages s) (BuddyMaxOrder s) (CeilLog2Pages n) a \<and>
        NumberOfFreePages s' + 2 ^ CeilLog2Pages n = NumberOfFreePages s
    | None \<Rightarrow> s' = s \<and> (n = 0 \<or> NumberOfFreePages s < n \<or>
        (\<forall>k. CeilLog2Pages n \<le> k \<longrightarrow> k \<le> BuddyMaxOrder s \<longrightarrow> BuddyFreeLists s ! k = []))"
  using Allocate_Some [OF assms(1)] Allocate_None [OF assms(1)] assms(2) by (cases r) auto

theorem buddy_allocation_witness:
  "\<exists>s'. AllocatePagesFromDescriptor sample_pmm 4 = (Some 0x100000, s') \<and> NumberOfFreePages s' = 1"
proof -
  obtain s' where a: "AllocatePagesFromDescriptor sample_pmm 4 = (Some 0x100000, s')" using sample_allocate by blast
  from buddy_allocation [OF _ this] sample_pmm_inv have "NumberOfFreePages s' + 2 ^ CeilLog2Pages 4 = NumberOfFreePages sample_pmm"
    by simp
  with a show ?thesis by (simp add: sample_orders sample_lists)
qed

text \<open>
  When no descriptor of the firmware's map wraps past 64 bits and one is chosen, initialisation
  establishes the allocator's invariant with every page of that descriptor free.
\<close>

theorem buddy_initialised_from_map:
  assumes "no_wrap s" and "s' = InitializeMemoryDescriptors s"
    and "0 < DescriptorPages s'" and "0 < PhysicalAddressStart s'"
  shows "pmm_inv s' \<and> free_of s' = mset [0..<DescriptorPages s']"
  using assms by (rule InitializeMemoryDescriptors_inv)

theorem buddy_initialised_from_map_witness: "pmm_inv sample_pmm \<and> free_of sample_pmm = mset [0..<5]"
  using buddy_initialised_from_map [OF sample_no_wrap sample_pmm_def] sample_chosen by (simp del: mset_upt)

end
