(* ===== verification/Ram_FileSystem.thy ===== *)
theory Ram_FileSystem imports Kernel_Prelude "HOL-Library.Monad_Syntax" begin

text \<open>
  \<open>Kernel/Layers/Resource/RamFileSystemManager.{hpp,cpp}\<close>: the reader of the initramfs, a cpio
  archive in the "newc" format. The archive is the string \<open>Archive\<close> of the bytes at
  \<open>InitramfsAddress\<close>; pointers into it are offsets. Every byte the code loads goes through \<open>load\<close>,
  whose value is \<open>None\<close> outside the archive, so that a result \<open>Some _\<close> says that no load of
  the whole call left the archive. The loop over the entries has a fuel argument, which
  \<open>EnumerateEntries\<close> sets to one more than the archive's size; running out of it is \<open>None\<close> too.
\<close>

definition NUL :: char where "NUL = CHR 0x00"

datatype RamFileSystemEntryType =
    RamFileSystemEntryTypeUnknown | RamFileSystemEntryTypeRegularFile
  | RamFileSystemEntryTypeDirectory | RamFileSystemEntryTypeSymbolicLink
  | RamFileSystemEntryTypeOther

record ram_entry =
  EName :: nat
  EData :: nat
  ESize :: nat
  EMode :: nat
  EType :: RamFileSystemEntryType

record ram_fs =
  InitramfsAddress :: nat
  InitramfsSize :: nat
  Archive :: string

definition load :: "string \<Rightarrow> nat \<Rightarrow> char option" where
  "load A i = (if i < length A then Some (A ! i) else None)"

text \<open>The layout of \<open>CpioNewcHeader\<close>.\<close>

definition CpioHeaderSize :: nat where [layout_simps]: "CpioHeaderSize = 110"
definition OffMode :: nat where [layout_simps]: "OffMode = 14"
definition OffFileSize :: nat where [layout_simps]: "OffFileSize = 54"
definition OffNameSize :: nat where [layout_simps]: "OffNameSize = 94"

definition IsHexDigit :: "char \<Rightarrow> bool" where
  "IsHexDigit c \<longleftrightarrow>
     (let n = of_char c :: nat
      in (0x30 \<le> n \<and> n \<le> 0x39) \<or> (0x61 \<le> n \<and> n \<le> 0x66) \<or> (0x41 \<le> n \<and> n \<le> 0x46))"

definition HexDigitValue :: "char \<Rightarrow> nat" where
  "HexDigitValue c =
     (let n = of_char c :: nat
      in if 0x30 \<le> n \<and> n \<le> 0x39 then n - 0x30
         else if 0x61 \<le> n \<and> n \<le> 0x66 then n - 0x61 + 10
         else n - 0x41 + 10)"

unbundle bit_operations_syntax

text \<open>\<open>ParseHexField\<close> from index \<open>Index\<close> on; the result is the value and the flag \<open>Valid\<close>.\<close>

fun ParseHexField_loop :: "string \<Rightarrow> nat \<Rightarrow> nat \<Rightarrow> nat \<Rightarrow> bool \<Rightarrow> (nat \<times> bool) option" where
  "ParseHexField_loop A At 0 Value Valid = Some (Value, Valid)"
| "ParseHexField_loop A At (Suc n) Value Valid =
     do { Character \<leftarrow> load A At;
          if \<not> IsHexDigit Character then Some (0, False)
          else ParseHexField_loop A (At + 1) n
                 (w64 (push_bit 4 Value) OR HexDigitValue Character) Valid }"

definition ParseHexField :: "string \<Rightarrow> nat \<Rightarrow> nat \<Rightarrow> bool \<Rightarrow> (nat \<times> bool) option" where
  "ParseHexField A At n Valid = ParseHexField_loop A At n 0 Valid"

fun MatchesLiteral :: "string \<Rightarrow> nat \<Rightarrow> string \<Rightarrow> bool option" where
  "MatchesLiteral A v [] = Some True"
| "MatchesLiteral A v (l # ls) =
     do { c \<leftarrow> load A v; if c \<noteq> l then Some False else MatchesLiteral A (v + 1) ls }"

text \<open>\<open>(Value + 3) & ~3\<close>\<close>

definition AlignUpToFour :: "nat \<Rightarrow> nat" where
  "AlignUpToFour Value = w64 (Value + 3) div 4 * 4"

definition CpioModeFileTypeMask :: nat where "CpioModeFileTypeMask = 0xF000"

definition DecodeEntryType :: "nat \<Rightarrow> RamFileSystemEntryType" where
  "DecodeEntryType Mode =
     (let FileTypeBits = Mode AND CpioModeFileTypeMask
      in if FileTypeBits = 0x8000 then RamFileSystemEntryTypeRegularFile
         else if FileTypeBits = 0x4000 then RamFileSystemEntryTypeDirectory
         else if FileTypeBits = 0xA000 then RamFileSystemEntryTypeSymbolicLink
         else if FileTypeBits = 0 then RamFileSystemEntryTypeUnknown
         else RamFileSystemEntryTypeOther)"

definition EntryTypeToString :: "RamFileSystemEntryType \<Rightarrow> string" where
  "EntryTypeToString t =
     (case t of
        RamFileSystemEntryTypeRegularFile \<Rightarrow> ''file''
      | RamFileSystemEntryTypeDirectory \<Rightarrow> ''directory''
      | RamFileSystemEntryTypeSymbolicLink \<Rightarrow> ''symlink''
      | RamFileSystemEntryTypeOther \<Rightarrow> ''other''
      | RamFileSystemEntryTypeUnknown \<Rightarrow> ''unknown'')"

text \<open>A C string is the list of its characters before the terminating NUL.\<close>

fun SkipDotSlash :: "string \<Rightarrow> string" where
  "SkipDotSlash (a # b # cs) =
     (if a = CHR ''.'' \<and> b = CHR ''/'' then SkipDotSlash cs else a # b # cs)"
| "SkipDotSlash cs = cs"

definition SkipPathPrefixes :: "string \<Rightarrow> string" where
  "SkipPathPrefixes Path = SkipDotSlash (dropWhile (\<lambda>c. c = CHR ''/'') Path)"

fun StringsEqual :: "string \<Rightarrow> string \<Rightarrow> bool" where
  "StringsEqual (a # as) (b # bs) = (if a \<noteq> b then False else StringsEqual as bs)"
| "StringsEqual as bs = (as = [] \<and> bs = [])"

definition PathMatchesArchiveName :: "string option \<Rightarrow> string option \<Rightarrow> bool" where
  "PathMatchesArchiveName RequestedPath ArchiveName =
     (case (RequestedPath, ArchiveName) of
        (Some r, Some a) \<Rightarrow>
          (if SkipPathPrefixes r = [] \<and> a = ''.'' then True
           else StringsEqual (SkipPathPrefixes r) (SkipPathPrefixes a))
      | _ \<Rightarrow> False)"

definition c_string :: "string \<Rightarrow> nat \<Rightarrow> string option" where
  "c_string A off =
     (if NUL \<in> set (drop off A) then Some (takeWhile (\<lambda>c. c \<noteq> NUL) (drop off A)) else None)"

datatype parse_result = ParseError | ReachedTrailer nat | Parsed ram_entry nat

definition ParseEntryAtOffset :: "string \<Rightarrow> nat \<Rightarrow> nat \<Rightarrow> parse_result option" where
  "ParseEntryAtOffset A ArchiveSize Offset =
     do { m1 \<leftarrow> MatchesLiteral A Offset ''070701'';
          m2 \<leftarrow> (if m1 then Some True else MatchesLiteral A Offset ''070702'');
          if \<not> m2 then Some ParseError
          else do {
            (NameSize, v1) \<leftarrow> ParseHexField A (Offset + OffNameSize) 8 True;
            (FileSize, v2) \<leftarrow> ParseHexField A (Offset + OffFileSize) 8 v1;
            (Mode, Valid) \<leftarrow> ParseHexField A (Offset + OffMode) 8 v2;
            if \<not> Valid \<or> NameSize = 0 then Some ParseError
            else
              let NameOffset = w64 (Offset + CpioHeaderSize);
                  NameEndOffset = w64 (NameOffset + NameSize);
                  AlignedNameEnd = AlignUpToFour NameEndOffset;
                  DataEndOffset = w64 (AlignedNameEnd + FileSize);
                  EntryEndOffset = AlignUpToFour DataEndOffset
              in if NameEndOffset > ArchiveSize \<or> AlignedNameEnd > ArchiveSize \<or>
                    DataEndOffset > ArchiveSize \<or> EntryEndOffset > ArchiveSize
                 then Some ParseError
                 else do {
                   z \<leftarrow> load A (NameOffset + NameSize - 1);
                   if z \<noteq> NUL then Some ParseError
                   else do {
                     t \<leftarrow> MatchesLiteral A NameOffset ''TRAILER!!!'';
                     if t then Some (ReachedTrailer EntryEndOffset)
                     else Some (Parsed \<lparr>EName = NameOffset, EData = AlignedNameEnd, ESize = FileSize,
                                  EMode = Mode, EType = DecodeEntryType Mode\<rparr> EntryEndOffset) } } } }"

text \<open>A callback takes and returns its context; its flag says whether to go on. It may load from the
  archive, so it can fault as well.\<close>

type_synonym 'c callback = "'c \<Rightarrow> ram_entry \<Rightarrow> (bool \<times> 'c) option"

fun EnumerateEntries_loop ::
    "nat \<Rightarrow> string \<Rightarrow> nat \<Rightarrow> 'c callback option \<Rightarrow> nat \<Rightarrow> 'c \<Rightarrow> (bool \<times> 'c) option" where
  "EnumerateEntries_loop 0 A Size cb Offset ctx = None"
| "EnumerateEntries_loop (Suc fuel) A Size cb Offset ctx =
     (if w64 (Offset + CpioHeaderSize) \<le> Size then
        do { r \<leftarrow> ParseEntryAtOffset A Size Offset;
             case r of
               ParseError \<Rightarrow> Some (False, ctx)
             | ReachedTrailer NextOffset \<Rightarrow> Some (True, ctx)
             | Parsed Entry NextOffset \<Rightarrow>
                 do { (go, ctx') \<leftarrow> (case cb of None \<Rightarrow> Some (True, ctx) | Some f \<Rightarrow> f ctx Entry);
                      if go then EnumerateEntries_loop fuel A Size cb NextOffset ctx'
                      else Some (True, ctx') } }
      else Some (False, ctx))"

definition EnumerateEntries :: "ram_fs \<Rightarrow> 'c callback option \<Rightarrow> 'c \<Rightarrow> (bool \<times> 'c) option" where
  "EnumerateEntries fs cb ctx =
     (if InitramfsAddress fs = 0 \<or> InitramfsSize fs < CpioHeaderSize then Some (False, ctx)
      else EnumerateEntries_loop (Suc (InitramfsSize fs)) (Archive fs) (InitramfsSize fs) cb 0 ctx)"

text \<open>The context of \<open>FindEntryByPath\<close> is the entry found, if any (\<open>Found\<close> and \<open>*Entry\<close>).\<close>

definition FindEntryByPath :: "string \<Rightarrow> string \<Rightarrow> ram_entry option callback" where
  "FindEntryByPath A Path found Entry =
     do { name \<leftarrow> c_string A (EName Entry);
          if \<not> PathMatchesArchiveName (Some Path) (Some name) then Some (True, found)
          else Some (False, Some Entry) }"

definition FindEntry :: "ram_fs \<Rightarrow> string option \<Rightarrow> ram_entry option option" where
  "FindEntry fs Path =
     (case Path of
        None \<Rightarrow> Some None
      | Some p \<Rightarrow>
          do { (ok, found) \<leftarrow> EnumerateEntries fs (Some (FindEntryByPath (Archive fs) p)) None;
               Some (if \<not> ok then None else found) })"

definition FindFile :: "ram_fs \<Rightarrow> string option \<Rightarrow> (nat \<times> nat) option option" where
  "FindFile fs Path =
     (case Path of
        None \<Rightarrow> Some None
      | Some p \<Rightarrow>
          do { e \<leftarrow> FindEntry fs Path;
               Some (case e of
                       None \<Rightarrow> None
                     | Some entry \<Rightarrow>
                         if EType entry \<noteq> RamFileSystemEntryTypeRegularFile then None
                         else Some (EData entry, ESize entry)) })"

text \<open>The printing callback: its context is \<open>EntryCount\<close> and the lines written to the console.\<close>

definition PrintInitramfsEntry ::
    "string \<Rightarrow> (nat \<times> (nat \<times> string \<times> string \<times> nat \<times> nat) list) callback" where
  "PrintInitramfsEntry A ctx Entry =
     (case ctx of (n, lines) \<Rightarrow>
        do { name \<leftarrow> c_string A (EName Entry);
             Some (True, (n + 1,
               lines @ [(n + 1, name, EntryTypeToString (EType Entry), EMode Entry, ESize Entry)])) })"

definition ParseAndPrintInitramfs ::
    "ram_fs \<Rightarrow> (nat \<times> (nat \<times> string \<times> string \<times> nat \<times> nat) list) option" where
  "ParseAndPrintInitramfs fs =
     do { (ok, ctx) \<leftarrow> EnumerateEntries fs (Some (PrintInitramfsEntry (Archive fs))) (0, []);
          Some ctx }"

section \<open>Loads stay inside the archive\<close>

lemma load_in [simp]: "i < length A \<Longrightarrow> load A i = Some (A ! i)"
  by (simp add: load_def)

lemma MatchesLiteral_total:
  "v + length lit \<le> length A \<Longrightarrow> MatchesLiteral A v lit = Some (take (length lit) (drop v A) = lit)"
proof (induction lit arbitrary: v)
  case (Cons l ls)
  then have "drop v A = A ! v # drop (Suc v) A" by (intro Cons_nth_drop_Suc [symmetric]) simp
  with Cons show ?case by simp
qed simp

text \<open>A comparison with a literal stops at the latest at a NUL.\<close>

lemma MatchesLiteral_NUL:
  "v \<le> z \<Longrightarrow> z < length A \<Longrightarrow> A ! z = NUL \<Longrightarrow> NUL \<notin> set lit \<Longrightarrow>
   \<exists>r. MatchesLiteral A v lit = Some r"
proof (induction lit arbitrary: v)
  case (Cons l ls)
  show ?case
  proof (cases "v = z \<or> A ! v \<noteq> l")
    case True
    with Cons.prems show ?thesis by auto
  next
    case False
    with Cons.prems Cons.IH [of "v + 1"] obtain r where "MatchesLiteral A (v + 1) ls = Some r" by auto
    with False Cons.prems show ?thesis by (intro exI [of _ r]) simp
  qed
next
  case Nil
  show ?case by (intro exI [of _ True]) simp
qed

lemma HexDigitValue_less: "IsHexDigit c \<Longrightarrow> HexDigitValue c < 16"
  unfolding IsHexDigit_def HexDigitValue_def Let_def by (auto split: if_splits)

lemma hex_shift:
  assumes "d < 16" and "16 * v + d < 2 ^ 64"
  shows "w64 (push_bit 4 v) OR d = 16 * v + d"
proof -
  have "w64 (push_bit 4 v) = push_bit 4 v"
    using assms(2) by (intro w64_small) (simp add: push_bit_eq_mult)
  moreover have "push_bit 4 v OR d = push_bit 4 v + d"
  proof (rule disjunctive_add [symmetric])
    fix n show "\<not> bit (push_bit 4 v) n \<or> \<not> bit d n"
    proof (cases "n < 4")
      case False
      then have "(16::nat) \<le> 2 ^ n" using power_increasing [of 4 n "2::nat"] by simp
      with assms(1) have "d < 2 ^ n" by linarith
      then show ?thesis by (simp add: bit_iff_odd)
    qed (simp add: bit_push_bit_iff)
  qed
  ultimately show ?thesis by (simp add: push_bit_eq_mult)
qed

lemma ParseHexField_loop_total:
  "at + n \<le> length A \<Longrightarrow> v < 16 ^ k \<Longrightarrow> k + n \<le> 8 \<Longrightarrow>
   \<exists>v' b'. ParseHexField_loop A at n v b = Some (v', b') \<and> v' < 16 ^ (k + n)"
proof (induction n arbitrary: at v k)
  case (Suc n)
  show ?case
  proof (cases "IsHexDigit (A ! at)")
    case True
    let ?d = "HexDigitValue (A ! at)"
    have d: "?d < 16" by (rule HexDigitValue_less [OF True])
    have small: "16 * v + ?d < 16 ^ Suc k" using Suc.prems(2) d by simp
    moreover have "(16::nat) ^ Suc k \<le> 16 ^ 8" using Suc.prems(3) by (intro power_increasing) auto
    ultimately have "16 * v + ?d < 2 ^ 64" by simp
    with d have e: "w64 (push_bit 4 v) OR ?d = 16 * v + ?d" by (rule hex_shift)
    from Suc.IH [of "at + 1" "16 * v + ?d" "Suc k"] small Suc.prems True show ?thesis
      by (simp add: e)
  next
    case False
    with Suc.prems have "ParseHexField_loop A at (Suc n) v b = Some (0, False)" by simp
    then show ?thesis by (intro exI conjI) (assumption, simp)
  qed
qed simp

lemma ParseHexField_total:
  "at + 8 \<le> length A \<Longrightarrow> \<exists>v b'. ParseHexField A at 8 b = Some (v, b') \<and> v < 2 ^ 32"
  using ParseHexField_loop_total [of at 8 A 0 0 b] by (simp add: ParseHexField_def)

lemma AlignUpToFour_bounds:
  assumes "v < 2 ^ 63"
  shows "v \<le> AlignUpToFour v" and "AlignUpToFour v < v + 4" and "AlignUpToFour v mod 4 = 0"
proof -
  have "AlignUpToFour v = (v + 3) div 4 * 4" using assms by (simp add: AlignUpToFour_def)
  then show "v \<le> AlignUpToFour v" "AlignUpToFour v < v + 4" "AlignUpToFour v mod 4 = 0" by auto
qed

lemma c_string_ex:
  assumes "off \<le> z" and "z < length A" and "A ! z = NUL"
  shows "\<exists>s. c_string A off = Some s"
proof -
  have "drop off A ! (z - off) = NUL" "z - off < length (drop off A)" using assms by auto
  then have "NUL \<in> set (drop off A)" by (metis nth_mem)
  then show ?thesis by (simp add: c_string_def)
qed

definition entry_in :: "string \<Rightarrow> ram_entry \<Rightarrow> bool" where
  "entry_in A e \<longleftrightarrow> c_string A (EName e) \<noteq> None \<and> EData e + ESize e \<le> length A"

definition parse_ok :: "string \<Rightarrow> nat \<Rightarrow> parse_result \<Rightarrow> bool" where
  "parse_ok A Offset r \<longleftrightarrow>
     (case r of
        ParseError \<Rightarrow> True
      | ReachedTrailer next \<Rightarrow> True
      | Parsed e next \<Rightarrow> Offset < next \<and> next \<le> length A \<and> entry_in A e)"

lemma ParseEntry_total:
  assumes "Offset + CpioHeaderSize \<le> length A" and "length A < 2 ^ 63"
  shows "\<exists>r. ParseEntryAtOffset A (length A) Offset = Some r \<and> parse_ok A Offset r"
proof -
  have len: "Offset + 110 \<le> length A" using assms(1) by (simp add: CpioHeaderSize_def)
  obtain m1 where m1: "MatchesLiteral A Offset ''070701'' = Some m1"
    using MatchesLiteral_total [of Offset "''070701''" A] len by simp
  obtain m2 where m2: "MatchesLiteral A Offset ''070702'' = Some m2"
    using MatchesLiteral_total [of Offset "''070702''" A] len by simp
  obtain ns v1 where ns: "ParseHexField A (Offset + OffNameSize) 8 True = Some (ns, v1)" "ns < 2 ^ 32"
    using ParseHexField_total [of "Offset + OffNameSize" A True] len by (auto simp: layout_simps)
  obtain fs v2 where fs: "ParseHexField A (Offset + OffFileSize) 8 v1 = Some (fs, v2)" "fs < 2 ^ 32"
    using ParseHexField_total [of "Offset + OffFileSize" A v1] len by (auto simp: layout_simps)
  obtain mode v3 where mode: "ParseHexField A (Offset + OffMode) 8 v2 = Some (mode, v3)"
    using ParseHexField_total [of "Offset + OffMode" A v2] len by (auto simp: layout_simps)
  let ?no = "Offset + 110" and ?ne = "Offset + 110 + ns"
  let ?an = "AlignUpToFour ?ne" let ?de = "?an + fs" let ?ee = "AlignUpToFour ?de"
  have w: "w64 (Offset + CpioHeaderSize) = ?no" "w64 (?no + ns) = ?ne"
    using len assms(2) ns(2) by (auto simp: CpioHeaderSize_def)
  note eval = ParseEntryAtOffset_def m1 m2 ns(1) fs(1) mode w Let_def
  show ?thesis
  proof (cases "(m1 \<or> m2) \<and> v3 \<and> ns \<noteq> 0 \<and> ?ne \<le> length A \<and> ?an \<le> length A \<and>
      w64 ?de \<le> length A \<and> AlignUpToFour (w64 ?de) \<le> length A \<and> A ! (?no + ns - 1) = NUL")
    case False
    then consider (magic) "\<not> m1" "\<not> m2" | (hdr) "m1 \<or> m2" "\<not> v3 \<or> ns = 0"
      | (big) "m1 \<or> m2" "v3" "ns \<noteq> 0" "?ne > length A \<or> ?an > length A \<or>
          w64 ?de > length A \<or> AlignUpToFour (w64 ?de) > length A"
      | (nul) "m1 \<or> m2" "v3" "ns \<noteq> 0" "?ne \<le> length A" "?an \<le> length A"
          "w64 ?de \<le> length A" "AlignUpToFour (w64 ?de) \<le> length A" "A ! (?no + ns - 1) \<noteq> NUL"
      by linarith
    then have "ParseEntryAtOffset A (length A) Offset = Some ParseError"
    proof cases
      case magic
      then show ?thesis by (auto simp: eval simp del: MatchesLiteral.simps)
    next
      case hdr
      then show ?thesis by (auto simp: eval simp del: MatchesLiteral.simps)
    next
      case big
      then show ?thesis by (auto simp: eval simp del: MatchesLiteral.simps)
    next
      case nul
      moreover have "?no + ns - 1 < length A" using nul by linarith
      ultimately show ?thesis
        by (auto simp: eval simp del: MatchesLiteral.simps)
    qed
    then show ?thesis by (simp add: parse_ok_def)
  next
    case True
    have de: "w64 ?de = ?de" using True assms(2) fs(2) by (intro w64_small) simp
    have last: "?no + ns - 1 < length A" "A ! (?no + ns - 1) = NUL" using True by auto
    have "\<exists>t. MatchesLiteral A ?no ''TRAILER!!!'' = Some t"
      using last True by (intro MatchesLiteral_NUL [of _ "?no + ns - 1"]) (auto simp: NUL_def)
    then obtain t where t: "MatchesLiteral A ?no ''TRAILER!!!'' = Some t" by blast
    obtain s where s: "c_string A ?no = Some s"
      using c_string_ex [of ?no "?no + ns - 1" A] last True by auto
    let ?e = "\<lparr>EName = ?no, EData = ?an, ESize = fs, EMode = mode, EType = DecodeEntryType mode\<rparr>"
    have "ParseEntryAtOffset A (length A) Offset =
        Some (if t then ReachedTrailer ?ee else Parsed ?e ?ee)"
      using True last by (auto simp: eval de t simp del: MatchesLiteral.simps)
    moreover have "?ne \<le> ?an" "?de \<le> ?ee"
      using True de assms(2) AlignUpToFour_bounds(1) [of ?ne] AlignUpToFour_bounds(1) [of ?de] by auto
    ultimately show ?thesis
      using True de s by (auto simp: parse_ok_def entry_in_def)
  qed
qed

definition callback_ok :: "string \<Rightarrow> 'c callback option \<Rightarrow> bool" where
  "callback_ok A cb \<longleftrightarrow> (case cb of None \<Rightarrow> True | Some f \<Rightarrow> \<forall>ctx e. entry_in A e \<longrightarrow> f ctx e \<noteq> None)"

lemma Enumerate_loop_total:
  "callback_ok A cb \<Longrightarrow> length A < 2 ^ 63 \<Longrightarrow> Offset \<le> length A \<Longrightarrow> length A - Offset < fuel \<Longrightarrow>
   \<exists>r. EnumerateEntries_loop fuel A (length A) cb Offset ctx = Some r"
proof (induction fuel arbitrary: Offset ctx)
  case (Suc fuel)
  show ?case
  proof (cases "w64 (Offset + CpioHeaderSize) \<le> length A")
    case True
    with Suc.prems have in_: "Offset + CpioHeaderSize \<le> length A" by (simp add: layout_simps)
    obtain r where r: "ParseEntryAtOffset A (length A) Offset = Some r" "parse_ok A Offset r"
      using ParseEntry_total [OF in_ Suc.prems(2)] by blast
    show ?thesis
    proof (cases r)
      case (Parsed e nx)
      with r have p: "Offset < nx" "nx \<le> length A" "entry_in A e" by (auto simp: parse_ok_def)
      then have ih: "\<exists>r. EnumerateEntries_loop fuel A (length A) cb nx c = Some r" for c
        using Suc.IH [of nx c] Suc.prems by simp
      obtain go ctx' where "(case cb of None \<Rightarrow> Some (True, ctx) | Some f \<Rightarrow> f ctx e) = Some (go, ctx')"
        using Suc.prems(1) p(3) by (fastforce simp: callback_ok_def split: option.splits)
      with True r Parsed ih [of ctx'] show ?thesis by (cases go) auto
    qed (use True r in auto)
  qed auto
qed simp

definition ram_fs_ok :: "ram_fs \<Rightarrow> bool" where
  "ram_fs_ok fs \<longleftrightarrow> InitramfsSize fs = length (Archive fs) \<and> length (Archive fs) < 2 ^ 63"

lemma EnumerateEntries_total:
  "ram_fs_ok fs \<Longrightarrow> callback_ok (Archive fs) cb \<Longrightarrow> \<exists>r. EnumerateEntries fs cb ctx = Some r"
  using Enumerate_loop_total [of "Archive fs" cb 0 "Suc (InitramfsSize fs)" ctx]
  by (auto simp: EnumerateEntries_def ram_fs_ok_def)

lemma FindEntryByPath_ok: "callback_ok A (Some (FindEntryByPath A p))"
  by (auto simp: callback_ok_def FindEntryByPath_def entry_in_def)

lemma PrintInitramfsEntry_ok: "callback_ok A (Some (PrintInitramfsEntry A))"
  by (auto simp: callback_ok_def PrintInitramfsEntry_def entry_in_def)

lemma FindFile_total: "ram_fs_ok fs \<Longrightarrow> \<exists>r. FindFile fs Path = Some r"
proof (cases Path)
  case (Some p)
  moreover assume "ram_fs_ok fs"
  then obtain r where "EnumerateEntries fs (Some (FindEntryByPath (Archive fs) p)) None = Some r"
    using EnumerateEntries_total [OF _ FindEntryByPath_ok] by blast
  ultimately show ?thesis by (cases r) (simp add: FindFile_def FindEntry_def)
qed (simp add: FindFile_def)

section \<open>Archives as a cpio writer makes them\<close>

record cpio_file =
  FName :: string
  FMode :: nat
  FData :: string

definition hex_char :: "nat \<Rightarrow> char" where
  "hex_char d = char_of (if d < 10 then 0x30 + d else 0x61 + d - 10)"

fun hex_digits :: "nat \<Rightarrow> nat \<Rightarrow> nat list" where
  "hex_digits 0 n = []"
| "hex_digits (Suc k) n = hex_digits k (n div 16) @ [n mod 16]"

definition hex8 :: "nat \<Rightarrow> string" where
  "hex8 n = map hex_char (hex_digits 8 n)"

definition pad4 :: "string \<Rightarrow> string" where
  "pad4 s = s @ replicate ((4 - length s mod 4) mod 4) NUL"

definition cpio_header :: "nat \<Rightarrow> nat \<Rightarrow> nat \<Rightarrow> string" where
  "cpio_header mode fsize nsize =
     ''070701'' @ hex8 0 @ hex8 mode @ concat (replicate 4 (hex8 0)) @ hex8 fsize @
     concat (replicate 4 (hex8 0)) @ hex8 nsize @ hex8 0"

definition cpio_head :: "cpio_file \<Rightarrow> string" where
  "cpio_head f = pad4 (cpio_header (FMode f) (length (FData f)) (length (FName f) + 1) @ FName f @ [NUL])"

definition cpio_entry :: "cpio_file \<Rightarrow> string" where
  "cpio_entry f = cpio_head f @ pad4 (FData f)"

definition cpio_archive :: "cpio_file list \<Rightarrow> string" where
  "cpio_archive files =
     concat (map cpio_entry files) @ cpio_entry \<lparr>FName = ''TRAILER!!!'', FMode = 0, FData = []\<rparr>"

definition name_ok :: "cpio_file \<Rightarrow> bool" where
  "name_ok f \<longleftrightarrow> NUL \<notin> set (FName f) \<and> length (FName f) + 1 < 2 ^ 32 \<and> length (FData f) < 2 ^ 32 \<and>
     FMode f < 2 ^ 32"

definition file_ok :: "cpio_file \<Rightarrow> bool" where
  "file_ok f \<longleftrightarrow> name_ok f \<and> take 10 (FName f) \<noteq> ''TRAILER!!!''"

section \<open>Reading back a header\<close>

lemma hex_char_digit: "d < 16 \<Longrightarrow> IsHexDigit (hex_char d) \<and> HexDigitValue (hex_char d) = d"
  by (cases "d < 10") (simp_all add: hex_char_def IsHexDigit_def HexDigitValue_def of_char_of Let_def)

lemma hex_digits_less: "\<forall>d\<in>set (hex_digits k n). d < 16"
  by (induction k arbitrary: n) auto

lemma hex_digits_length [simp]: "length (hex_digits k n) = k"
  by (induction k arbitrary: n) auto

lemma hex_digits_value: "foldl (\<lambda>v d. 16 * v + d) v (hex_digits k n) = v * 16 ^ k + n mod 16 ^ k"
proof (induction k arbitrary: n)
  case (Suc k)
  have "n mod 16 ^ Suc k = 16 * (n div 16 mod 16 ^ k) + n mod 16"
    by (simp add: mod_mult2_eq)
  with Suc show ?case by (simp add: algebra_simps)
qed simp

lemma hex8_length [simp]: "length (hex8 n) = 8"
  by (simp add: hex8_def)

lemma ParseHexField_loop_digits:
  "\<forall>d\<in>set ds. d < 16 \<Longrightarrow> take (length ds) (drop at A) = map hex_char ds \<Longrightarrow>
   at + length ds \<le> length A \<Longrightarrow> v < 16 ^ k \<Longrightarrow> k + length ds \<le> 8 \<Longrightarrow>
   ParseHexField_loop A at (length ds) v b = Some (foldl (\<lambda>v d. 16 * v + d) v ds, b)"
proof (induction ds arbitrary: at v k)
  case (Cons d ds)
  have "drop at A = A ! at # drop (Suc at) A"
    using Cons.prems(3) by (intro Cons_nth_drop_Suc [symmetric]) simp
  with Cons.prems(2) have at: "A ! at = hex_char d" "take (length ds) (drop (at + 1) A) = map hex_char ds"
    by simp_all
  have d: "d < 16" using Cons.prems(1) by simp
  have small: "16 * v + d < 16 ^ Suc k" using Cons.prems(4) d by simp
  moreover have "(16::nat) ^ Suc k \<le> 16 ^ 8" using Cons.prems(5) by (intro power_increasing) auto
  ultimately have "16 * v + d < 2 ^ 64" by simp
  with d have e: "w64 (push_bit 4 v) OR d = 16 * v + d" by (rule hex_shift)
  show ?case
    using Cons.IH [of "at + 1" "16 * v + d" "Suc k"] Cons.prems at small hex_char_digit [OF d]
    by (simp add: e)
qed simp

lemma ParseHexField_hex8:
  assumes "take 8 (drop at A) = hex8 n" and "n < 2 ^ 32"
  shows "ParseHexField A at 8 b = Some (n, b)"
proof -
  have "length (take 8 (drop at A)) = 8" using assms(1) by simp
  then have "at + 8 \<le> length A" by (cases "at \<le> length A") simp_all
  then show ?thesis
    using ParseHexField_loop_digits [of "hex_digits 8 n" at A 0 0 b] assms hex_digits_less [of 8 n]
      hex_digits_value [of 0 8 n]
    by (simp add: ParseHexField_def hex8_def)
qed

lemma cpio_header_length [simp]: "length (cpio_header m f n) = 110"
  by (simp add: cpio_header_def numeral_eq_Suc)

lemma cpio_header_fields:
  "take 6 (cpio_header m f n) = ''070701''"
  "take 8 (drop OffMode (cpio_header m f n)) = hex8 m"
  "take 8 (drop OffFileSize (cpio_header m f n)) = hex8 f"
  "take 8 (drop OffNameSize (cpio_header m f n)) = hex8 n"
  by (simp_all add: cpio_header_def layout_simps numeral_eq_Suc)

lemma pad4_length: "length (pad4 s) = (length s + 3) div 4 * 4"
proof -
  obtain q r where n: "length s = 4 * q + r" "r < 4"
    by (metis mod_less_divisor mult_div_mod_eq zero_less_numeral)
  have "length (pad4 s) = 4 * q + r + (4 - r) mod 4" using n(2) by (simp add: pad4_def n(1))
  moreover have "r = 0 \<or> r = 1 \<or> r = 2 \<or> r = 3" using n(2) by linarith
  ultimately show ?thesis unfolding n(1) by (elim disjE) simp_all
qed

lemma AlignUpToFour_pad4:
  assumes "off mod 4 = 0" and "off + length s < 2 ^ 63"
  shows "AlignUpToFour (off + length s) = off + length (pad4 s)"
proof -
  obtain k where k: "off = 4 * k" using assms(1) by auto
  have "AlignUpToFour (off + length s) = (off + length s + 3) div 4 * 4"
    using assms(2) by (simp add: AlignUpToFour_def)
  also have "\<dots> = off + (length s + 3) div 4 * 4" by (simp add: k add.assoc)
  finally show ?thesis by (simp add: pad4_length)
qed

lemma pad4_mod [simp]: "length (pad4 s) mod 4 = 0"
  by (simp add: pad4_length)

lemma cpio_entry_mod: "length (cpio_entry f) mod 4 = 0"
  by (simp add: cpio_entry_def cpio_head_def mod_add_eq [symmetric, of "length (pad4 _)"])

lemma MatchesLiteral_name:
  "drop v A = name @ NUL # r \<Longrightarrow> NUL \<notin> set lit \<Longrightarrow>
   MatchesLiteral A v lit = Some (take (length lit) name = lit)"
proof (induction lit arbitrary: v name)
  case (Cons l ls)
  have v: "v < length A" using Cons.prems(1) by (cases "v < length A") auto
  then have d: "drop v A = A ! v # drop (Suc v) A" by (intro Cons_nth_drop_Suc [symmetric])
  show ?case
  proof (cases name)
    case Nil
    with Cons.prems d have "A ! v = NUL" "l \<noteq> NUL" by auto
    with v Nil show ?thesis by simp
  next
    case (Cons n ns)
    with Cons.prems(1) d have "A ! v = n" "drop (v + 1) A = ns @ NUL # r" by auto
    with Cons.IH [of "v + 1" ns] Cons.prems(2) v Cons show ?thesis by auto
  qed
qed simp

definition entry_at :: "nat \<Rightarrow> cpio_file \<Rightarrow> ram_entry" where
  "entry_at off f = \<lparr>EName = off + CpioHeaderSize, EData = off + length (cpio_head f),
     ESize = length (FData f), EMode = FMode f, EType = DecodeEntryType (FMode f)\<rparr>"

lemma c_string_name: "drop off A = name @ NUL # r \<Longrightarrow> NUL \<notin> set name \<Longrightarrow> c_string A off = Some name"
  by (auto simp: c_string_def takeWhile_tail takeWhile_append2)
section \<open>The reader inverts the writer\<close>

lemma slice: "take k (drop (length pre + i) (pre @ h @ t)) = take k (drop i h)" if "i + k \<le> length h"
  using that by simp

lemma MatchesLiteral_magic:
  "v + 6 \<le> length A \<Longrightarrow> take 6 (drop v A) = ''070701'' \<Longrightarrow> MatchesLiteral A v ''070701'' = Some True"
  using MatchesLiteral_total [of v "''070701''" A]
  by (simp add: eval_nat_numeral del: MatchesLiteral.simps)

lemma ParseEntry_cpio:
  assumes A: "A = pre @ cpio_entry f @ post" and off: "length pre mod 4 = 0"
    and len: "length A < 2 ^ 63" and ok: "name_ok f"
  shows "ParseEntryAtOffset A (length A) (length pre) =
     Some (if take 10 (FName f) = ''TRAILER!!!'' then ReachedTrailer (length pre + length (cpio_entry f))
           else Parsed (entry_at (length pre) f) (length pre + length (cpio_entry f)))"
proof -
  let ?o = "length pre" and ?n = "length (FName f)" and ?d = "length (FData f)"
  let ?h = "cpio_header (FMode f) ?d (?n + 1)"
  let ?hn = "?h @ FName f @ [NUL]"
  obtain t where t: "A = pre @ ?h @ FName f @ NUL # t"
    by (simp add: A cpio_entry_def cpio_head_def pad4_def)
  note fields = cpio_header_fields [of "FMode f" ?d "?n + 1"]
  have m: "MatchesLiteral A ?o ''070701'' = Some True"
    using fields(1) by (intro MatchesLiteral_magic) (simp_all add: t)
  have hex: "ParseHexField A (?o + OffNameSize) 8 b = Some (?n + 1, b)"
    "ParseHexField A (?o + OffFileSize) 8 b = Some (?d, b)"
    "ParseHexField A (?o + OffMode) 8 b = Some (FMode f, b)" for b
    using ok fields slice [of _ 8 ?h pre "FName f @ NUL # t"]
    by (intro ParseHexField_hex8; simp add: t name_ok_def layout_simps)+
  have total: "length A = ?o + length (cpio_head f) + length (pad4 (FData f)) + length post"
    by (simp add: A cpio_entry_def)
  have head: "length (cpio_head f) = length (pad4 ?hn)" by (simp add: cpio_head_def)
  have hnle: "length ?hn \<le> length (pad4 ?hn)" "?d \<le> length (pad4 (FData f))" by (simp_all add: pad4_def)
  have an: "AlignUpToFour (?o + 110 + (?n + 1)) = ?o + length (cpio_head f)"
    using AlignUpToFour_pad4 [OF off, of ?hn] total hnle len by (simp add: head ac_simps)
  have om: "(?o + length (cpio_head f)) mod 4 = 0" using off by (simp add: head mod_add_eq [symmetric])
  have ee: "AlignUpToFour (?o + length (cpio_head f) + ?d) = ?o + length (cpio_entry f)"
    using AlignUpToFour_pad4 [OF om, of "FData f"] total hnle len by (simp add: cpio_entry_def)
  have w: "w64 (?o + CpioHeaderSize) = ?o + 110" "w64 (?o + 110 + (?n + 1)) = ?o + 110 + (?n + 1)"
    "w64 (?o + length (cpio_head f) + ?d) = ?o + length (cpio_head f) + ?d"
    using total head hnle len by (simp_all add: CpioHeaderSize_def)
  have dn: "drop (?o + 110) A = FName f @ NUL # t" by (simp add: t)
  have z: "load A (?o + 110 + (?n + 1) - 1) = Some NUL"
    by (simp add: load_def t nth_append)
  have tr: "MatchesLiteral A (?o + 110) ''TRAILER!!!'' = Some (take 10 (FName f) = ''TRAILER!!!'')"
    using MatchesLiteral_name [OF dn, of "''TRAILER!!!''"]
    by (simp add: NUL_def eval_nat_numeral del: MatchesLiteral.simps)
  have in_: "\<not> (?o + 110 + (?n + 1) > length A \<or> ?o + length (cpio_head f) > length A \<or>
      ?o + length (cpio_head f) + ?d > length A \<or> ?o + length (cpio_entry f) > length A)"
    using total head hnle by (auto simp: cpio_entry_def)
  show ?thesis
    unfolding ParseEntryAtOffset_def Let_def
    using in_ by (simp only: m hex w an ee z tr bind.bind_lunit if_True if_False prod.case simp_thms)
      (simp add: w an ee z tr entry_at_def CpioHeaderSize_def)
qed

text \<open>What the enumeration should do: call back on the entries in order until one says stop.\<close>

fun entries_at :: "nat \<Rightarrow> cpio_file list \<Rightarrow> ram_entry list" where
  "entries_at off [] = []"
| "entries_at off (f # fs) = entry_at off f # entries_at (off + length (cpio_entry f)) fs"

fun run_callback :: "'c callback option \<Rightarrow> 'c \<Rightarrow> ram_entry list \<Rightarrow> (bool \<times> 'c) option" where
  "run_callback cb ctx [] = Some (True, ctx)"
| "run_callback cb ctx (e # es) =
     do { (go, ctx') \<leftarrow> (case cb of None \<Rightarrow> Some (True, ctx) | Some f \<Rightarrow> f ctx e);
          if go then run_callback cb ctx' es else Some (True, ctx') }"

lemma cpio_entry_length: "111 \<le> length (cpio_entry f)"
  by (simp add: cpio_entry_def cpio_head_def pad4_def)

lemma Enumerate_loop_cpio:
  "A = pre @ cpio_archive files \<Longrightarrow> length pre mod 4 = 0 \<Longrightarrow> length A < 2 ^ 63 \<Longrightarrow>
   \<forall>f\<in>set files. file_ok f \<Longrightarrow> length A - length pre < fuel \<Longrightarrow>
   EnumerateEntries_loop fuel A (length A) cb (length pre) ctx =
     run_callback cb ctx (entries_at (length pre) files)"
proof (induction files arbitrary: pre fuel ctx)
  case Nil
  let ?t = "\<lparr>FName = ''TRAILER!!!'', FMode = 0, FData = []\<rparr>"
  have A: "A = pre @ cpio_entry ?t @ []" using Nil.prems(1) by (simp add: cpio_archive_def)
  have "ParseEntryAtOffset A (length A) (length pre) = Some (ReachedTrailer (length A))"
    using ParseEntry_cpio [OF A Nil.prems(2,3)] by (simp add: name_ok_def NUL_def A)
  moreover obtain k where "fuel = Suc k" using Nil.prems(5) by (cases fuel) auto
  moreover have "length pre + CpioHeaderSize \<le> length A"
    using cpio_entry_length [of ?t] by (simp add: A CpioHeaderSize_def)
  moreover have "w64 (length pre + CpioHeaderSize) = length pre + CpioHeaderSize"
    using Nil.prems(3) calculation(3) by simp
  ultimately show ?case by simp
next
  case (Cons f files)
  have A: "A = pre @ cpio_entry f @ cpio_archive files"
    using Cons.prems(1) by (simp add: cpio_archive_def)
  have f: "name_ok f" "take 10 (FName f) \<noteq> ''TRAILER!!!''" using Cons.prems(4) by (simp_all add: file_ok_def)
  have p: "ParseEntryAtOffset A (length A) (length pre) =
      Some (Parsed (entry_at (length pre) f) (length (pre @ cpio_entry f)))"
    using ParseEntry_cpio [OF A Cons.prems(2,3) f(1)] f(2) by simp
  obtain k where k: "fuel = Suc k" using Cons.prems(5) by (cases fuel) auto
  have le: "length pre + CpioHeaderSize \<le> length A"
    using cpio_entry_length [of f] by (simp add: A CpioHeaderSize_def)
  then have w: "w64 (length pre + CpioHeaderSize) = length pre + CpioHeaderSize"
    using Cons.prems(3) by simp
  have ih: "EnumerateEntries_loop k A (length A) cb (length (pre @ cpio_entry f)) c =
      run_callback cb c (entries_at (length (pre @ cpio_entry f)) files)" for c
  proof (rule Cons.IH)
    show "A = (pre @ cpio_entry f) @ cpio_archive files" by (simp add: A)
    show "length (pre @ cpio_entry f) mod 4 = 0"
      using Cons.prems(2) cpio_entry_mod [of f] by (simp add: mod_add_eq [symmetric])
    show "length A - length (pre @ cpio_entry f) < k"
      using Cons.prems(5) cpio_entry_length [of f] by (simp add: k A)
  qed (use Cons.prems in auto)
  show ?case using le by (simp add: k w p ih [unfolded length_append] cong: if_cong)
qed

definition ram_fs_of :: "nat \<Rightarrow> cpio_file list \<Rightarrow> ram_fs" where
  "ram_fs_of addr files =
     \<lparr>InitramfsAddress = addr, InitramfsSize = length (cpio_archive files), Archive = cpio_archive files\<rparr>"

lemma EnumerateEntries_cpio:
  assumes "\<forall>f\<in>set files. file_ok f" and "length (cpio_archive files) < 2 ^ 63" and "0 < addr"
  shows "EnumerateEntries (ram_fs_of addr files) cb ctx = run_callback cb ctx (entries_at 0 files)"
proof -
  have "111 \<le> length (cpio_archive files)"
    using cpio_entry_length [of "\<lparr>FName = ''TRAILER!!!'', FMode = 0, FData = []\<rparr>"]
    by (simp add: cpio_archive_def)
  then show ?thesis
    using Enumerate_loop_cpio [of "cpio_archive files" "[]" files "Suc (length (cpio_archive files))" cb ctx] assms
    by (simp add: EnumerateEntries_def ram_fs_of_def CpioHeaderSize_def)
qed

text \<open>The names and the data of the entries, where the archive has them.\<close>

lemma entry_name:
  assumes "A = pre @ cpio_entry f @ post" and "name_ok f"
  shows "c_string A (EName (entry_at (length pre) f)) = Some (FName f)"
proof (rule c_string_name)
  show "drop (EName (entry_at (length pre) f)) A = FName f @ NUL #
      (drop (Suc (length (FName f))) (drop 110 (cpio_entry f)) @ post)"
    by (simp add: assms(1) entry_at_def CpioHeaderSize_def cpio_entry_def cpio_head_def pad4_def)
qed (use assms(2) in \<open>simp add: name_ok_def\<close>)

lemma entry_data:
  assumes "A = pre @ cpio_entry f @ post"
  shows "take (ESize (entry_at (length pre) f)) (drop (EData (entry_at (length pre) f)) A) = FData f"
  by (simp add: assms entry_at_def cpio_entry_def pad4_def)

definition find_file :: "string \<Rightarrow> cpio_file list \<Rightarrow> cpio_file option" where
  "find_file p files = List.find (\<lambda>f. PathMatchesArchiveName (Some p) (Some (FName f))) files"

lemma Find_callback_cpio:
  "A = pre @ cpio_archive files \<Longrightarrow> \<forall>f\<in>set files. file_ok f \<Longrightarrow>
   \<exists>r. run_callback (Some (FindEntryByPath A p)) None (entries_at (length pre) files) = Some (True, r) \<and>
     map_option (\<lambda>e. (EType e, take (ESize e) (drop (EData e) A), ESize e)) r =
     map_option (\<lambda>f. (DecodeEntryType (FMode f), FData f, length (FData f))) (find_file p files)"
proof (induction files arbitrary: pre)
  case Nil
  show ?case by (simp add: find_file_def)
next
  case (Cons f files)
  have A: "A = pre @ cpio_entry f @ cpio_archive files"
    using Cons.prems(1) by (simp add: cpio_archive_def)
  have f: "name_ok f" using Cons.prems(2) by (simp add: file_ok_def)
  note nd = entry_name [OF A f] entry_data [OF A]
  show ?case
  proof (cases "PathMatchesArchiveName (Some p) (Some (FName f))")
    case True
    with nd show ?thesis by (simp add: FindEntryByPath_def find_file_def entry_at_def)
  next
    case False
    with nd(1) Cons.IH [of "pre @ cpio_entry f"] Cons.prems(2) A show ?thesis
      by (simp add: FindEntryByPath_def find_file_def)
  qed
qed

lemma FindFile_cpio:
  assumes "\<forall>f\<in>set files. file_ok f" and "length (cpio_archive files) < 2 ^ 63" and "0 < addr"
  shows "\<exists>r. FindFile (ram_fs_of addr files) (Some p) = Some r \<and>
    map_option (\<lambda>(d, n). take n (drop d (cpio_archive files))) r =
      (case find_file p files of
         None \<Rightarrow> None
       | Some f \<Rightarrow> if DecodeEntryType (FMode f) = RamFileSystemEntryTypeRegularFile then Some (FData f)
                   else None)"
proof -
  let ?A = "cpio_archive files"
  obtain r where r: "run_callback (Some (FindEntryByPath ?A p)) None (entries_at 0 files) = Some (True, r)"
    and m: "map_option (\<lambda>e. (EType e, take (ESize e) (drop (EData e) ?A), ESize e)) r =
       map_option (\<lambda>f. (DecodeEntryType (FMode f), FData f, length (FData f))) (find_file p files)"
    using Find_callback_cpio [of ?A "[]" files p] assms(1) by auto
  have arch: "Archive (ram_fs_of addr files) = ?A" by (simp add: ram_fs_of_def)
  have "FindEntry (ram_fs_of addr files) (Some p) = Some r"
    unfolding FindEntry_def arch using r by (simp add: EnumerateEntries_cpio [OF assms])
  then show ?thesis
    using m by (cases r; cases "find_file p files") (auto simp: FindFile_def)
qed

section \<open>A concrete image\<close>

definition sample_files :: "cpio_file list" where
  "sample_files = [\<lparr>FName = ''init'', FMode = 0x81A4, FData = ''run''\<rparr>]"

lemma sample_files_ok: "\<forall>f\<in>set sample_files. file_ok f"
  by (simp add: sample_files_def file_ok_def name_ok_def NUL_def)

lemma sample_files_length: "length (cpio_archive sample_files) < 2 ^ 63"
  by (simp add: sample_files_def cpio_archive_def cpio_entry_def cpio_head_def pad4_length)

lemma sample_find:
  "find_file ''/init'' sample_files = Some (hd sample_files)"
  "DecodeEntryType (FMode (hd sample_files)) = RamFileSystemEntryTypeRegularFile"
  "FData (hd sample_files) = ''run''"
  by (simp_all add: sample_files_def find_file_def PathMatchesArchiveName_def SkipPathPrefixes_def
      DecodeEntryType_def CpioModeFileTypeMask_def)

section \<open>Properties\<close>

text \<open>
  C34. Looking a path up in the image a cpio writer makes of a list of files returns the data of
  the first file whose name the path matches, when it is a regular file, and nothing otherwise;
  the lookup never reads outside the image.
\<close>

theorem initramfs_lookup:
  assumes "\<forall>f\<in>set files. file_ok f" and "length (cpio_archive files) < 2 ^ 63" and "0 < addr"
  shows "\<exists>r. FindFile (ram_fs_of addr files) (Some p) = Some r \<and>
    map_option (\<lambda>(d, n). take n (drop d (cpio_archive files))) r =
      (case find_file p files of
         None \<Rightarrow> None
       | Some f \<Rightarrow> if DecodeEntryType (FMode f) = RamFileSystemEntryTypeRegularFile then Some (FData f) else None)"
  using assms by (rule FindFile_cpio)

theorem initramfs_lookup_witness:
  "\<exists>d n. FindFile (ram_fs_of 4096 sample_files) (Some ''/init'') = Some (Some (d, n)) \<and>
     take n (drop d (cpio_archive sample_files)) = ''run''"
proof -
  from initramfs_lookup [OF sample_files_ok sample_files_length, of 4096 "''/init''"]
  obtain r where r: "FindFile (ram_fs_of 4096 sample_files) (Some ''/init'') = Some r"
    "map_option (\<lambda>(d, n). take n (drop d (cpio_archive sample_files))) r = Some ''run''"
    by (auto simp: sample_find)
  then show ?thesis by (cases r) auto
qed

section \<open>Further facts\<close>

text \<open>
  Enumerating the image a cpio writer makes calls the callback once per file, in order, with the
  name, mode, size and data that were written, until the callback stops it.
\<close>

theorem initramfs_enumeration:
  assumes "\<forall>f\<in>set files. file_ok f" and "length (cpio_archive files) < 2 ^ 63" and "0 < addr"
  shows "EnumerateEntries (ram_fs_of addr files) cb ctx = run_callback cb ctx (entries_at 0 files)"
  using assms by (rule EnumerateEntries_cpio)

theorem initramfs_enumeration_witness:
  "EnumerateEntries (ram_fs_of 4096 sample_files) (Some (\<lambda>n e. Some (True, n + ESize e))) 0 = Some (True, 3)"
  using initramfs_enumeration [OF sample_files_ok sample_files_length, of 4096 "Some (\<lambda>n e. Some (True, n + ESize e))" 0]
  by (simp add: sample_files_def entry_at_def)

text \<open>
  Whatever the bytes of the image are, enumeration and lookup terminate and make no read outside
  it: with a callback that reads only its entry, they return a value.
\<close>

theorem initramfs_untrusted_image:
  assumes "ram_fs_ok fs" and "callback_ok (Archive fs) cb"
  shows "(\<exists>r. EnumerateEntries fs cb ctx = Some r) \<and> (\<exists>r. FindFile fs Path = Some r)"
  using EnumerateEntries_total [OF assms, of ctx] FindFile_total [OF assms(1), of Path] by blast

theorem initramfs_untrusted_image_witness:
  "\<exists>r. FindFile \<lparr>InitramfsAddress = 4096, InitramfsSize = 6, Archive = ''070701''\<rparr> (Some ''/init'') = Some r"
  using initramfs_untrusted_image [of "\<lparr>InitramfsAddress = 4096, InitramfsSize = 6, Archive = ''070701''\<rparr>"
      "None :: nat callback option" 0 "Some ''/init''"]
  by (simp add: ram_fs_ok_def callback_ok_def)

end
