(* ===== verification/ELF_Manager.thy ===== *)
theory ELF_Manager imports Kernel_Prelude "HOL-Library.Monad_Syntax" begin

text \<open>
  \<open>Kernel/Layers/Logic/ELFManager.{hpp,cpp}\<close>: the checks on an ELF64 image and the reading of its
  interpreter path. The image is the list \<open>Img\<close> of the bytes at \<open>PhysicalAddress\<close>; a load outside
  it is \<open>None\<close>, so \<open>Some _\<close> says that the call stayed inside. Header fields have the widths of
  the packed structs and are read little-endian at the structs' offsets.
\<close>

record ELFHeader =
  Magic :: "u8 list"
  Class :: u8
  Data :: u8
  IdentifierVersion :: u8
  OSABI :: u8
  ABIVersion :: u8
  HType :: u16
  Machine :: u16
  Version :: u32
  Entry :: u64
  ProgramHeaderOffset :: u64
  SectionHeaderOffset :: u64
  HFlags :: u32
  HeaderSize :: u16
  ProgramHeaderEntrySize :: u16
  ProgramHeaderEntryCount :: u16
  SectionHeaderEntrySize :: u16
  SectionHeaderEntryCount :: u16
  SectionHeaderNameIndex :: u16

record ELFProgramHeader64 =
  PType :: u32
  PFlags :: u32
  POffset :: u64
  VirtualAddress :: u64
  PhysicalAddress :: u64
  FileSize :: u64
  MemorySize :: u64
  PAlign :: u64

definition SizeofELFHeader :: nat where [layout_simps]: "SizeofELFHeader = 64"
definition SizeofProgramHeader :: nat where [layout_simps]: "SizeofProgramHeader = 56"

section \<open>Loads\<close>

definition load8 :: "u8 list \<Rightarrow> nat \<Rightarrow> u8 option" where
  "load8 Img i = (if i < length Img then Some (Img ! i) else None)"

definition load_le :: "u8 list \<Rightarrow> nat \<Rightarrow> nat \<Rightarrow> 'a::len word option" where
  "load_le Img off n =
     (if off + n \<le> length Img then Some (of_nat (le (take n (drop off Img)))) else None)"

definition ZeroELFHeader :: ELFHeader where
  "ZeroELFHeader =
     \<lparr>Magic = [0, 0, 0, 0], Class = 0, Data = 0, IdentifierVersion = 0, OSABI = 0, ABIVersion = 0,
      HType = 0, Machine = 0, Version = 0, Entry = 0, ProgramHeaderOffset = 0,
      SectionHeaderOffset = 0, HFlags = 0, HeaderSize = 0, ProgramHeaderEntrySize = 0,
      ProgramHeaderEntryCount = 0, SectionHeaderEntrySize = 0, SectionHeaderEntryCount = 0,
      SectionHeaderNameIndex = 0\<rparr>"

definition ParseELF :: "u8 list \<Rightarrow> u64 \<Rightarrow> ELFHeader option" where
  "ParseELF Img Address =
     (if Address = 0 then Some ZeroELFHeader
      else do {
        m0 \<leftarrow> load8 Img 0; m1 \<leftarrow> load8 Img 1; m2 \<leftarrow> load8 Img 2; m3 \<leftarrow> load8 Img 3;
        c \<leftarrow> load8 Img 4; d \<leftarrow> load8 Img 5; iv \<leftarrow> load8 Img 6; osabi \<leftarrow> load8 Img 7;
        abi \<leftarrow> load8 Img 8;
        ty \<leftarrow> load_le Img 16 2; ma \<leftarrow> load_le Img 18 2; ve \<leftarrow> load_le Img 20 4;
        en \<leftarrow> load_le Img 24 8; po \<leftarrow> load_le Img 32 8; so \<leftarrow> load_le Img 40 8;
        fl \<leftarrow> load_le Img 48 4; hs \<leftarrow> load_le Img 52 2; ps \<leftarrow> load_le Img 54 2;
        pc \<leftarrow> load_le Img 56 2; ss \<leftarrow> load_le Img 58 2; sc \<leftarrow> load_le Img 60 2;
        si \<leftarrow> load_le Img 62 2;
        Some \<lparr>Magic = [m0, m1, m2, m3], Class = c, Data = d, IdentifierVersion = iv, OSABI = osabi,
              ABIVersion = abi, HType = ty, Machine = ma, Version = ve, Entry = en,
              ProgramHeaderOffset = po, SectionHeaderOffset = so, HFlags = fl, HeaderSize = hs,
              ProgramHeaderEntrySize = ps, ProgramHeaderEntryCount = pc, SectionHeaderEntrySize = ss,
              SectionHeaderEntryCount = sc, SectionHeaderNameIndex = si\<rparr> })"

definition LoadProgramHeader :: "u8 list \<Rightarrow> nat \<Rightarrow> ELFProgramHeader64 option" where
  "LoadProgramHeader Img off =
     do { ty \<leftarrow> load_le Img off 4; fl \<leftarrow> load_le Img (off + 4) 4;
          po \<leftarrow> load_le Img (off + 8) 8; va \<leftarrow> load_le Img (off + 16) 8;
          pa \<leftarrow> load_le Img (off + 24) 8; fs \<leftarrow> load_le Img (off + 32) 8;
          ms \<leftarrow> load_le Img (off + 40) 8; al \<leftarrow> load_le Img (off + 48) 8;
          Some \<lparr>PType = ty, PFlags = fl, POffset = po, VirtualAddress = va, PhysicalAddress = pa,
                FileSize = fs, MemorySize = ms, PAlign = al\<rparr> }"

section \<open>Checks\<close>

definition RangeFitsInImage :: "u64 \<Rightarrow> u64 \<Rightarrow> u64 \<Rightarrow> bool" where
  "RangeFitsInImage Offset Size ImageSize \<longleftrightarrow> Offset \<le> ImageSize \<and> Size \<le> ImageSize - Offset"

definition ValidateELF :: "ELFHeader \<Rightarrow> bool" where
  "ValidateELF Header \<longleftrightarrow>
     Magic Header ! 0 = 0x7F \<and> Magic Header ! 1 = 0x45 \<and> Magic Header ! 2 = 0x4C \<and> Magic Header ! 3 = 0x46"

definition ValidateELF64 :: "ELFHeader \<Rightarrow> bool" where
  "ValidateELF64 Header \<longleftrightarrow>
     ValidateELF Header \<and> Class Header = 2 \<and> Data Header = 1 \<and> Version Header = 1"

definition ValidateProgramHeaderTable :: "ELFHeader \<Rightarrow> u64 \<Rightarrow> bool" where
  "ValidateProgramHeaderTable Header ImageSize =
     (if \<not> ValidateELF64 Header \<or> ProgramHeaderEntryCount Header = 0 \<or>
         unat (ProgramHeaderEntrySize Header) \<noteq> SizeofProgramHeader then False
      else RangeFitsInImage (ProgramHeaderOffset Header)
             (ucast (ProgramHeaderEntryCount Header) * ucast (ProgramHeaderEntrySize Header)) ImageSize)"

text \<open>The table's address, as an offset into the image.\<close>

definition GetProgramHeaderTable :: "u64 \<Rightarrow> ELFHeader \<Rightarrow> nat option" where
  "GetProgramHeaderTable Address Header =
     (if Address = 0 then None else Some (unat (ProgramHeaderOffset Header)))"

definition IsDynamicImage :: "ELFHeader \<Rightarrow> bool" where
  "IsDynamicImage Header \<longleftrightarrow> HType Header = 3"

unbundle bit_operations_syntax

definition IsLoadableSegment :: "ELFProgramHeader64 \<Rightarrow> bool" where
  "IsLoadableSegment ph \<longleftrightarrow> PType ph = 1 \<and> MemorySize ph \<noteq> 0"

definition IsWritableSegment :: "ELFProgramHeader64 \<Rightarrow> bool" where
  "IsWritableSegment ph \<longleftrightarrow> PFlags ph AND 2 \<noteq> 0"

definition ValidateProgramSegment :: "ELFProgramHeader64 \<Rightarrow> u64 \<Rightarrow> bool" where
  "ValidateProgramSegment ph ImageSize \<longleftrightarrow>
     MemorySize ph \<noteq> 0 \<and> FileSize ph \<le> MemorySize ph \<and>
     RangeFitsInImage (POffset ph) (FileSize ph) ImageSize"

section \<open>The interpreter path\<close>

text \<open>The two byte loops: the search for a NUL and the copy into the buffer.\<close>

fun HasNul :: "u8 list \<Rightarrow> nat \<Rightarrow> nat \<Rightarrow> bool option" where
  "HasNul Img p 0 = Some False"
| "HasNul Img p (Suc n) =
     do { c \<leftarrow> load8 Img p; if c = 0 then Some True else HasNul Img (p + 1) n }"

fun CopyPath :: "u8 list \<Rightarrow> nat \<Rightarrow> nat \<Rightarrow> nat \<Rightarrow> u8 list \<Rightarrow> u8 list option" where
  "CopyPath Img p Index 0 buf = Some buf"
| "CopyPath Img p Index (Suc n) buf =
     do { c \<leftarrow> load8 Img (p + Index); CopyPath Img p (Index + 1) n (buf[Index := c]) }"

text \<open>The \<open>for\<close> loop over the program headers, with \<open>n\<close> of them left from offset \<open>off\<close> on.\<close>

fun InterpreterPath_loop :: "u8 list \<Rightarrow> u64 \<Rightarrow> nat \<Rightarrow> nat \<Rightarrow> u8 list \<Rightarrow> (bool \<times> u8 list) option" where
  "InterpreterPath_loop Img ImageSize off 0 buf = Some (False, buf)"
| "InterpreterPath_loop Img ImageSize off (Suc n) buf =
     do { ph \<leftarrow> LoadProgramHeader Img off;
          if PType ph \<noteq> 3 \<or> FileSize ph = 0
          then InterpreterPath_loop Img ImageSize (off + SizeofProgramHeader) n buf
          else if \<not> RangeFitsInImage (POffset ph) (FileSize ph) ImageSize then Some (False, buf)
          else if unat (FileSize ph) > length buf then Some (False, buf)
          else do {
            t \<leftarrow> HasNul Img (unat (POffset ph)) (unat (FileSize ph));
            if \<not> t then Some (False, buf)
            else do {
              buf1 \<leftarrow> CopyPath Img (unat (POffset ph)) 0 (unat (FileSize ph)) buf;
              Some (True, buf1[length buf - 1 := 0]) } } }"

text \<open>The buffer's size is its length; \<open>None\<close> is a null buffer pointer.\<close>

definition GetInterpreterPath ::
    "u8 list \<Rightarrow> u64 \<Rightarrow> u64 \<Rightarrow> ELFHeader \<Rightarrow> u8 list option \<Rightarrow> (bool \<times> u8 list option) option" where
  "GetInterpreterPath Img Address ImageSize Header Buffer =
     (case Buffer of
        None \<Rightarrow> Some (False, None)
      | Some buf \<Rightarrow>
          if Address = 0 \<or> buf = [] then Some (False, Some buf)
          else if \<not> ValidateProgramHeaderTable Header ImageSize then Some (False, Some buf)
          else (case GetProgramHeaderTable Address Header of
              None \<Rightarrow> Some (False, Some buf)
            | Some table \<Rightarrow>
                do { (ok, buf') \<leftarrow> InterpreterPath_loop Img ImageSize table
                                     (unat (ProgramHeaderEntryCount Header)) buf;
                     Some (ok, Some buf') }))"

section \<open>Lemmas\<close>

lemma RangeFits_iff:
  "RangeFitsInImage Offset Size ImageSize \<longleftrightarrow> unat Offset + unat Size \<le> unat ImageSize"
  unfolding RangeFitsInImage_def
  by (cases "Offset \<le> ImageSize") (auto simp: word_le_nat_alt unat_sub)

lemma table_size:
  "unat (ucast (c::u16) * ucast (s::u16) :: u64) = unat c * unat s"
proof -
  have c: "unat (ucast c :: u64) = unat c" "unat (ucast s :: u64) = unat s"
    using unsigned_less [of c, where ?'a = nat] unsigned_less [of s, where ?'a = nat] by (simp_all add: unsigned_ucast_eq take_bit_nat_eq_self)
  have "unat c * unat s \<le> 65535 * 65535"
    using unsigned_less [of c, where ?'a = nat] unsigned_less [of s, where ?'a = nat] by (intro mult_le_mono) auto
  then have "unat c * unat s < 2 ^ LENGTH(64)" by simp
  then show ?thesis by (simp add: unat_word_ariths c)
qed

lemma ValidateProgramHeaderTable_iff:
  "ValidateProgramHeaderTable Header ImageSize \<longleftrightarrow>
     ValidateELF64 Header \<and> 0 < unat (ProgramHeaderEntryCount Header) \<and>
     unat (ProgramHeaderEntrySize Header) = SizeofProgramHeader \<and>
     unat (ProgramHeaderOffset Header) + unat (ProgramHeaderEntryCount Header) * SizeofProgramHeader
       \<le> unat ImageSize"
  by (auto simp: ValidateProgramHeaderTable_def RangeFits_iff table_size unat_gt_0)

lemma LoadProgramHeader_in:
  "off + 56 \<le> length Img \<Longrightarrow> \<exists>ph. LoadProgramHeader Img off = Some ph"
  by (simp add: LoadProgramHeader_def load_le_def)

lemma HasNul_in: "p + n \<le> length Img \<Longrightarrow> HasNul Img p n = Some (0 \<in> set (take n (drop p Img)))"
proof (induction n arbitrary: p)
  case (Suc n)
  then have "drop p Img = Img ! p # drop (p + 1) Img"
    using Cons_nth_drop_Suc [of p Img] by simp
  with Suc show ?case by (auto simp: load8_def)
qed simp

lemma CopyPath_in:
  "p + Index + n \<le> length Img \<Longrightarrow> Index + n \<le> length buf \<Longrightarrow>
   CopyPath Img p Index n buf =
     Some (take Index buf @ take n (drop (p + Index) Img) @ drop (Index + n) buf)"
proof (induction n arbitrary: Index buf)
  case (Suc n)
  have d: "drop (p + Index) Img = Img ! (p + Index) # drop (p + Suc Index) Img"
    using Suc.prems(1) Cons_nth_drop_Suc [of "p + Index" Img] by simp
  have "take (Suc Index) (buf[Index := Img ! (p + Index)]) = take Index buf @ [Img ! (p + Index)]"
    using Suc.prems(2) by (simp add: take_Suc_conv_app_nth)
  with Suc.IH [of "Suc Index" "buf[Index := Img ! (p + Index)]"] Suc.prems d
  show ?case by (simp add: load8_def)
qed simp

text \<open>What a successful call has copied: the string of the first interpreter segment.\<close>

definition c_bytes :: "u8 list \<Rightarrow> u8 list" where
  "c_bytes bs = takeWhile (\<lambda>b. b \<noteq> 0) bs"

fun interp_segment :: "u8 list \<Rightarrow> nat \<Rightarrow> nat \<Rightarrow> ELFProgramHeader64 option" where
  "interp_segment Img off 0 = None"
| "interp_segment Img off (Suc n) =
     (case LoadProgramHeader Img off of
        None \<Rightarrow> None
      | Some ph \<Rightarrow> if PType ph \<noteq> 3 \<or> FileSize ph = 0 then interp_segment Img (off + SizeofProgramHeader) n
                    else Some ph)"

definition path_ok :: "u8 list \<Rightarrow> ELFProgramHeader64 \<Rightarrow> nat \<Rightarrow> bool" where
  "path_ok Img ph n \<longleftrightarrow>
     unat (POffset ph) + unat (FileSize ph) \<le> length Img \<and> unat (FileSize ph) \<le> n \<and>
     0 \<in> set (take (unat (FileSize ph)) (drop (unat (POffset ph)) Img))"

lemma c_bytes_copy:
  assumes "0 \<in> set bs" and "length bs \<le> length buf"
  shows "c_bytes ((bs @ drop (length bs) buf)[length buf - 1 := 0]) = c_bytes bs \<and>
     0 \<in> set ((bs @ drop (length bs) buf)[length buf - 1 := 0])"
proof -
  obtain xs ys where bs: "bs = xs @ 0 # ys" "0 \<notin> set xs" using split_list_first [OF assms(1)] by blast
  have c: "c_bytes (xs @ 0 # zs) = xs" for zs
    using bs(2) unfolding c_bytes_def by (subst takeWhile_append2) auto
  have z: "\<exists>zs. (xs @ 0 # ys')[k := 0] = xs @ 0 # zs" if "length xs \<le> k" for k and ys' :: "u8 list"
    using that by (cases "k - length xs") (auto simp: list_update_append)
  have "\<exists>zs. (bs @ drop (length bs) buf)[length buf - 1 := 0] = xs @ 0 # zs"
    using z [of "length buf - 1" "ys @ drop (length bs) buf"] assms(2) by (simp add: bs(1))
  then show ?thesis using c bs by auto
qed

lemma InterpreterPath_loop_spec:
  "length Img = unat ImageSize \<Longrightarrow> off + n * SizeofProgramHeader \<le> length Img \<Longrightarrow> buf \<noteq> [] \<Longrightarrow>
   \<exists>ok buf'. InterpreterPath_loop Img ImageSize off n buf = Some (ok, buf') \<and>
     length buf' = length buf \<and>
     (ok \<longleftrightarrow> (\<exists>ph. interp_segment Img off n = Some ph \<and> path_ok Img ph (length buf))) \<and>
     (if ok then \<forall>ph. interp_segment Img off n = Some ph \<longrightarrow>
          c_bytes buf' = c_bytes (take (unat (FileSize ph)) (drop (unat (POffset ph)) Img)) \<and> 0 \<in> set buf'
      else buf' = buf)"
proof (induction n arbitrary: off)
  case (Suc n)
  have "off + 56 \<le> length Img" using Suc.prems(2) by (simp add: layout_simps)
  then obtain ph where ph: "LoadProgramHeader Img off = Some ph" using LoadProgramHeader_in by blast
  let ?fs = "unat (FileSize ph)" and ?po = "unat (POffset ph)"
  let ?bs = "take ?fs (drop ?po Img)"
  consider (skip) "PType ph \<noteq> 3 \<or> FileSize ph = 0"
    | (bad) "PType ph = 3" "FileSize ph \<noteq> 0" "\<not> (?po + ?fs \<le> length Img \<and> ?fs \<le> length buf)"
    | (nonul) "PType ph = 3" "FileSize ph \<noteq> 0" "?po + ?fs \<le> length Img" "?fs \<le> length buf" "0 \<notin> set ?bs"
    | (ok) "PType ph = 3" "FileSize ph \<noteq> 0" "?po + ?fs \<le> length Img" "?fs \<le> length buf" "0 \<in> set ?bs"
    by blast
  then show ?case
  proof cases
    case skip
    then have "InterpreterPath_loop Img ImageSize off (Suc n) buf =
        InterpreterPath_loop Img ImageSize (off + SizeofProgramHeader) n buf"
      by (simp only: InterpreterPath_loop.simps ph bind.bind_lunit if_True)
    moreover have "interp_segment Img off (Suc n) = interp_segment Img (off + SizeofProgramHeader) n"
      using skip by (simp only: interp_segment.simps ph option.case if_True)
    moreover have "off + SizeofProgramHeader + n * SizeofProgramHeader \<le> length Img"
      using Suc.prems(2) by simp
    ultimately show ?thesis using Suc.IH [OF Suc.prems(1) _ Suc.prems(3)] by presburger
  next
    case bad
    then have "InterpreterPath_loop Img ImageSize off (Suc n) buf = Some (False, buf)"
      using ph Suc.prems(1) by (auto simp: RangeFits_iff)
    moreover have "interp_segment Img off (Suc n) = Some ph" using bad(1,2) ph by simp
    moreover have "\<not> path_ok Img ph (length buf)" using bad(3) by (auto simp: path_ok_def)
    ultimately show ?thesis by (intro exI [of _ False] exI [of _ buf]) simp
  next
    case nonul
    have fits: "RangeFitsInImage (POffset ph) (FileSize ph) ImageSize"
      using nonul(3) Suc.prems(1) by (simp add: RangeFits_iff)
    have nul: "HasNul Img ?po ?fs = Some False" using HasNul_in [OF nonul(3)] nonul(5) by simp
    have "InterpreterPath_loop Img ImageSize off (Suc n) buf = Some (False, buf)"
      using nonul(1,2,4) by (simp only: InterpreterPath_loop.simps ph bind.bind_lunit fits nul) simp
    moreover have "interp_segment Img off (Suc n) = Some ph" using nonul(1,2) ph by simp
    moreover have "\<not> path_ok Img ph (length buf)" using nonul(5) by (auto simp: path_ok_def)
    ultimately show ?thesis by (intro exI [of _ False] exI [of _ buf]) simp
  next
    case ok
    have len: "length ?bs = ?fs" using ok by simp
    let ?out = "(?bs @ drop (length ?bs) buf)[length buf - 1 := 0]"
    have copy: "CopyPath Img ?po 0 ?fs buf = Some (?bs @ drop (length ?bs) buf)"
      using CopyPath_in [of ?po 0 ?fs Img buf] ok by simp
    have fits: "RangeFitsInImage (POffset ph) (FileSize ph) ImageSize"
      using ok(3) Suc.prems(1) by (simp add: RangeFits_iff)
    have nul: "HasNul Img ?po ?fs = Some True" using HasNul_in [OF ok(3)] ok(5) by simp
    have run: "InterpreterPath_loop Img ImageSize off (Suc n) buf = Some (True, ?out)"
      using ok(1,2,4) by (simp only: InterpreterPath_loop.simps ph bind.bind_lunit fits nul copy) simp
    have seg: "interp_segment Img off (Suc n) = Some ph" using ok(1,2) ph by simp
    have "path_ok Img ph (length buf)" using ok by (simp add: path_ok_def)
    moreover have "length ?out = length buf" using ok(4) len by simp
    moreover have "c_bytes ?out = c_bytes ?bs \<and> 0 \<in> set ?out"
      by (rule c_bytes_copy [OF ok(5)]) (use len ok(4) in simp)
    ultimately show ?thesis unfolding run seg by (intro exI [of _ True] exI [of _ ?out]) simp
  qed
next
  case 0
  show ?case by (intro exI [of _ False] exI [of _ buf]) simp
qed

lemma GetInterpreterPath_spec:
  assumes "length Img = unat ImageSize"
  shows "\<exists>ok out. GetInterpreterPath Img Address ImageSize Header (Some buf) = Some (ok, Some out) \<and>
     length out = length buf \<and>
     (ok \<longleftrightarrow> Address \<noteq> 0 \<and> buf \<noteq> [] \<and> ValidateProgramHeaderTable Header ImageSize \<and>
        (\<exists>ph. interp_segment Img (unat (ProgramHeaderOffset Header)) (unat (ProgramHeaderEntryCount Header)) =
                Some ph \<and> path_ok Img ph (length buf))) \<and>
     (if ok then \<forall>ph. interp_segment Img (unat (ProgramHeaderOffset Header))
            (unat (ProgramHeaderEntryCount Header)) = Some ph \<longrightarrow>
          c_bytes out = c_bytes (take (unat (FileSize ph)) (drop (unat (POffset ph)) Img)) \<and> 0 \<in> set out
      else out = buf)"
proof (cases "Address = 0 \<or> buf = [] \<or> \<not> ValidateProgramHeaderTable Header ImageSize")
  case True
  then have "GetInterpreterPath Img Address ImageSize Header (Some buf) = Some (False, Some buf)"
    by (auto simp: GetInterpreterPath_def)
  with True show ?thesis by auto
next
  case False
  then have "unat (ProgramHeaderOffset Header) + unat (ProgramHeaderEntryCount Header) * SizeofProgramHeader
      \<le> length Img" using assms by (simp add: ValidateProgramHeaderTable_iff)
  from InterpreterPath_loop_spec [OF assms this, of buf] False obtain ok out where
    l: "InterpreterPath_loop Img ImageSize (unat (ProgramHeaderOffset Header))
          (unat (ProgramHeaderEntryCount Header)) buf = Some (ok, out)" and
    r: "length out = length buf"
      "ok \<longleftrightarrow> (\<exists>ph. interp_segment Img (unat (ProgramHeaderOffset Header))
          (unat (ProgramHeaderEntryCount Header)) = Some ph \<and> path_ok Img ph (length buf))"
      "if ok then \<forall>ph. interp_segment Img (unat (ProgramHeaderOffset Header))
            (unat (ProgramHeaderEntryCount Header)) = Some ph \<longrightarrow>
          c_bytes out = c_bytes (take (unat (FileSize ph)) (drop (unat (POffset ph)) Img)) \<and> 0 \<in> set out
       else out = buf" by blast
  have "GetInterpreterPath Img Address ImageSize Header (Some buf) = Some (ok, Some out)"
    using False l by (simp add: GetInterpreterPath_def GetProgramHeaderTable_def)
  with False r show ?thesis by (intro exI [of _ ok] exI [of _ out]) simp
qed

lemma ParseELF_total: "SizeofELFHeader \<le> length Img \<Longrightarrow> \<exists>h. ParseELF Img Address = Some h"
  by (auto simp: ParseELF_def load_le_def load8_def SizeofELFHeader_def)

section \<open>A concrete image\<close>

text \<open>One program header, of an interpreter segment, and the segment: \<open>/l\<close> with its NUL.\<close>

definition sample_image :: "u8 list" where
  "sample_image =
     [3, 0, 0, 0, 4, 0, 0, 0, 56, 0, 0, 0, 0, 0, 0, 0,
      0, 0, 0, 0, 0, 0, 0, 0, 0, 0, 0, 0, 0, 0, 0, 0, 3, 0, 0, 0, 0, 0, 0, 0,
      0, 0, 0, 0, 0, 0, 0, 0, 0, 0, 0, 0, 0, 0, 0, 0, 47, 108, 0, 0]"

definition sample_header :: ELFHeader where
  "sample_header = ZeroELFHeader\<lparr>Magic := [0x7F, 0x45, 0x4C, 0x46], Class := 2, Data := 1, Version := 1,
     ProgramHeaderEntrySize := 56, ProgramHeaderEntryCount := 1\<rparr>"

lemma sample_valid: "ValidateProgramHeaderTable sample_header 60"
  by (simp add: ValidateProgramHeaderTable_iff sample_header_def ZeroELFHeader_def ValidateELF64_def
      ValidateELF_def SizeofProgramHeader_def)

lemma sample_interp:
  "\<exists>ph. interp_segment sample_image (unat (ProgramHeaderOffset sample_header))
      (unat (ProgramHeaderEntryCount sample_header)) = Some ph \<and> path_ok sample_image ph 8 \<and>
      take (unat (FileSize ph)) (drop (unat (POffset ph)) sample_image) = [47, 108, 0]"
proof -
  have h: "LoadProgramHeader sample_image 0 = Some \<lparr>PType = 3, PFlags = 4, POffset = 56, VirtualAddress = 0,
      PhysicalAddress = 0, FileSize = 3, MemorySize = 0, PAlign = 0\<rparr>"
    by (simp add: LoadProgramHeader_def load_le_def sample_image_def)
  have "drop 56 sample_image = [47, 108, 0, 0]" "length sample_image = 60"
    by (simp_all add: sample_image_def)
  with h show ?thesis
    by (simp add: sample_header_def ZeroELFHeader_def path_ok_def)
qed

section \<open>Properties\<close>

text \<open>
  C40. Validating a program header table decides, over true integers, that the header is a 64-bit
  ELF header, the table has at least one entry of the expected size, and offset plus count times
  size stays inside the image: the 64-bit arithmetic of the check never wraps.
\<close>

theorem elf_table_bounds:
  "ValidateProgramHeaderTable Header ImageSize \<longleftrightarrow>
     ValidateELF64 Header \<and> 0 < unat (ProgramHeaderEntryCount Header) \<and>
     unat (ProgramHeaderEntrySize Header) = SizeofProgramHeader \<and>
     unat (ProgramHeaderOffset Header) + unat (ProgramHeaderEntryCount Header) * SizeofProgramHeader
       \<le> unat ImageSize"
  by (rule ValidateProgramHeaderTable_iff)

section \<open>Further facts\<close>

text \<open>
  For any image of the declared size, GetInterpreterPath reads only inside the image and writes
  only inside the buffer. It succeeds exactly when the table is valid, the first non-empty
  PT_INTERP segment lies inside the image, fits the buffer and holds a NUL; then the buffer holds
  that C string, terminated, and otherwise it is unchanged.
\<close>

theorem elf_interpreter_path:
  assumes "length Img = unat ImageSize"
  shows "\<exists>ok out. GetInterpreterPath Img Address ImageSize Header (Some buf) = Some (ok, Some out) \<and>
     length out = length buf \<and>
     (ok \<longleftrightarrow> Address \<noteq> 0 \<and> buf \<noteq> [] \<and> ValidateProgramHeaderTable Header ImageSize \<and>
        (\<exists>ph. interp_segment Img (unat (ProgramHeaderOffset Header)) (unat (ProgramHeaderEntryCount Header)) =
                Some ph \<and> path_ok Img ph (length buf))) \<and>
     (if ok then \<forall>ph. interp_segment Img (unat (ProgramHeaderOffset Header))
            (unat (ProgramHeaderEntryCount Header)) = Some ph \<longrightarrow>
          c_bytes out = c_bytes (take (unat (FileSize ph)) (drop (unat (POffset ph)) Img)) \<and> 0 \<in> set out
      else out = buf)"
  using assms by (rule GetInterpreterPath_spec)

theorem elf_interpreter_path_witness:
  "\<exists>out. GetInterpreterPath sample_image 0x200000 60 sample_header (Some (replicate 8 9)) = Some (True, Some out) \<and>
     c_bytes out = [47, 108]"
proof -
  have l: "length sample_image = unat (60::u64)" by (simp add: sample_image_def)
  from elf_interpreter_path [OF l, of "0x200000" sample_header "replicate 8 9"] sample_interp
  show ?thesis by (auto simp: sample_valid c_bytes_def)
qed

end
