(* ===== verification/Ring_Buffer.thy ===== *)
theory Ring_Buffer imports Kernel_Prelude begin

text \<open>
  The circular buffer that pipes and UNIX sockets both carry: an array of fixed capacity, a read
  offset, a write offset and the number of buffered bytes. \<open>ring_read\<close> and \<open>ring_write\<close> are the byte
  loops of \<open>PipeRead\<close>/\<open>ReadFromUnixReceiveBuffer\<close> and of \<open>PipeWrite\<close>/\<open>WriteToUnixPeerBuffer\<close>;
  \<open>ring_contents\<close> is the queue of bytes the offsets stand for.

  The locale \<open>byte_channel\<close> is the contract such a buffer gives its two ends: what is taken out is
  what was put in, in order and without loss, never more than the capacity in between.
\<close>

fun ring_read :: "nat \<Rightarrow> 'b list \<Rightarrow> nat \<Rightarrow> nat \<Rightarrow> 'b list \<times> nat" where
  "ring_read cap buf off 0 = ([], off)"
| "ring_read cap buf off (Suc n) =
     (let (bs, off') = ring_read cap buf ((off + 1) mod cap) n in (buf ! off # bs, off'))"

fun ring_write :: "nat \<Rightarrow> 'b list \<Rightarrow> nat \<Rightarrow> 'b list \<Rightarrow> 'b list \<times> nat" where
  "ring_write cap buf off [] = (buf, off)"
| "ring_write cap buf off (b # bs) = ring_write cap (buf[off := b]) ((off + 1) mod cap) bs"

definition ring_contents :: "nat \<Rightarrow> 'b list \<Rightarrow> nat \<Rightarrow> nat \<Rightarrow> 'b list" where
  "ring_contents cap buf r n = map (\<lambda>i. buf ! ((r + i) mod cap)) [0..<n]"

definition ring_ok :: "nat \<Rightarrow> 'b list \<Rightarrow> nat \<Rightarrow> nat \<Rightarrow> nat \<Rightarrow> bool" where
  "ring_ok cap buf r w n \<longleftrightarrow>
     0 < cap \<and> length buf = cap \<and> r < cap \<and> w < cap \<and> n \<le> cap \<and> w = (r + n) mod cap"

lemma ring_contents_length [simp]: "length (ring_contents cap buf r n) = n"
  by (simp add: ring_contents_def)

lemma ring_contents_Suc:
  "r < cap \<Longrightarrow> ring_contents cap buf r (Suc n) = buf ! r # ring_contents cap buf ((r + 1) mod cap) n"
  unfolding ring_contents_def
  by (rule nth_equalityI) (auto simp: nth_Cons mod_add_left_eq split: nat.split simp del: upt_Suc)

lemma ring_contents_snoc:
  "ring_contents cap buf r (Suc n) = ring_contents cap buf r n @ [buf ! ((r + n) mod cap)]"
  by (simp add: ring_contents_def)

lemma ring_read_eq:
  "0 < cap \<Longrightarrow> r < cap \<Longrightarrow>
   ring_read cap buf r k = (ring_contents cap buf r k, (r + k) mod cap)"
proof (induction k arbitrary: r)
  case (Suc k)
  moreover have "(Suc r mod cap + k) mod cap = (Suc r + k) mod cap" by (rule mod_add_left_eq)
  ultimately show ?case by (simp add: ring_contents_Suc)
qed (simp add: ring_contents_def)

lemma ring_contents_take:
  "k \<le> n \<Longrightarrow> ring_contents cap buf r k = take k (ring_contents cap buf r n)"
  by (rule nth_equalityI) (auto simp: ring_contents_def)

lemma ring_contents_drop:
  "k \<le> n \<Longrightarrow> ring_contents cap buf ((r + k) mod cap) (n - k) = drop k (ring_contents cap buf r n)"
  by (rule nth_equalityI) (auto simp: ring_contents_def mod_add_left_eq add.assoc)

lemma ring_slot_free:
  assumes "r < cap" and "i < n" and "n < cap"
  shows "(r + i) mod cap \<noteq> (r + n) mod (cap::nat)"
proof
  assume "(r + i) mod cap = (r + n) mod cap"
  moreover have "r + i \<le> r + n" using assms by simp
  ultimately have "cap dvd (r + n) - (r + i)" by (metis mod_eq_dvd_iff_nat)
  then have "cap dvd n - i" by simp
  with assms show False by (metis dvd_imp_le less_imp_diff_less not_less zero_less_diff)
qed

lemma ring_contents_update:
  "r < cap \<Longrightarrow> n < cap \<Longrightarrow> ring_contents cap (buf[(r + n) mod cap := b]) r n = ring_contents cap buf r n"
  unfolding ring_contents_def using ring_slot_free [of r cap _ n]
  by (intro map_cong refl nth_update_other) (metis atLeastLessThan_iff set_upt)

lemma ring_write_spec:
  "ring_ok cap buf r w n \<Longrightarrow> n + length bs \<le> cap \<Longrightarrow> ring_write cap buf w bs = (buf', w') \<Longrightarrow>
   ring_ok cap buf' r w' (n + length bs) \<and>
   ring_contents cap buf' r (n + length bs) = ring_contents cap buf r n @ bs"
proof (induction bs arbitrary: buf w n)
  case (Cons b bs)
  from Cons.prems have ok: "0 < cap" "length buf = cap" "r < cap" "n < cap" "w = (r + n) mod cap"
    by (auto simp: ring_ok_def)
  have "ring_ok cap (buf[w := b]) r ((w + 1) mod cap) (Suc n)"
    using ok by (simp add: ring_ok_def mod_Suc_eq)
  moreover have "ring_contents cap (buf[w := b]) r (Suc n) = ring_contents cap buf r n @ [b]"
    unfolding ring_contents_snoc using ok by (simp add: ring_contents_update)
  ultimately show ?case using Cons.IH [of "buf[w := b]" "(w + 1) mod cap" "Suc n"] Cons.prems by simp
qed simp

lemma ring_read_ok:
  "ring_ok cap buf r w n \<Longrightarrow> k \<le> n \<Longrightarrow> ring_ok cap buf ((r + k) mod cap) w (n - k)"
proof -
  assume ok: "ring_ok cap buf r w n" and k: "k \<le> n"
  have "((r + k) mod cap + (n - k)) mod cap = (r + k + (n - k)) mod cap" by (rule mod_add_left_eq)
  then have "((r + k) mod cap + (n - k)) mod cap = (r + n) mod cap" using k by simp
  with ok show ?thesis by (auto simp: ring_ok_def)
qed

lemma ring_empty_ok: "0 < cap \<Longrightarrow> length buf = cap \<Longrightarrow> ring_ok cap buf 0 0 0"
  by (simp add: ring_ok_def)

section \<open>The contract of a byte channel\<close>

datatype 'b channel_step = Put "'b list" | Get nat

locale byte_channel =
  fixes ok :: "'s \<Rightarrow> bool"
    and contents :: "'s \<Rightarrow> 'b list"
    and cap :: nat
    and put :: "'s \<Rightarrow> 'b list \<Rightarrow> nat \<times> 's"
    and get :: "'s \<Rightarrow> nat \<Rightarrow> 'b list \<times> 's"
  assumes bounded: "ok s \<Longrightarrow> length (contents s) \<le> cap"
    and put_law: "ok s \<Longrightarrow> put s bs = (k, s') \<Longrightarrow>
          ok s' \<and> k = min (length bs) (cap - length (contents s)) \<and> contents s' = contents s @ take k bs"
    and get_law: "ok s \<Longrightarrow> get s n = (out, s') \<Longrightarrow>
          ok s' \<and> out = take n (contents s) \<and> contents s' = drop n (contents s)"
begin

text \<open>A run of the channel: the bytes it accepted, the bytes it delivered and the last state.\<close>

fun run :: "'s \<Rightarrow> 'b channel_step list \<Rightarrow> 'b list \<times> 'b list \<times> 's" where
  "run s [] = ([], [], s)"
| "run s (Put bs # cs) =
     (let (k, s1) = put s bs; (sent, got, s2) = run s1 cs in (take k bs @ sent, got, s2))"
| "run s (Get n # cs) =
     (let (out, s1) = get s n; (sent, got, s2) = run s1 cs in (sent, out @ got, s2))"

lemma run_fifo:
  "ok s \<Longrightarrow> run s cs = (sent, got, s') \<Longrightarrow>
   ok s' \<and> contents s @ sent = got @ contents s' \<and> length (contents s') \<le> cap"
proof (induction cs arbitrary: s sent got s')
  case Nil
  then show ?case using bounded by simp
next
  case (Cons c cs)
  show ?case
  proof (cases c)
    case (Put bs)
    obtain k s1 where p: "put s bs = (k, s1)" by (cases "put s bs")
    obtain se1 go1 s2 where r: "run s1 cs = (se1, go1, s2)" by (cases "run s1 cs")
    from Cons.prems(2) p r Put have e: "sent = take k bs @ se1" "got = go1" "s' = s2" by simp_all
    from put_law [OF Cons.prems(1) p] Cons.IH [OF _ r] show ?thesis by (simp add: e)
  next
    case (Get n)
    obtain out s1 where p: "get s n = (out, s1)" by (cases "get s n")
    obtain se1 go1 s2 where r: "run s1 cs = (se1, go1, s2)" by (cases "run s1 cs")
    from Cons.prems(2) p r Get have e: "sent = se1" "got = out @ go1" "s' = s2" by simp_all
    have "contents s = out @ contents s1"
      using get_law [OF Cons.prems(1) p] by simp
    with get_law [OF Cons.prems(1) p] Cons.IH [OF _ r] show ?thesis by (simp add: e)
  qed
qed

lemma put_none_iff_full: "ok s \<Longrightarrow> put s bs = (k, s') \<Longrightarrow> bs \<noteq> [] \<Longrightarrow> k = 0 \<longleftrightarrow> length (contents s) = cap"
  using put_law [of s bs k s'] bounded [of s] by (cases bs) auto

end
end
