(* ===== verification/Pipe_Manager.thy ===== *)
theory Pipe_Manager imports Process_Manager Ring_Buffer begin

text \<open>
  The pipes of \<open>Kernel/Layers/Logic/InterProcessComunicationManager.cpp\<close>: the kernel objects, the
  file operations \<open>PipeRead\<close>, \<open>PipeWrite\<close>, \<open>PipePoll\<close>, \<open>PipeIoctl\<close> and the manager's \<open>CreatePipe\<close>,
  \<open>DuplicatePipeDescriptor\<close> and \<open>ClosePipe\<close>. The kernel heap is a map from addresses to the live
  objects of each kind: \<open>new\<close> adds an object, \<open>delete\<close> removes it, and reading a pointer whose object
  is gone is the unspecified \<open>the None\<close>; \<open>pipes_inv\<close> says that no tracked descriptor holds one.
  A \<open>Process*\<close> is the process id. The address a \<open>new\<close> returns is an argument, \<open>None\<close> when it fails.

  \<open>PipeRead\<close> and \<open>PipeWrite\<close> sleep for a tick while there is nothing to transfer, and other processes
  run meanwhile. The outcome \<open>Sleeping\<close> is the call of \<open>SleepProcess\<close>; the code from there on is
  \<open>PipeReadWoken\<close> and \<open>PipeWriteWoken\<close>, which take the pipe as it is when the process runs again.
\<close>

definition LINUX_O_NONBLOCK :: u64 where "LINUX_O_NONBLOCK = 0x800"
definition LINUX_ERR_EINTR :: int where "LINUX_ERR_EINTR = -4"
definition LINUX_PIPE_BUFFER_CAPACITY :: nat where "LINUX_PIPE_BUFFER_CAPACITY = 4096"
definition MAX_TRACKED_PIPES :: nat where
  "MAX_TRACKED_PIPES = MAX_PROCESSES * MAX_OPEN_FILES_PER_PROCESS"

definition LINUX_POLLIN :: u32 where "LINUX_POLLIN = 0x0001"
definition LINUX_POLLOUT :: u32 where "LINUX_POLLOUT = 0x0004"
definition LINUX_POLLERR :: u32 where "LINUX_POLLERR = 0x0008"
definition LINUX_POLLHUP :: u32 where "LINUX_POLLHUP = 0x0010"

definition LINUX_PIPE_ERR_EINVAL :: int where "LINUX_PIPE_ERR_EINVAL = -22"
definition LINUX_PIPE_ERR_ENOMEM :: int where "LINUX_PIPE_ERR_ENOMEM = -12"
definition LINUX_PIPE_ERR_EAGAIN :: int where "LINUX_PIPE_ERR_EAGAIN = -11"
definition LINUX_PIPE_ERR_EMFILE :: int where "LINUX_PIPE_ERR_EMFILE = -24"
definition LINUX_PIPE_ERR_EBADF :: int where "LINUX_PIPE_ERR_EBADF = -9"
definition LINUX_PIPE_ERR_EPIPE :: int where "LINUX_PIPE_ERR_EPIPE = -32"

lemmas pipe_errors =
  LINUX_ERR_EINTR_def LINUX_PIPE_ERR_EINVAL_def LINUX_PIPE_ERR_ENOMEM_def LINUX_PIPE_ERR_EAGAIN_def
  LINUX_PIPE_ERR_EMFILE_def LINUX_PIPE_ERR_EBADF_def LINUX_PIPE_ERR_EPIPE_def

record pipe_object =
  PBuffer :: "u8 list"
  PReadOffset :: nat
  PWriteOffset :: nat
  PBufferedBytes :: nat
  ReaderReferenceCount :: nat
  WriterReferenceCount :: nat
  PReadEndpoint :: ptr
  PWriteEndpoint :: ptr
  PReadNode :: ptr
  PWriteNode :: ptr

record pipe_endpoint =
  EPipe :: ptr
  IsReadEnd :: bool

text \<open>Of an \<open>INode\<close>: \<open>NodeData\<close>, and whether \<open>FileOps\<close> is \<open>&PipeFileOperations\<close>.\<close>

record pipe_node =
  NodeData :: ptr
  HasPipeOps :: bool

record open_file =
  FNode :: ptr
  FOpenFlags :: u64

record tracked_endpoint =
  TOwner :: "u8 option"
  TFileDescriptor :: int
  TNode :: ptr
  TEndpoint :: ptr

record pipe_manager =
  Pipes :: "addr \<Rightarrow> pipe_object option"
  Endpoints :: "addr \<Rightarrow> pipe_endpoint option"
  INodes :: "addr \<Rightarrow> pipe_node option"
  PipeEndpointList :: "tracked_endpoint list"

datatype io_outcome = Returned int "u8 list" | Sleeping u8

definition GetPipeEndpointFromOpenFile :: "pipe_manager \<Rightarrow> open_file option \<Rightarrow> ptr" where
  "GetPipeEndpointFromOpenFile s OpenFile =
     (case OpenFile of
        None \<Rightarrow> None
      | Some f \<Rightarrow> (case FNode f of None \<Rightarrow> None | Some n \<Rightarrow> NodeData (the (INodes s n))))"

unbundle bit_operations_syntax

definition NonBlocking :: "open_file \<Rightarrow> bool" where
  "NonBlocking f \<longleftrightarrow> FOpenFlags f AND LINUX_O_NONBLOCK \<noteq> 0"

text \<open>
  The loop of \<open>PipeRead\<close> and the transfer after it, up to the next \<open>SleepProcess\<close>. \<open>Current\<close> is the
  running process, \<open>None\<close> when the dispatcher, the logic layer, the process manager or the process is
  missing.
\<close>

definition PipeReadLoop ::
    "pipe_object \<Rightarrow> open_file \<Rightarrow> u8 option \<Rightarrow> nat \<Rightarrow> io_outcome \<times> pipe_object" where
  "PipeReadLoop Pipe f Current Count =
     (if PBufferedBytes Pipe = 0 then
        if WriterReferenceCount Pipe = 0 then (Returned 0 [], Pipe)
        else if NonBlocking f then (Returned LINUX_PIPE_ERR_EAGAIN [], Pipe)
        else (case Current of
                None \<Rightarrow> (Returned LINUX_PIPE_ERR_EAGAIN [], Pipe)
              | Some i \<Rightarrow> (Sleeping i, Pipe))
      else
        let BytesToRead = (if Count < PBufferedBytes Pipe then Count else PBufferedBytes Pipe);
            (bytes, off) = ring_read LINUX_PIPE_BUFFER_CAPACITY (PBuffer Pipe) (PReadOffset Pipe) BytesToRead
        in (Returned (int BytesToRead) bytes,
            Pipe\<lparr>PReadOffset := off, PBufferedBytes := PBufferedBytes Pipe - BytesToRead\<rparr>))"

definition PipeWriteLoop ::
    "pipe_object \<Rightarrow> open_file \<Rightarrow> u8 option \<Rightarrow> u8 list \<Rightarrow> io_outcome \<times> pipe_object" where
  "PipeWriteLoop Pipe f Current Bytes =
     (let AvailableSpace = sub64 LINUX_PIPE_BUFFER_CAPACITY (PBufferedBytes Pipe)
      in if AvailableSpace = 0 then
        if ReaderReferenceCount Pipe = 0 then (Returned LINUX_PIPE_ERR_EPIPE [], Pipe)
        else if NonBlocking f then (Returned LINUX_PIPE_ERR_EAGAIN [], Pipe)
        else (case Current of
                None \<Rightarrow> (Returned LINUX_PIPE_ERR_EAGAIN [], Pipe)
              | Some i \<Rightarrow> (Sleeping i, Pipe))
      else
        let BytesToWrite = (if length Bytes < AvailableSpace then length Bytes else AvailableSpace);
            (buf, off) = ring_write LINUX_PIPE_BUFFER_CAPACITY (PBuffer Pipe) (PWriteOffset Pipe)
                           (take BytesToWrite Bytes)
        in (Returned (int BytesToWrite) [],
            Pipe\<lparr>PBuffer := buf, PWriteOffset := off,
                  PBufferedBytes := PBufferedBytes Pipe + BytesToWrite\<rparr>))"

text \<open>After \<open>SleepProcess\<close>: \<open>InterruptedBySignal\<close> of the process, then the loop again.\<close>

definition PipeReadWoken ::
    "bool \<Rightarrow> pipe_object \<Rightarrow> open_file \<Rightarrow> u8 option \<Rightarrow> nat \<Rightarrow> io_outcome \<times> pipe_object" where
  "PipeReadWoken Interrupted Pipe f Current Count =
     (if Interrupted then (Returned LINUX_ERR_EINTR [], Pipe) else PipeReadLoop Pipe f Current Count)"

definition PipeWriteWoken ::
    "bool \<Rightarrow> pipe_object \<Rightarrow> open_file \<Rightarrow> u8 option \<Rightarrow> u8 list \<Rightarrow> io_outcome \<times> pipe_object" where
  "PipeWriteWoken Interrupted Pipe f Current Bytes =
     (if Interrupted then (Returned LINUX_ERR_EINTR [], Pipe) else PipeWriteLoop Pipe f Current Bytes)"

definition set_pipe :: "addr \<Rightarrow> pipe_object \<Rightarrow> pipe_manager \<Rightarrow> pipe_manager" where
  "set_pipe p P s = s\<lparr>Pipes := (Pipes s)(p \<mapsto> P)\<rparr>"

text \<open>\<open>BufferGiven\<close> is \<open>Buffer != nullptr\<close>; the bytes to write are the first \<open>Count\<close> at \<open>Buffer\<close>.\<close>

definition PipeRead ::
    "pipe_manager \<Rightarrow> open_file option \<Rightarrow> bool \<Rightarrow> nat \<Rightarrow> u8 option \<Rightarrow> io_outcome \<times> pipe_manager" where
  "PipeRead s OpenFile BufferGiven Count Current =
     (if (\<not> BufferGiven \<and> Count \<noteq> 0) \<or> OpenFile = None then (Returned LINUX_PIPE_ERR_EINVAL [], s)
      else if Count = 0 then (Returned 0 [], s)
      else (case GetPipeEndpointFromOpenFile s OpenFile of
              None \<Rightarrow> (Returned LINUX_PIPE_ERR_EBADF [], s)
            | Some ep \<Rightarrow>
                (let Endpoint = the (Endpoints s ep)
                 in case EPipe Endpoint of
                      None \<Rightarrow> (Returned LINUX_PIPE_ERR_EBADF [], s)
                    | Some p \<Rightarrow>
                        if \<not> IsReadEnd Endpoint then (Returned LINUX_PIPE_ERR_EBADF [], s)
                        else (case PipeReadLoop (the (Pipes s p)) (the OpenFile) Current Count of
                                (r, P) \<Rightarrow> (r, set_pipe p P s)))))"

definition PipeWrite ::
    "pipe_manager \<Rightarrow> open_file option \<Rightarrow> bool \<Rightarrow> u8 list \<Rightarrow> u8 option \<Rightarrow> io_outcome \<times> pipe_manager" where
  "PipeWrite s OpenFile BufferGiven Bytes Current =
     (if (\<not> BufferGiven \<and> Bytes \<noteq> []) \<or> OpenFile = None then (Returned LINUX_PIPE_ERR_EINVAL [], s)
      else if Bytes = [] then (Returned 0 [], s)
      else (case GetPipeEndpointFromOpenFile s OpenFile of
              None \<Rightarrow> (Returned LINUX_PIPE_ERR_EBADF [], s)
            | Some ep \<Rightarrow>
                (let Endpoint = the (Endpoints s ep)
                 in case EPipe Endpoint of
                      None \<Rightarrow> (Returned LINUX_PIPE_ERR_EBADF [], s)
                    | Some p \<Rightarrow>
                        if IsReadEnd Endpoint then (Returned LINUX_PIPE_ERR_EBADF [], s)
                        else if ReaderReferenceCount (the (Pipes s p)) = 0
                        then (Returned LINUX_PIPE_ERR_EPIPE [], s)
                        else (case PipeWriteLoop (the (Pipes s p)) (the OpenFile) Current Bytes of
                                (r, P) \<Rightarrow> (r, set_pipe p P s)))))"

definition PipePoll :: "pipe_manager \<Rightarrow> open_file option \<Rightarrow> u32 \<Rightarrow> u32" where
  "PipePoll s OpenFile RequestedEvents =
     (case GetPipeEndpointFromOpenFile s OpenFile of
        None \<Rightarrow> LINUX_POLLERR
      | Some ep \<Rightarrow>
          (let Endpoint = the (Endpoints s ep)
           in case EPipe Endpoint of
                None \<Rightarrow> LINUX_POLLERR
              | Some p \<Rightarrow>
                  (let Pipe = the (Pipes s p)
                   in if IsReadEnd Endpoint then
                        (if RequestedEvents AND LINUX_POLLIN \<noteq> 0 then
                           if PBufferedBytes Pipe > 0 then LINUX_POLLIN
                           else if WriterReferenceCount Pipe = 0 then LINUX_POLLHUP else 0
                         else 0)
                      else
                        (if RequestedEvents AND LINUX_POLLOUT \<noteq> 0 then
                           if ReaderReferenceCount Pipe = 0 then LINUX_POLLERR OR LINUX_POLLHUP
                           else if PBufferedBytes Pipe < LINUX_PIPE_BUFFER_CAPACITY then LINUX_POLLOUT else 0
                         else 0))))"

definition PipeIoctl :: int where "PipeIoctl = -25"

section \<open>The manager\<close>

definition IPC_pipes_init :: "(addr \<Rightarrow> pipe_node option) \<Rightarrow> pipe_manager" where
  "IPC_pipes_init nodes =
     \<lparr>Pipes = (\<lambda>_. None), Endpoints = (\<lambda>_. None), INodes = nodes, PipeEndpointList = []\<rparr>"

definition CreatePipe ::
    "pipe_manager \<Rightarrow> u8 option \<Rightarrow> int \<Rightarrow> int \<Rightarrow> u8 list \<Rightarrow> ptr \<Rightarrow> ptr \<Rightarrow> ptr \<Rightarrow> ptr \<Rightarrow> ptr \<Rightarrow>
     int \<times> (ptr \<times> ptr) \<times> pipe_manager" where
  "CreatePipe s Owner ReadFileDescriptor WriteFileDescriptor Garbage
       NewPipe NewReadEndpoint NewWriteEndpoint NewReadNode NewWriteNode =
     (if Owner = None \<or> ReadFileDescriptor < 0 \<or> WriteFileDescriptor < 0
      then (LINUX_PIPE_ERR_EINVAL, (None, None), s)
      else if length (PipeEndpointList s) + 2 > MAX_TRACKED_PIPES
      then (LINUX_PIPE_ERR_EMFILE, (None, None), s)
      else (case (NewPipe, NewReadEndpoint, NewWriteEndpoint, NewReadNode, NewWriteNode) of
              (Some p, Some re, Some we, Some rn, Some wn) \<Rightarrow>
                (0, (Some rn, Some wn),
                 s\<lparr>Pipes := (Pipes s)(p \<mapsto>
                     \<lparr>PBuffer = Garbage, PReadOffset = 0, PWriteOffset = 0, PBufferedBytes = 0,
                      ReaderReferenceCount = 1, WriterReferenceCount = 1, PReadEndpoint = Some re,
                      PWriteEndpoint = Some we, PReadNode = Some rn, PWriteNode = Some wn\<rparr>),
                   Endpoints := (Endpoints s)(re \<mapsto> \<lparr>EPipe = Some p, IsReadEnd = True\<rparr>,
                                              we \<mapsto> \<lparr>EPipe = Some p, IsReadEnd = False\<rparr>),
                   INodes := (INodes s)(rn \<mapsto> \<lparr>NodeData = Some re, HasPipeOps = True\<rparr>,
                                        wn \<mapsto> \<lparr>NodeData = Some we, HasPipeOps = True\<rparr>),
                   PipeEndpointList := PipeEndpointList s @
                     [\<lparr>TOwner = Owner, TFileDescriptor = ReadFileDescriptor, TNode = Some rn, TEndpoint = Some re\<rparr>,
                      \<lparr>TOwner = Owner, TFileDescriptor = WriteFileDescriptor, TNode = Some wn, TEndpoint = Some we\<rparr>]\<rparr>)
            | _ \<Rightarrow> (LINUX_PIPE_ERR_ENOMEM, (None, None), s)))"

definition CountReference :: "bool \<Rightarrow> pipe_object \<Rightarrow> pipe_object" where
  "CountReference b P =
     (if b then P\<lparr>ReaderReferenceCount := w64 (ReaderReferenceCount P + 1)\<rparr>
      else P\<lparr>WriterReferenceCount := w64 (WriterReferenceCount P + 1)\<rparr>)"

definition DropReference :: "bool \<Rightarrow> pipe_object \<Rightarrow> pipe_object" where
  "DropReference b P =
     (if b then (if ReaderReferenceCount P > 0 then P\<lparr>ReaderReferenceCount := ReaderReferenceCount P - 1\<rparr> else P)
      else (if WriterReferenceCount P > 0 then P\<lparr>WriterReferenceCount := WriterReferenceCount P - 1\<rparr> else P))"

definition DuplicatePipeDescriptor ::
    "pipe_manager \<Rightarrow> u8 option \<Rightarrow> int \<Rightarrow> open_file option \<Rightarrow> int \<times> pipe_manager" where
  "DuplicatePipeDescriptor s Owner FileDescriptor SourceFile =
     (case SourceFile of
        None \<Rightarrow> (LINUX_PIPE_ERR_EINVAL, s)
      | Some f \<Rightarrow>
          (case FNode f of
             None \<Rightarrow> (LINUX_PIPE_ERR_EINVAL, s)
           | Some n \<Rightarrow>
               if Owner = None \<or> FileDescriptor < 0 then (LINUX_PIPE_ERR_EINVAL, s)
               else if \<not> HasPipeOps (the (INodes s n)) then (0, s)
               else if NodeData (the (INodes s n)) = None then (LINUX_PIPE_ERR_EBADF, s)
               else if \<not> (\<exists>e\<in>set (PipeEndpointList s).
                            TNode e = Some n \<and> TEndpoint e = NodeData (the (INodes s n))) then (0, s)
               else if length (PipeEndpointList s) \<ge> MAX_TRACKED_PIPES then (LINUX_PIPE_ERR_EMFILE, s)
               else (let ep = the (NodeData (the (INodes s n))); Endpoint = the (Endpoints s ep)
                     in case EPipe Endpoint of
                          None \<Rightarrow> (LINUX_PIPE_ERR_EBADF, s)
                        | Some p \<Rightarrow>
                            (0, set_pipe p (CountReference (IsReadEnd Endpoint) (the (Pipes s p)))
                              (s\<lparr>PipeEndpointList := PipeEndpointList s @
                                 [\<lparr>TOwner = Owner, TFileDescriptor = FileDescriptor, TNode = Some n,
                                   TEndpoint = Some ep\<rparr>]\<rparr>)))))"

text \<open>The end of \<open>ClosePipe\<close>: the last reference gone, the nodes, the endpoints and the pipe go.\<close>

definition DeletePipe :: "addr \<Rightarrow> pipe_object \<Rightarrow> pipe_manager \<Rightarrow> pipe_manager" where
  "DeletePipe p P s =
     s\<lparr>INodes := (\<lambda>a. if Some a = PReadNode P \<or> Some a = PWriteNode P then None else INodes s a),
       Endpoints := (\<lambda>a. if Some a = PReadEndpoint P \<or> Some a = PWriteEndpoint P then None else Endpoints s a),
       Pipes := (Pipes s)(p := None)\<rparr>"

definition is_entry :: "u8 option \<Rightarrow> int \<Rightarrow> ptr \<Rightarrow> tracked_endpoint \<Rightarrow> bool" where
  "is_entry Owner fd Node e \<longleftrightarrow> TOwner e = Owner \<and> TFileDescriptor e = fd \<and> TNode e = Node"

definition ClosePipe :: "pipe_manager \<Rightarrow> u8 option \<Rightarrow> int \<Rightarrow> ptr \<Rightarrow> bool \<times> pipe_manager" where
  "ClosePipe s Owner FileDescriptor Node =
     (if Owner = None \<or> FileDescriptor < 0 \<or> Node = None then (False, s)
      else case List.find (is_entry Owner FileDescriptor Node) (PipeEndpointList s) of
        None \<Rightarrow> (False, s)
      | Some e \<Rightarrow>
          (let s1 = s\<lparr>PipeEndpointList := remove_first (is_entry Owner FileDescriptor Node) (PipeEndpointList s)\<rparr>
           in case TEndpoint e of
                None \<Rightarrow> (True, s1)
              | Some ep \<Rightarrow>
                  (let Endpoint = the (Endpoints s ep)
                   in case EPipe Endpoint of
                        None \<Rightarrow> (True, s1)
                      | Some p \<Rightarrow>
                          (let P = DropReference (IsReadEnd Endpoint) (the (Pipes s p)); s2 = set_pipe p P s1
                           in (True, if ReaderReferenceCount P = 0 \<and> WriterReferenceCount P = 0
                                     then DeletePipe p P s2 else s2)))))"

section \<open>The invariant of the pipes\<close>

definition ref_of :: "bool \<Rightarrow> pipe_object \<Rightarrow> nat" where
  "ref_of b P = (if b then ReaderReferenceCount P else WriterReferenceCount P)"

definition ep_of :: "bool \<Rightarrow> pipe_object \<Rightarrow> ptr" where
  "ep_of b P = (if b then PReadEndpoint P else PWriteEndpoint P)"

definition node_of :: "bool \<Rightarrow> pipe_object \<Rightarrow> ptr" where
  "node_of b P = (if b then PReadNode P else PWriteNode P)"

definition descriptors :: "ptr \<Rightarrow> tracked_endpoint list \<Rightarrow> nat" where
  "descriptors ep es = length (filter (\<lambda>e. TEndpoint e = ep) es)"

definition pipe_ring_ok :: "pipe_object \<Rightarrow> bool" where
  "pipe_ring_ok P \<longleftrightarrow>
     ring_ok LINUX_PIPE_BUFFER_CAPACITY (PBuffer P) (PReadOffset P) (PWriteOffset P) (PBufferedBytes P)"

definition pipe_contents :: "pipe_object \<Rightarrow> u8 list" where
  "pipe_contents P =
     ring_contents LINUX_PIPE_BUFFER_CAPACITY (PBuffer P) (PReadOffset P) (PBufferedBytes P)"

text \<open>Each end of a live pipe: its endpoint and node are live and its count is that of its descriptors.\<close>

definition end_ok :: "pipe_manager \<Rightarrow> addr \<Rightarrow> pipe_object \<Rightarrow> bool \<Rightarrow> bool" where
  "end_ok s p P b \<longleftrightarrow>
     (\<exists>ep n. ep_of b P = Some ep \<and> node_of b P = Some n \<and>
        Endpoints s ep = Some \<lparr>EPipe = Some p, IsReadEnd = b\<rparr> \<and>
        INodes s n = Some \<lparr>NodeData = Some ep, HasPipeOps = True\<rparr> \<and>
        ref_of b P = descriptors (Some ep) (PipeEndpointList s))"

definition entry_live :: "pipe_manager \<Rightarrow> tracked_endpoint \<Rightarrow> bool" where
  "entry_live s e \<longleftrightarrow>
     TOwner e \<noteq> None \<and> 0 \<le> TFileDescriptor e \<and>
     (\<exists>ep p P b. TEndpoint e = Some ep \<and> Endpoints s ep = Some \<lparr>EPipe = Some p, IsReadEnd = b\<rparr> \<and>
        Pipes s p = Some P \<and> ep_of b P = Some ep \<and> TNode e = node_of b P)"

definition pipes_inv :: "pipe_manager \<Rightarrow> bool" where
  "pipes_inv s \<longleftrightarrow>
     length (PipeEndpointList s) \<le> MAX_TRACKED_PIPES \<and>
     (\<forall>e\<in>set (PipeEndpointList s). entry_live s e) \<and>
     (\<forall>p P. Pipes s p = Some P \<longrightarrow> pipe_ring_ok P \<and> end_ok s p P True \<and> end_ok s p P False \<and>
        0 < ref_of True P + ref_of False P)"

lemma pipes_inv_pipe:
  "pipes_inv s \<Longrightarrow> Pipes s p = Some P \<Longrightarrow> pipe_ring_ok P \<and> end_ok s p P b \<and> 0 < ref_of True P + ref_of False P"
  by (cases b) (auto simp: pipes_inv_def)

lemma pipes_inv_entry: "pipes_inv s \<Longrightarrow> e \<in> set (PipeEndpointList s) \<Longrightarrow> entry_live s e"
  by (simp add: pipes_inv_def)

lemma pipes_inv_init: "pipes_inv (IPC_pipes_init nodes)"
  by (simp add: pipes_inv_def IPC_pipes_init_def)

lemma entry_live_mono:
  assumes "entry_live s e"
    and "\<And>ep p P b. TEndpoint e = Some ep \<Longrightarrow> Endpoints s ep = Some \<lparr>EPipe = Some p, IsReadEnd = b\<rparr> \<Longrightarrow>
           Pipes s p = Some P \<Longrightarrow> ep_of b P = Some ep \<Longrightarrow> TNode e = node_of b P \<Longrightarrow>
           Endpoints s' ep = Endpoints s ep \<and>
           (\<exists>P'. Pipes s' p = Some P' \<and> ep_of b P' = ep_of b P \<and> node_of b P' = node_of b P)"
  shows "entry_live s' e"
  using assms unfolding entry_live_def by metis

section \<open>Transfers\<close>

lemma PipeReadLoop_spec:
  assumes ok: "pipe_ring_ok P" and r: "PipeReadLoop P f Current Count = (r, P')"
  shows "pipe_ring_ok P' \<and> ref_of b P' = ref_of b P \<and> ep_of b P' = ep_of b P \<and> node_of b P' = node_of b P \<and>
    (case r of
       Sleeping i \<Rightarrow> P' = P \<and> pipe_contents P = [] \<and> 0 < WriterReferenceCount P \<and> \<not> NonBlocking f \<and> Current = Some i
     | Returned k bytes \<Rightarrow>
         (if pipe_contents P = [] then P' = P \<and> bytes = [] \<and> (k = 0 \<longleftrightarrow> WriterReferenceCount P = 0)
          else k = int (length bytes) \<and> bytes = take Count (pipe_contents P) \<and>
               pipe_contents P' = drop Count (pipe_contents P)))"
proof (cases "PBufferedBytes P = 0")
  case True
  then have "pipe_contents P = []" by (simp add: pipe_contents_def ring_contents_def)
  moreover have "P' = P" using r True by (auto simp: PipeReadLoop_def split: if_splits option.splits)
  ultimately show ?thesis
    using r ok True by (auto simp: PipeReadLoop_def pipe_errors split: if_splits option.splits)
next
  case False
  let ?c = LINUX_PIPE_BUFFER_CAPACITY and ?n = "PBufferedBytes P"
  let ?k = "if Count < ?n then Count else ?n"
  have rg: "0 < ?c" "PReadOffset P < ?c" using ok by (auto simp: pipe_ring_ok_def ring_ok_def)
  have k: "?k \<le> ?n" by simp
  have r': "r = Returned (int ?k) (ring_contents ?c (PBuffer P) (PReadOffset P) ?k)"
    "P' = P\<lparr>PReadOffset := (PReadOffset P + ?k) mod ?c, PBufferedBytes := ?n - ?k\<rparr>"
    using r False unfolding PipeReadLoop_def Let_def ring_read_eq [OF rg] by auto
  have "pipe_ring_ok P'"
    using ring_read_ok [OF ok [unfolded pipe_ring_ok_def] k] by (simp add: pipe_ring_ok_def r')
  moreover have "pipe_contents P' = drop ?k (pipe_contents P)"
    using ring_contents_drop [OF k, of ?c "PBuffer P" "PReadOffset P"] by (simp add: pipe_contents_def r')
  moreover have "ring_contents ?c (PBuffer P) (PReadOffset P) ?k = take ?k (pipe_contents P)"
    unfolding pipe_contents_def by (rule ring_contents_take [OF k])
  moreover have "length (pipe_contents P) = ?n" by (simp add: pipe_contents_def)
  moreover have "pipe_contents P \<noteq> []" using \<open>length (pipe_contents P) = ?n\<close> False by auto
  ultimately show ?thesis by (auto simp: r' ref_of_def ep_of_def node_of_def)
qed

lemma PipeWriteLoop_spec:
  assumes ok: "pipe_ring_ok P" and r: "PipeWriteLoop P f Current Bytes = (r, P')"
  shows "pipe_ring_ok P' \<and> ref_of b P' = ref_of b P \<and> ep_of b P' = ep_of b P \<and> node_of b P' = node_of b P \<and>
    length (pipe_contents P) \<le> LINUX_PIPE_BUFFER_CAPACITY \<and>
    (case r of
       Sleeping i \<Rightarrow> P' = P \<and> length (pipe_contents P) = LINUX_PIPE_BUFFER_CAPACITY \<and>
         0 < ReaderReferenceCount P \<and> \<not> NonBlocking f \<and> Current = Some i
     | Returned k bytes \<Rightarrow>
         (if length (pipe_contents P) = LINUX_PIPE_BUFFER_CAPACITY then P' = P \<and> k < 0
          else k = int (min (length Bytes) (LINUX_PIPE_BUFFER_CAPACITY - length (pipe_contents P))) \<and>
               pipe_contents P' = pipe_contents P @ take (nat k) Bytes))"
proof -
  let ?c = LINUX_PIPE_BUFFER_CAPACITY and ?n = "PBufferedBytes P"
  have len: "length (pipe_contents P) = ?n" by (simp add: pipe_contents_def)
  have n: "?n \<le> ?c" using ok by (auto simp: pipe_ring_ok_def ring_ok_def)
  then have av: "sub64 ?c ?n = ?c - ?n" by (simp add: LINUX_PIPE_BUFFER_CAPACITY_def)
  show ?thesis
  proof (cases "?n = ?c")
    case True
    then have "P' = P" using r unfolding PipeWriteLoop_def Let_def av by (auto split: if_splits option.splits)
    with True r ok len show ?thesis
      unfolding PipeWriteLoop_def Let_def av by (auto simp: pipe_errors split: if_splits option.splits)
  next
    case False
    let ?k = "if length Bytes < ?c - ?n then length Bytes else ?c - ?n"
    obtain buf w where w: "ring_write ?c (PBuffer P) (PWriteOffset P) (take ?k Bytes) = (buf, w)"
      by (cases "ring_write ?c (PBuffer P) (PWriteOffset P) (take ?k Bytes)")
    have k: "length (take ?k Bytes) = ?k" by auto
    have fit: "?n + length (take ?k Bytes) \<le> ?c" using n by auto
    note rw = ring_write_spec [OF ok [unfolded pipe_ring_ok_def] fit w, unfolded k]
    have r': "r = Returned (int ?k) []"
      "P' = P\<lparr>PBuffer := buf, PWriteOffset := w, PBufferedBytes := ?n + ?k\<rparr>"
      using r False n w unfolding PipeWriteLoop_def Let_def av by auto
    have "pipe_ring_ok P'" using rw by (simp add: pipe_ring_ok_def r')
    moreover have "pipe_contents P' = pipe_contents P @ take ?k Bytes"
      using rw by (simp add: pipe_contents_def r')
    ultimately show ?thesis
      using False n len by (auto simp: r' ref_of_def ep_of_def node_of_def min_def)
  qed
qed

lemma set_pipe_inv:
  assumes inv: "pipes_inv s" and P: "Pipes s p = Some P" and ok: "pipe_ring_ok P'"
    and same: "\<And>b. ref_of b P' = ref_of b P \<and> ep_of b P' = ep_of b P \<and> node_of b P' = node_of b P"
  shows "pipes_inv (set_pipe p P' s)"
proof -
  have "entry_live (set_pipe p P' s) e" if "e \<in> set (PipeEndpointList s)" for e
    using pipes_inv_entry [OF inv that] by (rule entry_live_mono) (use P same in \<open>auto simp: set_pipe_def\<close>)
  moreover have "end_ok (set_pipe p P' s) q Q' b" if "Pipes (set_pipe p P' s) q = Some Q'" for q Q' b
  proof (cases "q = p")
    case True
    with that have "Q' = P'" by (simp add: set_pipe_def)
    with True pipes_inv_pipe [OF inv P] same [of b] show ?thesis by (auto simp: end_ok_def set_pipe_def)
  next
    case False
    with that pipes_inv_pipe [OF inv, of q] show ?thesis by (auto simp: end_ok_def set_pipe_def)
  qed
  ultimately show ?thesis
    using inv ok same [of True] same [of False] P pipes_inv_pipe [OF inv P, of True]
    by (auto simp: pipes_inv_def set_pipe_def)
qed

text \<open>A file open on an end of a live pipe.\<close>

definition file_on :: "pipe_manager \<Rightarrow> open_file \<Rightarrow> addr \<Rightarrow> bool \<Rightarrow> bool" where
  "file_on s f p b \<longleftrightarrow>
     (\<exists>n ep P. FNode f = Some n \<and> INodes s n = Some \<lparr>NodeData = Some ep, HasPipeOps = True\<rparr> \<and>
        Endpoints s ep = Some \<lparr>EPipe = Some p, IsReadEnd = b\<rparr> \<and> Pipes s p = Some P)"

lemma tracked_file_on:
  assumes "pipes_inv s" and "e \<in> set (PipeEndpointList s)" and "FNode f = TNode e"
  shows "\<exists>p b. file_on s f p b"
proof -
  obtain ep p P b where e: "TEndpoint e = Some ep" "Pipes s p = Some P" "ep_of b P = Some ep"
    "TNode e = node_of b P" "Endpoints s ep = Some \<lparr>EPipe = Some p, IsReadEnd = b\<rparr>"
    using pipes_inv_entry [OF assms(1,2)] by (auto simp: entry_live_def)
  with pipes_inv_pipe [OF assms(1) e(2), of b] assms(3) have "file_on s f p b"
    by (auto simp: file_on_def end_ok_def)
  then show ?thesis by blast
qed

lemma PipeRead_spec:
  assumes inv: "pipes_inv s" and f: "file_on s f p True" and n: "0 < n"
    and r: "PipeRead s (Some f) True n Current = (r, s')"
  shows "pipes_inv s' \<and> (\<exists>P P'. Pipes s p = Some P \<and> PipeReadLoop P f Current n = (r, P') \<and> s' = set_pipe p P' s)"
proof -
  obtain P where P: "Pipes s p = Some P" using f by (auto simp: file_on_def)
  obtain r1 P' where l: "PipeReadLoop P f Current n = (r1, P')" by (cases "PipeReadLoop P f Current n")
  have "PipeRead s (Some f) True n Current = (r1, set_pipe p P' s)"
    using f n P l by (auto simp: PipeRead_def GetPipeEndpointFromOpenFile_def file_on_def)
  with r have e: "r1 = r" "s' = set_pipe p P' s" by auto
  have "pipe_ring_ok P" using pipes_inv_pipe [OF inv P] by blast
  from PipeReadLoop_spec [OF this l] have "pipes_inv (set_pipe p P' s)"
    by (intro set_pipe_inv [OF inv P]) blast+
  with P l e show ?thesis by blast
qed

lemma PipeWrite_spec:
  assumes inv: "pipes_inv s" and f: "file_on s f p False" and n: "Bytes \<noteq> []"
    and r: "PipeWrite s (Some f) True Bytes Current = (r, s')"
  shows "pipes_inv s' \<and> (\<exists>P. Pipes s p = Some P \<and>
     (if ReaderReferenceCount P = 0 then r = Returned LINUX_PIPE_ERR_EPIPE [] \<and> s' = s
      else \<exists>P'. PipeWriteLoop P f Current Bytes = (r, P') \<and> s' = set_pipe p P' s))"
proof -
  obtain P where P: "Pipes s p = Some P" using f by (auto simp: file_on_def)
  obtain r1 P' where l: "PipeWriteLoop P f Current Bytes = (r1, P')" by (cases "PipeWriteLoop P f Current Bytes")
  have w: "PipeWrite s (Some f) True Bytes Current =
      (if ReaderReferenceCount P = 0 then (Returned LINUX_PIPE_ERR_EPIPE [], s) else (r1, set_pipe p P' s))"
    using f n P l by (auto simp: PipeWrite_def GetPipeEndpointFromOpenFile_def file_on_def)
  have "pipe_ring_ok P" using pipes_inv_pipe [OF inv P] by blast
  from PipeWriteLoop_spec [OF this l] have "pipes_inv (set_pipe p P' s)"
    by (intro set_pipe_inv [OF inv P]) blast+
  with w r P l inv show ?thesis by (auto split: if_splits)
qed

section \<open>Creation, duplication, closing\<close>

lemma descriptors_append: "descriptors ep (xs @ ys) = descriptors ep xs + descriptors ep ys"
  by (simp add: descriptors_def)

lemma descriptors_none: "\<forall>e\<in>set es. TEndpoint e \<noteq> ep \<Longrightarrow> descriptors ep es = 0"
  by (simp add: descriptors_def filter_empty_conv)

lemma CreatePipe_inv:
  assumes inv: "pipes_inv s" and r: "CreatePipe s Owner rfd wfd g np nre nwe nrn nwn = (code, nodes, s')"
    and fresh: "\<And>p. np = Some p \<Longrightarrow> Pipes s p = None"
      "\<And>a. nre = Some a \<or> nwe = Some a \<Longrightarrow> Endpoints s a = None"
      "\<And>a. nrn = Some a \<or> nwn = Some a \<Longrightarrow> INodes s a = None"
      "nre \<noteq> nwe \<or> nre = None" "nrn \<noteq> nwn \<or> nrn = None" "length g = LINUX_PIPE_BUFFER_CAPACITY"
  shows "pipes_inv s' \<and> (code \<noteq> 0 \<longrightarrow> s' = s)"
proof (cases "code = 0")
  case False
  with r inv show ?thesis by (auto simp: CreatePipe_def split: if_splits option.splits)
next
  case True
  with r obtain p re we rn wn where new: "np = Some p" "nre = Some re" "nwe = Some we" "nrn = Some rn" "nwn = Some wn"
    and o: "Owner \<noteq> None" "0 \<le> rfd" "0 \<le> wfd" "length (PipeEndpointList s) + 2 \<le> MAX_TRACKED_PIPES"
    by (auto simp: CreatePipe_def pipe_errors split: if_splits option.splits)
  let ?P = "\<lparr>PBuffer = g, PReadOffset = 0, PWriteOffset = 0, PBufferedBytes = 0,
      ReaderReferenceCount = 1, WriterReferenceCount = 1, PReadEndpoint = Some re,
      PWriteEndpoint = Some we, PReadNode = Some rn, PWriteNode = Some wn\<rparr>"
  let ?es = "[\<lparr>TOwner = Owner, TFileDescriptor = rfd, TNode = Some rn, TEndpoint = Some re\<rparr>,
      \<lparr>TOwner = Owner, TFileDescriptor = wfd, TNode = Some wn, TEndpoint = Some we\<rparr>]"
  have s': "s' = s\<lparr>Pipes := (Pipes s)(p \<mapsto> ?P),
      Endpoints := (Endpoints s)(re \<mapsto> \<lparr>EPipe = Some p, IsReadEnd = True\<rparr>, we \<mapsto> \<lparr>EPipe = Some p, IsReadEnd = False\<rparr>),
      INodes := (INodes s)(rn \<mapsto> \<lparr>NodeData = Some re, HasPipeOps = True\<rparr>, wn \<mapsto> \<lparr>NodeData = Some we, HasPipeOps = True\<rparr>),
      PipeEndpointList := PipeEndpointList s @ ?es\<rparr>"
    using r new o by (auto simp: CreatePipe_def split: if_splits)
  have nf: "Pipes s p = None" "Endpoints s re = None" "Endpoints s we = None" "INodes s rn = None"
    "INodes s wn = None" "re \<noteq> we" "rn \<noteq> wn" using fresh new by auto
  have old: "TEndpoint e \<noteq> Some re \<and> TEndpoint e \<noteq> Some we" if "e \<in> set (PipeEndpointList s)" for e
    using pipes_inv_entry [OF inv that] nf by (auto simp: entry_live_def)
  then have d0: "descriptors (Some re) (PipeEndpointList s) = 0" "descriptors (Some we) (PipeEndpointList s) = 0"
    by (auto intro!: descriptors_none)
  have live: "entry_live s' e" if "e \<in> set (PipeEndpointList s)" for e
  proof (rule entry_live_mono [OF pipes_inv_entry [OF inv that]])
    fix ep q Q b assume "TEndpoint e = Some ep" "Pipes s q = Some Q"
    with old [OF that] nf(1) have "ep \<noteq> re" "ep \<noteq> we" "q \<noteq> p" by auto
    with \<open>Pipes s q = Some Q\<close> show "Endpoints s' ep = Endpoints s ep \<and>
        (\<exists>Q'. Pipes s' q = Some Q' \<and> ep_of b Q' = ep_of b Q \<and> node_of b Q' = node_of b Q)"
      by (simp add: s')
  qed
  have new_live: "entry_live s' e" if "e \<in> set ?es" for e
  proof -
    have "entry_live s' (?es ! 0)"
      unfolding entry_live_def s' using o nf
      by (intro conjI exI [of _ re] exI [of _ p] exI [of _ ?P] exI [of _ True]) (simp_all add: ep_of_def node_of_def)
    moreover have "entry_live s' (?es ! 1)"
      unfolding entry_live_def s' using o nf
      by (intro conjI exI [of _ we] exI [of _ p] exI [of _ ?P] exI [of _ False]) (simp_all add: ep_of_def node_of_def)
    ultimately show ?thesis using that by auto
  qed
  have ends: "end_ok s' q Q b" if "Pipes s' q = Some Q" for q Q b
  proof (cases "q = p")
    case True
    with that have "Q = ?P" by (simp add: s')
    with True nf d0 show ?thesis
      by (cases b) (simp_all add: end_ok_def s' ep_of_def node_of_def ref_of_def descriptors_append descriptors_def)
  next
    case False
    with that have q: "Pipes s q = Some Q" by (simp add: s')
    then obtain ep n where e: "ep_of b Q = Some ep" "node_of b Q = Some n"
      "Endpoints s ep = Some \<lparr>EPipe = Some q, IsReadEnd = b\<rparr>"
      "INodes s n = Some \<lparr>NodeData = Some ep, HasPipeOps = True\<rparr>"
      "ref_of b Q = descriptors (Some ep) (PipeEndpointList s)"
      using pipes_inv_pipe [OF inv q, of b] by (auto simp: end_ok_def)
    then have "ep \<noteq> re" "ep \<noteq> we" "n \<noteq> rn" "n \<noteq> wn" using nf by auto
    with e show ?thesis by (auto simp: end_ok_def s' descriptors_append descriptors_def)
  qed
  have "pipe_ring_ok Q \<and> 0 < ref_of True Q + ref_of False Q" if "Pipes s' q = Some Q" for q Q
  proof (cases "q = p")
    case True
    with that fresh(6) show ?thesis
      by (auto simp: s' pipe_ring_ok_def ref_of_def LINUX_PIPE_BUFFER_CAPACITY_def intro!: ring_empty_ok)
  next
    case False
    with that pipes_inv_pipe [OF inv, of q Q] show ?thesis by (simp add: s')
  qed
  moreover have "\<forall>e\<in>set (PipeEndpointList s'). entry_live s' e" using live new_live by (auto simp: s')
  moreover have "length (PipeEndpointList s') \<le> MAX_TRACKED_PIPES" using o(4) by (simp add: s')
  ultimately show ?thesis using True ends unfolding pipes_inv_def by simp
qed
lemma CountReference_simps [simp]:
  "pipe_ring_ok (CountReference b P) = pipe_ring_ok P" "pipe_contents (CountReference b P) = pipe_contents P"
  "ep_of c (CountReference b P) = ep_of c P" "node_of c (CountReference b P) = node_of c P"
  "ref_of c (CountReference b P) = (if b = c then w64 (ref_of c P + 1) else ref_of c P)"
  by (simp_all add: CountReference_def pipe_ring_ok_def pipe_contents_def ep_of_def node_of_def ref_of_def)

lemma DropReference_simps [simp]:
  "pipe_ring_ok (DropReference b P) = pipe_ring_ok P" "pipe_contents (DropReference b P) = pipe_contents P"
  "ep_of c (DropReference b P) = ep_of c P" "node_of c (DropReference b P) = node_of c P"
  "ref_of c (DropReference b P) = (if b = c then ref_of c P - 1 else ref_of c P)"
  by (simp_all add: DropReference_def pipe_ring_ok_def pipe_contents_def ep_of_def node_of_def ref_of_def)

lemma descriptors_le: "descriptors ep es \<le> length es"
  by (simp add: descriptors_def)

lemma MAX_TRACKED_PIPES_eq: "MAX_TRACKED_PIPES = 8192"
  by (simp add: MAX_TRACKED_PIPES_def layout_simps)

lemma end_ok_count: "pipes_inv s \<Longrightarrow> Pipes s p = Some P \<Longrightarrow> ref_of b P \<le> MAX_TRACKED_PIPES"
proof -
  assume inv: "pipes_inv s" and P: "Pipes s p = Some P"
  from pipes_inv_pipe [OF inv P, of b] obtain ep where "ref_of b P = descriptors (Some ep) (PipeEndpointList s)"
    by (auto simp: end_ok_def)
  moreover have "length (PipeEndpointList s) \<le> MAX_TRACKED_PIPES" using inv by (simp add: pipes_inv_def)
  ultimately show ?thesis using descriptors_le [of "Some ep" "PipeEndpointList s"] by simp
qed

text \<open>The endpoint of the other end, or of another pipe, is a different one.\<close>

lemma end_ok_inj:
  "end_ok s p P b \<Longrightarrow> end_ok s q Q c \<Longrightarrow> ep_of b P = ep_of c Q \<or> node_of b P = node_of c Q \<Longrightarrow> p = q \<and> b = c"
  by (auto simp: end_ok_def)

lemma DuplicatePipeDescriptor_spec:
  assumes inv: "pipes_inv s" and r: "DuplicatePipeDescriptor s Owner fd (Some f) = (code, s')"
    and f: "file_on s f p b" and o: "Owner \<noteq> None" "0 \<le> fd" "\<exists>e\<in>set (PipeEndpointList s). TNode e = FNode f"
    and room: "length (PipeEndpointList s) < MAX_TRACKED_PIPES"
  shows "pipes_inv s' \<and> code = 0 \<and>
    (\<exists>P. Pipes s p = Some P \<and> Pipes s' p = Some (CountReference b P) \<and>
       ref_of b (CountReference b P) = ref_of b P + 1 \<and>
       PipeEndpointList s' = PipeEndpointList s @
         [\<lparr>TOwner = Owner, TFileDescriptor = fd, TNode = FNode f, TEndpoint = ep_of b P\<rparr>])"
proof -
  obtain n ep P where ff: "FNode f = Some n" "INodes s n = Some \<lparr>NodeData = Some ep, HasPipeOps = True\<rparr>"
    "Endpoints s ep = Some \<lparr>EPipe = Some p, IsReadEnd = b\<rparr>" "Pipes s p = Some P"
    using f by (auto simp: file_on_def)
  obtain e where e: "e \<in> set (PipeEndpointList s)" "TNode e = Some n" using o(3) ff(1) by auto
  obtain ep' q Q c where el: "TEndpoint e = Some ep'" "Endpoints s ep' = Some \<lparr>EPipe = Some q, IsReadEnd = c\<rparr>"
    "Pipes s q = Some Q" "ep_of c Q = Some ep'" "TNode e = node_of c Q"
    using pipes_inv_entry [OF inv e(1)] by (auto simp: entry_live_def)
  from pipes_inv_pipe [OF inv el(3), of c] el(4,5) e(2) ff(2) have "ep' = ep" by (auto simp: end_ok_def)
  with el ff have q: "q = p" "c = b" "Q = P" by auto
  have ok: "end_ok s p P b" "node_of b P = Some n" "ep_of b P = Some ep"
    using pipes_inv_pipe [OF inv ff(4), of b] el e(2) q \<open>ep' = ep\<close> by auto
  let ?new = "\<lparr>TOwner = Owner, TFileDescriptor = fd, TNode = Some n, TEndpoint = Some ep\<rparr>"
  let ?P = "CountReference b P"
  have ex: "\<exists>e\<in>set (PipeEndpointList s). TNode e = Some n \<and> TEndpoint e = Some ep"
    using e el(1) \<open>ep' = ep\<close> by auto
  have "DuplicatePipeDescriptor s Owner fd (Some f) =
      (0, set_pipe p ?P (s\<lparr>PipeEndpointList := PipeEndpointList s @ [?new]\<rparr>))"
    using ff o(1,2) ex room by (cases Owner) (simp_all add: DuplicatePipeDescriptor_def)
  with r have s': "code = 0" "s' = set_pipe p ?P (s\<lparr>PipeEndpointList := PipeEndpointList s @ [?new]\<rparr>)" by auto
  have cnt: "ref_of b ?P = ref_of b P + 1"
    using end_ok_count [OF inv ff(4), of b] by (simp add: MAX_TRACKED_PIPES_eq)
  have live: "entry_live s' d" if "d \<in> set (PipeEndpointList s)" for d
    using pipes_inv_entry [OF inv that] by (rule entry_live_mono) (use ff(4) in \<open>auto simp: s' set_pipe_def\<close>)
  have new: "entry_live s' ?new"
    unfolding entry_live_def using o ff ok
    by (intro conjI exI [of _ ep] exI [of _ p] exI [of _ ?P] exI [of _ b]) (simp_all add: s' set_pipe_def)
  have pipe: "end_ok s' x X c \<and> pipe_ring_ok X \<and> 0 < ref_of True X + ref_of False X"
    if "Pipes s' x = Some X" for x X c
  proof (cases "x = p")
    case True
    with that have X: "X = ?P" by (simp add: s' set_pipe_def)
    obtain ep2 where "end_ok s p P c" and ep2: "ep_of c P = Some ep2"
      using pipes_inv_pipe [OF inv ff(4), of c] by (auto simp: end_ok_def)
    moreover have "ep2 = ep \<longleftrightarrow> c = b"
      using end_ok_inj [OF \<open>end_ok s p P c\<close> ok(1)] ok(3) ep2 by auto
    ultimately have "end_ok s' x X c"
      using cnt unfolding X True
      by (cases "c = b") (auto simp: end_ok_def s' set_pipe_def descriptors_append descriptors_def)
    then show ?thesis using pipes_inv_pipe [OF inv ff(4), of c] cnt X by (cases b) auto
  next
    case False
    with that have x: "Pipes s x = Some X" by (simp add: s' set_pipe_def)
    note px = pipes_inv_pipe [OF inv x, of c]
    have "ep_of c X \<noteq> Some ep" using end_ok_inj [of s x X c p P b] px ok False by auto
    with px show ?thesis by (auto simp: end_ok_def s' set_pipe_def descriptors_append descriptors_def)
  qed
  have "pipes_inv s'"
    unfolding pipes_inv_def using live new pipe room by (auto simp: s' set_pipe_def)
  then show ?thesis using s' ff ok cnt by (simp add: set_pipe_def)
qed

lemma descriptors_remove_first:
  "List.find Q es = Some e \<Longrightarrow>
   descriptors ep es = descriptors ep (remove_first Q es) + (if TEndpoint e = ep then 1 else 0)"
  by (induction es) (auto simp: descriptors_def split: if_splits)

lemma descriptors_pos: "d \<in> set es \<Longrightarrow> TEndpoint d = ep \<Longrightarrow> 0 < descriptors ep es"
  by (auto simp: descriptors_def filter_empty_conv)

text \<open>What holds after the reference is dropped, before the pipe is deleted: all but the last clause.\<close>

definition pipes_pre :: "pipe_manager \<Rightarrow> bool" where
  "pipes_pre s \<longleftrightarrow>
     length (PipeEndpointList s) \<le> MAX_TRACKED_PIPES \<and>
     (\<forall>e\<in>set (PipeEndpointList s). entry_live s e) \<and>
     (\<forall>p P. Pipes s p = Some P \<longrightarrow> pipe_ring_ok P \<and> end_ok s p P True \<and> end_ok s p P False)"

lemma pipes_inv_pre: "pipes_inv s \<longleftrightarrow> pipes_pre s \<and> (\<forall>p P. Pipes s p = Some P \<longrightarrow> 0 < ref_of True P + ref_of False P)"
  unfolding pipes_inv_def pipes_pre_def by (simp only: imp_conjR all_conj_distrib conj_assoc)

lemma pipes_pre_pipe: "pipes_pre s \<Longrightarrow> Pipes s p = Some P \<Longrightarrow> pipe_ring_ok P \<and> end_ok s p P b"
  by (cases b) (auto simp: pipes_pre_def)

lemma DropReference_pre:
  assumes inv: "pipes_inv s" and e: "List.find Q (PipeEndpointList s) = Some e" "TEndpoint e = Some ep"
    and ep: "Endpoints s ep = Some \<lparr>EPipe = Some p, IsReadEnd = b\<rparr>" and P: "Pipes s p = Some P"
      "ep_of b P = Some ep"
  shows "pipes_pre (set_pipe p (DropReference b P) (s\<lparr>PipeEndpointList := remove_first Q (PipeEndpointList s)\<rparr>))"
proof -
  let ?P = "DropReference b P" and ?es = "remove_first Q (PipeEndpointList s)"
  let ?s = "set_pipe p ?P (s\<lparr>PipeEndpointList := ?es\<rparr>)"
  note d = descriptors_remove_first [OF e(1)]
  have live: "entry_live ?s x" if "x \<in> set ?es" for x
    using pipes_inv_entry [OF inv in_set_remove_firstD [OF that]]
    by (rule entry_live_mono) (use P in \<open>auto simp: set_pipe_def\<close>)
  have "end_ok ?s q X c \<and> pipe_ring_ok X" if "Pipes ?s q = Some X" for q X c
  proof (cases "q = p")
    case True
    with that have X: "X = ?P" by (simp add: set_pipe_def)
    note px = pipes_inv_pipe [OF inv P(1)]
    obtain ep2 where ep2: "ep_of c P = Some ep2" using px [of c] by (auto simp: end_ok_def)
    have "ep2 = ep \<longleftrightarrow> c = b"
      using end_ok_inj [of s p P c p P b] px [of c] px [of b] P(2) ep2 by auto
    with px [of c] ep2 d [of "Some ep2"] e(2) show ?thesis
      unfolding X True by (cases "c = b") (auto simp: end_ok_def set_pipe_def)
  next
    case False
    with that have x: "Pipes s q = Some X" by (simp add: set_pipe_def)
    note px = pipes_inv_pipe [OF inv x, of c]
    have "ep_of c X \<noteq> Some ep"
      using end_ok_inj [of s q X c p P b] px pipes_inv_pipe [OF inv P(1), of b] P(2) False by auto
    with px e(2) show ?thesis by (auto simp: end_ok_def set_pipe_def d)
  qed
  moreover have "length ?es \<le> MAX_TRACKED_PIPES"
    using inv length_remove_first [of Q "PipeEndpointList s"] by (auto simp: pipes_inv_def split: if_splits)
  ultimately show ?thesis
    unfolding pipes_pre_def using live by (simp add: set_pipe_def)
qed

lemma DeletePipe_pre:
  assumes pre: "pipes_pre s" and P: "Pipes s p = Some P" and zero: "ref_of True P = 0" "ref_of False P = 0"
  shows "pipes_pre (DeletePipe p P s)"
proof -
  let ?s = "DeletePipe p P s"
  have ends: "Endpoints ?s ep = Endpoints s ep" if "\<And>c. ep_of c P \<noteq> Some ep" for ep
    using that [of True] that [of False] by (auto simp: DeletePipe_def ep_of_def)
  have nodes: "INodes ?s n = INodes s n" if "\<And>c. node_of c P \<noteq> Some n" for n
    using that [of True] that [of False] by (auto simp: DeletePipe_def node_of_def)
  note px = pipes_pre_pipe [OF pre P]
  have "entry_live ?s e" if e: "e \<in> set (PipeEndpointList s)" for e
  proof -
    have "entry_live s e" using pre e by (simp add: pipes_pre_def)
    then show ?thesis
    proof (rule entry_live_mono)
      fix ep q X b assume x: "TEndpoint e = Some ep" "Endpoints s ep = Some \<lparr>EPipe = Some q, IsReadEnd = b\<rparr>"
        "Pipes s q = Some X" "ep_of b X = Some ep"
      have "q \<noteq> p"
      proof
        assume "q = p"
        with x P have "ep_of b P = Some ep" by simp
        with px [of b] zero have "descriptors (Some ep) (PipeEndpointList s) = 0"
          by (cases b) (auto simp: end_ok_def)
        with descriptors_pos [OF e x(1)] show False by simp
      qed
      then have "ep_of c P \<noteq> Some ep" for c using px [of c] x(2) by (auto simp: end_ok_def)
      with \<open>q \<noteq> p\<close> x(3) show "Endpoints ?s ep = Endpoints s ep \<and>
          (\<exists>X'. Pipes ?s q = Some X' \<and> ep_of b X' = ep_of b X \<and> node_of b X' = node_of b X)"
        by (simp add: ends) (simp add: DeletePipe_def)
    qed
  qed
  moreover have "end_ok ?s q X b \<and> pipe_ring_ok X" if "Pipes ?s q = Some X" for q X b
  proof -
    from that have q: "q \<noteq> p" "Pipes s q = Some X" by (auto simp: DeletePipe_def split: if_splits)
    note qx = pipes_pre_pipe [OF pre q(2), of b]
    obtain ep n where e: "ep_of b X = Some ep" "node_of b X = Some n" using qx by (auto simp: end_ok_def)
    have "ep_of c P \<noteq> Some ep" "node_of c P \<noteq> Some n" for c
      using end_ok_inj [of s q X b p P c] qx px [of c] q(1) e by auto
    then have "Endpoints ?s ep = Endpoints s ep" "INodes ?s n = INodes s n" by (auto intro: ends nodes)
    moreover have "PipeEndpointList ?s = PipeEndpointList s" by (simp add: DeletePipe_def)
    ultimately show ?thesis using qx e by (simp add: end_ok_def)
  qed
  ultimately show ?thesis using pre unfolding pipes_pre_def by (simp add: DeletePipe_def)
qed

lemma ClosePipe_spec:
  assumes inv: "pipes_inv s" and a: "Owner \<noteq> None" "0 \<le> fd" "Node \<noteq> None"
    and e: "List.find (is_entry Owner fd Node) (PipeEndpointList s) = Some e"
  shows "\<exists>s' p P b. ClosePipe s Owner fd Node = (True, s') \<and> pipes_inv s' \<and>
    PipeEndpointList s' = remove_first (is_entry Owner fd Node) (PipeEndpointList s) \<and>
    TEndpoint e = ep_of b P \<and> end_ok s p P b \<and> Pipes s p = Some P \<and>
    Pipes s' = (Pipes s)(p := if ref_of True P + ref_of False P = 1 then None else Some (DropReference b P))"
proof -
  let ?es = "remove_first (is_entry Owner fd Node) (PipeEndpointList s)"
  have "e \<in> set (PipeEndpointList s)" using find_SomeD [OF e] by blast
  from pipes_inv_entry [OF inv this] obtain ep p P b where ep: "TEndpoint e = Some ep"
    "Endpoints s ep = Some \<lparr>EPipe = Some p, IsReadEnd = b\<rparr>" "Pipes s p = Some P" "ep_of b P = Some ep"
    by (auto simp: entry_live_def)
  let ?P = "DropReference b P"
  let ?s1 = "set_pipe p ?P (s\<lparr>PipeEndpointList := ?es\<rparr>)"
  let ?z = "ref_of True ?P = 0 \<and> ref_of False ?P = 0"
  let ?s' = "if ?z then DeletePipe p ?P ?s1 else ?s1"
  have run: "ClosePipe s Owner fd Node = (True, ?s')"
    using a e ep by (cases Owner; cases Node) (simp_all add: ClosePipe_def ref_of_def Let_def)
  have pre: "pipes_pre ?s1" by (rule DropReference_pre [OF inv e ep])
  note px = pipes_inv_pipe [OF inv ep(3)]
  have "ref_of b P = descriptors (Some ep) (PipeEndpointList s)" using px [of b] ep(4) by (auto simp: end_ok_def)
  then have pos: "0 < ref_of b P" using descriptors_pos [OF \<open>e \<in> set (PipeEndpointList s)\<close> ep(1)] by simp
  have z: "?z \<longleftrightarrow> ref_of True P + ref_of False P = 1" using pos by (cases b) auto
  have "pipes_inv ?s'"
  proof (cases ?z)
    case True
    have "pipes_pre (DeletePipe p ?P ?s1)"
      using DeletePipe_pre [OF pre, of p ?P] True by (simp add: set_pipe_def)
    moreover have "0 < ref_of True X + ref_of False X" if "Pipes (DeletePipe p ?P ?s1) q = Some X" for q X
      using that inv by (auto simp: DeletePipe_def set_pipe_def pipes_inv_def split: if_splits)
    ultimately show ?thesis unfolding if_P [OF True] pipes_inv_pre by blast
  next
    case False
    have "0 < ref_of True X + ref_of False X" if "Pipes ?s1 q = Some X" for q X
      using that inv False by (auto simp: set_pipe_def pipes_inv_def split: if_splits)
    with pre show ?thesis unfolding if_not_P [OF False] pipes_inv_pre by blast
  qed
  moreover have "PipeEndpointList ?s' = ?es" by (simp add: DeletePipe_def set_pipe_def)
  moreover have "Pipes ?s' = (Pipes s)(p := if ref_of True P + ref_of False P = 1 then None else Some ?P)"
    unfolding z by (auto simp: DeletePipe_def set_pipe_def)
  ultimately show ?thesis using run ep(3,4) px [of b] ep(1)
    by (intro exI [of _ ?s'] exI [of _ p] exI [of _ P] exI [of _ b]) auto
qed

lemma ClosePipe_inv: "pipes_inv s \<Longrightarrow> ClosePipe s Owner fd Node = (ok, s') \<Longrightarrow> pipes_inv s'"
  using ClosePipe_spec [of s Owner fd Node]
  by (cases "Owner = None \<or> fd < 0 \<or> Node = None";
      cases "List.find (is_entry Owner fd Node) (PipeEndpointList s)")
     (auto simp: ClosePipe_def)

lemma ClosePipe_shrinks:
  "ClosePipe s Owner fd Node = (True, s') \<Longrightarrow> length (PipeEndpointList s') < length (PipeEndpointList s)"
proof -
  assume c: "ClosePipe s Owner fd Node = (True, s')"
  then obtain e where e: "List.find (is_entry Owner fd Node) (PipeEndpointList s) = Some e"
    by (auto simp: ClosePipe_def split: if_splits option.splits)
  have "PipeEndpointList s' = remove_first (is_entry Owner fd Node) (PipeEndpointList s)"
    using c e by (auto simp: ClosePipe_def Let_def set_pipe_def DeletePipe_def split: if_splits option.splits)
  then show ?thesis
    using find_SomeD [OF e] length_pos_if_in_set [of e "PipeEndpointList s"]
    by (auto simp: length_remove_first)
qed

text \<open>The destructor: every descriptor is closed, from the head of the list on.\<close>

function CloseAllPipes :: "pipe_manager \<Rightarrow> pipe_manager" where
  "CloseAllPipes s =
     (case PipeEndpointList s of
        [] \<Rightarrow> s
      | Entry # rest \<Rightarrow>
          (case ClosePipe s (TOwner Entry) (TFileDescriptor Entry) (TNode Entry) of
             (ok, s') \<Rightarrow> if ok then CloseAllPipes s' else CloseAllPipes (s\<lparr>PipeEndpointList := rest\<rparr>)))"
  by pat_completeness auto
termination
  by (relation "measure (\<lambda>s. length (PipeEndpointList s))") (auto dest!: ClosePipe_shrinks [OF sym])

declare CloseAllPipes.simps [simp del]

lemma CloseAllPipes_spec:
  "pipes_inv s \<Longrightarrow> PipeEndpointList (CloseAllPipes s) = [] \<and> (\<forall>p. Pipes (CloseAllPipes s) p = None)"
proof (induction s rule: CloseAllPipes.induct)
  case (1 s)
  show ?case
  proof (cases "PipeEndpointList s")
    case Nil
    have "Pipes s p = None" for p
    proof (rule ccontr)
      assume "Pipes s p \<noteq> None"
      then obtain P where P: "Pipes s p = Some P" by blast
      have "ref_of b P = 0" for b
        using pipes_inv_pipe [OF "1.prems" P, of b] Nil by (auto simp: end_ok_def descriptors_def)
      with pipes_inv_pipe [OF "1.prems" P, of True] show False by simp
    qed
    with Nil show ?thesis by (simp add: CloseAllPipes.simps)
  next
    case (Cons e es)
    have live: "entry_live s e" using pipes_inv_entry [OF "1.prems"] Cons by simp
    then have a: "TOwner e \<noteq> None" "0 \<le> TFileDescriptor e" by (simp_all add: entry_live_def)
    obtain p P b where "Pipes s p = Some P" "TNode e = node_of b P" using live by (auto simp: entry_live_def)
    with pipes_inv_pipe [OF "1.prems", of p P b] have n: "TNode e \<noteq> None" by (auto simp: end_ok_def)
    have "List.find (is_entry (TOwner e) (TFileDescriptor e) (TNode e)) (PipeEndpointList s) = Some e"
      using Cons by (simp add: is_entry_def)
    from ClosePipe_spec [OF "1.prems" a n this] obtain s' where
      c: "ClosePipe s (TOwner e) (TFileDescriptor e) (TNode e) = (True, s')" and inv: "pipes_inv s'" by blast
    have "CloseAllPipes s = CloseAllPipes s'" by (subst CloseAllPipes.simps) (simp add: Cons c)
    with "1.IH"(1) [OF Cons c [symmetric] _ inv] show ?thesis by simp
  qed
qed

section \<open>A pipe is a byte channel\<close>

text \<open>The two ends used without blocking.\<close>

definition NonBlockingFile :: open_file where
  "NonBlockingFile = \<lparr>FNode = None, FOpenFlags = LINUX_O_NONBLOCK\<rparr>"

definition PipePut :: "pipe_object \<Rightarrow> u8 list \<Rightarrow> nat \<times> pipe_object" where
  "PipePut P Bytes =
     (case PipeWriteLoop P NonBlockingFile None Bytes of
        (Returned k _, P') \<Rightarrow> (nat k, P') | (Sleeping _, P') \<Rightarrow> (0, P'))"

definition PipeGet :: "pipe_object \<Rightarrow> nat \<Rightarrow> u8 list \<times> pipe_object" where
  "PipeGet P Count =
     (case PipeReadLoop P NonBlockingFile None Count of
        (Returned _ bytes, P') \<Rightarrow> (bytes, P') | (Sleeping _, P') \<Rightarrow> ([], P'))"

interpretation pipe: byte_channel pipe_ring_ok pipe_contents LINUX_PIPE_BUFFER_CAPACITY PipePut PipeGet
proof
  fix P assume "pipe_ring_ok P"
  then show "length (pipe_contents P) \<le> LINUX_PIPE_BUFFER_CAPACITY"
    by (auto simp: pipe_ring_ok_def pipe_contents_def ring_ok_def)
next
  fix P bs k P' assume ok: "pipe_ring_ok P" and p: "PipePut P bs = (k, P')"
  obtain r P1 where l: "PipeWriteLoop P NonBlockingFile None bs = (r, P1)"
    by (cases "PipeWriteLoop P NonBlockingFile None bs")
  from PipeWriteLoop_spec [OF ok l, of True] p l
  show "pipe_ring_ok P' \<and> k = min (length bs) (LINUX_PIPE_BUFFER_CAPACITY - length (pipe_contents P)) \<and>
      pipe_contents P' = pipe_contents P @ take k bs"
    by (auto simp: PipePut_def split: io_outcome.splits if_splits)
next
  fix P n bs P' assume ok: "pipe_ring_ok P" and p: "PipeGet P n = (bs, P')"
  obtain r P1 where l: "PipeReadLoop P NonBlockingFile None n = (r, P1)"
    by (cases "PipeReadLoop P NonBlockingFile None n")
  from PipeReadLoop_spec [OF ok l, of True] p l
  show "pipe_ring_ok P' \<and> bs = take n (pipe_contents P) \<and> pipe_contents P' = drop n (pipe_contents P)"
    by (auto simp: PipeGet_def split: io_outcome.splits if_splits)
qed

section \<open>Every run of the manager\<close>

text \<open>
  The callers' side: a new object is at an unused address, and a file that is read, written or
  duplicated has no node, a node that is not a pipe's, or the node of a tracked descriptor.
\<close>

definition open_file_ok :: "pipe_manager \<Rightarrow> open_file \<Rightarrow> bool" where
  "open_file_ok s f \<longleftrightarrow>
     (case FNode f of None \<Rightarrow> True
      | Some n \<Rightarrow> \<exists>e\<in>set (PipeEndpointList s). TNode e = Some n)"

definition fresh_objects ::
    "pipe_manager \<Rightarrow> ptr \<Rightarrow> ptr \<Rightarrow> ptr \<Rightarrow> ptr \<Rightarrow> ptr \<Rightarrow> bool" where
  "fresh_objects s np nre nwe nrn nwn \<longleftrightarrow>
     (\<forall>p. np = Some p \<longrightarrow> Pipes s p = None) \<and>
     (\<forall>a. nre = Some a \<or> nwe = Some a \<longrightarrow> Endpoints s a = None) \<and>
     (\<forall>a. nrn = Some a \<or> nwn = Some a \<longrightarrow> INodes s a = None) \<and>
     (nre \<noteq> nwe \<or> nre = None) \<and> (nrn \<noteq> nwn \<or> nrn = None)"

inductive pipe_step :: "pipe_manager \<Rightarrow> pipe_manager \<Rightarrow> bool" where
  Create: "fresh_objects s np nre nwe nrn nwn \<Longrightarrow> length g = LINUX_PIPE_BUFFER_CAPACITY \<Longrightarrow>
     CreatePipe s Owner rfd wfd g np nre nwe nrn nwn = (code, nodes, s') \<Longrightarrow> pipe_step s s'"
| Duplicate: "open_file_ok s f \<Longrightarrow> DuplicatePipeDescriptor s Owner fd (Some f) = (code, s') \<Longrightarrow> pipe_step s s'"
| Close: "ClosePipe s Owner fd Node = (ok, s') \<Longrightarrow> pipe_step s s'"
| Read: "open_file_ok s f \<Longrightarrow> PipeRead s (Some f) given n Current = (r, s') \<Longrightarrow> pipe_step s s'"
| Write: "open_file_ok s f \<Longrightarrow> PipeWrite s (Some f) given bytes Current = (r, s') \<Longrightarrow> pipe_step s s'"

lemma open_file_ok_on: "pipes_inv s \<Longrightarrow> open_file_ok s f \<Longrightarrow> FNode f = Some n \<Longrightarrow> \<exists>p b. file_on s f p b"
  by (auto simp: open_file_ok_def intro: tracked_file_on)

lemma PipeRead_inv:
  assumes "pipes_inv s" and "open_file_ok s f" and r: "PipeRead s (Some f) given n Current = (r, s')"
  shows "pipes_inv s'"
proof (cases "s' = s")
  case False
  with r have n: "given" "0 < n" "FNode f \<noteq> None"
    by (auto simp: PipeRead_def GetPipeEndpointFromOpenFile_def split: if_splits option.splits)
  then obtain p b where f: "file_on s f p b" using open_file_ok_on [OF assms(1,2)] by blast
  with r n False have b by (auto simp: PipeRead_def GetPipeEndpointFromOpenFile_def file_on_def split: if_splits)
  with PipeRead_spec [OF assms(1) _ n(2)] f r n(1) show ?thesis by auto
qed (use assms in simp)

lemma PipeWrite_inv:
  assumes "pipes_inv s" and "open_file_ok s f" and r: "PipeWrite s (Some f) given bytes Current = (r, s')"
  shows "pipes_inv s'"
proof (cases "s' = s")
  case False
  with r have n: "given" "bytes \<noteq> []" "FNode f \<noteq> None"
    by (auto simp: PipeWrite_def GetPipeEndpointFromOpenFile_def split: if_splits option.splits)
  then obtain p b where f: "file_on s f p b" using open_file_ok_on [OF assms(1,2)] by blast
  with r n False have "\<not> b" by (auto simp: PipeWrite_def GetPipeEndpointFromOpenFile_def file_on_def split: if_splits)
  with PipeWrite_spec [OF assms(1) _ n(2)] f r n(1) show ?thesis by auto
qed (use assms in simp)

lemma Duplicate_inv:
  assumes "pipes_inv s" and "open_file_ok s f" and r: "DuplicatePipeDescriptor s Owner fd (Some f) = (code, s')"
  shows "pipes_inv s'"
proof (cases "s' = s")
  case False
  with r have n: "Owner \<noteq> None" "0 \<le> fd" "FNode f \<noteq> None" "length (PipeEndpointList s) < MAX_TRACKED_PIPES"
    by (auto simp: DuplicatePipeDescriptor_def split: if_splits option.splits)
  from n(3) obtain p b where f: "file_on s f p b" using open_file_ok_on [OF assms(1,2)] by blast
  from n(3) assms(2) have "\<exists>e\<in>set (PipeEndpointList s). TNode e = FNode f"
    by (auto simp: open_file_ok_def)
  from DuplicatePipeDescriptor_spec [OF assms(1) r f n(1,2) this n(4)] show ?thesis by blast
qed (use assms in simp)

lemma pipe_step_inv: "pipe_step s s' \<Longrightarrow> pipes_inv s \<Longrightarrow> pipes_inv s'"
proof (induction rule: pipe_step.induct)
  case (Create s np nre nwe nrn nwn g Owner rfd wfd code nodes s')
  note fr = Create.hyps(1) [unfolded fresh_objects_def]
  show ?case
    using CreatePipe_inv [OF Create.prems Create.hyps(3) _ _ _ _ _ Create.hyps(2)] fr by blast
qed (blast intro: ClosePipe_inv PipeRead_inv PipeWrite_inv Duplicate_inv)+

lemma pipe_steps_inv: "pipe_step\<^sup>*\<^sup>* s s' \<Longrightarrow> pipes_inv s \<Longrightarrow> pipes_inv s'"
  by (induction rule: rtranclp_induct) (auto intro: pipe_step_inv)

lemma pipes_inv_live:
  assumes "pipes_inv s" and "Pipes s p = Some P"
  shows "ReaderReferenceCount P = descriptors (PReadEndpoint P) (PipeEndpointList s) \<and>
     WriterReferenceCount P = descriptors (PWriteEndpoint P) (PipeEndpointList s) \<and>
     0 < ReaderReferenceCount P + WriterReferenceCount P \<and>
     (\<exists>re we rn wn. PReadEndpoint P = Some re \<and> Endpoints s re = Some \<lparr>EPipe = Some p, IsReadEnd = True\<rparr> \<and>
        PWriteEndpoint P = Some we \<and> Endpoints s we = Some \<lparr>EPipe = Some p, IsReadEnd = False\<rparr> \<and>
        PReadNode P = Some rn \<and> INodes s rn = Some \<lparr>NodeData = Some re, HasPipeOps = True\<rparr> \<and>
        PWriteNode P = Some wn \<and> INodes s wn = Some \<lparr>NodeData = Some we, HasPipeOps = True\<rparr>)"
  using pipes_inv_pipe [OF assms, of True] pipes_inv_pipe [OF assms, of False]
  by (auto simp: end_ok_def ref_of_def ep_of_def node_of_def)

section \<open>A concrete pipe\<close>

definition sample_pipes :: pipe_manager where
  "sample_pipes = snd (snd (CreatePipe (IPC_pipes_init (\<lambda>_. None)) (Some 1) 3 4
     (replicate LINUX_PIPE_BUFFER_CAPACITY 0) (Some 16) (Some 32) (Some 48) (Some 64) (Some 80)))"

lemma sample_pipes_step: "pipe_step (IPC_pipes_init (\<lambda>_. None)) sample_pipes"
proof -
  let ?g = "replicate LINUX_PIPE_BUFFER_CAPACITY 0" and ?s = "IPC_pipes_init (\<lambda>_. None)"
  obtain code nodes s' where c: "CreatePipe ?s (Some 1) 3 4 ?g (Some 16) (Some 32) (Some 48) (Some 64) (Some 80) =
      (code, nodes, s')" by (metis surj_pair)
  have "fresh_objects ?s (Some 16) (Some 32) (Some 48) (Some 64) (Some 80)"
    by (simp add: fresh_objects_def IPC_pipes_init_def)
  from pipe_step.Create [OF this _ c] show ?thesis by (simp add: sample_pipes_def c)
qed

lemma sample_pipes_inv: "pipes_inv sample_pipes"
  using pipe_step_inv [OF sample_pipes_step pipes_inv_init] .

lemma sample_pipes_eq:
  "Pipes sample_pipes 16 = Some \<lparr>PBuffer = replicate LINUX_PIPE_BUFFER_CAPACITY 0, PReadOffset = 0,
     PWriteOffset = 0, PBufferedBytes = 0, ReaderReferenceCount = 1, WriterReferenceCount = 1,
     PReadEndpoint = Some 32, PWriteEndpoint = Some 48, PReadNode = Some 64, PWriteNode = Some 80\<rparr>"
  "PipeEndpointList sample_pipes =
     [\<lparr>TOwner = Some 1, TFileDescriptor = 3, TNode = Some 64, TEndpoint = Some 32\<rparr>,
      \<lparr>TOwner = Some 1, TFileDescriptor = 4, TNode = Some 80, TEndpoint = Some 48\<rparr>]"
  "Endpoints sample_pipes 32 = Some \<lparr>EPipe = Some 16, IsReadEnd = True\<rparr>"
  "Endpoints sample_pipes 48 = Some \<lparr>EPipe = Some 16, IsReadEnd = False\<rparr>"
  "INodes sample_pipes 64 = Some \<lparr>NodeData = Some 32, HasPipeOps = True\<rparr>"
  "INodes sample_pipes 80 = Some \<lparr>NodeData = Some 48, HasPipeOps = True\<rparr>"
  by (simp_all add: sample_pipes_def CreatePipe_def IPC_pipes_init_def MAX_TRACKED_PIPES_def
      MAX_PROCESSES_def MAX_OPEN_FILES_PER_PROCESS_def)

section \<open>Properties\<close>

text \<open>
  C4. In every run of creating, duplicating, closing, reading and writing pipes: each tracked
  descriptor refers to a live endpoint of a live pipe, each live pipe has at least one descriptor,
  its reader and writer counts are exactly the numbers of tracked descriptors of its two ends, and
  its nodes and endpoints are live - so no tracked descriptor ever dangles and no pipe leaks.
\<close>

theorem pipe_descriptors_counted:
  assumes "pipe_step\<^sup>*\<^sup>* (IPC_pipes_init nodes) s"
  shows "(\<forall>e\<in>set (PipeEndpointList s). \<exists>ep p P b. TEndpoint e = Some ep \<and> Pipes s p = Some P \<and>
       Endpoints s ep = Some \<lparr>EPipe = Some p, IsReadEnd = b\<rparr> \<and> ep_of b P = Some ep \<and> TNode e = node_of b P) \<and>
     (\<forall>p P. Pipes s p = Some P \<longrightarrow>
       ReaderReferenceCount P = descriptors (PReadEndpoint P) (PipeEndpointList s) \<and>
       WriterReferenceCount P = descriptors (PWriteEndpoint P) (PipeEndpointList s) \<and>
       0 < ReaderReferenceCount P + WriterReferenceCount P \<and>
       (\<exists>re we rn wn. PReadEndpoint P = Some re \<and> Endpoints s re = Some \<lparr>EPipe = Some p, IsReadEnd = True\<rparr> \<and>
          PWriteEndpoint P = Some we \<and> Endpoints s we = Some \<lparr>EPipe = Some p, IsReadEnd = False\<rparr> \<and>
          PReadNode P = Some rn \<and> INodes s rn = Some \<lparr>NodeData = Some re, HasPipeOps = True\<rparr> \<and>
          PWriteNode P = Some wn \<and> INodes s wn = Some \<lparr>NodeData = Some we, HasPipeOps = True\<rparr>)) \<and>
     length (PipeEndpointList s) \<le> MAX_TRACKED_PIPES"
proof -
  have inv: "pipes_inv s" using pipe_steps_inv [OF assms pipes_inv_init] .
  from inv have "\<forall>e\<in>set (PipeEndpointList s). entry_live s e" "length (PipeEndpointList s) \<le> MAX_TRACKED_PIPES"
    by (simp_all add: pipes_inv_def)
  then show ?thesis using pipes_inv_live [OF inv] unfolding entry_live_def by blast
qed

theorem pipe_descriptors_counted_witness:
  "\<exists>P. Pipes sample_pipes 16 = Some P \<and> ReaderReferenceCount P = descriptors (Some 32) (PipeEndpointList sample_pipes)"
proof -
  obtain P where P: "Pipes sample_pipes 16 = Some P" by (simp add: sample_pipes_eq)
  have "pipe_step\<^sup>*\<^sup>* (IPC_pipes_init (\<lambda>_. None)) sample_pipes" using sample_pipes_step by (rule r_into_rtranclp)
  from pipe_descriptors_counted [OF this] P
  have "ReaderReferenceCount P = descriptors (PReadEndpoint P) (PipeEndpointList sample_pipes)" by blast
  moreover have "PReadEndpoint P = Some 32" using P by (auto simp: sample_pipes_eq)
  ultimately show ?thesis using P by simp
qed

text \<open>
  C35. A pipe is a bounded byte queue: over any sequence of non-blocking writes and reads the
  bytes delivered, followed by those still buffered, are the bytes that were buffered followed by
  those accepted, in order, and at most the capacity is buffered.
\<close>

theorem pipe_is_fifo:
  assumes "pipe_ring_ok P" and "pipe.run P ops = (sent, got, P')"
  shows "pipe_ring_ok P' \<and> pipe_contents P @ sent = got @ pipe_contents P' \<and>
     length (pipe_contents P') \<le> LINUX_PIPE_BUFFER_CAPACITY"
  using assms by (rule pipe.run_fifo)

theorem pipe_is_fifo_witness:
  "\<exists>P sent got P'. Pipes sample_pipes 16 = Some P \<and> pipe.run P [Put [7, 8], Get 1] = (sent, got, P') \<and>
     sent = got @ pipe_contents P'"
proof -
  obtain P where P: "Pipes sample_pipes 16 = Some P" by (simp add: sample_pipes_eq)
  then have "pipe_ring_ok P" using pipes_inv_pipe [OF sample_pipes_inv] by blast
  moreover have "pipe_contents P = []" using P by (simp add: sample_pipes_eq pipe_contents_def ring_contents_def) auto
  moreover obtain sent got P' where "pipe.run P [Put [7, 8], Get 1] = (sent, got, P')" by (metis surj_pair)
  ultimately show ?thesis using pipe_is_fifo [of P "[Put [7, 8], Get 1]" sent got P'] P by auto
qed

section \<open>Further facts\<close>

text \<open>
  Reading a live pipe's read end: with bytes buffered it returns the first ones, at most as many
  as asked for, and removes exactly them; on an empty pipe it changes nothing and returns 0, end
  of file, exactly when no write descriptor is left, and it sleeps only when a write descriptor is
  left and the file is blocking.
\<close>

theorem pipe_read_outcome:
  assumes "pipes_inv s" and "file_on s f p True" and "0 < n" and "PipeRead s (Some f) True n Current = (r, s')"
  shows "\<exists>P P'. Pipes s p = Some P \<and> s' = set_pipe p P' s \<and> pipes_inv s' \<and>
    (case r of
       Sleeping i \<Rightarrow> P' = P \<and> pipe_contents P = [] \<and> 0 < descriptors (PWriteEndpoint P) (PipeEndpointList s) \<and>
         \<not> NonBlocking f \<and> Current = Some i
     | Returned k bytes \<Rightarrow>
         (if pipe_contents P = []
          then P' = P \<and> bytes = [] \<and> (k = 0 \<longleftrightarrow> descriptors (PWriteEndpoint P) (PipeEndpointList s) = 0)
          else k = int (length bytes) \<and> bytes = take n (pipe_contents P) \<and> pipe_contents P' = drop n (pipe_contents P)))"
proof -
  from PipeRead_spec [OF assms] obtain P P' where P: "Pipes s p = Some P" "PipeReadLoop P f Current n = (r, P')"
    "s' = set_pipe p P' s" "pipes_inv s'" by blast
  have "pipe_ring_ok P" and "end_ok s p P False" using pipes_inv_pipe [OF assms(1) P(1)] by blast+
  then have "WriterReferenceCount P = descriptors (PWriteEndpoint P) (PipeEndpointList s)"
    by (auto simp: end_ok_def ref_of_def ep_of_def)
  with PipeReadLoop_spec [OF \<open>pipe_ring_ok P\<close> P(2)] P(1,3,4) show ?thesis
    by (intro exI [of _ P] exI [of _ P']) (cases r; simp)
qed

theorem pipe_read_outcome_witness:
  "\<exists>r s'. PipeRead sample_pipes (Some \<lparr>FNode = Some 64, FOpenFlags = 0\<rparr>) True 8 (Some 1) = (r, s') \<and> pipes_inv s'"
proof -
  let ?f = "\<lparr>FNode = Some 64, FOpenFlags = 0\<rparr>"
  obtain r s' where r: "PipeRead sample_pipes (Some ?f) True 8 (Some 1) = (r, s')" by (metis surj_pair)
  have "file_on sample_pipes ?f 16 True" by (simp add: file_on_def sample_pipes_eq)
  from pipe_read_outcome [OF sample_pipes_inv this _ r] r show ?thesis by auto
qed

text \<open>
  Writing a live pipe's write end: with no read descriptor left it fails with EPIPE and changes
  nothing; else it appends the first bytes that fit, returning how many, and on a full pipe it
  changes nothing and either fails or, when blocking, sleeps.
\<close>

theorem pipe_write_outcome:
  assumes "pipes_inv s" and "file_on s f p False" and "Bytes \<noteq> []" and "PipeWrite s (Some f) True Bytes Current = (r, s')"
  shows "\<exists>P. Pipes s p = Some P \<and> pipes_inv s' \<and>
    (if descriptors (PReadEndpoint P) (PipeEndpointList s) = 0 then r = Returned LINUX_PIPE_ERR_EPIPE [] \<and> s' = s
     else \<exists>P'. s' = set_pipe p P' s \<and>
       (case r of
          Sleeping i \<Rightarrow> P' = P \<and> length (pipe_contents P) = LINUX_PIPE_BUFFER_CAPACITY \<and> \<not> NonBlocking f \<and> Current = Some i
        | Returned k _ \<Rightarrow>
            (if length (pipe_contents P) = LINUX_PIPE_BUFFER_CAPACITY then P' = P \<and> k < 0
             else k = int (min (length Bytes) (LINUX_PIPE_BUFFER_CAPACITY - length (pipe_contents P))) \<and>
                  pipe_contents P' = pipe_contents P @ take (nat k) Bytes)))"
proof -
  from PipeWrite_spec [OF assms] obtain P where P: "Pipes s p = Some P" "pipes_inv s'"
    "if ReaderReferenceCount P = 0 then r = Returned LINUX_PIPE_ERR_EPIPE [] \<and> s' = s
      else \<exists>P'. PipeWriteLoop P f Current Bytes = (r, P') \<and> s' = set_pipe p P' s" by blast
  have ok: "pipe_ring_ok P" and "end_ok s p P True" using pipes_inv_pipe [OF assms(1) P(1)] by blast+
  then have d: "ReaderReferenceCount P = descriptors (PReadEndpoint P) (PipeEndpointList s)"
    by (auto simp: end_ok_def ref_of_def ep_of_def)
  show ?thesis
  proof (cases "ReaderReferenceCount P = 0")
    case False
    with P(3) obtain P' where w: "PipeWriteLoop P f Current Bytes = (r, P')" "s' = set_pipe p P' s" by auto
    from PipeWriteLoop_spec [OF ok w(1)] w(2) P(1,2) d False show ?thesis
      by (intro exI [of _ P]) (cases r; auto intro!: exI [of _ P'])
  qed (use P d in auto)
qed

theorem pipe_write_outcome_witness:
  "\<exists>r s'. PipeWrite sample_pipes (Some \<lparr>FNode = Some 80, FOpenFlags = 0\<rparr>) True [7] (Some 1) = (r, s') \<and> pipes_inv s'"
proof -
  let ?f = "\<lparr>FNode = Some 80, FOpenFlags = 0\<rparr>"
  obtain r s' where r: "PipeWrite sample_pipes (Some ?f) True [7] (Some 1) = (r, s')" by (metis surj_pair)
  have "file_on sample_pipes ?f 16 False" by (simp add: file_on_def sample_pipes_eq)
  from pipe_write_outcome [OF sample_pipes_inv this _ r] r show ?thesis by auto
qed

text \<open>
  Closing a tracked descriptor removes exactly its first entry, lowers the count of its end by
  one, and deletes the pipe exactly when that was its last descriptor on either end; no other pipe
  changes.
\<close>

theorem pipe_close_releases:
  assumes "pipes_inv s" and "Owner \<noteq> None" and "0 \<le> fd" and "Node \<noteq> None"
    and "List.find (is_entry Owner fd Node) (PipeEndpointList s) = Some e"
  shows "\<exists>s' p P b. ClosePipe s Owner fd Node = (True, s') \<and> pipes_inv s' \<and>
    PipeEndpointList s' = remove_first (is_entry Owner fd Node) (PipeEndpointList s) \<and>
    TEndpoint e = ep_of b P \<and> Pipes s p = Some P \<and>
    Pipes s' = (Pipes s)(p := if ref_of True P + ref_of False P = 1 then None else Some (DropReference b P))"
  using ClosePipe_spec [OF assms] by blast

theorem pipe_close_releases_witness:
  "\<exists>s'. ClosePipe sample_pipes (Some 1) 3 (Some 64) = (True, s') \<and> pipes_inv s' \<and> length (PipeEndpointList s') = 1"
proof -
  have f: "List.find (is_entry (Some 1) 3 (Some 64)) (PipeEndpointList sample_pipes) =
      Some \<lparr>TOwner = Some 1, TFileDescriptor = 3, TNode = Some 64, TEndpoint = Some 32\<rparr>"
    by (simp add: sample_pipes_eq is_entry_def)
  from pipe_close_releases [OF sample_pipes_inv _ _ _ f]
  show ?thesis by (auto simp: sample_pipes_eq is_entry_def)
qed

text \<open>
  The manager's destructor loop, which closes the first tracked descriptor until none is left,
  ends with no tracked descriptor and no live pipe.
\<close>

theorem pipes_closed_with_manager:
  assumes "pipes_inv s"
  shows "PipeEndpointList (CloseAllPipes s) = [] \<and> (\<forall>p. Pipes (CloseAllPipes s) p = None)"
  using assms by (rule CloseAllPipes_spec)

theorem pipes_closed_with_manager_witness: "Pipes (CloseAllPipes sample_pipes) 16 = None"
  using pipes_closed_with_manager [OF sample_pipes_inv] by simp

end
