(* ===== verification/Socket_Manager.thy ===== *)
theory Socket_Manager imports Pipe_Manager begin

text \<open>
  The sockets of \<open>Kernel/Layers/Logic/InterProcessComunicationManager.cpp\<close>: the file operations
  \<open>SocketRead\<close>, \<open>SocketWrite\<close> and \<open>SocketPoll\<close>, and the manager's \<open>CreateSocket\<close>, \<open>BindSocket\<close>,
  \<open>ListenSocket\<close>, \<open>ConnectSocket\<close>, \<open>AcceptSocket\<close>, \<open>ShutdownSocket\<close> and \<open>CloseSocket\<close>. The heap maps addresses
  to the live sockets, each with its implementation object; \<open>SocketList\<close> is the array up to
  \<open>SocketCount\<close>. Sockets point at each other, as peers and as pending connections, and the accesses go
  through the heap: a read of a deleted socket is the unspecified \<open>the None\<close>.

  The path of a Unix socket is the list of its \<open>PathLength\<close> bytes, the queue of pending connections
  the list of its entries up to the count. A socket address is the list of the
  \<open>SocketAddressLength\<close> bytes the caller passed.
\<close>

unbundle bit_operations_syntax

section \<open>Constants\<close>

definition LINUX_AF_UNIX :: int where [layout_simps]: "LINUX_AF_UNIX = 1"
definition LINUX_AF_INET :: int where [layout_simps]: "LINUX_AF_INET = 2"
definition LINUX_AF_NETLINK :: int where [layout_simps]: "LINUX_AF_NETLINK = 16"

definition LINUX_SOCK_STREAM :: int where "LINUX_SOCK_STREAM = 1"
definition LINUX_SOCK_DGRAM :: int where "LINUX_SOCK_DGRAM = 2"
definition LINUX_SOCK_RAW :: int where "LINUX_SOCK_RAW = 3"
definition LINUX_SOCK_SEQPACKET :: int where "LINUX_SOCK_SEQPACKET = 5"
definition LINUX_SOCK_TYPE_MASK :: int where "LINUX_SOCK_TYPE_MASK = 0xF"

definition LINUX_SOCKADDR_FAMILY_SIZE :: nat where "LINUX_SOCKADDR_FAMILY_SIZE = 2"
definition SizeofSockAddrIn :: nat where "SizeofSockAddrIn = 16"
definition SizeofSockAddrUn :: nat where "SizeofSockAddrUn = 110"
definition SizeofSockAddrNl :: nat where "SizeofSockAddrNl = 12"
definition LINUX_LISTEN_SOMAXCONN :: int where "LINUX_LISTEN_SOMAXCONN = 4096"
definition LINUX_INET_EPHEMERAL_START :: nat where "LINUX_INET_EPHEMERAL_START = 49152"
definition LINUX_INET_EPHEMERAL_END :: nat where "LINUX_INET_EPHEMERAL_END = 65535"
definition LINUX_SHUT_RD :: int where "LINUX_SHUT_RD = 0"
definition LINUX_SHUT_WR :: int where "LINUX_SHUT_WR = 1"
definition LINUX_SHUT_RDWR :: int where "LINUX_SHUT_RDWR = 2"
definition LINUX_UNIX_SOCKET_BUFFER_CAPACITY :: nat where "LINUX_UNIX_SOCKET_BUFFER_CAPACITY = 65536"
definition MAX_TRACKED_SOCKETS :: nat where
  "MAX_TRACKED_SOCKETS = MAX_PROCESSES * MAX_OPEN_FILES_PER_PROCESS"

definition LINUX_SOCKET_ERR_EINVAL :: int where "LINUX_SOCKET_ERR_EINVAL = -22"
definition LINUX_SOCKET_ERR_EAFNOSUPPORT :: int where "LINUX_SOCKET_ERR_EAFNOSUPPORT = -97"
definition LINUX_SOCKET_ERR_ESOCKTNOSUPPORT :: int where "LINUX_SOCKET_ERR_ESOCKTNOSUPPORT = -94"
definition LINUX_SOCKET_ERR_EOPNOTSUPP :: int where "LINUX_SOCKET_ERR_EOPNOTSUPP = -95"
definition LINUX_SOCKET_ERR_ENOMEM :: int where "LINUX_SOCKET_ERR_ENOMEM = -12"
definition LINUX_SOCKET_ERR_EAGAIN :: int where "LINUX_SOCKET_ERR_EAGAIN = -11"
definition LINUX_SOCKET_ERR_EMFILE :: int where "LINUX_SOCKET_ERR_EMFILE = -24"
definition LINUX_SOCKET_ERR_EBADF :: int where "LINUX_SOCKET_ERR_EBADF = -9"
definition LINUX_SOCKET_ERR_ENOTSOCK :: int where "LINUX_SOCKET_ERR_ENOTSOCK = -88"
definition LINUX_SOCKET_ERR_EISCONN :: int where "LINUX_SOCKET_ERR_EISCONN = -106"
definition LINUX_SOCKET_ERR_ENOTCONN :: int where "LINUX_SOCKET_ERR_ENOTCONN = -107"
definition LINUX_SOCKET_ERR_ECONNREFUSED :: int where "LINUX_SOCKET_ERR_ECONNREFUSED = -111"
definition LINUX_SOCKET_ERR_EPIPE :: int where "LINUX_SOCKET_ERR_EPIPE = -32"
definition LINUX_SOCKET_ERR_EADDRINUSE :: int where "LINUX_SOCKET_ERR_EADDRINUSE = -98"
definition LINUX_SOCKET_ERR_ENAMETOOLONG :: int where "LINUX_SOCKET_ERR_ENAMETOOLONG = -36"

lemmas socket_errors =
  LINUX_SOCKET_ERR_EINVAL_def LINUX_SOCKET_ERR_EAFNOSUPPORT_def LINUX_SOCKET_ERR_ESOCKTNOSUPPORT_def
  LINUX_SOCKET_ERR_EOPNOTSUPP_def LINUX_SOCKET_ERR_ENOMEM_def LINUX_SOCKET_ERR_EAGAIN_def
  LINUX_SOCKET_ERR_EMFILE_def LINUX_SOCKET_ERR_EBADF_def LINUX_SOCKET_ERR_ENOTSOCK_def
  LINUX_SOCKET_ERR_EISCONN_def LINUX_SOCKET_ERR_ENOTCONN_def LINUX_SOCKET_ERR_ECONNREFUSED_def
  LINUX_SOCKET_ERR_EPIPE_def LINUX_SOCKET_ERR_EADDRINUSE_def LINUX_SOCKET_ERR_ENAMETOOLONG_def

section \<open>State\<close>

record network_socket =
  LocalIp :: nat
  LocalPort :: nat
  RemoteIp :: nat
  RemotePort :: nat
  NIsBound :: bool
  NIsListening :: bool
  NListenBacklog :: int
  NIsShutdownRead :: bool
  NIsShutdownWrite :: bool

record netlink_socket =
  LocalPid :: nat
  LocalGroups :: nat
  RemotePid :: nat
  RemoteGroups :: nat
  KIsBound :: bool
  KIsShutdownRead :: bool
  KIsShutdownWrite :: bool

record unix_socket =
  Path :: "u8 list option"
  IsAbstract :: bool
  IsBound :: bool
  IsListening :: bool
  ListenBacklog :: int
  PendingConnections :: "addr list"
  PendingConnectionCapacity :: nat
  ConnectedPeer :: ptr
  ReceiveBuffer :: "u8 list option"
  ReceiveBufferCapacity :: nat
  ReceiveReadOffset :: nat
  ReceiveWriteOffset :: nat
  ReceiveBufferedBytes :: nat
  IsShutdownRead :: bool
  IsShutdownWrite :: bool

text \<open>The object \<open>Implementation\<close> points at, by the domain it was created for.\<close>

datatype implementation =
    UnixImpl unix_socket
  | InetImpl network_socket
  | NetlinkImpl netlink_socket

record socket =
  SDomain :: int
  SType :: int
  SProtocol :: int
  SOwner :: u8
  SFileDescriptor :: int
  SImpl :: "implementation option"

record socket_manager =
  Sockets :: "addr \<Rightarrow> socket option"
  SocketList :: "addr list"

definition IPC_sockets_init :: socket_manager where
  "IPC_sockets_init = \<lparr>Sockets = (\<lambda>_. None), SocketList = []\<rparr>"

definition socket_at :: "socket_manager \<Rightarrow> addr \<Rightarrow> socket" where
  "socket_at s a = the (Sockets s a)"

definition unix_at :: "socket_manager \<Rightarrow> addr \<Rightarrow> unix_socket option" where
  "unix_at s a = (case SImpl (socket_at s a) of Some (UnixImpl u) \<Rightarrow> Some u | _ \<Rightarrow> None)"

definition inet_at :: "socket_manager \<Rightarrow> addr \<Rightarrow> network_socket option" where
  "inet_at s a = (case SImpl (socket_at s a) of Some (InetImpl n) \<Rightarrow> Some n | _ \<Rightarrow> None)"

definition netlink_at :: "socket_manager \<Rightarrow> addr \<Rightarrow> netlink_socket option" where
  "netlink_at s a = (case SImpl (socket_at s a) of Some (NetlinkImpl k) \<Rightarrow> Some k | _ \<Rightarrow> None)"

text \<open>Writing a socket, and its implementation.\<close>

definition set_socket :: "addr \<Rightarrow> socket \<Rightarrow> socket_manager \<Rightarrow> socket_manager" where
  "set_socket a k s = s\<lparr>Sockets := (Sockets s)(a \<mapsto> k)\<rparr>"

definition set_impl :: "addr \<Rightarrow> implementation \<Rightarrow> socket_manager \<Rightarrow> socket_manager" where
  "set_impl a i s = set_socket a ((socket_at s a)\<lparr>SImpl := Some i\<rparr>) s"

definition on_unix :: "addr \<Rightarrow> (unix_socket \<Rightarrow> unix_socket) \<Rightarrow> socket_manager \<Rightarrow> socket_manager" where
  "on_unix a f s = (case unix_at s a of None \<Rightarrow> s | Some u \<Rightarrow> set_impl a (UnixImpl (f u)) s)"

section \<open>Addresses\<close>

definition ReadLinuxAddressFamily :: "u8 list \<Rightarrow> nat" where
  "ReadLinuxAddressFamily SocketAddress = le (take 2 SocketAddress)"

definition FamilyMatches :: "u8 list \<Rightarrow> int \<Rightarrow> bool" where
  "FamilyMatches SocketAddress Dom \<longleftrightarrow> int (ReadLinuxAddressFamily SocketAddress) = Dom mod 2 ^ 16"

text \<open>The path's length and whether it is abstract; \<open>MaxLength\<close> is the length of the list.\<close>

definition ComputeUnixAddressPathLength :: "u8 list \<Rightarrow> nat \<times> bool" where
  "ComputeUnixAddressPathLength Bytes =
     (case Bytes of
        [] \<Rightarrow> (0, False)
      | b # bs \<Rightarrow>
          if b = 0 then (if bs = [] then 0 else length Bytes, True)
          else (length (takeWhile (\<lambda>c. c \<noteq> 0) Bytes), False))"

definition GetComparableUnixPath :: "u8 list \<Rightarrow> bool \<Rightarrow> u8 list" where
  "GetComparableUnixPath Bytes Abstract =
     (if \<not> Abstract then Bytes else rev (dropWhile (\<lambda>c. c = 0) (rev Bytes)))"

definition AreUnixPathsEqual :: "u8 list \<Rightarrow> u8 list \<Rightarrow> bool \<Rightarrow> bool" where
  "AreUnixPathsEqual LeftPath RightPath Abstract \<longleftrightarrow>
     GetComparableUnixPath LeftPath Abstract = GetComparableUnixPath RightPath Abstract"

text \<open>The path of a \<open>LinuxSockAddrUn\<close> of the given bytes: its first \<open>PathLength\<close> bytes.\<close>

definition UnixAddressPath :: "u8 list \<Rightarrow> u8 list \<times> bool" where
  "UnixAddressPath SocketAddress =
     (let Bytes = drop LINUX_SOCKADDR_FAMILY_SIZE SocketAddress;
          (PathLength, Abstract) = ComputeUnixAddressPathLength Bytes
      in (take PathLength Bytes, Abstract))"

section \<open>Creating and binding\<close>

text \<open>The first tracked socket of a descriptor.\<close>

definition FindSocket :: "socket_manager \<Rightarrow> u8 \<Rightarrow> int \<Rightarrow> ptr" where
  "FindSocket s Owner fd =
     List.find (\<lambda>a. SOwner (socket_at s a) = Owner \<and> SFileDescriptor (socket_at s a) = fd) (SocketList s)"

definition IsStreamType :: "int \<Rightarrow> bool" where
  "IsStreamType t \<longleftrightarrow> t = LINUX_SOCK_STREAM \<or> t = LINUX_SOCK_SEQPACKET"

text \<open>The two's complement value of a 64-bit integer cut to 32 bits.\<close>

definition to_int32 :: "int \<Rightarrow> int" where "to_int32 i = signed_take_bit 31 i"

definition NewUnixSocket :: "u8 list \<Rightarrow> unix_socket" where
  "NewUnixSocket Garbage =
     \<lparr>Path = None, IsAbstract = False, IsBound = False, IsListening = False, ListenBacklog = 0,
      PendingConnections = [], PendingConnectionCapacity = 0, ConnectedPeer = None,
      ReceiveBuffer = Some Garbage, ReceiveBufferCapacity = LINUX_UNIX_SOCKET_BUFFER_CAPACITY,
      ReceiveReadOffset = 0, ReceiveWriteOffset = 0, ReceiveBufferedBytes = 0,
      IsShutdownRead = False, IsShutdownWrite = False\<rparr>"

definition NewNetworkSocket :: network_socket where
  "NewNetworkSocket =
     \<lparr>LocalIp = 0, LocalPort = 0, RemoteIp = 0, RemotePort = 0, NIsBound = False, NIsListening = False,
      NListenBacklog = 0, NIsShutdownRead = False, NIsShutdownWrite = False\<rparr>"

definition NewNetlinkSocket :: netlink_socket where
  "NewNetlinkSocket =
     \<lparr>LocalPid = 0, LocalGroups = 0, RemotePid = 0, RemoteGroups = 0, KIsBound = False,
      KIsShutdownRead = False, KIsShutdownWrite = False\<rparr>"

text \<open>
  The allocations: \<open>NewSocket\<close> is the address of the new socket, \<open>NewImpl\<close> whether its implementation
  object could be allocated, \<open>NewBuffer\<close> the bytes of the receive buffer as they were found.
\<close>

definition CreateSocket ::
    "socket_manager \<Rightarrow> int \<Rightarrow> int \<Rightarrow> int \<Rightarrow> u8 option \<Rightarrow> int \<Rightarrow> ptr \<Rightarrow> bool \<Rightarrow> u8 list option \<Rightarrow>
     (int + addr) \<times> socket_manager" where
  "CreateSocket s Dom Type Protocol Owner FileDescriptor NewSocket NewImpl NewBuffer =
     (let SocketType = Type AND LINUX_SOCK_TYPE_MASK;
          fail = (\<lambda>e. (Inl e, s));
          add = (\<lambda>a ow i. (Inr a,
            s\<lparr>Sockets := (Sockets s)(a \<mapsto> \<lparr>SDomain = to_int32 Dom, SType = to_int32 SocketType,
                SProtocol = to_int32 Protocol, SOwner = ow, SFileDescriptor = FileDescriptor, SImpl = Some i\<rparr>),
              SocketList := SocketList s @ [a]\<rparr>))
      in case Owner of
        None \<Rightarrow> fail LINUX_SOCKET_ERR_EINVAL
      | Some ow \<Rightarrow>
      if FileDescriptor < 0 then fail LINUX_SOCKET_ERR_EINVAL
      else if length (SocketList s) \<ge> MAX_TRACKED_SOCKETS then fail LINUX_SOCKET_ERR_EMFILE
      else if Dom \<noteq> LINUX_AF_UNIX \<and> Dom \<noteq> LINUX_AF_INET \<and> Dom \<noteq> LINUX_AF_NETLINK
        then fail LINUX_SOCKET_ERR_EAFNOSUPPORT
      else if SocketType \<noteq> LINUX_SOCK_STREAM \<and> SocketType \<noteq> LINUX_SOCK_DGRAM \<and>
              SocketType \<noteq> LINUX_SOCK_RAW \<and> SocketType \<noteq> LINUX_SOCK_SEQPACKET
        then fail LINUX_SOCKET_ERR_ESOCKTNOSUPPORT
      else case NewSocket of
        None \<Rightarrow> fail LINUX_SOCKET_ERR_ENOMEM
      | Some a \<Rightarrow>
      if Dom = LINUX_AF_UNIX then
        (if \<not> NewImpl then fail LINUX_SOCKET_ERR_ENOMEM
         else case NewBuffer of
           None \<Rightarrow> fail LINUX_SOCKET_ERR_ENOMEM
         | Some g \<Rightarrow> add a ow (UnixImpl (NewUnixSocket g)))
      else if Dom = LINUX_AF_INET then
        (if \<not> NewImpl then fail LINUX_SOCKET_ERR_ENOMEM else add a ow (InetImpl NewNetworkSocket))
      else if SocketType \<noteq> LINUX_SOCK_DGRAM \<and> SocketType \<noteq> LINUX_SOCK_RAW
        then fail LINUX_SOCKET_ERR_ESOCKTNOSUPPORT
      else if \<not> NewImpl then fail LINUX_SOCKET_ERR_ENOMEM
      else add a ow (NetlinkImpl NewNetlinkSocket))"

text \<open>The loops of \<open>BindSocket\<close> over the other sockets of the domain.\<close>

definition InetAddressInUse :: "socket_manager \<Rightarrow> addr \<Rightarrow> nat \<Rightarrow> nat \<Rightarrow> bool" where
  "InetAddressInUse s a Ip Port \<longleftrightarrow>
     (\<exists>c\<in>set (SocketList s). c \<noteq> a \<and> SDomain (socket_at s c) = LINUX_AF_INET \<and>
        (case inet_at s c of
           None \<Rightarrow> False
         | Some n \<Rightarrow> NIsBound n \<and> LocalPort n = Port \<and> (LocalIp n = 0 \<or> Ip = 0 \<or> LocalIp n = Ip)))"

definition UnixAddressInUse :: "socket_manager \<Rightarrow> addr \<Rightarrow> u8 list \<Rightarrow> bool \<Rightarrow> bool" where
  "UnixAddressInUse s a p Abstract \<longleftrightarrow>
     (\<exists>c\<in>set (SocketList s). c \<noteq> a \<and> SDomain (socket_at s c) = LINUX_AF_UNIX \<and>
        (case unix_at s c of
           None \<Rightarrow> False
         | Some u \<Rightarrow> IsBound u \<and> IsAbstract u = Abstract \<and>
             (case Path u of None \<Rightarrow> False | Some q \<Rightarrow> AreUnixPathsEqual q p Abstract)))"

definition NetlinkAddressInUse :: "socket_manager \<Rightarrow> addr \<Rightarrow> nat \<Rightarrow> bool" where
  "NetlinkAddressInUse s a Pid \<longleftrightarrow>
     (\<exists>c\<in>set (SocketList s). c \<noteq> a \<and> SDomain (socket_at s c) = LINUX_AF_NETLINK \<and>
        (case netlink_at s c of None \<Rightarrow> False | Some k \<Rightarrow> KIsBound k \<and> Pid \<noteq> 0 \<and> LocalPid k = Pid))"

definition BindInet :: "socket_manager \<Rightarrow> addr \<Rightarrow> u8 list \<Rightarrow> int \<times> socket_manager" where
  "BindInet s a SocketAddress =
     (let Port = le (take 2 (drop 2 SocketAddress)); Ip = le (take 4 (drop 4 SocketAddress))
      in if length SocketAddress < SizeofSockAddrIn then (LINUX_SOCKET_ERR_EINVAL, s)
      else if InetAddressInUse s a Ip Port then (LINUX_SOCKET_ERR_EADDRINUSE, s)
      else case inet_at s a of
        None \<Rightarrow> (LINUX_SOCKET_ERR_EINVAL, s)
      | Some n \<Rightarrow> (0, set_impl a (InetImpl (n\<lparr>LocalIp := Ip, LocalPort := Port, NIsBound := True\<rparr>)) s))"

definition BindUnix :: "socket_manager \<Rightarrow> addr \<Rightarrow> u8 list \<Rightarrow> bool \<Rightarrow> int \<times> socket_manager" where
  "BindUnix s a SocketAddress NewPath =
     (if length SocketAddress \<le> LINUX_SOCKADDR_FAMILY_SIZE then (LINUX_SOCKET_ERR_EINVAL, s)
      else if length SocketAddress > SizeofSockAddrUn then (LINUX_SOCKET_ERR_ENAMETOOLONG, s)
      else case UnixAddressPath SocketAddress of (p, Abstract) \<Rightarrow>
        if p = [] then (LINUX_SOCKET_ERR_EINVAL, s)
        else if UnixAddressInUse s a p Abstract then (LINUX_SOCKET_ERR_EADDRINUSE, s)
        else case unix_at s a of
          None \<Rightarrow> (LINUX_SOCKET_ERR_EINVAL, s)
        | Some u \<Rightarrow>
            if \<not> NewPath then (LINUX_SOCKET_ERR_ENOMEM, s)
            else (0, set_impl a (UnixImpl (u\<lparr>Path := Some p, IsAbstract := Abstract, IsBound := True\<rparr>)) s))"

definition BindNetlink :: "socket_manager \<Rightarrow> addr \<Rightarrow> u8 list \<Rightarrow> int \<times> socket_manager" where
  "BindNetlink s a SocketAddress =
     (let Pid = le (take 4 (drop 4 SocketAddress)); Groups = le (take 4 (drop 8 SocketAddress))
      in if length SocketAddress < SizeofSockAddrNl then (LINUX_SOCKET_ERR_EINVAL, s)
      else if NetlinkAddressInUse s a Pid then (LINUX_SOCKET_ERR_EADDRINUSE, s)
      else case netlink_at s a of
        None \<Rightarrow> (LINUX_SOCKET_ERR_EINVAL, s)
      | Some k \<Rightarrow> (0, set_impl a (NetlinkImpl (k\<lparr>LocalPid := Pid, LocalGroups := Groups, KIsBound := True\<rparr>)) s))"

definition BindSocket ::
    "socket_manager \<Rightarrow> u8 option \<Rightarrow> int \<Rightarrow> u8 list option \<Rightarrow> bool \<Rightarrow> int \<times> socket_manager" where
  "BindSocket s Owner FileDescriptor SocketAddress NewPath =
     (case (Owner, SocketAddress) of
        (Some ow, Some addr) \<Rightarrow>
          if FileDescriptor < 0 \<or> length addr < LINUX_SOCKADDR_FAMILY_SIZE then (LINUX_SOCKET_ERR_EINVAL, s)
          else (case FindSocket s ow FileDescriptor of
                  None \<Rightarrow> (LINUX_SOCKET_ERR_ENOTSOCK, s)
                | Some a \<Rightarrow>
                    (let Dom = SDomain (socket_at s a)
                     in if \<not> FamilyMatches addr Dom then (LINUX_SOCKET_ERR_EAFNOSUPPORT, s)
                        else if Dom = LINUX_AF_INET then BindInet s a addr
                        else if Dom = LINUX_AF_UNIX then BindUnix s a addr NewPath
                        else if Dom = LINUX_AF_NETLINK then BindNetlink s a addr
                        else (LINUX_SOCKET_ERR_EAFNOSUPPORT, s)))
      | _ \<Rightarrow> (LINUX_SOCKET_ERR_EINVAL, s))"

section \<open>Listening\<close>

definition PortInUse :: "socket_manager \<Rightarrow> addr \<Rightarrow> nat \<Rightarrow> bool" where
  "PortInUse s a Port \<longleftrightarrow>
     (\<exists>c\<in>set (SocketList s). c \<noteq> a \<and> SDomain (socket_at s c) = LINUX_AF_INET \<and>
        (case inet_at s c of None \<Rightarrow> False | Some n \<Rightarrow> NIsBound n \<and> LocalPort n = Port))"

definition EphemeralPort :: "socket_manager \<Rightarrow> addr \<Rightarrow> nat option" where
  "EphemeralPort s a =
     List.find (\<lambda>p. \<not> PortInUse s a p) [LINUX_INET_EPHEMERAL_START ..< LINUX_INET_EPHEMERAL_END + 1]"

definition ListenInet :: "socket_manager \<Rightarrow> addr \<Rightarrow> int \<Rightarrow> int \<times> socket_manager" where
  "ListenInet s a Backlog =
     (case inet_at s a of
        None \<Rightarrow> (LINUX_SOCKET_ERR_EINVAL, s)
      | Some n \<Rightarrow>
          (let listen = (\<lambda>n. (0, set_impl a (InetImpl (n\<lparr>NIsListening := True, NListenBacklog := Backlog\<rparr>)) s))
           in if NIsBound n then listen n
              else case EphemeralPort s a of
                None \<Rightarrow> (LINUX_SOCKET_ERR_EADDRINUSE, s)
              | Some p \<Rightarrow> listen (n\<lparr>LocalIp := 0, LocalPort := p, NIsBound := True\<rparr>)))"

text \<open>\<open>NewQueue\<close> is whether a queue of another size could be allocated.\<close>

definition ListenUnix :: "socket_manager \<Rightarrow> addr \<Rightarrow> int \<Rightarrow> bool \<Rightarrow> int \<times> socket_manager" where
  "ListenUnix s a Backlog NewQueue =
     (case unix_at s a of
        None \<Rightarrow> (LINUX_SOCKET_ERR_EINVAL, s)
      | Some u \<Rightarrow>
          if \<not> IsBound u then (LINUX_SOCKET_ERR_EINVAL, s)
          else
            (let RequestedCapacity = nat Backlog;
                 listen = (\<lambda>u. (0, set_impl a (UnixImpl (u\<lparr>IsListening := True, ListenBacklog := Backlog\<rparr>)) s))
             in if RequestedCapacity = PendingConnectionCapacity u then listen u
                else if RequestedCapacity > 0 \<and> \<not> NewQueue then (LINUX_SOCKET_ERR_ENOMEM, s)
                else listen (u\<lparr>PendingConnections := take RequestedCapacity (PendingConnections u),
                               PendingConnectionCapacity := RequestedCapacity\<rparr>)))"

definition ListenSocket ::
    "socket_manager \<Rightarrow> u8 option \<Rightarrow> int \<Rightarrow> int \<Rightarrow> bool \<Rightarrow> int \<times> socket_manager" where
  "ListenSocket s Owner FileDescriptor Backlog NewQueue =
     (case Owner of
        None \<Rightarrow> (LINUX_SOCKET_ERR_EINVAL, s)
      | Some ow \<Rightarrow>
          if FileDescriptor < 0 then (LINUX_SOCKET_ERR_EINVAL, s)
          else (case FindSocket s ow FileDescriptor of
                  None \<Rightarrow> (LINUX_SOCKET_ERR_ENOTSOCK, s)
                | Some a \<Rightarrow>
                    (let k = socket_at s a;
                         b = (if Backlog < 0 then 0 else Backlog);
                         b1 = (if b > LINUX_LISTEN_SOMAXCONN then LINUX_LISTEN_SOMAXCONN else b)
                     in if \<not> IsStreamType (SType k) then (LINUX_SOCKET_ERR_EOPNOTSUPP, s)
                        else if SDomain k = LINUX_AF_INET then ListenInet s a b1
                        else if SDomain k = LINUX_AF_UNIX then ListenUnix s a b1 NewQueue
                        else if SDomain k = LINUX_AF_NETLINK then (LINUX_SOCKET_ERR_EOPNOTSUPP, s)
                        else (LINUX_SOCKET_ERR_EAFNOSUPPORT, s))))"

section \<open>Connecting and accepting\<close>

definition FindListening :: "socket_manager \<Rightarrow> u8 list \<Rightarrow> bool \<Rightarrow> ptr" where
  "FindListening s p Abstract =
     List.find (\<lambda>c. SDomain (socket_at s c) = LINUX_AF_UNIX \<and>
        (case unix_at s c of
           None \<Rightarrow> False
         | Some u \<Rightarrow> IsBound u \<and> IsListening u \<and>
             (case Path u of
                None \<Rightarrow> False
              | Some q \<Rightarrow> IsAbstract u = Abstract \<and> AreUnixPathsEqual q p Abstract))) (SocketList s)"

definition ConnectNetlink :: "socket_manager \<Rightarrow> addr \<Rightarrow> u8 list \<Rightarrow> int \<times> socket_manager" where
  "ConnectNetlink s c SocketAddress =
     (if length SocketAddress < SizeofSockAddrNl then (LINUX_SOCKET_ERR_EINVAL, s)
      else case netlink_at s c of
        None \<Rightarrow> (LINUX_SOCKET_ERR_EINVAL, s)
      | Some k \<Rightarrow>
          (0, set_impl c (NetlinkImpl (k\<lparr>RemotePid := le (take 4 (drop 4 SocketAddress)),
                                         RemoteGroups := le (take 4 (drop 8 SocketAddress))\<rparr>)) s))"

definition ConnectUnix :: "socket_manager \<Rightarrow> addr \<Rightarrow> u8 list \<Rightarrow> int \<times> socket_manager" where
  "ConnectUnix s c SocketAddress =
     (if length SocketAddress \<le> LINUX_SOCKADDR_FAMILY_SIZE then (LINUX_SOCKET_ERR_EINVAL, s)
      else if length SocketAddress > SizeofSockAddrUn then (LINUX_SOCKET_ERR_ENAMETOOLONG, s)
      else case unix_at s c of
        None \<Rightarrow> (LINUX_SOCKET_ERR_EINVAL, s)
      | Some u \<Rightarrow>
          if ConnectedPeer u \<noteq> None then (LINUX_SOCKET_ERR_EISCONN, s)
          else (case UnixAddressPath SocketAddress of (p, Abstract) \<Rightarrow>
            if p = [] then (LINUX_SOCKET_ERR_EINVAL, s)
            else (case FindListening s p Abstract of
                    None \<Rightarrow> (LINUX_SOCKET_ERR_ECONNREFUSED, s)
                  | Some l \<Rightarrow>
                      (let v = the (unix_at s l)
                       in if length (PendingConnections v) \<ge> PendingConnectionCapacity v
                          then (LINUX_SOCKET_ERR_EAGAIN, s)
                          else (0, on_unix c (\<lambda>u. u\<lparr>ConnectedPeer := Some l\<rparr>)
                                 (on_unix l (\<lambda>v. v\<lparr>PendingConnections := PendingConnections v @ [c]\<rparr>) s))))))"

definition ConnectSocket ::
    "socket_manager \<Rightarrow> u8 option \<Rightarrow> int \<Rightarrow> u8 list option \<Rightarrow> int \<times> socket_manager" where
  "ConnectSocket s Owner FileDescriptor SocketAddress =
     (case (Owner, SocketAddress) of
        (Some ow, Some addr) \<Rightarrow>
          if FileDescriptor < 0 \<or> length addr < LINUX_SOCKADDR_FAMILY_SIZE then (LINUX_SOCKET_ERR_EINVAL, s)
          else (case FindSocket s ow FileDescriptor of
                  None \<Rightarrow> (LINUX_SOCKET_ERR_ENOTSOCK, s)
                | Some c \<Rightarrow>
                    (let k = socket_at s c
                     in if SDomain k \<noteq> LINUX_AF_NETLINK \<and> \<not> IsStreamType (SType k)
                        then (LINUX_SOCKET_ERR_EOPNOTSUPP, s)
                        else if \<not> FamilyMatches addr (SDomain k) then (LINUX_SOCKET_ERR_EAFNOSUPPORT, s)
                        else if SDomain k = LINUX_AF_NETLINK then ConnectNetlink s c addr
                        else if SDomain k \<noteq> LINUX_AF_UNIX then (LINUX_SOCKET_ERR_EAFNOSUPPORT, s)
                        else ConnectUnix s c addr))
      | _ \<Rightarrow> (LINUX_SOCKET_ERR_EINVAL, s))"

section \<open>Closing\<close>

definition RemovePendingConnectionFromUnixQueue :: "unix_socket \<Rightarrow> addr \<Rightarrow> unix_socket" where
  "RemovePendingConnectionFromUnixQueue u Target =
     u\<lparr>PendingConnections := filter (\<lambda>Entry. Entry \<noteq> Target) (PendingConnections u)\<rparr>"

definition IsSocketTracked :: "socket_manager \<Rightarrow> addr \<Rightarrow> bool" where
  "IsSocketTracked s a \<longleftrightarrow> a \<in> set (SocketList s)"

text \<open>\<open>delete\<close> of the socket, with its implementation, path, queue and buffer.\<close>

definition DestroySocket :: "addr \<Rightarrow> socket_manager \<Rightarrow> socket_manager" where
  "DestroySocket a s = s\<lparr>Sockets := (Sockets s)(a := None)\<rparr>"

definition ClearPeer :: "addr \<Rightarrow> unix_socket \<Rightarrow> unix_socket" where
  "ClearPeer a u = (if ConnectedPeer u = Some a then u\<lparr>ConnectedPeer := None\<rparr> else u)"

text \<open>The loop over the other sockets, and the loop over the closing socket's pending clients.\<close>

definition DetachOther :: "addr \<Rightarrow> addr \<Rightarrow> socket_manager \<Rightarrow> socket_manager" where
  "DetachOther a c s =
     (if c = a \<or> SDomain (socket_at s c) \<noteq> LINUX_AF_UNIX then s
      else on_unix c (\<lambda>u. RemovePendingConnectionFromUnixQueue (ClearPeer a u) a) s)"

definition DetachPending :: "addr \<Rightarrow> addr \<Rightarrow> socket_manager \<Rightarrow> socket_manager" where
  "DetachPending a p s = (if SDomain (socket_at s p) \<noteq> LINUX_AF_UNIX then s else on_unix p (ClearPeer a) s)"

definition DetachAll :: "addr \<Rightarrow> socket_manager \<Rightarrow> socket_manager" where
  "DetachAll a s =
     (let s1 = fold (DetachOther a) (SocketList s) s
      in if SDomain (socket_at s1 a) = LINUX_AF_UNIX then
           (case unix_at s1 a of None \<Rightarrow> s1 | Some u \<Rightarrow> fold (DetachPending a) (PendingConnections u) s1)
         else s1)"

text \<open>
  \<open>Files\<close> is the owner's file table: the \<open>NodeData\<close> of the node of each open descriptor. The result
  says whether the socket was destroyed.
\<close>

definition AlternateDescriptor :: "(nat \<Rightarrow> ptr) \<Rightarrow> int \<Rightarrow> addr \<Rightarrow> nat option" where
  "AlternateDescriptor Files fd a =
     List.find (\<lambda>d. int d \<noteq> fd \<and> Files d = Some a) [0..<MAX_OPEN_FILES_PER_PROCESS]"

definition CloseSocket ::
    "socket_manager \<Rightarrow> u8 option \<Rightarrow> (nat \<Rightarrow> ptr) \<Rightarrow> int \<Rightarrow> bool \<times> socket_manager" where
  "CloseSocket s Owner Files FileDescriptor =
     (case Owner of
        None \<Rightarrow> (False, s)
      | Some ow \<Rightarrow>
          if FileDescriptor < 0 then (False, s)
          else (case FindSocket s ow FileDescriptor of
                  None \<Rightarrow> (False, s)
                | Some a \<Rightarrow>
                    (case AlternateDescriptor Files FileDescriptor a of
                       Some d \<Rightarrow> (False, set_socket a ((socket_at s a)\<lparr>SFileDescriptor := int d\<rparr>) s)
                     | None \<Rightarrow>
                         (let s1 = DestroySocket a (DetachAll a s)
                          in (True, s1\<lparr>SocketList := remove_first (\<lambda>x. x = a) (SocketList s1)\<rparr>)))))"

text \<open>The destructor destroys every socket, the last one first.\<close>

definition CloseAllSockets :: "socket_manager \<Rightarrow> socket_manager" where
  "CloseAllSockets s = fold DestroySocket (rev (SocketList s)) (s\<lparr>SocketList := []\<rparr>)"

definition GetSocketCount :: "socket_manager \<Rightarrow> nat" where
  "GetSocketCount s = length (SocketList s)"

section \<open>Accepting\<close>

fun PopTracked :: "socket_manager \<Rightarrow> addr list \<Rightarrow> ptr \<times> addr list" where
  "PopTracked s [] = (None, [])"
| "PopTracked s (p # ps) = (if IsSocketTracked s p then (Some p, ps) else PopTracked s ps)"

definition AcceptSocket ::
    "socket_manager \<Rightarrow> u8 option \<Rightarrow> int \<Rightarrow> u8 option \<Rightarrow> (nat \<Rightarrow> ptr) \<Rightarrow> int \<Rightarrow> ptr \<Rightarrow> bool \<Rightarrow> u8 list option \<Rightarrow>
     (int + addr) \<times> socket_manager" where
  "AcceptSocket s Owner FileDescriptor AcceptedOwner AcceptedFiles AcceptedFileDescriptor
       NewSocket NewImpl NewBuffer =
     (case (Owner, AcceptedOwner) of
        (Some ow, Some aw) \<Rightarrow>
          if FileDescriptor < 0 \<or> AcceptedFileDescriptor < 0 then (Inl LINUX_SOCKET_ERR_EINVAL, s)
          else (case FindSocket s ow FileDescriptor of
            None \<Rightarrow> (Inl LINUX_SOCKET_ERR_ENOTSOCK, s)
          | Some l \<Rightarrow>
              (let k = socket_at s l
               in if SDomain k \<noteq> LINUX_AF_UNIX then (Inl LINUX_SOCKET_ERR_EAFNOSUPPORT, s)
               else case unix_at s l of
                 None \<Rightarrow> (Inl LINUX_SOCKET_ERR_EINVAL, s)
               | Some v \<Rightarrow>
                   if \<not> IsListening v then (Inl LINUX_SOCKET_ERR_EINVAL, s)
                   else (case PopTracked s (PendingConnections v) of (client, rest) \<Rightarrow>
                     (let s1 = set_impl l (UnixImpl (v\<lparr>PendingConnections := rest\<rparr>)) s
                      in case client of
                        None \<Rightarrow> (Inl LINUX_SOCKET_ERR_EAGAIN, s1)
                      | Some c \<Rightarrow>
                          (case CreateSocket s1 (SDomain k) (SType k) (SProtocol k) AcceptedOwner
                                  AcceptedFileDescriptor NewSocket NewImpl NewBuffer of
                             (Inl e, s2) \<Rightarrow> (Inl (if e \<noteq> 0 then e else LINUX_SOCKET_ERR_ENOMEM), s2)
                           | (Inr a, s2) \<Rightarrow>
                               if unix_at s2 a = None \<or> unix_at s2 c = None
                               then (Inl LINUX_SOCKET_ERR_EINVAL,
                                     snd (CloseSocket s2 AcceptedOwner AcceptedFiles AcceptedFileDescriptor))
                               else (Inr a, on_unix c (\<lambda>u. u\<lparr>ConnectedPeer := Some a\<rparr>)
                                              (on_unix a (\<lambda>u. u\<lparr>ConnectedPeer := Some c\<rparr>) s2)))))))
      | _ \<Rightarrow> (Inl LINUX_SOCKET_ERR_EINVAL, s))"

section \<open>Shutting down\<close>

definition ShutdownSocket :: "socket_manager \<Rightarrow> u8 option \<Rightarrow> int \<Rightarrow> int \<Rightarrow> int \<times> socket_manager" where
  "ShutdownSocket s Owner FileDescriptor How =
     (case Owner of
        None \<Rightarrow> (LINUX_SOCKET_ERR_EINVAL, s)
      | Some ow \<Rightarrow>
          if FileDescriptor < 0 then (LINUX_SOCKET_ERR_EINVAL, s)
          else if How \<noteq> LINUX_SHUT_RD \<and> How \<noteq> LINUX_SHUT_WR \<and> How \<noteq> LINUX_SHUT_RDWR
          then (LINUX_SOCKET_ERR_EINVAL, s)
          else (case FindSocket s ow FileDescriptor of
            None \<Rightarrow> (LINUX_SOCKET_ERR_ENOTSOCK, s)
          | Some a \<Rightarrow>
              (let k = socket_at s a;
                   rd = (How = LINUX_SHUT_RD \<or> How = LINUX_SHUT_RDWR);
                   wr = (How = LINUX_SHUT_WR \<or> How = LINUX_SHUT_RDWR)
               in if SDomain k = LINUX_AF_UNIX then
                    (case unix_at s a of
                       None \<Rightarrow> (LINUX_SOCKET_ERR_EINVAL, s)
                     | Some u \<Rightarrow>
                         if IsStreamType (SType k) \<and> ConnectedPeer u = None then (LINUX_SOCKET_ERR_ENOTCONN, s)
                         else (0, set_impl a (UnixImpl (u\<lparr>IsShutdownRead := IsShutdownRead u \<or> rd,
                                                           IsShutdownWrite := IsShutdownWrite u \<or> wr\<rparr>)) s))
                  else if SDomain k = LINUX_AF_INET then
                    (case inet_at s a of
                       None \<Rightarrow> (LINUX_SOCKET_ERR_EINVAL, s)
                     | Some n \<Rightarrow>
                         if IsStreamType (SType k) \<and> \<not> (RemoteIp n \<noteq> 0 \<or> RemotePort n \<noteq> 0)
                         then (LINUX_SOCKET_ERR_ENOTCONN, s)
                         else (0, set_impl a (InetImpl (n\<lparr>NIsShutdownRead := NIsShutdownRead n \<or> rd,
                                                           NIsShutdownWrite := NIsShutdownWrite n \<or> wr\<rparr>)) s))
                  else if SDomain k = LINUX_AF_NETLINK then
                    (case netlink_at s a of
                       None \<Rightarrow> (LINUX_SOCKET_ERR_EINVAL, s)
                     | Some n \<Rightarrow> (0, set_impl a (NetlinkImpl (n\<lparr>KIsShutdownRead := KIsShutdownRead n \<or> rd,
                                                                 KIsShutdownWrite := KIsShutdownWrite n \<or> wr\<rparr>)) s))
                  else (LINUX_SOCKET_ERR_EAFNOSUPPORT, s))))"

section \<open>The file operations\<close>

text \<open>\<open>Nodes\<close> are the live \<open>INode\<close>s; the socket of a file is the \<open>NodeData\<close> of its node.\<close>

definition GetSocketFromOpenFile :: "(addr \<Rightarrow> pipe_node option) \<Rightarrow> open_file option \<Rightarrow> ptr" where
  "GetSocketFromOpenFile Nodes OpenFile =
     (case OpenFile of
        None \<Rightarrow> None
      | Some f \<Rightarrow> (case FNode f of None \<Rightarrow> None | Some n \<Rightarrow> NodeData (the (Nodes n))))"

definition IsConnectedUnixStreamSocket :: "socket \<Rightarrow> unix_socket \<Rightarrow> bool" where
  "IsConnectedUnixStreamSocket k u \<longleftrightarrow>
     SDomain k = LINUX_AF_UNIX \<and> IsStreamType (SType k) \<and> ConnectedPeer u \<noteq> None"

definition ReadFromUnixReceiveBuffer :: "unix_socket \<Rightarrow> bool \<Rightarrow> nat \<Rightarrow> (int \<times> u8 list) \<times> unix_socket" where
  "ReadFromUnixReceiveBuffer u BufferGiven Count =
     (if \<not> BufferGiven \<and> Count \<noteq> 0 then ((LINUX_SOCKET_ERR_EINVAL, []), u)
      else if Count = 0 then ((0, []), u)
      else case ReceiveBuffer u of
        None \<Rightarrow> ((LINUX_SOCKET_ERR_EBADF, []), u)
      | Some buf \<Rightarrow>
          if ReceiveBufferCapacity u = 0 then ((LINUX_SOCKET_ERR_EBADF, []), u)
          else if ReceiveBufferedBytes u = 0 then ((0, []), u)
          else
            (let BytesToRead = (if Count < ReceiveBufferedBytes u then Count else ReceiveBufferedBytes u);
                 (bytes, off) = ring_read (ReceiveBufferCapacity u) buf (ReceiveReadOffset u) BytesToRead
             in ((int BytesToRead, bytes),
                 u\<lparr>ReceiveReadOffset := off, ReceiveBufferedBytes := ReceiveBufferedBytes u - BytesToRead\<rparr>)))"

text \<open>The transfer into the peer's receive buffer, once the peer is known to take it.\<close>

definition AppendToReceiveBuffer :: "unix_socket \<Rightarrow> u8 list \<Rightarrow> int \<times> unix_socket" where
  "AppendToReceiveBuffer v Bytes =
     (case ReceiveBuffer v of
        None \<Rightarrow> (LINUX_SOCKET_ERR_EBADF, v)
      | Some buf \<Rightarrow>
          if ReceiveBufferCapacity v = 0 then (LINUX_SOCKET_ERR_EBADF, v)
          else if ReceiveBufferedBytes v \<ge> ReceiveBufferCapacity v then (LINUX_SOCKET_ERR_EAGAIN, v)
          else
            (let AvailableSpace = ReceiveBufferCapacity v - ReceiveBufferedBytes v;
                 BytesToWrite = (if length Bytes < AvailableSpace then length Bytes else AvailableSpace);
                 (buf', off) = ring_write (ReceiveBufferCapacity v) buf (ReceiveWriteOffset v) (take BytesToWrite Bytes)
             in (int BytesToWrite,
                 v\<lparr>ReceiveBuffer := Some buf', ReceiveWriteOffset := off,
                   ReceiveBufferedBytes := ReceiveBufferedBytes v + BytesToWrite\<rparr>)))"

definition WriteToUnixPeerBuffer ::
    "socket_manager \<Rightarrow> addr \<Rightarrow> unix_socket \<Rightarrow> bool \<Rightarrow> u8 list \<Rightarrow> int \<times> socket_manager" where
  "WriteToUnixPeerBuffer s a u BufferGiven Bytes =
     (if \<not> BufferGiven \<and> Bytes \<noteq> [] then (LINUX_SOCKET_ERR_EINVAL, s)
      else if Bytes = [] then (0, s)
      else if \<not> IsConnectedUnixStreamSocket (socket_at s a) u then (LINUX_SOCKET_ERR_ENOTCONN, s)
      else case ConnectedPeer u of
        None \<Rightarrow> (LINUX_SOCKET_ERR_ENOTCONN, s)
      | Some b \<Rightarrow>
          if SDomain (socket_at s b) \<noteq> LINUX_AF_UNIX then (LINUX_SOCKET_ERR_ENOTCONN, s)
          else (case unix_at s b of
                  None \<Rightarrow> (LINUX_SOCKET_ERR_ENOTCONN, s)
                | Some v \<Rightarrow>
                    if IsShutdownRead v then (LINUX_SOCKET_ERR_EPIPE, s)
                    else (case AppendToReceiveBuffer v Bytes of (r, v') \<Rightarrow> (r, set_impl b (UnixImpl v') s))))"

text \<open>What an empty receive buffer reads as: by the peer.\<close>

definition EmptyRead :: "socket_manager \<Rightarrow> unix_socket \<Rightarrow> int" where
  "EmptyRead s u =
     (case ConnectedPeer u of
        None \<Rightarrow> 0
      | Some b \<Rightarrow>
          if SDomain (socket_at s b) \<noteq> LINUX_AF_UNIX then 0
          else (case unix_at s b of
                  None \<Rightarrow> 0
                | Some v \<Rightarrow> if IsShutdownWrite v then 0 else LINUX_SOCKET_ERR_EAGAIN))"

definition SocketRead ::
    "(addr \<Rightarrow> pipe_node option) \<Rightarrow> socket_manager \<Rightarrow> open_file option \<Rightarrow> bool \<Rightarrow> nat \<Rightarrow>
     (int \<times> u8 list) \<times> socket_manager" where
  "SocketRead Nodes s OpenFile BufferGiven Count =
     (case GetSocketFromOpenFile Nodes OpenFile of
        None \<Rightarrow> ((LINUX_SOCKET_ERR_EBADF, []), s)
      | Some a \<Rightarrow>
          if \<not> BufferGiven \<and> Count \<noteq> 0 then ((LINUX_SOCKET_ERR_EINVAL, []), s)
          else if Count = 0 then ((0, []), s)
          else if SDomain (socket_at s a) = LINUX_AF_UNIX then
            (case unix_at s a of
               None \<Rightarrow> ((LINUX_SOCKET_ERR_EBADF, []), s)
             | Some u \<Rightarrow>
                 if IsShutdownRead u then ((0, []), s)
                 else if IsListening u then ((LINUX_SOCKET_ERR_EAGAIN, []), s)
                 else if IsStreamType (SType (socket_at s a)) then
                   (case ReadFromUnixReceiveBuffer u BufferGiven Count of
                      ((r, bytes), u') \<Rightarrow>
                        if r > 0 then ((r, bytes), set_impl a (UnixImpl u') s)
                        else ((EmptyRead s u, []), s))
                 else ((LINUX_SOCKET_ERR_ENOTCONN, []), s))
          else if SDomain (socket_at s a) = LINUX_AF_INET then
            (case inet_at s a of
               None \<Rightarrow> ((LINUX_SOCKET_ERR_EBADF, []), s)
             | Some n \<Rightarrow> ((if NIsShutdownRead n then 0 else LINUX_SOCKET_ERR_EBADF, []), s))
          else if SDomain (socket_at s a) = LINUX_AF_NETLINK then ((LINUX_SOCKET_ERR_EAGAIN, []), s)
          else ((LINUX_SOCKET_ERR_EBADF, []), s))"

text \<open>Whether the connection still waits in the queue of a listening peer.\<close>

definition PeerIsListening :: "socket_manager \<Rightarrow> unix_socket \<Rightarrow> bool" where
  "PeerIsListening s u \<longleftrightarrow>
     (case ConnectedPeer u of
        None \<Rightarrow> False
      | Some b \<Rightarrow> SDomain (socket_at s b) = LINUX_AF_UNIX \<and>
                 (case unix_at s b of None \<Rightarrow> False | Some v \<Rightarrow> IsListening v))"

definition SocketWrite ::
    "(addr \<Rightarrow> pipe_node option) \<Rightarrow> socket_manager \<Rightarrow> open_file option \<Rightarrow> bool \<Rightarrow> u8 list \<Rightarrow>
     int \<times> socket_manager" where
  "SocketWrite Nodes s OpenFile BufferGiven Bytes =
     (case GetSocketFromOpenFile Nodes OpenFile of
        None \<Rightarrow> (LINUX_SOCKET_ERR_EBADF, s)
      | Some a \<Rightarrow>
          if \<not> BufferGiven \<and> Bytes \<noteq> [] then (LINUX_SOCKET_ERR_EINVAL, s)
          else if Bytes = [] then (0, s)
          else if SDomain (socket_at s a) = LINUX_AF_UNIX then
            (case unix_at s a of
               None \<Rightarrow> (LINUX_SOCKET_ERR_EBADF, s)
             | Some u \<Rightarrow>
                 if IsShutdownWrite u then (LINUX_SOCKET_ERR_EPIPE, s)
                 else if \<not> IsListening u \<and> IsStreamType (SType (socket_at s a)) then
                   (if PeerIsListening s u then (LINUX_SOCKET_ERR_EAGAIN, s)
                    else WriteToUnixPeerBuffer s a u BufferGiven Bytes)
                 else (LINUX_SOCKET_ERR_EBADF, s))
          else if SDomain (socket_at s a) = LINUX_AF_INET then
            (case inet_at s a of
               None \<Rightarrow> (LINUX_SOCKET_ERR_EBADF, s)
             | Some n \<Rightarrow> (if NIsShutdownWrite n then LINUX_SOCKET_ERR_EPIPE else LINUX_SOCKET_ERR_EBADF, s))
          else (LINUX_SOCKET_ERR_EBADF, s))"

definition SocketSeek :: int where "SocketSeek = LINUX_SOCKET_ERR_EBADF"
definition SocketMemoryMap :: int where "SocketMemoryMap = LINUX_SOCKET_ERR_EBADF"
definition SocketIoctl :: int where "SocketIoctl = LINUX_SOCKET_ERR_EBADF"

definition PeerImplementation :: "socket_manager \<Rightarrow> unix_socket \<Rightarrow> unix_socket option" where
  "PeerImplementation s u =
     (case ConnectedPeer u of
        None \<Rightarrow> None
      | Some b \<Rightarrow> if SDomain (socket_at s b) = LINUX_AF_UNIX then unix_at s b else None)"

definition UnixPollIn :: "socket_manager \<Rightarrow> unix_socket \<Rightarrow> u32" where
  "UnixPollIn s u =
     (if IsListening u then (if PendingConnections u \<noteq> [] then LINUX_POLLIN else 0)
      else if ReceiveBufferedBytes u > 0 then LINUX_POLLIN
      else if IsShutdownRead u then LINUX_POLLHUP
      else (case PeerImplementation s u of
              None \<Rightarrow> LINUX_POLLHUP
            | Some v \<Rightarrow> if IsShutdownWrite v then LINUX_POLLHUP else 0))"

definition UnixPollOut :: "socket_manager \<Rightarrow> unix_socket \<Rightarrow> u32" where
  "UnixPollOut s u =
     (if IsShutdownWrite u then LINUX_POLLERR
      else (case PeerImplementation s u of
              None \<Rightarrow> LINUX_POLLERR OR LINUX_POLLHUP
            | Some v \<Rightarrow>
                if IsListening v then 0
                else if \<not> IsShutdownRead v \<and> ReceiveBufferedBytes v < ReceiveBufferCapacity v then LINUX_POLLOUT
                else if IsShutdownRead v then LINUX_POLLERR OR LINUX_POLLHUP
                else 0))"

text \<open>The events \<open>SocketPoll\<close> returns through \<open>ReturnedEvents\<close>; its result is 0.\<close>

definition SocketPoll ::
    "(addr \<Rightarrow> pipe_node option) \<Rightarrow> socket_manager \<Rightarrow> open_file option \<Rightarrow> u32 \<Rightarrow> u32" where
  "SocketPoll Nodes s OpenFile RequestedEvents =
     (case GetSocketFromOpenFile Nodes OpenFile of
        None \<Rightarrow> LINUX_POLLERR
      | Some a \<Rightarrow>
          if SDomain (socket_at s a) = LINUX_AF_UNIX then
            (case unix_at s a of
               None \<Rightarrow> LINUX_POLLERR
             | Some u \<Rightarrow>
                 (if RequestedEvents AND LINUX_POLLIN \<noteq> 0 then UnixPollIn s u else 0) OR
                 (if RequestedEvents AND LINUX_POLLOUT \<noteq> 0 then UnixPollOut s u else 0))
          else if SDomain (socket_at s a) = LINUX_AF_NETLINK then 0
          else RequestedEvents)"

end
