(* ===== verification/Socket_Connections.thy ===== *)
theory Socket_Connections imports Socket_Manager begin

text \<open>
  What the socket operations keep: the pointers between Unix sockets (\<open>conn_inv\<close>), the addresses they
  are bound to (\<open>no_conflicts\<close>) and the list of tracked sockets (\<open>sockets_ok\<close>), for every operation and so
  for every run (\<open>socket_step\<close>); and that the two ends of a connection are a \<open>byte_channel\<close>.
\<close>

unbundle bit_operations_syntax

section \<open>The connections\<close>

text \<open>
  The Unix sockets as a map from addresses, and what the pointers between them satisfy: a peer is a
  live Unix socket that points back or listens, a pending connection is a live client whose peer is
  the listener it waits for, once, within the capacity.
\<close>

definition unix_sock :: "socket_manager \<Rightarrow> addr \<Rightarrow> unix_socket option" where
  "unix_sock s a =
     (case Sockets s a of
        None \<Rightarrow> None
      | Some k \<Rightarrow> (case SImpl k of Some (UnixImpl u) \<Rightarrow> Some u | _ \<Rightarrow> None))"

definition unix_ring_ok :: "unix_socket \<Rightarrow> bool" where
  "unix_ring_ok u \<longleftrightarrow>
     (\<exists>buf. ReceiveBuffer u = Some buf \<and>
        ring_ok (ReceiveBufferCapacity u) buf (ReceiveReadOffset u) (ReceiveWriteOffset u) (ReceiveBufferedBytes u)) \<and>
     ReceiveBufferCapacity u = LINUX_UNIX_SOCKET_BUFFER_CAPACITY"

definition peer_ok :: "(addr \<Rightarrow> unix_socket option) \<Rightarrow> addr \<Rightarrow> unix_socket \<Rightarrow> bool" where
  "peer_ok U a u \<longleftrightarrow>
     (\<forall>b. ConnectedPeer u = Some b \<longrightarrow> (\<exists>v. U b = Some v \<and> (ConnectedPeer v = Some a \<or> IsListening v)))"

definition pending_ok :: "(addr \<Rightarrow> unix_socket option) \<Rightarrow> addr \<Rightarrow> unix_socket \<Rightarrow> bool" where
  "pending_ok U a u \<longleftrightarrow>
     (\<forall>p\<in>set (PendingConnections u).
        \<exists>v. U p = Some v \<and> ConnectedPeer v = Some a \<and> (ConnectedPeer u = Some p \<longrightarrow> IsListening v)) \<and>
     distinct (PendingConnections u) \<and> length (PendingConnections u) \<le> PendingConnectionCapacity u \<and>
     (PendingConnections u \<noteq> [] \<longrightarrow> IsListening u)"

definition conn_inv :: "(addr \<Rightarrow> unix_socket option) \<Rightarrow> bool" where
  "conn_inv U \<longleftrightarrow> (\<forall>a u. U a = Some u \<longrightarrow> peer_ok U a u \<and> pending_ok U a u \<and> unix_ring_ok u)"

lemma conn_invD:
  "conn_inv U \<Longrightarrow> U a = Some u \<Longrightarrow> peer_ok U a u \<and> pending_ok U a u \<and> unix_ring_ok u"
  by (simp add: conn_inv_def)

lemma conn_peerD:
  "conn_inv U \<Longrightarrow> U a = Some u \<Longrightarrow> ConnectedPeer u = Some b \<Longrightarrow>
   \<exists>v. U b = Some v \<and> (ConnectedPeer v = Some a \<or> IsListening v)"
  using conn_invD [of U a u] by (simp add: peer_ok_def)

lemma conn_pendingD:
  "conn_inv U \<Longrightarrow> U a = Some u \<Longrightarrow> p \<in> set (PendingConnections u) \<Longrightarrow>
   \<exists>v. U p = Some v \<and> ConnectedPeer v = Some a \<and> (ConnectedPeer u = Some p \<longrightarrow> IsListening v)"
  using conn_invD [of U a u] by (simp add: pending_ok_def)

lemma unix_ring_ok_update [simp]:
  "unix_ring_ok (u\<lparr>ConnectedPeer := p\<rparr>) = unix_ring_ok u"
  "unix_ring_ok (u\<lparr>PendingConnections := ps\<rparr>) = unix_ring_ok u"
  "unix_ring_ok (u\<lparr>PendingConnectionCapacity := n\<rparr>) = unix_ring_ok u"
  "unix_ring_ok (u\<lparr>IsListening := b\<rparr>) = unix_ring_ok u"
  "unix_ring_ok (u\<lparr>ListenBacklog := i\<rparr>) = unix_ring_ok u"
  "unix_ring_ok (u\<lparr>Path := q\<rparr>) = unix_ring_ok u"
  "unix_ring_ok (u\<lparr>IsAbstract := b\<rparr>) = unix_ring_ok u"
  "unix_ring_ok (u\<lparr>IsBound := b\<rparr>) = unix_ring_ok u"
  "unix_ring_ok (u\<lparr>IsShutdownRead := b\<rparr>) = unix_ring_ok u"
  "unix_ring_ok (u\<lparr>IsShutdownWrite := b\<rparr>) = unix_ring_ok u"
  by (simp_all add: unix_ring_ok_def)

text \<open>One socket changes, but not whom it is connected to; its queue may lose entries.\<close>

lemma conn_inv_local:
  assumes inv: "conn_inv U" and u: "U a = Some u"
    and peer: "ConnectedPeer u' = ConnectedPeer u"
    and pend: "set (PendingConnections u') \<subseteq> set (PendingConnections u)" "distinct (PendingConnections u')"
      "length (PendingConnections u') \<le> PendingConnectionCapacity u'"
    and lis: "IsListening u \<Longrightarrow> IsListening u'" and ring: "unix_ring_ok u'"
  shows "conn_inv (U(a \<mapsto> u'))"
proof -
  have p: "peer_ok (U(a \<mapsto> u')) c w \<and> pending_ok (U(a \<mapsto> u')) c w \<and> unix_ring_ok w"
    if w: "(U(a \<mapsto> u')) c = Some w" for c w
  proof (cases "c = a")
    case True
    with w have w': "w = u'" by simp
    have "peer_ok (U(a \<mapsto> u')) a u'"
      using conn_invD [OF inv u] u peer lis unfolding peer_ok_def by auto
    moreover have "pending_ok (U(a \<mapsto> u')) a u'"
      using conn_invD [OF inv u] u peer lis pend unfolding pending_ok_def by fastforce
    ultimately show ?thesis using True w' ring by simp
  next
    case False
    with w have c: "U c = Some w" by simp
    have "peer_ok (U(a \<mapsto> u')) c w"
      using conn_invD [OF inv c] u peer lis unfolding peer_ok_def by auto
    moreover have "pending_ok (U(a \<mapsto> u')) c w"
      using conn_invD [OF inv c] u peer lis unfolding pending_ok_def by fastforce
    ultimately show ?thesis using conn_invD [OF inv c] by simp
  qed
  then show ?thesis by (simp add: conn_inv_def)
qed

lemma conn_inv_new:
  assumes inv: "conn_inv U" and fresh: "U a = None"
    and u: "ConnectedPeer u = None" "PendingConnections u = []" "unix_ring_ok u"
  shows "conn_inv (U(a \<mapsto> u))"
proof -
  have "peer_ok (U(a \<mapsto> u)) c w \<and> pending_ok (U(a \<mapsto> u)) c w \<and> unix_ring_ok w"
    if w: "(U(a \<mapsto> u)) c = Some w" for c w
  proof (cases "c = a")
    case True
    with w u show ?thesis by (simp add: peer_ok_def pending_ok_def)
  next
    case False
    with w have c: "U c = Some w" by simp
    note i = conn_invD [OF inv c]
    have "peer_ok (U(a \<mapsto> u)) c w" using i fresh unfolding peer_ok_def by auto
    moreover have "pending_ok (U(a \<mapsto> u)) c w" using i fresh unfolding pending_ok_def by fastforce
    ultimately show ?thesis using i by simp
  qed
  then show ?thesis by (simp add: conn_inv_def)
qed

text \<open>A client without a peer joins the queue of a listener.\<close>

lemma conn_inv_connect:
  assumes inv: "conn_inv U" and l: "U l = Some v" "IsListening v"
    and room: "length (PendingConnections v) < PendingConnectionCapacity v"
    and c: "U c = Some u" "ConnectedPeer u = None"
    and v': "v' = v\<lparr>PendingConnections := PendingConnections v @ [c]\<rparr>"
    and u': "u' = (if c = l then v' else u)\<lparr>ConnectedPeer := Some l\<rparr>"
  shows "conn_inv (U(l \<mapsto> v', c \<mapsto> u'))"
proof -
  let ?U = "U(l \<mapsto> v', c \<mapsto> u')"
  have nc: "c \<notin> set (PendingConnections w)" if "U d = Some w" for d w
    using conn_pendingD [OF inv that] c by fastforce
  have nb: "\<And>d w. U d = Some w \<Longrightarrow> ConnectedPeer w = Some c \<Longrightarrow> IsListening u"
    using conn_peerD [OF inv] c by fastforce
  have peer: "peer_ok ?U d w" if w: "?U d = Some w" for d w
  proof (cases "d = c")
    case True
    with w have "w = u'" by simp
    with l show ?thesis by (simp add: peer_ok_def u' v' True)
  next
    case False
    with w obtain w0 where w0: "U d = Some w0" "ConnectedPeer w = ConnectedPeer w0"
      using l by (auto simp: v' split: if_splits)
    show ?thesis unfolding peer_ok_def
    proof (intro allI impI)
      fix b assume b: "ConnectedPeer w = Some b"
      with w0 have b0: "ConnectedPeer w0 = Some b" by simp
      obtain z where z: "U b = Some z" "ConnectedPeer z = Some d \<or> IsListening z"
        using conn_peerD [OF inv w0(1) b0] by blast
      show "\<exists>y. ?U b = Some y \<and> (ConnectedPeer y = Some d \<or> IsListening y)"
        using z l c nb [OF w0(1)] b0 by (auto simp: u' v')
    qed
  qed
  have pend: "pending_ok ?U d w" if w: "?U d = Some w" for d w
  proof -
    obtain w0 where w0: "U d = Some w0" "IsListening w = IsListening w0"
      "PendingConnectionCapacity w = PendingConnectionCapacity w0"
      "PendingConnections w = (if d = l then PendingConnections w0 @ [c] else PendingConnections w0)"
      "ConnectedPeer w = (if d = c then Some l else ConnectedPeer w0)"
      using w l c by (auto simp: u' v' split: if_splits)
    note i = conn_invD [OF inv w0(1)]
    have old: "\<exists>y. ?U p = Some y \<and> ConnectedPeer y = Some d \<and> (ConnectedPeer w = Some p \<longrightarrow> IsListening y)"
      if p: "p \<in> set (PendingConnections w0)" for p
    proof -
      obtain y where y: "U p = Some y" "ConnectedPeer y = Some d" "ConnectedPeer w0 = Some p \<longrightarrow> IsListening y"
        using conn_pendingD [OF inv w0(1) p] by blast
      have "p \<noteq> c" using nc [OF w0(1)] p by auto
      with y l w0(5) show ?thesis by (auto simp: v')
    qed
    have new: "\<exists>y. ?U c = Some y \<and> ConnectedPeer y = Some d \<and> (ConnectedPeer w = Some c \<longrightarrow> IsListening y)" if "d = l"
    proof -
      have "ConnectedPeer w = Some c \<longrightarrow> IsListening u'"
      proof
        assume a: "ConnectedPeer w = Some c"
        show "IsListening u'"
        proof (cases "c = l")
          case True with l show ?thesis by (simp add: u' v')
        next
          case False
          with a w0(5) that have "ConnectedPeer w0 = Some c" by simp
          from nb [OF w0(1) this] False show ?thesis by (simp add: u')
        qed
      qed
      then show ?thesis using that by (simp add: u')
    qed
    have "\<forall>p\<in>set (PendingConnections w).
        \<exists>y. ?U p = Some y \<and> ConnectedPeer y = Some d \<and> (ConnectedPeer w = Some p \<longrightarrow> IsListening y)"
    proof
      fix p assume "p \<in> set (PendingConnections w)"
      then consider "p \<in> set (PendingConnections w0)" | "p = c" "d = l" by (auto simp: w0(4) split: if_splits)
      then show "\<exists>y. ?U p = Some y \<and> ConnectedPeer y = Some d \<and> (ConnectedPeer w = Some p \<longrightarrow> IsListening y)"
        using old new by cases auto
    qed
    moreover have "v = w0" if "d = l" using l w0 that by simp
    then have "distinct (PendingConnections w) \<and> length (PendingConnections w) \<le> PendingConnectionCapacity w \<and>
        (PendingConnections w \<noteq> [] \<longrightarrow> IsListening w)"
      using i nc [OF w0(1)] room l(2) w0(2,3,4) unfolding pending_ok_def by auto
    ultimately show ?thesis by (simp add: pending_ok_def del: fun_upd_apply)
  qed
  have "unix_ring_ok w" if w: "?U d = Some w" for d w
  proof -
    have "unix_ring_ok v" "unix_ring_ok u" using conn_invD [OF inv] l c by blast+
    then have "unix_ring_ok v'" "unix_ring_ok u'" by (simp_all add: u' v')
    with w conn_invD [OF inv] show ?thesis by (auto split: if_splits)
  qed
  with peer pend show ?thesis by (simp add: conn_inv_def)
qed

text \<open>A client that left its queue and a fresh socket become each other's peers.\<close>

lemma conn_inv_pair:
  assumes inv: "conn_inv U" and c: "U c = Some uc" "ConnectedPeer uc = Some l"
    and l: "U l = Some v" "ConnectedPeer v = Some c \<Longrightarrow> IsListening uc"
    and nc: "\<And>d w. U d = Some w \<Longrightarrow> c \<notin> set (PendingConnections w)"
    and x: "U x = Some ux" "ConnectedPeer ux = None" "PendingConnections ux = []"
    and nx: "\<And>d w. U d = Some w \<Longrightarrow> ConnectedPeer w \<noteq> Some x"
  shows "conn_inv (U(x \<mapsto> ux\<lparr>ConnectedPeer := Some c\<rparr>, c \<mapsto> uc\<lparr>ConnectedPeer := Some x\<rparr>))"
proof -
  let ?U = "U(x \<mapsto> ux\<lparr>ConnectedPeer := Some c\<rparr>, c \<mapsto> uc\<lparr>ConnectedPeer := Some x\<rparr>)"
  have cx: "c \<noteq> x" using c x by auto
  have to_c: "IsListening uc" if "U d = Some w" "ConnectedPeer w = Some c" for d w
    using conn_peerD [OF inv that] c l that by auto
  have peer: "peer_ok ?U d w" if w: "?U d = Some w" for d w
  proof (cases "d = c \<or> d = x")
    case True
    with w cx show ?thesis by (auto simp: peer_ok_def split: if_splits)
  next
    case False
    with w have w0: "U d = Some w" by simp
    show ?thesis unfolding peer_ok_def
    proof (intro allI impI)
      fix b assume b: "ConnectedPeer w = Some b"
      obtain z where "U b = Some z" "ConnectedPeer z = Some d \<or> IsListening z"
        using conn_peerD [OF inv w0 b] by blast
      with b nx [OF w0] to_c [OF w0] c show "\<exists>y. ?U b = Some y \<and> (ConnectedPeer y = Some d \<or> IsListening y)"
        by (cases "b = c") auto
    qed
  qed
  have pend: "pending_ok ?U d w" if w: "?U d = Some w" for d w
  proof -
    obtain w0 where w0: "U d = Some w0" "IsListening w = IsListening w0"
      "PendingConnectionCapacity w = PendingConnectionCapacity w0"
      "PendingConnections w = PendingConnections w0"
      "ConnectedPeer w = (if d = c then Some x else if d = x then Some c else ConnectedPeer w0)"
      using w x c cx by (auto split: if_splits)
    have "\<exists>y. ?U p = Some y \<and> ConnectedPeer y = Some d \<and> (ConnectedPeer w = Some p \<longrightarrow> IsListening y)"
      if p: "p \<in> set (PendingConnections w0)" for p
    proof -
      obtain y where y: "U p = Some y" "ConnectedPeer y = Some d" "ConnectedPeer w0 = Some p \<longrightarrow> IsListening y"
        using conn_pendingD [OF inv w0(1) p] by blast
      have "p \<noteq> c" using nc [OF w0(1)] p by auto
      moreover have "p \<noteq> x" using y x by auto
      ultimately show ?thesis using y w0(5) by auto
    qed
    with conn_invD [OF inv w0(1)] w0 show ?thesis unfolding pending_ok_def by auto
  qed
  have "unix_ring_ok w" if w: "?U d = Some w" for d w
    using conn_invD [OF inv] c x w by (auto split: if_splits)
  with peer pend show ?thesis by (simp add: conn_inv_def)
qed

text \<open>A socket goes: nobody points at it any more.\<close>

definition detach :: "addr \<Rightarrow> unix_socket \<Rightarrow> unix_socket" where
  "detach a u = RemovePendingConnectionFromUnixQueue (ClearPeer a u) a"

lemma detach_simps [simp]:
  "PendingConnections (detach a u) = filter (\<lambda>p. p \<noteq> a) (PendingConnections u)"
  "PendingConnectionCapacity (detach a u) = PendingConnectionCapacity u"
  "IsListening (detach a u) = IsListening u"
  "ConnectedPeer (detach a u) = (if ConnectedPeer u = Some a then None else ConnectedPeer u)"
  "unix_ring_ok (detach a u) = unix_ring_ok u"
  by (simp_all add: detach_def ClearPeer_def RemovePendingConnectionFromUnixQueue_def)

lemma conn_inv_close:
  assumes inv: "conn_inv U"
  shows "conn_inv (\<lambda>c. if c = a then None else map_option (detach a) (U c))"
proof -
  let ?U = "\<lambda>c. if c = a then None else map_option (detach a) (U c)"
  have "peer_ok ?U c w \<and> pending_ok ?U c w \<and> unix_ring_ok w" if w: "?U c = Some w" for c w
  proof -
    obtain u where u: "U c = Some u" "w = detach a u" "c \<noteq> a" using w by (auto split: if_splits)
    note i = conn_invD [OF inv u(1)]
    have "peer_ok ?U c w" unfolding peer_ok_def
    proof (intro allI impI)
      fix b assume "ConnectedPeer w = Some b"
      with u have b: "ConnectedPeer u = Some b" "b \<noteq> a" by (auto split: if_splits)
      from conn_peerD [OF inv u(1) b(1)] b u
      show "\<exists>v. ?U b = Some v \<and> (ConnectedPeer v = Some c \<or> IsListening v)" by auto
    qed
    moreover have "\<exists>v. ?U p = Some v \<and> ConnectedPeer v = Some c \<and> (ConnectedPeer w = Some p \<longrightarrow> IsListening v)"
      if "p \<in> set (PendingConnections w)" for p
      using conn_pendingD [OF inv u(1), of p] that u by (auto split: if_splits)
    then have "pending_ok ?U c w" using i u unfolding pending_ok_def
      by (auto intro: le_trans [OF length_filter_le])
    ultimately show ?thesis using i u by simp
  qed
  then show ?thesis by (simp add: conn_inv_def)
qed

section \<open>The invariant of the sockets\<close>

definition impl_ok :: "socket \<Rightarrow> bool" where
  "impl_ok k \<longleftrightarrow>
     (case SImpl k of
        Some (UnixImpl u) \<Rightarrow> SDomain k = LINUX_AF_UNIX
      | Some (InetImpl n) \<Rightarrow> SDomain k = LINUX_AF_INET
      | Some (NetlinkImpl n) \<Rightarrow> SDomain k = LINUX_AF_NETLINK
      | None \<Rightarrow> False)"

text \<open>The address a socket is bound to, and when two addresses cannot both be bound.\<close>

datatype local_address = UnixAddress bool "u8 list" | InetAddress nat nat | NetlinkAddress nat

fun impl_address :: "implementation \<Rightarrow> local_address option" where
  "impl_address (UnixImpl u) =
     (if IsBound u then
        (case Path u of
           None \<Rightarrow> None
         | Some p \<Rightarrow> Some (UnixAddress (IsAbstract u) (GetComparableUnixPath p (IsAbstract u))))
      else None)"
| "impl_address (InetImpl n) = (if NIsBound n then Some (InetAddress (LocalIp n) (LocalPort n)) else None)"
| "impl_address (NetlinkImpl k) = (if KIsBound k then Some (NetlinkAddress (LocalPid k)) else None)"

fun conflicting :: "local_address \<Rightarrow> local_address \<Rightarrow> bool" where
  "conflicting (UnixAddress a p) (UnixAddress b q) \<longleftrightarrow> a = b \<and> p = q"
| "conflicting (InetAddress ip port) (InetAddress ip' port') \<longleftrightarrow>
     port = port' \<and> (ip = 0 \<or> ip' = 0 \<or> ip = ip')"
| "conflicting (NetlinkAddress p) (NetlinkAddress q) \<longleftrightarrow> p = q \<and> p \<noteq> 0"
| "conflicting _ _ \<longleftrightarrow> False"

definition bound_to :: "socket_manager \<Rightarrow> addr \<Rightarrow> local_address option" where
  "bound_to s a = Option.bind (Option.bind (Sockets s a) SImpl) impl_address"

definition no_conflicts :: "(addr \<Rightarrow> local_address option) \<Rightarrow> bool" where
  "no_conflicts A \<longleftrightarrow> (\<forall>a b x y. A a = Some x \<longrightarrow> A b = Some y \<longrightarrow> a \<noteq> b \<longrightarrow> \<not> conflicting x y)"

definition sockets_ok :: "socket_manager \<Rightarrow> bool" where
  "sockets_ok s \<longleftrightarrow>
     distinct (SocketList s) \<and> length (SocketList s) \<le> MAX_TRACKED_SOCKETS \<and>
     (\<forall>a. Sockets s a \<noteq> None \<longleftrightarrow> a \<in> set (SocketList s)) \<and>
     (\<forall>a k. Sockets s a = Some k \<longrightarrow> impl_ok k) \<and> no_conflicts (bound_to s)"

definition socket_inv :: "socket_manager \<Rightarrow> bool" where
  "socket_inv s \<longleftrightarrow> sockets_ok s \<and> conn_inv (unix_sock s)"

lemmas socket_inv_defs = socket_inv_def sockets_ok_def

lemma conflicting_sym: "conflicting x y = conflicting y x"
  by (cases x; cases y) auto

lemma no_conflicts_update:
  "no_conflicts A \<Longrightarrow> (\<And>x b y. X = Some x \<Longrightarrow> A b = Some y \<Longrightarrow> b \<noteq> a \<Longrightarrow> \<not> conflicting x y) \<Longrightarrow>
   no_conflicts (A(a := X))"
  unfolding no_conflicts_def by (metis conflicting_sym fun_upd_apply)

lemma no_conflicts_mono:
  "no_conflicts A \<Longrightarrow> (\<And>a x. B a = Some x \<Longrightarrow> A a = Some x) \<Longrightarrow> no_conflicts B"
  unfolding no_conflicts_def by blast

lemma socket_inv_init: "socket_inv IPC_sockets_init"
  by (auto simp: socket_inv_defs IPC_sockets_init_def conn_inv_def unix_sock_def no_conflicts_def bound_to_def)

lemma socket_inv_live:
  "socket_inv s \<Longrightarrow> a \<in> set (SocketList s) \<Longrightarrow> \<exists>k. Sockets s a = Some k \<and> impl_ok k"
  unfolding socket_inv_defs by fastforce

lemma FindSocket_live:
  "socket_inv s \<Longrightarrow> FindSocket s ow fd = Some a \<Longrightarrow>
   \<exists>k. Sockets s a = Some k \<and> impl_ok k \<and> SOwner k = ow \<and> SFileDescriptor k = fd \<and> a \<in> set (SocketList s)"
  unfolding FindSocket_def using socket_inv_live [of s a] by (auto dest!: find_SomeD simp: socket_at_def)

lemma unix_at_live: "Sockets s a \<noteq> None \<Longrightarrow> unix_at s a = unix_sock s a"
  by (auto simp: unix_at_def unix_sock_def socket_at_def split: option.splits)

lemma unix_sock_domain: "socket_inv s \<Longrightarrow> unix_sock s a = Some u \<Longrightarrow> SDomain (socket_at s a) = LINUX_AF_UNIX"
  unfolding socket_inv_defs unix_sock_def socket_at_def impl_ok_def
  by (force split: option.splits implementation.splits)

lemma unix_domain_sock:
  "Sockets s a = Some k \<Longrightarrow> impl_ok k \<Longrightarrow> SDomain k = LINUX_AF_UNIX \<Longrightarrow>
   \<exists>u. unix_sock s a = Some u \<and> SImpl k = Some (UnixImpl u)"
  unfolding unix_sock_def impl_ok_def
  by (auto simp: layout_simps split: option.splits implementation.splits)

lemma set_impl_simps [simp]:
  "SocketList (set_impl a i s) = SocketList s"
  "Sockets (set_impl a i s) = (Sockets s)(a \<mapsto> (socket_at s a)\<lparr>SImpl := Some i\<rparr>)"
  by (simp_all add: set_impl_def set_socket_def)

lemma unix_sock_set_impl:
  "unix_sock (set_impl a i s) = (unix_sock s)(a := (case i of UnixImpl u \<Rightarrow> Some u | _ \<Rightarrow> None))"
  by (auto simp: unix_sock_def fun_eq_iff split: implementation.splits)

lemma bound_to_set_impl: "bound_to (set_impl a i s) = (bound_to s)(a := impl_address i)"
  by (auto simp: bound_to_def fun_eq_iff)

lemma set_impl_ok:
  assumes inv: "sockets_ok s" and k: "Sockets s a = Some k" and ok: "impl_ok (k\<lparr>SImpl := Some i\<rparr>)"
    and addr: "impl_address i = bound_to s a \<or>
      (\<forall>x b y. impl_address i = Some x \<longrightarrow> bound_to s b = Some y \<longrightarrow> b \<noteq> a \<longrightarrow> \<not> conflicting x y)"
  shows "sockets_ok (set_impl a i s)"
proof -
  have "no_conflicts (bound_to s)" using inv by (simp add: sockets_ok_def)
  then have "no_conflicts ((bound_to s)(a := impl_address i))"
    using addr by (metis fun_upd_triv no_conflicts_update)
  moreover have "a \<in> set (SocketList s)" using inv k unfolding sockets_ok_def by (metis option.distinct(1))
  moreover have "(set_impl a i s) = s\<lparr>Sockets := (Sockets s)(a \<mapsto> k\<lparr>SImpl := Some i\<rparr>)\<rparr>"
    using k by (simp add: set_impl_def set_socket_def socket_at_def)
  ultimately show ?thesis using inv ok unfolding sockets_ok_def bound_to_set_impl by auto
qed

lemma set_impl_inv:
  assumes inv: "socket_inv s" and k: "Sockets s a = Some k" and ok: "impl_ok (k\<lparr>SImpl := Some i\<rparr>)"
    and conn: "conn_inv ((unix_sock s)(a := (case i of UnixImpl u \<Rightarrow> Some u | _ \<Rightarrow> None)))"
    and addr: "impl_address i = bound_to s a \<or>
      (\<forall>x b y. impl_address i = Some x \<longrightarrow> bound_to s b = Some y \<longrightarrow> b \<noteq> a \<longrightarrow> \<not> conflicting x y)"
  shows "socket_inv (set_impl a i s)"
  using assms set_impl_ok [OF _ k ok addr] by (simp add: socket_inv_def unix_sock_set_impl)

lemma bound_to_impl: "Sockets s a = Some k \<Longrightarrow> SImpl k = Some i \<Longrightarrow> bound_to s a = impl_address i"
  by (simp add: bound_to_def)

text \<open>A change of a Unix socket that keeps its peer, its address and the entries of its queue.\<close>

lemma set_unix_inv:
  assumes inv: "socket_inv s" and u: "unix_sock s a = Some u"
    and peer: "ConnectedPeer u' = ConnectedPeer u"
    and pend: "set (PendingConnections u') \<subseteq> set (PendingConnections u)" "distinct (PendingConnections u')"
      "length (PendingConnections u') \<le> PendingConnectionCapacity u'"
    and lis: "IsListening u \<Longrightarrow> IsListening u'" and ring: "unix_ring_ok u'"
    and addr: "impl_address (UnixImpl u') = impl_address (UnixImpl u) \<or>
      (\<forall>x b y. impl_address (UnixImpl u') = Some x \<longrightarrow> bound_to s b = Some y \<longrightarrow> b \<noteq> a \<longrightarrow> \<not> conflicting x y)"
  shows "socket_inv (set_impl a (UnixImpl u') s)"
proof -
  obtain k where k: "Sockets s a = Some k" "SImpl k = Some (UnixImpl u)"
    using u by (auto simp: unix_sock_def split: option.splits implementation.splits)
  have "impl_ok k" using inv k by (simp add: socket_inv_defs)
  then have "impl_ok (k\<lparr>SImpl := Some (UnixImpl u')\<rparr>)" using k by (simp add: impl_ok_def)
  moreover have "conn_inv ((unix_sock s)(a \<mapsto> u'))"
    using inv unfolding socket_inv_defs by (intro conn_inv_local [where u = u]) (use u peer pend lis ring in auto)
  moreover have "impl_address (UnixImpl u') = bound_to s a \<or>
      (\<forall>x b y. impl_address (UnixImpl u') = Some x \<longrightarrow> bound_to s b = Some y \<longrightarrow> b \<noteq> a \<longrightarrow> \<not> conflicting x y)"
    using addr bound_to_impl [OF k] by simp
  ultimately show ?thesis by (intro set_impl_inv [OF inv k(1)]) auto
qed

lemma set_other_inv:
  assumes inv: "socket_inv s" and k: "Sockets s a = Some k" "SImpl k = Some i"
    and tag: "(\<exists>n n'. i = InetImpl n \<and> i' = InetImpl n') \<or> (\<exists>n n'. i = NetlinkImpl n \<and> i' = NetlinkImpl n')"
    and addr: "impl_address i' = impl_address i \<or>
      (\<forall>x b y. impl_address i' = Some x \<longrightarrow> bound_to s b = Some y \<longrightarrow> b \<noteq> a \<longrightarrow> \<not> conflicting x y)"
  shows "socket_inv (set_impl a i' s)"
proof -
  have "impl_ok k" using inv k by (simp add: socket_inv_defs)
  then have "impl_ok (k\<lparr>SImpl := Some i'\<rparr>)" using k tag by (auto simp: impl_ok_def)
  moreover have "unix_sock s a = None" using k tag by (auto simp: unix_sock_def)
  then have "(unix_sock s)(a := (case i' of UnixImpl u \<Rightarrow> Some u | _ \<Rightarrow> None)) = unix_sock s"
    using tag by (auto simp: fun_eq_iff)
  then have "conn_inv ((unix_sock s)(a := (case i' of UnixImpl u \<Rightarrow> Some u | _ \<Rightarrow> None)))"
    using inv by (simp add: socket_inv_defs)
  moreover have "impl_address i' = bound_to s a \<or>
      (\<forall>x b y. impl_address i' = Some x \<longrightarrow> bound_to s b = Some y \<longrightarrow> b \<noteq> a \<longrightarrow> \<not> conflicting x y)"
    using addr bound_to_impl [OF k] by simp
  ultimately show ?thesis by (intro set_impl_inv [OF inv k(1)]) auto
qed

section \<open>Every operation keeps the invariant\<close>

lemma impl_at_live:
  assumes inv: "socket_inv s" and k: "Sockets s a = Some k"
  shows "unix_at s a = Some u \<longleftrightarrow> SImpl k = Some (UnixImpl u)"
    "inet_at s a = Some n \<longleftrightarrow> SImpl k = Some (InetImpl n)"
    "netlink_at s a = Some l \<longleftrightarrow> SImpl k = Some (NetlinkImpl l)"
  using k by (auto simp: unix_at_def inet_at_def netlink_at_def socket_at_def
      split: option.splits implementation.splits)

lemma bound_cases:
  assumes inv: "socket_inv s" and b: "bound_to s b = Some y"
  shows "b \<in> set (SocketList s) \<and>
    (case y of
       UnixAddress ab p \<Rightarrow> SDomain (socket_at s b) = LINUX_AF_UNIX \<and>
         (\<exists>u q. unix_at s b = Some u \<and> IsBound u \<and> Path u = Some q \<and> IsAbstract u = ab \<and> p = GetComparableUnixPath q ab)
     | InetAddress ip port \<Rightarrow> SDomain (socket_at s b) = LINUX_AF_INET \<and>
         (\<exists>n. inet_at s b = Some n \<and> NIsBound n \<and> LocalIp n = ip \<and> LocalPort n = port)
     | NetlinkAddress pid \<Rightarrow> SDomain (socket_at s b) = LINUX_AF_NETLINK \<and>
         (\<exists>n. netlink_at s b = Some n \<and> KIsBound n \<and> LocalPid n = pid))"
proof -
  obtain k i where k: "Sockets s b = Some k" "SImpl k = Some i" "impl_address i = Some y"
    using b by (auto simp: bound_to_def bind_eq_Some_conv)
  have "impl_ok k" "b \<in> set (SocketList s)" using inv k unfolding socket_inv_defs by (metis option.distinct(1))+
  with k show ?thesis
    by (cases i) (auto simp: impl_ok_def socket_at_def unix_at_def inet_at_def netlink_at_def
        split: if_splits option.splits)
qed

lemma not_in_use:
  assumes inv: "socket_inv s"
  shows "\<not> InetAddressInUse s a ip port \<Longrightarrow> bound_to s b = Some y \<Longrightarrow> b \<noteq> a \<Longrightarrow>
      \<not> conflicting (InetAddress ip port) y"
    and "\<not> PortInUse s a port \<Longrightarrow> bound_to s b = Some y \<Longrightarrow> b \<noteq> a \<Longrightarrow> \<not> conflicting (InetAddress ip port) y"
    and "\<not> UnixAddressInUse s a p ab \<Longrightarrow> bound_to s b = Some y \<Longrightarrow> b \<noteq> a \<Longrightarrow>
      \<not> conflicting (UnixAddress ab (GetComparableUnixPath p ab)) y"
    and "\<not> NetlinkAddressInUse s a pid \<Longrightarrow> bound_to s b = Some y \<Longrightarrow> b \<noteq> a \<Longrightarrow>
      \<not> conflicting (NetlinkAddress pid) y"
  using bound_cases [OF inv, of b y]
  by (cases y; force simp: InetAddressInUse_def PortInUse_def UnixAddressInUse_def NetlinkAddressInUse_def
      AreUnixPathsEqual_def)+

lemma unix_at_pending:
  "socket_inv s \<Longrightarrow> unix_sock s a = Some u \<Longrightarrow>
   distinct (PendingConnections u) \<and> length (PendingConnections u) \<le> PendingConnectionCapacity u \<and> unix_ring_ok u"
  using conn_invD [of "unix_sock s" a u] by (simp add: socket_inv_defs pending_ok_def)

lemma unix_at_sock: "Sockets s a = Some k \<Longrightarrow> unix_at s a = Some u \<Longrightarrow> unix_sock s a = Some u"
  by (simp add: unix_at_live)

lemma set_unix_same_inv:
  assumes inv: "socket_inv s" and u: "unix_sock s a = Some u"
    and "ConnectedPeer u' = ConnectedPeer u"
    and "set (PendingConnections u') \<subseteq> set (PendingConnections u)" "distinct (PendingConnections u')"
      "length (PendingConnections u') \<le> PendingConnectionCapacity u'"
    and "IsListening u \<Longrightarrow> IsListening u'" and "unix_ring_ok u'"
    and "Path u' = Path u" "IsAbstract u' = IsAbstract u" "IsBound u' = IsBound u"
  shows "socket_inv (set_impl a (UnixImpl u') s)"
proof -
  have "impl_address (UnixImpl u') = impl_address (UnixImpl u)"
    using assms(9-11) by (simp cong: option.case_cong)
  with assms show ?thesis by (intro set_unix_inv [OF inv u]) blast+
qed

lemma BindInet_inv:
  assumes inv: "socket_inv s" and k: "Sockets s a = Some k" and b: "BindInet s a sa = (r, s')"
  shows "socket_inv s'"
proof (cases "s' = s")
  case False
  let ?ip = "le (take 4 (drop 4 sa))" and ?port = "le (take 2 (drop 2 sa))"
  obtain n where n: "inet_at s a = Some n" "\<not> InetAddressInUse s a ?ip ?port"
    "s' = set_impl a (InetImpl (n\<lparr>LocalIp := ?ip, LocalPort := ?port, NIsBound := True\<rparr>)) s"
    using b False by (auto simp: BindInet_def Let_def split: if_splits option.splits)
  have i: "SImpl k = Some (InetImpl n)" using n(1) impl_at_live(2) [OF inv k] by simp
  show ?thesis unfolding n(3)
    by (rule set_other_inv [OF inv k i]) (use not_in_use(1) [OF inv n(2)] in auto)
qed (use inv in simp)

lemma BindNetlink_inv:
  assumes inv: "socket_inv s" and k: "Sockets s a = Some k" and b: "BindNetlink s a sa = (r, s')"
  shows "socket_inv s'"
proof (cases "s' = s")
  case False
  let ?pid = "le (take 4 (drop 4 sa))" and ?g = "le (take 4 (drop 8 sa))"
  obtain n where n: "netlink_at s a = Some n" "\<not> NetlinkAddressInUse s a ?pid"
    "s' = set_impl a (NetlinkImpl (n\<lparr>LocalPid := ?pid, LocalGroups := ?g, KIsBound := True\<rparr>)) s"
    using b False by (auto simp: BindNetlink_def Let_def split: if_splits option.splits)
  have i: "SImpl k = Some (NetlinkImpl n)" using n(1) impl_at_live(3) [OF inv k] by simp
  show ?thesis unfolding n(3)
    by (rule set_other_inv [OF inv k i]) (use not_in_use(4) [OF inv n(2)] in auto)
qed (use inv in simp)

lemma BindUnix_inv:
  assumes inv: "socket_inv s" and k: "Sockets s a = Some k" and b: "BindUnix s a sa np = (r, s')"
  shows "socket_inv s'"
proof (cases "s' = s")
  case False
  obtain p ab where p: "UnixAddressPath sa = (p, ab)" by (cases "UnixAddressPath sa")
  obtain u where u: "unix_at s a = Some u" "\<not> UnixAddressInUse s a p ab"
    "s' = set_impl a (UnixImpl (u\<lparr>Path := Some p, IsAbstract := ab, IsBound := True\<rparr>)) s"
    using b False p by (auto simp: BindUnix_def split: if_splits option.splits)
  note us = unix_at_sock [OF k u(1)]
  show ?thesis unfolding u(3)
    by (rule set_unix_inv [OF inv us]) (use not_in_use(3) [OF inv u(2)] unix_at_pending [OF inv us] in auto)
qed (use inv in simp)

lemma BindSocket_inv:
  assumes inv: "socket_inv s" and r: "BindSocket s Owner fd SA np = (r, s')"
  shows "socket_inv s'"
proof (cases "s' = s")
  case False
  then obtain ow sa where o: "Owner = Some ow" "SA = Some sa"
    using r by (cases Owner; cases SA) (auto simp: BindSocket_def)
  then obtain a where a: "FindSocket s ow fd = Some a"
    using r False by (cases "FindSocket s ow fd") (auto simp: BindSocket_def split: if_splits)
  from FindSocket_live [OF inv a] obtain k where k: "Sockets s a = Some k" by blast
  have "BindInet s a sa = (r, s') \<or> BindUnix s a sa np = (r, s') \<or> BindNetlink s a sa = (r, s')"
    using r False a o by (auto simp: BindSocket_def Let_def split: if_splits)
  with BindInet_inv [OF inv k] BindUnix_inv [OF inv k] BindNetlink_inv [OF inv k] show ?thesis by blast
qed (use inv in simp)

lemma ListenInet_inv:
  assumes inv: "socket_inv s" and k: "Sockets s a = Some k" and b: "ListenInet s a b = (r, s')"
  shows "socket_inv s'"
proof (cases "s' = s")
  case False
  have e: "\<not> PortInUse s a p" if "EphemeralPort s a = Some p" for p
    using that by (auto simp: EphemeralPort_def dest: find_SomeD)
  obtain n n' where n: "inet_at s a = Some n" "s' = set_impl a (InetImpl n') s"
    and n': "impl_address (InetImpl n') = impl_address (InetImpl n) \<or>
      (\<exists>p. impl_address (InetImpl n') = Some (InetAddress 0 p) \<and> \<not> PortInUse s a p)"
    using b False e by (fastforce simp: ListenInet_def Let_def split: if_splits option.splits)
  have i: "SImpl k = Some (InetImpl n)" using n(1) impl_at_live(2) [OF inv k] by simp
  show ?thesis unfolding n(2)
    by (rule set_other_inv [OF inv k i]) (use n' not_in_use(2) [OF inv] in auto)
qed (use inv in simp)

lemma ListenUnix_inv:
  assumes inv: "socket_inv s" and k: "Sockets s a = Some k" and b: "ListenUnix s a b nq = (r, s')"
  shows "socket_inv s'"
proof (cases "s' = s")
  case False
  obtain u u' where u: "unix_at s a = Some u" "s' = set_impl a (UnixImpl u') s"
    and u': "u' = u\<lparr>IsListening := True, ListenBacklog := b\<rparr> \<or>
      u' = u\<lparr>PendingConnections := take (nat b) (PendingConnections u), PendingConnectionCapacity := nat b,
             IsListening := True, ListenBacklog := b\<rparr>"
    using b False by (auto simp: ListenUnix_def Let_def split: if_splits option.splits)
  note us = unix_at_sock [OF k u(1)]
  have "set (take (nat b) (PendingConnections u)) \<subseteq> set (PendingConnections u)" by (rule set_take_subset)
  then show ?thesis unfolding u(2)
    by (intro set_unix_same_inv [OF inv us]) (use u' unix_at_pending [OF inv us] in auto)
qed (use inv in simp)

lemma ListenSocket_inv:
  assumes inv: "socket_inv s" and r: "ListenSocket s Owner fd Backlog nq = (r, s')"
  shows "socket_inv s'"
proof (cases "s' = s")
  case False
  then obtain ow where o: "Owner = Some ow" using r by (cases Owner) (auto simp: ListenSocket_def)
  then obtain a where a: "FindSocket s ow fd = Some a"
    using r False by (cases "FindSocket s ow fd") (auto simp: ListenSocket_def split: if_splits)
  from FindSocket_live [OF inv a] obtain k where k: "Sockets s a = Some k" by blast
  have "(\<exists>b. ListenInet s a b = (r, s')) \<or> (\<exists>b. ListenUnix s a b nq = (r, s'))"
    using r False a o by (auto simp: ListenSocket_def Let_def split: if_splits)
  with ListenInet_inv [OF inv k] ListenUnix_inv [OF inv k] show ?thesis by blast
qed (use inv in simp)

lemma ShutdownSocket_inv:
  assumes inv: "socket_inv s" and r: "ShutdownSocket s Owner fd How = (r, s')"
  shows "socket_inv s'"
proof (cases "s' = s")
  case False
  then obtain ow where o: "Owner = Some ow" using r by (cases Owner) (auto simp: ShutdownSocket_def)
  then obtain a where a: "FindSocket s ow fd = Some a"
    using r False by (cases "FindSocket s ow fd") (auto simp: ShutdownSocket_def split: if_splits)
  from FindSocket_live [OF inv a] obtain k where k: "Sockets s a = Some k" by blast
  consider (u) u rd wr where "unix_at s a = Some u"
      "s' = set_impl a (UnixImpl (u\<lparr>IsShutdownRead := rd, IsShutdownWrite := wr\<rparr>)) s"
    | (n) n rd wr where "inet_at s a = Some n"
      "s' = set_impl a (InetImpl (n\<lparr>NIsShutdownRead := rd, NIsShutdownWrite := wr\<rparr>)) s"
    | (l) n rd wr where "netlink_at s a = Some n"
      "s' = set_impl a (NetlinkImpl (n\<lparr>KIsShutdownRead := rd, KIsShutdownWrite := wr\<rparr>)) s"
    using r False a o by (auto simp: ShutdownSocket_def Let_def split: if_splits option.splits)
  then show ?thesis
  proof cases
    case u
    note us = unix_at_sock [OF k u(1)]
    show ?thesis using unix_at_pending [OF inv us] unfolding u(2) by (intro set_unix_same_inv [OF inv us]) auto
  next
    case n
    have i: "SImpl k = Some (InetImpl n)" using n(1) impl_at_live(2) [OF inv k] by simp
    show ?thesis unfolding n(2) by (rule set_other_inv [OF inv k i]) simp_all
  next
    case l
    have i: "SImpl k = Some (NetlinkImpl n)" using l(1) impl_at_live(3) [OF inv k] by simp
    show ?thesis unfolding l(2) by (rule set_other_inv [OF inv k i]) simp_all
  qed
qed (use inv in simp)

lemma new_unix_ring: "length g = LINUX_UNIX_SOCKET_BUFFER_CAPACITY \<Longrightarrow> unix_ring_ok (NewUnixSocket g)"
  by (simp add: unix_ring_ok_def NewUnixSocket_def ring_ok_def LINUX_UNIX_SOCKET_BUFFER_CAPACITY_def)

lemma CreateSocket_cases:
  assumes r: "CreateSocket s D T P Owner fd ns ni nb = (res, s')"
  shows "(\<exists>e. res = Inl e \<and> e \<noteq> 0 \<and> s' = s) \<or>
    (\<exists>a k ow. res = Inr a \<and> ns = Some a \<and> Owner = Some ow \<and> length (SocketList s) < MAX_TRACKED_SOCKETS \<and>
       s' = s\<lparr>Sockets := (Sockets s)(a \<mapsto> k), SocketList := SocketList s @ [a]\<rparr> \<and>
       SOwner k = ow \<and> SFileDescriptor k = fd \<and> SDomain k = D \<and> impl_ok k \<and>
       (case SImpl k of
          Some (UnixImpl u) \<Rightarrow> \<exists>g. nb = Some g \<and> u = NewUnixSocket g
        | Some (InetImpl n) \<Rightarrow> n = NewNetworkSocket
        | Some (NetlinkImpl l) \<Rightarrow> l = NewNetlinkSocket
        | None \<Rightarrow> False))"
proof (cases res)
  case (Inl e)
  have "e \<noteq> 0 \<and> s' = s"
    using r unfolding Inl by (auto simp: CreateSocket_def Let_def socket_errors split: if_splits option.splits)
  with Inl show ?thesis by blast
next
  case (Inr a)
  have d: "to_int32 LINUX_AF_UNIX = LINUX_AF_UNIX" "to_int32 LINUX_AF_INET = LINUX_AF_INET"
    "to_int32 LINUX_AF_NETLINK = LINUX_AF_NETLINK"
    by (simp_all add: to_int32_def layout_simps)
  obtain ow i where k: "ns = Some a" "Owner = Some ow" "length (SocketList s) < MAX_TRACKED_SOCKETS"
    "s' = s\<lparr>Sockets := (Sockets s)(a \<mapsto> \<lparr>SDomain = D, SType = to_int32 (T AND LINUX_SOCK_TYPE_MASK),
        SProtocol = to_int32 P, SOwner = ow, SFileDescriptor = fd, SImpl = Some i\<rparr>), SocketList := SocketList s @ [a]\<rparr>"
    and i: "(D = LINUX_AF_UNIX \<and> (\<exists>g. nb = Some g \<and> i = UnixImpl (NewUnixSocket g))) \<or>
      (D = LINUX_AF_INET \<and> i = InetImpl NewNetworkSocket) \<or> (D = LINUX_AF_NETLINK \<and> i = NetlinkImpl NewNetlinkSocket)"
    using r unfolding Inr by (auto simp: CreateSocket_def Let_def d split: if_splits option.splits)
  show ?thesis using Inr k i
    by (intro disjI2 exI [of _ a] exI [of _ ow] exI [of _ "\<lparr>SDomain = D, SType = to_int32 (T AND LINUX_SOCK_TYPE_MASK),
        SProtocol = to_int32 P, SOwner = ow, SFileDescriptor = fd, SImpl = Some i\<rparr>"]) (auto simp: impl_ok_def)
qed

lemma unix_sock_add:
  "unix_sock (s\<lparr>Sockets := (Sockets s)(a \<mapsto> k), SocketList := l\<rparr>) =
   (unix_sock s)(a := (case SImpl k of Some (UnixImpl u) \<Rightarrow> Some u | _ \<Rightarrow> None))"
  by (simp add: unix_sock_def fun_eq_iff)

lemma CreateSocket_inv:
  assumes inv: "socket_inv s" and r: "CreateSocket s D T P Owner fd ns ni nb = (res, s')"
    and fresh: "\<And>a. ns = Some a \<Longrightarrow> Sockets s a = None"
      "\<And>g. nb = Some g \<Longrightarrow> length g = LINUX_UNIX_SOCKET_BUFFER_CAPACITY"
  shows "socket_inv s'"
proof (cases "s' = s")
  case False
  with CreateSocket_cases [OF r] obtain a k where k: "ns = Some a" "length (SocketList s) < MAX_TRACKED_SOCKETS"
    "s' = s\<lparr>Sockets := (Sockets s)(a \<mapsto> k), SocketList := SocketList s @ [a]\<rparr>" "impl_ok k"
    and i: "case SImpl k of Some (UnixImpl u) \<Rightarrow> \<exists>g. nb = Some g \<and> u = NewUnixSocket g
        | Some (InetImpl n) \<Rightarrow> n = NewNetworkSocket | Some (NetlinkImpl l) \<Rightarrow> l = NewNetlinkSocket | None \<Rightarrow> False"
    by blast
  have n: "Sockets s a = None" using fresh k by blast
  then have un: "unix_sock s a = None" by (simp add: unix_sock_def)
  have conn: "conn_inv (unix_sock s)" using inv by (simp add: socket_inv_defs)
  have "conn_inv (unix_sock s')"
  proof (cases "\<exists>u. SImpl k = Some (UnixImpl u)")
    case True
    then obtain u g where "SImpl k = Some (UnixImpl u)" "nb = Some g" "u = NewUnixSocket g" using i by auto
    with conn_inv_new [OF conn un, of u] new_unix_ring [of g] fresh(2) show ?thesis
      unfolding k(3) unix_sock_add by (simp add: NewUnixSocket_def)
  next
    case False
    then have "(case SImpl k of Some (UnixImpl u) \<Rightarrow> Some u | _ \<Rightarrow> None) = None"
      by (auto split: option.splits implementation.splits)
    with conn un show ?thesis unfolding k(3) unix_sock_add by (simp add: fun_upd_idem)
  qed
  moreover have "impl_address j = None" if "SImpl k = Some j" for j
    using i that by (auto simp: NewUnixSocket_def NewNetworkSocket_def NewNetlinkSocket_def
        split: implementation.splits)
  then have "bound_to s' b = Some y \<Longrightarrow> bound_to s b = Some y" for b y
    unfolding k(3) bound_to_def by (auto simp: bind_eq_Some_conv split: if_splits)
  then have "no_conflicts (bound_to s')"
    using inv unfolding socket_inv_defs by (blast intro: no_conflicts_mono)
  moreover have "a \<notin> set (SocketList s)" using inv n unfolding socket_inv_defs by blast
  moreover have "\<forall>b. Sockets s' b \<noteq> None \<longleftrightarrow> b \<in> set (SocketList s')" "\<forall>b j. Sockets s' b = Some j \<longrightarrow> impl_ok j"
    using inv k(3,4) unfolding socket_inv_defs by auto
  ultimately show ?thesis using inv k(2,3) unfolding socket_inv_defs by auto
qed (use inv in simp)

definition same_address :: "unix_socket \<Rightarrow> unix_socket \<Rightarrow> bool" where
  "same_address u w \<longleftrightarrow> Path u = Path w \<and> IsAbstract u = IsAbstract w \<and> IsBound u = IsBound w"

lemma same_address_impl: "same_address u w \<Longrightarrow> impl_address (UnixImpl u) = impl_address (UnixImpl w)"
  by (simp add: same_address_def cong: option.case_cong)

lemma on_unix_eq:
  assumes u: "unix_sock s a = Some u"
  shows "on_unix a f s = set_impl a (UnixImpl (f u)) s"
    "unix_sock (on_unix a f s) = (unix_sock s)(a \<mapsto> f u)" "SocketList (on_unix a f s) = SocketList s"
proof -
  have "Sockets s a \<noteq> None" using u by (auto simp: unix_sock_def split: option.splits)
  with u show e: "on_unix a f s = set_impl a (UnixImpl (f u)) s" by (simp add: on_unix_def unix_at_live)
  show "unix_sock (on_unix a f s) = (unix_sock s)(a \<mapsto> f u)" "SocketList (on_unix a f s) = SocketList s"
    by (simp_all add: e unix_sock_set_impl)
qed

lemma on_unix_ok:
  assumes ok: "sockets_ok s" and u: "unix_sock s a = Some u" and same: "same_address (f u) u"
  shows "sockets_ok (on_unix a f s)" "bound_to (on_unix a f s) = bound_to s"
proof -
  obtain k where k: "Sockets s a = Some k" "SImpl k = Some (UnixImpl u)"
    using u by (auto simp: unix_sock_def split: option.splits implementation.splits)
  then have "impl_ok k" using ok by (simp add: sockets_ok_def)
  then have "impl_ok (k\<lparr>SImpl := Some (UnixImpl (f u))\<rparr>)" using k by (simp add: impl_ok_def)
  moreover have b: "impl_address (UnixImpl (f u)) = bound_to s a"
    using bound_to_impl [OF k] same_address_impl [OF same] by simp
  ultimately show "sockets_ok (on_unix a f s)" unfolding on_unix_eq(1) [OF u]
    by (intro set_impl_ok [OF ok k(1)]) auto
  show "bound_to (on_unix a f s) = bound_to s" unfolding on_unix_eq(1) [OF u] bound_to_set_impl b by simp
qed

lemma FindListening_spec:
  assumes inv: "socket_inv s" and f: "FindListening s p ab = Some l"
  shows "\<exists>v q. unix_sock s l = Some v \<and> unix_at s l = Some v \<and> IsBound v \<and> IsListening v \<and> Path v = Some q \<and>
    IsAbstract v = ab \<and> AreUnixPathsEqual q p ab"
proof -
  from find_SomeD [OF f [unfolded FindListening_def]] obtain v q where v: "l \<in> set (SocketList s)"
    "unix_at s l = Some v" "IsBound v" "IsListening v" "Path v = Some q" "IsAbstract v = ab" "AreUnixPathsEqual q p ab"
    by (auto split: option.splits)
  with socket_inv_live [OF inv v(1)] show ?thesis by (auto simp: unix_at_live)
qed

lemma ConnectUnix_spec:
  assumes inv: "socket_inv s" and k: "Sockets s c = Some k" and r: "ConnectUnix s c sa = (r, s')"
  shows "(r \<noteq> 0 \<and> s' = s) \<or>
    (r = 0 \<and> (\<exists>p ab l u v.
       UnixAddressPath sa = (p, ab) \<and> p \<noteq> [] \<and> FindListening s p ab = Some l \<and>
       unix_sock s c = Some u \<and> ConnectedPeer u = None \<and>
       unix_sock s l = Some v \<and> IsListening v \<and> length (PendingConnections v) < PendingConnectionCapacity v \<and>
       s' = on_unix c (\<lambda>u. u\<lparr>ConnectedPeer := Some l\<rparr>)
              (on_unix l (\<lambda>v. v\<lparr>PendingConnections := PendingConnections v @ [c]\<rparr>) s)))"
proof -
  obtain p ab where p: "UnixAddressPath sa = (p, ab)" by (cases "UnixAddressPath sa")
  show ?thesis
  proof (cases "FindListening s p ab")
    case None
    with r p show ?thesis by (auto simp: ConnectUnix_def socket_errors split: if_splits option.splits)
  next
    case (Some l)
    from FindListening_spec [OF inv Some] obtain v where v: "unix_sock s l = Some v" "unix_at s l = Some v" "IsListening v" by blast
    have "unix_at s c = unix_sock s c" using k by (simp add: unix_at_live)
    with r p Some v show ?thesis
      by (auto simp: ConnectUnix_def Let_def socket_errors split: if_splits option.splits)
  qed
qed

lemma ConnectUnix_inv:
  assumes inv: "socket_inv s" and k: "Sockets s c = Some k" and r: "ConnectUnix s c sa = (r, s')"
  shows "socket_inv s'"
  using ConnectUnix_spec [OF inv k r]
proof (elim disjE conjE exE)
  fix p ab l u v
  assume u: "unix_sock s c = Some u" "ConnectedPeer u = None" and v: "unix_sock s l = Some v" "IsListening v"
    "length (PendingConnections v) < PendingConnectionCapacity v"
    and s': "s' = on_unix c (\<lambda>u. u\<lparr>ConnectedPeer := Some l\<rparr>)
              (on_unix l (\<lambda>v. v\<lparr>PendingConnections := PendingConnections v @ [c]\<rparr>) s)"
  let ?v = "v\<lparr>PendingConnections := PendingConnections v @ [c]\<rparr>"
  let ?s1 = "on_unix l (\<lambda>v. v\<lparr>PendingConnections := PendingConnections v @ [c]\<rparr>) s"
  let ?u = "if c = l then ?v else u"
  have ok: "sockets_ok s" "conn_inv (unix_sock s)" using inv by (simp_all add: socket_inv_def)
  have ok1: "sockets_ok ?s1" by (rule on_unix_ok(1) [OF ok(1) v(1)]) (simp add: same_address_def)
  have u1: "unix_sock ?s1 = (unix_sock s)(l \<mapsto> ?v)" using on_unix_eq(2) [OF v(1)] .
  then have c1: "unix_sock ?s1 c = Some ?u" using u by simp
  have "sockets_ok s'" unfolding s' by (rule on_unix_ok(1) [OF ok1 c1]) (simp add: same_address_def)
  moreover have "unix_sock s' = (unix_sock s)(l \<mapsto> ?v, c \<mapsto> ?u\<lparr>ConnectedPeer := Some l\<rparr>)"
    unfolding s' on_unix_eq(2) [OF c1] u1 ..
  ultimately show ?thesis
    using conn_inv_connect [OF ok(2) v u refl refl] by (simp add: socket_inv_def)
qed (use inv in simp)

lemma ConnectNetlink_inv:
  assumes inv: "socket_inv s" and k: "Sockets s c = Some k" and r: "ConnectNetlink s c sa = (r, s')"
  shows "socket_inv s'"
proof (cases "s' = s")
  case False
  obtain n p g where n: "netlink_at s c = Some n" "s' = set_impl c (NetlinkImpl (n\<lparr>RemotePid := p, RemoteGroups := g\<rparr>)) s"
    using r False by (auto simp: ConnectNetlink_def split: if_splits option.splits)
  have i: "SImpl k = Some (NetlinkImpl n)" using n(1) impl_at_live(3) [OF inv k] by simp
  show ?thesis unfolding n(2) by (rule set_other_inv [OF inv k i]) simp_all
qed (use inv in simp)

lemma ConnectSocket_inv:
  assumes inv: "socket_inv s" and r: "ConnectSocket s Owner fd SA = (r, s')"
  shows "socket_inv s'"
proof (cases "s' = s")
  case False
  then obtain ow sa where o: "Owner = Some ow" "SA = Some sa"
    using r by (cases Owner; cases SA) (auto simp: ConnectSocket_def)
  then obtain c where c: "FindSocket s ow fd = Some c"
    using r False by (cases "FindSocket s ow fd") (auto simp: ConnectSocket_def split: if_splits)
  from FindSocket_live [OF inv c] obtain k where k: "Sockets s c = Some k" by blast
  have "ConnectNetlink s c sa = (r, s') \<or> ConnectUnix s c sa = (r, s')"
    using r False c o by (auto simp: ConnectSocket_def Let_def split: if_splits)
  with ConnectNetlink_inv [OF inv k] ConnectUnix_inv [OF inv k] show ?thesis by blast
qed (use inv in simp)

text \<open>Closing: what is left of the other sockets.\<close>

definition detach_socket :: "addr \<Rightarrow> socket \<Rightarrow> socket" where
  "detach_socket a k = (case SImpl k of Some (UnixImpl u) \<Rightarrow> k\<lparr>SImpl := Some (UnixImpl (detach a u))\<rparr> | _ \<Rightarrow> k)"

lemma socket_trivial_update: "SImpl k = Some i \<Longrightarrow> k\<lparr>SImpl := Some i\<rparr> = (k::socket)"
  by simp

lemma DetachOther_spec:
  assumes "Sockets s c = Some k" "impl_ok k" "c \<noteq> a"
  shows "Sockets (DetachOther a c s) = (Sockets s)(c \<mapsto> detach_socket a k)"
    "SocketList (DetachOther a c s) = SocketList s"
  using assms
  by (auto simp: DetachOther_def on_unix_def detach_socket_def detach_def socket_at_def unix_at_def impl_ok_def
      layout_simps fun_upd_idem split: option.splits implementation.splits)

lemma DetachOther_self [simp]: "DetachOther a a s = s"
  by (simp add: DetachOther_def)

lemma detach_socket_ok [simp]:
  "impl_ok (detach_socket a k) = impl_ok k" "SOwner (detach_socket a k) = SOwner k"
  "SFileDescriptor (detach_socket a k) = SFileDescriptor k" "SDomain (detach_socket a k) = SDomain k"
  by (auto simp: detach_socket_def impl_ok_def split: option.splits implementation.splits)

lemma DetachOther_fold:
  "distinct xs \<Longrightarrow> (\<And>c. c \<in> set xs \<Longrightarrow> \<exists>k. Sockets s c = Some k \<and> impl_ok k) \<Longrightarrow>
   Sockets (fold (DetachOther a) xs s) =
     (\<lambda>c. if c \<in> set xs \<and> c \<noteq> a then map_option (detach_socket a) (Sockets s c) else Sockets s c) \<and>
   SocketList (fold (DetachOther a) xs s) = SocketList s"
proof (induction xs arbitrary: s)
  case (Cons c xs)
  show ?case
  proof (cases "c = a")
    case True
    with Cons show ?thesis by (auto simp: fun_eq_iff)
  next
    case False
    from Cons.prems(2) [of c] obtain k where k: "Sockets s c = Some k" "impl_ok k" by auto
    note d = DetachOther_spec [OF k False]
    have "\<exists>j. Sockets (DetachOther a c s) e = Some j \<and> impl_ok j" if "e \<in> set xs" for e
      using Cons.prems(2) [of e] that k by (auto simp: d)
    with Cons.IH [of "DetachOther a c s"] Cons.prems(1) show ?thesis
      using False k by (auto simp: d fun_eq_iff)
  qed
qed simp

lemma DetachPending_fold:
  "(\<And>p. p \<in> set ps \<Longrightarrow> p \<noteq> a \<Longrightarrow> \<exists>k u. Sockets s p = Some k \<and> SImpl k = Some (UnixImpl u) \<and> ConnectedPeer u \<noteq> Some a) \<Longrightarrow>
   (\<forall>c. c \<noteq> a \<longrightarrow> Sockets (fold (DetachPending a) ps s) c = Sockets s c) \<and>
   SocketList (fold (DetachPending a) ps s) = SocketList s"
proof (induction ps arbitrary: s)
  case (Cons p ps)
  have d: "(\<forall>c. c \<noteq> a \<longrightarrow> Sockets (DetachPending a p s) c = Sockets s c) \<and>
      SocketList (DetachPending a p s) = SocketList s"
  proof (cases "p = a")
    case True
    then show ?thesis by (auto simp: DetachPending_def on_unix_def split: option.splits)
  next
    case False
    from Cons.prems [of p] False obtain k u where k: "Sockets s p = Some k" "SImpl k = Some (UnixImpl u)"
      "ConnectedPeer u \<noteq> Some a" by auto
    then have "unix_at s p = Some u" by (simp add: unix_at_def socket_at_def)
    then show ?thesis using k
      by (auto simp: DetachPending_def on_unix_def ClearPeer_def socket_at_def)
  qed
  then have "\<exists>k u. Sockets (DetachPending a p s) q = Some k \<and> SImpl k = Some (UnixImpl u) \<and> ConnectedPeer u \<noteq> Some a"
    if "q \<in> set ps" "q \<noteq> a" for q
    using Cons.prems [of q] that by auto
  with Cons.IH [of "DetachPending a p s"] d show ?case by auto
qed simp

lemma unix_sock_Some:
  "unix_sock s a = Some u \<longleftrightarrow> (\<exists>k. Sockets s a = Some k \<and> SImpl k = Some (UnixImpl u))"
  by (auto simp: unix_sock_def split: option.splits implementation.splits)

lemma socket_conn: "socket_inv s \<Longrightarrow> conn_inv (unix_sock s)"
  by (simp add: socket_inv_def)

lemma DetachAll_spec:
  assumes inv: "socket_inv s" and a: "Sockets s a = Some k"
  shows "(\<forall>c. c \<noteq> a \<longrightarrow> Sockets (DetachAll a s) c = map_option (detach_socket a) (Sockets s c)) \<and>
    SocketList (DetachAll a s) = SocketList s"
proof -
  let ?s1 = "fold (DetachOther a) (SocketList s) s"
  have "distinct (SocketList s)" using inv by (simp add: socket_inv_defs)
  note f = DetachOther_fold [OF this socket_inv_live [OF inv], of a]
  have s1: "Sockets ?s1 c = (if c = a then Some k else map_option (detach_socket a) (Sockets s c))" for c
    using f inv a by (auto simp: socket_inv_defs)
  have l1: "SocketList ?s1 = SocketList s" using f by blast
  have "unix_at ?s1 a = unix_at s a" using s1 a by (simp add: unix_at_def socket_at_def)
  moreover have "(\<forall>c. c \<noteq> a \<longrightarrow> Sockets (fold (DetachPending a) (PendingConnections u) ?s1) c = Sockets ?s1 c) \<and>
      SocketList (fold (DetachPending a) (PendingConnections u) ?s1) = SocketList ?s1" if u: "unix_at s a = Some u" for u
  proof (rule DetachPending_fold)
    fix p assume p: "p \<in> set (PendingConnections u)" "p \<noteq> a"
    have us: "unix_sock s a = Some u" using u a by (simp add: unix_at_live)
    from conn_pendingD [OF socket_conn [OF inv] us p(1)] obtain v where "unix_sock s p = Some v" by blast
    then obtain j where j: "Sockets s p = Some j" "SImpl j = Some (UnixImpl v)" by (auto simp: unix_sock_Some)
    with p show "\<exists>k u. Sockets ?s1 p = Some k \<and> SImpl k = Some (UnixImpl u) \<and> ConnectedPeer u \<noteq> Some a"
      by (simp add: s1 detach_socket_def)
  qed
  ultimately show ?thesis using s1 l1
    by (auto simp: DetachAll_def Let_def split: option.splits)
qed

lemma CloseSocket_cases:
  assumes inv: "socket_inv s" and r: "CloseSocket s Owner Files fd = (b, s')"
  shows "(\<not> b \<and> s' = s) \<or>
    (\<exists>ow a k d. \<not> b \<and> Owner = Some ow \<and> FindSocket s ow fd = Some a \<and> Sockets s a = Some k \<and>
       AlternateDescriptor Files fd a = Some d \<and> s' = set_socket a (k\<lparr>SFileDescriptor := int d\<rparr>) s) \<or>
    (\<exists>ow a k. b \<and> Owner = Some ow \<and> FindSocket s ow fd = Some a \<and> Sockets s a = Some k \<and>
       AlternateDescriptor Files fd a = None \<and> SocketList s' = remove1 a (SocketList s) \<and>
       Sockets s' = (\<lambda>c. if c = a then None else map_option (detach_socket a) (Sockets s c)))"
proof (cases "s' = s \<and> \<not> b")
  case False
  then obtain ow where o: "Owner = Some ow" using r by (cases Owner) (auto simp: CloseSocket_def)
  then obtain a where a: "FindSocket s ow fd = Some a"
    using r False by (cases "FindSocket s ow fd") (auto simp: CloseSocket_def split: if_splits)
  from FindSocket_live [OF inv a] obtain k where k: "Sockets s a = Some k" by blast
  note d = DetachAll_spec [OF inv k]
  have fd: "0 \<le> fd" using r False o by (auto simp: CloseSocket_def split: if_splits)
  show ?thesis
  proof (cases "AlternateDescriptor Files fd a")
    case None
    let ?s = "DestroySocket a (DetachAll a s)"
    have s': "b" "s' = ?s\<lparr>SocketList := remove_first (\<lambda>x. x = a) (SocketList ?s)\<rparr>"
      using r o a fd None by (simp_all add: CloseSocket_def Let_def)
    have "Sockets s' = (\<lambda>c. if c = a then None else map_option (detach_socket a) (Sockets s c))"
      using d by (auto simp: s' DestroySocket_def fun_eq_iff)
    moreover have "SocketList s' = remove1 a (SocketList s)"
      using d by (simp add: s' DestroySocket_def remove_first_eq_remove1)
    ultimately show ?thesis using s' o a k None by blast
  next
    case (Some e)
    then show ?thesis using r o a fd k by (auto simp: CloseSocket_def socket_at_def)
  qed
qed auto

lemma detach_socket_address: "Option.bind (SImpl (detach_socket a k)) impl_address = Option.bind (SImpl k) impl_address"
proof -
  have "impl_address (UnixImpl (detach a u)) = impl_address (UnixImpl u)" for u
    by (rule same_address_impl) (simp add: same_address_def detach_def ClearPeer_def RemovePendingConnectionFromUnixQueue_def)
  then show ?thesis by (simp add: detach_socket_def del: impl_address.simps split: option.split implementation.split)
qed

lemma bound_to_alt: "bound_to s a = (case Sockets s a of None \<Rightarrow> None | Some k \<Rightarrow> Option.bind (SImpl k) impl_address)"
  by (simp add: bound_to_def split: option.split)

lemma CloseSocket_inv:
  assumes inv: "socket_inv s" and r: "CloseSocket s Owner Files fd = (b, s')"
  shows "socket_inv s'"
  using CloseSocket_cases [OF inv r]
proof (elim disjE exE conjE)
  fix a k d assume k: "Sockets s a = Some k" and s': "s' = set_socket a (k\<lparr>SFileDescriptor := int d\<rparr>) s"
  have "bound_to s' = bound_to s" "unix_sock s' = unix_sock s"
    using k by (auto simp: s' set_socket_def bound_to_def unix_sock_def fun_eq_iff)
  moreover have "impl_ok k" using inv k by (simp add: socket_inv_defs)
  then have "impl_ok (k\<lparr>SFileDescriptor := int d\<rparr>)"
    by (auto simp: impl_ok_def split: option.splits implementation.splits)
  moreover have "a \<in> set (SocketList s)" using inv k unfolding socket_inv_defs by (metis option.distinct(1))
  ultimately show ?thesis using inv unfolding socket_inv_defs by (auto simp: s' set_socket_def)
next
  fix a k assume k: "Sockets s a = Some k" and l: "SocketList s' = remove1 a (SocketList s)"
    and s': "Sockets s' = (\<lambda>c. if c = a then None else map_option (detach_socket a) (Sockets s c))"
  have "unix_sock s' = (\<lambda>c. if c = a then None else map_option (detach a) (unix_sock s c))"
    by (auto simp: unix_sock_def s' detach_socket_def fun_eq_iff split: option.splits implementation.splits)
  moreover have "conn_inv (unix_sock s)" using inv by (simp add: socket_inv_def)
  ultimately have conn: "conn_inv (unix_sock s')" using conn_inv_close [of "unix_sock s" a] by simp
  have "bound_to s c = Some y" if "bound_to s' c = Some y" for c y
    using that by (auto simp: bound_to_alt s' detach_socket_address split: if_splits option.splits)
  then have "no_conflicts (bound_to s')" using inv unfolding socket_inv_defs by (blast intro: no_conflicts_mono)
  moreover have "distinct (SocketList s')" "set (SocketList s') = set (SocketList s) - {a}"
    "length (SocketList s') \<le> length (SocketList s)"
    using inv by (simp_all add: l socket_inv_defs length_remove1)
  ultimately show ?thesis using inv conn unfolding socket_inv_defs by (auto simp: s')
qed (use inv in simp)

lemma PopTracked_tracked:
  "(\<And>p. p \<in> set ps \<Longrightarrow> p \<in> set (SocketList s)) \<Longrightarrow>
   PopTracked s ps = (case ps of [] \<Rightarrow> (None, []) | p # qs \<Rightarrow> (Some p, qs))"
  by (cases ps) (auto simp: IsSocketTracked_def)

lemma unix_sock_tracked: "socket_inv s \<Longrightarrow> unix_sock s a = Some u \<Longrightarrow> a \<in> set (SocketList s)"
  unfolding socket_inv_defs unix_sock_Some by (metis option.distinct(1))

text \<open>The outcomes of accepting; the state after the client is taken from the queue comes first.\<close>

lemma AcceptSocket_cases:
  assumes inv: "socket_inv s"
    and r: "AcceptSocket s Owner fd AOwner AFiles afd ns ni nb = (res, s')"
  shows "(\<exists>e. res = Inl e \<and> e \<noteq> 0 \<and> s' = s) \<or>
    (\<exists>ow l k v c cs s1. Owner = Some ow \<and> FindSocket s ow fd = Some l \<and> Sockets s l = Some k \<and>
       unix_sock s l = Some v \<and> IsListening v \<and> PendingConnections v = c # cs \<and>
       s1 = set_impl l (UnixImpl (v\<lparr>PendingConnections := cs\<rparr>)) s \<and>
       ((\<exists>e. res = Inl e \<and> e \<noteq> 0 \<and> s' = s1 \<and>
           CreateSocket s1 (SDomain k) (SType k) (SProtocol k) AOwner afd ns ni nb = (Inl e, s1)) \<or>
        (\<exists>a s2. CreateSocket s1 (SDomain k) (SType k) (SProtocol k) AOwner afd ns ni nb = (Inr a, s2) \<and>
           res = Inr a \<and> s' = on_unix c (\<lambda>u. u\<lparr>ConnectedPeer := Some a\<rparr>)
                               (on_unix a (\<lambda>u. u\<lparr>ConnectedPeer := Some c\<rparr>) s2))))"
proof (cases "s' = s \<and> (\<exists>e. res = Inl e \<and> e \<noteq> 0)")
  case False
  obtain ow aw where o: "Owner = Some ow" "AOwner = Some aw"
    using r False by (cases Owner; cases AOwner) (auto simp: AcceptSocket_def socket_errors)
  obtain l where l: "FindSocket s ow fd = Some l" and fd: "0 \<le> fd" "0 \<le> afd"
    using r False o by (cases "FindSocket s ow fd") (auto simp: AcceptSocket_def socket_errors split: if_splits)
  from FindSocket_live [OF inv l] obtain k where k: "Sockets s l = Some k" "impl_ok k" by blast
  have sa: "socket_at s l = k" using k by (simp add: socket_at_def)
  have dom: "SDomain k = LINUX_AF_UNIX" using r False o l fd
    by (auto simp: AcceptSocket_def sa Let_def socket_errors split: if_splits)
  obtain v where v: "unix_sock s l = Some v" using unix_domain_sock [OF k dom] by blast
  then have va: "unix_at s l = Some v" using k by (simp add: unix_at_live)
  have lis: "IsListening v" using r False o l fd
    by (auto simp: AcceptSocket_def sa dom va Let_def socket_errors split: if_splits)
  have tr: "p \<in> set (PendingConnections v) \<Longrightarrow> \<exists>u. unix_sock s p = Some u" for p
    using conn_pendingD [OF socket_conn [OF inv] v] by blast
  then have pop: "PopTracked s (PendingConnections v) =
      (case PendingConnections v of [] \<Rightarrow> (None, []) | p # qs \<Rightarrow> (Some p, qs))"
    using unix_sock_tracked [OF inv] by (intro PopTracked_tracked) blast
  obtain c cs where p: "PendingConnections v = c # cs"
  proof (cases "PendingConnections v")
    case Nil
    then have nil: "v\<lparr>PendingConnections := []\<rparr> = v" by simp
    have "set_impl l (UnixImpl v) s = s"
      using v k unfolding unix_sock_Some by (auto simp: set_impl_def set_socket_def socket_at_def fun_upd_idem)
    with r False o l fd Nil pop lis show ?thesis
      by (auto simp: AcceptSocket_def sa dom va Let_def socket_errors nil)
  qed
  let ?s1 = "set_impl l (UnixImpl (v\<lparr>PendingConnections := cs\<rparr>)) s"
  obtain res2 s2 where cr: "CreateSocket ?s1 (SDomain k) (SType k) (SProtocol k) AOwner afd ns ni nb = (res2, s2)"
    by (metis surj_pair)
  show ?thesis
  proof (cases res2)
    case (Inl e)
    with CreateSocket_cases [OF cr] have e: "e \<noteq> 0" "s2 = ?s1" by auto
    then have "res = Inl e" "s' = ?s1" using r o l fd pop lis p cr Inl
      by (simp_all add: AcceptSocket_def sa dom va Let_def)
    with e o l k v lis p cr Inl show ?thesis by blast
  next
    case (Inr a)
    with CreateSocket_cases [OF cr] obtain j where j: "s2 = ?s1\<lparr>Sockets := (Sockets ?s1)(a \<mapsto> j), SocketList := SocketList ?s1 @ [a]\<rparr>"
      "SDomain j = SDomain k" "impl_ok j" by auto
    obtain u where u: "SImpl j = Some (UnixImpl u)" using j(2,3) dom
      by (auto simp: impl_ok_def layout_simps split: option.splits implementation.splits)
    have "unix_at s2 a \<noteq> None" using u by (simp add: unix_at_def socket_at_def j)
    moreover have "unix_at s2 c \<noteq> None"
    proof (cases "c = a")
      case False
      from tr [of c] p obtain w i where "Sockets s c = Some i" "SImpl i = Some (UnixImpl w)" by (auto simp: unix_sock_Some)
      with False show ?thesis by (auto simp: unix_at_def socket_at_def j)
    qed (use u in \<open>simp add: unix_at_def socket_at_def j\<close>)
    ultimately have "res = Inr a" "s' = on_unix c (\<lambda>u. u\<lparr>ConnectedPeer := Some a\<rparr>)
        (on_unix a (\<lambda>u. u\<lparr>ConnectedPeer := Some c\<rparr>) s2)"
      using r o l fd pop lis p cr Inr by (auto simp: AcceptSocket_def sa dom va Let_def)
    with o l k v lis p cr Inr show ?thesis by blast
  qed
qed auto

lemma AcceptSocket_pop_inv:
  assumes inv: "socket_inv s" and v: "unix_sock s l = Some v" and p: "PendingConnections v = c # cs"
  shows "socket_inv (set_impl l (UnixImpl (v\<lparr>PendingConnections := cs\<rparr>)) s)"
  using unix_at_pending [OF inv v] p by (intro set_unix_same_inv [OF inv v]) auto

lemma pending_once:
  assumes inv: "socket_inv s" and v: "unix_sock s l = Some v" and p: "PendingConnections v = c # cs"
    and w: "unix_sock (set_impl l (UnixImpl (v\<lparr>PendingConnections := cs\<rparr>)) s) d = Some w"
  shows "c \<notin> set (PendingConnections w)"
proof
  assume c: "c \<in> set (PendingConnections w)"
  note conn = socket_conn [OF inv]
  from conn_pendingD [OF conn v, of c] p obtain z where z: "unix_sock s c = Some z" "ConnectedPeer z = Some l" by auto
  show False
  proof (cases "d = l")
    case True
    with w c p unix_at_pending [OF inv v] show False by (auto simp: unix_sock_set_impl)
  next
    case False
    with w have "unix_sock s d = Some w" by (simp add: unix_sock_set_impl)
    from conn_pendingD [OF conn this c] z False show False by simp
  qed
qed

lemma AcceptSocket_pair:
  assumes inv: "socket_inv s" and v: "unix_sock s l = Some v" and p: "PendingConnections v = c # cs"
    and lis: "IsListening v" and k: "Sockets s l = Some k"
    and s1: "s1 = set_impl l (UnixImpl (v\<lparr>PendingConnections := cs\<rparr>)) s"
    and cr: "CreateSocket s1 (SDomain k) T P AOwner afd ns ni nb = (Inr a, s2)"
    and fresh: "\<And>a. ns = Some a \<Longrightarrow> Sockets s a = None"
      "\<And>g. nb = Some g \<Longrightarrow> length g = LINUX_UNIX_SOCKET_BUFFER_CAPACITY"
    and s': "s' = on_unix c (\<lambda>u. u\<lparr>ConnectedPeer := Some a\<rparr>) (on_unix a (\<lambda>u. u\<lparr>ConnectedPeer := Some c\<rparr>) s2)"
  shows "socket_inv s' \<and> a \<noteq> c \<and> Sockets s a = None \<and> SocketList s' = SocketList s @ [a] \<and>
    (\<exists>g uc. nb = Some g \<and> unix_sock s1 c = Some uc \<and> ConnectedPeer uc = Some l \<and>
       unix_sock s' = (unix_sock s1)(a \<mapsto> (NewUnixSocket g)\<lparr>ConnectedPeer := Some c\<rparr>, c \<mapsto> uc\<lparr>ConnectedPeer := Some a\<rparr>))"
proof -
  have inv1: "socket_inv s1" unfolding s1 by (rule AcceptSocket_pop_inv [OF inv v p])
  from CreateSocket_cases [OF cr] obtain j where j: "ns = Some a"
    "s2 = s1\<lparr>Sockets := (Sockets s1)(a \<mapsto> j), SocketList := SocketList s1 @ [a]\<rparr>"
    "SDomain j = SDomain k" "impl_ok j" and ji: "case SImpl j of Some (UnixImpl u) \<Rightarrow> \<exists>g. nb = Some g \<and> u = NewUnixSocket g
        | Some (InetImpl n) \<Rightarrow> n = NewNetworkSocket | Some (NetlinkImpl l) \<Rightarrow> l = NewNetlinkSocket | None \<Rightarrow> False" by auto
  have na: "Sockets s a = None" using fresh j by blast
  then have "a \<noteq> l" using k by auto
  with na have na1: "Sockets s1 a = None" by (simp add: s1)
  have inv2: "socket_inv s2" using na1 j fresh(2) by (intro CreateSocket_inv [OF inv1 cr]) auto
  have "SDomain k = LINUX_AF_UNIX" using unix_sock_domain [OF inv v] k by (simp add: socket_at_def)
  with j(3,4) ji obtain g where g: "nb = Some g" "SImpl j = Some (UnixImpl (NewUnixSocket g))"
    by (auto simp: impl_ok_def layout_simps split: option.splits implementation.splits)
  have u2: "unix_sock s2 = (unix_sock s1)(a \<mapsto> NewUnixSocket g)" unfolding j(2) unix_sock_add by (simp add: g)
  note conn = socket_conn [OF inv] and conn1 = socket_conn [OF inv1] and conn2 = socket_conn [OF inv2]
  from conn_pendingD [OF conn v, of c] p obtain z where z: "unix_sock s c = Some z" "ConnectedPeer z = Some l"
    "ConnectedPeer v = Some c \<longrightarrow> IsListening z" by auto
  define uc where "uc = (if c = l then v\<lparr>PendingConnections := cs\<rparr> else z)"
  have ac: "a \<noteq> c" using na z by (auto simp: unix_sock_Some)
  have uc: "unix_sock s1 c = Some uc" "ConnectedPeer uc = Some l" "ConnectedPeer v = Some c \<longrightarrow> IsListening uc"
    using z v lis by (auto simp: uc_def s1 unix_sock_set_impl)
  have uc2: "unix_sock s2 c = Some uc" using uc ac by (simp add: u2)
  have vl: "unix_sock s2 l = Some (v\<lparr>PendingConnections := cs\<rparr>)"
    using \<open>a \<noteq> l\<close> by (simp add: u2 s1 unix_sock_set_impl)
  have nc: "c \<notin> set (PendingConnections w)" if "unix_sock s2 d = Some w" for d w
    using that pending_once [OF inv v p, of d w] by (auto simp: u2 s1 NewUnixSocket_def split: if_splits)
  have x: "unix_sock s2 a = Some (NewUnixSocket g)" by (simp add: u2)
  have nx: "ConnectedPeer w \<noteq> Some a" if "unix_sock s2 d = Some w" for d w
  proof
    assume "ConnectedPeer w = Some a"
    with that have "unix_sock s1 d = Some w" by (auto simp: u2 NewUnixSocket_def split: if_splits)
    from conn_peerD [OF conn1 this \<open>ConnectedPeer w = Some a\<close>] na1 show False by (auto simp: unix_sock_Some)
  qed
  let ?s3 = "on_unix a (\<lambda>u. u\<lparr>ConnectedPeer := Some c\<rparr>) s2"
  have ok2: "sockets_ok s2" using inv2 by (simp add: socket_inv_def)
  have ok3: "sockets_ok ?s3" by (rule on_unix_ok(1) [OF ok2 x]) (simp add: same_address_def)
  have c3: "unix_sock ?s3 c = Some uc" using uc2 ac by (simp add: on_unix_eq(2) [OF x])
  have ok': "sockets_ok s'" unfolding s' by (rule on_unix_ok(1) [OF ok3 c3]) (simp add: same_address_def)
  have u': "unix_sock s' = (unix_sock s2)(a \<mapsto> (NewUnixSocket g)\<lparr>ConnectedPeer := Some c\<rparr>, c \<mapsto> uc\<lparr>ConnectedPeer := Some a\<rparr>)"
    unfolding s' on_unix_eq(2) [OF c3] on_unix_eq(2) [OF x] ..
  have "conn_inv (unix_sock s')" unfolding u'
    by (rule conn_inv_pair [OF conn2 uc2 uc(2) vl _ nc x _ _ nx]) (use uc(3) in \<open>simp_all add: NewUnixSocket_def\<close>)
  moreover have "SocketList s' = SocketList s @ [a]"
    unfolding s' on_unix_eq(3) [OF c3] on_unix_eq(3) [OF x] by (simp add: j s1)
  moreover have "unix_sock s' = (unix_sock s1)(a \<mapsto> (NewUnixSocket g)\<lparr>ConnectedPeer := Some c\<rparr>, c \<mapsto> uc\<lparr>ConnectedPeer := Some a\<rparr>)"
    unfolding u' u2 by simp
  ultimately show ?thesis using ok' ac na g uc by (simp add: socket_inv_def)
qed

lemma AcceptSocket_inv:
  assumes inv: "socket_inv s"
    and r: "AcceptSocket s Owner fd AOwner AFiles afd ns ni nb = (res, s')"
    and fresh: "\<And>a. ns = Some a \<Longrightarrow> Sockets s a = None"
      "\<And>g. nb = Some g \<Longrightarrow> length g = LINUX_UNIX_SOCKET_BUFFER_CAPACITY"
  shows "socket_inv s'"
proof -
  consider "s' = s" | (pop) l v c cs where "unix_sock s l = Some v" "PendingConnections v = c # cs"
      "s' = set_impl l (UnixImpl (v\<lparr>PendingConnections := cs\<rparr>)) s"
    | (made) l k v c cs s1 a s2 where "Sockets s l = Some k" "unix_sock s l = Some v" "IsListening v" "PendingConnections v = c # cs"
      "s1 = set_impl l (UnixImpl (v\<lparr>PendingConnections := cs\<rparr>)) s"
      "CreateSocket s1 (SDomain k) (SType k) (SProtocol k) AOwner afd ns ni nb = (Inr a, s2)"
      "s' = on_unix c (\<lambda>u. u\<lparr>ConnectedPeer := Some a\<rparr>) (on_unix a (\<lambda>u. u\<lparr>ConnectedPeer := Some c\<rparr>) s2)"
    using AcceptSocket_cases [OF inv r] by blast
  then show ?thesis
  proof cases
    case pop
    then show ?thesis using AcceptSocket_pop_inv [OF inv] by simp
  next
    case made
    from AcceptSocket_pair [OF inv made(2,4,3,1,5,6) fresh made(7)] show ?thesis by blast
  qed (use inv in simp)
qed

section \<open>Transfers\<close>

definition recv_contents :: "unix_socket \<Rightarrow> u8 list" where
  "recv_contents u =
     ring_contents (ReceiveBufferCapacity u) (the (ReceiveBuffer u)) (ReceiveReadOffset u) (ReceiveBufferedBytes u)"

lemma unix_ring_okD:
  "unix_ring_ok u \<Longrightarrow> \<exists>buf. ReceiveBuffer u = Some buf \<and> ReceiveBufferCapacity u = LINUX_UNIX_SOCKET_BUFFER_CAPACITY \<and>
     0 < ReceiveBufferCapacity u \<and> ReceiveReadOffset u < ReceiveBufferCapacity u \<and>
     ReceiveBufferedBytes u \<le> ReceiveBufferCapacity u \<and>
     ring_ok (ReceiveBufferCapacity u) buf (ReceiveReadOffset u) (ReceiveWriteOffset u) (ReceiveBufferedBytes u)"
  by (auto simp: unix_ring_ok_def ring_ok_def)

lemma recv_length [simp]: "length (recv_contents u) = ReceiveBufferedBytes u"
  by (simp add: recv_contents_def)

lemma recv_Nil: "recv_contents u = [] \<longleftrightarrow> ReceiveBufferedBytes u = 0"
  by (metis length_0_conv recv_length)

lemma recv_length_le: "unix_ring_ok u \<Longrightarrow> length (recv_contents u) \<le> LINUX_UNIX_SOCKET_BUFFER_CAPACITY"
  using unix_ring_okD by fastforce

text \<open>What a transfer keeps of a socket: all but the receive buffer.\<close>

definition same_but_ring :: "unix_socket \<Rightarrow> unix_socket \<Rightarrow> bool" where
  "same_but_ring u w \<longleftrightarrow>
     (\<exists>b c r wo n. w = u\<lparr>ReceiveBuffer := b, ReceiveBufferCapacity := c, ReceiveReadOffset := r,
        ReceiveWriteOffset := wo, ReceiveBufferedBytes := n\<rparr>)"

lemma same_but_ring_simps:
  "same_but_ring u w \<Longrightarrow>
   ConnectedPeer w = ConnectedPeer u \<and> PendingConnections w = PendingConnections u \<and>
   PendingConnectionCapacity w = PendingConnectionCapacity u \<and> IsListening w = IsListening u \<and>
   Path w = Path u \<and> IsAbstract w = IsAbstract u \<and> IsBound w = IsBound u \<and>
   IsShutdownRead w = IsShutdownRead u \<and> IsShutdownWrite w = IsShutdownWrite u"
  by (auto simp: same_but_ring_def)

lemma ReadFromUnix_spec:
  assumes ok: "unix_ring_ok u" and n: "0 < n" and r: "ReadFromUnixReceiveBuffer u True n = ((k, bytes), u')"
  shows "unix_ring_ok u' \<and> same_but_ring u u' \<and> k = int (length bytes) \<and> bytes = take n (recv_contents u) \<and>
    recv_contents u' = drop n (recv_contents u)"
proof -
  obtain buf where b: "ReceiveBuffer u = Some buf" "ReceiveBufferCapacity u = LINUX_UNIX_SOCKET_BUFFER_CAPACITY"
    "0 < ReceiveBufferCapacity u" "ReceiveReadOffset u < ReceiveBufferCapacity u"
    and ring: "ring_ok (ReceiveBufferCapacity u) buf (ReceiveReadOffset u) (ReceiveWriteOffset u) (ReceiveBufferedBytes u)"
    using unix_ring_okD [OF ok] by blast
  let ?c = "ReceiveBufferCapacity u" and ?r = "ReceiveReadOffset u" and ?m = "ReceiveBufferedBytes u"
  show ?thesis
  proof (cases "?m = 0")
    case True
    then have "recv_contents u = []" by (metis length_0_conv recv_length)
    moreover have "u = u\<lparr>ReceiveBuffer := ReceiveBuffer u, ReceiveBufferCapacity := ?c, ReceiveReadOffset := ?r,
        ReceiveWriteOffset := ReceiveWriteOffset u, ReceiveBufferedBytes := ?m\<rparr>" by simp
    then have "same_but_ring u u" unfolding same_but_ring_def by blast
    ultimately show ?thesis using r b n ok True by (simp add: ReadFromUnixReceiveBuffer_def)
  next
    case False
    let ?k = "if n < ?m then n else ?m"
    have k: "?k \<le> ?m" by simp
    have r': "k = int ?k" "bytes = ring_contents ?c buf ?r ?k"
      "u' = u\<lparr>ReceiveReadOffset := (?r + ?k) mod ?c, ReceiveBufferedBytes := ?m - ?k\<rparr>"
      using r b(1,3) n False unfolding ReadFromUnixReceiveBuffer_def Let_def ring_read_eq [OF b(3,4)] by auto
    have "bytes = take ?k (recv_contents u)"
      unfolding r'(2) recv_contents_def b(1) option.sel by (rule ring_contents_take [OF k])
    moreover have "recv_contents u' = drop ?k (recv_contents u)"
      using ring_contents_drop [OF k, of ?c buf ?r] b by (simp add: r' recv_contents_def)
    moreover have "unix_ring_ok u'" using ring_read_ok [OF ring k] b by (simp add: unix_ring_ok_def r')
    moreover have "u' = u\<lparr>ReceiveBuffer := ReceiveBuffer u, ReceiveBufferCapacity := ?c,
        ReceiveReadOffset := (?r + ?k) mod ?c, ReceiveWriteOffset := ReceiveWriteOffset u, ReceiveBufferedBytes := ?m - ?k\<rparr>"
      by (simp add: r')
    then have "same_but_ring u u'" unfolding same_but_ring_def by blast
    ultimately show ?thesis by (auto simp: r'(1) min_def)
  qed
qed

lemma AppendToReceiveBuffer_spec:
  assumes ok: "unix_ring_ok v" and r: "AppendToReceiveBuffer v Bytes = (k, v')"
  shows "unix_ring_ok v' \<and> same_but_ring v v' \<and>
    (if length (recv_contents v) = LINUX_UNIX_SOCKET_BUFFER_CAPACITY then k = LINUX_SOCKET_ERR_EAGAIN \<and> v' = v
     else k = int (min (length Bytes) (LINUX_UNIX_SOCKET_BUFFER_CAPACITY - length (recv_contents v))) \<and>
          recv_contents v' = recv_contents v @ take (nat k) Bytes)"
proof -
  obtain buf where b: "ReceiveBuffer v = Some buf" "ReceiveBufferCapacity v = LINUX_UNIX_SOCKET_BUFFER_CAPACITY"
    "0 < ReceiveBufferCapacity v" "ReceiveBufferedBytes v \<le> ReceiveBufferCapacity v"
    and ring: "ring_ok (ReceiveBufferCapacity v) buf (ReceiveReadOffset v) (ReceiveWriteOffset v) (ReceiveBufferedBytes v)"
    using unix_ring_okD [OF ok] by blast
  let ?c = "ReceiveBufferCapacity v" and ?m = "ReceiveBufferedBytes v"
  have same: "v = v\<lparr>ReceiveBuffer := ReceiveBuffer v, ReceiveBufferCapacity := ?c, ReceiveReadOffset := ReceiveReadOffset v,
        ReceiveWriteOffset := ReceiveWriteOffset v, ReceiveBufferedBytes := ?m\<rparr>" by simp
  show ?thesis
  proof (cases "?m = ?c")
    case True
    have "same_but_ring v v" unfolding same_but_ring_def using same by blast
    with True show ?thesis using r b ok by (simp add: AppendToReceiveBuffer_def)
  next
    case False
    let ?k = "if length Bytes < ?c - ?m then length Bytes else ?c - ?m"
    obtain buf' w where w: "ring_write ?c buf (ReceiveWriteOffset v) (take ?k Bytes) = (buf', w)"
      by (cases "ring_write ?c buf (ReceiveWriteOffset v) (take ?k Bytes)")
    have k: "length (take ?k Bytes) = ?k" by auto
    have fit: "?m + length (take ?k Bytes) \<le> ?c" using b by auto
    note rw = ring_write_spec [OF ring fit w, unfolded k]
    have r': "k = int ?k" "v' = v\<lparr>ReceiveBuffer := Some buf', ReceiveWriteOffset := w, ReceiveBufferedBytes := ?m + ?k\<rparr>"
      using r False b w by (auto simp: AppendToReceiveBuffer_def Let_def)
    have "unix_ring_ok v'" using rw b by (simp add: unix_ring_ok_def r')
    moreover have "recv_contents v' = recv_contents v @ take ?k Bytes"
      using rw b by (simp add: recv_contents_def r')
    moreover have "v' = v\<lparr>ReceiveBuffer := Some buf', ReceiveBufferCapacity := ?c, ReceiveReadOffset := ReceiveReadOffset v,
        ReceiveWriteOffset := w, ReceiveBufferedBytes := ?m + ?k\<rparr>" by (simp add: r')
    then have "same_but_ring v v'" unfolding same_but_ring_def by blast
    ultimately show ?thesis using False b by (auto simp: r'(1) min_def)
  qed
qed

lemma ring_update_inv:
  assumes inv: "socket_inv s" and u: "unix_sock s a = Some u" and same: "same_but_ring u u'" and ok: "unix_ring_ok u'"
  shows "socket_inv (set_impl a (UnixImpl u') s)"
  using same_but_ring_simps [OF same] unix_at_pending [OF inv u] ok
  by (intro set_unix_same_inv [OF inv u]) auto

lemma SocketRead_inv:
  assumes inv: "socket_inv s" and live: "\<And>a. GetSocketFromOpenFile N f = Some a \<Longrightarrow> Sockets s a \<noteq> None"
    and r: "SocketRead N s f g n = (res, s')"
  shows "socket_inv s'"
proof (cases "s' = s")
  case False
  then obtain a where a: "GetSocketFromOpenFile N f = Some a"
    using r by (cases "GetSocketFromOpenFile N f") (auto simp: SocketRead_def)
  obtain u k bytes u' where u: "unix_at s a = Some u" "ReadFromUnixReceiveBuffer u True n = ((k, bytes), u')"
    "s' = set_impl a (UnixImpl u') s" "0 < n"
    using r False a by (auto simp: SocketRead_def split: if_splits option.splits prod.splits)
  have us: "unix_sock s a = Some u" using u live [OF a] by (simp add: unix_at_live)
  have "unix_ring_ok u" using unix_at_pending [OF inv us] by simp
  with ReadFromUnix_spec [OF this u(4,2)] ring_update_inv [OF inv us, of u'] u(3) show ?thesis by simp
qed (use inv in simp)

lemma WriteToUnixPeerBuffer_cases:
  assumes r: "WriteToUnixPeerBuffer s a u g Bytes = (res, s')"
  shows "s' = s \<or> (\<exists>b v v'. ConnectedPeer u = Some b \<and> unix_at s b = Some v \<and>
    AppendToReceiveBuffer v Bytes = (res, v') \<and> s' = set_impl b (UnixImpl v') s)"
  using r by (auto simp: WriteToUnixPeerBuffer_def split: if_splits option.splits prod.splits)

lemma SocketWrite_inv:
  assumes inv: "socket_inv s" and live: "\<And>a. GetSocketFromOpenFile N f = Some a \<Longrightarrow> Sockets s a \<noteq> None"
    and r: "SocketWrite N s f g Bytes = (res, s')"
  shows "socket_inv s'"
proof (cases "s' = s")
  case False
  then obtain a where a: "GetSocketFromOpenFile N f = Some a"
    using r by (cases "GetSocketFromOpenFile N f") (auto simp: SocketWrite_def)
  obtain u where u: "unix_at s a = Some u" "WriteToUnixPeerBuffer s a u g Bytes = (res, s')"
    using r False a by (auto simp: SocketWrite_def split: if_splits option.splits)
  have us: "unix_sock s a = Some u" using u live [OF a] by (simp add: unix_at_live)
  obtain b v v' where b: "ConnectedPeer u = Some b" "unix_at s b = Some v" "AppendToReceiveBuffer v Bytes = (res, v')"
    "s' = set_impl b (UnixImpl v') s"
    using WriteToUnixPeerBuffer_cases [OF u(2)] False by blast
  from conn_peerD [OF socket_conn [OF inv] us b(1)] obtain w where "unix_sock s b = Some w" by blast
  then have "Sockets s b \<noteq> None" by (auto simp: unix_sock_Some)
  with b(2) have vs: "unix_sock s b = Some v" by (simp add: unix_at_live)
  have "unix_ring_ok v" using unix_at_pending [OF inv vs] by simp
  with AppendToReceiveBuffer_spec [OF this b(3)] ring_update_inv [OF inv vs, of v'] b(4) show ?thesis by simp
qed (use inv in simp)

section \<open>Runs\<close>

text \<open>
  One operation of the manager or of a socket's file. \<open>new\<close> returns addresses that are not in use and
  buffers of the requested size; a file operation is called on a file whose socket is live.
\<close>

inductive socket_step :: "socket_manager \<Rightarrow> socket_manager \<Rightarrow> bool" where
  create: "CreateSocket s D T P Owner fd ns ni nb = (res, s') \<Longrightarrow>
     (\<And>a. ns = Some a \<Longrightarrow> Sockets s a = None) \<Longrightarrow>
     (\<And>g. nb = Some g \<Longrightarrow> length g = LINUX_UNIX_SOCKET_BUFFER_CAPACITY) \<Longrightarrow> socket_step s s'"
| bind: "BindSocket s Owner fd SA np = (r, s') \<Longrightarrow> socket_step s s'"
| listen: "ListenSocket s Owner fd Backlog nq = (r, s') \<Longrightarrow> socket_step s s'"
| connect: "ConnectSocket s Owner fd SA = (r, s') \<Longrightarrow> socket_step s s'"
| accept: "AcceptSocket s Owner fd AOwner AFiles afd ns ni nb = (res, s') \<Longrightarrow>
     (\<And>a. ns = Some a \<Longrightarrow> Sockets s a = None) \<Longrightarrow>
     (\<And>g. nb = Some g \<Longrightarrow> length g = LINUX_UNIX_SOCKET_BUFFER_CAPACITY) \<Longrightarrow> socket_step s s'"
| shutdown: "ShutdownSocket s Owner fd How = (r, s') \<Longrightarrow> socket_step s s'"
| close: "CloseSocket s Owner Files fd = (b, s') \<Longrightarrow> socket_step s s'"
| read: "SocketRead N s f g n = (out, s') \<Longrightarrow>
     (\<And>a. GetSocketFromOpenFile N f = Some a \<Longrightarrow> Sockets s a \<noteq> None) \<Longrightarrow> socket_step s s'"
| "write": "SocketWrite N s f g Bytes = (r, s') \<Longrightarrow>
     (\<And>a. GetSocketFromOpenFile N f = Some a \<Longrightarrow> Sockets s a \<noteq> None) \<Longrightarrow> socket_step s s'"

lemma socket_step_inv: "socket_step s s' \<Longrightarrow> socket_inv s \<Longrightarrow> socket_inv s'"
proof (induction rule: socket_step.induct)
  case create then show ?case using CreateSocket_inv by metis
next
  case bind then show ?case by (rule BindSocket_inv [rotated])
next
  case listen then show ?case by (rule ListenSocket_inv [rotated])
next
  case connect then show ?case by (rule ConnectSocket_inv [rotated])
next
  case accept then show ?case using AcceptSocket_inv by metis
next
  case shutdown then show ?case by (rule ShutdownSocket_inv [rotated])
next
  case close then show ?case by (rule CloseSocket_inv [rotated])
next
  case read then show ?case using SocketRead_inv by metis
next
  case "write" then show ?case using SocketWrite_inv by metis
qed

lemma socket_steps_inv: "socket_step\<^sup>*\<^sup>* s s' \<Longrightarrow> socket_inv s \<Longrightarrow> socket_inv s'"
  by (induction rule: rtranclp_induct) (auto intro: socket_step_inv)

lemma DestroySocket_fold:
  "Sockets (fold DestroySocket xs s) = (\<lambda>a. if a \<in> set xs then None else Sockets s a) \<and>
   SocketList (fold DestroySocket xs s) = SocketList s"
  by (induction xs arbitrary: s) (auto simp: DestroySocket_def fun_eq_iff)

lemma CloseAllSockets_spec:
  "socket_inv s \<Longrightarrow> SocketList (CloseAllSockets s) = [] \<and> Sockets (CloseAllSockets s) a = None"
  unfolding CloseAllSockets_def using DestroySocket_fold [of "rev (SocketList s)" "s\<lparr>SocketList := []\<rparr>"]
  by (auto simp: socket_inv_defs)

section \<open>A connection is a byte channel\<close>

text \<open>Socket \<open>a\<close> of file \<open>f\<close> sends to socket \<open>b\<close> of file \<open>g\<close>.\<close>

definition stream_ok ::
    "(addr \<Rightarrow> pipe_node option) \<Rightarrow> open_file \<Rightarrow> open_file \<Rightarrow> addr \<Rightarrow> addr \<Rightarrow> socket_manager \<Rightarrow> bool" where
  "stream_ok N f g a b s \<longleftrightarrow>
     socket_inv s \<and> GetSocketFromOpenFile N (Some f) = Some a \<and> GetSocketFromOpenFile N (Some g) = Some b \<and>
     (\<exists>u. unix_sock s a = Some u \<and> ConnectedPeer u = Some b \<and> \<not> IsListening u \<and> \<not> IsShutdownWrite u) \<and>
     (\<exists>v. unix_sock s b = Some v \<and> \<not> IsListening v \<and> \<not> IsShutdownRead v) \<and>
     IsStreamType (SType (socket_at s a)) \<and> IsStreamType (SType (socket_at s b))"

definition stream_contents :: "addr \<Rightarrow> socket_manager \<Rightarrow> u8 list" where
  "stream_contents b s = recv_contents (the (unix_sock s b))"

definition stream_put ::
    "(addr \<Rightarrow> pipe_node option) \<Rightarrow> open_file \<Rightarrow> socket_manager \<Rightarrow> u8 list \<Rightarrow> nat \<times> socket_manager" where
  "stream_put N f s Bytes = (case SocketWrite N s (Some f) True Bytes of (r, s') \<Rightarrow> (nat r, s'))"

definition stream_get ::
    "(addr \<Rightarrow> pipe_node option) \<Rightarrow> open_file \<Rightarrow> socket_manager \<Rightarrow> nat \<Rightarrow> u8 list \<times> socket_manager" where
  "stream_get N g s n = (case SocketRead N s (Some g) True n of ((r, bytes), s') \<Rightarrow> (bytes, s'))"

lemma unix_sock_at:
  assumes "socket_inv s" and "unix_sock s a = Some u"
  shows "unix_at s a = Some u" "SDomain (socket_at s a) = LINUX_AF_UNIX" "Sockets s a \<noteq> None"
proof -
  show "Sockets s a \<noteq> None" using assms by (auto simp: unix_sock_Some)
  with assms show "unix_at s a = Some u" by (simp add: unix_at_live)
  show "SDomain (socket_at s a) = LINUX_AF_UNIX" using assms by (rule unix_sock_domain)
qed

lemma SType_set_impl: "Sockets s b \<noteq> None \<Longrightarrow> SType (socket_at (set_impl b i s) a) = SType (socket_at s a)"
  by (auto simp: socket_at_def)

lemma stream_ok_update:
  assumes ok: "stream_ok N f g a b s" and u: "unix_sock s c = Some u" and same: "same_but_ring u u'" and ring: "unix_ring_ok u'"
  shows "stream_ok N f g a b (set_impl c (UnixImpl u') s)"
proof -
  have inv: "socket_inv s" using ok by (simp add: stream_ok_def)
  have "Sockets s c \<noteq> None" using u by (auto simp: unix_sock_Some)
  then show ?thesis using ok ring_update_inv [OF inv u same ring] same_but_ring_simps [OF same] u
    unfolding stream_ok_def by (auto simp: unix_sock_set_impl SType_set_impl)
qed

lemma stream_put_law:
  assumes ok: "stream_ok N f g a b s" and p: "stream_put N f s Bytes = (k, s')"
  shows "stream_ok N f g a b s' \<and> k = min (length Bytes) (LINUX_UNIX_SOCKET_BUFFER_CAPACITY - length (stream_contents b s)) \<and>
    stream_contents b s' = stream_contents b s @ take k Bytes"
proof (cases "Bytes = []")
  case True
  with ok p show ?thesis by (auto simp: stream_put_def SocketWrite_def stream_ok_def)
next
  case False
  obtain u v where inv: "socket_inv s" and u: "unix_sock s a = Some u" "ConnectedPeer u = Some b" "\<not> IsListening u" "\<not> IsShutdownWrite u"
    and v: "unix_sock s b = Some v" "\<not> IsListening v" "\<not> IsShutdownRead v"
    and t: "IsStreamType (SType (socket_at s a))" "GetSocketFromOpenFile N (Some f) = Some a"
    using ok by (auto simp: stream_ok_def)
  note ua = unix_sock_at [OF inv u(1)] and va = unix_sock_at [OF inv v(1)]
  have np: "\<not> PeerIsListening s u" using u v va by (simp add: PeerIsListening_def)
  obtain r v' where w: "AppendToReceiveBuffer v Bytes = (r, v')" by fastforce
  have "SocketWrite N s (Some f) True Bytes = (r, set_impl b (UnixImpl v') s)"
    using False u v t ua va np w
    by (simp add: SocketWrite_def WriteToUnixPeerBuffer_def IsConnectedUnixStreamSocket_def)
  then have e: "k = nat r" "s' = set_impl b (UnixImpl v') s" using p by (simp_all add: stream_put_def)
  have ring: "unix_ring_ok v" using unix_at_pending [OF inv v(1)] by simp
  note sp = AppendToReceiveBuffer_spec [OF ring w]
  have "stream_ok N f g a b s'" unfolding e(2) using sp by (intro stream_ok_update [OF ok v(1)]) auto
  moreover have "stream_contents b s = recv_contents v" "stream_contents b s' = recv_contents v'"
    using v by (simp_all add: stream_contents_def e unix_sock_set_impl)
  moreover have "nat r = min (length Bytes) (LINUX_UNIX_SOCKET_BUFFER_CAPACITY - length (recv_contents v)) \<and>
      recv_contents v' = recv_contents v @ take (nat r) Bytes"
    using sp by (auto simp: LINUX_SOCKET_ERR_EAGAIN_def split: if_splits)
  ultimately show ?thesis by (simp add: e(1))
qed

lemma stream_get_law:
  assumes ok: "stream_ok N f g a b s" and p: "stream_get N g s n = (out, s')"
  shows "stream_ok N f g a b s' \<and> out = take n (stream_contents b s) \<and> stream_contents b s' = drop n (stream_contents b s)"
proof (cases "n = 0")
  case True
  with ok p show ?thesis by (auto simp: stream_get_def SocketRead_def stream_ok_def)
next
  case False
  obtain v where inv: "socket_inv s"
    and v: "unix_sock s b = Some v" "\<not> IsListening v" "\<not> IsShutdownRead v"
    and t: "IsStreamType (SType (socket_at s b))" "GetSocketFromOpenFile N (Some g) = Some b"
    using ok by (auto simp: stream_ok_def)
  note va = unix_sock_at [OF inv v(1)]
  obtain k bytes v' where w: "ReadFromUnixReceiveBuffer v True n = ((k, bytes), v')" by (metis surj_pair)
  have ring: "unix_ring_ok v" using unix_at_pending [OF inv v(1)] by simp
  have n: "0 < n" using False by simp
  note sp = ReadFromUnix_spec [OF ring n w]
  have c: "stream_contents b s = recv_contents v" using v by (simp add: stream_contents_def)
  show ?thesis
  proof (cases "k > 0")
    case True
    have "SocketRead N s (Some g) True n = ((k, bytes), set_impl b (UnixImpl v') s)"
      using False v t va w True by (simp add: SocketRead_def)
    then have e: "out = bytes" "s' = set_impl b (UnixImpl v') s" using p by (simp_all add: stream_get_def)
    have "stream_ok N f g a b s'" unfolding e(2) using sp by (intro stream_ok_update [OF ok v(1)]) auto
    then show ?thesis using sp c by (simp add: e stream_contents_def unix_sock_set_impl)
  next
    case k: False
    have "SocketRead N s (Some g) True n = ((EmptyRead s v, []), s)"
      using False v t va w k by (simp add: SocketRead_def)
    then have "out = []" "s' = s" using p by (simp_all add: stream_get_def)
    moreover have "recv_contents v = []" using sp k n by (simp add: recv_Nil)
    ultimately show ?thesis using ok c by simp
  qed
qed

lemma stream_bounded: "stream_ok N f g a b s \<Longrightarrow> length (stream_contents b s) \<le> LINUX_UNIX_SOCKET_BUFFER_CAPACITY"
  unfolding stream_ok_def stream_contents_def using unix_at_pending recv_length_le by fastforce

interpretation socket_stream: byte_channel "stream_ok N f g a b" "stream_contents b" LINUX_UNIX_SOCKET_BUFFER_CAPACITY
    "stream_put N f" "stream_get N g" for N f g a b
  using stream_bounded stream_put_law stream_get_law by unfold_locales blast+

section \<open>A sample connection\<close>

text \<open>A listener bound to \<open>/s\<close>, a client in its queue, and the connection accepted.\<close>

definition sample_address :: "u8 list" where "sample_address = [1, 0, 0x2F, 0x73]"

definition sample_buffer :: "u8 list" where
  "sample_buffer = replicate LINUX_UNIX_SOCKET_BUFFER_CAPACITY 0"

definition sample_listener :: unix_socket where
  "sample_listener = (NewUnixSocket sample_buffer)\<lparr>Path := Some [0x2F, 0x73], IsBound := True, IsListening := True,
     ListenBacklog := 1, PendingConnectionCapacity := 1\<rparr>"

definition sample_socket :: "int \<Rightarrow> unix_socket \<Rightarrow> socket" where
  "sample_socket fd u = \<lparr>SDomain = 1, SType = 1, SProtocol = 0, SOwner = 1, SFileDescriptor = fd, SImpl = Some (UnixImpl u)\<rparr>"

definition sample_listening :: socket_manager where
  "sample_listening = \<lparr>Sockets = [16 \<mapsto> sample_socket 3 sample_listener], SocketList = [16]\<rparr>"

definition sample_connecting :: socket_manager where
  "sample_connecting =
     \<lparr>Sockets = [16 \<mapsto> sample_socket 3 (sample_listener\<lparr>PendingConnections := [32]\<rparr>),
                 32 \<mapsto> sample_socket 4 ((NewUnixSocket sample_buffer)\<lparr>ConnectedPeer := Some 16\<rparr>)],
      SocketList = [16, 32]\<rparr>"

definition sample_connected :: socket_manager where
  "sample_connected =
     \<lparr>Sockets = [16 \<mapsto> sample_socket 3 sample_listener,
                 48 \<mapsto> sample_socket 5 ((NewUnixSocket sample_buffer)\<lparr>ConnectedPeer := Some 32\<rparr>),
                 32 \<mapsto> sample_socket 4 ((NewUnixSocket sample_buffer)\<lparr>ConnectedPeer := Some 48\<rparr>)],
      SocketList = [16, 32, 48]\<rparr>"

lemmas sample_socket_defs =
  sample_address_def sample_listener_def sample_socket_def sample_listening_def sample_connecting_def
  sample_connected_def NewUnixSocket_def

lemmas socket_constants =
  layout_simps LINUX_SOCK_STREAM_def LINUX_SOCK_DGRAM_def LINUX_SOCK_RAW_def LINUX_SOCK_SEQPACKET_def
  LINUX_SOCK_TYPE_MASK_def LINUX_SOCKADDR_FAMILY_SIZE_def SizeofSockAddrUn_def LINUX_LISTEN_SOMAXCONN_def
  MAX_TRACKED_SOCKETS_def MAX_PROCESSES_def MAX_OPEN_FILES_PER_PROCESS_def

lemmas socket_eval =
  socket_constants sample_socket_defs FindSocket_def socket_at_def unix_at_def IsStreamType_def FamilyMatches_def
  ReadLinuxAddressFamily_def UnixAddressPath_def ComputeUnixAddressPathLength_def AreUnixPathsEqual_def
  GetComparableUnixPath_def set_impl_def set_socket_def to_int32_def on_unix_def

lemma sample_create:
  "CreateSocket s 1 1 0 (Some 1) fd (Some a) True (Some sample_buffer) =
     (if fd < 0 then (Inl LINUX_SOCKET_ERR_EINVAL, s)
      else if length (SocketList s) \<ge> MAX_TRACKED_SOCKETS then (Inl LINUX_SOCKET_ERR_EMFILE, s)
      else (Inr a, s\<lparr>Sockets := (Sockets s)(a \<mapsto> sample_socket fd (NewUnixSocket sample_buffer)), SocketList := SocketList s @ [a]\<rparr>))"
  by (simp add: CreateSocket_def Let_def socket_constants sample_socket_def to_int32_def)

lemma sample_buffer_length: "length sample_buffer = LINUX_UNIX_SOCKET_BUFFER_CAPACITY"
  by (simp add: sample_buffer_def)

lemma sample_listening_reachable: "socket_step\<^sup>*\<^sup>* IPC_sockets_init sample_listening"
proof -
  let ?s1 = "\<lparr>Sockets = [16 \<mapsto> sample_socket 3 (NewUnixSocket sample_buffer)], SocketList = [16]\<rparr>"
  let ?s2 = "\<lparr>Sockets = [16 \<mapsto> sample_socket 3 ((NewUnixSocket sample_buffer)\<lparr>Path := Some [0x2F, 0x73], IsBound := True\<rparr>)],
      SocketList = [16]\<rparr>"
  have "CreateSocket IPC_sockets_init 1 1 0 (Some 1) 3 (Some 16) True (Some sample_buffer) = (Inr 16, ?s1)"
    by (simp add: sample_create IPC_sockets_init_def socket_constants)
  then have 1: "socket_step IPC_sockets_init ?s1"
    by (rule socket_step.create) (simp_all add: IPC_sockets_init_def sample_buffer_length)
  have "BindSocket ?s1 (Some 1) 3 (Some sample_address) True = (0, ?s2)"
    by (simp add: BindSocket_def BindUnix_def UnixAddressInUse_def socket_eval)
  then have 2: "socket_step ?s1 ?s2" by (rule socket_step.bind)
  have "ListenSocket ?s2 (Some 1) 3 1 True = (0, sample_listening)"
    by (simp add: ListenSocket_def ListenUnix_def socket_eval)
  then have 3: "socket_step ?s2 sample_listening" by (rule socket_step.listen)
  from 1 2 3 show ?thesis by (meson converse_rtranclp_into_rtranclp rtranclp.rtrancl_refl)
qed

lemma sample_connecting_reachable: "socket_step\<^sup>*\<^sup>* IPC_sockets_init sample_connecting"
proof -
  let ?s1 = "\<lparr>Sockets = [16 \<mapsto> sample_socket 3 sample_listener, 32 \<mapsto> sample_socket 4 (NewUnixSocket sample_buffer)],
      SocketList = [16, 32]\<rparr>"
  have "CreateSocket sample_listening 1 1 0 (Some 1) 4 (Some 32) True (Some sample_buffer) = (Inr 32, ?s1)"
    by (simp add: sample_create sample_listening_def socket_constants)
  then have 1: "socket_step sample_listening ?s1"
    by (rule socket_step.create) (simp_all add: sample_listening_def sample_buffer_length)
  have "ConnectSocket ?s1 (Some 1) 4 (Some sample_address) = (0, sample_connecting)"
    by (simp add: ConnectSocket_def ConnectUnix_def FindListening_def socket_eval fun_upd_twist)
  then have 2: "socket_step ?s1 sample_connecting" by (rule socket_step.connect)
  from sample_listening_reachable 1 2 show ?thesis by (meson rtranclp.rtrancl_into_rtrancl)
qed

lemma sample_accept:
  "AcceptSocket sample_connecting (Some 1) 3 (Some 1) Files 5 (Some 48) True (Some sample_buffer) = (Inr 48, sample_connected)"
proof -
  have "CreateSocket s 1 1 0 (Some 1) 5 (Some 48) True (Some sample_buffer) =
      (Inr 48, s\<lparr>Sockets := (Sockets s)(48 \<mapsto> sample_socket 5 (NewUnixSocket sample_buffer)), SocketList := SocketList s @ [48]\<rparr>)"
    if "length (SocketList s) = 2" for s
    using that by (simp add: sample_create socket_constants)
  then show ?thesis
    by (simp add: AcceptSocket_def IsSocketTracked_def socket_eval fun_upd_twist)
qed

lemma sample_connected_reachable: "socket_step\<^sup>*\<^sup>* IPC_sockets_init sample_connected"
proof -
  have "socket_step sample_connecting sample_connected"
    by (rule socket_step.accept [OF sample_accept]) (simp_all add: sample_connecting_def sample_buffer_length)
  with sample_connecting_reachable show ?thesis by (rule rtranclp.rtrancl_into_rtrancl)
qed

lemma sample_sockets_inv: "socket_inv sample_connecting" "socket_inv sample_connected"
  using socket_steps_inv [OF _ socket_inv_init] sample_connecting_reachable sample_connected_reachable by blast+

definition sample_nodes :: "addr \<Rightarrow> pipe_node option" where
  "sample_nodes = [64 \<mapsto> \<lparr>NodeData = Some 32, HasPipeOps = False\<rparr>, 80 \<mapsto> \<lparr>NodeData = Some 48, HasPipeOps = False\<rparr>]"

lemma sample_stream_ok:
  "stream_ok sample_nodes \<lparr>FNode = Some 64, FOpenFlags = 0\<rparr> \<lparr>FNode = Some 80, FOpenFlags = 0\<rparr> 32 48 sample_connected"
  using sample_sockets_inv
  by (simp add: stream_ok_def GetSocketFromOpenFile_def sample_nodes_def unix_sock_def socket_eval)

lemma sample_stream_empty: "stream_contents 48 sample_connected = []"
  by (simp add: stream_contents_def recv_contents_def ring_contents_def unix_sock_def sample_socket_defs)

section \<open>Properties\<close>

text \<open>
  C5. In every run of creating, binding, listening, connecting, accepting, shutting down, closing,
  reading and writing sockets: no pointer dangles - the peer of a Unix socket is a live Unix
  socket that points back or is listening, a pending connection is a live client whose peer is the
  listener, queued once and within the backlog - and no two sockets are bound to conflicting
  addresses.
\<close>

theorem socket_invariant:
  assumes "socket_step\<^sup>*\<^sup>* IPC_sockets_init s"
  shows "(\<forall>a. Sockets s a \<noteq> None \<longleftrightarrow> a \<in> set (SocketList s)) \<and> distinct (SocketList s) \<and>
     length (SocketList s) \<le> MAX_TRACKED_SOCKETS \<and>
     (\<forall>a u b. unix_sock s a = Some u \<and> ConnectedPeer u = Some b \<longrightarrow>
        (\<exists>v. unix_sock s b = Some v \<and> (ConnectedPeer v = Some a \<or> IsListening v))) \<and>
     (\<forall>a u. unix_sock s a = Some u \<longrightarrow>
        distinct (PendingConnections u) \<and> length (PendingConnections u) \<le> PendingConnectionCapacity u \<and>
        (\<forall>p\<in>set (PendingConnections u). \<exists>v. unix_sock s p = Some v \<and> ConnectedPeer v = Some a)) \<and>
     (\<forall>a b x y. bound_to s a = Some x \<and> bound_to s b = Some y \<and> a \<noteq> b \<longrightarrow> \<not> conflicting x y)"
proof -
  have inv: "socket_inv s" using socket_steps_inv [OF assms socket_inv_init] .
  note conn = socket_conn [OF inv]
  have "\<exists>v. unix_sock s b = Some v \<and> (ConnectedPeer v = Some a \<or> IsListening v)"
    if "unix_sock s a = Some u" "ConnectedPeer u = Some b" for a u b
    using conn_peerD [OF conn that] .
  moreover have "\<exists>v. unix_sock s p = Some v \<and> ConnectedPeer v = Some a"
    if "unix_sock s a = Some u" "p \<in> set (PendingConnections u)" for a u p
    using conn_pendingD [OF conn that] by blast
  moreover have "\<not> conflicting x y" if "bound_to s a = Some x" "bound_to s b = Some y" "a \<noteq> b" for a b x y
    using inv that unfolding socket_inv_defs no_conflicts_def by blast
  ultimately show ?thesis using inv unix_at_pending [OF inv] unfolding socket_inv_defs by blast
qed

theorem socket_invariant_witness: "\<exists>v. unix_sock sample_connected 48 = Some v \<and> ConnectedPeer v = Some 32"
proof -
  let ?u = "(NewUnixSocket sample_buffer)\<lparr>ConnectedPeer := Some 48\<rparr>"
  have "unix_sock sample_connected 32 = Some ?u" "ConnectedPeer ?u = Some 48"
    by (simp_all add: unix_sock_def sample_connected_def sample_socket_def)
  then have "\<exists>v. unix_sock sample_connected 48 = Some v \<and> (ConnectedPeer v = Some 32 \<or> IsListening v)"
    using socket_invariant [OF sample_connected_reachable] by blast
  then show ?thesis by (simp add: unix_sock_def sample_socket_defs)
qed

text \<open>
  C36. A connection between two Unix stream sockets is a bounded byte queue: over any sequence of
  writes at one end and reads at the other the bytes delivered, followed by those still in the
  receive buffer, are the bytes that were there followed by those accepted, in order, and at most
  the capacity is buffered.
\<close>

theorem connection_is_fifo:
  assumes "stream_ok N f g a b s" and "socket_stream.run N f g s ops = (sent, got, s')"
  shows "stream_ok N f g a b s' \<and> stream_contents b s @ sent = got @ stream_contents b s' \<and>
     length (stream_contents b s') \<le> LINUX_UNIX_SOCKET_BUFFER_CAPACITY"
  using assms by (rule socket_stream.run_fifo)

theorem connection_is_fifo_witness:
  "\<exists>sent got s'. socket_stream.run sample_nodes \<lparr>FNode = Some 64, FOpenFlags = 0\<rparr> \<lparr>FNode = Some 80, FOpenFlags = 0\<rparr>
      sample_connected [Put [7, 8, 9], Get 2] = (sent, got, s') \<and> sent = got @ stream_contents 48 s'"
proof -
  obtain sent got s' where r: "socket_stream.run sample_nodes \<lparr>FNode = Some 64, FOpenFlags = 0\<rparr> \<lparr>FNode = Some 80, FOpenFlags = 0\<rparr>
      sample_connected [Put [7, 8, 9], Get 2] = (sent, got, s')" by (metis surj_pair)
  from connection_is_fifo [OF sample_stream_ok r] r sample_stream_empty show ?thesis by auto
qed

section \<open>Further facts\<close>

text \<open>
  A successful accept takes the first client of the listener's queue and makes it and the new
  socket each other's peers: the new socket is fresh, tracked, owned by the accepting process and
  empty, the queue loses exactly that client, and no other socket changes.
\<close>

theorem accept_pairs_oldest_client:
  assumes "socket_inv s"
    and "\<And>a. ns = Some a \<Longrightarrow> Sockets s a = None" and "\<And>g. nb = Some g \<Longrightarrow> length g = LINUX_UNIX_SOCKET_BUFFER_CAPACITY"
    and "AcceptSocket s (Some ow) fd AOwner AFiles afd ns ni nb = (Inr a, s')"
  shows "\<exists>l v c cs uc w. FindSocket s ow fd = Some l \<and> unix_sock s l = Some v \<and> IsListening v \<and>
     PendingConnections v = c # cs \<and> Sockets s a = None \<and> SocketList s' = SocketList s @ [a] \<and>
     unix_sock s' c = Some uc \<and> ConnectedPeer uc = Some a \<and>
     unix_sock s' a = Some w \<and> ConnectedPeer w = Some c \<and> recv_contents w = [] \<and>
     (c \<noteq> l \<longrightarrow> unix_sock s' l = Some (v\<lparr>PendingConnections := cs\<rparr>)) \<and>
     (\<forall>d. d \<noteq> a \<and> d \<noteq> c \<and> d \<noteq> l \<longrightarrow> unix_sock s' d = unix_sock s d) \<and> socket_inv s'"
proof -
  from AcceptSocket_cases [OF assms(1,4)] obtain l k v c cs s1 s2 where
    l: "FindSocket s ow fd = Some l" "Sockets s l = Some k" "unix_sock s l = Some v" "IsListening v" "PendingConnections v = c # cs"
    and s1: "s1 = set_impl l (UnixImpl (v\<lparr>PendingConnections := cs\<rparr>)) s"
    and cr: "CreateSocket s1 (SDomain k) (SType k) (SProtocol k) AOwner afd ns ni nb = (Inr a, s2)"
    and s': "s' = on_unix c (\<lambda>u. u\<lparr>ConnectedPeer := Some a\<rparr>) (on_unix a (\<lambda>u. u\<lparr>ConnectedPeer := Some c\<rparr>) s2)"
    by auto
  from AcceptSocket_pair [OF assms(1) l(3,5,4,2) s1 cr assms(2,3) s'] obtain g uc where
    p: "socket_inv s'" "a \<noteq> c" "Sockets s a = None" "SocketList s' = SocketList s @ [a]"
    "unix_sock s' = (unix_sock s1)(a \<mapsto> (NewUnixSocket g)\<lparr>ConnectedPeer := Some c\<rparr>, c \<mapsto> uc\<lparr>ConnectedPeer := Some a\<rparr>)"
    by blast
  have "l \<noteq> a" using p(3) l(2) by auto
  have "recv_contents ((NewUnixSocket g)\<lparr>ConnectedPeer := Some c\<rparr>) = []"
    by (simp add: recv_contents_def NewUnixSocket_def ring_contents_def)
  with l p \<open>l \<noteq> a\<close> show ?thesis
    by (intro exI [of _ l] exI [of _ v] exI [of _ c] exI [of _ cs] exI [of _ "uc\<lparr>ConnectedPeer := Some a\<rparr>"]
        exI [of _ "(NewUnixSocket g)\<lparr>ConnectedPeer := Some c\<rparr>"]) (simp add: s1 unix_sock_set_impl)
qed

theorem accept_pairs_oldest_client_witness:
  "\<exists>w. unix_sock sample_connected 48 = Some w \<and> ConnectedPeer w = Some 32 \<and> recv_contents w = []"
proof -
  have v: "unix_sock sample_connecting 16 = Some (sample_listener\<lparr>PendingConnections := [32]\<rparr>)"
    by (simp add: unix_sock_def sample_connecting_def sample_socket_def)
  have "FindSocket sample_connecting 1 3 = Some 16" by (simp add: socket_eval)
  then show ?thesis
    using accept_pairs_oldest_client [OF sample_sockets_inv(1) _ _ sample_accept] v
    by (auto simp: sample_connecting_def sample_buffer_length)
qed

text \<open>
  Reading a Unix stream socket that is not shut down for reading: with bytes in the receive buffer
  it delivers the first ones and removes exactly them; with none it changes nothing, and returns
  EAGAIN while the peer can still send and end of file when there is no peer or the peer has shut
  down its writing.
\<close>

theorem socket_read_outcome:
  assumes "socket_inv s" and "GetSocketFromOpenFile N (Some f) = Some a" and "unix_sock s a = Some u"
    and "\<not> IsShutdownRead u" and "\<not> IsListening u" and "IsStreamType (SType (socket_at s a))" and "0 < n"
    and "SocketRead N s (Some f) True n = ((k, bytes), s')"
  shows "if recv_contents u = []
     then s' = s \<and> bytes = [] \<and>
       k = (if \<exists>b v. ConnectedPeer u = Some b \<and> unix_sock s b = Some v \<and> \<not> IsShutdownWrite v
            then LINUX_SOCKET_ERR_EAGAIN else 0)
     else k = int (length bytes) \<and> bytes = take n (recv_contents u) \<and>
       (\<exists>u'. unix_sock s' = (unix_sock s)(a \<mapsto> u') \<and> recv_contents u' = drop n (recv_contents u) \<and>
             same_but_ring u u' \<and> socket_inv s')"
proof -
  note ua = unix_sock_at [OF assms(1,3)]
  obtain r bs u' where w: "ReadFromUnixReceiveBuffer u True n = ((r, bs), u')" by (metis surj_pair)
  have ring: "unix_ring_ok u" using unix_at_pending [OF assms(1,3)] by simp
  note sp = ReadFromUnix_spec [OF ring assms(7) w]
  show ?thesis
  proof (cases "recv_contents u = []")
    case True
    then have "r = 0" using sp by simp
    then have e: "k = EmptyRead s u" "bytes = []" "s' = s" using assms ua w by (auto simp: SocketRead_def)
    have "EmptyRead s u = (if \<exists>b v. ConnectedPeer u = Some b \<and> unix_sock s b = Some v \<and> \<not> IsShutdownWrite v
            then LINUX_SOCKET_ERR_EAGAIN else 0)"
    proof (cases "ConnectedPeer u")
      case (Some b)
      from conn_peerD [OF socket_conn [OF assms(1)] assms(3) Some] obtain v where v: "unix_sock s b = Some v" by blast
      from unix_sock_at [OF assms(1) v] Some v show ?thesis by (simp add: EmptyRead_def)
    qed (simp add: EmptyRead_def)
    with True e show ?thesis by simp
  next
    case False
    then have "r > 0" using sp assms(7) by (simp add: recv_Nil)
    then have e: "k = r" "bytes = bs" "s' = set_impl a (UnixImpl u') s" using assms ua w by (simp_all add: SocketRead_def)
    have "socket_inv s'" unfolding e(3) using sp by (intro ring_update_inv [OF assms(1,3)]) auto
    with False sp e show ?thesis by (auto simp: unix_sock_set_impl)
  qed
qed

theorem socket_read_outcome_witness:
  "\<exists>s'. SocketRead sample_nodes sample_connected (Some \<lparr>FNode = Some 80, FOpenFlags = 0\<rparr>) True 4 =
     ((LINUX_SOCKET_ERR_EAGAIN, []), s')"
proof -
  let ?f = "\<lparr>FNode = Some 80, FOpenFlags = 0\<rparr>" and ?u = "(NewUnixSocket sample_buffer)\<lparr>ConnectedPeer := Some 32\<rparr>"
  obtain k bytes s' where r: "SocketRead sample_nodes sample_connected (Some ?f) True 4 = ((k, bytes), s')" by (metis surj_pair)
  have g: "GetSocketFromOpenFile sample_nodes (Some ?f) = Some 48" by (simp add: GetSocketFromOpenFile_def sample_nodes_def)
  have u: "unix_sock sample_connected 48 = Some ?u" by (simp add: unix_sock_def sample_connected_def sample_socket_def)
  have w: "unix_sock sample_connected 32 = Some ((NewUnixSocket sample_buffer)\<lparr>ConnectedPeer := Some 48\<rparr>)"
    by (simp add: unix_sock_def sample_connected_def sample_socket_def)
  have e: "recv_contents ?u = []" by (simp add: recv_contents_def NewUnixSocket_def ring_contents_def)
  have "IsStreamType (SType (socket_at sample_connected 48))" by (simp add: socket_eval)
  from socket_read_outcome [OF sample_sockets_inv(2) g u _ _ this _ r] e w r show ?thesis
    by (auto simp: NewUnixSocket_def)
qed

end
