(* ===== verification/Kernel_Heap.thy ===== *)
theory Kernel_Heap imports Kernel_Prelude begin

text \<open>
  \<open>Layers/Resource/KernelHeapManager.cpp\<close>: the slab allocator behind \<open>operator new\<close>. The heap is an
  array of pages; a page is free, holds objects of one of seven sizes, or belongs to a large block.
  The array \<open>Slabs\<close> describes the pages; the memory itself is \<open>Cells\<close>, 32-bit cells by address, since
  the free objects of a page are linked through their own first bytes and a block carries a header
  (\<open>Magic\<close>, \<open>SlabIndex\<close>, \<open>ClassIndex\<close>) in front of the bytes the caller gets. Address 0 is null.
\<close>

section \<open>Parameters\<close>

definition KERNEL_PAGE_SIZE :: nat where "KERNEL_PAGE_SIZE = 4096"
definition KERNEL_HEAP_PAGES :: nat where "KERNEL_HEAP_PAGES = 8192"
definition KERNEL_HEAP_SIZE :: nat where "KERNEL_HEAP_SIZE = KERNEL_HEAP_PAGES * KERNEL_PAGE_SIZE"
definition SLAB_CLASS_COUNT :: nat where "SLAB_CLASS_COUNT = 7"
definition MAX_SLAB_COUNT :: nat where
  "MAX_SLAB_COUNT = (if KERNEL_HEAP_SIZE div KERNEL_PAGE_SIZE > 0 then KERNEL_HEAP_SIZE div KERNEL_PAGE_SIZE else 1)"
definition ALLOCATION_MAGIC :: nat where "ALLOCATION_MAGIC = 0x4B484D47"
definition LARGE_CLASS_SENTINEL :: nat where "LARGE_CLASS_SENTINEL = 0xFFFF"
definition INVALID_LIST_INDEX :: int where "INVALID_LIST_INDEX = -1"
definition SLAB_CLASS_SIZES :: "nat list" where "SLAB_CLASS_SIZES = [64, 128, 256, 512, 1024, 2048, 4096]"
definition SizeofAllocationHeader :: nat where "SizeofAllocationHeader = 12"
definition SIZE_MAX :: nat where "SIZE_MAX = 18446744073709551615"

named_theorems heap_consts "constants of the kernel heap"
declare KERNEL_PAGE_SIZE_def [heap_consts] KERNEL_HEAP_PAGES_def [heap_consts] KERNEL_HEAP_SIZE_def [heap_consts]
  SLAB_CLASS_COUNT_def [heap_consts] MAX_SLAB_COUNT_def [heap_consts] ALLOCATION_MAGIC_def [heap_consts]
  LARGE_CLASS_SENTINEL_def [heap_consts] INVALID_LIST_INDEX_def [heap_consts]
  SizeofAllocationHeader_def [heap_consts] SIZE_MAX_def [heap_consts]

section \<open>State\<close>

datatype slab_state = SlabFree | SlabSmall | SlabLargeHead | SlabLargeTail

record slab =
  State :: slab_state
  ClassIndex :: nat
  OwnerOrSpan :: nat
  TotalObjects :: nat
  FreeObjects :: nat
  FreeList :: nat
  PrevAvailable :: int
  NextAvailable :: int

record kernel_heap =
  HeapStart :: nat
  HeapEnd :: nat
  ManagedHeapSize :: nat
  SlabCount :: nat
  Slabs :: "slab list"
  ClassAvailableHead :: "int list"
  Cells :: "nat \<Rightarrow> nat"

text \<open>A 64-bit pointer in memory is two cells, a header three.\<close>

definition load64 :: "(nat \<Rightarrow> nat) \<Rightarrow> nat \<Rightarrow> nat" where
  "load64 C a = C a + 4294967296 * C (a + 4)"

definition store64 :: "nat \<Rightarrow> nat \<Rightarrow> (nat \<Rightarrow> nat) \<Rightarrow> nat \<Rightarrow> nat" where
  "store64 a v C = C(a := v mod 4294967296, a + 4 := v div 4294967296)"

definition store_header :: "nat \<Rightarrow> nat \<Rightarrow> nat \<Rightarrow> (nat \<Rightarrow> nat) \<Rightarrow> nat \<Rightarrow> nat" where
  "store_header a SlabIndex Class C =
     C(a := ALLOCATION_MAGIC, a + 4 := SlabIndex mod 4294967296, a + 8 := Class mod 65536)"

definition upd_slab :: "nat \<Rightarrow> (slab \<Rightarrow> slab) \<Rightarrow> kernel_heap \<Rightarrow> kernel_heap" where
  "upd_slab i f h = h\<lparr>Slabs := (Slabs h)[i := f (Slabs h ! i)]\<rparr>"

section \<open>Initialisation\<close>

definition FreeSlab :: slab where
  "FreeSlab = \<lparr>State = SlabFree, ClassIndex = 0, OwnerOrSpan = 0, TotalObjects = 0, FreeObjects = 0,
     FreeList = 0, PrevAvailable = INVALID_LIST_INDEX, NextAvailable = INVALID_LIST_INDEX\<rparr>"

definition ResetAllocatorState :: "kernel_heap \<Rightarrow> kernel_heap" where
  "ResetAllocatorState h =
     h\<lparr>ClassAvailableHead := replicate SLAB_CLASS_COUNT INVALID_LIST_INDEX,
       Slabs := replicate MAX_SLAB_COUNT FreeSlab\<rparr>"

definition GetManagedHeapSize :: "kernel_heap \<Rightarrow> nat" where
  "GetManagedHeapSize h =
     (if HeapEnd h \<le> HeapStart h then (if HeapStart h = 0 then 0 else KERNEL_HEAP_SIZE)
      else let RangeSize = sub64 (HeapEnd h) (HeapStart h)
           in if RangeSize < KERNEL_HEAP_SIZE then RangeSize else KERNEL_HEAP_SIZE)"

definition GetEffectiveSlabCount :: "kernel_heap \<Rightarrow> nat" where
  "GetEffectiveSlabCount h = GetManagedHeapSize h div KERNEL_PAGE_SIZE"

text \<open>\<open>Initialize\<close>; the memory stays as it is.\<close>

definition Initialize :: "nat \<Rightarrow> nat \<Rightarrow> kernel_heap \<Rightarrow> kernel_heap" where
  "Initialize Start End h =
     (let ExpectedEnd = w64 (Start + KERNEL_HEAP_SIZE);
          End' = (if Start \<noteq> 0 \<and> ExpectedEnd > Start then
                    if End \<le> Start then ExpectedEnd
                    else if sub64 End Start > KERNEL_HEAP_SIZE then ExpectedEnd else End
                  else End);
          h1 = h\<lparr>HeapStart := Start, HeapEnd := End'\<rparr>;
          h2 = h1\<lparr>ManagedHeapSize := GetManagedHeapSize h1, SlabCount := GetEffectiveSlabCount h1\<rparr>
      in ResetAllocatorState h2)"

definition KernelHeapManager :: "nat \<Rightarrow> nat \<Rightarrow> (nat \<Rightarrow> nat) \<Rightarrow> kernel_heap" where
  "KernelHeapManager Start End Memory =
     Initialize Start End
       \<lparr>HeapStart = Start, HeapEnd = End, ManagedHeapSize = 0, SlabCount = 0, Slabs = [],
        ClassAvailableHead = [], Cells = Memory\<rparr>"

section \<open>Classes and pages\<close>

definition SelectClassIndex :: "nat \<Rightarrow> nat" where
  "SelectClassIndex Size =
     (if Size > SIZE_MAX - SizeofAllocationHeader then SLAB_CLASS_COUNT
      else case List.find (\<lambda>c. SLAB_CLASS_SIZES ! c \<ge> Size + SizeofAllocationHeader) [0..<SLAB_CLASS_COUNT] of
             None \<Rightarrow> SLAB_CLASS_COUNT
           | Some c \<Rightarrow> c)"

definition GetClassObjectSize :: "nat \<Rightarrow> nat" where
  "GetClassObjectSize c = (if c \<ge> SLAB_CLASS_COUNT then 0 else SLAB_CLASS_SIZES ! c)"

definition GetSlabBaseAddress :: "kernel_heap \<Rightarrow> nat \<Rightarrow> nat" where
  "GetSlabBaseAddress h i = w64 (HeapStart h + i * KERNEL_PAGE_SIZE)"

section \<open>The lists of available pages\<close>

definition LinkSlabIntoClassList :: "nat \<Rightarrow> nat \<Rightarrow> kernel_heap \<Rightarrow> kernel_heap" where
  "LinkSlabIntoClassList i c h =
     (let Descriptor = Slabs h ! i; HeadIndex = ClassAvailableHead h ! c
      in if PrevAvailable Descriptor \<noteq> INVALID_LIST_INDEX \<or> NextAvailable Descriptor \<noteq> INVALID_LIST_INDEX \<or>
            HeadIndex = int i
         then h
         else
           let h1 = upd_slab i (\<lambda>d. d\<lparr>PrevAvailable := INVALID_LIST_INDEX, NextAvailable := HeadIndex\<rparr>) h;
               h2 = (if HeadIndex \<noteq> INVALID_LIST_INDEX
                     then upd_slab (nat HeadIndex) (\<lambda>d. d\<lparr>PrevAvailable := int i\<rparr>) h1 else h1)
           in h2\<lparr>ClassAvailableHead := (ClassAvailableHead h2)[c := int i]\<rparr>)"

definition UnlinkSlabFromClassList :: "nat \<Rightarrow> nat \<Rightarrow> kernel_heap \<Rightarrow> kernel_heap" where
  "UnlinkSlabFromClassList i c h =
     (let PrevIndex = PrevAvailable (Slabs h ! i); NextIndex = NextAvailable (Slabs h ! i);
          h1 = (if PrevIndex \<noteq> INVALID_LIST_INDEX
                then upd_slab (nat PrevIndex) (\<lambda>d. d\<lparr>NextAvailable := NextIndex\<rparr>) h
                else if ClassAvailableHead h ! c = int i
                then h\<lparr>ClassAvailableHead := (ClassAvailableHead h)[c := NextIndex]\<rparr> else h);
          h2 = (if NextIndex \<noteq> INVALID_LIST_INDEX
                then upd_slab (nat NextIndex) (\<lambda>d. d\<lparr>PrevAvailable := PrevIndex\<rparr>) h1 else h1)
      in upd_slab i (\<lambda>d. d\<lparr>PrevAvailable := INVALID_LIST_INDEX, NextAvailable := INVALID_LIST_INDEX\<rparr>) h2)"

section \<open>Pages\<close>

text \<open>The loop of \<open>InitializeSmallSlab\<close>: each object is pushed on the free list.\<close>

definition PushObject :: "nat \<Rightarrow> nat \<times> (nat \<Rightarrow> nat) \<Rightarrow> nat \<times> (nat \<Rightarrow> nat)" where
  "PushObject ObjectAddress = (\<lambda>(list, C). (ObjectAddress, store64 ObjectAddress list C))"

definition InitializeSmallSlab :: "nat \<Rightarrow> nat \<Rightarrow> kernel_heap \<Rightarrow> bool \<times> kernel_heap" where
  "InitializeSmallSlab i c h =
     (if i \<ge> SlabCount h \<or> c \<ge> SLAB_CLASS_COUNT then (False, h)
      else let ObjectSize = GetClassObjectSize c
           in if ObjectSize = 0 then (False, h)
           else let ObjectsPerSlab = KERNEL_PAGE_SIZE div ObjectSize
           in if ObjectsPerSlab = 0 then (False, h)
           else let Base = GetSlabBaseAddress h i;
                    (list, C) = fold PushObject (map (\<lambda>j. w64 (Base + j * ObjectSize)) [0..<ObjectsPerSlab]) (0, Cells h);
                    h1 = upd_slab i (\<lambda>d. \<lparr>State = SlabSmall, ClassIndex = c, OwnerOrSpan = 1,
                           TotalObjects = ObjectsPerSlab, FreeObjects = ObjectsPerSlab, FreeList = list,
                           PrevAvailable = INVALID_LIST_INDEX, NextAvailable = INVALID_LIST_INDEX\<rparr>) (h\<lparr>Cells := C\<rparr>)
           in (True, LinkSlabIntoClassList i c h1))"

text \<open>The scan of \<open>FindFreeSlabRun\<close> from page \<open>i\<close> on, with the run found so far.\<close>

function FindRun :: "kernel_heap \<Rightarrow> nat \<Rightarrow> nat \<Rightarrow> nat \<Rightarrow> nat \<Rightarrow> int" where
  "FindRun h SlabSpan i RunStart RunLength =
     (if i \<ge> SlabCount h then -1
      else if State (Slabs h ! i) \<noteq> SlabFree then FindRun h SlabSpan (i + 1) RunStart 0
      else let RunStart' = (if RunLength = 0 then i else RunStart)
           in if RunLength + 1 = SlabSpan then int RunStart'
              else FindRun h SlabSpan (i + 1) RunStart' (RunLength + 1))"
  by pat_completeness auto
termination by (relation "measure (\<lambda>(h, n, i, _). SlabCount h - i)") auto

declare FindRun.simps [simp del]

definition FindFreeSlabRun :: "kernel_heap \<Rightarrow> nat \<Rightarrow> int" where
  "FindFreeSlabRun h SlabSpan =
     (if SlabSpan = 0 \<or> SlabSpan > SlabCount h then -1 else FindRun h SlabSpan 0 0 0)"

definition ReleaseSlabRun :: "nat \<Rightarrow> nat \<Rightarrow> kernel_heap \<Rightarrow> kernel_heap" where
  "ReleaseSlabRun StartSlab SlabSpan h =
     (if SlabSpan = 0 \<or> StartSlab + SlabSpan > SlabCount h then h
      else fold (\<lambda>i. upd_slab i (\<lambda>_. FreeSlab)) [StartSlab ..< StartSlab + SlabSpan] h)"

section \<open>Allocating\<close>

text \<open>Taking the first free object of a page.\<close>

definition AllocateFromSlab :: "nat \<Rightarrow> nat \<Rightarrow> kernel_heap \<Rightarrow> nat \<times> kernel_heap" where
  "AllocateFromSlab i c h =
     (let Descriptor = Slabs h ! i
      in if FreeList Descriptor = 0 \<or> FreeObjects Descriptor = 0 then (0, h)
         else let ObjectNode = FreeList Descriptor;
                  h1 = upd_slab i (\<lambda>d. d\<lparr>FreeList := load64 (Cells h) ObjectNode, FreeObjects := FreeObjects d - 1\<rparr>) h;
                  h2 = (if FreeObjects (Slabs h1 ! i) = 0 then UnlinkSlabFromClassList i c h1 else h1)
              in (w64 (ObjectNode + SizeofAllocationHeader), h2\<lparr>Cells := store_header ObjectNode i c (Cells h2)\<rparr>))"

definition AllocateSmall :: "nat \<Rightarrow> kernel_heap \<Rightarrow> nat \<times> kernel_heap" where
  "AllocateSmall c h =
     (if ClassAvailableHead h ! c = INVALID_LIST_INDEX then
        let NewSlabIndex = FindFreeSlabRun h 1
        in if NewSlabIndex < 0 then (0, h)
           else (case InitializeSmallSlab (nat NewSlabIndex) c h of
                   (False, h1) \<Rightarrow> (0, h1)
                 | (True, h1) \<Rightarrow>
                     if ClassAvailableHead h1 ! c = INVALID_LIST_INDEX then (0, h1)
                     else AllocateFromSlab (nat (ClassAvailableHead h1 ! c)) c h1)
      else AllocateFromSlab (nat (ClassAvailableHead h ! c)) c h)"

definition LargeHead :: "nat \<Rightarrow> slab" where
  "LargeHead Span = \<lparr>State = SlabLargeHead, ClassIndex = 0, OwnerOrSpan = Span mod 4294967296, TotalObjects = 1,
     FreeObjects = 0, FreeList = 0, PrevAvailable = INVALID_LIST_INDEX, NextAvailable = INVALID_LIST_INDEX\<rparr>"

definition LargeTail :: "nat \<Rightarrow> slab" where
  "LargeTail Owner = \<lparr>State = SlabLargeTail, ClassIndex = 0, OwnerOrSpan = Owner mod 4294967296, TotalObjects = 0,
     FreeObjects = 0, FreeList = 0, PrevAvailable = INVALID_LIST_INDEX, NextAvailable = INVALID_LIST_INDEX\<rparr>"

definition AllocateLarge :: "nat \<Rightarrow> kernel_heap \<Rightarrow> nat \<times> kernel_heap" where
  "AllocateLarge Size h =
     (if Size > SIZE_MAX - SizeofAllocationHeader then (0, h)
      else let SlabSpanNeeded = w64 (Size + SizeofAllocationHeader + (KERNEL_PAGE_SIZE - 1)) div KERNEL_PAGE_SIZE
      in if SlabSpanNeeded = 0 then (0, h)
      else let StartSlab = FindFreeSlabRun h SlabSpanNeeded
      in if StartSlab < 0 then (0, h)
      else let i = nat StartSlab;
               h1 = upd_slab i (\<lambda>_. LargeHead SlabSpanNeeded) h;
               h2 = fold (\<lambda>Offset. upd_slab (i + Offset) (\<lambda>_. LargeTail i)) [1..<SlabSpanNeeded] h1;
               HeaderAddress = GetSlabBaseAddress h2 i
           in (w64 (HeaderAddress + SizeofAllocationHeader),
               h2\<lparr>Cells := store_header HeaderAddress i LARGE_CLASS_SENTINEL (Cells h2)\<rparr>))"

definition kmalloc :: "nat \<Rightarrow> kernel_heap \<Rightarrow> nat \<times> kernel_heap" where
  "kmalloc Size h =
     (if Size = 0 then (0, h)
      else if SlabCount h = 0 then (0, h)
      else let c = SelectClassIndex Size
           in if c < SLAB_CLASS_COUNT then AllocateSmall c h else AllocateLarge Size h)"

section \<open>Freeing\<close>

definition FreeLarge :: "nat \<Rightarrow> nat \<Rightarrow> kernel_heap \<Rightarrow> kernel_heap" where
  "FreeLarge HeaderAddress i h =
     (let HeadDescriptor = Slabs h ! i; SlabSpan = OwnerOrSpan HeadDescriptor
      in if State HeadDescriptor \<noteq> SlabLargeHead then h
         else if SlabSpan = 0 \<or> i + SlabSpan > SlabCount h then h
         else if HeaderAddress \<noteq> GetSlabBaseAddress h i then h
         else ReleaseSlabRun i SlabSpan (h\<lparr>Cells := (Cells h)(HeaderAddress := 0)\<rparr>))"

definition FreeSmall :: "nat \<Rightarrow> nat \<Rightarrow> nat \<Rightarrow> kernel_heap \<Rightarrow> kernel_heap" where
  "FreeSmall HeaderAddress i c h =
     (let Descriptor = Slabs h ! i; Base = GetSlabBaseAddress h i; ObjectSize = GetClassObjectSize c
      in if State Descriptor \<noteq> SlabSmall \<or> ClassIndex Descriptor \<noteq> c then h
         else if ObjectSize = 0 then h
         else if HeaderAddress < Base \<or> HeaderAddress \<ge> w64 (Base + KERNEL_PAGE_SIZE) then h
         else if (HeaderAddress - Base) mod ObjectSize \<noteq> 0 then h
         else if FreeObjects Descriptor \<ge> TotalObjects Descriptor then h
         else
           let h1 = h\<lparr>Cells := (Cells h)(HeaderAddress := 0)\<rparr>;
               h2 = (if FreeObjects Descriptor = 0 then LinkSlabIntoClassList i c h1 else h1);
               h3 = h2\<lparr>Cells := store64 HeaderAddress (FreeList (Slabs h2 ! i)) (Cells h2)\<rparr>;
               h4 = upd_slab i (\<lambda>d. d\<lparr>FreeList := HeaderAddress, FreeObjects := FreeObjects d + 1\<rparr>) h3
           in if FreeObjects (Slabs h4 ! i) = TotalObjects (Slabs h4 ! i)
              then ReleaseSlabRun i 1 (UnlinkSlabFromClassList i c h4) else h4)"

definition kfree :: "nat \<Rightarrow> kernel_heap \<Rightarrow> kernel_heap" where
  "kfree Ptr h =
     (if Ptr = 0 then h
      else if ManagedHeapSize h = 0 \<or> SlabCount h = 0 then h
      else let HeapBase = HeapStart h; HeapLimit = w64 (HeapBase + SlabCount h * KERNEL_PAGE_SIZE)
      in if Ptr < w64 (HeapBase + SizeofAllocationHeader) \<or> Ptr \<ge> HeapLimit then h
      else let HeaderAddress = sub64 Ptr SizeofAllocationHeader
      in if HeaderAddress < HeapBase \<or> HeaderAddress \<ge> HeapLimit then h
      else if Cells h HeaderAddress \<noteq> ALLOCATION_MAGIC then h
      else let i = Cells h (HeaderAddress + 4); Class = Cells h (HeaderAddress + 8) mod 65536
      in if i \<ge> SlabCount h then h
      else if Class = LARGE_CLASS_SENTINEL then FreeLarge HeaderAddress i h
      else if Class \<ge> SLAB_CLASS_COUNT then h
      else FreeSmall HeaderAddress i Class h)"

section \<open>The operators\<close>

text \<open>
  \<open>operator new\<close> and \<open>operator delete\<close> with the heap as the active allocator: the throwing forms halt
  the processor when no memory is left (\<open>None\<close>), the \<open>nothrow\<close> forms return null.
\<close>

definition operator_new :: "nat \<Rightarrow> kernel_heap \<Rightarrow> (nat \<times> kernel_heap) option" where
  "operator_new Size h = (case kmalloc Size h of (p, h') \<Rightarrow> if p = 0 then None else Some (p, h'))"

definition operator_new_nothrow :: "nat \<Rightarrow> kernel_heap \<Rightarrow> nat \<times> kernel_heap" where
  "operator_new_nothrow Size h = kmalloc Size h"

definition operator_delete :: "nat \<Rightarrow> kernel_heap \<Rightarrow> kernel_heap" where
  "operator_delete Ptr h = (if Ptr = 0 then h else kfree Ptr h)"

end
