(* ===== verification/Kernel_Heap_Pages.thy ===== *)
theory Kernel_Heap_Pages imports Kernel_Heap begin

text \<open>
  Pages of the kernel heap: the shape of the state, the objects of a page and their addresses, the doubly
  linked lists of available pages (\<open>LinkSlabIntoClassList\<close> and \<open>UnlinkSlabFromClassList\<close> against the list they
  stand for), what makes the page of each state well formed, the blocks a page holds, and the operations
  on one page: taking an object, initialising a page, and the first-fit search for free pages.
\<close>

section \<open>Shape\<close>

definition heap_shape :: "kernel_heap \<Rightarrow> bool" where
  "heap_shape h \<longleftrightarrow>
     length (Slabs h) = MAX_SLAB_COUNT \<and> length (ClassAvailableHead h) = SLAB_CLASS_COUNT \<and>
     SlabCount h \<le> MAX_SLAB_COUNT \<and> 0 < HeapStart h \<and> HeapStart h mod 64 = 0 \<and>
     HeapStart h + KERNEL_HEAP_SIZE < 18446744073709551616 \<and>
     (0 < SlabCount h \<longrightarrow> 0 < ManagedHeapSize h)"

definition page_base :: "kernel_heap \<Rightarrow> nat \<Rightarrow> nat" where
  "page_base h i = HeapStart h + i * 4096"

lemma heap_shape_bounds:
  "heap_shape h \<Longrightarrow> i < SlabCount h \<Longrightarrow>
   i < length (Slabs h) \<and> i < MAX_SLAB_COUNT \<and> page_base h i + 4096 < 18446744073709551616 \<and> 0 < page_base h i \<and>
   GetSlabBaseAddress h i = page_base h i"
  by (auto simp: heap_shape_def page_base_def GetSlabBaseAddress_def heap_consts)

lemma class_cases: "c < SLAB_CLASS_COUNT \<Longrightarrow> c = 0 \<or> c = 1 \<or> c = 2 \<or> c = 3 \<or> c = 4 \<or> c = 5 \<or> c = 6"
  by (auto simp: SLAB_CLASS_COUNT_def)

text \<open>Each class divides the page.\<close>

lemma class_size:
  assumes "c < SLAB_CLASS_COUNT"
  shows "64 \<le> GetClassObjectSize c" "GetClassObjectSize c mod 64 = 0"
    "(KERNEL_PAGE_SIZE div GetClassObjectSize c) * GetClassObjectSize c = 4096"
    "0 < KERNEL_PAGE_SIZE div GetClassObjectSize c" "GetClassObjectSize c \<le> 4096"
  using class_cases [OF assms] by (auto simp: GetClassObjectSize_def SLAB_CLASS_SIZES_def heap_consts)

definition slots :: "nat \<Rightarrow> nat" where "slots c = KERNEL_PAGE_SIZE div GetClassObjectSize c"

definition objects :: "kernel_heap \<Rightarrow> nat \<Rightarrow> nat \<Rightarrow> nat list" where
  "objects h i c = map (\<lambda>j. page_base h i + j * GetClassObjectSize c) [0..<slots c]"

lemma objects_bounds:
  assumes c: "c < SLAB_CLASS_COUNT" and a: "a \<in> set (objects h i c)"
  shows "page_base h i \<le> a" "a + GetClassObjectSize c \<le> page_base h i + 4096"
    "(a - page_base h i) mod GetClassObjectSize c = 0"
proof -
  from a obtain j where j: "j < slots c" "a = page_base h i + j * GetClassObjectSize c"
    by (auto simp: objects_def)
  have "(j + 1) * GetClassObjectSize c \<le> slots c * GetClassObjectSize c" using j by (intro mult_right_mono) auto
  then show "a + GetClassObjectSize c \<le> page_base h i + 4096"
    using class_size(3) [OF c] j by (simp add: slots_def)
qed (use a in \<open>auto simp: objects_def\<close>)

lemma objects_distinct: "c < SLAB_CLASS_COUNT \<Longrightarrow> distinct (objects h i c)"
  unfolding objects_def using class_size(1) [of c] by (auto simp: distinct_map inj_on_def)

lemma objects_length [simp]: "length (objects h i c) = slots c"
  by (simp add: objects_def)

lemma objects_apart:
  assumes c: "c < SLAB_CLASS_COUNT" and a: "a \<in> set (objects h i c)" and b: "b \<in> set (objects h i c)" and ab: "a < b"
  shows "a + GetClassObjectSize c \<le> b"
proof -
  from a b obtain j k where j: "a = page_base h i + j * GetClassObjectSize c" "b = page_base h i + k * GetClassObjectSize c"
    by (auto simp: objects_def)
  with ab have "j * GetClassObjectSize c < k * GetClassObjectSize c" by simp
  then have "j < k" by (metis mult_less_cancel2)
  then have "(j + 1) * GetClassObjectSize c \<le> k * GetClassObjectSize c" by (intro mult_right_mono) auto
  then show ?thesis by (simp add: j)
qed

lemma object_slot:
  assumes "c < SLAB_CLASS_COUNT" and "page_base h i \<le> a" and "a < page_base h i + 4096"
    and "(a - page_base h i) mod GetClassObjectSize c = 0"
  shows "a \<in> set (objects h i c)"
proof -
  let ?s = "GetClassObjectSize c"
  have s: "0 < ?s" using class_size(1) [OF assms(1)] by simp
  define j where "j = (a - page_base h i) div ?s"
  have j: "a = page_base h i + j * ?s" using assms by (auto simp: j_def)
  have "j * ?s < slots c * ?s" using assms class_size(3) [OF assms(1)] j by (simp add: slots_def)
  then have "j < slots c" using s by simp
  with j show ?thesis by (auto simp: objects_def)
qed

text \<open>The places where the allocator keeps its own data: multiples of 64 above the start.\<close>

definition place :: "kernel_heap \<Rightarrow> nat \<Rightarrow> bool" where
  "place h a \<longleftrightarrow> HeapStart h \<le> a \<and> (a - HeapStart h) mod 64 = 0"

lemma place_objects: "c < SLAB_CLASS_COUNT \<Longrightarrow> a \<in> set (objects h i c) \<Longrightarrow> place h a"
proof -
  assume c: "c < SLAB_CLASS_COUNT" and a: "a \<in> set (objects h i c)"
  then obtain j where "a = HeapStart h + (i * 4096 + j * GetClassObjectSize c)"
    by (auto simp: objects_def page_base_def add.assoc)
  moreover have "64 dvd GetClassObjectSize c" using class_size(2) [OF c] by (simp add: mod_eq_0_iff_dvd)
  then have "64 dvd i * 4096 + j * GetClassObjectSize c" for j by (intro dvd_add dvd_mult) simp_all
  ultimately show ?thesis by (simp add: place_def mod_eq_0_iff_dvd)
qed

lemma place_base: "place h (page_base h i)"
  by (simp add: place_def page_base_def mod_eq_0_iff_dvd dvd_mult)

lemma place_apart: "place h a \<Longrightarrow> place h b \<Longrightarrow> a < b \<Longrightarrow> a + 64 \<le> b"
proof -
  assume a: "place h a" "place h b" "a < b"
  then obtain x y where "a = HeapStart h + 64 * x" "b = HeapStart h + 64 * y"
    by (metis le_add_diff_inverse dvd_def mod_eq_0_iff_dvd place_def)
  with a show ?thesis by auto
qed

lemma pages_apart: "i < j \<Longrightarrow> page_base h i + 4096 \<le> page_base h j"
  by (simp add: page_base_def)

section \<open>The doubly linked lists\<close>

text \<open>The index a list starts with, or the given one when it is empty; and the one it ends with.\<close>

definition first_or :: "int \<Rightarrow> nat list \<Rightarrow> int" where
  "first_or q xs = (if xs = [] then q else int (hd xs))"

definition last_or :: "int \<Rightarrow> nat list \<Rightarrow> int" where
  "last_or p xs = (if xs = [] then p else int (last xs))"

text \<open>The links of the pages \<open>xs\<close> between the indices \<open>p\<close> and \<open>q\<close>.\<close>

fun linked :: "slab list \<Rightarrow> int \<Rightarrow> nat list \<Rightarrow> int \<Rightarrow> bool" where
  "linked S p [] q = True"
| "linked S p (x # xs) q \<longleftrightarrow>
     PrevAvailable (S ! x) = p \<and> NextAvailable (S ! x) = first_or q xs \<and> linked S (int x) xs q"

lemma linked_cong:
  "(\<And>x. x \<in> set xs \<Longrightarrow> PrevAvailable (S' ! x) = PrevAvailable (S ! x) \<and> NextAvailable (S' ! x) = NextAvailable (S ! x)) \<Longrightarrow>
   linked S' p xs q = linked S p xs q"
  by (induction xs arbitrary: p) auto

lemma linked_append:
  "linked S p (xs @ ys) q \<longleftrightarrow> linked S p xs (first_or q ys) \<and> linked S (last_or p xs) ys q"
proof (induction xs arbitrary: p)
  case (Cons x xs)
  have "first_or q (xs @ ys) = first_or (first_or q ys) xs" by (auto simp: first_or_def)
  moreover have "last_or (int x) xs = last_or p (x # xs)" by (auto simp: last_or_def)
  ultimately show ?case using Cons by simp
qed (simp add: last_or_def)

lemma linked_set_next:
  assumes "linked S p (xs @ [x]) q" and "x \<notin> set xs" and "x < length S"
  shows "linked (S[x := (S ! x)\<lparr>NextAvailable := q'\<rparr>]) p (xs @ [x]) q'"
proof -
  have "linked (S[x := (S ! x)\<lparr>NextAvailable := q'\<rparr>]) p xs (int x) = linked S p xs (int x)"
    using assms(2) by (intro linked_cong) (metis nth_list_update_neq)
  with assms show ?thesis by (simp add: linked_append first_or_def)
qed

lemma linked_set_prev:
  assumes "linked S p (x # xs) q" and "x \<notin> set xs" and "x < length S"
  shows "linked (S[x := (S ! x)\<lparr>PrevAvailable := p'\<rparr>]) p' (x # xs) q"
proof -
  have "linked (S[x := (S ! x)\<lparr>PrevAvailable := p'\<rparr>]) (int x) xs q = linked S (int x) xs q"
    using assms(2) by (intro linked_cong) (metis nth_list_update_neq)
  with assms show ?thesis by simp
qed

lemma linked_other:
  "x \<notin> set xs \<Longrightarrow> linked (S[x := d]) p xs q = linked S p xs q"
  by (rule linked_cong) (metis nth_list_update_neq)

definition unlinked :: "slab \<Rightarrow> bool" where
  "unlinked d \<longleftrightarrow> PrevAvailable d = INVALID_LIST_INDEX \<and> NextAvailable d = INVALID_LIST_INDEX"

text \<open>One list with its head; and all of them: \<open>A c\<close> is the list of class \<open>c\<close>, and pages on no list have no links.\<close>

definition list_ok :: "kernel_heap \<Rightarrow> nat \<Rightarrow> nat list \<Rightarrow> bool" where
  "list_ok h c xs \<longleftrightarrow>
     linked (Slabs h) INVALID_LIST_INDEX xs INVALID_LIST_INDEX \<and>
     ClassAvailableHead h ! c = first_or INVALID_LIST_INDEX xs \<and> distinct xs \<and> (\<forall>i\<in>set xs. i < SlabCount h)"

definition lists_ok :: "kernel_heap \<Rightarrow> (nat \<Rightarrow> nat list) \<Rightarrow> bool" where
  "lists_ok h A \<longleftrightarrow>
     (\<forall>c<SLAB_CLASS_COUNT. list_ok h c (A c)) \<and>
     (\<forall>c<SLAB_CLASS_COUNT. \<forall>d<SLAB_CLASS_COUNT. c \<noteq> d \<longrightarrow> set (A c) \<inter> set (A d) = {}) \<and>
     (\<forall>i<SlabCount h. (\<forall>c<SLAB_CLASS_COUNT. i \<notin> set (A c)) \<longrightarrow> unlinked (Slabs h ! i))"

text \<open>What linking and unlinking leave of a page.\<close>

definition same_page :: "slab \<Rightarrow> slab \<Rightarrow> bool" where
  "same_page d e \<longleftrightarrow>
     State d = State e \<and> ClassIndex d = ClassIndex e \<and> OwnerOrSpan d = OwnerOrSpan e \<and>
     TotalObjects d = TotalObjects e \<and> FreeObjects d = FreeObjects e \<and> FreeList d = FreeList e"

definition same_pages :: "kernel_heap \<Rightarrow> kernel_heap \<Rightarrow> bool" where
  "same_pages h h' \<longleftrightarrow>
     HeapStart h' = HeapStart h \<and> ManagedHeapSize h' = ManagedHeapSize h \<and> SlabCount h' = SlabCount h \<and>
     Cells h' = Cells h \<and> length (Slabs h') = length (Slabs h) \<and>
     length (ClassAvailableHead h') = length (ClassAvailableHead h) \<and>
     (\<forall>i<length (Slabs h). same_page (Slabs h' ! i) (Slabs h ! i))"

lemma same_page_refl [simp]: "same_page d d"
  by (simp add: same_page_def)

lemma same_pages_refl [simp]: "same_pages h h"
  by (simp add: same_pages_def)

lemma int_valid [simp]: "int x \<noteq> INVALID_LIST_INDEX" "INVALID_LIST_INDEX \<noteq> int x"
  by (simp_all add: INVALID_LIST_INDEX_def)

lemma first_or_Cons [simp]: "first_or q (x # xs) = int x"
  by (simp add: first_or_def)

lemma first_or_nonneg: "first_or INVALID_LIST_INDEX xs \<noteq> INVALID_LIST_INDEX \<longleftrightarrow> xs \<noteq> []"
  by (auto simp: first_or_def INVALID_LIST_INDEX_def)

lemma same_page_trans: "same_page a b \<Longrightarrow> same_page b c \<Longrightarrow> same_page a c"
  by (simp add: same_page_def)

lemma same_page_update:
  "(\<And>d. same_page (f d) d) \<Longrightarrow> same_page (S[x := f (S ! x)] ! i) (S ! i)"
  by (cases "i = x"; cases "x < length S") (auto simp: list_update_beyond not_less)

lemma same_page_links [simp]:
  "same_page (d\<lparr>PrevAvailable := p\<rparr>) d" "same_page (d\<lparr>NextAvailable := q\<rparr>) d"
  "same_page (d\<lparr>PrevAvailable := p, NextAvailable := q\<rparr>) d"
  by (simp_all add: same_page_def)

lemma lists_disjoint: "lists_ok h A \<Longrightarrow> c < SLAB_CLASS_COUNT \<Longrightarrow> d < SLAB_CLASS_COUNT \<Longrightarrow> c \<noteq> d \<Longrightarrow> x \<in> set (A c) \<Longrightarrow> x \<notin> set (A d)"
  unfolding lists_ok_def by blast

lemma Link_spec:
  assumes sh: "heap_shape h" and ok: "lists_ok h A" and c: "c < SLAB_CLASS_COUNT" and i: "i < SlabCount h"
    and new: "\<forall>c<SLAB_CLASS_COUNT. i \<notin> set (A c)"
  shows "lists_ok (LinkSlabIntoClassList i c h) (A(c := i # A c)) \<and> same_pages h (LinkSlabIntoClassList i c h)"
proof -
  let ?S = "Slabs h" and ?h' = "LinkSlabIntoClassList i c h" and ?xs = "A c"
  have len: "x < length ?S" if "x < SlabCount h" for x using heap_shape_bounds [OF sh that] by blast
  have lc: "c < length (ClassAvailableHead h)" using sh c by (simp add: heap_shape_def)
  have u: "unlinked (?S ! i)" using ok i new by (simp add: lists_ok_def)
  have l: "list_ok h d (A d)" if "d < SLAB_CLASS_COUNT" for d using ok that by (simp add: lists_ok_def)
  have hd: "ClassAvailableHead h ! c = first_or INVALID_LIST_INDEX ?xs" using l [OF c] by (simp add: list_ok_def)
  have ni: "first_or INVALID_LIST_INDEX ?xs \<noteq> int i"
    using new c by (auto simp: first_or_def INVALID_LIST_INDEX_def dest: hd_in_set)
  let ?S1 = "?S[i := (?S ! i)\<lparr>PrevAvailable := INVALID_LIST_INDEX, NextAvailable := first_or INVALID_LIST_INDEX ?xs\<rparr>]"
  define S' where "S' = (if ?xs = [] then ?S1 else ?S1[hd ?xs := (?S1 ! hd ?xs)\<lparr>PrevAvailable := int i\<rparr>])"
  have h': "?h' = h\<lparr>Slabs := S', ClassAvailableHead := (ClassAvailableHead h)[c := int i]\<rparr>"
    using u ni by (auto simp: LinkSlabIntoClassList_def Let_def unlinked_def hd first_or_nonneg upd_slab_def S'_def first_or_def)
  have other: "PrevAvailable (S' ! x) = PrevAvailable (?S ! x) \<and> NextAvailable (S' ! x) = NextAvailable (?S ! x)"
    if "x \<noteq> i" "x \<notin> set ?xs" for x
  proof -
    have "?xs \<noteq> [] \<longrightarrow> x \<noteq> hd ?xs" using that(2) by (auto dest: hd_in_set)
    with that(1) show ?thesis by (auto simp: S'_def)
  qed
  have "linked S' INVALID_LIST_INDEX (i # ?xs) INVALID_LIST_INDEX"
  proof (cases ?xs)
    case Nil
    then show ?thesis using len [OF i] by (simp add: S'_def)
  next
    case (Cons x xs)
    have x: "x \<notin> set xs" "x < length ?S" "linked ?S INVALID_LIST_INDEX (x # xs) INVALID_LIST_INDEX"
      using l [OF c] len by (auto simp: Cons list_ok_def)
    have ix: "i \<notin> set (x # xs)" using new c Cons by metis
    then have "linked ?S1 INVALID_LIST_INDEX (x # xs) INVALID_LIST_INDEX"
      using x(3) by (subst linked_other) auto
    from linked_set_prev [OF this x(1), of "int i"] x(2) Cons
    have "linked S' (int i) (x # xs) INVALID_LIST_INDEX" by (simp add: S'_def)
    moreover have "S' ! i = ?S1 ! i" using ix Cons by (simp add: S'_def)
    ultimately show ?thesis using len [OF i] Cons by simp
  qed
  then have "list_ok ?h' c (i # ?xs)"
    using l [OF c] lc i new c by (auto simp: h' list_ok_def)
  moreover have "list_ok ?h' d (A d)" if d: "d < SLAB_CLASS_COUNT" "d \<noteq> c" for d
  proof -
    have "linked S' INVALID_LIST_INDEX (A d) INVALID_LIST_INDEX = linked ?S INVALID_LIST_INDEX (A d) INVALID_LIST_INDEX"
      using new d(1) lists_disjoint [OF ok d(1) c d(2)] by (intro linked_cong other) auto
    with l [OF d(1)] d show ?thesis by (simp add: h' list_ok_def)
  qed
  moreover have "unlinked (Slabs ?h' ! x)" if "x < SlabCount h" "\<forall>d<SLAB_CLASS_COUNT. x \<notin> set ((A(c := i # A c)) d)" for x
  proof -
    have "x \<noteq> i" "x \<notin> set ?xs" "\<forall>d<SLAB_CLASS_COUNT. x \<notin> set (A d)" using that(2) c by (auto split: if_splits)
    with other [of x] ok that(1) show ?thesis by (simp add: lists_ok_def unlinked_def h')
  qed
  ultimately have "lists_ok ?h' (A(c := i # A c))"
    using ok new unfolding lists_ok_def by (auto simp: h')
  moreover have "same_pages h ?h'"
  proof -
    have 1: "same_page (?S1 ! x) (?S ! x)" for x by (rule same_page_update) simp
    have "same_page (S' ! x) (?S1 ! x)" for x unfolding S'_def by (auto intro: same_page_update)
    with 1 have "same_page (S' ! x) (?S ! x)" for x by (blast intro: same_page_trans)
    then show ?thesis by (simp add: same_pages_def h' S'_def)
  qed
  ultimately show ?thesis by blast
qed

lemma Unlink_spec:
  assumes sh: "heap_shape h" and ok: "lists_ok h A" and c: "c < SLAB_CLASS_COUNT" and i: "i \<in> set (A c)"
  shows "lists_ok (UnlinkSlabFromClassList i c h) (A(c := remove1 i (A c))) \<and> same_pages h (UnlinkSlabFromClassList i c h)"
proof -
  let ?S = "Slabs h" and ?h' = "UnlinkSlabFromClassList i c h"
  have len: "x < length ?S" if "x < SlabCount h" for x using heap_shape_bounds [OF sh that] by blast
  have lc: "c < length (ClassAvailableHead h)" using sh c by (simp add: heap_shape_def)
  have l: "list_ok h d (A d)" if "d < SLAB_CLASS_COUNT" for d using ok that by (simp add: lists_ok_def)
  obtain us vs where A: "A c = us @ i # vs" using i by (meson split_list)
  have dist: "i \<notin> set us" "i \<notin> set vs" "distinct us" "distinct vs" "set us \<inter> set vs = {}"
    using l [OF c] by (auto simp: list_ok_def A)
  have rm: "remove1 i (A c) = us @ vs" using dist by (simp add: A remove1_append)
  let ?p = "last_or INVALID_LIST_INDEX us" and ?q = "first_or INVALID_LIST_INDEX vs"
  have lk: "linked ?S INVALID_LIST_INDEX us (int i)" "PrevAvailable (?S ! i) = ?p" "NextAvailable (?S ! i) = ?q"
    "linked ?S (int i) vs INVALID_LIST_INDEX"
    using l [OF c] by (simp_all add: list_ok_def A linked_append)
  have hd: "ClassAvailableHead h ! c = first_or INVALID_LIST_INDEX (us @ i # vs)" using l [OF c] by (simp add: list_ok_def A)
  have bd: "x < length ?S" if "x \<in> set (A c)" for x using l [OF c] that len by (simp add: list_ok_def)
  define S1 where "S1 = (if us = [] then ?S else ?S[last us := (?S ! last us)\<lparr>NextAvailable := ?q\<rparr>])"
  define S2 where "S2 = (if vs = [] then S1 else S1[hd vs := (S1 ! hd vs)\<lparr>PrevAvailable := ?p\<rparr>])"
  define S3 where "S3 = S2[i := (S2 ! i)\<lparr>PrevAvailable := INVALID_LIST_INDEX, NextAvailable := INVALID_LIST_INDEX\<rparr>]"
  define H where "H = (if us = [] then (ClassAvailableHead h)[c := ?q] else ClassAvailableHead h)"
  have h': "?h' = h\<lparr>Slabs := S3, ClassAvailableHead := H\<rparr>"
    unfolding UnlinkSlabFromClassList_def Let_def lk(2,3) hd S3_def S2_def S1_def H_def
    by (cases us rule: rev_cases; cases vs) (auto simp: upd_slab_def first_or_def last_or_def)
  have other: "PrevAvailable (S3 ! x) = PrevAvailable (?S ! x) \<and> NextAvailable (S3 ! x) = NextAvailable (?S ! x)"
    if "x \<notin> set (A c)" for x
  proof -
    have "x \<noteq> i" "us \<noteq> [] \<longrightarrow> x \<noteq> last us" "vs \<noteq> [] \<longrightarrow> x \<noteq> hd vs" using that by (auto simp: A)
    then show ?thesis by (auto simp: S3_def S2_def S1_def)
  qed
  have "linked S3 INVALID_LIST_INDEX us ?q"
  proof (cases us rule: rev_cases)
    case (snoc ws w)
    have "linked S1 INVALID_LIST_INDEX us ?q"
      using linked_set_next [of ?S INVALID_LIST_INDEX ws w "int i" ?q] lk(1) dist(3) bd [of w] by (simp add: S1_def snoc A)
    moreover have "linked S3 INVALID_LIST_INDEX us ?q = linked S1 INVALID_LIST_INDEX us ?q"
    proof (rule linked_cong)
      fix x assume "x \<in> set us"
      then have "x \<noteq> i" "vs \<noteq> [] \<longrightarrow> x \<noteq> hd vs" using dist by (auto dest: hd_in_set)
      then show "PrevAvailable (S3 ! x) = PrevAvailable (S1 ! x) \<and> NextAvailable (S3 ! x) = NextAvailable (S1 ! x)"
        by (auto simp: S3_def S2_def)
    qed
    ultimately show ?thesis by simp
  qed simp
  moreover have "linked S3 ?p vs INVALID_LIST_INDEX"
  proof (cases vs)
    case (Cons w ws)
    have "linked S1 (int i) vs INVALID_LIST_INDEX = linked ?S (int i) vs INVALID_LIST_INDEX"
    proof (rule linked_cong)
      fix x assume "x \<in> set vs"
      then have "us \<noteq> [] \<longrightarrow> x \<noteq> last us" using dist by (auto dest: last_in_set)
      then show "PrevAvailable (S1 ! x) = PrevAvailable (?S ! x) \<and> NextAvailable (S1 ! x) = NextAvailable (?S ! x)"
        by (auto simp: S1_def)
    qed
    with lk(4) have "linked S1 (int i) (w # ws) INVALID_LIST_INDEX" by (simp add: Cons)
    from linked_set_prev [OF this, of ?p] dist(4) bd [of w]
    have "linked S2 ?p vs INVALID_LIST_INDEX" by (simp add: S2_def Cons A S1_def)
    moreover have "linked S3 ?p vs INVALID_LIST_INDEX = linked S2 ?p vs INVALID_LIST_INDEX"
      unfolding S3_def using dist(2) by (rule linked_other)
    ultimately show ?thesis by simp
  qed simp
  ultimately have "linked S3 INVALID_LIST_INDEX (us @ vs) INVALID_LIST_INDEX" by (simp add: linked_append)
  moreover have "H ! c = first_or INVALID_LIST_INDEX (us @ vs)" using lc hd by (auto simp: H_def first_or_def)
  ultimately have "list_ok ?h' c (us @ vs)" using l [OF c] by (auto simp: h' list_ok_def A)
  moreover have "list_ok ?h' d (A d)" if d: "d < SLAB_CLASS_COUNT" "d \<noteq> c" for d
  proof -
    have "linked S3 INVALID_LIST_INDEX (A d) INVALID_LIST_INDEX = linked ?S INVALID_LIST_INDEX (A d) INVALID_LIST_INDEX"
      using lists_disjoint [OF ok d(1) c d(2)] by (intro linked_cong other) auto
    moreover have "H ! d = ClassAvailableHead h ! d" using d by (simp add: H_def)
    ultimately show ?thesis using l [OF d(1)] by (simp add: h' list_ok_def)
  qed
  moreover have "unlinked (S3 ! x)" if "x < SlabCount h" "\<forall>d<SLAB_CLASS_COUNT. x \<notin> set ((A(c := us @ vs)) d)" for x
  proof (cases "x = i")
    case True
    have "i < length S2" using bd [OF i] by (simp add: S2_def S1_def)
    then show ?thesis by (simp add: True S3_def unlinked_def)
  next
    case False
    have "x \<notin> set ((A(c := us @ vs)) c)" using that(2) c by blast
    with False have n: "x \<notin> set (A c)" by (simp add: A)
    have "x \<notin> set (A d)" if d: "d < SLAB_CLASS_COUNT" for d
      using n \<open>\<forall>d<SLAB_CLASS_COUNT. x \<notin> set ((A(c := us @ vs)) d)\<close> d by (cases "d = c") auto
    with other [OF n(1)] ok that(1) show ?thesis by (simp add: lists_ok_def unlinked_def)
  qed
  moreover have "set ((A(c := us @ vs)) d) \<inter> set ((A(c := us @ vs)) e) = {}"
    if "d < SLAB_CLASS_COUNT" "e < SLAB_CLASS_COUNT" "d \<noteq> e" for d e
  proof -
    have "set ((A(c := us @ vs)) x) \<subseteq> set (A x)" for x by (auto simp: A)
    moreover have "set (A d) \<inter> set (A e) = {}" using ok that by (simp add: lists_ok_def)
    ultimately show ?thesis by blast
  qed
  ultimately have "lists_ok ?h' (A(c := us @ vs))"
    unfolding lists_ok_def by (simp add: h')
  moreover have "same_pages h ?h'"
  proof -
    have "same_page (S1 ! x) (?S ! x)" "same_page (S2 ! x) (S1 ! x)" "same_page (S3 ! x) (S2 ! x)" for x
      unfolding S1_def S2_def S3_def by (auto intro: same_page_update)
    then have "same_page (S3 ! x) (?S ! x)" for x by (blast intro: same_page_trans)
    then show ?thesis by (simp add: same_pages_def h' S3_def S2_def S1_def H_def)
  qed
  ultimately show ?thesis by (simp add: rm)
qed

section \<open>Pages\<close>

fun nodes :: "(nat \<Rightarrow> nat) \<Rightarrow> nat \<Rightarrow> nat \<Rightarrow> nat list" where
  "nodes C 0 p = []"
| "nodes C (Suc n) p = p # nodes C n (load64 C p)"

text \<open>The free objects of a page, from its free list on; the chain ends with null.\<close>

fun chain :: "(nat \<Rightarrow> nat) \<Rightarrow> nat \<Rightarrow> nat list \<Rightarrow> bool" where
  "chain C p [] \<longleftrightarrow> p = 0"
| "chain C p (a # as) \<longleftrightarrow> p = a \<and> chain C (load64 C a) as"

definition free_objects :: "kernel_heap \<Rightarrow> nat \<Rightarrow> nat list" where
  "free_objects h i = nodes (Cells h) (FreeObjects (Slabs h ! i)) (FreeList (Slabs h ! i))"

definition header :: "(nat \<Rightarrow> nat) \<Rightarrow> nat \<Rightarrow> nat \<Rightarrow> nat \<Rightarrow> bool" where
  "header C a i c \<longleftrightarrow> C a = ALLOCATION_MAGIC \<and> C (a + 4) = i \<and> C (a + 8) = c"

definition small_ok :: "kernel_heap \<Rightarrow> nat \<Rightarrow> nat list \<Rightarrow> bool" where
  "small_ok h i free \<longleftrightarrow>
     (let d = Slabs h ! i; c = ClassIndex d
      in c < SLAB_CLASS_COUNT \<and> TotalObjects d = slots c \<and> FreeObjects d = length free \<and>
         chain (Cells h) (FreeList d) free \<and> distinct free \<and> set free \<subseteq> set (objects h i c) \<and>
         (\<forall>a\<in>set (objects h i c) - set free. header (Cells h) a i c))"

definition large_ok :: "kernel_heap \<Rightarrow> nat \<Rightarrow> bool" where
  "large_ok h i \<longleftrightarrow>
     (let span = OwnerOrSpan (Slabs h ! i)
      in 0 < span \<and> i + span \<le> SlabCount h \<and> header (Cells h) (page_base h i) i LARGE_CLASS_SENTINEL \<and>
         (\<forall>k. i < k \<and> k < i + span \<longrightarrow> State (Slabs h ! k) = SlabLargeTail \<and> OwnerOrSpan (Slabs h ! k) = i))"

definition tail_ok :: "kernel_heap \<Rightarrow> nat \<Rightarrow> bool" where
  "tail_ok h i \<longleftrightarrow>
     (let k = OwnerOrSpan (Slabs h ! i)
      in k < i \<and> State (Slabs h ! k) = SlabLargeHead \<and> i < k + OwnerOrSpan (Slabs h ! k))"

definition page_ok :: "kernel_heap \<Rightarrow> nat \<Rightarrow> bool" where
  "page_ok h i \<longleftrightarrow>
     (case State (Slabs h ! i) of
        SlabFree \<Rightarrow> True
      | SlabSmall \<Rightarrow> small_ok h i (free_objects h i)
      | SlabLargeHead \<Rightarrow> large_ok h i
      | SlabLargeTail \<Rightarrow> tail_ok h i)"

text \<open>The blocks a page holds for clients, header included, with their sizes.\<close>

definition page_live :: "kernel_heap \<Rightarrow> nat \<Rightarrow> (nat \<times> nat) set" where
  "page_live h i =
     (let d = Slabs h ! i
      in case State d of
           SlabSmall \<Rightarrow>
             (\<lambda>a. (a, GetClassObjectSize (ClassIndex d))) ` (set (objects h i (ClassIndex d)) - set (free_objects h i))
         | SlabLargeHead \<Rightarrow> {(page_base h i, OwnerOrSpan d * 4096)}
         | _ \<Rightarrow> {})"

definition live_blocks :: "kernel_heap \<Rightarrow> (nat \<times> nat) set" where
  "live_blocks h = (\<Union>i<SlabCount h. page_live h i)"

definition available :: "kernel_heap \<Rightarrow> nat \<Rightarrow> nat set" where
  "available h c = {i. i < SlabCount h \<and> State (Slabs h ! i) = SlabSmall \<and> ClassIndex (Slabs h ! i) = c \<and>
     0 < FreeObjects (Slabs h ! i)}"

definition heap_pre :: "kernel_heap \<Rightarrow> (nat \<Rightarrow> nat list) \<Rightarrow> bool" where
  "heap_pre h A \<longleftrightarrow>
     heap_shape h \<and> lists_ok h A \<and> (\<forall>i<SlabCount h. page_ok h i) \<and> (\<forall>c<SLAB_CLASS_COUNT. set (A c) = available h c)"

definition heap_inv :: "kernel_heap \<Rightarrow> bool" where
  "heap_inv h \<longleftrightarrow>
     (\<exists>A. heap_pre h A) \<and>
     (\<forall>i<SlabCount h. State (Slabs h ! i) = SlabSmall \<longrightarrow> FreeObjects (Slabs h ! i) < TotalObjects (Slabs h ! i))"

lemma chain_nodes: "chain C p ls \<Longrightarrow> nodes C (length ls) p = ls"
  by (induction ls arbitrary: p) auto

lemma free_chain_cong:
  "(\<And>a. a \<in> set ls \<Longrightarrow> C' a = C a \<and> C' (a + 4) = C (a + 4)) \<Longrightarrow> chain C' p ls = chain C p ls"
  by (induction ls arbitrary: p) (auto simp: load64_def)

lemma small_ok_free: "small_ok h i free \<Longrightarrow> free_objects h i = free"
  by (simp add: small_ok_def free_objects_def Let_def chain_nodes)

lemma page_live_range:
  assumes ok: "page_ok h i" and b: "(a, n) \<in> page_live h i"
  shows "page_base h i \<le> a \<and> a < page_base h i + 4096"
proof (cases "State (Slabs h ! i)")
  case SlabSmall
  let ?c = "ClassIndex (Slabs h ! i)"
  have c: "?c < SLAB_CLASS_COUNT" using ok SlabSmall by (simp add: page_ok_def small_ok_def Let_def)
  have "a \<in> set (objects h i ?c)" using b SlabSmall by (auto simp: page_live_def Let_def)
  from objects_bounds [OF c this] class_size(1) [OF c] show ?thesis by linarith
qed (use b in \<open>auto simp: page_live_def\<close>)

text \<open>Pages outside \<open>X\<close> do not see a change inside \<open>X\<close>, when no large block crosses its border.\<close>

definition closed :: "kernel_heap \<Rightarrow> nat set \<Rightarrow> bool" where
  "closed h X \<longleftrightarrow>
     (\<forall>j<SlabCount h. j \<notin> X \<longrightarrow>
        (State (Slabs h ! j) = SlabLargeHead \<longrightarrow> (\<forall>k. j < k \<and> k < j + OwnerOrSpan (Slabs h ! j) \<longrightarrow> k \<notin> X)) \<and>
        (State (Slabs h ! j) = SlabLargeTail \<longrightarrow> OwnerOrSpan (Slabs h ! j) \<notin> X))"

definition only_in :: "nat set \<Rightarrow> kernel_heap \<Rightarrow> kernel_heap \<Rightarrow> bool" where
  "only_in X h h' \<longleftrightarrow>
     HeapStart h' = HeapStart h \<and> ManagedHeapSize h' = ManagedHeapSize h \<and> SlabCount h' = SlabCount h \<and>
     length (Slabs h') = length (Slabs h) \<and> length (ClassAvailableHead h') = length (ClassAvailableHead h) \<and>
     (\<forall>j<SlabCount h. j \<notin> X \<longrightarrow> same_page (Slabs h' ! j) (Slabs h ! j)) \<and>
     (\<forall>j<SlabCount h. j \<notin> X \<longrightarrow> (\<forall>a. page_base h j \<le> a \<and> a < page_base h j + 4096 \<longrightarrow> Cells h' a = Cells h a))"

lemma closed_small_free:
  assumes "\<forall>i<SlabCount h. page_ok h i"
    and "\<forall>i\<in>X. State (Slabs h ! i) \<noteq> SlabLargeHead \<and> State (Slabs h ! i) \<noteq> SlabLargeTail"
  shows "closed h X"
  unfolding closed_def
proof (intro allI impI conjI notI)
  fix j k assume j: "j < SlabCount h" "State (Slabs h ! j) = SlabLargeHead" and k: "j < k \<and> k < j + OwnerOrSpan (Slabs h ! j)" "k \<in> X"
  have "large_ok h j" using assms(1) j by (auto simp: page_ok_def)
  with k assms(2) show False by (auto simp: large_ok_def Let_def)
next
  fix j assume j: "j < SlabCount h" "State (Slabs h ! j) = SlabLargeTail" "OwnerOrSpan (Slabs h ! j) \<in> X"
  have "tail_ok h j" using assms(1) j by (auto simp: page_ok_def)
  with j assms(2) show False by (auto simp: tail_ok_def Let_def)
qed

lemma page_frame:
  assumes inX: "only_in X h h'" and cl: "closed h X" and ok: "page_ok h j" and j: "j < SlabCount h" "j \<notin> X"
  shows "page_ok h' j \<and> page_live h' j = page_live h j"
proof -
  have same: "same_page (Slabs h' ! k) (Slabs h ! k)" if "k < SlabCount h" "k \<notin> X" for k using inX that by (simp add: only_in_def)
  have cells: "Cells h' a = Cells h a" if "page_base h j \<le> a" "a < page_base h j + 4096" for a
    using inX j that by (simp add: only_in_def)
  have base: "page_base h' i = page_base h i" "objects h' i c = objects h i c" for i c
    using inX by (simp_all add: only_in_def page_base_def objects_def)
  have hdr: "header (Cells h') a i c = header (Cells h) a i c" if "page_base h j \<le> a" "a + 64 \<le> page_base h j + 4096" for a i c
    using that by (simp add: header_def cells)
  note sj = same [OF j]
  show ?thesis
  proof (cases "State (Slabs h ! j)")
    case SlabFree
    with sj show ?thesis by (simp add: page_ok_def page_live_def Let_def same_page_def)
  next
    case SlabSmall
    let ?c = "ClassIndex (Slabs h ! j)" and ?f = "free_objects h j"
    have sm: "small_ok h j ?f" using ok SlabSmall by (simp add: page_ok_def)
    then have c: "?c < SLAB_CLASS_COUNT" and sub: "set ?f \<subseteq> set (objects h j ?c)" by (simp_all add: small_ok_def Let_def)
    have b: "page_base h j \<le> a \<and> a + 64 \<le> page_base h j + 4096" if "a \<in> set (objects h j ?c)" for a
      using objects_bounds [OF c that] class_size(1) [OF c] by linarith
    have "chain (Cells h') (FreeList (Slabs h ! j)) ?f = chain (Cells h) (FreeList (Slabs h ! j)) ?f"
    proof (rule free_chain_cong)
      fix a assume "a \<in> set ?f"
      with sub b have "page_base h j \<le> a \<and> a + 64 \<le> page_base h j + 4096" by blast
      then show "Cells h' a = Cells h a \<and> Cells h' (a + 4) = Cells h (a + 4)" by (simp add: cells)
    qed
    then have "small_ok h' j ?f" using sm sj b unfolding small_ok_def Let_def same_page_def base by (auto simp: hdr)
    moreover from small_ok_free [OF this] have "free_objects h' j = ?f" .
    ultimately show ?thesis using SlabSmall sj by (simp add: page_ok_def page_live_def Let_def same_page_def base)
  next
    case SlabLargeHead
    have l: "large_ok h j" using ok SlabLargeHead by (simp add: page_ok_def)
    have "State (Slabs h' ! k) = State (Slabs h ! k) \<and> OwnerOrSpan (Slabs h' ! k) = OwnerOrSpan (Slabs h ! k)"
      if "j < k" "k < j + OwnerOrSpan (Slabs h ! j)" for k
    proof -
      have "k < SlabCount h" using l that by (simp add: large_ok_def Let_def)
      moreover have "k \<notin> X" using cl j SlabLargeHead that by (simp add: closed_def)
      ultimately show ?thesis using same by (simp add: same_page_def)
    qed
    then have "large_ok h' j" using l sj inX by (simp add: large_ok_def Let_def same_page_def base hdr only_in_def)
    then show ?thesis using SlabLargeHead sj by (simp add: page_ok_def page_live_def Let_def same_page_def base)
  next
    case SlabLargeTail
    have t: "tail_ok h j" using ok SlabLargeTail by (simp add: page_ok_def)
    let ?k = "OwnerOrSpan (Slabs h ! j)"
    have "?k < SlabCount h" "?k \<notin> X" using t cl j SlabLargeTail by (auto simp: tail_ok_def Let_def closed_def)
    from same [OF this] have "tail_ok h' j" using t sj by (simp add: tail_ok_def Let_def same_page_def)
    then show ?thesis using SlabLargeTail sj by (simp add: page_ok_def page_live_def Let_def same_page_def)
  qed
qed

lemma only_in_shape: "only_in X h h' \<Longrightarrow> heap_shape h \<Longrightarrow> heap_shape h'"
  by (simp add: only_in_def heap_shape_def)

lemma live_split:
  assumes inX: "only_in X h h'" and cl: "closed h X" and ok: "\<forall>i<SlabCount h. page_ok h i" and X: "X \<subseteq> {..<SlabCount h}"
  shows "live_blocks h' = (\<Union>j\<in>{..<SlabCount h} - X. page_live h j) \<union> (\<Union>j\<in>X. page_live h' j)"
    and "live_blocks h = (\<Union>j\<in>{..<SlabCount h} - X. page_live h j) \<union> (\<Union>j\<in>X. page_live h j)"
proof -
  have n: "SlabCount h' = SlabCount h" using inX by (simp add: only_in_def)
  have "page_live h' j = page_live h j" if "j < SlabCount h" "j \<notin> X" for j using page_frame [OF inX cl _ that] ok that by blast
  then have "(\<Union>j\<in>{..<SlabCount h} - X. page_live h' j) = (\<Union>j\<in>{..<SlabCount h} - X. page_live h j)" by auto
  moreover have "{..<SlabCount h} = ({..<SlabCount h} - X) \<union> X" using X by auto
  ultimately show "live_blocks h' = (\<Union>j\<in>{..<SlabCount h} - X. page_live h j) \<union> (\<Union>j\<in>X. page_live h' j)"
    unfolding live_blocks_def n by (metis UN_Un)
  show "live_blocks h = (\<Union>j\<in>{..<SlabCount h} - X. page_live h j) \<union> (\<Union>j\<in>X. page_live h j)"
    unfolding live_blocks_def using X by auto
qed

text \<open>Blocks of a page are apart from those of the others.\<close>

lemma live_other_page:
  assumes ok: "\<forall>i<SlabCount h. page_ok h i" and "(a, n) \<in> page_live h j" and "j < SlabCount h"
    and "page_base h i \<le> a" "a < page_base h i + 4096"
  shows "j = i"
proof -
  have "page_base h j \<le> a" "a < page_base h j + 4096" using page_live_range [OF _ assms(2)] ok assms(3) by auto
  with assms(4,5) pages_apart [of i j h] pages_apart [of j i h] show ?thesis
    by (metis leD le_less_trans less_le_trans linorder_neqE_nat)
qed

section \<open>Steps of the allocator\<close>

lemma lists_ok_cong:
  assumes "SlabCount h' = SlabCount h" and "ClassAvailableHead h' = ClassAvailableHead h"
    and "\<And>j. PrevAvailable (Slabs h' ! j) = PrevAvailable (Slabs h ! j) \<and> NextAvailable (Slabs h' ! j) = NextAvailable (Slabs h ! j)"
  shows "lists_ok h' A = lists_ok h A"
proof -
  have "linked (Slabs h') p xs q = linked (Slabs h) p xs q" for p xs q using assms(3) by (intro linked_cong) blast
  then show ?thesis using assms by (simp add: lists_ok_def list_ok_def unlinked_def)
qed

lemma lists_ok_cells [simp]: "lists_ok (h\<lparr>Cells := C\<rparr>) A = lists_ok h A"
  by (rule lists_ok_cong) simp_all

lemma heap_preD:
  assumes "heap_pre h A"
  shows "heap_shape h" "lists_ok h A" "\<forall>i<SlabCount h. page_ok h i" "\<And>c. c < SLAB_CLASS_COUNT \<Longrightarrow> set (A c) = available h c"
  using assms by (simp_all add: heap_pre_def)

lemma heap_pre_step:
  assumes pre: "heap_pre h A" and inX: "only_in X h h'" and cl: "closed h X"
    and lists: "lists_ok h' A'" and ok: "\<And>i. i \<in> X \<Longrightarrow> i < SlabCount h \<Longrightarrow> page_ok h' i"
    and av: "\<And>c. c < SLAB_CLASS_COUNT \<Longrightarrow> set (A' c) = available h' c"
  shows "heap_pre h' A'"
proof -
  note p = heap_preD [OF pre]
  have n: "SlabCount h' = SlabCount h" using inX by (simp add: only_in_def)
  have "page_ok h' i" if "i < SlabCount h" for i
    using ok [of i] page_frame [OF inX cl _ that] p(3) that by (cases "i \<in> X") auto
  with only_in_shape [OF inX p(1)] lists av show ?thesis by (simp add: heap_pre_def n)
qed

lemma available_other:
  assumes "only_in X h h'" and "i \<notin> X"
  shows "i \<in> available h' c \<longleftrightarrow> i \<in> available h c"
proof (cases "i < SlabCount h")
  case True
  then have "same_page (Slabs h' ! i) (Slabs h ! i)" using assms by (simp add: only_in_def)
  then show ?thesis using assms(1) by (simp add: available_def same_page_def only_in_def)
qed (use assms(1) in \<open>simp add: available_def only_in_def\<close>)

lemma small_pageD:
  assumes pre: "heap_pre h A" and i: "i < SlabCount h" and st: "State (Slabs h ! i) = SlabSmall"
  shows "small_ok h i (free_objects h i)" "ClassIndex (Slabs h ! i) < SLAB_CLASS_COUNT"
    "TotalObjects (Slabs h ! i) = slots (ClassIndex (Slabs h ! i))" "length (free_objects h i) = FreeObjects (Slabs h ! i)"
proof -
  show s: "small_ok h i (free_objects h i)" using heap_preD(3) [OF pre] i st by (auto simp: page_ok_def)
  then show "ClassIndex (Slabs h ! i) < SLAB_CLASS_COUNT" "TotalObjects (Slabs h ! i) = slots (ClassIndex (Slabs h ! i))"
    "length (free_objects h i) = FreeObjects (Slabs h ! i)"
    by (simp_all add: small_ok_def Let_def)
qed

lemma object_in_heap:
  assumes sh: "heap_shape h" and i: "i < SlabCount h" and c: "c < SLAB_CLASS_COUNT" and a: "a \<in> set (objects h i c)"
  shows "0 < a" "a + 64 \<le> page_base h i + 4096" "page_base h i \<le> a" "w64 (a + SizeofAllocationHeader) = a + 12"
    "page_base h i + 4096 < 18446744073709551616"
proof -
  note o = objects_bounds [OF c a] and s = class_size(1) [OF c] and b = heap_shape_bounds [OF sh i]
  show "0 < a" "a + 64 \<le> page_base h i + 4096" "page_base h i \<le> a" "page_base h i + 4096 < 18446744073709551616"
    using o s b by linarith+
  then show "w64 (a + SizeofAllocationHeader) = a + 12" by (simp add: SizeofAllocationHeader_def)
qed

text \<open>Cells the allocator writes when it works on the object \<open>a\<close>.\<close>

definition off_object :: "nat \<Rightarrow> (nat \<Rightarrow> nat) \<Rightarrow> (nat \<Rightarrow> nat) \<Rightarrow> bool" where
  "off_object a C C' \<longleftrightarrow> (\<forall>x. x < a \<or> a + 12 \<le> x \<longrightarrow> C' x = C x)"

lemma store_header_off [simp]: "off_object a C (store_header a i c C)"
  by (simp add: off_object_def store_header_def)

lemma store_header_header: "i < 4294967296 \<Longrightarrow> c < 65536 \<Longrightarrow> header (store_header a i c C) a i c"
  by (simp add: header_def store_header_def)

lemma off_objectD: "off_object a C C' \<Longrightarrow> place h a \<Longrightarrow> place h b \<Longrightarrow> a \<noteq> b \<Longrightarrow>
   C' b = C b \<and> C' (b + 4) = C (b + 4) \<and> C' (b + 8) = C (b + 8)"
  using place_apart [of h a b] place_apart [of h b a] unfolding off_object_def
  by (cases "a < b") (auto simp: not_less)

lemma objects_cong: "HeapStart h' = HeapStart h \<Longrightarrow> objects h' i c = objects h i c"
  by (simp add: objects_def page_base_def)

text \<open>The free list of a page after a write at one of its objects.\<close>

lemma small_ok_step:
  assumes c: "c < SLAB_CLASS_COUNT" and st: "HeapStart h' = HeapStart h"
    and sm: "small_ok h i free" and cl: "ClassIndex (Slabs h ! i) = c" and cl': "ClassIndex (Slabs h' ! i) = c"
    and tot: "TotalObjects (Slabs h' ! i) = TotalObjects (Slabs h ! i)"
    and off: "off_object a (Cells h) (Cells h')" and a: "a \<in> set (objects h i c)"
    and free': "FreeObjects (Slabs h' ! i) = length free'" "distinct free'" "chain (Cells h') (FreeList (Slabs h' ! i)) free'"
    and sets: "set free' \<union> {a} = set free \<union> {a}" and hdr: "a \<notin> set free' \<Longrightarrow> header (Cells h') a i c"
  shows "small_ok h' i free'"
proof -
  have ob: "objects h' i c = objects h i c" by (rule objects_cong [OF st])
  have "set free \<subseteq> set (objects h i c)" using sm cl by (simp add: small_ok_def Let_def)
  then have sub: "set free' \<subseteq> set (objects h i c)" using sets a by blast
  have "header (Cells h') b i c" if b: "b \<in> set (objects h i c)" "b \<notin> set free'" for b
  proof (cases "b = a")
    case True
    with hdr b show ?thesis by simp
  next
    case False
    with sets b have "header (Cells h) b i c" using sm cl unfolding small_ok_def Let_def by blast
    with off_objectD [OF off place_objects [OF c a] place_objects [OF c b(1)]] False show ?thesis
      by (simp add: header_def)
  qed
  with sub show ?thesis using sm cl cl' tot free' c unfolding small_ok_def Let_def by (auto simp: ob)
qed

lemma chain_off:
  assumes c: "c < SLAB_CLASS_COUNT" and off: "off_object a C C'" and a: "a \<in> set (objects h i c)"
    and ls: "set ls \<subseteq> set (objects h i c)" and n: "a \<notin> set ls"
  shows "chain C' p ls = chain C p ls"
proof (rule free_chain_cong)
  fix b assume "b \<in> set ls"
  then have "b \<in> set (objects h i c)" "a \<noteq> b" using ls n by auto
  then show "C' b = C b \<and> C' (b + 4) = C (b + 4)"
    using off_objectD [OF off place_objects [OF c a] place_objects [OF c]] by blast
qed

lemma AllocateFromSlab_spec:
  assumes pre: "heap_pre h A" and c: "c < SLAB_CLASS_COUNT" and i: "i \<in> set (A c)"
    and strict: "\<And>j. j < SlabCount h \<Longrightarrow> j \<noteq> i \<Longrightarrow> State (Slabs h ! j) = SlabSmall \<Longrightarrow> FreeObjects (Slabs h ! j) < TotalObjects (Slabs h ! j)"
  shows "\<exists>a h'. AllocateFromSlab i c h = (a + 12, h') \<and> heap_inv h' \<and> a \<in> set (objects h i c) \<and>
    a \<notin> fst ` live_blocks h \<and> live_blocks h' = insert (a, GetClassObjectSize c) (live_blocks h) \<and>
    only_in {i} h h' \<and> off_object a (Cells h) (Cells h')"
proof -
  note p = heap_preD [OF pre]
  have av: "i < SlabCount h" "State (Slabs h ! i) = SlabSmall" "ClassIndex (Slabs h ! i) = c" "0 < FreeObjects (Slabs h ! i)"
    using i p(4) [OF c] by (auto simp: available_def)
  let ?d = "Slabs h ! i"
  note sm = small_pageD [OF pre av(1,2)]
  obtain a rest where fr: "free_objects h i = a # rest" using sm(4) av(4) by (cases "free_objects h i") auto
  have sok: "small_ok h i (a # rest)" using sm(1) fr by simp
  then have ch: "FreeList ?d = a" "chain (Cells h) (load64 (Cells h) a) rest" "FreeObjects ?d = Suc (length rest)"
    "distinct (a # rest)" "set (a # rest) \<subseteq> set (objects h i c)"
    using av(3) by (simp_all add: small_ok_def Let_def)
  have a: "a \<in> set (objects h i c)" using ch(5) by simp
  note ob = object_in_heap [OF p(1) av(1) c a]
  have il: "i < length (Slabs h)" using heap_shape_bounds [OF p(1) av(1)] by simp
  define h1 where "h1 = upd_slab i (\<lambda>d. d\<lparr>FreeList := load64 (Cells h) a, FreeObjects := FreeObjects d - 1\<rparr>) h"
  define h2 where "h2 = (if rest = [] then UnlinkSlabFromClassList i c h1 else h1)"
  define h' where "h' = h2\<lparr>Cells := store_header a i c (Cells h2)\<rparr>"
  have h1: "Slabs h1 ! i = ?d\<lparr>FreeList := load64 (Cells h) a, FreeObjects := length rest\<rparr>"
    "\<And>j. j \<noteq> i \<Longrightarrow> Slabs h1 ! j = Slabs h ! j"
    using il ch(3) by (simp_all add: h1_def upd_slab_def)
  have run: "AllocateFromSlab i c h = (a + 12, h')"
    using ch(1,3) ob(1,4) il unfolding AllocateFromSlab_def Let_def h'_def h2_def h1_def by (simp add: upd_slab_def)
  have l1: "lists_ok h1 A"
  proof -
    have "PrevAvailable (Slabs h1 ! j) = PrevAvailable (Slabs h ! j) \<and> NextAvailable (Slabs h1 ! j) = NextAvailable (Slabs h ! j)" for j
      using h1 by (cases "j = i") auto
    then have "lists_ok h1 A = lists_ok h A" by (intro lists_ok_cong) (simp_all add: h1_def upd_slab_def)
    with p(2) show ?thesis by simp
  qed
  have sh1: "heap_shape h1" using p(1) by (simp add: h1_def upd_slab_def heap_shape_def)
  define A' where "A' = (if rest = [] then A(c := remove1 i (A c)) else A)"
  have l2: "lists_ok h2 A' \<and> same_pages h1 h2"
    using Unlink_spec [OF sh1 l1 c i] l1 by (simp add: h2_def A'_def)
  have sp: "same_page (Slabs h' ! j) (Slabs h1 ! j)" if "j < length (Slabs h)" for j
    using l2 that by (simp add: h'_def same_pages_def h1_def upd_slab_def)
  have st: "HeapStart h' = HeapStart h" "SlabCount h' = SlabCount h" "Cells h' = store_header a i c (Cells h)"
    using l2 by (simp_all add: h'_def same_pages_def h1_def upd_slab_def)
  have off: "off_object a (Cells h) (Cells h')" by (simp add: st)
  have "Cells h' x = Cells h x" if "j < SlabCount h" "j \<noteq> i" "page_base h j \<le> x" "x < page_base h j + 4096" for j x
  proof -
    have "x < page_base h i \<or> page_base h i + 4096 \<le> x"
      using pages_apart [of i j h] pages_apart [of j i h] that by (cases "j < i") linarith+
    then have "x < a \<or> a + 12 \<le> x" using ob(2,3) by linarith
    with off show ?thesis by (auto simp: off_object_def)
  qed
  moreover have "same_page (Slabs h' ! j) (Slabs h ! j)" if "j < SlabCount h" "j \<noteq> i" for j
    using sp [of j] h1(2) that heap_shape_bounds [OF p(1) that(1)] by simp
  ultimately have only: "only_in {i} h h'"
    using l2 unfolding only_in_def by (simp add: h'_def same_pages_def h1_def upd_slab_def)
  have cl: "closed h {i}" using av(2) by (intro closed_small_free [OF p(3)]) simp
  have di: "State (Slabs h' ! i) = SlabSmall" "ClassIndex (Slabs h' ! i) = c" "TotalObjects (Slabs h' ! i) = TotalObjects ?d"
    "FreeObjects (Slabs h' ! i) = length rest" "FreeList (Slabs h' ! i) = load64 (Cells h) a"
    using sp [OF il] h1(1) av(2,3) by (simp_all add: same_page_def)
  have isz: "i < 4294967296" "c < 65536" using heap_shape_bounds [OF p(1) av(1)] c by (auto simp: heap_consts)
  have chr: "chain (Cells h') (load64 (Cells h) a) rest" using ch chain_off [OF c off a, of rest] by simp
  have ok': "small_ok h' i rest"
  proof (rule small_ok_step [OF c st(1) sok av(3) di(2,3) off a])
    show "chain (Cells h') (FreeList (Slabs h' ! i)) rest" using chr di by simp
    show "header (Cells h') a i c" using store_header_header [OF isz] by (simp add: st)
  qed (use ch di in auto)
  have fr': "free_objects h' i = rest" using small_ok_free [OF ok'] .
  have "available h' e = set (A' e)" if e: "e < SLAB_CLASS_COUNT" for e
  proof (rule set_eqI)
    fix j
    have dist: "distinct (A c)" using p(2) c by (simp add: lists_ok_def list_ok_def)
    show "j \<in> available h' e \<longleftrightarrow> j \<in> set (A' e)"
    proof (cases "j = i")
      case True
      have "i \<in> available h' e \<longleftrightarrow> e = c \<and> rest \<noteq> []" using di av(1) st by (auto simp: available_def)
      moreover have "i \<in> set (A' e) \<longleftrightarrow> e = c \<and> rest \<noteq> []"
        using i dist lists_disjoint [OF p(2) c e] by (auto simp: A'_def)
      ultimately show ?thesis using True by simp
    next
      case False
      then have "j \<in> available h' e \<longleftrightarrow> j \<in> set (A e)" using available_other [OF only, of j e] p(4) [OF e] by simp
      with False dist show ?thesis by (auto simp: A'_def)
    qed
  qed
  then have pre': "heap_pre h' A'"
    using l2 ok' di(1) fr' by (intro heap_pre_step [OF pre only cl]) (auto simp: h'_def page_ok_def)
  have "FreeObjects (Slabs h' ! j) < TotalObjects (Slabs h' ! j)" if j: "j < SlabCount h'" "State (Slabs h' ! j) = SlabSmall" for j
  proof (cases "j = i")
    case True
    have "length rest < length (objects h i c)"
      using ch(4,5) objects_distinct [OF c, of h i] card_mono [of "set (objects h i c)" "set (a # rest)"]
      by (metis List.finite_set Suc_le_lessD distinct_card length_Cons)
    then show ?thesis using True di sm(3) av(3) by simp
  next
    case False
    with j only strict [of j] show ?thesis by (simp add: only_in_def same_page_def st)
  qed
  with pre' have inv: "heap_inv h'" by (auto simp: heap_inv_def)
  have live: "page_live h' i = insert (a, GetClassObjectSize c) (page_live h i)"
    using di av(2,3) fr fr' ch(4) a by (auto simp: page_live_def objects_cong [OF st(1)])
  have "live_blocks h' = insert (a, GetClassObjectSize c) (live_blocks h)"
    using live_split [OF only cl p(3)] live av(1) by auto
  moreover have "a \<notin> fst ` live_blocks h"
  proof
    assume "a \<in> fst ` live_blocks h"
    then obtain n j where j: "j < SlabCount h" "(a, n) \<in> page_live h j" by (auto simp: live_blocks_def)
    have "j = i" using live_other_page [OF p(3) j(2,1)] ob by simp
    with j av(2,3) fr show False by (auto simp: page_live_def)
  qed
  ultimately show ?thesis using run inv a only off by blast
qed

lemma load64_store64 [simp]: "load64 (store64 a v C) a = v"
  by (simp add: load64_def store64_def)

lemma PushObject_simp [simp]: "PushObject a (p, C) = (a, store64 a p C)"
  by (simp add: PushObject_def)

text \<open>Pushing objects that lie apart on a list links them.\<close>

lemma fold_PushObject:
  "(\<And>a. a \<in> set xs \<Longrightarrow> place h a) \<Longrightarrow> (\<And>a. a \<in> set ls \<Longrightarrow> place h a) \<Longrightarrow> distinct (xs @ ls) \<Longrightarrow> chain C p ls \<Longrightarrow>
   fold PushObject xs (p, C) = (p', C') \<Longrightarrow>
   chain C' p' (rev xs @ ls) \<and> (\<forall>x. (\<forall>a\<in>set xs. x < a \<or> a + 12 \<le> x) \<longrightarrow> C' x = C x)"
proof (induction xs arbitrary: p C ls)
  case (Cons a xs)
  let ?C = "store64 a p C"
  have off: "off_object a C ?C" by (simp add: off_object_def store64_def)
  have "chain ?C p ls = chain C p ls"
  proof (rule free_chain_cong)
    fix b assume b: "b \<in> set ls"
    then have "a \<noteq> b" "place h a" "place h b" using Cons.prems(1-3) by auto
    then show "?C b = C b \<and> ?C (b + 4) = C (b + 4)" using off_objectD [OF off] by blast
  qed
  with Cons.prems(4) have "chain ?C a (a # ls)" by simp
  moreover have "fold PushObject xs (a, ?C) = (p', C')" using Cons.prems(5) by simp
  ultimately have "chain C' p' (rev xs @ a # ls) \<and> (\<forall>x. (\<forall>a\<in>set xs. x < a \<or> a + 12 \<le> x) \<longrightarrow> C' x = ?C x)"
    using Cons.prems(1-3) by (intro Cons.IH) auto
  with off show ?case by (auto simp: off_object_def)
qed simp

lemma InitializeSmallSlab_spec:
  assumes pre: "heap_pre h A" and c: "c < SLAB_CLASS_COUNT" and i: "i < SlabCount h" and free: "State (Slabs h ! i) = SlabFree"
  shows "\<exists>h'. InitializeSmallSlab i c h = (True, h') \<and> heap_pre h' (A(c := i # A c)) \<and> live_blocks h' = live_blocks h \<and>
    only_in {i} h h' \<and> (\<forall>x. x < page_base h i \<or> page_base h i + 4096 \<le> x \<longrightarrow> Cells h' x = Cells h x)"
proof -
  note p = heap_preD [OF pre] and b = heap_shape_bounds [OF heap_preD(1) [OF pre] i] and s = class_size [OF c]
  let ?s = "GetClassObjectSize c" and ?xs = "objects h i c"
  have "w64 (GetSlabBaseAddress h i + j * ?s) = page_base h i + j * ?s" if "j < slots c" for j
  proof -
    have "page_base h i + j * ?s \<in> set ?xs" using that by (auto simp: objects_def)
    from object_in_heap(2,5) [OF p(1) i c this] b show ?thesis by simp
  qed
  then have xs: "map (\<lambda>j. w64 (GetSlabBaseAddress h i + j * ?s)) [0..<KERNEL_PAGE_SIZE div ?s] = ?xs"
    unfolding objects_def by (intro map_cong) (auto simp: slots_def)
  obtain list C where f: "fold PushObject ?xs (0, Cells h) = (list, C)" by (cases "fold PushObject ?xs (0, Cells h)")
  have ch: "chain C list (rev ?xs)" "\<And>x. (\<forall>a\<in>set ?xs. x < a \<or> a + 12 \<le> x) \<Longrightarrow> C x = Cells h x"
    using fold_PushObject [of ?xs h "[]" "Cells h" 0 list C] f place_objects [OF c] objects_distinct [OF c] by auto
  have out: "C x = Cells h x" if "x < page_base h i \<or> page_base h i + 4096 \<le> x" for x
  proof (rule ch(2), rule ballI)
    fix a assume "a \<in> set ?xs"
    from object_in_heap(2,3) [OF p(1) i c this] that show "x < a \<or> a + 12 \<le> x" by linarith
  qed
  define d where "d = \<lparr>State = SlabSmall, ClassIndex = c, OwnerOrSpan = 1, TotalObjects = slots c, FreeObjects = slots c,
      FreeList = list, PrevAvailable = INVALID_LIST_INDEX, NextAvailable = INVALID_LIST_INDEX\<rparr>"
  define h1 where "h1 = upd_slab i (\<lambda>_. d) (h\<lparr>Cells := C\<rparr>)"
  define h' where "h' = LinkSlabIntoClassList i c h1"
  have run: "InitializeSmallSlab i c h = (True, h')"
    using i c s f xs unfolding InitializeSmallSlab_def Let_def h'_def h1_def d_def slots_def by auto
  have h1: "Slabs h1 ! i = d" "\<And>j. j \<noteq> i \<Longrightarrow> Slabs h1 ! j = Slabs h ! j" "Cells h1 = C" "SlabCount h1 = SlabCount h"
    using b by (simp_all add: h1_def upd_slab_def)
  have sh1: "heap_shape h1" using p(1) by (simp add: h1_def upd_slab_def heap_shape_def)
  have nin: "i \<notin> set (A e)" if "e < SLAB_CLASS_COUNT" for e using p(4) [OF that] free by (auto simp: available_def)
  then have ul: "unlinked (Slabs h ! i)" using p(2) i by (simp add: lists_ok_def)
  have "PrevAvailable (Slabs h1 ! j) = PrevAvailable (Slabs h ! j) \<and> NextAvailable (Slabs h1 ! j) = NextAvailable (Slabs h ! j)" for j
    using h1 ul by (cases "j = i") (auto simp: d_def unlinked_def)
  then have "lists_ok h1 A = lists_ok h A" by (intro lists_ok_cong) (simp_all add: h1_def upd_slab_def)
  with p(2) have l1: "lists_ok h1 A" by simp
  have lk: "lists_ok h' (A(c := i # A c))" "same_pages h1 h'"
    using Link_spec [OF sh1 l1 c] i nin by (simp_all add: h'_def h1(4))
  have st: "HeapStart h' = HeapStart h" "SlabCount h' = SlabCount h" "Cells h' = C"
    using lk(2) by (simp_all add: same_pages_def h1_def upd_slab_def)
  have sp: "same_page (Slabs h' ! j) (Slabs h1 ! j)" if "j < length (Slabs h)" for j
    using lk(2) that by (simp add: same_pages_def h1_def upd_slab_def)
  have "Cells h' x = Cells h x" if "j < SlabCount h" "j \<noteq> i" "page_base h j \<le> x" "x < page_base h j + 4096" for j x
    using pages_apart [of i j h] pages_apart [of j i h] that by (cases "j < i") (auto simp: st intro!: out)
  moreover have "same_page (Slabs h' ! j) (Slabs h ! j)" if "j < SlabCount h" "j \<noteq> i" for j
    using sp [of j] h1(2) that heap_shape_bounds [OF p(1) that(1)] by simp
  ultimately have only: "only_in {i} h h'"
    using lk(2) unfolding only_in_def by (simp add: same_pages_def h1_def upd_slab_def)
  have cl: "closed h {i}" using free by (intro closed_small_free [OF p(3)]) simp
  have il: "i < length (Slabs h)" using b by simp
  have di: "same_page (Slabs h' ! i) d" using sp [OF il] h1(1) by simp
  have ob: "objects h' i c = ?xs" by (rule objects_cong [OF st(1)])
  have ok': "small_ok h' i (rev ?xs)"
    using di c ch(1) objects_distinct [OF c, of h i] by (simp add: small_ok_def Let_def same_page_def d_def ob st)
  have fr': "free_objects h' i = rev ?xs" using small_ok_free [OF ok'] .
  have "available h' e = set ((A(c := i # A c)) e)" if e: "e < SLAB_CLASS_COUNT" for e
  proof (rule set_eqI)
    fix j show "j \<in> available h' e \<longleftrightarrow> j \<in> set ((A(c := i # A c)) e)"
    proof (cases "j = i")
      case True
      then show ?thesis using di i s(4) nin [OF e] by (auto simp: available_def same_page_def d_def st slots_def)
    next
      case False
      then show ?thesis using available_other [OF only, of j e] p(4) [OF e] by auto
    qed
  qed
  then have "heap_pre h' (A(c := i # A c))"
    using lk(1) ok' di fr' by (intro heap_pre_step [OF pre only cl]) (auto simp: page_ok_def same_page_def d_def)
  moreover have "page_live h' i = {}" "page_live h i = {}"
    using di fr' free by (simp_all add: page_live_def same_page_def d_def ob)
  then have "live_blocks h' = live_blocks h" using live_split [OF only cl p(3)] i by simp
  ultimately show ?thesis using run only out by (auto simp: st)
qed

section \<open>Looking for a run\<close>

definition free_run :: "kernel_heap \<Rightarrow> nat \<Rightarrow> nat \<Rightarrow> bool" where
  "free_run h s n \<longleftrightarrow> s + n \<le> SlabCount h \<and> (\<forall>k. s \<le> k \<and> k < s + n \<longrightarrow> State (Slabs h ! k) = SlabFree)"

lemma FindRun_spec:
  "0 < n \<Longrightarrow> len < n \<Longrightarrow> len \<le> i \<Longrightarrow> (len \<noteq> 0 \<Longrightarrow> start = i - len) \<Longrightarrow>
   (\<And>k. i - len \<le> k \<Longrightarrow> k < i \<Longrightarrow> State (Slabs h ! k) = SlabFree) \<Longrightarrow>
   (\<And>s. s + n \<le> i \<Longrightarrow> \<not> free_run h s n) \<Longrightarrow> (len < i \<Longrightarrow> State (Slabs h ! (i - len - 1)) \<noteq> SlabFree) \<Longrightarrow>
   i \<le> SlabCount h \<Longrightarrow>
   (FindRun h n i start len = -1 \<and> (\<forall>s. \<not> free_run h s n)) \<or>
   (\<exists>s. FindRun h n i start len = int s \<and> free_run h s n \<and> (\<forall>t. t < s \<longrightarrow> \<not> free_run h t n))"
proof (induction h n i start len rule: FindRun.induct)
  case (1 h n i start len)
  show ?case
  proof (cases "i \<ge> SlabCount h")
    case True
    with 1(10) have "i = SlabCount h" by simp
    moreover have "\<not> free_run h s n" for s
    proof
      assume "free_run h s n"
      then have "s + n \<le> i" using \<open>i = SlabCount h\<close> by (simp add: free_run_def)
      with 1(8) \<open>free_run h s n\<close> show False by blast
    qed
    ultimately show ?thesis by (subst FindRun.simps) simp
  next
    case i: False
    show ?thesis
    proof (cases "State (Slabs h ! i) = SlabFree")
      case False
      have no: "\<not> free_run h s n" if "s + n \<le> i + 1" for s
      proof (cases "s + n \<le> i")
        case False
        with that have "s \<le> i \<and> i < s + n" using 1(3) by linarith
        with \<open>State (Slabs h ! i) \<noteq> SlabFree\<close> show ?thesis by (auto simp: free_run_def)
      qed (use 1(8) in blast)
      have e: "FindRun h n i start len = FindRun h n (i + 1) start 0" using i False by (subst FindRun.simps) simp
      show ?thesis unfolding e by (rule 1(1)) (use i False 1(3) no in auto)
    next
      case True
      let ?start = "if len = 0 then i else start"
      have st: "?start = i - len" using 1(5,6) by simp
      show ?thesis
      proof (cases "len + 1 = n")
        case n: True
        have e: "FindRun h n i start len = int ?start" using i True n by (subst FindRun.simps) simp
        have "free_run h (i - len) n" unfolding free_run_def
        proof (intro conjI allI impI)
          show "i - len + n \<le> SlabCount h" using i n 1(5) by simp
          fix k assume "i - len \<le> k \<and> k < i - len + n"
          then have "k = i \<or> (i - len \<le> k \<and> k < i)" using n 1(5) by auto
          with True 1(7) show "State (Slabs h ! k) = SlabFree" by blast
        qed
        moreover have "\<not> free_run h t n" if "t < i - len" for t using that n 1(5) by (intro 1(8)) simp
        ultimately show ?thesis unfolding e st by blast
      next
        case n: False
        have e: "FindRun h n i start len = FindRun h n (i + 1) ?start (len + 1)" using i True n by (subst FindRun.simps) simp
        have fr: "State (Slabs h ! k) = SlabFree" if "i + 1 - (len + 1) \<le> k" "k < i + 1" for k
          using that True 1(7) [of k] by (cases "k = i") auto
        have no: "\<not> free_run h s n" if "s + n \<le> i + 1" for s
        proof (cases "s + n \<le> i")
          case False
          with that have s: "s + n = i + 1" by simp
          then have "s \<le> i - len - 1" "len < i" "i - len - 1 < s + n" using n 1(4,5) by linarith+
          with 1(9) show ?thesis by (auto simp: free_run_def)
        qed (use 1(8) in blast)
        show ?thesis unfolding e
          by (rule 1(2) [OF _ _ refl n]) (use i True n 1(3-5,9) st fr no in auto)
      qed
    qed
  qed
qed

lemma FindFreeSlabRun_spec:
  assumes "0 < n"
  shows "(FindFreeSlabRun h n = -1 \<and> (\<forall>s. \<not> free_run h s n)) \<or>
    (\<exists>s. FindFreeSlabRun h n = int s \<and> free_run h s n \<and> (\<forall>t. t < s \<longrightarrow> \<not> free_run h t n))"
proof (cases "n > SlabCount h")
  case True
  then show ?thesis using assms by (auto simp: FindFreeSlabRun_def free_run_def)
next
  case False
  then have "FindFreeSlabRun h n = FindRun h n 0 0 0" using assms by (simp add: FindFreeSlabRun_def)
  moreover have "(FindRun h n 0 0 0 = -1 \<and> (\<forall>s. \<not> free_run h s n)) \<or>
    (\<exists>s. FindRun h n 0 0 0 = int s \<and> free_run h s n \<and> (\<forall>t. t < s \<longrightarrow> \<not> free_run h t n))"
    by (rule FindRun_spec) (use assms in auto)
  ultimately show ?thesis by simp
qed

end
