(* ===== verification/Kernel_Heap_Blocks.thy ===== *)
theory Kernel_Heap_Blocks imports Kernel_Heap_Pages begin

text \<open>
  Blocks of the kernel heap: what \<open>kmalloc\<close> and \<open>kfree\<close> do to the set of live blocks, that live blocks are
  apart, when \<open>kmalloc\<close> returns null, that a second \<open>kfree\<close> is ignored, that a client writing into its own
  block disturbs nothing, and the heap as an abstract memory. The locale \<open>allocator\<close> is the contract a
  client of a heap relies on.
\<close>

section \<open>Allocating\<close>

lemma heap_inv_pre: "heap_inv h \<Longrightarrow> \<exists>A. heap_pre h A"
  by (simp add: heap_inv_def)

lemma heap_inv_strict:
  "heap_inv h \<Longrightarrow> i < SlabCount h \<Longrightarrow> State (Slabs h ! i) = SlabSmall \<Longrightarrow> FreeObjects (Slabs h ! i) < TotalObjects (Slabs h ! i)"
  by (simp add: heap_inv_def)

lemma list_head:
  assumes "lists_ok h A" and "c < SLAB_CLASS_COUNT"
  shows "ClassAvailableHead h ! c = (case A c of [] \<Rightarrow> INVALID_LIST_INDEX | i # _ \<Rightarrow> int i)"
  using assms by (auto simp: lists_ok_def list_ok_def first_or_def split: list.split)

text \<open>The result of a successful allocation: a new block \<open>(a, n)\<close> and nothing else changed.\<close>

definition allocated :: "kernel_heap \<Rightarrow> nat \<Rightarrow> nat \<Rightarrow> kernel_heap \<Rightarrow> bool" where
  "allocated h a n h' \<longleftrightarrow>
     heap_inv h' \<and> a \<notin> fst ` live_blocks h \<and> live_blocks h' = insert (a, n) (live_blocks h) \<and>
     SlabCount h' = SlabCount h \<and> HeapStart h' = HeapStart h \<and>
     (\<forall>b m x. (b, m) \<in> live_blocks h \<longrightarrow> b + 12 \<le> x \<longrightarrow> x < b + m \<longrightarrow> Cells h' x = Cells h x)"

text \<open>A block lies in its pages, apart from the others.\<close>

lemma page_live_small:
  "State (Slabs h ! i) = SlabSmall \<Longrightarrow> page_live h i =
     (\<lambda>a. (a, GetClassObjectSize (ClassIndex (Slabs h ! i)))) `
       (set (objects h i (ClassIndex (Slabs h ! i))) - set (free_objects h i))"
  by (simp add: page_live_def Let_def)

lemma large_pageD: "heap_pre h A \<Longrightarrow> i < SlabCount h \<Longrightarrow> State (Slabs h ! i) = SlabLargeHead \<Longrightarrow> large_ok h i"
  using heap_preD(3) [of h A] by (auto simp: page_ok_def split: slab_state.splits)

lemma live_block_cases:
  assumes pre: "heap_pre h A" and b: "(a, n) \<in> live_blocks h"
  obtains (small) i where "i < SlabCount h" "State (Slabs h ! i) = SlabSmall"
      "a \<in> set (objects h i (ClassIndex (Slabs h ! i)))" "a \<notin> set (free_objects h i)" "n = GetClassObjectSize (ClassIndex (Slabs h ! i))"
      "page_base h i \<le> a" "a + n \<le> page_base h i + 4096" "64 \<le> n"
    | (large) i where "i < SlabCount h" "State (Slabs h ! i) = SlabLargeHead" "a = page_base h i" "n = OwnerOrSpan (Slabs h ! i) * 4096"
      "0 < OwnerOrSpan (Slabs h ! i)" "i + OwnerOrSpan (Slabs h ! i) \<le> SlabCount h"
proof -
  obtain i where i: "i < SlabCount h" "(a, n) \<in> page_live h i" using b by (auto simp: live_blocks_def)
  show thesis
  proof (cases "State (Slabs h ! i)")
    case SlabSmall
    note sm = small_pageD(2) [OF pre i(1) SlabSmall]
    have "a \<in> set (objects h i (ClassIndex (Slabs h ! i)))" "a \<notin> set (free_objects h i)" "n = GetClassObjectSize (ClassIndex (Slabs h ! i))"
      using i(2) unfolding page_live_small [OF SlabSmall] by auto
    with objects_bounds [OF sm this(1)] class_size(1) [OF sm] i(1) SlabSmall show thesis by (intro small) auto
  next
    case SlabLargeHead
    then have "large_ok h i" using large_pageD [OF pre i(1)] by simp
    with i SlabLargeHead show thesis by (intro large) (auto simp: page_live_def large_ok_def Let_def)
  qed (use i(2) in \<open>auto simp: page_live_def\<close>)
qed

lemma live_blocks_apart_pages:
  assumes pre: "heap_pre h A" and b: "(b, m) \<in> live_blocks h" and x: "b \<le> x" "x < b + m"
  shows "\<exists>j<SlabCount h. page_base h j \<le> x \<and> x < page_base h j + 4096 \<and> State (Slabs h ! j) \<noteq> SlabFree"
  using pre b
proof (cases rule: live_block_cases)
  case (small i)
  with x show ?thesis by (intro exI [of _ i]) auto
next
  case (large i)
  let ?k = "(x - page_base h i) div 4096"
  have "large_ok h i" using large_pageD [OF pre large(1,2)] .
  moreover have k: "?k < OwnerOrSpan (Slabs h ! i)" using large x by (simp add: less_mult_imp_div_less mult.commute)
  ultimately have "State (Slabs h ! (i + ?k)) \<noteq> SlabFree"
    using large(2) by (cases "?k = 0") (auto simp: large_ok_def Let_def)
  moreover have "page_base h i + ?k * 4096 \<le> x \<and> x < page_base h i + ?k * 4096 + 4096"
    using large(3) x(1) div_mult_mod_eq [of "x - page_base h i" 4096] mod_less_divisor [of 4096 "x - page_base h i"] by linarith
  then have "page_base h (i + ?k) \<le> x" "x < page_base h (i + ?k) + 4096"
    by (simp_all add: page_base_def add_mult_distrib)
  ultimately show ?thesis using k large(6) by (intro exI [of _ "i + ?k"]) auto
qed

lemma run_apart:
  assumes l: "large_ok h i" and j: "State (Slabs h ! j) \<noteq> SlabLargeTail" "i \<noteq> j"
  shows "j < i \<or> page_base h i + OwnerOrSpan (Slabs h ! i) * 4096 \<le> page_base h j"
proof -
  have "j < i \<or> i + OwnerOrSpan (Slabs h ! i) \<le> j"
    using l j unfolding large_ok_def Let_def by (metis linorder_neqE_nat not_le)
  moreover have "page_base h i + OwnerOrSpan (Slabs h ! i) * 4096 = page_base h (i + OwnerOrSpan (Slabs h ! i))"
    by (simp add: page_base_def add_mult_distrib)
  ultimately show ?thesis by (auto simp: page_base_def)
qed

lemma live_blocks_disjoint:
  assumes pre: "heap_pre h A" and a: "(a, n) \<in> live_blocks h" and b: "(b, m) \<in> live_blocks h" and ab: "a < b"
  shows "a + n \<le> b"
  using pre a
proof (cases rule: live_block_cases)
  case (small i)
  show ?thesis using pre b
  proof (cases rule: live_block_cases)
    case s: (small j)
    show ?thesis
    proof (cases "j = i")
      case True
      then show ?thesis
        using objects_apart [OF small_pageD(2) [OF pre small(1,2)] small(3) _ ab] small s by simp
    next
      case False
      then show ?thesis using pages_apart [of i j h] pages_apart [of j i h] small(6-8) s(6-8) ab by (cases "i < j") linarith+
    qed
  next
    case l: (large j)
    have "i \<noteq> j" using small l by auto
    then have "j \<noteq> i" "State (Slabs h ! i) \<noteq> SlabLargeTail" using small(2) by auto
    from run_apart [OF large_pageD [OF pre l(1,2)] this(2,1)] show ?thesis
    proof
      assume "i < j" with pages_apart [OF this, of h] small(7) l(3) show ?thesis by linarith
    next
      assume "page_base h j + OwnerOrSpan (Slabs h ! j) * 4096 \<le> page_base h i"
      with small(6) l(3) ab show ?thesis by linarith
    qed
  qed
next
  case (large i)
  show ?thesis using pre b
  proof (cases rule: live_block_cases)
    case s: (small j)
    have "i \<noteq> j" using large s by auto
    with run_apart [OF large_pageD [OF pre large(1,2)], of j] s(2,6-8) pages_apart [of j i h] large(3,4) ab
    show ?thesis by auto
  next
    case l: (large j)
    have "i \<noteq> j" using large(3) l(3) ab by auto
    moreover have "\<not> j < i" using ab large(3) l(3) pages_apart [of j i h] by auto
    ultimately show ?thesis using run_apart [OF large_pageD [OF pre large(1,2)], of j] l(2,3) large(3,4) by simp
  qed
qed

lemma new_block_apart:
  assumes "heap_inv h'" and "a \<notin> fst ` live_blocks h" and "live_blocks h' = insert (a, n) (live_blocks h)"
    and b: "(b, m) \<in> live_blocks h"
  shows "a + n \<le> b \<or> b + m \<le> a"
proof -
  obtain A where pre: "heap_pre h' A" using assms(1) heap_inv_pre by blast
  have "a \<noteq> b" using assms(2) b by force
  then show ?thesis using live_blocks_disjoint [OF pre, of a n b m] live_blocks_disjoint [OF pre, of b m a n] assms(3) b
    by (cases "a < b") auto
qed

lemma AllocateSmall_spec:
  assumes inv: "heap_inv h" and c: "c < SLAB_CLASS_COUNT" and r: "AllocateSmall c h = (p, h')"
  shows "(p = 0 \<and> h' = h \<and> available h c = {} \<and> (\<forall>s. \<not> free_run h s 1)) \<or>
    (\<exists>a. p = a + 12 \<and> allocated h a (GetClassObjectSize c) h')"
proof -
  obtain A where pre: "heap_pre h A" using inv heap_inv_pre by blast
  note strict = heap_inv_strict [OF inv]
  note p = heap_preD [OF pre]
  show ?thesis
  proof (cases "A c")
    case (Cons i xs)
    then have hd: "ClassAvailableHead h ! c = int i" using list_head [OF p(2) c] by simp
    have i: "i \<in> set (A c)" using Cons by simp
    obtain a h1 where a: "AllocateFromSlab i c h = (a + 12, h1)" "heap_inv h1" "a \<in> set (objects h i c)"
      "a \<notin> fst ` live_blocks h" "live_blocks h1 = insert (a, GetClassObjectSize c) (live_blocks h)" "only_in {i} h h1"
      "off_object a (Cells h) (Cells h1)"
      using AllocateFromSlab_spec [OF pre c i strict] by blast
    have h1: "p = a + 12" "h' = h1" using r hd a(1) by (simp_all add: AllocateSmall_def)
    have "Cells h1 x = Cells h x" if b: "(b, m) \<in> live_blocks h" "b + 12 \<le> x" "x < b + m" for b m x
    proof -
      have "x < a \<or> a + 12 \<le> x" using new_block_apart [OF a(2,4,5) b(1)] b class_size(1) [OF c] by auto
      with a(7) show ?thesis by (auto simp: off_object_def)
    qed
    then have "allocated h a (GetClassObjectSize c) h1" using a by (auto simp: allocated_def only_in_def)
    with h1 show ?thesis by blast
  next
    case Nil
    then have hd: "ClassAvailableHead h ! c = INVALID_LIST_INDEX" using list_head [OF p(2) c] by simp
    consider (no) "FindFreeSlabRun h 1 = -1" "\<forall>s. \<not> free_run h s 1" | (yes) i where "FindFreeSlabRun h 1 = int i" "free_run h i 1"
      using FindFreeSlabRun_spec [of 1 h] by auto
    then show ?thesis
    proof cases
      case no
      then show ?thesis using r hd Nil p(4) [OF c] by (simp add: AllocateSmall_def Let_def)
    next
      case (yes i)
      then have i: "i < SlabCount h" "State (Slabs h ! i) = SlabFree" by (auto simp: free_run_def)
      obtain h1 where h1: "InitializeSmallSlab i c h = (True, h1)" "heap_pre h1 (A(c := i # A c))" "live_blocks h1 = live_blocks h"
        "only_in {i} h h1" "\<And>x. x < page_base h i \<or> page_base h i + 4096 \<le> x \<Longrightarrow> Cells h1 x = Cells h x"
        using InitializeSmallSlab_spec [OF pre c i] by blast
      have n1: "SlabCount h1 = SlabCount h" "HeapStart h1 = HeapStart h" using h1(4) by (simp_all add: only_in_def)
      have hd1: "ClassAvailableHead h1 ! c = int i" using list_head [OF heap_preD(2) [OF h1(2)] c] by simp
      have st1: "FreeObjects (Slabs h1 ! j) < TotalObjects (Slabs h1 ! j)"
        if "j < SlabCount h1" "j \<noteq> i" "State (Slabs h1 ! j) = SlabSmall" for j
        using strict [of j] that h1(4) by (simp add: only_in_def same_page_def)
      have mem: "i \<in> set ((A(c := i # A c)) c)" by simp
      obtain a h2 where a: "AllocateFromSlab i c h1 = (a + 12, h2)" "heap_inv h2" "a \<in> set (objects h1 i c)"
        "a \<notin> fst ` live_blocks h1" "live_blocks h2 = insert (a, GetClassObjectSize c) (live_blocks h1)" "only_in {i} h1 h2"
        "off_object a (Cells h1) (Cells h2)"
        using AllocateFromSlab_spec [OF h1(2) c mem st1] by blast
      have h2: "p = a + 12" "h' = h2" using r hd yes(1) h1(1) hd1 a(1) by (simp_all add: AllocateSmall_def Let_def)
      have pb: "page_base h1 = page_base h" by (rule ext) (simp add: page_base_def n1)
      have "i < SlabCount h1" using i(1) n1 by simp
      note ob = object_in_heap [OF heap_preD(1) [OF h1(2)] this c a(3), unfolded pb]
      have "Cells h2 x = Cells h x" if b: "(b, m) \<in> live_blocks h" "b + 12 \<le> x" "x < b + m" for b m x
      proof -
        obtain k where k: "k < SlabCount h" "page_base h k \<le> x" "x < page_base h k + 4096" "State (Slabs h ! k) \<noteq> SlabFree"
          using live_blocks_apart_pages [OF pre b(1), of x] b by auto
        have "k \<noteq> i" using k i by auto
        then have "x < page_base h i \<or> page_base h i + 4096 \<le> x"
          using pages_apart [of i k h] pages_apart [of k i h] k by (cases "i < k") linarith+
        moreover from this have "x < a \<or> a + 12 \<le> x" using ob(2,3) by linarith
        ultimately show ?thesis using h1(5) a(7) by (auto simp: off_object_def)
      qed
      then have "allocated h a (GetClassObjectSize c) h2" using a h1(3) n1 by (auto simp: allocated_def only_in_def)
      with h2 show ?thesis by blast
    qed
  qed
qed

lemma fold_upd_slab:
  "(\<And>k. k \<in> set ks \<Longrightarrow> k < length (Slabs h)) \<Longrightarrow>
   fold (\<lambda>k. upd_slab k (\<lambda>_. d)) ks h = h\<lparr>Slabs := Slabs (fold (\<lambda>k. upd_slab k (\<lambda>_. d)) ks h)\<rparr> \<and>
   length (Slabs (fold (\<lambda>k. upd_slab k (\<lambda>_. d)) ks h)) = length (Slabs h) \<and>
   (\<forall>j. Slabs (fold (\<lambda>k. upd_slab k (\<lambda>_. d)) ks h) ! j = (if j \<in> set ks then d else Slabs h ! j))"
proof (induction ks arbitrary: h)
  case (Cons k ks)
  let ?h = "upd_slab k (\<lambda>_. d) h"
  have k: "k < length (Slabs h)" using Cons.prems by simp
  have "\<And>k'. k' \<in> set ks \<Longrightarrow> k' < length (Slabs ?h)" using Cons.prems by (simp add: upd_slab_def)
  from Cons.IH [OF this] show ?case using k by (auto simp: upd_slab_def nth_list_update)
qed simp

definition set_pages :: "nat \<Rightarrow> nat \<Rightarrow> slab \<Rightarrow> kernel_heap \<Rightarrow> kernel_heap" where
  "set_pages i n d h = fold (\<lambda>k. upd_slab k (\<lambda>_. d)) [i..<i + n] h"

lemma set_pages_spec:
  assumes "i + n \<le> length (Slabs h)"
  shows "set_pages i n d h = h\<lparr>Slabs := Slabs (set_pages i n d h)\<rparr>"
    "length (Slabs (set_pages i n d h)) = length (Slabs h)"
    "Slabs (set_pages i n d h) ! j = (if i \<le> j \<and> j < i + n then d else Slabs h ! j)"
  using fold_upd_slab [of "[i..<i + n]" h d] assms unfolding set_pages_def by auto

lemma free_page_no_live: "State (Slabs h ! i) = SlabFree \<Longrightarrow> page_live h i = {}"
  by (simp add: page_live_def)

lemma free_page_unlinked:
  assumes pre: "heap_pre h A" and "i < SlabCount h" and "State (Slabs h ! i) = SlabFree"
  shows "unlinked (Slabs h ! i)"
proof -
  have "i \<notin> set (A c)" if "c < SLAB_CLASS_COUNT" for c using heap_preD(4) [OF pre that] assms(3) by (auto simp: available_def)
  with heap_preD(2) [OF pre] assms(2) show ?thesis by (simp add: lists_ok_def)
qed

lemma AllocateLarge_run:
  assumes inv: "heap_inv h" and run: "free_run h i n" and n: "0 < n"
    and h1: "h1 = upd_slab i (\<lambda>_. LargeHead n) h"
    and h2: "h2 = fold (\<lambda>Offset. upd_slab (i + Offset) (\<lambda>_. LargeTail i)) [1..<n] h1"
    and h3: "h3 = h2\<lparr>Cells := store_header (page_base h i) i LARGE_CLASS_SENTINEL (Cells h2)\<rparr>"
  shows "allocated h (page_base h i) (n * 4096) h3"
proof -
  obtain A where pre: "heap_pre h A" using inv heap_inv_pre by blast
  note p = heap_preD [OF pre]
  have fr: "i + n \<le> SlabCount h" "\<And>k. i \<le> k \<Longrightarrow> k < i + n \<Longrightarrow> State (Slabs h ! k) = SlabFree"
    using run by (auto simp: free_run_def)
  have i: "i < SlabCount h" using fr(1) n by simp
  have len: "SlabCount h \<le> length (Slabs h)" "SlabCount h \<le> 8192" using p(1) by (auto simp: heap_shape_def heap_consts)
  have sz: "n mod 4294967296 = n" "i mod 4294967296 = i" using fr(1) len(2) by simp_all
  have "fold (\<lambda>Offset. upd_slab (i + Offset) (\<lambda>_. LargeTail i)) [1..<n] h1 = fold (\<lambda>k. upd_slab k (\<lambda>_. LargeTail i)) (map ((+) i) [1..<n]) h1"
    by (simp add: fold_map comp_def)
  also have "map ((+) i) [1..<n] = [i + 1..<i + n]" by (rule nth_equalityI) auto
  finally have h2': "h2 = fold (\<lambda>k. upd_slab k (\<lambda>_. LargeTail i)) [i + 1..<i + n] h1" by (simp add: h2)
  have "length (Slabs h1) = length (Slabs h)" by (simp add: h1 upd_slab_def)
  then have sl: "h2 = h1\<lparr>Slabs := Slabs h2\<rparr>" "length (Slabs h2) = length (Slabs h)"
    "\<And>j. Slabs h2 ! j = (if i < j \<and> j < i + n then LargeTail i else Slabs h1 ! j)"
    using fold_upd_slab [of "[i + 1..<i + n]" h1 "LargeTail i"] fr(1) len(1) unfolding h2' by auto
  have s1: "Slabs h1 ! j = (if j = i then LargeHead n else Slabs h ! j)" for j
    using i len(1) by (simp add: h1 upd_slab_def nth_list_update)
  have st: "HeapStart h3 = HeapStart h" "SlabCount h3 = SlabCount h" "ManagedHeapSize h3 = ManagedHeapSize h"
    "ClassAvailableHead h3 = ClassAvailableHead h" "length (Slabs h3) = length (Slabs h)"
    "Cells h3 = store_header (page_base h i) i LARGE_CLASS_SENTINEL (Cells h)"
    using sl(1,2) by (simp_all add: h3 h1 upd_slab_def; metis kernel_heap.select_convs kernel_heap.surjective kernel_heap.update_convs)+
  have s3: "Slabs h3 ! j = (if j = i then LargeHead n else if i < j \<and> j < i + n then LargeTail i else Slabs h ! j)" for j
    by (simp add: h3 sl(3) s1)
  let ?X = "{i..<i + n}"
  have out: "Cells h3 x = Cells h x" if "x < page_base h i \<or> page_base h i + 4096 \<le> x" for x
    using store_header_off [of "page_base h i" "Cells h" i LARGE_CLASS_SENTINEL] that by (auto simp: st off_object_def)
  have "Cells h3 x = Cells h x" if "j < SlabCount h" "j \<notin> ?X" "page_base h j \<le> x" "x < page_base h j + 4096" for j x
  proof -
    have "j \<noteq> i" using that(2) n by auto
    then show ?thesis using pages_apart [of i j h] pages_apart [of j i h] that by (intro out, cases "j < i") linarith+
  qed
  moreover have "same_page (Slabs h3 ! j) (Slabs h ! j)" if "j \<notin> ?X" for j using that n by (auto simp: s3)
  ultimately have only: "only_in ?X h h3" unfolding only_in_def by (simp add: st)
  have cl: "closed h ?X" using fr(2) by (intro closed_small_free [OF p(3)]) simp
  have "PrevAvailable (Slabs h3 ! j) = PrevAvailable (Slabs h ! j) \<and> NextAvailable (Slabs h3 ! j) = NextAvailable (Slabs h ! j)" for j
  proof (cases "j \<in> ?X")
    case True
    then have "unlinked (Slabs h ! j)" using fr by (intro free_page_unlinked [OF pre]) auto
    with True show ?thesis by (auto simp: s3 unlinked_def LargeHead_def LargeTail_def)
  qed (use n in \<open>auto simp: s3\<close>)
  then have lists: "lists_ok h3 A" using p(2) lists_ok_cong [of h3 h A] st by simp
  have hdr: "header (Cells h3) (page_base h i) i LARGE_CLASS_SENTINEL"
    unfolding st using i len(2) by (intro store_header_header) (auto simp: LARGE_CLASS_SENTINEL_def)
  have base: "page_base h3 j = page_base h j" for j by (simp add: page_base_def st)
  have "page_ok h3 j" if j: "j \<in> ?X" for j
  proof (cases "j = i")
    case True
    have "large_ok h3 i" unfolding large_ok_def Let_def using n fr(1) hdr
      by (auto simp: s3 LargeHead_def LargeTail_def sz st base)
    then show ?thesis by (simp add: True page_ok_def s3 LargeHead_def)
  next
    case False
    with j have "tail_ok h3 j" by (auto simp: tail_ok_def Let_def s3 LargeHead_def LargeTail_def sz)
    with False j show ?thesis by (simp add: page_ok_def s3 LargeTail_def)
  qed
  moreover have "available h3 c = available h c" for c
  proof -
    have "j \<in> available h3 c \<longleftrightarrow> j \<in> available h c" for j
    proof (cases "j \<in> ?X")
      case True
      then show ?thesis using fr(2) by (auto simp: available_def s3 LargeHead_def LargeTail_def)
    qed (rule available_other [OF only])
    then show ?thesis by blast
  qed
  ultimately have pre3: "heap_pre h3 A" using p(4) by (intro heap_pre_step [OF pre only cl lists]) auto
  have "FreeObjects (Slabs h3 ! j) < TotalObjects (Slabs h3 ! j)" if "j < SlabCount h3" "State (Slabs h3 ! j) = SlabSmall" for j
    using that heap_inv_strict [OF inv, of j] by (auto simp: s3 st LargeHead_def LargeTail_def split: if_splits)
  with pre3 have inv3: "heap_inv h3" by (auto simp: heap_inv_def)
  have sub: "?X \<subseteq> {..<SlabCount h}" using fr(1) by auto
  have "page_live h3 i = {(page_base h i, n * 4096)}" by (simp add: page_live_def s3 LargeHead_def sz base)
  moreover have "page_live h3 j = {}" if "j \<in> ?X - {i}" for j using that by (auto simp: page_live_def s3 LargeTail_def)
  moreover have "i \<in> ?X" using n by simp
  ultimately have "(\<Union>j\<in>?X. page_live h3 j) = {(page_base h i, n * 4096)}" by blast
  moreover have "(\<Union>j\<in>?X. page_live h j) = {}" using fr(2) free_page_no_live by auto
  ultimately have live: "live_blocks h3 = insert (page_base h i, n * 4096) (live_blocks h)"
    using live_split [OF only cl p(3) sub] by simp
  have "page_base h i \<notin> fst ` live_blocks h"
  proof
    assume "page_base h i \<in> fst ` live_blocks h"
    then obtain m j where j: "j < SlabCount h" "(page_base h i, m) \<in> page_live h j" by (auto simp: live_blocks_def)
    have "j = i" by (rule live_other_page [OF p(3) j(2,1)]) simp_all
    with j free_page_no_live [OF fr(2) [of i]] n show False by simp
  qed
  moreover have "Cells h3 x = Cells h x" if b: "(b, m) \<in> live_blocks h" "b + 12 \<le> x" "x < b + m" for b m x
  proof -
    obtain k where k: "k < SlabCount h" "page_base h k \<le> x" "x < page_base h k + 4096" "State (Slabs h ! k) \<noteq> SlabFree"
      using live_blocks_apart_pages [OF pre b(1), of x] b by auto
    have "k \<noteq> i" using k fr(2) [of i] n by auto
    then show ?thesis using pages_apart [of i k h] pages_apart [of k i h] k by (intro out, cases "i < k") linarith+
  qed
  ultimately show ?thesis using inv3 live by (simp add: allocated_def st)
qed

lemma AllocateLarge_spec:
  assumes inv: "heap_inv h" and r: "AllocateLarge Size h = (p, h')"
  shows "(p = 0 \<and> h' = h \<and> (\<forall>s. \<not> free_run h s ((Size + 4107) div 4096))) \<or>
    (\<exists>a n. p = a + 12 \<and> Size + 12 \<le> n \<and> allocated h a n h')"
proof -
  let ?n = "(Size + 4107) div 4096"
  obtain A where pre: "heap_pre h A" using inv heap_inv_pre by blast
  note p = heap_preD [OF pre]
  have cnt: "SlabCount h \<le> 8192" using p(1) by (auto simp: heap_shape_def heap_consts)
  have big: "\<not> free_run h s ?n" if "Size + 4107 \<ge> 18446744073709551616" for s
  proof
    assume "free_run h s ?n"
    then have "?n \<le> 8192" using cnt by (simp add: free_run_def)
    moreover have "18446744073709551616 div 4096 \<le> ?n" using that by (rule div_le_mono)
    ultimately show False by simp
  qed
  show ?thesis
  proof (cases "Size + 4107 < 18446744073709551616")
    case False
    have "p = 0 \<and> h' = h"
    proof (cases "Size > SIZE_MAX - SizeofAllocationHeader")
      case True then show ?thesis using r by (simp add: AllocateLarge_def)
    next
      case fits: False
      then have "Size + 4107 < 18446744073709551616 + 4096" by (simp add: heap_consts)
      with False have "w64 (Size + SizeofAllocationHeader + (KERNEL_PAGE_SIZE - 1)) < 4096"
        by (simp add: w64_def heap_consts mod_if) linarith
      then have "w64 (Size + SizeofAllocationHeader + (KERNEL_PAGE_SIZE - 1)) div KERNEL_PAGE_SIZE = 0" by (simp add: heap_consts)
      then show ?thesis using r fits by (simp add: AllocateLarge_def)
    qed
    with big False show ?thesis by simp
  next
    case True
    have n: "w64 (Size + SizeofAllocationHeader + (KERNEL_PAGE_SIZE - 1)) div KERNEL_PAGE_SIZE = ?n"
      using True by (simp add: heap_consts)
    have fits: "\<not> Size > SIZE_MAX - SizeofAllocationHeader" using True by (simp add: heap_consts)
    have n0: "0 < ?n" by (simp add: div_greater_zero_iff)
    consider (no) "FindFreeSlabRun h ?n = -1" "\<forall>s. \<not> free_run h s ?n" | (yes) i where "FindFreeSlabRun h ?n = int i" "free_run h i ?n"
      using FindFreeSlabRun_spec [OF n0, of h] by auto
    then show ?thesis
    proof cases
      case no
      have "AllocateLarge Size h = (0, h)" unfolding AllocateLarge_def Let_def n using fits n0 no(1) by simp
      with r no(2) show ?thesis by simp
    next
      case (yes i)
      have i: "i < SlabCount h" using yes(2) n0 by (simp add: free_run_def)
      let ?h1 = "upd_slab i (\<lambda>_. LargeHead ?n) h"
      let ?h2 = "fold (\<lambda>Offset. upd_slab (i + Offset) (\<lambda>_. LargeTail i)) [1..<?n] ?h1"
      let ?h3 = "?h2\<lparr>Cells := store_header (page_base h i) i LARGE_CLASS_SENTINEL (Cells ?h2)\<rparr>"
      have al: "allocated h (page_base h i) (?n * 4096) ?h3" by (rule AllocateLarge_run [OF inv yes(2) n0 refl refl refl])
      then have hs: "HeapStart ?h2 = HeapStart h" by (simp add: allocated_def)
      have b: "GetSlabBaseAddress ?h2 i = page_base h i"
        using heap_shape_bounds [OF p(1) i] hs by (simp add: GetSlabBaseAddress_def)
      have "w64 (page_base h i + SizeofAllocationHeader) = page_base h i + 12"
        using heap_shape_bounds [OF p(1) i] by (simp add: SizeofAllocationHeader_def)
      then have "AllocateLarge Size h = (page_base h i + 12, ?h3)"
        unfolding AllocateLarge_def Let_def n using fits n0 yes(1) b by simp
      moreover have "Size + 12 \<le> ?n * 4096" using div_mult_mod_eq [of "Size + 4107" 4096] mod_less_divisor [of 4096 "Size + 4107"] by linarith
      ultimately show ?thesis using al r by auto
    qed
  qed
qed

lemma SelectClassIndex_fits:
  assumes "SelectClassIndex Size < SLAB_CLASS_COUNT"
  shows "Size + 12 \<le> GetClassObjectSize (SelectClassIndex Size)"
proof -
  obtain c where c: "List.find (\<lambda>c. SLAB_CLASS_SIZES ! c \<ge> Size + SizeofAllocationHeader) [0..<SLAB_CLASS_COUNT] = Some c"
    "SelectClassIndex Size = c"
    using assms by (auto simp: SelectClassIndex_def split: if_splits option.splits)
  from find_SomeD [OF c(1)] c(2) show ?thesis by (simp add: GetClassObjectSize_def SizeofAllocationHeader_def)
qed

lemma SelectClassIndex_cases:
  assumes "0 < Size"
  shows "(SelectClassIndex Size < SLAB_CLASS_COUNT) = (Size + 12 \<le> 4096)"
proof
  assume c: "SelectClassIndex Size < SLAB_CLASS_COUNT"
  from SelectClassIndex_fits [OF c] class_size(5) [OF c] show "Size + 12 \<le> 4096" by simp
next
  assume s: "Size + 12 \<le> 4096"
  let ?P = "\<lambda>c. SLAB_CLASS_SIZES ! c \<ge> Size + SizeofAllocationHeader"
  have P6: "?P 6" "6 \<in> set [0..<SLAB_CLASS_COUNT]"
    using s by (simp_all add: SLAB_CLASS_SIZES_def SizeofAllocationHeader_def SLAB_CLASS_COUNT_def)
  show "SelectClassIndex Size < SLAB_CLASS_COUNT"
  proof (cases "List.find ?P [0..<SLAB_CLASS_COUNT]")
    case None
    from find_NoneD [OF None P6(2)] P6(1) show ?thesis by simp
  next
    case (Some c)
    from find_SomeD [OF Some] have "c < SLAB_CLASS_COUNT" by simp
    with Some s show ?thesis by (simp add: SelectClassIndex_def SIZE_MAX_def SizeofAllocationHeader_def)
  qed
qed

lemma kmalloc_spec:
  assumes inv: "heap_inv h" and r: "kmalloc Size h = (p, h')"
  shows "(p = 0 \<and> h' = h) \<or> (\<exists>a n. p = a + 12 \<and> Size + 12 \<le> n \<and> allocated h a n h')"
proof (cases "Size = 0 \<or> SlabCount h = 0")
  case False
  show ?thesis
  proof (cases "SelectClassIndex Size < SLAB_CLASS_COUNT")
    case c: True
    then have "AllocateSmall (SelectClassIndex Size) h = (p, h')" using r False by (simp add: kmalloc_def)
    from AllocateSmall_spec [OF inv c this] SelectClassIndex_fits [OF c] show ?thesis by blast
  next
    case c: False
    then have "AllocateLarge Size h = (p, h')" using r False by (simp add: kmalloc_def)
    from AllocateLarge_spec [OF inv this] show ?thesis by blast
  qed
qed (use r in \<open>auto simp: kmalloc_def split: if_splits\<close>)

text \<open>When an allocation fails there was no room for it.\<close>

definition has_room :: "kernel_heap \<Rightarrow> nat \<Rightarrow> bool" where
  "has_room h Size \<longleftrightarrow>
     (if Size + 12 \<le> 4096 then available h (SelectClassIndex Size) \<noteq> {} \<or> (\<exists>s. free_run h s 1)
      else (\<exists>s. free_run h s ((Size + 4107) div 4096)))"

lemma kmalloc_null:
  assumes inv: "heap_inv h" and Size: "0 < Size"
  shows "fst (kmalloc Size h) = 0 \<longleftrightarrow> \<not> has_room h Size"
proof -
  obtain p h' where r: "kmalloc Size h = (p, h')" by fastforce
  have n0: "\<not> free_run h s n" if "SlabCount h = 0" "0 < n" for s n using that by (simp add: free_run_def)
  show ?thesis
  proof (cases "SlabCount h = 0")
    case True
    have "0 < (Size + 4107) div 4096" by (simp add: div_greater_zero_iff)
    with True n0 [OF True] r Size show ?thesis by (auto simp: kmalloc_def has_room_def available_def)
  next
    case cnt: False
    show ?thesis
    proof (cases "Size + 12 \<le> 4096")
      case True
      then have c: "SelectClassIndex Size < SLAB_CLASS_COUNT" using SelectClassIndex_cases [OF Size] by simp
      then have a: "AllocateSmall (SelectClassIndex Size) h = (p, h')" using r Size cnt by (simp add: kmalloc_def)
      show ?thesis
      proof (cases "p = 0")
        case p0: True
        with AllocateSmall_spec [OF inv c a] True r show ?thesis by (simp add: has_room_def)
      next
        case p: False
        have "available h (SelectClassIndex Size) \<noteq> {} \<or> (\<exists>s. free_run h s 1)"
        proof (rule ccontr)
          assume no: "\<not> ?thesis"
          obtain A where pre: "heap_pre h A" using inv heap_inv_pre by blast
          have "A (SelectClassIndex Size) = []" using no heap_preD(4) [OF pre c] by simp
          then have "ClassAvailableHead h ! SelectClassIndex Size = INVALID_LIST_INDEX"
            using list_head [OF heap_preD(2) [OF pre] c] by simp
          moreover have "FindFreeSlabRun h 1 = -1" using FindFreeSlabRun_spec [of 1 h] no by auto
          ultimately show False using a p by (simp add: AllocateSmall_def Let_def)
        qed
        with p True r show ?thesis by (simp add: has_room_def)
      qed
    next
      case False
      then have "\<not> SelectClassIndex Size < SLAB_CLASS_COUNT" using SelectClassIndex_cases [OF Size] by simp
      then have a: "AllocateLarge Size h = (p, h')" using r Size cnt by (simp add: kmalloc_def)
      let ?n = "(Size + 4107) div 4096"
      have n: "0 < ?n" by (simp add: div_greater_zero_iff)
      show ?thesis
      proof (cases "p = 0")
        case p0: True
        with AllocateLarge_spec [OF inv a] False r show ?thesis by (simp add: has_room_def)
      next
        case p: False
        have "\<exists>s. free_run h s ?n"
        proof (rule ccontr)
          assume no: "\<not> ?thesis"
          then have none: "FindFreeSlabRun h ?n = -1" using FindFreeSlabRun_spec [OF n, of h] by auto
          have fits: "\<not> Size > SIZE_MAX - SizeofAllocationHeader" using a p by (auto simp: AllocateLarge_def)
          show False
          proof (cases "Size + 4107 < 18446744073709551616")
            case True
            then have "w64 (Size + SizeofAllocationHeader + (KERNEL_PAGE_SIZE - 1)) div KERNEL_PAGE_SIZE = ?n" by (simp add: heap_consts)
            with a p none show False by (auto simp: AllocateLarge_def Let_def split: if_splits)
          next
            case ov: False
            have "w64 (Size + SizeofAllocationHeader + (KERNEL_PAGE_SIZE - 1)) < 4096"
              using ov fits by (simp add: w64_def heap_consts mod_if) linarith
            then have "w64 (Size + SizeofAllocationHeader + (KERNEL_PAGE_SIZE - 1)) div KERNEL_PAGE_SIZE = 0" by (simp add: heap_consts)
            with a p show False by (auto simp: AllocateLarge_def Let_def split: if_splits)
          qed
        qed
        with p False r show ?thesis by (simp add: has_room_def)
      qed
    qed
  qed
qed

section \<open>Freeing\<close>

text \<open>The result of freeing the block \<open>(a, n)\<close>.\<close>

definition released :: "kernel_heap \<Rightarrow> nat \<Rightarrow> nat \<Rightarrow> kernel_heap \<Rightarrow> bool" where
  "released h a n h' \<longleftrightarrow>
     heap_inv h' \<and> live_blocks h' = live_blocks h - {(a, n)} \<and> Cells h' a \<noteq> ALLOCATION_MAGIC \<and>
     SlabCount h' = SlabCount h \<and> HeapStart h' = HeapStart h \<and> ManagedHeapSize h' = ManagedHeapSize h \<and>
     (\<forall>x. x < a \<or> a + 12 \<le> x \<longrightarrow> Cells h' x = Cells h x)"

lemma FreeLarge_spec:
  assumes inv: "heap_inv h" and i: "i < SlabCount h" and st: "State (Slabs h ! i) = SlabLargeHead"
  shows "released h (page_base h i) (OwnerOrSpan (Slabs h ! i) * 4096) (FreeLarge (page_base h i) i h)"
proof -
  obtain A where pre: "heap_pre h A" using inv heap_inv_pre by blast
  note p = heap_preD [OF pre]
  let ?n = "OwnerOrSpan (Slabs h ! i)" and ?a = "page_base h i"
  have l: "large_ok h i" using large_pageD [OF pre i st] .
  then have n: "0 < ?n" "i + ?n \<le> SlabCount h" by (simp_all add: large_ok_def Let_def)
  have len: "SlabCount h \<le> length (Slabs h)" using p(1) by (simp add: heap_shape_def)
  define h1 where "h1 = h\<lparr>Cells := (Cells h)(?a := 0)\<rparr>"
  define h' where "h' = set_pages i ?n FreeSlab h1"
  have run: "FreeLarge ?a i h = h'"
    using st n heap_shape_bounds [OF p(1) i] by (simp add: FreeLarge_def Let_def ReleaseSlabRun_def h'_def h1_def set_pages_def)
  have ln: "i + ?n \<le> length (Slabs h1)" using n len by (simp add: h1_def)
  note sp = set_pages_spec [OF ln, of FreeSlab, folded h'_def]
  have hst: "HeapStart h' = HeapStart h" "SlabCount h' = SlabCount h" "ManagedHeapSize h' = ManagedHeapSize h"
    "ClassAvailableHead h' = ClassAvailableHead h" "Cells h' = (Cells h)(?a := 0)"
    by (subst sp(1), simp add: h1_def)+
  have s': "Slabs h' ! j = (if i \<le> j \<and> j < i + ?n then FreeSlab else Slabs h ! j)" for j using sp(3) [of j] by (simp add: h1_def)
  have ll: "length (Slabs h') = length (Slabs h)" using sp(2) by (simp add: h1_def)
  let ?X = "{i..<i + ?n}"
  have big: "State (Slabs h ! k) = SlabLargeTail \<and> OwnerOrSpan (Slabs h ! k) = i" if "k \<in> ?X" "k \<noteq> i" for k
    using l that by (auto simp: large_ok_def Let_def)
  have "Cells h' x = Cells h x" if "j < SlabCount h" "j \<notin> ?X" "page_base h j \<le> x" "x < page_base h j + 4096" for j x
  proof -
    have "j \<noteq> i" using that(2) n by auto
    then have "x \<noteq> ?a" using pages_apart [of i j h] pages_apart [of j i h] that by (cases "j < i") linarith+
    then show ?thesis by (simp add: hst)
  qed
  moreover have "same_page (Slabs h' ! j) (Slabs h ! j)" if "j \<notin> ?X" for j using that by (auto simp: s')
  ultimately have only: "only_in ?X h h'" unfolding only_in_def by (simp add: hst ll)
  have cl: "closed h ?X" unfolding closed_def
  proof (intro allI impI conjI notI)
    fix j k assume j: "j < SlabCount h" "j \<notin> ?X" "State (Slabs h ! j) = SlabLargeHead"
      and k: "j < k \<and> k < j + OwnerOrSpan (Slabs h ! j)" "k \<in> ?X"
    have "State (Slabs h ! k) = SlabLargeTail" "OwnerOrSpan (Slabs h ! k) = j"
      using large_pageD [OF pre j(1,3)] k by (auto simp: large_ok_def Let_def)
    with big [OF k(2)] st j n show False by (cases "k = i") auto
  next
    fix j assume j: "j < SlabCount h" "j \<notin> ?X" "State (Slabs h ! j) = SlabLargeTail" "OwnerOrSpan (Slabs h ! j) \<in> ?X"
    have t: "tail_ok h j" using p(3) j by (auto simp: page_ok_def split: slab_state.splits)
    then have "State (Slabs h ! OwnerOrSpan (Slabs h ! j)) = SlabLargeHead" by (simp add: tail_ok_def Let_def)
    with big j(4) have "OwnerOrSpan (Slabs h ! j) = i" by force
    with t j(2) show False by (auto simp: tail_ok_def Let_def)
  qed
  have notA: "j \<notin> set (A c)" if "j \<in> ?X" "c < SLAB_CLASS_COUNT" for j c
    using p(4) [OF that(2)] big [OF that(1)] st by (cases "j = i") (auto simp: available_def)
  have "PrevAvailable (Slabs h' ! j) = PrevAvailable (Slabs h ! j) \<and> NextAvailable (Slabs h' ! j) = NextAvailable (Slabs h ! j)" for j
  proof (cases "j \<in> ?X")
    case True
    then have "unlinked (Slabs h ! j)" using p(2) notA n unfolding lists_ok_def by auto
    with True show ?thesis by (auto simp: s' unlinked_def FreeSlab_def)
  qed (auto simp: s')
  then have lists: "lists_ok h' A" using p(2) lists_ok_cong [of h' h A] hst by simp
  have "available h' c = set (A c)" if c: "c < SLAB_CLASS_COUNT" for c
  proof -
    have "j \<in> available h' c \<longleftrightarrow> j \<in> set (A c)" for j
    proof (cases "j \<in> ?X")
      case True then show ?thesis using notA [OF True c] by (auto simp: available_def s' FreeSlab_def)
    next
      case False then show ?thesis using available_other [OF only False] p(4) [OF c] by simp
    qed
    then show ?thesis by blast
  qed
  then have pre': "heap_pre h' A"
    by (intro heap_pre_step [OF pre only cl lists]) (auto simp: page_ok_def s' FreeSlab_def)
  have "FreeObjects (Slabs h' ! j) < TotalObjects (Slabs h' ! j)" if "j < SlabCount h'" "State (Slabs h' ! j) = SlabSmall" for j
    using that heap_inv_strict [OF inv, of j] by (auto simp: s' hst FreeSlab_def split: if_splits)
  with pre' have inv': "heap_inv h'" by (auto simp: heap_inv_def)
  have sub: "?X \<subseteq> {..<SlabCount h}" using n by auto
  have "page_live h i = {(?a, ?n * 4096)}" by (simp add: page_live_def st)
  moreover have "page_live h k = {}" if "k \<in> ?X - {i}" for k using big [of k] that by (simp add: page_live_def)
  moreover have "i \<in> ?X" using n by simp
  ultimately have X: "(\<Union>j\<in>?X. page_live h j) = {(?a, ?n * 4096)}" by blast
  have "page_live h' k = {}" if "k \<in> ?X" for k using that by (intro free_page_no_live) (auto simp: s' FreeSlab_def)
  then have X': "(\<Union>j\<in>?X. page_live h' j) = {}" by simp
  have "(?a, ?n * 4096) \<notin> page_live h j" if j: "j < SlabCount h" "j \<notin> ?X" for j
  proof
    assume "(?a, ?n * 4096) \<in> page_live h j"
    then have "j = i" by (rule live_other_page [OF p(3) _ j(1)]) simp_all
    with j(2) n show False by simp
  qed
  then have "live_blocks h' = live_blocks h - {(?a, ?n * 4096)}"
    using live_split [OF only cl p(3) sub] unfolding X X' by auto
  then show ?thesis using inv' by (simp add: released_def run hst ALLOCATION_MAGIC_def)
qed

lemma place_mod: "heap_shape h \<Longrightarrow> place h x \<Longrightarrow> x mod 64 = 0"
proof -
  assume "heap_shape h" "place h x"
  then have "64 dvd HeapStart h" "64 dvd x - HeapStart h" "HeapStart h \<le> x"
    by (auto simp: heap_shape_def place_def mod_eq_0_iff_dvd)
  then show "x mod 64 = 0" by (metis dvd_add le_add_diff_inverse mod_eq_0_iff_dvd)
qed

text \<open>The page after an object of it was pushed on its free list.\<close>

definition PushFree :: "nat \<Rightarrow> nat \<Rightarrow> nat \<Rightarrow> kernel_heap \<Rightarrow> kernel_heap" where
  "PushFree a i c h =
     (let h1 = h\<lparr>Cells := (Cells h)(a := 0)\<rparr>;
          h2 = (if FreeObjects (Slabs h ! i) = 0 then LinkSlabIntoClassList i c h1 else h1);
          h3 = h2\<lparr>Cells := store64 a (FreeList (Slabs h ! i)) (Cells h2)\<rparr>
      in upd_slab i (\<lambda>d. d\<lparr>FreeList := a, FreeObjects := FreeObjects d + 1\<rparr>) h3)"

definition pushed :: "nat \<Rightarrow> nat \<Rightarrow> kernel_heap \<Rightarrow> kernel_heap \<Rightarrow> bool" where
  "pushed a i h h' \<longleftrightarrow>
     only_in {i} h h' \<and> off_object a (Cells h) (Cells h') \<and>
     Cells h' = store64 a (FreeList (Slabs h ! i)) ((Cells h)(a := 0)) \<and>
     State (Slabs h' ! i) = SlabSmall \<and> ClassIndex (Slabs h' ! i) = ClassIndex (Slabs h ! i) \<and>
     TotalObjects (Slabs h' ! i) = TotalObjects (Slabs h ! i) \<and> FreeList (Slabs h' ! i) = a \<and>
     FreeObjects (Slabs h' ! i) = Suc (FreeObjects (Slabs h ! i))"

lemma cells_other_page:
  assumes "off_object a C C'" and "page_base h i \<le> a" "a + 64 \<le> page_base h i + 4096" and "j \<noteq> i"
    and "page_base h j \<le> x" "x < page_base h j + 4096"
  shows "C' x = C x"
proof -
  have "x < page_base h i \<or> page_base h i + 4096 \<le> x"
    using pages_apart [of i j h] pages_apart [of j i h] assms(4-) by (cases "j < i") linarith+
  then have "x < a \<or> a + 12 \<le> x" using assms(2,3) by linarith
  with assms(1) show ?thesis by (auto simp: off_object_def)
qed

lemma PushFree_pushed:
  assumes pre: "heap_pre h A" and i: "i < SlabCount h" and st: "State (Slabs h ! i) = SlabSmall"
    and c: "ClassIndex (Slabs h ! i) = c" and a: "a \<in> set (objects h i c)"
  defines "A' \<equiv> if FreeObjects (Slabs h ! i) = 0 then A(c := i # A c) else A"
  shows "pushed a i h (PushFree a i c h)" and "lists_ok (PushFree a i c h) A'"
proof -
  note p = heap_preD [OF pre]
  let ?d = "Slabs h ! i" and ?h4 = "PushFree a i c h"
  have cc: "c < SLAB_CLASS_COUNT" using small_pageD(2) [OF pre i st] c by simp
  note ob = object_in_heap [OF p(1) i cc a]
  have il: "i < length (Slabs h)" using heap_shape_bounds [OF p(1) i] by simp
  define h1 where "h1 = h\<lparr>Cells := (Cells h)(a := 0)\<rparr>"
  define h2 where "h2 = (if FreeObjects ?d = 0 then LinkSlabIntoClassList i c h1 else h1)"
  define h3 where "h3 = h2\<lparr>Cells := store64 a (FreeList ?d) (Cells h2)\<rparr>"
  have h4: "?h4 = upd_slab i (\<lambda>d. d\<lparr>FreeList := a, FreeObjects := FreeObjects d + 1\<rparr>) h3"
    by (simp add: PushFree_def h1_def h2_def h3_def Let_def)
  have sh1: "heap_shape h1" "lists_ok h1 A" using p(1,2) by (simp_all add: h1_def heap_shape_def)
  have nin: "i \<notin> set (A e)" if "FreeObjects ?d = 0" "e < SLAB_CLASS_COUNT" for e using p(4) [OF that(2)] that(1) by (auto simp: available_def)
  have l2: "lists_ok h2 A' \<and> same_pages h1 h2"
    using Link_spec [OF sh1 cc] i nin sh1(2) by (simp add: h2_def A'_def h1_def)
  have sp2: "same_page (Slabs h2 ! j) (Slabs h ! j)" if "j < length (Slabs h)" for j
    using l2 that by (simp add: same_pages_def h1_def)
  have len2: "length (Slabs h2) = length (Slabs h)" using l2 by (simp add: same_pages_def h1_def)
  have s4: "Slabs ?h4 ! i = (Slabs h2 ! i)\<lparr>FreeList := a, FreeObjects := FreeObjects (Slabs h2 ! i) + 1\<rparr>"
    "\<And>j. j \<noteq> i \<Longrightarrow> Slabs ?h4 ! j = Slabs h2 ! j"
    using il len2 by (simp_all add: h4 h3_def upd_slab_def)
  have st4: "HeapStart ?h4 = HeapStart h" "SlabCount ?h4 = SlabCount h" "ManagedHeapSize ?h4 = ManagedHeapSize h"
    "length (Slabs ?h4) = length (Slabs h)" "length (ClassAvailableHead ?h4) = length (ClassAvailableHead h)"
    "Cells ?h4 = store64 a (FreeList ?d) ((Cells h)(a := 0))"
    using l2 by (simp_all add: h4 h3_def upd_slab_def same_pages_def h1_def)
  have off: "off_object a (Cells h) (Cells ?h4)" by (simp add: st4 off_object_def store64_def)
  have "same_page (Slabs ?h4 ! j) (Slabs h ! j)" if "j < SlabCount h" "j \<noteq> i" for j
    using sp2 [of j] s4(2) that heap_shape_bounds [OF p(1) that(1)] by simp
  moreover have "Cells ?h4 x = Cells h x" if "j \<noteq> i" "page_base h j \<le> x" "x < page_base h j + 4096" for j x
    by (rule cells_other_page [OF off ob(3,2) that])
  ultimately have "only_in {i} h ?h4" unfolding only_in_def by (simp add: st4)
  then show "pushed a i h ?h4" using sp2 [OF il] s4(1) st off by (simp add: pushed_def st4 same_page_def)
  have "PrevAvailable (Slabs ?h4 ! j) = PrevAvailable (Slabs h2 ! j) \<and> NextAvailable (Slabs ?h4 ! j) = NextAvailable (Slabs h2 ! j)" for j
    using s4 by (cases "j = i") auto
  then have "lists_ok ?h4 A' = lists_ok h2 A'" by (intro lists_ok_cong) (simp_all add: h4 h3_def upd_slab_def)
  with l2 show "lists_ok ?h4 A'" by simp
qed

lemma PushFree_spec:
  assumes pre: "heap_pre h A" and i: "i < SlabCount h" and st: "State (Slabs h ! i) = SlabSmall"
    and c: "ClassIndex (Slabs h ! i) = c" and a: "a \<in> set (objects h i c)" and nf: "a \<notin> set (free_objects h i)"
  shows "\<exists>A'. heap_pre (PushFree a i c h) A'" and "free_objects (PushFree a i c h) i = a # free_objects h i"
    and "live_blocks (PushFree a i c h) = live_blocks h - {(a, GetClassObjectSize c)}"
proof -
  note p = heap_preD [OF pre] and sm = small_pageD [OF pre i st]
  let ?d = "Slabs h ! i" and ?f = "free_objects h i" and ?s = "GetClassObjectSize c" and ?h = "PushFree a i c h"
  let ?A = "if FreeObjects ?d = 0 then A(c := i # A c) else A"
  have cc: "c < SLAB_CLASS_COUNT" using sm(2) c by simp
  note ob = object_in_heap [OF p(1) i cc a]
  note pu = PushFree_pushed [OF pre i st c a, unfolded pushed_def] and f = sm(1) [unfolded small_ok_def Let_def c]
  have only: "only_in {i} h ?h" and off: "off_object a (Cells h) (Cells ?h)"
    and d: "State (Slabs ?h ! i) = SlabSmall" "ClassIndex (Slabs ?h ! i) = c" "TotalObjects (Slabs ?h ! i) = TotalObjects ?d"
      "FreeObjects (Slabs ?h ! i) = length (a # ?f)" "FreeList (Slabs ?h ! i) = a"
      "HeapStart ?h = HeapStart h" "SlabCount ?h = SlabCount h"
      "Cells ?h = store64 a (FreeList ?d) ((Cells h)(a := 0))"
    using pu(1) c f by (auto simp: only_in_def)
  have cl: "closed h {i}" using st by (intro closed_small_free [OF p(3)]) simp
  have ch: "chain (Cells ?h) a (a # ?f)"
    using chain_off [OF cc off a _ nf] f by (simp add: d)
  have ok: "small_ok ?h i (a # ?f)"
    by (rule small_ok_step [OF cc d(6) sm(1) c d(2,3) off a d(4)]) (use d(5) ch f nf in auto)
  show fr: "free_objects ?h i = a # ?f" using small_ok_free [OF ok] .
  have av: "set (?A e) = available ?h e" if e: "e < SLAB_CLASS_COUNT" for e
  proof (rule set_eqI)
    fix j show "j \<in> set (?A e) \<longleftrightarrow> j \<in> available ?h e"
    proof (cases "j = i")
      case True
      have "i \<in> available ?h e \<longleftrightarrow> e = c" using d i by (auto simp: available_def)
      moreover have "i \<in> set (A e) \<longleftrightarrow> e = c \<and> FreeObjects ?d \<noteq> 0" using p(4) [OF e] i st c by (auto simp: available_def)
      ultimately show ?thesis using True by auto
    next
      case False
      then show ?thesis using available_other [OF only, of j e] p(4) [OF e] by auto
    qed
  qed
  show "\<exists>A'. heap_pre ?h A'"
    by (rule exI, rule heap_pre_step [OF pre only cl pu(2)]) (use d(1) ok fr av in \<open>auto simp: page_ok_def\<close>)
  have "page_live ?h i = page_live h i - {(a, ?s)}"
    unfolding page_live_small [OF st] page_live_small [OF d(1)] using d(2) c fr by (auto simp: objects_cong [OF d(6)])
  moreover have "(a, ?s) \<notin> page_live h j" if "j < SlabCount h" "j \<noteq> i" for j
    using live_other_page [OF p(3) _ that(1), of a ?s i] that(2) ob(2,3) by auto
  ultimately show "live_blocks ?h = live_blocks h - {(a, ?s)}" using live_split [OF only cl p(3)] i by auto
qed

text \<open>A page whose objects are all free goes back; no block of a client is on it.\<close>

lemma release_page:
  assumes pre: "heap_pre h A" and i: "i < SlabCount h" and st: "State (Slabs h ! i) = SlabSmall"
    and c: "ClassIndex (Slabs h ! i) = c" and full: "FreeObjects (Slabs h ! i) = TotalObjects (Slabs h ! i)"
  defines "h' \<equiv> ReleaseSlabRun i 1 (UnlinkSlabFromClassList i c h)"
  shows "\<exists>A'. heap_pre h' A'" and "live_blocks h' = live_blocks h" and "only_in {i} h h'" and "Cells h' = Cells h"
    and "State (Slabs h' ! i) = SlabFree"
proof -
  note p = heap_preD [OF pre] and sm = small_pageD [OF pre i st]
  let ?h5 = "UnlinkSlabFromClassList i c h" and ?A = "A(c := remove1 i (A c))"
  have cc: "c < SLAB_CLASS_COUNT" using sm(2) c by simp
  have il: "i < length (Slabs h)" using heap_shape_bounds [OF p(1) i] by simp
  have "0 < slots c" using class_size(4) [OF cc] by (simp add: slots_def)
  then have ic: "i \<in> set (A c)" using p(4) [OF cc] i st c full sm(3) by (auto simp: available_def)
  have l5: "lists_ok ?h5 ?A" "same_pages h ?h5" using Unlink_spec [OF p(1,2) cc ic] by blast+
  have n5: "SlabCount ?h5 = SlabCount h" "length (Slabs ?h5) = length (Slabs h)" using l5(2) by (simp_all add: same_pages_def)
  have r: "h' = upd_slab i (\<lambda>_. FreeSlab) ?h5" using i by (simp add: h'_def ReleaseSlabRun_def n5)
  have s: "Slabs h' ! j = (if j = i then FreeSlab else Slabs ?h5 ! j)" for j
    using il by (simp add: r upd_slab_def n5 nth_list_update)
  have dist: "distinct (A c)" using p(2) cc by (simp add: lists_ok_def list_ok_def)
  have out: "i \<notin> set (?A e)" if "e < SLAB_CLASS_COUNT" for e using lists_disjoint [OF p(2) cc that _ ic] dist by auto
  then have ul: "unlinked (Slabs ?h5 ! i)" using l5(1) i by (simp add: lists_ok_def n5)
  have "PrevAvailable (Slabs h' ! j) = PrevAvailable (Slabs ?h5 ! j) \<and> NextAvailable (Slabs h' ! j) = NextAvailable (Slabs ?h5 ! j)" for j
    using ul by (auto simp: s unlinked_def FreeSlab_def)
  then have l: "lists_ok h' ?A" using l5(1) lists_ok_cong [of h' ?h5 ?A] by (simp add: r upd_slab_def)
  have st': "HeapStart h' = HeapStart h" "SlabCount h' = SlabCount h" "ManagedHeapSize h' = ManagedHeapSize h"
    "length (Slabs h') = length (Slabs h)" "length (ClassAvailableHead h') = length (ClassAvailableHead h)" "Cells h' = Cells h"
    using l5(2) by (simp_all add: r upd_slab_def same_pages_def)
  have "same_page (Slabs h' ! j) (Slabs h ! j)" if "j < SlabCount h" "j \<noteq> i" for j
    using l5(2) heap_shape_bounds [OF p(1) that(1)] that(2) by (simp add: s same_pages_def)
  then show only: "only_in {i} h h'" unfolding only_in_def by (simp add: st')
  show "Cells h' = Cells h" "State (Slabs h' ! i) = SlabFree" by (simp_all add: st' s FreeSlab_def)
  have cl: "closed h {i}" using st by (intro closed_small_free [OF p(3)]) simp
  have av: "set (?A e) = available h' e" if e: "e < SLAB_CLASS_COUNT" for e
  proof (rule set_eqI)
    fix j show "j \<in> set (?A e) \<longleftrightarrow> j \<in> available h' e"
      using out [OF e] available_other [OF only, of j e] p(4) [OF e] dist
      by (cases "j = i") (auto simp: available_def s FreeSlab_def)
  qed
  show "\<exists>A'. heap_pre h' A'"
    by (rule exI, rule heap_pre_step [OF pre only cl l]) (use av in \<open>auto simp: page_ok_def s FreeSlab_def\<close>)
  have f: "distinct (free_objects h i)" "set (free_objects h i) \<subseteq> set (objects h i c)" using sm(1) c by (simp_all add: small_ok_def Let_def)
  have "set (free_objects h i) = set (objects h i c)"
    using full sm(3,4) c f distinct_card [OF f(1)] distinct_card [OF objects_distinct [OF cc, of h i]] by (intro card_subset_eq) auto
  then have "page_live h i = {}" unfolding page_live_small [OF st] by (simp add: c)
  moreover have "page_live h' i = {}" by (intro free_page_no_live) (simp add: s FreeSlab_def)
  ultimately show "live_blocks h' = live_blocks h" using live_split [OF only cl p(3)] i by auto
qed

lemma strict_frame:
  assumes "heap_inv h" and "only_in {i} h h'"
    and "State (Slabs h' ! i) = SlabSmall \<Longrightarrow> FreeObjects (Slabs h' ! i) < TotalObjects (Slabs h' ! i)"
    and "heap_pre h' A"
  shows "heap_inv h'"
proof -
  have "FreeObjects (Slabs h' ! j) < TotalObjects (Slabs h' ! j)" if "j < SlabCount h'" "State (Slabs h' ! j) = SlabSmall" for j
  proof (cases "j = i")
    case False
    with that assms(2) heap_inv_strict [OF assms(1), of j] show ?thesis by (auto simp: only_in_def same_page_def)
  qed (use that assms(3) in simp)
  with assms(4) show ?thesis by (auto simp: heap_inv_def)
qed

lemma only_in_trans: "only_in X h h1 \<Longrightarrow> only_in X h1 h2 \<Longrightarrow> only_in X h h2"
  unfolding only_in_def by (auto simp: page_base_def same_page_def)

lemma Link_keeps_free_list:
  "i < length (Slabs h) \<Longrightarrow> FreeList (Slabs (LinkSlabIntoClassList i c h) ! i) = FreeList (Slabs h ! i)"
  by (simp add: LinkSlabIntoClassList_def upd_slab_def Let_def nth_list_update)

lemma FreeSmall_PushFree:
  assumes sh: "heap_shape h" and i: "i < SlabCount h" and st: "State (Slabs h ! i) = SlabSmall"
    and c: "ClassIndex (Slabs h ! i) = c" "c < SLAB_CLASS_COUNT" and a: "a \<in> set (objects h i c)"
    and lt: "FreeObjects (Slabs h ! i) < TotalObjects (Slabs h ! i)"
    and fl: "FreeList (Slabs (LinkSlabIntoClassList i c (h\<lparr>Cells := (Cells h)(a := 0)\<rparr>)) ! i) = FreeList (Slabs h ! i)"
  shows "FreeSmall a i c h = (let h' = PushFree a i c h
     in if FreeObjects (Slabs h' ! i) = TotalObjects (Slabs h' ! i) then ReleaseSlabRun i 1 (UnlinkSlabFromClassList i c h') else h')"
proof -
  note ob = object_in_heap [OF sh i c(2) a] and o = objects_bounds [OF c(2) a] and cs = class_size [OF c(2)]
  have base: "GetSlabBaseAddress h i = page_base h i" using heap_shape_bounds [OF sh i] by simp
  have w: "w64 (page_base h i + KERNEL_PAGE_SIZE) = page_base h i + 4096" using ob(5) by (simp add: KERNEL_PAGE_SIZE_def)
  show ?thesis
    using st c cs(1) o lt ob fl unfolding FreeSmall_def PushFree_def Let_def base w by simp
qed

lemma FreeSmall_spec:
  assumes inv: "heap_inv h" and i: "i < SlabCount h" and st: "State (Slabs h ! i) = SlabSmall"
    and c: "ClassIndex (Slabs h ! i) = c" and a: "a \<in> set (objects h i c)" and nf: "a \<notin> set (free_objects h i)"
  shows "released h a (GetClassObjectSize c) (FreeSmall a i c h)"
proof -
  obtain A where pre: "heap_pre h A" using inv heap_inv_pre by blast
  note p = heap_preD [OF pre] and sm = small_pageD [OF pre i st]
  let ?d = "Slabs h ! i" and ?h = "PushFree a i c h" and ?h1 = "h\<lparr>Cells := (Cells h)(a := 0)\<rparr>"
  have cc: "c < SLAB_CLASS_COUNT" using sm(2) c by simp
  have lt: "FreeObjects ?d < TotalObjects ?d" by (rule heap_inv_strict [OF inv i st])
  have pu: "pushed a i h ?h" by (rule PushFree_pushed [OF pre i st c a])
  then have only: "only_in {i} h ?h" and off: "off_object a (Cells h) (Cells ?h)" and d: "State (Slabs ?h ! i) = SlabSmall"
    "ClassIndex (Slabs ?h ! i) = c" "TotalObjects (Slabs ?h ! i) = TotalObjects ?d" "FreeObjects (Slabs ?h ! i) = Suc (FreeObjects ?d)"
    "SlabCount ?h = SlabCount h" "HeapStart ?h = HeapStart h" "ManagedHeapSize ?h = ManagedHeapSize h"
    using c by (auto simp: pushed_def only_in_def)
  obtain A' where pre': "heap_pre ?h A'" using PushFree_spec(1) [OF pre i st c a nf] by blast
  note live = PushFree_spec(3) [OF pre i st c a nf]
  have magic: "Cells ?h a \<noteq> ALLOCATION_MAGIC"
  proof -
    have "chain (Cells h) (FreeList ?d) (free_objects h i)" "set (free_objects h i) \<subseteq> set (objects h i c)"
      using sm(1) c by (simp_all add: small_ok_def Let_def)
    then have "FreeList ?d = 0 \<or> place h (FreeList ?d)" using place_objects [OF cc] by (cases "free_objects h i") auto
    then have "FreeList ?d mod 64 = 0" using place_mod [OF p(1)] by auto
    then have "(FreeList ?d mod 4294967296) mod 64 = 0" by (simp add: mod_mod_cancel)
    moreover have "Cells ?h a = FreeList ?d mod 4294967296" using pu by (simp add: pushed_def store64_def)
    ultimately show ?thesis by (auto simp: ALLOCATION_MAGIC_def)
  qed
  have "FreeList (Slabs (LinkSlabIntoClassList i c ?h1) ! i) = FreeList ?d"
    using Link_keeps_free_list [of i ?h1 c] heap_shape_bounds [OF p(1) i] by simp
  note run = FreeSmall_PushFree [OF p(1) i st c cc a lt this, unfolded Let_def]
  show ?thesis
  proof (cases "FreeObjects (Slabs ?h ! i) = TotalObjects (Slabs ?h ! i)")
    case False
    then have "heap_inv ?h" using strict_frame [OF inv only _ pre'] d lt by simp
    with False live magic off show ?thesis by (simp add: released_def run d off_object_def)
  next
    case full: True
    have i': "i < SlabCount ?h" using i d by simp
    note rel = release_page [OF pre' i' d(1,2) full]
    let ?h6 = "ReleaseSlabRun i 1 (UnlinkSlabFromClassList i c ?h)"
    have only6: "only_in {i} h ?h6" using only_in_trans [OF only rel(3)] .
    then have "heap_inv ?h6" using rel(1,5) strict_frame [OF inv only6] by auto
    moreover have "FreeSmall a i c h = ?h6" using run full by simp
    ultimately show ?thesis using rel(2,4) only6 live magic off by (simp add: released_def only_in_def off_object_def)
  qed
qed

lemma kfree_spec:
  assumes inv: "heap_inv h" and b: "(a, n) \<in> live_blocks h"
  shows "released h a n (kfree (a + 12) h)"
proof -
  obtain A where pre: "heap_pre h A" using inv heap_inv_pre by blast
  note p = heap_preD [OF pre]
  have lim: "page_base h i + 4096 \<le> HeapStart h + SlabCount h * 4096" if "i < SlabCount h" for i
    using that by (simp add: page_base_def)
  have w: "w64 (HeapStart h + SlabCount h * KERNEL_PAGE_SIZE) = HeapStart h + SlabCount h * 4096"
    "w64 (HeapStart h + SizeofAllocationHeader) = HeapStart h + 12"
    using p(1) by (auto simp: heap_shape_def heap_consts)
  have go: "kfree (a + 12) h = (if Cells h (a + 8) mod 65536 = LARGE_CLASS_SENTINEL then FreeLarge a i h
      else if Cells h (a + 8) mod 65536 \<ge> SLAB_CLASS_COUNT then h else FreeSmall a i (Cells h (a + 8) mod 65536) h)"
    if i: "i < SlabCount h" and r: "page_base h i \<le> a" "a + 64 \<le> page_base h i + 4096"
      and m: "Cells h a = ALLOCATION_MAGIC" "Cells h (a + 4) = i" for i
  proof -
    have "HeapStart h \<le> a" "a + 64 \<le> HeapStart h + SlabCount h * 4096" using r lim [OF i] by (auto simp: page_base_def)
    moreover have "0 < ManagedHeapSize h" "a + 12 < 18446744073709551616"
      using p(1) i r heap_shape_bounds [OF p(1) i] by (auto simp: heap_shape_def)
    ultimately show ?thesis using i m unfolding kfree_def Let_def w by (simp add: SizeofAllocationHeader_def)
  qed
  from pre b show ?thesis
  proof (cases rule: live_block_cases)
    case (small i)
    let ?c = "ClassIndex (Slabs h ! i)"
    have "header (Cells h) a i ?c" using small_pageD(1) [OF pre small(1,2)] small(3,4) by (auto simp: small_ok_def Let_def)
    moreover have "?c < SLAB_CLASS_COUNT" using small_pageD(2) [OF pre small(1,2)] .
    ultimately have "kfree (a + 12) h = FreeSmall a i ?c h"
      using go [OF small(1,6)] small(7,8) by (auto simp: header_def SLAB_CLASS_COUNT_def LARGE_CLASS_SENTINEL_def)
    with FreeSmall_spec [OF inv small(1,2) refl small(3,4)] small(5) show ?thesis by simp
  next
    case (large i)
    have "header (Cells h) a i LARGE_CLASS_SENTINEL" using large_pageD [OF pre large(1,2)] large(3) by (simp add: large_ok_def Let_def)
    then have "kfree (a + 12) h = FreeLarge a i h"
      using go [OF large(1)] large(3) by (simp add: header_def LARGE_CLASS_SENTINEL_def)
    with FreeLarge_spec [OF inv large(1,2)] large(3,4) show ?thesis by simp
  qed
qed

section \<open>Frees that are ignored\<close>

text \<open>A block is live until it is freed and its first cell is not a header afterwards.\<close>

lemma live_block_bounds:
  assumes inv: "heap_inv h" and b: "(a, n) \<in> live_blocks h"
  shows "HeapStart h \<le> a" "a + n \<le> HeapStart h + SlabCount h * 4096" "64 \<le> n" "a + n < 18446744073709551616"
    "0 < HeapStart h" "a mod 64 = 0"
proof -
  obtain A where pre: "heap_pre h A" using inv heap_inv_pre by blast
  have sh: "heap_shape h" using heap_preD(1) [OF pre] .
  have r: "HeapStart h \<le> a \<and> a + n \<le> HeapStart h + SlabCount h * 4096 \<and> 64 \<le> n \<and> place h a"
    using pre b
  proof (cases rule: live_block_cases)
    case (small i)
    then show ?thesis using place_objects [OF small_pageD(2) [OF pre small(1,2)] small(3)] by (auto simp: page_base_def)
  next
    case (large i)
    have "(i + OwnerOrSpan (Slabs h ! i)) * 4096 \<le> SlabCount h * 4096" using large by (intro mult_right_mono) auto
    then show ?thesis using large place_base [of h i] by (auto simp: page_base_def algebra_simps)
  qed
  then show "HeapStart h \<le> a" "a + n \<le> HeapStart h + SlabCount h * 4096" "64 \<le> n" "a mod 64 = 0"
    using place_mod [OF sh] by auto
  show "0 < HeapStart h" using sh by (simp add: heap_shape_def)
  have "SlabCount h * 4096 \<le> KERNEL_HEAP_SIZE" using sh by (simp add: heap_shape_def heap_consts)
  with r sh show "a + n < 18446744073709551616" by (simp add: heap_shape_def)
qed

lemma kfree_no_header:
  assumes "Cells h a \<noteq> ALLOCATION_MAGIC" and "a + 12 < 18446744073709551616"
  shows "kfree (a + 12) h = h"
  using assms by (simp add: kfree_def Let_def SizeofAllocationHeader_def)

lemma kfree_twice:
  assumes inv: "heap_inv h" and b: "(a, n) \<in> live_blocks h"
  shows "kfree (a + 12) (kfree (a + 12) h) = kfree (a + 12) h"
  using kfree_spec [OF inv b] live_block_bounds(3,4) [OF inv b] by (intro kfree_no_header) (auto simp: released_def)

section \<open>What the clients write\<close>

definition payload :: "nat \<times> nat \<Rightarrow> nat set" where
  "payload b = {fst b + 12 ..< fst b + snd b}"

text \<open>The bytes of the clients, as a partial function of the address: the abstract memory.\<close>

definition owned :: "kernel_heap \<Rightarrow> nat set" where
  "owned h = (\<Union>b\<in>live_blocks h. payload b)"

definition heap_contents :: "kernel_heap \<Rightarrow> nat \<Rightarrow> nat option" where
  "heap_contents h x = (if x \<in> owned h then Some (Cells h x) else None)"

lemma live_block_eq:
  assumes pre: "heap_pre h A" and a: "(a, n) \<in> live_blocks h" and b: "(b, m) \<in> live_blocks h"
    and x: "a \<le> x" "x < a + n" "b \<le> x" "x < b + m"
  shows "a = b \<and> n = m"
proof (rule ccontr)
  assume ne: "\<not> ?thesis"
  have ab: "a = b"
    using live_blocks_disjoint [OF pre a b] live_blocks_disjoint [OF pre b a] x by (cases a b rule: linorder_cases) auto
  obtain i j where i: "i < SlabCount h" "(a, n) \<in> page_live h i" and j: "j < SlabCount h" "(b, m) \<in> page_live h j"
    using a b by (auto simp: live_blocks_def)
  note p = heap_preD [OF pre]
  have "page_base h j \<le> b \<and> b < page_base h j + 4096" using page_live_range [OF _ j(2)] p(3) j(1) by auto
  with live_other_page [OF p(3) i(2,1), of j] ab have "i = j" by auto
  with i j ab ne show False by (auto simp: page_live_def Let_def split: slab_state.splits)
qed

lemma free_object_unowned:
  assumes pre: "heap_pre h A" and i: "i < SlabCount h" and st: "State (Slabs h ! i) = SlabSmall"
    and a: "a \<in> set (free_objects h i)" and b: "(b, m) \<in> live_blocks h"
  shows "a + 64 \<le> b \<or> b + m \<le> a"
proof -
  note p = heap_preD [OF pre] and sm = small_pageD [OF pre i st]
  let ?c = "ClassIndex (Slabs h ! i)"
  have ao: "a \<in> set (objects h i ?c)" using sm(1) a by (auto simp: small_ok_def Let_def)
  note ob = object_in_heap [OF p(1) i sm(2) ao]
  have pl: "place h a" by (rule place_objects [OF sm(2) ao])
  show ?thesis using pre b
  proof (cases rule: live_block_cases)
    case (small j)
    note sj = small_pageD [OF pre small(1,2)]
    show ?thesis
    proof (cases "j = i")
      case True
      with small a have "a \<noteq> b" by auto
      then show ?thesis using objects_apart [OF sm(2) ao] objects_apart [OF sm(2) _ ao, of b] small True class_size(1) [OF sm(2)]
        by (cases a b rule: linorder_cases) fastforce+
    next
      case False
      then show ?thesis using pages_apart [of i j h] pages_apart [of j i h] small(6,7) ob(2,3)
        by (cases i j rule: linorder_cases) auto
    qed
  next
    case (large j)
    then show ?thesis using run_apart [OF large_pageD [OF pre large(1,2)], of i] st ob(2,3) pages_apart [of i j h] by fastforce
  qed
qed

lemma heap_inv_client:
  assumes inv: "heap_inv h" and C: "\<And>x. C x \<noteq> Cells h x \<Longrightarrow> x \<in> owned h"
  shows "heap_inv (h\<lparr>Cells := C\<rparr>)" and "live_blocks (h\<lparr>Cells := C\<rparr>) = live_blocks h"
proof -
  obtain A where pre: "heap_pre h A" using inv heap_inv_pre by blast
  note p = heap_preD [OF pre]
  let ?h = "h\<lparr>Cells := C\<rparr>"
  have base: "page_base ?h i = page_base h i" "objects ?h i c = objects h i c" for i c by (simp_all add: page_base_def objects_def)
  have free: "C x = Cells h x" if "i < SlabCount h" "State (Slabs h ! i) = SlabSmall" "a \<in> set (free_objects h i)" "a \<le> x" "x < a + 64" for i a x
  proof (rule ccontr)
    assume "C x \<noteq> Cells h x"
    then obtain b m where b: "(b, m) \<in> live_blocks h" "b + 12 \<le> x" "x < b + m" using C by (fastforce simp: owned_def payload_def)
    from free_object_unowned [OF pre that(1,2,3) b(1)] that b show False by auto
  qed
  have head: "header C a i c = header (Cells h) a i c" if "(a, n) \<in> live_blocks h" for a n i c
  proof -
    have "C x = Cells h x" if x: "a \<le> x" "x < a + 12" for x
    proof (rule ccontr)
      assume "C x \<noteq> Cells h x"
      then obtain b m where b: "(b, m) \<in> live_blocks h" "b + 12 \<le> x" "x < b + m" using C by (fastforce simp: owned_def payload_def)
      with live_block_eq [OF pre \<open>(a, n) \<in> live_blocks h\<close> b(1), of x] live_block_bounds(3) [OF inv \<open>(a, n) \<in> live_blocks h\<close>] x
      show False by auto
    qed
    then show ?thesis by (simp add: header_def)
  qed
  have page: "page_ok ?h i \<and> page_live ?h i = page_live h i" if i: "i < SlabCount h" for i
  proof (cases "State (Slabs h ! i)")
    case SlabFree
    then show ?thesis by (simp add: page_ok_def page_live_def)
  next
    case SlabSmall
    let ?f = "free_objects h i" and ?c = "ClassIndex (Slabs h ! i)"
    note sm = small_pageD [OF pre i SlabSmall]
    have "chain C (FreeList (Slabs h ! i)) ?f = chain (Cells h) (FreeList (Slabs h ! i)) ?f"
      by (rule free_chain_cong) (simp add: free [OF i SlabSmall])
    moreover have "(a, GetClassObjectSize ?c) \<in> live_blocks h" if "a \<in> set (objects h i ?c) - set ?f" for a
      using that i by (auto simp: live_blocks_def intro!: bexI [of _ i] simp: page_live_small [OF SlabSmall])
    then have "\<forall>a\<in>set (objects h i ?c) - set ?f. header C a i ?c = header (Cells h) a i ?c" using head by blast
    ultimately have ok: "small_ok ?h i ?f" using sm(1) by (simp add: small_ok_def Let_def base)
    then have "free_objects ?h i = ?f" by (rule small_ok_free)
    with ok SlabSmall show ?thesis by (simp add: page_ok_def page_live_def base)
  next
    case SlabLargeHead
    have "(page_base h i, OwnerOrSpan (Slabs h ! i) * 4096) \<in> live_blocks h" using i SlabLargeHead by (force simp: live_blocks_def page_live_def)
    from head [OF this] large_pageD [OF pre i SlabLargeHead] have "large_ok ?h i" by (simp add: large_ok_def Let_def base)
    with SlabLargeHead show ?thesis by (simp add: page_ok_def page_live_def base)
  next
    case SlabLargeTail
    then have "tail_ok h i" using p(3) i by (auto simp: page_ok_def)
    with SlabLargeTail show ?thesis by (simp add: page_ok_def page_live_def tail_ok_def)
  qed
  have "heap_shape ?h" "lists_ok ?h A" using p(1,2) by (simp_all add: heap_shape_def lists_ok_def list_ok_def)
  moreover have "available ?h c = available h c" for c by (simp add: available_def)
  ultimately have "heap_pre ?h A" using p(4) page by (simp add: heap_pre_def)
  then show "heap_inv ?h" using inv by (auto simp: heap_inv_def)
  show "live_blocks ?h = live_blocks h" using page by (simp add: live_blocks_def)
qed

section \<open>The fresh heap\<close>

lemma fresh_fields:
  "Slabs (KernelHeapManager Start End Memory) = replicate MAX_SLAB_COUNT FreeSlab"
  "ClassAvailableHead (KernelHeapManager Start End Memory) = replicate SLAB_CLASS_COUNT INVALID_LIST_INDEX"
  "HeapStart (KernelHeapManager Start End Memory) = Start"
  "Cells (KernelHeapManager Start End Memory) = Memory"
  by (simp_all add: KernelHeapManager_def Initialize_def ResetAllocatorState_def Let_def)

lemma fresh_count:
  "ManagedHeapSize (KernelHeapManager Start End Memory) \<le> KERNEL_HEAP_SIZE"
  "SlabCount (KernelHeapManager Start End Memory) = ManagedHeapSize (KernelHeapManager Start End Memory) div 4096"
  by (auto simp: KernelHeapManager_def Initialize_def ResetAllocatorState_def Let_def GetManagedHeapSize_def
        GetEffectiveSlabCount_def KERNEL_PAGE_SIZE_def)

definition heap_range :: "nat \<Rightarrow> bool" where
  "heap_range Start \<longleftrightarrow> 0 < Start \<and> Start mod 64 = 0 \<and> Start + KERNEL_HEAP_SIZE < 18446744073709551616"

lemma fresh_heap:
  assumes "heap_range Start"
  shows "heap_inv (KernelHeapManager Start End Memory)" and "live_blocks (KernelHeapManager Start End Memory) = {}"
proof -
  let ?h = "KernelHeapManager Start End Memory"
  have n: "SlabCount ?h \<le> MAX_SLAB_COUNT"
    using fresh_count(1) [of Start End Memory] by (simp add: fresh_count(2) heap_consts)
  have free: "State (Slabs ?h ! i) = SlabFree \<and> unlinked (Slabs ?h ! i)" if "i < SlabCount ?h" for i
    using that n by (simp add: fresh_fields FreeSlab_def unlinked_def)
  have "0 < ManagedHeapSize ?h" if "0 < SlabCount ?h" using that by (cases "ManagedHeapSize ?h") (simp_all add: fresh_count)
  then have "heap_shape ?h" using assms n by (simp add: heap_shape_def heap_range_def fresh_fields)
  moreover have "lists_ok ?h (\<lambda>c. [])"
    using free by (simp add: lists_ok_def list_ok_def first_or_def fresh_fields)
  moreover have "page_ok ?h i" if "i < SlabCount ?h" for i using free [OF that] by (simp add: page_ok_def)
  moreover have "available ?h c = {}" for c using free by (auto simp: available_def)
  ultimately have "heap_pre ?h (\<lambda>c. [])" by (simp add: heap_pre_def)
  with free show "heap_inv ?h" by (auto simp: heap_inv_def)
  show "live_blocks ?h = {}" using free by (auto simp: live_blocks_def page_live_def)
qed

section \<open>The heap in use\<close>

text \<open>
  What a kernel does with its heap: it allocates, frees what it holds, and writes into what it holds.
  Allocating writes nothing into a block of a client and freeing touches only the header and the first
  bytes of the block freed.
\<close>

datatype heap_event = Alloc nat | Free nat | Store nat nat

fun heap_exec :: "heap_event \<Rightarrow> kernel_heap \<Rightarrow> kernel_heap" where
  "heap_exec (Alloc Size) h = snd (kmalloc Size h)"
| "heap_exec (Free Ptr) h = kfree Ptr h"
| "heap_exec (Store x v) h = h\<lparr>Cells := (Cells h)(x := v)\<rparr>"

fun heap_allowed :: "heap_event \<Rightarrow> kernel_heap \<Rightarrow> bool" where
  "heap_allowed (Alloc Size) h = True"
| "heap_allowed (Free Ptr) h = (Ptr = 0 \<or> (\<exists>b\<in>live_blocks h. Ptr = fst b + 12))"
| "heap_allowed (Store x v) h = (x \<in> owned h)"

text \<open>The block an event frees or writes.\<close>

fun heap_touches :: "heap_event \<Rightarrow> nat \<times> nat \<Rightarrow> bool" where
  "heap_touches (Alloc Size) b = False"
| "heap_touches (Free Ptr) b = (Ptr = fst b + 12)"
| "heap_touches (Store x v) b = (x \<in> payload b)"

lemma kmalloc_result:
  assumes inv: "heap_inv h"
  shows "heap_inv (snd (kmalloc Size h)) \<and>
     (fst (kmalloc Size h) = 0 \<and> snd (kmalloc Size h) = h \<or>
      (\<exists>a n. fst (kmalloc Size h) = a + 12 \<and> Size + 12 \<le> n \<and> allocated h a n (snd (kmalloc Size h))))"
proof -
  obtain p h' where "kmalloc Size h = (p, h')" by fastforce
  with kmalloc_spec [OF inv this] inv show ?thesis by (auto simp: allocated_def)
qed

lemma kfree_null [simp]: "kfree 0 h = h"
  by (simp add: kfree_def)

lemma Store_spec:
  assumes "heap_inv h" and "x \<in> owned h"
  shows "heap_inv (h\<lparr>Cells := (Cells h)(x := v)\<rparr>)" "live_blocks (h\<lparr>Cells := (Cells h)(x := v)\<rparr>) = live_blocks h"
  using assms by (intro heap_inv_client; force split: if_splits)+

lemma heap_exec_inv:
  assumes inv: "heap_inv h" and al: "heap_allowed e h"
  shows "heap_inv (heap_exec e h)"
proof (cases e)
  case (Alloc Size)
  then show ?thesis using kmalloc_result [OF inv] by simp
next
  case (Free Ptr)
  with al kfree_spec [OF inv] inv show ?thesis by (force simp: released_def)
next
  case (Store x v)
  with al Store_spec [OF inv] show ?thesis by simp
qed

lemma heap_exec_keeps:
  assumes inv: "heap_inv h" and al: "heap_allowed e h" and b: "b \<in> live_blocks h" and nt: "\<not> heap_touches e b"
  shows "b \<in> live_blocks (heap_exec e h) \<and> (\<forall>x\<in>payload b. Cells (heap_exec e h) x = Cells h x)"
proof (cases e)
  case (Alloc Size)
  then show ?thesis using kmalloc_result [OF inv, of Size] b by (cases b) (auto simp: allocated_def payload_def)
next
  case (Free Ptr)
  show ?thesis
  proof (cases "Ptr = 0")
    case False
    then obtain a n where f: "(a, n) \<in> live_blocks h" "Ptr = a + 12" using al Free by auto
    obtain c m where bb: "b = (c, m)" by (cases b)
    obtain A where pre: "heap_pre h A" using inv heap_inv_pre by blast
    have "a \<noteq> c" using nt Free f bb by simp
    then have "a + n \<le> c \<or> c + m \<le> a"
      using live_blocks_disjoint [OF pre f(1)] live_blocks_disjoint [OF pre _ f(1)] b bb by (cases a c rule: linorder_cases) auto
    then show ?thesis using kfree_spec [OF inv f(1)] live_block_bounds(3) [OF inv f(1)] b bb f Free \<open>a \<noteq> c\<close>
      by (auto simp: released_def payload_def)
  qed (use b Free in simp)
next
  case (Store x v)
  with al Store_spec(2) [OF inv] b nt show ?thesis by auto
qed

lemma heap_payloads_disjoint:
  assumes inv: "heap_inv h" and b: "b \<in> live_blocks h" "c \<in> live_blocks h" "b \<noteq> c"
  shows "{fst b ..< fst b + snd b} \<inter> {fst c ..< fst c + snd c} = {}"
proof -
  obtain A where pre: "heap_pre h A" using inv heap_inv_pre by blast
  show ?thesis
  proof (rule equals0I)
    fix x assume "x \<in> {fst b ..< fst b + snd b} \<inter> {fst c ..< fst c + snd c}"
    with live_block_eq [OF pre, of "fst b" "snd b" "fst c" "snd c" x] b show False by (simp add: prod_eq_iff)
  qed
qed

section \<open>Sessions with an allocator\<close>

text \<open>A session: events in turn, each allowed in the state it meets.\<close>

fun session :: "('e \<Rightarrow> 's \<Rightarrow> bool) \<Rightarrow> ('e \<Rightarrow> 's \<Rightarrow> 's) \<Rightarrow> 'e list \<Rightarrow> 's \<Rightarrow> 's option" where
  "session allowed exec [] s = Some s"
| "session allowed exec (e # es) s = (if allowed e s then session allowed exec es (exec e s) else None)"

text \<open>
  The contract a client of an allocator relies on: blocks are apart, and a block lasts with its contents
  until an event touches it.
\<close>

locale allocator =
  fixes good :: "'s \<Rightarrow> bool" and allowed :: "'e \<Rightarrow> 's \<Rightarrow> bool" and exec :: "'e \<Rightarrow> 's \<Rightarrow> 's"
    and blocks :: "'s \<Rightarrow> 'b set" and bytes :: "'b \<Rightarrow> nat set" and contents :: "'s \<Rightarrow> nat \<Rightarrow> nat"
    and touches :: "'e \<Rightarrow> 'b \<Rightarrow> bool"
  assumes good_exec: "good s \<Longrightarrow> allowed e s \<Longrightarrow> good (exec e s)"
    and apart: "good s \<Longrightarrow> b \<in> blocks s \<Longrightarrow> c \<in> blocks s \<Longrightarrow> b \<noteq> c \<Longrightarrow> bytes b \<inter> bytes c = {}"
    and keeps: "good s \<Longrightarrow> allowed e s \<Longrightarrow> b \<in> blocks s \<Longrightarrow> \<not> touches e b \<Longrightarrow>
      b \<in> blocks (exec e s) \<and> (\<forall>x\<in>bytes b. contents (exec e s) x = contents s x)"
begin

lemma session_good: "good s \<Longrightarrow> session allowed exec es s = Some t \<Longrightarrow> good t"
  by (induction es arbitrary: s) (auto split: if_splits intro: good_exec)

lemma session_apart:
  "good s \<Longrightarrow> session allowed exec es s = Some t \<Longrightarrow> b \<in> blocks t \<Longrightarrow> c \<in> blocks t \<Longrightarrow> b \<noteq> c \<Longrightarrow> bytes b \<inter> bytes c = {}"
  using session_good apart by blast

lemma session_keeps:
  assumes "good s" and "session allowed exec es s = Some t" and "b \<in> blocks s" and "\<forall>e\<in>set es. \<not> touches e b"
  shows "b \<in> blocks t \<and> (\<forall>x\<in>bytes b. contents t x = contents s x)"
  using assms
proof (induction es arbitrary: s)
  case (Cons e es)
  then have a: "allowed e s" "session allowed exec es (exec e s) = Some t" by (auto split: if_splits)
  have k: "b \<in> blocks (exec e s) \<and> (\<forall>x\<in>bytes b. contents (exec e s) x = contents s x)"
    using keeps [OF Cons.prems(1) a(1) Cons.prems(3)] Cons.prems(4) by simp
  with Cons.IH [OF good_exec [OF Cons.prems(1) a(1)] a(2)] Cons.prems(4) show ?case by simp
qed simp

end

interpretation kheap: allocator heap_inv heap_allowed heap_exec live_blocks payload Cells heap_touches
proof (unfold_locales, goal_cases)
  case (1 s e) then show ?case by (rule heap_exec_inv)
next
  case (2 s b c)
  have "payload b \<subseteq> {fst b ..< fst b + snd b}" "payload c \<subseteq> {fst c ..< fst c + snd c}" by (auto simp: payload_def)
  with heap_payloads_disjoint [OF 2] show ?case by blast
next
  case (3 s e b) then show ?case by (rule heap_exec_keeps)
qed

section \<open>The abstract memory\<close>

text \<open>Seen from the clients the heap is a partial memory: allocation extends it by a range, freeing takes the range away.\<close>

lemma payload_new:
  assumes "heap_inv h'" and "live_blocks h' = insert (a, n) (live_blocks h)" and "a \<notin> fst ` live_blocks h"
  shows "payload (a, n) \<inter> owned h = {}" "owned h' = owned h \<union> payload (a, n)"
proof -
  have "payload (a, n) \<inter> payload b = {}" if b: "b \<in> live_blocks h" for b
  proof -
    have "b \<noteq> (a, n)" using assms(3) b by force
    then show ?thesis using kheap.apart [OF assms(1), of "(a, n)" b] assms(2) b by auto
  qed
  then show "payload (a, n) \<inter> owned h = {}" by (auto simp: owned_def)
  show "owned h' = owned h \<union> payload (a, n)" using assms(2) by (auto simp: owned_def)
qed

lemma kmalloc_contents:
  assumes inv: "heap_inv h" and r: "kmalloc Size h = (p, h')"
  shows "(p = 0 \<and> heap_contents h' = heap_contents h) \<or>
    (p \<noteq> 0 \<and> (\<exists>n\<ge>Size. {p ..< p + n} \<inter> dom (heap_contents h) = {} \<and> dom (heap_contents h') = dom (heap_contents h) \<union> {p ..< p + n} \<and>
       heap_contents h \<subseteq>\<^sub>m heap_contents h'))"
  using kmalloc_spec [OF inv r]
proof
  assume "\<exists>a n. p = a + 12 \<and> Size + 12 \<le> n \<and> allocated h a n h'"
  then obtain a n where p: "p = a + 12" "Size + 12 \<le> n" and al: "allocated h a n h'" by blast
  then have b: "live_blocks h' = insert (a, n) (live_blocks h)" "heap_inv h'" "a \<notin> fst ` live_blocks h"
    "\<And>x. x \<in> owned h \<Longrightarrow> Cells h' x = Cells h x" by (auto simp: allocated_def owned_def payload_def)
  have pay: "payload (a, n) = {p ..< p + (n - 12)}" using p by (auto simp: payload_def)
  have d: "dom (heap_contents s) = owned s" for s by (auto simp: heap_contents_def split: if_splits)
  note new = payload_new [OF b(2,1,3)]
  have "heap_contents h \<subseteq>\<^sub>m heap_contents h'" using new(2) b(4) by (auto simp: map_le_def d heap_contents_def split: if_splits)
  moreover have "Size \<le> n - 12" "p \<noteq> 0" using p by auto
  ultimately show ?thesis using new unfolding d pay by blast
qed simp

lemma kfree_contents:
  assumes inv: "heap_inv h" and b: "(a, n) \<in> live_blocks h"
  shows "heap_contents (kfree (a + 12) h) = heap_contents h |` (- payload (a, n))"
proof
  fix x
  note r = kfree_spec [OF inv b, unfolded released_def]
  have "payload (a, n) \<inter> payload c = {}" if "c \<in> live_blocks h" "c \<noteq> (a, n)" for c
    using kheap.apart [OF inv b that(1)] that(2) by auto
  moreover have "owned (kfree (a + 12) h) = \<Union> (payload ` (live_blocks h - {(a, n)}))" using r by (simp add: owned_def)
  ultimately have o: "owned (kfree (a + 12) h) = owned h - payload (a, n)" by (auto simp: owned_def)
  moreover have "Cells (kfree (a + 12) h) x = Cells h x" if x: "x \<in> owned h" "x \<notin> payload (a, n)"
  proof -
    from x obtain c m where c: "(c, m) \<in> live_blocks h" "c + 12 \<le> x" "x < c + m" by (auto simp: owned_def payload_def)
    with x have "(c, m) \<noteq> (a, n)" by (auto simp: payload_def)
    then have "x < a \<or> a + n \<le> x" using heap_payloads_disjoint [OF inv c(1) b] c by (auto simp: disjoint_iff not_less)
    then have "x < a \<or> a + 12 \<le> x" using live_block_bounds(3) [OF inv b] by auto
    with r show ?thesis by blast
  qed
  ultimately show "heap_contents (kfree (a + 12) h) x = (heap_contents h |` (- payload (a, n))) x"
    by (auto simp: heap_contents_def restrict_map_def)
qed

section \<open>Where the blocks lie\<close>





section \<open>A heap of two pages\<close>

definition sample_heap :: kernel_heap where
  "sample_heap = KernelHeapManager 4096 12288 (\<lambda>_. 0)"

definition sample_heap1 :: kernel_heap where "sample_heap1 = snd (kmalloc 4000 sample_heap)"
definition sample_heap2 :: kernel_heap where "sample_heap2 = snd (kmalloc 4000 sample_heap1)"

lemma sample_range: "heap_range 4096"
  by (simp add: heap_range_def heap_consts)

lemma sample_heap_inv: "heap_inv sample_heap" "live_blocks sample_heap = {}"
  unfolding sample_heap_def by (rule fresh_heap [OF sample_range])+

lemma sample_heap_eq:
  "sample_heap = \<lparr>HeapStart = 4096, HeapEnd = 12288, ManagedHeapSize = 8192, SlabCount = 2,
     Slabs = replicate 8192 FreeSlab, ClassAvailableHead = replicate 7 (-1), Cells = (\<lambda>_. 0)\<rparr>"
  by (simp add: sample_heap_def KernelHeapManager_def Initialize_def ResetAllocatorState_def Let_def GetManagedHeapSize_def
      GetEffectiveSlabCount_def heap_consts)

lemma sample_class: "SelectClassIndex 4000 = 6"
  by (simp add: SelectClassIndex_def SLAB_CLASS_SIZES_def heap_consts upt_rec)

lemmas kmalloc_eval = kmalloc_def AllocateSmall_def InitializeSmallSlab_def FindFreeSlabRun_def FindRun.simps upd_slab_def
  LinkSlabIntoClassList_def UnlinkSlabFromClassList_def AllocateFromSlab_def PushObject_def GetSlabBaseAddress_def
  GetClassObjectSize_def SLAB_CLASS_SIZES_def FreeSlab_def heap_consts Let_def load64_def store64_def store_header_def

lemma sample_heap1_eq:
  "kmalloc 4000 sample_heap = (4108, sample_heap1)"
  "SlabCount sample_heap1 = 2" "HeapStart sample_heap1 = 4096" "Slabs sample_heap1 ! Suc 0 = FreeSlab" "State (Slabs sample_heap1 ! 0) = SlabSmall"
  "length (Slabs sample_heap1) = 8192" "ClassAvailableHead sample_heap1 ! 6 = -1" "length (ClassAvailableHead sample_heap1) = 7"

  by (simp_all add: sample_heap1_def sample_class sample_heap_eq kmalloc_eval)

lemma sample_heap2_eq: "kmalloc 4000 sample_heap1 = (8204, sample_heap2)"
  by (simp add: sample_heap2_def kmalloc_eval sample_class sample_heap1_eq)

lemma sample_inv1: "heap_inv sample_heap1"
  using kmalloc_result [OF sample_heap_inv(1), of 4000] by (simp add: sample_heap1_def)


lemma sample_live1: "\<exists>n. (4096, n) \<in> live_blocks sample_heap1"
  using kmalloc_spec [OF sample_heap_inv(1) sample_heap1_eq(1)] by (auto simp: allocated_def)



section \<open>Properties\<close>



text \<open>
  C38. kmalloc refines allocation in an abstract memory (a partial function from addresses to
  contents): either it returns null and the memory is as before, or it returns a pointer to at
  least Size bytes none of which belonged to anybody, which become the caller's, and every byte of
  the other clients keeps its value.
\<close>

theorem kmalloc_extends_memory:
  assumes "heap_inv h" and "kmalloc Size h = (p, h')"
  shows "heap_inv h' \<and>
    ((p = 0 \<and> heap_contents h' = heap_contents h) \<or>
     (p \<noteq> 0 \<and> (\<exists>n\<ge>Size. {p ..< p + n} \<inter> dom (heap_contents h) = {} \<and>
        dom (heap_contents h') = dom (heap_contents h) \<union> {p ..< p + n} \<and> heap_contents h \<subseteq>\<^sub>m heap_contents h')))"
  using kmalloc_contents [OF assms] kmalloc_result [OF assms(1), of Size] assms(2) by simp

theorem kmalloc_extends_memory_witness:
  "\<exists>n\<ge>4000. dom (heap_contents sample_heap1) = {4108 ..< 4108 + n}"
proof -
  have "dom (heap_contents sample_heap) = {}" using sample_heap_inv(2) by (auto simp: heap_contents_def owned_def split: if_splits)
  with kmalloc_extends_memory [OF sample_heap_inv(1) sample_heap1_eq(1)] show ?thesis by auto
qed

section \<open>Further facts\<close>

text \<open>
  kfree of a held block refines freeing in the abstract memory: exactly the bytes of that block
  leave it and every other byte keeps its value; and freeing the same pointer again changes
  nothing at all.
\<close>

theorem kfree_shrinks_memory:
  assumes "heap_inv h" and "(a, n) \<in> live_blocks h"
  shows "heap_inv (kfree (a + 12) h) \<and> heap_contents (kfree (a + 12) h) = heap_contents h |` (- payload (a, n)) \<and>
    kfree (a + 12) (kfree (a + 12) h) = kfree (a + 12) h"
  using kfree_contents [OF assms] kfree_twice [OF assms] kfree_spec [OF assms] by (simp add: released_def)

theorem kfree_shrinks_memory_witness: "kfree 4108 (kfree 4108 sample_heap1) = kfree 4108 sample_heap1"
proof -
  obtain n where "(4096, n) \<in> live_blocks sample_heap1" using sample_live1 by blast
  from kfree_shrinks_memory [OF sample_inv1 this] show ?thesis by simp
qed

text \<open>
  kmalloc of a non-zero size returns null exactly when there is no room: for a small size, no page
  of its class with a free object and no free page; for a large one, no run of free pages as long
  as the block needs.
\<close>

theorem kmalloc_null_when_full:
  assumes "heap_inv h" and "0 < Size"
  shows "fst (kmalloc Size h) = 0 \<longleftrightarrow> \<not> has_room h Size"
  using kmalloc_null [OF assms] .

theorem kmalloc_null_when_full_witness: "has_room sample_heap 4000 \<and> has_room sample_heap1 4000"
  using kmalloc_null_when_full [OF sample_heap_inv(1), of 4000] kmalloc_null_when_full [OF sample_inv1, of 4000]
    sample_heap1_eq(1) sample_heap2_eq by simp

text \<open>
  A block and its contents last: whatever is allocated, freed and written in between, as long as
  the block itself is neither freed nor written it stays the client's and every byte of it reads
  as before.
\<close>

theorem block_survives_session:
  assumes "heap_inv h" and "session heap_allowed heap_exec es h = Some h'" and "b \<in> live_blocks h"
    and "\<forall>e\<in>set es. \<not> heap_touches e b"
  shows "b \<in> live_blocks h' \<and> (\<forall>x\<in>payload b. Cells h' x = Cells h x)"
  using kheap.session_keeps [OF assms] .

theorem block_survives_session_witness: "\<exists>b. b \<in> live_blocks sample_heap1 \<and> b \<in> live_blocks sample_heap2"
proof -
  obtain n where b: "(4096, n) \<in> live_blocks sample_heap1" using sample_live1 by blast
  have run: "session heap_allowed heap_exec [Alloc 4000] sample_heap1 = Some sample_heap2" by (simp add: sample_heap2_def)
  have "(4096, n) \<in> live_blocks sample_heap2" using block_survives_session [OF sample_inv1 run b] by simp
  with b show ?thesis by blast
qed

end
