(* ===== verification/Virtual_Memory.thy ===== *)
theory Virtual_Memory imports User_Memory Physical_Memory begin

unbundle bit_operations_syntax

text \<open>
  \<open>Memory/VirtualMemoryManager.cpp\<close>: four-level page tables, mapped, protected, unmapped and copied. The
  memory is a function from addresses to 64-bit entries, as in the page-table walk of the user memory
  checks; pages for new tables come from the buddy allocator. The kernel runs with an identity mapping, so
  a table is read at its physical address. The flush of a translation (\<open>invlpg\<close>) has no effect here.
\<close>

section \<open>Entries\<close>

definition VALID_PHYSICAL_ADDR_MASK :: u64 where "VALID_PHYSICAL_ADDR_MASK = 0x00000000FFFFF000"
definition MAX_SUPPORTED_PHYSICAL_ADDR :: u64 where "MAX_SUPPORTED_PHYSICAL_ADDR = 0x0000000100000000"
definition ENTRY_FLAG_PRESENT :: u64 where "ENTRY_FLAG_PRESENT = 0x1"
definition ENTRY_FLAG_WRITEABLE :: u64 where "ENTRY_FLAG_WRITEABLE = 0x2"
definition ENTRY_FLAG_USER :: u64 where "ENTRY_FLAG_USER = 0x4"
definition ENTRY_FLAG_WRITE_THROUGH :: u64 where "ENTRY_FLAG_WRITE_THROUGH = 0x8"
definition ENTRY_FLAG_CACHE_DISABLED :: u64 where "ENTRY_FLAG_CACHE_DISABLED = 0x10"
definition ENTRY_FLAG_ACCESSED :: u64 where "ENTRY_FLAG_ACCESSED = 0x20"
definition ENTRY_FLAG_DIRTY :: u64 where "ENTRY_FLAG_DIRTY = 0x40"
definition ENTRY_FLAG_PAT :: u64 where "ENTRY_FLAG_PAT = 0x80"
definition ENTRY_FLAG_GLOBAL :: u64 where "ENTRY_FLAG_GLOBAL = 0x100"
definition ENTRY_FLAG_AVL_MASK :: u64 where "ENTRY_FLAG_AVL_MASK = 0xE00"
definition ENTRY_FLAG_EXECUTION_DISABLED :: u64 where "ENTRY_FLAG_EXECUTION_DISABLED = 0x8000000000000000"

named_theorems entry_flags "flags of a page-table entry"
declare VALID_PHYSICAL_ADDR_MASK_def [entry_flags] MAX_SUPPORTED_PHYSICAL_ADDR_def [entry_flags]
  ENTRY_FLAG_PRESENT_def [entry_flags] ENTRY_FLAG_WRITEABLE_def [entry_flags] ENTRY_FLAG_USER_def [entry_flags]
  ENTRY_FLAG_WRITE_THROUGH_def [entry_flags] ENTRY_FLAG_CACHE_DISABLED_def [entry_flags] ENTRY_FLAG_ACCESSED_def [entry_flags]
  ENTRY_FLAG_DIRTY_def [entry_flags] ENTRY_FLAG_PAT_def [entry_flags] ENTRY_FLAG_GLOBAL_def [entry_flags]
  ENTRY_FLAG_AVL_MASK_def [entry_flags] ENTRY_FLAG_EXECUTION_DISABLED_def [entry_flags] PHYS_PAGE_ADDR_MASK_def [entry_flags]

definition LEAF_ALLOWED_FLAG_MASK :: u64 where [entry_flags]:
  "LEAF_ALLOWED_FLAG_MASK = ENTRY_FLAG_PRESENT OR ENTRY_FLAG_WRITEABLE OR ENTRY_FLAG_USER OR ENTRY_FLAG_WRITE_THROUGH OR
     ENTRY_FLAG_CACHE_DISABLED OR ENTRY_FLAG_ACCESSED OR ENTRY_FLAG_DIRTY OR ENTRY_FLAG_PAT OR ENTRY_FLAG_GLOBAL OR ENTRY_FLAG_AVL_MASK"

definition NON_LEAF_ALLOWED_FLAG_MASK :: u64 where [entry_flags]:
  "NON_LEAF_ALLOWED_FLAG_MASK = ENTRY_FLAG_PRESENT OR ENTRY_FLAG_WRITEABLE OR ENTRY_FLAG_USER OR ENTRY_FLAG_WRITE_THROUGH OR
     ENTRY_FLAG_CACHE_DISABLED OR ENTRY_FLAG_ACCESSED OR ENTRY_FLAG_AVL_MASK"

definition NON_PRESENT_COPY_FLAG_MASK :: u64 where [entry_flags]:
  "NON_PRESENT_COPY_FLAG_MASK = LEAF_ALLOWED_FLAG_MASK AND NOT ENTRY_FLAG_PRESENT"

definition entry_writeable :: "u64 \<Rightarrow> bool" where "entry_writeable e = bit e 1"

definition BuildNonLeafEntryValue :: "u64 \<Rightarrow> u64 \<Rightarrow> bool \<Rightarrow> u64" where
  "BuildNonLeafEntryValue PhysicalAddress ExistingFlags UserAccess =
     (let f1 = ExistingFlags AND NON_LEAF_ALLOWED_FLAG_MASK;
          f2 = f1 OR (ENTRY_FLAG_PRESENT OR ENTRY_FLAG_WRITEABLE);
          f3 = (if UserAccess then f2 OR ENTRY_FLAG_USER else f2)
      in (PhysicalAddress AND VALID_PHYSICAL_ADDR_MASK) OR f3)"

definition BuildLeafEntryValue :: "u64 \<Rightarrow> u64 \<Rightarrow> bool \<Rightarrow> bool \<Rightarrow> u64" where
  "BuildLeafEntryValue PhysicalAddress ExistingFlags UserAccess Writeable =
     (let f1 = ExistingFlags AND LEAF_ALLOWED_FLAG_MASK;
          f2 = f1 AND NOT ENTRY_FLAG_EXECUTION_DISABLED;
          f3 = f2 OR ENTRY_FLAG_PRESENT;
          f4 = (if UserAccess then f3 OR ENTRY_FLAG_USER else f3 AND NOT ENTRY_FLAG_USER);
          f5 = (if Writeable then f4 OR ENTRY_FLAG_WRITEABLE else f4 AND NOT ENTRY_FLAG_WRITEABLE)
      in (PhysicalAddress AND VALID_PHYSICAL_ADDR_MASK) OR f5)"

definition IsValidLeafPhysicalAddress :: "u64 \<Rightarrow> bool" where
  "IsValidLeafPhysicalAddress PhysicalAddress =
     (if PhysicalAddress = 0 then False
      else if PhysicalAddress AND (PAGE_SIZE - 1) \<noteq> 0 then False
      else PhysicalAddress < MAX_SUPPORTED_PHYSICAL_ADDR)"

definition SanitizeNonPresentCopiedEntry :: "u64 \<Rightarrow> u64" where
  "SanitizeNonPresentCopiedEntry EntryValue =
     (EntryValue AND VALID_PHYSICAL_ADDR_MASK) OR (EntryValue AND NON_PRESENT_COPY_FLAG_MASK)"

section \<open>State\<close>

datatype mutation_event =
    PAGE_TABLE_MUTATION_NONE
  | PAGE_TABLE_MUTATION_WRITE_PML4
  | PAGE_TABLE_MUTATION_WRITE_PDPT
  | PAGE_TABLE_MUTATION_WRITE_PD
  | PAGE_TABLE_MUTATION_WRITE_PT
  | PAGE_TABLE_MUTATION_OBSERVE_PD_NONCANONICAL
  | PAGE_TABLE_MUTATION_PDPT_LARGE_PAGE_CONFLICT
  | PAGE_TABLE_MUTATION_PD_LARGE_PAGE_CONFLICT

record mutation_info =
  MEvent :: mutation_event
  MPML4Index :: u64
  MPDPTIndex :: u64
  MPDIndex :: u64
  MPTIndex :: u64
  MEntryValue :: u64
  MDerivedAddress :: u64

datatype copy_failure =
    COPY_PML4_FAIL_NONE
  | COPY_PML4_FAIL_ALLOC_PML4
  | COPY_PML4_FAIL_ALLOC_PDPT
  | COPY_PML4_FAIL_INVALID_OLD_PDPT
  | COPY_PML4_FAIL_ALLOC_PD
  | COPY_PML4_FAIL_INVALID_OLD_PD
  | COPY_PML4_FAIL_ALLOC_PT
  | COPY_PML4_FAIL_INVALID_OLD_PT

record copy_info =
  FailureStage :: copy_failure
  CPML4Index :: u64
  CPDPTIndex :: u64
  CPDIndex :: u64
  SourceEntryValue :: u64
  DerivedAddress :: u64
  AllocationAttempts :: u64
  SanitizedEntryCount :: u64

record vmm =
  PageMapL4Table :: u64
  PagePMM :: pmm
  Memory :: "u64 \<Rightarrow> u64"
  LastMutation :: mutation_info
  LastCopy :: copy_info

definition NoCopyInfo :: copy_info where
  "NoCopyInfo = \<lparr>FailureStage = COPY_PML4_FAIL_NONE, CPML4Index = 0xFFFF, CPDPTIndex = 0xFFFF, CPDIndex = 0xFFFF,
     SourceEntryValue = 0, DerivedAddress = 0, AllocationAttempts = 0, SanitizedEntryCount = 0\<rparr>"

definition VirtualMemoryManager :: "u64 \<Rightarrow> pmm \<Rightarrow> (u64 \<Rightarrow> u64) \<Rightarrow> vmm" where
  "VirtualMemoryManager Table p M =
     \<lparr>PageMapL4Table = Table, PagePMM = p, Memory = M,
      LastMutation = \<lparr>MEvent = PAGE_TABLE_MUTATION_NONE, MPML4Index = 0xFFFF, MPDPTIndex = 0xFFFF, MPDIndex = 0xFFFF,
        MPTIndex = 0xFFFF, MEntryValue = 0, MDerivedAddress = 0\<rparr>,
      LastCopy = NoCopyInfo\<rparr>"

section \<open>Tables\<close>

definition table_load :: "vmm \<Rightarrow> u64 \<Rightarrow> u64 \<Rightarrow> u64" where
  "table_load s Table i = Memory s (Table + 8 * i)"

definition table_store :: "u64 \<Rightarrow> u64 \<Rightarrow> u64 \<Rightarrow> vmm \<Rightarrow> vmm" where
  "table_store Table i e s = s\<lparr>Memory := (Memory s)(Table + 8 * i := e)\<rparr>"

text \<open>\<open>kmemset\<close> of a page with zeros, and the filling of a whole table.\<close>

definition ClearPage :: "u64 \<Rightarrow> vmm \<Rightarrow> vmm" where
  "ClearPage Page s = s\<lparr>Memory := (\<lambda>x. if x - Page < PAGE_SIZE then 0 else Memory s x)\<rparr>"

definition FillTable :: "u64 \<Rightarrow> (u64 \<Rightarrow> u64) \<Rightarrow> vmm \<Rightarrow> vmm" where
  "FillTable Table f s = fold (\<lambda>i. table_store Table (of_nat i) (f (of_nat i))) [0..<512] s"

definition AllocateTable :: "vmm \<Rightarrow> u64 option \<times> vmm" where
  "AllocateTable s =
     (case AllocatePagesFromDescriptor (PagePMM s) 1 of
        (None, p) \<Rightarrow> (None, s\<lparr>PagePMM := p\<rparr>)
      | (Some a, p) \<Rightarrow> (Some (of_nat a), ClearPage (of_nat a) (s\<lparr>PagePMM := p\<rparr>)))"

definition TrackSuspiciousSlot :: "u64 \<Rightarrow> bool" where
  "TrackSuspiciousSlot v \<longleftrightarrow> pml4_index v = 0 \<and> pdpt_index v = 2 \<and> pd_index v = 0"

definition RecordMutation :: "u64 \<Rightarrow> mutation_event \<Rightarrow> u64 \<Rightarrow> u64 \<Rightarrow> vmm \<Rightarrow> vmm" where
  "RecordMutation v Event EntryValue Derived s =
     (if \<not> TrackSuspiciousSlot v then s
      else s\<lparr>LastMutation := \<lparr>MEvent = Event, MPML4Index = pml4_index v, MPDPTIndex = pdpt_index v,
             MPDIndex = pd_index v, MPTIndex = pt_index v, MEntryValue = EntryValue, MDerivedAddress = Derived\<rparr>\<rparr>)"

section \<open>Mapping\<close>

text \<open>
  One level of \<open>MapPage\<close>: the entry of the table at a level, created with a fresh empty table when it is
  not present.
\<close>

definition EnsureTable :: "mutation_event \<Rightarrow> u64 \<Rightarrow> u64 \<Rightarrow> u64 \<Rightarrow> bool \<Rightarrow> vmm \<Rightarrow> u64 option \<times> vmm" where
  "EnsureTable Event v Table i UserAccess s =
     (let Entry = table_load s Table i
      in if entry_present Entry then (Some Entry, s)
         else case AllocateTable s of
           (None, s1) \<Rightarrow> (None, s1)
         | (Some New, s1) \<Rightarrow>
             let Value = BuildNonLeafEntryValue New 0 UserAccess;
                 s2 = RecordMutation v Event Value (Value AND PHYS_PAGE_ADDR_MASK) (table_store Table i Value s1)
             in (Some (table_load s2 Table i), s2))"

text \<open>Raising the user bit of an entry on the way to a user page.\<close>

definition RaiseUser :: "u64 \<Rightarrow> u64 \<Rightarrow> bool \<Rightarrow> u64 \<Rightarrow> vmm \<Rightarrow> u64 \<times> vmm" where
  "RaiseUser Table i UserAccess Entry s =
     (if UserAccess \<and> \<not> entry_user_access Entry then
        let Value = BuildNonLeafEntryValue Entry Entry True in (Value, table_store Table i Value s)
      else (Entry, s))"

text \<open>The entries a large page is split into, and the split itself.\<close>

definition SplitPDEntry :: "u64 \<Rightarrow> u64 \<Rightarrow> u64" where
  "SplitPDEntry Entry SubIndex =
     (let GigaPagePhysBase = Entry AND PHYS_PAGE_ADDR_MASK AND VALID_PHYSICAL_ADDR_MASK AND NOT (0x40000000 - 1);
          SubPhys = GigaPagePhysBase + SubIndex * 0x200000;
          e1 = SubPhys AND VALID_PHYSICAL_ADDR_MASK;
          e2 = e1 OR (ENTRY_FLAG_PRESENT OR 0x80);
          e3 = (if entry_writeable Entry then e2 OR ENTRY_FLAG_WRITEABLE else e2)
      in if entry_user_access Entry then e3 OR ENTRY_FLAG_USER else e3)"

definition SplitPTEntry :: "u64 \<Rightarrow> u64 \<Rightarrow> u64" where
  "SplitPTEntry Entry SubIndex =
     (let MegaPagePhysBase = Entry AND PHYS_PAGE_ADDR_MASK AND VALID_PHYSICAL_ADDR_MASK AND NOT (0x200000 - 1)
      in BuildLeafEntryValue (MegaPagePhysBase + SubIndex * PAGE_SIZE) 0 (entry_user_access Entry) (entry_writeable Entry))"

definition SplitLargePage :: "(u64 \<Rightarrow> u64 \<Rightarrow> u64) \<Rightarrow> u64 \<Rightarrow> u64 \<Rightarrow> bool \<Rightarrow> u64 \<Rightarrow> vmm \<Rightarrow> u64 option \<times> vmm" where
  "SplitLargePage Sub Table i UserAccess Entry s =
     (case AllocateTable s of
        (None, s1) \<Rightarrow> (None, s1)
      | (Some New, s1) \<Rightarrow>
          let s2 = FillTable New (Sub Entry) s1;
              Value = BuildNonLeafEntryValue New 0 (entry_user_access Entry \<or> UserAccess)
          in (Some Value, table_store Table i Value s2))"

definition MapPML4 :: "u64 \<Rightarrow> bool \<Rightarrow> vmm \<Rightarrow> u64 option \<times> vmm" where
  "MapPML4 v UserAccess s =
     (let Entry = table_load s (PageMapL4Table s) (pml4_index v)
      in if \<not> entry_present Entry
         then EnsureTable PAGE_TABLE_MUTATION_WRITE_PML4 v (PageMapL4Table s) (pml4_index v) UserAccess s
         else case RaiseUser (PageMapL4Table s) (pml4_index v) UserAccess Entry s of (Entry', s1) \<Rightarrow> (Some Entry', s1))"

definition MapLevel ::
    "mutation_event \<Rightarrow> (u64 \<Rightarrow> u64 \<Rightarrow> u64) \<Rightarrow> u64 \<Rightarrow> u64 \<Rightarrow> u64 \<Rightarrow> bool \<Rightarrow> vmm \<Rightarrow> u64 option \<times> vmm" where
  "MapLevel Event Sub v Table i UserAccess s =
     (case EnsureTable Event v Table i UserAccess s of
        (None, s1) \<Rightarrow> (None, s1)
      | (Some Entry, s1) \<Rightarrow>
          if entry_present Entry \<and> entry_size Entry then SplitLargePage Sub Table i UserAccess Entry s1
          else case RaiseUser Table i UserAccess Entry s1 of (Entry', s2) \<Rightarrow> (Some Entry', s2))"

definition WriteLeaf :: "u64 \<Rightarrow> u64 \<Rightarrow> u64 \<Rightarrow> bool \<Rightarrow> bool \<Rightarrow> vmm \<Rightarrow> vmm" where
  "WriteLeaf PhysicalAddr v PDTEntry UserAccess Writeable s =
     (let Existing = PDTEntry AND PHYS_PAGE_ADDR_MASK;
          s1 = (if TrackSuspiciousSlot v \<and> Existing AND 0xFFFF000000000000 \<noteq> 0
                then RecordMutation v PAGE_TABLE_MUTATION_OBSERVE_PD_NONCANONICAL PDTEntry Existing s else s);
          Value = BuildLeafEntryValue PhysicalAddr 0 UserAccess Writeable;
          s2 = table_store Existing (pt_index v) Value s1
      in RecordMutation v PAGE_TABLE_MUTATION_WRITE_PT Value (Value AND PHYS_PAGE_ADDR_MASK) s2)"

definition MapPage :: "u64 \<Rightarrow> u64 \<Rightarrow> bool \<Rightarrow> bool \<Rightarrow> vmm \<Rightarrow> bool \<times> vmm" where
  "MapPage PhysicalAddr v UserAccess Writeable s =
     (case MapPML4 v UserAccess s of
        (None, s1) \<Rightarrow> (False, s1)
      | (Some PmL4Entry, s1) \<Rightarrow>
     (case MapLevel PAGE_TABLE_MUTATION_WRITE_PDPT SplitPDEntry v (PmL4Entry AND PHYS_PAGE_ADDR_MASK) (pdpt_index v) UserAccess s1 of
        (None, s2) \<Rightarrow> (False, s2)
      | (Some PDPTEntry, s2) \<Rightarrow>
     (case MapLevel PAGE_TABLE_MUTATION_WRITE_PD SplitPTEntry v (PDPTEntry AND PHYS_PAGE_ADDR_MASK) (pd_index v) UserAccess s2 of
        (None, s3) \<Rightarrow> (False, s3)
      | (Some PDTEntry, s3) \<Rightarrow> (True, WriteLeaf PhysicalAddr v PDTEntry UserAccess Writeable s3))))"

section \<open>Protecting and unmapping\<close>

text \<open>The walk to the page table of an address, as both do it.\<close>

definition FindPageTable :: "u64 \<Rightarrow> vmm \<Rightarrow> u64 option" where
  "FindPageTable v s =
     (let PmL4Entry = table_load s (PageMapL4Table s) (pml4_index v)
      in if \<not> entry_present PmL4Entry then None
      else let PDPTEntry = table_load s (PmL4Entry AND PHYS_PAGE_ADDR_MASK) (pdpt_index v)
      in if \<not> entry_present PDPTEntry then None
      else if entry_size PDPTEntry then None
      else let PDTEntry = table_load s (PDPTEntry AND PHYS_PAGE_ADDR_MASK) (pd_index v)
      in if \<not> entry_present PDTEntry then None
      else if entry_size PDTEntry then None
      else Some (PDTEntry AND PHYS_PAGE_ADDR_MASK))"

definition ProtectPage :: "u64 \<Rightarrow> bool \<Rightarrow> bool \<Rightarrow> bool \<Rightarrow> vmm \<Rightarrow> bool \<times> vmm" where
  "ProtectPage v UserAccess Writeable Executable s =
     (case FindPageTable v s of
        None \<Rightarrow> (False, s)
      | Some PageTable \<Rightarrow>
          let PTEntry = table_load s PageTable (pt_index v)
          in if \<not> entry_present PTEntry then (False, s)
             else (True, table_store PageTable (pt_index v) (BuildLeafEntryValue PTEntry PTEntry UserAccess Writeable) s))"

definition UnmapPage :: "u64 \<Rightarrow> vmm \<Rightarrow> bool \<times> vmm" where
  "UnmapPage v s =
     (case FindPageTable v s of
        None \<Rightarrow> (False, s)
      | Some PageTable \<Rightarrow> (True, table_store PageTable (pt_index v) 0 s))"

text \<open>The loops over ranges; each stops before an address would wrap.\<close>

fun MapRange_loop :: "nat \<Rightarrow> u64 \<Rightarrow> u64 \<Rightarrow> bool \<Rightarrow> bool \<Rightarrow> vmm \<Rightarrow> u64 \<times> vmm" where
  "MapRange_loop 0 P V UserAccess Writeable s = (V, s)"
| "MapRange_loop (Suc n) P V UserAccess Writeable s =
     (let s1 = snd (MapPage P V UserAccess Writeable s)
      in if P > - 1 - PAGE_SIZE \<or> V > - 1 - PAGE_SIZE then (V, s1)
         else MapRange_loop n (P + PAGE_SIZE) (V + PAGE_SIZE) UserAccess Writeable s1)"

definition MapRange :: "u64 \<Rightarrow> u64 \<Rightarrow> u64 \<Rightarrow> bool \<Rightarrow> bool \<Rightarrow> vmm \<Rightarrow> u64 \<times> vmm" where
  "MapRange PhysicalAddr VirtualAddr Pages UserAccess Writeable s =
     MapRange_loop (unat Pages) (PhysicalAddr AND PHYS_PAGE_ADDR_MASK) (VirtualAddr AND PHYS_PAGE_ADDR_MASK) UserAccess Writeable s"

fun Range_loop :: "(u64 \<Rightarrow> vmm \<Rightarrow> bool \<times> vmm) \<Rightarrow> nat \<Rightarrow> u64 \<Rightarrow> vmm \<Rightarrow> u64 \<times> vmm" where
  "Range_loop Op 0 V s = (V, s)"
| "Range_loop Op (Suc n) V s =
     (let s1 = snd (Op V s)
      in if V > - 1 - PAGE_SIZE then (V, s1) else Range_loop Op n (V + PAGE_SIZE) s1)"

definition ProtectRange :: "u64 \<Rightarrow> u64 \<Rightarrow> bool \<Rightarrow> bool \<Rightarrow> bool \<Rightarrow> vmm \<Rightarrow> u64 \<times> vmm" where
  "ProtectRange VirtualAddr Pages UserAccess Writeable Executable s =
     Range_loop (\<lambda>V. ProtectPage V UserAccess Writeable Executable) (unat Pages) (VirtualAddr AND PHYS_PAGE_ADDR_MASK) s"

definition UnmapRange :: "u64 \<Rightarrow> u64 \<Rightarrow> vmm \<Rightarrow> u64 \<times> vmm" where
  "UnmapRange VirtualAddr Pages s = Range_loop UnmapPage (unat Pages) (VirtualAddr AND PHYS_PAGE_ADDR_MASK) s"

section \<open>Copying a hierarchy\<close>

text \<open>
  \<open>CopyPageMapL4Table\<close>: the lower half is copied table by table with sanitised entries, the upper half is
  shared. The working state is the manager and the two counters the debug information reports.
\<close>

record copying =
  Copied :: vmm
  Attempts :: u64
  Sanitized :: u64

definition on_copied :: "(vmm \<Rightarrow> vmm) \<Rightarrow> copying \<Rightarrow> copying" where
  "on_copied f c = c\<lparr>Copied := f (Copied c)\<rparr>"

definition RecordFailure :: "copy_failure \<Rightarrow> u64 \<Rightarrow> u64 \<Rightarrow> u64 \<Rightarrow> u64 \<Rightarrow> u64 \<Rightarrow> copying \<Rightarrow> copying" where
  "RecordFailure Stage PML4Index PDPTIndex PDIndex EntryValue Derived c =
     on_copied (\<lambda>s. s\<lparr>LastCopy := \<lparr>FailureStage = Stage, CPML4Index = PML4Index, CPDPTIndex = PDPTIndex, CPDIndex = PDIndex,
       SourceEntryValue = EntryValue, DerivedAddress = Derived, AllocationAttempts = Attempts c,
       SanitizedEntryCount = Sanitized c\<rparr>\<rparr>) c"

definition RecordSanitizedValue :: "u64 \<Rightarrow> u64 \<Rightarrow> copying \<Rightarrow> copying" where
  "RecordSanitizedValue OriginalValue SanitizedValue c =
     (if OriginalValue \<noteq> SanitizedValue then c\<lparr>Sanitized := Sanitized c + 1\<rparr> else c)"

definition CopyAllocate :: "copying \<Rightarrow> u64 option \<times> copying" where
  "CopyAllocate c =
     (case AllocateTable (Copied c) of (r, s) \<Rightarrow> (r, c\<lparr>Copied := s, Attempts := Attempts c + 1\<rparr>))"

definition copy_store :: "u64 \<Rightarrow> u64 \<Rightarrow> u64 \<Rightarrow> u64 \<Rightarrow> copying \<Rightarrow> copying" where
  "copy_store Table i Original Value c =
     RecordSanitizedValue Original Value (on_copied (table_store Table i Value) c)"

text \<open>The value a large page or a page of the source has in the copy.\<close>

definition SanitizedLarge :: "u64 \<Rightarrow> u64" where
  "SanitizedLarge Entry =
     (let LargePageAddress = Entry AND PHYS_PAGE_ADDR_MASK AND VALID_PHYSICAL_ADDR_MASK
      in if IsValidLeafPhysicalAddress LargePageAddress
         then BuildLeafEntryValue LargePageAddress Entry (entry_user_access Entry) (entry_writeable Entry)
         else SanitizeNonPresentCopiedEntry Entry)"

definition SanitizedPage :: "u64 \<Rightarrow> u64" where
  "SanitizedPage Entry =
     (if \<not> entry_present Entry then SanitizeNonPresentCopiedEntry Entry
      else let OldPhysicalAddress = Entry AND PHYS_PAGE_ADDR_MASK AND VALID_PHYSICAL_ADDR_MASK
      in if \<not> IsValidLeafPhysicalAddress OldPhysicalAddress then SanitizeNonPresentCopiedEntry Entry
         else BuildLeafEntryValue Entry Entry (entry_user_access Entry) (entry_writeable Entry))"

definition CopyPTEntry :: "u64 \<Rightarrow> u64 \<Rightarrow> u64 \<Rightarrow> copying \<Rightarrow> copying" where
  "CopyPTEntry OldPT NewPT i c =
     (let Entry = table_load (Copied c) OldPT i
      in if \<not> entry_present Entry \<and> Entry = 0 then c
         else copy_store NewPT i Entry (SanitizedPage Entry) c)"

definition CopyPT :: "u64 \<Rightarrow> u64 \<Rightarrow> copying \<Rightarrow> copying" where
  "CopyPT OldPT NewPT c = fold (\<lambda>i. CopyPTEntry OldPT NewPT (of_nat i)) [0..<512] c"

text \<open>A loop over entries that stops at the first failure.\<close>

fun CopyLoop :: "(u64 \<Rightarrow> copying \<Rightarrow> bool \<times> copying) \<Rightarrow> nat list \<Rightarrow> copying \<Rightarrow> bool \<times> copying" where
  "CopyLoop Body [] c = (True, c)"
| "CopyLoop Body (i # is) c =
     (case Body (of_nat i) c of (False, c1) \<Rightarrow> (False, c1) | (True, c1) \<Rightarrow> CopyLoop Body is c1)"

definition CopyPDEntry :: "u64 \<Rightarrow> u64 \<Rightarrow> u64 \<Rightarrow> u64 \<Rightarrow> u64 \<Rightarrow> copying \<Rightarrow> bool \<times> copying" where
  "CopyPDEntry PML4Index PDPTIndex OldPD NewPD i c =
     (let PDEntry = table_load (Copied c) OldPD i
      in if \<not> entry_present PDEntry then (True, c)
      else if entry_size PDEntry then (True, copy_store NewPD i PDEntry (SanitizedLarge PDEntry) c)
      else let OldPT = NormalizeTablePhysicalAddress (PDEntry AND PHYS_PAGE_ADDR_MASK)
      in if OldPT = 0 then (True, on_copied (table_store NewPD i 0) c)
      else case CopyAllocate c of
        (None, c1) \<Rightarrow> (False, RecordFailure COPY_PML4_FAIL_ALLOC_PT PML4Index PDPTIndex i PDEntry 0 c1)
      | (Some NewPT, c1) \<Rightarrow>
          (True, on_copied (table_store NewPD i (BuildNonLeafEntryValue NewPT PDEntry (entry_user_access PDEntry)))
             (CopyPT OldPT NewPT c1)))"

definition CopyPDPTEntry :: "u64 \<Rightarrow> u64 \<Rightarrow> u64 \<Rightarrow> u64 \<Rightarrow> copying \<Rightarrow> bool \<times> copying" where
  "CopyPDPTEntry PML4Index OldPDPT NewPDPT i c =
     (let PDPTEntry = table_load (Copied c) OldPDPT i
      in if \<not> entry_present PDPTEntry then (True, c)
      else if entry_size PDPTEntry then (True, copy_store NewPDPT i PDPTEntry (SanitizedLarge PDPTEntry) c)
      else let OldPD = NormalizeTablePhysicalAddress (PDPTEntry AND PHYS_PAGE_ADDR_MASK)
      in if OldPD = 0 then (True, on_copied (table_store NewPDPT i 0) c)
      else case CopyAllocate c of
        (None, c1) \<Rightarrow> (False, RecordFailure COPY_PML4_FAIL_ALLOC_PD PML4Index i 0xFFFF PDPTEntry 0 c1)
      | (Some NewPD, c1) \<Rightarrow>
          (case CopyLoop (CopyPDEntry PML4Index i OldPD NewPD) [0..<512] c1 of
             (False, c2) \<Rightarrow> (False, c2)
           | (True, c2) \<Rightarrow>
               (True, on_copied (table_store NewPDPT i
                  (BuildNonLeafEntryValue NewPD PDPTEntry (entry_user_access PDPTEntry))) c2)))"

definition CopyPML4Entry :: "u64 \<Rightarrow> u64 \<Rightarrow> copying \<Rightarrow> bool \<times> copying" where
  "CopyPML4Entry NewPML4 i c =
     (let PML4Entry = table_load (Copied c) (PageMapL4Table (Copied c)) i
      in if \<not> entry_present PML4Entry then (True, c)
      else if i \<ge> 256 then (True, on_copied (table_store NewPML4 i PML4Entry) c)
      else case CopyAllocate c of
        (None, c1) \<Rightarrow> (False, RecordFailure COPY_PML4_FAIL_ALLOC_PDPT i 0xFFFF 0xFFFF PML4Entry 0 c1)
      | (Some NewPDPT, c1) \<Rightarrow>
          let OldPDPT = NormalizeTablePhysicalAddress (PML4Entry AND PHYS_PAGE_ADDR_MASK)
          in if OldPDPT = 0
             then (False, RecordFailure COPY_PML4_FAIL_INVALID_OLD_PDPT i 0xFFFF 0xFFFF PML4Entry OldPDPT c1)
             else case CopyLoop (CopyPDPTEntry i OldPDPT NewPDPT) [0..<512] c1 of
               (False, c2) \<Rightarrow> (False, c2)
             | (True, c2) \<Rightarrow>
                 (True, on_copied (table_store NewPML4 i
                    (BuildNonLeafEntryValue NewPDPT PML4Entry (entry_user_access PML4Entry))) c2))"

text \<open>What a failed copy gives back: the tables already linked under the new root.\<close>

definition free_table :: "u64 \<Rightarrow> vmm \<Rightarrow> vmm" where
  "free_table Table s = s\<lparr>PagePMM := snd (FreePagesFromDescriptor (PagePMM s) (unat Table) 1)\<rparr>"

definition FreeClonedPD :: "u64 \<Rightarrow> vmm \<Rightarrow> vmm" where
  "FreeClonedPD NewPD s =
     fold (\<lambda>i s. let PDEntry = table_load s NewPD (of_nat i); NewPT = PDEntry AND PHYS_PAGE_ADDR_MASK
                in if \<not> entry_present PDEntry \<or> entry_size PDEntry then s
                   else if NewPT \<noteq> 0 then free_table NewPT s else s) [0..<512] s"

definition FreeClonedPDPT :: "u64 \<Rightarrow> vmm \<Rightarrow> vmm" where
  "FreeClonedPDPT NewPDPT s =
     fold (\<lambda>i s. let PDPTEntry = table_load s NewPDPT (of_nat i); NewPD = PDPTEntry AND PHYS_PAGE_ADDR_MASK
                in if \<not> entry_present PDPTEntry \<or> entry_size PDPTEntry then s
                   else if NewPD = 0 then s else free_table NewPD (FreeClonedPD NewPD s)) [0..<512] s"

definition FreeClonedUserPagingHierarchy :: "u64 \<Rightarrow> vmm \<Rightarrow> vmm" where
  "FreeClonedUserPagingHierarchy NewPML4 s =
     (if NewPML4 = 0 then s
      else free_table NewPML4
        (fold (\<lambda>i s. let PML4Entry = table_load s NewPML4 (of_nat i); NewPDPT = PML4Entry AND PHYS_PAGE_ADDR_MASK
                in if \<not> entry_present PML4Entry then s
                   else if NewPDPT = 0 then s else free_table NewPDPT (FreeClonedPDPT NewPDPT s)) [0..<256] s))"

definition CopyPageMapL4Table :: "vmm \<Rightarrow> u64 option \<times> vmm" where
  "CopyPageMapL4Table s =
     (let c = \<lparr>Copied = s\<lparr>LastCopy := NoCopyInfo\<rparr>, Attempts = 0, Sanitized = 0\<rparr>
      in case CopyAllocate c of
        (None, c1) \<Rightarrow> (None, Copied (RecordFailure COPY_PML4_FAIL_ALLOC_PML4 0xFFFF 0xFFFF 0xFFFF 0 0 c1))
      | (Some NewPML4, c1) \<Rightarrow>
          (case CopyLoop (CopyPML4Entry NewPML4) [0..<512] c1 of
             (False, c2) \<Rightarrow> (None, FreeClonedUserPagingHierarchy NewPML4 (Copied c2))
           | (True, c2) \<Rightarrow>
               (Some NewPML4, (Copied c2)\<lparr>LastCopy := (LastCopy (Copied c2))\<lparr>AllocationAttempts := Attempts c2,
                  SanitizedEntryCount := Sanitized c2\<rparr>\<rparr>)))"

section \<open>Mapping an address space\<close>

text \<open>\<open>VirtualAddressSpace.cpp\<close>: the ranges of a process, mapped page by page when its page table is installed.\<close>

definition GetRequiredPageCount :: "u64 \<Rightarrow> u64 \<Rightarrow> u64" where
  "GetRequiredPageCount VirtualAddress Size =
     (if Size = 0 then 0
      else let PageOffset = VirtualAddress AND (PAGE_SIZE - 1)
           in (PageOffset + Size + PAGE_SIZE - 1) div PAGE_SIZE)"

text \<open>The loop over the pages, which ends with the first page that cannot be mapped.\<close>

fun MapPages_loop :: "nat \<Rightarrow> nat \<Rightarrow> u64 \<Rightarrow> u64 \<Rightarrow> (u64 \<Rightarrow> bool) \<Rightarrow> vmm \<Rightarrow> bool \<times> vmm" where
  "MapPages_loop 0 i P V Writable s = (True, s)"
| "MapPages_loop (Suc n) i P V Writable s =
     (let VirtualPage = V + of_nat i * PAGE_SIZE
      in case MapPage (P + of_nat i * PAGE_SIZE) VirtualPage True (Writable VirtualPage) s of
           (False, s1) \<Rightarrow> (False, s1)
         | (True, s1) \<Rightarrow> MapPages_loop n (Suc i) P V Writable s1)"

definition MapUserRange :: "u64 \<Rightarrow> u64 \<Rightarrow> u64 \<Rightarrow> bool \<Rightarrow> vmm \<Rightarrow> bool \<times> vmm" where
  "MapUserRange PhysicalAddress VirtualAddress Size Writable s =
     (let Pages = GetRequiredPageCount VirtualAddress Size
      in if Pages = 0 then (True, s)
         else MapPages_loop (unat Pages) 0 (PhysicalAddress AND PHYS_PAGE_ADDR_MASK) (VirtualAddress AND PHYS_PAGE_ADDR_MASK)
                (\<lambda>_. Writable) s)"

definition VirtualAddressSpace_Init :: "address_space \<Rightarrow> u64 \<Rightarrow> pmm \<Rightarrow> (u64 \<Rightarrow> u64) \<Rightarrow> bool \<times> address_space \<times> vmm" where
  "VirtualAddressSpace_Init a Table p M =
     (let s = VirtualMemoryManager Table p M
      in if Table = 0 then (False, a, s)
         else let CodePages = (CodeSize a + PAGE_SIZE - 1) div PAGE_SIZE;
                  HeapPages = (HeapSize a + PAGE_SIZE - 1) div PAGE_SIZE;
                  StackPages = (StackSize a + PAGE_SIZE - 1) div PAGE_SIZE;
                  s1 = snd (MapUserRange (CodePhysicalAddress a) (CodeVirtualAddressStart a) (CodePages * PAGE_SIZE) True s);
                  s2 = snd (MapUserRange (HeapPhysicalAddress a) (HeapVirtualAddressStart a) (HeapPages * PAGE_SIZE) True s1);
                  s3 = snd (MapUserRange (StackPhysicalAddress a) (StackVirtualAddressStart a) (StackPages * PAGE_SIZE) True s2)
              in (True, a\<lparr>PageMapL4TableAddr := Table\<rparr>, s3))"

definition RegionEndAddress :: "elf_memory_region \<Rightarrow> u64" where
  "RegionEndAddress r =
     (if RegionSize r = 0 then RegionVirtualAddress r
      else if RegionVirtualAddress r > - 1 - RegionSize r then - 1
      else RegionVirtualAddress r + RegionSize r)"

definition IsPageWritableInAnyRegion :: "elf_memory_region list \<Rightarrow> u64 \<Rightarrow> bool" where
  "IsPageWritableInAnyRegion Regions VirtualPageBase =
     (let VirtualPageEnd = (if VirtualPageBase > - 1 - PAGE_SIZE then - 1 else VirtualPageBase + PAGE_SIZE)
      in list_ex (\<lambda>r. RegionWritable r \<and> RegionSize r \<noteq> 0 \<and> RegionVirtualAddress r < VirtualPageEnd \<and>
                     RegionEndAddress r > VirtualPageBase) Regions)"

fun MapRegions :: "elf_memory_region list \<Rightarrow> elf_memory_region list \<Rightarrow> vmm \<Rightarrow> bool \<times> vmm" where
  "MapRegions all [] s = (True, s)"
| "MapRegions all (r # rs) s =
     (let Pages = GetRequiredPageCount (RegionVirtualAddress r) (RegionSize r)
      in if Pages = 0 then MapRegions all rs s
         else case MapPages_loop (unat Pages) 0 (RegionPhysicalAddress r AND PHYS_PAGE_ADDR_MASK)
                     (RegionVirtualAddress r AND PHYS_PAGE_ADDR_MASK)
                     (\<lambda>p. RegionWritable r \<or> IsPageWritableInAnyRegion all p) s of
                (False, s1) \<Rightarrow> (False, s1)
              | (True, s1) \<Rightarrow> MapRegions all rs s1)"

definition VirtualAddressSpaceELF_Init :: "address_space \<Rightarrow> u64 \<Rightarrow> pmm \<Rightarrow> (u64 \<Rightarrow> u64) \<Rightarrow> bool \<times> address_space \<times> vmm" where
  "VirtualAddressSpaceELF_Init a Table p M =
     (let s = VirtualMemoryManager Table p M
      in if Table = 0 \<or> ElfMemoryRegions a = [] then (False, a, s)
         else case MapRegions (ElfMemoryRegions a) (ElfMemoryRegions a) s of
                (False, s1) \<Rightarrow> (False, a, s1)
              | (True, s1) \<Rightarrow>
         (case MapUserRange (HeapPhysicalAddress a) (HeapVirtualAddressStart a) (HeapSize a) True s1 of
                (False, s2) \<Rightarrow> (False, a, s2)
              | (True, s2) \<Rightarrow>
         (case MapUserRange (StackPhysicalAddress a) (StackVirtualAddressStart a) (StackSize a) True s2 of
                (False, s3) \<Rightarrow> (False, a, s3)
              | (True, s3) \<Rightarrow> (True, a\<lparr>PageMapL4TableAddr := Table\<rparr>, s3))))"

end
