(* ===== verification/Page_Tables.thy ===== *)
theory Page_Tables imports Virtual_Memory begin

unbundle bit_operations_syntax

text \<open>
  The page tables of \<open>VirtualMemoryManager.cpp\<close> as a tree: the entries built and read bit by bit, the tables
  reached along an address, the invariant that no table is shared or free, the translation the tables define,
  and that a table grafted under an entry, or a large page split, leaves every translation as it was.
\<close>

section \<open>Entries\<close>

text \<open>Addresses a table may have: page-aligned, not null, below the limit of the buddy allocator.\<close>

definition aligned :: "u64 \<Rightarrow> bool" where
  "aligned t \<longleftrightarrow> t AND 0xFFF = 0"

definition table_ok :: "u64 \<Rightarrow> bool" where
  "table_ok t \<longleftrightarrow> t \<noteq> 0 \<and> aligned t \<and> t < 0xC0000000"

lemma flag_masks: "NON_LEAF_ALLOWED_FLAG_MASK = 0xE3F" "LEAF_ALLOWED_FLAG_MASK = 0xFFF" "NON_PRESENT_COPY_FLAG_MASK = 0xFFE"
  by (simp_all add: entry_flags)

lemma mask_words: "(0xFFF :: u64) = mask 12" "(0x00000000FFFFF000 :: u64) = mask 32 AND NOT (mask 12)"
  "(0x000FFFFFFFFFF000 :: u64) = mask 52 AND NOT (mask 12)"
  by (simp_all add: mask_eq_exp_minus_1)

lemma aligned_bit: "aligned t \<Longrightarrow> n < 12 \<Longrightarrow> \<not> bit t n"
proof -
  assume a: "aligned t" and n: "n < 12"
  have "\<not> bit (t AND mask 12) n" using a by (simp add: aligned_def mask_words(1))
  with n show ?thesis by (simp add: bit_simps)
qed

lemma small_bit: "t < 0x100000000 \<Longrightarrow> 32 \<le> n \<Longrightarrow> \<not> bit (t :: u64) n"
proof -
  assume t: "t < 0x100000000" and n: "32 \<le> n"
  have "unat t < 2 ^ 32" using t by (simp add: word_less_nat_alt)
  moreover have "(2 :: nat) ^ 32 \<le> 2 ^ n" using n by (rule power_increasing) simp
  ultimately have "unat t < 2 ^ n" by linarith
  then have "\<not> bit (unat t) n" by (simp add: bit_iff_odd)
  then show ?thesis by (metis bit_unsigned_iff possible_bit_nat)
qed

lemma aligned_bitD: "bit t n \<Longrightarrow> aligned t \<Longrightarrow> 12 \<le> n"
  using aligned_bit not_less by blast

lemma small_bitD: "bit (t :: u64) n \<Longrightarrow> t < 0x100000000 \<Longrightarrow> n < 32"
  using small_bit not_less by blast

lemma valid_mask: "aligned t \<Longrightarrow> t < 0x100000000 \<Longrightarrow> t AND VALID_PHYSICAL_ADDR_MASK = t"
  unfolding VALID_PHYSICAL_ADDR_MASK_def mask_words
  by (rule bit_eqI) (auto simp: bit_simps dest: aligned_bitD small_bitD)

lemma phys_mask: "aligned t \<Longrightarrow> t < 0x100000000 \<Longrightarrow> t AND PHYS_PAGE_ADDR_MASK = t"
  unfolding PHYS_PAGE_ADDR_MASK_def mask_words
  by (rule bit_eqI) (auto simp: bit_simps dest: aligned_bitD small_bitD)

lemma aligned_masked: "aligned (e AND PHYS_PAGE_ADDR_MASK)" "aligned (e AND VALID_PHYSICAL_ADDR_MASK)"
  by (simp_all add: aligned_def PHYS_PAGE_ADDR_MASK_def VALID_PHYSICAL_ADDR_MASK_def and.assoc)

lemma valid_phys: "e AND VALID_PHYSICAL_ADDR_MASK AND PHYS_PAGE_ADDR_MASK = e AND VALID_PHYSICAL_ADDR_MASK"
  "e AND PHYS_PAGE_ADDR_MASK AND VALID_PHYSICAL_ADDR_MASK = e AND VALID_PHYSICAL_ADDR_MASK"
  by (simp_all add: PHYS_PAGE_ADDR_MASK_def VALID_PHYSICAL_ADDR_MASK_def and.assoc)

lemma valid_small: "e AND VALID_PHYSICAL_ADDR_MASK < 0x100000000"
proof -
  have "e AND VALID_PHYSICAL_ADDR_MASK \<le> VALID_PHYSICAL_ADDR_MASK" by (rule word_and_le1)
  also have "\<dots> < 0x100000000" by (simp add: VALID_PHYSICAL_ADDR_MASK_def)
  finally show ?thesis .
qed

lemma table_ok_masks:
  assumes "table_ok t"
  shows "t AND VALID_PHYSICAL_ADDR_MASK = t" "t AND PHYS_PAGE_ADDR_MASK = t"
proof -
  have "t < 0x100000000" using assms by (auto simp: table_ok_def elim: order_less_trans)
  then show "t AND VALID_PHYSICAL_ADDR_MASK = t" "t AND PHYS_PAGE_ADDR_MASK = t"
    using assms by (simp_all add: table_ok_def valid_mask phys_mask)
qed

text \<open>The bits and the address of the entries the code builds.\<close>

lemma non_leaf_entry:
  "BuildNonLeafEntryValue a f u AND PHYS_PAGE_ADDR_MASK = a AND VALID_PHYSICAL_ADDR_MASK"
  "entry_present (BuildNonLeafEntryValue a f u)" "\<not> entry_size (BuildNonLeafEntryValue a f u)"
  "entry_user_access (BuildNonLeafEntryValue a f u) \<longleftrightarrow> u \<or> entry_user_access f"
proof -
  have "BuildNonLeafEntryValue a f u AND PHYS_PAGE_ADDR_MASK = a AND VALID_PHYSICAL_ADDR_MASK AND PHYS_PAGE_ADDR_MASK"
    by (simp add: BuildNonLeafEntryValue_def Let_def flag_masks PHYS_PAGE_ADDR_MASK_def ENTRY_FLAG_PRESENT_def
        ENTRY_FLAG_WRITEABLE_def ENTRY_FLAG_USER_def word_ao_dist and.assoc)
  then show "BuildNonLeafEntryValue a f u AND PHYS_PAGE_ADDR_MASK = a AND VALID_PHYSICAL_ADDR_MASK" by (simp add: valid_phys)
qed (auto simp: BuildNonLeafEntryValue_def Let_def flag_masks entry_flags entry_present_def entry_size_def entry_user_access_def
    bit_or_iff bit_and_iff)

lemma leaf_entry:
  "BuildLeafEntryValue a f u w AND PHYS_PAGE_ADDR_MASK = a AND VALID_PHYSICAL_ADDR_MASK"
  "entry_present (BuildLeafEntryValue a f u w)" "entry_size (BuildLeafEntryValue a f u w) \<longleftrightarrow> entry_size f"
  "entry_user_access (BuildLeafEntryValue a f u w) \<longleftrightarrow> u" "entry_writeable (BuildLeafEntryValue a f u w) \<longleftrightarrow> w"
proof -
  have "BuildLeafEntryValue a f u w AND PHYS_PAGE_ADDR_MASK = a AND VALID_PHYSICAL_ADDR_MASK AND PHYS_PAGE_ADDR_MASK"
    by (simp add: BuildLeafEntryValue_def Let_def flag_masks PHYS_PAGE_ADDR_MASK_def entry_flags word_ao_dist and.assoc and.left_commute)
  then show "BuildLeafEntryValue a f u w AND PHYS_PAGE_ADDR_MASK = a AND VALID_PHYSICAL_ADDR_MASK" by (simp add: valid_phys)
qed (auto simp: BuildLeafEntryValue_def Let_def flag_masks entry_flags entry_present_def entry_size_def entry_user_access_def
    entry_writeable_def bit_or_iff bit_and_iff bit_not_iff)

section \<open>The tree of tables\<close>

text \<open>
  \<open>index l v\<close> is the index of the address \<open>v\<close> at level \<open>l\<close>, 0 being the root; \<open>node\<close> the table of that level on
  the way to \<open>v\<close>, \<open>slot\<close> the entry of \<open>v\<close> in it. Addresses with the same indices above a level share the table.
\<close>

definition index :: "nat \<Rightarrow> u64 \<Rightarrow> u64" where
  "index l v = drop_bit (39 - 9 * l) v AND 0x1FF"

lemma index_names: "pml4_index v = index 0 v" "pdpt_index v = index (Suc 0) v" "pd_index v = index 2 v" "pt_index v = index 3 v"
  by (simp_all add: index_def pml4_index_def pdpt_index_def pd_index_def pt_index_def)

lemma index_less: "index l v < 512"
proof -
  have "index l v \<le> 0x1FF" unfolding index_def by (rule word_and_le1)
  also have "\<dots> < 512" by simp
  finally show ?thesis .
qed

definition same_path :: "nat \<Rightarrow> u64 \<Rightarrow> u64 \<Rightarrow> bool" where
  "same_path l v v' \<longleftrightarrow> (\<forall>k<l. index k v = index k v')"

lemma same_path_refl [simp]: "same_path l v v" by (simp add: same_path_def)
lemma same_path_0 [simp]: "same_path 0 v v'" by (simp add: same_path_def)
lemma same_path_Suc: "same_path (Suc l) v v' \<longleftrightarrow> same_path l v v' \<and> index l v = index l v'"
  by (auto simp: same_path_def less_Suc_eq)
lemma same_path_le: "same_path l v v' \<Longrightarrow> k \<le> l \<Longrightarrow> same_path k v v'" by (auto simp: same_path_def)
lemma same_path_sym: "same_path l v v' \<Longrightarrow> same_path l v' v" by (simp add: same_path_def)
lemma same_path_trans: "same_path l u v \<Longrightarrow> same_path l v w \<Longrightarrow> same_path l u w" by (simp add: same_path_def)

definition pointer :: "nat \<Rightarrow> u64 \<Rightarrow> bool" where
  "pointer l e \<longleftrightarrow> entry_present e \<and> (l = 0 \<or> \<not> entry_size e)"

fun node :: "(u64 \<Rightarrow> u64) \<Rightarrow> u64 \<Rightarrow> nat \<Rightarrow> u64 \<Rightarrow> u64 option" where
  "node M r 0 v = Some r"
| "node M r (Suc l) v =
     (case node M r l v of
        None \<Rightarrow> None
      | Some t \<Rightarrow> let e = M (t + 8 * index l v) in if pointer l e then Some (e AND PHYS_PAGE_ADDR_MASK) else None)"

definition slot :: "(u64 \<Rightarrow> u64) \<Rightarrow> u64 \<Rightarrow> nat \<Rightarrow> u64 \<Rightarrow> u64 option" where
  "slot M r l v = map_option (\<lambda>t. M (t + 8 * index l v)) (node M r l v)"

declare node.simps(2) [simp del]

lemma node_slot: "node M r (Suc l) v =
    (case slot M r l v of None \<Rightarrow> None | Some e \<Rightarrow> if pointer l e then Some (e AND PHYS_PAGE_ADDR_MASK) else None)"
  by (simp add: slot_def node.simps Let_def split: option.splits)

lemma node_same_path: "same_path l v v' \<Longrightarrow> node M r l v = node M r l v'"
  by (induction l) (auto simp: same_path_Suc node.simps split: option.splits)

lemma slot_same_path: "same_path (Suc l) v v' \<Longrightarrow> slot M r l v = slot M r l v'"
  using node_same_path [of l v v' M r] by (simp add: slot_def same_path_Suc)

lemma node_above: "node M r l v = Some t \<Longrightarrow> k \<le> l \<Longrightarrow> \<exists>u. node M r k v = Some u"
proof (induction l arbitrary: t)
  case (Suc l)
  then obtain u where "node M r l v = Some u" by (auto simp: node.simps split: option.splits)
  with Suc show ?case by (cases "k = Suc l") auto
qed simp

definition tree_ok :: "(u64 \<Rightarrow> u64) \<Rightarrow> u64 \<Rightarrow> bool" where
  "tree_ok M r \<longleftrightarrow>
     (\<forall>l\<le>3. \<forall>v t. node M r l v = Some t \<longrightarrow> table_ok t) \<and>
     (\<forall>l\<le>3. \<forall>l'\<le>3. \<forall>v v' t. node M r l v = Some t \<and> node M r l' v' = Some t \<longrightarrow> l = l' \<and> same_path l v v') \<and>
     (\<forall>l\<le>2. \<forall>v e. slot M r l v = Some e \<and> entry_present e \<and> entry_size e \<and> l \<noteq> 0 \<longrightarrow> e AND PHYS_PAGE_ADDR_MASK < 0x100000000)"

lemma tree_okD:
  assumes "tree_ok M r"
  shows "\<And>l v t. l \<le> 3 \<Longrightarrow> node M r l v = Some t \<Longrightarrow> table_ok t"
    and "\<And>l l' v v' t. l \<le> 3 \<Longrightarrow> l' \<le> 3 \<Longrightarrow> node M r l v = Some t \<Longrightarrow> node M r l' v' = Some t \<Longrightarrow> l = l' \<and> same_path l v v'"
    and "\<And>l v e. l \<le> 2 \<Longrightarrow> slot M r l v = Some e \<Longrightarrow> entry_present e \<Longrightarrow> entry_size e \<Longrightarrow> l \<noteq> 0 \<Longrightarrow> e AND PHYS_PAGE_ADDR_MASK < 0x100000000"
  using assms unfolding tree_ok_def by blast+

text \<open>Slots of tables are apart.\<close>

lemma slot_unat:
  assumes "table_ok t" and "i < 512"
  shows "unat (t + 8 * i) = unat t + 8 * unat i" and "unat t mod 4096 = 0" and "unat t < 0xC0000000" and "unat i < 512"
proof -
  show t: "unat t < 0xC0000000" and i: "unat i < 512" using assms by (simp_all add: table_ok_def word_less_nat_alt)
  then show "unat (t + 8 * i) = unat t + 8 * unat i" by (simp add: unat_word_ariths)
  have "take_bit 12 t = 0" using assms(1) by (simp add: table_ok_def aligned_def mask_words take_bit_eq_mask)
  then have "unat (take_bit 12 t) = 0" by simp
  then show "unat t mod 4096 = 0" by (simp add: take_bit_eq_mod unat_mod)
qed

lemma slot_inj:
  assumes "table_ok t" "table_ok t'" "i < 512" "j < 512" and "t + 8 * i = t' + 8 * j"
  shows "t = t' \<and> i = j"
proof -
  note a = slot_unat [OF assms(1,3)] and b = slot_unat [OF assms(2,4)]
  have e: "unat t + 8 * unat i = unat t' + 8 * unat j" using a(1) b(1) assms(5) by simp
  obtain x y where xy: "unat t = 4096 * x" "unat t' = 4096 * y" using a(2) b(2) by (auto simp: mod_eq_0_iff_dvd elim!: dvdE)
  from e xy a(4) b(4) have "x = y" by linarith
  with e xy have "unat t = unat t'" "unat i = unat j" by simp_all
  then show ?thesis by (simp add: word_unat_eq_iff)
qed

lemma slot_page:
  assumes "table_ok t" "table_ok a" "i < 512"
  shows "t + 8 * i - a < PAGE_SIZE \<longleftrightarrow> t = a"
proof
  assume "t = a"
  moreover have "8 * i < 4096" using assms(3) by (simp add: word_less_nat_alt unat_word_ariths)
  ultimately show "t + 8 * i - a < PAGE_SIZE" by (simp add: PAGE_SIZE_def)
next
  note x = slot_unat [OF assms(1,3)] and y = slot_unat [OF assms(2,3)]
  assume less: "t + 8 * i - a < PAGE_SIZE"
  obtain p q where pq: "unat t = 4096 * p" "unat a = 4096 * q" using x(2) y(2) by (auto simp: mod_eq_0_iff_dvd elim!: dvdE)
  show "t = a"
  proof (cases "a \<le> t + 8 * i")
    case True
    then have "unat (t + 8 * i - a) = unat t + 8 * unat i - unat a" "unat a \<le> unat t + 8 * unat i"
      using x(1) by (simp_all add: unat_sub word_le_nat_alt)
    moreover from less have "unat (t + 8 * i - a) < 4096" by (simp add: PAGE_SIZE_def word_less_nat_alt)
    ultimately have "p = q" using pq x(4) by linarith
    with pq show ?thesis by (simp add: word_unat_eq_iff)
  next
    case False
    then have "unat (t + 8 * i - a) = 2 ^ 64 + (unat t + 8 * unat i) - unat a"
      using x(1) by (simp add: unat_sub_if' word_le_nat_alt)
    with less y(3) have False by (simp add: PAGE_SIZE_def word_less_nat_alt)
    then show ?thesis ..
  qed
qed

section \<open>Changing one slot\<close>

definition other_slot :: "nat \<Rightarrow> u64 \<Rightarrow> nat \<Rightarrow> u64 \<Rightarrow> bool" where
  "other_slot l v l' v' \<longleftrightarrow> \<not> (l' = l \<and> same_path (Suc l) v v')"

definition changed_at :: "(u64 \<Rightarrow> u64) \<Rightarrow> (u64 \<Rightarrow> u64) \<Rightarrow> u64 \<Rightarrow> nat \<Rightarrow> u64 \<Rightarrow> bool" where
  "changed_at M M' r l v \<longleftrightarrow>
     (\<forall>l'\<le>3. \<forall>v' t. node M r l' v' = Some t \<and> other_slot l v l' v' \<longrightarrow> M' (t + 8 * index l' v') = M (t + 8 * index l' v'))"

lemma changed_slot:
  "changed_at M M' r l v \<Longrightarrow> l' \<le> 3 \<Longrightarrow> other_slot l v l' v' \<Longrightarrow> node M' r l' v' = node M r l' v' \<Longrightarrow> slot M' r l' v' = slot M r l' v'"
  unfolding changed_at_def slot_def by (cases "node M r l' v'") auto

lemma changed_frame:
  assumes "changed_at M M' r l v"
  shows "l' \<le> 3 \<Longrightarrow> \<not> (l < l' \<and> same_path (Suc l) v v') \<Longrightarrow> node M' r l' v' = node M r l' v'"
proof (induction l')
  case (Suc l')
  then have "node M' r l' v' = node M r l' v'" "other_slot l v l' v'" by (auto simp: other_slot_def)
  with changed_slot [OF assms] Suc.prems have "slot M' r l' v' = slot M r l' v'" by simp
  then show ?case by (simp add: node_slot)
qed simp

lemma changed_here:
  assumes "changed_at M M' r l v" and "l \<le> 3" and "node M r l v = Some t" and "same_path (Suc l) v v'"
  shows "node M' r l v' = Some t" "slot M' r l v' = Some (M' (t + 8 * index l v))"
proof -
  have "node M r l v' = Some t" using assms(3) node_same_path [of l v v' M r] assms(4) by (simp add: same_path_Suc)
  then show n: "node M' r l v' = Some t" using changed_frame [OF assms(1,2)] by simp
  show "slot M' r l v' = Some (M' (t + 8 * index l v))" using n assms(4) by (simp add: slot_def same_path_Suc)
qed

text \<open>An entry rewritten with the same table: the tree stays.\<close>

lemma rewrite_entry:
  assumes ch: "changed_at M M' r l v" and l: "l \<le> 3" and t: "node M r l v = Some t"
    and e: "slot M r l v = Some e" "pointer l e" and e': "pointer l (M' (t + 8 * index l v))"
    and same: "M' (t + 8 * index l v) AND PHYS_PAGE_ADDR_MASK = e AND PHYS_PAGE_ADDR_MASK"
  shows "l' \<le> 3 \<Longrightarrow> node M' r l' v' = node M r l' v'"
proof (induction l')
  case (Suc l')
  then have n: "node M' r l' v' = node M r l' v'" by simp
  show ?case
  proof (cases "other_slot l v l' v'")
    case True
    with changed_slot [OF ch _ True n] Suc.prems show ?thesis by (simp add: node_slot)
  next
    case False
    then have x: "l' = l" "same_path (Suc l) v v'" by (auto simp: other_slot_def)
    have "slot M r l v' = Some e" using e(1) slot_same_path [OF x(2)] by simp
    with changed_here(2) [OF ch l t x(2)] e(2) e' same x(1) show ?thesis by (simp add: node_slot)
  qed
qed simp

text \<open>A fresh table linked at a slot that pointed to none, with no tables below it.\<close>

lemma insert_table:
  assumes ch: "changed_at M M' r l v" and l: "l \<le> 2" and t: "node M r l v = Some t"
    and e: "slot M r l v = Some e" "\<not> pointer l e" and e': "pointer l (M' (t + 8 * index l v))"
    and a: "M' (t + 8 * index l v) AND PHYS_PAGE_ADDR_MASK = a"
    and none: "\<And>i. i < 512 \<Longrightarrow> Suc l \<le> 2 \<Longrightarrow> \<not> pointer (Suc l) (M' (a + 8 * i))"
  shows "l' \<le> 3 \<Longrightarrow> node M' r l' v' = (if l' = Suc l \<and> same_path (Suc l) v v' then Some a else node M r l' v')"
proof (induction l')
  case (Suc l')
  have l3: "l \<le> 3" using l by simp
  show ?case
  proof (cases "l < Suc l' \<and> same_path (Suc l) v v'")
    case False
    with changed_frame [OF ch Suc.prems False] show ?thesis by auto
  next
    case True
    have e2: "slot M r l v' = Some e" using e(1) slot_same_path [of l v v'] True by simp
    have below: "node M r (Suc l + k) v' = None" for k
      by (induction k) (use e2 e(2) in \<open>auto simp: node_slot slot_def\<close>)
    consider "l' = l" | "l' = Suc l" | "Suc l < l'" using True by linarith
    then show ?thesis
    proof cases
      case 1
      with changed_here(2) [OF ch l3 t] True e' a show ?thesis by (simp add: node_slot)
    next
      case 2
      then have "slot M' r l' v' = Some (M' (a + 8 * index (Suc l) v'))" using Suc True by (simp add: slot_def)
      moreover have "\<not> pointer (Suc l) (M' (a + 8 * index (Suc l) v'))" using none [OF index_less] 2 Suc.prems by simp
      ultimately show ?thesis using below [of 1] 2 by (simp add: node_slot)
    next
      case 3
      then obtain k where k: "l' = Suc l + k" using less_imp_le by (metis le_iff_add)
      then have "node M' r l' v' = None" using Suc 3 below [of k] by simp
      then show ?thesis using below [of "Suc k"] 3 k by (simp add: node_slot slot_def)
    qed
  qed
qed simp

lemma tree_ok_insert:
  assumes ok: "tree_ok M r" and l: "l \<le> 2"
    and nodes: "\<And>l' v'. l' \<le> 3 \<Longrightarrow> node M' r l' v' = (if l' = Suc l \<and> same_path (Suc l) v v' then Some a else node M r l' v')"
    and a: "table_ok a" "\<And>l' v'. l' \<le> 3 \<Longrightarrow> node M r l' v' \<noteq> Some a"
    and large: "\<And>l' v' e. l' \<le> 2 \<Longrightarrow> slot M' r l' v' = Some e \<Longrightarrow> entry_present e \<Longrightarrow> entry_size e \<Longrightarrow> l' \<noteq> 0 \<Longrightarrow>
      e AND PHYS_PAGE_ADDR_MASK < 0x100000000"
  shows "tree_ok M' r"
proof -
  note D = tree_okD [OF ok]
  have "table_ok t" if "l' \<le> 3" "node M' r l' v' = Some t" for l' v' t
    using that nodes [OF that(1), of v'] D(1) [of l' v' t] a(1) by (auto split: if_splits)
  moreover have "l1 = l2 \<and> same_path l1 v1 v2" if "l1 \<le> 3" "l2 \<le> 3" "node M' r l1 v1 = Some t" "node M' r l2 v2 = Some t" for l1 l2 v1 v2 t
  proof (cases "t = a")
    case True
    then have "l1 = Suc l \<and> same_path (Suc l) v v1" "l2 = Suc l \<and> same_path (Suc l) v v2"
      using that nodes a(2) by (auto split: if_splits)
    then show ?thesis using same_path_trans same_path_sym by blast
  next
    case False
    then have "node M r l1 v1 = Some t" "node M r l2 v2 = Some t" using that nodes by (auto split: if_splits)
    then show ?thesis using D(2) that by blast
  qed
  ultimately show ?thesis using large unfolding tree_ok_def by blast
qed

lemma tree_ok_same_nodes:
  assumes ok: "tree_ok M r" and nodes: "\<And>l' v'. l' \<le> 3 \<Longrightarrow> node M' r l' v' = node M r l' v'"
    and large: "\<And>l' v' e. l' \<le> 2 \<Longrightarrow> slot M' r l' v' = Some e \<Longrightarrow> entry_present e \<Longrightarrow> entry_size e \<Longrightarrow> l' \<noteq> 0 \<Longrightarrow>
      e AND PHYS_PAGE_ADDR_MASK < 0x100000000"
  shows "tree_ok M' r"
  using ok large unfolding tree_ok_def by (simp add: nodes) blast

text \<open>A write into a slot of the tree, whatever happened outside the tree.\<close>

lemma changed_write:
  assumes ok: "tree_ok M r" and l: "l \<le> 3" and t: "node M r l v = Some t"
    and off: "\<And>l' v' u. l' \<le> 3 \<Longrightarrow> node M r l' v' = Some u \<Longrightarrow> M1 (u + 8 * index l' v') = M (u + 8 * index l' v')"
  shows "changed_at M (M1(t + 8 * index l v := e)) r l v"
  unfolding changed_at_def
proof (intro allI impI)
  fix l' v' u assume l': "l' \<le> 3" and u: "node M r l' v' = Some u \<and> other_slot l v l' v'"
  note D = tree_okD [OF ok]
  have "u + 8 * index l' v' \<noteq> t + 8 * index l v"
  proof
    assume "u + 8 * index l' v' = t + 8 * index l v"
    then have x: "u = t" "index l' v' = index l v" using slot_inj [OF D(1) [OF l'] D(1) [OF l t] index_less index_less] u by blast+
    then have "l' = l" "same_path l v v'" using D(2) [OF l l' t, of v'] u by auto
    with x u show False by (simp add: other_slot_def same_path_Suc)
  qed
  then show "(M1(t + 8 * index l v := e)) (u + 8 * index l' v') = M (u + 8 * index l' v')" using off [OF l'] u by simp
qed

section \<open>What the tables map\<close>

text \<open>The page an address is translated to, with the user and write permissions of the entry that ends the walk.\<close>

definition large_page :: "u64 \<Rightarrow> u64 \<Rightarrow> u64 \<Rightarrow> u64 \<times> bool \<times> bool" where
  "large_page low e v = ((e AND PHYS_PAGE_ADDR_MASK AND NOT low) OR (v AND low AND NOT 0xFFF), entry_user_access e, entry_writeable e)"

definition translate :: "(u64 \<Rightarrow> u64) \<Rightarrow> u64 \<Rightarrow> u64 \<Rightarrow> (u64 \<times> bool \<times> bool) option" where
  "translate M r v =
     (case slot M r (Suc 0) v of
        None \<Rightarrow> None
      | Some e1 \<Rightarrow>
          if \<not> entry_present e1 then None
          else if entry_size e1 then Some (large_page 0x3FFFFFFF e1 v)
          else case slot M r 2 v of
                 None \<Rightarrow> None
               | Some e2 \<Rightarrow>
                   if \<not> entry_present e2 then None
                   else if entry_size e2 then Some (large_page 0x1FFFFF e2 v)
                   else case slot M r 3 v of
                          None \<Rightarrow> None
                        | Some e3 \<Rightarrow> if \<not> entry_present e3 then None else Some (large_page 0xFFF e3 v))"

lemma translate_cong:
  "(\<And>l. 1 \<le> l \<Longrightarrow> l \<le> 3 \<Longrightarrow> slot M' r l v = slot M r l v) \<Longrightarrow> translate M' r v = translate M r v"
proof -
  assume s: "\<And>l. 1 \<le> l \<Longrightarrow> l \<le> 3 \<Longrightarrow> slot M' r l v = slot M r l v"
  have "slot M' r (Suc 0) v = slot M r (Suc 0) v" "slot M' r 2 v = slot M r 2 v" "slot M' r 3 v = slot M r 3 v"
    by (rule s; simp)+
  then show ?thesis by (simp only: translate_def)
qed

section \<open>The invariant\<close>

definition free_frame :: "pmm \<Rightarrow> u64 \<Rightarrow> bool" where
  "free_frame p t \<longleftrightarrow> (\<exists>i. i \<in># free_of p \<and> t = of_nat (PhysicalAddressStart p + i * PAGE_BYTES))"

definition vm_wf :: "vmm \<Rightarrow> bool" where
  "vm_wf s \<longleftrightarrow>
     pmm_inv (PagePMM s) \<and> PhysicalAddressStart (PagePMM s) mod 4096 = 0 \<and> tree_ok (Memory s) (PageMapL4Table s) \<and>
     (\<forall>l\<le>3. \<forall>v t. node (Memory s) (PageMapL4Table s) l v = Some t \<longrightarrow> \<not> free_frame (PagePMM s) t)"

abbreviation nodes_of :: "vmm \<Rightarrow> nat \<Rightarrow> u64 \<Rightarrow> u64 option" where
  "nodes_of s \<equiv> node (Memory s) (PageMapL4Table s)"

abbreviation slots_of :: "vmm \<Rightarrow> nat \<Rightarrow> u64 \<Rightarrow> u64 option" where
  "slots_of s \<equiv> slot (Memory s) (PageMapL4Table s)"

abbreviation mapping_of :: "vmm \<Rightarrow> u64 \<Rightarrow> (u64 \<times> bool \<times> bool) option" where
  "mapping_of s \<equiv> translate (Memory s) (PageMapL4Table s)"

lemma vm_wfD:
  assumes "vm_wf s"
  shows "pmm_inv (PagePMM s)" "PhysicalAddressStart (PagePMM s) mod 4096 = 0" "tree_ok (Memory s) (PageMapL4Table s)"
    and "\<And>l v t. l \<le> 3 \<Longrightarrow> nodes_of s l v = Some t \<Longrightarrow> \<not> free_frame (PagePMM s) t"
    and "\<And>l v t. l \<le> 3 \<Longrightarrow> nodes_of s l v = Some t \<Longrightarrow> table_ok t"
  using assms tree_okD(1) unfolding vm_wf_def by blast+

lemma table_ok_of_nat:
  assumes "0 < a" "a mod 4096 = 0" "a < 0xC0000000"
  shows "table_ok (of_nat a)"
proof -
  have u: "unat (of_nat a :: u64) = a" using assms(3) by (simp add: unat_of_nat)
  have "take_bit 12 (of_nat a :: u64) = of_nat (a mod 4096)" unfolding take_bit_of_nat by (simp only: take_bit_eq_mod) simp
  then have "aligned (of_nat a)" using assms(2) by (simp add: aligned_def mask_words take_bit_eq_mask)
  moreover have "(of_nat a :: u64) < 0xC0000000" using u assms(3) by (simp add: word_less_nat_alt)
  moreover have "(of_nat a :: u64) \<noteq> 0" using u assms(1) by (metis less_irrefl unat_0)
  ultimately show ?thesis by (simp add: table_ok_def)
qed

lemma frame_unat: "pmm_inv p \<Longrightarrow> i < DescriptorPages p \<Longrightarrow>
    PhysicalAddressStart p + i * PAGE_BYTES < 0xC0000000 \<and>
    unat (of_nat (PhysicalAddressStart p + i * PAGE_BYTES) :: u64) = PhysicalAddressStart p + i * PAGE_BYTES"
proof -
  assume p: "pmm_inv p" and i: "i < DescriptorPages p"
  have "PhysicalAddressStart p + DescriptorPages p * PAGE_BYTES \<le> 0xC0000000"
    using p by (simp add: pmm_inv_def layout_simps PMM_BUDDY_PHYSICAL_LIMIT_def)
  moreover have "Suc i * PAGE_BYTES \<le> DescriptorPages p * PAGE_BYTES" using i by (intro mult_right_mono) auto
  ultimately have less: "PhysicalAddressStart p + i * PAGE_BYTES < 0xC0000000" by (simp add: PAGE_BYTES_def)
  have "unat (of_nat x :: u64) = x" if "x < 0xC0000000" for x using that by (simp add: unat_of_nat)
  from this [OF less] less show ?thesis by blast
qed

lemma free_in_range: "pmm_inv p \<Longrightarrow> i \<in># free_of p \<Longrightarrow> i < DescriptorPages p"
  using mset_subset_eqD [of "free_of p" "mset [0..<DescriptorPages p]" i] by (auto simp: pmm_inv_def)

lemma Allocate_one:
  assumes inv: "pmm_inv p" and al: "PhysicalAddressStart p mod 4096 = 0" and r: "AllocatePagesFromDescriptor p 1 = (Some a, p')"
  shows "pmm_inv p'" "PhysicalAddressStart p' = PhysicalAddressStart p" "table_ok (of_nat a)" "free_frame p (of_nat a)"
    "\<not> free_frame p' (of_nat a)" "\<And>t. free_frame p' t \<Longrightarrow> free_frame p t" "unat (of_nat a :: u64) = a"
proof -
  note A = Allocate_Some [OF inv r]
  have c: "CeilLog2Pages 1 = 0" by (simp add: CeilLog2Pages_def)
  from A c obtain i where i: "a = PhysicalAddressStart p + i * PAGE_BYTES" "i < DescriptorPages p" by (auto simp: block_ok_def Suc_le_eq)
  have b: "free_of p = add_mset i (free_of p')"
    using A c by (simp add: block_of_def block_pages_def i(1))
  show "pmm_inv p'" using A by blast
  obtain fl n where "p' = p\<lparr>BuddyFreeLists := fl, NumberOfFreePages := n\<rparr>" using A by blast
  then show s: "PhysicalAddressStart p' = PhysicalAddressStart p" by simp
  note f = frame_unat [OF inv i(2)]
  have "0 < PhysicalAddressStart p" using inv by (simp add: pmm_inv_def)
  then show "table_ok (of_nat a)" using f al i(1) by (intro table_ok_of_nat) (simp_all add: PAGE_BYTES_def mod_add_eq [symmetric])
  show "unat (of_nat a :: u64) = a" using f i(1) by simp
  show "free_frame p (of_nat a)" using b i(1) by (auto simp: free_frame_def)
  show "\<And>t. free_frame p' t \<Longrightarrow> free_frame p t" using b s by (auto simp: free_frame_def)
  show "\<not> free_frame p' (of_nat a)"
  proof
    assume "free_frame p' (of_nat a)"
    then obtain j where j: "j \<in># free_of p'" "(of_nat a :: u64) = of_nat (PhysicalAddressStart p + j * PAGE_BYTES)" by (auto simp: free_frame_def s)
    then have "j \<in># free_of p" using b by simp
    from frame_unat [OF inv free_in_range [OF inv this]] j(2) f i(1)
    have "PhysicalAddressStart p + j * PAGE_BYTES = PhysicalAddressStart p + i * PAGE_BYTES" by metis
    then have "j = i" by (simp add: PAGE_BYTES_def)
    with j(1) b have "2 \<le> count (free_of p) i" by (simp add: Suc_le_eq)
    moreover have "count (free_of p) i \<le> count (mset [0..<DescriptorPages p]) i"
      using inv by (intro mset_subset_eq_count) (simp add: pmm_inv_def)
    moreover have "count (mset [0..<DescriptorPages p]) i \<le> 1"
      using distinct_count_atmost_1 [of "[0..<DescriptorPages p]"] by (metis distinct_upt le_numeral_extra(4) zero_le_one)
    ultimately show False by linarith
  qed
qed

section \<open>Splitting a large page\<close>

lemma low_masks: "(0x3FFFFFFF :: u64) = mask 30" "(0x1FFFFF :: u64) = mask 21" "(0x1FF :: u64) = mask 9"
  by (simp_all add: mask_eq_exp_minus_1)

lemma split_offset:
  assumes "i < 512"
  shows "(e AND NOT (mask 30)) + i * 0x200000 = (e AND NOT (mask 30)) OR push_bit 21 (i :: u64)"
    "(e AND NOT (mask 21)) + i * 0x1000 = (e AND NOT (mask 21)) OR push_bit 12 (i :: u64)"
proof -
  have i: "\<not> bit i n" if "9 \<le> n" for n
  proof -
    have "unat i < 2 ^ 9" using assms by (simp add: word_less_nat_alt)
    also have "(2 :: nat) ^ 9 \<le> 2 ^ n" using that by (rule power_increasing) simp
    finally have "\<not> bit (unat i) n" by (simp add: bit_iff_odd)
    then show ?thesis by (metis bit_unsigned_iff possible_bit_nat)
  qed
  have "(e AND NOT (mask 30)) + push_bit 21 i = (e AND NOT (mask 30)) OR push_bit 21 i"
    using i by (intro disjunctive_add) (auto simp: bit_simps)
  moreover have "(e AND NOT (mask 21)) + push_bit 12 i = (e AND NOT (mask 21)) OR push_bit 12 i"
    using i by (intro disjunctive_add) (auto simp: bit_simps)
  ultimately show "(e AND NOT (mask 30)) + i * 0x200000 = (e AND NOT (mask 30)) OR push_bit 21 i"
    "(e AND NOT (mask 21)) + i * 0x1000 = (e AND NOT (mask 21)) OR push_bit 12 i" by (simp_all add: push_bit_eq_mult mult.commute)
qed

lemma split_entry_flags:
  "entry_present (SplitPDEntry e i)" "entry_size (SplitPDEntry e i)" "entry_user_access (SplitPDEntry e i) = entry_user_access e"
  "entry_writeable (SplitPDEntry e i) = entry_writeable e"
  by (auto simp: SplitPDEntry_def Let_def entry_flags entry_present_def entry_size_def entry_user_access_def
      entry_writeable_def bit_or_iff bit_and_iff)

lemma phys_valid: "PHYS_PAGE_ADDR_MASK AND (VALID_PHYSICAL_ADDR_MASK AND x) = VALID_PHYSICAL_ADDR_MASK AND x"
  by (simp add: PHYS_PAGE_ADDR_MASK_def VALID_PHYSICAL_ADDR_MASK_def and.assoc [symmetric])

lemma split_entry_address:
  "SplitPDEntry e i AND PHYS_PAGE_ADDR_MASK =
     (((e AND VALID_PHYSICAL_ADDR_MASK) AND NOT (mask 30)) + i * 0x200000) AND VALID_PHYSICAL_ADDR_MASK"
proof -
  have "SplitPDEntry e i AND PHYS_PAGE_ADDR_MASK =
     (((e AND VALID_PHYSICAL_ADDR_MASK) AND NOT (mask 30)) + i * 0x200000) AND VALID_PHYSICAL_ADDR_MASK AND PHYS_PAGE_ADDR_MASK"
    unfolding SplitPDEntry_def Let_def valid_phys
    by (simp add: low_masks(1) [symmetric] entry_flags word_ao_dist and.assoc)
  then show ?thesis by (simp add: valid_phys)
qed

lemma valid_of_small: "e AND PHYS_PAGE_ADDR_MASK < 0x100000000 \<Longrightarrow> e AND VALID_PHYSICAL_ADDR_MASK = e AND PHYS_PAGE_ADDR_MASK"
  using valid_mask [OF aligned_masked(1), of e] by (simp add: and.assoc valid_phys)

lemma small_phys_bits:
  assumes "e AND PHYS_PAGE_ADDR_MASK < 0x100000000"
  shows "bit (e AND PHYS_PAGE_ADDR_MASK) n \<Longrightarrow> 12 \<le> n \<and> n < 32"
  using aligned_bitD [OF _ aligned_masked(1)] small_bitD [OF _ assms] by blast

lemma split_pd:
  assumes e: "e AND PHYS_PAGE_ADDR_MASK < 0x100000000"
  shows "large_page 0x1FFFFF (SplitPDEntry e (index 2 v)) v = large_page 0x3FFFFFFF e v"
proof -
  let ?a = "e AND PHYS_PAGE_ADDR_MASK"
  have bits: "bit ?a n \<Longrightarrow> 12 \<le> n \<and> n < 32" for n by (rule small_phys_bits [OF e])
  have "SplitPDEntry e (index 2 v) AND PHYS_PAGE_ADDR_MASK =
      ((?a AND NOT (mask 30)) OR push_bit 21 (index 2 v)) AND VALID_PHYSICAL_ADDR_MASK"
    unfolding split_entry_address valid_of_small [OF e] split_offset(1) [OF index_less] ..
  also have "\<dots> AND NOT (mask 21) OR (v AND mask 21 AND NOT (mask 12)) = ?a AND NOT (mask 30) OR (v AND mask 30 AND NOT (mask 12))"
    unfolding VALID_PHYSICAL_ADDR_MASK_def index_def low_masks mask_words
    by (rule bit_eqI) (use bits in \<open>auto simp: bit_simps\<close>)
  finally show ?thesis
    by (simp add: large_page_def split_entry_flags low_masks mask_words and.assoc)
qed

lemma split_pd_small: "SplitPDEntry e i AND PHYS_PAGE_ADDR_MASK < 0x100000000"
  unfolding split_entry_address by (rule valid_small)

lemma split_pt:
  assumes e: "e AND PHYS_PAGE_ADDR_MASK < 0x100000000"
  shows "large_page 0xFFF (SplitPTEntry e (index 3 v)) v = large_page 0x1FFFFF e v" and "entry_present (SplitPTEntry e i)"
proof -
  let ?a = "e AND PHYS_PAGE_ADDR_MASK"
  have bits: "bit ?a n \<Longrightarrow> 12 \<le> n \<and> n < 32" for n by (rule small_phys_bits [OF e])
  show "entry_present (SplitPTEntry e i)" by (simp add: SplitPTEntry_def Let_def leaf_entry)
  have "SplitPTEntry e (index 3 v) AND PHYS_PAGE_ADDR_MASK =
      ((e AND VALID_PHYSICAL_ADDR_MASK AND NOT (mask 21)) + index 3 v * 0x1000) AND VALID_PHYSICAL_ADDR_MASK"
    unfolding SplitPTEntry_def Let_def leaf_entry(1)
    by (simp add: phys_valid PAGE_SIZE_def low_masks(2) [symmetric] and.assoc)
  also have "\<dots> = ((?a AND NOT (mask 21)) OR push_bit 12 (index 3 v)) AND VALID_PHYSICAL_ADDR_MASK"
    unfolding and.assoc [symmetric] valid_of_small [OF e] split_offset(2) [OF index_less] ..
  also have "\<dots> AND NOT (mask 12) OR (v AND mask 12 AND NOT (mask 12)) = ?a AND NOT (mask 21) OR (v AND mask 21 AND NOT (mask 12))"
    unfolding VALID_PHYSICAL_ADDR_MASK_def index_def low_masks mask_words
    by (rule bit_eqI) (use bits in \<open>auto simp: bit_simps\<close>)
  finally show "large_page 0xFFF (SplitPTEntry e (index 3 v)) v = large_page 0x1FFFFF e v"
    by (simp add: large_page_def SplitPTEntry_def Let_def leaf_entry(4,5) low_masks mask_words and.assoc)
qed

section \<open>A fresh table\<close>

text \<open>\<open>s'\<close> is \<open>s\<close> with a page \<open>a\<close> taken from the allocator, in no table and with the entries \<open>F\<close>.\<close>

definition fresh_table :: "vmm \<Rightarrow> u64 \<Rightarrow> (u64 \<Rightarrow> u64) \<Rightarrow> vmm \<Rightarrow> bool" where
  "fresh_table s a F s' \<longleftrightarrow>
     table_ok a \<and> (\<forall>l\<le>3. \<forall>v. nodes_of s l v \<noteq> Some a) \<and>
     pmm_inv (PagePMM s') \<and> PhysicalAddressStart (PagePMM s') = PhysicalAddressStart (PagePMM s) \<and>
     free_frame (PagePMM s) a \<and> \<not> free_frame (PagePMM s') a \<and> (\<forall>t. free_frame (PagePMM s') t \<longrightarrow> free_frame (PagePMM s) t) \<and>
     PageMapL4Table s' = PageMapL4Table s \<and>
     (\<forall>t i. table_ok t \<and> t \<noteq> a \<and> i < 512 \<longrightarrow> Memory s' (t + 8 * i) = Memory s (t + 8 * i)) \<and>
     (\<forall>i<512. Memory s' (a + 8 * i) = F i)"

lemma AllocateTable_spec:
  assumes wf: "vm_wf s" and r: "AllocateTable s = (r, s')"
  shows "case r of None \<Rightarrow> s' = s | Some a \<Rightarrow> fresh_table s a (\<lambda>_. 0) s'"
proof (cases "AllocatePagesFromDescriptor (PagePMM s) 1")
  case (Pair x p)
  note W = vm_wfD [OF wf]
  show ?thesis
  proof (cases x)
    case None
    then have "p = PagePMM s" using Allocate_None [OF W(1)] Pair by blast
    with None Pair r show ?thesis by (auto simp: AllocateTable_def)
  next
    case (Some a)
    note A = Allocate_one [OF W(1,2) Pair [unfolded Some]]
    let ?a = "of_nat a :: u64"
    have r': "r = Some ?a" "s' = ClearPage ?a (s\<lparr>PagePMM := p\<rparr>)" using r Pair Some by (auto simp: AllocateTable_def)
    have "nodes_of s l v \<noteq> Some ?a" if "l \<le> 3" for l v using W(4) [OF that] A(4) by blast
    moreover have "Memory s' (t + 8 * i) = (if t = ?a then 0 else Memory s (t + 8 * i))" if "table_ok t" "i < 512" for t i
      using slot_page [OF that(1) A(3) that(2)] by (simp add: r' ClearPage_def)
    moreover have "PagePMM s' = p" "PageMapL4Table s' = PageMapL4Table s" by (simp_all add: r' ClearPage_def)
    ultimately show ?thesis using A r'(1) by (auto simp: fresh_table_def)
  qed
qed

lemma FillTable_fields [simp]:
  "PagePMM (FillTable t f s) = PagePMM s" "PageMapL4Table (FillTable t f s) = PageMapL4Table s"
proof -
  have "PagePMM (fold (\<lambda>i. table_store t (of_nat i) (f (of_nat i))) ns s) = PagePMM s \<and>
    PageMapL4Table (fold (\<lambda>i. table_store t (of_nat i) (f (of_nat i))) ns s) = PageMapL4Table s" for ns
    by (induction ns arbitrary: s) (simp_all add: table_store_def)
  then show "PagePMM (FillTable t f s) = PagePMM s" "PageMapL4Table (FillTable t f s) = PageMapL4Table s"
    by (simp_all add: FillTable_def)
qed

lemma FillTable_memory:
  assumes t: "table_ok t" and u: "table_ok u" and j: "j < 512"
  shows "Memory (FillTable t f s) (u + 8 * j) = (if u = t then f j else Memory s (u + 8 * j))"
proof -
  have "Memory (fold (\<lambda>i. table_store t (of_nat i) (f (of_nat i))) ns s) (u + 8 * j) =
      (if u = t \<and> unat j \<in> set ns then f j else Memory s (u + 8 * j))" if "\<forall>i\<in>set ns. i < 512" for ns
    using that
  proof (induction ns arbitrary: s)
    case (Cons i ns)
    have i: "(of_nat i :: u64) < 512" "unat (of_nat i :: u64) = i" using Cons.prems by (simp_all add: word_less_nat_alt unat_of_nat)
    have e: "t + 8 * of_nat i = u + 8 * j \<longleftrightarrow> u = t \<and> i = unat j" using slot_inj [OF t u i(1) j] i(2) by auto
    define s1 where "s1 = table_store t (of_nat i) (f (of_nat i)) s"
    have m: "Memory s1 (u + 8 * j) = (if u = t \<and> i = unat j then f j else Memory s (u + 8 * j))"
      using e by (cases "u = t \<and> i = unat j") (auto simp: s1_def table_store_def)
    have "Memory (fold (\<lambda>i. table_store t (of_nat i) (f (of_nat i))) ns s1) (u + 8 * j) =
        (if u = t \<and> unat j \<in> set ns then f j else Memory s1 (u + 8 * j))" using Cons.IH Cons.prems by simp
    with m show ?case unfolding fold_simps s1_def [symmetric] by auto
  qed simp
  moreover have "unat j < 512" using j by (simp add: word_less_nat_alt)
  ultimately show ?thesis by (simp add: FillTable_def)
qed

lemma FillTable_fresh: "fresh_table s a F s1 \<Longrightarrow> fresh_table s a f (FillTable a f s1)"
  by (auto simp: fresh_table_def FillTable_memory)

section \<open>Linking a fresh table\<close>

lemma table_store_fields [simp]:
  "PagePMM (table_store t i e s) = PagePMM s" "PageMapL4Table (table_store t i e s) = PageMapL4Table s"
  "Memory (table_store t i e s) = (Memory s)(t + 8 * i := e)"
  by (simp_all add: table_store_def)

lemma vm_wf_same_nodes:
  assumes wf: "vm_wf s" and p: "PagePMM s' = PagePMM s" "PageMapL4Table s' = PageMapL4Table s"
    and nodes: "\<And>l v. l \<le> 3 \<Longrightarrow> nodes_of s' l v = nodes_of s l v" and ok: "tree_ok (Memory s') (PageMapL4Table s')"
  shows "vm_wf s'"
  using wf nodes ok unfolding vm_wf_def p by simp

lemma graft:
  assumes wf: "vm_wf s" and l: "l \<le> 2" and t: "nodes_of s l v = Some t" and e: "slots_of s l v = Some e" "\<not> pointer l e"
    and fr: "fresh_table s a F s1" and e': "pointer l e'" "e' AND PHYS_PAGE_ADDR_MASK = a"
    and F: "\<And>i. i < 512 \<Longrightarrow> Suc l \<le> 2 \<Longrightarrow> \<not> pointer (Suc l) (F i)"
    and large: "\<And>i. i < 512 \<Longrightarrow> entry_present (F i) \<Longrightarrow> entry_size (F i) \<Longrightarrow> Suc l \<le> 2 \<Longrightarrow> F i AND PHYS_PAGE_ADDR_MASK < 0x100000000"
    and size0: "l \<noteq> 0 \<Longrightarrow> \<not> entry_size e'"
  defines "s' \<equiv> table_store t (index l v) e' s1"
  shows "vm_wf s'" and "\<And>l' v'. l' \<le> 3 \<Longrightarrow> nodes_of s' l' v' = (if l' = Suc l \<and> same_path (Suc l) v v' then Some a else nodes_of s l' v')"
    and "\<And>v'. same_path (Suc l) v v' \<Longrightarrow> slots_of s' l v' = Some e'"
    and "\<And>v'. same_path (Suc l) v v' \<Longrightarrow> slots_of s' (Suc l) v' = Some (F (index (Suc l) v'))"
    and "\<And>l' v'. l' \<le> 3 \<Longrightarrow> \<not> (l \<le> l' \<and> same_path (Suc l) v v') \<Longrightarrow> slots_of s' l' v' = slots_of s l' v'"
    and "l' \<le> 3 \<Longrightarrow> Suc l < l' \<Longrightarrow> same_path (Suc l) v v' \<Longrightarrow> slots_of s' l' v' = None"
proof -
  note W = vm_wfD [OF wf] and f = fr [unfolded fresh_table_def]
  let ?r = "PageMapL4Table s"
  have l3: "l \<le> 3" using l by simp
  have r: "PageMapL4Table s' = ?r" using f by (simp add: s'_def)
  have off: "Memory s1 (u + 8 * index l' v') = Memory s (u + 8 * index l' v')" if "l' \<le> 3" "node (Memory s) ?r l' v' = Some u" for l' v' u
    using f that W(5) [OF that] index_less by blast
  have ch: "changed_at (Memory s) (Memory s') ?r l v"
    using changed_write [OF W(3) l3 t, of "Memory s1" e'] off by (simp add: s'_def)
  have here: "Memory s' (t + 8 * index l v) = e'" by (simp add: s'_def)
  have ta: "t \<noteq> a" using f t l3 by auto
  have A: "Memory s' (a + 8 * i) = F i" if "i < 512" for i
    using f that slot_inj [of a t i "index l v"] W(5) [OF l3 t] index_less ta by (auto simp: s'_def)
  have nodes: "node (Memory s') ?r l' v' = (if l' = Suc l \<and> same_path (Suc l) v v' then Some a else node (Memory s) ?r l' v')" if "l' \<le> 3" for l' v'
    by (rule insert_table [OF ch l t e _ _ _ that]) (use e' here A F in auto)
  then show N: "nodes_of s' l' v' = (if l' = Suc l \<and> same_path (Suc l) v v' then Some a else nodes_of s l' v')" if "l' \<le> 3" for l' v'
    using that r by simp
  show S1: "slots_of s' l v' = Some e'" if "same_path (Suc l) v v'" for v' using changed_here(2) [OF ch l3 t that] here r by simp
  show S2: "slots_of s' (Suc l) v' = Some (F (index (Suc l) v'))" if "same_path (Suc l) v v'" for v'
    using N [of "Suc l" v'] l that A index_less by (simp add: slot_def)
  show S3: "slots_of s' l' v' = slots_of s l' v'" if "l' \<le> 3" "\<not> (l \<le> l' \<and> same_path (Suc l) v v')" for l' v'
    using changed_slot [OF ch that(1)] changed_frame [OF ch that(1)] that(2) r by (auto simp: other_slot_def)
  have below: "nodes_of s l' v' = None" if "Suc l \<le> l'" "same_path (Suc l) v v'" for l' v'
  proof (rule ccontr)
    assume "nodes_of s l' v' \<noteq> None"
    then obtain w where "nodes_of s l' v' = Some w" by blast
    from node_above [OF this that(1)] obtain u where "nodes_of s (Suc l) v' = Some u" by blast
    moreover have "slots_of s l v' = Some e" using e(1) slot_same_path [OF that(2)] by simp
    ultimately show False using e(2) by (simp add: node_slot)
  qed
  show S4: "slots_of s' l' v' = None" if "l' \<le> 3" "Suc l < l'" "same_path (Suc l) v v'" for l' v'
    using N [OF that(1), of v'] below [of l' v'] that by (simp add: slot_def)
  have "tree_ok (Memory s') ?r"
  proof (rule tree_ok_insert [OF W(3) l, where a = a and v = v])
    fix l' v' e0 assume x: "l' \<le> 2" "slot (Memory s') ?r l' v' = Some e0" "entry_present e0" "entry_size e0" "l' \<noteq> 0"
    have x': "slots_of s' l' v' = Some e0" "l' \<le> 3" using x r by simp_all
    show "e0 AND PHYS_PAGE_ADDR_MASK < 0x100000000"
    proof (cases "l \<le> l' \<and> same_path (Suc l) v v'")
      case False
      then show ?thesis using S3 x x' tree_okD(3) [OF W(3)] by simp
    next
      case True
      consider "l' = l" | "l' = Suc l" | "Suc l < l'" using True by linarith
      then show ?thesis
      proof cases
        case 1 then show ?thesis using S1 True x x' size0 by auto
      next
        case 2 then show ?thesis using S2 [of v'] True x x' large index_less by auto
      next
        case 3 then show ?thesis using S4 [OF x'(2) 3] True x' by simp
      qed
    qed
  qed (use nodes f in auto)
  moreover have "\<not> free_frame (PagePMM s') u" if "l' \<le> 3" "nodes_of s' l' v' = Some u" for l' v' u
    using N [OF that(1), of v'] that W(4) [OF that(1), of v' u] f by (auto simp: s'_def split: if_splits)
  ultimately show "vm_wf s'" using W f by (simp add: vm_wf_def s'_def)
qed

lemma slot_None_below: "slot M r l v = Some e \<Longrightarrow> \<not> pointer l e \<Longrightarrow> l < l' \<Longrightarrow> slot M r l' v = None"
proof -
  assume e: "slot M r l v = Some e" "\<not> pointer l e" and l: "l < l'"
  have "node M r l' v = None"
  proof (rule ccontr)
    assume "node M r l' v \<noteq> None"
    then obtain w where "node M r l' v = Some w" by blast
    from node_above [OF this, of "Suc l"] l obtain u where "node M r (Suc l) v = Some u" by auto
    with e show False by (simp add: node_slot)
  qed
  then show ?thesis by (simp add: slot_def)
qed

lemma slot_above: "slot M r l v = Some e \<Longrightarrow> k < l \<Longrightarrow> \<exists>e0. slot M r k v = Some e0 \<and> pointer k e0"
proof -
  assume e: "slot M r l v = Some e" and k: "k < l"
  then obtain t where "node M r l v = Some t" by (auto simp: slot_def)
  from node_above [OF this, of "Suc k"] k obtain u where "node M r (Suc k) v = Some u" by auto
  then show ?thesis by (auto simp: node_slot split: option.splits if_splits)
qed

lemma translate_at:
  assumes "slot M r l v = Some e" and "\<not> pointer l e" and "l \<le> 2"
  shows "translate M r v = (if l \<noteq> 0 \<and> entry_present e then Some (large_page (if l = 1 then 0x3FFFFFFF else 0x1FFFFF) e v) else None)"
proof -
  have n: "slot M r l' v = None" if "l < l'" for l' by (rule slot_None_below [OF assms(1,2) that])
  consider "l = 0" | "l = 1" | "l = 2" using assms(3) by linarith
  then show ?thesis
  proof cases
    case 1 then show ?thesis using n [of 1] by (simp add: translate_def)
  next
    case 2 then show ?thesis using assms n by (auto simp: translate_def pointer_def)
  next
    case 3
    from slot_above [OF assms(1), of 1] 3 obtain e0 where "slot M r 1 v = Some e0" "pointer 1 e0" by auto
    then show ?thesis using 3 assms by (auto simp: translate_def pointer_def)
  qed
qed

lemma translate_leaf:
  assumes "slot M r 3 v = Some e"
  shows "translate M r v = (if entry_present e then Some (large_page 0xFFF e v) else None)"
proof -
  from slot_above [OF assms, of 1] slot_above [OF assms, of 2]
  show ?thesis using assms by (auto simp: translate_def pointer_def)
qed

lemma graft_mapping:
  assumes wf: "vm_wf s" and l: "l \<le> 2" and t: "nodes_of s l v = Some t" and e: "slots_of s l v = Some e" "\<not> pointer l e"
    and fr: "fresh_table s a F s1" and e': "pointer l e'" "e' AND PHYS_PAGE_ADDR_MASK = a" "\<not> entry_size e'"
    and new: "\<not> entry_present e \<Longrightarrow> \<forall>i. F i = 0"
    and split: "entry_present e \<Longrightarrow> F = (if l = 1 then SplitPDEntry e else SplitPTEntry e)"
  shows "vm_wf (table_store t (index l v) e' s1)" and "mapping_of (table_store t (index l v) e' s1) v' = mapping_of s v'"
    and "slots_of (table_store t (index l v) e' s1) l v = Some e'"
    and "k < l \<Longrightarrow> slots_of (table_store t (index l v) e' s1) k v = slots_of s k v"
proof -
  have small: "e AND PHYS_PAGE_ADDR_MASK < 0x100000000" if "entry_present e"
    using tree_okD(3) [OF vm_wfD(3) [OF wf] l e(1) that] e(2) that by (auto simp: pointer_def)
  have zero: "\<not> entry_present 0" by (simp add: entry_present_def)
  have l0: "l \<noteq> 0" if "entry_present e" using that e(2) by (auto simp: pointer_def)
  have F: "\<not> pointer (Suc l) (F i)" if "i < 512" "Suc l \<le> 2" for i
  proof (cases "entry_present e")
    case True
    then show ?thesis using split l0 l that by (auto simp: pointer_def split_entry_flags)
  qed (use new zero in \<open>simp add: pointer_def\<close>)
  have large: "F i AND PHYS_PAGE_ADDR_MASK < 0x100000000" if "i < 512" "entry_present (F i)" "entry_size (F i)" "Suc l \<le> 2" for i
  proof (cases "entry_present e")
    case True
    then show ?thesis using split l0 l that split_pd_small by auto
  qed (use new zero that in simp)
  let ?s = "table_store t (index l v) e' s1"
  note G = graft [OF wf l t e fr e'(1,2)]
  have G3: "slots_of ?s l v'' = Some e'" if "same_path (Suc l) v v''" for v'' by (rule G(3)) (use F large e'(3) that in auto)
  have G4: "slots_of ?s (Suc l) v'' = Some (F (index (Suc l) v''))" if "same_path (Suc l) v v''" for v''
    by (rule G(4)) (use F large e'(3) that in auto)
  have G5: "slots_of ?s l' v'' = slots_of s l' v''" if "l' \<le> 3" "\<not> (l \<le> l' \<and> same_path (Suc l) v v'')" for l' v''
    by (rule G(5)) (use F large e'(3) that in auto)
  show "vm_wf ?s" by (rule G(1)) (use F large e'(3) in auto)
  show "slots_of ?s l v = Some e'" by (rule G3) simp
  show "slots_of ?s k v = slots_of s k v" if "k < l" using G5 [of k v] that l by simp
  have root: "PageMapL4Table ?s = PageMapL4Table s" using fr by (simp add: fresh_table_def)
  show "mapping_of ?s v' = mapping_of s v'"
  proof (cases "same_path (Suc l) v v'")
    case False
    then have "slots_of ?s l' v' = slots_of s l' v'" if "l' \<le> 3" for l' using G5 [OF that] by simp
    then show ?thesis unfolding root by (intro translate_cong) simp
  next
    case True
    have e1: "slots_of s l v' = Some e" using e(1) slot_same_path [OF True] by simp
    note old = translate_at [OF e1 e(2) l]
    let ?f = "F (index (Suc l) v')"
    have f: "slots_of ?s (Suc l) v' = Some ?f" using G4 [OF True] .
    show ?thesis
    proof (cases "l = 2")
      case True
      then have f3: "slots_of ?s 3 v' = Some ?f" using f by (simp add: numeral_3_eq_3)
      then show ?thesis
        using translate_leaf [OF f3] old new split split_pt [OF small] True zero by (auto simp: numeral_3_eq_3)
    next
      case False
      then have l1: "Suc l \<le> 2" using l by simp
      from translate_at [OF f F [OF index_less l1] l1] old new split zero l0 split_pd [OF small] False l
      show ?thesis by (cases "l = 1"; cases "entry_present e") (auto simp: split_entry_flags numeral_2_eq_2)
    qed
  qed
qed

end
