(* ===== verification/Page_Mapping.thy ===== *)
theory Page_Mapping imports Page_Tables begin

unbundle bit_operations_syntax

text \<open>
  Mapping, protecting and unmapping pages (\<open>VirtualMemoryManager.cpp\<close>) refine updates of the translation the
  page tables define, and what is mapped for user code is what the user memory checks accept.
\<close>

section \<open>Mapping a page\<close>

lemma RecordMutation_fields [simp]:
  "PagePMM (RecordMutation v ev a b s) = PagePMM s" "PageMapL4Table (RecordMutation v ev a b s) = PageMapL4Table s"
  "Memory (RecordMutation v ev a b s) = Memory s"
  by (simp_all add: RecordMutation_def)

lemma vm_wf_cong: "PagePMM s' = PagePMM s \<Longrightarrow> PageMapL4Table s' = PageMapL4Table s \<Longrightarrow> Memory s' = Memory s \<Longrightarrow> vm_wf s' = vm_wf s"
  by (simp add: vm_wf_def)

text \<open>
  What a level of \<open>MapPage\<close> leaves: every translation as before, and at its level a pointer to a table, open to
  the user when the mapping is.
\<close>

definition level_done :: "vmm \<Rightarrow> nat \<Rightarrow> u64 \<Rightarrow> bool \<Rightarrow> u64 \<Rightarrow> vmm \<Rightarrow> bool" where
  "level_done s l v user e s' \<longleftrightarrow>
     vm_wf s' \<and> PageMapL4Table s' = PageMapL4Table s \<and> (\<forall>v'. mapping_of s' v' = mapping_of s v') \<and>
     slots_of s' l v = Some e \<and> pointer l e \<and> (user \<longrightarrow> entry_user_access e) \<and> (\<forall>k<l. slots_of s' k v = slots_of s k v)"

lemma level_doneD:
  assumes "level_done s l v u e s'"
  shows "vm_wf s'" "PageMapL4Table s' = PageMapL4Table s" "\<And>v'. mapping_of s' v' = mapping_of s v'" "slots_of s' l v = Some e"
    "pointer l e" "u \<Longrightarrow> entry_user_access e" "\<And>k. k < l \<Longrightarrow> slots_of s' k v = slots_of s k v"
  using assms unfolding level_done_def by blast+

lemma level_done_node: "level_done s l v u e s' \<Longrightarrow> nodes_of s' (Suc l) v = Some (e AND PHYS_PAGE_ADDR_MASK)"
  using level_doneD(4,5) [of s l v u e s'] by (simp add: node_slot)

lemma load_slot: "nodes_of s l v = Some t \<Longrightarrow> slots_of s l v = Some (table_load s t (index l v))"
  by (simp add: slot_def table_load_def)

lemma fresh_table_fields: "fresh_table s a F s' \<Longrightarrow> PageMapL4Table s' = PageMapL4Table s"
  by (simp add: fresh_table_def)

lemma EnsureTable_spec:
  assumes wf: "vm_wf s" and l: "l \<le> 2" and t: "nodes_of s l v = Some t"
    and np: "\<not> entry_present (table_load s t (index l v))" and r: "EnsureTable ev v t (index l v) u s = (r, s')"
  shows "case r of None \<Rightarrow> s' = s | Some e \<Rightarrow> level_done s l v u e s' \<and> \<not> entry_size e"
proof (cases "AllocateTable s")
  case (Pair x s1)
  note al = AllocateTable_spec [OF wf Pair]
  show ?thesis
  proof (cases x)
    case None
    then show ?thesis using al Pair r np by (auto simp: EnsureTable_def Let_def)
  next
    case (Some a)
    let ?e = "BuildNonLeafEntryValue a 0 u" and ?t = "table_store t (index l v) (BuildNonLeafEntryValue a 0 u) s1"
    have fr: "fresh_table s a (\<lambda>_. 0) s1" using al Some by simp
    then have a: "?e AND PHYS_PAGE_ADDR_MASK = a" by (simp add: non_leaf_entry table_ok_masks fresh_table_def)
    let ?old = "table_load s t (index l v)"
    have n: "\<not> pointer l ?old" using np unfolding pointer_def by blast
    have n2: "pointer l ?e" by (simp add: pointer_def non_leaf_entry)
    note G = graft_mapping [OF wf l t load_slot [OF t] n fr n2 a non_leaf_entry(3)]
    have s': "s' = RecordMutation v ev ?e (?e AND PHYS_PAGE_ADDR_MASK) ?t" "r = Some ?e"
      using Pair Some r np by (auto simp: EnsureTable_def Let_def table_load_def)
    have "vm_wf ?t" "\<And>v'. mapping_of ?t v' = mapping_of s v'" "slots_of ?t l v = Some ?e" "\<And>k. k < l \<Longrightarrow> slots_of ?t k v = slots_of s k v"
      using G np by auto
    moreover have "vm_wf s' = vm_wf ?t" unfolding s' by (rule vm_wf_cong) simp_all
    ultimately show ?thesis using n2 fresh_table_fields [OF fr] by (simp add: s' level_done_def non_leaf_entry)
  qed
qed

lemma translate_rewrite:
  assumes l: "l \<le> 2" and other: "\<And>k. k \<le> 3 \<Longrightarrow> k \<noteq> l \<Longrightarrow> slot M' r k v = slot M r k v"
    and e: "slot M r l v = Some e" "pointer l e" and e': "slot M' r l v = Some e'" "pointer l e'"
  shows "translate M' r v = translate M r v"
proof -
  consider "l = 0" | "l = 1" | "l = 2" using l by linarith
  then show ?thesis
  proof cases
    case 1
    then show ?thesis by (intro translate_cong other) auto
  next
    case 2
    have "slot M' r 2 v = slot M r 2 v" "slot M' r 3 v = slot M r 3 v" using 2 by (simp_all add: other)
    then show ?thesis using e e' 2 unfolding translate_def by (simp only: One_nat_def option.case) (simp add: pointer_def)
  next
    case 3
    have "slot M' r (Suc 0) v = slot M r (Suc 0) v" "slot M' r 3 v = slot M r 3 v" using 3 by (simp_all add: other)
    then show ?thesis using e e' 3 unfolding translate_def by (simp only: option.case) (simp add: pointer_def)
  qed
qed

lemma RaiseUser_spec:
  assumes wf: "vm_wf s" and l: "l \<le> 2" and t: "nodes_of s l v = Some t" and e: "slots_of s l v = Some e" "pointer l e"
    and r: "RaiseUser t (index l v) u e s = (e', s')"
  shows "level_done s l v u e' s'"
proof (cases "u \<and> \<not> entry_user_access e")
  case False
  then show ?thesis using r wf e by (auto simp: RaiseUser_def level_done_def)
next
  case True
  let ?e = "BuildNonLeafEntryValue e e True"
  have r': "e' = ?e" "s' = table_store t (index l v) ?e s" using r True by (auto simp: RaiseUser_def Let_def)
  note W = vm_wfD [OF wf]
  have l3: "l \<le> 3" "Suc l \<le> 3" using l by simp_all
  have "nodes_of s (Suc l) v = Some (e AND PHYS_PAGE_ADDR_MASK)" using e by (simp add: node_slot)
  then have "table_ok (e AND PHYS_PAGE_ADDR_MASK)" using W(5) [OF l3(2)] by simp
  then have "e AND VALID_PHYSICAL_ADDR_MASK = e AND PHYS_PAGE_ADDR_MASK" using table_ok_masks(1) by (metis and.assoc valid_phys(2))
  then have a: "?e AND PHYS_PAGE_ADDR_MASK = e AND PHYS_PAGE_ADDR_MASK" by (simp add: non_leaf_entry)
  have p: "pointer l ?e" by (simp add: pointer_def non_leaf_entry)
  have ch: "changed_at (Memory s) (Memory s') (PageMapL4Table s) l v"
    using changed_write [OF W(3) l3(1) t, of "Memory s" ?e] by (simp add: r')
  have here: "Memory s' (t + 8 * index l v) = ?e" by (simp add: r')
  have root: "PageMapL4Table s' = PageMapL4Table s" by (simp add: r')
  have nodes: "nodes_of s' l' v' = nodes_of s l' v'" if "l' \<le> 3" for l' v'
    using rewrite_entry [OF ch l3(1) t e _ _ that] here p a root by simp
  have other: "slots_of s' l' v' = slots_of s l' v'" if "l' \<le> 3" "other_slot l v l' v'" for l' v'
    using changed_slot [OF ch that] nodes [OF that(1)] root by simp
  have this_slot: "slots_of s' l v' = Some ?e" if "same_path (Suc l) v v'" for v'
    using changed_here(2) [OF ch l3(1) t that] here root by simp
  have "tree_ok (Memory s') (PageMapL4Table s)"
  proof (rule tree_ok_same_nodes [OF W(3)])
    fix l' v' e0 assume x: "l' \<le> 2" "slot (Memory s') (PageMapL4Table s) l' v' = Some e0" "entry_present e0" "entry_size e0" "l' \<noteq> 0"
    show "e0 AND PHYS_PAGE_ADDR_MASK < 0x100000000"
    proof (cases "other_slot l v l' v'")
      case True
      then show ?thesis using other [OF _ True] x root tree_okD(3) [OF W(3)] by simp
    next
      case False
      then show ?thesis using this_slot [of v'] x root by (auto simp: other_slot_def non_leaf_entry)
    qed
  qed (use nodes root in simp)
  then have wf': "vm_wf s'" using vm_wf_same_nodes [OF wf _ root nodes] root by (simp add: r')
  have "mapping_of s' v' = mapping_of s v'" for v'
  proof (cases "same_path (Suc l) v v'")
    case False
    then have "slots_of s' l' v' = slots_of s l' v'" if "l' \<le> 3" for l' using other [OF that] by (simp add: other_slot_def)
    then show ?thesis unfolding root by (intro translate_cong) simp
  next
    case True
    have o: "slots_of s' l' v' = slots_of s l' v'" if "l' \<le> 3" "l' \<noteq> l" for l' using other [OF that(1)] that(2) by (simp add: other_slot_def)
    have b: "slots_of s l v' = Some e" using e(1) slot_same_path [OF True] by simp
    show ?thesis unfolding root
      by (rule translate_rewrite [OF l o [unfolded root] b e(2) this_slot [OF True, unfolded root] p])
  qed
  then show ?thesis using wf' root this_slot [of v] p other by (simp add: level_done_def r' non_leaf_entry other_slot_def) (use l in auto)
qed

lemma level_done_trans: "level_done s l v u e s1 \<Longrightarrow> level_done s1 l v u e' s2 \<Longrightarrow> level_done s l v u e' s2"
  unfolding level_done_def by metis

lemma MapPML4_spec:
  assumes wf: "vm_wf s" and r: "MapPML4 v u s = (r, s')"
  shows "case r of None \<Rightarrow> s' = s | Some e \<Rightarrow> level_done s 0 v u e s'"
proof -
  let ?t = "PageMapL4Table s"
  have t: "nodes_of s 0 v = Some ?t" by simp
  show ?thesis
  proof (cases "entry_present (table_load s ?t (index 0 v))")
    case False
    then have "EnsureTable PAGE_TABLE_MUTATION_WRITE_PML4 v ?t (index 0 v) u s = (r, s')"
      using r by (simp add: MapPML4_def index_names Let_def)
    from EnsureTable_spec [OF wf _ t False this] show ?thesis by (auto split: option.splits)
  next
    case True
    obtain e' s1 where ru: "RaiseUser ?t (index 0 v) u (table_load s ?t (index 0 v)) s = (e', s1)" by fastforce
    have "level_done s 0 v u e' s1"
      by (rule RaiseUser_spec [OF wf _ t load_slot [OF t] _ ru]) (use True in \<open>simp_all add: pointer_def\<close>)
    then show ?thesis using r True ru by (auto simp: MapPML4_def index_names Let_def)
  qed
qed

lemma Split_spec:
  assumes wf: "vm_wf s" and l: "l = 1 \<or> l = 2" and t: "nodes_of s l v = Some t" and e: "slots_of s l v = Some e"
    and big: "entry_present e" "entry_size e"
    and r: "SplitLargePage (if l = 1 then SplitPDEntry else SplitPTEntry) t (index l v) u e s = (r, s')"
  shows "case r of None \<Rightarrow> s' = s | Some e' \<Rightarrow> level_done s l v u e' s'"
proof (cases "AllocateTable s")
  case (Pair x s1)
  note al = AllocateTable_spec [OF wf Pair]
  show ?thesis
  proof (cases x)
    case None
    then show ?thesis using al Pair r by (auto simp: SplitLargePage_def)
  next
    case (Some a)
    let ?F = "if l = 1 then SplitPDEntry e else SplitPTEntry e"
    let ?e = "BuildNonLeafEntryValue a 0 (entry_user_access e \<or> u)" and ?s1 = "FillTable a ?F s1"
    have fr: "fresh_table s a ?F ?s1" using al Some FillTable_fresh by simp
    then have a: "?e AND PHYS_PAGE_ADDR_MASK = a" by (simp add: non_leaf_entry table_ok_masks fresh_table_def)
    have n: "\<not> pointer l e" "pointer l ?e" "l \<le> 2" using big l by (auto simp: pointer_def non_leaf_entry)
    have s': "s' = table_store t (index l v) ?e ?s1" "r = Some ?e"
      using Pair Some r by (auto simp: SplitLargePage_def Let_def split: if_splits)
    note G = graft_mapping [OF wf n(3) t e n(1) fr n(2) a non_leaf_entry(3)]
    have "vm_wf s'" "\<And>v'. mapping_of s' v' = mapping_of s v'" "slots_of s' l v = Some ?e" "\<And>k. k < l \<Longrightarrow> slots_of s' k v = slots_of s k v"
      unfolding s' using G big by auto
    then show ?thesis using n(2) fresh_table_fields [OF fr] by (simp add: s' level_done_def non_leaf_entry)
  qed
qed

lemma MapLevel_spec:
  assumes wf: "vm_wf s" and l: "l = 1 \<or> l = 2" and t: "nodes_of s l v = Some t"
    and r: "MapLevel ev (if l = 1 then SplitPDEntry else SplitPTEntry) v t (index l v) u s = (r, s')"
  shows "case r of None \<Rightarrow> vm_wf s' \<and> PageMapL4Table s' = PageMapL4Table s \<and> (\<forall>v'. mapping_of s' v' = mapping_of s v')
    | Some e \<Rightarrow> level_done s l v u e s'"
proof -
  have l2: "l \<le> 2" using l by auto
  let ?e = "table_load s t (index l v)"
  obtain x s1 where E: "EnsureTable ev v t (index l v) u s = (x, s1)" by fastforce
  show ?thesis
  proof (cases "entry_present ?e")
    case False
    note S = EnsureTable_spec [OF wf l2 t False E]
    show ?thesis
    proof (cases x)
      case None
      then show ?thesis using S r E wf by (auto simp: MapLevel_def)
    next
      case (Some e)
      then have d: "level_done s l v u e s1" "\<not> entry_size e" using S by simp_all
      then have n: "nodes_of s1 l v = Some t" using t
        by (cases l) (auto simp: level_done_def node_slot)
      obtain e' s2 where R: "RaiseUser t (index l v) u e s1 = (e', s2)" by fastforce
      have "level_done s1 l v u e' s2" by (rule RaiseUser_spec [OF level_doneD(1) [OF d(1)] l2 n level_doneD(4,5) [OF d(1)] R])
      with level_done_trans [OF d(1) this] show ?thesis using r E Some d(2) R by (auto simp: MapLevel_def)
    qed
  next
    case True
    then have E': "x = Some ?e" "s1 = s" using E by (auto simp: EnsureTable_def Let_def)
    show ?thesis
    proof (cases "entry_size ?e")
      case big: True
      then have "SplitLargePage (if l = 1 then SplitPDEntry else SplitPTEntry) t (index l v) u ?e s = (r, s')"
        using r E E' True by (simp add: MapLevel_def)
      from Split_spec [OF wf l t load_slot [OF t] True big this] show ?thesis using wf by (auto split: option.splits)
    next
      case False
      obtain e' s2 where R: "RaiseUser t (index l v) u ?e s = (e', s2)" by fastforce
      have "level_done s l v u e' s2" by (rule RaiseUser_spec [OF wf l2 t load_slot [OF t] _ R]) (use True False in \<open>simp add: pointer_def\<close>)
      then show ?thesis using r E E' False R by (auto simp: MapLevel_def)
    qed
  qed
qed

section \<open>The leaf\<close>

lemma write_leaf:
  assumes wf: "vm_wf s" and t: "nodes_of s 3 v = Some t"
    and s': "PagePMM s' = PagePMM s" "PageMapL4Table s' = PageMapL4Table s" "Memory s' = (Memory s)(t + 8 * index 3 v := e)"
  shows "vm_wf s'" and "\<And>l' v'. l' \<le> 3 \<Longrightarrow> other_slot 3 v l' v' \<Longrightarrow> slots_of s' l' v' = slots_of s l' v'"
    and "\<And>v'. same_path 4 v v' \<Longrightarrow> slots_of s' 3 v' = Some e"
    and "mapping_of s' v' = (if same_path 4 v v' then if entry_present e then Some (large_page 0xFFF e v') else None else mapping_of s v')"
proof -
  note W = vm_wfD [OF wf]
  have ch: "changed_at (Memory s) (Memory s') (PageMapL4Table s) 3 v"
    unfolding s'(3) by (rule changed_write [OF W(3) _ t]) simp_all
  have nodes: "nodes_of s' l' v' = nodes_of s l' v'" if "l' \<le> 3" for l' v'
    using changed_frame [OF ch that] that s'(2) by simp
  show other: "slots_of s' l' v' = slots_of s l' v'" if "l' \<le> 3" "other_slot 3 v l' v'" for l' v'
    using changed_slot [OF ch that] nodes [OF that(1)] s'(2) by simp
  show leaf: "slots_of s' 3 v' = Some e" if "same_path 4 v v'" for v'
    using changed_here(2) [OF ch _ t, of v'] that s'(2,3) by simp
  have "tree_ok (Memory s') (PageMapL4Table s')"
    unfolding s'(2)
  proof (rule tree_ok_same_nodes [OF W(3)])
    fix l' v' e0 assume x: "l' \<le> 2" "slot (Memory s') (PageMapL4Table s) l' v' = Some e0" "entry_present e0" "entry_size e0" "l' \<noteq> 0"
    then have "slots_of s l' v' = Some e0" using other [of l' v'] s'(2) by (simp add: other_slot_def)
    then show "e0 AND PHYS_PAGE_ADDR_MASK < 0x100000000" using tree_okD(3) [OF W(3)] x by blast
  qed (use nodes s'(2) in simp)
  then show "vm_wf s'" using vm_wf_same_nodes [OF wf s'(1,2) nodes] by simp
  show "mapping_of s' v' = (if same_path 4 v v' then if entry_present e then Some (large_page 0xFFF e v') else None else mapping_of s v')"
  proof (cases "same_path 4 v v'")
    case True
    then show ?thesis using translate_leaf [OF leaf [OF True]] by simp
  next
    case False
    then have "slots_of s' l' v' = slots_of s l' v'" if "l' \<le> 3" for l' using other [OF that] by (simp add: other_slot_def)
    then have "mapping_of s' v' = mapping_of s v'" unfolding s'(2) by (intro translate_cong) simp
    with False show ?thesis by simp
  qed
qed

lemma leaf_page:
  "large_page 0xFFF (BuildLeafEntryValue P f u w) v = (P AND VALID_PHYSICAL_ADDR_MASK, u, w)"
proof -
  have "P AND VALID_PHYSICAL_ADDR_MASK AND NOT 0xFFF = P AND VALID_PHYSICAL_ADDR_MASK"
    by (simp add: VALID_PHYSICAL_ADDR_MASK_def and.assoc)
  then show ?thesis by (simp add: large_page_def leaf_entry and.assoc [symmetric])
qed

lemma WriteLeaf_fields [simp]:
  "PagePMM (WriteLeaf P v e u w s) = PagePMM s" "PageMapL4Table (WriteLeaf P v e u w s) = PageMapL4Table s"
  "Memory (WriteLeaf P v e u w s) = (Memory s)((e AND PHYS_PAGE_ADDR_MASK) + 8 * index 3 v := BuildLeafEntryValue P 0 u w)"
  by (simp_all add: WriteLeaf_def Let_def index_names)

definition same_mapping :: "vmm \<Rightarrow> vmm \<Rightarrow> bool" where
  "same_mapping s s' \<longleftrightarrow> vm_wf s' \<and> PageMapL4Table s' = PageMapL4Table s \<and> (\<forall>v. mapping_of s' v = mapping_of s v)"

lemma same_mapping_trans: "same_mapping s s1 \<Longrightarrow> same_mapping s1 s2 \<Longrightarrow> same_mapping s s2"
  unfolding same_mapping_def by metis

lemma level_done_same: "level_done s l v u e s' \<Longrightarrow> same_mapping s s'"
  unfolding level_done_def same_mapping_def by blast

lemma MapPage_spec:
  assumes wf: "vm_wf s" and r: "MapPage P v u w s = (ok, s')"
  shows "if ok then vm_wf s' \<and> PageMapL4Table s' = PageMapL4Table s \<and>
       (\<forall>v'. mapping_of s' v' = (if same_path 4 v v' then Some (P AND VALID_PHYSICAL_ADDR_MASK, u, w) else mapping_of s v')) \<and>
       (u \<longrightarrow> (\<forall>k\<le>2. \<exists>e. slots_of s' k v = Some e \<and> pointer k e \<and> entry_user_access e)) \<and>
       slots_of s' 3 v = Some (BuildLeafEntryValue P 0 u w)
     else same_mapping s s'"
proof -
  obtain x0 s1 where m0: "MapPML4 v u s = (x0, s1)" by fastforce
  note S0 = MapPML4_spec [OF wf m0]
  show ?thesis
  proof (cases x0)
    case None
    with S0 m0 r wf show ?thesis by (auto simp: MapPage_def same_mapping_def)
  next
    case (Some e0)
    then have d0: "level_done s 0 v u e0 s1" using S0 by simp
    have n1: "nodes_of s1 1 v = Some (e0 AND PHYS_PAGE_ADDR_MASK)" using level_done_node [OF d0] by simp
    obtain x1 s2 where m1: "MapLevel PAGE_TABLE_MUTATION_WRITE_PDPT SplitPDEntry v (e0 AND PHYS_PAGE_ADDR_MASK) (index 1 v) u s1 = (x1, s2)"
      by fastforce
    note S1 = MapLevel_spec [OF level_doneD(1) [OF d0] _ n1, of PAGE_TABLE_MUTATION_WRITE_PDPT u x1 s2]
    show ?thesis
    proof (cases x1)
      case None
      then have "same_mapping s1 s2" using S1 m1 unfolding same_mapping_def by simp metis
      with same_mapping_trans [OF level_done_same [OF d0] this] None m0 m1 Some r show ?thesis by (simp add: MapPage_def index_names)
    next
      case e1: (Some e1)
      then have d1: "level_done s1 1 v u e1 s2" using S1 m1 by simp
      have n2: "nodes_of s2 2 v = Some (e1 AND PHYS_PAGE_ADDR_MASK)" using level_done_node [OF d1] by (simp add: numeral_2_eq_2)
      obtain x2 s3 where m2: "MapLevel PAGE_TABLE_MUTATION_WRITE_PD SplitPTEntry v (e1 AND PHYS_PAGE_ADDR_MASK) (index 2 v) u s2 = (x2, s3)"
        by fastforce
      note S2 = MapLevel_spec [OF level_doneD(1) [OF d1] _ n2, of PAGE_TABLE_MUTATION_WRITE_PD u x2 s3]
      have m02: "same_mapping s s2" by (rule same_mapping_trans [OF level_done_same [OF d0] level_done_same [OF d1]])
      show ?thesis
      proof (cases x2)
        case None
        then have "same_mapping s2 s3" using S2 m2 unfolding same_mapping_def by simp metis
        with same_mapping_trans [OF m02 this] None m0 m1 m2 Some e1 r show ?thesis by (simp add: MapPage_def index_names)
      next
        case e2: (Some e2)
        then have d2: "level_done s2 2 v u e2 s3" using S2 m2 by simp
        have n3: "nodes_of s3 3 v = Some (e2 AND PHYS_PAGE_ADDR_MASK)" using level_done_node [OF d2] by (simp add: numeral_3_eq_3 numeral_2_eq_2)
        have s': "ok" "s' = WriteLeaf P v e2 u w s3" using r m0 m1 m2 Some e1 e2 by (simp_all add: MapPage_def index_names)
        have m03: "same_mapping s s3" by (rule same_mapping_trans [OF m02 level_done_same [OF d2]])
        note L = write_leaf [OF level_doneD(1) [OF d2] n3, of s' "BuildLeafEntryValue P 0 u w"]
        have f: "PagePMM s' = PagePMM s3" "PageMapL4Table s' = PageMapL4Table s3"
          "Memory s' = (Memory s3)((e2 AND PHYS_PAGE_ADDR_MASK) + 8 * index 3 v := BuildLeafEntryValue P 0 u w)" by (simp_all add: s')
        note L = L [OF f]
        have "\<exists>e. slots_of s' k v = Some e \<and> pointer k e \<and> entry_user_access e" if uu: "u" and k2: "k \<le> 2" for k
        proof -
          have same: "slots_of s' k v = slots_of s3 k v" using L(2) [of k v] k2 by (simp add: other_slot_def)
          consider "k = 0" | "k = 1" | "k = 2" using k2 by linarith
          then show ?thesis
          proof cases
            case 1
            have "slots_of s3 0 v = slots_of s2 0 v" "slots_of s2 0 v = slots_of s1 0 v" using level_doneD(7) [OF d2, of 0] level_doneD(7) [OF d1, of 0] by simp_all
            with 1 same level_doneD(4,5,6) [OF d0] uu show ?thesis by simp
          next
            case 2
            have "slots_of s3 1 v = slots_of s2 1 v" using level_doneD(7) [OF d2, of 1] by simp
            with 2 same level_doneD(4,5,6) [OF d1] uu show ?thesis by simp
          next
            case 3
            with same level_doneD(4,5,6) [OF d2] uu show ?thesis by simp
          qed
        qed
        moreover have "mapping_of s' v' = (if same_path 4 v v' then Some (P AND VALID_PHYSICAL_ADDR_MASK, u, w) else mapping_of s v')" for v'
        proof -
          have "mapping_of s3 v' = mapping_of s v'" using m03 unfolding same_mapping_def by blast
          then show ?thesis using L(4) [of v'] by (simp add: leaf_page leaf_entry)
        qed
        moreover have "PageMapL4Table s' = PageMapL4Table s" using m03 f(2) by (simp add: same_mapping_def)
        ultimately show ?thesis using s'(1) L(1) L(3) [of v] by simp
      qed
    qed
  qed
qed

section \<open>Pages\<close>

text \<open>The number of the page an address lies in, as the tables see it: its bits 12 to 47.\<close>

definition page_of :: "u64 \<Rightarrow> u64" where
  "page_of v = v AND 0x0000FFFFFFFFF000"

lemma page_mask: "(0x0000FFFFFFFFF000 :: u64) = mask 48 AND NOT (mask 12)"
  by (simp add: mask_eq_exp_minus_1)

lemma bit_page_of: "bit (page_of v) n \<longleftrightarrow> bit v n \<and> 12 \<le> n \<and> n < 48"
  unfolding page_of_def page_mask by (auto simp: bit_simps dest: bit_imp_le_length)

lemma same_path_page: "same_path 4 v v' \<longleftrightarrow> page_of v = page_of v'"
proof
  assume p: "page_of v = page_of v'"
  have "index k v = index k v'" if "k < 4" for k
  proof (rule bit_eqI)
    fix n
    have "bit (index k v) n \<longleftrightarrow> bit (page_of v) (39 - 9 * k + n) \<and> n < 9" for v
      using that unfolding index_def low_masks bit_page_of by (auto simp: bit_simps)
    then show "bit (index k v) n = bit (index k v') n" using p by simp
  qed
  then show "same_path 4 v v'" by (simp add: same_path_def)
next
  assume s: "same_path 4 v v'"
  show "page_of v = page_of v'"
  proof (rule bit_eqI)
    fix n
    show "bit (page_of v) n = bit (page_of v') n"
    proof (cases "12 \<le> n \<and> n < 48")
      case True
      define k where "k = (47 - n) div 9"
      have k: "k < 4" "39 - 9 * k \<le> n" "n - (39 - 9 * k) < 9" using True by (auto simp: k_def)
      have "bit (index k v) (n - (39 - 9 * k)) = bit (index k v') (n - (39 - 9 * k))" using s k(1) by (simp add: same_path_def)
      moreover have "bit (index k v) (n - (39 - 9 * k)) = bit v n" for v
        using k unfolding index_def low_masks by (auto simp: bit_simps dest: bit_imp_le_length)
      ultimately show ?thesis by (simp add: bit_page_of)
    qed (auto simp: bit_page_of)
  qed
qed

lemma page_of_aligned: "aligned v \<Longrightarrow> v < 0x0001000000000000 \<Longrightarrow> page_of v = v"
proof (rule bit_eqI)
  fix n assume a: "aligned v" "v < 0x0001000000000000"
  have "\<not> bit v n" if "48 \<le> n"
  proof -
    have "unat v < 2 ^ 48" using a(2) by (simp add: word_less_nat_alt)
    also have "(2 :: nat) ^ 48 \<le> 2 ^ n" using that by (rule power_increasing) simp
    finally have "\<not> bit (unat v) n" by (simp add: bit_iff_odd)
    then show ?thesis by (metis bit_unsigned_iff possible_bit_nat)
  qed
  then show "bit (page_of v) n = bit v n" using aligned_bitD [OF _ a(1)] by (auto simp: bit_page_of not_less [symmetric])
qed

section \<open>Protecting and unmapping\<close>

lemma FindPageTable_node: "FindPageTable v s = nodes_of s 3 v"
  by (simp add: FindPageTable_def index_names table_load_def Let_def numeral_3_eq_3 numeral_2_eq_2 node.simps pointer_def)

lemma no_page_table:
  assumes "nodes_of s 3 v = None"
  shows "mapping_of s v = None \<or> (\<exists>l e. (l = 1 \<or> l = 2) \<and> slots_of s l v = Some e \<and> entry_present e \<and> entry_size e)"
proof -
  have "slots_of s 3 v = None" using assms by (simp add: slot_def)
  then show ?thesis by (cases "slots_of s 1 v"; cases "slots_of s 2 v") (auto simp: translate_def)
qed

lemma UnmapPage_spec:
  assumes wf: "vm_wf s" and r: "UnmapPage v s = (ok, s')"
  shows "vm_wf s'" "PageMapL4Table s' = PageMapL4Table s" "ok \<longleftrightarrow> nodes_of s 3 v \<noteq> None"
    and "mapping_of s' v' = (if ok \<and> same_path 4 v v' then None else mapping_of s v')" and "\<not> ok \<Longrightarrow> s' = s"
proof -
  have z: "\<not> entry_present 0" by (simp add: entry_present_def)
  show ok: "ok \<longleftrightarrow> nodes_of s 3 v \<noteq> None" "\<not> ok \<Longrightarrow> s' = s" using r by (auto simp: UnmapPage_def FindPageTable_node split: option.splits)
  have "vm_wf s' \<and> PageMapL4Table s' = PageMapL4Table s \<and> mapping_of s' v' = (if ok \<and> same_path 4 v v' then None else mapping_of s v')"
  proof (cases "nodes_of s 3 v")
    case None
    with ok wf show ?thesis by simp
  next
    case (Some t)
    then have s': "s' = table_store t (index 3 v) 0 s" using r by (simp add: UnmapPage_def FindPageTable_node index_names)
    have f: "PagePMM s' = PagePMM s" "PageMapL4Table s' = PageMapL4Table s" "Memory s' = (Memory s)(t + 8 * index 3 v := 0)" by (simp_all add: s')
    note L = write_leaf [OF wf Some f]
    show ?thesis using L(1) L(4) [of v'] ok Some z f(2) by simp
  qed
  then show "vm_wf s'" "PageMapL4Table s' = PageMapL4Table s" "mapping_of s' v' = (if ok \<and> same_path 4 v v' then None else mapping_of s v')" by blast+
qed


section \<open>The check of user pointers\<close>

lemma normalize_table: "table_ok t \<Longrightarrow> NormalizeTablePhysicalAddress t = t \<and> t \<noteq> 0"
proof -
  assume t: "table_ok t"
  then have s: "t < 0x100000000" by (auto simp: table_ok_def elim: order_less_trans)
  have "t AND 0xFFFF000000000000 = t AND VALID_PHYSICAL_ADDR_MASK AND 0xFFFF000000000000"
    using table_ok_masks(1) [OF t] by (simp add: and.assoc [symmetric])
  then have "t AND 0xFFFF000000000000 = 0" by (simp add: VALID_PHYSICAL_ADDR_MASK_def)
  with t show ?thesis
    by (simp add: table_ok_def aligned_def NormalizeTablePhysicalAddress_def IsValidTablePhysicalAddress_def PAGE_SIZE_def)
qed

lemma normalize_mapped: "P AND VALID_PHYSICAL_ADDR_MASK \<noteq> 0 \<Longrightarrow>
    NormalizeMappedPhysicalAddress (P AND VALID_PHYSICAL_ADDR_MASK) = P AND VALID_PHYSICAL_ADDR_MASK"
  using valid_small [of P]
  by (simp add: NormalizeMappedPhysicalAddress_def IsValidMappedPhysicalAddress_def PAGE_SIZE_def VALID_PHYSICAL_ADDR_MASK_def and.assoc)

text \<open>The walk of the user memory checks, level by level.\<close>

lemma user_walk:
  assumes ok: "tree_ok M r" and m: "PhysicalMemory m = M"
    and path: "\<And>k. k \<le> 2 \<Longrightarrow> \<exists>e. slot M r k v = Some e \<and> pointer k e \<and> (u \<longrightarrow> entry_user_access e)"
  obtains e0 e1 e2 t where "TableEntry m r (pml4_index v) = e0" "entry_present e0" "u \<Longrightarrow> entry_user_access e0"
    "NormalizeTablePhysicalAddress r = r" "r \<noteq> 0"
    "NormalizeTablePhysicalAddress (e0 AND PHYS_PAGE_ADDR_MASK) = e0 AND PHYS_PAGE_ADDR_MASK" "e0 AND PHYS_PAGE_ADDR_MASK \<noteq> 0"
    "TableEntry m (e0 AND PHYS_PAGE_ADDR_MASK) (pdpt_index v) = e1" "entry_present e1" "u \<Longrightarrow> entry_user_access e1" "\<not> entry_size e1"
    "NormalizeTablePhysicalAddress (e1 AND PHYS_PAGE_ADDR_MASK) = e1 AND PHYS_PAGE_ADDR_MASK" "e1 AND PHYS_PAGE_ADDR_MASK \<noteq> 0"
    "TableEntry m (e1 AND PHYS_PAGE_ADDR_MASK) (pd_index v) = e2" "entry_present e2" "u \<Longrightarrow> entry_user_access e2" "\<not> entry_size e2"
    "NormalizeTablePhysicalAddress (e2 AND PHYS_PAGE_ADDR_MASK) = e2 AND PHYS_PAGE_ADDR_MASK" "e2 AND PHYS_PAGE_ADDR_MASK \<noteq> 0"
    "node M r 3 v = Some (e2 AND PHYS_PAGE_ADDR_MASK)"
proof -
  obtain e0 e1 e2 where
    e0: "slot M r 0 v = Some e0" "pointer 0 e0" "u \<longrightarrow> entry_user_access e0" and
    e1: "slot M r 1 v = Some e1" "pointer 1 e1" "u \<longrightarrow> entry_user_access e1" and
    e2: "slot M r 2 v = Some e2" "pointer 2 e2" "u \<longrightarrow> entry_user_access e2"
    using path [of 0] path [of 1] path [of 2] by auto
  have n1: "node M r 1 v = Some (e0 AND PHYS_PAGE_ADDR_MASK)" using e0 by (simp add: node_slot)
  have n2: "node M r 2 v = Some (e1 AND PHYS_PAGE_ADDR_MASK)" using e1 by (simp add: numeral_2_eq_2 node_slot)
  have n3: "node M r 3 v = Some (e2 AND PHYS_PAGE_ADDR_MASK)" using e2 by (simp add: numeral_3_eq_3 numeral_2_eq_2 node_slot)
  have l: "TableEntry m r (pml4_index v) = e0" "TableEntry m (e0 AND PHYS_PAGE_ADDR_MASK) (pdpt_index v) = e1"
    "TableEntry m (e1 AND PHYS_PAGE_ADDR_MASK) (pd_index v) = e2"
    using e0(1) e1(1) e2(1) n1 n2 by (simp_all add: TableEntry_def m slot_def index_names)
  note ok = tree_okD(1) [OF ok]
  have T: "table_ok r" "table_ok (e0 AND PHYS_PAGE_ADDR_MASK)" "table_ok (e1 AND PHYS_PAGE_ADDR_MASK)" "table_ok (e2 AND PHYS_PAGE_ADDR_MASK)"
    using ok [of 0 v r] ok [OF _ n1] ok [OF _ n2] ok [OF _ n3] by simp_all
  show thesis
    using that l e0(2,3) e1(2,3) e2(2,3) n3 normalize_table [OF T(1)] normalize_table [OF T(2)] normalize_table [OF T(3)]
      normalize_table [OF T(4)] by (simp add: pointer_def)
qed

lemma mapped_is_accessible:
  assumes wf: "vm_wf s" and r: "MapPage P v True w s = (True, s')" and P: "P AND VALID_PHYSICAL_ADDR_MASK \<noteq> 0"
    and m: "PhysicalMemory m = Memory s'"
  shows "IsUserAccessiblePageMapped m (PageMapL4Table s') v"
proof -
  note S = MapPage_spec [OF wf r, simplified]
  have wf': "vm_wf s'" using S by blast
  have "\<exists>e. slots_of s' k v = Some e \<and> pointer k e \<and> entry_user_access e" if "k \<le> 2" for k using S that by blast
  from user_walk [OF vm_wfD(3) [OF wf'] m, of v True] this obtain e0 e1 e2 where W:
    "TableEntry m (PageMapL4Table s') (pml4_index v) = e0" "entry_present e0" "entry_user_access e0"
    "NormalizeTablePhysicalAddress (PageMapL4Table s') = PageMapL4Table s'" "PageMapL4Table s' \<noteq> 0"
    "NormalizeTablePhysicalAddress (e0 AND PHYS_PAGE_ADDR_MASK) = e0 AND PHYS_PAGE_ADDR_MASK" "e0 AND PHYS_PAGE_ADDR_MASK \<noteq> 0"
    "TableEntry m (e0 AND PHYS_PAGE_ADDR_MASK) (pdpt_index v) = e1" "entry_present e1" "entry_user_access e1" "\<not> entry_size e1"
    "NormalizeTablePhysicalAddress (e1 AND PHYS_PAGE_ADDR_MASK) = e1 AND PHYS_PAGE_ADDR_MASK" "e1 AND PHYS_PAGE_ADDR_MASK \<noteq> 0"
    "TableEntry m (e1 AND PHYS_PAGE_ADDR_MASK) (pd_index v) = e2" "entry_present e2" "entry_user_access e2" "\<not> entry_size e2"
    "NormalizeTablePhysicalAddress (e2 AND PHYS_PAGE_ADDR_MASK) = e2 AND PHYS_PAGE_ADDR_MASK" "e2 AND PHYS_PAGE_ADDR_MASK \<noteq> 0"
    "nodes_of s' 3 v = Some (e2 AND PHYS_PAGE_ADDR_MASK)" by (metis (no_types, lifting))
  have leaf: "TableEntry m (e2 AND PHYS_PAGE_ADDR_MASK) (pt_index v) = BuildLeafEntryValue P 0 True w"
    using S W(20) by (simp add: TableEntry_def m slot_def index_names)
  have "P AND VALID_PHYSICAL_ADDR_MASK AND (PAGE_SIZE - 1) = 0" by (simp add: PAGE_SIZE_def VALID_PHYSICAL_ADDR_MASK_def and.assoc)
  then show ?thesis
    using W leaf normalize_mapped [OF P] P
    unfolding IsUserAccessiblePageMapped_def Let_def by (simp add: leaf_entry and.assoc)
qed

lemma unmapped_not_accessible:
  assumes wf: "vm_wf s" and r: "UnmapPage v s = (True, s')" and m: "PhysicalMemory m = Memory s'"
  shows "\<not> IsUserAccessiblePageMapped m (PageMapL4Table s') v"
proof -
  note U = UnmapPage_spec [OF wf r]
  obtain t where t: "nodes_of s 3 v = Some t" using U(3) by auto
  then have s': "s' = table_store t (index 3 v) 0 s" using r by (simp add: UnmapPage_def FindPageTable_node index_names)
  have L: "slots_of s' k v = slots_of s k v" if "k \<le> 2" for k
    using write_leaf(2) [OF wf t, of s' 0 k v] that by (simp add: s' other_slot_def)
  have z: "slots_of s' 3 v = Some 0" using write_leaf(3) [OF wf t, of s' 0 v] by (simp add: s')
  then obtain w where w: "nodes_of s' 3 v = Some w" by (auto simp: slot_def)
  have path: "\<exists>e. slots_of s' k v = Some e \<and> pointer k e \<and> (False \<longrightarrow> entry_user_access e)" if "k \<le> 2" for k
    using slot_above [OF z] that by auto
  from user_walk [OF vm_wfD(3) [OF U(1)] m, of v False] path obtain e0 e1 e2 where W:
    "TableEntry m (PageMapL4Table s') (pml4_index v) = e0"
    "NormalizeTablePhysicalAddress (PageMapL4Table s') = PageMapL4Table s'"
    "NormalizeTablePhysicalAddress (e0 AND PHYS_PAGE_ADDR_MASK) = e0 AND PHYS_PAGE_ADDR_MASK"
    "TableEntry m (e0 AND PHYS_PAGE_ADDR_MASK) (pdpt_index v) = e1" "\<not> entry_size e1"
    "NormalizeTablePhysicalAddress (e1 AND PHYS_PAGE_ADDR_MASK) = e1 AND PHYS_PAGE_ADDR_MASK"
    "TableEntry m (e1 AND PHYS_PAGE_ADDR_MASK) (pd_index v) = e2" "\<not> entry_size e2"
    "NormalizeTablePhysicalAddress (e2 AND PHYS_PAGE_ADDR_MASK) = e2 AND PHYS_PAGE_ADDR_MASK"
    "nodes_of s' 3 v = Some (e2 AND PHYS_PAGE_ADDR_MASK)" by (metis (no_types, lifting))
  have "TableEntry m (e2 AND PHYS_PAGE_ADDR_MASK) (pt_index v) = 0"
    using z W(10) by (simp add: TableEntry_def m slot_def index_names)
  moreover have "\<not> entry_present 0" by (simp add: entry_present_def)
  ultimately show ?thesis using W unfolding IsUserAccessiblePageMapped_def Let_def by simp
qed

section \<open>Mapping a range for a process\<close>

definition in_pages :: "u64 \<Rightarrow> nat \<Rightarrow> nat \<Rightarrow> u64 \<Rightarrow> bool" where
  "in_pages V i n v \<longleftrightarrow> unat V + i * 4096 \<le> unat (page_of v) \<and> unat (page_of v) < unat V + (i + n) * 4096"

lemma aligned_unat: "aligned v \<longleftrightarrow> unat v mod 4096 = 0"
proof -
  have "aligned v \<longleftrightarrow> take_bit 12 v = 0" by (simp add: aligned_def mask_words take_bit_eq_mask)
  also have "\<dots> \<longleftrightarrow> unat (take_bit 12 v) = 0" by (simp add: unat_eq_0)
  also have "unat (take_bit 12 v) = unat v mod 4096" by (simp add: take_bit_eq_mod unat_mod)
  finally show ?thesis .
qed

lemma aligned_page_of: "aligned (page_of v)"
  by (simp add: aligned_def page_of_def and.assoc)

lemma nth_page:
  assumes V: "aligned V" and bound: "unat V + i * 4096 < 2 ^ 47"
  shows "unat (V + of_nat i * PAGE_SIZE) = unat V + i * 4096" "page_of (V + of_nat i * PAGE_SIZE) = V + of_nat i * PAGE_SIZE"
proof -
  have i: "i * 4096 < 2 ^ 47" using bound by linarith
  then have "unat (of_nat i * PAGE_SIZE :: u64) = i * 4096"
    by (simp add: PAGE_SIZE_def unat_word_ariths unat_of_nat)
  then show u: "unat (V + of_nat i * PAGE_SIZE) = unat V + i * 4096" using bound by (simp add: unat_word_ariths)
  have "unat (V + of_nat i * PAGE_SIZE) mod 4096 = 0" using V unfolding u aligned_unat by (simp add: mod_add_eq [symmetric])
  moreover have "V + of_nat i * PAGE_SIZE < 0x0001000000000000" using u bound by (simp add: word_less_nat_alt)
  ultimately show "page_of (V + of_nat i * PAGE_SIZE) = V + of_nat i * PAGE_SIZE" by (intro page_of_aligned) (simp_all add: aligned_unat)
qed

lemma pages_step: "4096 * x + i * 4096 \<le> 4096 * y \<and> 4096 * y < 4096 * x + (i + 1) * 4096 \<longleftrightarrow> y = x + (i::nat)"
proof -
  have "4096 * x + i * 4096 = 4096 * (x + i)" "4096 * x + (i + 1) * 4096 = 4096 * (x + i + 1)" by simp_all
  then show ?thesis unfolding mult_le_cancel1 mult_less_cancel1 by auto
qed

lemma in_pages_first:
  assumes "aligned V" and "unat V + i * 4096 < 2 ^ 47"
  shows "in_pages V i (Suc 0) v \<longleftrightarrow> page_of v = V + of_nat i * PAGE_SIZE"
proof -
  have m: "unat V mod 4096 = 0" "unat (page_of v) mod 4096 = 0" using assms(1) aligned_page_of by (simp_all add: aligned_unat)
  then obtain x y where x: "unat V = 4096 * x" "unat (page_of v) = 4096 * y" by (auto simp: mod_eq_0_iff_dvd elim!: dvdE)
  then have "in_pages V i (Suc 0) v \<longleftrightarrow> 4096 * x + i * 4096 \<le> 4096 * y \<and> 4096 * y < 4096 * x + (i + 1) * 4096"
    by (simp add: in_pages_def)
  also have "\<dots> \<longleftrightarrow> y = x + i" by (rule pages_step)
  also have "\<dots> \<longleftrightarrow> unat (page_of v) = unat V + i * 4096" unfolding x by auto
  also have "\<dots> \<longleftrightarrow> page_of v = V + of_nat i * PAGE_SIZE" using nth_page(1) [OF assms] by (simp add: word_unat_eq_iff)
  finally show ?thesis .
qed

lemma in_pages_Suc: "in_pages V i (Suc n) v \<longleftrightarrow> in_pages V i (Suc 0) v \<or> in_pages V (Suc i) n v"
  by (auto simp: in_pages_def)

definition range_mapping :: "vmm \<Rightarrow> u64 \<Rightarrow> u64 \<Rightarrow> (u64 \<Rightarrow> bool) \<Rightarrow> (u64 \<Rightarrow> bool) \<Rightarrow> u64 \<Rightarrow> (u64 \<times> bool \<times> bool) option" where
  "range_mapping s P V W R v =
     (if R v then Some ((P + (page_of v - V)) AND VALID_PHYSICAL_ADDR_MASK, True, W (page_of v)) else mapping_of s v)"

lemma MapPages_loop_spec:
  assumes "vm_wf s" and V: "aligned V" and "unat V + (i + n) * 4096 \<le> 2 ^ 47" and "MapPages_loop n i P V W s = (ok, s')"
  shows "vm_wf s' \<and> PageMapL4Table s' = PageMapL4Table s \<and>
    (ok \<longrightarrow> (\<forall>v. mapping_of s' v = range_mapping s P V W (in_pages V i n) v)) \<and>
    (\<forall>v. \<not> in_pages V i n v \<longrightarrow> mapping_of s' v = mapping_of s v)"
  using assms(1,3,4)
proof (induction n arbitrary: i s)
  case 0
  have "\<not> in_pages V i 0 v" for v by (simp add: in_pages_def)
  then show ?case using 0 by (simp add: range_mapping_def)
next
  case (Suc n)
  let ?v = "V + of_nat i * PAGE_SIZE"
  have b: "unat V + i * 4096 < 2 ^ 47" using Suc.prems(2) by simp
  obtain ok1 s1 where m: "MapPage (P + of_nat i * PAGE_SIZE) ?v True (W ?v) s = (ok1, s1)" by fastforce
  note S = MapPage_spec [OF Suc.prems(1) m]
  have first: "same_path 4 ?v v \<longleftrightarrow> in_pages V i (Suc 0) v" for v
    unfolding same_path_page nth_page(2) [OF V b] in_pages_first [OF V b] by (rule eq_commute)
  show ?case
  proof (cases ok1)
    case False
    then have "ok = False" "s' = s1" using Suc.prems(3) m by (simp_all add: Let_def)
    moreover have "same_mapping s s1" using S False by simp
    ultimately show ?thesis unfolding same_mapping_def by blast
  next
    case True
    then have rest: "MapPages_loop n (Suc i) P V W s1 = (ok, s')" using Suc.prems(3) m by (simp add: Let_def)
    have s1: "vm_wf s1" "PageMapL4Table s1 = PageMapL4Table s" and
      map1: "\<And>v. mapping_of s1 v = (if in_pages V i (Suc 0) v then Some ((P + of_nat i * PAGE_SIZE) AND VALID_PHYSICAL_ADDR_MASK, True, W ?v) else mapping_of s v)"
      using S [unfolded first, simplified True if_True] by blast+
    have map1': "mapping_of s1 v = range_mapping s P V W (in_pages V i (Suc 0)) v" for v
      using map1 [of v] in_pages_first [OF V b] by (simp add: range_mapping_def)
    have "unat V + (Suc i + n) * 4096 \<le> 2 ^ 47" using Suc.prems(2) by simp
    note IH = Suc.IH [OF s1(1) this rest]
    have "mapping_of s' v = range_mapping s P V W (in_pages V i (Suc n)) v" if ok for v
    proof -
      have "mapping_of s' v = range_mapping s1 P V W (in_pages V (Suc i) n) v" using IH that by blast
      then show ?thesis using map1' [of v] in_pages_Suc [of V i n v] by (auto simp: range_mapping_def)
    qed
    moreover have "mapping_of s' v = mapping_of s v" if "\<not> in_pages V i (Suc n) v" for v
    proof -
      have "mapping_of s' v = mapping_of s1 v" using IH that in_pages_Suc by blast
      then show ?thesis using map1 [of v] that in_pages_Suc [of V i n v] by simp
    qed
    ultimately show ?thesis using IH s1(2) by metis
  qed
qed

section \<open>A fresh root\<close>

lemma empty_root:
  assumes t: "table_ok r" and z: "\<And>i. i < 512 \<Longrightarrow> M (r + 8 * i) = 0" and p: "pmm_inv p" "PhysicalAddressStart p mod 4096 = 0" "\<not> free_frame p r"
  shows "vm_wf (VirtualMemoryManager r p M)" and "mapping_of (VirtualMemoryManager r p M) v = None"
proof -
  let ?s = "VirtualMemoryManager r p M"
  have f: "Memory ?s = M" "PageMapL4Table ?s = r" "PagePMM ?s = p" by (simp_all add: VirtualMemoryManager_def)
  have z0: "\<not> pointer 0 0" by (simp add: pointer_def entry_present_def)
  have n: "node M r (Suc l) v = None" for l v
    by (induction l) (use z [OF index_less] z0 in \<open>simp_all add: node.simps\<close>)
  have n': "node M r l v = Some u \<longleftrightarrow> l = 0 \<and> u = r" for l v u using n by (cases l) auto
  have s: "slot M r (Suc l) v = None" for l v using n by (simp add: slot_def)
  have "tree_ok M r"
    unfolding tree_ok_def using t s by (auto simp: n' gr0_conv_Suc)
  then show "vm_wf ?s" using p by (auto simp: vm_wf_def f n')
  show "mapping_of ?s v = None" by (simp add: translate_def f s)
qed

section \<open>Runs of the manager\<close>

text \<open>
  The abstract state of a manager: what each address maps to. A successful operation changes it on the whole
  page of its address.
\<close>

definition page_update :: "u64 \<Rightarrow> 'a \<Rightarrow> (u64 \<Rightarrow> 'a) \<Rightarrow> u64 \<Rightarrow> 'a" where
  "page_update v x m = (\<lambda>v'. if page_of v = page_of v' then x else m v')"

definition protected_as :: "bool \<Rightarrow> bool \<Rightarrow> u64 \<times> bool \<times> bool \<Rightarrow> u64 \<times> bool \<times> bool" where
  "protected_as u w x = (fst x AND VALID_PHYSICAL_ADDR_MASK, u, w)"

inductive vm_step :: "vmm \<times> (u64 \<Rightarrow> (u64 \<times> bool \<times> bool) option) \<Rightarrow> vmm \<times> (u64 \<Rightarrow> (u64 \<times> bool \<times> bool) option) \<Rightarrow> bool" where
  Map: "MapPage P v u w s = (ok, s') \<Longrightarrow>
    vm_step (s, m) (s', if ok then page_update v (Some (P AND VALID_PHYSICAL_ADDR_MASK, u, w)) m else m)"
| Unmap: "UnmapPage v s = (ok, s') \<Longrightarrow> vm_step (s, m) (s', if ok then page_update v None m else m)"
| Protect: "ProtectPage v u w x s = (ok, s') \<Longrightarrow>
    vm_step (s, m) (s', if ok then page_update v (map_option (protected_as u w) (m v)) m else m)"

inductive_cases vm_stepE: "vm_step (s, m) (s', m')"




section \<open>Ranges of a process\<close>

lemma aligned_page_base: "aligned (V AND PHYS_PAGE_ADDR_MASK)"
  by (simp add: aligned_def PHYS_PAGE_ADDR_MASK_def and.assoc)

lemma MapUserRange_spec:
  assumes wf: "vm_wf s" and r: "MapUserRange P V Size W s = (ok, s')"
    and bound: "unat (V AND PHYS_PAGE_ADDR_MASK) + unat (GetRequiredPageCount V Size) * 4096 \<le> 2 ^ 47"
  shows "vm_wf s' \<and> PageMapL4Table s' = PageMapL4Table s \<and>
    (\<forall>v. let inside = in_pages (V AND PHYS_PAGE_ADDR_MASK) 0 (unat (GetRequiredPageCount V Size)) v
        in (\<not> inside \<longrightarrow> mapping_of s' v = mapping_of s v) \<and>
           (ok \<and> inside \<longrightarrow> mapping_of s' v =
              Some (((P AND PHYS_PAGE_ADDR_MASK) + (page_of v - (V AND PHYS_PAGE_ADDR_MASK))) AND VALID_PHYSICAL_ADDR_MASK, True, W)))"
proof (cases "GetRequiredPageCount V Size = 0")
  case True
  then have "s' = s" using r by (simp add: MapUserRange_def)
  moreover have "\<not> in_pages A 0 0 v" for A v by (simp add: in_pages_def)
  ultimately show ?thesis using True wf by (simp add: Let_def)
next
  case False
  then have loop: "MapPages_loop (unat (GetRequiredPageCount V Size)) 0 (P AND PHYS_PAGE_ADDR_MASK) (V AND PHYS_PAGE_ADDR_MASK) (\<lambda>_. W) s = (ok, s')"
    using r by (simp add: MapUserRange_def)
  note L = MapPages_loop_spec [OF wf aligned_page_base _ loop] bound
  then show ?thesis by (auto simp: range_mapping_def Let_def)
qed

section \<open>A sample manager\<close>

definition sample_vmm :: vmm where
  "sample_vmm = VirtualMemoryManager 0x10000 sample_pmm (\<lambda>_. 0)"

lemma sample_vmm: "vm_wf sample_vmm" "mapping_of sample_vmm v = None"
proof -
  have "table_ok 0x10000" by (simp add: table_ok_def aligned_def)
  moreover have "\<not> free_frame sample_pmm 0x10000"
  proof
    assume "free_frame sample_pmm 0x10000"
    then obtain i where "i \<in># free_of sample_pmm" "(0x10000 :: u64) = of_nat (PhysicalAddressStart sample_pmm + i * PAGE_BYTES)"
      unfolding free_frame_def by blast
    then have i: "i < DescriptorPages sample_pmm" "(0x10000 :: u64) = of_nat (PhysicalAddressStart sample_pmm + i * PAGE_BYTES)"
      using sample_pmm_inv sample_chosen by auto
    have "unat (0x10000 :: u64) = PhysicalAddressStart sample_pmm + i * PAGE_BYTES"
      unfolding i(2) using frame_unat [OF _ i(1)] sample_pmm_inv by blast
    then show False using sample_chosen by simp
  qed
  ultimately show "vm_wf sample_vmm" "mapping_of sample_vmm v = None"
    unfolding sample_vmm_def using empty_root [of "0x10000" "\<lambda>_. 0" sample_pmm] sample_pmm_inv sample_chosen by simp_all
qed

section \<open>Enough pages\<close>

definition enough :: "nat \<Rightarrow> vmm \<Rightarrow> bool" where
  "enough n s \<longleftrightarrow> pmm_inv (PagePMM s) \<and> n \<le> NumberOfFreePages (PagePMM s)"

lemma one_page:
  assumes inv: "pmm_inv p" and n: "0 < NumberOfFreePages p"
  obtains a p' where "AllocatePagesFromDescriptor p 1 = (Some a, p')" "pmm_inv p'" "NumberOfFreePages p' + 1 = NumberOfFreePages p"
proof -
  have c: "CeilLog2Pages 1 = 0" by (simp add: CeilLog2Pages_def)
  obtain x p' where r: "AllocatePagesFromDescriptor p 1 = (x, p')" by fastforce
  show thesis
  proof (cases x)
    case (Some a)
    then show thesis using that [of a p'] r Allocate_Some [OF inv, of 1 a p'] c by simp
  next
    case None
    then have e: "BuddyFreeLists p ! k = []" if "k \<le> BuddyMaxOrder p" for k
      using Allocate_None [OF inv, of 1 p'] r n that c by auto
    have L: "length (BuddyFreeLists p) = MAX_BUDDY_ORDERS" and
      ok: "\<And>k a. k < MAX_BUDDY_ORDERS \<Longrightarrow> a \<in> set (BuddyFreeLists p ! k) \<Longrightarrow> k \<le> BuddyMaxOrder p"
      using inv by (auto simp: pmm_inv_def lists_ok_def block_ok_def)
    have "BuddyFreeLists p ! k = []" if "k < MAX_BUDDY_ORDERS" for k
      using e ok [OF that] by (meson list.set_sel(1))
    then have "free_of p = {#}" by (simp add: free_of_def free_pages_def L)
    then show thesis using inv n by (simp add: pmm_inv_def)
  qed
qed

lemma AllocateTable_enough:
  assumes "enough (Suc n) s"
  obtains a s' where "AllocateTable s = (Some a, s')" "enough n s'"
proof -
  have "pmm_inv (PagePMM s)" "0 < NumberOfFreePages (PagePMM s)" using assms by (simp_all add: enough_def)
  from one_page [OF this] obtain a p where
    p: "AllocatePagesFromDescriptor (PagePMM s) 1 = (Some a, p)" "pmm_inv p" "NumberOfFreePages p + 1 = NumberOfFreePages (PagePMM s)" .
  let ?s = "ClearPage (of_nat a) (s\<lparr>PagePMM := p\<rparr>)"
  have "AllocateTable s = (Some (of_nat a), ?s)" using p(1) by (simp add: AllocateTable_def)
  moreover have "enough n ?s" using p(2,3) assms by (simp add: enough_def ClearPage_def)
  ultimately show thesis using that by blast
qed

lemma enough_cong: "PagePMM s' = PagePMM s \<Longrightarrow> enough n s' = enough n s"
  by (simp add: enough_def)

lemma enough_less: "enough (Suc n) s \<Longrightarrow> enough n s"
  by (simp add: enough_def)

lemma EnsureTable_enough:
  assumes "enough (Suc n) s"
  obtains e s' where "EnsureTable ev v t i u s = (Some e, s')" "enough n s'"
    "entry_size e \<Longrightarrow> enough (Suc n) s'"
proof (cases "entry_present (table_load s t i)")
  case True
  then show thesis using that [of "table_load s t i" s] assms enough_less by (simp add: EnsureTable_def)
next
  case False
  from AllocateTable_enough [OF assms] obtain a s1 where a: "AllocateTable s = (Some a, s1)" "enough n s1" .
  let ?V = "BuildNonLeafEntryValue a 0 u"
  let ?s = "RecordMutation v ev ?V (?V AND PHYS_PAGE_ADDR_MASK) (table_store t i ?V s1)"
  have "EnsureTable ev v t i u s = (Some ?V, ?s)" using a(1) False by (simp add: EnsureTable_def Let_def table_load_def table_store_def)
  moreover have "enough n ?s" using a(2) by (simp add: table_store_def enough_def)
  ultimately show thesis using that non_leaf_entry(3) [of a 0 u] by blast
qed

lemma RaiseUser_enough: "enough n s \<Longrightarrow> enough n (snd (RaiseUser t i u e s))"
  by (simp add: RaiseUser_def enough_def table_store_def Let_def)

lemma MapPML4_enough:
  assumes "enough (Suc n) s"
  obtains e s' where "MapPML4 v u s = (Some e, s')" "enough n s'"
proof (cases "entry_present (table_load s (PageMapL4Table s) (pml4_index v))")
  case True
  let ?r = "RaiseUser (PageMapL4Table s) (pml4_index v) u (table_load s (PageMapL4Table s) (pml4_index v)) s"
  have "MapPML4 v u s = (Some (fst ?r), snd ?r)" using True by (simp add: MapPML4_def Let_def split: prod.split)
  with that RaiseUser_enough [OF enough_less [OF assms]] show thesis by blast
next
  case False
  from EnsureTable_enough [OF assms] obtain e s' where
    "EnsureTable PAGE_TABLE_MUTATION_WRITE_PML4 v (PageMapL4Table s) (pml4_index v) u s = (Some e, s')" "enough n s'" by metis
  with False that show thesis by (simp add: MapPML4_def Let_def)
qed

lemma MapLevel_enough:
  assumes "enough (Suc n) s"
  obtains e s' where "MapLevel ev Sub v t i u s = (Some e, s')" "enough n s'"
proof -
  from EnsureTable_enough [OF assms] obtain e s1 where
    E: "EnsureTable ev v t i u s = (Some e, s1)" "enough n s1" "entry_size e \<Longrightarrow> enough (Suc n) s1" by metis
  show thesis
  proof (cases "entry_present e \<and> entry_size e")
    case True
    with E(3) have "enough (Suc n) s1" by blast
    from AllocateTable_enough [OF this] obtain a s2 where a: "AllocateTable s1 = (Some a, s2)" "enough n s2" .
    have "enough n (table_store t i x (FillTable a f s2))" for x f using a(2) by (simp add: enough_def table_store_def)
    with that True E(1) a(1) show thesis by (simp add: MapLevel_def SplitLargePage_def Let_def)
  next
    case False
    then have "MapLevel ev Sub v t i u s = (Some (fst (RaiseUser t i u e s1)), snd (RaiseUser t i u e s1))"
      using E(1) by (auto simp: MapLevel_def split: prod.split)
    with that RaiseUser_enough [OF E(2)] show thesis by blast
  qed
qed

lemma MapPage_enough:
  assumes "enough 3 s"
  shows "fst (MapPage P v u w s)"
proof -
  have "enough (Suc (Suc (Suc 0))) s" using assms by (simp add: numeral_3_eq_3)
  from MapPML4_enough [OF this] obtain e0 s1 where m0: "MapPML4 v u s = (Some e0, s1)" "enough (Suc (Suc 0)) s1" by metis
  from MapLevel_enough [OF m0(2)] obtain e1 s2 where
    m1: "MapLevel PAGE_TABLE_MUTATION_WRITE_PDPT SplitPDEntry v (e0 AND PHYS_PAGE_ADDR_MASK) (pdpt_index v) u s1 = (Some e1, s2)" "enough (Suc 0) s2" by metis
  from MapLevel_enough [OF m1(2)] obtain e2 s3 where
    m2: "MapLevel PAGE_TABLE_MUTATION_WRITE_PD SplitPTEntry v (e1 AND PHYS_PAGE_ADDR_MASK) (pd_index v) u s2 = (Some e2, s3)" by metis
  show ?thesis using m0(1) m1(1) m2 by (simp add: MapPage_def)
qed

lemma sample_enough: "enough 3 sample_vmm"
  using sample_pmm_inv by (simp add: enough_def sample_vmm_def VirtualMemoryManager_def sample_lists)

lemma sample_map: obtains s' where "MapPage P v u w sample_vmm = (True, s')"
  using MapPage_enough [OF sample_enough, of P v u w] by (metis prod.collapse)

section \<open>Properties\<close>



text \<open>
  C9. The page tables and the checks of user pointers agree: a page mapped for user code at a non-
  zero frame passes the check, whatever was mapped before, and once unmapped it fails it.
\<close>

theorem mapped_page_accessible:
  assumes "vm_wf s" and "MapPage P v True w s = (True, s1)" and "P AND VALID_PHYSICAL_ADDR_MASK \<noteq> 0"
    and "UnmapPage v s1 = (ok, s2)" and "PhysicalMemory m1 = Memory s1" and "PhysicalMemory m2 = Memory s2"
  shows "IsUserAccessiblePageMapped m1 (PageMapL4Table s) v \<and> ok \<and>
    \<not> IsUserAccessiblePageMapped m2 (PageMapL4Table s) v"
proof -
  have S: "vm_wf s1" "PageMapL4Table s1 = PageMapL4Table s" "slots_of s1 3 v \<noteq> None"
    using MapPage_spec [OF assms(1,2), simplified if_True] by (blast, blast, force)
  then have ok: "ok" using UnmapPage_spec(3) [OF S(1) assms(4)] by (auto simp: slot_def)
  then show ?thesis
    using mapped_is_accessible [OF assms(1-3,5)] unmapped_not_accessible [OF S(1), of v s2 m2] assms(4,6)
      UnmapPage_spec(2) [OF S(1) assms(4)] S(2) by simp
qed

theorem mapped_page_accessible_witness:
  "\<exists>s1. MapPage 0x5000 0x400000 True True sample_vmm = (True, s1) \<and>
     IsUserAccessiblePageMapped (sample_machine\<lparr>PhysicalMemory := Memory s1\<rparr>) 0x10000 0x400000"
proof -
  obtain s1 where s1: "MapPage 0x5000 0x400000 True True sample_vmm = (True, s1)" using sample_map by blast
  obtain ok s2 where s2: "UnmapPage 0x400000 s1 = (ok, s2)" by fastforce
  have "PageMapL4Table sample_vmm = 0x10000" by (simp add: sample_vmm_def VirtualMemoryManager_def)
  with mapped_page_accessible [OF sample_vmm(1) s1 _ s2, of "sample_machine\<lparr>PhysicalMemory := Memory s1\<rparr>"
      "sample_machine\<lparr>PhysicalMemory := Memory s2\<rparr>"] s1 show ?thesis
    by (simp add: VALID_PHYSICAL_ADDR_MASK_def)
qed

text \<open>
  C39. Mapping a page succeeds whenever the allocator has three free pages, however much of the
  hierarchy is missing and whichever large pages have to be split, and the new translation is in
  force afterwards.
\<close>

theorem three_pages_map:
  assumes "vm_wf s" and "3 \<le> NumberOfFreePages (PagePMM s)"
  shows "\<exists>s'. MapPage P v u w s = (True, s') \<and> mapping_of s' v = Some (P AND VALID_PHYSICAL_ADDR_MASK, u, w)"
proof -
  have "enough 3 s" using assms vm_wfD(1) by (simp add: enough_def)
  then obtain s' where s': "MapPage P v u w s = (True, s')" using MapPage_enough [of s P v u w] by (metis prod.collapse)
  from MapPage_spec [OF assms(1) s'] s' show ?thesis by (auto simp: same_path_page)
qed

theorem three_pages_map_witness:
  "\<exists>s'. MapPage 0x7000 0x7FFFFFFFE000 True True sample_vmm = (True, s') \<and> mapping_of s' 0x7FFFFFFFE000 = Some (0x7000, True, True)"
  using three_pages_map [OF sample_vmm(1), of "0x7000" "0x7FFFFFFFE000" True True] sample_enough
  by (simp add: enough_def VALID_PHYSICAL_ADDR_MASK_def)

section \<open>Further facts\<close>

text \<open>
  Mapping a range of a process touches the pages of the range only: outside it every translation
  stays, also when memory runs out midway; and when it reports success every page of the range is
  translated to the frame at the same offset from the start of the physical range, for user code,
  with the permission asked for.
\<close>

theorem user_range_mapped:
  assumes "vm_wf s" and "MapUserRange P V Size W s = (ok, s')"
    and "unat (V AND PHYS_PAGE_ADDR_MASK) + unat (GetRequiredPageCount V Size) * 4096 \<le> 2 ^ 47"
  shows "let B = V AND PHYS_PAGE_ADDR_MASK; inside = in_pages B 0 (unat (GetRequiredPageCount V Size)) in
     vm_wf s' \<and> (\<forall>v. (\<not> inside v \<longrightarrow> mapping_of s' v = mapping_of s v) \<and>
       (ok \<and> inside v \<longrightarrow>
        mapping_of s' v = Some (((P AND PHYS_PAGE_ADDR_MASK) + (page_of v - B)) AND VALID_PHYSICAL_ADDR_MASK, True, W)))"
  using MapUserRange_spec [OF assms] unfolding Let_def by blast

theorem user_range_mapped_witness:
  "\<exists>s'. MapUserRange 0x20000 0x400000 0x1000 False sample_vmm = (True, s') \<and>
     mapping_of s' 0x400008 = Some (0x20000, True, False) \<and> mapping_of s' 0x401000 = None"
proof -
  have n: "GetRequiredPageCount 0x400000 0x1000 = 1" by (simp add: GetRequiredPageCount_def PAGE_SIZE_def)
  obtain s' where m: "MapPage 0x20000 0x400000 True False sample_vmm = (True, s')" using sample_map by blast
  have r: "MapUserRange 0x20000 0x400000 0x1000 False sample_vmm = (True, s')"
    using m by (simp add: MapUserRange_def n PHYS_PAGE_ADDR_MASK_def)
  from user_range_mapped [OF sample_vmm(1) r] n have M: "mapping_of s' v =
      (if \<not> in_pages 0x400000 0 1 v then None else Some ((0x20000 + (page_of v - 0x400000)) AND VALID_PHYSICAL_ADDR_MASK, True, False))" for v
    by (simp add: Let_def PHYS_PAGE_ADDR_MASK_def sample_vmm(2))
  have "in_pages 0x400000 0 1 0x400008" "\<not> in_pages 0x400000 0 1 0x401000"
    by (simp_all add: in_pages_def page_of_def)
  with r M [of "0x400008"] M [of "0x401000"] show ?thesis by (simp add: page_of_def VALID_PHYSICAL_ADDR_MASK_def)
qed

end
