(* ===== verification/Virtual_File_System.thy ===== *)
theory Virtual_File_System imports Ram_FileSystem begin

text \<open>
  \<open>Layers/Logic/VirtualFileSystem.cpp\<close>: the tree of directory entries over the inodes, the resolution of
  paths, the operations that change the tree, and the default read and write of a file. A directory entry
  or an inode is named by a number given at its creation and never reused. A path is the list of its
  characters before the terminating NUL. \<open>kmalloc\<close> takes its results from the list \<open>Blocks\<close> of the state; what
  the extended file system answers is an argument of the operations that ask it, as is the environment
  through which lazy file contents are loaded. \<open>new\<close> does not return null. \<open>INodeOps\<close> and \<open>DirectoryHydrated\<close> of an
  inode are never used.
\<close>

section \<open>State\<close>

datatype file_type = INODE_FILE | INODE_DIR | INODE_SYMLINK | INODE_DEV

datatype file_operations = DefaultFileOperations | DeviceFileOperations addr

record inode =
  NodeType :: file_type
  LinkReferenceCount :: nat
  UsesVirtualHardLinks :: bool
  NodeSize :: nat
  NodeData :: ptr
  IsLazyLoad :: bool
  LazyDataBackedByPMM :: bool
  LazyDataPageCount :: nat
  BackingInodeNumber :: nat
  LazyLoadRefCount :: nat
  LazyLoadContext :: ptr
  FileOps :: file_operations

record dentry =
  EntryName :: string
  EntryINode :: "nat option"
  EntryParent :: "nat option"
  EntryChildren :: "nat list"

datatype release = KFree addr | FreePages addr nat

record vfs =
  Root :: "nat option"
  isEXT :: bool
  ActiveExtendedFileSystem :: ptr
  Dentries :: "nat \<Rightarrow> dentry option"
  INodes :: "nat \<Rightarrow> inode option"
  NextDentry :: nat
  NextINode :: nat
  Contents :: "nat \<Rightarrow> u8"
  Blocks :: "addr option list"
  Releases :: "release list"

text \<open>What a file system on a disk and the resource layer provide for loading contents.\<close>

record loader =
  HasResourceLayer :: bool
  FileSystemInitialized :: "addr \<Rightarrow> bool"
  LoadInodeData :: "nat \<Rightarrow> nat \<Rightarrow> u8 list option"
  LoadInodeDataRange :: "nat \<Rightarrow> nat \<Rightarrow> nat \<Rightarrow> u8 list option"

record open_file =
  Node :: "nat option"
  CurrentOffset :: nat
  OpenFlags :: u64
  DirectoryEntry :: "nat option"

definition LINUX_ERR_EFAULT :: int where "LINUX_ERR_EFAULT = -14"
definition LINUX_ERR_EISDIR :: int where "LINUX_ERR_EISDIR = -21"
definition LINUX_ERR_ENOSPC :: int where "LINUX_ERR_ENOSPC = -28"
definition LINUX_ERR_ENOSYS :: int where "LINUX_ERR_ENOSYS = -38"
definition MAX_SYMLINK_FOLLOW_DEPTH :: nat where "MAX_SYMLINK_FOLLOW_DEPTH = 40"
definition DEV_DIRECTORY_NAME :: string where "DEV_DIRECTORY_NAME = ''dev''"
definition PATH_SEPARATOR :: char where "PATH_SEPARATOR = CHR ''/''"
definition PATH_DOT :: char where "PATH_DOT = CHR ''.''"

definition VirtualFileSystem :: "(nat \<Rightarrow> u8) \<Rightarrow> addr option list \<Rightarrow> vfs" where
  "VirtualFileSystem M bs =
     \<lparr>Root = None, isEXT = False, ActiveExtendedFileSystem = None, Dentries = (\<lambda>_. None), INodes = (\<lambda>_. None),
      NextDentry = 0, NextINode = 0, Contents = M, Blocks = bs, Releases = []\<rparr>"

definition on_dentry :: "nat \<Rightarrow> (dentry \<Rightarrow> dentry) \<Rightarrow> vfs \<Rightarrow> vfs" where
  "on_dentry d f s = s\<lparr>Dentries := (Dentries s)(d := map_option f (Dentries s d))\<rparr>"

definition on_inode :: "nat \<Rightarrow> (inode \<Rightarrow> inode) \<Rightarrow> vfs \<Rightarrow> vfs" where
  "on_inode i f s = s\<lparr>INodes := (INodes s)(i := map_option f (INodes s i))\<rparr>"

definition Kmalloc :: "vfs \<Rightarrow> ptr \<times> vfs" where
  "Kmalloc s = (case Blocks s of [] \<Rightarrow> (None, s) | b # bs \<Rightarrow> (b, s\<lparr>Blocks := bs\<rparr>))"

definition StoreBytes :: "addr \<Rightarrow> u8 list \<Rightarrow> vfs \<Rightarrow> vfs" where
  "StoreBytes a bytes s =
     s\<lparr>Contents := (\<lambda>x. if a \<le> x \<and> x < a + length bytes then bytes ! (x - a) else Contents s x)\<rparr>"

definition LoadBytes :: "vfs \<Rightarrow> addr \<Rightarrow> nat \<Rightarrow> u8 list" where
  "LoadBytes s a n = map (\<lambda>i. Contents s (a + i)) [0..<n]"

section \<open>Contents of a file\<close>

definition EnsureLazyLoadedINodeData :: "loader \<Rightarrow> nat \<Rightarrow> vfs \<Rightarrow> bool \<times> vfs" where
  "EnsureLazyLoadedINodeData e i s =
     (case INodes s i of
        None \<Rightarrow> (False, s)
      | Some n \<Rightarrow>
          if \<not> IsLazyLoad n then (NodeData n \<noteq> None, s)
          else if NodeData n \<noteq> None then (True, s)
          else if NodeSize n = 0 then (True, s)
          else (case LazyLoadContext n of
            None \<Rightarrow> (False, s)
          | Some c \<Rightarrow>
              if BackingInodeNumber n = 0 then (False, s)
              else if \<not> FileSystemInitialized e c then (False, s)
              else if \<not> HasResourceLayer e then (False, s)
              else (case Kmalloc s of
                (None, s1) \<Rightarrow> (False, s1)
              | (Some FileData, s1) \<Rightarrow>
                  let s2 = StoreBytes FileData (replicate (NodeSize n) 0) s1
                  in case LoadInodeData e (BackingInodeNumber n) (NodeSize n) of
                       None \<Rightarrow> (False, s2\<lparr>Releases := Releases s2 @ [KFree FileData]\<rparr>)
                     | Some bytes \<Rightarrow>
                         (True, on_inode i (\<lambda>n. n\<lparr>NodeData := Some FileData, LazyDataBackedByPMM := False, LazyDataPageCount := 0\<rparr>)
                                  (StoreBytes FileData bytes s2)))))"

text \<open>The old contents move to a new block when the file grows or has none.\<close>

definition GrowINode :: "nat \<Rightarrow> nat \<Rightarrow> vfs \<Rightarrow> bool \<times> vfs" where
  "GrowINode i RequiredSize s =
     (case INodes s i of
        None \<Rightarrow> (False, s)
      | Some n \<Rightarrow>
          let ExistingSize = NodeSize n; TargetSize = max RequiredSize ExistingSize
          in case Kmalloc s of
               (None, s1) \<Rightarrow> (False, s1)
             | (Some NewData, s1) \<Rightarrow>
                 let s2 = StoreBytes NewData (replicate TargetSize 0) s1;
                     s3 = (case NodeData n of
                             Some a \<Rightarrow> if ExistingSize > 0 then StoreBytes NewData (LoadBytes s2 a ExistingSize) s2 else s2
                           | None \<Rightarrow> s2);
                     s4 = (case NodeData n of
                             None \<Rightarrow> s3
                           | Some a \<Rightarrow>
                               if LazyDataBackedByPMM n \<and> LazyDataPageCount n \<noteq> 0
                               then s3\<lparr>Releases := Releases s3 @ [FreePages a (LazyDataPageCount n)]\<rparr>
                               else s3\<lparr>Releases := Releases s3 @ [KFree a]\<rparr>)
                 in (True, on_inode i (\<lambda>n. n\<lparr>NodeData := Some NewData, NodeSize := TargetSize, IsLazyLoad := False,
                       LazyDataBackedByPMM := False, LazyDataPageCount := 0, BackingInodeNumber := 0,
                       LazyLoadRefCount := 0, LazyLoadContext := None\<rparr>) s4))"

definition EnsureWritableINodeCapacity :: "loader \<Rightarrow> nat \<Rightarrow> nat \<Rightarrow> vfs \<Rightarrow> bool \<times> vfs" where
  "EnsureWritableINodeCapacity e i RequiredSize s =
     (case INodes s i of
        None \<Rightarrow> (False, s)
      | Some n \<Rightarrow>
          if RequiredSize = 0 then (True, s)
          else if NodeData n \<noteq> None \<and> NodeSize n \<ge> RequiredSize then (True, s)
          else if NodeData n = None \<and> IsLazyLoad n \<and> NodeSize n > 0 then
            (case EnsureLazyLoadedINodeData e i s of
               (False, s1) \<Rightarrow> (False, s1)
             | (True, s1) \<Rightarrow>
                 if (case INodes s1 i of Some n1 \<Rightarrow> NodeData n1 \<noteq> None \<and> NodeSize n1 \<ge> RequiredSize | None \<Rightarrow> False)
                 then (True, s1)
                 else if \<not> HasResourceLayer e then (False, s1) else GrowINode i RequiredSize s1)
          else if \<not> HasResourceLayer e then (False, s)
          else GrowINode i RequiredSize s)"

text \<open>
  \<open>DefaultReadFileOperation\<close>: the result, the bytes put in the buffer, and the file afterwards. A null buffer is
  the flag.
\<close>

definition read_at :: "open_file \<Rightarrow> nat \<Rightarrow> nat \<Rightarrow> nat" where
  "read_at f Count FileSize = min Count (FileSize - CurrentOffset f)"

definition ReadLoaded :: "open_file \<Rightarrow> nat \<Rightarrow> nat \<Rightarrow> vfs \<Rightarrow> int \<times> u8 list \<times> open_file" where
  "ReadLoaded f i Count s =
     (case INodes s i of
        None \<Rightarrow> (LINUX_ERR_EFAULT, [], f)
      | Some n \<Rightarrow>
          (case NodeData n of
             None \<Rightarrow> (LINUX_ERR_EFAULT, [], f)
           | Some a \<Rightarrow>
               if CurrentOffset f \<ge> NodeSize n then (0, [], f)
               else let BytesToRead = read_at f Count (NodeSize n)
                    in (int BytesToRead, LoadBytes s (a + CurrentOffset f) BytesToRead,
                        f\<lparr>CurrentOffset := CurrentOffset f + BytesToRead\<rparr>)))"

definition DefaultReadFileOperation ::
    "loader \<Rightarrow> open_file \<Rightarrow> bool \<Rightarrow> nat \<Rightarrow> vfs \<Rightarrow> (int \<times> u8 list \<times> open_file) \<times> vfs" where
  "DefaultReadFileOperation e f BufferNull Count s =
     (case Node f of
        None \<Rightarrow> ((LINUX_ERR_EFAULT, [], f), s)
      | Some i \<Rightarrow>
     (case INodes s i of
        None \<Rightarrow> ((LINUX_ERR_EFAULT, [], f), s)
      | Some n \<Rightarrow>
          if BufferNull \<and> Count \<noteq> 0 then ((LINUX_ERR_EFAULT, [], f), s)
          else if NodeType n = INODE_DIR then ((LINUX_ERR_EISDIR, [], f), s)
          else if NodeType n \<noteq> INODE_FILE then ((LINUX_ERR_ENOSYS, [], f), s)
          else if Count = 0 then ((0, [], f), s)
          else if NodeData n = None \<and> IsLazyLoad n \<and> BackingInodeNumber n \<noteq> 0 \<and>
                  (case LazyLoadContext n of Some c \<Rightarrow> FileSystemInitialized e c | None \<Rightarrow> False)
          then if CurrentOffset f \<ge> NodeSize n then ((0, [], f), s)
               else let BytesToRead = read_at f Count (NodeSize n)
                    in case LoadInodeDataRange e (BackingInodeNumber n) (CurrentOffset f) BytesToRead of
                         None \<Rightarrow> ((LINUX_ERR_EFAULT, [], f), s)
                       | Some bytes \<Rightarrow> ((int BytesToRead, bytes, f\<lparr>CurrentOffset := CurrentOffset f + BytesToRead\<rparr>), s)
          else if NodeData n = None \<and> NodeSize n = 0 then ((0, [], f), s)
          else if NodeData n = None then
            (case EnsureLazyLoadedINodeData e i s of
               (False, s1) \<Rightarrow> ((LINUX_ERR_EFAULT, [], f), s1)
             | (True, s1) \<Rightarrow> (ReadLoaded f i Count s1, s1))
          else (ReadLoaded f i Count s, s)))"

definition DefaultWriteFileOperation ::
    "loader \<Rightarrow> open_file \<Rightarrow> u8 list option \<Rightarrow> nat \<Rightarrow> vfs \<Rightarrow> (int \<times> open_file) \<times> vfs" where
  "DefaultWriteFileOperation e f Buffer Count s =
     (case Node f of
        None \<Rightarrow> ((LINUX_ERR_EFAULT, f), s)
      | Some i \<Rightarrow>
     (case INodes s i of
        None \<Rightarrow> ((LINUX_ERR_EFAULT, f), s)
      | Some n \<Rightarrow>
          if Buffer = None \<and> Count \<noteq> 0 then ((LINUX_ERR_EFAULT, f), s)
          else if NodeType n = INODE_DIR then ((LINUX_ERR_EISDIR, f), s)
          else if NodeType n \<noteq> INODE_FILE then ((LINUX_ERR_ENOSYS, f), s)
          else if Count = 0 then ((0, f), s)
          else if CurrentOffset f > 2 ^ 64 - 1 - Count then ((LINUX_ERR_ENOSPC, f), s)
          else (case EnsureWritableINodeCapacity e i (CurrentOffset f + Count) s of
                  (False, s1) \<Rightarrow> ((LINUX_ERR_ENOSPC, f), s1)
                | (True, s1) \<Rightarrow>
                    ((int Count, f\<lparr>CurrentOffset := CurrentOffset f + Count\<rparr>),
                     StoreBytes (the (NodeData (the (INodes s1 i))) + CurrentOffset f) (take Count (the Buffer)) s1))))"

text \<open>The other default operations answer that they are not implemented.\<close>

definition DefaultSeekFileOperation :: "open_file \<Rightarrow> int \<Rightarrow> int \<Rightarrow> int" where
  "DefaultSeekFileOperation f Offset Whence = LINUX_ERR_ENOSYS"

definition DefaultMemoryMapFileOperation :: "open_file \<Rightarrow> nat \<Rightarrow> nat \<Rightarrow> int" where
  "DefaultMemoryMapFileOperation f Length Offset = LINUX_ERR_ENOSYS"

definition DefaultIoctlFileOperation :: "open_file \<Rightarrow> u64 \<Rightarrow> u64 \<Rightarrow> int" where
  "DefaultIoctlFileOperation f Request Argument = LINUX_ERR_ENOSYS"

definition DefaultPollFileOperation :: "open_file \<Rightarrow> u32 \<Rightarrow> int" where
  "DefaultPollFileOperation f RequestedEvents = LINUX_ERR_ENOSYS"

section \<open>Segments of a path\<close>

definition IsSeparator :: "char \<Rightarrow> bool" where "IsSeparator c \<longleftrightarrow> c = PATH_SEPARATOR"

fun MatchSegmentName :: "string \<Rightarrow> string \<Rightarrow> bool" where
  "MatchSegmentName (n # ns) (c # cs) = (n = c \<and> MatchSegmentName ns cs)"
| "MatchSegmentName [] (c # cs) = False"
| "MatchSegmentName ns [] = (ns = [])"

fun SkipDotSeparator :: "string \<Rightarrow> string" where
  "SkipDotSeparator (a # b # cs) =
     (if a = PATH_DOT \<and> b = PATH_SEPARATOR then SkipDotSeparator cs else a # b # cs)"
| "SkipDotSeparator cs = cs"

definition NormalizePathStart :: "string \<Rightarrow> string" where
  "NormalizePathStart Path = SkipDotSeparator (dropWhile IsSeparator Path)"

definition IsRootAliasPath :: "string \<Rightarrow> bool" where
  "IsRootAliasPath p \<longleftrightarrow> p = [] \<or> p = [PATH_DOT]"

definition IsDotSegment :: "string \<Rightarrow> bool" where "IsDotSegment seg \<longleftrightarrow> seg = [PATH_DOT]"
definition IsDotDotSegment :: "string \<Rightarrow> bool" where "IsDotDotSegment seg \<longleftrightarrow> seg = [PATH_DOT, PATH_DOT]"

definition SegmentOf :: "string \<Rightarrow> string" where
  "SegmentOf p = takeWhile (\<lambda>c. \<not> IsSeparator c) (dropWhile IsSeparator p)"

definition AfterSegment :: "string \<Rightarrow> string" where
  "AfterSegment p = dropWhile (\<lambda>c. \<not> IsSeparator c) (dropWhile IsSeparator p)"

lemma SegmentOf_nonempty: "dropWhile IsSeparator p \<noteq> [] \<Longrightarrow> SegmentOf p \<noteq> []"
  using hd_dropWhile [of IsSeparator p] by (cases "dropWhile IsSeparator p") (auto simp: SegmentOf_def)

lemma AfterSegment_shorter [termination_simp]: "dropWhile IsSeparator p \<noteq> [] \<Longrightarrow> length (AfterSegment p) < length p"
proof -
  assume p: "dropWhile IsSeparator p \<noteq> []"
  have "length (SegmentOf p) + length (AfterSegment p) = length (dropWhile IsSeparator p)"
    unfolding SegmentOf_def AfterSegment_def by (metis length_append takeWhile_dropWhile_id)
  moreover have "length (dropWhile IsSeparator p) \<le> length p" by (rule length_dropWhile_le)
  moreover have "0 < length (SegmentOf p)" using SegmentOf_nonempty [OF p] by simp
  ultimately show ?thesis by linarith
qed

section \<open>Directory entries\<close>

definition CreateINode :: "file_type \<Rightarrow> nat \<Rightarrow> ptr \<Rightarrow> vfs \<Rightarrow> nat \<times> vfs" where
  "CreateINode Type Size Data s =
     (NextINode s,
      s\<lparr>INodes := (INodes s)(NextINode s \<mapsto>
          \<lparr>NodeType = Type, LinkReferenceCount = 1, UsesVirtualHardLinks = False, NodeSize = Size, NodeData = Data,
           IsLazyLoad = False, LazyDataBackedByPMM = False, LazyDataPageCount = 0, BackingInodeNumber = 0,
           LazyLoadRefCount = 0, LazyLoadContext = None, FileOps = DefaultFileOperations\<rparr>),
        NextINode := Suc (NextINode s)\<rparr>)"

definition CreateDentry :: "string \<Rightarrow> nat option \<Rightarrow> nat option \<Rightarrow> vfs \<Rightarrow> nat \<times> vfs" where
  "CreateDentry Name Parent n s =
     (NextDentry s,
      s\<lparr>Dentries := (Dentries s)(NextDentry s \<mapsto>
          \<lparr>EntryName = Name, EntryINode = n, EntryParent = Parent, EntryChildren = []\<rparr>),
        NextDentry := Suc (NextDentry s)\<rparr>)"

definition FindChildBySegment :: "vfs \<Rightarrow> nat \<Rightarrow> string \<Rightarrow> nat option" where
  "FindChildBySegment s Parent seg =
     (case Dentries s Parent of
        None \<Rightarrow> None
      | Some p \<Rightarrow>
          List.find (\<lambda>c. case Dentries s c of Some d \<Rightarrow> MatchSegmentName (EntryName d) seg | None \<Rightarrow> False) (EntryChildren p))"

definition AppendChild :: "nat \<Rightarrow> nat \<Rightarrow> vfs \<Rightarrow> vfs" where
  "AppendChild Parent Child s =
     on_dentry Child (\<lambda>c. c\<lparr>EntryParent := Some Parent\<rparr>)
       (on_dentry Parent (\<lambda>p. p\<lparr>EntryChildren := EntryChildren p @ [Child]\<rparr>) s)"

definition RemoveChild :: "nat \<Rightarrow> nat \<Rightarrow> vfs \<Rightarrow> bool \<times> vfs" where
  "RemoveChild Parent Child s =
     (case Dentries s Parent of
        None \<Rightarrow> (False, s)
      | Some p \<Rightarrow>
          if Child \<notin> set (EntryChildren p) then (False, s)
          else (True, on_dentry Parent (\<lambda>p. p\<lparr>EntryChildren := remove1 Child (EntryChildren p)\<rparr>) s))"

text \<open>\<open>FreeDentryTree\<close>; a tree is no deeper than the number of entries ever created.\<close>

definition ReleaseINode :: "nat option \<Rightarrow> vfs \<Rightarrow> vfs" where
  "ReleaseINode n s =
     (case n of
        None \<Rightarrow> s
      | Some i \<Rightarrow>
     (case INodes s i of
        None \<Rightarrow> s
      | Some x \<Rightarrow>
          let c = (if LinkReferenceCount x > 0 then LinkReferenceCount x - 1 else 0)
          in s\<lparr>INodes := (INodes s)(i := (if c = 0 then None else Some (x\<lparr>LinkReferenceCount := c\<rparr>)))\<rparr>))"

fun FreeDentryTree :: "nat \<Rightarrow> nat \<Rightarrow> vfs \<Rightarrow> vfs" where
  "FreeDentryTree 0 d s = s"
| "FreeDentryTree (Suc depth) d s =
     (case Dentries s d of
        None \<Rightarrow> s
      | Some x \<Rightarrow>
          let s1 = ReleaseINode (EntryINode x) (fold (FreeDentryTree depth) (EntryChildren x) s)
          in s1\<lparr>Dentries := (Dentries s1)(d := None)\<rparr>)"

definition FreeTree :: "nat \<Rightarrow> vfs \<Rightarrow> vfs" where
  "FreeTree d s = FreeDentryTree (NextDentry s) d s"

fun IsDescendant_loop :: "nat \<Rightarrow> vfs \<Rightarrow> nat option \<Rightarrow> nat \<Rightarrow> bool" where
  "IsDescendant_loop 0 s Current Ancestor = False"
| "IsDescendant_loop (Suc n) s Current Ancestor =
     (case Current of
        None \<Rightarrow> False
      | Some c \<Rightarrow>
          if c = Ancestor then True
          else IsDescendant_loop n s (case Dentries s c of None \<Rightarrow> None | Some d \<Rightarrow> EntryParent d) Ancestor)"

definition IsDescendantDentry :: "vfs \<Rightarrow> nat \<Rightarrow> nat \<Rightarrow> bool" where
  "IsDescendantDentry s Descendant Ancestor = IsDescendant_loop (NextDentry s) s (Some Descendant) Ancestor"

section \<open>Resolution of a path\<close>

text \<open>Where the walk of a path starts: the entry the path is already, or the entry and the text left to walk.\<close>

definition StartOfPath :: "nat \<Rightarrow> nat \<Rightarrow> string \<Rightarrow> nat + nat \<times> string" where
  "StartOfPath RootDentry StartDentry Path =
     (if Path \<noteq> [] \<and> hd Path = PATH_SEPARATOR then
        let EffectivePath = NormalizePathStart Path
        in if IsRootAliasPath EffectivePath then Inl RootDentry else Inr (RootDentry, EffectivePath)
      else let EffectivePath = SkipDotSeparator Path
           in if EffectivePath = [] then Inl StartDentry else Inr (StartDentry, EffectivePath))"

text \<open>The target of a symbolic link followed by the rest of the path; a NUL in the target ends both.\<close>

definition CombinedPath :: "string \<Rightarrow> string \<Rightarrow> string" where
  "CombinedPath Target SegmentEnd =
     (let Remainder = (if SegmentEnd \<noteq> [] \<and> hd SegmentEnd = PATH_SEPARATOR then tl SegmentEnd else SegmentEnd);
          Separator = (if Remainder \<noteq> [] \<and> Target \<noteq> [] \<and> last Target \<noteq> PATH_SEPARATOR then [PATH_SEPARATOR] else [])
      in takeWhile (\<lambda>c. c \<noteq> NUL) (Target @ Separator @ Remainder))"

definition ParentOr :: "vfs \<Rightarrow> nat \<Rightarrow> nat \<Rightarrow> nat" where
  "ParentOr s d other = (case Dentries s d of None \<Rightarrow> other | Some x \<Rightarrow> (case EntryParent x of None \<Rightarrow> other | Some p \<Rightarrow> p))"

text \<open>The target of a link, loaded when it has not been yet.\<close>

definition LinkTarget :: "loader \<Rightarrow> nat \<Rightarrow> vfs \<Rightarrow> string option \<times> vfs" where
  "LinkTarget e i s =
     (case INodes s i of
        None \<Rightarrow> (None, s)
      | Some n \<Rightarrow>
          (case (if NodeData n = None then EnsureLazyLoadedINodeData e i s else (True, s)) of
             (False, s1) \<Rightarrow> (None, s1)
           | (True, s1) \<Rightarrow>
          (case NodeData (the (INodes s1 i)) of
             None \<Rightarrow> (None, s1)
           | Some a \<Rightarrow> (Some (map (\<lambda>b. char_of (unat b)) (LoadBytes s1 a (NodeSize (the (INodes s1 i))))), s1))))"

function ResolveSegments ::
    "loader \<Rightarrow> bool \<Rightarrow> nat \<Rightarrow> nat \<Rightarrow> nat \<Rightarrow> string \<Rightarrow> vfs \<Rightarrow> nat option \<times> vfs" where
  "ResolveSegments e FollowFinal RootDentry Depth Current p s =
     (if dropWhile IsSeparator p = [] then (Some Current, s)
      else let seg = SegmentOf p; SegmentEnd = AfterSegment p
      in if IsDotSegment seg then ResolveSegments e FollowFinal RootDentry Depth Current SegmentEnd s
      else if IsDotDotSegment seg
        then ResolveSegments e FollowFinal RootDentry Depth (ParentOr s Current Current) SegmentEnd s
      else case FindChildBySegment s Current seg of
        None \<Rightarrow> (None, s)
      | Some Next \<Rightarrow>
     (case EntryINode (the (Dentries s Next)) of
        None \<Rightarrow> (None, s)
      | Some i \<Rightarrow>
          if NodeType (the (INodes s i)) = INODE_SYMLINK then
            (if \<not> FollowFinal \<and> SegmentEnd = [] then ResolveSegments e FollowFinal RootDentry Depth Next SegmentEnd s
             else (case Depth of
               0 \<Rightarrow> (None, s)
             | Suc RemainingDepth \<Rightarrow>
            (case LinkTarget e i s of
               (None, s1) \<Rightarrow> (None, s1)
             | (Some Target, s1) \<Rightarrow>
            (let SymlinkBase = (if Target \<noteq> [] \<and> hd Target = PATH_SEPARATOR then RootDentry else ParentOr s1 Next RootDentry)
             in case StartOfPath RootDentry SymlinkBase (CombinedPath Target SegmentEnd) of
                  Inl d \<Rightarrow> (Some d, s1)
                | Inr (c, q) \<Rightarrow> ResolveSegments e FollowFinal RootDentry RemainingDepth c q s1))))
          else ResolveSegments e FollowFinal RootDentry Depth Next SegmentEnd s))"
  by pat_completeness auto

termination
  by (relation "measures [\<lambda>(e, f, r, d, c, p, s). d, \<lambda>(e, f, r, d, c, p, s). length p]")
    (auto simp: AfterSegment_shorter simp del: dropWhile_eq_Nil_conv)

declare ResolveSegments.simps [simp del]

definition ResolvePathInternal :: "loader \<Rightarrow> nat \<Rightarrow> nat \<Rightarrow> string \<Rightarrow> nat \<Rightarrow> bool \<Rightarrow> vfs \<Rightarrow> nat option \<times> vfs" where
  "ResolvePathInternal e RootDentry StartDentry Path Depth FollowFinal s =
     (case StartOfPath RootDentry StartDentry Path of
        Inl d \<Rightarrow> (Some d, s)
      | Inr (c, p) \<Rightarrow> ResolveSegments e FollowFinal RootDentry Depth c p s)"

definition Lookup :: "loader \<Rightarrow> string \<Rightarrow> vfs \<Rightarrow> nat option \<times> vfs" where
  "Lookup e path s =
     (case Root s of None \<Rightarrow> (None, s) | Some r \<Rightarrow> ResolvePathInternal e r r path MAX_SYMLINK_FOLLOW_DEPTH True s)"

definition LookupNoFollowFinal :: "loader \<Rightarrow> string \<Rightarrow> vfs \<Rightarrow> nat option \<times> vfs" where
  "LookupNoFollowFinal e path s =
     (case Root s of None \<Rightarrow> (None, s) | Some r \<Rightarrow> ResolvePathInternal e r r path MAX_SYMLINK_FOLLOW_DEPTH False s)"

section \<open>Making a path exist\<close>

definition ResetNode :: "file_type \<Rightarrow> nat \<Rightarrow> ptr \<Rightarrow> inode \<Rightarrow> inode" where
  "ResetNode Type Size Data n =
     n\<lparr>NodeType := Type, NodeSize := Size, NodeData := Data, IsLazyLoad := False, LazyDataBackedByPMM := False,
       LazyDataPageCount := 0, BackingInodeNumber := 0, LazyLoadRefCount := 0, LazyLoadContext := None\<rparr>"

definition on_inode_of :: "nat \<Rightarrow> (inode \<Rightarrow> inode) \<Rightarrow> vfs \<Rightarrow> vfs" where
  "on_inode_of d f s =
     (case Dentries s d of None \<Rightarrow> s | Some x \<Rightarrow> (case EntryINode x of None \<Rightarrow> s | Some i \<Rightarrow> on_inode i f s))"

definition NewEntry :: "nat \<Rightarrow> string \<Rightarrow> file_type \<Rightarrow> nat \<Rightarrow> ptr \<Rightarrow> vfs \<Rightarrow> nat \<times> vfs" where
  "NewEntry Parent seg Type Size Data s =
     (case CreateINode Type Size Data s of (i, s1) \<Rightarrow>
      case CreateDentry seg (Some Parent) (Some i) s1 of (Child, s2) \<Rightarrow> (Child, AppendChild Parent Child s2))"

function EnsureSegments :: "file_type \<Rightarrow> nat \<Rightarrow> ptr \<Rightarrow> nat \<Rightarrow> string \<Rightarrow> vfs \<Rightarrow> vfs" where
  "EnsureSegments Type Size Data Current p s =
     (if dropWhile IsSeparator p = [] then s
      else let seg = SegmentOf p; SegmentEnd = AfterSegment p; IsFinalSegment = (SegmentEnd = [])
      in case FindChildBySegment s Current seg of
           None \<Rightarrow>
             (case (if IsFinalSegment then NewEntry Current seg Type Size Data s else NewEntry Current seg INODE_DIR 0 None s) of
                (Child, s1) \<Rightarrow> EnsureSegments Type Size Data Child SegmentEnd s1)
         | Some Child \<Rightarrow>
             EnsureSegments Type Size Data Child SegmentEnd
               (if IsFinalSegment then on_inode_of Child (ResetNode Type Size Data) s else s))"
  by pat_completeness auto

termination
  by (relation "measure (\<lambda>(t, n, d, c, p, s). length p)") (simp_all add: AfterSegment_shorter)

declare EnsureSegments.simps [simp del]

definition EnsurePathDentry :: "nat \<Rightarrow> string \<Rightarrow> file_type \<Rightarrow> nat \<Rightarrow> ptr \<Rightarrow> vfs \<Rightarrow> vfs" where
  "EnsurePathDentry RootDentry Path Type Size Data s =
     (let p = NormalizePathStart Path
      in if IsRootAliasPath p then on_inode_of RootDentry (ResetNode INODE_DIR 0 None) s
         else EnsureSegments Type Size Data RootDentry p s)"

section \<open>Mounting\<close>

definition DecodeNodeType :: "RamFileSystemEntryType \<Rightarrow> file_type" where
  "DecodeNodeType t =
     (if t = RamFileSystemEntryTypeDirectory then INODE_DIR
      else if t = RamFileSystemEntryTypeRegularFile then INODE_FILE
      else if t = RamFileSystemEntryTypeSymbolicLink then INODE_SYMLINK
      else INODE_DEV)"

text \<open>The context of \<open>MountEntryCallback\<close> is the flag \<open>IsSuccessful\<close> and the state.\<close>

definition MountEntryCallback :: "ram_fs \<Rightarrow> nat \<Rightarrow> (bool \<times> vfs) callback" where
  "MountEntryCallback fs RootDentry ctx Entry =
     do { name \<leftarrow> c_string (Archive fs) (EName Entry);
          Some (fst ctx, (fst ctx, EnsurePathDentry RootDentry name (DecodeNodeType (EType Entry)) (ESize Entry)
                                     (Some (InitramfsAddress fs + EData Entry)) (snd ctx))) }"

definition MountInitRamFileSystem :: "ram_fs option \<Rightarrow> vfs \<Rightarrow> vfs option" where
  "MountInitRamFileSystem ram s =
     (let s1 = (case Root s of None \<Rightarrow> s | Some r \<Rightarrow> (FreeTree r s)\<lparr>Root := None\<rparr>)
      in case CreateINode INODE_DIR 0 None s1 of (i, s2) \<Rightarrow>
         case CreateDentry ''/'' None (Some i) s2 of (r, s3) \<Rightarrow>
           let s4 = s3\<lparr>Root := Some r, isEXT := False, ActiveExtendedFileSystem := None\<rparr>
           in case ram of
                None \<Rightarrow> Some s4
              | Some fs \<Rightarrow> map_option (\<lambda>(ok, ctx). snd ctx) (EnumerateEntries fs (Some (MountEntryCallback fs r)) (True, s4)))"

datatype ext_entry_type =
    ExtendedFileSystemEntryTypeUnknown | ExtendedFileSystemEntryTypeRegularFile
  | ExtendedFileSystemEntryTypeDirectory | ExtendedFileSystemEntryTypeSymbolicLink | ExtendedFileSystemEntryTypeOther

record ext_entry =
  XName :: string
  XType :: ext_entry_type
  XSize :: nat
  XData :: ptr
  XInodeNumber :: nat

definition DecodeExtNodeType :: "ext_entry_type \<Rightarrow> file_type" where
  "DecodeExtNodeType t =
     (if t = ExtendedFileSystemEntryTypeDirectory then INODE_DIR
      else if t = ExtendedFileSystemEntryTypeRegularFile then INODE_FILE
      else if t = ExtendedFileSystemEntryTypeSymbolicLink then INODE_SYMLINK
      else INODE_FILE)"

definition ComposeMountPath :: "string \<Rightarrow> string \<Rightarrow> string" where
  "ComposeMountPath MountPath EntryPath =
     (let RelativePath = dropWhile IsSeparator EntryPath;
          MountIsRoot = (MountPath = [PATH_SEPARATOR]);
          NeedsSeparator = (MountPath \<noteq> [] \<and> \<not> MountIsRoot \<and> last MountPath \<noteq> PATH_SEPARATOR \<and> RelativePath \<noteq> [])
      in MountPath @ (if NeedsSeparator then [PATH_SEPARATOR] else []) @ RelativePath)"

definition MountEXTEntryCallback ::
    "loader \<Rightarrow> nat \<Rightarrow> string \<Rightarrow> addr \<Rightarrow> ext_entry \<Rightarrow> bool \<times> vfs \<Rightarrow> bool \<times> bool \<times> vfs" where
  "MountEXTEntryCallback e RootDentry MountPath Manager Entry ctx =
     (let TargetPath = ComposeMountPath MountPath (XName Entry);
          t = DecodeExtNodeType (XType Entry);
          d = (if t = INODE_DIR \<or> XName Entry = [PATH_SEPARATOR] then Some Manager else XData Entry);
          s1 = EnsurePathDentry RootDentry TargetPath t (XSize Entry) d (snd ctx)
      in case ResolvePathInternal e RootDentry RootDentry TargetPath MAX_SYMLINK_FOLLOW_DEPTH False s1 of
           (None, s2) \<Rightarrow> (fst ctx, fst ctx, s2)
         | (Some m, s2) \<Rightarrow>
             let lazy = ((t = INODE_FILE \<or> t = INODE_SYMLINK) \<and> XData Entry = None \<and> XInodeNumber Entry \<noteq> 0);
                 s3 = on_inode_of m (\<lambda>n. n\<lparr>IsLazyLoad := lazy, LazyDataBackedByPMM := False, LazyDataPageCount := 0,
                        BackingInodeNumber := (if lazy then XInodeNumber Entry else 0), LazyLoadRefCount := 0,
                        LazyLoadContext := (if lazy then Some Manager else None)\<rparr>) s2
             in (fst ctx, fst ctx, s3))"

definition MountEXTFileSystem ::
    "loader \<Rightarrow> ((ext_entry \<Rightarrow> bool \<times> vfs \<Rightarrow> bool \<times> bool \<times> vfs) \<Rightarrow> bool \<times> vfs \<Rightarrow> bool \<times> bool \<times> vfs) \<Rightarrow>
     ptr \<Rightarrow> string option \<Rightarrow> vfs \<Rightarrow> bool \<times> vfs" where
  "MountEXTFileSystem e EnumerateExt Manager MountPath s =
     (case (Manager, MountPath) of
        (Some m, Some path) \<Rightarrow>
          if \<not> FileSystemInitialized e m then (False, s)
          else
            let s1 = (case Root s of
                        Some r \<Rightarrow> s
                      | None \<Rightarrow> (case CreateINode INODE_DIR 0 None s of (i, s') \<Rightarrow>
                                 case CreateDentry ''/'' None (Some i) s' of (r, s'') \<Rightarrow> s''\<lparr>Root := Some r\<rparr>));
                r = the (Root s1);
                s2 = EnsurePathDentry r path INODE_DIR 0 (Some m) s1
            in (case EnumerateExt (MountEXTEntryCallback e r path m) (True, s2) of
                  (ok, success, s3) \<Rightarrow>
                    if \<not> ok \<or> \<not> success then (False, s3)
                    else (True, s3\<lparr>isEXT := True, ActiveExtendedFileSystem := Some m\<rparr>))
      | _ \<Rightarrow> (False, s))"

section \<open>Changing the tree\<close>

text \<open>In each operation \<open>Ext\<close> is the answer of the extended file system when it is asked.\<close>

definition asks_ext :: "vfs \<Rightarrow> bool" where
  "asks_ext s \<longleftrightarrow> isEXT s \<and> ActiveExtendedFileSystem s \<noteq> None"

definition CreateFile :: "loader \<Rightarrow> bool \<Rightarrow> string option \<Rightarrow> file_type \<Rightarrow> vfs \<Rightarrow> bool \<times> vfs" where
  "CreateFile e Ext path Type s =
     (case (Root s, path) of
        (Some r, Some p) \<Rightarrow>
          (case Lookup e p s of
             (Some d, s1) \<Rightarrow> (False, s1)
           | (None, s1) \<Rightarrow>
               if Type \<noteq> INODE_DIR \<and> Type \<noteq> INODE_FILE \<and> Type \<noteq> INODE_SYMLINK then (False, s1)
               else if asks_ext s1 then
                 (if \<not> Ext then (False, s1)
                  else (True, EnsurePathDentry r p Type 0 (if Type = INODE_DIR then ActiveExtendedFileSystem s1 else None) s1))
               else (True, EnsurePathDentry r p Type 0 None s1))
      | _ \<Rightarrow> (False, s))"

text \<open>The last segment of a new path and what comes before it.\<close>

definition SplitNewPath :: "string \<Rightarrow> (string \<times> string) option" where
  "SplitNewPath newPath =
     (let p = NormalizePathStart newPath
      in if IsRootAliasPath p then None
         else let q = rev (dropWhile IsSeparator (rev p));
                  NewName = rev (takeWhile (\<lambda>c. \<not> IsSeparator c) (rev q))
         in if q = [] then None
            else if NewName = [] then None
            else if IsDotSegment NewName \<or> IsDotDotSegment NewName then None
            else Some (take (length q - length NewName) q, NewName))"

text \<open>The directory the parent part of a new path names; links, dots and missing directories are refused.\<close>

function WalkToParent :: "vfs \<Rightarrow> nat \<Rightarrow> string \<Rightarrow> nat option" where
  "WalkToParent s TargetParent p =
     (if dropWhile IsSeparator p = [] then Some TargetParent
      else let seg = SegmentOf p
      in if IsDotSegment seg \<or> IsDotDotSegment seg then None
      else case FindChildBySegment s TargetParent seg of
        None \<Rightarrow> None
      | Some Next \<Rightarrow>
          (case EntryINode (the (Dentries s Next)) of
             None \<Rightarrow> None
           | Some i \<Rightarrow>
               if NodeType (the (INodes s i)) \<noteq> INODE_DIR then None else WalkToParent s Next (AfterSegment p)))"
  by pat_completeness auto

termination
  by (relation "measure (\<lambda>(s, d, p). length p)") (simp_all add: AfterSegment_shorter)

declare WalkToParent.simps [simp del]

definition LinkFile :: "loader \<Rightarrow> string option \<Rightarrow> string option \<Rightarrow> vfs \<Rightarrow> bool \<times> vfs" where
  "LinkFile e existingPath newPath s =
     (case (Root s, existingPath, newPath) of
        (Some r, Some old, Some new) \<Rightarrow>
          (case LookupNoFollowFinal e old s of
             (None, s1) \<Rightarrow> (False, s1)
           | (Some Source, s1) \<Rightarrow>
          (case (EntryINode (the (Dentries s1 Source)), EntryParent (the (Dentries s1 Source))) of
             (Some i, Some par) \<Rightarrow>
               if Source = r then (False, s1)
               else if NodeType (the (INodes s1 i)) \<noteq> INODE_FILE then (False, s1)
               else (case LookupNoFollowFinal e new s1 of
                  (Some d, s2) \<Rightarrow> (False, s2)
                | (None, s2) \<Rightarrow>
               (case SplitNewPath new of
                  None \<Rightarrow> (False, s2)
                | Some (ParentPath, NewName) \<Rightarrow>
               (case WalkToParent s2 r ParentPath of
                  None \<Rightarrow> (False, s2)
                | Some TargetParent \<Rightarrow>
                    if FindChildBySegment s2 TargetParent NewName \<noteq> None then (False, s2)
                    else let s3 = on_inode i (\<lambda>n. n\<lparr>UsesVirtualHardLinks := (asks_ext s2 \<or> UsesVirtualHardLinks n),
                                    LinkReferenceCount := LinkReferenceCount n + 1\<rparr>) s2
                         in case CreateDentry NewName (Some TargetParent) (Some i) s3 of
                              (LinkedEntry, s4) \<Rightarrow> (True, AppendChild TargetParent LinkedEntry s4))))
           | _ \<Rightarrow> (False, s1)))
      | _ \<Rightarrow> (False, s))"

definition DeleteFile :: "loader \<Rightarrow> bool \<Rightarrow> string option \<Rightarrow> file_type \<Rightarrow> vfs \<Rightarrow> bool \<times> vfs" where
  "DeleteFile e Ext path Type s =
     (case (Root s, path) of
        (Some r, Some p) \<Rightarrow>
          if Type \<noteq> INODE_DIR \<and> Type \<noteq> INODE_FILE then (False, s)
          else (case LookupNoFollowFinal e p s of
             (None, s1) \<Rightarrow> (False, s1)
           | (Some Existing, s1) \<Rightarrow>
          (case (EntryINode (the (Dentries s1 Existing)), EntryParent (the (Dentries s1 Existing))) of
             (Some i, Some par) \<Rightarrow>
               if Existing = r then (False, s1)
               else if NodeType (the (INodes s1 i)) \<noteq> Type then (False, s1)
               else if Type = INODE_DIR \<and> EntryChildren (the (Dentries s1 Existing)) \<noteq> [] then (False, s1)
               else if asks_ext s1 \<and> \<not> (Type \<noteq> INODE_DIR \<and> UsesVirtualHardLinks (the (INodes s1 i))) \<and> \<not> Ext then (False, s1)
               else (case RemoveChild par Existing s1 of
                  (False, s2) \<Rightarrow> (False, s2)
                | (True, s2) \<Rightarrow> (True, FreeTree Existing (on_dentry Existing (\<lambda>d. d\<lparr>EntryParent := None\<rparr>) s2)))
           | _ \<Rightarrow> (False, s1)))
      | _ \<Rightarrow> (False, s))"

definition RenameFile :: "loader \<Rightarrow> bool \<Rightarrow> string option \<Rightarrow> string option \<Rightarrow> file_type \<Rightarrow> vfs \<Rightarrow> bool \<times> vfs" where
  "RenameFile e Ext oldPath newPath Type s =
     (case (Root s, oldPath, newPath) of
        (Some r, Some old, Some new) \<Rightarrow>
          if Type \<noteq> INODE_DIR \<and> Type \<noteq> INODE_FILE then (False, s)
          else (case LookupNoFollowFinal e old s of
             (None, s1) \<Rightarrow> (False, s1)
           | (Some Source, s1) \<Rightarrow>
          (case (EntryINode (the (Dentries s1 Source)), EntryParent (the (Dentries s1 Source))) of
             (Some i, Some par) \<Rightarrow>
               if Source = r then (False, s1)
               else if NodeType (the (INodes s1 i)) \<noteq> Type then (False, s1)
               else (case LookupNoFollowFinal e new s1 of
                  (Some Destination, s2) \<Rightarrow> (Destination = Source, s2)
                | (None, s2) \<Rightarrow>
               (case SplitNewPath new of
                  None \<Rightarrow> (False, s2)
                | Some (ParentPath, NewName) \<Rightarrow>
               (case WalkToParent s2 r ParentPath of
                  None \<Rightarrow> (False, s2)
                | Some TargetParent \<Rightarrow>
                    if FindChildBySegment s2 TargetParent NewName \<noteq> None then (False, s2)
                    else if Type = INODE_DIR \<and> (Source = TargetParent \<or> IsDescendantDentry s2 TargetParent Source) then (False, s2)
                    else if asks_ext s2 \<and> \<not> Ext then (False, s2)
                    else (case RemoveChild par Source s2 of
                       (False, s3) \<Rightarrow> (False, s3)
                     | (True, s3) \<Rightarrow>
                         (True, on_dentry Source (\<lambda>d. d\<lparr>EntryName := NewName\<rparr>) (AppendChild TargetParent Source s3))))))
           | _ \<Rightarrow> (False, s1)))
      | _ \<Rightarrow> (False, s))"

definition RegisterDevice :: "loader \<Rightarrow> string option \<Rightarrow> ptr \<Rightarrow> file_operations option \<Rightarrow> vfs \<Rightarrow> bool \<times> vfs" where
  "RegisterDevice e path DeviceData Operations s =
     (case (Root s, path, Operations) of
        (Some r, Some p, Some ops) \<Rightarrow>
          (case Lookup e p (EnsurePathDentry r p INODE_DEV 0 DeviceData s) of
             (None, s2) \<Rightarrow> (False, s2)
           | (Some d, s2) \<Rightarrow>
               if EntryINode (the (Dentries s2 d)) = None then (False, s2)
               else (True, on_inode_of d (\<lambda>n. n\<lparr>NodeType := INODE_DEV, NodeSize := 0, NodeData := DeviceData, FileOps := ops\<rparr>) s2))
      | _ \<Rightarrow> (False, s))"

text \<open>The move of the entries of the old \<open>/dev\<close> into that of a new root.\<close>

fun TransferChildren :: "nat \<Rightarrow> nat \<Rightarrow> nat \<Rightarrow> nat \<Rightarrow> vfs \<Rightarrow> vfs" where
  "TransferChildren 0 OldDev NewDev ChildIndex s = s"
| "TransferChildren (Suc n) OldDev NewDev ChildIndex s =
     (let Children = EntryChildren (the (Dentries s OldDev))
      in if ChildIndex \<ge> length Children then s
         else let Child = Children ! ChildIndex; Name = EntryName (the (Dentries s Child))
         in if Name = [] then TransferChildren n OldDev NewDev (Suc ChildIndex) s
            else if FindChildBySegment s NewDev Name \<noteq> None then TransferChildren n OldDev NewDev (Suc ChildIndex) s
            else (case RemoveChild OldDev Child s of
                    (False, s1) \<Rightarrow> TransferChildren n OldDev NewDev (Suc ChildIndex) s1
                  | (True, s1) \<Rightarrow> TransferChildren n OldDev NewDev ChildIndex (AppendChild NewDev Child s1)))"

definition TransferDevDirectoryIfMissing :: "nat option \<Rightarrow> nat \<Rightarrow> vfs \<Rightarrow> vfs" where
  "TransferDevDirectoryIfMissing OldRoot NewRoot s =
     (case OldRoot of
        None \<Rightarrow> s
      | Some old \<Rightarrow>
          if old = NewRoot then s
          else (case FindChildBySegment s old DEV_DIRECTORY_NAME of
             None \<Rightarrow> s
           | Some Dev \<Rightarrow>
          (case EntryParent (the (Dentries s Dev)) of
             None \<Rightarrow> s
           | Some PreviousParent \<Rightarrow>
               if Dev = NewRoot \<or> IsDescendantDentry s NewRoot Dev then s
               else (case FindChildBySegment s NewRoot DEV_DIRECTORY_NAME of
                  Some Existing \<Rightarrow>
                    (case EntryINode (the (Dentries s Existing)) of
                       None \<Rightarrow> s
                     | Some i \<Rightarrow>
                         if NodeType (the (INodes s i)) \<noteq> INODE_DIR then s
                         else TransferChildren (length (EntryChildren (the (Dentries s Dev)))) Dev Existing 0 s)
                | None \<Rightarrow>
                    (case RemoveChild PreviousParent Dev s of
                       (False, s1) \<Rightarrow> s1
                     | (True, s1) \<Rightarrow> AppendChild NewRoot Dev s1)))))"

definition SetRoot :: "nat option \<Rightarrow> vfs \<Rightarrow> bool \<times> vfs" where
  "SetRoot RootDentry s =
     (case RootDentry of
        None \<Rightarrow> (False, s)
      | Some d \<Rightarrow>
     (case EntryINode (the (Dentries s d)) of
        None \<Rightarrow> (False, s)
      | Some i \<Rightarrow>
          if NodeType (the (INodes s i)) \<noteq> INODE_DIR then (False, s)
          else let s1 = on_dentry d (\<lambda>x. x\<lparr>EntryName := ''/''\<rparr>) s;
                   s2 = TransferDevDirectoryIfMissing (Root s) d s1;
                   s3 = (on_dentry d (\<lambda>x. x\<lparr>EntryParent := None\<rparr>) s2)\<lparr>Root := Some d\<rparr>
               in (True, s3\<lparr>isEXT := (NodeData (the (INodes s3 i)) \<noteq> None \<and>
                                      NodeData (the (INodes s3 i)) = ActiveExtendedFileSystem s3)\<rparr>)))"

end
