(* ===== verification/File_Tree.thy ===== *)
theory File_Tree imports Virtual_File_System "HOL-Library.Sublist" begin

text \<open>
  The tree of \<open>VirtualFileSystem.cpp\<close>: walks by names, well-formed entries and their unique paths, what cutting
  and grafting a branch do to the paths, reference counts and the freeing of a tree, the invariant \<open>vfs_wf\<close>, and
  that resolving a path stays in the tree and changes none of it.
\<close>

section \<open>Walking down by names\<close>

lemma MatchSegmentName_iff [simp]: "MatchSegmentName n seg \<longleftrightarrow> n = seg"
  by (induction n seg rule: MatchSegmentName.induct) auto

fun walk :: "vfs \<Rightarrow> nat \<Rightarrow> string list \<Rightarrow> nat option" where
  "walk s d [] = Some d"
| "walk s d (n # ns) = (case FindChildBySegment s d n of None \<Rightarrow> None | Some c \<Rightarrow> walk s c ns)"

lemma walk_append: "walk s d (ps @ qs) = (case walk s d ps of None \<Rightarrow> None | Some x \<Rightarrow> walk s x qs)"
  by (induction ps arbitrary: d) (auto split: option.split)

lemma walk_snoc: "walk s d (ps @ [n]) = (case walk s d ps of None \<Rightarrow> None | Some x \<Rightarrow> FindChildBySegment s x n)"
  by (auto simp: walk_append split: option.split)

definition tree_below :: "vfs \<Rightarrow> nat \<Rightarrow> nat set" where
  "tree_below s d = {x. \<exists>ps. walk s d ps = Some x}"

lemma tree_below_self [simp]: "d \<in> tree_below s d"
  unfolding tree_below_def by (metis (mono_tags) mem_Collect_eq walk.simps(1))

lemma tree_below_step: "x \<in> tree_below s d \<Longrightarrow> FindChildBySegment s x n = Some c \<Longrightarrow> c \<in> tree_below s d"
proof -
  assume "x \<in> tree_below s d" and c: "FindChildBySegment s x n = Some c"
  then obtain ps where "walk s d ps = Some x" by (auto simp: tree_below_def)
  then have "walk s d (ps @ [n]) = Some c" using c by (simp add: walk_snoc)
  then show ?thesis unfolding tree_below_def by blast
qed

lemma tree_below_trans: "x \<in> tree_below s d \<Longrightarrow> y \<in> tree_below s x \<Longrightarrow> y \<in> tree_below s d"
proof -
  assume "x \<in> tree_below s d" "y \<in> tree_below s x"
  then obtain ps qs where "walk s d ps = Some x" "walk s x qs = Some y" by (auto simp: tree_below_def)
  then have "walk s d (ps @ qs) = Some y" by (simp add: walk_append)
  then show ?thesis unfolding tree_below_def by blast
qed

section \<open>Well-formed entries\<close>

definition name_of :: "vfs \<Rightarrow> nat \<Rightarrow> string" where
  "name_of s d = EntryName (the (Dentries s d))"

definition entry_ok :: "vfs \<Rightarrow> nat \<Rightarrow> bool" where
  "entry_ok s d \<longleftrightarrow>
     (\<exists>x. Dentries s d = Some x \<and> EntryINode x \<noteq> None \<and> distinct (EntryChildren x) \<and>
        inj_on (name_of s) (set (EntryChildren x)) \<and>
        (\<forall>c\<in>set (EntryChildren x). \<exists>y. Dentries s c = Some y \<and> EntryParent y = Some d))"

lemma find_inj:
  "c \<in> set xs \<Longrightarrow> inj_on f (set xs) \<Longrightarrow> List.find (\<lambda>c. f c = n) xs = Some c \<longleftrightarrow> f c = n"
proof (induction xs)
  case (Cons a xs)
  show ?case
  proof (cases "f a = n")
    case True
    with Cons.prems show ?thesis by (auto simp: inj_on_def)
  next
    case False
    have "List.find (\<lambda>c. f c = n) xs = Some c \<longleftrightarrow> f c = n"
    proof (cases "c \<in> set xs")
      case True
      then show ?thesis using Cons by (simp add: inj_on_def)
    next
      case out: False
      then have "c = a" using Cons.prems(1) by simp
      then show ?thesis using out False find_SomeD [of "\<lambda>c. f c = n" xs c] by blast
    qed
    then show ?thesis using False by simp
  qed
qed simp

lemma FindChild_ok:
  assumes ok: "entry_ok s d"
  shows "FindChildBySegment s d n = Some c \<longleftrightarrow> (\<exists>x. Dentries s d = Some x \<and> c \<in> set (EntryChildren x) \<and> name_of s c = n)"
proof -
  from ok obtain x where x: "Dentries s d = Some x" "inj_on (name_of s) (set (EntryChildren x))"
    "\<forall>c\<in>set (EntryChildren x). \<exists>y. Dentries s c = Some y \<and> EntryParent y = Some d" unfolding entry_ok_def by blast
  have eq: "FindChildBySegment s d n = List.find (\<lambda>c. name_of s c = n) (EntryChildren x)"
    unfolding FindChildBySegment_def x(1) option.case
  proof (rule find_cong [OF refl])
    fix c assume "c \<in> set (EntryChildren x)"
    then obtain y where "Dentries s c = Some y" using x(3) by blast
    then show "(case Dentries s c of None \<Rightarrow> False | Some d \<Rightarrow> MatchSegmentName (EntryName d) n) = (name_of s c = n)"
      by (simp add: name_of_def)
  qed
  show ?thesis
  proof
    assume f: "FindChildBySegment s d n = Some c"
    from find_SomeD [OF this [unfolded eq]] have "c \<in> set (EntryChildren x)" "name_of s c = n" by simp_all
    with x(1) show "\<exists>x. Dentries s d = Some x \<and> c \<in> set (EntryChildren x) \<and> name_of s c = n" by blast
  next
    assume "\<exists>x. Dentries s d = Some x \<and> c \<in> set (EntryChildren x) \<and> name_of s c = n"
    then have "c \<in> set (EntryChildren x)" "name_of s c = n" using x(1) by simp_all
    then show "FindChildBySegment s d n = Some c" unfolding eq using find_inj [OF _ x(2)] by blast
  qed
qed

lemma FindChild_parent:
  assumes "entry_ok s d" and "FindChildBySegment s d n = Some c"
  shows "\<exists>y. Dentries s c = Some y \<and> EntryParent y = Some d \<and> EntryName y = n"
  using assms FindChild_ok [OF assms(1)] by (fastforce simp: entry_ok_def name_of_def)

text \<open>A tree: well-formed entries below a root that is nobody's child.\<close>

definition parent_of :: "vfs \<Rightarrow> nat \<Rightarrow> nat option" where
  "parent_of s d = EntryParent (the (Dentries s d))"

definition entries_ok :: "vfs \<Rightarrow> nat \<Rightarrow> bool" where
  "entries_ok s r \<longleftrightarrow> (\<forall>d\<in>tree_below s r. entry_ok s d)"

definition unique_paths :: "vfs \<Rightarrow> nat \<Rightarrow> bool" where
  "unique_paths s r \<longleftrightarrow> (\<forall>ps qs d. walk s r ps = Some d \<longrightarrow> walk s r qs = Some d \<longrightarrow> ps = qs)"

lemma entries_okD: "entries_ok s r \<Longrightarrow> walk s r ps = Some d \<Longrightarrow> entry_ok s d"
  unfolding entries_ok_def tree_below_def by blast

lemma walk_last:
  assumes ok: "entries_ok s r" and w: "walk s r (ps @ [n]) = Some d"
  shows "\<exists>p. walk s r ps = Some p \<and> FindChildBySegment s p n = Some d \<and> parent_of s d = Some p \<and> name_of s d = n"
proof -
  from w obtain p where p: "walk s r ps = Some p" "FindChildBySegment s p n = Some d" by (auto simp: walk_snoc split: option.splits)
  with FindChild_parent [OF entries_okD [OF ok p(1)] p(2)] show ?thesis by (auto simp: parent_of_def name_of_def)
qed

lemma unique_pathsI:
  assumes ok: "entries_ok s r" and root: "parent_of s r = None"
  shows "unique_paths s r"
proof -
  have "ps = qs" if "walk s r ps = Some d" "walk s r qs = Some d" for ps qs d
    using that
  proof (induction ps arbitrary: qs d rule: rev_induct)
    case Nil
    then have d: "d = r" by simp
    show ?case
    proof (cases qs rule: rev_cases)
      case (snoc qs' n)
      with Nil(2) d walk_last [OF ok] root show ?thesis by fastforce
    qed simp
  next
    case (snoc n ps)
    from walk_last [OF ok snoc.prems(1)] obtain p where
      p: "walk s r ps = Some p" "parent_of s d = Some p" "name_of s d = n" by blast
    show ?case
    proof (cases qs rule: rev_cases)
      case Nil
      with snoc.prems(2) p(2) root show ?thesis by simp
    next
      case qs: (snoc qs' m)
      from walk_last [OF ok snoc.prems(2) [unfolded qs]] p have "walk s r qs' = Some p" "m = n" by auto
      with snoc.IH [OF p(1)] qs show ?thesis by simp
    qed
  qed
  then show ?thesis unfolding unique_paths_def by blast
qed

lemma unique_pathsD: "unique_paths s r \<Longrightarrow> walk s r ps = Some d \<Longrightarrow> walk s r qs = Some d \<Longrightarrow> ps = qs"
  unfolding unique_paths_def by blast

lemma unique_paths_below: "unique_paths s r \<Longrightarrow> walk s r ps = Some d \<Longrightarrow> unique_paths s d"
proof -
  assume u: "unique_paths s r" "walk s r ps = Some d"
  have "qs = rs" if "walk s d qs = Some x" "walk s d rs = Some x" for qs rs x
  proof -
    have "walk s r (ps @ qs) = Some x" "walk s r (ps @ rs) = Some x" using that u(2) by (simp_all add: walk_append)
    then have "ps @ qs = ps @ rs" using u(1) unfolding unique_paths_def by blast
    then show ?thesis by simp
  qed
  then show ?thesis unfolding unique_paths_def by blast
qed

lemma entries_ok_below: "entries_ok s r \<Longrightarrow> walk s r ps = Some d \<Longrightarrow> entries_ok s d"
  unfolding entries_ok_def using tree_below_trans [of d s r] by (auto simp: tree_below_def walk_append)

text \<open>A path is shorter than the number of entries ever created.\<close>

lemma walk_prefix: "walk s r ps = Some d \<Longrightarrow> \<exists>x. walk s r (take k ps) = Some x"
proof -
  assume "walk s r ps = Some d"
  then have "walk s r (take k ps @ drop k ps) = Some d" by simp
  then show ?thesis unfolding walk_append by (cases "walk s r (take k ps)") simp_all
qed

lemma walk_length:
  assumes u: "unique_paths s r" and ok: "entries_ok s r" and small: "\<And>d. Dentries s d \<noteq> None \<Longrightarrow> d < NextDentry s"
    and w: "walk s r ps = Some d"
  shows "length ps < NextDentry s"
proof -
  define f where "f k = the (walk s r (take k ps))" for k
  have f: "walk s r (take k ps) = Some (f k)" for k using walk_prefix [OF w, of k] by (auto simp: f_def)
  have "inj_on f {..length ps}"
  proof (rule inj_onI)
    fix i j assume ij: "i \<in> {..length ps}" "j \<in> {..length ps}" "f i = f j"
    then have "take i ps = take j ps" using f [of i] f [of j] u unfolding unique_paths_def by metis
    then have "length (take i ps) = length (take j ps)" by simp
    with ij show "i = j" by simp
  qed
  moreover have "f ` {..length ps} \<subseteq> {..<NextDentry s}"
    using entries_okD [OF ok f] small by (auto simp: entry_ok_def)
  ultimately have "card {..length ps} \<le> card {..<NextDentry s}" by (intro card_inj_on_le) auto
  then show ?thesis by simp
qed

section \<open>Changing one place of a tree\<close>

lemma walk_below: "x \<in> tree_below s d \<Longrightarrow> (\<And>x n. x \<in> tree_below s d \<Longrightarrow> FindChildBySegment s' x n = FindChildBySegment s x n) \<Longrightarrow>
    walk s' x ps = walk s x ps"
  by (induction ps arbitrary: x) (auto split: option.split dest: tree_below_step)

lemma walk_agree:
  "(\<And>x n. x \<in> tree_below s d \<Longrightarrow> FindChildBySegment s' x n = FindChildBySegment s x n) \<Longrightarrow> walk s' d ps = walk s d ps"
  using walk_below [of d s d s'] by simp

lemma tree_below_agree:
  "(\<And>x n. x \<in> tree_below s d \<Longrightarrow> FindChildBySegment s' x n = FindChildBySegment s x n) \<Longrightarrow> tree_below s' d = tree_below s d"
  using walk_agree [of s d s'] unfolding tree_below_def by auto

lemma entry_child_below:
  assumes "entries_ok s r" and "d \<in> tree_below s r" and "Dentries s d = Some x" and "c \<in> set (EntryChildren x)"
  shows "c \<in> tree_below s r"
proof -
  have "FindChildBySegment s d (name_of s c) = Some c"
    using FindChild_ok [of s d] assms by (auto simp: entries_ok_def)
  then show ?thesis using tree_below_step assms(2) by blast
qed

text \<open>Entries untouched below \<open>d\<close> leave the tree below \<open>d\<close> as it was.\<close>

lemma same_below:
  assumes ok: "entries_ok s d" and same: "\<And>x. x \<in> tree_below s d \<Longrightarrow> Dentries s' x = Dentries s x"
  shows "entries_ok s' d" "walk s' d ps = walk s d ps" "tree_below s' d = tree_below s d"
proof -
  have find: "FindChildBySegment s' x n = FindChildBySegment s x n" if x: "x \<in> tree_below s d" for x n
  proof (cases "Dentries s x")
    case None
    then show ?thesis using same [OF x] by (simp add: FindChildBySegment_def)
  next
    case (Some e)
    have "Dentries s' c = Dentries s c" if "c \<in> set (EntryChildren e)" for c
      using same entry_child_below [OF ok x Some that] by blast
    then show ?thesis using same [OF x] Some unfolding FindChildBySegment_def by (auto intro!: find_cong)
  qed
  show "walk s' d ps = walk s d ps" by (rule walk_agree) (rule find)
  show t: "tree_below s' d = tree_below s d" by (rule tree_below_agree) (rule find)
  have "entry_ok s' x" if x: "x \<in> tree_below s d" for x
  proof -
    from ok x obtain e where e: "Dentries s x = Some e" and o: "entry_ok s x" by (auto simp: entries_ok_def entry_ok_def)
    have "Dentries s' c = Dentries s c" if "c \<in> set (EntryChildren e)" for c
      using same entry_child_below [OF ok x e that] by blast
    then have n: "name_of s' c = name_of s c" "Dentries s' c = Dentries s c" if "c \<in> set (EntryChildren e)" for c
      using that by (simp_all add: name_of_def)
    then have "inj_on (name_of s') (set (EntryChildren e)) = inj_on (name_of s) (set (EntryChildren e))" by (intro inj_on_cong) auto
    with o same [OF x] e n show ?thesis by (auto simp: entry_ok_def)
  qed
  then show "entries_ok s' d" unfolding entries_ok_def t by blast
qed

text \<open>What becomes of paths when only the child \<open>n\<close> of \<open>p\<close> changes.\<close>

lemma walk_changed:
  assumes u: "unique_paths s r" and pp: "walk s r pp = Some p"
    and ch: "\<And>d m. d \<in> tree_below s r \<Longrightarrow> (d, m) \<noteq> (p, n) \<Longrightarrow> FindChildBySegment s' d m = FindChildBySegment s d m"
  shows "\<not> prefix (pp @ [n]) qs \<Longrightarrow> walk s' r qs = walk s r qs"
    and "walk s' r (pp @ n # rs) = (case FindChildBySegment s' p n of None \<Rightarrow> None | Some c \<Rightarrow> walk s' c rs)"
proof -
  have other: "\<not> prefix (pp @ [n]) qs \<Longrightarrow> walk s' r qs = walk s r qs" for qs
  proof (induction qs rule: rev_induct)
    case (snoc m qs)
    then have q: "\<not> prefix (pp @ [n]) qs" "qs @ [m] \<noteq> pp @ [n]" by auto
    have IH: "walk s' r qs = walk s r qs" using snoc.IH [OF q(1)] .
    show ?case
    proof (cases "walk s r qs")
      case (Some d)
      have "(d, m) \<noteq> (p, n)" using q(2) u pp Some unfolding unique_paths_def by auto
      moreover have "d \<in> tree_below s r" using Some unfolding tree_below_def by blast
      ultimately have "FindChildBySegment s' d m = FindChildBySegment s d m" using ch by blast
      then show ?thesis using IH Some by (simp add: walk_snoc)
    qed (use IH in \<open>simp add: walk_snoc\<close>)
  qed simp
  then show "\<not> prefix (pp @ [n]) qs \<Longrightarrow> walk s' r qs = walk s r qs" .
  have "\<not> prefix (pp @ [n]) pp" by (auto dest: prefix_length_le)
  with other pp have "walk s' r pp = Some p" by simp
  then show "walk s' r (pp @ n # rs) = (case FindChildBySegment s' p n of None \<Rightarrow> None | Some c \<Rightarrow> walk s' c rs)"
    by (simp add: walk_append)
qed

text \<open>Nothing below a child leads back to the parent.\<close>

lemma no_way_up:
  assumes u: "unique_paths s r" and p: "walk s r pp = Some p" and c: "FindChildBySegment s p n = Some c"
  shows "p \<notin> tree_below s c"
proof
  assume "p \<in> tree_below s c"
  then obtain qs where "walk s c qs = Some p" by (auto simp: tree_below_def)
  then have "walk s r (pp @ n # qs) = Some p" using p c by (simp add: walk_append)
  then have "pp @ n # qs = pp" using unique_pathsD [OF u _ p] by blast
  then show False by simp
qed

section \<open>Cutting a branch\<close>

definition cut :: "nat \<Rightarrow> nat \<Rightarrow> vfs \<Rightarrow> vfs" where
  "cut p c s = on_dentry p (\<lambda>x. x\<lparr>EntryChildren := remove1 c (EntryChildren x)\<rparr>) s"

lemma cut_fields [simp]:
  "Root (cut p c s) = Root s" "INodes (cut p c s) = INodes s" "NextDentry (cut p c s) = NextDentry s"
  "NextINode (cut p c s) = NextINode s" "isEXT (cut p c s) = isEXT s" "ActiveExtendedFileSystem (cut p c s) = ActiveExtendedFileSystem s"
  "Contents (cut p c s) = Contents s" "Blocks (cut p c s) = Blocks s" "Releases (cut p c s) = Releases s"
  by (simp_all add: cut_def on_dentry_def)

lemma cut_dentry: "Dentries (cut p c s) d =
    (if d = p then map_option (\<lambda>x. x\<lparr>EntryChildren := remove1 c (EntryChildren x)\<rparr>) (Dentries s d) else Dentries s d)"
  by (simp add: cut_def on_dentry_def)

lemma cut_names [simp]: "name_of (cut p c s) = name_of s" "parent_of (cut p c s) d = parent_of s d"
proof -
  have "name_of (cut p c s) d = name_of s d \<and> parent_of (cut p c s) d = parent_of s d" for d
    by (cases "d = p"; cases "Dentries s d") (auto simp: name_of_def parent_of_def cut_dentry)
  then show "name_of (cut p c s) = name_of s" "parent_of (cut p c s) d = parent_of s d" by auto
qed

lemma RemoveChild_cut: "Dentries s p = Some x \<Longrightarrow> c \<in> set (EntryChildren x) \<Longrightarrow> RemoveChild p c s = (True, cut p c s)"
  by (simp add: RemoveChild_def cut_def)

definition branch_at :: "vfs \<Rightarrow> nat \<Rightarrow> string list \<Rightarrow> nat \<Rightarrow> string \<Rightarrow> nat \<Rightarrow> bool" where
  "branch_at s r pp p n c \<longleftrightarrow>
     entries_ok s r \<and> unique_paths s r \<and> walk s r pp = Some p \<and> FindChildBySegment s p n = Some c"

lemma branch_atD:
  assumes "branch_at s r pp p n c"
  shows "entries_ok s r" "unique_paths s r" "walk s r pp = Some p" "FindChildBySegment s p n = Some c"
    "p \<in> tree_below s r" "walk s r (pp @ [n]) = Some c" "p \<notin> tree_below s c"
  using assms no_way_up [of s r pp p n c] unfolding branch_at_def tree_below_def by (auto simp: walk_snoc)

lemma cut_entry:
  assumes b: "branch_at s r pp p n c" and d: "d \<in> tree_below s r"
  shows "entry_ok (cut p c s) d"
    and "FindChildBySegment (cut p c s) d m = (if (d, m) = (p, n) then None else FindChildBySegment s d m)"
proof -
  note ok = branch_atD(1) [OF b] and pp = branch_atD(3) [OF b] and c = branch_atD(4) [OF b]
  from ok d obtain x where x: "Dentries s d = Some x" and o: "entry_ok s d" by (auto simp: entries_ok_def entry_ok_def)
  have ci: "c \<in> set (EntryChildren y) \<and> name_of s c = n" if "Dentries s p = Some y" for y
    using c that FindChild_ok [OF entries_okD [OF ok pp]] by auto
  have sub: "set (EntryChildren y) \<subseteq> set (EntryChildren x)" if "Dentries (cut p c s) d = Some y" for y
    using that x by (auto simp: cut_dentry split: if_splits dest: subsetD [OF set_remove1_subset])
  have ex: "\<exists>y. Dentries (cut p c s) e = Some y \<and> EntryParent y = EntryParent z" if "Dentries s e = Some z" for e z
    using that by (auto simp: cut_dentry)
  show o': "entry_ok (cut p c s) d"
  proof -
    obtain y where y: "Dentries (cut p c s) d = Some y" "EntryINode y = EntryINode x" "distinct (EntryChildren y)"
      using x o by (cases "d = p") (auto simp: cut_dentry entry_ok_def)
    moreover have "inj_on (name_of s) (set (EntryChildren y))"
      using inj_on_subset [OF _ sub [OF y(1)]] o x by (auto simp: entry_ok_def)
    moreover have "\<exists>z. Dentries (cut p c s) e = Some z \<and> EntryParent z = Some d" if "e \<in> set (EntryChildren y)" for e
      using o x sub [OF y(1)] that ex unfolding entry_ok_def by (metis in_mono option.inject)
    ultimately show ?thesis using o x by (auto simp: entry_ok_def)
  qed
  show "FindChildBySegment (cut p c s) d m = (if (d, m) = (p, n) then None else FindChildBySegment s d m)"
  proof -
    have "FindChildBySegment (cut p c s) d m = Some e \<longleftrightarrow> (d, m) \<noteq> (p, n) \<and> FindChildBySegment s d m = Some e" for e
      unfolding FindChild_ok [OF o'] FindChild_ok [OF o]
      using x o ci inj_onD [of "name_of s" "set (EntryChildren x)" c e] by (auto simp: cut_dentry entry_ok_def)
    then show ?thesis by (metis not_Some_eq)
  qed
qed

lemma cut_walk:
  assumes b: "branch_at s r pp p n c"
  shows "walk (cut p c s) r qs = (if prefix (pp @ [n]) qs then None else walk s r qs)"
proof -
  have "FindChildBySegment (cut p c s) d m = FindChildBySegment s d m" if "d \<in> tree_below s r" "(d, m) \<noteq> (p, n)" for d m
    using cut_entry(2) [OF b that(1), of m] by (metis that(2))
  note W = walk_changed [OF branch_atD(2,3) [OF b] this]
  show ?thesis
  proof (cases "prefix (pp @ [n]) qs")
    case True
    then obtain rs where "qs = pp @ n # rs" by (auto simp: prefix_def)
    with True show ?thesis using W(2) [where rs = rs] cut_entry(2) [OF b branch_atD(5) [OF b], of n] by simp
  qed (use W(1) in simp)
qed

lemma cut_tree:
  assumes b: "branch_at s r pp p n c"
  shows "tree_below (cut p c s) r \<subseteq> tree_below s r" "entries_ok (cut p c s) r" "unique_paths (cut p c s) r"
proof -
  show t: "tree_below (cut p c s) r \<subseteq> tree_below s r" unfolding tree_below_def by (auto simp: cut_walk [OF b] split: if_splits)
  then show "entries_ok (cut p c s) r" unfolding entries_ok_def using cut_entry(1) [OF b] by blast
  show "unique_paths (cut p c s) r"
    using branch_atD(2) [OF b] unfolding unique_paths_def cut_walk [OF b] by (metis option.distinct(1))
qed

lemma cut_branch:
  assumes b: "branch_at s r pp p n c"
  shows "entries_ok (cut p c s) c" "walk (cut p c s) c qs = walk s c qs" "tree_below (cut p c s) c = tree_below s c"
  "unique_paths (cut p c s) c" "tree_below (cut p c s) r \<inter> tree_below s c = {}"
proof -
  note ok = branch_atD(1) [OF b] and u = branch_atD(2) [OF b] and cw = branch_atD(6) [OF b]
  have same: "Dentries (cut p c s) x = Dentries s x" if "x \<in> tree_below s c" for x
    using branch_atD(7) [OF b] that by (auto simp: cut_dentry)
  note B = same_below [OF entries_ok_below [OF ok cw] same]
  show "entries_ok (cut p c s) c" "tree_below (cut p c s) c = tree_below s c" using B(1,3) by blast+
  show w: "walk (cut p c s) c qs = walk s c qs" for qs using B(2) by blast
  show "unique_paths (cut p c s) c" using unique_paths_below [OF u cw] unfolding unique_paths_def w .
  show "tree_below (cut p c s) r \<inter> tree_below s c = {}"
  proof -
    have False if x: "walk (cut p c s) r qs = Some x" "walk s c rs = Some x" for x qs rs
    proof -
      have q: "\<not> prefix (pp @ [n]) qs" "walk s r qs = Some x" using x(1) by (auto simp: cut_walk [OF b] split: if_splits)
      have "walk s r ((pp @ [n]) @ rs) = Some x" using walk_append [of s r "pp @ [n]" rs] cw x(2) by simp
      then have "qs = (pp @ [n]) @ rs" using unique_pathsD [OF u q(2)] by blast
      with q(1) show False by simp
    qed
    then show ?thesis unfolding tree_below_def by blast
  qed
qed

section \<open>Grafting a branch\<close>

definition graft :: "nat \<Rightarrow> nat \<Rightarrow> string \<Rightarrow> vfs \<Rightarrow> vfs" where
  "graft p c n s = on_dentry c (\<lambda>x. x\<lparr>EntryName := n\<rparr>) (AppendChild p c s)"

lemma graft_fields [simp]:
  "Root (graft p c n s) = Root s" "INodes (graft p c n s) = INodes s" "NextDentry (graft p c n s) = NextDentry s"
  "NextINode (graft p c n s) = NextINode s" "isEXT (graft p c n s) = isEXT s" "ActiveExtendedFileSystem (graft p c n s) = ActiveExtendedFileSystem s"
  "Contents (graft p c n s) = Contents s" "Blocks (graft p c n s) = Blocks s" "Releases (graft p c n s) = Releases s"
  by (simp_all add: graft_def AppendChild_def on_dentry_def)

lemma graft_dentry: "p \<noteq> c \<Longrightarrow> Dentries (graft p c n s) d =
    (if d = p then map_option (\<lambda>x. x\<lparr>EntryChildren := EntryChildren x @ [c]\<rparr>) (Dentries s d)
     else if d = c then map_option (\<lambda>x. x\<lparr>EntryParent := Some p, EntryName := n\<rparr>) (Dentries s d)
     else Dentries s d)"
  by (cases "Dentries s c") (auto simp: graft_def AppendChild_def on_dentry_def)

definition graft_at :: "vfs \<Rightarrow> nat \<Rightarrow> string list \<Rightarrow> nat \<Rightarrow> string \<Rightarrow> nat \<Rightarrow> bool" where
  "graft_at s r pp p n c \<longleftrightarrow>
     entries_ok s r \<and> unique_paths s r \<and> parent_of s r = None \<and> walk s r pp = Some p \<and> FindChildBySegment s p n = None \<and>
     entries_ok s c \<and> unique_paths s c \<and> tree_below s r \<inter> tree_below s c = {}"

lemma graft_atD:
  assumes "graft_at s r pp p n c"
  shows "entries_ok s r" "unique_paths s r" "parent_of s r = None" "walk s r pp = Some p" "FindChildBySegment s p n = None"
    "entries_ok s c" "unique_paths s c" "p \<in> tree_below s r" "r \<in> tree_below s r"
    "\<And>x. x \<in> tree_below s r \<Longrightarrow> x \<notin> tree_below s c" "c \<notin> tree_below s r" "p \<noteq> c"
proof -
  show *: "entries_ok s r" "unique_paths s r" "parent_of s r = None" "walk s r pp = Some p" "FindChildBySegment s p n = None"
    "entries_ok s c" "unique_paths s c" "\<And>x. x \<in> tree_below s r \<Longrightarrow> x \<notin> tree_below s c"
    using assms unfolding graft_at_def by blast+
  show "p \<in> tree_below s r" using *(4) unfolding tree_below_def by blast
  then show "c \<notin> tree_below s r" "p \<noteq> c" "r \<in> tree_below s r" using *(8) tree_below_self by blast+
qed

lemma graft_name: "p \<noteq> c \<Longrightarrow> Dentries s c \<noteq> None \<Longrightarrow> name_of (graft p c n s) d = (if d = c then n else name_of s d)"
  by (cases "d = p"; cases "d = c"; cases "Dentries s d") (auto simp: name_of_def graft_dentry)

lemma graft_parent: "p \<noteq> c \<Longrightarrow> d \<noteq> c \<Longrightarrow> parent_of (graft p c n s) d = parent_of s d"
  by (cases "d = p"; cases "Dentries s d") (auto simp: parent_of_def graft_dentry)

lemma graft_entry:
  assumes g: "graft_at s r pp p n c" and d: "d \<in> tree_below s r"
  shows "entry_ok (graft p c n s) d"
    and "FindChildBySegment (graft p c n s) d m = (if (d, m) = (p, n) then Some c else FindChildBySegment s d m)"
proof -
  let ?s = "graft p c n s"
  note G = graft_atD [OF g]
  have cd: "Dentries s c \<noteq> None" using G(6) by (auto simp: entries_ok_def entry_ok_def dest!: bspec [of _ _ c])
  note N = graft_name [OF G(12) cd, of n]
  from G(1) d obtain x where x: "Dentries s d = Some x" and o: "entry_ok s d" by (auto simp: entries_ok_def entry_ok_def)
  have in_tree: "e \<in> tree_below s r" "e \<noteq> c" if "e \<in> set (EntryChildren x)" for e
    using entry_child_below [OF G(1) d x that] G(11) by auto
  have ch: "\<exists>y. Dentries s e = Some y \<and> EntryParent y = Some d" if "e \<in> set (EntryChildren x)" for e
    using o x that by (auto simp: entry_ok_def)
  have dc: "d \<noteq> c" using d G(11) by blast
  define y where "y = (if d = p then x\<lparr>EntryChildren := EntryChildren x @ [c]\<rparr> else x)"
  have y: "Dentries ?s d = Some y" using x dc G(12) by (auto simp: graft_dentry y_def)
  have free: "name_of s e \<noteq> n" if "d = p" "e \<in> set (EntryChildren x)" for e
    using FindChild_ok [OF o, of n e] G(5) that x by auto
  have inj: "inj_on (name_of ?s) (set (EntryChildren y))"
  proof -
    have "inj_on (name_of ?s) (set (EntryChildren x))"
      using o x in_tree(2) by (auto simp: entry_ok_def N inj_on_def)
    moreover have "name_of ?s c \<notin> name_of ?s ` set (EntryChildren x)" if "d = p"
      using free [OF that] in_tree(2) by (auto simp: N)
    ultimately show ?thesis using in_tree(2) by (auto simp: y_def inj_on_insert)
  qed
  have par: "\<exists>z. Dentries ?s e = Some z \<and> EntryParent z = Some d" if "e \<in> set (EntryChildren y)" for e
  proof (cases "e = c")
    case True
    with that in_tree(2) cd G(12) show ?thesis by (auto simp: y_def graft_dentry split: if_splits)
  next
    case False
    with that have "e \<in> set (EntryChildren x)" by (auto simp: y_def split: if_splits)
    from ch [OF this] False G(12) show ?thesis by (auto simp: graft_dentry)
  qed
  show o': "entry_ok ?s d"
    unfolding entry_ok_def using y inj par o x in_tree(2) by (auto simp: y_def entry_ok_def)
  have "FindChildBySegment ?s d m = Some e \<longleftrightarrow> (if (d, m) = (p, n) then e = c else FindChildBySegment s d m = Some e)" for e
    unfolding FindChild_ok [OF o'] FindChild_ok [OF o]
    using x y in_tree(2) free by (auto simp: y_def N split: if_splits)
  then show "FindChildBySegment ?s d m = (if (d, m) = (p, n) then Some c else FindChildBySegment s d m)"
    by (metis not_Some_eq)
qed

lemma graft_branch:
  assumes g: "graft_at s r pp p n c"
  shows "entries_ok (graft p c n s) c" "walk (graft p c n s) c qs = walk s c qs" "tree_below (graft p c n s) c = tree_below s c"
proof -
  let ?s = "graft p c n s"
  note G = graft_atD [OF g]
  have cd: "Dentries s c \<noteq> None" using G(6) by (auto simp: entries_ok_def entry_ok_def dest!: bspec [of _ _ c])
  note N = graft_name [OF G(12) cd, of n]
  have main: "entry_ok ?s d \<and> FindChildBySegment ?s d m = FindChildBySegment s d m" if d: "d \<in> tree_below s c" for d m
  proof -
    from G(6) d obtain x where x: "Dentries s d = Some x" and o: "entry_ok s d" by (auto simp: entries_ok_def entry_ok_def)
    have dp: "d \<noteq> p" using G(8,10) d by blast
    have nc: "e \<noteq> c" if "e \<in> set (EntryChildren x)" for e
    proof
      assume "e = c"
      with that have "FindChildBySegment s d (name_of s c) = Some c" using FindChild_ok [OF o] x by blast
      moreover obtain qs where "walk s c qs = Some d" using d by (auto simp: tree_below_def)
      ultimately have "walk s c (qs @ [name_of s c]) = Some c" by (simp add: walk_snoc)
      from unique_pathsD [OF G(7) this, of "[]"] show False by simp
    qed
    define y where "y = (if d = c then x\<lparr>EntryParent := Some p, EntryName := n\<rparr> else x)"
    have y: "Dentries ?s d = Some y" using x dp G(12) by (auto simp: graft_dentry y_def)
    have yc: "EntryChildren y = EntryChildren x" "EntryINode y = EntryINode x" by (simp_all add: y_def)
    have par: "\<exists>z. Dentries ?s e = Some z \<and> EntryParent z = Some d" if "e \<in> set (EntryChildren x)" for e
      using that o x nc [OF that] G(12) by (auto simp: entry_ok_def graft_dentry)
    have "inj_on (name_of ?s) (set (EntryChildren x))" using o x nc by (auto simp: entry_ok_def N inj_on_def)
    then have o': "entry_ok ?s d" using y yc par o x by (auto simp: entry_ok_def)
    have "FindChildBySegment ?s d m = Some e \<longleftrightarrow> FindChildBySegment s d m = Some e" for e
      unfolding FindChild_ok [OF o'] FindChild_ok [OF o] using x y yc nc by (auto simp: N)
    then show ?thesis using o' by (metis not_Some_eq)
  qed
  show "walk ?s c qs = walk s c qs" by (rule walk_agree) (use main in blast)
  show t: "tree_below ?s c = tree_below s c" by (rule tree_below_agree) (use main in blast)
  show "entries_ok ?s c" unfolding entries_ok_def t using main by blast
qed

lemma graft_walk:
  assumes g: "graft_at s r pp p n c"
  shows "walk (graft p c n s) r (pp @ n # rs) = walk s c rs"
    and "\<not> prefix (pp @ [n]) qs \<Longrightarrow> walk (graft p c n s) r qs = walk s r qs"
proof -
  note G = graft_atD [OF g]
  have "FindChildBySegment (graft p c n s) d m = FindChildBySegment s d m" if "d \<in> tree_below s r" "(d, m) \<noteq> (p, n)" for d m
    using graft_entry(2) [OF g that(1), of m] by (metis that(2))
  note W = walk_changed [OF G(2,4) this]
  show "walk (graft p c n s) r (pp @ n # rs) = walk s c rs"
    using W(2) [where rs = rs] graft_entry(2) [OF g G(8), of n] graft_branch(2) [OF g] by simp
  show "\<not> prefix (pp @ [n]) qs \<Longrightarrow> walk (graft p c n s) r qs = walk s r qs" using W(1) .
qed

lemma graft_tree:
  assumes g: "graft_at s r pp p n c"
  shows "entries_ok (graft p c n s) r" "unique_paths (graft p c n s) r" "parent_of (graft p c n s) r = None"
    "tree_below (graft p c n s) r = tree_below s r \<union> tree_below s c"
proof -
  note G = graft_atD [OF g]
  let ?s = "graft p c n s"
  have sub: "x \<in> tree_below s r \<or> x \<in> tree_below s c" if "walk ?s r qs = Some x" for x qs
  proof (cases "prefix (pp @ [n]) qs")
    case True
    then obtain rs where "qs = pp @ n # rs" by (auto simp: prefix_def)
    with that graft_walk(1) [OF g] show ?thesis unfolding tree_below_def by auto
  next
    case False
    with that graft_walk(2) [OF g] show ?thesis unfolding tree_below_def by auto
  qed
  show "entries_ok ?s r"
    unfolding entries_ok_def
  proof
    fix x assume "x \<in> tree_below ?s r"
    then have "x \<in> tree_below s r \<or> x \<in> tree_below s c" using sub unfolding tree_below_def by blast
    then show "entry_ok ?s x" using graft_entry(1) [OF g] graft_branch(1,3) [OF g] unfolding entries_ok_def by blast
  qed
  moreover show p: "parent_of ?s r = None" using graft_parent [OF G(12), of r] G(3,9,11) by metis
  ultimately show "unique_paths ?s r" by (rule unique_pathsI)
  have "x \<in> tree_below ?s r" if "x \<in> tree_below s c" for x
  proof -
    obtain qs where "walk s c qs = Some x" using \<open>x \<in> tree_below s c\<close> by (auto simp: tree_below_def)
    then have "walk ?s r (pp @ n # qs) = Some x" using graft_walk(1) [OF g] by simp
    then show ?thesis unfolding tree_below_def by blast
  qed
  moreover have "x \<in> tree_below ?s r" if "x \<in> tree_below s r" for x
  proof -
    obtain qs where qs: "walk s r qs = Some x" using \<open>x \<in> tree_below s r\<close> by (auto simp: tree_below_def)
    have "\<not> prefix (pp @ [n]) qs"
    proof
      assume "prefix (pp @ [n]) qs"
      then obtain rs where "qs = (pp @ [n]) @ rs" by (auto simp: prefix_def)
      with qs G(4,5) show False by (simp add: walk_append)
    qed
    from graft_walk(2) [OF g this] qs have "walk ?s r qs = Some x" by simp
    then show ?thesis unfolding tree_below_def by blast
  qed
  ultimately show "tree_below ?s r = tree_below s r \<union> tree_below s c" using sub unfolding tree_below_def by blast
qed

section \<open>Reference counts\<close>

text \<open>The number of links of an inode is the number of entries that refer to it, and no inode is without one.\<close>

definition refs :: "vfs \<Rightarrow> nat \<Rightarrow> nat" where
  "refs s i = card {d. \<exists>x. Dentries s d = Some x \<and> EntryINode x = Some i}"

definition counted :: "vfs \<Rightarrow> bool" where
  "counted s \<longleftrightarrow> finite (dom (Dentries s)) \<and> (\<forall>i. INodes s i \<noteq> None \<longleftrightarrow> 0 < refs s i) \<and>
     (\<forall>i n. INodes s i = Some n \<longrightarrow> LinkReferenceCount n = refs s i)"

definition kept :: "vfs \<Rightarrow> vfs \<Rightarrow> bool" where
  "kept s s' \<longleftrightarrow>
     (\<forall>i y. INodes s' i = Some y \<longrightarrow> (\<exists>x. INodes s i = Some x \<and> y = x\<lparr>LinkReferenceCount := LinkReferenceCount y\<rparr>)) \<and>
     Root s' = Root s \<and> isEXT s' = isEXT s \<and> ActiveExtendedFileSystem s' = ActiveExtendedFileSystem s \<and>
     NextDentry s' = NextDentry s \<and> NextINode s' = NextINode s \<and> Contents s' = Contents s \<and> Blocks s' = Blocks s \<and>
     Releases s' = Releases s"

lemma kept_refl: "kept s s"
  by (simp add: kept_def)

lemma keptD: "kept s s' \<Longrightarrow> INodes s' i = Some y \<Longrightarrow> \<exists>x. INodes s i = Some x \<and> y = x\<lparr>LinkReferenceCount := LinkReferenceCount y\<rparr>"
  unfolding kept_def by blast

lemma kept_trans: "kept s s1 \<Longrightarrow> kept s1 s2 \<Longrightarrow> kept s s2"
proof -
  assume a: "kept s s1" "kept s1 s2"
  have "\<exists>x. INodes s i = Some x \<and> y = x\<lparr>LinkReferenceCount := LinkReferenceCount y\<rparr>" if y: "INodes s2 i = Some y" for i y
  proof -
    from keptD [OF a(2) y] obtain x1 where x1: "INodes s1 i = Some x1" "y = x1\<lparr>LinkReferenceCount := LinkReferenceCount y\<rparr>" by blast
    from keptD [OF a(1) x1(1)] obtain x where x: "INodes s i = Some x" "x1 = x\<lparr>LinkReferenceCount := LinkReferenceCount x1\<rparr>" by blast
    have "y = x\<lparr>LinkReferenceCount := LinkReferenceCount y\<rparr>" by (subst x1(2), subst x(2)) simp
    with x(1) show ?thesis by blast
  qed
  with a show ?thesis by (simp add: kept_def)
qed

lemma refs_finite: "finite (dom (Dentries s)) \<Longrightarrow> finite {d. \<exists>x. Dentries s d = Some x \<and> EntryINode x = Some i}"
  by (rule finite_subset [of _ "dom (Dentries s)"]) auto

lemma refs_cong: "(\<And>d. map_option EntryINode (Dentries s' d) = map_option EntryINode (Dentries s d)) \<Longrightarrow> refs s' i = refs s i"
proof -
  assume e: "\<And>d. map_option EntryINode (Dentries s' d) = map_option EntryINode (Dentries s d)"
  have "(\<exists>x. Dentries u d = Some x \<and> EntryINode x = Some i) \<longleftrightarrow> map_option EntryINode (Dentries u d) = Some (Some i)" for u :: vfs and d
    by (cases "Dentries u d") simp_all
  then have "{d. \<exists>x. Dentries u d = Some x \<and> EntryINode x = Some i} = {d. map_option EntryINode (Dentries u d) = Some (Some i)}" for u :: vfs
    by blast
  then show ?thesis unfolding refs_def by (simp only: e)
qed

lemma refs_remove:
  assumes f: "finite (dom (Dentries s))" and x: "Dentries s d = Some x" and s': "Dentries s' = (Dentries s)(d := None)"
  shows "refs s i = refs s' i + (if EntryINode x = Some i then 1 else 0)"
proof -
  let ?A = "\<lambda>s. {d. \<exists>x. Dentries s d = Some x \<and> EntryINode x = Some i}"
  have "?A s = (if EntryINode x = Some i then insert d (?A s') else ?A s')" using x by (auto simp: s')
  moreover have "d \<notin> ?A s'" by (simp add: s')
  moreover have "finite (?A s')" by (rule refs_finite) (use f in \<open>simp add: s' dom_fun_upd\<close>)
  ultimately show ?thesis by (simp add: refs_def)
qed

definition drop_entry :: "nat \<Rightarrow> dentry \<Rightarrow> vfs \<Rightarrow> vfs" where
  "drop_entry d x s = (ReleaseINode (EntryINode x) s)\<lparr>Dentries := (Dentries (ReleaseINode (EntryINode x) s))(d := None)\<rparr>"

lemma ReleaseINode_fields [simp]:
  "Dentries (ReleaseINode n s) = Dentries s" "Root (ReleaseINode n s) = Root s" "NextDentry (ReleaseINode n s) = NextDentry s"
  "NextINode (ReleaseINode n s) = NextINode s" "isEXT (ReleaseINode n s) = isEXT s"
  "ActiveExtendedFileSystem (ReleaseINode n s) = ActiveExtendedFileSystem s" "Contents (ReleaseINode n s) = Contents s"
  "Blocks (ReleaseINode n s) = Blocks s" "Releases (ReleaseINode n s) = Releases s"
  by (auto simp: ReleaseINode_def Let_def split: option.splits)

lemma drop_entry:
  assumes c: "counted s" and x: "Dentries s d = Some x"
  shows "counted (drop_entry d x s)" "kept s (drop_entry d x s)" "Dentries (drop_entry d x s) = (Dentries s)(d := None)"
proof -
  let ?s = "drop_entry d x s"
  show D: "Dentries ?s = (Dentries s)(d := None)" by (simp add: drop_entry_def)
  note R = refs_remove [OF _ x D]
  have fin: "finite (dom (Dentries s))" using c by (simp add: counted_def)
  have I: "INodes ?s i = (if EntryINode x = Some i
      then case INodes s i of None \<Rightarrow> None
           | Some n \<Rightarrow> if LinkReferenceCount n = 1 then None else Some (n\<lparr>LinkReferenceCount := LinkReferenceCount n - 1\<rparr>)
      else INodes s i)" for i
  proof (cases "EntryINode x = Some i \<and> INodes s i \<noteq> None")
    case True
    then obtain n where n: "INodes s i = Some n" by auto
    have "LinkReferenceCount n = refs s i" "0 < refs s i" using c n by (auto simp: counted_def)
    with True n show ?thesis by (auto simp: drop_entry_def ReleaseINode_def Let_def)
  next
    case False
    then show ?thesis by (auto simp: drop_entry_def ReleaseINode_def Let_def split: option.splits)
  qed
  have cnt: "INodes s i \<noteq> None \<longleftrightarrow> 0 < refs s i" "INodes s i = Some n \<Longrightarrow> LinkReferenceCount n = refs s i" for i n
    using c by (auto simp: counted_def)
  have "INodes ?s i \<noteq> None \<longleftrightarrow> 0 < refs ?s i" for i
    using R [OF fin, of i] cnt(1) [of i] cnt(2) [of i] unfolding I by (auto split: option.splits)
  moreover have "LinkReferenceCount n = refs ?s i" if "INodes ?s i = Some n" for i n
    using R [OF fin, of i] cnt(1) [of i] cnt(2) [of i] that unfolding I by (auto split: option.splits if_splits)
  moreover have "finite (dom (Dentries ?s))" using fin by (simp add: D)
  ultimately show "counted ?s" by (auto simp: counted_def)
  have "\<exists>x. INodes s i = Some x \<and> y = x\<lparr>LinkReferenceCount := LinkReferenceCount y\<rparr>" if "INodes ?s i = Some y" for i y
    using that unfolding I by (auto split: option.splits if_splits)
  then show "kept s ?s" by (simp add: kept_def drop_entry_def)
qed

section \<open>Freeing a tree\<close>

definition freed :: "nat set \<Rightarrow> vfs \<Rightarrow> vfs \<Rightarrow> bool" where
  "freed T s s' \<longleftrightarrow> (\<forall>x. Dentries s' x = (if x \<in> T then None else Dentries s x)) \<and> counted s' \<and> kept s s'"

definition freeable :: "nat \<Rightarrow> nat \<Rightarrow> vfs \<Rightarrow> bool" where
  "freeable n d s \<longleftrightarrow> entries_ok s d \<and> unique_paths s d \<and> (\<forall>rs x. walk s d rs = Some x \<longrightarrow> length rs < n)"

lemma freeable_same:
  assumes "freeable n d s" and "\<And>x. x \<in> tree_below s d \<Longrightarrow> Dentries s' x = Dentries s x"
  shows "freeable n d s'" "tree_below s' d = tree_below s d"
  using same_below [of s d s'] assms unfolding freeable_def unique_paths_def by auto

lemma free_children:
  assumes step: "\<And>c s. freeable n c s \<Longrightarrow> counted s \<Longrightarrow> freed (tree_below s c) s (F c s)"
  shows "(\<forall>c\<in>set cs. freeable n c s) \<Longrightarrow> counted s \<Longrightarrow> distinct cs \<Longrightarrow>
     (\<forall>c\<in>set cs. \<forall>c'\<in>set cs. c \<noteq> c' \<longrightarrow> tree_below s c \<inter> tree_below s c' = {}) \<Longrightarrow>
     freed (\<Union>c\<in>set cs. tree_below s c) s (fold F cs s)"
proof (induction cs arbitrary: s)
  case Nil
  then show ?case by (simp add: freed_def kept_refl)
next
  case (Cons c cs)
  have f: "freed (tree_below s c) s (F c s)" using step Cons.prems(1,2) by simp
  have D: "Dentries (F c s) x = Dentries s x" if "c' \<in> set cs" "x \<in> tree_below s c'" for c' x
  proof -
    have "c \<noteq> c'" using that(1) Cons.prems(3) by auto
    then have "tree_below s c \<inter> tree_below s c' = {}" using that(1) Cons.prems(4) by simp
    then show ?thesis using f that(2) unfolding freed_def by auto
  qed
  have S: "freeable n c' (F c s)" "tree_below (F c s) c' = tree_below s c'" if "c' \<in> set cs" for c'
    using freeable_same [OF _ D [OF that]] Cons.prems(1) that by auto
  have "freed (\<Union>c'\<in>set cs. tree_below (F c s) c') (F c s) (fold F cs (F c s))"
    using Cons.IH [of "F c s"] S Cons.prems f by (simp add: freed_def)
  then have "freed (\<Union>c'\<in>set cs. tree_below s c') (F c s) (fold F cs (F c s))" using S(2) by simp
  with f show ?case unfolding freed_def using kept_trans by auto
qed

lemma child_freeable:
  assumes f: "freeable (Suc n) d s" and x: "Dentries s d = Some x" and c: "c \<in> set (EntryChildren x)"
  shows "freeable n c s" "FindChildBySegment s d (name_of s c) = Some c"
proof -
  have ok: "entries_ok s d" "unique_paths s d" and len: "\<And>rs x. walk s d rs = Some x \<Longrightarrow> length rs < Suc n"
    using f unfolding freeable_def by blast+
  show find: "FindChildBySegment s d (name_of s c) = Some c"
    using FindChild_ok [of s d] ok(1) x c by (auto simp: entries_ok_def)
  then have w: "walk s d [name_of s c] = Some c" by simp
  have "length rs < n" if "walk s c rs = Some y" for rs y
    using len [of "name_of s c # rs" y] find that by simp
  then show "freeable n c s"
    using entries_ok_below [OF ok(1) w] unique_paths_below [OF ok(2) w] unfolding freeable_def by blast
qed

lemma FreeDentryTree_freed:
  "freeable n d s \<Longrightarrow> counted s \<Longrightarrow> freed (tree_below s d) s (FreeDentryTree n d s)"
proof (induction n arbitrary: d s)
  case 0
  then have "length [] < (0 :: nat)" unfolding freeable_def using walk.simps(1) by blast
  then show ?case by simp
next
  case (Suc n)
  have ok: "entries_ok s d" "unique_paths s d" using Suc.prems unfolding freeable_def by blast+
  then obtain x where x: "Dentries s d = Some x" and dist: "distinct (EntryChildren x)"
    by (auto simp: entries_ok_def entry_ok_def dest!: bspec [of _ _ d])
  note C = child_freeable [OF Suc.prems(1) x]
  let ?U = "\<Union>c\<in>set (EntryChildren x). tree_below s c"
  have disj: "tree_below s c \<inter> tree_below s c' = {}" if c: "c \<in> set (EntryChildren x)" "c' \<in> set (EntryChildren x)" "c \<noteq> c'" for c c'
  proof -
    have False if y: "walk s c ps = Some y" "walk s c' qs = Some y" for ps qs y
    proof -
      have "walk s d (name_of s c # ps) = Some y" "walk s d (name_of s c' # qs) = Some y"
        using y C(2) [OF c(1)] C(2) [OF c(2)] by simp_all
      from unique_pathsD [OF ok(2) this] have "name_of s c = name_of s c'" by simp
      with C(2) [OF c(1)] C(2) [OF c(2)] c(3) show False by simp
    qed
    then show ?thesis unfolding tree_below_def by blast
  qed
  have f: "freed ?U s (fold (FreeDentryTree n) (EntryChildren x) s)"
    by (rule free_children [where n = n]) (use Suc.IH C(1) Suc.prems(2) dist disj in auto)
  let ?s = "fold (FreeDentryTree n) (EntryChildren x) s"
  have "d \<notin> ?U"
  proof
    assume "d \<in> ?U"
    then obtain c ps where "c \<in> set (EntryChildren x)" "walk s c ps = Some d" by (auto simp: tree_below_def)
    then have "walk s d (name_of s c # ps) = Some d" using C(2) by simp
    from unique_pathsD [OF ok(2) this, of "[]"] show False by simp
  qed
  then have xs: "Dentries ?s d = Some x" using f x unfolding freed_def by simp
  have T: "tree_below s d = insert d ?U"
  proof -
    have "y = d \<or> y \<in> ?U" if "walk s d ps = Some y" for y ps
    proof (cases ps)
      case (Cons m ps')
      with that obtain c where c: "FindChildBySegment s d m = Some c" "walk s c ps' = Some y" by (auto split: option.splits)
      then have "c \<in> set (EntryChildren x)" using FindChild_ok [of s d m c] ok(1) x by (auto simp: entries_ok_def)
      with c(2) show ?thesis unfolding tree_below_def by blast
    qed (use that in simp)
    moreover have "y \<in> tree_below s d" if "c \<in> set (EntryChildren x)" "y \<in> tree_below s c" for c y
      using tree_below_trans [OF tree_below_step [OF tree_below_self C(2) [OF that(1)]] that(2)] .
    ultimately show ?thesis using tree_below_self [of d s] unfolding tree_below_def [of s d] by blast
  qed
  have F: "FreeDentryTree (Suc n) d s = drop_entry d x ?s" using x by (simp add: drop_entry_def)
  have "counted ?s" using f by (simp add: freed_def)
  note drop_entry [OF this xs]
  with f show ?case unfolding F T freed_def using kept_trans by auto
qed

section \<open>The invariant of the file system\<close>

definition vfs_wf :: "vfs \<Rightarrow> bool" where
  "vfs_wf s \<longleftrightarrow>
     (case Root s of None \<Rightarrow> True | Some r \<Rightarrow> entries_ok s r \<and> parent_of s r = None) \<and> counted s \<and>
     (\<forall>d. Dentries s d \<noteq> None \<longrightarrow> d < NextDentry s) \<and> (\<forall>i. INodes s i \<noteq> None \<longrightarrow> i < NextINode s)"

definition in_tree :: "vfs \<Rightarrow> nat \<Rightarrow> bool" where
  "in_tree s d \<longleftrightarrow> (\<exists>r. Root s = Some r \<and> d \<in> tree_below s r)"

lemma vfs_wfD:
  assumes "vfs_wf s"
  shows "\<And>r. Root s = Some r \<Longrightarrow> entries_ok s r" "\<And>r. Root s = Some r \<Longrightarrow> parent_of s r = None"
    "\<And>r. Root s = Some r \<Longrightarrow> unique_paths s r" "counted s" "\<And>d. Dentries s d \<noteq> None \<Longrightarrow> d < NextDentry s"
    "\<And>i. INodes s i \<noteq> None \<Longrightarrow> i < NextINode s"
    "\<And>r ps d. Root s = Some r \<Longrightarrow> walk s r ps = Some d \<Longrightarrow> length ps < NextDentry s"
proof -
  show ok: "\<And>r. Root s = Some r \<Longrightarrow> entries_ok s r" "\<And>r. Root s = Some r \<Longrightarrow> parent_of s r = None" "counted s"
    "\<And>d. Dentries s d \<noteq> None \<Longrightarrow> d < NextDentry s" "\<And>i. INodes s i \<noteq> None \<Longrightarrow> i < NextINode s"
    using assms unfolding vfs_wf_def by auto
  show u: "\<And>r. Root s = Some r \<Longrightarrow> unique_paths s r" using ok(1,2) unique_pathsI by blast
  show "\<And>r ps d. Root s = Some r \<Longrightarrow> walk s r ps = Some d \<Longrightarrow> length ps < NextDentry s"
    using walk_length u ok(1,4) by blast
qed

lemma tree_entry:
  assumes wf: "vfs_wf s" and r: "Root s = Some r" and d: "d \<in> tree_below s r"
  obtains x i n where "Dentries s d = Some x" "EntryINode x = Some i" "INodes s i = Some n" "entry_ok s d"
proof -
  have o: "entry_ok s d" using vfs_wfD(1) [OF wf r] d unfolding entries_ok_def by blast
  then obtain x i where x: "Dentries s d = Some x" "EntryINode x = Some i" unfolding entry_ok_def by blast
  have "d \<in> {d. \<exists>x. Dentries s d = Some x \<and> EntryINode x = Some i}" using x by blast
  moreover have c: "counted s" by (rule vfs_wfD(4) [OF wf])
  ultimately have "0 < refs s i" unfolding refs_def using refs_finite [of s i] by (auto simp: card_gt_0_iff counted_def)
  then obtain n where "INodes s i = Some n" using c unfolding counted_def by blast
  with that x o show thesis by blast
qed

lemma parent_in_tree:
  assumes wf: "vfs_wf s" and r: "Root s = Some r" and d: "d \<in> tree_below s r"
  shows "ParentOr s d other \<in> {other} \<union> tree_below s r"
    and "parent_of s d = Some p \<Longrightarrow> \<exists>ps. walk s r ps = Some p \<and> FindChildBySegment s p (name_of s d) = Some d"
proof -
  obtain ps where ps: "walk s r ps = Some d" using d by (auto simp: tree_below_def)
  show *: "\<exists>ps. walk s r ps = Some p \<and> FindChildBySegment s p (name_of s d) = Some d" if "parent_of s d = Some p" for p
  proof (cases ps rule: rev_cases)
    case Nil
    with ps that vfs_wfD(2) [OF wf r] show ?thesis by simp
  next
    case (snoc qs n)
    with walk_last [OF vfs_wfD(1) [OF wf r] ps [unfolded snoc]] that show ?thesis by auto
  qed
  obtain x where "Dentries s d = Some x" using tree_entry [OF wf r d] by blast
  then show "ParentOr s d other \<in> {other} \<union> tree_below s r"
    using * unfolding ParentOr_def parent_of_def tree_below_def by (auto split: option.split)
qed

section \<open>Resolving a path changes no tree\<close>

text \<open>Loading the contents of a file or link is the only effect of resolving a path.\<close>

definition calm :: "vfs \<Rightarrow> vfs \<Rightarrow> bool" where
  "calm s s' \<longleftrightarrow> Dentries s' = Dentries s \<and> Root s' = Root s \<and> NextDentry s' = NextDentry s \<and> NextINode s' = NextINode s \<and>
     isEXT s' = isEXT s \<and> ActiveExtendedFileSystem s' = ActiveExtendedFileSystem s \<and>
     (\<forall>i. map_option (\<lambda>n. (NodeType n, LinkReferenceCount n, UsesVirtualHardLinks n, NodeSize n)) (INodes s' i) =
          map_option (\<lambda>n. (NodeType n, LinkReferenceCount n, UsesVirtualHardLinks n, NodeSize n)) (INodes s i))"

lemma calm_refl [simp]: "calm s s"
  by (simp add: calm_def)

lemma calm_trans: "calm s s1 \<Longrightarrow> calm s1 s2 \<Longrightarrow> calm s s2"
  by (simp add: calm_def)

lemma StoreBytes_fields [simp]:
  "Dentries (StoreBytes a b s) = Dentries s" "Root (StoreBytes a b s) = Root s" "NextDentry (StoreBytes a b s) = NextDentry s"
  "NextINode (StoreBytes a b s) = NextINode s" "isEXT (StoreBytes a b s) = isEXT s" "INodes (StoreBytes a b s) = INodes s"
  "ActiveExtendedFileSystem (StoreBytes a b s) = ActiveExtendedFileSystem s" "Blocks (StoreBytes a b s) = Blocks s"
  "Releases (StoreBytes a b s) = Releases s"
  by (simp_all add: StoreBytes_def)

lemma on_inode_fields [simp]:
  "Dentries (on_inode i f s) = Dentries s" "Root (on_inode i f s) = Root s" "NextDentry (on_inode i f s) = NextDentry s"
  "NextINode (on_inode i f s) = NextINode s" "isEXT (on_inode i f s) = isEXT s"
  "ActiveExtendedFileSystem (on_inode i f s) = ActiveExtendedFileSystem s" "Contents (on_inode i f s) = Contents s"
  "Blocks (on_inode i f s) = Blocks s" "Releases (on_inode i f s) = Releases s"
  "INodes (on_inode i f s) = (INodes s)(i := map_option f (INodes s i))"
  by (simp_all add: on_inode_def)

lemma Kmalloc_fields:
  assumes "Kmalloc s = (b, s')"
  shows "Dentries s' = Dentries s" "Root s' = Root s" "NextDentry s' = NextDentry s" "NextINode s' = NextINode s"
    "isEXT s' = isEXT s" "ActiveExtendedFileSystem s' = ActiveExtendedFileSystem s" "INodes s' = INodes s"
    "Contents s' = Contents s" "Releases s' = Releases s"
  using assms by (auto simp: Kmalloc_def split: list.splits)

lemma calm_fields:
  assumes "Dentries s' = Dentries s" "Root s' = Root s" "NextDentry s' = NextDentry s" "NextINode s' = NextINode s"
    "isEXT s' = isEXT s" "ActiveExtendedFileSystem s' = ActiveExtendedFileSystem s"
    "INodes s' = (INodes s)(i := map_option f (INodes s i)) \<or> INodes s' = INodes s"
    "\<And>n. NodeType (f n) = NodeType n \<and> LinkReferenceCount (f n) = LinkReferenceCount n \<and>
      UsesVirtualHardLinks (f n) = UsesVirtualHardLinks n \<and> NodeSize (f n) = NodeSize n"
  shows "calm s s'"
  using assms by (auto simp: calm_def option.map_comp comp_def)

lemma calm_steps:
  "Kmalloc s = (b, s1) \<Longrightarrow> calm s s1"
  "calm s s1 \<Longrightarrow> calm s (StoreBytes a z s1)" "calm s s1 \<Longrightarrow> calm s (s1\<lparr>Releases := rs\<rparr>)"
  "calm s s1 \<Longrightarrow> calm s (on_inode i (\<lambda>n. n\<lparr>NodeData := d, LazyDataBackedByPMM := x, LazyDataPageCount := y\<rparr>) s1)"
  by (simp_all add: calm_def Kmalloc_fields [of s b s1] option.map_comp comp_def)

lemma EnsureLazy_calm: "calm s (snd (EnsureLazyLoadedINodeData e i s))"
  unfolding EnsureLazyLoadedINodeData_def
  by (auto simp: Let_def intro!: calm_steps(2-4) elim: calm_steps(1) split: option.split prod.split)

lemma LinkTarget_calm: "LinkTarget e i s = (t, s') \<Longrightarrow> calm s s'"
  using EnsureLazy_calm [of s e i]
  by (auto simp: LinkTarget_def split: option.splits prod.splits bool.splits if_splits)

lemma FindChild_Dentries: "Dentries s' = Dentries s \<Longrightarrow> FindChildBySegment s' d n = FindChildBySegment s d n"
  unfolding FindChildBySegment_def by presburger

lemma walk_Dentries: "Dentries s' = Dentries s \<Longrightarrow> walk s' d ps = walk s d ps"
  by (rule walk_agree) (rule FindChild_Dentries)

lemma tree_Dentries: "Dentries s' = Dentries s \<Longrightarrow> tree_below s' d = tree_below s d"
  by (rule tree_below_agree) (rule FindChild_Dentries)

lemma entries_Dentries: "Dentries s' = Dentries s \<Longrightarrow> entries_ok s' r = entries_ok s r"
  by (simp add: entries_ok_def tree_Dentries [of s' s] entry_ok_def name_of_def inj_on_def)

lemma counted_cong:
  assumes d: "finite (dom (Dentries s'))" "\<And>i. refs s' i = refs s i"
    and n: "\<And>i. map_option LinkReferenceCount (INodes s' i) = map_option LinkReferenceCount (INodes s i)" and c: "counted s"
  shows "counted s'"
proof -
  have "INodes s' i \<noteq> None \<longleftrightarrow> INodes s i \<noteq> None" for i using n [of i] by (metis map_option_is_None)
  moreover have "LinkReferenceCount x = refs s' i" if "INodes s' i = Some x" for i x
    using n [of i] that c d(2) by (cases "INodes s i") (auto simp: counted_def)
  ultimately show ?thesis using c d by (simp add: counted_def)
qed

lemma calm_wf: "calm s s' \<Longrightarrow> vfs_wf s \<Longrightarrow> vfs_wf s'"
proof -
  assume c: "calm s s'" and wf: "vfs_wf s"
  have D: "Dentries s' = Dentries s" and N: "Root s' = Root s" "NextDentry s' = NextDentry s" "NextINode s' = NextINode s"
    and I: "\<And>i. map_option (\<lambda>n. (NodeType n, LinkReferenceCount n, UsesVirtualHardLinks n, NodeSize n)) (INodes s' i) =
          map_option (\<lambda>n. (NodeType n, LinkReferenceCount n, UsesVirtualHardLinks n, NodeSize n)) (INodes s i)"
    using c unfolding calm_def by blast+
  have L: "map_option LinkReferenceCount (INodes s' i) = map_option LinkReferenceCount (INodes s i)" for i
    using I [of i] by (cases "INodes s i"; cases "INodes s' i") auto
  have cnt: "counted s'"
  proof (rule counted_cong [OF _ _ L])
    show "counted s" by (rule vfs_wfD(4) [OF wf])
    then show "finite (dom (Dentries s'))" by (simp add: D counted_def)
    show "refs s' i = refs s i" for i by (rule refs_cong) (simp add: D)
  qed
  have "INodes s' i \<noteq> None \<Longrightarrow> INodes s i \<noteq> None" for i using I [of i] by (metis map_option_is_None)
  then show ?thesis
    using wf cnt unfolding vfs_wf_def N by (auto simp: D entries_Dentries [OF D] parent_of_def split: option.splits)
qed

lemma in_tree_calm: "calm s s' \<Longrightarrow> in_tree s' d = in_tree s d"
  by (auto simp: in_tree_def calm_def tree_Dentries [of s' s])

lemma start_in_tree:
  assumes "root \<in> T" and "b \<in> T"
  shows "(\<forall>d. StartOfPath root b p = Inl d \<longrightarrow> d \<in> T) \<and> (\<forall>c q. StartOfPath root b p = Inr (c, q) \<longrightarrow> c \<in> T)"
  using assms by (auto simp: StartOfPath_def Let_def split: if_splits)

lemma follow_link:
  assumes wf: "vfs_wf s" and root: "Root s = Some root" and nx: "Next \<in> tree_below s root" and t: "LinkTarget e i s = (t, s1)"
    and base: "b = (if Target \<noteq> [] \<and> hd Target = PATH_SEPARATOR then root else ParentOr s1 Next root)"
  shows "calm s s1" "vfs_wf s1" "Root s1 = Some root" "tree_below s1 root = tree_below s root"
    "StartOfPath root b p = Inl d \<Longrightarrow> d \<in> tree_below s root" "StartOfPath root b p = Inr (c, q) \<Longrightarrow> c \<in> tree_below s root"
proof -
  show c: "calm s s1" by (rule LinkTarget_calm [OF t])
  show "vfs_wf s1" by (rule calm_wf [OF c wf])
  have D: "Dentries s1 = Dentries s" and r: "Root s1 = Some root" using c root by (simp_all add: calm_def)
  show "Root s1 = Some root" "tree_below s1 root = tree_below s root" by (simp_all add: r tree_Dentries [OF D])
  have "ParentOr s1 Next root = ParentOr s Next root" by (simp add: ParentOr_def D)
  moreover have "ParentOr s Next root \<in> tree_below s root"
    using parent_in_tree(1) [OF wf root nx, of root] tree_below_self [of root s] by (metis Un_iff singletonD)
  ultimately have "b \<in> tree_below s root" by (simp add: base)
  then show "StartOfPath root b p = Inl d \<Longrightarrow> d \<in> tree_below s root" "StartOfPath root b p = Inr (c, q) \<Longrightarrow> c \<in> tree_below s root"
    using start_in_tree [of root "tree_below s root" b p] tree_below_self [of root s] by blast+
qed

lemma ResolveSegments_tree:
  "vfs_wf s \<Longrightarrow> Root s = Some root \<Longrightarrow> cur \<in> tree_below s root \<Longrightarrow> ResolveSegments e f root dep cur p s = (x, s') \<Longrightarrow>
     calm s s' \<and> (\<forall>d. x = Some d \<longrightarrow> d \<in> tree_below s root)"
proof (induction e f root dep cur p s arbitrary: x s' rule: ResolveSegments.induct)
  case (1 e f root dep cur p s)
  note wf = "1.prems"(1) and root = "1.prems"(2) and cur = "1.prems"(3) and res = "1.prems"(4)
  note IH = "1.IH"
  show ?case
  proof (cases "dropWhile IsSeparator p = []")
    case True
    then show ?thesis using res cur by (subst (asm) ResolveSegments.simps) (auto simp del: dropWhile_eq_Nil_conv)
  next
    case more: False
    let ?seg = "SegmentOf p" and ?rest = "AfterSegment p"
    note IH = IH [OF more refl refl]
    show ?thesis
    proof (cases "IsDotSegment ?seg")
      case True
      then have "ResolveSegments e f root dep cur ?rest s = (x, s')" using res more by (subst (asm) ResolveSegments.simps) (simp add: Let_def del: dropWhile_eq_Nil_conv)
      from IH(1) [OF True wf root cur this] show ?thesis .
    next
      case nodot: False
      show ?thesis
      proof (cases "IsDotDotSegment ?seg")
        case True
        then have r: "ResolveSegments e f root dep (ParentOr s cur cur) ?rest s = (x, s')"
          using res more nodot by (subst (asm) ResolveSegments.simps) (simp add: Let_def del: dropWhile_eq_Nil_conv)
        have "ParentOr s cur cur \<in> tree_below s root" using parent_in_tree(1) [OF wf root cur, of cur] cur by auto
        from IH(2) [OF nodot True wf root this r] show ?thesis .
      next
        case nodots: False
        show ?thesis
        proof (cases "FindChildBySegment s cur ?seg")
          case None
          then show ?thesis using res more nodot nodots by (subst (asm) ResolveSegments.simps) (simp add: Let_def del: dropWhile_eq_Nil_conv)
        next
          case (Some Next)
          have nx: "Next \<in> tree_below s root" by (rule tree_below_step [OF cur Some])
          obtain i where i: "EntryINode (the (Dentries s Next)) = Some i" using tree_entry [OF wf root nx] by (metis option.sel)
          show ?thesis
          proof (cases "NodeType (the (INodes s i)) = INODE_SYMLINK")
            case False
            then have "ResolveSegments e f root dep Next ?rest s = (x, s')"
              using res more nodot nodots Some i by (subst (asm) ResolveSegments.simps) (simp add: Let_def del: dropWhile_eq_Nil_conv)
            from IH(5) [OF nodot nodots Some i False wf root nx this] show ?thesis .
          next
            case link: True
            show ?thesis
            proof (cases "\<not> f \<and> ?rest = []")
              case True
              then have "ResolveSegments e f root dep Next ?rest s = (x, s')"
                using res more nodot nodots Some i link by (subst (asm) ResolveSegments.simps) (simp add: Let_def del: dropWhile_eq_Nil_conv)
              from IH(3) [OF nodot nodots Some i link True wf root nx this] show ?thesis .
            next
              case follow: False
              show ?thesis
              proof (cases dep)
                case 0
                then show ?thesis using res more nodot nodots Some i link follow by (subst (asm) ResolveSegments.simps) (auto simp: Let_def simp del: dropWhile_eq_Nil_conv)
              next
                case (Suc dep')
                obtain t s1 where t: "LinkTarget e i s = (t, s1)" by fastforce
                note F = follow_link [OF wf root nx t refl]
                show ?thesis
                proof (cases t)
                  case None
                  then show ?thesis using res more nodot nodots Some i link follow Suc t F(1) by (subst (asm) ResolveSegments.simps) (auto simp: Let_def simp del: dropWhile_eq_Nil_conv)
                next
                  case tt: (Some Target)
                  let ?st = "StartOfPath root (if Target \<noteq> [] \<and> hd Target = PATH_SEPARATOR then root else ParentOr s1 Next root)
                    (CombinedPath Target ?rest)"
                  show ?thesis
                  proof (cases ?st)
                    case (Inl d)
                    then have "x = Some d" "s' = s1" using res more nodot nodots Some i link follow Suc t tt
                      by (subst (asm) ResolveSegments.simps, auto simp: Let_def simp del: dropWhile_eq_Nil_conv)+
                    with F(1) F(5) [OF Inl] show ?thesis by simp
                  next
                    case (Inr cq)
                    obtain c q where cq: "cq = (c, q)" by fastforce
                    have r: "ResolveSegments e f root dep' c q s1 = (x, s')" using res more nodot nodots Some i link follow Suc t tt Inr cq
                      by (subst (asm) ResolveSegments.simps, auto simp: Let_def simp del: dropWhile_eq_Nil_conv)
                    have "c \<in> tree_below s1 root" using F(4) F(6) [OF Inr [unfolded cq]] by simp
                    from IH(4) [OF nodot nodots Some i link follow Suc t [symmetric] tt refl Inr cq [symmetric] F(2,3) this r]
                    show ?thesis using calm_trans [OF F(1)] F(4) by blast
                  qed
                qed
              qed
            qed
          qed
        qed
      qed
    qed
  qed
qed

end
