(* ===== verification/File_Operations.thy ===== *)
theory File_Operations imports File_Tree begin

text \<open>
  The paths of \<open>VirtualFileSystem.cpp\<close> as a map from lists of names to inodes, the invariant through a cut, a graft and
  a new entry, and what deleting, renaming and linking do to the map.
\<close>

section \<open>What a path stands for\<close>

text \<open>The abstract file system: the entry and the inode each list of names leads to.\<close>

definition dentry_at :: "vfs \<Rightarrow> string list \<Rightarrow> nat option" where
  "dentry_at s ps = (case Root s of None \<Rightarrow> None | Some r \<Rightarrow> walk s r ps)"

definition ino_at :: "vfs \<Rightarrow> string list \<Rightarrow> nat option" where
  "ino_at s ps = (case dentry_at s ps of None \<Rightarrow> None | Some d \<Rightarrow> EntryINode (the (Dentries s d)))"

lemma entry_at_root: "Root s = Some r \<Longrightarrow> dentry_at s ps = walk s r ps"
  by (simp add: dentry_at_def)

lemma in_tree_entry_at: "Root s = Some r \<Longrightarrow> d \<in> tree_below s r \<longleftrightarrow> (\<exists>ps. dentry_at s ps = Some d)"
  by (simp add: dentry_at_def tree_below_def)

lemma calm_entry_at: "calm s s' \<Longrightarrow> dentry_at s' = dentry_at s"
  by (rule ext) (simp add: dentry_at_def calm_def walk_Dentries [of s' s] split: option.split)

lemma calm_ino_at: "calm s s' \<Longrightarrow> ino_at s' = ino_at s"
proof
  fix qs assume c: "calm s s'"
  have "Dentries s' = Dentries s" using c by (simp add: calm_def)
  then show "ino_at s' qs = ino_at s qs" by (simp add: ino_at_def calm_entry_at [OF c] split: option.split)
qed

lemma Resolve_tree:
  assumes wf: "vfs_wf s" and r: "Root s = Some r" and res: "ResolvePathInternal e r r p dep f s = (x, s')"
  shows "calm s s'" "x = Some d \<Longrightarrow> \<exists>ps. dentry_at s ps = Some d"
proof -
  have "calm s s' \<and> (\<forall>d. x = Some d \<longrightarrow> d \<in> tree_below s r)"
  proof (cases "StartOfPath r r p")
    case (Inl a)
    then show ?thesis using start_in_tree [of r "tree_below s r" r p] res by (auto simp: ResolvePathInternal_def)
  next
    case (Inr cq)
    then obtain c q where "cq = (c, q)" by fastforce
    then show ?thesis using ResolveSegments_tree [OF wf r _, of c e f dep q x s'] start_in_tree [of r "tree_below s r" r p] Inr res
      by (auto simp: ResolvePathInternal_def)
  qed
  then show "calm s s'" "x = Some d \<Longrightarrow> \<exists>ps. dentry_at s ps = Some d" using in_tree_entry_at [OF r] by auto
qed

lemma Lookup_tree:
  assumes wf: "vfs_wf s" and res: "Lookup e p s = (x, s') \<or> LookupNoFollowFinal e p s = (x, s')"
  shows "calm s s'" "vfs_wf s'" "x = Some d \<Longrightarrow> \<exists>ps. dentry_at s ps = Some d"
proof -
  have "calm s s' \<and> (x = Some d \<longrightarrow> (\<exists>ps. dentry_at s ps = Some d))"
  proof (cases "Root s")
    case None
    then show ?thesis using res by (auto simp: Lookup_def LookupNoFollowFinal_def)
  next
    case (Some r)
    then have "\<exists>f. ResolvePathInternal e r r p MAX_SYMLINK_FOLLOW_DEPTH f s = (x, s')"
      using res by (auto simp: Lookup_def LookupNoFollowFinal_def)
    then show ?thesis using Resolve_tree [OF wf Some] by blast
  qed
  then show "calm s s'" "x = Some d \<Longrightarrow> \<exists>ps. dentry_at s ps = Some d" by blast+
  then show "vfs_wf s'" using calm_wf wf by blast
qed

lemma path_to_branch:
  assumes wf: "vfs_wf s" and r: "Root s = Some r" and d: "dentry_at s ps = Some d" and par: "parent_of s d = Some p"
  obtains pp n where "ps = pp @ [n]" "branch_at s r pp p n d"
proof -
  have w: "walk s r ps = Some d" using d r by (simp add: dentry_at_def)
  show thesis
  proof (cases ps rule: rev_cases)
    case Nil
    with w par vfs_wfD(2) [OF wf r] show ?thesis by simp
  next
    case (snoc pp n)
    from walk_last [OF vfs_wfD(1) [OF wf r] w [unfolded snoc]] par have "walk s r pp = Some p" "FindChildBySegment s p n = Some d" by auto
    with that snoc vfs_wfD(1,3) [OF wf r] show ?thesis unfolding branch_at_def by blast
  qed
qed

section \<open>The invariant through a cut, a graft and a new entry\<close>

lemma counted_dentries:
  assumes "counted s" and "\<And>d. map_option EntryINode (Dentries s' d) = map_option EntryINode (Dentries s d)" and "INodes s' = INodes s"
  shows "counted s'"
proof (rule counted_cong [OF _ refs_cong [OF assms(2)] _ assms(1)])
  have "dom (Dentries s') = dom (Dentries s)" using assms(2) 
  proof -
    have "Dentries s' d = None \<longleftrightarrow> Dentries s d = None" for d using assms(2) [of d] by (metis map_option_is_None)
    then show ?thesis by (auto simp: dom_def)
  qed
  then show "finite (dom (Dentries s'))" using assms(1) by (simp add: counted_def)
qed (simp add: assms(3))

lemma wf_rebuild:
  assumes wf: "vfs_wf s" and r: "Root s' = Some r" and ok: "entries_ok s' r" "parent_of s' r = None"
    and e: "\<And>d. map_option EntryINode (Dentries s' d) = map_option EntryINode (Dentries s d)" and i: "INodes s' = INodes s"
    and n: "NextDentry s' = NextDentry s" "NextINode s' = NextINode s"
  shows "vfs_wf s'"
proof -
  have "Dentries s' d = None \<longleftrightarrow> Dentries s d = None" for d using e [of d] by (metis map_option_is_None)
  then show ?thesis using wf counted_dentries [OF vfs_wfD(4) [OF wf] e i] r ok i n by (simp add: vfs_wf_def)
qed

lemma cut_wf:
  assumes wf: "vfs_wf s" and r: "Root s = Some r" and b: "branch_at s r pp p n c"
  shows "vfs_wf (cut p c s)"
  by (rule wf_rebuild [OF wf _ cut_tree(2) [OF b]])
    (use r vfs_wfD(2) [OF wf r] in \<open>simp_all add: cut_dentry option.map_comp comp_def\<close>)

lemma graft_wf:
  assumes wf: "vfs_wf s" and r: "Root s = Some r" and g: "graft_at s r pp p n c"
  shows "vfs_wf (graft p c n s)"
  by (rule wf_rebuild [OF wf _ graft_tree(1,3) [OF g]])
    (use r graft_atD(12) [OF g] in \<open>simp_all add: graft_dentry option.map_comp comp_def\<close>)

text \<open>A new entry for the inode \<open>i\<close>, which is new or gains a link.\<close>

definition with_entry :: "nat \<Rightarrow> string \<Rightarrow> nat \<Rightarrow> inode \<Rightarrow> vfs \<Rightarrow> vfs" where
  "with_entry p n i x s =
     s\<lparr>Dentries := (Dentries s)(NextDentry s \<mapsto> \<lparr>EntryName = n, EntryINode = Some i, EntryParent = Some p, EntryChildren = []\<rparr>),
       NextDentry := Suc (NextDentry s), INodes := (INodes s)(i \<mapsto> x), NextINode := max (Suc i) (NextINode s)\<rparr>"

lemma with_entry_fields [simp]:
  "Root (with_entry p n i x s) = Root s" "NextDentry (with_entry p n i x s) = Suc (NextDentry s)"
  "NextINode (with_entry p n i x s) = max (Suc i) (NextINode s)" "INodes (with_entry p n i x s) = (INodes s)(i \<mapsto> x)"
  "isEXT (with_entry p n i x s) = isEXT s" "ActiveExtendedFileSystem (with_entry p n i x s) = ActiveExtendedFileSystem s"
  "Dentries (with_entry p n i x s) =
     (Dentries s)(NextDentry s \<mapsto> \<lparr>EntryName = n, EntryINode = Some i, EntryParent = Some p, EntryChildren = []\<rparr>)"
  by (simp_all add: with_entry_def)

lemma with_entry_counted:
  assumes wf: "vfs_wf s" and x: "LinkReferenceCount x = refs s i + 1"
  shows "counted (with_entry p n i x s)"
proof -
  let ?s = "with_entry p n i x s" and ?N = "NextDentry s"
  have new: "Dentries s ?N = None" using vfs_wfD(5) [OF wf, of ?N] by blast
  have fin: "finite (dom (Dentries s))" and c: "\<And>j. INodes s j \<noteq> None \<longleftrightarrow> 0 < refs s j" "\<And>j y. INodes s j = Some y \<Longrightarrow> LinkReferenceCount y = refs s j"
    using vfs_wfD(4) [OF wf] by (auto simp: counted_def)
  have R: "refs ?s j = refs s j + (if j = i then 1 else 0)" for j
  proof -
    have "refs ?s j = refs s j + (if EntryINode \<lparr>EntryName = n, EntryINode = Some i, EntryParent = Some p, EntryChildren = []\<rparr> = Some j then 1 else 0)"
      by (rule refs_remove [where d = ?N]) (use fin new in \<open>auto simp: fun_upd_idem\<close>)
    then show ?thesis by auto
  qed
  show ?thesis using fin c x by (auto simp: counted_def R)
qed

lemma leaf_tree:
  assumes "Dentries s d = Some x" and "EntryChildren x = []" and "EntryINode x \<noteq> None"
  shows "entries_ok s d" "unique_paths s d" "tree_below s d = {d}" "walk s d (n # ns) = None"
proof -
  have f: "FindChildBySegment s d m = None" for m using assms by (simp add: FindChildBySegment_def)
  then show w: "walk s d (n # ns) = None" for n ns by simp
  have w': "walk s d qs = Some y \<longleftrightarrow> qs = [] \<and> y = d" for qs y by (cases qs) (auto simp: w simp del: walk.simps(2))
  then show t: "tree_below s d = {d}" by (auto simp: tree_below_def)
  show "unique_paths s d" by (simp add: unique_paths_def w')
  show "entries_ok s d" unfolding entries_ok_def t using assms by (auto simp: entry_ok_def)
qed

lemma add_entry:
  assumes wf: "vfs_wf s" and r: "Root s = Some r" and pp: "walk s r pp = Some p" and free: "FindChildBySegment s p n = None"
    and x: "LinkReferenceCount x = refs s i + 1" and s': "s' = AppendChild p (NextDentry s) (with_entry p n i x s)"
  shows "vfs_wf s'" "Root s' = Some r" "INodes s' = (INodes s)(i \<mapsto> x)" "NextINode s' = max (Suc i) (NextINode s)"
    "walk s' r (pp @ [n]) = Some (NextDentry s)" "EntryINode (the (Dentries s' (NextDentry s))) = Some i"
    "walk s' r (pp @ n # m # ms) = None" "\<not> prefix (pp @ [n]) qs \<Longrightarrow> walk s' r qs = walk s r qs"
    "\<And>d. d < NextDentry s \<Longrightarrow> map_option EntryINode (Dentries s' d) = map_option EntryINode (Dentries s d)"
    "NextDentry s' = Suc (NextDentry s)" "isEXT s' = isEXT s" "ActiveExtendedFileSystem s' = ActiveExtendedFileSystem s"
proof -
  let ?w = "with_entry p n i x s" and ?N = "NextDentry s"
  note W = vfs_wfD [OF wf]
  have old: "Dentries ?w d = Dentries s d" if "Dentries s d \<noteq> None" for d using W(5) [OF that] by simp
  have below: "Dentries s d \<noteq> None" if "d \<in> tree_below s r" for d using tree_entry [OF wf r that] by (metis option.distinct(1))
  note B = same_below [OF W(1) [OF r] old [OF below]]
  have N: "?N \<notin> tree_below s r" using below W(5) by blast
  have pT: "p \<in> tree_below s r" using pp unfolding tree_below_def by blast
  then have pN: "p \<noteq> ?N" using N by blast
  have leaf: "Dentries ?w ?N = Some \<lparr>EntryName = n, EntryINode = Some i, EntryParent = Some p, EntryChildren = []\<rparr>" by simp
  note L = leaf_tree [OF leaf, simplified]
  have "entry_ok s p" using W(1) [OF r] pT by (simp add: entries_ok_def)
  have fr: "FindChildBySegment ?w p n = None"
  proof (cases "FindChildBySegment ?w p n")
    case (Some c)
    moreover have "walk ?w r pp = Some p" using B(2) pp by simp
    ultimately have "walk ?w r (pp @ [n]) = Some c" by (simp only: walk_snoc option.case)
    then have "walk s r (pp @ [n]) = Some c" by (simp only: B(2))
    with pp free show ?thesis by (simp add: walk_snoc)
  qed simp
  have pr: "parent_of ?w r = None" using W(2) [OF r] N by (auto simp: parent_of_def)
  have g: "graft_at ?w r pp p n ?N"
    unfolding graft_at_def using B pp fr pr L N unique_pathsI [OF B(1) pr] by simp
  have s'g: "s' = graft p ?N n ?w"
  proof -
    have "Dentries (AppendChild p ?N ?w) ?N = Some \<lparr>EntryName = n, EntryINode = Some i, EntryParent = Some p, EntryChildren = []\<rparr>"
      using pN by (simp add: AppendChild_def on_dentry_def)
    then have "graft p ?N n ?w = AppendChild p ?N ?w" unfolding graft_def on_dentry_def by (simp add: fun_upd_idem)
    then show ?thesis using s' by simp
  qed
  have wwf: "vfs_wf ?w"
  proof -
    have "i < max (Suc i) (NextINode s)" by simp
    then show ?thesis using r B(1) pr with_entry_counted [OF wf x, of p n] W(5,6)
      unfolding vfs_wf_def by (auto simp: less_Suc_eq less_max_iff_disj)
  qed
  show "vfs_wf s'" unfolding s'g by (rule graft_wf [OF wwf _ g]) (simp add: r)
  show "Root s' = Some r" "INodes s' = (INodes s)(i \<mapsto> x)" "NextINode s' = max (Suc i) (NextINode s)"
    "NextDentry s' = Suc (NextDentry s)" "isEXT s' = isEXT s" "ActiveExtendedFileSystem s' = ActiveExtendedFileSystem s"
    by (simp_all add: s'g r)
  show "walk s' r (pp @ [n]) = Some ?N" "walk s' r (pp @ n # m # ms) = None"
    unfolding s'g using graft_walk(1) [OF g, of "[]"] graft_walk(1) [OF g, of "m # ms"] L(4) by simp_all
  show "\<not> prefix (pp @ [n]) qs \<Longrightarrow> walk s' r qs = walk s r qs" unfolding s'g using graft_walk(2) [OF g] B(2) by simp
  show "EntryINode (the (Dentries s' ?N)) = Some i" using pN by (auto simp: s'g graft_dentry)
  show "\<And>d. d < ?N \<Longrightarrow> map_option EntryINode (Dentries s' d) = map_option EntryINode (Dentries s d)"
    using pN by (auto simp: s'g graft_dentry option.map_comp comp_def)
qed

section \<open>Deleting\<close>

text \<open>Changing whose child a detached entry says it is changes no walk.\<close>

lemma reparent:
  assumes ok: "entries_ok s c" and u: "unique_paths s c" and s': "s' = on_dentry c (\<lambda>x. x\<lparr>EntryParent := q\<rparr>) s"
  shows "walk s' d ps = walk s d ps" "entries_ok s' c" "entries_ok s r \<Longrightarrow> c \<notin> tree_below s r \<Longrightarrow> entries_ok s' r"
proof -
  have D: "Dentries s' d = (if d = c then map_option (\<lambda>x. x\<lparr>EntryParent := q\<rparr>) (Dentries s c) else Dentries s d)" for d
    by (simp add: s' on_dentry_def)
  have N: "name_of s' d = name_of s d" for d by (cases "Dentries s d") (auto simp: name_of_def D)
  have F: "FindChildBySegment s' d n = FindChildBySegment s d n" for d n
  proof -
    have *: "(\<lambda>c'. case Dentries s' c' of None \<Rightarrow> False | Some x \<Rightarrow> MatchSegmentName (EntryName x) n) =
        (\<lambda>c'. case Dentries s c' of None \<Rightarrow> False | Some x \<Rightarrow> MatchSegmentName (EntryName x) n)"
      by (rule ext) (auto simp: D split: option.split)
    show ?thesis unfolding FindChildBySegment_def * by (auto simp: D split: option.split)
  qed
  show w: "walk s' d ps = walk s d ps" for d ps by (rule walk_agree) (rule F)
  have T: "tree_below s' d = tree_below s d" for d by (simp add: tree_below_def w)
  have E: "entry_ok s' d" if o: "entry_ok s d" and nc: "\<And>x. Dentries s d = Some x \<Longrightarrow> c \<notin> set (EntryChildren x)" for d
  proof -
    from o obtain x where x: "Dentries s d = Some x" unfolding entry_ok_def by blast
    define y where "y = (if d = c then x\<lparr>EntryParent := q\<rparr> else x)"
    have y: "Dentries s' d = Some y" "EntryChildren y = EntryChildren x" "EntryINode y = EntryINode x"
      using x by (auto simp: D y_def)
    have "\<exists>z. Dentries s' e = Some z \<and> EntryParent z = Some d" if "e \<in> set (EntryChildren x)" for e
      using o x nc [OF x] that by (auto simp: entry_ok_def D)
    then show ?thesis using o x y N by (auto simp: entry_ok_def inj_on_def)
  qed
  show "entries_ok s' c"
    unfolding entries_ok_def T
  proof
    fix d assume d: "d \<in> tree_below s c"
    show "entry_ok s' d"
    proof (rule E)
      show o: "entry_ok s d" using ok d unfolding entries_ok_def by blast
      fix x assume x: "Dentries s d = Some x"
      show "c \<notin> set (EntryChildren x)"
      proof
        assume "c \<in> set (EntryChildren x)"
        then have "FindChildBySegment s d (name_of s c) = Some c" using FindChild_ok [OF o] x by blast
        moreover obtain qs where "walk s c qs = Some d" using d by (auto simp: tree_below_def)
        ultimately have "walk s c (qs @ [name_of s c]) = Some c" by (simp add: walk_snoc)
        from unique_pathsD [OF u this, of "[]"] show False by simp
      qed
    qed
  qed
  show "entries_ok s' r" if r: "entries_ok s r" "c \<notin> tree_below s r"
    unfolding entries_ok_def T
  proof
    fix d assume d: "d \<in> tree_below s r"
    show "entry_ok s' d"
    proof (rule E)
      show "entry_ok s d" using r(1) d unfolding entries_ok_def by blast
      show "Dentries s d = Some x \<Longrightarrow> c \<notin> set (EntryChildren x)" for x using entry_child_below [OF r(1) d] r(2) by blast
    qed
  qed
qed

text \<open>A branch cut off and freed: the paths through it are gone and only reference counts change.\<close>

lemma cut_and_free:
  assumes wf: "vfs_wf s" and r: "Root s = Some r" and b: "branch_at s r pp p n c"
    and s': "s' = FreeTree c (on_dentry c (\<lambda>x. x\<lparr>EntryParent := None\<rparr>) (cut p c s))"
  shows "vfs_wf s'" "dentry_at s' qs = (if prefix (pp @ [n]) qs then None else dentry_at s qs)"
    "kept s s'" "ino_at s' qs = (if prefix (pp @ [n]) qs then None else ino_at s qs)"
proof -
  let ?cut = "cut p c s"
  let ?o = "on_dentry c (\<lambda>x. x\<lparr>EntryParent := None\<rparr>) ?cut"
  note B = cut_branch [OF b] and T = cut_tree [OF b]
  have wfc: "vfs_wf ?cut" by (rule cut_wf [OF wf r b])
  have cr: "c \<notin> tree_below ?cut r" using B(5) tree_below_self [of c s] by (auto simp: disjoint_iff)
  note O = reparent [OF B(1,4) refl, where q = None]
  have len: "length rs < NextDentry s" if "walk s c rs = Some x" for rs x
  proof -
    have "walk s r ((pp @ [n]) @ rs) = Some x" using walk_append [of s r "pp @ [n]" rs] branch_atD(6) [OF b] that by simp
    from vfs_wfD(7) [OF wf r this] show ?thesis by simp
  qed
  have free: "freeable (NextDentry s) c ?o" using O(1,2) B(2,4) len by (auto simp: freeable_def unique_paths_def)
  have e: "map_option EntryINode (Dentries ?o d) = map_option EntryINode (Dentries s d)" for d
    by (simp add: on_dentry_def cut_dentry option.map_comp comp_def)
  have cnt: "counted ?o" by (rule counted_dentries [OF vfs_wfD(4) [OF wf] e]) (simp add: on_dentry_def)
  have TO: "tree_below ?o c = tree_below s c" "tree_below ?o r = tree_below ?cut r" using O(1) B(3) by (simp_all add: tree_below_def)
  have s'': "s' = FreeDentryTree (NextDentry s) c ?o" by (simp add: s' FreeTree_def on_dentry_def)
  have f: "freed (tree_below s c) ?o s'" unfolding s'' using FreeDentryTree_freed [OF free cnt] TO(1) by simp
  have D: "Dentries s' d = (if d \<in> tree_below s c then None else Dentries ?o d)" for d using f unfolding freed_def by blast
  have K: "kept ?o s'" "counted s'" using f unfolding freed_def by blast+
  have root: "Root s' = Some r" "NextDentry s' = NextDentry s" "NextINode s' = NextINode s" using K(1) r by (simp_all add: kept_def on_dentry_def)
  have okr: "entries_ok ?o r" using O(3) [OF T(2) cr] .
  have same: "Dentries s' d = Dentries ?o d" if "d \<in> tree_below ?o r" for d using D that TO(2) B(5) by (auto simp: disjoint_iff)
  note S = same_below [OF okr same]
  show E: "dentry_at s' qs = (if prefix (pp @ [n]) qs then None else dentry_at s qs)"
    using S(2) O(1) cut_walk [OF b] root r by (simp add: dentry_at_def)
  have rc: "r \<noteq> c" using cr tree_below_self by blast
  have rT: "r \<notin> tree_below s c" using B(5) tree_below_self [of r ?cut] by (auto simp: disjoint_iff)
  have "parent_of s' r = parent_of ?cut r" using rc rT by (simp add: parent_of_def D on_dentry_def)
  then have p: "parent_of s' r = None" using vfs_wfD(2) [OF wf r] by simp
  have "d < NextDentry s" if "Dentries s' d \<noteq> None" for d
  proof -
    have "Dentries ?o d \<noteq> None" using that by (simp add: D split: if_splits)
    then have "Dentries s d \<noteq> None" using e [of d] by (metis map_option_is_None)
    then show ?thesis by (rule vfs_wfD(5) [OF wf])
  qed
  moreover have "i < NextINode s" if "INodes s' i \<noteq> None" for i
    using that keptD [OF K(1)] vfs_wfD(6) [OF wf, of i] by (fastforce simp: on_dentry_def)
  ultimately show "vfs_wf s'" using S(1) p K(2) root by (simp add: vfs_wf_def)
  show "kept s s'" using K(1) by (simp add: kept_def on_dentry_def)
  show "ino_at s' qs = (if prefix (pp @ [n]) qs then None else ino_at s qs)"
  proof (cases "prefix (pp @ [n]) qs \<or> dentry_at s qs = None")
    case True
    then show ?thesis using E by (auto simp: ino_at_def)
  next
    case False
    then obtain z where z: "dentry_at s qs = Some z" "dentry_at s' qs = Some z" using E by auto
    then have "z \<in> tree_below s' r" using in_tree_entry_at [OF root(1)] by blast
    then have "z \<in> tree_below ?o r" using S(3) by simp
    then have "map_option EntryINode (Dentries s' z) = map_option EntryINode (Dentries s z)" using same e by simp
    moreover obtain w where "Dentries s z = Some w" using tree_entry [OF wf r] z(1) in_tree_entry_at [OF r] by metis
    ultimately show ?thesis using z False by (auto simp: ino_at_def)
  qed
qed

lemma calm_NodeType:
  assumes "calm s s'" and "INodes s' i \<noteq> None"
  shows "NodeType (the (INodes s i)) = NodeType (the (INodes s' i))"
proof -
  have "map_option (\<lambda>n. (NodeType n, LinkReferenceCount n, UsesVirtualHardLinks n, NodeSize n)) (INodes s' i) =
     map_option (\<lambda>n. (NodeType n, LinkReferenceCount n, UsesVirtualHardLinks n, NodeSize n)) (INodes s i)"
    using assms(1) by (simp add: calm_def)
  with assms(2) show ?thesis by (cases "INodes s i"; cases "INodes s' i") auto
qed

lemma entry_inode:
  assumes "vfs_wf s" and "dentry_at s ps = Some d"
  obtains x i n where "Dentries s d = Some x" "EntryINode x = Some i" "INodes s i = Some n" "ino_at s ps = Some i"
proof -
  obtain r where r: "Root s = Some r" using assms(2) by (auto simp: dentry_at_def split: option.splits)
  then have "d \<in> tree_below s r" using assms(2) in_tree_entry_at by blast
  from tree_entry [OF assms(1) r this] show thesis using that assms(2) by (auto simp: ino_at_def)
qed

lemma DeleteFile_spec:
  assumes wf: "vfs_wf s" and res: "DeleteFile e Ext path Type s = (ok, s')"
  shows "vfs_wf s'"
    and "\<not> ok \<Longrightarrow> calm s s'"
    and "ok \<Longrightarrow> \<exists>p d s1 ps i. path = Some p \<and> LookupNoFollowFinal e p s = (Some d, s1) \<and> dentry_at s ps = Some d \<and> ps \<noteq> [] \<and>
      ino_at s ps = Some i \<and> NodeType (the (INodes s i)) = Type \<and> (Type = INODE_DIR \<longrightarrow> EntryChildren (the (Dentries s d)) = []) \<and>
      (\<forall>qs. ino_at s' qs = (if prefix ps qs then None else ino_at s qs)) \<and> kept s1 s'"
proof -
  have "vfs_wf s' \<and> (if ok then (\<exists>p d s1 ps i. path = Some p \<and> LookupNoFollowFinal e p s = (Some d, s1) \<and> dentry_at s ps = Some d \<and> ps \<noteq> [] \<and>
      ino_at s ps = Some i \<and> NodeType (the (INodes s i)) = Type \<and> (Type = INODE_DIR \<longrightarrow> EntryChildren (the (Dentries s d)) = []) \<and>
      (\<forall>qs. ino_at s' qs = (if prefix ps qs then None else ino_at s qs)) \<and> kept s1 s') else calm s s')"
  proof (cases "\<exists>r p. Root s = Some r \<and> path = Some p \<and> (Type = INODE_DIR \<or> Type = INODE_FILE)")
    case False
    then have "ok = False" "s' = s" using res by (auto simp: DeleteFile_def split: option.splits)
    then show ?thesis using wf by simp
  next
    case True
    then obtain r p where rp: "Root s = Some r" "path = Some p" "Type = INODE_DIR \<or> Type = INODE_FILE" by blast
    obtain x s1 where lk: "LookupNoFollowFinal e p s = (x, s1)" by fastforce
    note L = Lookup_tree [OF wf disjI2 [OF lk]]
    have r1: "Root s1 = Some r" and D1: "Dentries s1 = Dentries s" using L(1) rp(1) by (simp_all add: calm_def)
    show ?thesis
    proof (cases "\<exists>d i par. x = Some d \<and> EntryINode (the (Dentries s1 d)) = Some i \<and> EntryParent (the (Dentries s1 d)) = Some par \<and> ok")
      case False
      have "ok = False \<and> s' = s1"
        using res lk rp False by (auto simp: DeleteFile_def RemoveChild_def split: option.splits if_splits)
      then show ?thesis using L(1,2) by simp
    next
      case True
      then obtain d i par where d: "x = Some d" "EntryINode (the (Dentries s1 d)) = Some i" "EntryParent (the (Dentries s1 d)) = Some par" ok by blast
      from L(3) [OF d(1)] obtain ps where "dentry_at s ps = Some d" by blast
      then have ps: "dentry_at s1 ps = Some d" using calm_entry_at [OF L(1)] by simp
      from path_to_branch [OF L(2) r1 ps] d(3) obtain pp n where b: "ps = pp @ [n]" "branch_at s1 r pp par n d"
        by (auto simp: parent_of_def)
      have "entry_ok s1 par" using branch_atD(1,5) [OF b(2)] unfolding entries_ok_def by blast
      then obtain y where y: "Dentries s1 par = Some y" "d \<in> set (EntryChildren y)"
        using FindChild_ok branch_atD(4) [OF b(2)] by blast
      have s': "s' = FreeTree d (on_dentry d (\<lambda>x. x\<lparr>EntryParent := None\<rparr>) (cut par d s1))"
        and ty: "NodeType (the (INodes s1 i)) = Type" "Type = INODE_DIR \<longrightarrow> EntryChildren (the (Dentries s1 d)) = []"
        using res lk rp d RemoveChild_cut [OF y] by (auto simp: DeleteFile_def split: if_splits)
      note F = cut_and_free [OF L(2) r1 b(2) s']
      have ino: "ino_at s' qs = (if prefix ps qs then None else ino_at s qs)" for qs
        using F(4) b(1) calm_ino_at [OF L(1)] by simp
      obtain m where m: "INodes s1 i = Some m" "ino_at s1 ps = Some i" using entry_inode [OF L(2) ps] d(2) by (metis option.sel)
      have i: "ino_at s ps = Some i" using m(2) calm_ino_at [OF L(1)] by simp
      have "NodeType (the (INodes s i)) = Type" using calm_NodeType [OF L(1), of i] m(1) ty(1) by simp
      moreover have "ps \<noteq> []" using b(1) by simp
      moreover have "Type = INODE_DIR \<longrightarrow> EntryChildren (the (Dentries s d)) = []" using ty(2) D1 by simp
      ultimately show ?thesis using F(1,3) d lk rp(2) \<open>dentry_at s ps = Some d\<close> i ino by auto
    qed
  qed
  then show "vfs_wf s'" "\<not> ok \<Longrightarrow> calm s s'" "ok \<Longrightarrow> \<exists>p d s1 ps i. path = Some p \<and> LookupNoFollowFinal e p s = (Some d, s1) \<and> dentry_at s ps = Some d \<and> ps \<noteq> [] \<and>
      ino_at s ps = Some i \<and> NodeType (the (INodes s i)) = Type \<and> (Type = INODE_DIR \<longrightarrow> EntryChildren (the (Dentries s d)) = []) \<and>
      (\<forall>qs. ino_at s' qs = (if prefix ps qs then None else ino_at s qs)) \<and> kept s1 s'" by (simp_all split: if_splits)
qed

section \<open>Segments and the parent of a new path\<close>

function segments :: "string \<Rightarrow> string list" where
  "segments p = (if dropWhile IsSeparator p = [] then [] else SegmentOf p # segments (AfterSegment p))"
  by pat_completeness auto
termination by (relation "measure length") (simp_all add: AfterSegment_shorter)

declare segments.simps [simp del]

lemma segments_cases:
  "dropWhile IsSeparator p = [] \<Longrightarrow> segments p = []"
  "dropWhile IsSeparator p \<noteq> [] \<Longrightarrow> segments p = SegmentOf p # segments (AfterSegment p)"
  by (subst segments.simps, simp)+

definition dir_at :: "vfs \<Rightarrow> nat \<Rightarrow> bool" where
  "dir_at s d \<longleftrightarrow> (\<exists>i. EntryINode (the (Dentries s d)) = Some i \<and> NodeType (the (INodes s i)) = INODE_DIR)"

lemma WalkToParent_walk:
  "WalkToParent s d p = Some t \<Longrightarrow>
     walk s d (segments p) = Some t \<and> (\<forall>k x. 0 < k \<longrightarrow> k \<le> length (segments p) \<longrightarrow> walk s d (take k (segments p)) = Some x \<longrightarrow> dir_at s x)"
proof (induction s d p rule: WalkToParent.induct)
  case (1 s d p)
  show ?case
  proof (cases "dropWhile IsSeparator p = []")
    case True
    then have "WalkToParent s d p = Some d" by (subst WalkToParent.simps) simp
    then show ?thesis using "1.prems" segments_cases(1) [OF True] by simp
  next
    case False
    have "\<exists>c i. \<not> IsDotSegment (SegmentOf p) \<and> \<not> IsDotDotSegment (SegmentOf p) \<and> FindChildBySegment s d (SegmentOf p) = Some c \<and>
       EntryINode (the (Dentries s c)) = Some i \<and> NodeType (the (INodes s i)) = INODE_DIR \<and> WalkToParent s c (AfterSegment p) = Some t"
      using "1.prems" False by (subst (asm) WalkToParent.simps) (auto simp: Let_def simp del: dropWhile_eq_Nil_conv split: option.splits if_splits)
    then obtain c i where c: "\<not> IsDotSegment (SegmentOf p)" "\<not> IsDotDotSegment (SegmentOf p)" "FindChildBySegment s d (SegmentOf p) = Some c"
      "EntryINode (the (Dentries s c)) = Some i" "NodeType (the (INodes s i)) = INODE_DIR" "WalkToParent s c (AfterSegment p) = Some t" by blast
    have IH: "walk s c (segments (AfterSegment p)) = Some t" "\<And>k x. 0 < k \<Longrightarrow> k \<le> length (segments (AfterSegment p)) \<Longrightarrow>
        walk s c (take k (segments (AfterSegment p))) = Some x \<Longrightarrow> dir_at s x"
      using "1.IH" [OF False refl _ c(3,4)] c by auto
    have "dir_at s x" if "0 < k" "k \<le> length (segments p)" "walk s d (take k (segments p)) = Some x" for k x
    proof (cases k)
      case (Suc k')
      then have w: "walk s c (take k' (segments (AfterSegment p))) = Some x" using that(3) segments_cases(2) [OF False] c(3) by simp
      show ?thesis
      proof (cases k')
        case 0
        then show ?thesis using w c(4,5) by (auto simp: dir_at_def)
      next
        case (Suc k'')
        then show ?thesis using IH(2) [of k' x] w that(2) \<open>k = Suc k'\<close> segments_cases(2) [OF False] by simp
      qed
    qed (use that in simp)
    then show ?thesis using IH(1) segments_cases(2) [OF False] c(3) by simp
  qed
qed

text \<open>The test for a descendant looks at the entries on the way up to the root.\<close>

lemma IsDescendant_loop_path:
  assumes ok: "entries_ok s r" "parent_of s r = None"
  shows "walk s r ps = Some d \<Longrightarrow> length ps < n \<Longrightarrow>
    IsDescendant_loop n s (Some d) a \<longleftrightarrow> (\<exists>k. walk s r (take k ps) = Some a)"
proof (induction ps arbitrary: d n rule: rev_induct)
  case Nil
  then obtain m where n: "n = Suc m" by (cases n) auto
  have "entry_ok s r" using ok(1) by (simp add: entries_ok_def)
  then obtain x where "Dentries s r = Some x" unfolding entry_ok_def by blast
  then have "(case Dentries s r of None \<Rightarrow> None | Some x \<Rightarrow> EntryParent x) = None" using ok(2) by (simp add: parent_of_def)
  moreover have "\<not> IsDescendant_loop m s None a" for m by (cases m) simp_all
  ultimately show ?case using Nil n by simp
next
  case (snoc x ps)
  then obtain m where n: "n = Suc m" "length ps < m" by (cases n) auto
  from walk_last [OF ok(1) snoc.prems(1)] obtain p where p: "walk s r ps = Some p" "parent_of s d = Some p" by blast
  have "entry_ok s d" using entries_okD [OF ok(1) snoc.prems(1)] .
  then have up: "(case Dentries s d of None \<Rightarrow> None | Some x \<Rightarrow> EntryParent x) = Some p" using p(2) by (auto simp: parent_of_def entry_ok_def)
  have take: "(\<exists>k. walk s r (take k (ps @ [x])) = Some a) \<longleftrightarrow> a = d \<or> (\<exists>k. walk s r (take k ps) = Some a)"
  proof -
    have "take k (ps @ [x]) = (if k \<le> length ps then take k ps else ps @ [x])" for k by simp
    then have "(\<exists>k. walk s r (take k (ps @ [x])) = Some a) \<longleftrightarrow> a = d \<or> (\<exists>k\<le>length ps. walk s r (take k ps) = Some a)"
      using snoc.prems(1) by (metis le_eq_less_or_eq not_less option.inject lessI not_less_eq_eq)
    moreover have "(\<exists>k\<le>length ps. walk s r (take k ps) = Some a) \<longleftrightarrow> (\<exists>k. walk s r (take k ps) = Some a)"
      by (metis le_cases order_refl take_all)
    ultimately show ?thesis by simp
  qed
  show ?case using snoc.IH [OF p(1) n(2)] n(1) up take by auto
qed

lemma IsDescendantDentry_path:
  assumes wf: "vfs_wf s" and r: "Root s = Some r" and w: "walk s r ps = Some d"
  shows "IsDescendantDentry s d a \<longleftrightarrow> (\<exists>k. walk s r (take k ps) = Some a)"
  unfolding IsDescendantDentry_def using IsDescendant_loop_path [OF vfs_wfD(1,2) [OF wf r] w vfs_wfD(7) [OF wf r w]] .

section \<open>Renaming and linking\<close>

lemma AppendChild_graft:
  "on_dentry c (\<lambda>x. x\<lparr>EntryName := n\<rparr>) (AppendChild p c s) = graft p c n s"
  by (simp add: graft_def)

text \<open>A branch moved to another place.\<close>

lemma move_branch:
  assumes wf: "vfs_wf s" and r: "Root s = Some r" and b: "branch_at s r pp p n c" and t: "walk s r tp = Some t"
    and out: "\<not> prefix (pp @ [n]) tp" and free: "FindChildBySegment s t m = None"
  shows "vfs_wf (graft t c m (cut p c s))"
    and "dentry_at (graft t c m (cut p c s)) (tp @ m # rs) = dentry_at s (pp @ n # rs)"
    and "\<not> prefix (tp @ [m]) qs \<Longrightarrow> dentry_at (graft t c m (cut p c s)) qs = (if prefix (pp @ [n]) qs then None else dentry_at s qs)"
    and "map_option EntryINode (Dentries (graft t c m (cut p c s)) d) = map_option EntryINode (Dentries s d)"
    and "INodes (graft t c m (cut p c s)) = INodes s"
proof -
  let ?cut = "cut p c s"
  note B = cut_branch [OF b] and T = cut_tree [OF b]
  have tc: "walk ?cut r tp = Some t" using cut_walk [OF b] out t by simp
  have "FindChildBySegment ?cut t m = None"
  proof -
    have "t \<in> tree_below s r" using t unfolding tree_below_def by blast
    from cut_entry(2) [OF b this, of m] free show ?thesis by simp
  qed
  moreover have "parent_of ?cut r = None" using vfs_wfD(2) [OF wf r] by simp
  ultimately have g: "graft_at ?cut r tp t m c" unfolding graft_at_def using B T tc by simp
  show "vfs_wf (graft t c m ?cut)" by (rule graft_wf [OF cut_wf [OF wf r b] _ g]) (simp add: r)
  show "dentry_at (graft t c m ?cut) (tp @ m # rs) = dentry_at s (pp @ n # rs)"
    using graft_walk(1) [OF g] B(2) walk_append [of s r "pp @ [n]" rs] branch_atD(6) [OF b] r by (simp add: dentry_at_def)
  show "\<not> prefix (tp @ [m]) qs \<Longrightarrow> dentry_at (graft t c m ?cut) qs = (if prefix (pp @ [n]) qs then None else dentry_at s qs)"
    using graft_walk(2) [OF g] cut_walk [OF b] r by (simp add: dentry_at_def)
  show "map_option EntryINode (Dentries (graft t c m ?cut) d) = map_option EntryINode (Dentries s d)"
    using graft_atD(12) [OF g] by (simp add: graft_dentry cut_dentry option.map_comp comp_def)
  show "INodes (graft t c m ?cut) = INodes s" by simp
qed

lemma move_branch_ino:
  assumes "vfs_wf s" and "\<And>d. map_option EntryINode (Dentries s' d) = map_option EntryINode (Dentries s d)"
    and "dentry_at s' qs = dentry_at s ps"
  shows "ino_at s' qs = ino_at s ps"
proof (cases "dentry_at s ps")
  case (Some d)
  obtain x where "Dentries s d = Some x" using entry_inode [OF assms(1) Some] by blast
  with assms(2) [of d] assms(3) Some show ?thesis by (auto simp: ino_at_def)
qed (use assms(3) in \<open>simp add: ino_at_def\<close>)

lemma take_prefix: "prefix ps qs \<Longrightarrow> take (length ps) qs = ps"
  by (auto simp: prefix_def)

lemma walk_calm: "calm s s' \<Longrightarrow> walk s' = walk s"
  by (intro ext) (simp add: calm_def walk_Dentries [of s' s])

lemma entry_branch:
  assumes wf: "vfs_wf s" and r: "Root s = Some r" and d: "dentry_at s ps = Some d" and par: "EntryParent (the (Dentries s d)) = Some p"
  obtains pp n where "ps = pp @ [n]" "branch_at s r pp p n d" "RemoveChild p d s = (True, cut p d s)"
proof -
  from path_to_branch [OF wf r d] par obtain pp n where b: "ps = pp @ [n]" "branch_at s r pp p n d"
    by (auto simp: parent_of_def)
  have "entry_ok s p" using branch_atD(1,5) [OF b(2)] unfolding entries_ok_def by blast
  then obtain y where y: "Dentries s p = Some y" "d \<in> set (EntryChildren y)"
    using FindChild_ok branch_atD(4) [OF b(2)] by blast
  show thesis using that [OF b RemoveChild_cut [OF y]] .
qed

text \<open>What a rename does: the source path, the new parent, the new name.\<close>

definition moved :: "vfs \<Rightarrow> vfs \<Rightarrow> string list \<Rightarrow> string list \<Rightarrow> string \<Rightarrow> bool" where
  "moved s s' ps tp m \<longleftrightarrow>
     ps \<noteq> [] \<and> \<not> prefix ps tp \<and> dentry_at s tp \<noteq> None \<and> dentry_at s (tp @ [m]) = None \<and>
     (\<forall>rs. ino_at s' (tp @ m # rs) = ino_at s (ps @ rs)) \<and>
     (\<forall>qs. \<not> prefix (tp @ [m]) qs \<longrightarrow> ino_at s' qs = (if prefix ps qs then None else ino_at s qs))"

lemma moved_calm: "calm s s1 \<Longrightarrow> moved s1 s' ps tp m \<Longrightarrow> moved s s' ps tp m"
  by (simp add: moved_def calm_entry_at calm_ino_at)

lemma move_spec:
  assumes wf: "vfs_wf s" and r: "Root s = Some r" and d: "dentry_at s ps = Some d" and par: "EntryParent (the (Dentries s d)) = Some p"
    and t: "dentry_at s tp = Some t" and out: "\<not> prefix ps tp" and free: "FindChildBySegment s t m = None"
    and mv: "RemoveChild p d s = (ok, s1)" "s' = on_dentry d (\<lambda>x. x\<lparr>EntryName := m\<rparr>) (AppendChild t d s1)"
  shows "ok" "vfs_wf s'" "moved s s' ps tp m" "INodes s' = INodes s"
proof -
  from entry_branch [OF wf r d par] obtain pp n where b: "ps = pp @ [n]" "branch_at s r pp p n d" "RemoveChild p d s = (True, cut p d s)" .
  have t': "walk s r tp = Some t" using t r by (simp add: dentry_at_def)
  have s': "s' = graft t d m (cut p d s)" and "ok" using mv b(3) by (simp_all add: AppendChild_graft)
  note M = move_branch [OF wf r b(2) t' out [unfolded b(1)] free, folded s']
  show "ok" "vfs_wf s'" "INodes s' = INodes s" by fact+
  have n: "dentry_at s (tp @ [m]) = None" using t free r t' by (simp add: dentry_at_def walk_snoc)
  have "ino_at s' (tp @ m # rs) = ino_at s (ps @ rs)" for rs
    by (rule move_branch_ino [OF wf M(4)]) (simp add: M(2) b(1))
  moreover have "ino_at s' qs = (if prefix ps qs then None else ino_at s qs)" if q: "\<not> prefix (tp @ [m]) qs" for qs
  proof (cases "prefix ps qs")
    case True
    then have "dentry_at s' qs = None" using M(3) [OF q] b(1) by simp
    then show ?thesis using True by (simp add: ino_at_def)
  next
    case False
    have "ino_at s' qs = ino_at s qs" by (rule move_branch_ino [OF wf M(4)]) (use M(3) [OF q] b(1) False in simp)
    then show ?thesis using False by simp
  qed
  ultimately show "moved s s' ps tp m" using b(1) out t n unfolding moved_def by simp
qed

text \<open>The parent of the new name is a directory, and none of the directories on its way is the source.\<close>

lemma parent_outside:
  assumes wf: "vfs_wf s" and r: "Root s = Some r" and d: "dentry_at s ps = Some d" "ps \<noteq> []"
    and w: "WalkToParent s r q = Some t"
    and ty: "dir_at s d \<Longrightarrow> d \<noteq> t \<and> \<not> IsDescendantDentry s t d"
  shows "dentry_at s (segments q) = Some t" "\<not> prefix ps (segments q)"
proof -
  note W = WalkToParent_walk [OF w]
  show "dentry_at s (segments q) = Some t" using W r by (simp add: dentry_at_def)
  show "\<not> prefix ps (segments q)"
  proof
    assume p: "prefix ps (segments q)"
    then have wd: "walk s r (take (length ps) (segments q)) = Some d" using d r by (simp add: dentry_at_def take_prefix)
    then have "dir_at s d" using W d(2) prefix_length_le [OF p] by blast
    with ty have "\<not> IsDescendantDentry s t d" by blast
    with IsDescendantDentry_path [OF wf r conjunct1 [OF W]] wd show False by blast
  qed
qed

lemma RemoveChild_False: "RemoveChild p c s = (False, s') \<Longrightarrow> s' = s"
  by (auto simp: RemoveChild_def split: option.splits if_splits)

lemma RenameFile_spec:
  assumes wf: "vfs_wf s" and res: "RenameFile e Ext oldPath newPath Type s = (ok, s')"
  shows "vfs_wf s' \<and> (\<not> ok \<and> calm s s' \<or> ok \<and> (\<exists>old new d s1 y s2.
      oldPath = Some old \<and> newPath = Some new \<and> LookupNoFollowFinal e old s = (Some d, s1) \<and> LookupNoFollowFinal e new s1 = (y, s2) \<and>
      (y = Some d \<and> calm s s' \<or> y = None \<and> (\<exists>q m ps. dentry_at s ps = Some d \<and> SplitNewPath new = Some (q, m) \<and> moved s s' ps (segments q) m))))"
proof (cases ok)
  case False
  have C: "calm s s1" if "LookupNoFollowFinal e p s = (x, s1)" for p x s1 using Lookup_tree(1) [OF wf disjI2 [OF that]] .
  have W: "vfs_wf s1" if "LookupNoFollowFinal e p s = (x, s1)" for p x s1 using Lookup_tree(2) [OF wf disjI2 [OF that]] .
  have C2: "calm s s2" if "LookupNoFollowFinal e p s = (x, s1)" "LookupNoFollowFinal e p' s1 = (x', s2)" for p x s1 p' x' s2
    using calm_trans [OF C [OF that(1)] Lookup_tree(1) [OF W [OF that(1)] disjI2 [OF that(2)]]] .
  have "calm s s'"
    using res False C C2 by (auto simp: RenameFile_def dest!: RemoveChild_False split: option.splits if_splits prod.splits bool.splits)
  then show ?thesis using False wf calm_wf by blast
next
  case ok: True
  have "\<exists>r old new d s1. Root s = Some r \<and> oldPath = Some old \<and> newPath = Some new \<and> (Type = INODE_DIR \<or> Type = INODE_FILE) \<and>
      LookupNoFollowFinal e old s = (Some d, s1)"
    using res ok by (auto simp: RenameFile_def split: option.splits if_splits prod.splits)
  then obtain r old new d s1 where a: "Root s = Some r" "oldPath = Some old" "newPath = Some new" "Type = INODE_DIR \<or> Type = INODE_FILE"
    "LookupNoFollowFinal e old s = (Some d, s1)" by blast
  note L = Lookup_tree [OF wf disjI2 [OF a(5)]]
  obtain y s2 where lk2: "LookupNoFollowFinal e new s1 = (y, s2)" by fastforce
  note L2 = Lookup_tree [OF L(2) disjI2 [OF lk2]]
  have c2: "calm s s2" using calm_trans [OF L(1) L2(1)] .
  have r1: "Root s2 = Some r" "Dentries s1 = Dentries s2" using c2 L2(1) a(1) by (simp_all add: calm_def)
  show ?thesis
  proof (cases y)
    case (Some z)
    then have "z = d \<and> s' = s2"
      using res ok a lk2 by (auto simp: RenameFile_def split: option.splits if_splits)
    then show ?thesis using ok a lk2 Some c2 L2(2) by blast
  next
    case None
    have "\<exists>i par q m t s3. EntryINode (the (Dentries s2 d)) = Some i \<and> EntryParent (the (Dentries s2 d)) = Some par \<and> d \<noteq> r \<and>
        NodeType (the (INodes s1 i)) = Type \<and> SplitNewPath new = Some (q, m) \<and> WalkToParent s2 r q = Some t \<and>
        FindChildBySegment s2 t m = None \<and> \<not> (Type = INODE_DIR \<and> (d = t \<or> IsDescendantDentry s2 t d)) \<and>
        RemoveChild par d s2 = (True, s3) \<and> s' = on_dentry d (\<lambda>x. x\<lparr>EntryName := m\<rparr>) (AppendChild t d s3)"
      using res ok a lk2 None r1(2) by (auto simp: RenameFile_def split: option.splits if_splits prod.splits bool.splits)
    then obtain i par q m t s3 where b: "EntryINode (the (Dentries s2 d)) = Some i" "EntryParent (the (Dentries s2 d)) = Some par"
        "NodeType (the (INodes s1 i)) = Type" "SplitNewPath new = Some (q, m)" "WalkToParent s2 r q = Some t"
        "FindChildBySegment s2 t m = None" "\<not> (Type = INODE_DIR \<and> (d = t \<or> IsDescendantDentry s2 t d))"
        "RemoveChild par d s2 = (True, s3)" "s' = on_dentry d (\<lambda>x. x\<lparr>EntryName := m\<rparr>) (AppendChild t d s3)" by blast
    from L(3) [OF refl] obtain ps where ps: "dentry_at s ps = Some d" by blast
    have ps2: "dentry_at s2 ps = Some d" using ps calm_entry_at [OF c2] by simp
    from entry_branch [OF L2(2) r1(1) ps2 b(2)] have ne: "ps \<noteq> []" by blast
    have "dir_at s2 d \<Longrightarrow> Type = INODE_DIR"
    proof -
      assume "dir_at s2 d"
      then have t: "NodeType (the (INodes s2 i)) = INODE_DIR" using b(1) by (auto simp: dir_at_def)
      have "INodes s2 i \<noteq> None" using entry_inode [OF L2(2) ps2] b(1) by (metis option.distinct(1) option.sel)
      from calm_NodeType [OF L2(1) this] t b(3) show ?thesis by simp
    qed
    then have "dir_at s2 d \<Longrightarrow> d \<noteq> t \<and> \<not> IsDescendantDentry s2 t d" using b(7) by blast
    note P = parent_outside [OF L2(2) r1(1) ps2 ne b(5) this]
    note M = move_spec [OF L2(2) r1(1) ps2 b(2) P(1) P(2) b(6) b(8,9)]
    show ?thesis using M(2) moved_calm [OF c2 M(3)] ok a lk2 None ps b(4) by blast
  qed
qed

section \<open>Linking and making entries\<close>

lemma no_way_through: "walk s d (ps @ [n]) = None \<Longrightarrow> prefix (ps @ [n]) qs \<Longrightarrow> walk s d qs = None"
  by (auto simp: prefix_def walk_append split: option.splits)

lemma walk_entry_at: "Root s = Some r \<Longrightarrow> walk s r ps = dentry_at s ps"
  by (simp add: dentry_at_def)

lemma add_entry_ino:
  assumes wf: "vfs_wf s" and r: "Root s = Some r" and pp: "walk s r pp = Some p" and free: "FindChildBySegment s p n = None"
    and x: "LinkReferenceCount x = refs s i + 1" and s': "s' = AppendChild p (NextDentry s) (with_entry p n i x s)"
  shows "dentry_at s' qs = (if qs = pp @ [n] then Some (NextDentry s) else dentry_at s qs)"
    and "ino_at s' qs = (if qs = pp @ [n] then Some i else ino_at s qs)"
proof -
  note A = add_entry [OF assms]
  have e: "dentry_at s' qs = walk s' r qs" "dentry_at s qs = walk s r qs" using A(2) r by (simp_all add: dentry_at_def)
  have none: "walk s r (pp @ [n]) = None" using pp free by (simp add: walk_snoc)
  show E: "dentry_at s' qs = (if qs = pp @ [n] then Some (NextDentry s) else dentry_at s qs)"
  proof (cases "prefix (pp @ [n]) qs")
    case True
    then obtain rs where rs: "qs = pp @ n # rs" by (auto simp: prefix_def)
    show ?thesis
    proof (cases rs)
      case Nil
      then show ?thesis using rs e A(5) by simp
    next
      case (Cons m ms)
      then show ?thesis using rs e(1) A(7) no_way_through [OF none True] e(2) by simp
    qed
  next
    case False
    then show ?thesis using e A(8) by auto
  qed
  show "ino_at s' qs = (if qs = pp @ [n] then Some i else ino_at s qs)"
  proof (cases "qs = pp @ [n] \<or> dentry_at s qs = None")
    case True
    then show ?thesis using E A(6) by (auto simp: ino_at_def)
  next
    case False
    then obtain d where d: "dentry_at s qs = Some d" by blast
    obtain y where y: "Dentries s d = Some y" using entry_inode [OF wf d] by blast
    then have "d < NextDentry s" using vfs_wfD(5) [OF wf, of d] by simp
    from A(9) [OF this] y d False E show ?thesis by (auto simp: ino_at_def)
  qed
qed

lemma link_entry:
  assumes "INodes s i = Some x" and "i < NextINode s"
  shows "(case CreateDentry m (Some t) (Some i) (on_inode i f s) of (d, s1) \<Rightarrow> (True, AppendChild t d s1)) =
     (True, AppendChild t (NextDentry s) (with_entry t m i (f x) s))"
proof -
  have "max (Suc i) (NextINode s) = NextINode s" using assms(2) by simp
  then show ?thesis using assms(1) by (cases s) (simp add: CreateDentry_def on_inode_def with_entry_def)
qed

lemma LinkFile_spec:
  assumes wf: "vfs_wf s" and res: "LinkFile e existingPath newPath s = (ok, s')"
  shows "vfs_wf s' \<and> (\<not> ok \<and> calm s s' \<or> ok \<and> (\<exists>old new d s1 q m ps i n s2 y.
      existingPath = Some old \<and> newPath = Some new \<and> LookupNoFollowFinal e old s = (Some d, s1) \<and> dentry_at s ps = Some d \<and>
      SplitNewPath new = Some (q, m) \<and> dentry_at s (segments q) \<noteq> None \<and> dentry_at s (segments q @ [m]) = None \<and>
      ino_at s ps = Some i \<and> calm s s2 \<and> INodes s2 i = Some n \<and> NodeType n = INODE_FILE \<and>
      INodes s' = (INodes s2)(i \<mapsto> n\<lparr>UsesVirtualHardLinks := y, LinkReferenceCount := LinkReferenceCount n + 1\<rparr>) \<and>
      (\<forall>qs. ino_at s' qs = (if qs = segments q @ [m] then Some i else ino_at s qs))))"
proof (cases ok)
  case False
  have C: "calm s s1" if "LookupNoFollowFinal e p s = (x, s1)" for p x s1 using Lookup_tree(1) [OF wf disjI2 [OF that]] .
  have W: "vfs_wf s1" if "LookupNoFollowFinal e p s = (x, s1)" for p x s1 using Lookup_tree(2) [OF wf disjI2 [OF that]] .
  have C2: "calm s s2" if "LookupNoFollowFinal e p s = (x, s1)" "LookupNoFollowFinal e p' s1 = (x', s2)" for p x s1 p' x' s2
    using calm_trans [OF C [OF that(1)] Lookup_tree(1) [OF W [OF that(1)] disjI2 [OF that(2)]]] .
  have "calm s s'"
    using res False C by (auto simp: LinkFile_def Let_def CreateDentry_def split: option.splits if_splits prod.splits intro: C2)
  then show ?thesis using False wf calm_wf by blast
next
  case ok: True
  have "\<exists>r old new d s1. Root s = Some r \<and> existingPath = Some old \<and> newPath = Some new \<and> LookupNoFollowFinal e old s = (Some d, s1)"
    using res ok by (auto simp: LinkFile_def split: option.splits prod.splits)
  then obtain r old new d s1 where a: "Root s = Some r" "existingPath = Some old" "newPath = Some new"
    "LookupNoFollowFinal e old s = (Some d, s1)" by blast
  note L = Lookup_tree [OF wf disjI2 [OF a(4)]]
  obtain y s2 where lk2: "LookupNoFollowFinal e new s1 = (y, s2)" by fastforce
  note L2 = Lookup_tree [OF L(2) disjI2 [OF lk2]]
  have c2: "calm s s2" using calm_trans [OF L(1) L2(1)] .
  have r1: "Root s2 = Some r" "Dentries s1 = Dentries s2" using c2 L2(1) a(1) by (simp_all add: calm_def)
  define f where "f = (\<lambda>n::inode. n\<lparr>UsesVirtualHardLinks := (asks_ext s2 \<or> UsesVirtualHardLinks n), LinkReferenceCount := LinkReferenceCount n + 1\<rparr>)"
  have "\<exists>i q m t. EntryINode (the (Dentries s2 d)) = Some i \<and> NodeType (the (INodes s1 i)) = INODE_FILE \<and>
      SplitNewPath new = Some (q, m) \<and> WalkToParent s2 r q = Some t \<and> FindChildBySegment s2 t m = None \<and>
      (case CreateDentry m (Some t) (Some i) (on_inode i f s2) of (d, s1) \<Rightarrow> (True, AppendChild t d s1)) = (ok, s')"
    using res ok a lk2 r1(2) by (auto simp: LinkFile_def f_def Let_def split: option.splits if_splits prod.splits)
  then obtain i q m t where b: "EntryINode (the (Dentries s2 d)) = Some i" "NodeType (the (INodes s1 i)) = INODE_FILE"
      "SplitNewPath new = Some (q, m)" "WalkToParent s2 r q = Some t" "FindChildBySegment s2 t m = None"
      "(case CreateDentry m (Some t) (Some i) (on_inode i f s2) of (d, s1) \<Rightarrow> (True, AppendChild t d s1)) = (ok, s')" by blast
  from L(3) [OF refl] obtain ps where ps: "dentry_at s ps = Some d" by blast
  have ps2: "dentry_at s2 ps = Some d" using ps calm_entry_at [OF c2] by simp
  obtain n where n: "INodes s2 i = Some n" "ino_at s2 ps = Some i" using entry_inode [OF L2(2) ps2] b(1) by (metis option.sel)
  have t: "walk s2 r (segments q) = Some t" using WalkToParent_walk [OF b(4)] by blast
  have s': "s' = AppendChild t (NextDentry s2) (with_entry t m i (f n) s2)"
    using b(6) link_entry [OF n(1)] vfs_wfD(6) [OF L2(2), of i] n(1) by simp
  have x: "LinkReferenceCount (f n) = refs s2 i + 1" using vfs_wfD(4) [OF L2(2)] n(1) by (simp add: f_def counted_def)
  note A = add_entry [OF L2(2) r1(1) t b(5) x s'] and I = add_entry_ino [OF L2(2) r1(1) t b(5) x s']
  have "NodeType n = INODE_FILE" using calm_NodeType [OF L2(1), of i] n(1) b(2) by simp
  moreover have "ino_at s ps = Some i" using n(2) calm_ino_at [OF c2] by simp
  moreover have "dentry_at s (segments q) \<noteq> None" "dentry_at s (segments q @ [m]) = None"
    using t b(5) r1(1) calm_entry_at [OF c2, symmetric] by (simp_all add: dentry_at_def walk_snoc)
  moreover have "ino_at s' qs = (if qs = segments q @ [m] then Some i else ino_at s qs)" for qs
    using I(2) calm_ino_at [OF c2] by simp
  ultimately show ?thesis using A(1,3) ok a ps b(3) c2 n(1) unfolding f_def by blast
qed

end
