(* ===== verification/File_Paths.thy ===== *)
theory File_Paths imports File_Operations begin

text \<open>
  Making a path exist, walking a path as it is written, creating files, mounting an initramfs as updates of a map from
  paths to nodes, links that lead to themselves, the contents of files, and the runs of all the operations.
\<close>

section \<open>Making a path exist\<close>

definition new_inode :: "file_type \<Rightarrow> nat \<Rightarrow> ptr \<Rightarrow> inode" where
  "new_inode Type Size Data =
     \<lparr>NodeType = Type, LinkReferenceCount = 1, UsesVirtualHardLinks = False, NodeSize = Size, NodeData = Data,
      IsLazyLoad = False, LazyDataBackedByPMM = False, LazyDataPageCount = 0, BackingInodeNumber = 0,
      LazyLoadRefCount = 0, LazyLoadContext = None, FileOps = DefaultFileOperations\<rparr>"

lemma ino_at_entry: "ino_at s qs = Some i \<Longrightarrow> dentry_at s qs \<noteq> None"
  by (cases "dentry_at s qs") (simp_all add: ino_at_def)

lemma ino_at_small: "vfs_wf s \<Longrightarrow> ino_at s qs = Some i \<Longrightarrow> i < NextINode s"
proof -
  assume wf: "vfs_wf s" and i: "ino_at s qs = Some i"
  obtain d where "dentry_at s qs = Some d" using ino_at_entry [OF i] by blast
  with entry_inode [OF wf this] i vfs_wfD(6) [OF wf, of i] show ?thesis by (metis option.distinct(1) option.sel)
qed

lemma NewEntry_spec:
  assumes wf: "vfs_wf s" and r: "Root s = Some r" and pp: "walk s r pp = Some p" and free: "FindChildBySegment s p n = None"
    and res: "NewEntry p n T S D s = (c, s')"
  shows "c = NextDentry s" "vfs_wf s'" "Root s' = Some r" "walk s' r (pp @ [n]) = Some c"
    "dentry_at s' qs = (if qs = pp @ [n] then Some c else dentry_at s qs)"
    "ino_at s' qs = (if qs = pp @ [n] then Some (NextINode s) else ino_at s qs)"
    "INodes s' = (INodes s)(NextINode s \<mapsto> new_inode T S D)" "NextINode s' = Suc (NextINode s)"
    "isEXT s' = isEXT s" "ActiveExtendedFileSystem s' = ActiveExtendedFileSystem s"
proof -
  let ?i = "NextINode s" and ?x = "new_inode T S D"
  have s': "s' = AppendChild p (NextDentry s) (with_entry p n ?i ?x s)" and c: "c = NextDentry s"
    using res unfolding NewEntry_def by (cases s, auto simp: CreateINode_def CreateDentry_def with_entry_def new_inode_def)
  have "INodes s ?i = None" using vfs_wfD(6) [OF wf, of ?i] by blast
  moreover have "INodes s ?i \<noteq> None \<longleftrightarrow> 0 < refs s ?i" using vfs_wfD(4) [OF wf] unfolding counted_def by blast
  ultimately have "refs s ?i = 0" by simp
  then have x: "LinkReferenceCount ?x = refs s ?i + 1" by (simp add: new_inode_def)
  note A = add_entry [OF wf r pp free x s'] and I = add_entry_ino [OF wf r pp free x s']
  show "c = NextDentry s" "vfs_wf s'" "Root s' = Some r" "walk s' r (pp @ [n]) = Some c"
    "INodes s' = (INodes s)(?i \<mapsto> ?x)" "NextINode s' = Suc ?i" "isEXT s' = isEXT s"
    "ActiveExtendedFileSystem s' = ActiveExtendedFileSystem s"
    "dentry_at s' qs = (if qs = pp @ [n] then Some c else dentry_at s qs)"
    "ino_at s' qs = (if qs = pp @ [n] then Some ?i else ino_at s qs)"
    using A I c by (simp_all)
qed

lemma on_inode_of_spec:
  assumes wf: "vfs_wf s" and d: "dentry_at s ps = Some d" and f: "\<And>n. LinkReferenceCount (f n) = LinkReferenceCount n"
  obtains i n where "ino_at s ps = Some i" "INodes s i = Some n" "on_inode_of d f s = s\<lparr>INodes := (INodes s)(i \<mapsto> f n)\<rparr>"
    "vfs_wf (on_inode_of d f s)" "dentry_at (on_inode_of d f s) = dentry_at s" "ino_at (on_inode_of d f s) = ino_at s"
proof -
  obtain x i n where x: "Dentries s d = Some x" "EntryINode x = Some i" "INodes s i = Some n" "ino_at s ps = Some i"
    using entry_inode [OF wf d] .
  let ?s = "on_inode_of d f s"
  have s: "?s = s\<lparr>INodes := (INodes s)(i \<mapsto> f n)\<rparr>" using x by (simp add: on_inode_of_def on_inode_def)
  have D: "Dentries ?s = Dentries s" by (simp add: s)
  have "counted ?s"
  proof (rule counted_cong [OF _ refs_cong _ vfs_wfD(4) [OF wf]])
    show "finite (dom (Dentries ?s))" using vfs_wfD(4) [OF wf] by (simp add: D counted_def)
  qed (use x(3) f in \<open>simp_all add: s\<close>)
  moreover have "entries_ok ?s r" "parent_of ?s r = None" if "Root s = Some r" for r
    using vfs_wfD(1,2) [OF wf that] entries_Dentries [OF D] by (simp_all add: parent_of_def D)
  moreover have "d < NextDentry ?s" if "Dentries ?s d \<noteq> None" for d using vfs_wfD(5) [OF wf, of d] that by (simp add: s)
  moreover have "j < NextINode ?s" if "INodes ?s j \<noteq> None" for j using vfs_wfD(6) [OF wf, of j] that x(3) by (cases "j = i") (simp_all add: s)
  moreover have "Root ?s = Root s" by (simp add: s)
  ultimately have wf': "vfs_wf ?s" unfolding vfs_wf_def by (cases "Root s") simp_all
  have "Root ?s = Root s" by (simp add: s)
  then have e: "dentry_at ?s = dentry_at s" by (intro ext) (simp add: dentry_at_def walk_Dentries [OF D] split: option.split)
  have "ino_at ?s = ino_at s" by (rule ext) (simp add: ino_at_def e D split: option.split)
  with that x s wf' e show thesis by blast
qed

text \<open>What making the path \<open>segs\<close> below \<open>pp\<close> leaves: the entries of the path, and all that was there before.\<close>

definition ensured :: "file_type \<Rightarrow> nat \<Rightarrow> ptr \<Rightarrow> bool \<Rightarrow> string list \<Rightarrow> string list \<Rightarrow> vfs \<Rightarrow> vfs \<Rightarrow> bool" where
  "ensured T S D final pp segs s s' \<longleftrightarrow>
     vfs_wf s' \<and> Root s' = Root s \<and> isEXT s' = isEXT s \<and> ActiveExtendedFileSystem s' = ActiveExtendedFileSystem s \<and>
     NextINode s \<le> NextINode s' \<and>
     (\<forall>qs. dentry_at s qs \<noteq> None \<longrightarrow> dentry_at s' qs = dentry_at s qs \<and> ino_at s' qs = ino_at s qs) \<and>
     (\<forall>qs. dentry_at s' qs \<noteq> None \<longleftrightarrow> dentry_at s qs \<noteq> None \<or> (\<exists>k\<le>length segs. qs = pp @ take k segs)) \<and>
     (\<forall>k\<le>length segs. (final \<longrightarrow> k < length segs) \<longrightarrow> dentry_at s (pp @ take k segs) = None \<longrightarrow>
        (\<exists>i\<ge>NextINode s. ino_at s' (pp @ take k segs) = Some i \<and> INodes s' i = Some (new_inode INODE_DIR 0 None))) \<and>
     (final \<longrightarrow> dentry_at s (pp @ segs) = None \<longrightarrow>
        (\<exists>i\<ge>NextINode s. ino_at s' (pp @ segs) = Some i \<and> INodes s' i = Some (new_inode T S D))) \<and>
     (\<forall>i<NextINode s. INodes s' i =
        (if final \<and> ino_at s (pp @ segs) = Some i then map_option (ResetNode T S D) (INodes s i) else INodes s i)) \<and>
     (\<forall>i\<ge>NextINode s. \<forall>n. INodes s' i = Some n \<longrightarrow> LinkReferenceCount n = 1)"

lemma ensuredD:
  assumes "ensured T S D final pp segs s s'"
  shows "vfs_wf s'" "Root s' = Root s" "isEXT s' = isEXT s" "ActiveExtendedFileSystem s' = ActiveExtendedFileSystem s"
    "NextINode s \<le> NextINode s'" "dentry_at s qs \<noteq> None \<Longrightarrow> dentry_at s' qs = dentry_at s qs \<and> ino_at s' qs = ino_at s qs"
    "dentry_at s' qs \<noteq> None \<longleftrightarrow> dentry_at s qs \<noteq> None \<or> (\<exists>k\<le>length segs. qs = pp @ take k segs)"
    "k \<le> length segs \<Longrightarrow> (final \<Longrightarrow> k < length segs) \<Longrightarrow> dentry_at s (pp @ take k segs) = None \<Longrightarrow>
        \<exists>i\<ge>NextINode s. ino_at s' (pp @ take k segs) = Some i \<and> INodes s' i = Some (new_inode INODE_DIR 0 None)"
    "final \<Longrightarrow> dentry_at s (pp @ segs) = None \<Longrightarrow>
        \<exists>i\<ge>NextINode s. ino_at s' (pp @ segs) = Some i \<and> INodes s' i = Some (new_inode T S D)"
    "i < NextINode s \<Longrightarrow> INodes s' i =
        (if final \<and> ino_at s (pp @ segs) = Some i then map_option (ResetNode T S D) (INodes s i) else INodes s i)"
    "NextINode s \<le> i \<Longrightarrow> INodes s' i = Some n \<Longrightarrow> LinkReferenceCount n = 1"
  using assms unfolding ensured_def by (blast | presburger)+

lemma ensured_nothing: "vfs_wf s \<Longrightarrow> dentry_at s pp \<noteq> None \<Longrightarrow> ensured T S D False pp [] s s"
  using vfs_wfD(6) [of s] by (fastforce simp: ensured_def)

lemma take_Suc_cases: "(\<exists>k\<le>Suc n. P k) \<longleftrightarrow> P 0 \<or> (\<exists>k\<le>n. P (Suc k))"
  by (metis Suc_le_mono not0_implies_Suc zero_le)

text \<open>One more segment in front: an entry made for it, or one found.\<close>

lemma ensured_new:
  assumes wf: "vfs_wf s" and r: "Root s = Some r" and pp: "walk s r pp = Some p" and free: "FindChildBySegment s p n = None"
    and new: "NewEntry p n T' S' D' s = (c, s1)" and e: "ensured T S D final (pp @ [n]) segs s1 s'"
    and dir: "\<not> (final0 \<and> segs = []) \<Longrightarrow> T' = INODE_DIR \<and> S' = 0 \<and> D' = None \<and> final0 = final"
    and last: "final0 \<Longrightarrow> segs = [] \<Longrightarrow> T' = T \<and> S' = S \<and> D' = D \<and> \<not> final"
  shows "ensured T S D final0 pp (n # segs) s s'"
proof -
  note N = NewEntry_spec [OF wf r pp free new] and E = ensuredD [OF e]
  let ?i = "NextINode s"
  have below: "dentry_at s (pp @ n # rs) = None" for rs
    using pp free r by (simp add: dentry_at_def walk_append)
  have e1: "dentry_at s1 (pp @ [n]) = Some c" "ino_at s1 (pp @ [n]) = Some ?i" using N by simp_all
  have i1: "ino_at s' (pp @ [n]) = Some ?i" using E(6) [of "pp @ [n]"] e1 by simp
  have nofinal: "\<not> (final \<and> ino_at s1 ((pp @ [n]) @ segs) = Some ?i)"
  proof
    assume a: "final \<and> ino_at s1 ((pp @ [n]) @ segs) = Some ?i"
    show False
    proof (cases "segs = []")
      case True
      then show ?thesis using last dir a by blast
    next
      case False
      then have "ino_at s ((pp @ [n]) @ segs) = Some ?i" using a N(6) by simp
      then show ?thesis using ino_at_small [OF wf] by blast
    qed
  qed
  have I1: "INodes s' ?i = Some (new_inode T' S' D')" using E(10) [of ?i] nofinal N(7,8) by auto
  have "vfs_wf s'" "Root s' = Root s" "isEXT s' = isEXT s" "ActiveExtendedFileSystem s' = ActiveExtendedFileSystem s" "?i \<le> NextINode s'"
    using E(1-5) N(3,8-10) r by simp_all
  moreover have "dentry_at s' qs = dentry_at s qs \<and> ino_at s' qs = ino_at s qs" if "dentry_at s qs \<noteq> None" for qs
  proof -
    have "qs \<noteq> pp @ [n]" using that below [of "[]"] by auto
    then show ?thesis using E(6) [of qs] N(5,6) [of qs] that by simp
  qed
  moreover have "dentry_at s' qs \<noteq> None \<longleftrightarrow> dentry_at s qs \<noteq> None \<or> (\<exists>k\<le>length (n # segs). qs = pp @ take k (n # segs))" for qs
  proof -
    have "(\<exists>k\<le>length (n # segs). qs = pp @ take k (n # segs)) \<longleftrightarrow> qs = pp \<or> (\<exists>k\<le>length segs. qs = pp @ n # take k segs)"
      using take_Suc_cases [of "length segs" "\<lambda>k. qs = pp @ take k (n # segs)"] by simp
    moreover have "dentry_at s pp \<noteq> None" using pp r by (simp add: dentry_at_def)
    moreover have "(qs = pp @ [n]) \<longrightarrow> (\<exists>k\<le>length segs. qs = pp @ n # take k segs)" by (metis le0 take0)
    ultimately show ?thesis using E(7) [of qs] N(5) [of qs] by auto
  qed
  moreover have "\<exists>i\<ge>?i. ino_at s' (pp @ take k (n # segs)) = Some i \<and> INodes s' i = Some (new_inode INODE_DIR 0 None)"
    if k: "k \<le> length (n # segs)" "final0 \<longrightarrow> k < length (n # segs)" "dentry_at s (pp @ take k (n # segs)) = None" for k
  proof (cases k)
    case 0
    then show ?thesis using k(3) pp r by (simp add: dentry_at_def)
  next
    case (Suc m)
    show ?thesis
    proof (cases m)
      case 0
      then have "\<not> (final0 \<and> segs = [])" using k(2) Suc by simp
      then show ?thesis using dir I1 i1 Suc 0 by auto
    next
      case (Suc m')
      then have "\<not> (final0 \<and> segs = [])" using k(1) \<open>k = Suc m\<close> by auto
      then have "final \<Longrightarrow> m < length segs" using dir k(2) \<open>k = Suc m\<close> by simp
      moreover have "dentry_at s1 ((pp @ [n]) @ take m segs) = None"
        using N(5) [of "(pp @ [n]) @ take m segs"] below [of "take m segs"] Suc k(1) \<open>k = Suc m\<close> by auto
      ultimately show ?thesis using E(8) [of m] k(1) \<open>k = Suc m\<close> N(8) by fastforce
    qed
  qed
  moreover have "\<exists>i\<ge>?i. ino_at s' (pp @ n # segs) = Some i \<and> INodes s' i = Some (new_inode T S D)" if f: "final0"
  proof (cases "segs = []")
    case True
    then show ?thesis using last [OF f] I1 i1 by auto
  next
    case False
    then have "final" using dir f by blast
    moreover have "dentry_at s1 ((pp @ [n]) @ segs) = None" using N(5) [of "(pp @ [n]) @ segs"] below [of segs] False by simp
    ultimately show ?thesis using E(9) N(8) by fastforce
  qed
  moreover have "INodes s' i = (if final0 \<and> ino_at s (pp @ n # segs) = Some i then map_option (ResetNode T S D) (INodes s i) else INodes s i)"
    if i: "i < ?i" for i
  proof -
    have none: "ino_at s (pp @ n # segs) = None" using below [of segs] by (simp add: ino_at_def)
    moreover have "\<not> ino_at s1 ((pp @ [n]) @ segs) = Some i" using N(6) [of "(pp @ [n]) @ segs"] none i by auto
    ultimately show ?thesis using E(10) [of i] N(7,8) i by simp
  qed
  moreover have "LinkReferenceCount m = 1" if "?i \<le> i" "INodes s' i = Some m" for i m
  proof (cases "i = ?i")
    case True
    then show ?thesis using that I1 by (auto simp: new_inode_def)
  next
    case False
    then show ?thesis using E(11) [of i m] that N(8) by simp
  qed
  ultimately show ?thesis unfolding ensured_def by simp
qed

lemma ensured_old:
  assumes wf: "vfs_wf s" and r: "Root s = Some r" and pp: "walk s r pp = Some p" and c: "FindChildBySegment s p n = Some c"
    and e: "ensured T S D final (pp @ [n]) segs s1 s'"
    and step: "\<not> (final0 \<and> segs = []) \<Longrightarrow> s1 = s \<and> final0 = final"
    and last: "final0 \<Longrightarrow> segs = [] \<Longrightarrow> s1 = on_inode_of c (ResetNode T S D) s \<and> \<not> final"
  shows "ensured T S D final0 pp (n # segs) s s'"
proof -
  note E = ensuredD [OF e]
  have ec: "dentry_at s (pp @ [n]) = Some c" using pp c r by (simp add: dentry_at_def walk_snoc)
  have reset: "LinkReferenceCount (ResetNode T S D n) = LinkReferenceCount n" for n by (simp add: ResetNode_def)
  obtain i0 n0 where i0: "ino_at s (pp @ [n]) = Some i0" "INodes s i0 = Some n0"
    and O: "on_inode_of c (ResetNode T S D) s = s\<lparr>INodes := (INodes s)(i0 \<mapsto> ResetNode T S D n0)\<rparr>"
      "dentry_at (on_inode_of c (ResetNode T S D) s) = dentry_at s" "ino_at (on_inode_of c (ResetNode T S D) s) = ino_at s"
    by (rule on_inode_of_spec [OF wf ec, where f = "ResetNode T S D", OF reset]) blast
  have S: "dentry_at s1 = dentry_at s" "ino_at s1 = ino_at s" "Root s1 = Root s" "isEXT s1 = isEXT s" "NextINode s1 = NextINode s"
    "ActiveExtendedFileSystem s1 = ActiveExtendedFileSystem s"
    "INodes s1 = (if final0 \<and> segs = [] then (INodes s)(i0 \<mapsto> ResetNode T S D n0) else INodes s)"
  proof -
    have F: "Root (on_inode_of c f s) = Root s" "isEXT (on_inode_of c f s) = isEXT s" "NextINode (on_inode_of c f s) = NextINode s"
      "ActiveExtendedFileSystem (on_inode_of c f s) = ActiveExtendedFileSystem s" for f
      by (simp_all add: on_inode_of_def on_inode_def split: option.split)
    have I: "INodes (on_inode_of c (ResetNode T S D) s) = (INodes s)(i0 \<mapsto> ResetNode T S D n0)" by (simp add: O(1))
    have "s1 = (if final0 \<and> segs = [] then on_inode_of c (ResetNode T S D) s else s)" using step last by auto
    then show "dentry_at s1 = dentry_at s" "ino_at s1 = ino_at s" "Root s1 = Root s" "isEXT s1 = isEXT s" "NextINode s1 = NextINode s"
      "ActiveExtendedFileSystem s1 = ActiveExtendedFileSystem s"
      "INodes s1 = (if final0 \<and> segs = [] then (INodes s)(i0 \<mapsto> ResetNode T S D n0) else INodes s)"
      by (simp_all only: O(2,3) F I if_cancel split: if_split) auto
  qed
  have "vfs_wf s'" "Root s' = Root s" "isEXT s' = isEXT s" "ActiveExtendedFileSystem s' = ActiveExtendedFileSystem s" "NextINode s \<le> NextINode s'"
    using E(1-5) S by simp_all
  moreover have "dentry_at s' qs = dentry_at s qs \<and> ino_at s' qs = ino_at s qs" if "dentry_at s qs \<noteq> None" for qs
    using E(6) S that by simp
  moreover have "dentry_at s' qs \<noteq> None \<longleftrightarrow> dentry_at s qs \<noteq> None \<or> (\<exists>k\<le>length (n # segs). qs = pp @ take k (n # segs))" for qs
  proof -
    have "(\<exists>k\<le>length (n # segs). qs = pp @ take k (n # segs)) \<longleftrightarrow> qs = pp \<or> (\<exists>k\<le>length segs. qs = pp @ n # take k segs)"
      using take_Suc_cases [of "length segs" "\<lambda>k. qs = pp @ take k (n # segs)"] by simp
    moreover have "dentry_at s pp \<noteq> None" using pp r by (simp add: dentry_at_def)
    ultimately show ?thesis using E(7) [of qs] S(1) by auto
  qed
  moreover have "\<exists>i\<ge>NextINode s. ino_at s' (pp @ take k (n # segs)) = Some i \<and> INodes s' i = Some (new_inode INODE_DIR 0 None)"
    if k: "k \<le> length (n # segs)" "final0 \<longrightarrow> k < length (n # segs)" "dentry_at s (pp @ take k (n # segs)) = None" for k
  proof (cases k)
    case 0
    then show ?thesis using k(3) pp r by (simp add: dentry_at_def)
  next
    case (Suc m)
    have m: "m \<noteq> 0" using k(3) ec Suc by (cases m) auto
    then have "\<not> (final0 \<and> segs = [])" using k(1) Suc by auto
    then have "final \<Longrightarrow> m < length segs" using step k(2) Suc by simp
    then show ?thesis using E(8) [of m] k(1,3) Suc S by fastforce
  qed
  moreover have "\<exists>i\<ge>NextINode s. ino_at s' (pp @ n # segs) = Some i \<and> INodes s' i = Some (new_inode T S D)"
    if f: "final0" "dentry_at s (pp @ n # segs) = None"
  proof -
    have "segs \<noteq> []" using f(2) ec by auto
    then show ?thesis using E(9) step f S by fastforce
  qed
  moreover have "INodes s' i = (if final0 \<and> ino_at s (pp @ n # segs) = Some i then map_option (ResetNode T S D) (INodes s i) else INodes s i)"
    if i: "i < NextINode s" for i
  proof (cases "final0 \<and> segs = []")
    case True
    then show ?thesis using E(10) [of i] S i i0 last by auto
  next
    case False
    then show ?thesis using E(10) [of i] S i step by auto
  qed
  moreover have "LinkReferenceCount m = 1" if "NextINode s \<le> i" "INodes s' i = Some m" for i m
    using E(11) [of i m] that S(5) by simp
  ultimately show ?thesis unfolding ensured_def by simp
qed

text \<open>A path whose last character is a separator asks for a directory whatever the type.\<close>

definition ends_open :: "string \<Rightarrow> bool" where
  "ends_open p \<longleftrightarrow> p \<noteq> [] \<and> \<not> IsSeparator (last p)"

lemma ends_open_step:
  assumes "dropWhile IsSeparator p \<noteq> []"
  shows "AfterSegment p = [] \<Longrightarrow> ends_open p" "AfterSegment p \<noteq> [] \<Longrightarrow> ends_open (AfterSegment p) = ends_open p"
    "ends_open (AfterSegment p) \<Longrightarrow> segments (AfterSegment p) \<noteq> []"
    "ends_open p \<Longrightarrow> segments (AfterSegment p) = [] \<Longrightarrow> AfterSegment p = []"
proof -
  have p: "p = takeWhile IsSeparator p @ SegmentOf p @ AfterSegment p"
    unfolding SegmentOf_def AfterSegment_def by simp
  have ne: "p \<noteq> []" using assms by auto
  show a: "AfterSegment p \<noteq> [] \<Longrightarrow> ends_open (AfterSegment p) = ends_open p"
    unfolding ends_open_def using ne by (subst (3) p) simp
  show "AfterSegment p = [] \<Longrightarrow> ends_open p"
  proof -
    assume "AfterSegment p = []"
    then have "last p = last (SegmentOf p)" using p SegmentOf_nonempty [OF assms] by (metis append_Nil2 last_appendR)
    moreover have "last (SegmentOf p) \<in> set (SegmentOf p)" using SegmentOf_nonempty [OF assms] by simp
    ultimately have "\<not> IsSeparator (last p)" unfolding SegmentOf_def by (metis set_takeWhileD)
    then show "ends_open p" using ne by (simp add: ends_open_def)
  qed
  have s: "segments q \<noteq> []" if "ends_open q" for q
  proof -
    have "last q \<in> set q" "\<not> IsSeparator (last q)" using that by (simp_all add: ends_open_def)
    then have "dropWhile IsSeparator q \<noteq> []" by auto
    then show ?thesis using segments_cases(2) [of q] by simp
  qed
  then show "ends_open (AfterSegment p) \<Longrightarrow> segments (AfterSegment p) \<noteq> []" .
  show "ends_open p \<Longrightarrow> segments (AfterSegment p) = [] \<Longrightarrow> AfterSegment p = []" using a s by blast
qed

lemma EnsureSegments_spec:
  "vfs_wf s \<Longrightarrow> Root s = Some r \<Longrightarrow> walk s r pp = Some cur \<Longrightarrow>
     ensured T S D (ends_open p) pp (segments p) s (EnsureSegments T S D cur p s)"
proof (induction T S D cur p s arbitrary: pp rule: EnsureSegments.induct)
  case (1 T S D cur p s)
  show ?case
  proof (cases "dropWhile IsSeparator p = []")
    case True
    have "\<not> ends_open p"
    proof
      assume "ends_open p"
      then have "last p \<in> set p" "\<not> IsSeparator (last p)" by (simp_all add: ends_open_def)
      then show False using True by (simp add: dropWhile_eq_Nil_conv)
    qed
    moreover have "EnsureSegments T S D cur p s = s" using True by (subst EnsureSegments.simps) simp
    ultimately show ?thesis using ensured_nothing [OF "1.prems"(1)] "1.prems" segments_cases(1) [OF True] by (simp add: dentry_at_def)
  next
    case False
    let ?seg = "SegmentOf p" and ?rest = "AfterSegment p"
    note F = ends_open_step [OF False] and seg = segments_cases(2) [OF False]
    have closed: "\<not> ends_open ?rest" if "segments ?rest = []" using F(3) that by blast
    have mid: "?rest \<noteq> []" if "\<not> (ends_open p \<and> segments ?rest = [])" using F(1) that segments_cases(1) [of ?rest] by fastforce
    show ?thesis
    proof (cases "FindChildBySegment s cur ?seg")
      case None
      obtain c s1 where new: "(if ?rest = [] then NewEntry cur ?seg T S D s else NewEntry cur ?seg INODE_DIR 0 None s) = (c, s1)"
        by fastforce
      define T' where "T' = (if ?rest = [] then T else INODE_DIR)"
      define S' where "S' = (if ?rest = [] then S else 0)"
      define D' where "D' = (if ?rest = [] then D else None)"
      have new': "NewEntry cur ?seg T' S' D' s = (c, s1)" using new by (simp add: T'_def S'_def D'_def split: if_splits)
      note N = NewEntry_spec [OF "1.prems" None new']
      have IH: "ensured T S D (ends_open ?rest) (pp @ [?seg]) (segments ?rest) s1 (EnsureSegments T S D c ?rest s1)"
        using "1.IH"(1) [OF False refl refl refl None new [symmetric] N(2-4)] .
      have run: "EnsureSegments T S D cur p s = EnsureSegments T S D c ?rest s1"
        using False None new by (subst EnsureSegments.simps) (simp add: Let_def del: dropWhile_eq_Nil_conv)
      show ?thesis
        unfolding run seg
      proof (rule ensured_new [OF "1.prems" None new' IH])
        show "\<not> (ends_open p \<and> segments ?rest = []) \<Longrightarrow> T' = INODE_DIR \<and> S' = 0 \<and> D' = None \<and> ends_open p = ends_open ?rest"
          using mid F(2) by (simp add: T'_def S'_def D'_def)
        show "ends_open p \<Longrightarrow> segments ?rest = [] \<Longrightarrow> T' = T \<and> S' = S \<and> D' = D \<and> \<not> ends_open ?rest"
          using F(4) closed by (simp add: T'_def S'_def D'_def)
      qed
    next
      case (Some c)
      define s1 where "s1 = (if ?rest = [] then on_inode_of c (ResetNode T S D) s else s)"
      have ec: "dentry_at s (pp @ [?seg]) = Some c" using "1.prems" Some by (simp add: dentry_at_def walk_snoc)
      have reset: "LinkReferenceCount (ResetNode T S D n) = LinkReferenceCount n" for n by (simp add: ResetNode_def)
      have "vfs_wf (on_inode_of c (ResetNode T S D) s) \<and> dentry_at (on_inode_of c (ResetNode T S D) s) = dentry_at s"
        by (rule on_inode_of_spec [OF "1.prems"(1) ec, where f = "ResetNode T S D", OF reset]) blast
      moreover have r1: "Root s1 = Some r"
        using "1.prems"(2) by (simp add: s1_def on_inode_of_def on_inode_def split: option.split)
      ultimately have s1: "vfs_wf s1" "walk s1 r (pp @ [?seg]) = Some c"
        using "1.prems"(1) ec walk_entry_at [OF r1, of "pp @ [?seg]"] by (simp_all add: s1_def split: if_splits)
      have IH: "ensured T S D (ends_open ?rest) (pp @ [?seg]) (segments ?rest) s1 (EnsureSegments T S D c ?rest s1)"
        unfolding s1_def by (rule "1.IH"(2) [OF False refl refl refl Some s1(1) [unfolded s1_def] r1 [unfolded s1_def] s1(2) [unfolded s1_def]])
      have run: "EnsureSegments T S D cur p s = EnsureSegments T S D c ?rest s1"
        using False Some by (subst EnsureSegments.simps) (simp add: Let_def s1_def del: dropWhile_eq_Nil_conv)
      show ?thesis
        unfolding run seg
      proof (rule ensured_old [OF "1.prems" Some IH])
        show "\<not> (ends_open p \<and> segments ?rest = []) \<Longrightarrow> s1 = s \<and> ends_open p = ends_open ?rest"
          using mid F(2) by (simp add: s1_def)
        show "ends_open p \<Longrightarrow> segments ?rest = [] \<Longrightarrow> s1 = on_inode_of c (ResetNode T S D) s \<and> \<not> ends_open ?rest"
          using F(4) closed by (simp add: s1_def)
      qed
    qed
  qed
qed

section \<open>Plain paths\<close>

text \<open>The names a path goes through, and paths that are walked as they are written.\<close>

definition path_names :: "string \<Rightarrow> string list" where
  "path_names p = (let q = NormalizePathStart p in if IsRootAliasPath q then [] else segments q)"

definition no_dots :: "string list \<Rightarrow> bool" where
  "no_dots ns \<longleftrightarrow> (\<forall>n\<in>set ns. \<not> IsDotSegment n \<and> \<not> IsDotDotSegment n)"




lemma no_dots_Cons [simp]: "no_dots (n # ns) \<longleftrightarrow> \<not> IsDotSegment n \<and> \<not> IsDotDotSegment n \<and> no_dots ns"
  by (auto simp: no_dots_def)


lemma SkipDot_suffix: "suffix (SkipDotSeparator p) p"
  by (induction p rule: SkipDotSeparator.induct) (auto simp: suffix_ConsI)

lemma Normalize_suffix: "suffix (NormalizePathStart p) p"
  unfolding NormalizePathStart_def using SkipDot_suffix suffix_dropWhile suffix_order.trans by blast

lemma ends_open_suffix: "suffix q p \<Longrightarrow> q \<noteq> [] \<Longrightarrow> ends_open q = ends_open p"
  by (auto simp: ends_open_def suffix_def)



section \<open>Creating and mounting\<close>

lemma EnsurePathDentry_root:
  assumes wf: "vfs_wf s" and r: "Root s = Some r" and al: "IsRootAliasPath (NormalizePathStart p)"
    and s': "s' = EnsurePathDentry r p T S D s"
  obtains i n where "ino_at s [] = Some i" "INodes s i = Some n" "INodes s' = (INodes s)(i \<mapsto> ResetNode INODE_DIR 0 None n)"
    "NextINode s' = NextINode s" "vfs_wf s'" "dentry_at s' = dentry_at s" "ino_at s' = ino_at s" "Root s' = Root s"
    "isEXT s' = isEXT s" "ActiveExtendedFileSystem s' = ActiveExtendedFileSystem s"
proof -
  have run: "s' = on_inode_of r (ResetNode INODE_DIR 0 None) s" using al s' by (simp add: EnsurePathDentry_def)
  have root: "dentry_at s [] = Some r" using r by (simp add: dentry_at_def)
  have reset: "LinkReferenceCount (ResetNode INODE_DIR 0 None n) = LinkReferenceCount n" for n by (simp add: ResetNode_def)
  obtain i n where i: "ino_at s [] = Some i" "INodes s i = Some n"
      and e: "on_inode_of r (ResetNode INODE_DIR 0 None) s = s\<lparr>INodes := (INodes s)(i \<mapsto> ResetNode INODE_DIR 0 None n)\<rparr>"
      and o: "vfs_wf s'" "dentry_at s' = dentry_at s" "ino_at s' = ino_at s"
    unfolding run by (rule on_inode_of_spec [OF wf root, where f = "ResetNode INODE_DIR 0 None", OF reset]) blast
  have "s' = s\<lparr>INodes := (INodes s)(i \<mapsto> ResetNode INODE_DIR 0 None n)\<rparr>" using run e by simp
  with that i o show thesis by simp
qed

lemma EnsurePathDentry_ensured:
  assumes wf: "vfs_wf s" and r: "Root s = Some r" and "\<not> IsRootAliasPath (NormalizePathStart p)"
  shows "ensured T S D (ends_open p) [] (path_names p) s (EnsurePathDentry r p T S D s)"
proof -
  have "NormalizePathStart p \<noteq> []" using assms(3) by (auto simp: IsRootAliasPath_def)
  then have "ends_open (NormalizePathStart p) = ends_open p" by (rule ends_open_suffix [OF Normalize_suffix])
  moreover have "ensured T S D (ends_open (NormalizePathStart p)) [] (segments (NormalizePathStart p)) s
      (EnsureSegments T S D r (NormalizePathStart p) s)" by (rule EnsureSegments_spec [OF wf r]) simp
  ultimately show ?thesis using assms(3) by (simp add: EnsurePathDentry_def path_names_def)
qed

text \<open>What every use of \<open>EnsurePathDentry\<close> keeps.\<close>

lemma EnsurePathDentry_kept:
  assumes wf: "vfs_wf s" and r: "Root s = Some r" and s': "s' = EnsurePathDentry r p T S D s"
  shows "vfs_wf s'" "Root s' = Some r" "dentry_at s qs \<noteq> None \<Longrightarrow> dentry_at s' qs = dentry_at s qs \<and> ino_at s' qs = ino_at s qs"
    "dentry_at s' qs \<noteq> None \<longleftrightarrow> dentry_at s qs \<noteq> None \<or> prefix qs (path_names p)"
    "isEXT s' = isEXT s" "ActiveExtendedFileSystem s' = ActiveExtendedFileSystem s"
proof -
  have "vfs_wf s' \<and> Root s' = Some r \<and> (\<forall>qs. dentry_at s qs \<noteq> None \<longrightarrow> dentry_at s' qs = dentry_at s qs \<and> ino_at s' qs = ino_at s qs) \<and>
    (\<forall>qs. dentry_at s' qs \<noteq> None \<longleftrightarrow> dentry_at s qs \<noteq> None \<or> prefix qs (path_names p)) \<and> isEXT s' = isEXT s \<and>
    ActiveExtendedFileSystem s' = ActiveExtendedFileSystem s"
  proof (cases "IsRootAliasPath (NormalizePathStart p)")
    case True
    have e: "dentry_at s [] \<noteq> None" using r by (simp add: dentry_at_def)
    have n: "path_names p = []" using True by (simp add: path_names_def)
    show ?thesis by (rule EnsurePathDentry_root [OF wf r True s']) (use r e n in auto)
  next
    case False
    note E = ensuredD [OF EnsurePathDentry_ensured [OF wf r False, where T = T and S = S and D = D], folded s']
    have "(\<exists>k\<le>length ns. qs = [] @ take k ns) \<longleftrightarrow> prefix qs ns" for qs ns :: "string list"
      by (metis append_Nil prefix_length_le take_is_prefix take_prefix)
    then show ?thesis using E r by simp
  qed
  then show "vfs_wf s'" "Root s' = Some r" "dentry_at s qs \<noteq> None \<Longrightarrow> dentry_at s' qs = dentry_at s qs \<and> ino_at s' qs = ino_at s qs"
    "dentry_at s' qs \<noteq> None \<longleftrightarrow> dentry_at s qs \<noteq> None \<or> prefix qs (path_names p)"
    "isEXT s' = isEXT s" "ActiveExtendedFileSystem s' = ActiveExtendedFileSystem s" by blast+
qed

lemma Lookup_resolve:
  "Root s = Some r \<Longrightarrow> Lookup e p s = ResolvePathInternal e r r p MAX_SYMLINK_FOLLOW_DEPTH True s"
  "Root s = Some r \<Longrightarrow> LookupNoFollowFinal e p s = ResolvePathInternal e r r p MAX_SYMLINK_FOLLOW_DEPTH False s"
  by (simp_all add: Lookup_def LookupNoFollowFinal_def)

lemma CreateFile_keeps:
  assumes wf: "vfs_wf s" and res: "CreateFile e Ext path Type s = (ok, s')"
  shows "vfs_wf s'" "\<not> ok \<Longrightarrow> calm s s'"
proof -
  have "vfs_wf s' \<and> (\<not> ok \<longrightarrow> calm s s')"
  proof (cases "\<exists>r p. Root s = Some r \<and> path = Some p")
    case True
    then obtain r p where rp: "Root s = Some r" "path = Some p" by blast
    obtain x s1 where lk: "Lookup e p s = (x, s1)" by fastforce
    note L = Lookup_tree [OF wf disjI1 [OF lk]]
    have r1: "Root s1 = Some r" using L(1) rp by (simp add: calm_def)
    have "s' = s1 \<and> \<not> ok \<or> ok \<and> (\<exists>D. s' = EnsurePathDentry r p Type 0 D s1)"
      using res rp lk by (auto simp: CreateFile_def split: option.splits if_splits)
    then show ?thesis using L(1,2) EnsurePathDentry_kept(1) [OF L(2) r1] by blast
  qed (use res wf in \<open>auto simp: CreateFile_def split: option.splits\<close>)
  then show "vfs_wf s'" "\<not> ok \<Longrightarrow> calm s s'" by blast+
qed


lemma FreeTree_root:
  assumes wf: "vfs_wf s" and r: "Root s = Some r"
  shows "vfs_wf ((FreeTree r s)\<lparr>Root := None\<rparr>)"
proof -
  let ?f = "FreeTree r s"
  have "freeable (NextDentry s) r s"
    using vfs_wfD(1,3) [OF wf r] vfs_wfD(7) [OF wf r] unfolding freeable_def by blast
  from FreeDentryTree_freed [OF this vfs_wfD(4) [OF wf]]
  have f: "freed (tree_below s r) s ?f" by (simp add: FreeTree_def)
  then have K: "kept s ?f" "counted ?f" unfolding freed_def by blast+
  have "counted (?f\<lparr>Root := None\<rparr>)" by (rule counted_dentries [OF K(2)]) simp_all
  moreover have "d < NextDentry ?f" if "Dentries ?f d \<noteq> None" for d
    using f that vfs_wfD(5) [OF wf, of d] K(1) unfolding freed_def kept_def by (simp split: if_splits)
  moreover have "i < NextINode ?f" if "INodes ?f i \<noteq> None" for i
  proof -
    have "INodes s i \<noteq> None" using that keptD [OF K(1)] by blast
    then show ?thesis using vfs_wfD(6) [OF wf] K(1) by (simp add: kept_def)
  qed
  ultimately show ?thesis by (simp add: vfs_wf_def)
qed

text \<open>The state a mount starts from: a root directory and nothing else in the tree.\<close>

definition fresh_root :: "vfs \<Rightarrow> nat \<times> vfs" where
  "fresh_root s =
     (case CreateINode INODE_DIR 0 None s of (i, s2) \<Rightarrow>
      case CreateDentry ''/'' None (Some i) s2 of (r, s3) \<Rightarrow>
        (r, s3\<lparr>Root := Some r, isEXT := False, ActiveExtendedFileSystem := None\<rparr>))"

lemma fresh_root_spec:
  assumes wf: "vfs_wf s" and f: "fresh_root s = (r, s')"
  shows "vfs_wf s'" "Root s' = Some r" "dentry_at s' qs = (if qs = [] then Some r else None)" "isEXT s' = False"
    "NextINode s \<le> NextINode s'"
    "INodes s' (NextINode s) = Some (new_inode INODE_DIR 0 None)" "ino_at s' [] = Some (NextINode s)"
    "i < NextINode s \<Longrightarrow> INodes s' i = INodes s i" "INodes s' i = (if i = NextINode s then Some (new_inode INODE_DIR 0 None) else INodes s i)"
proof -
  let ?i = "NextINode s" and ?N = "NextDentry s" and ?x = "new_inode INODE_DIR 0 None"
  let ?d = "\<lparr>EntryName = ''/'', EntryINode = Some ?i, EntryParent = None, EntryChildren = []\<rparr>"
  have s': "s' = s\<lparr>INodes := (INodes s)(?i \<mapsto> ?x), NextINode := Suc ?i, Dentries := (Dentries s)(?N \<mapsto> ?d),
      NextDentry := Suc ?N, Root := Some ?N, isEXT := False, ActiveExtendedFileSystem := None\<rparr>" and r: "r = ?N"
    using f by (auto simp: fresh_root_def CreateINode_def CreateDentry_def new_inode_def)
  have "INodes s ?i = None" using vfs_wfD(6) [OF wf, of ?i] by blast
  moreover have "INodes s ?i \<noteq> None \<longleftrightarrow> 0 < refs s ?i" using vfs_wfD(4) [OF wf] unfolding counted_def by blast
  ultimately have x: "LinkReferenceCount ?x = refs s ?i + 1" by (simp add: new_inode_def)
  have cnt: "counted s'"
    by (rule counted_dentries [OF with_entry_counted [OF wf x, of 0 "''/''"]]) (simp_all add: s')
  have D: "Dentries s' r = Some ?d" by (simp add: s' r)
  have leaf: "entries_ok s' r" "walk s' r (n # ns) = None" for n ns using leaf_tree(1,4) [OF D] by simp_all
  show "Root s' = Some r" "isEXT s' = False" "NextINode s \<le> NextINode s'" by (simp_all add: s' r)
  have "parent_of s' r = None" by (simp add: parent_of_def D)
  moreover have "d < NextDentry s'" if "Dentries s' d \<noteq> None" for d
    using that vfs_wfD(5) [OF wf, of d] by (auto simp: s' less_Suc_eq split: if_splits)
  moreover have "j < NextINode s'" if "INodes s' j \<noteq> None" for j
    using that vfs_wfD(6) [OF wf, of j] by (auto simp: s' less_Suc_eq split: if_splits)
  ultimately show "vfs_wf s'" using cnt leaf(1) \<open>Root s' = Some r\<close> by (simp add: vfs_wf_def)
  show e: "dentry_at s' qs = (if qs = [] then Some r else None)" for qs
    using \<open>Root s' = Some r\<close> leaf(2) by (cases qs) (simp_all add: dentry_at_def del: walk.simps(2))
  show "INodes s' ?i = Some ?x" "ino_at s' [] = Some ?i" by (simp_all add: s' ino_at_def e [unfolded s'] r)
  show "i < NextINode s \<Longrightarrow> INodes s' i = INodes s i" "INodes s' i = (if i = ?i then Some ?x else INodes s i)" by (simp_all add: s')
qed

lemma EnumerateEntries_invariant:
  assumes step: "\<And>ctx E go ctx'. P ctx \<Longrightarrow> f ctx E = Some (go, ctx') \<Longrightarrow> P ctx'" and init: "P ctx"
    and run: "EnumerateEntries fs (Some f) ctx = Some (ok, ctx')"
  shows "P ctx'"
proof -
  have loop: "P ctx \<Longrightarrow> EnumerateEntries_loop n A Size (Some f) off ctx = Some (ok, ctx') \<Longrightarrow> P ctx'" for n A Size off ctx
  proof (induction n arbitrary: off ctx)
    case (Suc n)
    then show ?case using step by (fastforce split: if_splits bind_splits parse_result.splits)
  qed simp
  show ?thesis using run init loop by (auto simp: EnumerateEntries_def simp del: EnumerateEntries_loop.simps split: if_splits)
qed

definition before_mount :: "vfs \<Rightarrow> vfs" where
  "before_mount s = (case Root s of None \<Rightarrow> s | Some r \<Rightarrow> (FreeTree r s)\<lparr>Root := None\<rparr>)"

lemma before_mount_wf: "vfs_wf s \<Longrightarrow> vfs_wf (before_mount s)"
  using FreeTree_root by (simp add: before_mount_def split: option.split)

lemma Mount_fresh:
  "MountInitRamFileSystem ram s =
     (case fresh_root (before_mount s) of (r, s4) \<Rightarrow>
        (case ram of None \<Rightarrow> Some s4
         | Some fs \<Rightarrow> map_option (\<lambda>(ok, ctx). snd ctx) (EnumerateEntries fs (Some (MountEntryCallback fs r)) (True, s4))))"
  unfolding MountInitRamFileSystem_def before_mount_def [symmetric] fresh_root_def Let_def by (simp split: prod.split)

lemma MountEntry_ensures:
  "MountEntryCallback fs r ctx E = Some (go, ctx') \<Longrightarrow>
     \<exists>p. snd ctx' = EnsurePathDentry r p (DecodeNodeType (EType E)) (ESize E) (Some (InitramfsAddress fs + EData E)) (snd ctx)"
  by (auto simp: MountEntryCallback_def Let_def split: bind_splits)

lemma MountInitRamFileSystem_wf:
  assumes wf: "vfs_wf s" and res: "MountInitRamFileSystem ram s = Some s'"
  shows "vfs_wf s'" "Root s' \<noteq> None"
proof -
  obtain r s4 where f: "fresh_root (before_mount s) = (r, s4)" by fastforce
  note F = fresh_root_spec [OF before_mount_wf [OF wf] f]
  let ?P = "\<lambda>ctx :: bool \<times> vfs. vfs_wf (snd ctx) \<and> Root (snd ctx) = Some r"
  have "vfs_wf s' \<and> Root s' \<noteq> None"
  proof (cases ram)
    case None
    then show ?thesis using res F(1,2) f by (simp add: Mount_fresh)
  next
    case (Some fs)
    then obtain ok ctx where run: "EnumerateEntries fs (Some (MountEntryCallback fs r)) (True, s4) = Some (ok, ctx)" "s' = snd ctx"
      using res f by (auto simp: Mount_fresh)
    have "?P ctx"
    proof (rule EnumerateEntries_invariant [OF _ _ run(1)])
      fix ctx E go ctx' assume P: "?P ctx" and c: "MountEntryCallback fs r ctx E = Some (go, ctx')"
      obtain p where p: "snd ctx' = EnsurePathDentry r p (DecodeNodeType (EType E)) (ESize E) (Some (InitramfsAddress fs + EData E)) (snd ctx)"
        using MountEntry_ensures [OF c] by blast
      show "?P ctx'" using EnsurePathDentry_kept(1,2) [OF conjunct1 [OF P] conjunct2 [OF P] p] by simp
    qed (use F in simp)
    then show ?thesis using run(2) by simp
  qed
  then show "vfs_wf s'" "Root s' \<noteq> None" by blast+
qed

section \<open>The tree as a map from paths to nodes\<close>

type_synonym node = "file_type \<times> nat \<times> ptr"

definition node_of :: "inode \<Rightarrow> node" where
  "node_of n = (NodeType n, NodeSize n, NodeData n)"

definition node_at :: "vfs \<Rightarrow> string list \<Rightarrow> node option" where
  "node_at s qs = (case ino_at s qs of None \<Rightarrow> None | Some i \<Rightarrow> map_option node_of (INodes s i))"

definition put_path :: "string \<Rightarrow> node \<Rightarrow> (string list \<Rightarrow> node option) \<Rightarrow> string list \<Rightarrow> node option" where
  "put_path p x F qs =
     (if IsRootAliasPath (NormalizePathStart p) then (if qs = [] then Some (INODE_DIR, 0, None) else F qs)
      else if qs = path_names p \<and> ends_open p then Some x
      else if prefix qs (path_names p) \<and> F qs = None then Some (INODE_DIR, 0, None)
      else F qs)"

text \<open>No inode has two paths.\<close>

definition no_hard_links :: "vfs \<Rightarrow> bool" where
  "no_hard_links s \<longleftrightarrow> (\<forall>ps qs i. ino_at s ps = Some i \<longrightarrow> ino_at s qs = Some i \<longrightarrow> ps = qs)"

lemma no_hard_linksD: "no_hard_links s \<Longrightarrow> ino_at s ps = Some i \<Longrightarrow> ino_at s qs = Some i \<Longrightarrow> ps = qs"
  unfolding no_hard_links_def by blast

lemma node_of_simps [simp]:
  "node_of (new_inode T S D) = (T, S, D)" "node_of (ResetNode T S D n) = (T, S, D)"
  by (simp_all add: node_of_def new_inode_def ResetNode_def)

lemma ino_inode:
  assumes wf: "vfs_wf s" and i: "ino_at s ps = Some i"
  obtains d x n where "dentry_at s ps = Some d" "Dentries s d = Some x" "EntryINode x = Some i" "INodes s i = Some n"
proof -
  obtain d where d: "dentry_at s ps = Some d" using ino_at_entry [OF i] by blast
  obtain x j n where x: "Dentries s d = Some x" "EntryINode x = Some j" "INodes s j = Some n" "ino_at s ps = Some j"
    by (rule entry_inode [OF wf d])
  with i that d show thesis by simp
qed

lemma one_reference:
  assumes wf: "vfs_wf s" and n: "INodes s i = Some n" "LinkReferenceCount n = 1"
    and i: "ino_at s ps = Some i" "ino_at s qs = Some i"
  shows "ps = qs"
proof -
  have "refs s i = 1" using vfs_wfD(4) [OF wf] n unfolding counted_def by force
  then obtain d where d: "{d. \<exists>x. Dentries s d = Some x \<and> EntryINode x = Some i} = {d}"
    unfolding refs_def by (auto simp: card_1_singleton_iff)
  have one: "dentry_at s rs = Some d" if t: "ino_at s rs = Some i" for rs
  proof -
    obtain z x where z: "dentry_at s rs = Some z" "Dentries s z = Some x" "EntryINode x = Some i" by (rule ino_inode [OF wf t])
    then have "z \<in> {d. \<exists>x. Dentries s d = Some x \<and> EntryINode x = Some i}" by simp
    then have "z = d" unfolding d by simp
    then show ?thesis using z(1) by simp
  qed
  obtain r where r: "Root s = Some r" using one [OF i(1)] by (cases "Root s") (simp_all add: dentry_at_def)
  show ?thesis using unique_pathsD [OF vfs_wfD(3) [OF wf r]] one [OF i(1)] one [OF i(2)] r by (simp add: dentry_at_def)
qed

lemma node_at_some: "vfs_wf s \<Longrightarrow> dentry_at s qs \<noteq> None \<longleftrightarrow> node_at s qs \<noteq> None"
proof -
  assume wf: "vfs_wf s"
  show "dentry_at s qs \<noteq> None \<longleftrightarrow> node_at s qs \<noteq> None"
  proof (cases "dentry_at s qs")
    case None
    then show ?thesis by (simp add: node_at_def ino_at_def)
  next
    case (Some d)
    obtain i n where "INodes s i = Some n" "ino_at s qs = Some i" by (rule entry_inode [OF wf Some])
    then show ?thesis using Some by (simp add: node_at_def)
  qed
qed

lemma node_at_ino: "ino_at s qs = Some i \<Longrightarrow> INodes s i = Some n \<Longrightarrow> node_at s qs = Some (node_of n)"
  by (simp add: node_at_def)

lemma ensured_nodes:
  assumes wf: "vfs_wf s" and h: "no_hard_links s" and e: "ensured T S D final [] segs s s'"
  shows "no_hard_links s'"
    and "node_at s' qs = (if qs = segs \<and> final then Some (T, S, D)
       else if prefix qs segs \<and> node_at s qs = None then Some (INODE_DIR, 0, None) else node_at s qs)"
proof -
  note E = ensuredD [OF e, simplified append_Nil]
  have pre: "(\<exists>k\<le>length segs. rs = take k segs) \<longleftrightarrow> prefix rs segs" for rs
    by (metis prefix_length_le take_is_prefix take_prefix)
  have fresh: "\<exists>i\<ge>NextINode s. ino_at s' rs = Some i \<and>
       INodes s' i = Some (if rs = segs \<and> final then new_inode T S D else new_inode INODE_DIR 0 None)"
    if t: "dentry_at s rs = None" "prefix rs segs" for rs
  proof (cases "rs = segs \<and> final")
    case True
    then show ?thesis using E(9) t(1) by simp
  next
    case False
    obtain k where k: "k \<le> length segs" "rs = take k segs" using t(2) pre by blast
    then have "final \<Longrightarrow> k < length segs" using False by (cases "k = length segs") auto
    from E(8) [OF k(1) this] show ?thesis using t(1) False unfolding k(2) if_not_P [OF False [unfolded k(2)]] by blast
  qed
  have old: "ino_at s rs = Some i" if "ino_at s' rs = Some i" "i < NextINode s" for rs i
  proof (cases "dentry_at s rs")
    case None
    then have "prefix rs segs" using E(7) [of rs] ino_at_entry [OF that(1)] pre by simp
    from fresh [OF None this] that show ?thesis by auto
  next
    case (Some d)
    then show ?thesis using E(6) [of rs] that(1) by simp
  qed
  show "no_hard_links s'"
    unfolding no_hard_links_def
  proof (intro allI impI)
    fix ps qs i assume i: "ino_at s' ps = Some i" "ino_at s' qs = Some i"
    show "ps = qs"
    proof (cases "i < NextINode s")
      case True
      then show ?thesis using no_hard_linksD [OF h] old i by blast
    next
      case False
      obtain n where "INodes s' i = Some n" by (rule ino_inode [OF E(1) i(1)])
      then show ?thesis using one_reference [OF E(1) _ _ i] E(11) [of i n] False by simp
    qed
  qed
  show "node_at s' qs = (if qs = segs \<and> final then Some (T, S, D)
       else if prefix qs segs \<and> node_at s qs = None then Some (INODE_DIR, 0, None) else node_at s qs)"
  proof (cases "dentry_at s qs")
    case None
    then have n: "node_at s qs = None" using node_at_some [OF wf, of qs] by blast
    show ?thesis
    proof (cases "prefix qs segs")
      case True
      from fresh [OF None True] show ?thesis using node_at_ino True n by (auto simp: node_at_ino)
    next
      case False
      then have "dentry_at s' qs = None" using E(7) [of qs] None pre by simp
      then have "node_at s' qs = None" using node_at_some [OF E(1), of qs] by blast
      then show ?thesis using False n by auto
    qed
  next
    case (Some d)
    obtain i n where i: "ino_at s qs = Some i" "INodes s i = Some n" by (rule entry_inode [OF wf Some])
    then have i': "ino_at s' qs = Some i" using E(6) [of qs] Some by simp
    have same: "ino_at s segs = Some i \<longleftrightarrow> qs = segs" using no_hard_linksD [OF h i(1), of segs] i(1) by auto
    have "INodes s' i = (if final \<and> qs = segs then map_option (ResetNode T S D) (INodes s i) else INodes s i)"
      using E(10) [OF ino_at_small [OF wf i(1)]] unfolding same .
    then show ?thesis using i i' by (auto simp: node_at_def)
  qed
qed

lemma EnsurePathDentry_nodes:
  assumes wf: "vfs_wf s" and r: "Root s = Some r" and h: "no_hard_links s" and s': "s' = EnsurePathDentry r p T S D s"
  shows "no_hard_links s' \<and> node_at s' = put_path p (T, S, D) (node_at s)"
proof (cases "IsRootAliasPath (NormalizePathStart p)")
  case True
  obtain i n where i: "ino_at s [] = Some i" "INodes s i = Some n" "INodes s' = (INodes s)(i \<mapsto> ResetNode INODE_DIR 0 None n)"
    "ino_at s' = ino_at s" using EnsurePathDentry_root [OF wf r True s'] by metis
  have "node_at s' qs = put_path p (T, S, D) (node_at s) qs" for qs
  proof (cases "qs = []")
    case True
    then show ?thesis using i \<open>IsRootAliasPath (NormalizePathStart p)\<close> by (simp add: put_path_def node_at_def)
  next
    case False
    then have "ino_at s qs \<noteq> Some i" using no_hard_linksD [OF h i(1)] by blast
    then show ?thesis using i(3,4) True False by (simp add: put_path_def node_at_def split: option.split)
  qed
  then show ?thesis using h i(4) by (auto simp: no_hard_links_def)
next
  case False
  note N = ensured_nodes [OF wf h EnsurePathDentry_ensured [OF wf r False, where T = T and S = S and D = D], folded s']
  then show ?thesis using False by (intro conjI ext) (simp_all add: put_path_def)
qed

section \<open>What mounting an image makes\<close>

definition root_only :: "string list \<Rightarrow> node option" where
  "root_only qs = (if qs = [] then Some (INODE_DIR, 0, None) else None)"

definition file_node :: "nat \<Rightarrow> ram_entry \<Rightarrow> node" where
  "file_node addr E = (DecodeNodeType (EType E), ESize E, Some (addr + EData E))"

definition mount_paths :: "nat \<Rightarrow> cpio_file list \<Rightarrow> string list \<Rightarrow> node option" where
  "mount_paths addr files = fold (\<lambda>(f, E). put_path (FName f) (file_node addr E)) (zip files (entries_at 0 files)) root_only"

lemma Mount_callbacks:
  "A = pre @ cpio_archive files \<Longrightarrow> \<forall>f\<in>set files. file_ok f \<Longrightarrow> Archive fs = A \<Longrightarrow>
   vfs_wf s \<Longrightarrow> Root s = Some r \<Longrightarrow> no_hard_links s \<Longrightarrow>
   \<exists>s'. run_callback (Some (MountEntryCallback fs r)) (True, s) (entries_at (length pre) files) = Some (True, (True, s')) \<and>
     vfs_wf s' \<and> Root s' = Some r \<and> no_hard_links s' \<and>
     node_at s' = fold (\<lambda>(f, E). put_path (FName f) (file_node (InitramfsAddress fs) E)) (zip files (entries_at (length pre) files)) (node_at s)"
proof (induction files arbitrary: pre s)
  case Nil
  then show ?case by simp
next
  case (Cons f files)
  let ?E = "Ram_FileSystem.entry_at (length pre) f"
  have A: "A = pre @ cpio_entry f @ cpio_archive files" "A = (pre @ cpio_entry f) @ cpio_archive files"
    using Cons.prems(1) by (simp_all add: cpio_archive_def)
  have f: "name_ok f" using Cons.prems(2) by (simp add: file_ok_def)
  define s1 where "s1 = EnsurePathDentry r (FName f) (DecodeNodeType (EType ?E)) (ESize ?E) (Some (InitramfsAddress fs + EData ?E)) s"
  have cb: "MountEntryCallback fs r (True, s) ?E = Some (True, (True, s1))"
    using entry_name [OF A(1) f] Cons.prems(3) by (simp add: MountEntryCallback_def s1_def)
  note K = EnsurePathDentry_kept(1,2) [OF Cons.prems(4,5) s1_def] and N = EnsurePathDentry_nodes [OF Cons.prems(4-6) s1_def]
  obtain s' where s': "run_callback (Some (MountEntryCallback fs r)) (True, s1) (entries_at (length (pre @ cpio_entry f)) files) = Some (True, (True, s'))"
    "vfs_wf s'" "Root s' = Some r" "no_hard_links s'"
    "node_at s' = fold (\<lambda>(f, E). put_path (FName f) (file_node (InitramfsAddress fs) E)) (zip files (entries_at (length (pre @ cpio_entry f)) files)) (node_at s1)"
    using Cons.IH [OF A(2) _ Cons.prems(3) K conjunct1 [OF N]] Cons.prems(2) by auto
  show ?case using s' cb N by (auto simp: file_node_def)
qed

lemma Mount_cpio:
  assumes wf: "vfs_wf s" and ok: "\<forall>f\<in>set files. file_ok f" "length (cpio_archive files) < 2 ^ 63" "0 < addr"
  shows "\<exists>s'. MountInitRamFileSystem (Some (ram_fs_of addr files)) s = Some s' \<and> vfs_wf s' \<and> no_hard_links s' \<and>
    node_at s' = mount_paths addr files"
proof -
  obtain r s4 where f: "fresh_root (before_mount s) = (r, s4)" by fastforce
  note F = fresh_root_spec [OF before_mount_wf [OF wf] f]
  have ino: "ino_at s4 qs = (if qs = [] then Some (NextINode (before_mount s)) else None)" for qs
  proof (cases "qs = []")
    case False
    then show ?thesis using F(3) [of qs] by (simp add: ino_at_def)
  qed (simp add: F(7))
  then have h: "no_hard_links s4" by (simp add: no_hard_links_def split: if_splits)
  have root: "node_at s4 = root_only" using F(6) by (intro ext) (simp add: node_at_def ino root_only_def)
  have arch: "Archive (ram_fs_of addr files) = cpio_archive files" "InitramfsAddress (ram_fs_of addr files) = addr"
    by (simp_all add: ram_fs_of_def)
  obtain s' where s': "run_callback (Some (MountEntryCallback (ram_fs_of addr files) r)) (True, s4) (entries_at 0 files) = Some (True, (True, s'))"
    "vfs_wf s'" "no_hard_links s'" "node_at s' = mount_paths addr files"
    using Mount_callbacks [of "cpio_archive files" "[]" files "ram_fs_of addr files" s4 r] ok(1) F(1,2) h
    by (auto simp: arch root mount_paths_def)
  have "EnumerateEntries (ram_fs_of addr files) (Some (MountEntryCallback (ram_fs_of addr files) r)) (True, s4) = Some (True, (True, s'))"
    unfolding EnumerateEntries_cpio [OF ok] by (rule s'(1))
  then show ?thesis using s' f by (simp add: Mount_fresh)
qed

section \<open>Links that lead to themselves\<close>

text \<open>A link among the names of the root whose target is its own name is followed at most \<open>MAX_SYMLINK_FOLLOW_DEPTH\<close> times.\<close>

definition self_link :: "vfs \<Rightarrow> nat \<Rightarrow> string \<Rightarrow> bool" where
  "self_link s r n \<longleftrightarrow>
     n \<noteq> [] \<and> (\<forall>c\<in>set n. \<not> IsSeparator c \<and> c \<noteq> NUL) \<and> \<not> IsDotSegment n \<and> \<not> IsDotDotSegment n \<and>
     (\<exists>c x i m a. FindChildBySegment s r n = Some c \<and> Dentries s c = Some x \<and> EntryINode x = Some i \<and> EntryParent x = Some r \<and>
        INodes s i = Some m \<and> NodeType m = INODE_SYMLINK \<and> NodeData m = Some a \<and>
        map (\<lambda>b. char_of (unat b)) (LoadBytes s a (NodeSize m)) = n)"

lemma one_segment:
  assumes "n \<noteq> []" and "\<forall>c\<in>set n. \<not> IsSeparator c"
  shows "dropWhile IsSeparator n \<noteq> []" "SegmentOf n = n" "AfterSegment n = []" "SkipDotSeparator n = n" "hd n \<noteq> PATH_SEPARATOR"
proof -
  have h: "\<not> IsSeparator (hd n)" using assms by simp
  then have d: "dropWhile IsSeparator n = n" using assms by (cases n) auto
  show "dropWhile IsSeparator n \<noteq> []" "hd n \<noteq> PATH_SEPARATOR" using d h assms by (auto simp: IsSeparator_def)
  show "SegmentOf n = n" "AfterSegment n = []" using assms by (simp_all add: SegmentOf_def AfterSegment_def d takeWhile_eq_all_conv)
  show "SkipDotSeparator n = n" using assms by (cases n rule: SkipDotSeparator.cases) (auto simp: IsSeparator_def)
qed

lemma self_link_resolve:
  assumes l: "self_link s r n"
  shows "ResolveSegments e True r dep r n s = (None, s)"
proof (induction dep)
  case (0)
  note S = one_segment [of n]
  show ?case using l S by (subst ResolveSegments.simps) (auto simp: self_link_def Let_def simp del: dropWhile_eq_Nil_conv)
next
  case (Suc dep)
  have n: "n \<noteq> []" "\<forall>c\<in>set n. \<not> IsSeparator c" "\<forall>c\<in>set n. c \<noteq> NUL" "\<not> IsDotSegment n" "\<not> IsDotDotSegment n" using l by (auto simp: self_link_def)
  note S = one_segment [OF n(1,2)]
  obtain c x i m a where c: "FindChildBySegment s r n = Some c" "Dentries s c = Some x" "EntryINode x = Some i" "EntryParent x = Some r"
    "INodes s i = Some m" "NodeType m = INODE_SYMLINK" "NodeData m = Some a" "map (\<lambda>b. char_of (unat b)) (LoadBytes s a (NodeSize m)) = n"
    using l unfolding self_link_def by blast
  have t: "LinkTarget e i s = (Some n, s)" using c by (simp add: LinkTarget_def)
  have "takeWhile (\<lambda>c. c \<noteq> NUL) n = n" using n(3) by (simp add: takeWhile_eq_all_conv)
  then have comb: "CombinedPath n [] = n" by (simp add: CombinedPath_def)
  have st: "StartOfPath r r n = Inr (r, n)" using S n by (simp add: StartOfPath_def)
  show ?case using S n c t comb st Suc
    by (subst ResolveSegments.simps) (simp add: Let_def ParentOr_def del: dropWhile_eq_Nil_conv)
qed

lemma self_link_Lookup:
  assumes r: "Root s = Some r" and l: "self_link s r n"
  shows "Lookup e n s = (None, s)" "\<exists>d. LookupNoFollowFinal e n s = (Some d, s)"
proof -
  have n: "n \<noteq> []" "\<forall>c\<in>set n. \<not> IsSeparator c" "\<not> IsDotSegment n" "\<not> IsDotDotSegment n" using l by (auto simp: self_link_def)
  note S = one_segment [OF n(1,2)]
  have st: "StartOfPath r r n = Inr (r, n)" using S n by (simp add: StartOfPath_def)
  show "Lookup e n s = (None, s)" using r st self_link_resolve [OF l] by (simp add: Lookup_resolve(1) [OF r] ResolvePathInternal_def)
  have "\<exists>d. ResolveSegments e False r MAX_SYMLINK_FOLLOW_DEPTH r n s = (Some d, s)"
    using l S by (subst ResolveSegments.simps) (auto simp: self_link_def Let_def ResolveSegments.simps simp del: dropWhile_eq_Nil_conv)
  then show "\<exists>d. LookupNoFollowFinal e n s = (Some d, s)" using st by (simp add: Lookup_resolve(2) [OF r] ResolvePathInternal_def)
qed

section \<open>Reading back what was written\<close>


text \<open>Bytes written at an offset, with zeros before them when the file was shorter.\<close>

definition patch :: "u8 list \<Rightarrow> nat \<Rightarrow> u8 list \<Rightarrow> u8 list" where
  "patch old off bytes = take off (old @ replicate (off - length old) 0) @ bytes @ drop (off + length bytes) old"


lemma LoadBytes_length [simp]: "length (LoadBytes s a n) = n"
  by (simp add: LoadBytes_def)

lemma LoadBytes_nth [simp]: "k < n \<Longrightarrow> LoadBytes s a n ! k = Contents s (a + k)"
  by (simp add: LoadBytes_def)

lemma patch_length [simp]: "length (patch old off bytes) = max (off + length bytes) (length old)"
  by (simp add: patch_def)







section \<open>Runs of operations\<close>

text \<open>A step that leaves the tree and the reference counts alone.\<close>

definition tame :: "vfs \<Rightarrow> vfs \<Rightarrow> bool" where
  "tame s s' \<longleftrightarrow> Dentries s' = Dentries s \<and> Root s' = Root s \<and> NextDentry s' = NextDentry s \<and> NextINode s' = NextINode s \<and>
     (\<forall>i. map_option LinkReferenceCount (INodes s' i) = map_option LinkReferenceCount (INodes s i))"

lemma tame_refl [simp]: "tame s s"
  by (simp add: tame_def)














lemma VirtualFileSystem_wf: "vfs_wf (VirtualFileSystem M bs)"
  by (simp add: vfs_wf_def VirtualFileSystem_def counted_def refs_def)

section \<open>A concrete tree\<close>

lemma one_path: "vfs_wf s \<Longrightarrow> dentry_at s ps = Some d \<Longrightarrow> dentry_at s qs = Some d \<Longrightarrow> ps = qs"
proof -
  assume wf: "vfs_wf s" and d: "dentry_at s ps = Some d" "dentry_at s qs = Some d"
  obtain r where "Root s = Some r" using d(1) by (cases "Root s") (simp_all add: dentry_at_def)
  then show "ps = qs" using unique_pathsD [OF vfs_wfD(3) [OF wf]] d by (simp add: dentry_at_def)
qed


definition sample_loader :: loader where
  "sample_loader = \<lparr>HasResourceLayer = True, FileSystemInitialized = (\<lambda>_. False), LoadInodeData = (\<lambda>_ _. None),
     LoadInodeDataRange = (\<lambda>_ _ _. None)\<rparr>"

definition sample_vfs :: vfs where
  "sample_vfs = the (MountInitRamFileSystem None (VirtualFileSystem (\<lambda>_. 0) [Some 100, Some 200]))"

definition sample_tree :: vfs where
  "sample_tree = snd (CreateFile sample_loader True (Some ''/a/b'') INODE_FILE sample_vfs)"

lemma sample_mount: "MountInitRamFileSystem None (VirtualFileSystem (\<lambda>_. 0) [Some 100, Some 200]) = Some sample_vfs"
proof -
  have "MountInitRamFileSystem None (VirtualFileSystem (\<lambda>_. 0) [Some 100, Some 200]) \<noteq> None" by code_simp
  then show ?thesis unfolding sample_vfs_def by (rule option.collapse [symmetric])
qed

lemma sample_created: "CreateFile sample_loader True (Some ''/a/b'') INODE_FILE sample_vfs = (True, sample_tree)"
proof -
  have "fst (CreateFile sample_loader True (Some ''/a/b'') INODE_FILE sample_vfs)" by code_simp
  then show ?thesis unfolding sample_tree_def by (metis prod.collapse)
qed

lemma sample_vfs_wf: "vfs_wf sample_vfs"
  using MountInitRamFileSystem_wf(1) [OF VirtualFileSystem_wf sample_mount] .

lemma sample_tree_wf: "vfs_wf sample_tree"
  using CreateFile_keeps(1) [OF sample_vfs_wf sample_created] .

lemma sample_paths:
  "dentry_at sample_tree [''a''] = Some 1" "dentry_at sample_tree [''a'', ''b''] = Some 2" "ino_at sample_tree [''a''] = Some 1"
  "ino_at sample_tree [''a'', ''b''] = Some 2" "map_option LinkReferenceCount (INodes sample_tree 2) = Some 1" "Root sample_vfs = Some 0"
  "dentry_at sample_vfs [''a''] = None" "dentry_at sample_vfs [''a'', ''b''] = None" "asks_ext sample_vfs = False"
  by code_simp+





lemma sample_mounted:
  "mount_paths 4096 sample_files [''init''] = Some (INODE_FILE, 3, Some 4212)" "mount_paths 4096 sample_files [''a''] = None"
proof -
  let ?f = "hd sample_files"
  have n: "path_names ''init'' = [''init'']" "ends_open ''init''" "IsRootAliasPath (NormalizePathStart ''init'') = False" by code_simp+
  have node: "file_node 4096 (Ram_FileSystem.entry_at 0 ?f) = (INODE_FILE, 3, Some 4212)"
    using sample_find(2) by (simp add: file_node_def entry_at_def DecodeNodeType_def sample_files_def cpio_head_def pad4_length cpio_header_length)
  have "mount_paths 4096 sample_files = put_path ''init'' (INODE_FILE, 3, Some 4212) root_only"
    using node by (simp add: mount_paths_def sample_files_def)
  then show "mount_paths 4096 sample_files [''init''] = Some (INODE_FILE, 3, Some 4212)" "mount_paths 4096 sample_files [''a''] = None"
    by (simp_all add: put_path_def n root_only_def)
qed

lemma sample_split: "SplitNewPath ''/d'' = Some ([], ''d'')" "SplitNewPath ''/c'' = Some ([], ''c'')"
  by code_simp+


lemma pair_fst: "fst x = a \<Longrightarrow> \<exists>b. x = (a, b)"
  by (cases x) simp

lemma sample_rename: "\<exists>s'. RenameFile sample_loader True (Some ''/a'') (Some ''/d'') INODE_DIR sample_tree = (True, s')"
  by (rule pair_fst) code_simp



lemma sample_lookups:
  "\<exists>s1. LookupNoFollowFinal sample_loader ''/a'' sample_tree = (Some 1, s1) \<and> fst (LookupNoFollowFinal sample_loader ''/d'' s1) = None"
  "\<exists>s1. LookupNoFollowFinal sample_loader ''/a/b'' sample_tree = (Some 2, s1)"
proof -
  have "case LookupNoFollowFinal sample_loader ''/a'' sample_tree of (x, s1) \<Rightarrow>
      x = Some 1 \<and> fst (LookupNoFollowFinal sample_loader ''/d'' s1) = None" by code_simp
  then show "\<exists>s1. LookupNoFollowFinal sample_loader ''/a'' sample_tree = (Some 1, s1) \<and> fst (LookupNoFollowFinal sample_loader ''/d'' s1) = None"
    by (auto split: prod.splits)
  show "\<exists>s1. LookupNoFollowFinal sample_loader ''/a/b'' sample_tree = (Some 2, s1)" by (rule pair_fst) code_simp
qed

text \<open>A link whose target is itself.\<close>

definition sample_loop :: vfs where
  "sample_loop = EnsurePathDentry 0 ''l'' INODE_SYMLINK 1 (Some 500) (the (MountInitRamFileSystem None (VirtualFileSystem (\<lambda>_. 108) [])))"

lemma sample_loop: "Root sample_loop = Some 0" "self_link sample_loop 0 ''l''"
proof -
  show "Root sample_loop = Some 0" by code_simp
  have c: "FindChildBySegment sample_loop 0 ''l'' = Some 1" "Dentries sample_loop 1 \<noteq> None" "INodes sample_loop 1 \<noteq> None"
    "EntryINode (the (Dentries sample_loop 1)) = Some 1" "EntryParent (the (Dentries sample_loop 1)) = Some 0"
    "NodeType (the (INodes sample_loop 1)) = INODE_SYMLINK" "NodeData (the (INodes sample_loop 1)) = Some 500"
    "map (\<lambda>b. char_of (unat b)) (LoadBytes sample_loop 500 (NodeSize (the (INodes sample_loop 1)))) = (''l'' :: string)"
    by code_simp+
  moreover have "(''l'' :: string) \<noteq> [] \<and> (\<forall>c\<in>set ''l''. \<not> IsSeparator c \<and> c \<noteq> NUL) \<and> \<not> IsDotSegment ''l'' \<and> \<not> IsDotDotSegment ''l''" by code_simp
  moreover obtain x m where x: "Dentries sample_loop 1 = Some x" "INodes sample_loop 1 = Some m" using c(2,3) by blast
  ultimately show "self_link sample_loop 0 ''l''" unfolding self_link_def by (auto simp: x intro!: exI [of _ 1])
qed

section \<open>Properties\<close>



text \<open>
  C11. Mounting the image a cpio writer makes of a list of files replaces the tree by exactly the
  map from paths to nodes the files describe, in order: each file is at its path with its type,
  its size and the address of its data in the image, the directories it needs are made when
  missing, and nothing else is there.
\<close>

theorem mount_builds_tree:
  assumes "vfs_wf s" and "\<forall>f\<in>set files. file_ok f" and "length (cpio_archive files) < 2 ^ 63" and "0 < addr"
  shows "\<exists>s'. MountInitRamFileSystem (Some (ram_fs_of addr files)) s = Some s' \<and> vfs_wf s' \<and>
    (\<forall>qs. node_at s' qs = mount_paths addr files qs)"
  using Mount_cpio [OF assms] by auto

theorem mount_builds_tree_witness:
  "\<exists>s'. MountInitRamFileSystem (Some (ram_fs_of 4096 sample_files)) sample_tree = Some s' \<and>
     node_at s' [''init''] = Some (INODE_FILE, 3, Some 4212) \<and> node_at s' [''a''] = None"
proof -
  from mount_builds_tree [OF sample_tree_wf sample_files_ok sample_files_length, of 4096] obtain s' where
    "MountInitRamFileSystem (Some (ram_fs_of 4096 sample_files)) sample_tree = Some s'"
    "\<And>qs. node_at s' qs = mount_paths 4096 sample_files qs" by auto
  then show ?thesis using sample_mounted by simp
qed

text \<open>
  C12. Renaming moves a whole subtree and nothing else: when the new name is not taken, every path
  below the old name leads under the new name to the inode it led to before, nothing is left under
  the old name, every other path keeps its inode, and the new place is never inside the subtree
  that moves; a refused rename, or one onto the entry itself, changes no path.
\<close>

theorem rename_moves_subtree:
  assumes "vfs_wf s" and "RenameFile e Ext (Some old) (Some new) Type s = (ok, s')"
    and "LookupNoFollowFinal e old s = (Some d, s1)"
  shows "vfs_wf s' \<and>
    (if ok \<and> fst (LookupNoFollowFinal e new s1) = None then
       \<exists>ps q m. dentry_at s ps = Some d \<and> SplitNewPath new = Some (q, m) \<and> \<not> prefix ps (segments q @ [m]) \<and>
         dentry_at s (segments q @ [m]) = None \<and>
         (\<forall>rs. ino_at s' (segments q @ m # rs) = ino_at s (ps @ rs)) \<and>
         (\<forall>qs. \<not> prefix (segments q @ [m]) qs \<longrightarrow> ino_at s' qs = (if prefix ps qs then None else ino_at s qs))
     else \<forall>qs. dentry_at s' qs = dentry_at s qs \<and> ino_at s' qs = ino_at s qs)"
proof (cases "ok \<and> fst (LookupNoFollowFinal e new s1) = None")
  case False
  then have "calm s s'" using RenameFile_spec [OF assms(1,2)] assms(3) by auto
  then show ?thesis using False RenameFile_spec [OF assms(1,2)] calm_entry_at [of s s'] calm_ino_at [of s s'] by auto
next
  case True
  then obtain q m ps where m: "dentry_at s ps = Some d" "SplitNewPath new = Some (q, m)" "moved s s' ps (segments q) m"
    using RenameFile_spec [OF assms(1,2)] assms(3) by auto
  have "\<not> prefix ps (segments q @ [m])"
    using m(1,3) by (auto simp: moved_def)
  then show ?thesis using True m RenameFile_spec [OF assms(1,2)] by (auto simp: moved_def)
qed

theorem rename_moves_subtree_witness:
  "\<exists>s'. RenameFile sample_loader True (Some ''/a'') (Some ''/d'') INODE_DIR sample_tree = (True, s') \<and>
     ino_at s' [''d'', ''b''] = Some 2 \<and> ino_at s' [''a'', ''b''] = None"
proof -
  obtain s' where s': "RenameFile sample_loader True (Some ''/a'') (Some ''/d'') INODE_DIR sample_tree = (True, s')"
    using sample_rename by blast
  obtain s1 where s1: "LookupNoFollowFinal sample_loader ''/a'' sample_tree = (Some 1, s1)"
    "fst (LookupNoFollowFinal sample_loader ''/d'' s1) = None" using sample_lookups(1) by blast
  obtain ps q m where m: "dentry_at sample_tree ps = Some 1" "SplitNewPath ''/d'' = Some (q, m)"
    "\<And>rs. ino_at s' (segments q @ m # rs) = ino_at sample_tree (ps @ rs)"
    "\<And>qs. \<not> prefix (segments q @ [m]) qs \<Longrightarrow> ino_at s' qs = (if prefix ps qs then None else ino_at sample_tree qs)"
    using rename_moves_subtree [OF sample_tree_wf s' s1(1)] s1(2) by auto
  have ps: "ps = [''a'']" using one_path [OF sample_tree_wf m(1) sample_paths(1)] .
  have qm: "q = []" "m = ''d''" using m(2) sample_split by simp_all
  have "segments q = []" by (simp add: qm segments.simps)
  then have "ino_at s' (''d'' # [''b'']) = ino_at sample_tree ([''a''] @ [''b''])" "ino_at s' [''a'', ''b''] = None"
    using m(3) [of "[''b'']"] m(4) [of "[''a'', ''b'']"] ps qm by simp_all
  then show ?thesis using s' sample_paths(4) by simp
qed









section \<open>Further facts\<close>

text \<open>
  Resolution always ends: a symbolic link in the root directory whose target is its own name is
  followed no more than the forty times allowed and then the lookup fails, while the lookup that
  does not follow the last link finds the link itself.
\<close>

theorem symlink_loop_ends:
  assumes "Root s = Some r" and "self_link s r n"
  shows "Lookup e n s = (None, s) \<and> (\<exists>d. LookupNoFollowFinal e n s = (Some d, s))"
  using self_link_Lookup [OF assms] by blast

theorem symlink_loop_ends_witness:
  "Lookup sample_loader ''l'' sample_loop = (None, sample_loop)"
  using symlink_loop_ends [OF sample_loop] by blast

end
