(* ===== verification/Frame_Buffer.thy ===== *)
theory Frame_Buffer imports Page_Mapping begin

unbundle bit_operations_syntax

text \<open>
  \<open>Layers/Resource/FrameBuffer.cpp\<close>: the frame buffer, its pixels as the bytes of the buffer, drawing, the file
  operations and the mapping into a process. A device file is the part of \<open>File\<close> and \<open>INode\<close> the devices use.
  What a copy from or to user memory answers is an argument; what is copied out is part of the result.
\<close>

section \<open>State\<close>

record device_node =
  DevNodeSize :: u64
  DevNodeData :: ptr

record device_file =
  FileNode :: "device_node option"
  FileOffset :: u64
  FileFlags :: u64

datatype EFI_GRAPHICS_PIXEL_FORMAT =
    PixelRedGreenBlueReserved8BitPerColor | PixelBlueGreenRedReserved8BitPerColor | PixelBitMask | PixelBltOnly | PixelFormatMax

record EFI_PIXEL_BITMASK =
  RedMask :: u32
  GreenMask :: u32
  BlueMask :: u32
  ReservedMask :: u32

record frame_buffer =
  FBBuffer :: u64
  BufferSizeBytes :: nat
  FBWidth :: nat
  FBHeight :: nat
  PixelsPerScanLine :: nat
  PixelFormat :: EFI_GRAPHICS_PIXEL_FORMAT
  PixelInformation :: EFI_PIXEL_BITMASK
  FBValid :: bool
  FBBytes :: "nat \<Rightarrow> u8"

record gop_info =
  HorizontalResolution :: nat
  VerticalResolution :: nat
  GopPixelsPerScanLine :: nat
  GopPixelFormat :: EFI_GRAPHICS_PIXEL_FORMAT
  GopPixelInformation :: EFI_PIXEL_BITMASK

definition no_masks :: EFI_PIXEL_BITMASK where
  "no_masks = \<lparr>RedMask = 0, GreenMask = 0, BlueMask = 0, ReservedMask = 0\<rparr>"

definition FrameBuffer :: "(nat \<Rightarrow> u8) \<Rightarrow> frame_buffer" where
  "FrameBuffer M = \<lparr>FBBuffer = 0, BufferSizeBytes = 0, FBWidth = 0, FBHeight = 0, PixelsPerScanLine = 0,
     PixelFormat = PixelFormatMax, PixelInformation = no_masks, FBValid = False, FBBytes = M\<rparr>"

definition FB_Initialize :: "gop_info option \<Rightarrow> u64 \<Rightarrow> nat \<Rightarrow> frame_buffer \<Rightarrow> frame_buffer" where
  "FB_Initialize Info Base BufferSize fb =
     (case Info of
        None \<Rightarrow> FrameBuffer (FBBytes fb)
      | Some i \<Rightarrow>
          if Base = 0 then FrameBuffer (FBBytes fb)
          else if HorizontalResolution i = 0 \<or> VerticalResolution i = 0 \<or> GopPixelsPerScanLine i = 0
          then FrameBuffer (FBBytes fb)
          else \<lparr>FBBuffer = Base, BufferSizeBytes = BufferSize, FBWidth = HorizontalResolution i, FBHeight = VerticalResolution i,
                PixelsPerScanLine = GopPixelsPerScanLine i, PixelFormat = GopPixelFormat i,
                PixelInformation = GopPixelInformation i, FBValid = True, FBBytes = FBBytes fb\<rparr>)"

section \<open>Drawing\<close>

definition store32 :: "nat \<Rightarrow> u32 \<Rightarrow> (nat \<Rightarrow> u8) \<Rightarrow> nat \<Rightarrow> u8" where
  "store32 off v M = (\<lambda>x. if off \<le> x \<and> x < off + 4 then ucast (drop_bit (8 * (x - off)) v) else M x)"

definition Draw :: "nat \<Rightarrow> nat \<Rightarrow> u32 \<Rightarrow> frame_buffer \<Rightarrow> frame_buffer" where
  "Draw X Y RGBA fb =
     (if \<not> FBValid fb \<or> FBBuffer fb = 0 then fb
      else if X \<ge> FBWidth fb \<or> Y \<ge> FBHeight fb then fb
      else let PixelIndex = w64 (Y * PixelsPerScanLine fb + X); ByteOffset = w64 (PixelIndex * 4)
           in if w64 (ByteOffset + 4) > BufferSizeBytes fb then fb
              else fb\<lparr>FBBytes := store32 ByteOffset RGBA (FBBytes fb)\<rparr>)"

section \<open>File operations\<close>

definition FB_ERR_EFAULT :: int where "FB_ERR_EFAULT = -14"
definition FB_ERR_EINVAL :: int where "FB_ERR_EINVAL = -22"
definition FB_ERR_ENODEV :: int where "FB_ERR_ENODEV = -19"
definition FB_ERR_ENOTTY :: int where "FB_ERR_ENOTTY = -25"
definition USER_FRAMEBUFFER_MMAP_BASE :: u64 where "USER_FRAMEBUFFER_MMAP_BASE = 0x0000700000000000"
definition PAGE_ALIGNMENT_MASK :: u64 where "PAGE_ALIGNMENT_MASK = 4095"

definition set_node_size :: "frame_buffer \<Rightarrow> device_file \<Rightarrow> device_file" where
  "set_node_size fb f = f\<lparr>FileNode := map_option (\<lambda>n. n\<lparr>DevNodeSize := of_nat (BufferSizeBytes fb)\<rparr>) (FileNode f)\<rparr>"

text \<open>The result, the file and the buffer after a write of \<open>Data\<close>, \<open>None\<close> being a null pointer.\<close>

definition FB_Write :: "device_file \<Rightarrow> u8 list option \<Rightarrow> nat \<Rightarrow> frame_buffer \<Rightarrow> int \<times> device_file \<times> frame_buffer" where
  "FB_Write f Data Count fb =
     (if Data = None \<and> Count \<noteq> 0 then (FB_ERR_EFAULT, f, fb)
      else if \<not> FBValid fb \<or> FBBuffer fb = 0 then (FB_ERR_ENODEV, f, fb)
      else if Count = 0 then (0, f, fb)
      else let f1 = set_node_size fb f; o1 = unat (FileOffset f1)
           in if o1 \<ge> BufferSizeBytes fb then (0, f1, fb)
              else let BytesToWrite = min Count (BufferSizeBytes fb - o1); bytes = take BytesToWrite (the Data)
                   in (int BytesToWrite, f1\<lparr>FileOffset := FileOffset f1 + of_nat BytesToWrite\<rparr>,
                       fb\<lparr>FBBytes := (\<lambda>x. if o1 \<le> x \<and> x < o1 + BytesToWrite then bytes ! (x - o1) else FBBytes fb x)\<rparr>))"

definition FB_Seek :: "device_file \<Rightarrow> u64 \<Rightarrow> int \<Rightarrow> frame_buffer \<Rightarrow> int \<times> device_file" where
  "FB_Seek f Offset Whence fb =
     (let f1 = set_node_size fb f
      in if Whence \<noteq> 0 \<and> Whence \<noteq> 1 \<and> Whence \<noteq> 2 then (FB_ERR_EINVAL, f1)
         else let Base = (if Whence = 0 then 0 else if Whence = 1 then FileOffset f1 else of_nat (BufferSizeBytes fb));
                  NewOffset = Base + Offset
              in if sint NewOffset < 0 then (FB_ERR_EINVAL, f1)
                 else if unat NewOffset > BufferSizeBytes fb then (FB_ERR_EINVAL, f1)
                 else (sint NewOffset, f1\<lparr>FileOffset := NewOffset\<rparr>))"

text \<open>
  \<open>MemoryMap\<close> on the page tables of the process, \<open>None\<close> when it has no address space; the address is
  returned with the result.
\<close>

definition FB_MemoryMap ::
    "device_file \<Rightarrow> u64 \<Rightarrow> u64 \<Rightarrow> frame_buffer \<Rightarrow> vmm option \<Rightarrow> (int \<times> u64 option) \<times> device_file \<times> vmm option" where
  "FB_MemoryMap f Length Offset fb Space =
     (case Space of
        None \<Rightarrow> ((FB_ERR_EFAULT, None), f, None)
      | Some s \<Rightarrow>
          if \<not> FBValid fb \<or> FBBuffer fb = 0 then ((FB_ERR_ENODEV, None), f, Some s)
          else let f1 = set_node_size fb f
          in if unat Offset > BufferSizeBytes fb then ((FB_ERR_EINVAL, None), f1, Some s)
          else if unat Length > BufferSizeBytes fb - unat Offset then ((FB_ERR_EINVAL, None), f1, Some s)
          else if PageMapL4Table s = 0 then ((FB_ERR_EFAULT, None), f1, Some s)
          else let PhysicalStartAddress = FBBuffer fb + Offset;
                   PhysicalBaseAddress = PhysicalStartAddress AND NOT PAGE_ALIGNMENT_MASK;
                   InPageOffset = PhysicalStartAddress AND PAGE_ALIGNMENT_MASK;
                   MappingSizeBytes = InPageOffset + Length;
                   RequiredPages = (MappingSizeBytes + 4096 - 1) div 4096;
                   VirtualBaseAddress = (USER_FRAMEBUFFER_MMAP_BASE + Offset) AND NOT PAGE_ALIGNMENT_MASK
               in (case MapPages_loop (unat RequiredPages) 0 PhysicalBaseAddress VirtualBaseAddress (\<lambda>_. True) s of
                     (False, s1) \<Rightarrow> ((FB_ERR_EFAULT, None), f1, Some s1)
                   | (True, s1) \<Rightarrow> ((sint Length, Some (VirtualBaseAddress + InPageOffset)), f1, Some s1)))"

section \<open>Screen information\<close>

lemma drop_bit_less: "(v :: u32) \<noteq> 0 \<Longrightarrow> unat (drop_bit 1 v) < unat v"
proof -
  assume "v \<noteq> 0"
  then have "0 < unat v" by (simp add: unat_gt_0)
  then show ?thesis by (simp add: unat_drop_bit_eq drop_bit_eq_div unat_div)
qed

function CountSetBits :: "u32 \<Rightarrow> nat" where
  "CountSetBits Value = (if Value = 0 then 0 else unat (Value AND 1) + CountSetBits (drop_bit 1 Value))"
  by pat_completeness auto

termination
proof (relation "measure unat")
  fix v :: u32 assume "v \<noteq> 0"
  then show "(drop_bit 1 v, v) \<in> measure unat" using drop_bit_less [of v] by simp
qed simp

declare CountSetBits.simps [simp del]

function CountTrailingZeros_loop :: "u32 \<Rightarrow> nat" where
  "CountTrailingZeros_loop Value = (if Value = 0 \<or> Value AND 1 \<noteq> 0 then 0 else Suc (CountTrailingZeros_loop (drop_bit 1 Value)))"
  by pat_completeness auto

termination
proof (relation "measure unat")
  fix v :: u32 assume "\<not> (v = 0 \<or> v AND 1 \<noteq> 0)"
  then show "(drop_bit 1 v, v) \<in> measure unat" using drop_bit_less [of v] by simp
qed simp

declare CountTrailingZeros_loop.simps [simp del]

definition CountTrailingZeros :: "u32 \<Rightarrow> nat" where
  "CountTrailingZeros Value = (if Value = 0 then 0 else CountTrailingZeros_loop Value)"

record bitfield =
  BFOffset :: nat
  BFLength :: nat

definition MakeBitfieldFromMask :: "u32 \<Rightarrow> bitfield" where
  "MakeBitfieldFromMask ColorMask =
     (if ColorMask = 0 then \<lparr>BFOffset = 0, BFLength = 0\<rparr>
      else \<lparr>BFOffset = CountTrailingZeros ColorMask, BFLength = CountSetBits ColorMask\<rparr>)"

text \<open>The fields in the order red, green, blue, transparency.\<close>

definition PopulatePixelBitfields ::
    "EFI_GRAPHICS_PIXEL_FORMAT \<Rightarrow> EFI_PIXEL_BITMASK \<Rightarrow> bitfield \<times> bitfield \<times> bitfield \<times> bitfield" where
  "PopulatePixelBitfields Format p =
     (if Format = PixelRedGreenBlueReserved8BitPerColor then
        (\<lparr>BFOffset = 0, BFLength = 8\<rparr>, \<lparr>BFOffset = 8, BFLength = 8\<rparr>, \<lparr>BFOffset = 16, BFLength = 8\<rparr>, \<lparr>BFOffset = 24, BFLength = 8\<rparr>)
      else if Format = PixelBlueGreenRedReserved8BitPerColor then
        (\<lparr>BFOffset = 16, BFLength = 8\<rparr>, \<lparr>BFOffset = 8, BFLength = 8\<rparr>, \<lparr>BFOffset = 0, BFLength = 8\<rparr>, \<lparr>BFOffset = 24, BFLength = 8\<rparr>)
      else if Format = PixelBitMask then
        (MakeBitfieldFromMask (RedMask p), MakeBitfieldFromMask (GreenMask p), MakeBitfieldFromMask (BlueMask p),
         MakeBitfieldFromMask (ReservedMask p))
      else let none = \<lparr>BFOffset = 0, BFLength = 0\<rparr> in (none, none, none, none))"

text \<open>The members that are not zero, and those the requests of a process are checked against.\<close>

record var_info =
  XResolution :: nat
  YResolution :: nat
  XResolutionVirtual :: nat
  YResolutionVirtual :: nat
  XOffset :: nat
  YOffset :: nat
  BitsPerPixel :: nat
  PhysicalHeightMillimeters :: u32
  PhysicalWidthMillimeters :: u32
  Bitfields :: "bitfield \<times> bitfield \<times> bitfield \<times> bitfield"

definition PopulateVariableScreenInfo :: "frame_buffer \<Rightarrow> var_info" where
  "PopulateVariableScreenInfo fb =
     \<lparr>XResolution = FBWidth fb, YResolution = FBHeight fb, XResolutionVirtual = PixelsPerScanLine fb,
      YResolutionVirtual = FBHeight fb, XOffset = 0, YOffset = 0, BitsPerPixel = 32,
      PhysicalHeightMillimeters = 0xFFFFFFFF, PhysicalWidthMillimeters = 0xFFFFFFFF,
      Bitfields = PopulatePixelBitfields (PixelFormat fb) (PixelInformation fb)\<rparr>"

record fix_info =
  Identifier :: string
  ScreenMemoryStart :: u64
  ScreenMemoryLength :: u32
  FBType :: u32
  Visual :: u32
  LineLength :: u32

definition PopulateFixedScreenInfo :: "frame_buffer \<Rightarrow> fix_info" where
  "PopulateFixedScreenInfo fb =
     \<lparr>Identifier = take 12 ''TwistedOS-fb0'', ScreenMemoryStart = FBBuffer fb,
      ScreenMemoryLength = (if BufferSizeBytes fb > 0xFFFFFFFF then 0xFFFFFFFF else of_nat (BufferSizeBytes fb)),
      FBType = 0, Visual = 2, LineLength = of_nat (PixelsPerScanLine fb) * 4\<rparr>"

record color_map =
  ColorStart :: nat
  ColorLength :: nat
  ColorRed :: u64
  ColorGreen :: u64
  ColorBlue :: u64
  ColorTransparency :: u64

definition COLOR_MAP_ENTRY_COUNT :: nat where "COLOR_MAP_ENTRY_COUNT = 256"

datatype fb_value = VarInfo var_info | FixInfo fix_info | Half u16

text \<open>What the copies answer: whether so many bytes can be copied to an address, and what is found at one.\<close>

record fb_user =
  CanCopyTo :: "u64 \<Rightarrow> nat \<Rightarrow> bool"
  VarInfoAt :: "u64 \<Rightarrow> var_info option"
  ColorMapAt :: "u64 \<Rightarrow> color_map option"
  HalfAt :: "u64 \<Rightarrow> u16 option"

fun WriteRamp_loop :: "nat \<Rightarrow> fb_user \<Rightarrow> u64 \<Rightarrow> nat \<Rightarrow> nat \<Rightarrow> bool \<times> (u64 \<times> fb_value) list" where
  "WriteRamp_loop 0 u UserPointer Start Index = (True, [])"
| "WriteRamp_loop (Suc n) u UserPointer Start Index =
     (let AbsoluteIndex = Start + Index
      in if AbsoluteIndex \<ge> COLOR_MAP_ENTRY_COUNT then (False, [])
         else let Value = of_nat (AbsoluteIndex * 0xFFFF div (COLOR_MAP_ENTRY_COUNT - 1));
                  Destination = UserPointer + of_nat Index * 2
              in if \<not> CanCopyTo u Destination 2 then (False, [])
                 else (case WriteRamp_loop n u UserPointer Start (Suc Index) of
                         (ok, ws) \<Rightarrow> (ok, (Destination, Half Value) # ws)))"

definition WriteColorMapRampToUser :: "fb_user \<Rightarrow> u64 \<Rightarrow> nat \<Rightarrow> nat \<Rightarrow> bool \<times> (u64 \<times> fb_value) list" where
  "WriteColorMapRampToUser u UserPointer Start Length =
     (if Length = 0 \<or> UserPointer = 0 then (True, []) else WriteRamp_loop Length u UserPointer Start 0)"

fun ReadChannel_loop :: "nat \<Rightarrow> fb_user \<Rightarrow> u64 \<Rightarrow> nat \<Rightarrow> nat \<Rightarrow> bool" where
  "ReadChannel_loop 0 u UserPointer Start Index = True"
| "ReadChannel_loop (Suc n) u UserPointer Start Index =
     (if Start + Index \<ge> COLOR_MAP_ENTRY_COUNT then False
      else if HalfAt u (UserPointer + of_nat Index * 2) = None then False
      else ReadChannel_loop n u UserPointer Start (Suc Index))"

definition ValidateReadableColorMapChannel :: "fb_user \<Rightarrow> u64 \<Rightarrow> nat \<Rightarrow> nat \<Rightarrow> bool" where
  "ValidateReadableColorMapChannel u UserPointer Start Length =
     (if Length = 0 \<or> UserPointer = 0 then True else ReadChannel_loop Length u UserPointer Start 0)"

fun WriteRamps :: "fb_user \<Rightarrow> u64 list \<Rightarrow> nat \<Rightarrow> nat \<Rightarrow> bool \<times> (u64 \<times> fb_value) list" where
  "WriteRamps u [] Start Length = (True, [])"
| "WriteRamps u (p # ps) Start Length =
     (case WriteColorMapRampToUser u p Start Length of
        (False, ws) \<Rightarrow> (False, ws)
      | (True, ws) \<Rightarrow> (case WriteRamps u ps Start Length of (ok, ws') \<Rightarrow> (ok, ws @ ws')))"

text \<open>The colour map of a request, or the result without it.\<close>

definition RequestedColorMap :: "fb_user \<Rightarrow> u64 \<Rightarrow> int + color_map" where
  "RequestedColorMap u Argument =
     (case ColorMapAt u Argument of
        None \<Rightarrow> Inl FB_ERR_EFAULT
      | Some c \<Rightarrow>
          if ColorLength c = 0 then Inl 0
          else if ColorStart c \<ge> COLOR_MAP_ENTRY_COUNT \<or> ColorLength c > COLOR_MAP_ENTRY_COUNT - ColorStart c then Inl FB_ERR_EINVAL
          else Inr c)"

definition FB_Ioctl ::
    "device_file \<Rightarrow> u64 \<Rightarrow> u64 \<Rightarrow> fb_user option \<Rightarrow> frame_buffer \<Rightarrow> (int \<times> (u64 \<times> fb_value) list) \<times> device_file" where
  "FB_Ioctl f Request Argument Logic fb =
     (if FileNode f = None then ((FB_ERR_EFAULT, []), f)
      else if \<not> FBValid fb \<or> FBBuffer fb = 0 then ((FB_ERR_ENODEV, []), f)
      else let f1 = set_node_size fb f
      in if Request = 0x4611 then ((0, []), f1)
         else if Request \<notin> {0x4600, 0x4601, 0x4602, 0x4604, 0x4605, 0x4606} then ((FB_ERR_ENOTTY, []), f1)
         else (case Logic of
                 None \<Rightarrow> ((FB_ERR_EFAULT, []), f1)
               | Some u \<Rightarrow>
                   if Argument = 0 then ((FB_ERR_EFAULT, []), f1)
                   else if Request = 0x4600 then
                     (if CanCopyTo u Argument 160 then ((0, [(Argument, VarInfo (PopulateVariableScreenInfo fb))]), f1)
                      else ((FB_ERR_EFAULT, []), f1))
                   else if Request = 0x4602 then
                     (if CanCopyTo u Argument 80 then ((0, [(Argument, FixInfo (PopulateFixedScreenInfo fb))]), f1)
                      else ((FB_ERR_EFAULT, []), f1))
                   else if Request = 0x4601 then
                     (case VarInfoAt u Argument of
                        None \<Rightarrow> ((FB_ERR_EFAULT, []), f1)
                      | Some r \<Rightarrow>
                          if XResolution r \<noteq> FBWidth fb \<or> YResolution r \<noteq> FBHeight fb \<or> XOffset r \<noteq> 0 \<or> YOffset r \<noteq> 0 \<or>
                             BitsPerPixel r \<noteq> 32
                          then ((FB_ERR_EINVAL, []), f1) else ((0, []), f1))
                   else if Request = 0x4606 then
                     (case VarInfoAt u Argument of
                        None \<Rightarrow> ((FB_ERR_EFAULT, []), f1)
                      | Some r \<Rightarrow> if XOffset r \<noteq> 0 \<or> YOffset r \<noteq> 0 then ((FB_ERR_EINVAL, []), f1) else ((0, []), f1))
                   else (case RequestedColorMap u Argument of
                           Inl e \<Rightarrow> ((e, []), f1)
                         | Inr c \<Rightarrow>
                             let Channels = [ColorRed c, ColorGreen c, ColorBlue c, ColorTransparency c]
                             in if Request = 0x4604 then
                                  (case WriteRamps u Channels (ColorStart c) (ColorLength c) of
                                     (ok, ws) \<Rightarrow> ((if ok then 0 else FB_ERR_EFAULT, ws), f1))
                                else ((if \<forall>p\<in>set Channels. ValidateReadableColorMapChannel u p (ColorStart c) (ColorLength c)
                                       then 0 else FB_ERR_EFAULT, []), f1))))"

text \<open>The file operations of the device, on the frame buffer the inode of the file points at.\<close>

definition FrameBufferOf :: "device_file \<Rightarrow> int + addr" where
  "FrameBufferOf f =
     (case FileNode f of
        None \<Rightarrow> Inl FB_ERR_EFAULT
      | Some n \<Rightarrow> (case DevNodeData n of None \<Rightarrow> Inl FB_ERR_EINVAL | Some a \<Rightarrow> Inr a))"

definition FB_WriteFileOperation :: "device_file \<Rightarrow> u8 list option \<Rightarrow> nat \<Rightarrow> frame_buffer \<Rightarrow> int \<times> device_file \<times> frame_buffer" where
  "FB_WriteFileOperation f Data Count fb =
     (case FrameBufferOf f of Inl e \<Rightarrow> (e, f, fb) | Inr a \<Rightarrow> FB_Write f Data Count fb)"

definition FB_SeekFileOperation :: "device_file \<Rightarrow> u64 \<Rightarrow> int \<Rightarrow> frame_buffer \<Rightarrow> int \<times> device_file" where
  "FB_SeekFileOperation f Offset Whence fb = (case FrameBufferOf f of Inl e \<Rightarrow> (e, f) | Inr a \<Rightarrow> FB_Seek f Offset Whence fb)"

definition FB_MemoryMapFileOperation ::
    "device_file \<Rightarrow> u64 \<Rightarrow> u64 \<Rightarrow> frame_buffer \<Rightarrow> vmm option \<Rightarrow> (int \<times> u64 option) \<times> device_file \<times> vmm option" where
  "FB_MemoryMapFileOperation f Length Offset fb Space =
     (case FrameBufferOf f of Inl e \<Rightarrow> ((e, None), f, Space) | Inr a \<Rightarrow> FB_MemoryMap f Length Offset fb Space)"

definition FB_IoctlFileOperation ::
    "device_file \<Rightarrow> u64 \<Rightarrow> u64 \<Rightarrow> fb_user option \<Rightarrow> frame_buffer \<Rightarrow> (int \<times> (u64 \<times> fb_value) list) \<times> device_file" where
  "FB_IoctlFileOperation f Request Argument Logic fb =
     (case FrameBufferOf f of Inl e \<Rightarrow> ((e, []), f) | Inr a \<Rightarrow> FB_Ioctl f Request Argument Logic fb)"

end
