(* ===== verification/Terminal.thy ===== *)
theory Terminal imports Frame_Buffer begin

unbundle bit_operations_syntax

text \<open>
  \<open>Layers/Resource/TTY.cpp\<close>: the ring of keyboard input with its line discipline, the output with its escape
  sequences, and the terminal's file operations. \<open>FontData\<close> is the table of glyphs. A read that has to wait ends
  at the wait and is continued by \<open>ReadLoop\<close>; what the copies from and to user memory answer is an argument.
  \<open>Notifications\<close> counts the calls of \<open>NotifyTTYInputAvailable\<close>. The serial port is not modelled.
\<close>

section \<open>State\<close>

definition FONT_WIDTH :: nat where "FONT_WIDTH = 8"
definition FONT_HEIGHT :: nat where "FONT_HEIGHT = 16"
definition KEYBOARD_BUFFER_CAPACITY :: nat where "KEYBOARD_BUFFER_CAPACITY = 1024"

definition TTY_ERR_EFAULT :: int where "TTY_ERR_EFAULT = -14"
definition TTY_ERR_EINVAL :: int where "TTY_ERR_EINVAL = -22"
definition TTY_ERR_ENODEV :: int where "TTY_ERR_ENODEV = -19"
definition TTY_ERR_ENOSYS :: int where "TTY_ERR_ENOSYS = -38"
definition TTY_ERR_ENOTTY :: int where "TTY_ERR_ENOTTY = -25"
definition TTY_ERR_EAGAIN :: int where "TTY_ERR_EAGAIN = -11"
definition TTY_O_NONBLOCK :: u64 where "TTY_O_NONBLOCK = 0x800"
definition LINUX_TERMIOS_ISIG :: u32 where "LINUX_TERMIOS_ISIG = 1"
definition LINUX_TERMIOS_ICANON :: u32 where "LINUX_TERMIOS_ICANON = 2"
definition LINUX_TERMIOS_ECHO :: u32 where "LINUX_TERMIOS_ECHO = 8"
definition LINUX_TERMIOS_DEFAULT :: u32 where
  "LINUX_TERMIOS_DEFAULT = LINUX_TERMIOS_ISIG OR LINUX_TERMIOS_ICANON OR LINUX_TERMIOS_ECHO"
definition LINUX_CC_VINTR :: nat where "LINUX_CC_VINTR = 0"
definition LINUX_CC_VERASE :: nat where "LINUX_CC_VERASE = 2"
definition LINUX_CC_VEOF :: nat where "LINUX_CC_VEOF = 4"
definition LINUX_CC_VTIME :: nat where "LINUX_CC_VTIME = 5"
definition LINUX_CC_VMIN :: nat where "LINUX_CC_VMIN = 6"

datatype AnsiParseState = AnsiNormal | AnsiEscape | AnsiCsi

record termios =
  TermiosInputFlags :: u32
  TermiosOutputFlags :: u32
  TermiosControlFlags :: u32
  TermiosLocalFlags :: u32
  TermiosLineDiscipline :: u8
  TermiosControlCharacters :: "u8 list"

record tty =
  FrameBufferDevice :: "frame_buffer option"
  FontData :: "nat \<Rightarrow> u8"
  CursorX :: u32
  CursorY :: u32
  TextColor :: u32
  BackgroundColor :: u32
  KeyboardBuffer :: "u8 list"
  BufferHead :: nat
  BufferTail :: nat
  BufferedBytes :: nat
  CommittedBytes :: nat
  Termios :: termios
  OutputAnsiState :: AnsiParseState
  OutputAnsiParams :: "u8 list"
  OutputAnsiParamCount :: nat
  OutputAnsiCurrentValue :: u8
  OutputAnsiReadingValue :: bool
  ForegroundProcessGroup :: int
  Notifications :: nat

definition TTY :: "frame_buffer option \<Rightarrow> (nat \<Rightarrow> u8) \<Rightarrow> u32 \<Rightarrow> u32 \<Rightarrow> tty" where
  "TTY fb font InitialCursorX InitialCursorY =
     \<lparr>FrameBufferDevice = fb, FontData = font, CursorX = InitialCursorX, CursorY = InitialCursorY,
      TextColor = 0xFFFFFFFF, BackgroundColor = 0, KeyboardBuffer = replicate KEYBOARD_BUFFER_CAPACITY 0,
      BufferHead = 0, BufferTail = 0, BufferedBytes = 0, CommittedBytes = 0,
      Termios = \<lparr>TermiosInputFlags = 0, TermiosOutputFlags = 0, TermiosControlFlags = 0,
        TermiosLocalFlags = LINUX_TERMIOS_DEFAULT, TermiosLineDiscipline = 0,
        TermiosControlCharacters = (replicate 19 0)[LINUX_CC_VINTR := 3, LINUX_CC_VERASE := 127, LINUX_CC_VEOF := 4,
          LINUX_CC_VTIME := 0, LINUX_CC_VMIN := 1]\<rparr>,
      OutputAnsiState = AnsiNormal, OutputAnsiParams = [0, 0, 0, 0], OutputAnsiParamCount = 0,
      OutputAnsiCurrentValue = 0, OutputAnsiReadingValue = False, ForegroundProcessGroup = 0, Notifications = 0\<rparr>"

definition IsCanonicalModeEnabled :: "tty \<Rightarrow> bool" where
  "IsCanonicalModeEnabled t \<longleftrightarrow> TermiosLocalFlags (Termios t) AND LINUX_TERMIOS_ICANON \<noteq> 0"

definition IsEchoEnabled :: "tty \<Rightarrow> bool" where
  "IsEchoEnabled t \<longleftrightarrow> TermiosLocalFlags (Termios t) AND LINUX_TERMIOS_ECHO \<noteq> 0"

definition GetControlCharacter :: "tty \<Rightarrow> nat \<Rightarrow> u8" where
  "GetControlCharacter t Index = (if Index \<ge> 19 then 0 else TermiosControlCharacters (Termios t) ! Index)"

definition GetReadableBytes :: "tty \<Rightarrow> nat" where
  "GetReadableBytes t = (if IsCanonicalModeEnabled t then CommittedBytes t else BufferedBytes t)"

definition NotifyInputAvailable :: "tty \<Rightarrow> tty" where
  "NotifyInputAvailable t = t\<lparr>Notifications := Suc (Notifications t)\<rparr>"

section \<open>Output\<close>

definition valid_device :: "tty \<Rightarrow> bool" where
  "valid_device t \<longleftrightarrow> (case FrameBufferDevice t of None \<Rightarrow> False | Some fb \<Rightarrow> FBValid fb)"

definition DeviceWidth :: "tty \<Rightarrow> u32" where
  "DeviceWidth t = of_nat (FBWidth (the (FrameBufferDevice t)))"

definition DeviceHeight :: "tty \<Rightarrow> u32" where
  "DeviceHeight t = of_nat (FBHeight (the (FrameBufferDevice t)))"

definition DrawPixel :: "u32 \<Rightarrow> u32 \<Rightarrow> u32 \<Rightarrow> tty \<Rightarrow> tty" where
  "DrawPixel X Y Color t = t\<lparr>FrameBufferDevice := map_option (Draw (unat X) (unat Y) Color) (FrameBufferDevice t)\<rparr>"

definition ClearScreen :: "tty \<Rightarrow> tty" where
  "ClearScreen t =
     (if \<not> valid_device t then t
      else (fold (\<lambda>Y. fold (\<lambda>X. DrawPixel (of_nat X) (of_nat Y) (BackgroundColor t)) [0..<unat (DeviceWidth t)])
             [0..<unat (DeviceHeight t)] t)\<lparr>CursorX := 0, CursorY := 0\<rparr>)"

definition DrawChar :: "u32 \<Rightarrow> u32 \<Rightarrow> u8 \<Rightarrow> tty \<Rightarrow> tty" where
  "DrawChar X Y Character t =
     (if \<not> valid_device t then t
      else fold (\<lambda>Row. let Bits = FontData t (unat Character * FONT_HEIGHT + Row)
             in fold (\<lambda>Col. DrawPixel (X + of_nat Col) (Y + of_nat Row)
                  (if bit Bits (7 - Col) then TextColor t else BackgroundColor t)) [0..<FONT_WIDTH]) [0..<FONT_HEIGHT] t)"

definition ClearIfPastEnd :: "tty \<Rightarrow> tty" where
  "ClearIfPastEnd t = (if CursorY t + 16 \<ge> DeviceHeight t then ClearScreen t else t)"

definition PutChar :: "u8 \<Rightarrow> tty \<Rightarrow> tty" where
  "PutChar Character t =
     (if \<not> valid_device t then t
      else if Character = 10 then ClearIfPastEnd (t\<lparr>CursorX := 0, CursorY := CursorY t + 16\<rparr>)
      else if Character = 13 then t\<lparr>CursorX := 0\<rparr>
      else if Character = 8 then
        let t1 = (if CursorX t \<ge> 8 then t\<lparr>CursorX := CursorX t - 8\<rparr> else t) in DrawChar (CursorX t1) (CursorY t1) 32 t1
      else
        let t1 = (if CursorX t + 8 > DeviceWidth t then t\<lparr>CursorX := 0, CursorY := CursorY t + 16\<rparr> else t);
            t2 = DrawChar (CursorX t1) (CursorY t1) Character t1;
            t3 = t2\<lparr>CursorX := CursorX t2 + 8\<rparr>;
            t4 = (if CursorX t3 \<ge> DeviceWidth t3 then t3\<lparr>CursorX := 0, CursorY := CursorY t3 + 16\<rparr> else t3)
        in ClearIfPastEnd t4)"

definition ResetAnsiParser :: "tty \<Rightarrow> tty" where
  "ResetAnsiParser t =
     t\<lparr>OutputAnsiState := AnsiNormal, OutputAnsiParamCount := 0, OutputAnsiCurrentValue := 0, OutputAnsiReadingValue := False,
       OutputAnsiParams := [0, 0, 0, 0]\<rparr>"

fun AnsiPalette :: "nat \<Rightarrow> bool \<Rightarrow> u32" where
  "AnsiPalette Code IsBackground =
     (if Code < 16 then [0x00000000, 0x00AA0000, 0x0000AA00, 0x00AA5500, 0x000000AA, 0x00AA00AA, 0x0000AAAA, 0x00AAAAAA,
        0x00555555, 0x00FF5555, 0x0055FF55, 0x00FFFF55, 0x005555FF, 0x00FF55FF, 0x0055FFFF, 0x00FFFFFF] ! Code
      else if IsBackground then 0 else 0xFFFFFFFF)"

definition TranslateAnsiColorCode :: "nat \<Rightarrow> bool \<Rightarrow> u32" where
  "TranslateAnsiColorCode Code IsBackground =
     (if 30 \<le> Code \<and> Code \<le> 37 then AnsiPalette (Code - 30) IsBackground
      else if 90 \<le> Code \<and> Code \<le> 97 then AnsiPalette (Code - 90 + 8) IsBackground
      else if 40 \<le> Code \<and> Code \<le> 47 then AnsiPalette (Code - 40) IsBackground
      else if 100 \<le> Code \<and> Code \<le> 107 then AnsiPalette (Code - 100 + 8) IsBackground
      else if IsBackground then 0 else 0xFFFFFFFF)"

text \<open>The parameters of a sequence; \<open>m\<close> with none stands for \<open>0m\<close>.\<close>

definition PushParam :: "u8 \<Rightarrow> tty \<Rightarrow> tty" where
  "PushParam v t =
     t\<lparr>OutputAnsiParams := (OutputAnsiParams t)[OutputAnsiParamCount t := v], OutputAnsiParamCount := Suc (OutputAnsiParamCount t)\<rparr>"

definition FirstParam :: "tty \<Rightarrow> nat" where
  "FirstParam t = (if OutputAnsiParamCount t \<ge> 1 then unat (OutputAnsiParams t ! 0) else 0)"

definition CsiMoveCursor :: "tty \<Rightarrow> tty" where
  "CsiMoveCursor t =
     (let Row = (if OutputAnsiParamCount t \<ge> 1 \<and> OutputAnsiParams t ! 0 \<noteq> 0 then OutputAnsiParams t ! 0 else 1);
          Col = (if OutputAnsiParamCount t \<ge> 2 \<and> OutputAnsiParams t ! 1 \<noteq> 0 then OutputAnsiParams t ! 1 else 1);
          MaxColumns = DeviceWidth t div 8; MaxRows = DeviceHeight t div 16;
          Row1 = (if ucast Row > MaxRows then ucast MaxRows else Row);
          Col1 = (if ucast Col > MaxColumns then ucast MaxColumns else Col)
      in t\<lparr>CursorY := (ucast (Row1 :: u8) - 1) * 16, CursorX := (ucast (Col1 :: u8) - 1) * 8\<rparr>)"

definition BlankCells :: "(nat \<times> nat) list \<Rightarrow> tty \<Rightarrow> tty" where
  "BlankCells cells t = fold (\<lambda>(Row, Col). DrawChar (of_nat (Col * 8)) (of_nat (Row * 16)) 32) cells t"

definition CsiEraseDisplay :: "tty \<Rightarrow> tty" where
  "CsiEraseDisplay t =
     (let MaxColumns = unat (DeviceWidth t) div 8; MaxRows = unat (DeviceHeight t) div 16;
          CursorRow = unat (CursorY t) div 16; CursorCol = unat (CursorX t) div 8
      in if FirstParam t = 2 then ClearScreen t
         else if FirstParam t = 0 then
           BlankCells (concat (map (\<lambda>Row. map (Pair Row) [(if Row = CursorRow then CursorCol else 0)..<MaxColumns]) [CursorRow..<MaxRows])) t
         else if FirstParam t = 1 then
           BlankCells (concat (map (\<lambda>Row. map (Pair Row) [0..<min (Suc (if Row = CursorRow then CursorCol else MaxColumns - 1)) MaxColumns])
             [0..<min (Suc CursorRow) MaxRows])) t
         else t)"

definition CsiEraseLine :: "tty \<Rightarrow> tty" where
  "CsiEraseLine t =
     (let MaxColumns = unat (DeviceWidth t) div 8; Row = unat (CursorY t) div 16; CursorCol = unat (CursorX t) div 8
      in if Row \<ge> unat (DeviceHeight t) div 16 then t
         else let ColStart = (if FirstParam t = 0 then CursorCol else 0);
                  ColEnd = (if FirstParam t = 1 then CursorCol else MaxColumns - 1)
              in if MaxColumns > 0 \<and> ColStart < MaxColumns
                 then BlankCells (map (Pair Row) [ColStart..<Suc (min ColEnd (MaxColumns - 1))]) t else t)"

definition SetColor :: "u8 \<Rightarrow> tty \<Rightarrow> tty" where
  "SetColor Parameter t =
     (let p = unat Parameter
      in if p = 0 then t\<lparr>TextColor := 0xFFFFFFFF, BackgroundColor := 0\<rparr>
         else if p = 39 then t\<lparr>TextColor := 0xFFFFFFFF\<rparr>
         else if p = 49 then t\<lparr>BackgroundColor := 0\<rparr>
         else if 30 \<le> p \<and> p \<le> 37 \<or> 90 \<le> p \<and> p \<le> 97 then t\<lparr>TextColor := TranslateAnsiColorCode p False\<rparr>
         else if 40 \<le> p \<and> p \<le> 47 \<or> 100 \<le> p \<and> p \<le> 107 then t\<lparr>BackgroundColor := TranslateAnsiColorCode p True\<rparr>
         else t)"

definition CsiColors :: "tty \<Rightarrow> tty" where
  "CsiColors t =
     (let t1 = (if OutputAnsiParamCount t = 0 then PushParam 0 t else t)
      in fold SetColor (take (OutputAnsiParamCount t1) (OutputAnsiParams t1)) t1)"

definition CsiDigit :: "u8 \<Rightarrow> tty \<Rightarrow> tty" where
  "CsiDigit Character t =
     (let NextValue = unat (OutputAnsiCurrentValue t) * 10 + (unat Character - 48)
      in t\<lparr>OutputAnsiReadingValue := True, OutputAnsiCurrentValue := of_nat (if NextValue > 255 then 255 else NextValue)\<rparr>)"

definition CsiSeparator :: "tty \<Rightarrow> tty" where
  "CsiSeparator t =
     (let t1 = (if OutputAnsiParamCount t < 4
                then PushParam (if OutputAnsiReadingValue t then OutputAnsiCurrentValue t else 0) t else t)
      in t1\<lparr>OutputAnsiCurrentValue := 0, OutputAnsiReadingValue := False\<rparr>)"

definition CsiFinal :: "u8 \<Rightarrow> tty \<Rightarrow> tty" where
  "CsiFinal Character t =
     (let t1 = (if OutputAnsiReadingValue t \<and> OutputAnsiParamCount t < 4 then PushParam (OutputAnsiCurrentValue t) t else t)
      in ResetAnsiParser
           (if Character = 72 \<or> Character = 102 then CsiMoveCursor t1
            else if Character = 74 then CsiEraseDisplay t1
            else if Character = 75 then CsiEraseLine t1
            else if Character = 109 then CsiColors t1
            else t1))"

definition HandleOutputChar :: "u8 \<Rightarrow> tty \<Rightarrow> tty" where
  "HandleOutputChar Character t =
     (case OutputAnsiState t of
        AnsiNormal \<Rightarrow> if Character = 0x1B then t\<lparr>OutputAnsiState := AnsiEscape\<rparr> else PutChar Character t
      | AnsiEscape \<Rightarrow> if Character = 91 then (ResetAnsiParser t)\<lparr>OutputAnsiState := AnsiCsi\<rparr>
                      else ResetAnsiParser (PutChar Character t)
      | AnsiCsi \<Rightarrow> if 48 \<le> Character \<and> Character \<le> 57 then CsiDigit Character t
                   else if Character = 59 then CsiSeparator t
                   else CsiFinal Character t)"

definition OutputChar :: "u8 \<Rightarrow> tty \<Rightarrow> tty" where
  "OutputChar Character t =
     (if OutputAnsiState t = AnsiNormal \<and> sint Character \<ge> 32 \<and> Character \<noteq> 127 then PutChar Character t
      else HandleOutputChar Character t)"

definition TTY_Write :: "device_file \<Rightarrow> u8 list option \<Rightarrow> nat \<Rightarrow> tty \<Rightarrow> int \<times> device_file \<times> tty" where
  "TTY_Write f Data Count t =
     (if FileNode f = None \<or> Data = None \<and> Count \<noteq> 0 then (TTY_ERR_EFAULT, f, t)
      else if Count = 0 then (0, f, t)
      else if \<not> valid_device t then (TTY_ERR_ENODEV, f, t)
      else let bytes = take Count (the Data);
               t1 = fold OutputChar bytes t;
               MaxColumns = unat (DeviceWidth t1) div 8;
               t2 = (if last bytes \<noteq> 10 \<and> MaxColumns > 0 \<and> Count \<ge> MaxColumns then PutChar 10 t1 else t1)
           in (int Count, f\<lparr>FileOffset := FileOffset f + of_nat Count\<rparr>, t2))"

text \<open>
  \<open>printf_\<close>, for what the vendored \<open>vsnprintf_\<close> answers and leaves in the buffer of 512 bytes, \<open>None\<close> being a
  null format.
\<close>

definition FormatToBuffer :: "nat \<Rightarrow> (int \<times> u8 list) option \<Rightarrow> int" where
  "FormatToBuffer BufferSize Format =
     (case Format of
        None \<Rightarrow> 0
      | Some (Result, Buffer) \<Rightarrow>
          if BufferSize = 0 then 0 else if Result \<le> 0 then Result
          else if Result > int (BufferSize - 1) then int (BufferSize - 1) else Result)"

definition TTY_printf :: "(int \<times> u8 list) option \<Rightarrow> tty \<Rightarrow> int \<times> tty" where
  "TTY_printf Format t =
     (case Format of
        None \<Rightarrow> (0, t)
      | Some (_, Buffer) \<Rightarrow>
          let Result = FormatToBuffer 512 Format
          in if Result \<le> 0 then (Result, t) else (Result, fold PutChar (take (nat Result) Buffer) t))"

section \<open>Input\<close>

fun PushBytes :: "u8 list \<Rightarrow> tty \<Rightarrow> nat \<times> tty" where
  "PushBytes [] t = (0, t)"
| "PushBytes (c # cs) t =
     (if BufferedBytes t \<ge> KEYBOARD_BUFFER_CAPACITY then (0, t)
      else case PushBytes cs (t\<lparr>KeyboardBuffer := (KeyboardBuffer t)[BufferHead t := c],
             BufferHead := (BufferHead t + 1) mod KEYBOARD_BUFFER_CAPACITY, BufferedBytes := BufferedBytes t + 1\<rparr>) of
             (n, t') \<Rightarrow> (Suc n, t'))"

definition PushKeyboardInput :: "u8 list option \<Rightarrow> nat \<Rightarrow> tty \<Rightarrow> nat \<times> tty" where
  "PushKeyboardInput Data Count t =
     (case Data of None \<Rightarrow> (0, t) | Some bytes \<Rightarrow> if Count = 0 then (0, t) else PushBytes (take Count bytes) t)"

definition EraseChar :: "tty \<Rightarrow> tty" where
  "EraseChar t =
     (if sub64 (BufferedBytes t) (CommittedBytes t) > 0 then
        let t1 = t\<lparr>BufferHead := (BufferHead t + KEYBOARD_BUFFER_CAPACITY - 1) mod KEYBOARD_BUFFER_CAPACITY,
                   BufferedBytes := sub64 (BufferedBytes t) 1\<rparr>
        in if IsEchoEnabled t1 then PutChar 8 t1 else t1
      else t)"

definition StoreChar :: "u8 \<Rightarrow> tty \<Rightarrow> nat \<times> tty" where
  "StoreChar c t =
     (case PushKeyboardInput (Some [c]) 1 t of
        (BytesStored, t1) \<Rightarrow>
          if BytesStored = 0 then (0, t1)
          else let t2 = (if c = 10 then NotifyInputAvailable (t1\<lparr>CommittedBytes := BufferedBytes t1\<rparr>) else t1);
                   t3 = (if \<not> IsCanonicalModeEnabled t2 then NotifyInputAvailable t2 else t2)
               in (BytesStored, if IsEchoEnabled t3 then PutChar c t3 else t3))"

definition PushKeyboardInputChar :: "u8 \<Rightarrow> tty \<Rightarrow> nat \<times> tty" where
  "PushKeyboardInputChar Character t =
     (let c = (if Character = 13 then 10 else Character)
      in if IsCanonicalModeEnabled t \<and> (c = 8 \<or> c = GetControlCharacter t LINUX_CC_VERASE) then (1, EraseChar t)
         else StoreChar c t)"

section \<open>Reading\<close>

text \<open>What a read keeps while it waits.\<close>

record read_frame =
  ReadFile :: device_file
  ReadCount :: nat
  IsNonBlocking :: bool
  VMin :: nat
  VTime :: nat
  RequiredBytes :: nat
  DecisecondsWaited :: nat

datatype caller = NoDispatcher | NoCaller | Caller u8

datatype read_outcome =
    ReadReturned int "u8 list" device_file tty
  | ReadSleeping u8 read_frame tty
  | ReadBlocked u8 read_frame tty

fun CopyOut :: "nat \<Rightarrow> nat \<Rightarrow> nat \<Rightarrow> tty \<Rightarrow> u8 list \<times> tty" where
  "CopyOut 0 BytesCopied VMinimum t = ([], t)"
| "CopyOut (Suc n) BytesCopied VMinimum t =
     (if GetReadableBytes t = 0 then ([], t)
      else let c = KeyboardBuffer t ! BufferTail t;
               t1 = t\<lparr>BufferTail := (BufferTail t + 1) mod KEYBOARD_BUFFER_CAPACITY, BufferedBytes := sub64 (BufferedBytes t) 1,
                      CommittedBytes := (if IsCanonicalModeEnabled t \<and> CommittedBytes t > 0 then CommittedBytes t - 1
                                         else CommittedBytes t)\<rparr>
           in if \<not> IsCanonicalModeEnabled t1 \<and> VMinimum > 0 \<and> Suc BytesCopied \<ge> VMinimum then ([c], t1)
              else case CopyOut n (Suc BytesCopied) VMinimum t1 of (cs, t') \<Rightarrow> (c # cs, t'))"

definition ReadFinish :: "read_frame \<Rightarrow> tty \<Rightarrow> read_outcome" where
  "ReadFinish r t =
     (if \<not> IsCanonicalModeEnabled t \<and> VMin r = 0 \<and> VTime r > 0 \<and> GetReadableBytes t = 0 then ReadReturned 0 [] (ReadFile r) t
      else case CopyOut (ReadCount r) 0 (VMin r) t of
             (bytes, t') \<Rightarrow> ReadReturned (int (length bytes)) bytes
                (ReadFile r\<lparr>FileOffset := FileOffset (ReadFile r) + of_nat (length bytes)\<rparr>) t')"

definition ReadLoop :: "caller \<Rightarrow> read_frame \<Rightarrow> tty \<Rightarrow> read_outcome" where
  "ReadLoop c r t =
     (if GetReadableBytes t < RequiredBytes r then
        if IsNonBlocking r then ReadReturned TTY_ERR_EAGAIN [] (ReadFile r) t
        else if \<not> IsCanonicalModeEnabled t \<and> VTime r > 0 \<and> DecisecondsWaited r \<ge> VTime r then ReadFinish r t
        else (case c of
                NoDispatcher \<Rightarrow> ReadReturned 0 [] (ReadFile r) t
              | NoCaller \<Rightarrow> ReadReturned TTY_ERR_EFAULT [] (ReadFile r) t
              | Caller pid \<Rightarrow>
                  if \<not> IsCanonicalModeEnabled t \<and> VTime r > 0
                  then ReadSleeping pid (r\<lparr>DecisecondsWaited := DecisecondsWaited r + 1\<rparr>) t
                  else ReadBlocked pid r t)
      else ReadFinish r t)"

definition ReadStart :: "device_file \<Rightarrow> nat \<Rightarrow> tty \<Rightarrow> read_frame" where
  "ReadStart f Count t =
     (let vmin = unat (GetControlCharacter t LINUX_CC_VMIN); vtime = unat (GetControlCharacter t LINUX_CC_VTIME);
          required = (if IsCanonicalModeEnabled t then 1
                      else if vmin = 0 \<and> vtime = 0 then 0 else if vmin = 0 then 1 else vmin)
      in \<lparr>ReadFile = f, ReadCount = Count, IsNonBlocking = (FileFlags f AND TTY_O_NONBLOCK \<noteq> 0), VMin = vmin, VTime = vtime,
          RequiredBytes = required, DecisecondsWaited = 0\<rparr>)"

definition TTY_Read :: "device_file \<Rightarrow> bool \<Rightarrow> nat \<Rightarrow> caller \<Rightarrow> tty \<Rightarrow> read_outcome" where
  "TTY_Read f BufferNull Count c t =
     (if FileNode f = None \<or> BufferNull \<and> Count \<noteq> 0 then ReadReturned TTY_ERR_EFAULT [] f t
      else if Count = 0 then ReadReturned 0 [] f t
      else ReadLoop c (ReadStart f Count t) t)"

section \<open>Control\<close>

record win_size =
  Rows :: u16
  Columns :: u16
  XPixel :: u16
  YPixel :: u16

datatype tty_value = TermiosValue termios | WinSizeValue win_size | Int32Value int

record tty_user =
  TTYCanCopyTo :: "u64 \<Rightarrow> nat \<Rightarrow> bool"
  TermiosAt :: "u64 \<Rightarrow> termios option"
  WinSizeAt :: "u64 \<Rightarrow> win_size option"
  Int32At :: "u64 \<Rightarrow> int option"

definition SetTermios :: "termios \<Rightarrow> tty \<Rightarrow> tty" where
  "SetTermios Incoming t =
     (let WasCanonical = IsCanonicalModeEnabled t;
          t1 = t\<lparr>Termios := Incoming\<rparr>;
          t2 = (if \<not> WasCanonical \<and> IsCanonicalModeEnabled t1 then t1\<lparr>CommittedBytes := 0\<rparr> else t1)
      in if WasCanonical \<and> \<not> IsCanonicalModeEnabled t2 then
           let t3 = t2\<lparr>CommittedBytes := BufferedBytes t2\<rparr>
           in if CommittedBytes t3 > 0 then NotifyInputAvailable t3 else t3
         else t2)"

definition GetWinSize :: "tty \<Rightarrow> win_size" where
  "GetWinSize t =
     (if valid_device t then
        \<lparr>Rows = ucast (DeviceHeight t div 16), Columns = ucast (DeviceWidth t div 8), XPixel = ucast (DeviceWidth t),
         YPixel = ucast (DeviceHeight t)\<rparr>
      else \<lparr>Rows = 25, Columns = 80, XPixel = 0, YPixel = 0\<rparr>)"

text \<open>The foreground group, which is chosen at the first question when none has been set.\<close>

definition DefaultGroup :: "(int \<times> u8) option \<Rightarrow> tty \<Rightarrow> tty" where
  "DefaultGroup RunningProcess t =
     (if ForegroundProcessGroup t \<le> 0 then
        t\<lparr>ForegroundProcessGroup := (case RunningProcess of None \<Rightarrow> 1
            | Some (pgid, pid) \<Rightarrow> if pgid > 0 then pgid else int (unat pid))\<rparr>
      else t)"

definition copy_answer :: "tty_user \<Rightarrow> u64 \<Rightarrow> nat \<Rightarrow> tty_value \<Rightarrow> int \<times> (u64 \<times> tty_value) list" where
  "copy_answer u Argument Size v = (if TTYCanCopyTo u Argument Size then (0, [(Argument, v)]) else (TTY_ERR_EFAULT, []))"

definition TTY_Ioctl ::
    "device_file \<Rightarrow> u64 \<Rightarrow> u64 \<Rightarrow> tty_user option \<Rightarrow> (int \<times> u8) option \<Rightarrow> tty \<Rightarrow> (int \<times> (u64 \<times> tty_value) list) \<times> tty" where
  "TTY_Ioctl f Request Argument Logic RunningProcess t =
     (if FileNode f = None then ((TTY_ERR_EFAULT, []), t)
      else (case Logic of
        None \<Rightarrow> ((TTY_ERR_EFAULT, []), t)
      | Some u \<Rightarrow>
          if Request \<notin> {0x5401, 0x5402, 0x5403, 0x5404, 0x5413, 0x5414, 0x540F, 0x5410, 0x541B} then ((TTY_ERR_ENOTTY, []), t)
          else if Argument = 0 then ((TTY_ERR_EFAULT, []), t)
          else if Request = 0x5401 then (copy_answer u Argument 36 (TermiosValue (Termios t)), t)
          else if Request \<in> {0x5402, 0x5403, 0x5404} then
            (case TermiosAt u Argument of None \<Rightarrow> ((TTY_ERR_EFAULT, []), t) | Some Incoming \<Rightarrow> ((0, []), SetTermios Incoming t))
          else if Request = 0x5413 then (copy_answer u Argument 8 (WinSizeValue (GetWinSize t)), t)
          else if Request = 0x5414 then ((if WinSizeAt u Argument = None then TTY_ERR_EFAULT else 0, []), t)
          else if Request = 0x540F then
            let t1 = DefaultGroup RunningProcess t
            in (copy_answer u Argument 4 (Int32Value (ForegroundProcessGroup t1)), t1)
          else if Request = 0x5410 then
            (case Int32At u Argument of
               None \<Rightarrow> ((TTY_ERR_EFAULT, []), t)
             | Some g \<Rightarrow> if g \<le> 0 then ((TTY_ERR_EINVAL, []), t) else ((0, []), t\<lparr>ForegroundProcessGroup := g\<rparr>))
          else (copy_answer u Argument 4 (Int32Value (int (GetReadableBytes t))), t)))"

definition GetBufferedInputBytes :: "tty \<Rightarrow> nat" where
  "GetBufferedInputBytes t = GetReadableBytes t"

section \<open>File operations\<close>

text \<open>The device of a file is the terminal its inode points at.\<close>

definition TerminalOf :: "device_file \<Rightarrow> int + addr" where
  "TerminalOf f =
     (case FileNode f of
        None \<Rightarrow> Inl TTY_ERR_EFAULT
      | Some n \<Rightarrow> (case DevNodeData n of None \<Rightarrow> Inl TTY_ERR_EINVAL | Some a \<Rightarrow> Inr a))"

definition ReadFileOperation :: "device_file \<Rightarrow> bool \<Rightarrow> nat \<Rightarrow> caller \<Rightarrow> tty \<Rightarrow> read_outcome" where
  "ReadFileOperation f BufferNull Count c t =
     (case TerminalOf f of Inl e \<Rightarrow> ReadReturned e [] f t | Inr a \<Rightarrow> TTY_Read f BufferNull Count c t)"

definition WriteFileOperation :: "device_file \<Rightarrow> u8 list option \<Rightarrow> nat \<Rightarrow> tty \<Rightarrow> int \<times> device_file \<times> tty" where
  "WriteFileOperation f Data Count t = (case TerminalOf f of Inl e \<Rightarrow> (e, f, t) | Inr a \<Rightarrow> TTY_Write f Data Count t)"

definition IoctlFileOperation ::
    "device_file \<Rightarrow> u64 \<Rightarrow> u64 \<Rightarrow> tty_user option \<Rightarrow> (int \<times> u8) option \<Rightarrow> tty \<Rightarrow> (int \<times> (u64 \<times> tty_value) list) \<times> tty" where
  "IoctlFileOperation f Request Argument Logic RunningProcess t =
     (case TerminalOf f of Inl e \<Rightarrow> ((e, []), t) | Inr a \<Rightarrow> TTY_Ioctl f Request Argument Logic RunningProcess t)"

definition SeekFileOperation :: "device_file \<Rightarrow> u64 \<Rightarrow> int \<Rightarrow> int" where
  "SeekFileOperation f Offset Whence = TTY_ERR_ENOSYS"

definition MemoryMapFileOperation :: "device_file \<Rightarrow> u64 \<Rightarrow> u64 \<Rightarrow> int" where
  "MemoryMapFileOperation f Length Offset = TTY_ERR_ENOSYS"

end
