(* ===== verification/Line_Discipline.thy ===== *)
theory Line_Discipline imports Terminal Ring_Buffer begin

unbundle bit_operations_syntax

text \<open>
  The input of the terminal: \<open>tty_ok\<close> is the invariant of its ring, kept by every operation (\<open>terminal_reachable\<close>);
  \<open>typed\<close> reads the ring as the lines that have been entered and the one being edited, on which the canonical line
  discipline is a function of the key (\<open>line_key\<close>); with canonical mode off the ring is a \<open>byte_channel\<close>.
\<close>

section \<open>The fields an output leaves alone\<close>

definition input_part :: "tty \<Rightarrow> u8 list \<times> nat \<times> nat \<times> nat \<times> nat \<times> termios \<times> int \<times> nat" where
  "input_part t = (KeyboardBuffer t, BufferHead t, BufferTail t, BufferedBytes t, CommittedBytes t, Termios t,
     ForegroundProcessGroup t, Notifications t)"

lemma fold_keeps: "(\<And>x s. x \<in> set xs \<Longrightarrow> h (f x s) = h s) \<Longrightarrow> h (fold f xs s) = h s"
  by (induction xs arbitrary: s) simp_all

lemma input_DrawPixel [simp]: "input_part (DrawPixel x y c t) = input_part t"
  by (simp add: input_part_def DrawPixel_def)

lemma input_ClearScreen [simp]: "input_part (ClearScreen t) = input_part t"
proof -
  have "input_part (fold (\<lambda>Y. fold (\<lambda>X. DrawPixel (of_nat X) (of_nat Y) c) xs) ys t) = input_part t" for c xs ys
    by (intro fold_keeps) simp
  then show ?thesis by (simp add: ClearScreen_def) (simp add: input_part_def)
qed

lemma input_DrawChar [simp]: "input_part (DrawChar x y c t) = input_part t"
  by (auto simp: DrawChar_def Let_def intro!: fold_keeps)

lemma input_cursor [simp]:
  "input_part (t\<lparr>CursorX := x\<rparr>) = input_part t" "input_part (t\<lparr>CursorY := y\<rparr>) = input_part t"
  "input_part (t\<lparr>TextColor := c\<rparr>) = input_part t" "input_part (t\<lparr>BackgroundColor := c\<rparr>) = input_part t"
  "input_part (t\<lparr>OutputAnsiState := a\<rparr>) = input_part t" "input_part (t\<lparr>OutputAnsiParams := p\<rparr>) = input_part t"
  "input_part (t\<lparr>OutputAnsiParamCount := n\<rparr>) = input_part t" "input_part (t\<lparr>OutputAnsiCurrentValue := v\<rparr>) = input_part t"
  "input_part (t\<lparr>OutputAnsiReadingValue := b\<rparr>) = input_part t"
  by (simp_all add: input_part_def)

lemma input_PutChar [simp]: "input_part (PutChar c t) = input_part t"
  by (simp add: PutChar_def ClearIfPastEnd_def Let_def)

lemma input_Csi [simp]:
  "input_part (ResetAnsiParser t) = input_part t" "input_part (PushParam v t) = input_part t"
  "input_part (CsiMoveCursor t) = input_part t" "input_part (CsiDigit c t) = input_part t"
  "input_part (CsiSeparator t) = input_part t" "input_part (SetColor p t) = input_part t"
  by (simp_all add: ResetAnsiParser_def PushParam_def CsiMoveCursor_def CsiDigit_def CsiSeparator_def SetColor_def Let_def)

lemma input_BlankCells [simp]: "input_part (BlankCells cells t) = input_part t"
  by (auto simp: BlankCells_def intro!: fold_keeps)

lemma input_colors [simp]: "input_part (fold SetColor ps t) = input_part t"
  by (rule fold_keeps) simp

lemma input_Erase [simp]:
  "input_part (CsiEraseDisplay t) = input_part t" "input_part (CsiEraseLine t) = input_part t"
  "input_part (CsiColors t) = input_part t"
  by (simp_all add: CsiEraseDisplay_def CsiEraseLine_def CsiColors_def Let_def)

lemma input_HandleOutputChar [simp]: "input_part (HandleOutputChar c t) = input_part t"
  by (simp add: HandleOutputChar_def CsiFinal_def Let_def split: AnsiParseState.split)

lemma input_OutputChar [simp]: "input_part (OutputChar c t) = input_part t"
  by (simp add: OutputChar_def)

lemma input_TTY_Write: "TTY_Write f Data Count t = (r, f', t') \<Longrightarrow> input_part t' = input_part t"
  by (auto simp: TTY_Write_def Let_def split: if_splits intro!: fold_keeps)

section \<open>The ring of input\<close>

definition input_bytes :: "tty \<Rightarrow> u8 list" where
  "input_bytes t = ring_contents KEYBOARD_BUFFER_CAPACITY (KeyboardBuffer t) (BufferTail t) (BufferedBytes t)"

definition tty_ok :: "tty \<Rightarrow> bool" where
  "tty_ok t \<longleftrightarrow>
     ring_ok KEYBOARD_BUFFER_CAPACITY (KeyboardBuffer t) (BufferTail t) (BufferHead t) (BufferedBytes t) \<and>
     (IsCanonicalModeEnabled t \<longrightarrow> CommittedBytes t \<le> BufferedBytes t) \<and>
     length (TermiosControlCharacters (Termios t)) = 19"

lemma input_part_eq:
  assumes "input_part t' = input_part t"
  shows "tty_ok t' = tty_ok t" "input_bytes t' = input_bytes t" "IsCanonicalModeEnabled t' = IsCanonicalModeEnabled t"
    "CommittedBytes t' = CommittedBytes t" "BufferedBytes t' = BufferedBytes t" "GetReadableBytes t' = GetReadableBytes t"
    "IsEchoEnabled t' = IsEchoEnabled t" "GetControlCharacter t' i = GetControlCharacter t i"
  using assms
  by (auto simp: input_part_def tty_ok_def input_bytes_def IsCanonicalModeEnabled_def GetReadableBytes_def IsEchoEnabled_def
      GetControlCharacter_def)

lemmas input_PutChar_eq [simp] = input_part_eq [OF input_PutChar]

lemma tty_ok_initial: "tty_ok (TTY fb font x y)"
  by (simp add: tty_ok_def TTY_def ring_ok_def KEYBOARD_BUFFER_CAPACITY_def)

lemma tty_ok_bound: "tty_ok t \<Longrightarrow> BufferedBytes t \<le> KEYBOARD_BUFFER_CAPACITY"
  by (simp add: tty_ok_def ring_ok_def)

lemma input_bytes_length [simp]: "length (input_bytes t) = BufferedBytes t"
  by (simp add: input_bytes_def)

text \<open>Storing one byte.\<close>

definition store_byte :: "u8 \<Rightarrow> tty \<Rightarrow> tty" where
  "store_byte c t = t\<lparr>KeyboardBuffer := (KeyboardBuffer t)[BufferHead t := c],
     BufferHead := (BufferHead t + 1) mod KEYBOARD_BUFFER_CAPACITY, BufferedBytes := BufferedBytes t + 1\<rparr>"

lemma store_byte_simps [simp]:
  "Termios (store_byte c t) = Termios t" "CommittedBytes (store_byte c t) = CommittedBytes t"
  "BufferedBytes (store_byte c t) = Suc (BufferedBytes t)" "IsCanonicalModeEnabled (store_byte c t) = IsCanonicalModeEnabled t"
  "IsEchoEnabled (store_byte c t) = IsEchoEnabled t"
  by (simp_all add: store_byte_def IsCanonicalModeEnabled_def IsEchoEnabled_def)

lemma store_byte:
  assumes ok: "tty_ok t" and room: "BufferedBytes t < KEYBOARD_BUFFER_CAPACITY"
  shows "tty_ok (store_byte c t)" "input_bytes (store_byte c t) = input_bytes t @ [c]"
proof -
  have r: "0 < KEYBOARD_BUFFER_CAPACITY" "length (KeyboardBuffer t) = KEYBOARD_BUFFER_CAPACITY"
    "BufferTail t < KEYBOARD_BUFFER_CAPACITY" "BufferHead t < KEYBOARD_BUFFER_CAPACITY"
    "BufferHead t = (BufferTail t + BufferedBytes t) mod KEYBOARD_BUFFER_CAPACITY"
    using ok by (simp_all add: tty_ok_def ring_ok_def)
  have "ring_ok KEYBOARD_BUFFER_CAPACITY ((KeyboardBuffer t)[BufferHead t := c]) (BufferTail t)
      ((BufferHead t + 1) mod KEYBOARD_BUFFER_CAPACITY) (BufferedBytes t + 1)"
    using r room by (simp add: ring_ok_def mod_Suc_eq)
  then show "tty_ok (store_byte c t)"
    using ok by (auto simp: tty_ok_def store_byte_def IsCanonicalModeEnabled_def)
  show "input_bytes (store_byte c t) = input_bytes t @ [c]"
    using r room by (simp add: input_bytes_def store_byte_def ring_contents_snoc ring_contents_update)
qed

lemma PushBytes_Cons:
  "PushBytes (c # cs) t =
     (if BufferedBytes t \<ge> KEYBOARD_BUFFER_CAPACITY then (0, t)
      else case PushBytes cs (store_byte c t) of (n, t') \<Rightarrow> (Suc n, t'))"
  by (simp add: store_byte_def)

lemma PushBytes_spec:
  "tty_ok t \<Longrightarrow> PushBytes cs t = (n, t') \<Longrightarrow>
   tty_ok t' \<and> n = min (length cs) (KEYBOARD_BUFFER_CAPACITY - BufferedBytes t) \<and> input_bytes t' = input_bytes t @ take n cs \<and>
   Termios t' = Termios t \<and> CommittedBytes t' = CommittedBytes t"
proof (induction cs arbitrary: t n t')
  case (Cons c cs)
  show ?case
  proof (cases "BufferedBytes t \<ge> KEYBOARD_BUFFER_CAPACITY")
    case True
    then show ?thesis using Cons.prems by simp
  next
    case False
    then have room: "BufferedBytes t < KEYBOARD_BUFFER_CAPACITY" by simp
    obtain k t1 where p: "PushBytes cs (store_byte c t) = (k, t1)" by (cases "PushBytes cs (store_byte c t)")
    with False Cons.prems(2) have e: "n = Suc k" "t' = t1" by (simp_all add: PushBytes_Cons del: PushBytes.simps)
    from Cons.IH [OF store_byte(1) [OF Cons.prems(1) room] p] e room store_byte(2) [OF Cons.prems(1) room, of c]
    show ?thesis by auto
  qed
qed simp

text \<open>Taking bytes out.\<close>

definition take_byte :: "tty \<Rightarrow> tty" where
  "take_byte t = t\<lparr>BufferTail := (BufferTail t + 1) mod KEYBOARD_BUFFER_CAPACITY, BufferedBytes := sub64 (BufferedBytes t) 1,
     CommittedBytes := (if IsCanonicalModeEnabled t \<and> CommittedBytes t > 0 then CommittedBytes t - 1 else CommittedBytes t)\<rparr>"

lemma take_byte_simps [simp]:
  "Termios (take_byte t) = Termios t" "IsCanonicalModeEnabled (take_byte t) = IsCanonicalModeEnabled t"
  by (simp_all add: take_byte_def IsCanonicalModeEnabled_def)

lemma readable_bound: "tty_ok t \<Longrightarrow> GetReadableBytes t \<le> BufferedBytes t"
  by (auto simp: tty_ok_def GetReadableBytes_def)

lemma take_byte:
  assumes ok: "tty_ok t" and some: "GetReadableBytes t \<noteq> 0"
  shows "tty_ok (take_byte t)" "input_bytes t = KeyboardBuffer t ! BufferTail t # input_bytes (take_byte t)"
    "BufferedBytes (take_byte t) = BufferedBytes t - 1" "GetReadableBytes (take_byte t) = GetReadableBytes t - 1"
proof -
  have pos: "BufferedBytes t \<noteq> 0" using readable_bound [OF ok] some by simp
  have le: "BufferedBytes t \<le> 1024" using tty_ok_bound [OF ok] by (simp add: KEYBOARD_BUFFER_CAPACITY_def)
  then have s: "sub64 (BufferedBytes t) (Suc 0) = BufferedBytes t - 1" using pos sub64_small [of "Suc 0" "BufferedBytes t"] by simp
  have r: "ring_ok KEYBOARD_BUFFER_CAPACITY (KeyboardBuffer t) (BufferTail t) (BufferHead t) (BufferedBytes t)"
    using ok by (simp add: tty_ok_def)
  show "BufferedBytes (take_byte t) = BufferedBytes t - 1" by (simp add: take_byte_def s)
  then show "GetReadableBytes (take_byte t) = GetReadableBytes t - 1"
    using some by (auto simp: GetReadableBytes_def take_byte_def IsCanonicalModeEnabled_def)
  have "CommittedBytes (take_byte t) \<le> BufferedBytes (take_byte t)" if "IsCanonicalModeEnabled t"
    using that ok some by (auto simp: take_byte_def s tty_ok_def GetReadableBytes_def)
  moreover have "ring_ok KEYBOARD_BUFFER_CAPACITY (KeyboardBuffer t) ((BufferTail t + 1) mod KEYBOARD_BUFFER_CAPACITY)
      (BufferHead t) (BufferedBytes t - 1)"
    using ring_read_ok [OF r, of 1] pos by simp
  ultimately show "tty_ok (take_byte t)" using ok by (simp add: tty_ok_def) (simp add: take_byte_def s)
  have "BufferedBytes t = Suc (BufferedBytes t - 1)" using pos by simp
  then have "input_bytes t = ring_contents KEYBOARD_BUFFER_CAPACITY (KeyboardBuffer t) (BufferTail t) (Suc (BufferedBytes t - 1))"
    by (simp add: input_bytes_def)
  also have "\<dots> = KeyboardBuffer t ! BufferTail t #
      ring_contents KEYBOARD_BUFFER_CAPACITY (KeyboardBuffer t) ((BufferTail t + 1) mod KEYBOARD_BUFFER_CAPACITY) (BufferedBytes t - 1)"
    using r by (simp add: ring_contents_Suc ring_ok_def del: Suc_pred)
  finally show "input_bytes t = KeyboardBuffer t ! BufferTail t # input_bytes (take_byte t)"
    by (simp add: input_bytes_def take_byte_def s)
qed

lemma CopyOut_Suc:
  "CopyOut (Suc n) k v t =
     (if GetReadableBytes t = 0 then ([], t)
      else if \<not> IsCanonicalModeEnabled t \<and> v > 0 \<and> Suc k \<ge> v then ([KeyboardBuffer t ! BufferTail t], take_byte t)
      else case CopyOut n (Suc k) v (take_byte t) of (cs, t') \<Rightarrow> (KeyboardBuffer t ! BufferTail t # cs, t'))"
  by (simp only: CopyOut.simps take_byte_def [symmetric] Let_def take_byte_simps if_cancel)

text \<open>How many bytes a copy takes: all that are asked for and readable, but no more than \<open>VMIN\<close> in raw mode.\<close>

definition copy_limit :: "nat \<Rightarrow> nat \<Rightarrow> nat \<Rightarrow> tty \<Rightarrow> nat" where
  "copy_limit n k v t =
     (if \<not> IsCanonicalModeEnabled t \<and> v > 0 then min (min n (GetReadableBytes t)) (max 1 (v - k))
      else min n (GetReadableBytes t))"

lemma copy_limit_le: "tty_ok t \<Longrightarrow> copy_limit n k v t \<le> BufferedBytes t"
  using readable_bound [of t] by (auto simp: copy_limit_def)

lemma CopyOut_spec:
  "tty_ok t \<Longrightarrow> CopyOut n k v t = (cs, t') \<Longrightarrow>
   tty_ok t' \<and> cs = take (copy_limit n k v t) (input_bytes t) \<and> input_bytes t' = drop (copy_limit n k v t) (input_bytes t) \<and>
   length cs = copy_limit n k v t \<and> Termios t' = Termios t \<and> BufferedBytes t' = BufferedBytes t - length cs \<and>
   GetReadableBytes t' = GetReadableBytes t - length cs"
proof (induction n arbitrary: k t cs t')
  case 0
  then show ?case by (simp add: copy_limit_def)
next
  case (Suc n)
  show ?case
  proof (cases "GetReadableBytes t = 0")
    case True
    then have "cs = []" "t' = t" using Suc.prems(2) by simp_all
    moreover have "copy_limit (Suc n) k v t = 0" using True by (simp add: copy_limit_def)
    ultimately show ?thesis using Suc.prems(1) by simp
  next
    case False
    note tb = take_byte [OF Suc.prems(1) False]
    show ?thesis
    proof (cases "\<not> IsCanonicalModeEnabled t \<and> v > 0 \<and> Suc k \<ge> v")
      case True
      then have e: "cs = [KeyboardBuffer t ! BufferTail t]" "t' = take_byte t"
        using Suc.prems(2) False by (simp_all add: CopyOut_Suc del: CopyOut.simps)
      have "copy_limit (Suc n) k v t = 1" using True False by (auto simp: copy_limit_def)
      then show ?thesis using tb by (simp add: e)
    next
      case stop: False
      obtain cs1 t1 where c: "CopyOut n (Suc k) v (take_byte t) = (cs1, t1)" by (cases "CopyOut n (Suc k) v (take_byte t)")
      have e: "cs = KeyboardBuffer t ! BufferTail t # cs1" "t' = t1"
        using Suc.prems(2) False stop c by (auto simp: CopyOut_Suc simp del: CopyOut.simps)
      have l: "copy_limit (Suc n) k v t = Suc (copy_limit n (Suc k) v (take_byte t))"
        using stop False tb(4) by (auto simp: copy_limit_def)
      have "copy_limit n (Suc k) v (take_byte t) \<le> BufferedBytes t - 1"
        using copy_limit_le [OF tb(1)] tb(3) by simp
      with Suc.IH [OF tb(1) c] show ?thesis using tb by (simp add: e l)
    qed
  qed
qed

section \<open>Canonical mode\<close>

text \<open>The lines that have been entered and not yet read, and the one being edited.\<close>

definition typed :: "tty \<Rightarrow> u8 list \<times> u8 list" where
  "typed t = (take (CommittedBytes t) (input_bytes t), drop (CommittedBytes t) (input_bytes t))"

text \<open>What a key does to them, and the number the driver gets back.\<close>

fun line_key :: "u8 \<Rightarrow> u8 \<Rightarrow> u8 list \<times> u8 list \<Rightarrow> nat \<times> (u8 list \<times> u8 list)" where
  "line_key erase Key (lines, edit) =
     (let c = (if Key = 13 then 10 else Key)
      in if c = 8 \<or> c = erase then (1, (lines, butlast edit))
         else if length lines + length edit \<ge> KEYBOARD_BUFFER_CAPACITY then (0, (lines, edit))
         else if c = 10 then (1, (lines @ edit @ [10], []))
         else (1, (lines, edit @ [c])))"

lemma typed_cong: "input_part t' = input_part t \<Longrightarrow> typed t' = typed t"
  using input_part_eq(2,4) [of t' t] by (simp add: typed_def)

lemmas tty_ok_cong = input_part_eq(1)

lemma Termios_cong: "input_part t' = input_part t \<Longrightarrow> Termios t' = Termios t"
  by (simp add: input_part_def)

lemma notify_simps [simp]:
  "tty_ok (NotifyInputAvailable t) = tty_ok t" "typed (NotifyInputAvailable t) = typed t"
  "Termios (NotifyInputAvailable t) = Termios t" "input_bytes (NotifyInputAvailable t) = input_bytes t"
  "IsCanonicalModeEnabled (NotifyInputAvailable t) = IsCanonicalModeEnabled t"
  "CommittedBytes (NotifyInputAvailable t) = CommittedBytes t" "BufferedBytes (NotifyInputAvailable t) = BufferedBytes t"
  by (simp_all add: NotifyInputAvailable_def tty_ok_def typed_def input_bytes_def IsCanonicalModeEnabled_def)

lemma commit_simps [simp]:
  "input_bytes (t\<lparr>CommittedBytes := n\<rparr>) = input_bytes t"
  "IsCanonicalModeEnabled (t\<lparr>CommittedBytes := n\<rparr>) = IsCanonicalModeEnabled t"
  by (simp_all add: input_bytes_def IsCanonicalModeEnabled_def)

lemma tty_ok_commit: "tty_ok t \<Longrightarrow> n \<le> BufferedBytes t \<Longrightarrow> tty_ok (t\<lparr>CommittedBytes := n\<rparr>)"
  by (simp add: tty_ok_def)

lemma committed_le: "tty_ok t \<Longrightarrow> IsCanonicalModeEnabled t \<Longrightarrow> CommittedBytes t \<le> BufferedBytes t"
  by (simp add: tty_ok_def)

text \<open>Taking back the last byte.\<close>

definition unstore_byte :: "tty \<Rightarrow> tty" where
  "unstore_byte t = t\<lparr>BufferHead := (BufferHead t + KEYBOARD_BUFFER_CAPACITY - 1) mod KEYBOARD_BUFFER_CAPACITY,
     BufferedBytes := sub64 (BufferedBytes t) 1\<rparr>"

lemma unstore_byte:
  assumes ok: "tty_ok t" and edit: "CommittedBytes t < BufferedBytes t"
  shows "tty_ok (unstore_byte t)" "input_bytes (unstore_byte t) = butlast (input_bytes t)"
    "CommittedBytes (unstore_byte t) = CommittedBytes t" "Termios (unstore_byte t) = Termios t"
proof -
  let ?C = KEYBOARD_BUFFER_CAPACITY
  obtain n where n: "BufferedBytes t = Suc n" using edit by (cases "BufferedBytes t") auto
  have le: "Suc n \<le> 1024" using tty_ok_bound [OF ok] n by (simp add: KEYBOARD_BUFFER_CAPACITY_def)
  then have s: "sub64 (BufferedBytes t) (Suc 0) = n" "sub64 (Suc n) (Suc 0) = n" using n by simp_all
  have r: "ring_ok ?C (KeyboardBuffer t) (BufferTail t) (BufferHead t) (Suc n)" using ok n by (simp add: tty_ok_def)
  have "(BufferHead t + ?C - 1) mod ?C = ((BufferTail t + Suc n) mod ?C + (?C - 1)) mod ?C"
    using r by (simp add: ring_ok_def KEYBOARD_BUFFER_CAPACITY_def add.commute)
  also have "\<dots> = (BufferTail t + Suc n + (?C - 1)) mod ?C" by (rule mod_add_left_eq)
  also have "\<dots> = (BufferTail t + n + ?C) mod ?C" by (simp add: KEYBOARD_BUFFER_CAPACITY_def)
  finally have h: "(BufferHead t + ?C - 1) mod ?C = (BufferTail t + n) mod ?C" by simp
  have "ring_ok ?C (KeyboardBuffer t) (BufferTail t) ((BufferHead t + ?C - 1) mod ?C) n"
    unfolding h using r by (simp add: ring_ok_def)
  then show "tty_ok (unstore_byte t)"
    using ok edit n by (simp add: tty_ok_def unstore_byte_def s IsCanonicalModeEnabled_def)
  have "input_bytes t = input_bytes (unstore_byte t) @ [KeyboardBuffer t ! ((BufferTail t + n) mod ?C)]"
    by (simp add: input_bytes_def unstore_byte_def s n ring_contents_snoc)
  then show "input_bytes (unstore_byte t) = butlast (input_bytes t)" by simp
qed (simp_all add: unstore_byte_def)

lemma EraseChar_spec:
  assumes ok: "tty_ok t" and can: "IsCanonicalModeEnabled t"
  shows "tty_ok (EraseChar t) \<and> Termios (EraseChar t) = Termios t \<and> typed (EraseChar t) = (fst (typed t), butlast (snd (typed t)))"
proof -
  have le: "CommittedBytes t \<le> BufferedBytes t" using committed_le [OF ok can] .
  have "BufferedBytes t \<le> 1024" using tty_ok_bound [OF ok] by (simp add: KEYBOARD_BUFFER_CAPACITY_def)
  then have s: "sub64 (BufferedBytes t) (CommittedBytes t) = BufferedBytes t - CommittedBytes t" using le by simp
  show ?thesis
  proof (cases "CommittedBytes t < BufferedBytes t")
    case True
    note u = unstore_byte [OF ok True]
    have e: "EraseChar t = (if IsEchoEnabled (unstore_byte t) then PutChar 8 (unstore_byte t) else unstore_byte t)"
      using True by (simp add: EraseChar_def s unstore_byte_def Let_def)
    have i: "input_part (EraseChar t) = input_part (unstore_byte t)" by (simp add: e)
    have "typed (unstore_byte t) = (fst (typed t), butlast (snd (typed t)))"
      using u(2,3) True by (simp add: typed_def butlast_conv_take drop_take)
    then show ?thesis
      using tty_ok_cong [OF i] typed_cong [OF i] Termios_cong [OF i] u by simp
  next
    case False
    then have "sub64 (BufferedBytes t) (CommittedBytes t) = 0" by (simp add: s)
    then have e: "EraseChar t = t" by (simp add: EraseChar_def)
    show ?thesis using ok False by (simp add: e typed_def)
  qed
qed

lemma StoreChar_spec:
  assumes ok: "tty_ok t" and st: "StoreChar c t = (n, t')"
  shows "tty_ok t' \<and> Termios t' = Termios t \<and> n = (if BufferedBytes t < KEYBOARD_BUFFER_CAPACITY then 1 else 0) \<and>
    input_bytes t' = input_bytes t @ (if n = 1 then [c] else []) \<and>
    CommittedBytes t' = (if n = 1 \<and> c = 10 then BufferedBytes t + 1 else CommittedBytes t)"
proof (cases "BufferedBytes t < KEYBOARD_BUFFER_CAPACITY")
  case True
  note s = store_byte [OF ok True, of c]
  define t2 where "t2 = (if c = 10 then NotifyInputAvailable ((store_byte c t)\<lparr>CommittedBytes := BufferedBytes (store_byte c t)\<rparr>)
    else store_byte c t)"
  define t3 where "t3 = (if \<not> IsCanonicalModeEnabled t2 then NotifyInputAvailable t2 else t2)"
  have p: "PushKeyboardInput (Some [c]) 1 t = (1, store_byte c t)"
    using True by (simp add: PushKeyboardInput_def store_byte_def)
  have e: "n = 1" "t' = (if IsEchoEnabled t3 then PutChar c t3 else t3)"
    using st unfolding StoreChar_def p Let_def t3_def t2_def by simp_all
  have i: "input_part t' = input_part t3" by (simp add: e)
  have "tty_ok t2" using s(1) tty_ok_commit [OF s(1), of "BufferedBytes (store_byte c t)"] by (cases "c = 10") (simp_all add: t2_def)
  then have "tty_ok t3 \<and> Termios t3 = Termios t \<and> input_bytes t3 = input_bytes t @ [c] \<and>
      CommittedBytes t3 = (if c = 10 then BufferedBytes t + 1 else CommittedBytes t)"
    using s by (cases "c = 10") (simp_all add: t3_def t2_def)
  then show ?thesis
    using tty_ok_cong [OF i] Termios_cong [OF i] input_part_eq(2,4) [OF i] True by (simp add: e)
next
  case False
  then have "PushKeyboardInput (Some [c]) 1 t = (0, t)" by (simp add: PushKeyboardInput_def)
  then show ?thesis using st ok False by (simp add: StoreChar_def)
qed

lemma PushKeyboardInputChar_ok:
  assumes ok: "tty_ok t" and p: "PushKeyboardInputChar Key t = (n, t')"
  shows "tty_ok t' \<and> Termios t' = Termios t"
proof -
  let ?c = "if Key = 13 then 10 else Key"
  show ?thesis
  proof (cases "IsCanonicalModeEnabled t \<and> (?c = 8 \<or> ?c = GetControlCharacter t LINUX_CC_VERASE)")
    case True
    then have "t' = EraseChar t" using p by (simp add: PushKeyboardInputChar_def Let_def)
    then show ?thesis using EraseChar_spec [OF ok] True by simp
  next
    case False
    then have "StoreChar ?c t = (n, t')" using p unfolding PushKeyboardInputChar_def Let_def by (simp only: if_False)
    from StoreChar_spec [OF ok this] show ?thesis by simp
  qed
qed

lemma PushKeyboardInputChar_line:
  assumes ok: "tty_ok t" and can: "IsCanonicalModeEnabled t" and p: "PushKeyboardInputChar Key t = (n, t')"
  shows "(n, typed t') = line_key (GetControlCharacter t LINUX_CC_VERASE) Key (typed t)"
proof -
  define c where "c = (if Key = 13 then 10 else Key)"
  have le: "CommittedBytes t \<le> BufferedBytes t" using committed_le [OF ok can] .
  show ?thesis
  proof (cases "c = 8 \<or> c = GetControlCharacter t LINUX_CC_VERASE")
    case True
    then have "n = 1" "t' = EraseChar t" using p can by (simp_all add: PushKeyboardInputChar_def Let_def c_def)
    then show ?thesis using EraseChar_spec [OF ok can] True by (cases "typed t") (simp add: Let_def c_def [symmetric])
  next
    case False
    then have "StoreChar c t = (n, t')" using p by (simp add: PushKeyboardInputChar_def Let_def c_def [symmetric])
    note s = StoreChar_spec [OF ok this]
    have "length (fst (typed t)) + length (snd (typed t)) = BufferedBytes t" using le by (simp add: typed_def)
    then show ?thesis using s le False by (auto simp: typed_def Let_def c_def [symmetric])
  qed
qed

section \<open>Reads\<close>

fun outcome_tty :: "read_outcome \<Rightarrow> tty" where
  "outcome_tty (ReadReturned n bs f t) = t"
| "outcome_tty (ReadSleeping p r t) = t"
| "outcome_tty (ReadBlocked p r t) = t"

lemma ReadFinish_ok: "tty_ok t \<Longrightarrow> tty_ok (outcome_tty (ReadFinish r t))"
proof -
  assume ok: "tty_ok t"
  obtain cs t' where c: "CopyOut (ReadCount r) 0 (VMin r) t = (cs, t')" by (cases "CopyOut (ReadCount r) 0 (VMin r) t")
  have "tty_ok t'" using CopyOut_spec [OF ok c] by blast
  then show ?thesis using ok by (simp add: ReadFinish_def c)
qed

lemma ReadLoop_ok: "tty_ok t \<Longrightarrow> tty_ok (outcome_tty (ReadLoop c r t))"
  by (auto simp: ReadLoop_def ReadFinish_ok split: caller.split)

lemma TTY_Read_ok: "tty_ok t \<Longrightarrow> tty_ok (outcome_tty (TTY_Read f b n c t))"
  by (simp add: TTY_Read_def ReadLoop_ok)

text \<open>In canonical mode a read takes from the entered lines only, and waits when there are none.\<close>

lemma canonical_read_lines:
  assumes ok: "tty_ok t" and can: "IsCanonicalModeEnabled t" and f: "FileNode f \<noteq> None" and n: "0 < Count"
    and some: "fst (typed t) \<noteq> []"
  shows "\<exists>f' t'. TTY_Read f False Count c t =
      ReadReturned (int (min Count (length (fst (typed t))))) (take Count (fst (typed t))) f' t' \<and>
    tty_ok t' \<and> Termios t' = Termios t \<and> typed t' = (drop Count (fst (typed t)), snd (typed t))"
proof -
  have le: "CommittedBytes t \<le> BufferedBytes t" using committed_le [OF ok can] .
  have g: "GetReadableBytes t = CommittedBytes t" using can by (simp add: GetReadableBytes_def)
  have pos: "0 < CommittedBytes t" using some by (auto simp: typed_def)
  define r where "r = ReadStart f Count t"
  have r: "RequiredBytes r = 1" "ReadCount r = Count" using can by (simp_all add: r_def ReadStart_def Let_def)
  obtain bs t' where c: "CopyOut Count 0 (VMin r) t = (bs, t')" by (cases "CopyOut Count 0 (VMin r) t")
  have k: "copy_limit Count 0 (VMin r) t = min Count (CommittedBytes t)" using can g by (simp add: copy_limit_def)
  note s = CopyOut_spec [OF ok c, unfolded k]
  have can': "IsCanonicalModeEnabled t'" using can s by (simp add: IsCanonicalModeEnabled_def)
  have len: "length bs = min Count (CommittedBytes t)" using s by blast
  have "GetReadableBytes t' = CommittedBytes t - length bs" using s unfolding g by blast
  then have "GetReadableBytes t' = CommittedBytes t - min Count (CommittedBytes t)" by (simp only: len)
  then have cb: "CommittedBytes t' = CommittedBytes t - Count" using can' by (simp add: GetReadableBytes_def min_def)
  have "TTY_Read f False Count c t = ReadFinish r t"
    using f n pos g r can by (auto simp: TTY_Read_def ReadLoop_def r_def [symmetric])
  also have "\<dots> = ReadReturned (int (length bs)) bs (f\<lparr>FileOffset := FileOffset f + of_nat (length bs)\<rparr>) t'"
    using can c r by (simp add: ReadFinish_def) (simp add: r_def ReadStart_def Let_def)
  finally have read: "TTY_Read f False Count c t = \<dots>" .
  have "bs = take Count (fst (typed t))" using s by (simp add: typed_def min.commute)
  moreover have "typed t' = (drop Count (fst (typed t)), snd (typed t))"
    using s le by (simp add: typed_def cb drop_take min_def)
  ultimately show ?thesis using read s by (simp add: min.commute)
qed

lemma canonical_read_waits:
  assumes can: "IsCanonicalModeEnabled t" and f: "FileNode f \<noteq> None" and n: "0 < Count" and "CommittedBytes t = 0"
  shows "TTY_Read f False Count (Caller p) t =
    (if FileFlags f AND TTY_O_NONBLOCK \<noteq> 0 then ReadReturned TTY_ERR_EAGAIN [] f t
     else ReadBlocked p (ReadStart f Count t) t)"
  using assms by (auto simp: TTY_Read_def ReadLoop_def ReadStart_def Let_def GetReadableBytes_def)

text \<open>Typing, and the line an editor of lines makes of the keys.\<close>

definition type_keys :: "u8 list \<Rightarrow> tty \<Rightarrow> tty" where
  "type_keys keys t = fold (\<lambda>c s. snd (PushKeyboardInputChar c s)) keys t"

definition edited :: "u8 \<Rightarrow> u8 list \<Rightarrow> u8 list" where
  "edited erase keys = fold (\<lambda>c e. if c = 8 \<or> c = erase then butlast e else e @ [c]) keys []"

lemma type_keys_snoc: "type_keys (ks @ [k]) t = snd (PushKeyboardInputChar k (type_keys ks t))"
  by (simp add: type_keys_def)

lemma edited_snoc: "edited e (ks @ [k]) = (if k = 8 \<or> k = e then butlast (edited e ks) else edited e ks @ [k])"
  by (simp add: edited_def)

lemma edited_length: "length (edited e ks) \<le> length ks"
  by (induction ks rule: rev_induct) (auto simp: edited_snoc, simp add: edited_def)

lemma Termios_erase: "Termios t' = Termios t \<Longrightarrow> GetControlCharacter t' i = GetControlCharacter t i"
  by (simp add: GetControlCharacter_def)

lemma Termios_canonical: "Termios t' = Termios t \<Longrightarrow> IsCanonicalModeEnabled t' = IsCanonicalModeEnabled t"
  by (simp add: IsCanonicalModeEnabled_def)

lemma type_keys_line:
  assumes "tty_ok t" and "IsCanonicalModeEnabled t"
  shows "tty_ok (type_keys ks t) \<and> Termios (type_keys ks t) = Termios t \<and>
    typed (type_keys ks t) = fold (\<lambda>k l. snd (line_key (GetControlCharacter t LINUX_CC_VERASE) k l)) ks (typed t)"
  using assms
proof (induction ks arbitrary: t)
  case Nil
  then show ?case by (simp add: type_keys_def)
next
  case (Cons k ks)
  obtain n t1 where p: "PushKeyboardInputChar k t = (n, t1)" by (cases "PushKeyboardInputChar k t")
  have ok: "tty_ok t1" "Termios t1 = Termios t" using PushKeyboardInputChar_ok [OF Cons.prems(1) p] by simp_all
  have l: "typed t1 = snd (line_key (GetControlCharacter t LINUX_CC_VERASE) k (typed t))"
    using PushKeyboardInputChar_line [OF Cons.prems p] by (metis snd_conv)
  have e: "type_keys (k # ks) t = type_keys ks t1" by (simp add: type_keys_def p)
  show ?case
    using Cons.IH [OF ok(1)] Cons.prems(2) Termios_canonical [OF ok(2)] Termios_erase [OF ok(2)] ok(2)
    by (simp add: e l del: line_key.simps)
qed

lemma keys_edit_line:
  "set ks \<inter> {10, 13} = {} \<Longrightarrow> length ks < KEYBOARD_BUFFER_CAPACITY \<Longrightarrow>
   fold (\<lambda>k l. snd (line_key e k l)) ks ([], []) = ([], edited e ks)"
proof (induction ks rule: rev_induct)
  case Nil
  then show ?case by (simp add: edited_def)
next
  case (snoc k ks)
  then have ih: "fold (\<lambda>k l. snd (line_key e k l)) ks ([], []) = ([], edited e ks)" by simp
  have "length (edited e ks) < KEYBOARD_BUFFER_CAPACITY"
    using snoc.prems(2) edited_length [of e ks] by simp
  then show ?case using snoc.prems(1) by (auto simp: ih edited_snoc Let_def)
qed

lemma entered_line:
  assumes ok: "tty_ok t" and can: "IsCanonicalModeEnabled t" and empty: "typed t = ([], [])"
    and keys: "set ks \<inter> {10, 13} = {}" "length ks < KEYBOARD_BUFFER_CAPACITY"
    and erase: "GetControlCharacter t LINUX_CC_VERASE \<noteq> 10"
  shows "tty_ok (type_keys (ks @ [13]) t) \<and> Termios (type_keys (ks @ [13]) t) = Termios t \<and>
    typed (type_keys (ks @ [13]) t) = (edited (GetControlCharacter t LINUX_CC_VERASE) ks @ [10], [])"
proof -
  let ?e = "GetControlCharacter t LINUX_CC_VERASE"
  have "length (edited ?e ks) < KEYBOARD_BUFFER_CAPACITY" using keys(2) edited_length [of ?e ks] by simp
  then have "fold (\<lambda>k l. snd (line_key ?e k l)) (ks @ [13]) ([], []) = (edited ?e ks @ [10], [])"
    using keys_edit_line [OF keys, of ?e] erase by (simp add: Let_def)
  then show ?thesis using type_keys_line [OF ok can, of "ks @ [13]"] empty by simp
qed

text \<open>A read of a terminal that is resumed in the states \<open>ts\<close>, until it returns.\<close>

fun resume_read :: "caller \<Rightarrow> read_frame \<Rightarrow> tty list \<Rightarrow> read_outcome option" where
  "resume_read c r [] = None"
| "resume_read c r (t # ts) =
     (case ReadLoop c r t of
        ReadReturned n bs f t' \<Rightarrow> Some (ReadReturned n bs f t')
      | ReadSleeping p r' t' \<Rightarrow> resume_read c r' ts
      | ReadBlocked p r' t' \<Rightarrow> resume_read c r' ts)"

lemma ReadFinish_returns: "\<exists>n bs f t'. ReadFinish r t = ReadReturned n bs f t'"
  by (simp add: ReadFinish_def split: prod.split)

lemma timed_read_returns:
  "0 < VTime r \<Longrightarrow> \<forall>t\<in>set ts. \<not> IsCanonicalModeEnabled t \<Longrightarrow> DecisecondsWaited r \<le> VTime r \<Longrightarrow>
   VTime r < DecisecondsWaited r + length ts \<Longrightarrow>
   \<exists>n bs f t'. resume_read c r ts = Some (ReadReturned n bs f t')"
proof (induction ts arbitrary: r)
  case (Cons t ts)
  have raw: "\<not> IsCanonicalModeEnabled t" using Cons.prems(2) by simp
  show ?case
  proof (cases "\<exists>n bs f t'. ReadLoop c r t = ReadReturned n bs f t'")
    case True
    then show ?thesis by auto
  next
    case False
    then obtain p where l: "ReadLoop c r t = ReadSleeping p (r\<lparr>DecisecondsWaited := DecisecondsWaited r + 1\<rparr>) t"
      and w: "DecisecondsWaited r < VTime r"
      using raw Cons.prems(1) ReadFinish_returns [of r t] by (auto simp: ReadLoop_def split: if_splits caller.splits)
    have "\<exists>n bs f t'. resume_read c (r\<lparr>DecisecondsWaited := DecisecondsWaited r + 1\<rparr>) ts = Some (ReadReturned n bs f t')"
      using Cons.prems w by (intro Cons.IH) simp_all
    then show ?thesis by (simp add: l)
  qed
qed simp

section \<open>Raw mode\<close>

text \<open>With canonical mode off and \<open>VMIN\<close> zero, the driver's end and the reader's end are those of a bounded queue.\<close>

definition raw_ok :: "tty \<Rightarrow> bool" where
  "raw_ok t \<longleftrightarrow> tty_ok t \<and> \<not> IsCanonicalModeEnabled t"

definition RawPut :: "tty \<Rightarrow> u8 list \<Rightarrow> nat \<times> tty" where
  "RawPut t bytes = PushKeyboardInput (Some bytes) (length bytes) t"

definition RawGet :: "tty \<Rightarrow> nat \<Rightarrow> u8 list \<times> tty" where
  "RawGet t Count = CopyOut Count 0 0 t"

interpretation raw: byte_channel raw_ok input_bytes KEYBOARD_BUFFER_CAPACITY RawPut RawGet
proof
  fix t assume "raw_ok t"
  then show "length (input_bytes t) \<le> KEYBOARD_BUFFER_CAPACITY" using tty_ok_bound by (simp add: raw_ok_def)
next
  fix t bs k t' assume ok: "raw_ok t" and p: "RawPut t bs = (k, t')"
  then have "PushBytes bs t = (k, t')" by (cases bs) (simp_all add: RawPut_def PushKeyboardInput_def)
  from PushBytes_spec [OF _ this] ok
  show "raw_ok t' \<and> k = min (length bs) (KEYBOARD_BUFFER_CAPACITY - length (input_bytes t)) \<and>
      input_bytes t' = input_bytes t @ take k bs"
    using Termios_canonical [of t' t] by (simp add: raw_ok_def)
next
  fix t n bs t' assume ok: "raw_ok t" and g: "RawGet t n = (bs, t')"
  have c: "CopyOut n 0 0 t = (bs, t')" using g by (simp add: RawGet_def)
  have "copy_limit n 0 0 t = min n (length (input_bytes t))" using ok by (simp add: copy_limit_def GetReadableBytes_def raw_ok_def)
  with CopyOut_spec [OF _ c] ok
  show "raw_ok t' \<and> bs = take n (input_bytes t) \<and> input_bytes t' = drop n (input_bytes t)"
    using Termios_canonical [of t' t] by (auto simp: raw_ok_def min_def)
qed

section \<open>Every run of the terminal\<close>

lemma SetTermios_ok:
  assumes ok: "tty_ok t" and len: "length (TermiosControlCharacters Incoming) = 19"
  shows "tty_ok (SetTermios Incoming t)" "input_bytes (SetTermios Incoming t) = input_bytes t"
    "Termios (SetTermios Incoming t) = Incoming"
proof -
  define t2 where "t2 = (if \<not> IsCanonicalModeEnabled t \<and> IsCanonicalModeEnabled (t\<lparr>Termios := Incoming\<rparr>)
    then t\<lparr>Termios := Incoming, CommittedBytes := 0\<rparr> else t\<lparr>Termios := Incoming\<rparr>)"
  define t3 where "t3 = t2\<lparr>CommittedBytes := BufferedBytes t2\<rparr>"
  have e: "SetTermios Incoming t =
      (if IsCanonicalModeEnabled t \<and> \<not> IsCanonicalModeEnabled t2
       then if CommittedBytes t3 > 0 then NotifyInputAvailable t3 else t3 else t2)"
    by (simp add: SetTermios_def t2_def t3_def Let_def)
  have t2: "tty_ok t2" "input_bytes t2 = input_bytes t" "Termios t2 = Incoming"
    using ok len by (auto simp: t2_def tty_ok_def IsCanonicalModeEnabled_def input_bytes_def)
  have t3: "tty_ok t3" "input_bytes t3 = input_bytes t" "Termios t3 = Incoming"
    using t2 tty_ok_commit [OF t2(1), of "BufferedBytes t2"] by (simp_all add: t3_def)
  show "tty_ok (SetTermios Incoming t)" "input_bytes (SetTermios Incoming t) = input_bytes t"
    "Termios (SetTermios Incoming t) = Incoming" using t2 t3 by (simp_all add: e)
qed

text \<open>A \<open>LinuxTermios\<close> in user memory has the 19 control characters of its type.\<close>

definition termios_user :: "tty_user option \<Rightarrow> bool" where
  "termios_user Logic \<longleftrightarrow>
     (\<forall>u a x. Logic = Some u \<longrightarrow> TermiosAt u a = Some x \<longrightarrow> length (TermiosControlCharacters x) = 19)"

lemma tty_ok_group [simp]: "tty_ok (t\<lparr>ForegroundProcessGroup := g\<rparr>) = tty_ok t"
  by (simp add: tty_ok_def IsCanonicalModeEnabled_def)

lemma tty_ok_DefaultGroup [simp]: "tty_ok (DefaultGroup p t) = tty_ok t"
  by (simp add: DefaultGroup_def)

lemma TTY_Ioctl_ok: "tty_ok t \<Longrightarrow> termios_user Logic \<Longrightarrow> TTY_Ioctl f q a Logic p t = (r, t') \<Longrightarrow> tty_ok t'"
  by (auto simp: TTY_Ioctl_def Let_def termios_user_def SetTermios_ok split: if_splits option.splits)

lemma TTY_Write_ok: "tty_ok t \<Longrightarrow> TTY_Write f Data Count t = (r, f', t') \<Longrightarrow> tty_ok t'"
  using tty_ok_cong [OF input_TTY_Write] by blast

lemma PushKeyboardInput_ok: "tty_ok t \<Longrightarrow> PushKeyboardInput Data Count t = (n, t') \<Longrightarrow> tty_ok t'"
  using PushBytes_spec by (auto simp: PushKeyboardInput_def split: option.splits if_splits)

lemma input_printf: "TTY_printf Format t = (r, t') \<Longrightarrow> input_part t' = input_part t"
  by (auto simp: TTY_printf_def Let_def split: option.splits if_splits intro!: fold_keeps)

inductive terminal_step :: "tty \<Rightarrow> tty \<Rightarrow> bool" where
  Key: "PushKeyboardInputChar c t = (n, t') \<Longrightarrow> terminal_step t t'"
| Bytes: "PushKeyboardInput Data Count t = (n, t') \<Longrightarrow> terminal_step t t'"
| Print: "TTY_printf Format t = (r, t') \<Longrightarrow> terminal_step t t'"
| Write: "WriteFileOperation f Data Count t = (r, f', t') \<Longrightarrow> terminal_step t t'"
| Read: "ReadFileOperation f b Count c t = o' \<Longrightarrow> terminal_step t (outcome_tty o')"
| Resume: "ReadLoop c r t = o' \<Longrightarrow> terminal_step t (outcome_tty o')"
| Ioctl: "termios_user Logic \<Longrightarrow> IoctlFileOperation f q a Logic p t = (r, t') \<Longrightarrow> terminal_step t t'"

lemma terminal_step_ok: "terminal_step t t' \<Longrightarrow> tty_ok t \<Longrightarrow> tty_ok t'"
proof (induction rule: terminal_step.induct)
  case (Key c t n t')
  then show ?case using PushKeyboardInputChar_ok by blast
next
  case (Bytes Data Count t n t')
  then show ?case using PushKeyboardInput_ok by blast
next
  case (Print Format t r t')
  then show ?case using tty_ok_cong [OF input_printf] by blast
next
  case (Write f Data Count t r f' t')
  then show ?case by (auto simp: WriteFileOperation_def TTY_Write_ok split: sum.splits)
next
  case (Read f b Count c t o')
  then show ?case by (auto simp: ReadFileOperation_def TTY_Read_ok split: sum.splits)
next
  case (Resume c r t o')
  then show ?case using ReadLoop_ok by blast
next
  case (Ioctl Logic f q a p t r t')
  then show ?case by (auto simp: IoctlFileOperation_def TTY_Ioctl_ok split: sum.splits)
qed

lemma terminal_steps_ok: "terminal_step\<^sup>*\<^sup>* t t' \<Longrightarrow> tty_ok t \<Longrightarrow> tty_ok t'"
  by (induction rule: rtranclp_induct) (auto intro: terminal_step_ok)

section \<open>Properties\<close>

text \<open>
  C22. In canonical mode the ring of input is the lines entered so far and the line being edited:
  a key appends a character to the edited line unless the ring is full, the erase key takes its
  last character back and never one of an entered line, and return enters the line; a read takes
  the first bytes of the entered lines, at most as many as asked for, never one of the line being
  edited, and waits, or answers EAGAIN, exactly when no line has been entered.
\<close>

theorem line_discipline_refines:
  assumes "tty_ok t" and "IsCanonicalModeEnabled t"
  shows "(\<forall>n t'. PushKeyboardInputChar Key t = (n, t') \<longrightarrow>
       tty_ok t' \<and> Termios t' = Termios t \<and>
       (n, typed t') = line_key (GetControlCharacter t LINUX_CC_VERASE) Key (typed t)) \<and>
     (FileNode f \<noteq> None \<and> 0 < Count \<longrightarrow>
       (if fst (typed t) = []
        then TTY_Read f False Count (Caller p) t =
          (if FileFlags f AND TTY_O_NONBLOCK \<noteq> 0 then ReadReturned TTY_ERR_EAGAIN [] f t
           else ReadBlocked p (ReadStart f Count t) t)
        else \<exists>f' t'. TTY_Read f False Count (Caller p) t =
            ReadReturned (int (min Count (length (fst (typed t))))) (take Count (fst (typed t))) f' t' \<and>
          tty_ok t' \<and> Termios t' = Termios t \<and> typed t' = (drop Count (fst (typed t)), snd (typed t))))"
proof -
  have "CommittedBytes t = 0" if "fst (typed t) = []"
  proof -
    have "length (fst (typed t)) = CommittedBytes t" using committed_le [OF assms] by (simp add: typed_def)
    then show ?thesis using that by simp
  qed
  then show ?thesis
    using PushKeyboardInputChar_ok [OF assms(1)] PushKeyboardInputChar_line [OF assms]
      canonical_read_lines [OF assms, of f Count "Caller p"] canonical_read_waits [OF assms(2), of f Count p]
    by auto
qed

theorem line_discipline_refines_witness:
  "\<exists>n t'. PushKeyboardInputChar 65 (TTY None (\<lambda>_. 0) 0 0) = (n, t') \<and> n = 1 \<and> typed t' = ([], [65])"
proof -
  let ?t = "TTY None (\<lambda>_. 0) 0 0"
  obtain n t' where r: "PushKeyboardInputChar 65 ?t = (n, t')" by (metis surj_pair)
  have c: "IsCanonicalModeEnabled ?t"
    by (simp add: TTY_def IsCanonicalModeEnabled_def LINUX_TERMIOS_DEFAULT_def LINUX_TERMIOS_ISIG_def LINUX_TERMIOS_ICANON_def
        LINUX_TERMIOS_ECHO_def)
  have "GetControlCharacter ?t LINUX_CC_VERASE = 127"
    by (simp add: TTY_def GetControlCharacter_def LINUX_CC_VINTR_def LINUX_CC_VERASE_def LINUX_CC_VEOF_def LINUX_CC_VTIME_def
        LINUX_CC_VMIN_def)
  moreover have "typed ?t = ([], [])" by (simp add: typed_def input_bytes_def TTY_def ring_contents_def)
  ultimately have "(n, typed t') = (1, ([], [65]))"
    using line_discipline_refines [OF tty_ok_initial c] r by (auto simp: KEYBOARD_BUFFER_CAPACITY_def)
  then show ?thesis using r by blast
qed

text \<open>
  C32. A read in raw mode with a time limit returns: whatever the terminal holds each time the
  reader is resumed, after at most VTIME sleeps of a decisecond the read has returned.
\<close>

theorem timed_read_ends:
  assumes "FileNode f \<noteq> None" and "0 < Count" and "0 < VTime (ReadStart f Count t)"
    and "TTY_Read f False Count c t = ReadSleeping p r t1"
    and "\<forall>s\<in>set ts. \<not> IsCanonicalModeEnabled s" and "VTime (ReadStart f Count t) \<le> length ts"
  shows "\<exists>n bs f' t'. resume_read c r ts = Some (ReadReturned n bs f' t')"
proof -
  have "ReadLoop c (ReadStart f Count t) t = ReadSleeping p r t1" using assms(1,2,4) by (auto simp: TTY_Read_def split: if_splits)
  then have "r = (ReadStart f Count t)\<lparr>DecisecondsWaited := DecisecondsWaited (ReadStart f Count t) + 1\<rparr>"
    using ReadFinish_returns [of "ReadStart f Count t" t] by (auto simp: ReadLoop_def split: if_splits caller.splits)
  then have "VTime r = VTime (ReadStart f Count t)" "DecisecondsWaited r = 1"
    by (simp_all add: ReadStart_def Let_def)
  then show ?thesis using timed_read_returns [of r ts c] assms(3,5,6) by simp
qed

theorem timed_read_ends_witness:
  "\<exists>f t r. TTY_Read f False 8 (Caller 5) t = ReadSleeping 5 r t \<and>
     (\<exists>n bs f' t'. resume_read (Caller 5) r [t] = Some (ReadReturned n bs f' t'))"
proof -
  define u where "u = SetTermios \<lparr>TermiosInputFlags = 0, TermiosOutputFlags = 0, TermiosControlFlags = 0, TermiosLocalFlags = 0,
      TermiosLineDiscipline = 0, TermiosControlCharacters = (replicate 19 0)[5 := 1]\<rparr> (TTY None (\<lambda>_. 0) 0 0)"
  let ?f = "\<lparr>FileNode = Some \<lparr>DevNodeSize = 0, DevNodeData = None\<rparr>, FileOffset = 0, FileFlags = 0\<rparr>"
  have raw: "\<not> IsCanonicalModeEnabled u" "BufferedBytes u = 0"
    by (simp_all add: u_def SetTermios_def Let_def IsCanonicalModeEnabled_def TTY_def NotifyInputAvailable_def)
  have cc: "GetControlCharacter u LINUX_CC_VMIN = 0" "GetControlCharacter u LINUX_CC_VTIME = 1"
    by (simp_all add: u_def SetTermios_def Let_def IsCanonicalModeEnabled_def TTY_def NotifyInputAvailable_def
        GetControlCharacter_def LINUX_CC_VMIN_def LINUX_CC_VTIME_def)
  then have v: "VTime (ReadStart ?f 8 u) = 1" by (simp add: ReadStart_def Let_def)
  obtain r where r: "TTY_Read ?f False 8 (Caller 5) u = ReadSleeping 5 r u"
    using raw cc by (simp add: TTY_Read_def ReadLoop_def ReadStart_def Let_def GetReadableBytes_def)
  have "\<exists>n bs f' t'. resume_read (Caller 5) r [u] = Some (ReadReturned n bs f' t')"
    using timed_read_ends [OF _ _ _ r, of "[u]"] v raw by simp
  with r show ?thesis by blast
qed

section \<open>Further facts\<close>

text \<open>
  What a user types is what a program reads: after any keys but return, fewer than the ring holds,
  and then return, a read delivers the keys as edited - every erase key removing the character
  before it - followed by a newline, as much of it as was asked for, and leaves the rest.
\<close>

theorem typed_line_is_read:
  assumes "tty_ok t" and "IsCanonicalModeEnabled t" and "typed t = ([], [])"
    and "set keys \<inter> {10, 13} = {}" and "length keys < KEYBOARD_BUFFER_CAPACITY"
    and "GetControlCharacter t LINUX_CC_VERASE \<noteq> 10" and "FileNode f \<noteq> None" and "0 < Count"
  defines "line \<equiv> edited (GetControlCharacter t LINUX_CC_VERASE) keys @ [10]"
  shows "\<exists>f' t'. TTY_Read f False Count c (type_keys (keys @ [13]) t) =
      ReadReturned (int (min Count (length line))) (take Count line) f' t' \<and> typed t' = (drop Count line, [])"
proof -
  note e = entered_line [OF assms(1-6)]
  have can: "IsCanonicalModeEnabled (type_keys (keys @ [13]) t)" using e assms(2) Termios_canonical by blast
  show ?thesis
    using canonical_read_lines [OF _ can assms(7,8), of c] e unfolding line_def by auto
qed

theorem typed_line_is_read_witness:
  "\<exists>f' t'. TTY_Read \<lparr>FileNode = Some \<lparr>DevNodeSize = 0, DevNodeData = None\<rparr>, FileOffset = 0, FileFlags = 0\<rparr> False 8 NoCaller
     (type_keys ([108, 119, 8, 115] @ [13]) (TTY None (\<lambda>_. 0) 0 0)) = ReadReturned 3 [108, 115, 10] f' t'"
proof -
  let ?t = "TTY None (\<lambda>_. 0) 0 0" and ?f = "\<lparr>FileNode = Some \<lparr>DevNodeSize = 0, DevNodeData = None\<rparr>, FileOffset = 0, FileFlags = 0\<rparr>"
  have c: "IsCanonicalModeEnabled ?t"
    by (simp add: TTY_def IsCanonicalModeEnabled_def LINUX_TERMIOS_DEFAULT_def LINUX_TERMIOS_ISIG_def LINUX_TERMIOS_ICANON_def
        LINUX_TERMIOS_ECHO_def)
  have e: "GetControlCharacter ?t LINUX_CC_VERASE = 127"
    by (simp add: TTY_def GetControlCharacter_def LINUX_CC_VINTR_def LINUX_CC_VERASE_def LINUX_CC_VEOF_def LINUX_CC_VTIME_def
        LINUX_CC_VMIN_def)
  have "typed ?t = ([], [])" by (simp add: typed_def input_bytes_def TTY_def ring_contents_def)
  from typed_line_is_read [OF tty_ok_initial c this, of "[108, 119, 8, 115]" ?f 8 NoCaller] e show ?thesis
    by (auto simp: edited_def KEYBOARD_BUFFER_CAPACITY_def)
qed

text \<open>
  With canonical mode off and VMIN zero the terminal is a bounded byte queue: over any sequence of
  bytes pushed and reads, the bytes delivered followed by those still buffered are those buffered
  at the start followed by those accepted, in order.
\<close>

theorem raw_input_is_fifo:
  assumes "raw_ok t" and "raw.run t ops = (sent, got, t')"
  shows "raw_ok t' \<and> input_bytes t @ sent = got @ input_bytes t' \<and> length (input_bytes t') \<le> KEYBOARD_BUFFER_CAPACITY"
  using assms by (rule raw.run_fifo)

end
