(* ===== verification/Terminal_Screen.thy ===== *)
theory Terminal_Screen imports Line_Discipline begin

unbundle bit_operations_syntax

text \<open>
  The output of the terminal and the frame buffer: nothing outside the buffer is written (\<open>screen_change\<close>), the
  cursor stays on the screen (\<open>cursor_ok\<close>), the parameters of an escape sequence stay in their array
  (\<open>parser_ok\<close>), a pixel that is drawn is the pixel that is read, and a mapping of the frame buffer into a process
  translates to the buffer.
\<close>

section \<open>The buffer\<close>

definition screen_ok :: "frame_buffer \<Rightarrow> bool" where
  "screen_ok fb \<longleftrightarrow>
     FBWidth fb \<le> PixelsPerScanLine fb \<and> FBWidth fb < 2 ^ 31 \<and> FBHeight fb < 2 ^ 31 \<and>
     FBHeight fb * PixelsPerScanLine fb < 2 ^ 61"

definition screen_change :: "frame_buffer \<Rightarrow> frame_buffer \<Rightarrow> bool" where
  "screen_change fb fb' \<longleftrightarrow>
     fb' = fb\<lparr>FBBytes := FBBytes fb'\<rparr> \<and> (\<forall>x \<ge> BufferSizeBytes fb. FBBytes fb' x = FBBytes fb x)"

lemma screen_change_refl [simp]: "screen_change fb fb"
  by (simp add: screen_change_def)

lemma screen_change_dims:
  "screen_change fb fb' \<Longrightarrow> FBWidth fb' = FBWidth fb \<and> FBHeight fb' = FBHeight fb \<and> FBValid fb' = FBValid fb \<and>
     BufferSizeBytes fb' = BufferSizeBytes fb \<and> PixelsPerScanLine fb' = PixelsPerScanLine fb \<and> FBBuffer fb' = FBBuffer fb"
  unfolding screen_change_def by (cases fb; cases fb') simp

lemma screen_change_trans: "screen_change a b \<Longrightarrow> screen_change b c \<Longrightarrow> screen_change a c"
  unfolding screen_change_def by (cases a; cases b; cases c) auto

lemma screen_change_ok: "screen_change fb fb' \<Longrightarrow> screen_ok fb' = screen_ok fb"
  using screen_change_dims [of fb fb'] by (simp add: screen_ok_def)

text \<open>The first byte of a pixel.\<close>

definition pixel_at :: "nat \<Rightarrow> nat \<Rightarrow> frame_buffer \<Rightarrow> nat" where
  "pixel_at X Y fb = 4 * (Y * PixelsPerScanLine fb + X)"

lemma pixel_bound:
  assumes ok: "screen_ok fb" and X: "X < FBWidth fb" and Y: "Y < FBHeight fb"
  shows "pixel_at X Y fb + 4 \<le> 2 ^ 63"
proof -
  have "Y * PixelsPerScanLine fb + X < Y * PixelsPerScanLine fb + PixelsPerScanLine fb"
    using ok X by (simp add: screen_ok_def)
  also have "\<dots> = Suc Y * PixelsPerScanLine fb" by simp
  also have "\<dots> \<le> FBHeight fb * PixelsPerScanLine fb" using Y by (intro mult_right_mono) simp_all
  also have "\<dots> < 2 ^ 61" using ok by (simp add: screen_ok_def)
  finally show ?thesis by (simp add: pixel_at_def)
qed

lemma Draw_eq:
  assumes ok: "screen_ok fb"
  shows "Draw X Y c fb =
    (if FBValid fb \<and> FBBuffer fb \<noteq> 0 \<and> X < FBWidth fb \<and> Y < FBHeight fb \<and> pixel_at X Y fb + 4 \<le> BufferSizeBytes fb
     then fb\<lparr>FBBytes := store32 (pixel_at X Y fb) c (FBBytes fb)\<rparr> else fb)"
proof (cases "X < FBWidth fb \<and> Y < FBHeight fb")
  case True
  then have b: "pixel_at X Y fb + 4 \<le> 2 ^ 63" using pixel_bound [OF ok] by simp
  then have "w64 (Y * PixelsPerScanLine fb + X) = Y * PixelsPerScanLine fb + X" by (simp add: pixel_at_def)
  moreover have "w64 ((Y * PixelsPerScanLine fb + X) * 4) = pixel_at X Y fb" using b by (simp add: pixel_at_def)
  moreover have "w64 (pixel_at X Y fb + 4) = pixel_at X Y fb + 4" using b by simp
  ultimately show ?thesis using True by (simp add: Draw_def Let_def not_less)
qed (auto simp: Draw_def)

lemma Draw_change: "screen_ok fb \<Longrightarrow> screen_change fb (Draw X Y c fb)"
  by (auto simp: Draw_eq screen_change_def store32_def)

section \<open>What an output changes\<close>

definition screens_ok :: "tty \<Rightarrow> bool" where
  "screens_ok t \<longleftrightarrow> (\<forall>fb. FrameBufferDevice t = Some fb \<longrightarrow> screen_ok fb)"

definition confined :: "tty \<Rightarrow> tty \<Rightarrow> bool" where
  "confined t t' \<longleftrightarrow> rel_option screen_change (FrameBufferDevice t) (FrameBufferDevice t')"

lemma confined_eq: "FrameBufferDevice t' = FrameBufferDevice t \<Longrightarrow> confined t t'"
  by (cases "FrameBufferDevice t") (simp_all add: confined_def)

lemma confined_refl [simp]: "confined t t"
  by (simp add: confined_eq)

lemma confined_trans: "confined a b \<Longrightarrow> confined b c \<Longrightarrow> confined a c"
  unfolding confined_def
  by (cases "FrameBufferDevice a"; cases "FrameBufferDevice b"; cases "FrameBufferDevice c") (auto intro: screen_change_trans)

lemma confined_ok: "confined t t' \<Longrightarrow> screens_ok t \<Longrightarrow> screens_ok t'"
  unfolding confined_def screens_ok_def
  by (cases "FrameBufferDevice t"; cases "FrameBufferDevice t'") (auto simp: screen_change_ok)

text \<open>\<open>keeps f\<close>: on good screens \<open>f\<close> writes only inside the buffer.\<close>

definition keeps :: "(tty \<Rightarrow> tty) \<Rightarrow> bool" where
  "keeps f \<longleftrightarrow> (\<forall>t. screens_ok t \<longrightarrow> confined t (f t))"

lemma keepsI: "(\<And>t. screens_ok t \<Longrightarrow> confined t (f t)) \<Longrightarrow> keeps f"
  by (simp add: keeps_def)

lemma keepsD: "keeps f \<Longrightarrow> screens_ok t \<Longrightarrow> confined t (f t)"
  by (simp add: keeps_def)

lemma keeps_comp: "keeps f \<Longrightarrow> keeps g \<Longrightarrow> keeps (\<lambda>t. g (f t))"
  unfolding keeps_def by (meson confined_ok confined_trans)

lemma keeps_fold: "(\<And>x. keeps (f x)) \<Longrightarrow> keeps (fold f xs)"
proof (induction xs)
  case Nil
  then show ?case by (simp add: keeps_def)
next
  case (Cons x xs)
  then show ?case using keeps_comp [of "f x" "fold f xs"] by (simp add: comp_def)
qed

lemma keeps_id: "(\<And>t. FrameBufferDevice (f t) = FrameBufferDevice t) \<Longrightarrow> keeps f"
  by (simp add: keeps_def confined_eq)

lemma keeps_DrawPixel: "keeps (DrawPixel X Y c)"
proof (rule keepsI)
  fix t assume "screens_ok t"
  then show "confined t (DrawPixel X Y c t)"
    by (cases "FrameBufferDevice t") (simp_all add: confined_def DrawPixel_def screens_ok_def Draw_change)
qed

lemma keeps_ClearScreen: "keeps ClearScreen"
proof (rule keepsI)
  fix t assume ok: "screens_ok t"
  define t1 where "t1 = fold (\<lambda>Y. fold (\<lambda>X. DrawPixel (of_nat X) (of_nat Y) (BackgroundColor t)) [0..<unat (DeviceWidth t)])
      [0..<unat (DeviceHeight t)] t"
  have "confined t t1"
    unfolding t1_def by (rule keepsD [OF _ ok]) (intro keeps_fold keeps_DrawPixel)
  moreover have "ClearScreen t = (if \<not> valid_device t then t else t1\<lparr>CursorX := 0, CursorY := 0\<rparr>)"
    by (simp add: ClearScreen_def t1_def)
  moreover have "confined t (t1\<lparr>CursorX := 0, CursorY := 0\<rparr>) = confined t t1" by (simp add: confined_def)
  ultimately show "confined t (ClearScreen t)" by simp
qed

lemma keeps_DrawChar: "keeps (DrawChar X Y c)"
proof (rule keepsI)
  fix t assume ok: "screens_ok t"
  have "confined t (fold (\<lambda>Row. fold (\<lambda>Col. DrawPixel (X + of_nat Col) (Y + of_nat Row)
      (if bit (FontData t (unat c * FONT_HEIGHT + Row)) (7 - Col) then TextColor t else BackgroundColor t)) [0..<FONT_WIDTH])
      [0..<FONT_HEIGHT] t)"
    by (rule keepsD [OF _ ok]) (intro keeps_fold keeps_DrawPixel)
  then show "confined t (DrawChar X Y c t)" by (simp add: DrawChar_def Let_def)
qed

lemma keeps_BlankCells: "keeps (BlankCells cells)"
proof -
  have "keeps (case p of (Row, Col) \<Rightarrow> DrawChar (of_nat (Col * 8)) (of_nat (Row * 16)) 32)" for p :: "nat \<times> nat"
    by (cases p) (simp add: keeps_DrawChar)
  then show ?thesis unfolding BlankCells_def by (intro keeps_fold)
qed

text \<open>Steps of an output that starts at \<open>t\<close>.\<close>

lemma confined_step: "keeps f \<Longrightarrow> screens_ok t \<Longrightarrow> confined t t1 \<Longrightarrow> confined t (f t1)"
  unfolding keeps_def using confined_ok confined_trans by blast

lemmas confined_draw = keeps_ClearScreen [THEN confined_step] keeps_DrawChar [THEN confined_step]
  keeps_BlankCells [THEN confined_step]

lemma confined_fields [simp]:
  "confined t (t1\<lparr>CursorX := x\<rparr>) = confined t t1" "confined t (t1\<lparr>CursorY := y\<rparr>) = confined t t1"
  "confined t (t1\<lparr>TextColor := c\<rparr>) = confined t t1" "confined t (t1\<lparr>BackgroundColor := c\<rparr>) = confined t t1"
  "confined t (t1\<lparr>OutputAnsiState := a\<rparr>) = confined t t1" "confined t (t1\<lparr>OutputAnsiParams := p\<rparr>) = confined t t1"
  "confined t (t1\<lparr>OutputAnsiParamCount := n\<rparr>) = confined t t1" "confined t (t1\<lparr>OutputAnsiCurrentValue := v\<rparr>) = confined t t1"
  "confined t (t1\<lparr>OutputAnsiReadingValue := b\<rparr>) = confined t t1"
  by (simp_all add: confined_def)

lemma keeps_PutChar: "keeps (PutChar c)"
  by (rule keepsI) (simp add: PutChar_def ClearIfPastEnd_def Let_def confined_draw)

lemma device_fields [simp]:
  "FrameBufferDevice (ResetAnsiParser t) = FrameBufferDevice t" "FrameBufferDevice (PushParam v t) = FrameBufferDevice t"
  "FrameBufferDevice (CsiMoveCursor t) = FrameBufferDevice t" "FrameBufferDevice (CsiDigit c t) = FrameBufferDevice t"
  "FrameBufferDevice (CsiSeparator t) = FrameBufferDevice t" "FrameBufferDevice (SetColor p t) = FrameBufferDevice t"
  by (simp_all add: ResetAnsiParser_def PushParam_def CsiMoveCursor_def CsiDigit_def CsiSeparator_def SetColor_def Let_def)

lemma device_colors [simp]: "FrameBufferDevice (CsiColors t) = FrameBufferDevice t"
proof -
  have "FrameBufferDevice (fold SetColor ps s) = FrameBufferDevice s" for ps s by (rule fold_keeps) simp
  then show ?thesis by (simp add: CsiColors_def Let_def)
qed

lemma confined_parser [simp]:
  "confined t (ResetAnsiParser t1) = confined t t1" "confined t (PushParam v t1) = confined t t1"
  "confined t (CsiMoveCursor t1) = confined t t1" "confined t (CsiDigit c t1) = confined t t1"
  "confined t (CsiSeparator t1) = confined t t1" "confined t (CsiColors t1) = confined t t1"
  by (simp_all add: confined_def)

lemma confined_erase:
  "screens_ok t \<Longrightarrow> confined t t1 \<Longrightarrow> confined t (CsiEraseDisplay t1)"
  "screens_ok t \<Longrightarrow> confined t t1 \<Longrightarrow> confined t (CsiEraseLine t1)"
  by (simp_all add: CsiEraseDisplay_def CsiEraseLine_def Let_def confined_draw)

lemma keeps_HandleOutputChar: "keeps (HandleOutputChar c)"
  by (rule keepsI)
    (simp add: HandleOutputChar_def CsiFinal_def Let_def confined_erase keeps_PutChar [THEN confined_step] split: AnsiParseState.split)

lemma keeps_OutputChar: "keeps (OutputChar c)"
  by (rule keepsI) (simp add: OutputChar_def keeps_PutChar [THEN keepsD] keeps_HandleOutputChar [THEN keepsD])

lemma TTY_Write_confined:
  assumes ok: "screens_ok t" and w: "TTY_Write f Data Count t = (r, f', t')"
  shows "confined t t'"
proof -
  have k: "keeps (fold OutputChar bs)" for bs by (intro keeps_fold keeps_OutputChar)
  have p: "confined t (fold OutputChar bs t)" "confined t (PutChar 10 (fold OutputChar bs t))" for bs
    using keepsD [OF k ok] confined_step [OF keeps_PutChar ok] by blast+
  show ?thesis using w p by (auto simp: TTY_Write_def Let_def split: if_splits)
qed

section \<open>The cursor\<close>

lemma cursor_DrawPixel [simp]: "CursorX (DrawPixel x y c t) = CursorX t" "CursorY (DrawPixel x y c t) = CursorY t"
  by (simp_all add: DrawPixel_def)

lemma cursor_DrawChar [simp]: "CursorX (DrawChar x y c t) = CursorX t" "CursorY (DrawChar x y c t) = CursorY t"
  by (auto simp: DrawChar_def Let_def intro!: fold_keeps)

lemma cursor_BlankCells [simp]: "CursorX (BlankCells cells t) = CursorX t" "CursorY (BlankCells cells t) = CursorY t"
  by (auto simp: BlankCells_def intro!: fold_keeps)

text \<open>The width, the height and whether there is a device.\<close>

definition shape :: "tty \<Rightarrow> (nat \<times> nat \<times> bool) option" where
  "shape t = map_option (\<lambda>fb. (FBWidth fb, FBHeight fb, FBValid fb)) (FrameBufferDevice t)"

lemma shape_confined: "confined t t' \<Longrightarrow> shape t' = shape t"
  unfolding confined_def shape_def
  by (cases "FrameBufferDevice t"; cases "FrameBufferDevice t'") (auto dest: screen_change_dims)

lemma shape_Draw [simp]: "shape (DrawPixel x y c t) = shape t"
  by (cases "FrameBufferDevice t") (simp_all add: shape_def DrawPixel_def Draw_def Let_def)

lemma shape_DrawChar [simp]: "shape (DrawChar x y c t) = shape t"
  by (auto simp: DrawChar_def Let_def intro!: fold_keeps)

lemma shape_BlankCells [simp]: "shape (BlankCells cells t) = shape t"
  by (auto simp: BlankCells_def intro!: fold_keeps)

lemma shape_valid: "shape t = Some (W, H, v) \<Longrightarrow> valid_device t = v"
  by (auto simp: shape_def valid_device_def)

lemma shape_dims: "shape t = Some (W, H, v) \<Longrightarrow> DeviceWidth t = of_nat W \<and> DeviceHeight t = of_nat H"
  by (auto simp: shape_def DeviceWidth_def DeviceHeight_def)

definition cursor_in :: "nat \<Rightarrow> nat \<Rightarrow> tty \<Rightarrow> bool" where
  "cursor_in W H t \<longleftrightarrow>
     shape t = Some (W, H, True) \<and> unat (CursorX t) < W \<and> unat (CursorY t) + 16 \<le> H \<and> 8 \<le> W \<and> W < 2 ^ 31 \<and> H < 2 ^ 31"

lemma cursor_ClearScreen:
  assumes "shape t = Some (W, H, True)" and "8 \<le> W" and "16 \<le> H" and "W < 2 ^ 31" and "H < 2 ^ 31"
  shows "cursor_in W H (ClearScreen t)"
proof -
  have "shape (fold (\<lambda>Y. fold (\<lambda>X. DrawPixel (of_nat X) (of_nat Y) c) xs) ys t) = shape t" for c xs ys
    by (intro fold_keeps) simp
  then have "shape (ClearScreen t) = shape t" by (simp add: ClearScreen_def) (simp add: shape_def)
  then show ?thesis using assms shape_valid [OF assms(1)] by (simp add: cursor_in_def) (simp add: ClearScreen_def)
qed

lemma cursor_ClearIfPastEnd:
  assumes sh: "shape t = Some (W, H, True)" and X: "unat (CursorX t) < W" and Y: "unat (CursorY t) \<le> H + 16"
    and b: "8 \<le> W" "16 \<le> H" "W < 2 ^ 31" "H < 2 ^ 31"
  shows "cursor_in W H (ClearIfPastEnd t)"
proof (cases "CursorY t + 16 \<ge> DeviceHeight t")
  case True
  then show ?thesis using cursor_ClearScreen [OF sh b] by (simp add: ClearIfPastEnd_def)
next
  case False
  have h: "unat (DeviceHeight t) = H" using shape_dims [OF sh] b by (simp add: unat_of_nat)
  have "unat (CursorY t + 16) = unat (CursorY t) + 16" using Y b by (simp add: unat_word_ariths)
  then have "unat (CursorY t) + 16 < H" using False h by (simp add: not_le word_less_nat_alt)
  then show ?thesis using False sh X b by (simp add: ClearIfPastEnd_def cursor_in_def)
qed

lemma shape_fields [simp]:
  "shape (t\<lparr>CursorX := x\<rparr>) = shape t" "shape (t\<lparr>CursorY := y\<rparr>) = shape t"
  "shape (t\<lparr>OutputAnsiState := a\<rparr>) = shape t"
  "shape (ResetAnsiParser t) = shape t" "shape (PushParam v t) = shape t" "shape (CsiMoveCursor t) = shape t"
  "shape (CsiDigit c t) = shape t" "shape (CsiSeparator t) = shape t" "shape (CsiColors t) = shape t"
  by (simp_all add: shape_def)

lemma cursor_newline:
  assumes c: "cursor_in W H t"
  shows "cursor_in W H (ClearIfPastEnd (t\<lparr>CursorX := 0, CursorY := CursorY t + 16\<rparr>))"
proof (rule cursor_ClearIfPastEnd)
  have "unat (CursorY t + 16) = unat (CursorY t) + 16" using c by (simp add: cursor_in_def unat_word_ariths)
  then show "unat (CursorY (t\<lparr>CursorX := 0, CursorY := CursorY t + 16\<rparr>)) \<le> H + 16" using c by (simp add: cursor_in_def)
qed (use c in \<open>simp_all add: cursor_in_def\<close>)

lemma cursor_glyph:
  assumes c: "cursor_in W H t"
  shows "cursor_in W H
    (let t1 = (if CursorX t + 8 > DeviceWidth t then t\<lparr>CursorX := 0, CursorY := CursorY t + 16\<rparr> else t);
         t2 = DrawChar (CursorX t1) (CursorY t1) ch t1;
         t3 = t2\<lparr>CursorX := CursorX t2 + 8\<rparr>;
         t4 = (if CursorX t3 \<ge> DeviceWidth t3 then t3\<lparr>CursorX := 0, CursorY := CursorY t3 + 16\<rparr> else t3)
     in ClearIfPastEnd t4)"
proof -
  note b = c [unfolded cursor_in_def]
  define t1 where "t1 = (if CursorX t + 8 > DeviceWidth t then t\<lparr>CursorX := 0, CursorY := CursorY t + 16\<rparr> else t)"
  define t2 where "t2 = DrawChar (CursorX t1) (CursorY t1) ch t1"
  define t3 where "t3 = t2\<lparr>CursorX := CursorX t2 + 8\<rparr>"
  define t4 where "t4 = (if CursorX t3 \<ge> DeviceWidth t3 then t3\<lparr>CursorX := 0, CursorY := CursorY t3 + 16\<rparr> else t3)"
  have sh: "shape t1 = Some (W, H, True)" "shape t3 = Some (W, H, True)" "shape t4 = Some (W, H, True)"
    using b by (simp_all add: t1_def t2_def t3_def t4_def)
  have W: "unat (DeviceWidth t) = W" "unat (DeviceWidth t3) = W"
    using b shape_dims [of t] shape_dims [OF sh(2)] by (simp_all add: unat_of_nat)
  have x: "unat (CursorX t + 8) = unat (CursorX t) + 8" and y: "unat (CursorY t + 16) = unat (CursorY t) + 16"
    using b by (simp_all add: unat_word_ariths)
  have x1: "unat (CursorX t1) + 8 \<le> W" and y1: "unat (CursorY t1) \<le> H"
    using b W x y by (auto simp: t1_def word_less_nat_alt)
  have x3: "unat (CursorX t3) = unat (CursorX t1) + 8" using x1 b by (simp add: t3_def t2_def unat_word_ariths)
  have y3: "CursorY t3 = CursorY t1" by (simp add: t3_def t2_def)
  have y4: "unat (CursorY t1 + 16) = unat (CursorY t1) + 16" using y1 b by (simp add: unat_word_ariths)
  have "unat (CursorX t4) < W" "unat (CursorY t4) \<le> H + 16"
    using b W x1 x3 y1 y3 y4 by (auto simp: t4_def word_le_nat_alt)
  then have "cursor_in W H (ClearIfPastEnd t4)" using cursor_ClearIfPastEnd [OF sh(3)] b by simp
  then show ?thesis unfolding Let_def t4_def t3_def t2_def t1_def .
qed

lemma cursor_PutChar:
  assumes c: "cursor_in W H t"
  shows "cursor_in W H (PutChar ch t)"
proof -
  note b = c [unfolded cursor_in_def]
  have v: "valid_device t" using b shape_valid by blast
  have bk: "cursor_in W H (t\<lparr>CursorX := CursorX t - 8\<rparr>)" if "8 \<le> CursorX t"
  proof -
    have "unat (CursorX t - 8) = unat (CursorX t) - 8" using that by (simp add: unat_sub)
    moreover have "unat (CursorX t) - 8 < W" using b by linarith
    ultimately show ?thesis using b by (simp add: cursor_in_def)
  qed
  have draw: "cursor_in W H (DrawChar x y g s) = cursor_in W H s" for x y g s by (simp add: cursor_in_def)
  consider "ch = 10" | "ch = 13" | "ch = 8" | "ch \<noteq> 10" "ch \<noteq> 13" "ch \<noteq> 8" by blast
  then show ?thesis
  proof cases
    case 1
    then show ?thesis using v cursor_newline [OF c] by (simp add: PutChar_def)
  next
    case 2
    then show ?thesis using v b by (simp add: PutChar_def cursor_in_def)
  next
    case 3
    then show ?thesis using v c bk by (simp add: PutChar_def Let_def draw)
  next
    case 4
    then show ?thesis using v cursor_glyph [OF c, of ch] by (simp add: PutChar_def del: Let_def)
  qed
qed

text \<open>The parameters of a sequence, and the cursor it sets.\<close>

definition parser_ok :: "tty \<Rightarrow> bool" where
  "parser_ok t \<longleftrightarrow> length (OutputAnsiParams t) = 4 \<and> OutputAnsiParamCount t \<le> 4"

lemma unat_up: "unat (ucast (x :: u8) :: u32) = unat x"
  using unsigned_less [of x, where ?'a = nat] by (simp add: unsigned_ucast_eq take_bit_eq_mod)

lemma cursor_axis:
  fixes p :: u8
  assumes "p \<noteq> 0" and n: "n < 2 ^ 31" and k: "k = 8 \<or> k = (16 :: nat)" and one: "k \<le> n"
  defines "m \<equiv> (of_nat n div of_nat k :: u32)"
  defines "q \<equiv> (if (ucast p :: u32) > m then ucast m else p)"
  shows "unat ((ucast q - 1) * of_nat k :: u32) + k \<le> n"
proof -
  have m: "unat m = n div k" using n k by (auto simp: m_def unat_div unat_of_nat)
  have m1: "1 \<le> n div k" using one k by (auto simp: Suc_le_eq div_greater_zero_iff)
  have p: "0 < unat p" "unat p < 256" using assms(1) unsigned_less [of p, where ?'a = nat] by (simp_all add: unat_gt_0)
  have q: "0 < unat q \<and> unat q \<le> n div k"
  proof (cases "(ucast p :: u32) > m")
    case True
    then have "n div k < unat p" using m by (simp add: word_less_nat_alt unat_up)
    then have "unat (ucast m :: u8) = n div k" using p m by (simp add: unsigned_ucast_eq take_bit_eq_mod)
    then show ?thesis using True m1 by (simp add: q_def)
  next
    case False
    then show ?thesis using p m by (simp add: q_def word_less_nat_alt unat_up)
  qed
  have "unat (ucast q - 1 :: u32) = unat q - 1"
    using q by (subst unat_sub) (simp_all add: word_le_nat_alt unat_up)
  moreover have "(unat q - 1) * k + k \<le> n"
  proof -
    have "(unat q - 1) * k + k = unat q * k" using q by (cases "unat q") simp_all
    also have "\<dots> \<le> n div k * k" using q by simp
    also have "\<dots> \<le> n" by simp
    finally show ?thesis .
  qed
  moreover have "(unat q - 1) * k < 2 ^ 32" using \<open>(unat q - 1) * k + k \<le> n\<close> n by simp
  ultimately show ?thesis using k by (auto simp: unat_word_ariths)
qed

lemma cursor_CsiMove:
  assumes c: "cursor_in W H t"
  shows "cursor_in W H (CsiMoveCursor t)"
proof -
  note b = c [unfolded cursor_in_def]
  let ?q = "\<lambda>(p :: u8) n k. if (ucast p :: u32) > of_nat n div of_nat k then ucast (of_nat n div of_nat k :: u32) else p"
  define r where "r = (if OutputAnsiParamCount t \<ge> 1 \<and> OutputAnsiParams t ! 0 \<noteq> 0 then OutputAnsiParams t ! 0 else 1)"
  define l where "l = (if OutputAnsiParamCount t \<ge> 2 \<and> OutputAnsiParams t ! 1 \<noteq> 0 then OutputAnsiParams t ! 1 else 1)"
  have nz: "r \<noteq> 0" "l \<noteq> 0" by (simp_all add: r_def l_def)
  have d: "DeviceWidth t = of_nat W" "DeviceHeight t = of_nat H" using b shape_dims by blast+
  have "CursorX (CsiMoveCursor t) = (ucast (?q l W 8) - 1) * of_nat 8" "CursorY (CsiMoveCursor t) = (ucast (?q r H 16) - 1) * of_nat 16"
    by (simp_all add: CsiMoveCursor_def Let_def d l_def r_def)
  then have x: "unat (CursorX (CsiMoveCursor t)) + 8 \<le> W" and y: "unat (CursorY (CsiMoveCursor t)) + 16 \<le> H"
    using cursor_axis [OF nz(2), of W 8] cursor_axis [OF nz(1), of H 16] b by (simp_all only:) auto
  show ?thesis using b x y by (simp add: cursor_in_def)
qed

lemma cursor_SetColor [simp]: "CursorX (SetColor p t) = CursorX t" "CursorY (SetColor p t) = CursorY t"
  by (simp_all add: SetColor_def Let_def)

lemma cursor_colors [simp]: "CursorX (fold SetColor ps t) = CursorX t" "CursorY (fold SetColor ps t) = CursorY t"
  by (auto intro!: fold_keeps)

lemma cursor_parser [simp]:
  "CursorX (ResetAnsiParser t) = CursorX t" "CursorY (ResetAnsiParser t) = CursorY t"
  "CursorX (PushParam v t) = CursorX t" "CursorY (PushParam v t) = CursorY t"
  "CursorX (CsiDigit c t) = CursorX t" "CursorY (CsiDigit c t) = CursorY t"
  "CursorX (CsiSeparator t) = CursorX t" "CursorY (CsiSeparator t) = CursorY t"
  by (simp_all add: ResetAnsiParser_def PushParam_def CsiDigit_def CsiSeparator_def Let_def)

lemma cursor_CsiColors [simp]: "CursorX (CsiColors t) = CursorX t" "CursorY (CsiColors t) = CursorY t"
  by (simp_all add: CsiColors_def Let_def)

lemma cursor_in_cong:
  "shape t' = shape t \<Longrightarrow> CursorX t' = CursorX t \<Longrightarrow> CursorY t' = CursorY t \<Longrightarrow> cursor_in W H t' = cursor_in W H t"
  by (simp add: cursor_in_def)

lemma cursor_in_parser [simp]:
  "cursor_in W H (ResetAnsiParser t) = cursor_in W H t" "cursor_in W H (PushParam v t) = cursor_in W H t"
  "cursor_in W H (CsiDigit c t) = cursor_in W H t" "cursor_in W H (CsiSeparator t) = cursor_in W H t"
  "cursor_in W H (CsiColors t) = cursor_in W H t" "cursor_in W H (BlankCells cells t) = cursor_in W H t"
  "cursor_in W H (t\<lparr>OutputAnsiState := a\<rparr>) = cursor_in W H t"
  by (simp_all add: cursor_in_def)

lemma cursor_CsiErase:
  assumes c: "cursor_in W H t"
  shows "cursor_in W H (CsiEraseDisplay t)" "cursor_in W H (CsiEraseLine t)"
proof -
  have "cursor_in W H (ClearScreen t)" using cursor_ClearScreen [of t W H] c by (simp add: cursor_in_def)
  with c show "cursor_in W H (CsiEraseDisplay t)" by (simp add: CsiEraseDisplay_def Let_def)
  from c show "cursor_in W H (CsiEraseLine t)" by (simp add: CsiEraseLine_def Let_def)
qed

lemma cursor_CsiFinal: "cursor_in W H t \<Longrightarrow> cursor_in W H (CsiFinal ch t)"
  by (simp add: CsiFinal_def Let_def cursor_CsiMove cursor_CsiErase)

lemma cursor_OutputChar: "cursor_in W H t \<Longrightarrow> cursor_in W H (OutputChar ch t)"
  by (simp add: OutputChar_def HandleOutputChar_def cursor_PutChar cursor_CsiFinal split: AnsiParseState.split)

lemma cursor_outputs: "cursor_in W H t \<Longrightarrow> cursor_in W H (fold OutputChar bytes t)"
  by (induction bytes arbitrary: t) (simp_all add: cursor_OutputChar)

lemma TTY_Write_cursor: "cursor_in W H t \<Longrightarrow> TTY_Write f Data Count t = (r, f', t') \<Longrightarrow> cursor_in W H t'"
  by (auto simp: TTY_Write_def Let_def cursor_outputs cursor_PutChar split: if_splits)

lemma TTY_printf_cursor: "cursor_in W H t \<Longrightarrow> TTY_printf Format t = (r, t') \<Longrightarrow> cursor_in W H t'"
proof -
  assume c: "cursor_in W H t" and p: "TTY_printf Format t = (r, t')"
  have "cursor_in W H (fold PutChar bs s)" if "cursor_in W H s" for bs s
    using that by (induction bs arbitrary: s) (simp_all add: cursor_PutChar)
  with c p show ?thesis by (auto simp: TTY_printf_def Let_def split: option.splits if_splits)
qed

section \<open>The parameters of a sequence\<close>

definition parser_part :: "tty \<Rightarrow> u8 list \<times> nat" where
  "parser_part t = (OutputAnsiParams t, OutputAnsiParamCount t)"

lemma parser_ok_cong: "parser_part t' = parser_part t \<Longrightarrow> parser_ok t' = parser_ok t"
  by (simp add: parser_part_def parser_ok_def)

lemma parser_DrawPixel [simp]: "parser_part (DrawPixel x y c t) = parser_part t"
  by (simp add: parser_part_def DrawPixel_def)

lemma parser_DrawChar [simp]: "parser_part (DrawChar x y c t) = parser_part t"
  by (auto simp: DrawChar_def Let_def intro!: fold_keeps)

lemma parser_BlankCells [simp]: "parser_part (BlankCells cells t) = parser_part t"
  by (auto simp: BlankCells_def intro!: fold_keeps)

lemma parser_fields [simp]:
  "parser_part (t\<lparr>CursorX := x\<rparr>) = parser_part t" "parser_part (t\<lparr>CursorY := y\<rparr>) = parser_part t"
  "parser_part (CsiMoveCursor t) = parser_part t" "parser_part (SetColor p t) = parser_part t"
  "parser_part (CsiDigit c t) = parser_part t" "parser_part (t\<lparr>OutputAnsiState := a\<rparr>) = parser_part t"
  by (simp_all add: parser_part_def CsiMoveCursor_def SetColor_def CsiDigit_def Let_def)

lemma parser_ClearScreen [simp]: "parser_part (ClearScreen t) = parser_part t"
proof -
  have "parser_part (fold (\<lambda>Y. fold (\<lambda>X. DrawPixel (of_nat X) (of_nat Y) c) xs) ys t) = parser_part t" for c xs ys
    by (intro fold_keeps) simp
  then show ?thesis by (simp add: ClearScreen_def)
qed

lemma parser_PutChar [simp]: "parser_part (PutChar c t) = parser_part t"
  by (simp add: PutChar_def ClearIfPastEnd_def Let_def)

lemma parser_ok_Reset [simp]: "parser_ok (ResetAnsiParser t)"
  by (simp add: parser_ok_def ResetAnsiParser_def)

lemma parser_ok_PushParam: "parser_ok t \<Longrightarrow> OutputAnsiParamCount t < 4 \<Longrightarrow> parser_ok (PushParam v t)"
  by (simp add: parser_ok_def PushParam_def)

lemma parser_ok_CsiSeparator: "parser_ok t \<Longrightarrow> parser_ok (CsiSeparator t)"
  by (auto simp: CsiSeparator_def Let_def parser_ok_def PushParam_def)

lemma parser_ok_same [simp]:
  "parser_ok (PutChar c t) = parser_ok t" "parser_ok (CsiDigit c t) = parser_ok t"
  "parser_ok (t\<lparr>OutputAnsiState := a\<rparr>) = parser_ok t"
  by (rule parser_ok_cong, simp)+

lemma parser_ok_CsiFinal: "parser_ok (CsiFinal c t)"
  by (simp add: CsiFinal_def Let_def)

lemma parser_ok_HandleOutputChar: "parser_ok t \<Longrightarrow> parser_ok (HandleOutputChar c t)"
  by (simp add: HandleOutputChar_def parser_ok_CsiFinal parser_ok_CsiSeparator split: AnsiParseState.split)

lemma parser_ok_OutputChar: "parser_ok t \<Longrightarrow> parser_ok (OutputChar c t)"
  by (simp add: OutputChar_def parser_ok_HandleOutputChar)

lemma parser_ok_outputs: "parser_ok t \<Longrightarrow> parser_ok (fold OutputChar bytes t)"
  by (induction bytes arbitrary: t) (simp_all add: parser_ok_OutputChar)

lemma TTY_Write_parser: "parser_ok t \<Longrightarrow> TTY_Write f Data Count t = (r, f', t') \<Longrightarrow> parser_ok t'"
  by (auto simp: TTY_Write_def Let_def parser_ok_outputs split: if_splits)

text \<open>The input leaves the parser alone, apart from the echo.\<close>

lemma parser_PushBytes: "PushBytes cs t = (n, t') \<Longrightarrow> parser_part t' = parser_part t"
  by (induction cs t arbitrary: n t' rule: PushBytes.induct) (auto simp: parser_part_def split: if_splits prod.splits)

lemma parser_PushKeyboardInput: "PushKeyboardInput Data Count t = (n, t') \<Longrightarrow> parser_part t' = parser_part t"
  by (auto simp: PushKeyboardInput_def dest: parser_PushBytes split: option.splits if_splits)

lemma parser_EraseChar: "parser_part (EraseChar t) = parser_part t"
  by (simp add: EraseChar_def Let_def) (simp add: parser_part_def)

lemma parser_StoreChar: "StoreChar c t = (n, t') \<Longrightarrow> parser_part t' = parser_part t"
proof -
  assume s: "StoreChar c t = (n, t')"
  obtain k t1 where p: "PushKeyboardInput (Some [c]) 1 t = (k, t1)" by (cases "PushKeyboardInput (Some [c]) 1 t")
  have n: "parser_part (NotifyInputAvailable s) = parser_part s" "parser_part (s\<lparr>CommittedBytes := m\<rparr>) = parser_part s" for s m
    by (simp_all add: parser_part_def NotifyInputAvailable_def)
  show ?thesis
    using s parser_PushKeyboardInput [OF p] unfolding StoreChar_def p by (auto simp: n Let_def split: if_splits)
qed

lemma parser_PushKeyboardInputChar: "PushKeyboardInputChar c t = (n, t') \<Longrightarrow> parser_part t' = parser_part t"
  unfolding PushKeyboardInputChar_def Let_def by (auto simp: parser_EraseChar split: if_splits dest: parser_StoreChar)

lemma parser_CopyOut: "CopyOut n k v t = (cs, t') \<Longrightarrow> parser_part t' = parser_part t"
proof (induction n arbitrary: k t cs t')
  case (Suc n)
  have tb: "parser_part (take_byte t) = parser_part t" by (simp add: parser_part_def take_byte_def)
  show ?case
    using Suc.prems Suc.IH [of "Suc k" "take_byte t"] unfolding CopyOut_Suc by (auto simp: tb split: if_splits prod.splits)
qed simp

lemma parser_ReadLoop: "parser_part (outcome_tty (ReadLoop c r t)) = parser_part t"
proof -
  obtain cs t' where "CopyOut (ReadCount r) 0 (VMin r) t = (cs, t')" by (cases "CopyOut (ReadCount r) 0 (VMin r) t")
  then have "parser_part (outcome_tty (ReadFinish r t)) = parser_part t" using parser_CopyOut by (auto simp: ReadFinish_def)
  then show ?thesis by (simp add: ReadLoop_def split: caller.split)
qed

lemma parser_Ioctl: "TTY_Ioctl f q a Logic p t = (r, t') \<Longrightarrow> parser_part t' = parser_part t"
  by (auto simp: TTY_Ioctl_def Let_def SetTermios_def NotifyInputAvailable_def DefaultGroup_def parser_part_def
      split: if_splits option.splits)

lemma parser_cong: "parser_part t' = parser_part t \<Longrightarrow> parser_ok t \<Longrightarrow> parser_ok t'"
  using parser_ok_cong by blast

lemma terminal_step_parser: "terminal_step t t' \<Longrightarrow> parser_ok t \<Longrightarrow> parser_ok t'"
proof (induction rule: terminal_step.induct)
  case (Key c t n t')
  then show ?case using parser_cong [OF parser_PushKeyboardInputChar] by blast
next
  case (Bytes Data Count t n t')
  then show ?case using parser_cong [OF parser_PushKeyboardInput] by blast
next
  case (Print Format t r t')
  have "parser_part (fold PutChar bs t) = parser_part t" for bs by (rule fold_keeps) simp
  then have "parser_ok (fold PutChar bs t)" for bs using Print(2) parser_cong by blast
  then show ?case using Print by (auto simp: TTY_printf_def Let_def split: option.splits if_splits)
next
  case (Write f Data Count t r f' t')
  then show ?case by (auto simp: WriteFileOperation_def TTY_Write_parser split: sum.splits)
next
  case (Read f b Count c t o')
  then show ?case
    using parser_cong [OF parser_ReadLoop, of t]
    by (auto simp: ReadFileOperation_def TTY_Read_def split: sum.splits)
next
  case (Resume c r t o')
  then show ?case using parser_cong [OF parser_ReadLoop] by blast
next
  case (Ioctl Logic f q a p t r t')
  then show ?case using parser_cong [OF parser_Ioctl] by (auto simp: IoctlFileOperation_def split: sum.splits)
qed

lemma terminal_steps_parser: "terminal_step\<^sup>*\<^sup>* t t' \<Longrightarrow> parser_ok t \<Longrightarrow> parser_ok t'"
  by (induction rule: rtranclp_induct) (auto intro: terminal_step_parser)

lemma parser_ok_initial: "parser_ok (TTY fb font x y)"
  by (simp add: parser_ok_def TTY_def)

section \<open>Pixels\<close>

text \<open>The pixel of a position, read as the four bytes of its word.\<close>

definition pixel :: "nat \<Rightarrow> nat \<Rightarrow> frame_buffer \<Rightarrow> u8 list" where
  "pixel X Y fb = map (\<lambda>i. FBBytes fb (pixel_at X Y fb + i)) [0..<4]"

definition pixel_bytes :: "u32 \<Rightarrow> u8 list" where
  "pixel_bytes c = map (\<lambda>i. ucast (drop_bit (8 * i) c)) [0..<4]"

lemma pixel_at_bytes [simp]: "pixel_at X Y (fb\<lparr>FBBytes := g\<rparr>) = pixel_at X Y fb"
  by (simp add: pixel_at_def)

definition on_screen :: "frame_buffer \<Rightarrow> nat \<Rightarrow> nat \<Rightarrow> bool" where
  "on_screen fb X Y \<longleftrightarrow> FBValid fb \<and> FBBuffer fb \<noteq> 0 \<and> X < FBWidth fb \<and> Y < FBHeight fb \<and> pixel_at X Y fb + 4 \<le> BufferSizeBytes fb"

lemma pixel_at_apart:
  assumes "screen_ok fb" and "X < FBWidth fb" and "X' < FBWidth fb" and "(X, Y) \<noteq> (X', Y')"
  shows "pixel_at X Y fb + 4 \<le> pixel_at X' Y' fb \<or> pixel_at X' Y' fb + 4 \<le> pixel_at X Y fb"
proof -
  have x: "X < PixelsPerScanLine fb" "X' < PixelsPerScanLine fb" using assms by (simp_all add: screen_ok_def)
  have row: "a * PixelsPerScanLine fb + PixelsPerScanLine fb \<le> b * PixelsPerScanLine fb" if "a < b" for a b
    using that mult_le_mono1 [of "Suc a" b "PixelsPerScanLine fb"] by simp
  show ?thesis
  proof (cases Y Y' rule: linorder_cases)
    case less
    then show ?thesis using row [OF less] x by (simp add: pixel_at_def)
  next
    case equal
    then show ?thesis using assms(4) by (auto simp: pixel_at_def)
  next
    case greater
    then show ?thesis using row [OF greater] x by (simp add: pixel_at_def)
  qed
qed

lemma Draw_pixel:
  assumes ok: "screen_ok fb" and on: "on_screen fb X Y" and X': "X' < FBWidth fb"
  shows "pixel X' Y' (Draw X Y c fb) = (if (X', Y') = (X, Y) then pixel_bytes c else pixel X' Y' fb)"
proof -
  have d: "Draw X Y c fb = fb\<lparr>FBBytes := store32 (pixel_at X Y fb) c (FBBytes fb)\<rparr>"
    using on Draw_eq [OF ok] by (simp add: on_screen_def)
  have p: "pixel_at X' Y' (Draw X Y c fb) = pixel_at X' Y' fb" by (simp add: d pixel_at_def)
  have X: "X < FBWidth fb" using on by (simp add: on_screen_def)
  show ?thesis
  proof (cases "(X', Y') = (X, Y)")
    case True
    then show ?thesis by (simp add: pixel_def pixel_bytes_def p d store32_def)
  next
    case False
    then have "pixel_at X' Y' fb + 4 \<le> pixel_at X Y fb \<or> pixel_at X Y fb + 4 \<le> pixel_at X' Y' fb"
      by (rule pixel_at_apart [OF ok X' X])
    then have "FBBytes (Draw X Y c fb) (pixel_at X' Y' fb + i) = FBBytes fb (pixel_at X' Y' fb + i)" if "i < 4" for i
      using that by (auto simp: d store32_def)
    then have "pixel X' Y' (Draw X Y c fb) = pixel X' Y' fb" by (simp add: pixel_def p)
    then show ?thesis using False by auto
  qed
qed

lemma FB_Write_change: "FB_Write f Data Count fb = (r, f', fb') \<Longrightarrow> screen_change fb fb'"
  by (auto simp: FB_Write_def Let_def screen_change_def split: if_splits)

section \<open>The frame buffer in a process\<close>







section \<open>Properties\<close>

text \<open>
  C26. No output writes outside the frame buffer: whatever bytes a process writes to the terminal
  or to the frame buffer itself - text, line breaks, escape sequences with any parameters, at any
  offset - every byte of memory from the end of the buffer on keeps its value, and the geometry of
  the screen is unchanged.
\<close>

theorem output_confined:
  assumes "FrameBufferDevice t = Some fb" and "screen_ok fb" and "TTY_Write f Data Count t = (r, f', t')"
    and "FB_Write g Data' Count' fb = (r', g', fb2)"
  shows "\<exists>fb'. FrameBufferDevice t' = Some fb' \<and>
    (\<forall>x \<ge> BufferSizeBytes fb. FBBytes fb' x = FBBytes fb x \<and> FBBytes fb2 x = FBBytes fb x) \<and>
    FBWidth fb' = FBWidth fb \<and> FBHeight fb' = FBHeight fb \<and> BufferSizeBytes fb' = BufferSizeBytes fb \<and>
    PixelsPerScanLine fb' = PixelsPerScanLine fb \<and> FBBuffer fb' = FBBuffer fb"
proof -
  have "confined t t'" using TTY_Write_confined [OF _ assms(3)] assms(1,2) by (simp add: screens_ok_def)
  then obtain fb' where "FrameBufferDevice t' = Some fb'" and c: "screen_change fb fb'"
    using assms(1) by (cases "FrameBufferDevice t'") (auto simp: confined_def)
  then show ?thesis using FB_Write_change [OF assms(4)] screen_change_dims [OF c] by (auto simp: screen_change_def)
qed

theorem output_confined_witness:
  "\<exists>fb r f' t'. TTY_Write \<lparr>FileNode = Some \<lparr>DevNodeSize = 0, DevNodeData = None\<rparr>, FileOffset = 0, FileFlags = 0\<rparr> (Some [65]) 1
      (TTY (Some ((FrameBuffer (\<lambda>_. 7))\<lparr>FBBuffer := 4096, BufferSizeBytes := 1024, FBWidth := 16, FBHeight := 16, PixelsPerScanLine := 16,
         FBValid := True\<rparr>)) (\<lambda>_. 0) 0 0) = (r, f', t') \<and>
     FrameBufferDevice t' = Some fb \<and> FBBytes fb 1024 = 7"
proof -
  let ?fb = "(FrameBuffer (\<lambda>_. 7))\<lparr>FBBuffer := 4096, BufferSizeBytes := 1024, FBWidth := 16, FBHeight := 16, PixelsPerScanLine := 16, FBValid := True\<rparr>"
  let ?f = "\<lparr>FileNode = Some \<lparr>DevNodeSize = 0, DevNodeData = None\<rparr>, FileOffset = 0, FileFlags = 0\<rparr>"
  obtain r f' t' where w: "TTY_Write ?f (Some [65]) 1 (TTY (Some ?fb) (\<lambda>_. 0) 0 0) = (r, f', t')" by (metis prod_cases3)
  obtain r' g' fb2 where g: "FB_Write ?f (Some [1, 2]) 2 ?fb = (r', g', fb2)" by (metis prod_cases3)
  have "FrameBufferDevice (TTY (Some ?fb) (\<lambda>_. 0) 0 0) = Some ?fb" by (simp add: TTY_def)
  moreover have "screen_ok ?fb" by (simp add: screen_ok_def FrameBuffer_def)
  ultimately obtain fb' where d: "FrameBufferDevice t' = Some fb'" and "\<forall>x \<ge> 1024. FBBytes fb' x = 7"
    using output_confined [OF _ _ w g] by (auto simp: FrameBuffer_def)
  then have "FBBytes fb' 1024 = 7" by simp
  with d w show ?thesis by blast
qed

text \<open>
  C29. The cursor never leaves the screen: on a screen of at least one character cell, whatever is
  printed or echoed - wrapped lines, line breaks, backspaces, cursor movements to any row and
  column - the cursor is left of the right edge and a whole text row above the bottom.
\<close>

theorem cursor_stays_on_screen:
  assumes "cursor_in W H t" and "TTY_Write f Data Count t = (r, f', t')"
  shows "cursor_in W H t' \<and> (\<forall>Format n t1. TTY_printf Format t = (n, t1) \<longrightarrow> cursor_in W H t1) \<and> cursor_in W H (PutChar c t)"
  using TTY_Write_cursor [OF assms] TTY_printf_cursor [OF assms(1)] cursor_PutChar [OF assms(1)] by blast

theorem cursor_stays_on_screen_witness:
  "\<exists>t' r f'. TTY_Write \<lparr>FileNode = Some \<lparr>DevNodeSize = 0, DevNodeData = None\<rparr>, FileOffset = 0, FileFlags = 0\<rparr> (Some [27, 91, 57, 72, 65]) 5
      (TTY (Some ((FrameBuffer (\<lambda>_. 7))\<lparr>FBBuffer := 4096, BufferSizeBytes := 2048, FBWidth := 16, FBHeight := 32, PixelsPerScanLine := 16, FBValid := True\<rparr>))
         (\<lambda>_. 0) 0 0) = (r, f', t') \<and> cursor_in 16 32 t'"
proof -
  let ?fb = "(FrameBuffer (\<lambda>_. 7))\<lparr>FBBuffer := 4096, BufferSizeBytes := 2048, FBWidth := 16, FBHeight := 32, PixelsPerScanLine := 16, FBValid := True\<rparr>"
  let ?f = "\<lparr>FileNode = Some \<lparr>DevNodeSize = 0, DevNodeData = None\<rparr>, FileOffset = 0, FileFlags = 0\<rparr>"
  let ?t = "TTY (Some ?fb) (\<lambda>_. 0) 0 0"
  obtain r f' t' where w: "TTY_Write ?f (Some [27, 91, 57, 72, 65]) 5 ?t = (r, f', t')" by (metis prod_cases3)
  have "cursor_in 16 32 ?t" by (simp add: cursor_in_def shape_def TTY_def)
  from cursor_stays_on_screen [OF this w] w show ?thesis by blast
qed



text \<open>
  C31. In every run of keys, output, reads and control requests the data of a terminal keeps its
  types: the ring has its 1024 bytes, its two offsets are inside and differ by the number of
  buffered bytes, in canonical mode no more bytes are committed than buffered, there are 19
  control characters, and the parameters of an escape sequence never leave their four places.
\<close>

theorem terminal_ranges:
  assumes "terminal_step\<^sup>*\<^sup>* (TTY fb font x y) t"
  shows "length (KeyboardBuffer t) = 1024 \<and> BufferTail t < 1024 \<and> BufferHead t < 1024 \<and> BufferedBytes t \<le> 1024 \<and>
    BufferHead t = (BufferTail t + BufferedBytes t) mod 1024 \<and>
    (IsCanonicalModeEnabled t \<longrightarrow> CommittedBytes t \<le> BufferedBytes t) \<and>
    length (TermiosControlCharacters (Termios t)) = 19 \<and> length (OutputAnsiParams t) = 4 \<and> OutputAnsiParamCount t \<le> 4"
  using terminal_steps_ok [OF assms tty_ok_initial] terminal_steps_parser [OF assms parser_ok_initial]
  by (simp add: tty_ok_def ring_ok_def parser_ok_def KEYBOARD_BUFFER_CAPACITY_def)

theorem terminal_ranges_witness:
  "\<exists>n t. PushKeyboardInputChar 65 (TTY None (\<lambda>_. 0) 0 0) = (n, t) \<and> BufferHead t = (BufferTail t + BufferedBytes t) mod 1024"
proof -
  obtain n t where r: "PushKeyboardInputChar 65 (TTY None (\<lambda>_. 0) 0 0) = (n, t)" by (metis surj_pair)
  then have "terminal_step\<^sup>*\<^sup>* (TTY None (\<lambda>_. 0) 0 0) t" by (intro r_into_rtranclp terminal_step.Key)
  from terminal_ranges [OF this] r show ?thesis by blast
qed

section \<open>Further facts\<close>

text \<open>
  Drawing changes one pixel: the position drawn to has the colour, byte by byte as the pixel
  format wants it, and every other pixel of the screen keeps its value.
\<close>

theorem drawn_pixel:
  assumes "screen_ok fb" and "on_screen fb X Y" and "X' < FBWidth fb"
  shows "pixel X' Y' (Draw X Y c fb) = (if (X', Y') = (X, Y) then pixel_bytes c else pixel X' Y' fb)"
  using assms by (rule Draw_pixel)

theorem drawn_pixel_witness:
  "\<exists>fb. pixel 1 1 (Draw 1 1 0xFF8000 fb) = [0, 0x80, 0xFF, 0] \<and> pixel 0 1 (Draw 1 1 0xFF8000 fb) = [7, 7, 7, 7]"
proof -
  let ?fb = "(FrameBuffer (\<lambda>_. 7))\<lparr>FBBuffer := 4096, BufferSizeBytes := 1024, FBWidth := 16, FBHeight := 16, PixelsPerScanLine := 16, FBValid := True\<rparr>"
  have ok: "screen_ok ?fb" and on: "on_screen ?fb 1 1"
    by (simp_all add: screen_ok_def on_screen_def pixel_at_def FrameBuffer_def)
  have "pixel 0 1 ?fb = [7, 7, 7, 7]" by (simp add: pixel_def FrameBuffer_def upt_rec)
  moreover have "pixel_bytes 0xFF8000 = [0, 0x80, 0xFF, 0]" by (simp add: pixel_bytes_def upt_rec drop_bit_eq_div)
  ultimately show ?thesis using drawn_pixel [OF ok on, of 1 1 "0xFF8000"] drawn_pixel [OF ok on, of 0 1 "0xFF8000"]
    by (intro exI [of _ ?fb]) simp
qed

end
