(* ===== verification/Event_Devices.thy ===== *)
theory Event_Devices imports Terminal Process_Control begin

unbundle bit_operations_syntax

text \<open>
  \<open>Layers/Resource/EventDeviceManager.cpp\<close>: the table of event devices, their rings of input events, the processes
  that wait for them, and the file operations of a device. A device is named by its place in the table. A read
  that has to wait ends at the call of \<open>SleepProcess\<close> and is continued by \<open>EventReadResume\<close>. A device
  exists only in the table, so the case of an open device without a table, which the outcomes below cover by an error, does not
  arise. The array of waiting
  processes and its counter are a list; the traces are not modelled.
\<close>

section \<open>State\<close>

record input_event =
  EventType :: u16
  EventCode :: u16
  EventValue :: int

datatype EventDeviceKind = EVENT_DEVICE_KIND_GENERIC | EVENT_DEVICE_KIND_KEYBOARD | EVENT_DEVICE_KIND_MOUSE

definition EV_O_NONBLOCK :: u64 where "EV_O_NONBLOCK = 0x800"
definition MAX_WAITING_PROCESS_IDS :: nat where "MAX_WAITING_PROCESS_IDS = 64"
definition MAX_EVENT_DEVICE_PATH :: nat where "MAX_EVENT_DEVICE_PATH = 64"
definition MAX_PENDING_EVENTS :: nat where "MAX_PENDING_EVENTS = 1024"
definition MAX_EVENT_DEVICES :: nat where "MAX_EVENT_DEVICES = 32"

record event_device =
  OriginalDevice :: ptr
  DevicePath :: string
  WaitingProcessIds :: "u8 list"
  PendingEvents :: "input_event list"
  PendingEventHead :: nat
  PendingEventTail :: nat
  PendingEventCount :: nat
  HasInterruptHandler :: bool
  DeviceKind :: EventDeviceKind
  DeviceInUse :: bool
  Grabbed :: bool
  LastWokenProcessId :: u8
  OverflowedSinceLastSync :: bool

record event_manager =
  EventDevices :: "event_device list"
  EventDeviceCount :: nat

text \<open>The devices with the terminal and the processes, which the drivers reach through the dispatcher.\<close>

record input_state =
  DevicesOf :: "event_manager option"
  TerminalState :: tty
  LogicState :: "logic option"

definition null_event :: input_event where
  "null_event = \<lparr>EventType = 0, EventCode = 0, EventValue = 0\<rparr>"

definition empty_device :: event_device where
  "empty_device = \<lparr>OriginalDevice = None, DevicePath = [], WaitingProcessIds = [], PendingEvents = replicate MAX_PENDING_EVENTS null_event,
     PendingEventHead = 0, PendingEventTail = 0, PendingEventCount = 0, HasInterruptHandler = False,
     DeviceKind = EVENT_DEVICE_KIND_GENERIC, DeviceInUse = False, Grabbed = False, LastWokenProcessId = 0,
     OverflowedSinceLastSync = False\<rparr>"

definition EventDeviceManager :: event_manager where
  "EventDeviceManager = \<lparr>EventDevices = replicate MAX_EVENT_DEVICES empty_device, EventDeviceCount = 0\<rparr>"

definition EventReset :: "event_manager \<Rightarrow> event_manager" where
  "EventReset m = \<lparr>EventDevices = replicate MAX_EVENT_DEVICES empty_device, EventDeviceCount = 0\<rparr>"

section \<open>The table\<close>

text \<open>The first place from \<open>Index\<close> on whose device has a property.\<close>

fun find_device :: "(event_device \<Rightarrow> bool) \<Rightarrow> event_device list \<Rightarrow> nat \<Rightarrow> nat option" where
  "find_device P [] Index = None"
| "find_device P (d # ds) Index = (if P d then Some Index else find_device P ds (Suc Index))"

definition FindEventDeviceIndexByPath :: "event_manager \<Rightarrow> string option \<Rightarrow> nat option" where
  "FindEventDeviceIndexByPath m Path =
     (case Path of
        None \<Rightarrow> None
      | Some p \<Rightarrow> if p = [] then None else find_device (\<lambda>d. DeviceInUse d \<and> DevicePath d = p) (EventDevices m) 0)"

definition EventCopyPath :: "nat \<Rightarrow> string \<Rightarrow> string option" where
  "EventCopyPath DestinationSize Source = (if length Source < DestinationSize then Some Source else None)"

definition CreateEventDevice :: "ptr \<Rightarrow> string option \<Rightarrow> bool \<Rightarrow> EventDeviceKind \<Rightarrow> event_manager \<Rightarrow> nat option \<times> event_manager" where
  "CreateEventDevice Original Path HasHandler Kind m =
     (if Original = None \<or> Path = None \<or> Path = Some [] then (None, m)
      else (case FindEventDeviceIndexByPath m Path of
        Some i \<Rightarrow> (Some i, m)
      | None \<Rightarrow>
          if EventDeviceCount m \<ge> MAX_EVENT_DEVICES then (None, m)
          else (case find_device (\<lambda>d. \<not> DeviceInUse d) (EventDevices m) 0 of
                  None \<Rightarrow> (None, m)
                | Some i \<Rightarrow>
                    (case EventCopyPath MAX_EVENT_DEVICE_PATH (the Path) of
                       None \<Rightarrow> (None, m\<lparr>EventDevices := (EventDevices m)[i := empty_device]\<rparr>)
                     | Some p \<Rightarrow>
                         (Some i, m\<lparr>EventDevices := (EventDevices m)[i := empty_device\<lparr>OriginalDevice := Original, DevicePath := p,
                            HasInterruptHandler := HasHandler, DeviceKind := Kind, DeviceInUse := True, LastWokenProcessId := 0xFF\<rparr>],
                            EventDeviceCount := EventDeviceCount m + 1\<rparr>)))))"

definition RemoveEventDevice :: "string option \<Rightarrow> event_manager \<Rightarrow> bool \<times> event_manager" where
  "RemoveEventDevice Path m =
     (case FindEventDeviceIndexByPath m Path of
        None \<Rightarrow> (False, m)
      | Some i \<Rightarrow> (True, m\<lparr>EventDevices := (EventDevices m)[i := empty_device], EventDeviceCount := EventDeviceCount m - 1\<rparr>))"

definition GetEventDevice :: "string option \<Rightarrow> event_manager \<Rightarrow> nat option" where
  "GetEventDevice Path m = FindEventDeviceIndexByPath m Path"

definition GetEventDeviceByOriginalDevice :: "ptr \<Rightarrow> event_manager \<Rightarrow> nat option" where
  "GetEventDeviceByOriginalDevice Original m =
     (if Original = None then None else find_device (\<lambda>d. DeviceInUse d \<and> OriginalDevice d = Original) (EventDevices m) 0)"

definition GetEventDeviceAt :: "nat \<Rightarrow> event_manager \<Rightarrow> event_device option" where
  "GetEventDeviceAt Index m =
     (if Index \<ge> MAX_EVENT_DEVICES \<or> \<not> DeviceInUse (EventDevices m ! Index) then None else Some (EventDevices m ! Index))"

section \<open>Waiting processes\<close>

definition AddWaitingProcess :: "u8 \<Rightarrow> event_device \<Rightarrow> bool \<times> event_device" where
  "AddWaitingProcess ProcessId d =
     (if ProcessId \<in> set (WaitingProcessIds d) then (True, d)
      else if length (WaitingProcessIds d) \<ge> MAX_WAITING_PROCESS_IDS then (False, d)
      else (True, d\<lparr>WaitingProcessIds := WaitingProcessIds d @ [ProcessId]\<rparr>))"

definition RemoveWaitingProcess :: "u8 \<Rightarrow> event_device \<Rightarrow> bool \<times> event_device" where
  "RemoveWaitingProcess ProcessId d =
     (if ProcessId \<in> set (WaitingProcessIds d)
      then (True, d\<lparr>WaitingProcessIds := remove1 ProcessId (WaitingProcessIds d)\<rparr>) else (False, d))"

section \<open>Queueing an event\<close>

definition LINUX_EV_SYN :: u16 where "LINUX_EV_SYN = 0"
definition LINUX_EV_KEY :: u16 where "LINUX_EV_KEY = 1"
definition LINUX_EV_REL :: u16 where "LINUX_EV_REL = 2"
definition LINUX_EV_MSC :: u16 where "LINUX_EV_MSC = 4"
definition LINUX_SYN_REPORT :: u16 where "LINUX_SYN_REPORT = 0"
definition LINUX_SYN_DROPPED :: u16 where "LINUX_SYN_DROPPED = 3"
definition LINUX_MSC_SCAN :: u16 where "LINUX_MSC_SCAN = 4"

definition IsInputDevice :: "event_device \<Rightarrow> bool" where
  "IsInputDevice d \<longleftrightarrow> DeviceKind d = EVENT_DEVICE_KIND_MOUSE \<or> DeviceKind d = EVENT_DEVICE_KIND_KEYBOARD"

definition DropOldest :: "event_device \<Rightarrow> event_device" where
  "DropOldest d =
     (if PendingEventCount d \<ge> MAX_PENDING_EVENTS then
        d\<lparr>PendingEventHead := (PendingEventHead d + 1) mod MAX_PENDING_EVENTS, PendingEventCount := PendingEventCount d - 1,
          OverflowedSinceLastSync := (if IsInputDevice d then True else OverflowedSinceLastSync d)\<rparr>
      else d)"

definition StoreEvent :: "input_event \<Rightarrow> event_device \<Rightarrow> event_device" where
  "StoreEvent e d =
     d\<lparr>PendingEvents := (PendingEvents d)[PendingEventTail d := e],
       PendingEventTail := (PendingEventTail d + 1) mod MAX_PENDING_EVENTS, PendingEventCount := PendingEventCount d + 1\<rparr>"

definition WakeWaiters :: "event_device \<Rightarrow> logic option \<Rightarrow> event_device \<times> logic option" where
  "WakeWaiters d Logic =
     (case Logic of
        None \<Rightarrow> (d\<lparr>LastWokenProcessId := 0xFF, WaitingProcessIds := []\<rparr>, None)
      | Some l \<Rightarrow>
          (d\<lparr>LastWokenProcessId := (if WaitingProcessIds d = [] then 0xFF else last (WaitingProcessIds d)), WaitingProcessIds := []\<rparr>,
           Some (fold (\<lambda>i l. UnblockProcess l i) (WaitingProcessIds d) l)))"

text \<open>The device and the processes afterwards.\<close>

definition QueueEvent :: "input_event \<Rightarrow> event_device \<Rightarrow> logic option \<Rightarrow> event_device \<times> logic option" where
  "QueueEvent e d Logic =
     (let WasQueueEmpty = (PendingEventCount d = 0);
          IsReport = (EventType e = LINUX_EV_SYN \<and> EventCode e = LINUX_SYN_REPORT)
      in if IsInputDevice d \<and> OverflowedSinceLastSync d \<and> \<not> IsReport then (d, Logic)
         else let e1 = (if IsInputDevice d \<and> OverflowedSinceLastSync d
                        then \<lparr>EventType = LINUX_EV_SYN, EventCode = LINUX_SYN_DROPPED, EventValue = 0\<rparr> else e);
                  d1 = (if IsInputDevice d \<and> OverflowedSinceLastSync d then d\<lparr>OverflowedSinceLastSync := False\<rparr> else d);
                  d2 = StoreEvent e1 (DropOldest d1)
              in if WasQueueEmpty then WakeWaiters d2 Logic else (d2, Logic))"

definition on_device :: "nat \<Rightarrow> event_device \<Rightarrow> event_manager \<Rightarrow> event_manager" where
  "on_device i d m = m\<lparr>EventDevices := (EventDevices m)[i := d]\<rparr>"

definition QueueInputEvent :: "nat option \<Rightarrow> u16 \<Rightarrow> u16 \<Rightarrow> int \<Rightarrow> input_state \<Rightarrow> bool \<times> input_state" where
  "QueueInputEvent Device Type Code Value s =
     (case (Device, DevicesOf s) of
        (Some i, Some m) \<Rightarrow>
          (case QueueEvent \<lparr>EventType = Type, EventCode = Code, EventValue = Value\<rparr> (EventDevices m ! i) (LogicState s) of
             (d, Logic) \<Rightarrow> (True, s\<lparr>DevicesOf := Some (on_device i d m), LogicState := Logic\<rparr>))
      | _ \<Rightarrow> (False, s))"

definition QueueInputEventAt :: "string option \<Rightarrow> u16 \<Rightarrow> u16 \<Rightarrow> int \<Rightarrow> input_state \<Rightarrow> bool \<times> input_state" where
  "QueueInputEventAt Path Type Code Value s =
     QueueInputEvent (case DevicesOf s of None \<Rightarrow> None | Some m \<Rightarrow> GetEventDevice Path m) Type Code Value s"

section \<open>Reading\<close>

definition EV_ERR_EFAULT :: int where "EV_ERR_EFAULT = -14"
definition EV_ERR_EINVAL :: int where "EV_ERR_EINVAL = -22"
definition EV_ERR_ENOSYS :: int where "EV_ERR_ENOSYS = -38"
definition EV_ERR_ENOTTY :: int where "EV_ERR_ENOTTY = -25"
definition EV_ERR_EAGAIN :: int where "EV_ERR_EAGAIN = -11"
definition EV_ERR_EINTR :: int where "EV_ERR_EINTR = -4"

definition INPUT_EVENT_SIZE :: nat where "INPUT_EVENT_SIZE = 24"

datatype event_outcome =
    EventReturned int "input_event list" device_file input_state
  | EventSleeping u8 nat device_file nat input_state

fun TakeEvents :: "nat \<Rightarrow> event_device \<Rightarrow> input_event list \<times> event_device" where
  "TakeEvents 0 d = ([], d)"
| "TakeEvents (Suc n) d =
     (if PendingEventCount d = 0 then ([], d)
      else case TakeEvents n (d\<lparr>PendingEventHead := (PendingEventHead d + 1) mod MAX_PENDING_EVENTS,
             PendingEventCount := PendingEventCount d - 1\<rparr>) of
             (es, d') \<Rightarrow> (PendingEvents d ! PendingEventHead d # es, d'))"

definition EventReadLoop :: "device_file \<Rightarrow> nat \<Rightarrow> nat \<Rightarrow> u8 \<Rightarrow> event_manager \<Rightarrow> input_state \<Rightarrow> event_outcome" where
  "EventReadLoop f i Count pid m s =
     (let d = EventDevices m ! i
      in if PendingEventCount d = 0 then
           if FileFlags f AND EV_O_NONBLOCK \<noteq> 0 then EventReturned EV_ERR_EAGAIN [] f s
           else EventSleeping pid i f Count (s\<lparr>DevicesOf := Some (on_device i (snd (AddWaitingProcess pid d)) m)\<rparr>)
         else case TakeEvents (Count div INPUT_EVENT_SIZE) (snd (RemoveWaitingProcess pid d)) of
                (es, d') \<Rightarrow>
                  let BytesRead = length es * INPUT_EVENT_SIZE
                  in EventReturned (int BytesRead) es (f\<lparr>FileOffset := FileOffset f + of_nat BytesRead\<rparr>)
                       (s\<lparr>DevicesOf := Some (on_device i d' m)\<rparr>))"

text \<open>The running process, \<open>None\<close> without one or without a logic layer.\<close>

definition EventRead :: "device_file \<Rightarrow> bool \<Rightarrow> nat \<Rightarrow> u8 option \<Rightarrow> input_state \<Rightarrow> event_outcome" where
  "EventRead f BufferNull Count Running s =
     (case FileNode f of
        None \<Rightarrow> EventReturned EV_ERR_EFAULT [] f s
      | Some n \<Rightarrow>
          if BufferNull \<and> Count \<noteq> 0 then EventReturned EV_ERR_EFAULT [] f s
          else (case DevNodeData n of
            None \<Rightarrow> EventReturned EV_ERR_EINVAL [] f s
          | Some i \<Rightarrow>
              if Count = 0 then EventReturned 0 [] f s
              else if Count < INPUT_EVENT_SIZE then EventReturned EV_ERR_EINVAL [] f s
              else (case (DevicesOf s, Running) of
                      (Some m, Some pid) \<Rightarrow> EventReadLoop f i Count pid m s
                    | _ \<Rightarrow> EventReturned EV_ERR_EFAULT [] f s)))"

text \<open>After the sleep of a decisecond.\<close>

definition EventReadResume :: "u8 \<Rightarrow> nat \<Rightarrow> device_file \<Rightarrow> nat \<Rightarrow> input_state \<Rightarrow> event_outcome" where
  "EventReadResume pid i f Count s =
     (case (DevicesOf s, LogicState s) of
        (Some m, Some l) \<Rightarrow>
          if InterruptedBySignal (proc l pid) then
            EventReturned EV_ERR_EINTR [] f
              (s\<lparr>DevicesOf := Some (on_device i (snd (RemoveWaitingProcess pid (EventDevices m ! i))) m),
                 LogicState := Some (write_proc pid (\<lambda>p. p\<lparr>InterruptedBySignal := False\<rparr>) l)\<rparr>)
          else EventReadLoop f i Count pid m s
      | _ \<Rightarrow> EventReturned EV_ERR_EFAULT [] f s)"

definition EventWrite :: "device_file \<Rightarrow> int" where "EventWrite f = EV_ERR_ENOSYS"
definition EventSeek :: "device_file \<Rightarrow> int" where "EventSeek f = EV_ERR_ENOSYS"
definition EventMemoryMap :: "device_file \<Rightarrow> int" where "EventMemoryMap f = EV_ERR_ENOSYS"

section \<open>Polling\<close>

definition EV_POLLIN :: u32 where "EV_POLLIN = 1"
definition EV_POLLOUT :: u32 where "EV_POLLOUT = 4"

definition EventPoll :: "device_file \<Rightarrow> u32 \<Rightarrow> bool \<Rightarrow> u8 option \<Rightarrow> input_state \<Rightarrow> (int \<times> u32 option) \<times> input_state" where
  "EventPoll f RequestedEvents ReturnedNull Running s =
     (case FileNode f of
        None \<Rightarrow> ((EV_ERR_EFAULT, None), s)
      | Some n \<Rightarrow>
          if ReturnedNull then ((EV_ERR_EFAULT, None), s)
          else (case (DevNodeData n, DevicesOf s) of
            (None, _) \<Rightarrow> ((EV_ERR_EINVAL, None), s)
          | (Some i, None) \<Rightarrow> ((EV_ERR_EFAULT, None), s)
          | (Some i, Some m) \<Rightarrow>
              let d = EventDevices m ! i;
                  out = (if RequestedEvents AND EV_POLLOUT \<noteq> 0 then EV_POLLOUT else 0)
              in if RequestedEvents AND EV_POLLIN = 0 then ((0, Some out), s)
                 else if PendingEventCount d > 0 then ((0, Some (out OR EV_POLLIN)), s)
                 else (case Running of
                         None \<Rightarrow> ((0, Some out), s)
                       | Some pid \<Rightarrow> ((0, Some out), s\<lparr>DevicesOf := Some (on_device i (snd (AddWaitingProcess pid d)) m)\<rparr>))))"

section \<open>Control\<close>

definition IoctlNumber :: "u32 \<Rightarrow> u32" where "IoctlNumber r = r AND 0xFF"
definition IoctlType :: "u32 \<Rightarrow> u32" where "IoctlType r = drop_bit 8 r AND 0xFF"
definition IoctlSize :: "u32 \<Rightarrow> u32" where "IoctlSize r = drop_bit 16 r AND 0x3FFF"
definition IoctlDirection :: "u32 \<Rightarrow> u32" where "IoctlDirection r = drop_bit 30 r AND 3"

definition LINUX_IOC_READ :: u32 where "LINUX_IOC_READ = 2"

definition IsEventIoctlReadRequest :: "u32 \<Rightarrow> u32 \<Rightarrow> bool" where
  "IsEventIoctlReadRequest r Number \<longleftrightarrow> IoctlType r = 69 \<and> IoctlNumber r = Number \<and> IoctlDirection r AND LINUX_IOC_READ \<noteq> 0"

definition SetBit :: "nat \<Rightarrow> u8 list \<Rightarrow> u8 list" where
  "SetBit b Buffer = Buffer[b div 8 := Buffer ! (b div 8) OR push_bit (b mod 8) 1]"

definition ResolveEventDeviceDisplayName :: "event_device \<Rightarrow> string" where
  "ResolveEventDeviceDisplayName d =
     (case DeviceKind d of
        EVENT_DEVICE_KIND_KEYBOARD \<Rightarrow> ''TwistedOS PS/2 Keyboard''
      | EVENT_DEVICE_KIND_MOUSE \<Rightarrow> ''TwistedOS PS/2 Mouse''
      | EVENT_DEVICE_KIND_GENERIC \<Rightarrow> ''TwistedOS Event Device'')"

definition DefaultName :: "u32 \<Rightarrow> event_device \<Rightarrow> string" where
  "DefaultName r d =
     (if IsEventIoctlReadRequest r 0x06 then ResolveEventDeviceDisplayName d
      else if IsEventIoctlReadRequest r 0x07 then
        (case DeviceKind d of
           EVENT_DEVICE_KIND_MOUSE \<Rightarrow> ''isa0060/serio1/input0''
         | EVENT_DEVICE_KIND_KEYBOARD \<Rightarrow> ''isa0060/serio0/input0''
         | EVENT_DEVICE_KIND_GENERIC \<Rightarrow> ''virtual/input0'')
      else [])"

definition EventBits :: "u32 \<Rightarrow> EventDeviceKind \<Rightarrow> nat list" where
  "EventBits Number Kind =
     (if Number = 0x20 then
        (case Kind of
           EVENT_DEVICE_KIND_KEYBOARD \<Rightarrow> [0, 1, 4] | EVENT_DEVICE_KIND_MOUSE \<Rightarrow> [0, 1, 2] | EVENT_DEVICE_KIND_GENERIC \<Rightarrow> [0, 1])
      else if Number = 0x21 then (if Kind = EVENT_DEVICE_KIND_MOUSE then [0x110, 0x111, 0x112] else [1..<59])
      else if Number = 0x22 then (if Kind = EVENT_DEVICE_KIND_MOUSE then [0, 1] else [])
      else if Number = 0x24 then (if Kind = EVENT_DEVICE_KIND_KEYBOARD then [4] else [])
      else [])"

datatype event_value =
    EventWord u32
  | EventId u16 u16 u16 u16
  | EventInt int
  | EventText string
  | EventBytes "u8 list"

record event_user =
  EventCanCopyTo :: "u64 \<Rightarrow> nat \<Rightarrow> bool"
  EventInt32At :: "u64 \<Rightarrow> int option"

definition event_answer :: "event_user \<Rightarrow> u64 \<Rightarrow> nat \<Rightarrow> event_value \<Rightarrow> int \<times> (u64 \<times> event_value) list" where
  "event_answer u Argument Size v = (if EventCanCopyTo u Argument Size then (0, [(Argument, v)]) else (EV_ERR_EFAULT, []))"

text \<open>The requests answered with a string or a bit map, by the size the request asks for.\<close>

definition EventQuery :: "u32 \<Rightarrow> u64 \<Rightarrow> event_user \<Rightarrow> event_device \<Rightarrow> int \<times> (u64 \<times> event_value) list" where
  "EventQuery r Argument u d =
     (let Size = unat (IoctlSize r)
      in if IsEventIoctlReadRequest r 0x06 \<or> IsEventIoctlReadRequest r 0x07 \<or> IsEventIoctlReadRequest r 0x08 then
           if Argument = 0 then (EV_ERR_EFAULT, []) else if Size = 0 then (EV_ERR_EINVAL, [])
           else let Name = take (Size - 1) (DefaultName r d)
                in event_answer u Argument (length Name + 1) (EventText Name)
         else if IsEventIoctlReadRequest r 0x09 then
           if Argument = 0 then (EV_ERR_EFAULT, []) else if Size = 0 then (EV_ERR_EINVAL, [])
           else event_answer u Argument (min Size 8) (EventBytes (replicate (min Size 8) 0))
         else if IsEventIoctlReadRequest r 0x18 \<or> IsEventIoctlReadRequest r 0x19 \<or> IsEventIoctlReadRequest r 0x1A \<or>
                 IsEventIoctlReadRequest r 0x1B then
           if Argument = 0 then (EV_ERR_EFAULT, []) else if Size = 0 then (EV_ERR_EINVAL, [])
           else event_answer u Argument (min Size 128) (EventBytes (replicate (min Size 128) 0))
         else if IoctlType r = 69 \<and> 0x20 \<le> IoctlNumber r \<and> IoctlNumber r < 0x40 \<and> IoctlDirection r AND LINUX_IOC_READ \<noteq> 0 then
           if Argument = 0 then (EV_ERR_EFAULT, []) else if Size = 0 then (EV_ERR_EINVAL, [])
           else event_answer u Argument (min Size 64)
                  (EventBytes (take Size (fold SetBit (EventBits (IoctlNumber r) (DeviceKind d)) (replicate 64 0))))
         else (EV_ERR_ENOTTY, []))"

definition EventIoctl ::
    "device_file \<Rightarrow> u64 \<Rightarrow> u64 \<Rightarrow> event_user option \<Rightarrow> input_state \<Rightarrow> (int \<times> (u64 \<times> event_value) list) \<times> input_state" where
  "EventIoctl f Request Argument Logic s =
     (case (FileNode f, Logic) of
        (Some n, Some u) \<Rightarrow>
          let r = ucast Request :: u32
          in (case (DevNodeData n, DevicesOf s) of
                (None, _) \<Rightarrow> ((EV_ERR_EINVAL, []), s)
              | (Some i, None) \<Rightarrow> ((EV_ERR_EFAULT, []), s)
              | (Some i, Some m) \<Rightarrow>
                  let d = EventDevices m ! i
                  in if r \<in> {0x80044501, 0x80084502, 0x40044590, 0x541B} \<and> Argument = 0 then ((EV_ERR_EFAULT, []), s)
                     else if r = 0x80044501 then (event_answer u Argument 4 (EventWord 0x010001), s)
                     else if r = 0x80084502 then (event_answer u Argument 8 (EventId 6 1 1 1), s)
                     else if r = 0x40044590 then
                       (case EventInt32At u Argument of
                          None \<Rightarrow> ((EV_ERR_EFAULT, []), s)
                        | Some GrabValue \<Rightarrow>
                            ((0, []), s\<lparr>DevicesOf := Some (on_device i (d\<lparr>Grabbed := (GrabValue \<noteq> 0)\<rparr>) m)\<rparr>))
                     else if r = 0x541B then
                       (event_answer u Argument 4 (EventInt (int (PendingEventCount d * INPUT_EVENT_SIZE))), s)
                     else (EventQuery r Argument u d, s))
      | _ \<Rightarrow> ((EV_ERR_EFAULT, []), s))"

end
