(* ===== verification/Input_Devices.thy ===== *)
theory Input_Devices imports Event_Devices begin

unbundle bit_operations_syntax

text \<open>
  \<open>Layers/Resource/Keyboard.cpp\<close> and \<open>Layers/Resource/Mouse.cpp\<close>: the scan codes of the keyboard as input of the
  terminal and as events, the packets of the mouse as events, and the initialisation of the mouse. Of the first
  initialisation of the keyboard, the bytes the controller still holds are thrown away and have no effect here. The ports of the
  controller are a parameter (\<open>ps2\<close>): what it answers to a read of the status and of the data port, and what a write does.
\<close>

section \<open>Keyboard\<close>

record keyboard =
  HasKeyboardTTY :: bool
  LeftShiftPressed :: bool
  RightShiftPressed :: bool
  CapsLockEnabled :: bool
  CtrlPressed :: bool
  AltPressed :: bool
  ExtendedScanCodeE0 :: bool
  HasPendingInterruptScanCode :: bool
  PendingInterruptScanCode :: u8
  PendingIsExtended :: bool

definition Keyboard :: keyboard where
  "Keyboard = \<lparr>HasKeyboardTTY = False, LeftShiftPressed = False, RightShiftPressed = False, CapsLockEnabled = False,
     CtrlPressed = False, AltPressed = False, ExtendedScanCodeE0 = False, HasPendingInterruptScanCode = False,
     PendingInterruptScanCode = 0, PendingIsExtended = False\<rparr>"

definition Keyboard_Initialize :: "bool \<Rightarrow> keyboard" where
  "Keyboard_Initialize Terminal = Keyboard\<lparr>HasKeyboardTTY := Terminal\<rparr>"

definition SetTTY :: "bool \<Rightarrow> keyboard \<Rightarrow> keyboard" where
  "SetTTY Terminal k = k\<lparr>HasKeyboardTTY := Terminal\<rparr>"

definition TranslateScanCodeToLinuxKeyCode :: "u8 \<Rightarrow> int" where
  "TranslateScanCodeToLinuxKeyCode c = (if 1 \<le> c \<and> c \<le> 0x53 \<or> c = 0x57 \<or> c = 0x58 then uint c else -1)"

definition TranslateExtendedScanCodeToLinuxKeyCode :: "u8 \<Rightarrow> int" where
  "TranslateExtendedScanCodeToLinuxKeyCode c =
     (case map_of [(0x1C, 96), (0x1D, 97), (0x35, 98), (0x38, 100), (0x47, 102), (0x48, 103), (0x49, 104), (0x4B, 105),
        (0x4D, 106), (0x4F, 107), (0x50, 108), (0x51, 109), (0x52, 110), (0x53, 111), (0x5B, 125), (0x5C, 126), (0x5D, 127)] c of
        None \<Rightarrow> -1 | Some k \<Rightarrow> k)"

definition IsAlphabeticalCharacter :: "u8 \<Rightarrow> bool" where
  "IsAlphabeticalCharacter c \<longleftrightarrow> 97 \<le> c \<and> c \<le> 122 \<or> 65 \<le> c \<and> c \<le> 90"

definition ToggleCharacterCase :: "u8 \<Rightarrow> u8" where
  "ToggleCharacterCase c = (if 97 \<le> c \<and> c \<le> 122 then c - 32 else if 65 \<le> c \<and> c \<le> 90 then c + 32 else c)"

definition KeyboardMapUnshifted :: "u8 list" where
  "KeyboardMapUnshifted =
     [0, 27, 49, 50, 51, 52, 53, 54, 55, 56, 57, 48, 45, 61, 8, 9, 113, 119, 101, 114, 116, 121, 117, 105, 111, 112, 91, 93, 10,
      0, 97, 115, 100, 102, 103, 104, 106, 107, 108, 59, 39, 96, 0, 92, 122, 120, 99, 118, 98, 110, 109, 44, 46, 47, 0, 42, 0, 32]
     @ replicate 70 0"

definition KeyboardMapShifted :: "u8 list" where
  "KeyboardMapShifted =
     [0, 27, 33, 64, 35, 36, 37, 94, 38, 42, 40, 41, 95, 43, 8, 9, 81, 87, 69, 82, 84, 89, 85, 73, 79, 80, 123, 125, 10,
      0, 65, 83, 68, 70, 71, 72, 74, 75, 76, 58, 34, 126, 0, 124, 90, 88, 67, 86, 66, 78, 77, 60, 62, 63, 0, 42, 0, 32]
     @ replicate 70 0"

text \<open>The sequences of the extended keys; the bytes after \<open>ESC [\<close>.\<close>

definition EscapeSequence :: "u8 \<Rightarrow> u8 list option" where
  "EscapeSequence c =
     map_option (\<lambda>bs. 27 # 91 # bs)
       (map_of [(0x48, [65]), (0x50, [66]), (0x4D, [67]), (0x4B, [68]), (0x47, [72]), (0x4F, [70]), (0x52, [50, 126]),
          (0x53, [51, 126]), (0x49, [53, 126]), (0x51, [54, 126])] c)"

definition on_terminal :: "(tty \<Rightarrow> tty) \<Rightarrow> input_state \<Rightarrow> input_state" where
  "on_terminal f s = s\<lparr>TerminalState := f (TerminalState s)\<rparr>"

text \<open>The events of a scan code.\<close>

definition Keyboard_HandleEventInterrupt :: "nat option \<Rightarrow> keyboard \<Rightarrow> input_state \<Rightarrow> bool \<times> input_state" where
  "Keyboard_HandleEventInterrupt Device k s =
     (if Device = None then (False, s)
      else if \<not> HasPendingInterruptScanCode k then (False, s)
      else if DevicesOf s = None then (False, s)
      else let ScanCodeBase = PendingInterruptScanCode k AND 0x7F;
               LinuxKeyCode = (if PendingIsExtended k then TranslateExtendedScanCodeToLinuxKeyCode ScanCodeBase
                               else TranslateScanCodeToLinuxKeyCode ScanCodeBase);
               KeyValue = (if PendingInterruptScanCode k AND 0x80 \<noteq> 0 then 0 else 1)
           in if LinuxKeyCode < 0 then (False, s)
              else (case QueueInputEvent Device LINUX_EV_MSC LINUX_MSC_SCAN (uint ScanCodeBase) s of
                      (False, s1) \<Rightarrow> (False, s1)
                    | (True, s1) \<Rightarrow>
                        (case QueueInputEvent Device LINUX_EV_KEY (of_int LinuxKeyCode) KeyValue s1 of
                           (False, s2) \<Rightarrow> (False, s2)
                         | (True, s2) \<Rightarrow> QueueInputEvent Device LINUX_EV_SYN LINUX_SYN_REPORT 0 s2)))"

definition DispatchEventInterrupt :: "addr \<Rightarrow> u8 \<Rightarrow> bool \<Rightarrow> keyboard \<Rightarrow> input_state \<Rightarrow> keyboard \<times> input_state" where
  "DispatchEventInterrupt this ScanCode IsExtended k s =
     (let k1 = k\<lparr>HasPendingInterruptScanCode := True, PendingInterruptScanCode := ScanCode, PendingIsExtended := IsExtended\<rparr>;
          k2 = k1\<lparr>HasPendingInterruptScanCode := False\<rparr>
      in case DevicesOf s of
           None \<Rightarrow> (k2, s)
         | Some m \<Rightarrow>
             (case GetEventDeviceByOriginalDevice (Some this) m of
                None \<Rightarrow> (k2, s)
              | Some i \<Rightarrow> if \<not> HasInterruptHandler (EventDevices m ! i) then (k2, s)
                          else (k2, snd (Keyboard_HandleEventInterrupt (Some i) k1 s))))"

definition KeyboardIsGrabbed :: "addr \<Rightarrow> input_state \<Rightarrow> bool" where
  "KeyboardIsGrabbed this s =
     (case DevicesOf s of
        None \<Rightarrow> False
      | Some m \<Rightarrow> (case GetEventDeviceByOriginalDevice (Some this) m of None \<Rightarrow> False | Some i \<Rightarrow> Grabbed (EventDevices m ! i)))"

definition ExtendedKey :: "bool \<Rightarrow> u8 \<Rightarrow> keyboard \<Rightarrow> input_state \<Rightarrow> keyboard \<times> input_state" where
  "ExtendedKey IsGrabbed ScanCode k s =
     (let IsRelease = (ScanCode AND 0x80 \<noteq> 0); ScanCodeBase = ScanCode AND 0x7F
      in if ScanCodeBase = 0x1D then (k\<lparr>CtrlPressed := \<not> IsRelease\<rparr>, s)
         else if ScanCodeBase = 0x38 then (k\<lparr>AltPressed := \<not> IsRelease\<rparr>, s)
         else if IsRelease \<or> \<not> HasKeyboardTTY k \<or> IsGrabbed then (k, s)
         else (case EscapeSequence ScanCodeBase of
                 None \<Rightarrow> (k, s)
               | Some bytes \<Rightarrow> (k, on_terminal (\<lambda>t. snd (PushKeyboardInput (Some bytes) (length bytes) t)) s)))"

definition KeyCharacter :: "u8 \<Rightarrow> keyboard \<Rightarrow> u8" where
  "KeyCharacter ScanCode k =
     (let Character = (if LeftShiftPressed k \<or> RightShiftPressed k then KeyboardMapShifted else KeyboardMapUnshifted) ! unat ScanCode
      in if CapsLockEnabled k \<and> IsAlphabeticalCharacter Character then ToggleCharacterCase Character else Character)"

definition ControlCharacter :: "u8 \<Rightarrow> u8" where
  "ControlCharacter c = (if 97 \<le> c \<and> c \<le> 122 then c - 97 + 1 else if 65 \<le> c \<and> c \<le> 90 then c - 65 + 1 else c)"

definition PlainKey :: "bool \<Rightarrow> u8 \<Rightarrow> keyboard \<Rightarrow> input_state \<Rightarrow> keyboard \<times> input_state" where
  "PlainKey IsGrabbed ScanCode k s =
     (let IsRelease = (ScanCode AND 0x80 \<noteq> 0); ScanCodeBase = ScanCode AND 0x7F
      in if ScanCode = 0x2A then (k\<lparr>LeftShiftPressed := True\<rparr>, s)
         else if ScanCode = 0x36 then (k\<lparr>RightShiftPressed := True\<rparr>, s)
         else if ScanCode = 0xAA then (k\<lparr>LeftShiftPressed := False\<rparr>, s)
         else if ScanCode = 0xB6 then (k\<lparr>RightShiftPressed := False\<rparr>, s)
         else if ScanCode = 0x3A then (k\<lparr>CapsLockEnabled := \<not> CapsLockEnabled k\<rparr>, s)
         else if ScanCodeBase = 0x1D then (k\<lparr>CtrlPressed := \<not> IsRelease\<rparr>, s)
         else if ScanCodeBase = 0x38 then (k\<lparr>AltPressed := \<not> IsRelease\<rparr>, s)
         else if IsRelease then (k, s)
         else if ScanCode \<ge> 128 then (k, s)
         else let Character = KeyCharacter ScanCode k
              in if Character = 0 \<or> \<not> HasKeyboardTTY k \<or> IsGrabbed then (k, s)
                 else let c = (if CtrlPressed k then ControlCharacter Character else Character)
                      in (k, on_terminal (\<lambda>t. snd (PushKeyboardInputChar c t)) s))"

text \<open>An interrupt, with what the two ports answer.\<close>

definition Keyboard_HandleInterrupt :: "addr \<Rightarrow> u8 \<Rightarrow> u8 \<Rightarrow> keyboard \<Rightarrow> input_state \<Rightarrow> keyboard \<times> input_state" where
  "Keyboard_HandleInterrupt this PortStatus ScanCode k s =
     (if PortStatus AND 1 = 0 then (k, s)
      else if ScanCode = 0xE0 then (k\<lparr>ExtendedScanCodeE0 := True\<rparr>, s)
      else case DispatchEventInterrupt this ScanCode (ExtendedScanCodeE0 k) (k\<lparr>ExtendedScanCodeE0 := False\<rparr>) s of
             (k1, s1) \<Rightarrow>
               (if ExtendedScanCodeE0 k then ExtendedKey else PlainKey) (KeyboardIsGrabbed this s1) ScanCode k1 s1)"

section \<open>Mouse\<close>

record mouse =
  InitFailureCode :: nat
  ControllerInitialized :: bool
  DefaultsCommandResult :: nat
  DefaultsCommandResponse :: u8
  StreamingCommandResult :: nat
  StreamingCommandResponse :: u8
  HasPendingPacket :: bool
  PendingPacket :: "u8 list"
  PacketIndex :: nat
  PreviousButtonState :: u8
  InterruptCount :: u64
  PacketCount :: u64
  IgnoredIrqCount :: u64
  DecodeFailureCount :: u64

definition MOUSE_INIT_OK :: nat where "MOUSE_INIT_OK = 0"
definition MOUSE_CMD_RESULT_NONE :: nat where "MOUSE_CMD_RESULT_NONE = 0"

definition Mouse :: mouse where
  "Mouse = \<lparr>InitFailureCode = MOUSE_INIT_OK, ControllerInitialized = False, DefaultsCommandResult = MOUSE_CMD_RESULT_NONE,
     DefaultsCommandResponse = 0, StreamingCommandResult = MOUSE_CMD_RESULT_NONE, StreamingCommandResponse = 0,
     HasPendingPacket = False, PendingPacket = [0, 0, 0], PacketIndex = 0, PreviousButtonState = 0, InterruptCount = 0,
     PacketCount = 0, IgnoredIrqCount = 0, DecodeFailureCount = 0\<rparr>"

definition LINUX_REL_X :: u16 where "LINUX_REL_X = 0"
definition LINUX_REL_Y :: u16 where "LINUX_REL_Y = 1"
definition LINUX_BTN_LEFT :: u16 where "LINUX_BTN_LEFT = 0x110"
definition LINUX_BTN_RIGHT :: u16 where "LINUX_BTN_RIGHT = 0x111"
definition LINUX_BTN_MIDDLE :: u16 where "LINUX_BTN_MIDDLE = 0x112"

text \<open>The events of a packet before the report, in their order; \<open>Old\<close> are the buttons before.\<close>

definition PacketEvents :: "u8 \<Rightarrow> u8 \<Rightarrow> u8 \<Rightarrow> u8 \<Rightarrow> input_event list" where
  "PacketEvents Old Packet0 Packet1 Packet2 =
     (let DeltaX = sint Packet1; DeltaY = - sint Packet2;
          CurrentButtonState = Packet0 AND 7; ButtonChanges = CurrentButtonState XOR Old;
          button = (\<lambda>(mask :: u8) code. if ButtonChanges AND mask \<noteq> 0
            then [\<lparr>EventType = LINUX_EV_KEY, EventCode = code, EventValue = (if CurrentButtonState AND mask \<noteq> 0 then 1 else 0)\<rparr>] else [])
      in (if DeltaX \<noteq> 0 then [\<lparr>EventType = LINUX_EV_REL, EventCode = LINUX_REL_X, EventValue = DeltaX\<rparr>] else []) @
         (if DeltaY \<noteq> 0 then [\<lparr>EventType = LINUX_EV_REL, EventCode = LINUX_REL_Y, EventValue = DeltaY\<rparr>] else []) @
         button 1 LINUX_BTN_LEFT @ button 2 LINUX_BTN_RIGHT @ button 4 LINUX_BTN_MIDDLE)"

fun QueueAll :: "nat option \<Rightarrow> input_event list \<Rightarrow> input_state \<Rightarrow> bool \<times> input_state" where
  "QueueAll Device [] s = (True, s)"
| "QueueAll Device (e # es) s =
     (case QueueInputEvent Device (EventType e) (EventCode e) (EventValue e) s of
        (ok1, s1) \<Rightarrow> (case QueueAll Device es s1 of (ok2, s2) \<Rightarrow> (ok1 \<and> ok2, s2)))"

definition Mouse_HandleEventInterrupt :: "nat option \<Rightarrow> mouse \<Rightarrow> input_state \<Rightarrow> bool \<times> mouse \<times> input_state" where
  "Mouse_HandleEventInterrupt Device ms s =
     (if Device = None \<or> \<not> HasPendingPacket ms \<or> DevicesOf s = None then (False, ms, s)
      else let Packet0 = PendingPacket ms ! 0; Packet1 = PendingPacket ms ! 1; Packet2 = PendingPacket ms ! 2
      in if Packet0 AND 0xC0 \<noteq> 0 then
           (case QueueInputEvent Device LINUX_EV_SYN LINUX_SYN_REPORT 0 s of (ok, s1) \<Rightarrow> (ok, ms, s1))
         else let Old = PreviousButtonState ms; ms1 = ms\<lparr>PreviousButtonState := Packet0 AND 7\<rparr>
              in if sint Packet1 = 0 \<and> sint Packet2 = 0 \<and> (Packet0 AND 7) XOR Old = 0 then (True, ms1, s)
                 else (case QueueAll Device (PacketEvents Old Packet0 Packet1 Packet2) s of
                         (EventQueued, s1) \<Rightarrow>
                           (case QueueInputEvent Device LINUX_EV_SYN LINUX_SYN_REPORT 0 s1 of
                              (SynQueued, s2) \<Rightarrow> (SynQueued \<and> EventQueued, ms1, s2))))"

definition Mouse_DispatchEventInterrupt :: "addr \<Rightarrow> mouse \<Rightarrow> input_state \<Rightarrow> bool \<times> mouse \<times> input_state" where
  "Mouse_DispatchEventInterrupt this ms s =
     (case DevicesOf s of
        None \<Rightarrow> (False, ms, s)
      | Some m \<Rightarrow>
          (case GetEventDeviceByOriginalDevice (Some this) m of
             None \<Rightarrow> (False, ms, s)
           | Some i \<Rightarrow> if \<not> HasInterruptHandler (EventDevices m ! i) then (False, ms, s)
                       else Mouse_HandleEventInterrupt (Some i) ms s))"

text \<open>One byte of the controller, with the status it was read with.\<close>

definition MouseByte :: "addr \<Rightarrow> u8 \<Rightarrow> u8 \<Rightarrow> mouse \<times> input_state \<Rightarrow> mouse \<times> input_state" where
  "MouseByte this PortStatus DataByte =
     (\<lambda>(ms, s).
        if PortStatus AND 0x20 = 0 then (ms\<lparr>IgnoredIrqCount := IgnoredIrqCount ms + 1\<rparr>, s)
        else if PacketIndex ms = 0 \<and> DataByte AND 8 = 0 then (ms\<lparr>DecodeFailureCount := DecodeFailureCount ms + 1\<rparr>, s)
        else let ms1 = ms\<lparr>PendingPacket := (PendingPacket ms)[PacketIndex ms := DataByte], PacketIndex := PacketIndex ms + 1\<rparr>
             in if PacketIndex ms1 < 3 then (ms1, s)
                else let ms2 = ms1\<lparr>PacketCount := PacketCount ms1 + 1, PacketIndex := 0, HasPendingPacket := True\<rparr>
                     in (case Mouse_DispatchEventInterrupt this ms2 s of (_, ms3, s') \<Rightarrow> (ms3\<lparr>HasPendingPacket := False\<rparr>, s')))"

text \<open>An interrupt: the bytes the controller has, each with its status, up to the first status without data.\<close>

definition Mouse_HandleInterrupt :: "addr \<Rightarrow> (u8 \<times> u8) list \<Rightarrow> mouse \<Rightarrow> input_state \<Rightarrow> mouse \<times> input_state" where
  "Mouse_HandleInterrupt this Bytes ms s =
     fold (\<lambda>(PortStatus, DataByte). MouseByte this PortStatus DataByte)
       (takeWhile (\<lambda>(PortStatus, _). PortStatus AND 1 \<noteq> 0) Bytes) (ms\<lparr>InterruptCount := InterruptCount ms + 1\<rparr>, s)"

section \<open>The controller\<close>

record 'c ps2 =
  ReadStatus :: "'c \<Rightarrow> u8 \<times> 'c"
  ReadData :: "'c \<Rightarrow> u8 \<times> 'c"
  WriteCommand :: "u8 \<Rightarrow> 'c \<Rightarrow> 'c"
  WriteData :: "u8 \<Rightarrow> 'c \<Rightarrow> 'c"

definition PS2_DEFAULT_SPIN_COUNT :: nat where "PS2_DEFAULT_SPIN_COUNT = 200000"
definition PS2_MAX_AUX_WAIT_SPINS :: nat where "PS2_MAX_AUX_WAIT_SPINS = PS2_DEFAULT_SPIN_COUNT * 4"
definition PS2_MAX_CMD_RETRIES :: nat where "PS2_MAX_CMD_RETRIES = 3"
definition PS2_MOUSE_ACK :: u8 where "PS2_MOUSE_ACK = 0xFA"
definition PS2_MOUSE_RESEND :: u8 where "PS2_MOUSE_RESEND = 0xFE"
definition MOUSE_CMD_RESULT_WAIT_IBF_BEFORE_D4 :: nat where "MOUSE_CMD_RESULT_WAIT_IBF_BEFORE_D4 = 1"
definition MOUSE_CMD_RESULT_WAIT_IBF_BEFORE_COMMAND :: nat where "MOUSE_CMD_RESULT_WAIT_IBF_BEFORE_COMMAND = 2"
definition MOUSE_CMD_RESULT_ACK :: nat where "MOUSE_CMD_RESULT_ACK = 3"
definition MOUSE_CMD_RESULT_RESEND :: nat where "MOUSE_CMD_RESULT_RESEND = 4"
definition MOUSE_CMD_RESULT_UNEXPECTED_RESPONSE :: nat where "MOUSE_CMD_RESULT_UNEXPECTED_RESPONSE = 5"
definition MOUSE_CMD_RESULT_TIMEOUT_WAITING_ACK :: nat where "MOUSE_CMD_RESULT_TIMEOUT_WAITING_ACK = 6"
definition MOUSE_CMD_RESULT_FAILED_AFTER_RETRIES :: nat where "MOUSE_CMD_RESULT_FAILED_AFTER_RETRIES = 7"

fun ReadControllerDataByte :: "'c ps2 \<Rightarrow> nat \<Rightarrow> 'c \<Rightarrow> u8 option \<times> 'c" where
  "ReadControllerDataByte P 0 c = (None, c)"
| "ReadControllerDataByte P (Suc n) c =
     (case ReadStatus P c of (st, c1) \<Rightarrow>
        if st AND 1 \<noteq> 0 then (case ReadData P c1 of (v, c2) \<Rightarrow> (Some v, c2)) else ReadControllerDataByte P n c1)"

fun ReadMouseDataByte :: "'c ps2 \<Rightarrow> nat \<Rightarrow> 'c \<Rightarrow> u8 option \<times> 'c" where
  "ReadMouseDataByte P 0 c = (None, c)"
| "ReadMouseDataByte P (Suc n) c =
     (case ReadStatus P c of (st, c1) \<Rightarrow>
        if st AND 1 = 0 then ReadMouseDataByte P n c1
        else (case ReadData P c1 of (v, c2) \<Rightarrow> if st AND 0x20 \<noteq> 0 then (Some v, c2) else ReadMouseDataByte P n c2))"

fun DrainControllerOutputBuffer :: "'c ps2 \<Rightarrow> nat \<Rightarrow> 'c \<Rightarrow> 'c" where
  "DrainControllerOutputBuffer P 0 c = c"
| "DrainControllerOutputBuffer P (Suc n) c =
     (case ReadStatus P c of (st, c1) \<Rightarrow>
        if st AND 1 = 0 then c1 else DrainControllerOutputBuffer P n (snd (ReadData P c1)))"

fun WaitForControllerInputBufferReady :: "'c ps2 \<Rightarrow> nat \<Rightarrow> 'c \<Rightarrow> bool \<times> 'c" where
  "WaitForControllerInputBufferReady P 0 c = (False, c)"
| "WaitForControllerInputBufferReady P (Suc n) c =
     (case ReadStatus P c of (st, c1) \<Rightarrow> if st AND 2 = 0 then (True, c1) else WaitForControllerInputBufferReady P n c1)"

datatype poll_end = Acked | Resend | Unanswered

text \<open>The polls for the answer of a command; the result and the response so far are kept up.\<close>

fun PollAnswer :: "'c ps2 \<Rightarrow> nat \<Rightarrow> nat \<times> u8 \<Rightarrow> 'c \<Rightarrow> poll_end \<times> (nat \<times> u8) \<times> 'c" where
  "PollAnswer P 0 r c = (Unanswered, r, c)"
| "PollAnswer P (Suc n) r c =
     (case (case ReadMouseDataByte P (PS2_MAX_AUX_WAIT_SPINS div 16) c of
              (None, c1) \<Rightarrow> ReadControllerDataByte P (PS2_DEFAULT_SPIN_COUNT div 16) c1
            | (Some v, c1) \<Rightarrow> (Some v, c1)) of
        (None, c2) \<Rightarrow> PollAnswer P n r c2
      | (Some Response, c2) \<Rightarrow>
          if Response = PS2_MOUSE_ACK then (Acked, (MOUSE_CMD_RESULT_ACK, Response), c2)
          else if Response = PS2_MOUSE_RESEND then (Resend, (MOUSE_CMD_RESULT_RESEND, Response), c2)
          else PollAnswer P n (MOUSE_CMD_RESULT_UNEXPECTED_RESPONSE, Response) c2)"

fun SendAttempts :: "'c ps2 \<Rightarrow> nat \<Rightarrow> u8 \<Rightarrow> nat \<times> u8 \<Rightarrow> 'c \<Rightarrow> bool \<times> (nat \<times> u8) \<times> 'c" where
  "SendAttempts P 0 Command r c = (False, (MOUSE_CMD_RESULT_FAILED_AFTER_RETRIES, snd r), c)"
| "SendAttempts P (Suc n) Command r c =
     (case WaitForControllerInputBufferReady P PS2_DEFAULT_SPIN_COUNT (DrainControllerOutputBuffer P 16 c) of
        (False, c1) \<Rightarrow> SendAttempts P n Command (MOUSE_CMD_RESULT_WAIT_IBF_BEFORE_D4, snd r) c1
      | (True, c1) \<Rightarrow>
          (case WaitForControllerInputBufferReady P PS2_DEFAULT_SPIN_COUNT (WriteCommand P 0xD4 c1) of
             (False, c2) \<Rightarrow> SendAttempts P n Command (MOUSE_CMD_RESULT_WAIT_IBF_BEFORE_COMMAND, snd r) c2
           | (True, c2) \<Rightarrow>
               (case PollAnswer P 16 r (WriteData P Command c2) of
                  (Acked, r', c3) \<Rightarrow> (True, r', c3)
                | (Resend, r', c3) \<Rightarrow> SendAttempts P n Command r' c3
                | (Unanswered, r', c3) \<Rightarrow> SendAttempts P n Command (MOUSE_CMD_RESULT_TIMEOUT_WAITING_ACK, snd r') c3)))"

definition SendMouseCommand :: "'c ps2 \<Rightarrow> u8 \<Rightarrow> 'c \<Rightarrow> bool \<times> (nat \<times> u8) \<times> 'c" where
  "SendMouseCommand P Command c = SendAttempts P PS2_MAX_CMD_RETRIES Command (MOUSE_CMD_RESULT_NONE, 0) c"

definition MOUSE_INIT_FAIL_WAIT_IBF_BEFORE_ENABLE_AUX :: nat where "MOUSE_INIT_FAIL_WAIT_IBF_BEFORE_ENABLE_AUX = 1"
definition MOUSE_INIT_FAIL_WAIT_IBF_BEFORE_READ_CFG :: nat where "MOUSE_INIT_FAIL_WAIT_IBF_BEFORE_READ_CFG = 2"
definition MOUSE_INIT_FAIL_WAIT_IBF_BEFORE_WRITE_CFG_CMD :: nat where "MOUSE_INIT_FAIL_WAIT_IBF_BEFORE_WRITE_CFG_CMD = 4"
definition MOUSE_INIT_FAIL_WAIT_IBF_BEFORE_WRITE_CFG_DATA :: nat where "MOUSE_INIT_FAIL_WAIT_IBF_BEFORE_WRITE_CFG_DATA = 5"
definition MOUSE_INIT_FAIL_SET_DEFAULTS :: nat where "MOUSE_INIT_FAIL_SET_DEFAULTS = 6"
definition MOUSE_INIT_FAIL_ENABLE_STREAMING :: nat where "MOUSE_INIT_FAIL_ENABLE_STREAMING = 7"

text \<open>Writing the configuration byte; the failure code is \<open>None\<close> on success.\<close>

definition WriteConfig :: "'c ps2 \<Rightarrow> u8 \<Rightarrow> 'c \<Rightarrow> nat option \<times> 'c" where
  "WriteConfig P Config c =
     (case WaitForControllerInputBufferReady P PS2_DEFAULT_SPIN_COUNT c of
        (False, c1) \<Rightarrow> (Some MOUSE_INIT_FAIL_WAIT_IBF_BEFORE_WRITE_CFG_CMD, c1)
      | (True, c1) \<Rightarrow>
          (case WaitForControllerInputBufferReady P PS2_DEFAULT_SPIN_COUNT (WriteCommand P 0x60 c1) of
             (False, c2) \<Rightarrow> (Some MOUSE_INIT_FAIL_WAIT_IBF_BEFORE_WRITE_CFG_DATA, c2)
           | (True, c2) \<Rightarrow> (None, WriteData P Config c2)))"

text \<open>The configuration to start from, with the keyboard's interrupt on and the mouse's clock running.\<close>

definition ControllerConfig :: "u8 option \<Rightarrow> u8" where
  "ControllerConfig Answer =
     (case Answer of None \<Rightarrow> (1 OR 2) AND NOT 0x20 | Some v \<Rightarrow> (v OR 1) AND NOT 0x20)"

definition SendInitCommands :: "'c ps2 \<Rightarrow> u8 \<Rightarrow> mouse \<Rightarrow> 'c \<Rightarrow> (bool \<times> mouse) \<times> 'c" where
  "SendInitCommands P DuringInit ms c =
     (case SendMouseCommand P 0xF6 c of (DefaultsSet, (dr, dp), c1) \<Rightarrow>
      case SendMouseCommand P 0xF4 c1 of (StreamingEnabled, (sr, sp), c2) \<Rightarrow>
        let ms1 = ms\<lparr>DefaultsCommandResult := dr, DefaultsCommandResponse := dp, StreamingCommandResult := sr,
                    StreamingCommandResponse := sp\<rparr>
        in case (if DefaultsSet \<and> StreamingEnabled then WriteConfig P (DuringInit OR 2) c2 else (None, c2)) of
             (Some code, c3) \<Rightarrow> ((False, ms1\<lparr>InitFailureCode := code\<rparr>), c3)
           | (None, c3) \<Rightarrow>
               ((DefaultsSet \<and> StreamingEnabled,
                 ms1\<lparr>InitFailureCode := (if \<not> DefaultsSet then MOUSE_INIT_FAIL_SET_DEFAULTS
                      else if \<not> StreamingEnabled then MOUSE_INIT_FAIL_ENABLE_STREAMING else MOUSE_INIT_OK)\<rparr>), c3))"

definition InitializeController :: "'c ps2 \<Rightarrow> mouse \<Rightarrow> 'c \<Rightarrow> (bool \<times> mouse) \<times> 'c" where
  "InitializeController P ms c =
     (case WaitForControllerInputBufferReady P PS2_DEFAULT_SPIN_COUNT (DrainControllerOutputBuffer P 64 c) of
        (False, c1) \<Rightarrow> ((False, ms\<lparr>InitFailureCode := MOUSE_INIT_FAIL_WAIT_IBF_BEFORE_ENABLE_AUX\<rparr>), c1)
      | (True, c1) \<Rightarrow>
          (case WaitForControllerInputBufferReady P PS2_DEFAULT_SPIN_COUNT (WriteCommand P 0xA8 c1) of
             (False, c2) \<Rightarrow> ((False, ms\<lparr>InitFailureCode := MOUSE_INIT_FAIL_WAIT_IBF_BEFORE_READ_CFG\<rparr>), c2)
           | (True, c2) \<Rightarrow>
               (case ReadControllerDataByte P PS2_DEFAULT_SPIN_COUNT (WriteCommand P 0x20 c2) of
                  (Answer, c3) \<Rightarrow>
                    let DuringInit = ControllerConfig Answer AND NOT 2;
                        c3' = (if Answer = None then snd (ReadStatus P c3) else c3)
                    in case WriteConfig P DuringInit c3' of
                         (Some code, c4) \<Rightarrow> ((False, ms\<lparr>InitFailureCode := code\<rparr>), c4)
                       | (None, c4) \<Rightarrow> SendInitCommands P DuringInit ms (DrainControllerOutputBuffer P 32 c4))))"

definition Mouse_Initialize :: "'c ps2 \<Rightarrow> mouse \<Rightarrow> 'c \<Rightarrow> mouse \<times> 'c" where
  "Mouse_Initialize P ms c =
     (let ms1 = Mouse\<lparr>PendingPacket := PendingPacket ms\<rparr>
      in case InitializeController P ms1 c of ((ok, ms2), c1) \<Rightarrow> (ms2\<lparr>ControllerInitialized := ok\<rparr>, c1))"

end
