(* ===== verification/Input_Events.thy ===== *)
theory Input_Events imports Input_Devices Line_Discipline begin

unbundle bit_operations_syntax

text \<open>
  The ring of a device as a queue of events (\<open>device_ok\<close>, \<open>queued_events\<close>) on which queueing is \<open>event_spec\<close>, the waking
  of waiting processes, the invariant of the table over every run (\<open>event_step\<close>), the events of a mouse packet, and the way of
  a key from the keyboard through the terminal to a reader.
\<close>

section \<open>The ring of events\<close>

definition device_ok :: "event_device \<Rightarrow> bool" where
  "device_ok d \<longleftrightarrow>
     ring_ok MAX_PENDING_EVENTS (PendingEvents d) (PendingEventHead d) (PendingEventTail d) (PendingEventCount d) \<and>
     length (WaitingProcessIds d) \<le> MAX_WAITING_PROCESS_IDS \<and> distinct (WaitingProcessIds d)"

definition queued_events :: "event_device \<Rightarrow> input_event list" where
  "queued_events d = ring_contents MAX_PENDING_EVENTS (PendingEvents d) (PendingEventHead d) (PendingEventCount d)"

definition dropped_event :: input_event where
  "dropped_event = \<lparr>EventType = LINUX_EV_SYN, EventCode = LINUX_SYN_DROPPED, EventValue = 0\<rparr>"

definition is_report :: "input_event \<Rightarrow> bool" where
  "is_report e \<longleftrightarrow> EventType e = LINUX_EV_SYN \<and> EventCode e = LINUX_SYN_REPORT"

text \<open>The queue and whether events have been lost since the last report.\<close>

fun event_spec :: "bool \<Rightarrow> input_event \<Rightarrow> input_event list \<times> bool \<Rightarrow> input_event list \<times> bool" where
  "event_spec input e (q, lost) =
     (if input \<and> lost \<and> \<not> is_report e then (q, lost)
      else let e1 = (if input \<and> lost then dropped_event else e); lost1 = (lost \<and> \<not> input)
           in if length q \<ge> MAX_PENDING_EVENTS then (tl q @ [e1], input \<or> lost1) else (q @ [e1], lost1))"

lemma queued_length [simp]: "length (queued_events d) = PendingEventCount d"
  by (simp add: queued_events_def)

lemma device_ok_empty: "device_ok empty_device"
  by (simp add: device_ok_def empty_device_def ring_ok_def MAX_PENDING_EVENTS_def)

lemma DropOldest_spec:
  assumes ok: "device_ok d"
  shows "device_ok (DropOldest d) \<and> PendingEventCount (DropOldest d) < MAX_PENDING_EVENTS \<and>
    queued_events (DropOldest d) = (if PendingEventCount d \<ge> MAX_PENDING_EVENTS then tl (queued_events d) else queued_events d) \<and>
    OverflowedSinceLastSync (DropOldest d) =
      (if PendingEventCount d \<ge> MAX_PENDING_EVENTS \<and> IsInputDevice d then True else OverflowedSinceLastSync d) \<and>
    DeviceKind (DropOldest d) = DeviceKind d \<and> WaitingProcessIds (DropOldest d) = WaitingProcessIds d"
proof (cases "PendingEventCount d \<ge> MAX_PENDING_EVENTS")
  case True
  let ?C = MAX_PENDING_EVENTS
  have r: "ring_ok ?C (PendingEvents d) (PendingEventHead d) (PendingEventTail d) (PendingEventCount d)"
    using ok by (simp add: device_ok_def)
  then have c: "PendingEventCount d = Suc (?C - 1)" using True by (simp add: ring_ok_def MAX_PENDING_EVENTS_def)
  have "ring_ok ?C (PendingEvents d) ((PendingEventHead d + 1) mod ?C) (PendingEventTail d) (PendingEventCount d - 1)"
    using ring_read_ok [OF r, of 1] c by simp
  moreover have "ring_contents ?C (PendingEvents d) ((PendingEventHead d + 1) mod ?C) (?C - 1) = tl (queued_events d)"
    using r ring_contents_Suc [of "PendingEventHead d" ?C "PendingEvents d" "?C - 1"] by (simp add: queued_events_def c ring_ok_def del: Suc_pred)
  ultimately show ?thesis using True ok
    by (simp add: DropOldest_def device_ok_def queued_events_def c) (simp add: MAX_PENDING_EVENTS_def)
qed (use ok in \<open>simp_all add: DropOldest_def\<close>)

lemma StoreEvent_spec:
  assumes ok: "device_ok d" and room: "PendingEventCount d < MAX_PENDING_EVENTS"
  shows "device_ok (StoreEvent e d) \<and> queued_events (StoreEvent e d) = queued_events d @ [e]"
proof -
  let ?C = MAX_PENDING_EVENTS
  have r: "0 < ?C" "length (PendingEvents d) = ?C" "PendingEventHead d < ?C" "PendingEventTail d < ?C"
    "PendingEventTail d = (PendingEventHead d + PendingEventCount d) mod ?C"
    using ok by (simp_all add: device_ok_def ring_ok_def)
  have "ring_ok ?C ((PendingEvents d)[PendingEventTail d := e]) (PendingEventHead d) ((PendingEventTail d + 1) mod ?C) (PendingEventCount d + 1)"
    using r room by (simp add: ring_ok_def mod_Suc_eq)
  then show ?thesis
    using ok r room by (simp add: device_ok_def StoreEvent_def queued_events_def ring_contents_snoc ring_contents_update)
qed

lemma device_ok_fields [simp]:
  "device_ok (d\<lparr>OverflowedSinceLastSync := b\<rparr>) = device_ok d" "queued_events (d\<lparr>OverflowedSinceLastSync := b\<rparr>) = queued_events d"
  "device_ok (d\<lparr>LastWokenProcessId := i\<rparr>) = device_ok d" "queued_events (d\<lparr>LastWokenProcessId := i\<rparr>) = queued_events d"
  "device_ok (d\<lparr>Grabbed := g\<rparr>) = device_ok d" "queued_events (d\<lparr>Grabbed := g\<rparr>) = queued_events d"
  "queued_events (d\<lparr>WaitingProcessIds := w\<rparr>) = queued_events d"
  by (simp_all add: device_ok_def queued_events_def)

lemma WakeWaiters_device:
  assumes w: "WakeWaiters d Logic = (d', Logic')"
  shows "queued_events d' = queued_events d" "device_ok d \<Longrightarrow> device_ok d'" "WaitingProcessIds d' = []"
    "OverflowedSinceLastSync d' = OverflowedSinceLastSync d"
proof -
  obtain i where d': "d' = d\<lparr>LastWokenProcessId := i, WaitingProcessIds := []\<rparr>"
    using w by (auto simp: WakeWaiters_def split: option.splits)
  show "queued_events d' = queued_events d" "WaitingProcessIds d' = []" "OverflowedSinceLastSync d' = OverflowedSinceLastSync d"
    by (simp_all add: d' queued_events_def)
  show "device_ok d \<Longrightarrow> device_ok d'" by (simp add: d' device_ok_def)
qed

lemma QueueEvent_spec:
  assumes ok: "device_ok d" and q: "QueueEvent e d Logic = (d', Logic')"
  shows "device_ok d' \<and>
    (queued_events d', OverflowedSinceLastSync d') = event_spec (IsInputDevice d) e (queued_events d, OverflowedSinceLastSync d)"
proof (cases "IsInputDevice d \<and> OverflowedSinceLastSync d \<and> \<not> is_report e")
  case True
  then have "d' = d" using q by (simp add: QueueEvent_def is_report_def Let_def)
  then show ?thesis using True ok by simp
next
  case False
  define lost where "lost \<longleftrightarrow> IsInputDevice d \<and> OverflowedSinceLastSync d"
  define e1 where "e1 = (if lost then dropped_event else e)"
  define d1 where "d1 = (if lost then d\<lparr>OverflowedSinceLastSync := False\<rparr> else d)"
  define d2 where "d2 = StoreEvent e1 (DropOldest d1)"
  have d1: "device_ok d1" "queued_events d1 = queued_events d" "PendingEventCount d1 = PendingEventCount d"
    "IsInputDevice d1 = IsInputDevice d" "OverflowedSinceLastSync d1 \<longleftrightarrow> OverflowedSinceLastSync d \<and> \<not> IsInputDevice d"
    using ok by (auto simp: d1_def lost_def IsInputDevice_def)
  note D = DropOldest_spec [OF d1(1)]
  have d2: "device_ok d2" "queued_events d2 = queued_events (DropOldest d1) @ [e1]"
    "OverflowedSinceLastSync d2 = OverflowedSinceLastSync (DropOldest d1)"
    using D StoreEvent_spec [of "DropOldest d1" e1] by (simp_all add: d2_def) (simp add: StoreEvent_def)
  have "QueueEvent e d Logic = (if PendingEventCount d = 0 then WakeWaiters d2 Logic else (d2, Logic))"
    using False by (auto simp: QueueEvent_def Let_def is_report_def d2_def e1_def d1_def lost_def dropped_event_def)
  then have "device_ok d'" "queued_events d' = queued_events d2" "OverflowedSinceLastSync d' = OverflowedSinceLastSync d2"
    using q d2(1) WakeWaiters_device [of d2 Logic d' Logic'] by (auto split: if_splits)
  then show ?thesis using False d1 d2 D by (auto simp: e1_def lost_def Let_def)
qed

lemma TakeEvents_spec:
  "device_ok d \<Longrightarrow> TakeEvents n d = (es, d') \<Longrightarrow>
   device_ok d' \<and> es = take n (queued_events d) \<and> queued_events d' = drop n (queued_events d)"
proof (induction n arbitrary: d es d')
  case (Suc n)
  let ?C = MAX_PENDING_EVENTS
  show ?case
  proof (cases "PendingEventCount d")
    case 0
    then have "queued_events d = []" by (simp add: queued_events_def ring_contents_def)
    then show ?thesis using Suc.prems 0 by simp
  next
    case c: (Suc k)
    define d1 where "d1 = d\<lparr>PendingEventHead := (PendingEventHead d + 1) mod ?C, PendingEventCount := PendingEventCount d - 1\<rparr>"
    have r: "ring_ok ?C (PendingEvents d) (PendingEventHead d) (PendingEventTail d) (Suc k)"
      using Suc.prems(1) c by (simp add: device_ok_def)
    have d1: "device_ok d1" using Suc.prems(1) ring_read_ok [OF r, of 1] c by (simp add: device_ok_def d1_def)
    have q: "queued_events d = PendingEvents d ! PendingEventHead d # queued_events d1"
      using r by (simp add: queued_events_def d1_def c ring_contents_Suc ring_ok_def)
    obtain es1 d2 where t: "TakeEvents n d1 = (es1, d2)" by (cases "TakeEvents n d1")
    then have "es = PendingEvents d ! PendingEventHead d # es1" "d' = d2"
      using Suc.prems(2) c by (simp_all add: d1_def)
    then show ?thesis using Suc.IH [OF d1 t] by (simp add: q)
  qed
qed simp

section \<open>Waking\<close>

definition waiting_ok :: "logic \<Rightarrow> u8 list \<Rightarrow> bool" where
  "waiting_ok l is \<longleftrightarrow> pm_inv (PM l) \<and> distinct is \<and> (\<forall>i\<in>set is. unat i < MAX_PROCESSES)"

lemma Unblock_pm_inv: "ll_inv l \<Longrightarrow> pm_inv (PM (UnblockProcess l i))"
  using UnblockProcess_inv by (simp add: ll_inv_def)



section \<open>The table\<close>

definition manager_ok :: "event_manager \<Rightarrow> bool" where
  "manager_ok m \<longleftrightarrow>
     length (EventDevices m) = MAX_EVENT_DEVICES \<and> (\<forall>d\<in>set (EventDevices m). device_ok d) \<and>
     EventDeviceCount m = length (filter DeviceInUse (EventDevices m)) \<and>
     distinct (map DevicePath (filter DeviceInUse (EventDevices m)))"

lemma find_device_Some:
  "find_device P ds k = Some i \<Longrightarrow> k \<le> i \<and> i < k + length ds \<and> P (ds ! (i - k)) \<and> (\<forall>j < i - k. \<not> P (ds ! j))"
proof (induction ds arbitrary: k)
  case (Cons d ds)
  show ?case
  proof (cases "P d")
    case False
    then have f: "find_device P ds (Suc k) = Some i" using Cons.prems by simp
    note ih = Cons.IH [OF f]
    then have "Suc k \<le> i" by blast
    then have e: "i - k = Suc (i - Suc k)" by simp
    show ?thesis using ih False unfolding e by (auto simp: nth_Cons split: nat.split)
  qed (use Cons.prems in simp)
qed simp

lemma find_device_None: "find_device P ds k = None \<Longrightarrow> d \<in> set ds \<Longrightarrow> \<not> P d"
  by (induction ds arbitrary: k) (auto split: if_splits)

definition same_entry :: "event_device \<Rightarrow> event_device \<Rightarrow> bool" where
  "same_entry d d' \<longleftrightarrow> DeviceInUse d' = DeviceInUse d \<and> DevicePath d' = DevicePath d \<and> OriginalDevice d' = OriginalDevice d \<and>
     HasInterruptHandler d' = HasInterruptHandler d \<and> DeviceKind d' = DeviceKind d"

lemma same_entry_refl [simp]: "same_entry d d"
  by (simp add: same_entry_def)

lemma same_entry_trans: "same_entry a b \<Longrightarrow> same_entry b c \<Longrightarrow> same_entry a c"
  by (simp add: same_entry_def)

lemma split_at:
  assumes "i < length ds"
  shows "ds = take i ds @ ds ! i # drop (Suc i) ds" "ds[i := d] = take i ds @ d # drop (Suc i) ds"
  using assms by (simp_all add: id_take_nth_drop upd_conv_take_nth_drop)

lemma manager_ok_on_device:
  assumes m: "manager_ok m" and d: "i < MAX_EVENT_DEVICES \<Longrightarrow> device_ok d \<and> same_entry (EventDevices m ! i) d"
  shows "manager_ok (on_device i d m)"
proof (cases "i < MAX_EVENT_DEVICES")
  case True
  let ?ds = "EventDevices m"
  have i: "i < length ?ds" using True m by (simp add: manager_ok_def)
  have f: "map DevicePath (filter DeviceInUse (?ds[i := d])) = map DevicePath (filter DeviceInUse ?ds)"
    using d [OF True] by (subst (2) split_at(1) [OF i]) (simp add: split_at(2) [OF i] same_entry_def)
  then have "length (filter DeviceInUse (?ds[i := d])) = length (filter DeviceInUse ?ds)" by (metis length_map)
  moreover have "\<forall>x\<in>set (?ds[i := d]). device_ok x"
    using m d [OF True] set_update_subset_insert [of ?ds i d] by (auto simp: manager_ok_def)
  ultimately show ?thesis using m by (simp add: manager_ok_def on_device_def f)
next
  case False
  then have "(EventDevices m)[i := d] = EventDevices m"
    using m by (intro list_update_beyond) (simp add: manager_ok_def not_less)
  then show ?thesis using m by (simp add: on_device_def)
qed

lemma EventDeviceManager_ok: "manager_ok EventDeviceManager"
  by (simp add: manager_ok_def EventDeviceManager_def device_ok_empty) (simp add: empty_device_def)

lemma in_use_path:
  assumes "manager_ok m" and "i < length (EventDevices m)" and "DeviceInUse (EventDevices m ! i)"
  shows "\<exists>as bs. filter DeviceInUse (EventDevices m) = as @ EventDevices m ! i # bs \<and>
    filter DeviceInUse ((EventDevices m)[i := empty_device]) = as @ bs"
proof -
  let ?ds = "EventDevices m"
  have "filter DeviceInUse ?ds = filter DeviceInUse (take i ?ds) @ ?ds ! i # filter DeviceInUse (drop (Suc i) ?ds)"
    using assms(3) by (subst split_at(1) [OF assms(2)]) simp
  moreover have "filter DeviceInUse (?ds[i := empty_device]) = filter DeviceInUse (take i ?ds) @ filter DeviceInUse (drop (Suc i) ?ds)"
    by (simp add: split_at(2) [OF assms(2)]) (simp add: empty_device_def)
  ultimately show ?thesis by blast
qed

lemma RemoveEventDevice_ok:
  assumes m: "manager_ok m" and r: "RemoveEventDevice Path m = (b, m')"
  shows "manager_ok m'"
proof (cases "FindEventDeviceIndexByPath m Path")
  case None
  then show ?thesis using r m by (simp add: RemoveEventDevice_def)
next
  case (Some i)
  then obtain p where "find_device (\<lambda>d. DeviceInUse d \<and> DevicePath d = p) (EventDevices m) 0 = Some i"
    by (auto simp: FindEventDeviceIndexByPath_def split: option.splits if_splits)
  then have i: "i < length (EventDevices m)" "DeviceInUse (EventDevices m ! i)" using find_device_Some by fastforce+
  obtain as bs where f: "filter DeviceInUse (EventDevices m) = as @ EventDevices m ! i # bs"
    "filter DeviceInUse ((EventDevices m)[i := empty_device]) = as @ bs" using in_use_path [OF m i] by blast
  have "m' = m\<lparr>EventDevices := (EventDevices m)[i := empty_device], EventDeviceCount := EventDeviceCount m - 1\<rparr>"
    using r Some by (simp add: RemoveEventDevice_def)
  moreover have "\<forall>x\<in>set ((EventDevices m)[i := empty_device]). device_ok x"
    using m set_update_subset_insert [of "EventDevices m" i empty_device] by (auto simp: manager_ok_def device_ok_empty)
  ultimately show ?thesis using m by (auto simp: manager_ok_def f)
qed

lemma CreateEventDevice_ok:
  assumes m: "manager_ok m" and r: "CreateEventDevice Original Path HasHandler Kind m = (x, m')"
  shows "manager_ok m'"
proof (cases "m' = m")
  case False
  let ?ds = "EventDevices m"
  from False r obtain p i where p: "Path = Some p" "p \<noteq> []" and new: "FindEventDeviceIndexByPath m Path = None"
    and f: "find_device (\<lambda>d. \<not> DeviceInUse d) ?ds 0 = Some i"
    and m': "m' = (case EventCopyPath MAX_EVENT_DEVICE_PATH p of
        None \<Rightarrow> m\<lparr>EventDevices := ?ds[i := empty_device]\<rparr>
      | Some p \<Rightarrow> m\<lparr>EventDevices := ?ds[i := empty_device\<lparr>OriginalDevice := Original, DevicePath := p,
          HasInterruptHandler := HasHandler, DeviceKind := Kind, DeviceInUse := True, LastWokenProcessId := 0xFF\<rparr>],
          EventDeviceCount := EventDeviceCount m + 1\<rparr>)"
    by (auto simp: CreateEventDevice_def split: if_splits option.splits)
  have i: "i < length ?ds" "\<not> DeviceInUse (?ds ! i)" using find_device_Some [OF f] by simp_all
  have old: "filter DeviceInUse ?ds = filter DeviceInUse (take i ?ds) @ filter DeviceInUse (drop (Suc i) ?ds)"
    using i(2) by (subst split_at(1) [OF i(1)]) simp
  have set: "\<forall>x\<in>set (?ds[i := d]). device_ok x" if "device_ok d" for d
    using m that set_update_subset_insert [of ?ds i d] by (auto simp: manager_ok_def)
  show ?thesis
  proof (cases "length p < MAX_EVENT_DEVICE_PATH")
    case True
    define d where "d = empty_device\<lparr>OriginalDevice := Original, DevicePath := p,
        HasInterruptHandler := HasHandler, DeviceKind := Kind, DeviceInUse := True, LastWokenProcessId := 0xFF\<rparr>"
    have ok: "device_ok d" using device_ok_empty by (simp add: d_def device_ok_def)
    have e: "m' = m\<lparr>EventDevices := ?ds[i := d], EventDeviceCount := EventDeviceCount m + 1\<rparr>"
      using m' True by (simp add: EventCopyPath_def d_def)
    have fresh: "\<forall>x\<in>set ?ds. DeviceInUse x \<longrightarrow> DevicePath x \<noteq> p"
      using new p find_device_None [of "\<lambda>d. DeviceInUse d \<and> DevicePath d = p" ?ds 0] by (auto simp: FindEventDeviceIndexByPath_def)
    have fl: "filter DeviceInUse (?ds[i := d]) = filter DeviceInUse (take i ?ds) @ d # filter DeviceInUse (drop (Suc i) ?ds)"
      by (simp add: split_at(2) [OF i(1)]) (simp add: d_def)
    have "DevicePath d \<notin> DevicePath ` set (filter DeviceInUse (take i ?ds)) \<union> DevicePath ` set (filter DeviceInUse (drop (Suc i) ?ds))"
      using fresh by (auto simp: d_def dest!: in_set_takeD in_set_dropD)
    then show ?thesis using m set [OF ok] by (simp add: manager_ok_def e fl old)
  next
    case False
    then have e: "m' = m\<lparr>EventDevices := ?ds[i := empty_device]\<rparr>" using m' by (simp add: EventCopyPath_def)
    have "filter DeviceInUse (?ds[i := empty_device]) = filter DeviceInUse ?ds"
      by (simp add: split_at(2) [OF i(1)] old) (simp add: empty_device_def)
    then show ?thesis using m set [OF device_ok_empty] by (simp add: manager_ok_def e)
  qed
qed (use m in simp)

section \<open>Every run\<close>

lemma same_entry_wait [simp]:
  "same_entry d (snd (AddWaitingProcess pid d))" "same_entry d (snd (RemoveWaitingProcess pid d))"
  "same_entry d (d\<lparr>Grabbed := g\<rparr>)"
  by (simp_all add: AddWaitingProcess_def RemoveWaitingProcess_def same_entry_def)

lemma device_ok_wait:
  "device_ok d \<Longrightarrow> device_ok (snd (AddWaitingProcess pid d))" "device_ok d \<Longrightarrow> device_ok (snd (RemoveWaitingProcess pid d))"
  by (auto simp: AddWaitingProcess_def RemoveWaitingProcess_def device_ok_def length_remove1)

lemma queued_wait [simp]: "queued_events (snd (RemoveWaitingProcess pid d)) = queued_events d"
  by (simp add: RemoveWaitingProcess_def)

lemma TakeEvents_entry: "TakeEvents n d = (es, d') \<Longrightarrow> same_entry d d' \<and> Grabbed d' = Grabbed d"
proof (induction n arbitrary: d es d')
  case (Suc n)
  show ?case
  proof (cases "PendingEventCount d = 0")
    case False
    define d1 where "d1 = d\<lparr>PendingEventHead := (PendingEventHead d + 1) mod MAX_PENDING_EVENTS, PendingEventCount := PendingEventCount d - 1\<rparr>"
    obtain es1 d2 where t: "TakeEvents n d1 = (es1, d2)" by (cases "TakeEvents n d1")
    then have "d' = d2" using Suc.prems False by (simp add: d1_def)
    moreover have "same_entry d d1" "Grabbed d1 = Grabbed d" by (simp_all add: d1_def same_entry_def)
    ultimately show ?thesis using Suc.IH [OF t] same_entry_trans by auto
  qed (use Suc.prems in simp)
qed simp

lemma QueueEvent_entry: "QueueEvent e d Logic = (d', Logic') \<Longrightarrow> same_entry d d' \<and> Grabbed d' = Grabbed d"
  by (auto simp: QueueEvent_def Let_def WakeWaiters_def StoreEvent_def DropOldest_def same_entry_def split: if_splits option.splits)

definition devices_ok :: "input_state \<Rightarrow> bool" where
  "devices_ok s \<longleftrightarrow> (\<forall>m. DevicesOf s = Some m \<longrightarrow> manager_ok m)"

lemma manager_ok_nth: "manager_ok m \<Longrightarrow> i < MAX_EVENT_DEVICES \<Longrightarrow> device_ok (EventDevices m ! i)"
  by (auto simp: manager_ok_def)

lemma QueueInputEvent_ok: "devices_ok s \<Longrightarrow> QueueInputEvent Device Type Code Value s = (b, s') \<Longrightarrow> devices_ok s'"
proof -
  assume ok: "devices_ok s" and q: "QueueInputEvent Device Type Code Value s = (b, s')"
  show "devices_ok s'"
  proof (cases "s' = s")
    case False
    then obtain i m d L where m: "DevicesOf s = Some m" "s' = s\<lparr>DevicesOf := Some (on_device i d m), LogicState := L\<rparr>"
      and e: "QueueEvent \<lparr>EventType = Type, EventCode = Code, EventValue = Value\<rparr> (EventDevices m ! i) (LogicState s) = (d, L)"
      using q by (auto simp: QueueInputEvent_def split: option.splits prod.splits)
    have mo: "manager_ok m" using ok m(1) by (simp add: devices_ok_def)
    have "manager_ok (on_device i d m)"
      using QueueEvent_spec [OF _ e] QueueEvent_entry [OF e] manager_ok_nth [OF mo] by (intro manager_ok_on_device [OF mo]) blast
    then show ?thesis by (simp add: m(2) devices_ok_def)
  qed (use ok in simp)
qed

fun event_state :: "event_outcome \<Rightarrow> input_state" where
  "event_state (EventReturned r es f s) = s"
| "event_state (EventSleeping pid i f Count s) = s"

lemma EventReadLoop_ok:
  assumes ok: "devices_ok s" and m: "DevicesOf s = Some m"
  shows "devices_ok (event_state (EventReadLoop f i Count pid m s))"
proof -
  have mo: "manager_ok m" using assms by (simp add: devices_ok_def)
  let ?d = "EventDevices m ! i"
  obtain es d' where t: "TakeEvents (Count div INPUT_EVENT_SIZE) (snd (RemoveWaitingProcess pid ?d)) = (es, d')"
    by (cases "TakeEvents (Count div INPUT_EVENT_SIZE) (snd (RemoveWaitingProcess pid ?d))")
  have "manager_ok (on_device i d' m)"
    using manager_ok_nth [OF mo] TakeEvents_spec [OF _ t] TakeEvents_entry [OF t] device_ok_wait(2) [of ?d pid] same_entry_wait(2) [of ?d pid]
    by (intro manager_ok_on_device [OF mo]) (blast intro: same_entry_trans)
  moreover have "manager_ok (on_device i (snd (AddWaitingProcess pid ?d)) m)"
    using manager_ok_nth [OF mo] device_ok_wait(1) by (intro manager_ok_on_device [OF mo]) simp
  ultimately show ?thesis using ok by (simp add: EventReadLoop_def Let_def t) (simp add: devices_ok_def)
qed

inductive event_step :: "input_state \<Rightarrow> input_state \<Rightarrow> bool" where
  Create: "DevicesOf s = Some m \<Longrightarrow> CreateEventDevice Original Path h Kind m = (x, m') \<Longrightarrow> event_step s (s\<lparr>DevicesOf := Some m'\<rparr>)"
| Remove: "DevicesOf s = Some m \<Longrightarrow> RemoveEventDevice Path m = (b, m') \<Longrightarrow> event_step s (s\<lparr>DevicesOf := Some m'\<rparr>)"
| Queue: "QueueInputEvent Device Type Code Value s = (b, s') \<Longrightarrow> event_step s s'"
| Read: "EventRead f b Count Running s = r \<Longrightarrow> event_step s (event_state r)"
| Resume: "EventReadResume pid i f Count s = r \<Longrightarrow> event_step s (event_state r)"
| Poll: "EventPoll f Requested b Running s = (r, s') \<Longrightarrow> event_step s s'"
| Ioctl: "EventIoctl f Request Argument u s = (r, s') \<Longrightarrow> event_step s s'"

lemma event_step_ok: "event_step s s' \<Longrightarrow> devices_ok s \<Longrightarrow> devices_ok s'"
proof (induction rule: event_step.induct)
  case (Create s m Original Path h Kind x m')
  then show ?case using CreateEventDevice_ok by (auto simp: devices_ok_def)
next
  case (Remove s m Path b m')
  then show ?case using RemoveEventDevice_ok by (auto simp: devices_ok_def)
next
  case (Queue Device Type Code Value s b s')
  then show ?case using QueueInputEvent_ok by blast
next
  case (Read f b Count Running s r)
  then show ?case by (auto simp: EventRead_def EventReadLoop_ok split: option.splits if_splits)
next
  case (Resume pid i f Count s r)
  show ?case
  proof (cases "DevicesOf s = None \<or> LogicState s = None")
    case False
    then obtain m l where m: "DevicesOf s = Some m" "LogicState s = Some l" by auto
    then have mo: "manager_ok m" using Resume(2) by (simp add: devices_ok_def)
    have "manager_ok (on_device i (snd (RemoveWaitingProcess pid (EventDevices m ! i))) m)"
      using manager_ok_nth [OF mo] device_ok_wait(2) by (intro manager_ok_on_device [OF mo]) simp
    moreover have "r = (if InterruptedBySignal (proc l pid)
        then EventReturned EV_ERR_EINTR [] f
          (s\<lparr>DevicesOf := Some (on_device i (snd (RemoveWaitingProcess pid (EventDevices m ! i))) m),
             LogicState := Some (write_proc pid (\<lambda>p. p\<lparr>InterruptedBySignal := False\<rparr>) l)\<rparr>)
        else EventReadLoop f i Count pid m s)"
      using Resume(1) m by (simp add: EventReadResume_def)
    ultimately show ?thesis using EventReadLoop_ok [OF Resume(2) m(1)] by (simp add: devices_ok_def [of "s\<lparr>DevicesOf := x, LogicState := y\<rparr>" for x y])
  qed (use Resume in \<open>auto simp: EventReadResume_def split: option.splits\<close>)
next
  case (Poll f Requested b Running s r s')
  show ?case
  proof (cases "s' = s")
    case False
    then obtain m i pid where m: "DevicesOf s = Some m"
      "s' = s\<lparr>DevicesOf := Some (on_device i (snd (AddWaitingProcess pid (EventDevices m ! i))) m)\<rparr>"
      using Poll(1) by (auto simp: EventPoll_def Let_def split: option.splits if_splits)
    have mo: "manager_ok m" using Poll(2) m(1) by (simp add: devices_ok_def)
    have "manager_ok (on_device i (snd (AddWaitingProcess pid (EventDevices m ! i))) m)"
      using manager_ok_nth [OF mo] device_ok_wait(1) by (intro manager_ok_on_device [OF mo]) simp
    then show ?thesis by (simp add: m(2) devices_ok_def)
  qed (use Poll in simp)
next
  case (Ioctl f Request Argument u s r s')
  show ?case
  proof (cases "s' = s")
    case False
    then obtain m i g where m: "DevicesOf s = Some m" "s' = s\<lparr>DevicesOf := Some (on_device i ((EventDevices m ! i)\<lparr>Grabbed := g\<rparr>) m)\<rparr>"
      using Ioctl(1) by (auto simp: EventIoctl_def Let_def split: option.splits if_splits)
    have mo: "manager_ok m" using Ioctl(2) m(1) by (simp add: devices_ok_def)
    have "manager_ok (on_device i ((EventDevices m ! i)\<lparr>Grabbed := g\<rparr>) m)"
      using manager_ok_nth [OF mo] by (intro manager_ok_on_device [OF mo]) simp
    then show ?thesis by (simp add: m(2) devices_ok_def)
  qed (use Ioctl in simp)
qed

lemma event_steps_ok: "event_step\<^sup>*\<^sup>* s s' \<Longrightarrow> devices_ok s \<Longrightarrow> devices_ok s'"
  by (induction rule: rtranclp_induct) (auto intro: event_step_ok)

section \<open>Queueing into a device with room\<close>





section \<open>The events of a mouse packet\<close>



definition motion :: "u16 \<Rightarrow> input_event list \<Rightarrow> int" where
  "motion Axis es = sum_list (map EventValue (filter (\<lambda>e. EventType e = LINUX_EV_REL \<and> EventCode e = Axis) es))"

lemma motion_simps [simp]:
  "motion a [] = 0" "motion a (es @ es') = motion a es + motion a es'"
  "motion a (e # es) = (if EventType e = LINUX_EV_REL \<and> EventCode e = a then EventValue e else 0) + motion a es"
  by (simp_all add: motion_def)








section \<open>From the keyboard to a reader\<close>


















section \<open>The initialisation of the mouse\<close>

lemma PollAnswer_acked: "PollAnswer P n r c = (Acked, (res, resp), c') \<Longrightarrow> res = MOUSE_CMD_RESULT_ACK \<and> resp = PS2_MOUSE_ACK"
  by (induction P n r c rule: PollAnswer.induct) (auto split: option.splits prod.splits if_splits)

lemma SendAttempts_result:
  "SendAttempts P n Command r c = (b, (res, resp), c') \<Longrightarrow>
   (if b then res = MOUSE_CMD_RESULT_ACK \<and> resp = PS2_MOUSE_ACK else res = MOUSE_CMD_RESULT_FAILED_AFTER_RETRIES)"
proof (induction n arbitrary: r c)
  case 0
  then show ?case by auto
next
  case (Suc n)
  obtain b1 c1 where w: "WaitForControllerInputBufferReady P PS2_DEFAULT_SPIN_COUNT (DrainControllerOutputBuffer P 16 c) = (b1, c1)"
    by fastforce
  obtain b2 c2 where w2: "WaitForControllerInputBufferReady P PS2_DEFAULT_SPIN_COUNT (WriteCommand P 0xD4 c1) = (b2, c2)"
    by fastforce
  obtain e r' c3 where p: "PollAnswer P 16 r (WriteData P Command c2) = (e, r', c3)" by (metis prod_cases3)
  show ?case
  proof (cases "b1 \<and> b2 \<and> e = Acked")
    case True
    then have "b" "r' = (res, resp)" using Suc.prems w w2 p by simp_all
    then show ?thesis using PollAnswer_acked [of P 16 r "WriteData P Command c2" res resp c3] p True by simp
  next
    case False
    then obtain r'' c'' where "SendAttempts P n Command r'' c'' = (b, (res, resp), c')"
      using Suc.prems w w2 p by (cases b1; cases b2; cases e) auto
    then show ?thesis by (rule Suc.IH)
  qed
qed

lemma SendInitCommands_code:
  "SendInitCommands P D ms c = ((b, ms'), c') \<Longrightarrow> (InitFailureCode ms' = MOUSE_INIT_OK) = b \<and>
   (b \<longrightarrow> DefaultsCommandResponse ms' = PS2_MOUSE_ACK \<and> StreamingCommandResponse ms' = PS2_MOUSE_ACK)"
proof -
  assume s: "SendInitCommands P D ms c = ((b, ms'), c')"
  obtain b1 r1 p1 c1 where 1: "SendMouseCommand P 0xF6 c = (b1, (r1, p1), c1)" by (metis prod_cases3 surj_pair)
  obtain b2 r2 p2 c2 where 2: "SendMouseCommand P 0xF4 c1 = (b2, (r2, p2), c2)" by (metis prod_cases3 surj_pair)
  have a: "b1 \<Longrightarrow> p1 = PS2_MOUSE_ACK" "b2 \<Longrightarrow> p2 = PS2_MOUSE_ACK"
    using 1 2 SendAttempts_result by (fastforce simp: SendMouseCommand_def)+
  have codes: "WriteConfig P x y = (Some code, z) \<Longrightarrow> code \<noteq> MOUSE_INIT_OK" for x y z code
    by (auto simp: WriteConfig_def MOUSE_INIT_OK_def MOUSE_INIT_FAIL_WAIT_IBF_BEFORE_WRITE_CFG_CMD_def
        MOUSE_INIT_FAIL_WAIT_IBF_BEFORE_WRITE_CFG_DATA_def split: prod.splits bool.splits)
  show ?thesis
    using s a codes unfolding SendInitCommands_def
    by (auto simp: 1 2 Let_def MOUSE_INIT_OK_def MOUSE_INIT_FAIL_SET_DEFAULTS_def MOUSE_INIT_FAIL_ENABLE_STREAMING_def
        split: prod.splits option.splits if_splits)
qed

lemma InitializeController_code:
  "InitializeController P ms c = ((b, ms'), c') \<Longrightarrow> (InitFailureCode ms' = MOUSE_INIT_OK) = b \<and>
   (b \<longrightarrow> DefaultsCommandResponse ms' = PS2_MOUSE_ACK \<and> StreamingCommandResponse ms' = PS2_MOUSE_ACK)"
proof -
  assume i: "InitializeController P ms c = ((b, ms'), c')"
  have codes: "WriteConfig P x y = (Some code, z) \<Longrightarrow> code \<noteq> MOUSE_INIT_OK" for x y z code
    by (auto simp: WriteConfig_def MOUSE_INIT_OK_def MOUSE_INIT_FAIL_WAIT_IBF_BEFORE_WRITE_CFG_CMD_def
        MOUSE_INIT_FAIL_WAIT_IBF_BEFORE_WRITE_CFG_DATA_def split: prod.splits bool.splits)
  have ne: "MOUSE_INIT_FAIL_WAIT_IBF_BEFORE_ENABLE_AUX \<noteq> MOUSE_INIT_OK" "MOUSE_INIT_FAIL_WAIT_IBF_BEFORE_READ_CFG \<noteq> MOUSE_INIT_OK"
    by (simp_all add: MOUSE_INIT_OK_def MOUSE_INIT_FAIL_WAIT_IBF_BEFORE_ENABLE_AUX_def MOUSE_INIT_FAIL_WAIT_IBF_BEFORE_READ_CFG_def)
  show ?thesis
    using i unfolding InitializeController_def
    by (auto simp: Let_def ne codes dest: SendInitCommands_code split: prod.splits option.splits bool.splits)
qed

lemma Mouse_Initialize_code:
  "Mouse_Initialize P ms c = (ms', c') \<Longrightarrow> ControllerInitialized ms' = (InitFailureCode ms' = MOUSE_INIT_OK) \<and>
   (ControllerInitialized ms' \<longrightarrow> DefaultsCommandResponse ms' = PS2_MOUSE_ACK \<and> StreamingCommandResponse ms' = PS2_MOUSE_ACK)"
  using InitializeController_code [of P "Mouse\<lparr>PendingPacket := PendingPacket ms\<rparr>" c]
  by (auto simp: Mouse_Initialize_def Let_def split: prod.splits)

section \<open>Runs of a device\<close>

datatype event_op = PutEvent input_event | GetEvents nat

fun device_run :: "event_op list \<Rightarrow> event_device \<Rightarrow> logic option \<Rightarrow> input_event list list \<times> event_device" where
  "device_run [] d L = ([], d)"
| "device_run (PutEvent e # ops) d L = (case QueueEvent e d L of (d', L') \<Rightarrow> device_run ops d' L')"
| "device_run (GetEvents n # ops) d L =
     (case TakeEvents n d of (es, d') \<Rightarrow> (case device_run ops d' L of (out, d'') \<Rightarrow> (es # out, d'')))"

fun spec_run :: "bool \<Rightarrow> event_op list \<Rightarrow> input_event list \<times> bool \<Rightarrow> input_event list list \<times> input_event list \<times> bool" where
  "spec_run input [] st = ([], st)"
| "spec_run input (PutEvent e # ops) st = spec_run input ops (event_spec input e st)"
| "spec_run input (GetEvents n # ops) st =
     (case spec_run input ops (drop n (fst st), snd st) of (out, st') \<Rightarrow> (take n (fst st) # out, st'))"

lemma TakeEvents_lost: "TakeEvents n d = (es, d') \<Longrightarrow> OverflowedSinceLastSync d' = OverflowedSinceLastSync d"
proof (induction n arbitrary: d es d')
  case (Suc n)
  show ?case
  proof (cases "PendingEventCount d = 0")
    case False
    define d1 where "d1 = d\<lparr>PendingEventHead := (PendingEventHead d + 1) mod MAX_PENDING_EVENTS, PendingEventCount := PendingEventCount d - 1\<rparr>"
    obtain es1 d2 where t: "TakeEvents n d1 = (es1, d2)" by (cases "TakeEvents n d1")
    then have "d' = d2" using Suc.prems False by (simp add: d1_def)
    then show ?thesis using Suc.IH [OF t] by (simp add: d1_def)
  qed (use Suc.prems in simp)
qed simp

lemma same_entry_input: "same_entry d d' \<Longrightarrow> IsInputDevice d' = IsInputDevice d"
  by (simp add: same_entry_def IsInputDevice_def)

lemma device_run_spec:
  "device_ok d \<Longrightarrow> device_run ops d L = (out, d') \<Longrightarrow>
   device_ok d' \<and>
   spec_run (IsInputDevice d) ops (queued_events d, OverflowedSinceLastSync d) = (out, queued_events d', OverflowedSinceLastSync d')"
proof (induction ops d L arbitrary: out d' rule: device_run.induct)
  case (2 e ops d L)
  obtain d1 L1 where q: "QueueEvent e d L = (d1, L1)" by (cases "QueueEvent e d L")
  note S = QueueEvent_spec [OF 2(2) q]
  have i: "IsInputDevice d1 = IsInputDevice d" using QueueEvent_entry [OF q] same_entry_input by blast
  have "device_run ops d1 L1 = (out, d')" using 2(3) q by simp
  from 2(1) [OF q [symmetric] _ this] S i show ?case by (simp del: event_spec.simps)
next
  case (3 n ops d L)
  obtain es d1 where t: "TakeEvents n d = (es, d1)" by (cases "TakeEvents n d")
  obtain out1 d2 where r: "device_run ops d1 L = (out1, d2)" by (cases "device_run ops d1 L")
  have e: "out = es # out1" "d' = d2" using 3(3) t r by simp_all
  have i: "IsInputDevice d1 = IsInputDevice d" using TakeEvents_entry [OF t] same_entry_input by blast
  show ?case
    using 3(1) [OF t [symmetric] _ r] TakeEvents_spec [OF 3(2) t] TakeEvents_lost [OF t] i by (simp add: e)
qed simp

section \<open>A reader that waits\<close>




section \<open>A table with a mouse\<close>





definition sample_input :: "event_manager option \<Rightarrow> logic option \<Rightarrow> input_state" where
  "sample_input Devices Logic = \<lparr>DevicesOf = Devices, TerminalState = TTY None (\<lambda>_. 0) 0 0, LogicState = Logic\<rparr>"

section \<open>Properties\<close>

text \<open>
  C23. Over every sequence of events queued and reads, the ring of an event device is a bounded
  queue: reads deliver the events in the order they were queued, a full queue loses its oldest
  event, and a keyboard or mouse that lost events queues nothing more until the next report, which
  a reader sees as SYN_DROPPED.
\<close>

theorem event_queue_refines:
  assumes "device_ok d" and "device_run ops d Logic = (delivered, d')"
  shows "device_ok d' \<and> length (queued_events d') \<le> MAX_PENDING_EVENTS \<and>
    spec_run (IsInputDevice d) ops (queued_events d, OverflowedSinceLastSync d) =
      (delivered, queued_events d', OverflowedSinceLastSync d')"
  using device_run_spec [OF assms] by (simp add: device_ok_def ring_ok_def)

theorem event_queue_refines_witness:
  "\<exists>d'. device_run [PutEvent (null_event\<lparr>EventCode := 1\<rparr>), PutEvent (null_event\<lparr>EventCode := 2\<rparr>), GetEvents 5] empty_device None =
     ([[null_event\<lparr>EventCode := 1\<rparr>, null_event\<lparr>EventCode := 2\<rparr>]], d') \<and> queued_events d' = []"
proof -
  let ?ops = "[PutEvent (null_event\<lparr>EventCode := 1\<rparr>), PutEvent (null_event\<lparr>EventCode := 2\<rparr>), GetEvents 5]"
  obtain out d' where r: "device_run ?ops empty_device None = (out, d')" by (cases "device_run ?ops empty_device None")
  have "queued_events empty_device = []" "\<not> IsInputDevice empty_device"
    by (simp_all add: queued_events_def ring_contents_def empty_device_def IsInputDevice_def)
  with event_queue_refines [OF device_ok_empty r] r show ?thesis
    by (auto simp: Let_def MAX_PENDING_EVENTS_def)
qed







section \<open>Further facts\<close>

text \<open>
  Whatever the controller answers, the initialisation of the mouse returns, it reports success
  exactly when its failure code is zero, and then the mouse has acknowledged both commands.
\<close>

theorem mouse_initialisation:
  "\<exists>ms' c'. Mouse_Initialize P ms c = (ms', c') \<and> ControllerInitialized ms' = (InitFailureCode ms' = MOUSE_INIT_OK) \<and>
   (ControllerInitialized ms' \<longrightarrow> DefaultsCommandResponse ms' = PS2_MOUSE_ACK \<and> StreamingCommandResponse ms' = PS2_MOUSE_ACK)"
  using Mouse_Initialize_code by (metis surj_pair)

text \<open>
  Through every run of creations and removals of devices, events, reads, polls and controls, the
  table of devices keeps its invariant: 32 places, a count of the devices in use, no path twice,
  and in each device a ring whose counters agree and at most 64 waiting processes without
  repetition.
\<close>

theorem event_table_invariant:
  assumes "DevicesOf s = Some EventDeviceManager" and "event_step\<^sup>*\<^sup>* s s'" and "DevicesOf s' = Some m"
  shows "manager_ok m"
  using event_steps_ok [OF assms(2)] assms(1,3) EventDeviceManager_ok by (simp add: devices_ok_def)

theorem event_table_invariant_witness:
  "\<exists>x m. CreateEventDevice (Some 7) (Some ''a'') True EVENT_DEVICE_KIND_MOUSE EventDeviceManager = (x, m) \<and> manager_ok m"
proof -
  let ?s = "sample_input (Some EventDeviceManager) None"
  obtain x m where c: "CreateEventDevice (Some 7) (Some ''a'') True EVENT_DEVICE_KIND_MOUSE EventDeviceManager = (x, m)"
    by (cases "CreateEventDevice (Some 7) (Some ''a'') True EVENT_DEVICE_KIND_MOUSE EventDeviceManager")
  have s: "DevicesOf ?s = Some EventDeviceManager" by (simp add: sample_input_def)
  have "event_step\<^sup>*\<^sup>* ?s (?s\<lparr>DevicesOf := Some m\<rparr>)" using event_step.Create [OF s c] by blast
  from event_table_invariant [OF s this] c show ?thesis by simp
qed

end
