(* ===== verification/Spec2Isabelle.thy ===== *)
theory Spec2Isabelle imports Process_Control Physical_Memory Ram_FileSystem ELF_Manager Socket_Connections
  Kernel_Heap_Blocks Page_Mapping File_Paths Terminal_Screen Input_Events
begin

text \<open>
  TwistedOS is a 64-bit kernel in C++. Its \<open>LogicLayer\<close> owns the processes and their scheduling, the
  \<open>ResourceLayer\<close> the memory, the initramfs, the file systems and the devices, and the translation layer
  turns Linux system calls into calls of the two. This development models the logic layer's process
  control with the managers it calls, the physical memory manager, the initramfs and ELF readers, the
  pipes, the sockets, the kernel heap, the page tables, the virtual file system, the terminal and the
  input devices. All paths are under \<open>src/Kernel\<close>.

  \<^item> \<open>Kernel_Prelude\<close>: word types, pointers (\<open>None\<close> is null), 64-bit wrap-around, lists edited at the first
    match, and the collections of simplification rules the other theories add to.
  \<^item> \<open>Intrusive_Queue\<close> (\<open>Layers/Logic/IntrusiveQueue.hpp\<close>): the queue over an explicit heap of \<open>Next\<close> links;
    a walk along the links is a \<open>partial_function\<close>, so a cyclic queue is \<open>None\<close>. \<open>queue_rep\<close> relates it to the
    list of its nodes, and every operation is proved to be the list operation, with the links of
    removed nodes cleared.
  \<^item> \<open>Scheduler_Model\<close> (\<open>Layers/Logic/Scheduler.cpp\<close>): the scheduler over that queue, its specification
    \<open>ready_state\<close> (a list of ids and whether a current one is set), the simulation between them, and the
    locale of a round-robin ready queue with the laws the logic layer uses.
  \<^item> \<open>Process_Manager\<close> (\<open>Layers/Logic/ProcessManager.cpp\<close>): the process records, the table, and \<open>pm_inv\<close>: slot
    \<open>i\<close> has id \<open>i\<close>, tables of the declared sizes, and nothing owned when it is terminated.
  \<^item> \<open>Synchronization_Manager\<close> (\<open>Layers/Logic/SynchronizationManager.cpp\<close>): sleepers, TTY waiters, event
    queues and futex waiters. An intrusive queue is a list here, as the first two theories justify.
    \<open>epoll_ctl_spec\<close> is the specification over a map from (process, descriptor) to interest lists.
  \<^item> \<open>User_Memory\<close> (\<open>LogicLayer.cpp\<close>, \<open>Layers/Resource/VirtualAddressSpace.cpp\<close>): the range checks, the walk of the
    page tables as the memory holds them, and the copies between the kernel and a process. The machine
    state is \<open>CR3\<close>, the words of the page tables, the address spaces, and a log of the effects outside the model
    (copies, releases, switches) in the order they happen.
  \<^item> \<open>Virtual_Memory\<close> (\<open>Memory/VirtualMemoryManager.cpp\<close>, \<open>VirtualAddressSpace.cpp\<close>): the page tables, as the
    words the memory holds, with mapping, protecting, unmapping, the copy of a hierarchy and the mapping of an
    address space. \<open>Page_Tables\<close> gives the tree of tables its invariant \<open>vm_wf\<close> and the translation it defines;
    \<open>Page_Mapping\<close> proves that the operations are updates of that translation, and that what they map for user
    code is what the checks of \<open>User_Memory\<close> accept.
  \<^item> \<open>Process_Control\<close> (\<open>LogicLayer.cpp\<close>): kill, signals, sleep, block, wake, tick, schedule and switch over all
    of the above. \<open>ll_step\<close> and \<open>ll_reachable\<close> are its runs, \<open>ll_inv\<close> their invariant.
  \<^item> \<open>Physical_Memory\<close> (\<open>Memory/PhysicalMemoryManager.cpp\<close>): the bump allocator and the buddy allocator. A free
    list is the list of its block addresses. The abstraction is the multiset of free pages; \<open>accounts\<close>
    adds the blocks the clients hold.
  \<^item> \<open>Ram_FileSystem\<close> (\<open>Layers/Resource/RamFileSystemManager.cpp\<close>): the cpio reader over the bytes of the image. A
    load outside the image is \<open>None\<close>, so a returned value says that the reader stayed inside. \<open>cpio_archive\<close>
    is a writer of the format, for the round trips.
  \<^item> \<open>Virtual_File_System\<close> (\<open>Layers/Logic/VirtualFileSystem.cpp\<close>): directory entries and inodes, named by numbers
    that are never reused, the resolution of paths, the changes of the tree, mounting, and the contents of files.
    \<open>File_Tree\<close> proves that the entries form a tree (\<open>vfs_wf\<close>) and what cutting and grafting a branch do to the
    paths; \<open>File_Operations\<close> that deleting, renaming and linking are the corresponding changes of the map from paths
    to inodes; \<open>File_Paths\<close> the same of making paths and of mounting the initramfs, and \<open>vfs_step\<close>, the runs.
  \<^item> \<open>Frame_Buffer\<close> and \<open>Terminal\<close> (\<open>Layers/Resource/FrameBuffer.cpp\<close>, \<open>Layers/Resource/TTY.cpp\<close>): the screen as the
    bytes of its buffer, the terminal's ring of input, its output with escape sequences, and the file operations of
    both. \<open>Line_Discipline\<close> proves that the ring is the lines entered and the line being edited, and with canonical mode
    off a \<open>byte_channel\<close>; \<open>Terminal_Screen\<close> that output stays inside the buffer, the cursor on the screen, and that a
    mapping of the frame buffer into a process translates to it.
  \<^item> \<open>Event_Devices\<close> and \<open>Input_Devices\<close> (\<open>Layers/Resource/EventDeviceManager.cpp\<close>, \<open>Keyboard.cpp\<close>, \<open>Mouse.cpp\<close>): the
    rings of input events with the processes waiting for them, and the two drivers. The ports of the controller are a
    parameter. \<open>Input_Events\<close> proves that a ring is a bounded queue (\<open>event_spec\<close>), that a waiting reader is woken,
    what the packets of the mouse report, and follows a key from its scan code to the program that reads the terminal.
  \<^item> \<open>ELF_Manager\<close> (\<open>Layers/Logic/ELFManager.cpp\<close>): the ELF checks and the interpreter path, with the same
    treatment of loads.
  \<^item> \<open>Ring_Buffer\<close> and \<open>Pipe_Manager\<close> (\<open>Layers/Logic/InterProcessComunicationManager.cpp\<close>): the byte rings and the
    pipes. \<open>byte_channel\<close> is the interface of a bounded byte queue; a pipe interprets it. \<open>pipes_inv\<close> ties the
    reference counts to the tracked descriptors.
  \<^item> \<open>Socket_Manager\<close> (the same file): the sockets, as a heap of socket objects that point at each other.
    \<open>Socket_Connections\<close> proves \<open>socket_inv\<close> for every operation: peers and pending connections never dangle,
    bound addresses do not conflict; a connection interprets \<open>byte_channel\<close> as well.
  \<^item> \<open>Kernel_Heap\<close> (\<open>Layers/Resource/KernelHeapManager.cpp\<close>): the slab allocator behind \<open>operator new\<close>, down to
    the free lists and headers it keeps in the memory it manages. \<open>Kernel_Heap_Pages\<close> proves the operations on
    pages and their doubly linked lists, \<open>Kernel_Heap_Blocks\<close> that the heap refines an abstract memory; the
    locale \<open>allocator\<close> is what its clients rely on.

  Interaction: \<open>Process_Control\<close> uses the scheduler through its specification, the process table and the
  synchronization manager directly, and the machine of \<open>User_Memory\<close>. The invariant \<open>ll_inv\<close> spans them: a queued
  process is ready or running, a sleeping one blocked, and at most one runs.

  Loops. Structural ones are \<open>fun\<close>; the buddy and page loops are \<open>function\<close>s with a measure; the walks of the
  intrusive queue are partial functions, proved to return on well-formed queues. Fuel has the
  enumeration of the initramfs, the size of the image plus one: each step advances by at least the size of
  a header, and \<open>initramfs_untrusted_image\<close> shows that it suffices; and the walks up and down the tree of
  entries, the number of entries ever made, which bounds every path (\<open>walk_length\<close>). A call that switches processes ends
  at the switch, and the code after it is a definition of its own.

  Conventions. Heap objects are named by their addresses, which an allocating operation takes as an argument,
  \<open>None\<close> when the allocation fails; \<open>delete\<close> is an effect or the removal of the object. Integers that the
  code lets wrap are words or under \<open>w64\<close>; counters and sizes the invariants bound are naturals.

  Not modelled: output to the console and the debug builds' traces; the assembly, port I/O and descriptor
  tables; the boot loader, which calls the firmware; the vendored \<open>printf\<close> and the font; and, of the logic
  layer, exec and fork; the extended file system and the partitions, and the system calls themselves.
\<close>

end
